(* ===== verification/RF_Prelude.thy ===== *)
theory RF_Prelude
  imports Complex_Main "HOL-Library.Word" "HOL-Library.List_Lexorder" "HOL-Library.Char_ord"
    "HOL-Library.Sublist"
begin

text \<open>
  Shared vocabulary of the development.
  \<^item> Machine integers: Rust's \<open>u8 .. u64\<close>, \<open>i32\<close>, \<open>i64\<close> are words of that width. The release
    profile of the workspace does not turn overflow checks on, so \<open>+\<close>, \<open>-\<close> and \<open>*\<close> wrap, which is
    what word arithmetic does; \<open>saturating_*\<close> and \<open>checked_*\<close> are written out here.
  \<^item> Time: a \<open>DateTime<Utc>\<close> is an \<^typ>\<open>int\<close> counting nanoseconds since the epoch.
  \<^item> Strings and byte keys are \<^typ>\<open>string\<close>, a list of 8-bit characters.
  \<^item> Effects: \<open>('s, 'e, 'a) prog\<close> is a state transformer that either returns or fails; it models an
    \<open>async fn .. -> Result<T, E>\<close> over the state \<open>'s\<close>. \<open>bindM\<close> is the \<open>?\<close> operator, \<open>handleM\<close> a
    \<open>match\<close> on the result.
  \<^item> \<open>yields S m r S'\<close> is total correctness with a fixed result: from every state in \<open>S\<close> the program
    ends with the result \<open>r\<close> in a state of \<open>S'\<close>; its rules are the collection \<open>yld\<close>.
  \<^item> \<open>valid\<close> is the Hoare triple over such programs (one postcondition for \<open>Ok\<close>, one for \<open>Err\<close>) and
    \<open>preserves\<close> its invariant form; their rules are the collections \<open>wp\<close> and \<open>pres\<close>.
\<close>

named_theorems wp \<open>weakest-precondition style rules for programs\<close>
named_theorems pres \<open>invariant preservation rules for programs\<close>
named_theorems yld \<open>rules for the result a program is certain to yield\<close>

section \<open>Panics\<close>

text \<open>The outcome of code that may panic, where that is not ruled out. Indexing goes through \<open>with_at\<close>, so a bounds
  check that fails is a branch of the model.\<close>

datatype 'a panics = Panic | Returns 'a

definition with_at :: "'a list \<Rightarrow> nat \<Rightarrow> ('a \<Rightarrow> 'b panics) \<Rightarrow> 'b panics" where
  "with_at xs i k = (if i < length xs then k (xs ! i) else Panic)"

lemma with_at_cong [fundef_cong]:
  "xs = ys \<Longrightarrow> i = j \<Longrightarrow> (j < length ys \<Longrightarrow> k (ys ! j) = l (ys ! j)) \<Longrightarrow> with_at xs i k = with_at ys j l"
  by (simp add: with_at_def)

lemma with_at_in [simp]: "i < length xs \<Longrightarrow> with_at xs i k = k (xs ! i)"
  by (simp add: with_at_def)

lemma with_at_out [simp]: "length xs \<le> i \<Longrightarrow> with_at xs i k = Panic"
  by (simp add: with_at_def)

section \<open>Machine integers\<close>

type_synonym u8 = "8 word"
type_synonym u32 = "32 word"
type_synonym u64 = "64 word"
type_synonym i32 = "32 word"
type_synonym i64 = "64 word"
type_synonym timestamp = int

definition saturating_sub :: "'a::len word \<Rightarrow> 'a word \<Rightarrow> 'a word" where
  "saturating_sub a b = (if a < b then 0 else a - b)"

definition checked_add :: "'a::len word \<Rightarrow> 'a word \<Rightarrow> 'a word option" where
  "checked_add a b = (if unat a + unat b < 2 ^ LENGTH('a) then Some (a + b) else None)"

definition saturating_add :: "'a::len word \<Rightarrow> 'a word \<Rightarrow> 'a word" where
  "saturating_add a b = (if unat a + unat b < 2 ^ LENGTH('a) then a + b else - 1)"

definition saturating_mul :: "'a::len word \<Rightarrow> 'a word \<Rightarrow> 'a word" where
  "saturating_mul a b = (if unat a * unat b < 2 ^ LENGTH('a) then a * b else - 1)"

lemma unat_bound_u32: "unat (n :: u32) < 2 ^ 32"
  using unsigned_less [of n, where ?'a = nat] by simp

lemma unat_bound_u64: "unat (n :: u64) < 2 ^ 64"
  using unsigned_less [of n, where ?'a = nat] by simp

lemma word_pred_less: "(w :: 'a::len word) \<noteq> 0 \<Longrightarrow> w - 1 < w"
  by (simp add: word_less_nat_alt unat_minus_one unat_gt_0)

lemma unat_minus_1:
  "unat (- 1 :: u32) = 2 ^ 32 - 1" "unat (- 1 :: u64) = 2 ^ 64 - 1"
  by (simp_all add: unsigned_minus_1_eq_mask mask_eq_exp_minus_1)

lemma unat_u32_u64 [simp]: "unat (ucast (n :: u32) :: u64) = unat n"
  by (simp add: unsigned_ucast_eq take_bit_nat_eq_self_iff order.strict_trans2 [OF unat_bound_u32])

lemma ucast_max_u32: "(ucast (- 1 :: u32) :: u64) = 4294967295"
  by (simp add: word_unat_eq_iff unat_minus_1)

lemma unat_u64_u32: "unat (ucast (n :: u64) :: u32) = unat n mod 2 ^ 32"
  by (simp add: unsigned_ucast_eq take_bit_eq_mod)

lemma unat_saturating_sub: "unat (saturating_sub a b) = unat a - unat b"
  by (auto simp: saturating_sub_def word_less_nat_alt unat_sub_if_size)

lemma unat_add_no_wrap:
  fixes a b :: "'a::len word"
  assumes "unat a + unat b < 2 ^ LENGTH('a)"
  shows "unat (a + b) = unat a + unat b"
  using assms by (simp add: unat_word_ariths)

lemma unat_inc_no_wrap:
  fixes a b :: "'a::len word"
  assumes "unat a < unat b"
  shows "unat (a + 1) = unat a + 1"
proof -
  have "unat b < 2 ^ LENGTH('a)" by (rule unsigned_less)
  with assms have "Suc (unat a) < 2 ^ LENGTH('a)" by linarith
  then show ?thesis by (simp add: unat_word_ariths)
qed

lemma checked_add_Some:
  "checked_add a b = Some c \<Longrightarrow> unat c = unat a + unat b"
  by (auto simp: checked_add_def unat_add_no_wrap split: if_splits)

lemma unat_saturating_add_ge:
  fixes a b :: "'a::len word"
  shows "unat a \<le> unat (saturating_add a b)"
proof (cases "unat a + unat b < 2 ^ LENGTH('a)")
  case True
  then show ?thesis by (simp add: saturating_add_def unat_add_no_wrap)
next
  case False
  have "a \<le> - 1" by simp
  with False show ?thesis by (simp add: saturating_add_def word_le_nat_alt)
qed

lemma unat_ucast_u64 [simp]: "unat (ucast (x :: u32) :: u64) = unat x"
proof -
  have "unat x < 2 ^ 32" using unsigned_less [of x] by simp
  then have "unat x < 2 ^ 64" by simp
  then show ?thesis
    by (simp add: unsigned_ucast_eq take_bit_nat_eq_self)
qed

text \<open>A percentage of a part that does not exceed its whole.\<close>

lemma percent_bounds:
  assumes "a \<le> b" "0 < b"
  shows "0 \<le> real a / real b * 100 \<and> real a / real b * 100 \<le> 100"
  using assms by (simp add: divide_simps)

section \<open>Lists\<close>

text \<open>\<open>chunks(n)\<close> of a slice.\<close>

function chunks :: "nat \<Rightarrow> 'a list \<Rightarrow> 'a list list" where
  "chunks n xs = (if xs = [] then [] else if n = 0 then [xs] else take n xs # chunks n (drop n xs))"
  by pat_completeness auto
termination by (relation "measure (\<lambda>(n, xs). length xs)") auto

declare chunks.simps [simp del]

lemma chunks_concat: "concat (chunks n xs) = xs"
  by (induction n xs rule: chunks.induct) (subst chunks.simps, auto)

section \<open>Time\<close>

definition ns_per_sec :: int where
  "ns_per_sec = 1000000000"

definition ns_per_ms :: int where
  "ns_per_ms = 1000000"

definition duration_seconds :: "int \<Rightarrow> int" where
  "duration_seconds n = n * ns_per_sec"

text \<open>\<open>Duration::as_secs() as i64\<close>\<close>

definition secs_i64 :: "int \<Rightarrow> int" where
  "secs_i64 d = (let s = d div ns_per_sec in if s < 2 ^ 63 then s else s - 2 ^ 64)"

text \<open>\<open>num_seconds\<close> of a chrono duration truncates towards zero.\<close>

definition num_seconds :: "int \<Rightarrow> int" where
  "num_seconds d = sgn d * (\<bar>d\<bar> div ns_per_sec)"

lemma num_seconds_nonneg: "0 \<le> d \<Longrightarrow> num_seconds d = d div ns_per_sec"
  by (cases "d = 0") (auto simp: num_seconds_def)

section \<open>Strings\<close>

type_synonym key = string

definition starts_with :: "string \<Rightarrow> string \<Rightarrow> bool" where
  "starts_with s p = prefix p s"

definition str_contains :: "string \<Rightarrow> string \<Rightarrow> bool" where
  "str_contains s p = list_ex (prefix p) (suffixes s)"

definition strip_prefix :: "string \<Rightarrow> string \<Rightarrow> string option" where
  "strip_prefix s p = (if prefix p s then Some (drop (length p) s) else None)"

definition trim_start_char :: "char \<Rightarrow> string \<Rightarrow> string" where
  "trim_start_char c s = dropWhile (\<lambda>x. x = c) s"

definition trim_end_char :: "char \<Rightarrow> string \<Rightarrow> string" where
  "trim_end_char c s = rev (dropWhile (\<lambda>x. x = c) (rev s))"

function trim_start_str :: "string \<Rightarrow> string \<Rightarrow> string" where
  "trim_start_str p s =
     (if p \<noteq> [] \<and> prefix p s then trim_start_str p (drop (length p) s) else s)"
  by pat_completeness auto
termination
  by (relation "measure (\<lambda>(p, s). length s)") (auto simp: prefix_def)

declare trim_start_str.simps [simp del]

text \<open>\<open>s.split(c).next_back()\<close>: the part after the last separator (all of \<open>s\<close> when there is none).\<close>

definition split_last :: "char \<Rightarrow> string \<Rightarrow> string" where
  "split_last c s = rev (takeWhile (\<lambda>x. x \<noteq> c) (rev s))"

definition split_once :: "char \<Rightarrow> string \<Rightarrow> (string \<times> string) option" where
  "split_once c s =
     (case dropWhile (\<lambda>x. x \<noteq> c) s of
        [] \<Rightarrow> None
      | _ # r \<Rightarrow> Some (takeWhile (\<lambda>x. x \<noteq> c) s, r))"

fun join_strings :: "string \<Rightarrow> string list \<Rightarrow> string" where
  "join_strings sep [] = []"
| "join_strings sep [x] = x"
| "join_strings sep (x # y # xs) = x @ sep @ join_strings sep (y # xs)"

lemma split_last_append [simp]:
  "c \<notin> set b \<Longrightarrow> split_last c (a @ c # b) = b"
  by (auto simp: split_last_def takeWhile_append)

lemma split_once_append [simp]:
  "c \<notin> set a \<Longrightarrow> split_once c (a @ c # b) = Some (a, b)"
  by (induction a) (auto simp: split_once_def split: list.splits)

lemma strip_prefix_append [simp]: "strip_prefix (p @ s) p = Some s"
  by (simp add: strip_prefix_def)

lemma starts_with_append [simp]: "starts_with (p @ s) p"
  by (simp add: starts_with_def)

lemma split_last_no_sep: "c \<notin> set (split_last c s)"
  by (auto simp: split_last_def dest: set_takeWhileD)

text \<open>Decimal output of unsigned and signed integers (\<open>Display\<close>), with zero padding \<open>{:0w}\<close>.\<close>

definition digit_char :: "nat \<Rightarrow> char" where
  "digit_char d = char_of (48 + d)"

fun show_nat :: "nat \<Rightarrow> string" where
  "show_nat n = (if n < 10 then [digit_char n] else show_nat (n div 10) @ [digit_char (n mod 10)])"

declare show_nat.simps [simp del]

definition show_int :: "int \<Rightarrow> string" where
  "show_int i = (if i < 0 then CHR ''-'' # show_nat (nat (- i)) else show_nat (nat i))"

definition pad_zero :: "nat \<Rightarrow> string \<Rightarrow> string" where
  "pad_zero w s = replicate (w - length s) CHR ''0'' @ s"

text \<open>\<open>Debug\<close> output of a \<open>Duration\<close>: the largest unit with a nonzero whole part, trailing zeros of the
  fraction dropped. The micro sign is the two bytes C2 B5.\<close>

definition debug_decimal :: "nat \<Rightarrow> nat \<Rightarrow> nat \<Rightarrow> string" where
  "debug_decimal whole part digits =
     show_nat whole @
     (if part = 0 then [] else ''.'' @ trim_end_char CHR ''0'' (pad_zero digits (show_nat part)))"

definition debug_duration :: "int \<Rightarrow> string" where
  "debug_duration d =
     (let n = nat d
      in if n \<ge> 1000000000 then debug_decimal (n div 1000000000) (n mod 1000000000) 9 @ ''s''
         else if n \<ge> 1000000 then debug_decimal (n div 1000000) (n mod 1000000) 6 @ ''ms''
         else if n \<ge> 1000 then debug_decimal (n div 1000) (n mod 1000) 3 @ [CHR 0xC2, CHR 0xB5] @ ''s''
         else show_nat n @ ''ns'')"

lemma digit_char_inj:
  assumes "a < 10" "b < 10" "digit_char a = digit_char b"
  shows "a = b"
proof -
  have "of_char (digit_char a) = (of_char (digit_char b) :: nat)"
    using assms(3) by simp
  then show ?thesis
    using assms(1,2) by (simp add: digit_char_def)
qed

section \<open>Programs: state, failure and their logic\<close>

type_synonym ('s, 'e, 'a) prog = "'s \<Rightarrow> ('e + 'a) \<times> 's"

definition ret :: "'a \<Rightarrow> ('s, 'e, 'a) prog" where
  "ret a s = (Inr a, s)"

definition throw :: "'e \<Rightarrow> ('s, 'e, 'a) prog" where
  "throw e s = (Inl e, s)"

definition bindM :: "('s, 'e, 'a) prog \<Rightarrow> ('a \<Rightarrow> ('s, 'e, 'b) prog) \<Rightarrow> ('s, 'e, 'b) prog" where
  "bindM m f s = (case m s of (Inl e, t) \<Rightarrow> (Inl e, t) | (Inr a, t) \<Rightarrow> f a t)"

definition handleM ::
    "('s, 'e, 'a) prog \<Rightarrow> ('e \<Rightarrow> ('s, 'f, 'b) prog) \<Rightarrow> ('a \<Rightarrow> ('s, 'f, 'b) prog) \<Rightarrow> ('s, 'f, 'b) prog" where
  "handleM m h f s = (case m s of (Inl e, t) \<Rightarrow> h e t | (Inr a, t) \<Rightarrow> f a t)"

definition map_errM :: "('e \<Rightarrow> 'f) \<Rightarrow> ('s, 'e, 'a) prog \<Rightarrow> ('s, 'f, 'a) prog" where
  "map_errM h m = handleM m (\<lambda>e. throw (h e)) ret"

definition gets :: "('s \<Rightarrow> 'a) \<Rightarrow> ('s, 'e, 'a) prog" where
  "gets f s = (Inr (f s), s)"

definition modifyM :: "('s \<Rightarrow> 's) \<Rightarrow> ('s, 'e, unit) prog" where
  "modifyM f s = (Inr (), f s)"

definition liftR :: "'e + 'a \<Rightarrow> ('s, 'e, 'a) prog" where
  "liftR r s = (r, s)"

text \<open>A program over a state that carries counters beside the state of another program.\<close>

definition on_fst :: "('s, 'e, 'a) prog \<Rightarrow> ('s \<times> 'm, 'e, 'a) prog" where
  "on_fst p x = (case p (fst x) of (r, t) \<Rightarrow> (r, (t, snd x)))"

definition on_snd :: "('m \<Rightarrow> 'm) \<Rightarrow> ('s \<times> 'm, 'e, unit) prog" where
  "on_snd f = modifyM (\<lambda>x. (fst x, f (snd x)))"

text \<open>A \<open>for\<close> loop whose body may fail with \<open>?\<close>; the accumulator holds the loop's mutable variables.\<close>

fun foldM :: "('x \<Rightarrow> 'b \<Rightarrow> ('s, 'e, 'b) prog) \<Rightarrow> 'x list \<Rightarrow> 'b \<Rightarrow> ('s, 'e, 'b) prog" where
  "foldM f [] b = ret b"
| "foldM f (x # xs) b = bindM (f x b) (foldM f xs)"

lemma ret_simp [simp]: "ret a s = (Inr a, s)"
  by (simp add: ret_def)

lemma throw_simp [simp]: "throw e s = (Inl e, s)"
  by (simp add: throw_def)

lemma gets_simp [simp]: "gets f s = (Inr (f s), s)"
  by (simp add: gets_def)

lemma modifyM_simp [simp]: "modifyM f s = (Inr (), f s)"
  by (simp add: modifyM_def)

lemma liftR_simp [simp]: "liftR r s = (r, s)"
  by (simp add: liftR_def)

lemma on_fst_iff: "on_fst p x = (r, y) \<longleftrightarrow> p (fst x) = (r, fst y) \<and> snd y = snd x"
  by (cases y) (auto simp: on_fst_def split: prod.splits)

lemma on_snd_simp [simp]: "on_snd f x = (Inr (), (fst x, f (snd x)))"
  by (simp add: on_snd_def)

lemma bindM_on_snd [simp]: "bindM (on_snd f) k x = k () (fst x, f (snd x))"
  by (simp add: bindM_def)

lemma bindM_Inr_iff:
  "bindM m f s = (Inr b, u) \<longleftrightarrow> (\<exists>a t. m s = (Inr a, t) \<and> f a t = (Inr b, u))"
  by (auto simp: bindM_def split: prod.splits sum.splits)

lemma bindM_Inl_iff:
  "bindM m f s = (Inl e, u) \<longleftrightarrow>
     m s = (Inl e, u) \<or> (\<exists>a t. m s = (Inr a, t) \<and> f a t = (Inl e, u))"
  by (auto simp: bindM_def split: prod.splits sum.splits)

lemma handleM_iff:
  "handleM m h f s = r \<longleftrightarrow>
     (\<exists>e t. m s = (Inl e, t) \<and> h e t = r) \<or> (\<exists>a t. m s = (Inr a, t) \<and> f a t = r)"
  by (auto simp: handleM_def split: prod.splits sum.splits)

lemma bindM_apply_Inr: "m s = (Inr a, t) \<Longrightarrow> bindM m f s = f a t"
  by (simp add: bindM_def)

lemma bindM_apply_Inl: "m s = (Inl e, t) \<Longrightarrow> bindM m f s = (Inl e, t)"
  by (simp add: bindM_def)

lemma handleM_apply_Inr: "m s = (Inr a, t) \<Longrightarrow> handleM m h f s = f a t"
  by (simp add: handleM_def)

lemma handleM_apply_Inl: "m s = (Inl e, t) \<Longrightarrow> handleM m h f s = h e t"
  by (simp add: handleM_def)

lemma bindM_simps [simp]:
  "bindM (ret a) f = f a"
  "bindM (throw e) f = throw e"
  "bindM (Pair (Inr a)) f = f a"
  "bindM (Pair (Inl e)) f = Pair (Inl e)"
  "bindM (liftR (Inr a)) f = f a"
  "bindM (liftR (Inl e)) f = throw e"
  "bindM (gets g) f s = f (g s) s"
  "bindM (modifyM h) k s = k () (h s)"
  by (auto simp: bindM_def fun_eq_iff)

lemma handleM_simps [simp]:
  "handleM (ret a) h f = f a"
  "handleM (throw e) h f = h e"
  "handleM (Pair (Inr a)) h f = f a"
  "handleM (Pair (Inl e)) h f = h e"
  by (auto simp: handleM_def fun_eq_iff)

lemma map_errM_iff:
  "map_errM h m s = (Inr a, t) \<longleftrightarrow> m s = (Inr a, t)"
  "map_errM h m s = (Inl f, t) \<longleftrightarrow> (\<exists>e. m s = (Inl e, t) \<and> f = h e)"
  by (auto simp: map_errM_def handleM_def split: prod.splits sum.splits)

lemmas prog_iffs = bindM_Inr_iff bindM_Inl_iff handleM_iff map_errM_iff

subsection \<open>Hoare triples\<close>

definition valid ::
    "('s \<Rightarrow> bool) \<Rightarrow> ('s, 'e, 'a) prog \<Rightarrow> ('a \<Rightarrow> 's \<Rightarrow> bool) \<Rightarrow> ('e \<Rightarrow> 's \<Rightarrow> bool) \<Rightarrow> bool" where
  "valid P m Q E \<longleftrightarrow>
     (\<forall>s. P s \<longrightarrow> (case m s of (Inl e, t) \<Rightarrow> E e t | (Inr a, t) \<Rightarrow> Q a t))"

definition preserves :: "('s \<Rightarrow> bool) \<Rightarrow> ('s, 'e, 'a) prog \<Rightarrow> bool" where
  "preserves I m \<longleftrightarrow> (\<forall>s. I s \<longrightarrow> I (snd (m s)))"

lemma validI:
  assumes "\<And>s a t. P s \<Longrightarrow> m s = (Inr a, t) \<Longrightarrow> Q a t"
    and "\<And>s e t. P s \<Longrightarrow> m s = (Inl e, t) \<Longrightarrow> E e t"
  shows "valid P m Q E"
  using assms by (auto simp: valid_def split: prod.splits sum.splits)

lemma valid_Inr: "valid P m Q E \<Longrightarrow> P s \<Longrightarrow> m s = (Inr a, t) \<Longrightarrow> Q a t"
  by (auto simp: valid_def split: prod.splits sum.splits)

lemma valid_Inl: "valid P m Q E \<Longrightarrow> P s \<Longrightarrow> m s = (Inl e, t) \<Longrightarrow> E e t"
  by (auto simp: valid_def split: prod.splits sum.splits)

lemma valid_pre: "valid P m Q E \<Longrightarrow> (\<And>s. P' s \<Longrightarrow> P s) \<Longrightarrow> valid P' m Q E"
  by (auto simp: valid_def)

lemma valid_ret [wp]: "valid (Q a) (ret a) Q E"
  by (auto simp: valid_def)

lemma valid_throw [wp]: "valid (E e) (throw e) Q E"
  by (auto simp: valid_def)

lemma valid_bind [wp]:
  "(\<And>a. valid (R a) (f a) Q E) \<Longrightarrow> valid P m R E \<Longrightarrow> valid P (bindM m f) Q E"
  by (rule validI) (auto simp: prog_iffs dest: valid_Inr valid_Inl)

lemma valid_handle [wp]:
  "(\<And>e. valid (S e) (h e) Q E) \<Longrightarrow> (\<And>a. valid (R a) (f a) Q E) \<Longrightarrow> valid P m R S
   \<Longrightarrow> valid P (handleM m h f) Q E"
  by (rule validI; simp add: prog_iffs) (blast dest: valid_Inr valid_Inl)+

text \<open>Forward composition, with the error condition weakened on the way.\<close>

lemma valid_seq:
  "valid P m R E' \<Longrightarrow> (\<And>a. valid (R a) (f a) Q E) \<Longrightarrow> (\<And>e s. E' e s \<Longrightarrow> E e s)
   \<Longrightarrow> valid P (bindM m f) Q E"
  by (rule validI) (auto simp: prog_iffs dest: valid_Inr valid_Inl)

lemma valid_post:
  "valid P m Q' E' \<Longrightarrow> (\<And>a s. Q' a s \<Longrightarrow> Q a s) \<Longrightarrow> (\<And>e s. E' e s \<Longrightarrow> E e s) \<Longrightarrow> valid P m Q E"
  by (auto simp: valid_def split: prod.splits sum.splits)

text \<open>A part of the precondition that does not depend on the state is an assumption.\<close>

lemma valid_assume: "(b \<Longrightarrow> valid P m Q E) \<Longrightarrow> valid (\<lambda>s. b \<and> P s) m Q E"
  by (auto simp: valid_def)

lemma valid_ex: "(\<And>w. valid (P w) m Q E) \<Longrightarrow> valid (\<lambda>s. \<exists>w. P w s) m Q E"
  by (fastforce simp: valid_def)

lemma valid_retI: "(\<And>s. P s \<Longrightarrow> Q a s) \<Longrightarrow> valid P (ret a) Q E"
  by (auto simp: valid_def)

lemma valid_throwI: "(\<And>s. P s \<Longrightarrow> E e s) \<Longrightarrow> valid P (throw e) Q E"
  by (auto simp: valid_def)

lemma valid_liftR:
  "(\<And>a s. r = Inr a \<Longrightarrow> P s \<Longrightarrow> Q a s) \<Longrightarrow> (\<And>e s. r = Inl e \<Longrightarrow> P s \<Longrightarrow> E e s) \<Longrightarrow> valid P (liftR r) Q E"
  by (cases r) (auto simp: valid_def)

lemma preservesD: "preserves I m \<Longrightarrow> I s \<Longrightarrow> m s = (r, t) \<Longrightarrow> I t"
  by (force simp: preserves_def)

lemma preservesI: "(\<And>s r t. I s \<Longrightarrow> m s = (r, t) \<Longrightarrow> I t) \<Longrightarrow> preserves I m"
  unfolding preserves_def by (metis prod.collapse)

lemma valid_frame:
  "valid P m Q E \<Longrightarrow> preserves F m
   \<Longrightarrow> valid (\<lambda>s. P s \<and> F s) m (\<lambda>a s. Q a s \<and> F s) (\<lambda>e s. E e s \<and> F s)"
  by (rule validI) (auto dest: valid_Inr valid_Inl preservesD)

lemma preserves_ret [pres]: "preserves I (ret a)"
  by (simp add: preserves_def)

lemma preserves_throw [pres]: "preserves I (throw e)"
  by (simp add: preserves_def)

lemma preserves_gets [pres]: "preserves I (gets f)"
  by (simp add: preserves_def)

lemma preserves_liftR [pres]: "preserves I (liftR r)"
  by (simp add: preserves_def)

lemma preserves_bind [pres]:
  "preserves I m \<Longrightarrow> (\<And>a. preserves I (f a)) \<Longrightarrow> preserves I (bindM m f)"
  by (auto simp: preserves_def bindM_def split: prod.splits sum.splits)

lemma preserves_handle [pres]:
  "preserves I m \<Longrightarrow> (\<And>e. preserves I (h e)) \<Longrightarrow> (\<And>a. preserves I (f a))
   \<Longrightarrow> preserves I (handleM m h f)"
  by (auto simp: preserves_def handleM_def split: prod.splits sum.splits)

lemma preserves_map_err [pres]: "preserves I m \<Longrightarrow> preserves I (map_errM h m)"
  by (simp add: map_errM_def pres)

lemma preserves_if [pres]:
  "(b \<Longrightarrow> preserves I m) \<Longrightarrow> (\<not> b \<Longrightarrow> preserves I n) \<Longrightarrow> preserves I (if b then m else n)"
  by simp

lemma preserves_option [pres]:
  "(x = None \<Longrightarrow> preserves I m) \<Longrightarrow> (\<And>a. x = Some a \<Longrightarrow> preserves I (f a))
   \<Longrightarrow> preserves I (case x of None \<Rightarrow> m | Some a \<Rightarrow> f a)"
  by (cases x) auto

lemma preserves_sum [pres]:
  "(\<And>a. x = Inl a \<Longrightarrow> preserves I (f a)) \<Longrightarrow> (\<And>a. x = Inr a \<Longrightarrow> preserves I (g a))
   \<Longrightarrow> preserves I (case x of Inl a \<Rightarrow> f a | Inr a \<Rightarrow> g a)"
  by (cases x) auto

lemma preserves_prod [pres]:
  "(\<And>a b. x = (a, b) \<Longrightarrow> preserves I (f a b)) \<Longrightarrow> preserves I (case x of (a, b) \<Rightarrow> f a b)"
  by (cases x) auto

lemma preserves_foldM [pres]:
  "(\<And>x b. x \<in> set xs \<Longrightarrow> preserves I (f x b)) \<Longrightarrow> preserves I (foldM f xs b)"
  by (induction xs arbitrary: b) (auto intro!: pres)

lemma preserves_on_fst [pres]: "preserves I p \<Longrightarrow> preserves (\<lambda>x. I (fst x)) (on_fst p)"
  by (auto simp: preserves_def on_fst_def split: prod.splits)

lemma preserves_on_snd [pres]: "preserves (\<lambda>x. I (fst x)) (on_snd f)"
  by (simp add: preserves_def)

text \<open>A loop that counts the iterations with a certain outcome counts at most all of them.\<close>

lemma foldM_count:
  "foldM (\<lambda>x n. bindM (f x) (\<lambda>r. ret (if P r then n + 1 else n))) xs n s = (Inr k, t) \<Longrightarrow> k \<le> n + length xs"
  by (induction xs arbitrary: n s) (fastforce simp: bindM_Inr_iff split: if_splits)+

subsection \<open>Certain results\<close>

definition yields ::
    "('s \<Rightarrow> bool) \<Rightarrow> ('s, 'e, 'a) prog \<Rightarrow> 'e + 'a \<Rightarrow> ('s \<Rightarrow> bool) \<Rightarrow> bool" where
  "yields S m r S' \<longleftrightarrow> (\<forall>s. S s \<longrightarrow> (\<exists>t. m s = (r, t) \<and> S' t))"

lemma yieldsI: "(\<And>s. S s \<Longrightarrow> \<exists>t. m s = (r, t) \<and> S' t) \<Longrightarrow> yields S m r S'"
  by (simp add: yields_def)

lemma yieldsD: "yields S m r S' \<Longrightarrow> S s \<Longrightarrow> \<exists>t. m s = (r, t) \<and> S' t"
  by (simp add: yields_def)

lemma yields_ret [yld]: "yields S (ret a) (Inr a) S"
  by (simp add: yields_def)

lemma yields_Pair [yld]: "yields S (Pair r) r S"
  by (simp add: yields_def)

lemma yields_throw [yld]: "yields S (throw e) (Inl e) S"
  by (simp add: yields_def)

lemma yields_liftR [yld]: "yields S (liftR r) r S"
  by (simp add: yields_def)

lemma yields_gets: "(\<And>s. S s \<Longrightarrow> f s = a) \<Longrightarrow> yields S (gets f) (Inr a) S"
  by (simp add: yields_def)

lemma yields_bind:
  "yields S m (Inr a) S1 \<Longrightarrow> yields S1 (f a) r S2 \<Longrightarrow> yields S (bindM m f) r S2"
  unfolding yields_def by (metis bindM_apply_Inr)

lemma yields_bind_err: "yields S m (Inl e) S1 \<Longrightarrow> yields S (bindM m f) (Inl e) S1"
  unfolding yields_def by (metis bindM_apply_Inl)

lemma yields_handle:
  "yields S m (Inr a) S1 \<Longrightarrow> yields S1 (f a) r S2 \<Longrightarrow> yields S (handleM m h f) r S2"
  unfolding yields_def by (metis handleM_apply_Inr)

lemma yields_handle_err:
  "yields S m (Inl e) S1 \<Longrightarrow> yields S1 (h e) r S2 \<Longrightarrow> yields S (handleM m h f) r S2"
  unfolding yields_def by (metis handleM_apply_Inl)

lemma yields_post: "yields S m r S1 \<Longrightarrow> (\<And>s. S1 s \<Longrightarrow> S2 s) \<Longrightarrow> yields S m r S2"
  unfolding yields_def by blast

lemma yields_pre: "yields S m r S1 \<Longrightarrow> (\<And>s. S0 s \<Longrightarrow> S s) \<Longrightarrow> yields S0 m r S1"
  unfolding yields_def by blast

text \<open>Total correctness with a result that depends on the state, as a step towards a certain one.\<close>

definition total :: "('s \<Rightarrow> bool) \<Rightarrow> ('s, 'e, 'a) prog \<Rightarrow> ('a \<Rightarrow> 's \<Rightarrow> bool) \<Rightarrow> bool" where
  "total P m Q \<longleftrightarrow> (\<forall>s. P s \<longrightarrow> (\<exists>a t. m s = (Inr a, t) \<and> Q a t))"

lemma yields_total:
  "total P m R \<Longrightarrow> (\<And>a. yields (R a) (f a) r S) \<Longrightarrow> yields P (bindM m f) r S"
  unfolding total_def yields_def by (metis bindM_apply_Inr)

lemma total_bind:
  "total P m R \<Longrightarrow> (\<And>a. total (R a) (f a) Q) \<Longrightarrow> total P (bindM m f) Q"
  unfolding total_def by (metis bindM_apply_Inr)

lemma total_post: "total P m Q' \<Longrightarrow> (\<And>a s. Q' a s \<Longrightarrow> Q a s) \<Longrightarrow> total P m Q"
  unfolding total_def by blast

lemma total_yields: "total P m (\<lambda>a s. a = r \<and> S s) \<Longrightarrow> yields P m (Inr r) S"
  unfolding total_def yields_def by metis

lemma yields_on_fst:
  "yields S p r S' \<Longrightarrow> yields (\<lambda>x. S (fst x) \<and> snd x = m) (on_fst p) r (\<lambda>x. S' (fst x) \<and> snd x = m)"
  by (force simp: yields_def on_fst_def)

lemma yields_on_snd:
  "yields (\<lambda>x. S (fst x) \<and> snd x = m) (on_snd f) (Inr ()) (\<lambda>x. S (fst x) \<and> snd x = f m)"
  by (simp add: yields_def)

lemma yields_assume:
  "(b \<Longrightarrow> yields (\<lambda>s. P s \<and> F s) m r S) \<Longrightarrow> yields (\<lambda>s. (b \<and> P s) \<and> F s) m r S"
  unfolding yields_def by blast

lemma total_yields_step:
  "total P m (\<lambda>a s. (a = r \<and> R s) \<and> F s) \<Longrightarrow> yields P m (Inr r) (\<lambda>s. R s \<and> F s)"
  unfolding total_def yields_def by metis

text \<open>A loop whose iterations have certain results: the accumulator and the states run along.\<close>

lemma yields_foldM:
  assumes "\<And>i b. i < length xs \<Longrightarrow> I i b \<Longrightarrow>
      \<exists>b'. yields (S i b) (f (xs ! i) b) (Inr b') (S (Suc i) b') \<and> I (Suc i) b'"
    and "I 0 b"
  shows "\<exists>b'. yields (S 0 b) (foldM f xs b) (Inr b') (S (length xs) b') \<and> I (length xs) b'"
  using assms
proof (induction xs arbitrary: S I b)
  case Nil
  then show ?case by (auto intro: yields_Pair)
next
  case (Cons x xs)
  from Cons.prems(1) [of 0 b] Cons.prems(2) obtain b1 where
    first: "yields (S 0 b) (f x b) (Inr b1) (S (Suc 0) b1)" "I (Suc 0) b1"
    by auto
  have "\<exists>b'. yields (S (Suc 0) b1) (foldM f xs b1) (Inr b') (S (Suc (length xs)) b') \<and>
      I (Suc (length xs)) b'"
    using Cons.IH [of "\<lambda>i. I (Suc i)" "\<lambda>i. S (Suc i)" b1] Cons.prems(1) first(2)
    by (metis Suc_less_eq length_Cons nth_Cons_Suc)
  with first(1) show ?case by (auto intro: yields_bind)
qed

end
