(* ===== verification/State_Lifecycle.thy ===== *)
theory State_Lifecycle
  imports RF_Prelude
begin

text \<open>
  The trait \<open>StateLifecycle\<close> of \<open>crates/roboflow-distributed/src/state/mod.rs\<close>: its error type, its
  provided method \<open>transition_to\<close> (\<open>lifecycle_transition_to\<close>, over the three required methods and the
  \<open>Debug\<close> output) and, as the locale \<open>state_lifecycle\<close>, the laws every implementing type keeps. The
  locale is interpreted for \<open>WorkUnitStatus\<close> and \<open>BatchPhase\<close> in their own theories.
\<close>

datatype state_transition_error =
    TerminalState string
  | InvalidTransition string string

definition display_transition_error :: "state_transition_error \<Rightarrow> string" where
  "display_transition_error e =
     (case e of
        TerminalState cur \<Rightarrow> ''Cannot transition from terminal state: '' @ cur
      | InvalidTransition frm tgt \<Rightarrow> ''Invalid transition from '' @ frm @ '' to '' @ tgt)"

definition lifecycle_transition_to ::
    "('s \<Rightarrow> bool) \<Rightarrow> ('s \<Rightarrow> 's \<Rightarrow> bool) \<Rightarrow> ('s \<Rightarrow> string) \<Rightarrow> 's \<Rightarrow> 's \<Rightarrow> state_transition_error + 's" where
  "lifecycle_transition_to terminal can debug self target =
     (if terminal self then Inl (TerminalState (debug self))
      else if \<not> can self target then Inl (InvalidTransition (debug self) (debug target))
      else Inr target)"

text \<open>A sequence of attempted transitions: a refused one leaves the state as it was.\<close>

fun lifecycle_run ::
    "('s \<Rightarrow> bool) \<Rightarrow> ('s \<Rightarrow> 's \<Rightarrow> bool) \<Rightarrow> ('s \<Rightarrow> string) \<Rightarrow> 's \<Rightarrow> 's list \<Rightarrow> 's" where
  "lifecycle_run terminal can debug s [] = s"
| "lifecycle_run terminal can debug s (t # ts) =
     (case lifecycle_transition_to terminal can debug s t of
        Inl _ \<Rightarrow> lifecycle_run terminal can debug s ts
      | Inr s' \<Rightarrow> lifecycle_run terminal can debug s' ts)"

locale state_lifecycle =
  fixes terminal :: "'s \<Rightarrow> bool"
    and claimable :: "'s \<Rightarrow> bool"
    and can :: "'s \<Rightarrow> 's \<Rightarrow> bool"
    and debug :: "'s \<Rightarrow> string"
  assumes can_self: "can s s"
    and terminal_final: "terminal s \<Longrightarrow> can s t \<Longrightarrow> t = s"
    and nonterminal_exit: "\<not> terminal s \<Longrightarrow> \<exists>t. t \<noteq> s \<and> can s t"
    and claimable_live: "claimable s \<Longrightarrow> \<not> terminal s"
    and debug_inj: "debug s = debug t \<Longrightarrow> s = t"
begin

abbreviation transition_to where
  "transition_to \<equiv> lifecycle_transition_to terminal can debug"

lemma terminal_iff_no_exit: "terminal s \<longleftrightarrow> (\<forall>t. can s t \<longrightarrow> t = s)"
  using terminal_final nonterminal_exit by blast

lemma transition_to_Inr_iff:
  "transition_to s t = Inr u \<longleftrightarrow> u = t \<and> \<not> terminal s \<and> can s t"
  by (auto simp: lifecycle_transition_to_def)

lemma transition_to_error_terminal:
  "transition_to s t = Inl (TerminalState (debug s)) \<longleftrightarrow> terminal s"
  by (auto simp: lifecycle_transition_to_def)

lemma run_terminal: "terminal s \<Longrightarrow> lifecycle_run terminal can debug s ts = s"
  by (induction ts) (auto simp: lifecycle_transition_to_def)

lemma run_reaches: "(\<lambda>a b. \<not> terminal a \<and> can a b)\<^sup>*\<^sup>* s (lifecycle_run terminal can debug s ts)"
proof (induction ts arbitrary: s)
  case Nil
  then show ?case by simp
next
  case (Cons t ts)
  show ?case
  proof (cases "transition_to s t")
    case (Inl e)
    with Cons.IH [of s] show ?thesis by simp
  next
    case (Inr u)
    then have "\<not> terminal s \<and> can s u"
      by (auto simp: transition_to_Inr_iff)
    with Inr Cons.IH [of u] show ?thesis
      by (auto intro: converse_rtranclp_into_rtranclp)
  qed
qed

end

end
