(* ===== verification/Work_Unit.thy ===== *)
theory Work_Unit
  imports State_Lifecycle
begin

text \<open>
  \<open>crates/roboflow-distributed/src/batch/work_unit.rs\<close>: work units, their status machine and the
  operations a worker performs on a unit it holds in memory (claim, complete, fail, cancel). The
  clock reading of each operation is its argument \<open>now\<close>; \<open>uuid\<close> is the fresh identifier that
  \<open>WorkUnit::new\<close> draws.

  \<open>wu_inv\<close> is the invariant of a unit: an owner is set exactly while it is processing, the attempts
  stay within the maximum, and a unit is dead only after its last attempt. \<open>wu_step\<close> is the lifecycle
  a unit goes through in the cluster; \<open>wu_reach_inv\<close> shows the invariant in every state it reaches.
\<close>

section \<open>Data\<close>

record work_file =
  wf_url :: string
  wf_size :: u64
  wf_modified_at :: "timestamp option"
  wf_checksum :: "string option"

datatype work_unit_status = WPending | WProcessing | WComplete | WFailed | WDead | WCancelled

record work_unit =
  wu_id :: string
  wu_batch_id :: string
  wu_files :: "work_file list"
  wu_output_path :: string
  wu_config_hash :: string
  wu_status :: work_unit_status
  wu_owner :: "string option"
  wu_attempts :: u32
  wu_max_attempts :: u32
  wu_created_at :: timestamp
  wu_updated_at :: timestamp
  wu_error :: "string option"
  wu_priority :: i32

datatype work_unit_error =
    NotClaimable string work_unit_status
  | MaxAttemptsExceeded string u32
  | UnitSerialization string

record work_unit_summary =
  ws_id :: string
  ws_batch_id :: string
  ws_status :: work_unit_status
  ws_file_count :: nat
  ws_total_size :: u64
  ws_attempts :: u32

definition default_max_attempts :: u32 where
  "default_max_attempts = 3"

section \<open>Status machine\<close>

definition wus_is_terminal :: "work_unit_status \<Rightarrow> bool" where
  "wus_is_terminal s = (s \<in> {WComplete, WDead, WCancelled})"

definition wus_is_claimable :: "work_unit_status \<Rightarrow> bool" where
  "wus_is_claimable s = (s \<in> {WPending, WFailed})"

fun wus_display :: "work_unit_status \<Rightarrow> string" where
  "wus_display WPending = ''Pending''"
| "wus_display WProcessing = ''Processing''"
| "wus_display WComplete = ''Complete''"
| "wus_display WFailed = ''Failed''"
| "wus_display WDead = ''Dead''"
| "wus_display WCancelled = ''Cancelled''"

definition wus_can_transition_to :: "work_unit_status \<Rightarrow> work_unit_status \<Rightarrow> bool" where
  "wus_can_transition_to self target =
     (if self = target then True
      else case self of
        WPending \<Rightarrow> target \<in> {WProcessing, WFailed, WCancelled}
      | WProcessing \<Rightarrow> target \<in> {WComplete, WFailed, WDead, WCancelled}
      | WFailed \<Rightarrow> target \<in> {WProcessing, WCancelled}
      | WComplete \<Rightarrow> False
      | WDead \<Rightarrow> False
      | WCancelled \<Rightarrow> False)"

lemmas wus_defs = wus_is_terminal_def wus_is_claimable_def wus_can_transition_to_def

interpretation wus: state_lifecycle wus_is_terminal wus_is_claimable wus_can_transition_to wus_display
proof (unfold_locales, goal_cases)
  case (1 s) show ?case by (simp add: wus_defs)
next
  case (2 s t) then show ?case by (cases s) (auto simp: wus_defs split: if_splits)
next
  case (3 s)
  then have "\<exists>t\<in>{WProcessing, WComplete}. t \<noteq> s \<and> wus_can_transition_to s t"
    by (cases s) (auto simp: wus_defs)
  then show ?case by blast
next
  case (4 s) then show ?case by (auto simp: wus_defs)
next
  case (5 s t) then show ?case by (cases s; cases t) auto
qed

section \<open>Operations\<close>

definition work_unit_with_id ::
    "timestamp \<Rightarrow> string \<Rightarrow> string \<Rightarrow> work_file list \<Rightarrow> string \<Rightarrow> string \<Rightarrow> work_unit" where
  "work_unit_with_id now uid batch_id files output_path config_hash =
     \<lparr> wu_id = uid, wu_batch_id = batch_id, wu_files = files, wu_output_path = output_path,
       wu_config_hash = config_hash, wu_status = WPending, wu_owner = None, wu_attempts = 0,
       wu_max_attempts = default_max_attempts, wu_created_at = now, wu_updated_at = now,
       wu_error = None, wu_priority = 0 \<rparr>"

definition work_unit_new ::
    "timestamp \<Rightarrow> string \<Rightarrow> string \<Rightarrow> work_file list \<Rightarrow> string \<Rightarrow> string \<Rightarrow> work_unit" where
  "work_unit_new now uuid batch_id files output_path config_hash =
     \<lparr> wu_id = uuid, wu_batch_id = batch_id, wu_files = files, wu_output_path = output_path,
       wu_config_hash = config_hash, wu_status = WPending, wu_owner = None, wu_attempts = 0,
       wu_max_attempts = default_max_attempts, wu_created_at = now, wu_updated_at = now,
       wu_error = None, wu_priority = 0 \<rparr>"

definition wu_is_claimable :: "work_unit \<Rightarrow> bool" where
  "wu_is_claimable u = (wus_is_claimable (wu_status u) \<and> wu_attempts u < wu_max_attempts u)"

definition wu_claim :: "timestamp \<Rightarrow> string \<Rightarrow> work_unit \<Rightarrow> work_unit_error + work_unit" where
  "wu_claim now worker u =
     (if \<not> wu_is_claimable u then Inl (NotClaimable (wu_id u) (wu_status u))
      else if wu_attempts u \<ge> wu_max_attempts u
        then Inl (MaxAttemptsExceeded (wu_id u) (wu_max_attempts u))
      else Inr (u\<lparr>wu_status := WProcessing, wu_owner := Some worker,
                  wu_attempts := wu_attempts u + 1, wu_updated_at := now\<rparr>))"

definition wu_complete :: "timestamp \<Rightarrow> work_unit \<Rightarrow> work_unit" where
  "wu_complete now u = u\<lparr>wu_status := WComplete, wu_owner := None, wu_updated_at := now\<rparr>"

definition wu_fail :: "timestamp \<Rightarrow> string \<Rightarrow> work_unit \<Rightarrow> work_unit" where
  "wu_fail now err u =
     u\<lparr>wu_status := (if wu_attempts u \<ge> wu_max_attempts u then WDead else WFailed),
       wu_owner := None, wu_error := Some err, wu_updated_at := now\<rparr>"

definition wu_cancel :: "timestamp \<Rightarrow> work_unit \<Rightarrow> work_unit" where
  "wu_cancel now u = u\<lparr>wu_status := WCancelled, wu_owner := None, wu_updated_at := now\<rparr>"

text \<open>\<open>Iterator::sum\<close> over \<open>u64\<close> wraps in release builds.\<close>

definition wu_total_size :: "work_unit \<Rightarrow> u64" where
  "wu_total_size u = sum_list (map wf_size (wu_files u))"

definition wu_file_count :: "work_unit \<Rightarrow> nat" where
  "wu_file_count u = length (wu_files u)"

definition wu_is_single_file :: "work_unit \<Rightarrow> bool" where
  "wu_is_single_file u = (length (wu_files u) = 1)"

definition wu_primary_source :: "work_unit \<Rightarrow> string option" where
  "wu_primary_source u = (case wu_files u of [] \<Rightarrow> None | f # _ \<Rightarrow> Some (wf_url f))"

definition wu_summary :: "work_unit \<Rightarrow> work_unit_summary" where
  "wu_summary u =
     \<lparr> ws_id = wu_id u, ws_batch_id = wu_batch_id u, ws_status = wu_status u,
       ws_file_count = length (wu_files u), ws_total_size = wu_total_size u,
       ws_attempts = wu_attempts u \<rparr>"

definition work_file_new :: "string \<Rightarrow> u64 \<Rightarrow> work_file" where
  "work_file_new url sz = \<lparr> wf_url = url, wf_size = sz, wf_modified_at = None, wf_checksum = None \<rparr>"

definition work_file_with_modified_time :: "timestamp \<Rightarrow> work_file \<Rightarrow> work_file" where
  "work_file_with_modified_time t f = f\<lparr>wf_modified_at := Some t\<rparr>"

definition work_file_with_checksum :: "string \<Rightarrow> work_file \<Rightarrow> work_file" where
  "work_file_with_checksum c f = f\<lparr>wf_checksum := Some c\<rparr>"

section \<open>Invariant and lifecycle\<close>

definition wu_inv :: "work_unit \<Rightarrow> bool" where
  "wu_inv u \<longleftrightarrow>
     (wu_owner u \<noteq> None \<longleftrightarrow> wu_status u = WProcessing) \<and>
     wu_attempts u \<le> wu_max_attempts u \<and>
     (wu_status u = WDead \<longrightarrow> wu_attempts u = wu_max_attempts u) \<and>
     (wu_status u = WProcessing \<longrightarrow> 0 < wu_attempts u) \<and>
     (wu_status u \<in> {WFailed, WDead} \<longrightarrow> wu_error u \<noteq> None) \<and>
     (wu_status u = WFailed \<longrightarrow> wu_attempts u < wu_max_attempts u)"

text \<open>
  The steps a unit can make. Only \<open>claim\<close> looks at the status; \<open>complete\<close>, \<open>fail\<close> and \<open>cancel\<close> are done in any state, as
  the code does.
\<close>

inductive wu_step :: "work_unit \<Rightarrow> work_unit \<Rightarrow> bool" where
  claim: "wu_claim now w u = Inr v \<Longrightarrow> wu_step u v"
| complete: "wu_step u (wu_complete now u)"
| fail: "wu_step u (wu_fail now e u)"
| cancel: "wu_step u (wu_cancel now u)"

inductive_cases wu_stepE: "wu_step u v"

lemma wu_claim_Inr_iff:
  "wu_claim now w u = Inr v \<longleftrightarrow>
     wu_is_claimable u \<and>
     v = u\<lparr>wu_status := WProcessing, wu_owner := Some w, wu_attempts := wu_attempts u + 1,
           wu_updated_at := now\<rparr>"
  by (auto simp: wu_claim_def wu_is_claimable_def)

lemma wu_claim_attempts:
  assumes "wu_claim now w u = Inr v"
  shows "unat (wu_attempts v) = unat (wu_attempts u) + 1"
    and "wu_attempts v \<le> wu_max_attempts v"
proof -
  from assms have less: "wu_attempts u < wu_max_attempts u"
    and v: "wu_attempts v = wu_attempts u + 1" "wu_max_attempts v = wu_max_attempts u"
    by (auto simp: wu_claim_Inr_iff wu_is_claimable_def)
  from less have "unat (wu_attempts u + 1) = unat (wu_attempts u) + 1"
    by (intro unat_inc_no_wrap [of _ "wu_max_attempts u"]) (simp add: word_less_nat_alt)
  with v less show "unat (wu_attempts v) = unat (wu_attempts u) + 1"
    and "wu_attempts v \<le> wu_max_attempts v"
    by (simp_all add: word_less_nat_alt word_le_nat_alt)
qed

lemma wu_inv_new:
  "wu_inv (work_unit_with_id now i b fs out cfg)" "wu_inv (work_unit_new now i b fs out cfg)"
  by (simp_all add: wu_inv_def work_unit_with_id_def work_unit_new_def)

lemma wu_inv_claim:
  assumes "wu_claim now w u = Inr v"
  shows "wu_inv v"
proof -
  have "unat (wu_attempts v) > 0" using wu_claim_attempts(1) [OF assms] by simp
  then have "0 < wu_attempts v" by (simp add: word_less_nat_alt)
  with wu_claim_attempts(2) [OF assms] assms show ?thesis
    by (auto simp: wu_inv_def wu_claim_Inr_iff)
qed

lemma wu_inv_complete: "wu_inv u \<Longrightarrow> wu_inv (wu_complete now u)"
  by (auto simp: wu_inv_def wu_complete_def)

lemma wu_inv_fail: "wu_inv u \<Longrightarrow> wu_inv (wu_fail now e u)"
  by (auto simp: wu_inv_def wu_fail_def)

lemma wu_inv_cancel: "wu_inv u \<Longrightarrow> wu_inv (wu_cancel now u)"
  by (auto simp: wu_inv_def wu_cancel_def)

lemma wu_step_inv: "wu_step u v \<Longrightarrow> wu_inv u \<Longrightarrow> wu_inv v"
  by (induction rule: wu_step.induct)
     (auto intro: wu_inv_claim wu_inv_complete wu_inv_fail wu_inv_cancel)

lemma wu_reach_inv: "wu_step\<^sup>*\<^sup>* u v \<Longrightarrow> wu_inv u \<Longrightarrow> wu_inv v"
  by (induction rule: rtranclp_induct) (auto intro: wu_step_inv)

section \<open>Runs\<close>

text \<open>\<open>wu_run n u v\<close>: a run from \<open>u\<close> to \<open>v\<close> in which \<open>n\<close> claims succeeded.\<close>

inductive wu_run :: "nat \<Rightarrow> work_unit \<Rightarrow> work_unit \<Rightarrow> bool" where
  start: "wu_run 0 u u"
| claimed: "wu_run n u v \<Longrightarrow> wu_claim now w v = Inr v' \<Longrightarrow> wu_run (Suc n) u v'"
| other: "wu_run n u v \<Longrightarrow> wu_step v v' \<Longrightarrow> wu_attempts v' = wu_attempts v \<Longrightarrow> wu_run n u v'"

lemma wu_step_max: "wu_step u v \<Longrightarrow> wu_max_attempts v = wu_max_attempts u"
  by (induction rule: wu_step.induct)
     (auto simp: wu_claim_Inr_iff wu_complete_def wu_fail_def wu_cancel_def)

lemma wu_run_count:
  assumes "wu_run n u v" "wu_inv u"
  shows "wu_inv v \<and> wu_max_attempts v = wu_max_attempts u \<and>
    unat (wu_attempts v) = unat (wu_attempts u) + n"
  using assms
proof (induction rule: wu_run.induct)
  case (claimed n u v now w v')
  then show ?case
    by (auto simp: wu_claim_attempts wu_inv_claim) (auto simp: wu_claim_Inr_iff)
qed (auto intro: wu_step_inv simp: wu_step_max)

section \<open>Properties\<close>



text \<open>Claiming. A claim succeeds exactly when the unit is pending or failed and has an attempt left;
  it then sets the owner, counts the attempt and touches the clock, and changes nothing else. Otherwise
  the unit's status is reported and the unit is unchanged.\<close>

lemma wu_claim_spec:
  "wu_claim now w u =
     (if wu_status u \<in> {WPending, WFailed} \<and> unat (wu_attempts u) < unat (wu_max_attempts u)
      then Inr (u\<lparr>wu_status := WProcessing, wu_owner := Some w,
                  wu_attempts := of_nat (unat (wu_attempts u) + 1), wu_updated_at := now\<rparr>)
      else Inl (NotClaimable (wu_id u) (wu_status u)))"
  by (auto simp: wu_claim_def wu_is_claimable_def wus_defs word_less_nat_alt word_le_nat_alt)

end
