(* ===== verification/Batch_Spec.thy ===== *)
theory Batch_Spec
  imports RF_Prelude
begin

text \<open>
  \<open>crates/roboflow-distributed/src/batch/spec.rs\<close>, and \<open>batch_id_from_spec\<close> of \<open>batch/mod.rs\<close>: the
  desired state a user submits, its defaults and its validation. The label and annotation maps are
  partial functions. JSON and YAML conversion is done by \<open>serde\<close> and appears as a codec parameter in
  \<open>Kv_Backend\<close>.
\<close>

definition API_VERSION :: string where
  "API_VERSION = ''roboflow/v1''"

definition KIND_BATCH_JOB :: string where
  "KIND_BATCH_JOB = ''BatchJob''"

section \<open>Data\<close>

datatype partition_strategy = FileBased | SizeBased | TimeBased

record work_unit_config =
  partition_strategy :: partition_strategy
  max_files_per_unit :: nat
  max_bytes_per_unit :: u64

record source_url =
  su_url :: string
  su_filter :: "string option"
  su_max_size :: "u64 option"

record batch_metadata =
  md_name :: string
  md_display_name :: "string option"
  md_namespace :: string
  md_submitted_by :: "string option"
  md_labels :: "string \<rightharpoonup> string"
  md_annotations :: "string \<rightharpoonup> string"
  md_created_at :: timestamp

record batch_job_spec =
  js_sources :: "source_url list"
  js_output :: string
  js_config :: string
  js_parallelism :: u32
  js_completions :: "u32 option"
  js_max_retries :: u32
  js_backoff_limit :: u32
  js_ttl_seconds :: u32
  js_priority :: i32
  js_work_unit_config :: work_unit_config
  js_episodes_per_chunk :: u32

record batch_spec =
  bs_api_version :: string
  bs_kind :: string
  bs_metadata :: batch_metadata
  bs_spec :: batch_job_spec

datatype batch_spec_error =
    InvalidName string
  | Validation string
  | InvalidUrl string string
  | SpecSerialization string

definition display_spec_error :: "batch_spec_error \<Rightarrow> string" where
  "display_spec_error e =
     (case e of
        InvalidName m \<Rightarrow> ''invalid name: '' @ m
      | Validation m \<Rightarrow> ''validation error: '' @ m
      | InvalidUrl u r \<Rightarrow> ''invalid URL '' @ [CHR 0x27] @ u @ [CHR 0x27] @ '': '' @ r
      | SpecSerialization m \<Rightarrow> ''serialization error: '' @ m)"

section \<open>Defaults and construction\<close>

definition default_episodes_per_chunk :: u32 where "default_episodes_per_chunk = 500"

definition default_parallelism :: u32 where "default_parallelism = 100"

definition default_max_retries :: u32 where "default_max_retries = 3"

definition default_backoff_limit :: u32 where "default_backoff_limit = 10"

definition default_ttl :: u32 where "default_ttl = 86400"

definition default_priority :: i32 where "default_priority = 0"

definition default_work_unit_config :: work_unit_config where
  "default_work_unit_config =
     \<lparr> partition_strategy = FileBased, max_files_per_unit = 1,
       max_bytes_per_unit = 5 * 1024 * 1024 * 1024 \<rparr>"

definition default_batch_metadata :: "timestamp \<Rightarrow> batch_metadata" where
  "default_batch_metadata now =
     \<lparr> md_name = [], md_display_name = None, md_namespace = ''jobs'', md_submitted_by = None,
       md_labels = Map.empty, md_annotations = Map.empty, md_created_at = now \<rparr>"

definition default_batch_job_spec :: batch_job_spec where
  "default_batch_job_spec =
     \<lparr> js_sources = [], js_output = [], js_config = ''default'',
       js_parallelism = default_parallelism, js_completions = None,
       js_max_retries = default_max_retries, js_backoff_limit = default_backoff_limit,
       js_ttl_seconds = default_ttl, js_priority = default_priority,
       js_work_unit_config = default_work_unit_config,
       js_episodes_per_chunk = default_episodes_per_chunk \<rparr>"

definition batch_spec_new :: "timestamp \<Rightarrow> string \<Rightarrow> string list \<Rightarrow> string \<Rightarrow> batch_spec" where
  "batch_spec_new now name sources output =
     \<lparr> bs_api_version = API_VERSION, bs_kind = KIND_BATCH_JOB,
       bs_metadata =
         \<lparr> md_name = name, md_display_name = None, md_namespace = ''jobs'', md_submitted_by = None,
           md_labels = Map.empty, md_annotations = Map.empty, md_created_at = now \<rparr>,
       bs_spec =
         \<lparr> js_sources = map (\<lambda>url. \<lparr> su_url = url, su_filter = None, su_max_size = None \<rparr>) sources,
           js_output = output, js_config = ''default'', js_parallelism = default_parallelism,
           js_completions = None, js_max_retries = default_max_retries,
           js_backoff_limit = default_backoff_limit, js_ttl_seconds = default_ttl,
           js_priority = default_priority, js_work_unit_config = default_work_unit_config,
           js_episodes_per_chunk = default_episodes_per_chunk \<rparr> \<rparr>"

definition batch_id_from_spec :: "batch_spec \<Rightarrow> string" where
  "batch_id_from_spec s = md_namespace (bs_metadata s) @ '':'' @ md_name (bs_metadata s)"

definition bs_key :: "batch_spec \<Rightarrow> string" where
  "bs_key s = md_namespace (bs_metadata s) @ '':'' @ md_name (bs_metadata s)"

section \<open>Validation\<close>

definition invalid_scheme :: "string \<Rightarrow> batch_spec_error" where
  "invalid_scheme url = InvalidUrl url ''invalid scheme (must be s3:// or file://)''"

definition validate_source_url :: "string \<Rightarrow> batch_spec_error + unit" where
  "validate_source_url url =
     (if \<not> starts_with url ''s3://'' \<and> \<not> starts_with url ''file://''
      then Inl (invalid_scheme url) else Inr ())"

definition validate_output_url :: "string \<Rightarrow> batch_spec_error + unit" where
  "validate_output_url url =
     (if \<not> starts_with url ''s3://'' \<and> \<not> starts_with url ''file://''
      then Inl (invalid_scheme url) else Inr ())"

fun validate_sources :: "source_url list \<Rightarrow> batch_spec_error + unit" where
  "validate_sources [] = Inr ()"
| "validate_sources (x # xs) =
     (case validate_source_url (su_url x) of Inl e \<Rightarrow> Inl e | Inr _ \<Rightarrow> validate_sources xs)"

definition bs_validate :: "batch_spec \<Rightarrow> batch_spec_error + unit" where
  "bs_validate s =
     (if md_name (bs_metadata s) = [] then Inl (InvalidName ''name cannot be empty'')
      else if js_sources (bs_spec s) = []
        then Inl (Validation ''at least one source URL is required'')
      else case validate_sources (js_sources (bs_spec s)) of
          Inl e \<Rightarrow> Inl e
        | Inr _ \<Rightarrow> validate_output_url (js_output (bs_spec s)))"

text \<open>What validation accepts, as a predicate on the spec.\<close>

definition url_scheme_ok :: "string \<Rightarrow> bool" where
  "url_scheme_ok url \<longleftrightarrow> prefix ''s3://'' url \<or> prefix ''file://'' url"

definition spec_acceptable :: "batch_spec \<Rightarrow> bool" where
  "spec_acceptable s \<longleftrightarrow>
     md_name (bs_metadata s) \<noteq> [] \<and> js_sources (bs_spec s) \<noteq> [] \<and>
     (\<forall>x \<in> set (js_sources (bs_spec s)). url_scheme_ok (su_url x)) \<and>
     url_scheme_ok (js_output (bs_spec s))"

lemma validate_source_url_Inr: "validate_source_url u = Inr () \<longleftrightarrow> url_scheme_ok u"
  by (auto simp: validate_source_url_def url_scheme_ok_def starts_with_def)

lemma validate_output_url_Inr: "validate_output_url u = Inr () \<longleftrightarrow> url_scheme_ok u"
  by (auto simp: validate_output_url_def url_scheme_ok_def starts_with_def)

lemma validate_sources_Inr:
  "validate_sources xs = Inr () \<longleftrightarrow> (\<forall>x \<in> set xs. url_scheme_ok (su_url x))"
  by (induction xs) (auto simp: validate_source_url_def url_scheme_ok_def starts_with_def)

text \<open>The first source with a bad scheme is the one reported.\<close>

lemma validate_sources_find:
  "validate_sources xs =
     (case find (\<lambda>x. \<not> url_scheme_ok (su_url x)) xs of
        None \<Rightarrow> Inr ()
      | Some x \<Rightarrow> Inl (invalid_scheme (su_url x)))"
  by (induction xs) (auto simp: validate_source_url_def url_scheme_ok_def starts_with_def)

lemma bs_validate_Inr: "bs_validate s = Inr () \<longleftrightarrow> spec_acceptable s"
  by (auto simp: bs_validate_def spec_acceptable_def validate_output_url_Inr
      validate_sources_Inr [symmetric] split: sum.splits)

section \<open>Properties\<close>

text \<open>validation of a batch spec. It succeeds exactly on the acceptable specs; otherwise the errors
  are reported in the order name, sources, first source with a bad scheme, output.\<close>

theorem bs_validate_spec:
  "bs_validate s =
     (if spec_acceptable s then Inr ()
      else if md_name (bs_metadata s) = [] then Inl (InvalidName ''name cannot be empty'')
      else if js_sources (bs_spec s) = []
        then Inl (Validation ''at least one source URL is required'')
      else case find (\<lambda>x. \<not> url_scheme_ok (su_url x)) (js_sources (bs_spec s)) of
          Some x \<Rightarrow> Inl (invalid_scheme (su_url x))
        | None \<Rightarrow> Inl (invalid_scheme (js_output (bs_spec s))))"
proof (cases "spec_acceptable s")
  case True
  then show ?thesis by (simp add: bs_validate_Inr)
next
  case False
  have out: "validate_output_url u = (if url_scheme_ok u then Inr () else Inl (invalid_scheme u))" for u
    by (simp add: validate_output_url_def url_scheme_ok_def starts_with_def)
  show ?thesis
  proof (cases "find (\<lambda>x. \<not> url_scheme_ok (su_url x)) (js_sources (bs_spec s))")
    case None
    then have "\<forall>x \<in> set (js_sources (bs_spec s)). url_scheme_ok (su_url x)"
      by (auto simp: find_None_iff)
    with None False show ?thesis
      by (auto simp: bs_validate_def validate_sources_find out spec_acceptable_def)
  next
    case (Some x)
    with False show ?thesis by (auto simp: bs_validate_def validate_sources_find)
  qed
qed

end
