(* ===== verification/Batch_Status.thy ===== *)
theory Batch_Status
  imports State_Lifecycle
begin

text \<open>
  \<open>crates/roboflow-distributed/src/batch/status.rs\<close>: the phase machine of a batch, its discovery
  progress and the counters of its status record, with every operation that updates them. The counters
  are 32-bit words and wrap as in the release build; the fractions \<open>progress\<close> and \<open>files_progress\<close>
  (\<open>f64\<close> in the code) are real numbers here, so rounding is not modelled. \<open>now\<close> is the clock reading
  of an operation.
\<close>

section \<open>Phases\<close>

datatype batch_phase =
    Pending | Discovering | Running | Merging | Complete | Failed | Cancelled | Suspending | Suspended

definition phase_is_terminal :: "batch_phase \<Rightarrow> bool" where
  "phase_is_terminal p = (p \<in> {Complete, Failed, Cancelled})"

definition phase_is_active :: "batch_phase \<Rightarrow> bool" where
  "phase_is_active p = (p \<in> {Discovering, Running, Merging})"

fun phase_display :: "batch_phase \<Rightarrow> string" where
  "phase_display Pending = ''Pending''"
| "phase_display Discovering = ''Discovering''"
| "phase_display Running = ''Running''"
| "phase_display Merging = ''Merging''"
| "phase_display Complete = ''Complete''"
| "phase_display Failed = ''Failed''"
| "phase_display Cancelled = ''Cancelled''"
| "phase_display Suspending = ''Suspending''"
| "phase_display Suspended = ''Suspended''"

definition phase_is_claimable :: "batch_phase \<Rightarrow> bool" where
  "phase_is_claimable p = False"

definition phase_can_transition_to :: "batch_phase \<Rightarrow> batch_phase \<Rightarrow> bool" where
  "phase_can_transition_to self target =
     (if self = target then True
      else case self of
        Pending \<Rightarrow> target \<in> {Discovering, Failed, Cancelled}
      | Discovering \<Rightarrow> target \<in> {Running, Failed, Cancelled}
      | Running \<Rightarrow> target \<in> {Merging, Failed, Suspending, Cancelled}
      | Merging \<Rightarrow> target \<in> {Complete, Failed}
      | Suspending \<Rightarrow> target \<in> {Suspended, Failed, Cancelled}
      | Suspended \<Rightarrow> target \<in> {Running, Failed, Cancelled}
      | Complete \<Rightarrow> False
      | Failed \<Rightarrow> False
      | Cancelled \<Rightarrow> False)"

lemmas phase_defs = phase_is_terminal_def phase_is_claimable_def phase_can_transition_to_def
  phase_is_active_def

lemma phase_display_inj: "phase_display p = phase_display q \<longleftrightarrow> p = q"
  by (cases p; cases q) auto

interpretation phase: state_lifecycle phase_is_terminal phase_is_claimable phase_can_transition_to
  phase_display
proof (unfold_locales, goal_cases)
  case (1 s) show ?case by (simp add: phase_defs)
next
  case (2 s t) then show ?case by (cases s) (auto simp: phase_defs split: if_splits)
next
  case (3 s)
  then have "\<exists>t\<in>{Failed, Cancelled}. t \<noteq> s \<and> phase_can_transition_to s t"
    by (cases s) (auto simp: phase_defs)
  then show ?case by blast
next
  case (4 s) then show ?case by (simp add: phase_defs)
next
  case (5 s t) then show ?case by (simp add: phase_display_inj)
qed

section \<open>Status records\<close>

record discovery_status =
  ds_sources_scanned :: u32
  ds_total_sources :: u32
  ds_files_found :: u32
  ds_last_error :: "string option"
  ds_progress :: real

record failed_work_unit =
  fw_id :: string
  fw_source_file :: string
  fw_error :: string
  fw_retries :: u32
  fw_failed_at :: timestamp

record batch_status =
  phase :: batch_phase
  files_total :: u32
  files_completed :: u32
  files_failed :: u32
  files_active :: u32
  work_units_total :: u32
  work_units_completed :: u32
  work_units_failed :: u32
  work_units_active :: u32
  started_at :: "timestamp option"
  completed_at :: "timestamp option"
  bst_error :: "string option"
  updated_at :: timestamp
  discovery :: "discovery_status option"
  failed_work_units :: "failed_work_unit list"

definition discovery_new :: "u32 \<Rightarrow> discovery_status" where
  "discovery_new n =
     \<lparr> ds_sources_scanned = 0, ds_total_sources = n, ds_files_found = 0,
       ds_last_error = None, ds_progress = 0 \<rparr>"

definition ds_update_progress :: "discovery_status \<Rightarrow> discovery_status" where
  "ds_update_progress d =
     (if ds_total_sources d > 0
      then d\<lparr>ds_progress := real (unat (ds_sources_scanned d)) / real (unat (ds_total_sources d))\<rparr>
      else d)"

definition ds_increment_scanned :: "discovery_status \<Rightarrow> discovery_status" where
  "ds_increment_scanned d = ds_update_progress (d\<lparr>ds_sources_scanned := ds_sources_scanned d + 1\<rparr>)"

definition ds_add_files :: "u32 \<Rightarrow> discovery_status \<Rightarrow> discovery_status" where
  "ds_add_files count d = ds_update_progress (d\<lparr>ds_files_found := ds_files_found d + count\<rparr>)"

section \<open>Operations\<close>

definition status_new :: "timestamp \<Rightarrow> batch_status" where
  "status_new now =
     \<lparr> phase = Pending, files_total = 0, files_completed = 0, files_failed = 0, files_active = 0,
       work_units_total = 0, work_units_completed = 0, work_units_failed = 0, work_units_active = 0,
       started_at = None, completed_at = None, bst_error = None, updated_at = now,
       discovery = None, failed_work_units = [] \<rparr>"

definition status_with_phase :: "timestamp \<Rightarrow> batch_phase \<Rightarrow> batch_status" where
  "status_with_phase now p = (status_new now)\<lparr>phase := p\<rparr>"

definition st_progress :: "batch_status \<Rightarrow> real" where
  "st_progress s =
     (if work_units_total s = 0 then 0
      else (real (unat (work_units_completed s)) / real (unat (work_units_total s))) * 100)"

definition st_files_progress :: "batch_status \<Rightarrow> real" where
  "st_files_progress s =
     (if files_total s = 0 then 0
      else let total_processed = files_completed s + files_failed s
           in (real (unat total_processed) / real (unat (files_total s))) * 100)"

definition st_should_fail :: "u32 \<Rightarrow> batch_status \<Rightarrow> bool" where
  "st_should_fail backoff_limit s = (work_units_failed s > backoff_limit)"

definition st_is_complete :: "batch_status \<Rightarrow> bool" where
  "st_is_complete s =
     (work_units_total s > 0 \<and> work_units_completed s + work_units_failed s = work_units_total s)"

definition st_transition_to :: "timestamp \<Rightarrow> batch_phase \<Rightarrow> batch_status \<Rightarrow> batch_status" where
  "st_transition_to now p s =
     (let s1 = s\<lparr>phase := p, updated_at := now\<rparr>
      in if p \<in> {Discovering, Running}
           then (if started_at s1 = None then s1\<lparr>started_at := Some now\<rparr> else s1)
         else if p \<in> {Complete, Failed, Cancelled}
           then (if completed_at s1 = None then s1\<lparr>completed_at := Some now\<rparr> else s1)
         else s1)"

definition st_record_completion :: "timestamp \<Rightarrow> u32 \<Rightarrow> batch_status \<Rightarrow> batch_status" where
  "st_record_completion now count s =
     s\<lparr> work_units_completed := work_units_completed s + count,
        files_completed := files_completed s + count,
        files_active := saturating_sub (files_active s) count,
        work_units_active := saturating_sub (work_units_active s) count,
        updated_at := now \<rparr>"

definition st_record_failure :: "timestamp \<Rightarrow> failed_work_unit \<Rightarrow> batch_status \<Rightarrow> batch_status" where
  "st_record_failure now f s =
     s\<lparr> work_units_failed := work_units_failed s + 1,
        files_failed := files_failed s + 1,
        files_active := saturating_sub (files_active s) 1,
        work_units_active := saturating_sub (work_units_active s) 1,
        failed_work_units := failed_work_units s @ [f],
        updated_at := now \<rparr>"

definition st_increment_active :: "timestamp \<Rightarrow> u32 \<Rightarrow> batch_status \<Rightarrow> batch_status" where
  "st_increment_active now count s =
     s\<lparr> work_units_active := work_units_active s + count, files_active := files_active s + count,
        updated_at := now \<rparr>"

definition st_set_files_total :: "timestamp \<Rightarrow> u32 \<Rightarrow> batch_status \<Rightarrow> batch_status" where
  "st_set_files_total now n s = s\<lparr>files_total := n, updated_at := now\<rparr>"

definition st_set_work_units_total :: "timestamp \<Rightarrow> u32 \<Rightarrow> batch_status \<Rightarrow> batch_status" where
  "st_set_work_units_total now n s = s\<lparr>work_units_total := n, updated_at := now\<rparr>"

definition st_elapsed :: "timestamp \<Rightarrow> batch_status \<Rightarrow> int option" where
  "st_elapsed now s =
     (case started_at s of
        None \<Rightarrow> None
      | Some start \<Rightarrow> (if num_seconds (now - start) > 0 then Some (now - start) else None))"

definition st_remaining :: "timestamp \<Rightarrow> batch_status \<Rightarrow> int option" where
  "st_remaining now s =
     (if files_total s = 0 \<or> files_completed s \<ge> files_total s then Some 0
      else let progress = st_files_progress s
           in if progress \<le> 0 then None
              else map_option
                (\<lambda>elapsed.
                   let elapsed_secs = real_of_int (num_seconds elapsed);
                       total_estimated = elapsed_secs * 100 / progress;
                       remaining = total_estimated - elapsed_secs
                   in duration_seconds \<lfloor>max 0 remaining\<rfloor>)
                (st_elapsed now s))"

section \<open>Basic facts\<close>

lemma st_transition_to_fields [simp]:
  "phase (st_transition_to now p s) = p"
  "updated_at (st_transition_to now p s) = now"
  "work_units_total (st_transition_to now p s) = work_units_total s"
  "work_units_completed (st_transition_to now p s) = work_units_completed s"
  "work_units_failed (st_transition_to now p s) = work_units_failed s"
  "work_units_active (st_transition_to now p s) = work_units_active s"
  "files_total (st_transition_to now p s) = files_total s"
  "files_completed (st_transition_to now p s) = files_completed s"
  "files_failed (st_transition_to now p s) = files_failed s"
  "files_active (st_transition_to now p s) = files_active s"
  "bst_error (st_transition_to now p s) = bst_error s"
  "discovery (st_transition_to now p s) = discovery s"
  "failed_work_units (st_transition_to now p s) = failed_work_units s"
  by (auto simp: st_transition_to_def Let_def)

lemma st_transition_to_times:
  "started_at (st_transition_to now p s) =
     (if started_at s = None \<and> p \<in> {Discovering, Running} then Some now else started_at s)"
  "completed_at (st_transition_to now p s) =
     (if completed_at s = None \<and> phase_is_terminal p then Some now else completed_at s)"
  by (auto simp: st_transition_to_def phase_is_terminal_def Let_def)

lemma st_set_total_simps [simp]:
  "phase (st_set_work_units_total now n s) = phase s"
  "phase (st_set_files_total now n s) = phase s"
  "work_units_total (st_set_work_units_total now n s) = n"
  "work_units_total (st_set_files_total now n s) = work_units_total s"
  by (auto simp: st_set_work_units_total_def st_set_files_total_def)

text \<open>
  The invariant of the timestamps of a status: a started phase has a start time, a terminal phase a
  completion time.
\<close>

definition st_times_ok :: "batch_status \<Rightarrow> bool" where
  "st_times_ok s \<longleftrightarrow>
     (phase s \<in> {Discovering, Running} \<longrightarrow> started_at s \<noteq> None) \<and>
     (phase_is_terminal (phase s) \<longrightarrow> completed_at s \<noteq> None)"

lemma st_times_ok_new: "st_times_ok (status_new now)"
  by (simp add: st_times_ok_def status_new_def phase_is_terminal_def)

lemma st_times_ok_transition: "st_times_ok (st_transition_to now p s)"
  by (cases p) (auto simp: st_times_ok_def st_transition_to_def phase_is_terminal_def Let_def)

lemma st_files_progress_bounds:
  assumes "unat (files_completed s) + unat (files_failed s) \<le> unat (files_total s)"
  shows "0 \<le> st_files_progress s \<and> st_files_progress s \<le> 100"
proof (cases "files_total s = 0")
  case True
  then show ?thesis by (simp add: st_files_progress_def)
next
  case False
  then have pos: "0 < unat (files_total s)" by (simp add: unat_gt_0)
  have "unat (files_total s) < 2 ^ 32" using unsigned_less [of "files_total s"] by simp
  with assms have "unat (files_completed s + files_failed s)
      = unat (files_completed s) + unat (files_failed s)"
    by (intro unat_add_no_wrap) simp
  with assms have le: "unat (files_completed s + files_failed s) \<le> unat (files_total s)"
    by simp
  from percent_bounds [OF le pos] False show ?thesis
    by (simp add: st_files_progress_def Let_def)
qed

section \<open>Properties\<close>

text \<open>the phase table has no dead end. A sequence of requested transitions can lead from a phase to
  \<open>Complete\<close> exactly when the phase is neither \<open>Failed\<close> nor \<open>Cancelled\<close>, whose every request is refused.\<close>

theorem phase_machine_completes:
  "(\<exists>ts. lifecycle_run phase_is_terminal phase_can_transition_to phase_display p ts = Complete) \<longleftrightarrow>
     p \<notin> {Failed, Cancelled}"
proof
  assume "\<exists>ts. lifecycle_run phase_is_terminal phase_can_transition_to phase_display p ts = Complete"
  then show "p \<notin> {Failed, Cancelled}"
    using phase.run_terminal by (cases p) (auto simp: phase_defs)
next
  have "lifecycle_run phase_is_terminal phase_can_transition_to phase_display p
      (case p of
         Suspending \<Rightarrow> [Suspended, Running, Merging, Complete]
       | _ \<Rightarrow> [Discovering, Running, Merging, Complete]) = Complete"
    if "p \<notin> {Failed, Cancelled}"
    using that by (cases p) (auto simp: phase_defs lifecycle_transition_to_def)
  then show "p \<notin> {Failed, Cancelled} \<Longrightarrow>
      \<exists>ts. lifecycle_run phase_is_terminal phase_can_transition_to phase_display p ts = Complete"
    by blast
qed

text \<open>timestamps of a status. Whatever sequence of phases a status is moved through, the first
  entry into \<open>Discovering\<close> or \<open>Running\<close> fixes its start, the first entry into a terminal phase fixes its
  completion, and neither is ever overwritten.\<close>

theorem status_times_first_wins:
  "started_at (fold (\<lambda>(t, p). st_transition_to t p) es s) =
     (case started_at s of
        Some t \<Rightarrow> Some t
      | None \<Rightarrow> map_option fst (find (\<lambda>(t, p). p \<in> {Discovering, Running}) es)) \<and>
   completed_at (fold (\<lambda>(t, p). st_transition_to t p) es s) =
     (case completed_at s of
        Some t \<Rightarrow> Some t
      | None \<Rightarrow> map_option fst (find (\<lambda>(t, p). phase_is_terminal p) es))"
proof (induction es arbitrary: s)
  case Nil
  then show ?case by (auto split: option.splits)
next
  case (Cons e es)
  obtain t p where e: "e = (t, p)" by force
  show ?case
    unfolding e using Cons.IH [of "st_transition_to t p s"]
    by (auto simp: st_transition_to_times split: option.splits)
qed

end
