(* ===== verification/Tikv_Schema.thy ===== *)
theory Tikv_Schema
  imports RF_Prelude
begin

text \<open>
  \<open>tikv/schema.rs\<close> and \<open>tikv/checkpoint.rs\<close>: the records stored for configurations, locks, worker
  heartbeats and checkpoints, with their methods. \<open>now\<close> is the clock reading of a method. Seconds
  arguments of type \<open>i64\<close> are integers. A method that divides by \<open>episodes_per_chunk\<close> panics when it is
  zero: the result \<open>None\<close>.
\<close>

section \<open>Configuration records\<close>

record config_record =
  cr_hash :: string
  cr_content :: string
  cr_created_at :: timestamp

text \<open>SHA-256 is a parameter (package \<open>sha2\<close>).\<close>

definition config_record_new :: "(string \<Rightarrow> string) \<Rightarrow> timestamp \<Rightarrow> string \<Rightarrow> config_record" where
  "config_record_new sha256_hex now content =
     \<lparr> cr_hash = sha256_hex content, cr_content = content, cr_created_at = now \<rparr>"

section \<open>Lock records\<close>

record lock_record =
  lk_resource :: string
  lk_owner :: string
  lk_version :: u64
  lk_expires_at :: timestamp
  lk_acquired_at :: timestamp

definition lock_new :: "timestamp \<Rightarrow> string \<Rightarrow> string \<Rightarrow> int \<Rightarrow> lock_record" where
  "lock_new now resource owner ttl =
     \<lparr> lk_resource = resource, lk_owner = owner, lk_version = 1,
       lk_expires_at = now + duration_seconds ttl, lk_acquired_at = now \<rparr>"

definition lk_is_expired :: "timestamp \<Rightarrow> lock_record \<Rightarrow> bool" where
  "lk_is_expired now l = (now > lk_expires_at l)"

definition lk_is_expired_with_grace :: "timestamp \<Rightarrow> int \<Rightarrow> lock_record \<Rightarrow> bool" where
  "lk_is_expired_with_grace now grace l = (now > lk_expires_at l - duration_seconds grace)"

definition lk_extend :: "timestamp \<Rightarrow> int \<Rightarrow> lock_record \<Rightarrow> lock_record" where
  "lk_extend now ttl l =
     l\<lparr>lk_expires_at := now + duration_seconds ttl, lk_version := lk_version l + 1\<rparr>"

definition lk_is_owned_by :: "string \<Rightarrow> lock_record \<Rightarrow> bool" where
  "lk_is_owned_by pod l = (lk_owner l = pod)"

definition lk_fencing_token :: "lock_record \<Rightarrow> u64" where
  "lk_fencing_token l = lk_version l"

lemmas lock_defs = lock_new_def lk_is_expired_def lk_extend_def lk_is_owned_by_def
  lk_fencing_token_def

section \<open>Heartbeats\<close>

datatype worker_status = Idle | Busy | Draining | Unhealthy

text \<open>A \<open>serde_json::Value\<close>; objects keep their members in a list with distinct keys.\<close>

datatype json =
    JNull | JBool bool | JNum int | JStr string | JArr "json list" | JObj "(string \<times> json) list"

record heartbeat_record =
  hb_pod_id :: string
  hb_last_heartbeat :: timestamp
  hb_status :: worker_status
  hb_active_jobs :: u32
  hb_total_processed :: u64
  hb_capabilities :: "string list"
  hb_metadata :: "json option"

definition heartbeat_new :: "timestamp \<Rightarrow> string \<Rightarrow> heartbeat_record" where
  "heartbeat_new now pod =
     \<lparr> hb_pod_id = pod, hb_last_heartbeat = now, hb_status = Idle, hb_active_jobs = 0,
       hb_total_processed = 0, hb_capabilities = [], hb_metadata = None \<rparr>"

definition hb_beat :: "timestamp \<Rightarrow> heartbeat_record \<Rightarrow> heartbeat_record" where
  "hb_beat now h = h\<lparr>hb_last_heartbeat := now\<rparr>"

definition hb_is_stale :: "timestamp \<Rightarrow> int \<Rightarrow> heartbeat_record \<Rightarrow> bool" where
  "hb_is_stale now timeout h = (now - hb_last_heartbeat h > duration_seconds timeout)"

definition hb_increment_active :: "heartbeat_record \<Rightarrow> heartbeat_record" where
  "hb_increment_active h = h\<lparr>hb_active_jobs := hb_active_jobs h + 1, hb_status := Busy\<rparr>"

definition hb_decrement_active :: "heartbeat_record \<Rightarrow> heartbeat_record" where
  "hb_decrement_active h =
     (let h1 = (if hb_active_jobs h > 0 then h\<lparr>hb_active_jobs := hb_active_jobs h - 1\<rparr> else h)
      in if hb_active_jobs h1 = 0 then h1\<lparr>hb_status := Idle\<rparr> else h1)"

definition hb_increment_processed :: "heartbeat_record \<Rightarrow> heartbeat_record" where
  "hb_increment_processed h = h\<lparr>hb_total_processed := hb_total_processed h + 1\<rparr>"

section \<open>Checkpoints\<close>

record uploaded_part =
  up_part_num :: u32
  up_etag :: string
  up_size :: u64

record video_upload_state =
  vu_camera_id :: string
  vu_upload_id :: string
  vu_parts :: "uploaded_part list"
  vu_last_keyframe_offset :: u64

record parquet_upload_state =
  pu_upload_id :: string
  pu_parts :: "uploaded_part list"
  pu_rows_written :: u64
  pu_buffer_state :: "u8 list option"

record checkpoint_state =
  cp_job_id :: string
  cp_batch_id :: string
  cp_pod_id :: string
  cp_byte_offset :: u64
  cp_last_frame :: u64
  cp_episode_idx :: u64
  cp_chunk_idx :: u32
  cp_episodes_per_chunk :: u32
  cp_total_frames :: u64
  cp_video_uploads :: "video_upload_state list"
  cp_parquet_upload :: "parquet_upload_state option"
  cp_updated_at :: timestamp
  cp_version :: u64

definition video_upload_new :: "string \<Rightarrow> video_upload_state" where
  "video_upload_new cam =
     \<lparr> vu_camera_id = cam, vu_upload_id = [], vu_parts = [], vu_last_keyframe_offset = 0 \<rparr>"

definition vu_is_active :: "video_upload_state \<Rightarrow> bool" where
  "vu_is_active v = (vu_upload_id v \<noteq> [])"

definition vu_next_part_number :: "video_upload_state \<Rightarrow> u32" where
  "vu_next_part_number v = of_nat (length (vu_parts v) + 1)"

definition vu_add_part :: "u32 \<Rightarrow> string \<Rightarrow> u64 \<Rightarrow> video_upload_state \<Rightarrow> video_upload_state" where
  "vu_add_part n etag sz v =
     v\<lparr>vu_parts := vu_parts v @ [\<lparr> up_part_num = n, up_etag = etag, up_size = sz \<rparr>]\<rparr>"

definition vu_uploaded_bytes :: "video_upload_state \<Rightarrow> u64" where
  "vu_uploaded_bytes v = sum_list (map up_size (vu_parts v))"

definition parquet_upload_new :: "string \<Rightarrow> parquet_upload_state" where
  "parquet_upload_new uid =
     \<lparr> pu_upload_id = uid, pu_parts = [], pu_rows_written = 0, pu_buffer_state = None \<rparr>"

definition pu_next_part_number :: "parquet_upload_state \<Rightarrow> u32" where
  "pu_next_part_number p = of_nat (length (pu_parts p) + 1)"

definition pu_add_part :: "u32 \<Rightarrow> string \<Rightarrow> u64 \<Rightarrow> parquet_upload_state \<Rightarrow> parquet_upload_state" where
  "pu_add_part n etag sz p =
     p\<lparr>pu_parts := pu_parts p @ [\<lparr> up_part_num = n, up_etag = etag, up_size = sz \<rparr>]\<rparr>"

definition pu_uploaded_bytes :: "parquet_upload_state \<Rightarrow> u64" where
  "pu_uploaded_bytes p = sum_list (map up_size (pu_parts p))"

definition schema_default_episodes_per_chunk :: u32 where
  "schema_default_episodes_per_chunk = 500"

definition checkpoint_new :: "timestamp \<Rightarrow> string \<Rightarrow> string \<Rightarrow> u64 \<Rightarrow> checkpoint_state" where
  "checkpoint_new now job pod frames =
     \<lparr> cp_job_id = job, cp_batch_id = [], cp_pod_id = pod, cp_byte_offset = 0, cp_last_frame = 0,
       cp_episode_idx = 0, cp_chunk_idx = 0,
       cp_episodes_per_chunk = schema_default_episodes_per_chunk, cp_total_frames = frames,
       cp_video_uploads = [], cp_parquet_upload = None, cp_updated_at = now, cp_version = 1 \<rparr>"

definition checkpoint_with_batch ::
    "timestamp \<Rightarrow> string \<Rightarrow> string \<Rightarrow> string \<Rightarrow> u64 \<Rightarrow> u32 \<Rightarrow> checkpoint_state" where
  "checkpoint_with_batch now job batch pod frames epc =
     \<lparr> cp_job_id = job, cp_batch_id = batch, cp_pod_id = pod, cp_byte_offset = 0, cp_last_frame = 0,
       cp_episode_idx = 0, cp_chunk_idx = 0, cp_episodes_per_chunk = epc, cp_total_frames = frames,
       cp_video_uploads = [], cp_parquet_upload = None, cp_updated_at = now, cp_version = 1 \<rparr>"

definition checkpoint_with_videos ::
    "timestamp \<Rightarrow> string \<Rightarrow> string \<Rightarrow> u64 \<Rightarrow> string list \<Rightarrow> checkpoint_state" where
  "checkpoint_with_videos now job pod frames cameras =
     \<lparr> cp_job_id = job, cp_batch_id = [], cp_pod_id = pod, cp_byte_offset = 0, cp_last_frame = 0,
       cp_episode_idx = 0, cp_chunk_idx = 0,
       cp_episodes_per_chunk = schema_default_episodes_per_chunk, cp_total_frames = frames,
       cp_video_uploads =
         map (\<lambda>cam. \<lparr> vu_camera_id = cam, vu_upload_id = [], vu_parts = [],
                      vu_last_keyframe_offset = 0 \<rparr>) cameras,
       cp_parquet_upload = None, cp_updated_at = now, cp_version = 1 \<rparr>"

definition checkpoint_with_batch_and_videos ::
    "timestamp \<Rightarrow> string \<Rightarrow> string \<Rightarrow> string \<Rightarrow> u64 \<Rightarrow> u32 \<Rightarrow> string list \<Rightarrow> checkpoint_state" where
  "checkpoint_with_batch_and_videos now job batch pod frames epc cameras =
     \<lparr> cp_job_id = job, cp_batch_id = batch, cp_pod_id = pod, cp_byte_offset = 0, cp_last_frame = 0,
       cp_episode_idx = 0, cp_chunk_idx = 0, cp_episodes_per_chunk = epc, cp_total_frames = frames,
       cp_video_uploads =
         map (\<lambda>cam. \<lparr> vu_camera_id = cam, vu_upload_id = [], vu_parts = [],
                      vu_last_keyframe_offset = 0 \<rparr>) cameras,
       cp_parquet_upload = None, cp_updated_at = now, cp_version = 1 \<rparr>"

definition cp_update :: "timestamp \<Rightarrow> u64 \<Rightarrow> u64 \<Rightarrow> checkpoint_state \<Rightarrow> string + checkpoint_state" where
  "cp_update now frame off c =
     (if frame > cp_total_frames c
      then Inl (''Frame '' @ show_nat (unat frame) @ '' exceeds total frames ''
                @ show_nat (unat (cp_total_frames c)))
      else Inr (c\<lparr>cp_last_frame := frame, cp_byte_offset := off, cp_updated_at := now,
                  cp_version := cp_version c + 1\<rparr>))"

definition chunk_of :: "u64 \<Rightarrow> u32 \<Rightarrow> u32 option" where
  "chunk_of episode epc =
     (if epc = 0 then None else Some (ucast (episode div (ucast epc))))"

definition cp_update_episode :: "timestamp \<Rightarrow> u64 \<Rightarrow> checkpoint_state \<Rightarrow> checkpoint_state option" where
  "cp_update_episode now episode c =
     map_option (\<lambda>k. c\<lparr>cp_episode_idx := episode, cp_chunk_idx := k, cp_updated_at := now,
                       cp_version := cp_version c + 1\<rparr>)
       (chunk_of episode (cp_episodes_per_chunk c))"

definition cp_set_distributed_context ::
    "timestamp \<Rightarrow> string \<Rightarrow> u64 \<Rightarrow> u32 \<Rightarrow> checkpoint_state \<Rightarrow> checkpoint_state option" where
  "cp_set_distributed_context now batch episode epc c =
     map_option (\<lambda>k. c\<lparr>cp_batch_id := batch, cp_episode_idx := episode, cp_episodes_per_chunk := epc,
                       cp_chunk_idx := k, cp_updated_at := now, cp_version := cp_version c + 1\<rparr>)
       (chunk_of episode epc)"

definition cp_validate_episode_consistency :: "checkpoint_state \<Rightarrow> bool option" where
  "cp_validate_episode_consistency c =
     map_option (\<lambda>expected. cp_chunk_idx c = expected)
       (chunk_of (cp_episode_idx c) (cp_episodes_per_chunk c))"

text \<open>
  \<open>video_state_mut\<close> returns a mutable reference to the entry of a camera, created when missing: the
  model passes the caller's update of that entry.
\<close>

fun update_first :: "('a \<Rightarrow> bool) \<Rightarrow> ('a \<Rightarrow> 'a) \<Rightarrow> 'a list \<Rightarrow> 'a list" where
  "update_first P f [] = []"
| "update_first P f (x # xs) = (if P x then f x # xs else x # update_first P f xs)"

definition cp_video_state_mut ::
    "string \<Rightarrow> (video_upload_state \<Rightarrow> video_upload_state) \<Rightarrow> checkpoint_state \<Rightarrow> checkpoint_state" where
  "cp_video_state_mut cam f c =
     (let c1 = (if \<not> list_ex (\<lambda>v. vu_camera_id v = cam) (cp_video_uploads c)
                then c\<lparr>cp_video_uploads := cp_video_uploads c @
                         [\<lparr> vu_camera_id = cam, vu_upload_id = [], vu_parts = [],
                            vu_last_keyframe_offset = 0 \<rparr>],
                       cp_version := cp_version c + 1\<rparr>
                else c)
      in c1\<lparr>cp_video_uploads := update_first (\<lambda>v. vu_camera_id v = cam) f (cp_video_uploads c1)\<rparr>)"

definition cp_video_state :: "string \<Rightarrow> checkpoint_state \<Rightarrow> video_upload_state option" where
  "cp_video_state cam c = find (\<lambda>v. vu_camera_id v = cam) (cp_video_uploads c)"

definition cp_set_parquet_upload :: "parquet_upload_state \<Rightarrow> checkpoint_state \<Rightarrow> checkpoint_state" where
  "cp_set_parquet_upload p c = c\<lparr>cp_parquet_upload := Some p, cp_version := cp_version c + 1\<rparr>"

definition cp_progress_percent :: "checkpoint_state \<Rightarrow> real" where
  "cp_progress_percent c =
     (if cp_total_frames c = 0 then 0
      else (real (unat (cp_last_frame c)) / real (unat (cp_total_frames c))) * 100)"

definition cp_is_complete :: "checkpoint_state \<Rightarrow> bool" where
  "cp_is_complete c = (cp_last_frame c \<ge> cp_total_frames c)"

section \<open>Checkpoint policy\<close>

definition DEFAULT_CHECKPOINT_INTERVAL_FRAMES :: u64 where
  "DEFAULT_CHECKPOINT_INTERVAL_FRAMES = 100"

definition DEFAULT_CHECKPOINT_INTERVAL_SECS :: u64 where
  "DEFAULT_CHECKPOINT_INTERVAL_SECS = 10"

record checkpoint_config =
  cc_interval_frames :: u64
  cc_interval_seconds :: u64
  cc_async :: bool

definition default_checkpoint_config :: checkpoint_config where
  "default_checkpoint_config =
     \<lparr> cc_interval_frames = DEFAULT_CHECKPOINT_INTERVAL_FRAMES,
       cc_interval_seconds = DEFAULT_CHECKPOINT_INTERVAL_SECS, cc_async = True \<rparr>"

definition cc_with_frame_interval :: "u64 \<Rightarrow> checkpoint_config \<Rightarrow> checkpoint_config" where
  "cc_with_frame_interval n c = c\<lparr>cc_interval_frames := n\<rparr>"

definition cc_with_time_interval :: "u64 \<Rightarrow> checkpoint_config \<Rightarrow> checkpoint_config" where
  "cc_with_time_interval n c = c\<lparr>cc_interval_seconds := n\<rparr>"

definition cc_with_async :: "bool \<Rightarrow> checkpoint_config \<Rightarrow> checkpoint_config" where
  "cc_with_async b c = c\<lparr>cc_async := b\<rparr>"

text \<open>\<open>time_since_last\<close> is a duration in nanoseconds.\<close>

definition cc_should_checkpoint :: "checkpoint_config \<Rightarrow> u64 \<Rightarrow> int \<Rightarrow> bool" where
  "cc_should_checkpoint c frames_since_last time_since_last =
     (frames_since_last \<ge> cc_interval_frames c \<or>
      time_since_last div ns_per_sec \<ge> uint (cc_interval_seconds c))"

section \<open>Facts\<close>

definition cp_inv :: "checkpoint_state \<Rightarrow> bool" where
  "cp_inv c \<longleftrightarrow>
     cp_last_frame c \<le> cp_total_frames c \<and>
     cp_validate_episode_consistency c = Some True \<and>
     distinct (map vu_camera_id (cp_video_uploads c))"

lemma update_first_map:
  "(\<And>x. g (f x) = g x) \<Longrightarrow> map g (update_first P f xs) = map g xs"
  by (induction xs) auto

lemma cp_inv_update: "cp_inv c \<Longrightarrow> cp_update now fr off c = Inr c' \<Longrightarrow> cp_inv c'"
  by (auto simp: cp_inv_def cp_update_def cp_validate_episode_consistency_def not_less
      split: if_splits)

lemma cp_inv_update_episode: "cp_inv c \<Longrightarrow> cp_update_episode now e c = Some c' \<Longrightarrow> cp_inv c'"
  by (auto simp: cp_inv_def cp_update_episode_def cp_validate_episode_consistency_def)

lemma cp_inv_set_context:
  "cp_inv c \<Longrightarrow> cp_set_distributed_context now b e n c = Some c' \<Longrightarrow> cp_inv c'"
  by (auto simp: cp_inv_def cp_set_distributed_context_def cp_validate_episode_consistency_def)

lemma cp_inv_parquet: "cp_inv c \<Longrightarrow> cp_inv (cp_set_parquet_upload p c)"
  by (auto simp: cp_inv_def cp_set_parquet_upload_def cp_validate_episode_consistency_def)

lemma cp_inv_video:
  assumes "cp_inv c" and keep: "\<And>v. vu_camera_id (f v) = vu_camera_id v"
  shows "cp_inv (cp_video_state_mut cam f c)"
  using assms(1)
  by (auto simp: cp_inv_def cp_video_state_mut_def cp_validate_episode_consistency_def Let_def
      update_first_map [of vu_camera_id f, OF keep] list_ex_iff)

lemma cp_inv_with_batch: "epc \<noteq> 0 \<Longrightarrow> cp_inv (checkpoint_with_batch now j b p n epc)"
  by (simp add: cp_inv_def checkpoint_with_batch_def cp_validate_episode_consistency_def chunk_of_def)

lemma cp_inv_new: "cp_inv (checkpoint_new now j p n)"
  by (simp add: cp_inv_def checkpoint_new_def cp_validate_episode_consistency_def chunk_of_def
      schema_default_episodes_per_chunk_def)

section \<open>Runs\<close>

datatype cp_op =
    CpUpdate timestamp u64 u64
  | CpEpisode timestamp u64
  | CpContext timestamp string u64 u32
  | CpAddVideoPart string u32 string u64
  | CpParquet parquet_upload_state

text \<open>A refused update leaves the checkpoint as it was; \<open>None\<close> is a panic.\<close>

fun cp_apply :: "cp_op \<Rightarrow> checkpoint_state \<Rightarrow> checkpoint_state option" where
  "cp_apply (CpUpdate now frame off) c =
     Some (case cp_update now frame off c of Inl _ \<Rightarrow> c | Inr c' \<Rightarrow> c')"
| "cp_apply (CpEpisode now e) c = cp_update_episode now e c"
| "cp_apply (CpContext now b e n) c = cp_set_distributed_context now b e n c"
| "cp_apply (CpAddVideoPart cam n etag sz) c = Some (cp_video_state_mut cam (vu_add_part n etag sz) c)"
| "cp_apply (CpParquet p) c = Some (cp_set_parquet_upload p c)"

fun cp_run :: "cp_op list \<Rightarrow> checkpoint_state \<Rightarrow> checkpoint_state option" where
  "cp_run [] c = Some c"
| "cp_run (op # ops) c = (case cp_apply op c of None \<Rightarrow> None | Some c' \<Rightarrow> cp_run ops c')"

lemma cp_apply_inv: "cp_inv c \<Longrightarrow> cp_apply op c = Some c' \<Longrightarrow> cp_inv c'"
  by (cases op)
     (auto simp: vu_add_part_def split: sum.splits intro: cp_inv_update cp_inv_update_episode
        cp_inv_set_context cp_inv_video cp_inv_parquet)

lemma cp_inv_epc: "cp_inv c \<Longrightarrow> cp_episodes_per_chunk c \<noteq> 0"
  by (auto simp: cp_inv_def cp_validate_episode_consistency_def chunk_of_def split: if_splits)

lemma cp_apply_defined:
  assumes "cp_inv c" "\<forall>now b e n. op = CpContext now b e n \<longrightarrow> n \<noteq> 0"
  shows "cp_apply op c \<noteq> None"
  using cp_inv_epc [OF assms(1)] assms(2)
  by (cases op) (auto simp: cp_update_episode_def cp_set_distributed_context_def chunk_of_def)

section \<open>Properties\<close>

text \<open>checkpoints stay resumable. Starting from a new checkpoint, any sequence of updates, episode
  changes, context changes with a positive chunk size, added upload parts and parquet states ends without
  a panic in a checkpoint whose frame does not exceed the total, whose chunk is the one of its episode,
  and which has one upload state per camera.\<close>

theorem checkpoint_runs:
  assumes "\<forall>op \<in> set ops. \<forall>now b e n. op = CpContext now b e n \<longrightarrow> n \<noteq> 0"
  shows "\<exists>c. cp_run ops (checkpoint_new t job pod frames) = Some c \<and> cp_inv c"
proof -
  have "cp_inv c \<Longrightarrow> \<exists>c'. cp_run ops c = Some c' \<and> cp_inv c'" for c
    using assms
  proof (induction ops arbitrary: c)
    case Nil
    then show ?case by simp
  next
    case (Cons op ops)
    then obtain d where "cp_apply op c = Some d"
      using cp_apply_defined [of c op] by auto
    with Cons.IH [of d] Cons.prems cp_apply_inv [of c op d] show ?case by simp
  qed
  then show ?thesis using cp_inv_new by blast
qed

theorem checkpoint_runs_witness:
  "\<exists>c. cp_run [CpUpdate 1 50 4096, CpContext 2 ''jobs:b'' 1200 500, CpAddVideoPart ''cam'' 1 ''e'' 8]
         (checkpoint_new 0 ''job'' ''pod'' 100) = Some c \<and> cp_inv c"
  by (rule checkpoint_runs) simp

text \<open>a checkpoint update is refused exactly when the frame exceeds the total; an accepted one moves
  the position and raises the version by one (modulo 2 to the 64), and the percentage it reports stays
  between 0 and 100.\<close>

theorem checkpoint_update_spec:
  "(case cp_update now frame off c of
      Inl _ \<Rightarrow> unat (cp_total_frames c) < unat frame
    | Inr d \<Rightarrow> unat frame \<le> unat (cp_total_frames c) \<and> cp_last_frame d = frame \<and>
        cp_byte_offset d = off \<and> cp_updated_at d = now \<and>
        unat (cp_version d) = (unat (cp_version c) + 1) mod 2 ^ 64 \<and>
        0 \<le> cp_progress_percent d \<and> cp_progress_percent d \<le> 100 \<and>
        (cp_is_complete d \<longleftrightarrow> frame = cp_total_frames c))"
proof (cases "frame > cp_total_frames c")
  case True
  then show ?thesis by (simp add: cp_update_def word_less_nat_alt)
next
  case False
  then have le: "unat frame \<le> unat (cp_total_frames c)" by (simp add: word_less_nat_alt)
  have "cp_total_frames c \<noteq> 0 \<Longrightarrow> 0 < unat (cp_total_frames c)" by (simp add: unat_gt_0)
  with False le percent_bounds [OF le] show ?thesis
    by (auto simp: cp_update_def cp_progress_percent_def cp_is_complete_def unat_word_ariths
        not_less intro: order.antisym)
qed

end
