(* ===== verification/Merge_Schema.thy ===== *)
theory Merge_Schema
  imports RF_Prelude "HOL-Library.AList"
begin

text \<open>
  \<open>merge/schema.rs\<close>: the state of merging the staged outputs of a job. The hash map from worker to
  staging path is an association list with distinct keys; \<open>insert\<close> replaces or adds.
\<close>

datatype merge_status = MPending | MInProgress | MComplete | MFailed

record merge_state =
  ms_job_id :: string
  ms_status :: merge_status
  ms_expected_workers :: nat
  ms_completed_workers :: nat
  ms_staging_paths :: "(string \<times> string) list"
  ms_total_frames :: u64
  ms_merged_frames :: u64
  ms_output_path :: string
  ms_created_at :: timestamp
  ms_updated_at :: timestamp
  ms_error :: "string option"
  ms_merge_worker :: "string option"

definition merge_state_new :: "timestamp \<Rightarrow> string \<Rightarrow> nat \<Rightarrow> string \<Rightarrow> merge_state" where
  "merge_state_new now job expected out =
     \<lparr> ms_job_id = job, ms_status = MPending, ms_expected_workers = expected,
       ms_completed_workers = 0, ms_staging_paths = [], ms_total_frames = 0, ms_merged_frames = 0,
       ms_output_path = out, ms_created_at = now, ms_updated_at = now, ms_error = None,
       ms_merge_worker = None \<rparr>"

definition ms_is_ready :: "merge_state \<Rightarrow> bool" where
  "ms_is_ready m = (ms_completed_workers m \<ge> ms_expected_workers m \<and> ms_status m = MPending)"

definition ms_is_complete :: "merge_state \<Rightarrow> bool" where
  "ms_is_complete m = (ms_status m = MComplete)"

definition ms_is_failed :: "merge_state \<Rightarrow> bool" where
  "ms_is_failed m = (ms_status m = MFailed)"

definition ms_add_worker :: "timestamp \<Rightarrow> string \<Rightarrow> string \<Rightarrow> u64 \<Rightarrow> merge_state \<Rightarrow> merge_state" where
  "ms_add_worker now worker path frames m =
     (let paths = AList.update worker path (ms_staging_paths m)
      in m\<lparr>ms_staging_paths := paths, ms_completed_workers := length paths,
           ms_total_frames := ms_total_frames m + frames, ms_updated_at := now\<rparr>)"

definition ms_start_merge :: "timestamp \<Rightarrow> string \<Rightarrow> merge_state \<Rightarrow> string + merge_state" where
  "ms_start_merge now worker m =
     (if \<not> ms_is_ready m then Inl ''Cannot start merge: not all workers complete''
      else Inr (m\<lparr>ms_status := MInProgress, ms_merge_worker := Some worker, ms_updated_at := now\<rparr>))"

definition ms_complete :: "timestamp \<Rightarrow> merge_state \<Rightarrow> merge_state" where
  "ms_complete now m = m\<lparr>ms_status := MComplete, ms_updated_at := now\<rparr>"

definition ms_fail :: "timestamp \<Rightarrow> string \<Rightarrow> merge_state \<Rightarrow> merge_state" where
  "ms_fail now err m = m\<lparr>ms_status := MFailed, ms_error := Some err, ms_updated_at := now\<rparr>"

definition ms_inv :: "merge_state \<Rightarrow> bool" where
  "ms_inv m \<longleftrightarrow>
     distinct (map fst (ms_staging_paths m)) \<and> ms_completed_workers m = length (ms_staging_paths m)"

lemma ms_inv_new: "ms_inv (merge_state_new now j n out)"
  by (simp add: ms_inv_def merge_state_new_def)

lemma ms_inv_add_worker: "ms_inv m \<Longrightarrow> ms_inv (ms_add_worker now w p f m)"
  by (simp add: ms_inv_def ms_add_worker_def Let_def distinct_update)

lemma ms_inv_start: "ms_inv m \<Longrightarrow> ms_start_merge now w m = Inr m' \<Longrightarrow> ms_inv m'"
  by (auto simp: ms_inv_def ms_start_merge_def split: if_splits)

lemma ms_inv_end: "ms_inv m \<Longrightarrow> ms_inv (ms_complete now m)" "ms_inv m \<Longrightarrow> ms_inv (ms_fail now e m)"
  by (simp_all add: ms_inv_def ms_complete_def ms_fail_def)

lemma ms_add_worker_paths:
  "map_of (ms_staging_paths (ms_add_worker now w p f m)) = (map_of (ms_staging_paths m))(w \<mapsto> p)"
  by (simp add: ms_add_worker_def Let_def update_conv')

section \<open>Sequences of registrations\<close>

definition ms_register_all ::
    "(timestamp \<times> string \<times> string \<times> u64) list \<Rightarrow> merge_state \<Rightarrow> merge_state" where
  "ms_register_all regs m = fold (\<lambda>(t, w, p, f). ms_add_worker t w p f) regs m"

lemma ms_add_worker_keeps:
  "ms_status (ms_add_worker t w p f m) = ms_status m"
  "ms_expected_workers (ms_add_worker t w p f m) = ms_expected_workers m"
  by (simp_all add: ms_add_worker_def Let_def)

lemma ms_register_all_inv:
  "ms_inv m \<Longrightarrow> ms_inv (ms_register_all regs m) \<and>
     ms_status (ms_register_all regs m) = ms_status m \<and>
     ms_expected_workers (ms_register_all regs m) = ms_expected_workers m"
proof (induction regs arbitrary: m)
  case (Cons r regs)
  obtain t w p f where "r = (t, w, p, f)" by (cases r) auto
  with Cons.IH [of "ms_add_worker t w p f m"] Cons.prems show ?case
    by (simp add: ms_register_all_def ms_inv_add_worker ms_add_worker_keeps)
qed (simp add: ms_register_all_def)

lemma ms_register_all_paths:
  "map_of (ms_staging_paths (ms_register_all regs m)) =
     map_of (ms_staging_paths m) ++ map_of (rev (map (\<lambda>(t, w, p, f). (w, p)) regs))"
proof (induction regs arbitrary: m)
  case (Cons r regs)
  obtain t w p f where r: "r = (t, w, p, f)" by (cases r) auto
  have "ms_register_all (r # regs) m = ms_register_all regs (ms_add_worker t w p f m)"
    by (simp add: ms_register_all_def r)
  then show ?case
    by (simp only: Cons.IH ms_add_worker_paths)
       (auto simp: r fun_eq_iff map_add_def split: option.splits)
qed (simp add: ms_register_all_def)

section \<open>Properties\<close>

text \<open>a merge becomes ready when enough different workers have registered. After any sequence of
  registrations on a new merge state, it is ready exactly when the number of distinct workers among
  them reaches the expected number; the staging path of a worker is the one it registered last.\<close>

theorem merge_ready_distinct_workers:
  "(ms_is_ready (ms_register_all regs (merge_state_new now job n out)) \<longleftrightarrow>
      n \<le> card (fst ` snd ` set regs)) \<and>
   map_of (ms_staging_paths (ms_register_all regs (merge_state_new now job n out))) =
      map_of (rev (map (\<lambda>(t, w, p, f). (w, p)) regs))"
proof -
  let ?m = "ms_register_all regs (merge_state_new now job n out)"
  have inv: "ms_inv ?m" "ms_status ?m = MPending" "ms_expected_workers ?m = n"
    using ms_register_all_inv [OF ms_inv_new] by (simp_all add: merge_state_new_def)
  have paths: "map_of (ms_staging_paths ?m) = map_of (rev (map (\<lambda>(t, w, p, f). (w, p)) regs))"
    by (simp add: ms_register_all_paths merge_state_new_def)
  have "fst ` set (ms_staging_paths ?m) = fst ` set (map (\<lambda>(t, w, p, f). (w, p)) regs)"
    using arg_cong [OF paths, of dom] by (simp only: dom_map_of_conv_image_fst set_rev)
  also have "\<dots> = fst ` snd ` set regs"
    by (simp add: image_image case_prod_beta)
  finally have "fst ` set (ms_staging_paths ?m) = fst ` snd ` set regs" .
  then have "ms_completed_workers ?m = card (fst ` snd ` set regs)"
    using inv(1) unfolding ms_inv_def by (metis distinct_card length_map set_map)
  with inv paths show ?thesis by (simp add: ms_is_ready_def)
qed

end
