(* ===== verification/Key_Range.thy ===== *)
theory Key_Range
  imports RF_Prelude
begin

text \<open>
  The upper bound of a prefix scan, \<open>scan_end\<close> in \<open>scan\<close> of \<open>tikv/client.rs\<close>, and the keys between a
  prefix and that bound in the byte order of keys.
\<close>

text \<open>
  The client scans from a prefix to the prefix followed by the byte 0xFF. That range holds the keys
  with the prefix, except those whose next byte is 0xFF itself.
\<close>

definition scan_end :: "key \<Rightarrow> key" where
  "scan_end p = p @ [CHR 0xFF]"

lemma char_le_FF: "(c :: char) \<le> CHR 0xFF"
proof -
  have "of_char c < (256 :: nat)" by (rule nat_of_char_less_256)
  then have "of_char c \<le> (255 :: nat)" by linarith
  then show ?thesis by (simp add: less_eq_char_def)
qed

lemma prefix_range:
  "p \<le> k \<and> k < scan_end p \<longleftrightarrow> (\<exists>r. k = p @ r \<and> (r = [] \<or> hd r \<noteq> CHR 0xFF))"
proof (induction p arbitrary: k)
  case Nil
  show ?case
    by (cases k) (use char_le_FF in \<open>auto simp: scan_end_def order.not_eq_order_implies_strict\<close>)
next
  case (Cons c p)
  then show ?case
    by (cases k) (auto simp: scan_end_def)
qed

end
