(* ===== verification/Kv_Backend.thy ===== *)
theory Kv_Backend
  imports Work_Unit Batch_Spec Batch_Status Tikv_Schema Merge_Schema Key_Range
begin

text \<open>
  The code the repository calls and does not contain: the package \<open>tikv_client\<close> and the serializers
  (\<open>bincode\<close>, \<open>serde_json\<close>, \<open>serde_yaml_ng\<close>). Both are parameters of every definition that uses them.

  \<^item> \<open>('s, 'v) kv\<close> are the calls the client makes on a cluster whose state is the opaque \<open>'s\<close> and whose
    values are the opaque payloads \<open>'v\<close>. Every call may fail with a message.
  \<^item> The locale \<open>tikv_backend\<close> states what the code relies on, as TiKV documents it: a snapshot at a
    fresh timestamp sees the committed data, a transaction buffers its writes, a commit applies all of
    them or none, a failed commit may have been applied or not, and nothing else changes the data. A scan
    returns the committed pairs of a key range in key order, up to the limit.
  \<^item> \<open>reliable_backend\<close> adds a set of calm cluster states in which no call fails; properties that an
    operation succeeds assume it.
  \<^item> \<open>mem_kv\<close> is an executable store with a script of faults that satisfies both; witnesses run on it.
  \<^item> A \<open>codec\<close> is a pair of encoder and decoder; \<open>codec_ok\<close> is its round trip.
\<close>

section \<open>Serializers\<close>

record ('v, 'x) codec =
  ser :: "'x \<Rightarrow> string + 'v"
  de :: "'v \<Rightarrow> string + 'x"

definition codec_ok :: "('v, 'x) codec \<Rightarrow> bool" where
  "codec_ok c \<longleftrightarrow> (\<forall>x. \<exists>v. ser c x = Inr v \<and> de c v = Inr x)"

lemma codec_okE:
  assumes "codec_ok c"
  obtains v where "ser c x = Inr v" "de c v = Inr x"
  using assms by (auto simp: codec_ok_def)

lemma codec_ok_de: "codec_ok c \<Longrightarrow> ser c x = Inr v \<Longrightarrow> de c v = Inr x"
  by (auto simp: codec_ok_def) (metis sum.inject(2))

text \<open>The payload a working encoder writes for a value.\<close>

definition enc :: "('v, 'x) codec \<Rightarrow> 'x \<Rightarrow> 'v" where
  "enc c x = projr (ser c x)"

lemma codec_ok_enc:
  assumes "codec_ok c"
  shows "ser c x = Inr (enc c x)" "de c (enc c x) = Inr x"
proof -
  obtain v where "ser c x = Inr v" "de c v = Inr x" using assms by (rule codec_okE)
  then show "ser c x = Inr (enc c x)" "de c (enc c x) = Inr x" by (simp_all add: enc_def)
qed

lemma enc_inj: "codec_ok c \<Longrightarrow> enc c x = enc c y \<longleftrightarrow> x = y"
  by (metis codec_ok_enc(2) sum.inject(2))

record 'v codecs =
  c_unit :: "('v, work_unit) codec"
  c_status :: "('v, batch_status) codec"
  c_spec :: "('v, batch_spec) codec"
  c_lock :: "('v, lock_record) codec"
  c_heartbeat :: "('v, heartbeat_record) codec"
  c_checkpoint :: "('v, checkpoint_state) codec"
  c_config :: "('v, config_record) codec"
  c_merge :: "('v, merge_state) codec"
  raw_bytes :: "string \<Rightarrow> 'v"  \<comment> \<open>a byte vector the code writes without a serializer\<close>
  json_version :: "'v \<Rightarrow> u64 option"  \<comment> \<open>the member \<open>version\<close> of a JSON object, as \<open>u64\<close>\<close>

definition codecs_ok :: "'v codecs \<Rightarrow> bool" where
  "codecs_ok C \<longleftrightarrow>
     codec_ok (c_unit C) \<and> codec_ok (c_status C) \<and> codec_ok (c_spec C) \<and> codec_ok (c_lock C) \<and>
     codec_ok (c_heartbeat C) \<and> codec_ok (c_checkpoint C) \<and> codec_ok (c_config C) \<and>
     codec_ok (c_merge C)"

lemma codecs_okD [dest]:
  assumes "codecs_ok C"
  shows "codec_ok (c_unit C)" "codec_ok (c_status C)" "codec_ok (c_spec C)" "codec_ok (c_lock C)"
    "codec_ok (c_heartbeat C)" "codec_ok (c_checkpoint C)" "codec_ok (c_config C)"
    "codec_ok (c_merge C)"
  using assms by (auto simp: codecs_ok_def)

section \<open>The store\<close>

record ('s, 'v) kv =
  kv_current_timestamp :: "('s, string, nat) prog"
  kv_snapshot_get :: "nat \<Rightarrow> key \<Rightarrow> ('s, string, 'v option) prog"
  kv_snapshot_scan :: "nat \<Rightarrow> key \<Rightarrow> key \<Rightarrow> u32 \<Rightarrow> ('s, string, (key \<times> 'v) list) prog"
  kv_begin_optimistic :: "('s, string, nat) prog"
  kv_begin_pessimistic :: "('s, string, nat) prog"
  kv_txn_get :: "nat \<Rightarrow> key \<Rightarrow> ('s, string, 'v option) prog"
  kv_txn_put :: "nat \<Rightarrow> key \<Rightarrow> 'v \<Rightarrow> ('s, string, unit) prog"
  kv_txn_delete :: "nat \<Rightarrow> key \<Rightarrow> ('s, string, unit) prog"
  kv_commit :: "nat \<Rightarrow> ('s, string, unit) prog"
  kv_rollback :: "nat \<Rightarrow> ('s, string, unit) prog"

text \<open>Buffered writes of a transaction: \<open>Some (Some v)\<close> writes, \<open>Some None\<close> deletes.\<close>

type_synonym 'v writes = "key \<rightharpoonup> 'v option"

definition apply_writes :: "'v writes \<Rightarrow> (key \<rightharpoonup> 'v) \<Rightarrow> (key \<rightharpoonup> 'v)" where
  "apply_writes w m k = (case w k of None \<Rightarrow> m k | Some x \<Rightarrow> x)"

lemma apply_writes_simps [simp]:
  "apply_writes Map.empty m = m"
  "apply_writes (w(k \<mapsto> Some v)) m = (apply_writes w m)(k \<mapsto> v)"
  "apply_writes (w(k \<mapsto> None)) m = (apply_writes w m)(k := None)"
  "apply_writes (\<lambda>a. if a = k then Some x else w a) m = (apply_writes w m)(k := x)"
  "apply_writes (\<lambda>a. if a = k then Some x else None) m = m(k := x)"
  by (auto simp: apply_writes_def fun_eq_iff)

definition range_entries :: "(key \<rightharpoonup> 'v) \<Rightarrow> key \<Rightarrow> key \<Rightarrow> (key \<times> 'v) list" where
  "range_entries m a b =
     map (\<lambda>k. (k, the (m k))) (sorted_list_of_set {k \<in> dom m. a \<le> k \<and> k < b})"

locale tikv_backend =
  fixes K :: "('s, 'v) kv"
    and contents :: "'s \<Rightarrow> key \<rightharpoonup> 'v"  \<comment> \<open>the committed data\<close>
    and fresh :: "'s \<Rightarrow> nat \<Rightarrow> bool"  \<comment> \<open>nothing was committed after the timestamp\<close>
    and pend :: "'s \<Rightarrow> nat \<Rightarrow> 'v writes option"  \<comment> \<open>buffered writes of an open transaction\<close>
  assumes finite_contents: "finite (dom (contents s))"
    and timestamp_ok:
      "kv_current_timestamp K s = (Inr ts, t) \<Longrightarrow> contents t = contents s \<and> fresh t ts"
    and timestamp_err: "kv_current_timestamp K s = (Inl e, t) \<Longrightarrow> contents t = contents s"
    and get_ok:
      "fresh s ts \<Longrightarrow> kv_snapshot_get K ts k s = (Inr v, t) \<Longrightarrow>
       v = contents s k \<and> contents t = contents s \<and> fresh t ts"
    and get_err: "kv_snapshot_get K ts k s = (Inl e, t) \<Longrightarrow> contents t = contents s"
    and scan_ok:
      "fresh s ts \<Longrightarrow> kv_snapshot_scan K ts a b n s = (Inr xs, t) \<Longrightarrow>
       xs = take (unat n) (range_entries (contents s) a b) \<and> contents t = contents s"
    and scan_err: "kv_snapshot_scan K ts a b n s = (Inl e, t) \<Longrightarrow> contents t = contents s"
    and begin_ok:
      "kv_begin_optimistic K s = (Inr x, t) \<Longrightarrow> contents t = contents s \<and> pend t x = Some Map.empty"
      "kv_begin_pessimistic K s = (Inr x, t) \<Longrightarrow> contents t = contents s \<and> pend t x = Some Map.empty"
    and begin_err:
      "kv_begin_optimistic K s = (Inl e, t) \<Longrightarrow> contents t = contents s"
      "kv_begin_pessimistic K s = (Inl e, t) \<Longrightarrow> contents t = contents s"
    and txn_get_ok:
      "pend s x = Some w \<Longrightarrow> kv_txn_get K x k s = (Inr v, t) \<Longrightarrow>
       v = apply_writes w (contents s) k \<and> contents t = contents s \<and> pend t x = Some w"
    and txn_get_err: "kv_txn_get K x k s = (Inl e, t) \<Longrightarrow> contents t = contents s"
    and txn_put_ok:
      "pend s x = Some w \<Longrightarrow> kv_txn_put K x k y s = (Inr u, t) \<Longrightarrow>
       contents t = contents s \<and> pend t x = Some (w(k \<mapsto> Some y))"
    and txn_put_err: "kv_txn_put K x k y s = (Inl e, t) \<Longrightarrow> contents t = contents s"
    and txn_delete_ok:
      "pend s x = Some w \<Longrightarrow> kv_txn_delete K x k s = (Inr u, t) \<Longrightarrow>
       contents t = contents s \<and> pend t x = Some (w(k \<mapsto> None))"
    and txn_delete_err: "kv_txn_delete K x k s = (Inl e, t) \<Longrightarrow> contents t = contents s"
    and commit_ok:
      "pend s x = Some w \<Longrightarrow> kv_commit K x s = (Inr u, t) \<Longrightarrow> contents t = apply_writes w (contents s)"
    and commit_err:
      "pend s x = Some w \<Longrightarrow> kv_commit K x s = (Inl e, t) \<Longrightarrow>
       contents t = contents s \<or> contents t = apply_writes w (contents s)"
    and rollback_any: "kv_rollback K x s = (r, t) \<Longrightarrow> contents t = contents s"

text \<open>
  The calm states: no call fails in one, and every call leads to another. \<open>pend\<close> restricts the calls to
  transactions that are open.
\<close>

locale reliable_backend = tikv_backend +
  fixes calm :: "'a \<Rightarrow> bool"
  assumes calm_timestamp: "calm s \<Longrightarrow> \<exists>ts t. kv_current_timestamp K s = (Inr ts, t) \<and> calm t"
    and calm_get: "calm s \<Longrightarrow> \<exists>v t. kv_snapshot_get K ts k s = (Inr v, t) \<and> calm t"
    and calm_scan: "calm s \<Longrightarrow> \<exists>xs t. kv_snapshot_scan K ts a b n s = (Inr xs, t) \<and> calm t"
    and calm_begin:
      "calm s \<Longrightarrow> \<exists>x t. kv_begin_optimistic K s = (Inr x, t) \<and> calm t"
      "calm s \<Longrightarrow> \<exists>x t. kv_begin_pessimistic K s = (Inr x, t) \<and> calm t"
    and calm_txn:
      "calm s \<Longrightarrow> pend s x = Some w \<Longrightarrow> \<exists>v t. kv_txn_get K x k s = (Inr v, t) \<and> calm t"
      "calm s \<Longrightarrow> pend s x = Some w \<Longrightarrow> \<exists>u t. kv_txn_put K x k y s = (Inr u, t) \<and> calm t"
      "calm s \<Longrightarrow> pend s x = Some w \<Longrightarrow> \<exists>u t. kv_txn_delete K x k s = (Inr u, t) \<and> calm t"
      "calm s \<Longrightarrow> pend s x = Some w \<Longrightarrow> \<exists>u t. kv_commit K x s = (Inr u, t) \<and> calm t"

section \<open>Key ranges\<close>

lemma set_range_entries:
  assumes "finite (dom m)"
  shows "set (range_entries m a b) = {(k, v). m k = Some v \<and> a \<le> k \<and> k < b}"
proof -
  have "finite {k \<in> dom m. a \<le> k \<and> k < b}" using assms by simp
  then show ?thesis by (auto simp: range_entries_def image_iff)
qed

lemma sorted_range_entries: "sorted (map fst (range_entries m a b))"
  "distinct (map fst (range_entries m a b))"
  by (simp_all add: range_entries_def comp_def)

text \<open>The entries under a prefix.\<close>

definition prefix_entries :: "(key \<rightharpoonup> 'v) \<Rightarrow> key \<Rightarrow> (key \<times> 'v) list" where
  "prefix_entries m p = range_entries m p (scan_end p)"

lemma set_prefix_entries:
  "finite (dom m) \<Longrightarrow>
   set (prefix_entries m p) = {(k, v). m k = Some v \<and> (\<exists>r. k = p @ r \<and> (r = [] \<or> hd r \<noteq> CHR 0xFF))}"
  by (auto simp: prefix_entries_def set_range_entries prefix_range)

section \<open>An executable store\<close>

datatype fault = NoFault | FailBefore string | FailAfter string

record 'v mem =
  mem_data :: "(key \<times> 'v) list"
  mem_txns :: "(nat \<times> (key \<times> 'v option) list) list"
  mem_script :: "fault list"

definition mem_empty :: "'v mem" where
  "mem_empty = \<lparr> mem_data = [], mem_txns = [], mem_script = [] \<rparr>"

text \<open>Each call consumes one entry of the script; an exhausted script means no more faults.\<close>

definition mem_call :: "('v mem, string, 'a) prog \<Rightarrow> ('v mem, string, 'a) prog" where
  "mem_call m s =
     (case mem_script s of
        [] \<Rightarrow> m s
      | f # fs \<Rightarrow>
          (let s1 = s\<lparr>mem_script := fs\<rparr>
           in case f of
                NoFault \<Rightarrow> m s1
              | FailBefore e \<Rightarrow> (Inl e, s1)
              | FailAfter e \<Rightarrow> (Inl e, snd (m s1))))"

definition mem_read :: "key \<Rightarrow> ('v mem, string, 'v option) prog" where
  "mem_read k = gets (\<lambda>s. map_of (mem_data s) k)"

definition mem_scan :: "key \<Rightarrow> key \<Rightarrow> u32 \<Rightarrow> ('v mem, string, (key \<times> 'v) list) prog" where
  "mem_scan a b n =
     gets (\<lambda>s. take (unat n)
       (map (\<lambda>k. (k, the (map_of (mem_data s) k)))
          (filter (\<lambda>k. a \<le> k \<and> k < b) (sort (remdups (map fst (mem_data s)))))))"

definition mem_begin :: "('v mem, string, nat) prog" where
  "mem_begin s =
     (let x = length (mem_txns s) in (Inr x, s\<lparr>mem_txns := (x, []) # mem_txns s\<rparr>))"

definition mem_on_txn ::
    "nat \<Rightarrow> ((key \<times> 'v option) list \<Rightarrow> ('v mem, string, 'a) prog) \<Rightarrow> ('v mem, string, 'a) prog" where
  "mem_on_txn x f s =
     (case map_of (mem_txns s) x of None \<Rightarrow> (Inl ''no such transaction'', s) | Some w \<Rightarrow> f w s)"

definition mem_txn_get :: "nat \<Rightarrow> key \<Rightarrow> ('v mem, string, 'v option) prog" where
  "mem_txn_get x k =
     mem_on_txn x (\<lambda>w. gets (\<lambda>s. apply_writes (map_of w) (map_of (mem_data s)) k))"

definition mem_txn_write :: "nat \<Rightarrow> key \<Rightarrow> 'v option \<Rightarrow> ('v mem, string, unit) prog" where
  "mem_txn_write x k v =
     mem_on_txn x (\<lambda>w. modifyM (\<lambda>s. s\<lparr>mem_txns := (x, (k, v) # w) # mem_txns s\<rparr>))"

fun mem_apply :: "(key \<times> 'v option) list \<Rightarrow> (key \<times> 'v) list \<Rightarrow> (key \<times> 'v) list" where
  "mem_apply [] d = d"
| "mem_apply ((k, None) # w) d = filter (\<lambda>e. fst e \<noteq> k) (mem_apply w d)"
| "mem_apply ((k, Some v) # w) d = (k, v) # mem_apply w d"

definition mem_commit :: "nat \<Rightarrow> ('v mem, string, unit) prog" where
  "mem_commit x = mem_on_txn x (\<lambda>w. modifyM (\<lambda>s. s\<lparr>mem_data := mem_apply w (mem_data s)\<rparr>))"

definition mem_kv :: "('v mem, 'v) kv" where
  "mem_kv =
     \<lparr> kv_current_timestamp = mem_call (ret 0),
       kv_snapshot_get = (\<lambda>ts k. mem_call (mem_read k)),
       kv_snapshot_scan = (\<lambda>ts a b n. mem_call (mem_scan a b n)),
       kv_begin_optimistic = mem_call mem_begin,
       kv_begin_pessimistic = mem_call mem_begin,
       kv_txn_get = (\<lambda>x k. mem_call (mem_txn_get x k)),
       kv_txn_put = (\<lambda>x k v. mem_call (mem_txn_write x k (Some v))),
       kv_txn_delete = (\<lambda>x k. mem_call (mem_txn_write x k None)),
       kv_commit = (\<lambda>x. mem_call (mem_commit x)),
       kv_rollback = (\<lambda>x. mem_call (ret ())) \<rparr>"

definition mem_contents :: "'v mem \<Rightarrow> key \<rightharpoonup> 'v" where
  "mem_contents s = map_of (mem_data s)"

definition mem_fresh :: "'v mem \<Rightarrow> nat \<Rightarrow> bool" where
  "mem_fresh s ts = True"

definition mem_pend :: "'v mem \<Rightarrow> nat \<Rightarrow> 'v writes option" where
  "mem_pend s x = map_option map_of (map_of (mem_txns s) x)"

definition mem_calm :: "'v mem \<Rightarrow> bool" where
  "mem_calm s \<longleftrightarrow> mem_script s = []"

lemma mem_apply_contents: "map_of (mem_apply w d) = apply_writes (map_of w) (map_of d)"
proof (induction w d rule: mem_apply.induct)
  case (2 k w d)
  have "map_of (filter (\<lambda>e. fst e \<noteq> k) xs) = (map_of xs)(k := None)" for xs :: "(key \<times> 'a) list"
    by (induction xs) (auto simp: fun_eq_iff)
  with 2 show ?case by (auto simp: apply_writes_def fun_eq_iff)
qed (auto simp: apply_writes_def fun_eq_iff)

lemma mem_scan_entries:
  "map (\<lambda>k. (k, the (map_of d k)))
     (filter (\<lambda>k. a \<le> k \<and> k < b) (sort (remdups (map fst d)))) = range_entries (map_of d) a b"
proof -
  have "{k \<in> dom (map_of d). a \<le> k \<and> k < b}
      = set (filter (\<lambda>k. a \<le> k \<and> k < b) (sort (remdups (map fst d))))"
    by (auto simp: dom_map_of_conv_image_fst)
  moreover have "sorted (filter (\<lambda>k. a \<le> k \<and> k < b) (sort (remdups (map fst d))))"
    and "distinct (filter (\<lambda>k. a \<le> k \<and> k < b) (sort (remdups (map fst d))))"
    by (auto simp: sorted_wrt_filter)
  ultimately show ?thesis
    by (simp only: range_entries_def sorted_list_of_set.idem_if_sorted_distinct)
qed

lemmas mem_defs = mem_kv_def mem_call_def mem_read_def mem_scan_def mem_begin_def mem_on_txn_def
  mem_txn_get_def mem_txn_write_def mem_commit_def mem_contents_def mem_fresh_def mem_pend_def
  mem_calm_def

interpretation mem: reliable_backend mem_kv mem_contents mem_fresh mem_pend mem_calm
proof (unfold_locales, goal_cases)
  case 1 then show ?case by (simp add: mem_contents_def finite_dom_map_of)
qed (auto simp: mem_defs mem_scan_entries mem_apply_contents Let_def
    split: list.splits fault.splits option.splits)

text \<open>Payloads and serializers that keep the round-trip law, for executable instances.\<close>

datatype payload =
    PUnit work_unit | PStatus batch_status | PSpec batch_spec | PLock lock_record
  | PHeartbeat heartbeat_record | PCheckpoint checkpoint_state | PConfig config_record
  | PMerge merge_state | PJson "(string \<times> u64) list" | PRaw string

definition mem_codec :: "('x \<Rightarrow> payload) \<Rightarrow> (payload \<Rightarrow> 'x option) \<Rightarrow> (payload, 'x) codec" where
  "mem_codec wrap unwrap =
     \<lparr> ser = (\<lambda>x. Inr (wrap x)),
       de = (\<lambda>v. case unwrap v of Some x \<Rightarrow> Inr x | None \<Rightarrow> Inl ''unexpected payload'') \<rparr>"

definition mem_codecs :: "payload codecs" where
  "mem_codecs =
     \<lparr> c_unit = mem_codec PUnit (\<lambda>v. case v of PUnit x \<Rightarrow> Some x | _ \<Rightarrow> None),
       c_status = mem_codec PStatus (\<lambda>v. case v of PStatus x \<Rightarrow> Some x | _ \<Rightarrow> None),
       c_spec = mem_codec PSpec (\<lambda>v. case v of PSpec x \<Rightarrow> Some x | _ \<Rightarrow> None),
       c_lock = mem_codec PLock (\<lambda>v. case v of PLock x \<Rightarrow> Some x | _ \<Rightarrow> None),
       c_heartbeat = mem_codec PHeartbeat (\<lambda>v. case v of PHeartbeat x \<Rightarrow> Some x | _ \<Rightarrow> None),
       c_checkpoint = mem_codec PCheckpoint (\<lambda>v. case v of PCheckpoint x \<Rightarrow> Some x | _ \<Rightarrow> None),
       c_config = mem_codec PConfig (\<lambda>v. case v of PConfig x \<Rightarrow> Some x | _ \<Rightarrow> None),
       c_merge = mem_codec PMerge (\<lambda>v. case v of PMerge x \<Rightarrow> Some x | _ \<Rightarrow> None),
       raw_bytes = PRaw,
       json_version = (\<lambda>v. case v of PJson ms \<Rightarrow> map_of ms ''version'' | _ \<Rightarrow> None) \<rparr>"

lemma mem_codecs_ok: "codecs_ok mem_codecs"
  by (simp add: codecs_ok_def codec_ok_def mem_codecs_def mem_codec_def)

end
