(* ===== verification/Tikv_Key.thy ===== *)
theory Tikv_Key
  imports Batch_Spec Batch_Status Key_Range
begin

text \<open>
  Key builders: \<open>tikv/key.rs\<close> (\<open>KeyBuilder\<close> and the namespaces jobs, locks, state, heartbeat, configs,
  system) and \<open>batch/key.rs\<close> (specs, statuses, work units, pending queue, secondary indexes). A key is
  the byte string of \<open>/roboflow/v1\<close> followed by \<open>/part\<close> for every part.

  \<open>key_forms\<close> gives every builder as a literal prefix and its arguments; from it follow that builders of
  different families never collide, that a builder is injective in identifiers without a slash, and
  exactly which work-unit keys a prefix scan of a batch selects.
\<close>

section \<open>KeyBuilder\<close>

definition KEY_PREFIX :: string where
  "KEY_PREFIX = ''/roboflow/v1/''"

type_synonym key_builder = "string list"

definition kb_new :: key_builder where "kb_new = []"

definition kb_push :: "string \<Rightarrow> key_builder \<Rightarrow> key_builder" where
  "kb_push part b = b @ [part]"

fun kb_build_with_prefix :: "string \<Rightarrow> key_builder \<Rightarrow> key" where
  "kb_build_with_prefix acc [] = acc"
| "kb_build_with_prefix acc (p # ps) = kb_build_with_prefix (acc @ ''/'' @ p) ps"

definition kb_build :: "key_builder \<Rightarrow> key" where
  "kb_build b = kb_build_with_prefix (trim_end_char CHR ''/'' KEY_PREFIX) b"

text \<open>\<open>as_str\<close> skips the separator before the first part when the prefix ends in one.\<close>

fun kb_as_str_loop :: "nat \<Rightarrow> string \<Rightarrow> key_builder \<Rightarrow> string" where
  "kb_as_str_loop i key [] = key"
| "kb_as_str_loop i key (p # ps) =
     (let key1 = (if i > 0 \<or> \<not> suffix ''/'' key then key @ ''/'' else key)
      in kb_as_str_loop (Suc i) (key1 @ p) ps)"

definition kb_as_str :: "key_builder \<Rightarrow> string" where
  "kb_as_str b = kb_as_str_loop 0 (trim_end_char CHR ''/'' KEY_PREFIX) b"

section \<open>Builders of \<open>tikv/key.rs\<close>\<close>

definition job_record_key :: "string \<Rightarrow> key" where
  "job_record_key h = kb_build (kb_push h (kb_push ''jobs'' kb_new))"

definition job_prefix :: key where "job_prefix = KEY_PREFIX @ ''jobs/''"

definition lock_key :: "string \<Rightarrow> key" where
  "lock_key resource = kb_build (kb_push resource (kb_push ''locks'' kb_new))"

definition lock_prefix :: key where "lock_prefix = KEY_PREFIX @ ''locks/''"

definition checkpoint_key :: "string \<Rightarrow> key" where
  "checkpoint_key h = kb_build (kb_push h (kb_push ''state'' kb_new))"

definition checkpoint_prefix :: key where "checkpoint_prefix = KEY_PREFIX @ ''state/''"

definition heartbeat_key :: "string \<Rightarrow> key" where
  "heartbeat_key pod = kb_build (kb_push pod (kb_push ''heartbeat'' kb_new))"

definition heartbeat_prefix :: key where "heartbeat_prefix = KEY_PREFIX @ ''heartbeat/''"

definition config_key :: "string \<Rightarrow> key" where
  "config_key h = kb_build (kb_push h (kb_push ''configs'' kb_new))"

definition config_prefix :: key where "config_prefix = KEY_PREFIX @ ''configs/''"

definition scanner_lock_key :: key where
  "scanner_lock_key = kb_build (kb_push ''scanner_lock'' (kb_push ''system'' kb_new))"

section \<open>Builders of \<open>batch/key.rs\<close>\<close>

definition spec_key :: "string \<Rightarrow> key" where
  "spec_key b = kb_build (kb_push b (kb_push ''specs'' (kb_push ''batch'' kb_new)))"

definition status_key :: "string \<Rightarrow> key" where
  "status_key b = kb_build (kb_push b (kb_push ''statuses'' (kb_push ''batch'' kb_new)))"

definition specs_prefix :: key where
  "specs_prefix = kb_build (kb_push ''specs'' (kb_push ''batch'' kb_new))"

definition statuses_prefix :: key where
  "statuses_prefix = kb_build (kb_push ''statuses'' (kb_push ''batch'' kb_new))"

definition unit_key :: "string \<Rightarrow> string \<Rightarrow> key" where
  "unit_key b u = kb_build (kb_push u (kb_push b (kb_push ''workunits'' (kb_push ''batch'' kb_new))))"

definition unit_batch_prefix :: "string \<Rightarrow> key" where
  "unit_batch_prefix b = kb_build (kb_push b (kb_push ''workunits'' (kb_push ''batch'' kb_new)))"

definition units_prefix :: key where
  "units_prefix = kb_build (kb_push ''workunits'' (kb_push ''batch'' kb_new))"

definition pending_key :: "string \<Rightarrow> string \<Rightarrow> key" where
  "pending_key b u = kb_build (kb_push u (kb_push b (kb_push ''pending'' (kb_push ''batch'' kb_new))))"

definition pending_prefix :: key where
  "pending_prefix = kb_build (kb_push ''pending'' (kb_push ''batch'' kb_new))"

definition pending_batch_prefix :: "string \<Rightarrow> key" where
  "pending_batch_prefix b = kb_build (kb_push b (kb_push ''pending'' (kb_push ''batch'' kb_new)))"

definition index_builder :: "string \<Rightarrow> key_builder" where
  "index_builder kind = kb_push kind (kb_push ''index'' (kb_push ''batch'' kb_new))"

definition phase_str :: "batch_phase \<Rightarrow> string" where
  "phase_str p =
     (case p of
        Pending \<Rightarrow> ''Pending'' | Discovering \<Rightarrow> ''Discovering'' | Running \<Rightarrow> ''Running''
      | Merging \<Rightarrow> ''Merging'' | Complete \<Rightarrow> ''Complete'' | Failed \<Rightarrow> ''Failed''
      | Cancelled \<Rightarrow> ''Cancelled'' | Suspending \<Rightarrow> ''Suspending'' | Suspended \<Rightarrow> ''Suspended'')"

definition phase_key :: "batch_phase \<Rightarrow> string \<Rightarrow> key" where
  "phase_key p b = kb_build (kb_push b (kb_push (phase_str p) (index_builder ''phase'')))"

definition phase_prefix :: "batch_phase \<Rightarrow> key" where
  "phase_prefix p = kb_build (kb_push (phase_str p) (index_builder ''phase''))"

definition priority_key :: "i32 \<Rightarrow> string \<Rightarrow> key" where
  "priority_key n b = kb_build (kb_push b (kb_push (show_int (sint n)) (index_builder ''priority'')))"

definition priority_prefix :: "i32 \<Rightarrow> key" where
  "priority_prefix n = kb_build (kb_push (show_int (sint n)) (index_builder ''priority''))"

definition submitter_key :: "string \<Rightarrow> string \<Rightarrow> key" where
  "submitter_key w b = kb_build (kb_push b (kb_push w (index_builder ''submitter'')))"

definition submitter_prefix :: "string \<Rightarrow> key" where
  "submitter_prefix w = kb_build (kb_push w (index_builder ''submitter''))"

definition namespace_key :: "string \<Rightarrow> string \<Rightarrow> key" where
  "namespace_key n b = kb_build (kb_push b (kb_push n (index_builder ''namespace'')))"

definition namespace_prefix :: "string \<Rightarrow> key" where
  "namespace_prefix n = kb_build (kb_push n (index_builder ''namespace''))"

section \<open>Closed forms\<close>

lemma kb_build_with_prefix_eq:
  "kb_build_with_prefix acc ps = acc @ concat (map (\<lambda>p. CHR ''/'' # p) ps)"
  by (induction ps arbitrary: acc) auto

lemma kb_build_eq: "kb_build ps = ''/roboflow/v1'' @ concat (map (\<lambda>p. CHR ''/'' # p) ps)"
  by (simp add: kb_build_def kb_build_with_prefix_eq KEY_PREFIX_def trim_end_char_def)

lemma kb_as_str_loop_eq:
  "0 < i \<Longrightarrow> kb_as_str_loop i key ps = key @ concat (map (\<lambda>p. CHR ''/'' # p) ps)"
  by (induction ps arbitrary: i key) (auto simp: Let_def)

text \<open>The display form and the stored key agree.\<close>

lemma kb_as_str_build: "kb_as_str ps = kb_build ps"
proof (cases ps)
  case Nil
  then show ?thesis by (simp add: kb_as_str_def kb_build_def)
next
  case (Cons p qs)
  have "\<not> suffix ''/'' ''/roboflow/v1''" by (simp add: suffix_def)
  with Cons show ?thesis
    by (simp add: kb_as_str_def kb_build_eq KEY_PREFIX_def trim_end_char_def Let_def kb_as_str_loop_eq)
qed

lemma key_forms:
  "job_record_key h = ''/roboflow/v1/jobs/'' @ h"
  "lock_key r = ''/roboflow/v1/locks/'' @ r"
  "checkpoint_key h = ''/roboflow/v1/state/'' @ h"
  "heartbeat_key p = ''/roboflow/v1/heartbeat/'' @ p"
  "config_key h = ''/roboflow/v1/configs/'' @ h"
  "spec_key b = ''/roboflow/v1/batch/specs/'' @ b"
  "status_key b = ''/roboflow/v1/batch/statuses/'' @ b"
  "unit_key b u = ''/roboflow/v1/batch/workunits/'' @ b @ ''/'' @ u"
  "unit_batch_prefix b = ''/roboflow/v1/batch/workunits/'' @ b"
  "pending_key b u = ''/roboflow/v1/batch/pending/'' @ b @ ''/'' @ u"
  "pending_prefix = ''/roboflow/v1/batch/pending''"
  "units_prefix = ''/roboflow/v1/batch/workunits''"
  "specs_prefix = ''/roboflow/v1/batch/specs''"
  "heartbeat_prefix = ''/roboflow/v1/heartbeat/''"
  "phase_key q b = ''/roboflow/v1/batch/index/phase/'' @ phase_str q @ ''/'' @ b"
  "phase_prefix q = ''/roboflow/v1/batch/index/phase/'' @ phase_str q"
  by (simp_all add: kb_build_eq kb_push_def kb_new_def index_builder_def KEY_PREFIX_def
      job_record_key_def lock_key_def checkpoint_key_def heartbeat_key_def config_key_def
      spec_key_def status_key_def unit_key_def unit_batch_prefix_def pending_key_def
      pending_prefix_def units_prefix_def specs_prefix_def heartbeat_prefix_def phase_key_def
      phase_prefix_def)

section \<open>Injectivity and disjointness\<close>

lemma phase_str_display: "phase_str p = phase_display p"
  by (cases p) (auto simp: phase_str_def)

lemma phase_str_no_slash: "CHR ''/'' \<notin> set (phase_str p)"
  by (cases p) (auto simp: phase_str_def)

lemma phase_str_inj: "phase_str p = phase_str q \<longleftrightarrow> p = q"
  by (simp add: phase_str_display phase_display_inj)

lemma append_sep_inj:
  "c \<notin> set a \<Longrightarrow> c \<notin> set b \<Longrightarrow> a @ c # x = b @ c # y \<longleftrightarrow> a = b \<and> x = y"
  by (auto simp: append_eq_append_conv2 Cons_eq_append_conv append_eq_Cons_conv)

lemma prefix_sep:
  "c \<notin> set a \<Longrightarrow> prefix a (b @ c # x) \<longleftrightarrow> prefix a b"
proof
  assume a: "c \<notin> set a" and "prefix a (b @ c # x)"
  then show "prefix a b"
    by (auto simp: prefix_def append_eq_append_conv2 Cons_eq_append_conv)
qed (auto simp: prefix_def)

lemma single_key_inj [simp]:
  "lock_key r = lock_key r' \<longleftrightarrow> r = r'"
  "checkpoint_key r = checkpoint_key r' \<longleftrightarrow> r = r'"
  "heartbeat_key r = heartbeat_key r' \<longleftrightarrow> r = r'"
  "config_key r = config_key r' \<longleftrightarrow> r = r'"
  "spec_key r = spec_key r' \<longleftrightarrow> r = r'"
  "status_key r = status_key r' \<longleftrightarrow> r = r'"
  by (simp_all add: key_forms)

lemma unit_key_inj:
  "CHR ''/'' \<notin> set b \<Longrightarrow> CHR ''/'' \<notin> set b' \<Longrightarrow> unit_key b u = unit_key b' u' \<longleftrightarrow> b = b' \<and> u = u'"
  "CHR ''/'' \<notin> set b \<Longrightarrow> CHR ''/'' \<notin> set b' \<Longrightarrow> pending_key b u = pending_key b' u' \<longleftrightarrow> b = b' \<and> u = u'"
  by (simp_all add: key_forms append_sep_inj)

lemma unit_key_same_batch [simp]:
  "unit_key b u = unit_key b u' \<longleftrightarrow> u = u'"
  "pending_key b u = pending_key b u' \<longleftrightarrow> u = u'"
  by (simp_all add: key_forms)

lemma phase_key_inj [simp]: "phase_key p b = phase_key q b' \<longleftrightarrow> p = q \<and> b = b'"
  by (simp add: key_forms append_sep_inj phase_str_no_slash phase_str_inj)

lemma key_family_distinct [simp]:
  "status_key b \<noteq> spec_key c" "status_key b \<noteq> unit_key c u" "status_key b \<noteq> pending_key c u"
  "status_key b \<noteq> phase_key p c" "status_key b \<noteq> lock_key r" "status_key b \<noteq> heartbeat_key r"
  "spec_key b \<noteq> status_key c" "spec_key b \<noteq> unit_key c u" "spec_key b \<noteq> pending_key c u"
  "spec_key b \<noteq> phase_key p c"
  "unit_key c u \<noteq> status_key b" "unit_key c u \<noteq> spec_key b" "unit_key c u \<noteq> pending_key d v"
  "unit_key c u \<noteq> phase_key p d" "unit_key c u \<noteq> lock_key r" "unit_key c u \<noteq> heartbeat_key r"
  "pending_key c u \<noteq> status_key b" "pending_key c u \<noteq> spec_key b" "pending_key c u \<noteq> unit_key d v"
  "pending_key c u \<noteq> phase_key p d" "pending_key c u \<noteq> []"
  "phase_key p c \<noteq> status_key b" "phase_key p c \<noteq> spec_key b" "phase_key p c \<noteq> unit_key d v"
  "phase_key p c \<noteq> pending_key d v"
  "unit_key c u \<noteq> []" "status_key b \<noteq> []" "phase_key p c \<noteq> []"
  by (simp_all add: key_forms)

text \<open>What the scans of the controller, the scanner and the reaper select.\<close>

lemma prefix_pending [simp]: "prefix pending_prefix (pending_key b u)"
  by (simp add: key_forms)

lemma prefix_units [simp]: "prefix units_prefix (unit_key b u)"
  by (simp add: key_forms)

lemma prefix_phase: "prefix (phase_prefix p) (phase_key q b) \<longleftrightarrow> p = q"
proof -
  have "prefix (phase_str p) (phase_str q) \<longleftrightarrow> p = q"
    by (cases p; cases q) (auto simp: phase_str_def)
  then show ?thesis
    by (simp add: key_forms prefix_sep phase_str_no_slash)
qed

lemma prefix_unit_batch:
  "CHR ''/'' \<notin> set b \<Longrightarrow> prefix (unit_batch_prefix b) (unit_key c u) \<longleftrightarrow> prefix b c"
  by (simp add: key_forms prefix_sep)

lemma phase_key_last: "CHR ''/'' \<notin> set b \<Longrightarrow> split_last CHR ''/'' (phase_key p b) = b"
  using split_last_append [of "CHR ''/''" b "''/roboflow/v1/batch/index/phase/'' @ phase_str p"]
  by (simp add: key_forms)

lemma spec_key_last: "CHR ''/'' \<notin> set b \<Longrightarrow> split_last CHR ''/'' (spec_key b) = b"
  using split_last_append [of "CHR ''/''" b "''/roboflow/v1/batch/specs''"]
  by (simp add: key_forms)

section \<open>Stored objects\<close>

datatype stored =
    SSpec string | SStatus string | SUnit string string | SPending string string
  | SPhase batch_phase string | SLock string | SHeartbeat string | SCheckpoint string

fun stored_key :: "stored \<Rightarrow> key" where
  "stored_key (SSpec b) = spec_key b"
| "stored_key (SStatus b) = status_key b"
| "stored_key (SUnit b u) = unit_key b u"
| "stored_key (SPending b u) = pending_key b u"
| "stored_key (SPhase p b) = phase_key p b"
| "stored_key (SLock r) = lock_key r"
| "stored_key (SHeartbeat p) = heartbeat_key p"
| "stored_key (SCheckpoint j) = checkpoint_key j"

fun slash_free :: "stored \<Rightarrow> bool" where
  "slash_free (SUnit b u) = (CHR ''/'' \<notin> set b)"
| "slash_free (SPending b u) = (CHR ''/'' \<notin> set b)"
| "slash_free _ = True"

section \<open>Properties\<close>

text \<open>keys identify what they store. Spec, status, unit, pending, phase-index, lock, heartbeat and
  checkpoint keys determine their kind and their arguments, as long as the batch identifiers in unit and
  pending keys have no slash.\<close>

theorem stored_key_inj:
  assumes "slash_free x" "slash_free y"
  shows "stored_key x = stored_key y \<longleftrightarrow> x = y"
  using assms by (cases x; cases y) (simp_all add: key_forms append_sep_inj phase_str_no_slash phase_str_inj)

theorem stored_key_inj_witness:
  "stored_key (SUnit ''jobs:a'' ''u1'') \<noteq> stored_key (SPending ''jobs:a'' ''u1'')"
  using stored_key_inj [of "SUnit ''jobs:a'' ''u1''" "SPending ''jobs:a'' ''u1''"] by simp

text \<open>what a scan of a batch's work units selects. The range from the batch prefix to the prefix
  followed by 0xFF contains the key of a unit of batch \<open>c\<close> exactly when \<open>b\<close> is a prefix of \<open>c\<close> and
  \<open>c\<close> does not go on with the byte 0xFF: the units of the batch itself, and also those of every batch
  whose identifier extends it.\<close>

theorem unit_batch_scan_selects:
  assumes "CHR ''/'' \<notin> set b"
  shows "unit_batch_prefix b \<le> unit_key c u \<and> unit_key c u < unit_batch_prefix b @ [CHR 0xFF] \<longleftrightarrow>
    (\<exists>r. c = b @ r \<and> (r = [] \<or> hd r \<noteq> CHR 0xFF))"
proof -
  have "(\<exists>r. b @ r = c @ CHR ''/'' # u \<and> (r = [] \<or> hd r \<noteq> CHR 0xFF)) \<longleftrightarrow>
      (\<exists>r. c = b @ r \<and> (r = [] \<or> hd r \<noteq> CHR 0xFF))"
  proof (cases "prefix b c")
    case True
    then obtain r where "c = b @ r" by (auto simp: prefix_def)
    then show ?thesis by (cases r) auto
  next
    case False
    then have "\<not> prefix b (c @ CHR ''/'' # u)" by (simp add: prefix_sep [OF assms])
    then have "b @ r \<noteq> c @ CHR ''/'' # u" for r by (metis prefix_def)
    with False show ?thesis by (auto simp: prefix_def)
  qed
  then show ?thesis
    using prefix_range [of "unit_batch_prefix b" "unit_key c u"]
    by (simp add: scan_end_def) (auto simp: key_forms)
qed

theorem unit_batch_scan_selects_witness:
  "unit_batch_prefix ''jobs:a'' \<le> unit_key ''jobs:ab'' ''u1'' \<and>
   unit_key ''jobs:ab'' ''u1'' < unit_batch_prefix ''jobs:a'' @ [CHR 0xFF]"
  using unit_batch_scan_selects [of "''jobs:a''" "''jobs:ab''" "''u1''"] by simp

end
