(* ===== verification/Tikv_Error.thy ===== *)
theory Tikv_Error
  imports RF_Prelude
begin

text \<open>
  \<open>tikv/error.rs\<close>: the error type of every store operation, and which errors the client retries.
\<close>

datatype tikv_error =
    ConnectionFailed string
  | TransactionAborted string
  | KeyNotFound string
  | Serialization string
  | Deserialization string
  | CasFailed u64 u64
  | LockAcquisitionFailed string
  | InvalidConfig string
  | Timeout string
  | WriteConflict
  | ClientError string
  | Retryable u32 u32 string
  | Other string
  | CircuitOpen u32

definition is_retryable :: "tikv_error \<Rightarrow> bool" where
  "is_retryable e =
     (case e of
        WriteConflict \<Rightarrow> True
      | Retryable _ _ _ \<Rightarrow> True
      | Timeout _ \<Rightarrow> True
      | ConnectionFailed _ \<Rightarrow> True
      | TransactionAborted msg \<Rightarrow>
          str_contains msg ''WriteConflict'' \<or> str_contains msg ''Write Conflict'' \<or>
          str_contains msg ''key_version''
      | ClientError msg \<Rightarrow>
          str_contains msg ''WriteConflict'' \<or> str_contains msg ''Write Conflict'' \<or>
          str_contains msg ''key_version'' \<or> str_contains msg ''PessimisticLock'' \<or>
          str_contains msg ''PessimisticRetry''
      | LockAcquisitionFailed _ \<Rightarrow> True
      | _ \<Rightarrow> False)"

definition is_write_conflict :: "tikv_error \<Rightarrow> bool" where
  "is_write_conflict e =
     (if e = WriteConflict then True
      else case e of
        ClientError msg \<Rightarrow> str_contains msg ''WriteConflict'' \<or> str_contains msg ''key_version''
      | TransactionAborted msg \<Rightarrow> str_contains msg ''WriteConflict'' \<or> str_contains msg ''key_version''
      | _ \<Rightarrow> False)"

definition mk_retryable :: "u32 \<Rightarrow> u32 \<Rightarrow> string \<Rightarrow> tikv_error" where
  "mk_retryable attempt mx message = Retryable attempt mx message"

fun display_tikv_error :: "tikv_error \<Rightarrow> string" where
  "display_tikv_error (ConnectionFailed m) = ''TiKV connection failed: '' @ m"
| "display_tikv_error (TransactionAborted m) = ''Transaction aborted: '' @ m"
| "display_tikv_error (KeyNotFound m) = ''Key not found: '' @ m"
| "display_tikv_error (Serialization m) = ''Serialization failed: '' @ m"
| "display_tikv_error (Deserialization m) = ''Deserialization failed: '' @ m"
| "display_tikv_error (CasFailed e g) =
     ''CAS operation failed: expected version '' @ show_nat (unat e) @ '', got '' @ show_nat (unat g)"
| "display_tikv_error (LockAcquisitionFailed m) = ''Failed to acquire lock: '' @ m"
| "display_tikv_error (InvalidConfig m) = ''Invalid configuration: '' @ m"
| "display_tikv_error (Timeout m) = ''Operation timed out: '' @ m"
| "display_tikv_error WriteConflict = ''Write conflict detected - operation should be retried''"
| "display_tikv_error (ClientError m) = ''TiKV client error: '' @ m"
| "display_tikv_error (Retryable a mx m) =
     ''Retryable error (attempt '' @ show_nat (unat a) @ ''/'' @ show_nat (unat mx) @ ''): '' @ m"
| "display_tikv_error (Other m) = m"
| "display_tikv_error (CircuitOpen n) =
     ''Circuit breaker is open (failures: '' @ show_nat (unat n) @ '') - rejecting call''"

lemma write_conflict_retryable: "is_write_conflict e \<Longrightarrow> is_retryable e"
  by (cases e) (auto simp: is_write_conflict_def is_retryable_def)

lemma not_conflict_simps [simp]:
  "\<not> is_write_conflict (CircuitOpen n)" "\<not> is_write_conflict (ConnectionFailed m)"
  "\<not> is_write_conflict (Serialization m)" "\<not> is_write_conflict (Deserialization m)"
  "\<not> is_write_conflict (Other m)"
  by (simp_all add: is_write_conflict_def)

end
