(* ===== verification/Text_Parsing.thy ===== *)
theory Text_Parsing
  imports RF_Prelude
begin

text \<open>
  The operations of \<open>str\<close> with which the sources read text: numbers as \<open>str::parse\<close> reads them, trimming,
  splitting at a character (\<open>split\<close>) and at the first occurrence of a string (\<open>find\<close>).
\<close>

section \<open>Numbers\<close>

definition is_digit :: "char \<Rightarrow> bool" where
  "is_digit c = (48 \<le> (of_char c :: nat) \<and> of_char c \<le> (57 :: nat))"

definition digits_value :: "string \<Rightarrow> nat" where
  "digits_value s = foldl (\<lambda>n c. 10 * n + (of_char c - 48)) 0 s"

definition parse_digits :: "string \<Rightarrow> nat option" where
  "parse_digits s = (if s \<noteq> [] \<and> list_all is_digit s then Some (digits_value s) else None)"

definition parse_unsigned :: "nat \<Rightarrow> string \<Rightarrow> nat option" where
  "parse_unsigned bits s =
     (let ds = (case s of c # r \<Rightarrow> (if c = CHR ''+'' then r else s) | [] \<Rightarrow> [])
      in case parse_digits ds of
           Some n \<Rightarrow> (if n < 2 ^ bits then Some n else None)
         | None \<Rightarrow> None)"

definition parse_signed :: "nat \<Rightarrow> string \<Rightarrow> int option" where
  "parse_signed bits s =
     (let neg = (s \<noteq> [] \<and> hd s = CHR ''-'');
          ds = (case s of c # r \<Rightarrow> (if c = CHR ''+'' \<or> c = CHR ''-'' then r else s) | [] \<Rightarrow> [])
      in case parse_digits ds of
           None \<Rightarrow> None
         | Some n \<Rightarrow>
             (let v = (if neg then - int n else int n)
              in if - (2 ^ (bits - 1)) \<le> v \<and> v < 2 ^ (bits - 1) then Some v else None))"

section \<open>Trimming and splitting\<close>

definition is_space :: "char \<Rightarrow> bool" where
  "is_space c = (of_char c \<in> {9, 10, 11, 12, 13, 32 :: nat})"

definition trim :: "string \<Rightarrow> string" where
  "trim s = rev (dropWhile is_space (rev (dropWhile is_space s)))"

fun split_char :: "char \<Rightarrow> string \<Rightarrow> string list" where
  "split_char c [] = [[]]"
| "split_char c (x # xs) =
     (if x = c then [] # split_char c xs
      else case split_char c xs of p # ps \<Rightarrow> (x # p) # ps | [] \<Rightarrow> [[x]])"

text \<open>Reading a printed number gives it back, also after padding with zeros.\<close>

lemma digits_value_append: "digits_value (s @ [c]) = 10 * digits_value s + (of_char c - 48)"
  by (simp add: digits_value_def)

lemma digit_char_code: "n < 10 \<Longrightarrow> of_char (digit_char n) = (48 + n :: nat)"
  by (simp add: digit_char_def)

lemma show_nat_last: "show_nat n \<noteq> [] \<and> last (show_nat n) = digit_char (n mod 10)"
proof (cases "n < 10")
  case True
  then have "show_nat n = [digit_char n]" by (subst show_nat.simps) simp
  then show ?thesis using True by simp
next
  case False
  then have "show_nat n = show_nat (n div 10) @ [digit_char (n mod 10)]" by (subst show_nat.simps) simp
  then show ?thesis by simp
qed

lemma digits_value_show_nat: "digits_value (show_nat n) = n"
proof (induction n rule: show_nat.induct)
  case (1 n)
  have digit: "digits_value (s @ [digit_char d]) = 10 * digits_value s + d" if "d < 10" for s d
    using that by (simp add: digits_value_append digit_char_def of_char_of)
  show ?case
    using 1 digit [of n "[]"] digit [of "n mod 10" "show_nat (n div 10)"]
    by (subst show_nat.simps) (auto simp: digits_value_def [of "[]"])
qed

lemma digits_value_pad: "digits_value (pad_zero w s) = digits_value s"
proof -
  have "foldl (\<lambda>n c. 10 * n + (of_char c - 48)) 0 (replicate k CHR ''0'') = (0 :: nat)" for k
    by (induction k) simp_all
  then show ?thesis by (simp add: digits_value_def pad_zero_def)
qed

lemma split_char_free: "c \<notin> set e \<Longrightarrow> split_char c e = [e]"
  by (induction e) auto

lemma split_char_sep: "c \<notin> set e \<Longrightarrow> split_char c (e @ c # s) = e # split_char c s"
  by (induction e) auto

text \<open>\<open>s.find(p)\<close>, as the text before the first occurrence of \<open>p\<close> and the text after it.\<close>

fun split_str :: "string \<Rightarrow> string \<Rightarrow> (string \<times> string) option" where
  "split_str p [] = (if p = [] then Some ([], []) else None)"
| "split_str p (c # s) =
     (case strip_prefix (c # s) p of
        Some r \<Rightarrow> Some ([], r)
      | None \<Rightarrow> map_option (\<lambda>(a, b). (c # a, b)) (split_str p s))"

lemma split_str_here: "p \<noteq> [] \<Longrightarrow> split_str p (p @ s) = Some ([], s)"
  by (cases p) (simp_all add: strip_prefix_def)

lemma split_str_skip: "\<not> prefix p (c # s) \<Longrightarrow> split_str p (c # s) = map_option (\<lambda>(a, b). (c # a, b)) (split_str p s)"
  by (simp add: strip_prefix_def)

lemma split_str_Some: "split_str p s = Some (a, b) \<Longrightarrow> s = a @ p @ b"
  by (induction s arbitrary: a) (auto simp: strip_prefix_def prefix_def split: if_splits)

lemma split_once_None: "split_once c s = None \<longleftrightarrow> c \<notin> set s"
proof -
  have "split_once c s = None \<longleftrightarrow> dropWhile (\<lambda>x. x \<noteq> c) s = []"
    unfolding split_once_def by (cases "dropWhile (\<lambda>x. x \<noteq> c) s") (simp_all only: list.case option.distinct list.distinct simp_thms)
  then show ?thesis by auto
qed

lemma split_once_Some:
  assumes "split_once c s = Some (a, b)"
  shows "s = a @ c # b" "c \<notin> set a"
proof -
  from assms have a: "a = takeWhile (\<lambda>x. x \<noteq> c) s" and d: "\<exists>d. dropWhile (\<lambda>x. x \<noteq> c) s = d # b"
    by (cases "dropWhile (\<lambda>x. x \<noteq> c) s"; simp add: split_once_def)+
  from d obtain d where d: "dropWhile (\<lambda>x. x \<noteq> c) s = d # b" by blast
  then have "d = c" using hd_dropWhile [of "\<lambda>x. x \<noteq> c" s] by simp
  with d show "s = a @ c # b" unfolding a using takeWhile_dropWhile_id [of "\<lambda>x. x \<noteq> c" s] by simp
  show "c \<notin> set a" unfolding a by (auto dest: set_takeWhileD)
qed

end
