(* ===== verification/Tikv_Config.thy ===== *)
theory Tikv_Config
  imports Tikv_Error Text_Parsing
begin

text \<open>
  \<open>tikv/config.rs\<close> and the validators of \<open>roboflow-core/src/config.rs\<close> it calls. The process
  environment is the argument \<open>env\<close>. Durations are in
  nanoseconds. \<open>describe\<close>, which only formats the configuration for a log line, is left out.

  \<open>tc_validate_Inr\<close> gives exactly the configurations that are accepted.
\<close>

section \<open>Validators\<close>

type_synonym parse_error = "string \<times> string"  \<comment> \<open>context and message\<close>

definition display_parse_error :: "parse_error \<Rightarrow> string" where
  "display_parse_error e =
     ''[PARSE-1001] Parse error in '' @ [CHR 0x27] @ fst e @ [CHR 0x27] @ '': '' @ snd e"

definition v_positive :: "int \<Rightarrow> string \<Rightarrow> parse_error + unit" where
  "v_positive value field =
     (if value > 0 then Inr ()
      else Inl (field, ''must be greater than 0 (got '' @ show_int value @ '')''))"

definition v_not_empty :: "'a list \<Rightarrow> string \<Rightarrow> parse_error + unit" where
  "v_not_empty value field =
     (if value \<noteq> [] then Inr () else Inl (field, ''must not be empty''))"

definition v_starts_with :: "string \<Rightarrow> string \<Rightarrow> string \<Rightarrow> parse_error + unit" where
  "v_starts_with value pre field =
     (if starts_with value pre then Inr ()
      else Inl (field, ''must start with '' @ [CHR 0x27] @ pre @ [CHR 0x27] @ '' (got '' @ [CHR 0x27]
                       @ value @ [CHR 0x27] @ '')''))"

definition v_paired :: "'a option \<Rightarrow> 'a option \<Rightarrow> string \<Rightarrow> string \<Rightarrow> parse_error + unit" where
  "v_paired a b field_a field_b =
     (if (a \<noteq> None) = (b \<noteq> None) then Inr ()
      else Inl (field_a, ''must be set together with '' @ [CHR 0x27] @ field_b @ [CHR 0x27]
                         @ '' (one is set, other is not)''))"

section \<open>Configuration\<close>

record tikv_config =
  pd_endpoints :: "string list"
  connection_timeout :: int
  operation_timeout :: int
  transaction_timeout :: int
  key_prefix :: string
  ca_path :: "string option"
  cert_path :: "string option"
  key_path :: "string option"
  default_lock_ttl_secs :: int
  lock_acquire_timeout :: int
  max_retries :: u32
  retry_base_delay_ms :: u64

definition parse_pd_endpoints :: "string \<Rightarrow> string list" where
  "parse_pd_endpoints s = filter (\<lambda>p. p \<noteq> []) (map trim (split_char CHR '','' s))"

definition env_unsigned :: "(string \<Rightarrow> string option) \<Rightarrow> nat \<Rightarrow> string \<Rightarrow> nat \<Rightarrow> nat" where
  "env_unsigned env bits name dflt =
     (case env name of
        None \<Rightarrow> dflt
      | Some s \<Rightarrow> (case parse_unsigned bits s of Some n \<Rightarrow> n | None \<Rightarrow> dflt))"

definition env_signed :: "(string \<Rightarrow> string option) \<Rightarrow> nat \<Rightarrow> string \<Rightarrow> int \<Rightarrow> int" where
  "env_signed env bits name dflt =
     (case env name of
        None \<Rightarrow> dflt
      | Some s \<Rightarrow> (case parse_signed bits s of Some n \<Rightarrow> n | None \<Rightarrow> dflt))"

definition default_tikv_config :: "(string \<Rightarrow> string option) \<Rightarrow> tikv_config" where
  "default_tikv_config env =
     \<lparr> pd_endpoints = parse_pd_endpoints
         (case env ''TIKV_PD_ENDPOINTS'' of Some s \<Rightarrow> s | None \<Rightarrow> ''host.docker.internal:2379''),
       connection_timeout =
         duration_seconds (int (env_unsigned env 64 ''TIKV_CONNECTION_TIMEOUT_SECS'' 10)),
       operation_timeout =
         duration_seconds (int (env_unsigned env 64 ''TIKV_OPERATION_TIMEOUT_SECS'' 30)),
       transaction_timeout =
         duration_seconds (int (env_unsigned env 64 ''TIKV_TRANSACTION_TIMEOUT_SECS'' 60)),
       key_prefix = ''/roboflow/v1/'',
       ca_path = env ''TIKV_CA_PATH'',
       cert_path = env ''TIKV_CERT_PATH'',
       key_path = env ''TIKV_KEY_PATH'',
       default_lock_ttl_secs = env_signed env 64 ''TIKV_LOCK_TTL_SECS'' 60,
       lock_acquire_timeout =
         duration_seconds (int (env_unsigned env 64 ''TIKV_LOCK_ACQUIRE_TIMEOUT_SECS'' 10)),
       max_retries = of_nat (env_unsigned env 32 ''TIKV_MAX_RETRIES'' 10),
       retry_base_delay_ms = of_nat (env_unsigned env 64 ''TIKV_RETRY_BASE_DELAY_MS'' 50) \<rparr>"

definition with_pd_endpoints :: "(string \<Rightarrow> string option) \<Rightarrow> string \<Rightarrow> tikv_config" where
  "with_pd_endpoints env s = (default_tikv_config env)\<lparr>pd_endpoints := parse_pd_endpoints s\<rparr>"

definition with_key_prefix :: "string \<Rightarrow> tikv_config \<Rightarrow> tikv_config" where
  "with_key_prefix p c =
     (let p1 = (if \<not> starts_with p ''/'' then ''/'' @ p else p);
          p2 = (if \<not> suffix ''/'' p1 then p1 @ ''/'' else p1)
      in c\<lparr>key_prefix := p2\<rparr>)"

definition with_timeout :: "int \<Rightarrow> tikv_config \<Rightarrow> tikv_config" where
  "with_timeout t c = c\<lparr>connection_timeout := t\<rparr>"

definition is_tls_enabled :: "tikv_config \<Rightarrow> bool" where
  "is_tls_enabled c = (ca_path c \<noteq> None \<or> cert_path c \<noteq> None \<or> key_path c \<noteq> None)"

definition invalid_config :: "parse_error + unit \<Rightarrow> tikv_error + unit" where
  "invalid_config r =
     (case r of Inl e \<Rightarrow> Inl (InvalidConfig (display_parse_error e)) | Inr u \<Rightarrow> Inr u)"

text \<open>A sequence of \<open>?\<close>-checks: the first error is returned.\<close>

fun checks :: "('e + unit) list \<Rightarrow> 'e + unit" where
  "checks [] = Inr ()"
| "checks (Inl e # rs) = Inl e"
| "checks (Inr u # rs) = checks rs"

definition tc_validate :: "tikv_config \<Rightarrow> tikv_error + unit" where
  "tc_validate c =
     checks (map invalid_config
       [v_not_empty (pd_endpoints c) ''pd_endpoints'',
        v_starts_with (key_prefix c) ''/'' ''key_prefix'',
        v_paired (cert_path c) (key_path c) ''cert_path'' ''key_path'',
        v_positive (operation_timeout c div ns_per_sec) ''operation_timeout'',
        v_positive (transaction_timeout c div ns_per_sec) ''transaction_timeout'',
        v_positive (default_lock_ttl_secs c) ''default_lock_ttl_secs'',
        v_positive (uint (max_retries c)) ''max_retries''])"

lemma checks_Inr: "checks rs = Inr () \<longleftrightarrow> (\<forall>r \<in> set rs. r = Inr ())"
  by (induction rs rule: checks.induct) auto

lemma invalid_config_Inr [simp]: "invalid_config r = Inr () \<longleftrightarrow> r = Inr ()"
  by (auto simp: invalid_config_def split: sum.splits)

lemma tc_validate_Inr:
  "tc_validate c = Inr () \<longleftrightarrow>
     pd_endpoints c \<noteq> [] \<and> prefix ''/'' (key_prefix c) \<and>
     (cert_path c = None \<longleftrightarrow> key_path c = None) \<and>
     ns_per_sec \<le> operation_timeout c \<and> ns_per_sec \<le> transaction_timeout c \<and>
     0 < default_lock_ttl_secs c \<and> 0 < max_retries c"
proof -
  have pos: "v_positive n f = Inr () \<longleftrightarrow> 0 < n" for n f
    by (simp add: v_positive_def)
  have secs: "0 < d div ns_per_sec \<longleftrightarrow> ns_per_sec \<le> d" for d
    by (simp add: ns_per_sec_def pos_imp_zdiv_pos_iff)
  have retries: "0 < uint (max_retries c) \<longleftrightarrow> 0 < max_retries c"
    by (simp add: word_less_alt)
  have "tc_validate c = Inr () \<longleftrightarrow>
     v_not_empty (pd_endpoints c) ''pd_endpoints'' = Inr () \<and>
     v_starts_with (key_prefix c) ''/'' ''key_prefix'' = Inr () \<and>
     v_paired (cert_path c) (key_path c) ''cert_path'' ''key_path'' = Inr () \<and>
     0 < operation_timeout c div ns_per_sec \<and> 0 < transaction_timeout c div ns_per_sec \<and>
     0 < default_lock_ttl_secs c \<and> 0 < uint (max_retries c)"
    by (simp add: tc_validate_def checks_Inr pos conj_ac)
  then show ?thesis
    unfolding secs retries
    by (auto simp: v_not_empty_def v_starts_with_def v_paired_def starts_with_def)
qed

lemma with_key_prefix_ok:
  "prefix ''/'' (key_prefix (with_key_prefix p c)) \<and> suffix ''/'' (key_prefix (with_key_prefix p c))"
  by (auto simp: with_key_prefix_def Let_def starts_with_def suffix_def)

section \<open>Endpoint lists\<close>

text \<open>The comma-separated form of a list of endpoints.\<close>

fun comma_join :: "string list \<Rightarrow> string" where
  "comma_join [] = []"
| "comma_join [e] = e"
| "comma_join (e # f # es) = e @ CHR '','' # comma_join (f # es)"

lemma split_comma_join:
  "es \<noteq> [] \<Longrightarrow> list_all (\<lambda>e. CHR '','' \<notin> set e) es \<Longrightarrow> split_char CHR '','' (comma_join es) = es"
  by (induction es rule: comma_join.induct) (auto simp: split_char_free split_char_sep)

section \<open>Properties\<close>

text \<open>endpoint lists are read back. Parsing the comma-separated form of non-empty endpoints without commas
  and surrounding blanks gives the endpoints, in order; and such a non-empty list, given with any key
  prefix and no overriding environment, is a configuration that validation accepts.\<close>

theorem pd_endpoints_roundtrip:
  assumes es: "list_all (\<lambda>e. e \<noteq> [] \<and> trim e = e \<and> CHR '','' \<notin> set e) es"
  shows "parse_pd_endpoints (comma_join es) = es \<and>
    (tc_validate (with_key_prefix p (with_pd_endpoints (\<lambda>_. None) (comma_join es))) = Inr () \<longleftrightarrow> es \<noteq> [])"
proof -
  have parse: "parse_pd_endpoints (comma_join es) = es"
  proof (cases "es = []")
    case True
    then show ?thesis by (simp add: parse_pd_endpoints_def trim_def)
  next
    case False
    moreover have "list_all (\<lambda>e. CHR '','' \<notin> set e) es" "map trim es = es" "filter (\<lambda>e. e \<noteq> []) es = es"
      using es by (auto simp: list_all_iff map_idI intro: filter_True)
    ultimately show ?thesis by (simp add: parse_pd_endpoints_def split_comma_join)
  qed
  moreover have "prefix ''/'' (key_prefix (with_key_prefix p c))" for c
    using with_key_prefix_ok by blast
  ultimately show ?thesis
    by (auto simp: tc_validate_Inr with_pd_endpoints_def default_tikv_config_def env_unsigned_def
        env_signed_def with_key_prefix_def Let_def duration_seconds_def ns_per_sec_def)
qed

theorem pd_endpoints_roundtrip_witness:
  "parse_pd_endpoints ''pd0:2379,pd1:2379'' = [''pd0:2379'', ''pd1:2379'']"
  using pd_endpoints_roundtrip [of "[''pd0:2379'', ''pd1:2379'']"]
  by (simp add: trim_def is_space_def)

end
