(* ===== verification/Circuit_Breaker.thy ===== *)
theory Circuit_Breaker
  imports Tikv_Error
begin

text \<open>
  \<open>tikv/circuit.rs\<close>: the circuit breaker in front of the store. The atomics of \<open>CircuitInner\<close> are the
  fields of a record and every method is one atomic step on it. \<open>now\<close> is the wall clock.

  The abstract breaker \<open>abreaker\<close> (closed with a count of consecutive failures, open since a time, half
  open since a time with its successes and calls) is what the module documentation describes; the
  refinement lemmas show that each method implements the abstract step on it.
\<close>

section \<open>State\<close>

datatype circuit_state = Closed | Open | HalfOpen

fun cs_to_u8 :: "circuit_state \<Rightarrow> u8" where
  "cs_to_u8 Closed = 0"
| "cs_to_u8 Open = 1"
| "cs_to_u8 HalfOpen = 2"

definition cs_from_u8 :: "u8 \<Rightarrow> circuit_state option" where
  "cs_from_u8 v = (if v = 0 then Some Closed else if v = 1 then Some Open
                   else if v = 2 then Some HalfOpen else None)"

text \<open>Durations are in nanoseconds.\<close>

record circuit_config =
  failure_threshold :: u32
  success_threshold :: u32
  open_timeout :: int
  half_open_max_calls :: u32
  half_open_timeout :: int

definition default_circuit_config :: circuit_config where
  "default_circuit_config =
     \<lparr> failure_threshold = 5, success_threshold = 3, open_timeout = duration_seconds 30,
       half_open_max_calls = 10, half_open_timeout = duration_seconds 5 \<rparr>"

definition with_failure_threshold :: "u32 \<Rightarrow> circuit_config \<Rightarrow> circuit_config" where
  "with_failure_threshold t c = c\<lparr>failure_threshold := t\<rparr>"

definition with_open_timeout :: "int \<Rightarrow> circuit_config \<Rightarrow> circuit_config" where
  "with_open_timeout t c = c\<lparr>open_timeout := t\<rparr>"

definition with_success_threshold :: "u32 \<Rightarrow> circuit_config \<Rightarrow> circuit_config" where
  "with_success_threshold t c = c\<lparr>success_threshold := t\<rparr>"

record circuit =
  cb_state :: u8
  cb_failures :: u64
  cb_successes :: u64
  cb_half_open_calls :: u64
  cb_last_state_change :: u64
  cb_config :: circuit_config

definition now_timestamp :: "timestamp \<Rightarrow> u64" where
  "now_timestamp now = (if now < 0 then 0 else of_int (now div ns_per_sec))"

definition circuit_new :: "timestamp \<Rightarrow> circuit_config \<Rightarrow> circuit" where
  "circuit_new now cfg =
     \<lparr> cb_state = cs_to_u8 Closed, cb_failures = 0, cb_successes = 0, cb_half_open_calls = 0,
       cb_last_state_change = now_timestamp now, cb_config = cfg \<rparr>"

definition cb_get_state :: "circuit \<Rightarrow> circuit_state" where
  "cb_get_state c = (case cs_from_u8 (cb_state c) of Some s \<Rightarrow> s | None \<Rightarrow> Closed)"

definition cb_set_state :: "timestamp \<Rightarrow> circuit_state \<Rightarrow> circuit \<Rightarrow> circuit" where
  "cb_set_state now s c =
     (let c1 = c\<lparr>cb_state := cs_to_u8 s, cb_last_state_change := now_timestamp now\<rparr>
      in case s of
           Closed \<Rightarrow> c1\<lparr>cb_failures := 0, cb_successes := 0, cb_half_open_calls := 0\<rparr>
         | Open \<Rightarrow> c1\<lparr>cb_successes := 0\<rparr>
         | HalfOpen \<Rightarrow> c1\<lparr>cb_half_open_calls := 0\<rparr>)"

definition cb_elapsed :: "timestamp \<Rightarrow> circuit \<Rightarrow> int" where
  "cb_elapsed now c =
     duration_seconds (uint (saturating_sub (now_timestamp now) (cb_last_state_change c)))"

definition cb_should_attempt_reset :: "timestamp \<Rightarrow> circuit \<Rightarrow> bool" where
  "cb_should_attempt_reset now c = (cb_elapsed now c \<ge> open_timeout (cb_config c))"

definition cb_half_open_expired :: "timestamp \<Rightarrow> circuit \<Rightarrow> bool" where
  "cb_half_open_expired now c = (cb_elapsed now c \<ge> half_open_timeout (cb_config c))"

section \<open>Methods\<close>

definition cb_is_call_permitted :: "timestamp \<Rightarrow> circuit \<Rightarrow> bool \<times> circuit" where
  "cb_is_call_permitted now c =
     (case cb_get_state c of
        Closed \<Rightarrow> (True, c)
      | Open \<Rightarrow>
          (if cb_should_attempt_reset now c then (True, cb_set_state now HalfOpen c) else (False, c))
      | HalfOpen \<Rightarrow>
          (if cb_half_open_expired now c then (False, cb_set_state now Open c)
           else if cb_half_open_calls c \<ge> ucast (half_open_max_calls (cb_config c))
             then (False, cb_set_state now Open c)
           else (True, c)))"

definition cb_record_success :: "timestamp \<Rightarrow> circuit \<Rightarrow> circuit" where
  "cb_record_success now c =
     (case cb_get_state c of
        Closed \<Rightarrow> c\<lparr>cb_failures := 0\<rparr>
      | HalfOpen \<Rightarrow>
          (let successes = cb_successes c + 1; c1 = c\<lparr>cb_successes := successes\<rparr>
           in if successes \<ge> ucast (success_threshold (cb_config c))
              then cb_set_state now Closed c1 else c1)
      | Open \<Rightarrow> c)"

definition cb_record_failure :: "timestamp \<Rightarrow> circuit \<Rightarrow> circuit" where
  "cb_record_failure now c =
     (let failures = cb_failures c + 1; c1 = c\<lparr>cb_failures := failures\<rparr>
      in case cb_get_state c1 of
           Closed \<Rightarrow>
             (if failures \<ge> ucast (failure_threshold (cb_config c1))
              then cb_set_state now Open c1 else c1)
         | HalfOpen \<Rightarrow> cb_set_state now Open c1
         | Open \<Rightarrow> c1)"

definition cb_reset :: "timestamp \<Rightarrow> circuit \<Rightarrow> circuit" where
  "cb_reset now c = cb_set_state now Closed c"

definition cb_trip :: "timestamp \<Rightarrow> circuit \<Rightarrow> circuit" where
  "cb_trip now c = cb_set_state now Open c"

text \<open>
  \<open>call\<close>: the protected operation is a program over the remaining state; it runs only when the
  breaker permits it.
\<close>

definition cb_call ::
    "timestamp \<Rightarrow> ('s, tikv_error, 'a) prog \<Rightarrow> (circuit \<times> 's, tikv_error, 'a) prog" where
  "cb_call now f cs =
     (case cb_is_call_permitted now (fst cs) of
        (False, c) \<Rightarrow> (Inl (CircuitOpen (ucast (cb_failures c))), (c, snd cs))
      | (True, c) \<Rightarrow>
          (let c1 = (if cb_get_state c = HalfOpen
                     then c\<lparr>cb_half_open_calls := cb_half_open_calls c + 1\<rparr> else c)
           in case f (snd cs) of
                (Inr a, s) \<Rightarrow> (Inr a, (cb_record_success now c1, s))
              | (Inl e, s) \<Rightarrow>
                  (Inl e,
                   (if is_retryable e \<or> (\<exists>m. e = ConnectionFailed m)
                    then cb_record_failure now c1 else c1, s))))"

section \<open>Invariant\<close>

definition cb_inv :: "circuit \<Rightarrow> bool" where
  "cb_inv c \<longleftrightarrow>
     cs_from_u8 (cb_state c) \<noteq> None \<and>
     (cb_get_state c = Closed \<longrightarrow>
        cb_successes c = 0 \<and> cb_half_open_calls c = 0 \<and>
        (0 < failure_threshold (cb_config c) \<longrightarrow>
           cb_failures c < ucast (failure_threshold (cb_config c)))) \<and>
     (cb_get_state c = Open \<longrightarrow> cb_successes c = 0) \<and>
     (cb_get_state c = HalfOpen \<longrightarrow> 0 < success_threshold (cb_config c) \<longrightarrow>
        cb_successes c < ucast (success_threshold (cb_config c)))"

lemma cs_roundtrip [simp]: "cs_from_u8 (cs_to_u8 s) = Some s"
  by (cases s) (auto simp: cs_from_u8_def)

lemma cb_set_state_simps [simp]:
  "cb_get_state (cb_set_state now s c) = s"
  "cb_config (cb_set_state now s c) = cb_config c"
  "cs_from_u8 (cb_state (cb_set_state now s c)) = Some s"
  "cb_last_state_change (cb_set_state now s c) = now_timestamp now"
  by (auto simp: cb_set_state_def cb_get_state_def cs_from_u8_def Let_def split: circuit_state.splits)

lemma cb_set_state_counters [simp]:
  "cb_failures (cb_set_state now s c) = (if s = Closed then 0 else cb_failures c)"
  "cb_successes (cb_set_state now s c) = (if s = HalfOpen then cb_successes c else 0)"
  "cb_half_open_calls (cb_set_state now s c) = (if s = Open then cb_half_open_calls c else 0)"
  by (auto simp: cb_set_state_def Let_def split: circuit_state.splits)

lemma cb_get_state_update [simp]:
  "cb_get_state (c\<lparr>cb_failures := n\<rparr>) = cb_get_state c"
  "cb_get_state (c\<lparr>cb_successes := n\<rparr>) = cb_get_state c"
  "cb_get_state (c\<lparr>cb_half_open_calls := n\<rparr>) = cb_get_state c"
  by (simp_all add: cb_get_state_def)

lemma ucast_pos: "0 < (x :: u32) \<Longrightarrow> 0 < (ucast x :: u64)"
  by (simp add: word_less_nat_alt)

lemma cb_inv_new: "cb_inv (circuit_new now cfg)"
  by (auto simp: cb_inv_def circuit_new_def cb_get_state_def cs_from_u8_def intro: ucast_pos)

lemma cb_inv_permitted: "cb_inv c \<Longrightarrow> cb_inv (snd (cb_is_call_permitted now c))"
  by (auto simp: cb_inv_def cb_is_call_permitted_def intro: ucast_pos split: circuit_state.splits)

lemma cb_inv_success: "cb_inv c \<Longrightarrow> cb_inv (cb_record_success now c)"
  by (auto simp: cb_inv_def cb_record_success_def Let_def not_le intro: ucast_pos
      split: circuit_state.splits)

lemma cb_inv_failure: "cb_inv c \<Longrightarrow> cb_inv (cb_record_failure now c)"
  by (auto simp: cb_inv_def cb_record_failure_def Let_def not_le intro: ucast_pos
      split: circuit_state.splits)

lemma cb_inv_manual: "cb_inv (cb_reset now c)" "cb_inv (cb_trip now c)"
  by (auto simp: cb_inv_def cb_reset_def cb_trip_def intro: ucast_pos)

section \<open>The abstract breaker\<close>

datatype abreaker =
    ABClosed nat
  | ABOpen nat
  | ABHalf nat nat nat  \<comment> \<open>since, successes, calls\<close>

definition cb_abs :: "circuit \<Rightarrow> abreaker" where
  "cb_abs c =
     (case cb_get_state c of
        Closed \<Rightarrow> ABClosed (unat (cb_failures c))
      | Open \<Rightarrow> ABOpen (unat (cb_last_state_change c))
      | HalfOpen \<Rightarrow> ABHalf (unat (cb_last_state_change c)) (unat (cb_successes c))
                        (unat (cb_half_open_calls c)))"

fun ab_failure :: "circuit_config \<Rightarrow> nat \<Rightarrow> abreaker \<Rightarrow> abreaker" where
  "ab_failure cfg t (ABClosed n) =
     (if Suc n \<ge> unat (failure_threshold cfg) then ABOpen t else ABClosed (Suc n))"
| "ab_failure cfg t (ABOpen t0) = ABOpen t0"
| "ab_failure cfg t (ABHalf t0 s k) = ABOpen t"

fun ab_success :: "circuit_config \<Rightarrow> abreaker \<Rightarrow> abreaker" where
  "ab_success cfg (ABClosed n) = ABClosed 0"
| "ab_success cfg (ABOpen t0) = ABOpen t0"
| "ab_success cfg (ABHalf t0 s k) =
     (if Suc s \<ge> unat (success_threshold cfg) then ABClosed 0 else ABHalf t0 (Suc s) k)"

fun ab_permit :: "circuit_config \<Rightarrow> nat \<Rightarrow> abreaker \<Rightarrow> bool \<times> abreaker" where
  "ab_permit cfg t (ABClosed n) = (True, ABClosed n)"
| "ab_permit cfg t (ABOpen t0) =
     (if duration_seconds (int (t - t0)) \<ge> open_timeout cfg then (True, ABHalf t 0 0)
      else (False, ABOpen t0))"
| "ab_permit cfg t (ABHalf t0 s k) =
     (if duration_seconds (int (t - t0)) \<ge> half_open_timeout cfg
        \<or> k \<ge> unat (half_open_max_calls cfg)
      then (False, ABOpen t) else (True, ABHalf t0 s k))"

lemma ucast_le_nat: "ucast (x :: u32) \<le> (y :: u64) \<longleftrightarrow> unat x \<le> unat y"
  by (simp add: word_le_nat_alt)

lemma ucast_less_nat: "(y :: u64) < ucast (x :: u32) \<longleftrightarrow> unat y < unat x"
  by (simp add: word_less_nat_alt)

lemma unat_Suc_u32_bound: "unat (y :: u64) < unat (x :: u32) \<Longrightarrow> unat (y + 1) = Suc (unat y)"
proof -
  assume "unat y < unat x"
  moreover have "unat x < 2 ^ 32" using unsigned_less [of x] by simp
  ultimately show "unat (y + 1) = Suc (unat y)"
    by (simp add: unat_word_ariths)
qed

lemma cb_elapsed_nat:
  "cb_elapsed now c =
     duration_seconds (int (unat (now_timestamp now) - unat (cb_last_state_change c)))"
  by (simp add: cb_elapsed_def unat_saturating_sub [symmetric])

lemma cb_failure_refines:
  assumes "cb_inv c" "0 < failure_threshold (cb_config c)"
  shows "cb_abs (cb_record_failure now c)
       = ab_failure (cb_config c) (unat (now_timestamp now)) (cb_abs c)"
proof (cases "cb_get_state c")
  case Closed
  with assms have "unat (cb_failures c) < unat (failure_threshold (cb_config c))"
    by (simp add: cb_inv_def ucast_less_nat)
  from unat_Suc_u32_bound [OF this] Closed show ?thesis
    by (simp add: cb_record_failure_def cb_abs_def Let_def ucast_le_nat)
qed (simp_all add: cb_record_failure_def cb_abs_def Let_def)

lemma cb_success_refines:
  assumes "cb_inv c" "0 < success_threshold (cb_config c)"
  shows "cb_abs (cb_record_success now c) = ab_success (cb_config c) (cb_abs c)"
proof (cases "cb_get_state c")
  case HalfOpen
  with assms have "unat (cb_successes c) < unat (success_threshold (cb_config c))"
    by (simp add: cb_inv_def ucast_less_nat)
  from unat_Suc_u32_bound [OF this] HalfOpen show ?thesis
    by (simp add: cb_record_success_def cb_abs_def Let_def ucast_le_nat)
qed (simp_all add: cb_record_success_def cb_abs_def)

lemma cb_permit_refines:
  assumes "cb_inv c"
  shows "map_prod id cb_abs (cb_is_call_permitted now c)
       = ab_permit (cb_config c) (unat (now_timestamp now)) (cb_abs c)"
  using assms
  by (cases "cb_get_state c")
     (auto simp: cb_is_call_permitted_def cb_abs_def cb_should_attempt_reset_def
        cb_half_open_expired_def cb_elapsed_nat ucast_le_nat cb_inv_def)

section \<open>Runs\<close>

text \<open>The calls of a breaker, with the outcome of the operation for \<open>call\<close>.\<close>

datatype cb_event =
    Permit timestamp | Success timestamp | Failure timestamp | Reset timestamp | Trip timestamp
  | Call timestamp "tikv_error + unit"

text \<open>The answer of a permission check, and the result of a protected call.\<close>

datatype cb_answer = Nothing | Permitted bool | Refused | Ran "tikv_error + unit"

fun cb_step :: "cb_event \<Rightarrow> circuit \<Rightarrow> cb_answer \<times> circuit" where
  "cb_step (Permit now) c = (let (b, c') = cb_is_call_permitted now c in (Permitted b, c'))"
| "cb_step (Success now) c = (Nothing, cb_record_success now c)"
| "cb_step (Failure now) c = (Nothing, cb_record_failure now c)"
| "cb_step (Reset now) c = (Nothing, cb_reset now c)"
| "cb_step (Trip now) c = (Nothing, cb_trip now c)"
| "cb_step (Call now r) c =
     (let (result, (c', ran)) = cb_call now (\<lambda>_. (r, True)) (c, False)
      in (if ran then Ran result else Refused, c'))"

definition ab_count_call :: "abreaker \<Rightarrow> abreaker" where
  "ab_count_call a = (case a of ABHalf t s k \<Rightarrow> ABHalf t s (Suc k) | _ \<Rightarrow> a)"

definition counted_error :: "tikv_error \<Rightarrow> bool" where
  "counted_error e \<longleftrightarrow> is_retryable e \<or> (\<exists>m. e = ConnectionFailed m)"

fun ab_step :: "circuit_config \<Rightarrow> cb_event \<Rightarrow> abreaker \<Rightarrow> cb_answer \<times> abreaker" where
  "ab_step cfg (Permit now) a = (let (b, a') = ab_permit cfg (unat (now_timestamp now)) a in (Permitted b, a'))"
| "ab_step cfg (Success now) a = (Nothing, ab_success cfg a)"
| "ab_step cfg (Failure now) a = (Nothing, ab_failure cfg (unat (now_timestamp now)) a)"
| "ab_step cfg (Reset now) a = (Nothing, ABClosed 0)"
| "ab_step cfg (Trip now) a = (Nothing, ABOpen (unat (now_timestamp now)))"
| "ab_step cfg (Call now r) a =
     (case ab_permit cfg (unat (now_timestamp now)) a of
        (False, a') \<Rightarrow> (Refused, a')
      | (True, a') \<Rightarrow>
          (Ran r,
           case r of
             Inr _ \<Rightarrow> ab_success cfg (ab_count_call a')
           | Inl e \<Rightarrow> (if counted_error e then ab_failure cfg (unat (now_timestamp now)) (ab_count_call a') else ab_count_call a')))"

text \<open>The answers to a sequence of calls, and the state after them.\<close>

fun answers :: "('e \<Rightarrow> 's \<Rightarrow> 'a \<times> 's) \<Rightarrow> 'e list \<Rightarrow> 's \<Rightarrow> 'a list \<times> 's" where
  "answers f [] s = ([], s)"
| "answers f (e # es) s = (let (a, s1) = f e s; (as, s2) = answers f es s1 in (a # as, s2))"

lemma cb_ops_config [simp]:
  "cb_config (snd (cb_is_call_permitted now c)) = cb_config c"
  "cb_config (cb_record_success now c) = cb_config c"
  "cb_config (cb_record_failure now c) = cb_config c"
  by (auto simp: cb_is_call_permitted_def cb_record_success_def cb_record_failure_def Let_def
      split: circuit_state.splits)

text \<open>The count of half-open calls in \<open>call\<close>.\<close>

definition cb_count_call :: "circuit \<Rightarrow> circuit" where
  "cb_count_call c = (if cb_get_state c = HalfOpen then c\<lparr>cb_half_open_calls := cb_half_open_calls c + 1\<rparr> else c)"

lemma cb_count_call_inv: "cb_inv c \<Longrightarrow> cb_inv (cb_count_call c)" "cb_config (cb_count_call c) = cb_config c"
  by (auto simp: cb_inv_def cb_count_call_def)

lemma cb_count_call_refines:
  assumes "cb_is_call_permitted now c = (True, d)"
  shows "cb_abs (cb_count_call d) = ab_count_call (cb_abs d)"
proof (cases "cb_get_state d")
  case HalfOpen
  have "cb_half_open_calls d = 0 \<or> unat (cb_half_open_calls d) < unat (half_open_max_calls (cb_config d))"
    using assms HalfOpen
    by (auto simp: cb_is_call_permitted_def ucast_le_nat split: circuit_state.splits if_splits)
  then have "unat (cb_half_open_calls d + 1) = Suc (unat (cb_half_open_calls d))"
    using unat_Suc_u32_bound by auto
  with HalfOpen show ?thesis by (simp add: cb_abs_def ab_count_call_def cb_count_call_def)
qed (simp_all add: cb_abs_def ab_count_call_def cb_count_call_def)

lemma cb_permit_pair:
  assumes "cb_inv c" "cb_is_call_permitted now c = (b, d)"
  shows "ab_permit (cb_config c) (unat (now_timestamp now)) (cb_abs c) = (b, cb_abs d) \<and> cb_inv d \<and> cb_config d = cb_config c"
  using cb_permit_refines [OF assms(1), of now] cb_inv_permitted [OF assms(1), of now] cb_ops_config(1) [of now c] assms(2) by simp

lemma cb_manual_refines [simp]:
  "cb_abs (cb_reset now c) = ABClosed 0" "cb_abs (cb_trip now c) = ABOpen (unat (now_timestamp now))"
  "cb_config (cb_reset now c) = cb_config c" "cb_config (cb_trip now c) = cb_config c"
  by (simp_all add: cb_abs_def cb_reset_def cb_trip_def)

text \<open>One call: the same answer, and the states correspond.\<close>

lemma cb_step_refines:
  assumes inv: "cb_inv c" and pos: "0 < failure_threshold (cb_config c)" "0 < success_threshold (cb_config c)"
    and step: "cb_step e c = (a, d)"
  shows "ab_step (cb_config c) e (cb_abs c) = (a, cb_abs d) \<and> cb_inv d \<and> cb_config d = cb_config c"
proof (cases e)
  case (Permit now)
  obtain b c1 where p: "cb_is_call_permitted now c = (b, c1)" by (cases "cb_is_call_permitted now c")
  from cb_permit_pair [OF inv p] p step Permit show ?thesis by simp
next
  case (Call now r)
  obtain b c1 where p: "cb_is_call_permitted now c = (b, c1)" by (cases "cb_is_call_permitted now c")
  note c1 = cb_permit_pair [OF inv p]
  show ?thesis
  proof (cases b)
    case False
    with p c1 step Call show ?thesis by (simp add: cb_call_def)
  next
    case True
    let ?c = "cb_count_call c1"
    have c: "cb_inv ?c" "cb_config ?c = cb_config c" "cb_abs ?c = ab_count_call (cb_abs c1)"
      using c1 cb_count_call_inv cb_count_call_refines p True by auto
    have d: "a = Ran r" "d = (case r of Inr _ \<Rightarrow> cb_record_success now ?c
        | Inl x \<Rightarrow> if counted_error x then cb_record_failure now ?c else ?c)"
      using p True step Call
      by (auto simp: cb_call_def cb_count_call_def counted_error_def Let_def split: sum.splits)
    from d c c1 True Call pos show ?thesis
      by (auto simp: cb_failure_refines cb_success_refines cb_inv_success cb_inv_failure split: sum.splits)
  qed
qed (use inv pos step in \<open>auto simp: cb_failure_refines cb_success_refines cb_inv_success cb_inv_failure cb_inv_manual\<close>)

section \<open>Properties\<close>

text \<open>C10: the circuit breaker implements its specification. For every configuration with positive
  thresholds and every sequence of permission checks, recorded successes and failures, resets, trips and protected calls with any
  outcomes on a new breaker, the breaker gives the answers of the abstract breaker (which checks are permitted, which
  protected calls are refused without running), its atomics represent the abstract state, and they are consistent: the
  failure count of a closed breaker stays below the threshold.\<close>

theorem circuit_refines:
  assumes "0 < failure_threshold cfg" "0 < success_threshold cfg"
    and run: "answers cb_step es (circuit_new now cfg) = (as, c)"
  shows "answers (ab_step cfg) es (ABClosed 0) = (as, cb_abs c) \<and> cb_inv c"
proof -
  have "answers (ab_step cfg) es (cb_abs s) = (as, cb_abs c) \<and> cb_inv c"
    if "answers cb_step es s = (as, c)" "cb_inv s" "cb_config s = cfg" for s
    using that
  proof (induction es arbitrary: s as)
    case (Cons e es)
    obtain a s1 where e: "cb_step e s = (a, s1)" by (cases "cb_step e s")
    obtain bs t where es: "answers cb_step es s1 = (bs, t)" by (cases "answers cb_step es s1")
    from cb_step_refines [OF Cons.prems(2) _ _ e] assms(1,2) Cons.prems(3)
    have s1: "ab_step cfg e (cb_abs s) = (a, cb_abs s1)" "cb_inv s1" "cb_config s1 = cfg" by simp_all
    from Cons.prems(1) e es have "as = a # bs" "t = c" by simp_all
    with Cons.IH [OF es [unfolded \<open>t = c\<close>] s1(2,3)] s1(1) show ?case by simp
  qed simp
  from this [OF run cb_inv_new] show ?thesis
    by (simp add: circuit_new_def cb_abs_def cb_get_state_def cs_from_u8_def)
qed

theorem circuit_refines_witness:
  "fst (answers (ab_step default_circuit_config) [Trip 0, Permit 1, Call 2 (Inr ()), Reset 3, Call 4 (Inr ())] (ABClosed 0))
     = [Nothing, Permitted False, Refused, Nothing, Ran (Inr ())]"
proof -
  obtain as c where run: "answers cb_step [Trip 0, Permit 1, Call 2 (Inr ()), Reset 3, Call 4 (Inr ())]
      (circuit_new 0 default_circuit_config) = (as, c)" by fastforce
  have "as = [Nothing, Permitted False, Refused, Nothing, Ran (Inr ())]"
    using run
    by (auto simp: cb_call_def cb_is_call_permitted_def cb_trip_def cb_reset_def cb_should_attempt_reset_def cb_elapsed_nat
        default_circuit_config_def circuit_new_def now_timestamp_def duration_seconds_def ns_per_sec_def)
  with circuit_refines [OF _ _ run] show ?thesis by (simp add: default_circuit_config_def)
qed

text \<open>the breaker opens at its threshold and stays shut for the timeout. After fewer consecutive
  failures than the threshold every call is still permitted; from the threshold on the breaker is open,
  and a call within the timeout is refused and leaves it open.\<close>

theorem circuit_opens_at_threshold:
  assumes "0 < failure_threshold cfg" "0 < success_threshold cfg"
    and "duration_seconds (int (unat (now_timestamp t) - unat (now_timestamp now))) < open_timeout cfg"
  shows "cb_is_call_permitted t (((cb_record_failure now) ^^ n) (circuit_new now cfg)) =
    (n < unat (failure_threshold cfg), ((cb_record_failure now) ^^ n) (circuit_new now cfg))"
proof -
  let ?c = "((cb_record_failure now) ^^ n) (circuit_new now cfg)"
  have run: "cb_inv ?c \<and> cb_config ?c = cfg \<and>
    cb_abs ?c = (if n < unat (failure_threshold cfg) then ABClosed n
                 else ABOpen (unat (now_timestamp now)))"
  proof (induction n)
    case 0
    then show ?case
      using assms(1)
      by (auto simp: cb_inv_new circuit_new_def cb_abs_def cb_get_state_def cs_from_u8_def word_less_nat_alt)
        (use cb_inv_new [of now cfg] in \<open>simp add: circuit_new_def\<close>)
  next
    case (Suc n)
    let ?d = "((cb_record_failure now) ^^ n) (circuit_new now cfg)"
    have "cb_config (cb_record_failure now ?d) = cb_config ?d"
      by simp
    with Suc assms(1) show ?case
      by (auto simp: cb_inv_failure cb_failure_refines)
  qed
  show ?thesis
  proof (cases "n < unat (failure_threshold cfg)")
    case True
    with run have "cb_get_state ?c = Closed"
      by (auto simp: cb_abs_def split: circuit_state.splits)
    with True show ?thesis by (simp add: cb_is_call_permitted_def)
  next
    case False
    with run have st: "cb_get_state ?c = Open"
      "unat (cb_last_state_change ?c) = unat (now_timestamp now)"
      by (auto simp: cb_abs_def split: circuit_state.splits)
    have "cb_elapsed t ?c < open_timeout cfg"
      using assms(3) st(2) by (simp add: cb_elapsed_nat)
    with st False run show ?thesis
      by (simp add: cb_is_call_permitted_def cb_should_attempt_reset_def)
  qed
qed

theorem circuit_opens_at_threshold_witness:
  "\<not> fst (cb_is_call_permitted 0 (((cb_record_failure 0) ^^ 5) (circuit_new 0 default_circuit_config)))"
  using circuit_opens_at_threshold [of default_circuit_config 0 0 5]
  by (simp add: default_circuit_config_def duration_seconds_def ns_per_sec_def)

end
