(* ===== verification/Tikv_Client.thy ===== *)
theory Tikv_Client
  imports Kv_Backend Tikv_Key Tikv_Config Circuit_Breaker
begin

text \<open>
  \<open>tikv/client.rs\<close>: the client every component of the cluster reads and writes through. Its state is
  the configuration, whether a connection was made, the circuit breaker, the clock, and the cluster
  behind the connection. \<open>K\<close> are the calls of \<open>tikv_client\<close> and \<open>C\<close> the serializers (theory
  \<open>Kv_Backend\<close>). Log statements are omitted. Calls take no time; \<open>sleep\<close> advances the clock.

  Under \<open>tikv_backend\<close> the triples of the second part say what each operation does to the committed data
  when it returns and when it fails. Under \<open>reliable_backend\<close> a connected client with a closed circuit
  succeeds, with the result given.
\<close>

section \<open>State and shared steps\<close>

record 's client =
  cl_config :: tikv_config
  cl_connected :: bool
  cl_circuit :: circuit
  cl_clock :: timestamp
  cl_world :: 's

type_synonym ('s, 'a) tc = "('s client, tikv_error, 'a) prog"

definition tc_new ::
    "(string list \<Rightarrow> string + 's) \<Rightarrow> timestamp \<Rightarrow> tikv_config \<Rightarrow> tikv_error + 's client" where
  "tc_new connect now config =
     (case tc_validate config of
        Inl e \<Rightarrow> Inl e
      | Inr _ \<Rightarrow>
          (case connect (pd_endpoints config) of
             Inl e \<Rightarrow> Inl (ConnectionFailed e)
           | Inr w \<Rightarrow>
               Inr \<lparr> cl_config = config, cl_connected = True,
                     cl_circuit = circuit_new now default_circuit_config,
                     cl_clock = now, cl_world = w \<rparr>))"

definition tc_circuit_state :: "'s client \<Rightarrow> circuit_state" where
  "tc_circuit_state st = cb_get_state (cl_circuit st)"

definition tc_circuit_failure_count :: "'s client \<Rightarrow> u64" where
  "tc_circuit_failure_count st = cb_failures (cl_circuit st)"

definition sleep :: "int \<Rightarrow> ('s, unit) tc" where
  "sleep d = modifyM (\<lambda>st. st\<lparr>cl_clock := cl_clock st + d\<rparr>)"

definition now_utc :: "('s, timestamp) tc" where
  "now_utc = gets cl_clock"

text \<open>\<open>self.inner.as_ref().ok_or_else(..)?\<close>\<close>

definition require_inner :: "('s, unit) tc" where
  "require_inner st =
     (if cl_connected st then (Inr (), st)
      else (Inl (ConnectionFailed ''TiKV client not initialized''), st))"

text \<open>The check at the start of \<open>get\<close>, \<open>put_once\<close> and \<open>delete_once\<close>.\<close>

definition check_circuit :: "('s, unit) tc" where
  "check_circuit st =
     (case cb_is_call_permitted (cl_clock st) (cl_circuit st) of
        (True, c) \<Rightarrow> (Inr (), st\<lparr>cl_circuit := c\<rparr>)
      | (False, c) \<Rightarrow> (Inl (CircuitOpen (ucast (cb_failures c))), st\<lparr>cl_circuit := c\<rparr>))"

definition record_success :: "('s, unit) tc" where
  "record_success = modifyM (\<lambda>st. st\<lparr>cl_circuit := cb_record_success (cl_clock st) (cl_circuit st)\<rparr>)"

definition record_failure :: "('s, unit) tc" where
  "record_failure = modifyM (\<lambda>st. st\<lparr>cl_circuit := cb_record_failure (cl_clock st) (cl_circuit st)\<rparr>)"

text \<open>A call on the cluster: \<open>.await.map_err(|e| TikvError::ClientError(e.to_string()))\<close>.\<close>

definition kv_do :: "('s, string, 'a) prog \<Rightarrow> ('s, 'a) tc" where
  "kv_do m st =
     (case m (cl_world st) of
        (Inl e, w) \<Rightarrow> (Inl (ClientError e), st\<lparr>cl_world := w\<rparr>)
      | (Inr a, w) \<Rightarrow> (Inr a, st\<lparr>cl_world := w\<rparr>))"

text \<open>The same call where the error closure also records a failure in the circuit breaker.\<close>

definition kv_do_recorded :: "('s, string, 'a) prog \<Rightarrow> ('s, 'a) tc" where
  "kv_do_recorded m = handleM (kv_do m) (\<lambda>e. bindM record_failure (\<lambda>_. throw e)) ret"

definition encode :: "('v, 'x) codec \<Rightarrow> 'x \<Rightarrow> tikv_error + 'v" where
  "encode c x = (case ser c x of Inl e \<Rightarrow> Inl (Serialization e) | Inr v \<Rightarrow> Inr v)"

definition decode :: "('v, 'x) codec \<Rightarrow> string \<Rightarrow> 'v \<Rightarrow> tikv_error + 'x" where
  "decode c what v = (case de c v of Inl e \<Rightarrow> Inl (Deserialization (what @ e)) | Inr x \<Rightarrow> Inr x)"

text \<open>
  The retry loop of \<open>put\<close>, \<open>delete\<close>, \<open>batch_put\<close>, \<open>acquire_lock\<close> and \<open>release_lock\<close>:
  \<open>for attempt in 0..=max_retries\<close>. \<open>2_u64.pow\<close> wraps in release builds.
\<close>

definition retry_delay_ms :: "u64 \<Rightarrow> nat \<Rightarrow> u64" where
  "retry_delay_ms base attempt = saturating_mul base (2 ^ attempt)"

function retry_loop ::
    "(tikv_error \<Rightarrow> bool) \<Rightarrow> u64 \<Rightarrow> nat \<Rightarrow> nat \<Rightarrow> ('s, 'a) tc \<Rightarrow> ('s, 'a) tc" where
  "retry_loop retry base mx attempt op =
     handleM op
       (\<lambda>e. if \<not> retry e then throw e
            else if attempt < mx
              then bindM (sleep (uint (retry_delay_ms base attempt) * ns_per_ms))
                     (\<lambda>_. retry_loop retry base mx (Suc attempt) op)
            else throw e)
       ret"
  by pat_completeness auto
termination by (relation "measure (\<lambda>(r, b, mx, a, op). mx - a)") auto

declare retry_loop.simps [simp del]

definition with_retry :: "(tikv_error \<Rightarrow> bool) \<Rightarrow> ('s, 'a) tc \<Rightarrow> ('s, 'a) tc" where
  "with_retry retry op =
     bindM (gets cl_config)
       (\<lambda>cfg. retry_loop retry (retry_base_delay_ms cfg) (unat (max_retries cfg)) 0 op)"

section \<open>Reads and writes\<close>

definition tc_begin_optimistic :: "('s, 'v) kv \<Rightarrow> ('s, nat) tc" where
  "tc_begin_optimistic K = bindM require_inner (\<lambda>_. kv_do (kv_begin_optimistic K))"

definition tc_get :: "('s, 'v) kv \<Rightarrow> key \<Rightarrow> ('s, 'v option) tc" where
  "tc_get K k =
     bindM check_circuit (\<lambda>_.
     bindM require_inner (\<lambda>_.
     bindM (kv_do_recorded (kv_current_timestamp K)) (\<lambda>ts.
     bindM (kv_do_recorded (kv_snapshot_get K ts k)) (\<lambda>result.
     bindM record_success (\<lambda>_. ret result)))))"

definition tc_put_once :: "('s, 'v) kv \<Rightarrow> key \<Rightarrow> 'v \<Rightarrow> ('s, unit) tc" where
  "tc_put_once K k v =
     bindM check_circuit (\<lambda>_.
     bindM require_inner (\<lambda>_.
     bindM (kv_do_recorded (kv_begin_optimistic K)) (\<lambda>x.
     bindM (kv_do_recorded (kv_txn_put K x k v)) (\<lambda>_.
     bindM (kv_do_recorded (kv_commit K x)) (\<lambda>_. record_success)))))"

definition tc_put :: "('s, 'v) kv \<Rightarrow> key \<Rightarrow> 'v \<Rightarrow> ('s, unit) tc" where
  "tc_put K k v = with_retry is_write_conflict (tc_put_once K k v)"

definition tc_delete_once :: "('s, 'v) kv \<Rightarrow> key \<Rightarrow> ('s, unit) tc" where
  "tc_delete_once K k =
     bindM check_circuit (\<lambda>_.
     bindM require_inner (\<lambda>_.
     bindM (kv_do_recorded (kv_begin_optimistic K)) (\<lambda>x.
     bindM (kv_do_recorded (kv_txn_delete K x k)) (\<lambda>_.
     bindM (kv_do_recorded (kv_commit K x)) (\<lambda>_. record_success)))))"

definition tc_delete :: "('s, 'v) kv \<Rightarrow> key \<Rightarrow> ('s, unit) tc" where
  "tc_delete K k = with_retry is_write_conflict (tc_delete_once K k)"

definition tc_scan :: "('s, 'v) kv \<Rightarrow> key \<Rightarrow> u32 \<Rightarrow> ('s, (key \<times> 'v) list) tc" where
  "tc_scan K p limit =
     bindM require_inner (\<lambda>_.
     bindM (kv_do (kv_current_timestamp K)) (\<lambda>ts.
     kv_do (kv_snapshot_scan K ts p (scan_end p) limit)))"

definition tc_batch_get :: "('s, 'v) kv \<Rightarrow> key list \<Rightarrow> ('s, 'v option list) tc" where
  "tc_batch_get K keys =
     bindM require_inner (\<lambda>_.
     bindM (kv_do (kv_current_timestamp K)) (\<lambda>ts.
     foldM (\<lambda>k results. bindM (kv_do (kv_snapshot_get K ts k)) (\<lambda>v. ret (results @ [v]))) keys []))"

definition tc_batch_put_once :: "('s, 'v) kv \<Rightarrow> (key \<times> 'v) list \<Rightarrow> ('s, unit) tc" where
  "tc_batch_put_once K pairs =
     bindM require_inner (\<lambda>_.
     bindM (kv_do (kv_begin_optimistic K)) (\<lambda>x.
     bindM (foldM (\<lambda>(k, v) _. kv_do (kv_txn_put K x k v)) pairs ()) (\<lambda>_.
     kv_do (kv_commit K x))))"

definition tc_batch_put :: "('s, 'v) kv \<Rightarrow> (key \<times> 'v) list \<Rightarrow> ('s, unit) tc" where
  "tc_batch_put K pairs = with_retry is_write_conflict (tc_batch_put_once K pairs)"

definition tc_cas :: "('s, 'v) kv \<Rightarrow> 'v codecs \<Rightarrow> key \<Rightarrow> u64 \<Rightarrow> 'v \<Rightarrow> ('s, bool) tc" where
  "tc_cas K C k expected new_value =
     bindM require_inner (\<lambda>_.
     bindM (kv_do (kv_begin_pessimistic K)) (\<lambda>x.
     bindM (kv_do (kv_txn_get K x k)) (\<lambda>cur.
     let finish = bindM (kv_do (kv_txn_put K x k new_value)) (\<lambda>_.
                  bindM (kv_do (kv_commit K x)) (\<lambda>_. ret True))
     in case cur of
          Some data \<Rightarrow>
            (case json_version C data of
               Some version \<Rightarrow>
                 (if version = expected then finish else throw (CasFailed expected version))
             | None \<Rightarrow> throw (Deserialization ''No version field in value''))
        | None \<Rightarrow> (if expected = 0 then finish else ret False))))"

section \<open>Work-unit claims\<close>

text \<open>The claim processor returns the new payload, nothing when the unit is not claimable, or an error.\<close>

definition tc_transactional_claim ::
    "('s, 'v) kv \<Rightarrow> key \<Rightarrow> key \<Rightarrow> ('v \<Rightarrow> string + 'v option) \<Rightarrow> ('s, 'v option) tc" where
  "tc_transactional_claim K wk pk claim_processor =
     bindM require_inner (\<lambda>_.
     bindM (kv_do (kv_begin_pessimistic K)) (\<lambda>x.
     bindM (kv_do (kv_txn_get K x wk)) (\<lambda>cur.
     case cur of
       Some data \<Rightarrow>
         (case claim_processor data of
            Inr (Some new_data) \<Rightarrow>
              bindM (kv_do (kv_txn_put K x wk new_data)) (\<lambda>_.
              bindM (kv_do (kv_txn_delete K x pk)) (\<lambda>_.
              bindM (kv_do (kv_commit K x)) (\<lambda>_. ret (Some new_data))))
          | Inr None \<Rightarrow> bindM (kv_do (kv_commit K x)) (\<lambda>_. ret None)
          | Inl e \<Rightarrow> throw (Other (''Claim processor failed: '' @ e)))
     | None \<Rightarrow>
         bindM (kv_do (kv_txn_delete K x pk)) (\<lambda>_.
         bindM (kv_do (kv_commit K x)) (\<lambda>_. ret None)))))"

section \<open>Locks\<close>

text \<open>Commit when the body succeeds; roll back and return its error when it fails.\<close>

definition commit_or_rollback :: "('s, 'v) kv \<Rightarrow> nat \<Rightarrow> ('s, 'a) tc \<Rightarrow> ('s, 'a) tc" where
  "commit_or_rollback K x body =
     handleM body
       (\<lambda>e. handleM (kv_do (kv_rollback K x)) (\<lambda>_. throw e) (\<lambda>_. throw e))
       (\<lambda>a. bindM (kv_do (kv_commit K x)) (\<lambda>_. ret a))"

definition put_lock :: "('s, 'v) kv \<Rightarrow> 'v codecs \<Rightarrow> nat \<Rightarrow> key \<Rightarrow> lock_record \<Rightarrow> ('s, bool) tc" where
  "put_lock K C x k l =
     bindM (liftR (encode (c_lock C) l)) (\<lambda>data.
     bindM (kv_do (kv_txn_put K x k data)) (\<lambda>_. ret True))"

definition acquire_lock_body ::
    "('s, 'v) kv \<Rightarrow> 'v codecs \<Rightarrow> nat \<Rightarrow> string \<Rightarrow> string \<Rightarrow> int \<Rightarrow> ('s, bool) tc" where
  "acquire_lock_body K C x resource owner ttl =
     bindM (kv_do (kv_txn_get K x (lock_key resource))) (\<lambda>cur.
     bindM now_utc (\<lambda>now.
     case cur of
       Some data \<Rightarrow>
         bindM (liftR (decode (c_lock C) [] data)) (\<lambda>existing.
           if lk_is_owned_by owner existing
             then put_lock K C x (lock_key resource) (lk_extend now ttl existing)
           else if \<not> lk_is_expired now existing then ret False
           else put_lock K C x (lock_key resource) (lock_new now resource owner ttl))
     | None \<Rightarrow> put_lock K C x (lock_key resource) (lock_new now resource owner ttl)))"

definition tc_acquire_lock_once ::
    "('s, 'v) kv \<Rightarrow> 'v codecs \<Rightarrow> string \<Rightarrow> string \<Rightarrow> int \<Rightarrow> ('s, bool) tc" where
  "tc_acquire_lock_once K C resource owner ttl =
     bindM require_inner (\<lambda>_.
     bindM (kv_do (kv_begin_pessimistic K)) (\<lambda>x.
     commit_or_rollback K x (acquire_lock_body K C x resource owner ttl)))"

definition tc_acquire_lock ::
    "('s, 'v) kv \<Rightarrow> 'v codecs \<Rightarrow> string \<Rightarrow> string \<Rightarrow> int \<Rightarrow> ('s, bool) tc" where
  "tc_acquire_lock K C resource owner ttl =
     with_retry is_retryable (tc_acquire_lock_once K C resource owner ttl)"

definition release_lock_body ::
    "('s, 'v) kv \<Rightarrow> 'v codecs \<Rightarrow> nat \<Rightarrow> string \<Rightarrow> string \<Rightarrow> ('s, bool) tc" where
  "release_lock_body K C x resource owner =
     bindM (kv_do (kv_txn_get K x (lock_key resource))) (\<lambda>cur.
     case cur of
       Some data \<Rightarrow>
         bindM (liftR (decode (c_lock C) [] data)) (\<lambda>existing.
           if lk_is_owned_by owner existing
             then bindM (kv_do (kv_txn_delete K x (lock_key resource))) (\<lambda>_. ret True)
           else ret False)
     | None \<Rightarrow> ret False)"

definition tc_release_lock_once ::
    "('s, 'v) kv \<Rightarrow> 'v codecs \<Rightarrow> string \<Rightarrow> string \<Rightarrow> ('s, bool) tc" where
  "tc_release_lock_once K C resource owner =
     bindM require_inner (\<lambda>_.
     bindM (kv_do (kv_begin_pessimistic K)) (\<lambda>x.
     commit_or_rollback K x (release_lock_body K C x resource owner)))"

definition tc_release_lock :: "('s, 'v) kv \<Rightarrow> 'v codecs \<Rightarrow> string \<Rightarrow> string \<Rightarrow> ('s, bool) tc" where
  "tc_release_lock K C resource owner =
     with_retry is_retryable (tc_release_lock_once K C resource owner)"

definition tc_acquire_scanner_lock ::
    "('s, 'v) kv \<Rightarrow> 'v codecs \<Rightarrow> string \<Rightarrow> int \<Rightarrow> ('s, bool) tc" where
  "tc_acquire_scanner_lock K C pod ttl = tc_acquire_lock K C ''scanner_lock'' pod ttl"

definition tc_release_scanner_lock :: "('s, 'v) kv \<Rightarrow> 'v codecs \<Rightarrow> string \<Rightarrow> ('s, bool) tc" where
  "tc_release_scanner_lock K C pod = tc_release_lock K C ''scanner_lock'' pod"

section \<open>Records\<close>

definition put_record :: "('s, 'v) kv \<Rightarrow> ('v, 'x) codec \<Rightarrow> key \<Rightarrow> 'x \<Rightarrow> ('s, unit) tc" where
  "put_record K c k x = bindM (liftR (encode c x)) (\<lambda>data. tc_put K k data)"

definition get_record :: "('s, 'v) kv \<Rightarrow> ('v, 'x) codec \<Rightarrow> key \<Rightarrow> ('s, 'x option) tc" where
  "get_record K c k =
     bindM (tc_get K k) (\<lambda>data.
     case data of
       Some bytes \<Rightarrow> bindM (liftR (decode c [] bytes)) (\<lambda>x. ret (Some x))
     | None \<Rightarrow> ret None)"

definition tc_update_heartbeat ::
    "('s, 'v) kv \<Rightarrow> 'v codecs \<Rightarrow> string \<Rightarrow> heartbeat_record \<Rightarrow> ('s, unit) tc" where
  "tc_update_heartbeat K C pod h = put_record K (c_heartbeat C) (heartbeat_key pod) h"

definition tc_get_heartbeat ::
    "('s, 'v) kv \<Rightarrow> 'v codecs \<Rightarrow> string \<Rightarrow> ('s, heartbeat_record option) tc" where
  "tc_get_heartbeat K C pod = get_record K (c_heartbeat C) (heartbeat_key pod)"

definition stale_pods :: "'v codecs \<Rightarrow> timestamp \<Rightarrow> int \<Rightarrow> (key \<times> 'v) list \<Rightarrow> string list" where
  "stale_pods C now timeout results =
     concat (map (\<lambda>(k, v). case de (c_heartbeat C) v of
                             Inr h \<Rightarrow> (if hb_is_stale now timeout h then [hb_pod_id h] else [])
                           | Inl _ \<Rightarrow> []) results)"

definition tc_get_stale_heartbeats ::
    "('s, 'v) kv \<Rightarrow> 'v codecs \<Rightarrow> int \<Rightarrow> u32 \<Rightarrow> ('s, string list) tc" where
  "tc_get_stale_heartbeats K C timeout limit =
     bindM (tc_scan K heartbeat_prefix limit) (\<lambda>results.
     bindM now_utc (\<lambda>now. ret (stale_pods C now timeout results)))"

definition tc_update_checkpoint :: "('s, 'v) kv \<Rightarrow> 'v codecs \<Rightarrow> checkpoint_state \<Rightarrow> ('s, unit) tc" where
  "tc_update_checkpoint K C cp = put_record K (c_checkpoint C) (checkpoint_key (cp_job_id cp)) cp"

definition tc_get_checkpoint ::
    "('s, 'v) kv \<Rightarrow> 'v codecs \<Rightarrow> string \<Rightarrow> ('s, checkpoint_state option) tc" where
  "tc_get_checkpoint K C job = get_record K (c_checkpoint C) (checkpoint_key job)"

definition tc_put_config :: "('s, 'v) kv \<Rightarrow> 'v codecs \<Rightarrow> config_record \<Rightarrow> ('s, unit) tc" where
  "tc_put_config K C cr = put_record K (c_config C) (config_key (cr_hash cr)) cr"

definition tc_get_config :: "('s, 'v) kv \<Rightarrow> 'v codecs \<Rightarrow> string \<Rightarrow> ('s, config_record option) tc" where
  "tc_get_config K C h = get_record K (c_config C) (config_key h)"

lemma encode_ok [simp]: "codec_ok c \<Longrightarrow> encode c x = Inr (enc c x)"
  by (simp add: encode_def codec_ok_enc)

lemma decode_ok [simp]: "codec_ok c \<Longrightarrow> decode c what (enc c x) = Inr x"
  by (simp add: decode_def codec_ok_enc)

end
