(* ===== verification/Client_Logic.thy ===== *)
theory Client_Logic
  imports Tikv_Client
begin

text \<open>
  What the operations of \<open>Tikv_Client\<close> do to the committed data, proved once for every store that keeps
  the laws of \<open>tikv_backend\<close>. \<open>data_at contents m\<close> are the client states whose committed data is \<open>m\<close>. A triple gives
  the data after a normal return and after an error; \<open>yields\<close> lemmas (from \<open>reliable_backend\<close>) give the
  result of a connected client whose circuit is closed, in a calm cluster (\<open>client_at\<close>).
\<close>

definition client_at ::
    "('s \<Rightarrow> key \<rightharpoonup> 'v) \<Rightarrow> ('s \<Rightarrow> bool) \<Rightarrow> (key \<rightharpoonup> 'v) \<Rightarrow> timestamp \<Rightarrow> 's client \<Rightarrow> bool" where
  "client_at contents calm m now st \<longleftrightarrow>
     cl_connected st \<and> cb_get_state (cl_circuit st) = Closed \<and> calm (cl_world st) \<and>
     contents (cl_world st) = m \<and> cl_clock st = now"

definition data_at :: "('s \<Rightarrow> key \<rightharpoonup> 'v) \<Rightarrow> (key \<rightharpoonup> 'v) \<Rightarrow> 's client \<Rightarrow> bool" where
  "data_at contents m st \<longleftrightarrow> contents (cl_world st) = m"

section \<open>Steps that leave the cluster alone\<close>

lemma valid_world:
  assumes "\<And>st r t. m st = (r, t) \<Longrightarrow> cl_world t = cl_world st"
  shows "valid (\<lambda>st. P (cl_world st)) m (\<lambda>_ st. P (cl_world st)) (\<lambda>_ st. P (cl_world st))"
  using assms by (auto intro!: validI)

lemma local_steps:
  "check_circuit st = (r, t) \<Longrightarrow> cl_world t = cl_world st"
  "require_inner st = (r', t) \<Longrightarrow> cl_world t = cl_world st"
  "record_success st = (r'', t) \<Longrightarrow> cl_world t = cl_world st"
  "record_failure st = (r'', t) \<Longrightarrow> cl_world t = cl_world st"
  "sleep d st = (r'', t) \<Longrightarrow> cl_world t = cl_world st"
  by (auto simp: check_circuit_def require_inner_def record_success_def record_failure_def sleep_def
      split: prod.splits bool.splits if_splits)

lemma kv_do_iff:
  "kv_do m st = (Inr a, t) \<longleftrightarrow> (\<exists>w. m (cl_world st) = (Inr a, w) \<and> t = st\<lparr>cl_world := w\<rparr>)"
  "kv_do m st = (Inl e, t) \<longleftrightarrow>
     (\<exists>w e'. m (cl_world st) = (Inl e', w) \<and> e = ClientError e' \<and> t = st\<lparr>cl_world := w\<rparr>)"
  by (auto simp: kv_do_def split: prod.splits sum.splits)

text \<open>A triple over the cluster is a triple over the client.\<close>

lemma valid_kv_do:
  assumes "valid P m Q E"
  shows "valid (\<lambda>st. P (cl_world st)) (kv_do m) (\<lambda>a st. Q a (cl_world st))
           (\<lambda>e st. \<exists>e'. e = ClientError e' \<and> E e' (cl_world st))"
  by (rule validI) (auto simp: kv_do_iff dest: valid_Inr [OF assms] valid_Inl [OF assms])

lemma valid_kv_do_recorded:
  assumes "valid P m Q E"
  shows "valid (\<lambda>st. P (cl_world st)) (kv_do_recorded m) (\<lambda>a st. Q a (cl_world st))
           (\<lambda>e st. \<exists>e'. e = ClientError e' \<and> E e' (cl_world st))"
  by (rule validI)
     (auto simp: kv_do_recorded_def prog_iffs kv_do_iff record_failure_def
        dest: valid_Inr [OF assms] valid_Inl [OF assms])

lemma preserves_clock [pres]:
  "preserves (\<lambda>st. cl_clock st = c) (kv_do m)"
  "preserves (\<lambda>st. cl_clock st = c) require_inner"
  by (auto simp: preserves_def kv_do_def require_inner_def split: prod.splits sum.splits)

lemma preserves_clock_ops [pres]:
  "preserves (\<lambda>st. cl_clock st = c) (tc_scan K p n)"
  "preserves (\<lambda>st. cl_clock st = c) (tc_transactional_claim K wk pk proc)"
  unfolding tc_scan_def tc_transactional_claim_def by (intro pres)+

lemma preserves_clock_get [pres]: "preserves (\<lambda>st. cl_clock st = c) (tc_get K k)"
proof -
  have "preserves (\<lambda>st. cl_clock st = c) (check_circuit :: ('a, unit) tc)"
    by (auto simp: preserves_def check_circuit_def split: prod.splits bool.splits)
  moreover have "preserves (\<lambda>st. cl_clock st = c) (record_success :: ('a, unit) tc)"
    "preserves (\<lambda>st. cl_clock st = c) (record_failure :: ('a, unit) tc)"
    by (auto simp: preserves_def record_success_def record_failure_def)
  ultimately show ?thesis unfolding tc_get_def kv_do_recorded_def by (intro pres)
qed

section \<open>The retry loop\<close>

lemma retry_loop_valid:
  assumes op: "valid I op Q E" and E: "\<And>e st. E e st \<Longrightarrow> I st"
    and sleep: "\<And>st d. I st \<Longrightarrow> I (st\<lparr>cl_clock := cl_clock st + d\<rparr>)"
  shows "valid I (retry_loop retry base mx attempt op) Q E"
proof (induction "mx - attempt" arbitrary: attempt)
  case 0
  then show ?case
    by (subst retry_loop.simps)
       (rule valid_handle [OF _ _ op]; auto simp: valid_def split: prod.splits sum.splits)
next
  case (Suc n)
  then have less: "attempt < mx" and IH: "valid I (retry_loop retry base mx (Suc attempt) op) Q E"
    by auto
  have slp: "valid (E e) (sleep d) (\<lambda>_. I) E" for e d
    using sleep E by (auto simp: valid_def sleep_def)
  have "valid (E e)
      (if \<not> retry e then throw e
       else if attempt < mx
         then bindM (sleep (uint (retry_delay_ms base attempt) * ns_per_ms))
                (\<lambda>_. retry_loop retry base mx (Suc attempt) op)
         else throw e) Q E" for e
    using less valid_seq [OF slp IH] valid_throw [of E e Q] by (auto simp del: throw_simp)
  then show ?case
    by (subst retry_loop.simps) (rule valid_handle [OF _ valid_ret op])
qed

lemma with_retry_valid:
  assumes "valid I op Q E" "\<And>e st. E e st \<Longrightarrow> I st"
    "\<And>st d. I st \<Longrightarrow> I (st\<lparr>cl_clock := cl_clock st + d\<rparr>)"
  shows "valid I (with_retry retry op) Q E"
  unfolding with_retry_def
  by (rule validI)
     (auto simp: prog_iffs intro: valid_Inr [OF retry_loop_valid [OF assms]]
        valid_Inl [OF retry_loop_valid [OF assms]])

text \<open>
  An idempotent write may be retried: when a failed attempt has written already, the next one writes
  the same again.
\<close>

lemma with_retry_idem:
  assumes op: "\<And>m. valid (data_at A m) op (\<lambda>_. data_at A (u m))
                 (\<lambda>_ st. data_at A m st \<or> data_at A (u m) st)"
    and idem: "\<And>m. u (u m) = u m"
  shows "valid (data_at A m) (with_retry retry op)
           (\<lambda>_. data_at A (u m)) (\<lambda>_ st. data_at A m st \<or> data_at A (u m) st)"
proof (rule valid_pre [OF with_retry_valid])
  show "valid (\<lambda>st. data_at A m st \<or> data_at A (u m) st) op (\<lambda>_. data_at A (u m))
          (\<lambda>_ st. data_at A m st \<or> data_at A (u m) st)"
    using op [of m] op [of "u m"] unfolding idem
    by (force simp: valid_def split: prod.splits sum.splits)
qed (auto simp: data_at_def)

text \<open>A first attempt that succeeds is the only one.\<close>

lemma yields_with_retry:
  assumes "yields S op (Inr a) S'"
  shows "yields S (with_retry retry op) (Inr a) S'"
  using assms
  by (auto simp: yields_def with_retry_def retry_loop.simps handleM_def bindM_def)

section \<open>What the transactions do to the data\<close>

fun claim_outcome ::
    "(key \<rightharpoonup> 'v) \<Rightarrow> key \<Rightarrow> key \<Rightarrow> ('v \<Rightarrow> string + 'v option) \<Rightarrow> ('v option) \<Rightarrow>
     (tikv_error + 'v option) \<times> (key \<rightharpoonup> 'v)" where
  "claim_outcome m wk pk proc None = (Inr None, m(pk := None))"
| "claim_outcome m wk pk proc (Some d) =
     (case proc d of
        Inr (Some nd) \<Rightarrow> (Inr (Some nd), m(wk \<mapsto> nd, pk := None))
      | Inr None \<Rightarrow> (Inr None, m)
      | Inl e \<Rightarrow> (Inl (Other (''Claim processor failed: '' @ e)), m))"

definition cas_outcome ::
    "'v codecs \<Rightarrow> (key \<rightharpoonup> 'v) \<Rightarrow> key \<Rightarrow> u64 \<Rightarrow> 'v \<Rightarrow> (tikv_error + bool) \<times> (key \<rightharpoonup> 'v)" where
  "cas_outcome C m k expected nv =
     (case m k of
        None \<Rightarrow> (if expected = 0 then (Inr True, m(k \<mapsto> nv)) else (Inr False, m))
      | Some d \<Rightarrow>
          (case json_version C d of
             None \<Rightarrow> (Inl (Deserialization ''No version field in value''), m)
           | Some v \<Rightarrow> (if v = expected then (Inr True, m(k \<mapsto> nv)) else (Inl (CasFailed expected v), m))))"

lemma cas_won:
  "cas_outcome C m k e v = (Inr True, m') \<longleftrightarrow>
     m' = m(k \<mapsto> v) \<and> (case m k of None \<Rightarrow> e = 0 | Some d \<Rightarrow> json_version C d = Some e)"
  by (auto simp: cas_outcome_def split: option.splits)

lemma cas_changes:
  "snd (cas_outcome C m k e v) = m \<or> cas_outcome C m k e v = (Inr True, m(k \<mapsto> v))"
  by (auto simp: cas_outcome_def split: option.splits)

text \<open>
  The decision of \<open>acquire_lock_once\<close> on the stored lock: the record to write, or a refusal. An owner
  extends its own lock, a free or expired lock is taken, a live lock of another owner is respected.
\<close>

fun lock_decision ::
    "timestamp \<Rightarrow> string \<Rightarrow> string \<Rightarrow> int \<Rightarrow> lock_record option \<Rightarrow> lock_record option" where
  "lock_decision now resource owner ttl None = Some (lock_new now resource owner ttl)"
| "lock_decision now resource owner ttl (Some l) =
     (if lk_owner l = owner then Some (lk_extend now ttl l)
      else if now > lk_expires_at l then Some (lock_new now resource owner ttl)
      else None)"

definition stored_lock :: "'v codecs \<Rightarrow> (key \<rightharpoonup> 'v) \<Rightarrow> string \<Rightarrow> string + lock_record option" where
  "stored_lock C m resource =
     (case m (lock_key resource) of
        None \<Rightarrow> Inr None
      | Some v \<Rightarrow> (case de (c_lock C) v of Inl e \<Rightarrow> Inl e | Inr l \<Rightarrow> Inr (Some l)))"

definition acquire_rel ::
    "'v codecs \<Rightarrow> timestamp \<Rightarrow> string \<Rightarrow> string \<Rightarrow> int \<Rightarrow> (key \<rightharpoonup> 'v) \<Rightarrow> bool \<Rightarrow> (key \<rightharpoonup> 'v) \<Rightarrow> bool" where
  "acquire_rel C now resource owner ttl m b m' \<longleftrightarrow>
     (\<exists>cur. stored_lock C m resource = Inr cur \<and>
        (case lock_decision now resource owner ttl cur of
           None \<Rightarrow> \<not> b \<and> m' = m
         | Some l \<Rightarrow> b \<and> (\<exists>v. ser (c_lock C) l = Inr v \<and> m' = m(lock_key resource \<mapsto> v))))"

definition release_rel ::
    "'v codecs \<Rightarrow> string \<Rightarrow> string \<Rightarrow> (key \<rightharpoonup> 'v) \<Rightarrow> bool \<Rightarrow> (key \<rightharpoonup> 'v) \<Rightarrow> bool" where
  "release_rel C resource owner m b m' \<longleftrightarrow>
     (\<exists>cur. stored_lock C m resource = Inr cur \<and>
        (b \<longleftrightarrow> (\<exists>l. cur = Some l \<and> lk_owner l = owner)) \<and>
        m' = (if b then m(lock_key resource := None) else m))"

section \<open>Operations on a store that keeps its laws\<close>

context tikv_backend
begin

abbreviation holds :: "(key \<rightharpoonup> 'v) \<Rightarrow> 's client \<Rightarrow> bool" where
  "holds \<equiv> data_at contents"

definition in_txn :: "(key \<rightharpoonup> 'v) \<Rightarrow> nat \<Rightarrow> 'v writes \<Rightarrow> 's client \<Rightarrow> bool" where
  "in_txn m x w st \<longleftrightarrow> contents (cl_world st) = m \<and> pend (cl_world st) x = Some w"

lemma local_valid:
  "valid (holds m) check_circuit (\<lambda>_. holds m) (\<lambda>_. holds m)"
  "valid (holds m) require_inner (\<lambda>_. holds m) (\<lambda>_. holds m)"
  "valid (holds m) record_success (\<lambda>_. holds m) E"
  "valid P now_utc (\<lambda>now st. P st \<and> now = cl_clock st) E"
  unfolding data_at_def
  by (rule validI, simp_all add: local_steps)
     (rule validI, simp_all add: local_steps, auto simp: valid_def record_success_def now_utc_def)

text \<open>The laws of the store as triples over the client.\<close>

lemma world_read:
  "valid (\<lambda>s. contents s = m) (kv_current_timestamp K) (\<lambda>ts s. contents s = m \<and> fresh s ts)
     (\<lambda>_ s. contents s = m)"
  "valid (\<lambda>s. contents s = m \<and> fresh s ts) (kv_snapshot_get K ts k)
     (\<lambda>v s. v = m k \<and> contents s = m \<and> fresh s ts) (\<lambda>_ s. contents s = m)"
  "valid (\<lambda>s. contents s = m \<and> fresh s ts) (kv_snapshot_scan K ts a b n)
     (\<lambda>xs s. xs = take (unat n) (range_entries m a b) \<and> contents s = m) (\<lambda>_ s. contents s = m)"
  by (rule validI, use timestamp_ok timestamp_err in blast, use timestamp_err in blast)
     (rule validI, use get_ok get_err in blast, use get_err in blast,
      rule validI, use scan_ok in blast, use scan_err in blast)

lemma world_begin:
  "valid (\<lambda>s. contents s = m) (kv_begin_optimistic K)
     (\<lambda>x s. contents s = m \<and> pend s x = Some Map.empty) (\<lambda>_ s. contents s = m)"
  "valid (\<lambda>s. contents s = m) (kv_begin_pessimistic K)
     (\<lambda>x s. contents s = m \<and> pend s x = Some Map.empty) (\<lambda>_ s. contents s = m)"
  by (rule validI, use begin_ok(1) in blast, use begin_err(1) in blast)
     (rule validI, use begin_ok(2) in blast, use begin_err(2) in blast)

lemma world_txn:
  "valid (\<lambda>s. contents s = m \<and> pend s x = Some w) (kv_txn_get K x k)
     (\<lambda>v s. v = apply_writes w m k \<and> contents s = m \<and> pend s x = Some w) (\<lambda>_ s. contents s = m)"
  "valid (\<lambda>s. contents s = m \<and> pend s x = Some w) (kv_txn_put K x k y)
     (\<lambda>_ s. contents s = m \<and> pend s x = Some (w(k \<mapsto> Some y))) (\<lambda>_ s. contents s = m)"
  "valid (\<lambda>s. contents s = m \<and> pend s x = Some w) (kv_txn_delete K x k)
     (\<lambda>_ s. contents s = m \<and> pend s x = Some (w(k \<mapsto> None))) (\<lambda>_ s. contents s = m)"
  by (rule validI, use txn_get_ok in blast, use txn_get_err in blast)
     (rule validI, use txn_put_ok in blast, use txn_put_err in blast,
      rule validI, use txn_delete_ok in blast, use txn_delete_err in blast)

lemma world_end:
  "valid (\<lambda>s. contents s = m \<and> pend s x = Some w) (kv_commit K x)
     (\<lambda>_ s. contents s = apply_writes w m) (\<lambda>_ s. contents s = m \<or> contents s = apply_writes w m)"
  "valid (\<lambda>s. contents s = m) (kv_rollback K x) (\<lambda>_ s. contents s = m) (\<lambda>_ s. contents s = m)"
  by (rule validI, use commit_ok in blast, use commit_err in blast)
     (rule validI, use rollback_any in blast, use rollback_any in blast)

lemmas local_steps_valid = local_valid [unfolded data_at_def]
lemmas kv_read = world_read [THEN valid_kv_do]
lemmas kv_read_rec = world_read [THEN valid_kv_do_recorded]
lemmas kv_txn = world_txn [THEN valid_kv_do]
lemmas kv_txn_rec = world_txn [THEN valid_kv_do_recorded]
lemmas kv_begin = world_begin [THEN valid_kv_do]
lemmas kv_begin_rec = world_begin [THEN valid_kv_do_recorded]
lemmas kv_end = world_end [THEN valid_kv_do]
lemmas kv_end_rec = world_end [THEN valid_kv_do_recorded]

lemma get_valid:
  "valid (holds m) (tc_get K k) (\<lambda>v st. v = m k \<and> holds m st) (\<lambda>_. holds m)"
  unfolding tc_get_def data_at_def
  by (rule valid_seq [OF local_steps_valid(1)], rule valid_seq [OF local_steps_valid(2)],
      rule valid_seq [OF kv_read_rec(1)], rule valid_seq [OF kv_read_rec(2)])
     (auto simp: valid_def record_success_def)

lemma scan_valid:
  "valid (holds m) (tc_scan K p n)
     (\<lambda>xs st. xs = take (unat n) (prefix_entries m p) \<and> holds m st) (\<lambda>_. holds m)"
  unfolding tc_scan_def data_at_def prefix_entries_def
  by (rule valid_seq [OF local_steps_valid(2)], rule valid_seq [OF kv_read(1)],
      rule valid_post [OF kv_read(3)]) auto

lemma put_once_valid:
  "valid (holds m) (tc_put_once K k v) (\<lambda>_. holds (m(k \<mapsto> v)))
     (\<lambda>_ st. holds m st \<or> holds (m(k \<mapsto> v)) st)"
  unfolding tc_put_once_def data_at_def
  by (rule valid_seq [OF local_steps_valid(1)], rule valid_seq [OF local_steps_valid(2)],
      rule valid_seq [OF kv_begin_rec(1)], rule valid_seq [OF kv_txn_rec(2)],
      rule valid_seq [OF kv_end_rec(1)])
     (auto simp: valid_def record_success_def)

lemma put_valid:
  "valid (holds m) (tc_put K k v) (\<lambda>_. holds (m(k \<mapsto> v)))
     (\<lambda>_ st. holds m st \<or> holds (m(k \<mapsto> v)) st)"
  unfolding tc_put_def by (rule with_retry_idem [where u = "\<lambda>m. m(k \<mapsto> v)", OF put_once_valid]) simp

lemma delete_once_valid:
  "valid (holds m) (tc_delete_once K k) (\<lambda>_. holds (m(k := None)))
     (\<lambda>_ st. holds m st \<or> holds (m(k := None)) st)"
  unfolding tc_delete_once_def data_at_def
  by (rule valid_seq [OF local_steps_valid(1)], rule valid_seq [OF local_steps_valid(2)],
      rule valid_seq [OF kv_begin_rec(1)], rule valid_seq [OF kv_txn_rec(3)],
      rule valid_seq [OF kv_end_rec(1)])
     (auto simp: valid_def record_success_def)

lemma delete_valid:
  "valid (holds m) (tc_delete K k) (\<lambda>_. holds (m(k := None)))
     (\<lambda>_ st. holds m st \<or> holds (m(k := None)) st)"
  unfolding tc_delete_def
  by (rule with_retry_idem [where u = "\<lambda>m. m(k := None)", OF delete_once_valid]) simp

text \<open>A batch is one transaction: all of its pairs are written or none, the last one of a key wins.\<close>

definition writes_of :: "(key \<times> 'v) list \<Rightarrow> 'v writes \<Rightarrow> 'v writes" where
  "writes_of pairs w = fold (\<lambda>(k, v) w. w(k \<mapsto> Some v)) pairs w"

lemma puts_valid:
  "valid (\<lambda>st. contents (cl_world st) = m \<and> pend (cl_world st) x = Some w)
     (foldM (\<lambda>(k, v) _. kv_do (kv_txn_put K x k v)) pairs u)
     (\<lambda>_ st. contents (cl_world st) = m \<and> pend (cl_world st) x = Some (writes_of pairs w))
     (\<lambda>_ st. contents (cl_world st) = m)"
proof (induction pairs arbitrary: w u)
  case Nil
  then show ?case by (auto simp: valid_def writes_of_def)
next
  case (Cons p pairs)
  obtain k v where p: "p = (k, v)" by force
  show ?case
    unfolding foldM.simps p prod.case
    by (rule valid_seq [OF kv_txn(2)], rule valid_post [OF Cons.IH [of "w(k \<mapsto> Some v)"]])
       (auto simp: writes_of_def fun_upd_def)
qed

lemma apply_writes_of:
  "apply_writes (writes_of pairs w) m = (apply_writes w m) ++ map_of (rev pairs)"
  by (induction pairs arbitrary: w) (auto simp: writes_of_def map_add_def fun_eq_iff split: option.splits)

lemma batch_put_once_valid:
  "valid (holds m) (tc_batch_put_once K pairs) (\<lambda>_. holds (m ++ map_of (rev pairs)))
     (\<lambda>_ st. holds m st \<or> holds (m ++ map_of (rev pairs)) st)"
  unfolding tc_batch_put_once_def data_at_def
  by (rule valid_seq [OF local_steps_valid(2)], rule valid_seq [OF kv_begin(1)],
      rule valid_seq [OF puts_valid], rule valid_post [OF kv_end(1)])
     (auto simp: apply_writes_of)

lemma batch_put_valid:
  "valid (holds m) (tc_batch_put K pairs) (\<lambda>_. holds (m ++ map_of (rev pairs)))
     (\<lambda>_ st. holds m st \<or> holds (m ++ map_of (rev pairs)) st)"
  unfolding tc_batch_put_def
  by (rule with_retry_idem [where u = "\<lambda>m. m ++ map_of (rev pairs)", OF batch_put_once_valid])
     (simp add: map_add_assoc [symmetric] map_add_subsumed1)

lemma commit_ret_valid:
  "valid (\<lambda>st. contents (cl_world st) = m \<and> pend (cl_world st) x = Some w)
      (bindM (kv_do (kv_commit K x)) (\<lambda>_. ret r))
      (\<lambda>r' st. r' = r \<and> contents (cl_world st) = apply_writes w m)
      (\<lambda>_ st. contents (cl_world st) = m \<or> contents (cl_world st) = apply_writes w m)"
  by (rule valid_seq [OF kv_end(1)]) (auto simp: valid_def)

lemma claim_valid:
  "valid (holds m) (tc_transactional_claim K wk pk proc)
     (\<lambda>r st. claim_outcome m wk pk proc (m wk) = (Inr r, contents (cl_world st)))
     (\<lambda>_ st. holds m st \<or> holds (snd (claim_outcome m wk pk proc (m wk))) st)"
  unfolding tc_transactional_claim_def data_at_def
proof (rule valid_seq [OF local_steps_valid(2)], rule valid_seq [OF kv_begin(2)],
    rule valid_seq [OF kv_txn(1)], rule valid_assume, goal_cases)
  case (1 a x cur)
  note here = 1
  consider "m wk = None" | d e where "m wk = Some d" "proc d = Inl e"
    | d where "m wk = Some d" "proc d = Inr None"
    | d nd where "m wk = Some d" "proc d = Inr (Some nd)"
    by (metis option.exhaust sum.exhaust)
  then show ?case
  proof cases
    case 2
    with here show ?thesis by (auto simp: valid_def)
  next
    case 3
    with here show ?thesis by (auto intro!: valid_post [OF commit_ret_valid] simp del: ret_simp)
  next
    case 4
    with here show ?thesis
      by (simp del: ret_simp, intro valid_seq [OF kv_txn(2)] valid_seq [OF kv_txn(3)]
          valid_post [OF commit_ret_valid]) auto
  next
    case 1
    with here show ?thesis
      by (simp del: ret_simp, intro valid_seq [OF kv_txn(3)] valid_post [OF commit_ret_valid]) auto
  qed
qed auto

lemma cas_valid:
  "valid (holds m) (tc_cas K C k expected nv)
     (\<lambda>r st. cas_outcome C m k expected nv = (Inr r, contents (cl_world st)))
     (\<lambda>_ st. holds m st \<or> holds (snd (cas_outcome C m k expected nv)) st)"
  unfolding tc_cas_def data_at_def Let_def
proof (rule valid_seq [OF local_steps_valid(2)], rule valid_seq [OF kv_begin(2)],
    rule valid_seq [OF kv_txn(1)], rule valid_assume, goal_cases)
  case (1 a x cur)
  note here = 1
  have put_commit: "valid (\<lambda>st. contents (cl_world st) = m \<and> pend (cl_world st) x = Some Map.empty)
      (bindM (kv_do (kv_txn_put K x k nv)) (\<lambda>_. bindM (kv_do (kv_commit K x)) (\<lambda>_. ret True)))
      (\<lambda>r st. r \<and> contents (cl_world st) = m(k \<mapsto> nv))
      (\<lambda>_ st. contents (cl_world st) = m \<or> contents (cl_world st) = m(k \<mapsto> nv))"
    by (rule valid_seq [OF kv_txn(2)], rule valid_post [OF commit_ret_valid]) auto
  show ?case
  proof (cases "fst (cas_outcome C m k expected nv) = Inr True")
    case True
    with here show ?thesis
      by (auto simp: cas_outcome_def simp del: ret_simp throw_simp split: option.splits if_splits
          intro!: valid_post [OF put_commit])
  next
    case False
    with here show ?thesis
      by (auto simp: cas_outcome_def valid_def split: option.splits if_splits)
  qed
qed auto

lemma run_cas:
  assumes "tc_cas K C k e v s = (r, t)"
  defines "m \<equiv> contents (cl_world s)"
  shows "contents (cl_world t) = m \<and> r \<noteq> Inr True \<or>
    contents (cl_world t) = m(k \<mapsto> v) \<and> (case m k of None \<Rightarrow> e = 0 | Some d \<Rightarrow> json_version C d = Some e)"
proof (cases r)
  case (Inl x)
  then have "contents (cl_world t) = m \<or> contents (cl_world t) = snd (cas_outcome C m k e v)"
    using valid_Inl [OF cas_valid, of m s C k e v] assms by (auto simp: data_at_def)
  with Inl cas_changes [of C m k e v] cas_won [of C m k e v "m(k \<mapsto> v)"] show ?thesis by auto
next
  case (Inr b)
  then have out: "cas_outcome C m k e v = (Inr b, contents (cl_world t))"
    using valid_Inr [OF cas_valid, of m s C k e v] assms by (auto simp: data_at_def)
  show ?thesis
  proof (cases b)
    case True
    with out show ?thesis by (simp add: cas_won)
  next
    case False
    with out cas_changes [of C m k e v] Inr show ?thesis by auto
  qed
qed

text \<open>The triples of the single-key operations, as rules on a run that is at hand.\<close>

lemma run_get:
  "tc_get K k s = (Inr v, t) \<Longrightarrow> v = contents (cl_world s) k \<and> contents (cl_world t) = contents (cl_world s)"
  "tc_get K k s = (Inl e, t) \<Longrightarrow> contents (cl_world t) = contents (cl_world s)"
  using valid_Inr [OF get_valid, of "contents (cl_world s)" s]
    valid_Inl [OF get_valid, of "contents (cl_world s)" s]
  by (auto simp: data_at_def)

lemma run_put:
  "tc_put K k v s = (Inr u, t) \<Longrightarrow> contents (cl_world t) = (contents (cl_world s))(k \<mapsto> v)"
  "tc_put K k v s = (Inl e, t) \<Longrightarrow>
     contents (cl_world t) = contents (cl_world s) \<or> contents (cl_world t) = (contents (cl_world s))(k \<mapsto> v)"
  using valid_Inr [OF put_valid, of "contents (cl_world s)" s]
    valid_Inl [OF put_valid, of "contents (cl_world s)" s]
  by (auto simp: data_at_def)

lemma run_delete:
  "tc_delete K k s = (Inr u, t) \<Longrightarrow> contents (cl_world t) = (contents (cl_world s))(k := None)"
  "tc_delete K k s = (Inl e, t) \<Longrightarrow>
     contents (cl_world t) = contents (cl_world s) \<or> contents (cl_world t) = (contents (cl_world s))(k := None)"
  using valid_Inr [OF delete_valid, of "contents (cl_world s)" s]
    valid_Inl [OF delete_valid, of "contents (cl_world s)" s]
  by (auto simp: data_at_def)

lemma run_scan:
  "tc_scan K p n s = (Inr xs, t) \<Longrightarrow>
     xs = take (unat n) (prefix_entries (contents (cl_world s)) p) \<and>
     contents (cl_world t) = contents (cl_world s)"
  "tc_scan K p n s = (Inl e, t) \<Longrightarrow> contents (cl_world t) = contents (cl_world s)"
  using valid_Inr [OF scan_valid, of "contents (cl_world s)" s]
    valid_Inl [OF scan_valid, of "contents (cl_world s)" s]
  by (auto simp: data_at_def)

lemma run_claim:
  assumes "tc_transactional_claim K wk pk proc s = (r, t)"
  defines "m \<equiv> contents (cl_world s)"
  shows "contents (cl_world t) = m \<or> contents (cl_world t) = snd (claim_outcome m wk pk proc (m wk))"
    "r = Inr q \<Longrightarrow> claim_outcome m wk pk proc (m wk) = (Inr q, contents (cl_world t))"
  using valid_Inr [OF claim_valid, of m s wk pk proc] valid_Inl [OF claim_valid, of m s wk pk proc] assms
  by (cases r; auto simp: data_at_def)+

subsection \<open>Locks\<close>

lemma commit_or_rollback_valid:
  assumes body: "valid P body
      (\<lambda>a st. \<exists>w. contents (cl_world st) = m \<and> pend (cl_world st) x = Some w \<and> R a w)
      (\<lambda>_ st. contents (cl_world st) = m)"
  shows "valid P (commit_or_rollback K x body)
      (\<lambda>a st. \<exists>w. contents (cl_world st) = apply_writes w m \<and> R a w)
      (\<lambda>_ st. contents (cl_world st) = m \<or> (\<exists>a w. contents (cl_world st) = apply_writes w m \<and> R a w))"
  unfolding commit_or_rollback_def
proof (rule valid_handle [OF _ _ body], goal_cases)
  case (1 e)
  show ?case
    by (rule valid_handle [OF _ _ kv_end(2)]) (auto simp: valid_def)
next
  case (2 a)
  have fin: "valid (\<lambda>st. R a w \<and> contents (cl_world st) = m \<and> pend (cl_world st) x = Some w)
      (bindM (kv_do (kv_commit K x)) (\<lambda>_. ret a))
      (\<lambda>a st. \<exists>w. contents (cl_world st) = apply_writes w m \<and> R a w)
      (\<lambda>_ st. contents (cl_world st) = m \<or> (\<exists>a w. contents (cl_world st) = apply_writes w m \<and> R a w))"
    for w
    by (rule valid_assume, rule valid_post [OF commit_ret_valid]) auto
  show ?case
    by (rule valid_ex, rule valid_pre [OF fin]) auto
qed

lemma acquire_body_valid:
  "valid (\<lambda>st. (contents (cl_world st) = m \<and> pend (cl_world st) x = Some Map.empty) \<and> cl_clock st = now)
     (acquire_lock_body K C x resource owner ttl)
     (\<lambda>b st. \<exists>w. contents (cl_world st) = m \<and> pend (cl_world st) x = Some w \<and>
        acquire_rel C now resource owner ttl m b (apply_writes w m))
     (\<lambda>_ st. contents (cl_world st) = m)"
  unfolding acquire_lock_body_def
proof (rule valid_seq [OF valid_frame [OF kv_txn(1) preserves_clock(1)]],
    rule valid_seq [OF local_valid(4)], goal_cases)
  case (1 cur t)
  have put: "valid (\<lambda>st. contents (cl_world st) = m \<and> pend (cl_world st) x = Some Map.empty)
      (put_lock K C x (lock_key resource) l)
      (\<lambda>b st. \<exists>w. contents (cl_world st) = m \<and> pend (cl_world st) x = Some w \<and>
        acquire_rel C now resource owner ttl m b (apply_writes w m))
      (\<lambda>_ st. contents (cl_world st) = m)"
    if "stored_lock C m resource = Inr c" "lock_decision now resource owner ttl c = Some l" for l c
  proof (cases "ser (c_lock C) l")
    case (Inl e)
    then show ?thesis by (auto simp: put_lock_def encode_def valid_def)
  next
    case (Inr v)
    have "acquire_rel C now resource owner ttl m True (m(lock_key resource \<mapsto> v))"
      using that Inr by (auto simp: acquire_rel_def)
    then show ?thesis
      unfolding put_lock_def encode_def Inr sum.case
      by (simp del: ret_simp, intro valid_seq [OF kv_txn(2)] valid_retI) auto
  qed
  have "valid (\<lambda>st. (cur = m (lock_key resource) \<and> t = now) \<and>
         (contents (cl_world st) = m \<and> pend (cl_world st) x = Some Map.empty))
      (case cur of
         Some data \<Rightarrow>
           bindM (liftR (decode (c_lock C) [] data)) (\<lambda>existing.
             if lk_is_owned_by owner existing
               then put_lock K C x (lock_key resource) (lk_extend t ttl existing)
             else if \<not> lk_is_expired t existing then ret False
             else put_lock K C x (lock_key resource) (lock_new t resource owner ttl))
       | None \<Rightarrow> put_lock K C x (lock_key resource) (lock_new t resource owner ttl))
      (\<lambda>b st. \<exists>w. contents (cl_world st) = m \<and> pend (cl_world st) x = Some w \<and>
        acquire_rel C now resource owner ttl m b (apply_writes w m))
      (\<lambda>_ st. contents (cl_world st) = m)"
  proof (rule valid_assume, goal_cases)
    case 1
    consider "cur = None" | v e where "cur = Some v" "de (c_lock C) v = Inl e"
      | v l where "cur = Some v" "de (c_lock C) v = Inr l"
      by (metis option.exhaust sum.exhaust)
    then show ?case
    proof cases
      case none: 1
      with 1 put [of None] show ?thesis by (simp add: stored_lock_def)
    next
      case 2
      then show ?thesis by (auto simp: decode_def valid_def)
    next
      case 3
      then have stored: "stored_lock C m resource = Inr (Some l)"
        using 1 by (simp add: stored_lock_def)
      show ?thesis
      proof (cases "lock_decision now resource owner ttl (Some l)")
        case None
        with stored have "acquire_rel C now resource owner ttl m False m"
          by (simp add: acquire_rel_def)
        with None 3 1 show ?thesis
          by (auto simp: decode_def lock_defs valid_def split: if_splits)
      next
        case (Some l')
        with put [OF stored Some] 3 1 show ?thesis
          by (auto simp: decode_def lk_is_owned_by_def lk_is_expired_def split: if_splits)
      qed
    qed
  qed
  then show ?case by (rule valid_pre) auto
qed auto

lemma acquire_once_valid:
  "valid (\<lambda>st. holds m st \<and> cl_clock st = now) (tc_acquire_lock_once K C resource owner ttl)
     (\<lambda>b st. acquire_rel C now resource owner ttl m b (contents (cl_world st)))
     (\<lambda>_ st. holds m st \<or> (\<exists>b. acquire_rel C now resource owner ttl m b (contents (cl_world st))))"
  unfolding tc_acquire_lock_once_def data_at_def
  by (rule valid_seq [OF valid_frame [OF local_steps_valid(2) preserves_clock(2)]],
      rule valid_seq [OF valid_frame [OF kv_begin(2) preserves_clock(1)]],
      rule valid_post [OF commit_or_rollback_valid [OF acquire_body_valid]])
     auto

lemma release_body_valid:
  "valid (\<lambda>st. contents (cl_world st) = m \<and> pend (cl_world st) x = Some Map.empty)
     (release_lock_body K C x resource owner)
     (\<lambda>b st. \<exists>w. contents (cl_world st) = m \<and> pend (cl_world st) x = Some w \<and>
        release_rel C resource owner m b (apply_writes w m))
     (\<lambda>_ st. contents (cl_world st) = m)"
  unfolding release_lock_body_def
proof (rule valid_seq [OF kv_txn(1)], rule valid_assume, goal_cases)
  case (1 cur)
  then have cur: "cur = m (lock_key resource)" by simp
  consider "cur = None" | v e where "cur = Some v" "de (c_lock C) v = Inl e"
    | v l where "cur = Some v" "de (c_lock C) v = Inr l" "lk_owner l = owner"
    | v l where "cur = Some v" "de (c_lock C) v = Inr l" "lk_owner l \<noteq> owner"
    by (metis option.exhaust sum.exhaust)
  then show ?case
  proof cases
    case 3
    with cur [symmetric] have "stored_lock C m resource = Inr (Some l)"
      by (simp add: stored_lock_def)
    with 3 have "release_rel C resource owner m True (m(lock_key resource := None))"
      by (simp add: release_rel_def)
    with 3 show ?thesis
      by (simp add: decode_def lk_is_owned_by_def del: ret_simp, intro valid_seq [OF kv_txn(3)] valid_retI)
         auto
  qed (use cur [symmetric] in \<open>auto simp: release_rel_def stored_lock_def decode_def valid_def lk_is_owned_by_def
      split: option.splits\<close>)
qed auto

lemma release_once_valid:
  "valid (holds m) (tc_release_lock_once K C resource owner)
     (\<lambda>b st. release_rel C resource owner m b (contents (cl_world st)))
     (\<lambda>_ st. holds m st \<or> (\<exists>b. release_rel C resource owner m b (contents (cl_world st))))"
  unfolding tc_release_lock_once_def data_at_def
  by (rule valid_seq [OF local_steps_valid(2)], rule valid_seq [OF kv_begin(2)],
      rule valid_post [OF commit_or_rollback_valid [OF release_body_valid]]) auto

end

section \<open>A calm cluster\<close>

definition ready :: "timestamp \<Rightarrow> 's client \<Rightarrow> bool" where
  "ready now st \<longleftrightarrow> cl_connected st \<and> cb_get_state (cl_circuit st) = Closed \<and> cl_clock st = now"

lemma client_at_ready:
  "client_at A calm m now = (\<lambda>st. (calm (cl_world st) \<and> A (cl_world st) = m) \<and> ready now st)"
  by (auto simp: client_at_def ready_def fun_eq_iff)

lemma ready_steps:
  "ready now st \<Longrightarrow> check_circuit st = (Inr (), st)"
  "ready now st \<Longrightarrow> require_inner st = (Inr (), st)"
  "ready now st \<Longrightarrow> now_utc st = (Inr now, st)"
  by (auto simp: ready_def check_circuit_def cb_is_call_permitted_def require_inner_def now_utc_def)

lemma ready_yields:
  "yields (\<lambda>st. P (cl_world st) \<and> ready now st) check_circuit (Inr ()) (\<lambda>st. P (cl_world st) \<and> ready now st)"
  "yields (\<lambda>st. P (cl_world st) \<and> ready now st) require_inner (Inr ()) (\<lambda>st. P (cl_world st) \<and> ready now st)"
  "yields (\<lambda>st. P (cl_world st) \<and> ready now st) now_utc (Inr now) (\<lambda>st. P (cl_world st) \<and> ready now st)"
  "yields (\<lambda>st. P (cl_world st) \<and> ready now st) record_success (Inr ())
     (\<lambda>st. P (cl_world st) \<and> ready now st)"
  by (auto simp: yields_def ready_steps)
     (auto simp: record_success_def ready_def cb_record_success_def cb_get_state_def)

lemma total_kv_do:
  assumes "total P m Q"
  shows "total (\<lambda>st. P (cl_world st) \<and> ready now st) (kv_do m) (\<lambda>a st. Q a (cl_world st) \<and> ready now st)"
    and "total (\<lambda>st. P (cl_world st) \<and> ready now st) (kv_do_recorded m)
           (\<lambda>a st. Q a (cl_world st) \<and> ready now st)"
  using assms
  by (fastforce simp: total_def kv_do_def kv_do_recorded_def handleM_def ready_def)+

context reliable_backend
begin

abbreviation live :: "(key \<rightharpoonup> 'b) \<Rightarrow> timestamp \<Rightarrow> 'a client \<Rightarrow> bool" where
  "live \<equiv> client_at contents calm"

lemma world_total:
  "total (\<lambda>s. calm s \<and> contents s = m) (kv_current_timestamp K)
     (\<lambda>ts s. calm s \<and> contents s = m \<and> fresh s ts)"
  "total (\<lambda>s. calm s \<and> contents s = m \<and> fresh s ts) (kv_snapshot_get K ts k)
     (\<lambda>v s. v = m k \<and> calm s \<and> contents s = m)"
  "total (\<lambda>s. calm s \<and> contents s = m \<and> fresh s ts) (kv_snapshot_scan K ts a b n)
     (\<lambda>xs s. xs = take (unat n) (range_entries m a b) \<and> calm s \<and> contents s = m)"
  "total (\<lambda>s. calm s \<and> contents s = m) (kv_begin_optimistic K)
     (\<lambda>x s. calm s \<and> contents s = m \<and> pend s x = Some Map.empty)"
  "total (\<lambda>s. calm s \<and> contents s = m) (kv_begin_pessimistic K)
     (\<lambda>x s. calm s \<and> contents s = m \<and> pend s x = Some Map.empty)"
  "total (\<lambda>s. calm s \<and> contents s = m \<and> pend s x = Some w) (kv_txn_get K x k)
     (\<lambda>v s. v = apply_writes w m k \<and> calm s \<and> contents s = m \<and> pend s x = Some w)"
  "total (\<lambda>s. calm s \<and> contents s = m \<and> pend s x = Some w) (kv_txn_put K x k y)
     (\<lambda>_ s. calm s \<and> contents s = m \<and> pend s x = Some (w(k \<mapsto> Some y)))"
  "total (\<lambda>s. calm s \<and> contents s = m \<and> pend s x = Some w) (kv_txn_delete K x k)
     (\<lambda>_ s. calm s \<and> contents s = m \<and> pend s x = Some (w(k \<mapsto> None)))"
  "total (\<lambda>s. calm s \<and> contents s = m \<and> pend s x = Some w) (kv_commit K x)
     (\<lambda>_ s. calm s \<and> contents s = apply_writes w m)"
  unfolding total_def
  subgoal using calm_timestamp timestamp_ok by metis
  subgoal using calm_get get_ok by metis
  subgoal using calm_scan scan_ok by metis
  subgoal using calm_begin(1) begin_ok(1) by metis
  subgoal using calm_begin(2) begin_ok(2) by metis
  subgoal using calm_txn(1) txn_get_ok by metis
  subgoal using calm_txn(2) txn_put_ok by metis
  subgoal using calm_txn(3) txn_delete_ok by metis
  subgoal using calm_txn(4) commit_ok by metis
  done

lemmas kv_total = world_total [THEN total_kv_do(1)]
lemmas kv_total_rec = world_total [THEN total_kv_do(2)]

lemma get_yields [yld]: "yields (live m now) (tc_get K k) (Inr (m k)) (live m now)"
  unfolding tc_get_def client_at_ready
  by (rule yields_bind [OF ready_yields(1)], rule yields_bind [OF ready_yields(2)],
      rule yields_total [OF kv_total_rec(1)],
      rule yields_bind [OF total_yields_step [OF kv_total_rec(2)]],
      rule yields_bind [OF ready_yields(4)], rule yields_ret)

lemma scan_yields [yld]:
  "yields (live m now) (tc_scan K p n) (Inr (take (unat n) (prefix_entries m p))) (live m now)"
  unfolding tc_scan_def client_at_ready prefix_entries_def
  by (rule yields_bind [OF ready_yields(2)], rule yields_total [OF kv_total(1)],
      rule total_yields_step [OF kv_total(3)])

lemma put_yields [yld]: "yields (live m now) (tc_put K k v) (Inr ()) (live (m(k \<mapsto> v)) now)"
  unfolding tc_put_def tc_put_once_def client_at_ready
  by (rule yields_with_retry, rule yields_bind [OF ready_yields(1)],
      rule yields_bind [OF ready_yields(2)], rule yields_total [OF kv_total_rec(4)],
      rule yields_total [OF kv_total_rec(7)], rule yields_total [OF kv_total_rec(9)],
      rule yields_post [OF ready_yields(4)]) (simp add: fun_upd_def)

lemma delete_yields [yld]: "yields (live m now) (tc_delete K k) (Inr ()) (live (m(k := None)) now)"
  unfolding tc_delete_def tc_delete_once_def client_at_ready
  by (rule yields_with_retry, rule yields_bind [OF ready_yields(1)],
      rule yields_bind [OF ready_yields(2)], rule yields_total [OF kv_total_rec(4)],
      rule yields_total [OF kv_total_rec(8)], rule yields_total [OF kv_total_rec(9)],
      rule yields_post [OF ready_yields(4)]) (simp add: fun_upd_def)

lemma puts_total:
  "total (\<lambda>st. (calm (cl_world st) \<and> contents (cl_world st) = m \<and> pend (cl_world st) x = Some w) \<and>
              ready now st)
     (foldM (\<lambda>(k, v) _. kv_do (kv_txn_put K x k v)) pairs u)
     (\<lambda>_ st. (calm (cl_world st) \<and> contents (cl_world st) = m \<and>
              pend (cl_world st) x = Some (writes_of pairs w)) \<and> ready now st)"
proof (induction pairs arbitrary: w u)
  case Nil
  then show ?case by (simp add: total_def writes_of_def)
next
  case (Cons p pairs)
  obtain k v where p: "p = (k, v)" by force
  show ?case
    unfolding p foldM.simps prod.case
    by (rule total_bind [OF kv_total(7)], rule total_post [OF Cons.IH]) (auto simp: writes_of_def fun_upd_def)
qed

lemma batch_put_yields [yld]:
  "yields (live m now) (tc_batch_put K pairs) (Inr ()) (live (m ++ map_of (rev pairs)) now)"
  unfolding tc_batch_put_def tc_batch_put_once_def client_at_ready
  by (rule yields_with_retry, rule yields_bind [OF ready_yields(2)],
      rule yields_total [OF kv_total(4)], rule yields_total [OF puts_total],
      rule total_yields) (use kv_total(9) in \<open>force simp: total_def apply_writes_of\<close>)

lemma commit_ret_yields:
  "yields (\<lambda>st. (calm (cl_world st) \<and> contents (cl_world st) = m \<and> pend (cl_world st) x = Some w) \<and>
             ready now st)
     (bindM (kv_do (kv_commit K x)) (\<lambda>_. ret r)) (Inr r) (live (apply_writes w m) now)"
  unfolding client_at_ready by (rule yields_total [OF kv_total(9)], rule yields_ret)

lemma claim_yields [yld]:
  "yields (live m now) (tc_transactional_claim K wk pk proc)
     (fst (claim_outcome m wk pk proc (m wk))) (live (snd (claim_outcome m wk pk proc (m wk))) now)"
  unfolding tc_transactional_claim_def
proof (subst client_at_ready, rule yields_bind [OF ready_yields(2)], rule yields_total [OF kv_total(5)],
    rule yields_bind [OF total_yields_step [OF kv_total(6)]], goal_cases)
  case (1 x)
  consider "m wk = None" | d e where "m wk = Some d" "proc d = Inl e"
    | d where "m wk = Some d" "proc d = Inr None"
    | d nd where "m wk = Some d" "proc d = Inr (Some nd)"
    by (metis option.exhaust sum.exhaust)
  then show ?case
  proof cases
    case 1
    show ?thesis
      unfolding 1 apply_writes_simps option.case claim_outcome.simps fst_conv snd_conv
      by (rule yields_total [OF kv_total(8)], rule yields_post [OF commit_ret_yields])
         (simp add: fun_upd_def)
  next
    case 2
    then show ?thesis by (auto simp: yields_def client_at_ready)
  next
    case 3
    show ?thesis
      unfolding 3 apply_writes_simps option.case sum.case claim_outcome.simps fst_conv snd_conv
      by (rule yields_post [OF commit_ret_yields]) simp
  next
    case 4
    show ?thesis
      unfolding 4 apply_writes_simps option.case sum.case claim_outcome.simps fst_conv snd_conv
      by (rule yields_total [OF kv_total(7)], rule yields_total [OF kv_total(8)],
          rule yields_post [OF commit_ret_yields]) (simp add: fun_upd_def)
  qed
qed

lemma cas_yields [yld]:
  "yields (live m now) (tc_cas K C k e v)
     (fst (cas_outcome C m k e v)) (live (snd (cas_outcome C m k e v)) now)"
  unfolding tc_cas_def Let_def
proof (subst client_at_ready, rule yields_bind [OF ready_yields(2)], rule yields_total [OF kv_total(5)],
    rule yields_bind [OF total_yields_step [OF kv_total(6)]], goal_cases)
  case (1 x)
  have put: "yields (\<lambda>st. (calm (cl_world st) \<and> contents (cl_world st) = m \<and>
        pend (cl_world st) x = Some Map.empty) \<and> ready now st)
      (bindM (kv_do (kv_txn_put K x k v)) (\<lambda>_. bindM (kv_do (kv_commit K x)) (\<lambda>_. ret True)))
      (Inr True) (live (m(k \<mapsto> v)) now)"
    by (rule yields_total [OF kv_total(7)], rule yields_post [OF commit_ret_yields]) (simp add: fun_upd_def)
  show ?case
  proof (cases "cas_outcome C m k e v = (Inr True, m(k \<mapsto> v))")
    case True
    then have "(case m k of None \<Rightarrow> e = 0 | Some d \<Rightarrow> json_version C d = Some e)" by (simp add: cas_won)
    with True put show ?thesis by (cases "m k") simp_all
  next
    case False
    then show ?thesis
      by (auto simp: cas_outcome_def yields_def client_at_ready split: option.splits if_splits)
  qed
qed

lemma put_record_yields:
  "codec_ok c \<Longrightarrow> yields (live m now) (put_record K c k x) (Inr ()) (live (m(k \<mapsto> enc c x)) now)"
  by (simp add: put_record_def put_yields)

lemma get_record_yields:
  "m k = Some v \<Longrightarrow> de c v = Inr x \<Longrightarrow> yields (live m now) (get_record K c k) (Inr (Some x)) (live m now)"
  unfolding get_record_def
  by (rule yields_bind [OF get_yields]) (simp add: decode_def yields_Pair)

lemma get_record_yields_none:
  "m k = None \<Longrightarrow> yields (live m now) (get_record K c k) (Inr None) (live m now)"
  unfolding get_record_def by (rule yields_bind [OF get_yields]) (simp add: yields_ret)

lemma acquire_body_yields:
  fixes now :: timestamp and owner :: string and ttl :: int
  assumes c: "codec_ok (c_lock C)" and stored: "stored_lock C m resource = Inr cur"
  defines "d \<equiv> lock_decision now resource owner ttl cur"
  shows "yields (\<lambda>st. (calm (cl_world st) \<and> contents (cl_world st) = m \<and>
              pend (cl_world st) x = Some Map.empty) \<and> ready now st)
     (acquire_lock_body K C x resource owner ttl) (Inr (d \<noteq> None))
     (\<lambda>st. (calm (cl_world st) \<and> contents (cl_world st) = m \<and>
        pend (cl_world st) x =
          Some (case d of None \<Rightarrow> Map.empty | Some l \<Rightarrow> [lock_key resource \<mapsto> Some (enc (c_lock C) l)])) \<and>
        ready now st)"
  unfolding acquire_lock_body_def
proof (rule yields_bind [OF total_yields_step [OF kv_total(6)]],
    rule yields_bind [OF ready_yields(3)], goal_cases)
  case 1
  have put: "yields (\<lambda>st. (calm (cl_world st) \<and> contents (cl_world st) = m \<and>
              pend (cl_world st) x = Some Map.empty) \<and> ready now st)
     (put_lock K C x (lock_key resource) l) (Inr True)
     (\<lambda>st. (calm (cl_world st) \<and> contents (cl_world st) = m \<and>
        pend (cl_world st) x = Some [lock_key resource \<mapsto> Some (enc (c_lock C) l)]) \<and> ready now st)" for l
    unfolding put_lock_def encode_ok [OF c] bindM_simps
    by (rule yields_total [OF kv_total(7)], rule yields_ret)
  show ?case
  proof (cases "m (lock_key resource)")
    case None
    with stored put show ?thesis by (auto simp: stored_lock_def d_def)
  next
    case (Some v)
    with stored obtain l where l: "de (c_lock C) v = Inr l" "cur = Some l"
      by (auto simp: stored_lock_def split: sum.splits)
    then show ?thesis
      using Some put [of "lk_extend now ttl l"] put [of "lock_new now resource owner ttl"]
      by (auto simp: decode_def d_def lk_is_owned_by_def lk_is_expired_def yields_ret simp del: ret_simp)
  qed
qed

text \<open>The data after a lock request.\<close>

lemma acquire_yields:
  assumes c: "codec_ok (c_lock C)" and stored: "stored_lock C m resource = Inr cur"
  shows "yields (live m now) (tc_acquire_lock K C resource owner ttl)
     (Inr (lock_decision now resource owner ttl cur \<noteq> None))
     (live (case lock_decision now resource owner ttl cur of None \<Rightarrow> m
            | Some l \<Rightarrow> m(lock_key resource \<mapsto> enc (c_lock C) l)) now)"
  unfolding tc_acquire_lock_def tc_acquire_lock_once_def commit_or_rollback_def
  by (subst client_at_ready, rule yields_with_retry, rule yields_bind [OF ready_yields(2)],
      rule yields_total [OF kv_total(5)], rule yields_handle [OF acquire_body_yields [OF c stored]],
      rule yields_post [OF commit_ret_yields])
     (auto split: option.splits)

end

section \<open>An executable client\<close>

definition demo_client :: "payload mem \<Rightarrow> timestamp \<Rightarrow> payload mem client" where
  "demo_client w now =
     \<lparr> cl_config = default_tikv_config (\<lambda>_. None), cl_connected = True,
       cl_circuit = circuit_new now default_circuit_config, cl_clock = now, cl_world = w \<rparr>"

definition demo_store :: "(key \<times> payload) list \<Rightarrow> fault list \<Rightarrow> payload mem" where
  "demo_store d script = \<lparr> mem_data = d, mem_txns = [], mem_script = script \<rparr>"

lemma demo_client_at:
  "client_at mem_contents mem_calm (map_of d) now (demo_client (demo_store d []) now)"
  by (simp add: client_at_def demo_client_def demo_store_def mem_calm_def mem_contents_def
      circuit_new_def cb_get_state_def cs_from_u8_def)

text \<open>Unfolding these evaluates an operation on a concrete store.\<close>

lemmas run_defs = demo_client_def demo_store_def require_inner_def check_circuit_def record_success_def
  record_failure_def now_utc_def sleep_def kv_do_def kv_do_recorded_def bindM_def handleM_def
  encode_def decode_def mem_codecs_def mem_codec_def mem_defs circuit_new_def cb_get_state_def
  cs_from_u8_def cb_is_call_permitted_def cb_record_success_def

lemmas lock_run_defs = run_defs tc_acquire_lock_once_def commit_or_rollback_def acquire_lock_body_def
  put_lock_def lock_defs

end
