(* ===== verification/Batch_Controller.thy ===== *)
theory Batch_Controller
  imports Client_Logic
begin

text \<open>
  \<open>batch/controller.rs\<close> and \<open>update_phase_index\<close> of \<open>batch/mod.rs\<close>: submission, reconciliation,
  cancellation and queries of batches, and the claim, completion and failure of work units. Keys are
  byte strings, so \<open>from_utf8_lossy\<close> is the identity on them; log statements are omitted. \<open>run\<close> repeats
  \<open>bc_tick\<close> for ever.
\<close>

section \<open>Configuration\<close>

record controller_config =
  bc_reconcile_interval :: int
  bc_max_batches_per_loop :: nat
  bc_max_work_units_per_batch :: nat
  bc_discovery_timeout :: int

definition default_controller_config :: controller_config where
  "default_controller_config =
     \<lparr> bc_reconcile_interval = duration_seconds 5, bc_max_batches_per_loop = 100,
       bc_max_work_units_per_batch = 1000, bc_discovery_timeout = duration_seconds 300 \<rparr>"

record batch_summary =
  bsum_id :: string
  bsum_name :: string
  bsum_namespace :: string
  bsum_phase :: batch_phase
  bsum_files_total :: u32
  bsum_files_completed :: u32
  bsum_files_failed :: u32
  bsum_created_at :: timestamp
  bsum_started_at :: "timestamp option"
  bsum_completed_at :: "timestamp option"

section \<open>Status and phase index\<close>

definition save_status :: "('s, 'v) kv \<Rightarrow> 'v codecs \<Rightarrow> string \<Rightarrow> batch_status \<Rightarrow> ('s, unit) tc" where
  "save_status K C batch_id status = put_record K (c_status C) (status_key batch_id) status"

definition update_phase_index ::
    "('s, 'v) kv \<Rightarrow> 'v codecs \<Rightarrow> string \<Rightarrow> batch_phase \<Rightarrow> batch_phase \<Rightarrow> ('s, unit) tc" where
  "update_phase_index K C batch_id old_phase new_phase =
     (if old_phase = new_phase then ret ()
      else bindM (tc_put K (phase_key new_phase batch_id) (raw_bytes C [])) (\<lambda>_.
           tc_delete K (phase_key old_phase batch_id)))"

definition submit_batch :: "('s, 'v) kv \<Rightarrow> 'v codecs \<Rightarrow> batch_spec \<Rightarrow> ('s, string) tc" where
  "submit_batch K C spec =
     (let batch_id = batch_id_from_spec spec
      in case bs_validate spec of
           Inl e \<Rightarrow> throw (Other (''Validation failed: '' @ display_spec_error e))
         | Inr _ \<Rightarrow>
             bindM now_utc (\<lambda>now.
             bindM (liftR (case ser (c_spec C) spec of
                             Inl e \<Rightarrow> Inl (Serialization (''yaml: '' @ e)) | Inr v \<Rightarrow> Inr v)) (\<lambda>spec_data.
             bindM (liftR (encode (c_status C) (status_new now))) (\<lambda>status_data.
             bindM (tc_batch_put K
                      [(spec_key batch_id, spec_data), (status_key batch_id, status_data),
                       (phase_key Pending batch_id, raw_bytes C [])]) (\<lambda>_.
             ret batch_id)))))"

definition get_batch_status ::
    "('s, 'v) kv \<Rightarrow> 'v codecs \<Rightarrow> string \<Rightarrow> ('s, batch_status option) tc" where
  "get_batch_status K C batch_id = get_record K (c_status C) (status_key batch_id)"

definition get_batch_spec ::
    "('s, 'v) kv \<Rightarrow> 'v codecs \<Rightarrow> string \<Rightarrow> ('s, batch_spec option) tc" where
  "get_batch_spec K C batch_id = get_record K (c_spec C) (spec_key batch_id)"

definition cancel_batch :: "('s, 'v) kv \<Rightarrow> 'v codecs \<Rightarrow> string \<Rightarrow> ('s, bool) tc" where
  "cancel_batch K C batch_id =
     bindM (get_batch_status K C batch_id) (\<lambda>s.
     case s of
       None \<Rightarrow> ret False
     | Some status \<Rightarrow>
         (if \<not> phase_is_active (phase status) \<and> phase status \<noteq> Pending then ret False
          else bindM now_utc (\<lambda>now.
               bindM (save_status K C batch_id (st_transition_to now Cancelled status)) (\<lambda>_.
               bindM (update_phase_index K C batch_id (phase status) Cancelled) (\<lambda>_. ret True)))))"

definition make_summary :: "string \<Rightarrow> batch_spec \<Rightarrow> batch_status \<Rightarrow> batch_summary" where
  "make_summary batch_id spec status =
     \<lparr> bsum_id = batch_id,
       bsum_name = (case md_display_name (bs_metadata spec) of Some n \<Rightarrow> n | None \<Rightarrow> md_name (bs_metadata spec)),
       bsum_namespace = md_namespace (bs_metadata spec), bsum_phase = phase status,
       bsum_files_total = files_total status, bsum_files_completed = files_completed status,
       bsum_files_failed = files_failed status, bsum_created_at = md_created_at (bs_metadata spec),
       bsum_started_at = started_at status, bsum_completed_at = completed_at status \<rparr>"

definition list_batches :: "('s, 'v) kv \<Rightarrow> 'v codecs \<Rightarrow> ('s, batch_summary list) tc" where
  "list_batches K C =
     bindM (tc_scan K specs_prefix 1000) (\<lambda>specs.
     foldM (\<lambda>(k, v) summaries.
       let batch_id = split_last CHR ''/'' k
       in bindM (get_batch_status K C batch_id) (\<lambda>st.
          case st of
            None \<Rightarrow> ret summaries
          | Some status \<Rightarrow>
              bindM (get_batch_spec K C batch_id) (\<lambda>sp.
              case sp of
                None \<Rightarrow> ret summaries
              | Some spec \<Rightarrow> ret (summaries @ [make_summary batch_id spec status])))) specs [])"

section \<open>Reconciliation\<close>

text \<open>What a scan of the work units of a batch adds up to.\<close>

record tally =
  ty_completed :: u32
  ty_failed :: u32
  ty_processing :: u32
  ty_failures :: "failed_work_unit list"

definition tally_zero :: tally where
  "tally_zero = \<lparr> ty_completed = 0, ty_failed = 0, ty_processing = 0, ty_failures = [] \<rparr>"

definition failure_of :: "work_unit \<Rightarrow> failed_work_unit" where
  "failure_of u =
     \<lparr> fw_id = wu_id u,
       fw_source_file = (case wu_files u of f # _ \<Rightarrow> wf_url f | [] \<Rightarrow> ''unknown''),
       fw_error = (case wu_error u of Some e \<Rightarrow> e | None \<Rightarrow> ''Unknown error''),
       fw_retries = wu_attempts u, fw_failed_at = wu_updated_at u \<rparr>"

definition tally_unit :: "work_unit \<Rightarrow> tally \<Rightarrow> tally" where
  "tally_unit u t =
     (case wu_status u of
        WComplete \<Rightarrow> t\<lparr>ty_completed := ty_completed t + 1\<rparr>
      | WFailed \<Rightarrow> t\<lparr>ty_failed := ty_failed t + 1, ty_failures := ty_failures t @ [failure_of u]\<rparr>
      | WDead \<Rightarrow> t\<lparr>ty_failed := ty_failed t + 1, ty_failures := ty_failures t @ [failure_of u]\<rparr>
      | WProcessing \<Rightarrow> t\<lparr>ty_processing := ty_processing t + 1\<rparr>
      | _ \<Rightarrow> t)"

fun tally_scan :: "'v codecs \<Rightarrow> (key \<times> 'v) list \<Rightarrow> tally \<Rightarrow> tally" where
  "tally_scan C [] t = t"
| "tally_scan C ((k, v) # xs) t =
     tally_scan C xs (case de (c_unit C) v of Inr u \<Rightarrow> tally_unit u t | Inl _ \<Rightarrow> t)"

text \<open>The status after the scan: counters, the way back from \<open>Failed\<close>, and the two failure rules.\<close>

definition running_status :: "timestamp \<Rightarrow> batch_spec \<Rightarrow> tally \<Rightarrow> batch_status \<Rightarrow> batch_status" where
  "running_status now spec t status =
     (let scan_total = ty_completed t + ty_failed t + ty_processing t;
          s1 = (if scan_total > 0
                then st_set_files_total now scan_total (st_set_work_units_total now scan_total status)
                else status);
          s2 = s1\<lparr>work_units_completed := ty_completed t, work_units_failed := ty_failed t,
                  work_units_active := ty_processing t, files_completed := ty_completed t,
                  files_failed := ty_failed t, files_active := ty_processing t,
                  failed_work_units := ty_failures t\<rparr>;
          s3 = (if phase s2 = Failed \<and> ty_failed t = 0 \<and> (ty_completed t > 0 \<or> ty_processing t > 0)
                then st_transition_to now Running
                       (s2\<lparr>bst_error := None, failed_work_units := [], completed_at := None\<rparr>)
                else s2)
      in if st_should_fail (js_backoff_limit (bs_spec spec)) s3
           then (st_transition_to now Failed s3)
                  \<lparr>bst_error := Some (''Backoff limit exceeded: '' @ show_nat (unat (work_units_failed s3))
                                     @ '' work units failed'')\<rparr>
         else if st_is_complete s3 \<and> work_units_failed s3 > 0
           then (st_transition_to now Failed s3)
                  \<lparr>bst_error := Some (show_nat (unat (work_units_failed s3)) @ '' of ''
                                     @ show_nat (unat (work_units_total s3)) @ '' work units failed'')\<rparr>
         else s3)"

definition reconcile_running ::
    "('s, 'v) kv \<Rightarrow> 'v codecs \<Rightarrow> batch_spec \<Rightarrow> batch_status \<Rightarrow> ('s, batch_status) tc" where
  "reconcile_running K C spec status =
     bindM (tc_scan K (unit_batch_prefix (batch_id_from_spec spec)) 10000) (\<lambda>work_units.
     bindM now_utc (\<lambda>now. ret (running_status now spec (tally_scan C work_units tally_zero) status)))"

definition discovering_status ::
    "timestamp \<Rightarrow> controller_config \<Rightarrow> batch_spec \<Rightarrow> batch_status \<Rightarrow> batch_status" where
  "discovering_status now cfg spec status =
     (let s1 = (if discovery status = None
                then status\<lparr>discovery := Some (discovery_new (of_nat (length (js_sources (bs_spec spec)))))\<rparr>
                else status);
          age_secs = \<bar>num_seconds (updated_at s1 - now)\<bar>;
          timeout_secs = secs_i64 (bc_discovery_timeout cfg)
      in if age_secs > timeout_secs
           then (st_transition_to now Failed s1)
                  \<lparr>bst_error := Some (''Discovery timeout: exceeded '' @ show_int timeout_secs @ '' seconds'')\<rparr>
         else s1)"

definition pending_status :: "timestamp \<Rightarrow> batch_spec \<Rightarrow> batch_status \<Rightarrow> batch_status" where
  "pending_status now spec status =
     (case bs_validate spec of
        Inl e \<Rightarrow> (st_transition_to now Failed status)
                   \<lparr>bst_error := Some (''Validation failed: '' @ display_spec_error e)\<rparr>
      | Inr _ \<Rightarrow> (st_transition_to now Discovering status)
                   \<lparr>discovery := Some (discovery_new (of_nat (length (js_sources (bs_spec spec)))))\<rparr>)"

definition reconcile_phase ::
    "('s, 'v) kv \<Rightarrow> 'v codecs \<Rightarrow> controller_config \<Rightarrow> batch_spec \<Rightarrow> batch_status \<Rightarrow> ('s, batch_status) tc" where
  "reconcile_phase K C cfg spec status =
     (case phase status of
        Pending \<Rightarrow> bindM now_utc (\<lambda>now. ret (pending_status now spec status))
      | Discovering \<Rightarrow> bindM now_utc (\<lambda>now. ret (discovering_status now cfg spec status))
      | Running \<Rightarrow> reconcile_running K C spec status
      | Failed \<Rightarrow> reconcile_running K C spec status
      | Merging \<Rightarrow> ret status
      | Complete \<Rightarrow> ret status
      | Cancelled \<Rightarrow> ret status
      | Suspending \<Rightarrow> ret status
      | Suspended \<Rightarrow> ret status)"

definition reconcile_batch ::
    "('s, 'v) kv \<Rightarrow> 'v codecs \<Rightarrow> controller_config \<Rightarrow> 'v \<Rightarrow> ('s, unit) tc" where
  "reconcile_batch K C cfg spec_data =
     bindM (liftR (decode (c_spec C) ''batch spec: '' spec_data)) (\<lambda>spec.
     let batch_id = batch_id_from_spec spec
     in bindM (tc_get K (status_key batch_id)) (\<lambda>data.
        bindM now_utc (\<lambda>now.
        bindM (liftR (case data of
                        Some d \<Rightarrow> decode (c_status C) ''batch status: '' d
                      | None \<Rightarrow> Inr (status_new now))) (\<lambda>status.
        if phase status \<in> {Complete, Cancelled} then ret ()
        else bindM (reconcile_phase K C cfg spec status) (\<lambda>new_status.
             bindM (save_status K C batch_id new_status) (\<lambda>_.
             if phase status \<noteq> phase new_status
             then update_phase_index K C batch_id (phase status) (phase new_status)
             else ret ()))))))"

definition reconcile_batch_id ::
    "('s, 'v) kv \<Rightarrow> 'v codecs \<Rightarrow> controller_config \<Rightarrow> string \<Rightarrow> ('s, unit) tc" where
  "reconcile_batch_id K C cfg batch_id =
     bindM (tc_get K (spec_key batch_id)) (\<lambda>data.
     case data of
       None \<Rightarrow> throw (Other (''Spec not found for batch_id '' @ batch_id))
     | Some spec_data \<Rightarrow> reconcile_batch K C cfg spec_data)"

definition active_phases :: "batch_phase list" where
  "active_phases = [Pending, Discovering, Running, Merging, Suspending, Suspended, Failed]"

text \<open>The loop over the phase indexes stops once enough batches were found.\<close>

fun collect_active ::
    "('s, 'v) kv \<Rightarrow> controller_config \<Rightarrow> batch_phase list \<Rightarrow> string list \<Rightarrow> ('s, string list) tc" where
  "collect_active K cfg [] ids = ret ids"
| "collect_active K cfg (p # ps) ids =
     bindM (tc_scan K (phase_prefix p) 1000) (\<lambda>results.
     let ids' = ids @ map (\<lambda>(k, v). split_last CHR ''/'' k) results
     in if length ids' \<ge> bc_max_batches_per_loop cfg then ret ids'
        else collect_active K cfg ps ids')"

definition reconcile_all :: "('s, 'v) kv \<Rightarrow> 'v codecs \<Rightarrow> controller_config \<Rightarrow> ('s, unit) tc" where
  "reconcile_all K C cfg =
     bindM (collect_active K cfg active_phases []) (\<lambda>batch_ids.
     bindM (foldM (\<lambda>batch_id failed.
              bindM (tc_get K (spec_key batch_id)) (\<lambda>data.
              case data of
                None \<Rightarrow> ret failed
              | Some spec_data \<Rightarrow>
                  handleM (reconcile_batch K C cfg spec_data)
                    (\<lambda>_. ret (failed @ [batch_id])) (\<lambda>_. ret failed))) batch_ids []) (\<lambda>failed_batches.
     if failed_batches \<noteq> []
     then throw (Other (''Failed to reconcile '' @ show_nat (length failed_batches) @ '' batch(es): ''
                        @ join_strings '', '' failed_batches))
     else ret ()))"

definition bc_tick :: "('s, 'v) kv \<Rightarrow> 'v codecs \<Rightarrow> controller_config \<Rightarrow> ('s, unit) tc" where
  "bc_tick K C cfg =
     handleM (reconcile_all K C cfg)
       (\<lambda>_. sleep (bc_reconcile_interval cfg)) (\<lambda>_. sleep (bc_reconcile_interval cfg))"

section \<open>Work units\<close>

definition claim_processor ::
    "'v codecs \<Rightarrow> timestamp \<Rightarrow> string \<Rightarrow> 'v \<Rightarrow> string + 'v option" where
  "claim_processor C now worker data =
     (case de (c_unit C) data of
        Inl e \<Rightarrow> Inl e
      | Inr u \<Rightarrow>
          (case wu_claim now worker u of
             Inl _ \<Rightarrow> Inr None
           | Inr u' \<Rightarrow> (case ser (c_unit C) u' of Inl e \<Rightarrow> Inl e | Inr v \<Rightarrow> Inr (Some v))))"

text \<open>The batch and unit identifiers in a pending key.\<close>

definition parse_pending_key :: "key \<Rightarrow> (string \<times> string) option" where
  "parse_pending_key k =
     (case strip_prefix k pending_prefix of
        None \<Rightarrow> None
      | Some s \<Rightarrow> split_once CHR ''/'' (trim_start_char CHR ''/'' s))"

definition claim_work_unit :: "('s, 'v) kv \<Rightarrow> 'v codecs \<Rightarrow> string \<Rightarrow> ('s, work_unit option) tc" where
  "claim_work_unit K C worker =
     bindM (tc_scan K pending_prefix 1) (\<lambda>pending.
     case pending of
       [] \<Rightarrow> ret None
     | (pk, _) # _ \<Rightarrow>
         (case parse_pending_key pk of
            None \<Rightarrow> ret None
          | Some (batch_id, unit_id) \<Rightarrow>
              bindM now_utc (\<lambda>now.
              bindM (tc_transactional_claim K (unit_key batch_id unit_id) pk
                       (claim_processor C now worker)) (\<lambda>result.
              case result of
                None \<Rightarrow> ret None
              | Some data \<Rightarrow>
                  bindM (liftR (decode (c_unit C) ''work unit: '' data)) (\<lambda>u. ret (Some u))))))"

definition complete_work_unit ::
    "('s, 'v) kv \<Rightarrow> 'v codecs \<Rightarrow> string \<Rightarrow> string \<Rightarrow> ('s, bool) tc" where
  "complete_work_unit K C batch_id unit_id =
     bindM (tc_get K (unit_key batch_id unit_id)) (\<lambda>data.
     case data of
       None \<Rightarrow> ret False
     | Some d \<Rightarrow>
         bindM (liftR (decode (c_unit C) [] d)) (\<lambda>u.
         bindM now_utc (\<lambda>now.
         bindM (liftR (encode (c_unit C) (wu_complete now u))) (\<lambda>new_data.
         bindM (tc_put K (unit_key batch_id unit_id) new_data) (\<lambda>_. ret True)))))"

definition fail_work_unit ::
    "('s, 'v) kv \<Rightarrow> 'v codecs \<Rightarrow> string \<Rightarrow> string \<Rightarrow> string \<Rightarrow> ('s, bool) tc" where
  "fail_work_unit K C batch_id unit_id err =
     bindM (tc_get K (unit_key batch_id unit_id)) (\<lambda>data.
     case data of
       None \<Rightarrow> ret False
     | Some d \<Rightarrow>
         bindM (liftR (decode (c_unit C) [] d)) (\<lambda>u0.
         bindM now_utc (\<lambda>now.
         let u = wu_fail now err u0
         in bindM (liftR (encode (c_unit C) u)) (\<lambda>new_data.
            bindM (tc_put K (unit_key batch_id unit_id) new_data) (\<lambda>_.
            if wu_status u = WFailed
            then bindM (tc_put K (pending_key batch_id unit_id) (raw_bytes C batch_id)) (\<lambda>_. ret True)
            else ret True)))))"

end
