(* ===== verification/Controller_Logic.thy ===== *)
theory Controller_Logic
  imports Batch_Controller
begin

text \<open>
  What the batch controller does to the stored data. \<open>batch_stored\<close> is the consistency of a stored batch:
  its spec, its status and exactly the one phase-index entry of its phase. \<open>next_status\<close> is the pure
  function the reconciliation of one batch computes. Successful runs are described in a calm cluster
  (\<open>yields\<close>), atomicity and exclusiveness for stores that may fail.
\<close>

section \<open>Stored batches\<close>

definition index_ok :: "(key \<rightharpoonup> 'v) \<Rightarrow> batch_phase \<Rightarrow> string \<Rightarrow> bool" where
  "index_ok m p b \<longleftrightarrow> (\<forall>q. m (phase_key q b) \<noteq> None \<longleftrightarrow> q = p)"

definition batch_stored ::
    "'v codecs \<Rightarrow> (key \<rightharpoonup> 'v) \<Rightarrow> string \<Rightarrow> batch_spec \<Rightarrow> batch_status \<Rightarrow> bool" where
  "batch_stored C m b spec st \<longleftrightarrow>
     m (spec_key b) = Some (enc (c_spec C) spec) \<and> m (status_key b) = Some (enc (c_status C) st) \<and>
     index_ok m (phase st) b"

definition move_index ::
    "'v codecs \<Rightarrow> string \<Rightarrow> batch_phase \<Rightarrow> batch_phase \<Rightarrow> (key \<rightharpoonup> 'v) \<Rightarrow> (key \<rightharpoonup> 'v)" where
  "move_index C b old new m =
     (if old = new then m
      else (m(phase_key new b \<mapsto> raw_bytes C []))(phase_key old b := None))"

definition store_status ::
    "'v codecs \<Rightarrow> string \<Rightarrow> batch_status \<Rightarrow> batch_status \<Rightarrow> (key \<rightharpoonup> 'v) \<Rightarrow> (key \<rightharpoonup> 'v)" where
  "store_status C b old new m =
     move_index C b (phase old) (phase new) (m(status_key b \<mapsto> enc (c_status C) new))"

lemma store_status_stored:
  "batch_stored C m b spec old \<Longrightarrow> batch_stored C (store_status C b old new m) b spec new"
  by (auto simp: batch_stored_def store_status_def move_index_def index_ok_def)

lemma store_status_other:
  "k \<noteq> status_key b \<Longrightarrow> (\<forall>q. k \<noteq> phase_key q b) \<Longrightarrow> store_status C b old new m k = m k"
  by (auto simp: store_status_def move_index_def)

section \<open>The scan of the work units\<close>

definition scanned_units :: "'v codecs \<Rightarrow> (key \<times> 'v) list \<Rightarrow> work_unit list" where
  "scanned_units C xs = concat (map (\<lambda>(k, v). case de (c_unit C) v of Inr u \<Rightarrow> [u] | Inl _ \<Rightarrow> []) xs)"

definition count_status :: "work_unit_status set \<Rightarrow> work_unit list \<Rightarrow> nat" where
  "count_status S us = length (filter (\<lambda>u. wu_status u \<in> S) us)"

lemma tally_scan_fold: "tally_scan C xs t = fold tally_unit (scanned_units C xs) t"
  by (induction C xs t rule: tally_scan.induct) (auto simp: scanned_units_def split: sum.splits)

lemma tally_fold_counts:
  "ty_completed (fold tally_unit us t) = ty_completed t + of_nat (count_status {WComplete} us)"
  "ty_failed (fold tally_unit us t) = ty_failed t + of_nat (count_status {WFailed, WDead} us)"
  "ty_processing (fold tally_unit us t) = ty_processing t + of_nat (count_status {WProcessing} us)"
  "ty_failures (fold tally_unit us t) =
     ty_failures t @ map failure_of (filter (\<lambda>u. wu_status u \<in> {WFailed, WDead}) us)"
  by (induction us arbitrary: t)
     (auto simp: tally_unit_def count_status_def split: work_unit_status.splits)

text \<open>The scan is limited to 10000 entries, so no counter wraps.\<close>

lemma scanned_length: "length (scanned_units C xs) \<le> length xs"
  by (induction xs) (auto simp: scanned_units_def split: sum.splits)

lemma count_status_le: "count_status S us \<le> length us"
  by (simp add: count_status_def)

lemma count_disjoint_le:
  "count_status {WComplete} us + count_status {WFailed, WDead} us + count_status {WProcessing} us
     + count_status {WPending, WCancelled} us = length us"
  by (induction us) (auto simp: count_status_def, (metis work_unit_status.exhaust)+)

lemma tally_numbers:
  assumes "length xs \<le> 10000"
  shows "unat (ty_completed (tally_scan C xs tally_zero)) = count_status {WComplete} (scanned_units C xs)"
    "unat (ty_failed (tally_scan C xs tally_zero)) = count_status {WFailed, WDead} (scanned_units C xs)"
    "unat (ty_processing (tally_scan C xs tally_zero)) = count_status {WProcessing} (scanned_units C xs)"
    "unat (ty_completed (tally_scan C xs tally_zero) + ty_failed (tally_scan C xs tally_zero)
       + ty_processing (tally_scan C xs tally_zero)) =
     count_status {WComplete} (scanned_units C xs) + count_status {WFailed, WDead} (scanned_units C xs)
       + count_status {WProcessing} (scanned_units C xs)"
proof -
  let ?us = "scanned_units C xs"
  have len: "length ?us \<le> 10000" using scanned_length assms by (rule order.trans)
  have small: "count_status S ?us < 2 ^ 32" for S
    using count_status_le [of S ?us] len by simp
  have sum: "count_status {WComplete} ?us + count_status {WFailed, WDead} ?us
      + count_status {WProcessing} ?us < 2 ^ 32"
    using count_disjoint_le [of ?us] len by simp
  have nat: "unat (of_nat n :: u32) = n" if "n < 2 ^ 32" for n
    using that by (simp add: unat_of_nat)
  show "unat (ty_completed (tally_scan C xs tally_zero)) = count_status {WComplete} ?us"
    "unat (ty_failed (tally_scan C xs tally_zero)) = count_status {WFailed, WDead} ?us"
    "unat (ty_processing (tally_scan C xs tally_zero)) = count_status {WProcessing} ?us"
    by (simp_all add: tally_scan_fold tally_fold_counts tally_zero_def nat [OF small])
  have "(ty_completed (tally_scan C xs tally_zero) + ty_failed (tally_scan C xs tally_zero)
       + ty_processing (tally_scan C xs tally_zero)) =
     of_nat (count_status {WComplete} ?us + count_status {WFailed, WDead} ?us
       + count_status {WProcessing} ?us)"
    by (simp add: tally_scan_fold tally_fold_counts tally_zero_def)
  then show "unat (ty_completed (tally_scan C xs tally_zero) + ty_failed (tally_scan C xs tally_zero)
       + ty_processing (tally_scan C xs tally_zero)) =
     count_status {WComplete} ?us + count_status {WFailed, WDead} ?us + count_status {WProcessing} ?us"
    using nat [OF sum] by simp
qed

section \<open>The reconciliation step as a function\<close>

definition units_scanned :: "'v codecs \<Rightarrow> (key \<rightharpoonup> 'v) \<Rightarrow> string \<Rightarrow> work_unit list" where
  "units_scanned C m b = scanned_units C (take 10000 (prefix_entries m (unit_batch_prefix b)))"

definition next_status ::
    "'v codecs \<Rightarrow> controller_config \<Rightarrow> timestamp \<Rightarrow> batch_spec \<Rightarrow> (key \<rightharpoonup> 'v) \<Rightarrow> batch_status \<Rightarrow>
     batch_status" where
  "next_status C cfg now spec m st =
     (case phase st of
        Pending \<Rightarrow> pending_status now spec st
      | Discovering \<Rightarrow> discovering_status now cfg spec st
      | p \<Rightarrow>
          (if p \<in> {Running, Failed}
           then running_status now spec
                  (tally_scan C (take 10000 (prefix_entries m (unit_batch_prefix (batch_id_from_spec spec))))
                     tally_zero) st
           else st))"

text \<open>The status that \<open>running_status\<close> computes, in terms of the numbers of units.\<close>

lemma running_status_counts:
  assumes "t = tally_scan C xs tally_zero" "length xs \<le> 10000"
  defines "us \<equiv> scanned_units C xs"
  shows "unat (work_units_completed (running_status now spec t st)) = count_status {WComplete} us"
    "unat (work_units_failed (running_status now spec t st)) = count_status {WFailed, WDead} us"
    "unat (work_units_active (running_status now spec t st)) = count_status {WProcessing} us"
  using tally_numbers [OF assms(2), of C] unfolding assms(1) us_def
  by (auto simp: running_status_def Let_def)

lemma running_status_phase:
  assumes t: "t = tally_scan C xs tally_zero" and len: "length xs \<le> 10000"
  defines "us \<equiv> scanned_units C xs"
  shows "phase (running_status now spec t st) =
     (if count_status {WFailed, WDead} us > unat (js_backoff_limit (bs_spec spec)) \<or>
         (count_status {WFailed, WDead} us > 0 \<and> count_status {WProcessing} us = 0)
      then Failed
      else if phase st = Failed \<and> count_status {WFailed, WDead} us = 0 \<and>
         (count_status {WComplete} us > 0 \<or> count_status {WProcessing} us > 0)
      then Running else phase st)"
proof -
  let ?c = "ty_completed t" and ?f = "ty_failed t" and ?p = "ty_processing t"
  note num = tally_numbers [OF len, of C, folded t us_def]
  have f0: "?f = 0 \<longleftrightarrow> count_status {WFailed, WDead} us = 0"
    and c0: "0 < ?c \<longleftrightarrow> 0 < count_status {WComplete} us"
    and p0: "0 < ?p \<longleftrightarrow> 0 < count_status {WProcessing} us"
    and fpos: "0 < ?f \<longleftrightarrow> 0 < count_status {WFailed, WDead} us"
    and tot0: "0 < ?c + ?f + ?p \<longleftrightarrow> 0 < count_status {WComplete} us + count_status {WFailed, WDead} us
        + count_status {WProcessing} us"
    and lim: "js_backoff_limit (bs_spec spec) < ?f \<longleftrightarrow>
        unat (js_backoff_limit (bs_spec spec)) < count_status {WFailed, WDead} us"
    using num by (simp_all only: word_less_nat_alt flip: unat_eq_0 num) (simp_all add: num)
  have all_done: "?p = 0 \<longleftrightarrow> count_status {WProcessing} us = 0"
    using num(3) by (simp flip: unat_eq_0)
  show ?thesis
    by (auto simp: running_status_def Let_def st_should_fail_def st_is_complete_def f0 c0 p0 fpos tot0
        lim all_done)
qed

lemma next_status_transition:
  "phase_can_transition_to (phase st) (phase (next_status C cfg now spec m st)) \<or>
   (phase st = Failed \<and> phase (next_status C cfg now spec m st) = Running)"
proof (cases "phase st")
  case Pending
  then show ?thesis
    by (auto simp: next_status_def pending_status_def phase_can_transition_to_def split: sum.splits)
next
  case Discovering
  then show ?thesis
    by (auto simp: next_status_def discovering_status_def phase_can_transition_to_def Let_def)
next
  case Running
  then show ?thesis
    by (auto simp: next_status_def running_status_phase [OF refl] phase_can_transition_to_def)
next
  case Failed
  then show ?thesis
    by (auto simp: next_status_def running_status_phase [OF refl] phase_can_transition_to_def)
qed (auto simp: next_status_def phase_can_transition_to_def)

section \<open>Runs in a calm cluster\<close>

context reliable_backend
begin

lemma now_yields: "yields (live m now) now_utc (Inr now) (live m now)"
  unfolding client_at_ready by (rule ready_yields(3))

lemma save_status_yields:
  "codecs_ok C \<Longrightarrow>
   yields (live m now) (save_status K C b st) (Inr ()) (live (m(status_key b \<mapsto> enc (c_status C) st)) now)"
  unfolding save_status_def by (rule put_record_yields) auto

lemma update_phase_index_yields:
  "yields (live m now) (update_phase_index K C b old new) (Inr ()) (live (move_index C b old new m) now)"
proof (cases "old = new")
  case True
  then show ?thesis by (simp add: update_phase_index_def move_index_def yields_ret)
next
  case False
  then show ?thesis
    unfolding update_phase_index_def move_index_def
    by (simp only: if_False) (rule yields_bind [OF put_yields delete_yields])
qed

lemma submit_yields:
  assumes "codecs_ok C" "spec_acceptable spec"
  defines "b \<equiv> batch_id_from_spec spec"
  shows "yields (live m now) (submit_batch K C spec) (Inr b)
     (live (m(spec_key b \<mapsto> enc (c_spec C) spec, status_key b \<mapsto> enc (c_status C) (status_new now),
              phase_key Pending b \<mapsto> raw_bytes C [])) now)"
proof -
  have v: "bs_validate spec = Inr ()" using assms(2) by (simp add: bs_validate_Inr)
  have s: "ser (c_spec C) spec = Inr (enc (c_spec C) spec)"
    using assms(1) by (auto intro: codec_ok_enc)
  have e: "encode (c_status C) x = Inr (enc (c_status C) x)" for x
    using assms(1) by (auto intro: encode_ok)
  have eq: "m ++ map_of (rev [(spec_key b, x), (status_key b, y), (phase_key Pending b, z)]) =
      m(spec_key b \<mapsto> x, status_key b \<mapsto> y, phase_key Pending b \<mapsto> z)" for x y z
    by simp
  show ?thesis
    unfolding submit_batch_def Let_def v sum.case s e b_def [symmetric] bindM_simps
    by (rule yields_bind [OF now_yields], rule yields_bind [OF batch_put_yields])
       (simp only: eq yields_ret)
qed

lemma reconcile_phase_yields:
  assumes "codecs_ok C"
  shows "yields (live m now) (reconcile_phase K C cfg spec st)
     (Inr (next_status C cfg now spec m st)) (live m now)"
proof -
  have run: "yields (live m now) (reconcile_running K C spec st)
     (Inr (running_status now spec
        (tally_scan C (take 10000 (prefix_entries m (unit_batch_prefix (batch_id_from_spec spec))))
           tally_zero) st)) (live m now)"
    unfolding reconcile_running_def
    by (rule yields_bind [OF scan_yields], rule yields_bind [OF now_yields])
       (simp add: yields_ret del: ret_simp)
  show ?thesis
    unfolding reconcile_phase_def next_status_def
    by (cases "phase st")
       (auto simp: run intro: yields_ret yields_bind [OF now_yields] simp del: ret_simp)
qed

lemma reconcile_batch_yields:
  assumes C: "codecs_ok C" and stored: "batch_stored C m (batch_id_from_spec spec) spec st"
    and live: "phase st \<notin> {Complete, Cancelled}"
  shows "yields (live m now) (reconcile_batch K C cfg (enc (c_spec C) spec)) (Inr ())
     (live (store_status C (batch_id_from_spec spec) st (next_status C cfg now spec m st) m) now)"
proof -
  let ?b = "batch_id_from_spec spec" and ?st = "next_status C cfg now spec m st"
  have d: "decode (c_spec C) w (enc (c_spec C) spec) = Inr spec"
    "decode (c_status C) w (enc (c_status C) st) = Inr st" for w
    using C by (auto intro: decode_ok)
  have s: "m (status_key ?b) = Some (enc (c_status C) st)"
    using stored by (simp add: batch_stored_def)
  have idx: "yields (live (m(status_key ?b \<mapsto> enc (c_status C) ?st)) now)
      (if phase st \<noteq> phase ?st then update_phase_index K C ?b (phase st) (phase ?st) else ret ())
      (Inr ()) (live (store_status C ?b st ?st m) now)"
  proof -
    have "(if p \<noteq> q then update_phase_index K C ?b p q else ret ()) = update_phase_index K C ?b p q"
      for p q by (simp add: update_phase_index_def)
    then show ?thesis unfolding store_status_def by (simp only: update_phase_index_yields)
  qed
  show ?thesis
    unfolding reconcile_batch_def d bindM_simps Let_def
    by (rule yields_bind [OF get_yields], rule yields_bind [OF now_yields])
       (simp only: s option.case d bindM_simps live if_False, rule yields_bind [OF reconcile_phase_yields [OF C]],
        rule yields_bind [OF save_status_yields [OF C]], rule idx)
qed

lemma cancel_yields:
  assumes C: "codecs_ok C" and s: "m (status_key b) = Some (enc (c_status C) st)"
  shows "yields (live m now) (cancel_batch K C b)
     (Inr (phase st \<in> {Pending, Discovering, Running, Merging}))
     (live (if phase st \<in> {Pending, Discovering, Running, Merging}
            then store_status C b st (st_transition_to now Cancelled st) m else m) now)"
proof -
  have g: "yields (live m now) (get_batch_status K C b) (Inr (Some st)) (live m now)"
    unfolding get_batch_status_def
    by (rule get_record_yields [where m = m and k = "status_key b", OF s])
       (use C in \<open>auto intro: codec_ok_enc\<close>)
  have cond: "\<not> phase_is_active (phase st) \<and> phase st \<noteq> Pending \<longleftrightarrow>
      phase st \<notin> {Pending, Discovering, Running, Merging}"
    by (auto simp: phase_is_active_def)
  show ?thesis
    unfolding cancel_batch_def
    by (rule yields_bind [OF g])
       (auto simp: cond store_status_def simp del: ret_simp
          intro!: yields_ret yields_bind [OF now_yields] yields_bind [OF save_status_yields [OF C]]
            yields_bind [OF update_phase_index_yields])
qed

end

text \<open>The reconciliation of a stored batch in a calm cluster.\<close>

lemma reconcile_id_runs:
  fixes cfg :: controller_config
  assumes rel: "reliable_backend K contents fresh pend calm" and C: "codecs_ok C"
    and stored: "batch_stored C m (batch_id_from_spec spec) spec s"
    and unfinished: "phase s \<notin> {Complete, Cancelled}"
    and st: "client_at contents calm m now st"
  shows "\<exists>st'. reconcile_batch_id K C cfg (batch_id_from_spec spec) st = (Inr (), st') \<and>
    contents (cl_world st') = store_status C (batch_id_from_spec spec) s (next_status C cfg now spec m s) m"
proof -
  let ?b = "batch_id_from_spec spec"
  have spec: "m (spec_key ?b) = Some (enc (c_spec C) spec)"
    using stored by (simp add: batch_stored_def)
  obtain st1 where 1: "tc_get K (spec_key ?b) st = (Inr (m (spec_key ?b)), st1)"
    "client_at contents calm m now st1"
    using yieldsD [OF reliable_backend.get_yields [OF rel] st] by blast
  obtain st2 where 2: "reconcile_batch K C cfg (enc (c_spec C) spec) st1 = (Inr (), st2)"
    "client_at contents calm (store_status C ?b s (next_status C cfg now spec m s) m) now st2"
    using yieldsD [OF reliable_backend.reconcile_batch_yields [OF rel C stored unfinished] 1(2)] by blast
  have "reconcile_batch_id K C cfg ?b st = (Inr (), st2)"
    using 1(1) 2(1) spec by (simp add: reconcile_batch_id_def
        bindM_apply_Inr [where m = "tc_get K (spec_key ?b)" and s = st, OF 1(1)])
  with 2(2) show ?thesis by (auto simp: client_at_def)
qed

section \<open>Properties\<close>

definition demo_spec :: batch_spec where
  "demo_spec = batch_spec_new 0 ''b'' [''s3://in/a.bag''] ''s3://out/b''"

lemma demo_spec_acceptable: "spec_acceptable demo_spec"
  by (simp add: demo_spec_def batch_spec_new_def spec_acceptable_def url_scheme_ok_def)

lemma demo_spec_id: "batch_id_from_spec demo_spec = ''jobs:b''"
  by (simp add: demo_spec_def batch_spec_new_def batch_id_from_spec_def)

definition demo_batch :: "(key \<times> payload) list" where
  "demo_batch = [(spec_key ''jobs:b'', PSpec demo_spec), (status_key ''jobs:b'', PStatus (status_new 0)),
     (phase_key Pending ''jobs:b'', PRaw [])]"

lemma demo_batch_stored: "batch_stored mem_codecs (map_of demo_batch) ''jobs:b'' demo_spec (status_new 0)"
  by (auto simp: batch_stored_def demo_batch_def index_ok_def enc_def mem_codecs_def mem_codec_def
      status_new_def)

text \<open>C1: submission is all or nothing. Over a store whose calls may fail and be retried, whatever
  \<open>submit_batch\<close> returns, the data either is unchanged or has exactly the spec, a fresh status and the
  pending index entry added; when it returns the batch id, all three are there, and a spec that fails
  validation writes nothing.\<close>

theorem submit_atomic:
  assumes backend: "tikv_backend K contents fresh pend" and C: "codecs_ok C"
    and run: "submit_batch K C spec st = (r, st')"
  defines "m \<equiv> contents (cl_world st)" and "b \<equiv> batch_id_from_spec spec"
  defines "m' \<equiv> m(spec_key b \<mapsto> enc (c_spec C) spec,
                  status_key b \<mapsto> enc (c_status C) (status_new (cl_clock st)),
                  phase_key Pending b \<mapsto> raw_bytes C [])"
  shows "(contents (cl_world st') = m \<or> contents (cl_world st') = m') \<and>
    (r = Inr b \<longrightarrow> contents (cl_world st') = m') \<and>
    (\<not> spec_acceptable spec \<longrightarrow> contents (cl_world st') = m \<and> (\<exists>e. r = Inl (Other e)))"
proof (cases "spec_acceptable spec")
  case False
  then obtain e where "bs_validate spec = Inl e"
    using bs_validate_Inr by (cases "bs_validate spec") auto
  with run False show ?thesis by (auto simp: submit_batch_def m_def b_def)
next
  case True
  have v: "bs_validate spec = Inr ()" using True by (simp add: bs_validate_Inr)
  have s: "ser (c_spec C) spec = Inr (enc (c_spec C) spec)"
    using C by (auto intro: codec_ok_enc)
  have e: "encode (c_status C) x = Inr (enc (c_status C) x)" for x
    using C by (auto intro: encode_ok)
  have eq: "m ++ map_of (rev [(spec_key b, x), (status_key b, y), (phase_key Pending b, z)]) =
      m(spec_key b \<mapsto> x, status_key b \<mapsto> y, phase_key Pending b \<mapsto> z)" for x y z
    by simp
  have pre: "data_at contents m st" by (simp add: data_at_def m_def)
  let ?pairs = "[(spec_key b, enc (c_spec C) spec),
     (status_key b, enc (c_status C) (status_new (cl_clock st))), (phase_key Pending b, raw_bytes C [])]"
  have run': "bindM (tc_batch_put K ?pairs) (\<lambda>_. ret b) st = (r, st')"
    using run unfolding submit_batch_def Let_def v sum.case s e b_def [symmetric] bindM_simps
    by (simp add: now_utc_def)
  show ?thesis
  proof (cases r)
    case (Inl x)
    with run' have "tc_batch_put K ?pairs st = (Inl x, st')" by (auto simp: prog_iffs)
    from valid_Inl [OF tikv_backend.batch_put_valid [OF backend] pre this] True Inl show ?thesis
      unfolding m'_def by (auto simp: data_at_def simp del: fun_upd_apply)
  next
    case (Inr x)
    with run' have "tc_batch_put K ?pairs st = (Inr (), st')" by (auto simp: prog_iffs)
    from valid_Inr [OF tikv_backend.batch_put_valid [OF backend] pre this] True show ?thesis
      unfolding m'_def by (auto simp: data_at_def simp del: fun_upd_apply)
  qed
qed

theorem submit_atomic_witness:
  "let st = demo_client (demo_store [] [NoFault, NoFault, NoFault, NoFault, FailAfter ''timeout'']) 0;
       m' = mem_contents (cl_world (snd (submit_batch mem_kv mem_codecs demo_spec st)))
   in m' = Map.empty \<or> m' (spec_key ''jobs:b'') = Some (enc (c_spec mem_codecs) demo_spec)"
  using submit_atomic [OF mem.tikv_backend_axioms mem_codecs_ok prod.collapse [symmetric],
      of demo_spec "demo_client (demo_store [] [NoFault, NoFault, NoFault, NoFault, FailAfter ''timeout'']) 0"]
  by (auto simp: Let_def demo_spec_id demo_client_def demo_store_def mem_contents_def)

text \<open>a submitted batch can be read back. In a calm cluster the submission of an acceptable spec
  returns the id \<open>namespace:name\<close>; the status then read is the fresh pending one, the spec read is the one
  submitted, and the batch is stored consistently with its single index entry.\<close>

theorem submit_then_query:
  assumes rel: "reliable_backend K contents fresh pend calm" and C: "codecs_ok C"
    and ok: "spec_acceptable spec" and st: "client_at contents calm m now st"
    and new: "\<forall>q. m (phase_key q (batch_id_from_spec spec)) = None"
  defines "b \<equiv> batch_id_from_spec spec"
  shows "\<exists>st1 st2 st3. submit_batch K C spec st = (Inr b, st1) \<and>
    get_batch_status K C b st1 = (Inr (Some (status_new now)), st2) \<and>
    get_batch_spec K C b st2 = (Inr (Some spec), st3) \<and>
    batch_stored C (contents (cl_world st3)) b spec (status_new now)"
proof -
  let ?m = "m(spec_key b \<mapsto> enc (c_spec C) spec, status_key b \<mapsto> enc (c_status C) (status_new now),
              phase_key Pending b \<mapsto> raw_bytes C [])"
  obtain st1 where 1: "submit_batch K C spec st = (Inr b, st1)" "client_at contents calm ?m now st1"
    using yieldsD [OF reliable_backend.submit_yields [OF rel C ok] st] unfolding b_def by blast
  have s: "?m (status_key b) = Some (enc (c_status C) (status_new now))"
    "?m (spec_key b) = Some (enc (c_spec C) spec)" by simp_all
  have d: "de (c_status C) (enc (c_status C) (status_new now)) = Inr (status_new now)"
    "de (c_spec C) (enc (c_spec C) spec) = Inr spec"
    using C by (auto intro: codec_ok_enc)
  note get = reliable_backend.get_record_yields [OF rel, where m = ?m]
  obtain st2 where 2: "get_batch_status K C b st1 = (Inr (Some (status_new now)), st2)"
    "client_at contents calm ?m now st2"
    unfolding get_batch_status_def
    using yieldsD [OF get [where k = "status_key b", OF s(1) d(1)] 1(2)] by blast
  obtain st3 where 3: "get_batch_spec K C b st2 = (Inr (Some spec), st3)"
    "client_at contents calm ?m now st3"
    unfolding get_batch_spec_def
    using yieldsD [OF get [where k = "spec_key b", OF s(2) d(2)] 2(2)] by blast
  have "batch_stored C ?m b spec (status_new now)"
    using new by (auto simp: batch_stored_def index_ok_def status_new_def b_def)
  moreover have "contents (cl_world st3) = ?m" using 3(2) by (simp add: client_at_def)
  ultimately have "batch_stored C (contents (cl_world st3)) b spec (status_new now)" by (simp only:)
  with 1(1) 2(1) 3(1) show ?thesis by blast
qed

theorem submit_then_query_witness:
  "\<exists>st1 st2. submit_batch mem_kv mem_codecs demo_spec (demo_client (demo_store [] []) 7) = (Inr ''jobs:b'', st1) \<and>
     get_batch_status mem_kv mem_codecs ''jobs:b'' st1 = (Inr (Some (status_new 7)), st2)"
  using submit_then_query [OF mem.reliable_backend_axioms mem_codecs_ok demo_spec_acceptable
      demo_client_at [of "[]" 7]]
  by (auto simp: demo_spec_id)

text \<open>C2: one reconciliation keeps a batch consistent and drives its phase machine. In a calm cluster the
  reconciliation of a batch that is stored consistently and not finished succeeds, writes the status that
  \<open>next_status\<close> computes and keeps spec, status and the single phase-index entry consistent; nothing
  outside the batch's own status and index keys changes. The phase moves along the transition table, with
  the one exception of the way back from \<open>Failed\<close> to \<open>Running\<close>.\<close>

theorem reconcile_keeps_batch:
  fixes cfg :: controller_config
  assumes rel: "reliable_backend K contents fresh pend calm" and C: "codecs_ok C"
    and stored: "batch_stored C m (batch_id_from_spec spec) spec s"
    and unfinished: "phase s \<notin> {Complete, Cancelled}"
    and st: "client_at contents calm m now st"
  defines "b \<equiv> batch_id_from_spec spec" and "s' \<equiv> next_status C cfg now spec m s"
  shows "\<exists>st'. reconcile_batch_id K C cfg b st = (Inr (), st') \<and>
    batch_stored C (contents (cl_world st')) b spec s' \<and>
    (\<forall>k. k \<noteq> status_key b \<longrightarrow> (\<forall>q. k \<noteq> phase_key q b) \<longrightarrow> contents (cl_world st') k = m k) \<and>
    (phase_can_transition_to (phase s) (phase s') \<or> (phase s = Failed \<and> phase s' = Running))"
proof -
  from reconcile_id_runs [OF rel C stored unfinished st, where cfg = cfg, folded b_def s'_def] obtain st2 where
    "reconcile_batch_id K C cfg b st = (Inr (), st2)" "contents (cl_world st2) = store_status C b s s' m"
    by blast
  then show ?thesis
    using store_status_stored [OF stored [folded b_def]] store_status_other [of _ b C s s' m]
      next_status_transition [of s C cfg now spec m, folded s'_def] by auto
qed

theorem reconcile_keeps_batch_witness:
  "\<exists>st'. reconcile_batch_id mem_kv mem_codecs default_controller_config ''jobs:b''
      (demo_client (demo_store demo_batch []) 7) = (Inr (), st') \<and>
    batch_stored mem_codecs (mem_contents (cl_world st')) ''jobs:b'' demo_spec
      (pending_status 7 demo_spec (status_new 0))"
  using reconcile_keeps_batch [OF mem.reliable_backend_axioms mem_codecs_ok
      demo_batch_stored [folded demo_spec_id] _ demo_client_at [of demo_batch 7],
      where cfg = default_controller_config]
  by (auto simp: demo_spec_id next_status_def status_new_def)

text \<open>cancelling. In a calm cluster \<open>cancel_batch\<close> cancels a stored batch exactly in the phases
  pending, discovering, running and merging, keeps it consistent with its index, and otherwise returns
  false and changes nothing.\<close>

theorem cancel_keeps_batch:
  assumes rel: "reliable_backend K contents fresh pend calm" and C: "codecs_ok C"
    and stored: "batch_stored C m b spec s" and st: "client_at contents calm m now st"
  shows "\<exists>st'. cancel_batch K C b st = (Inr (phase s \<in> {Pending, Discovering, Running, Merging}), st') \<and>
    (if phase s \<in> {Pending, Discovering, Running, Merging}
     then batch_stored C (contents (cl_world st')) b spec (st_transition_to now Cancelled s)
     else contents (cl_world st') = m)"
proof -
  have s: "m (status_key b) = Some (enc (c_status C) s)" using stored by (simp add: batch_stored_def)
  from yieldsD [OF reliable_backend.cancel_yields [where m = m, OF rel C s] st] store_status_stored [OF stored]
  show ?thesis by (auto simp: client_at_def)
qed

theorem cancel_keeps_batch_witness:
  "\<exists>st'. cancel_batch mem_kv mem_codecs ''jobs:b'' (demo_client (demo_store demo_batch []) 7) = (Inr True, st') \<and>
    batch_stored mem_codecs (mem_contents (cl_world st')) ''jobs:b'' demo_spec
      (st_transition_to 7 Cancelled (status_new 0))"
  using cancel_keeps_batch [OF mem.reliable_backend_axioms mem_codecs_ok demo_batch_stored
      demo_client_at [of demo_batch 7]]
  by (simp add: status_new_def)

text \<open>C9: when a running batch fails. In a calm cluster the reconciliation of a running batch stores a status whose counters are
  the numbers of completed, of failed or dead, and of processing units that its scan finds: the readable ones among the first
  10000 whose key starts with the unit prefix of the batch, which has no slash at its end, so that units of batches whose
  identifier extends this one are counted too. The stored phase is failed exactly when these failures exceed the backoff
  limit, or there is a failure and no unit is being processed, and running otherwise. Pending units are not counted, so a
  batch can fail while some are waiting.\<close>

theorem running_batch_outcome:
  fixes cfg :: controller_config
  assumes rel: "reliable_backend K contents fresh pend calm" and C: "codecs_ok C"
    and stored: "batch_stored C m (batch_id_from_spec spec) spec s" and running: "phase s = Running"
    and st: "client_at contents calm m now st"
  defines "b \<equiv> batch_id_from_spec spec" and "us \<equiv> units_scanned C m (batch_id_from_spec spec)"
  shows "\<exists>st' s'. reconcile_batch_id K C cfg b st = (Inr (), st') \<and>
      contents (cl_world st') (status_key b) = Some (enc (c_status C) s') \<and>
      unat (work_units_completed s') = count_status {WComplete} us \<and>
      unat (work_units_failed s') = count_status {WFailed, WDead} us \<and>
      unat (work_units_active s') = count_status {WProcessing} us \<and>
      phase s' = (if count_status {WFailed, WDead} us > unat (js_backoff_limit (bs_spec spec)) \<or>
                     (count_status {WFailed, WDead} us > 0 \<and> count_status {WProcessing} us = 0)
                  then Failed else Running)"
proof -
  have len: "length (take 10000 (prefix_entries m (unit_batch_prefix (batch_id_from_spec spec)))) \<le> 10000"
    by simp
  let ?s = "next_status C cfg now spec m s"
  have unfinished: "phase s \<notin> {Complete, Cancelled}" using running by simp
  from reconcile_id_runs [OF rel C stored unfinished st, where cfg = cfg, folded b_def] obtain st' where
    st': "reconcile_batch_id K C cfg b st = (Inr (), st')" "contents (cl_world st') = store_status C b s ?s m"
    by blast
  have "batch_stored C (contents (cl_world st')) b spec ?s"
    using store_status_stored [OF stored [folded b_def]] st'(2) by simp
  then have "contents (cl_world st') (status_key b) = Some (enc (c_status C) ?s)" by (simp add: batch_stored_def)
  moreover have "unat (work_units_completed ?s) = count_status {WComplete} us"
    "unat (work_units_failed ?s) = count_status {WFailed, WDead} us"
    "unat (work_units_active ?s) = count_status {WProcessing} us"
    "phase ?s = (if count_status {WFailed, WDead} us > unat (js_backoff_limit (bs_spec spec)) \<or>
       (count_status {WFailed, WDead} us > 0 \<and> count_status {WProcessing} us = 0) then Failed else Running)"
    unfolding units_scanned_def us_def next_status_def running
    using running running_status_counts [OF refl len] running_status_phase [OF refl len]
    by simp_all
  ultimately show ?thesis using st'(1) by blast
qed

text \<open>A running batch with a pending unit, and a failed unit of the batch \<open>jobs:b2\<close>, which fails the first one.\<close>

definition demo_units :: "(key \<times> payload) list" where
  "demo_units =
     [(unit_key ''jobs:b2'' ''u2'', PUnit (wu_fail 3 ''boom'' (work_unit_with_id 0 ''u2'' ''jobs:b2'' [] [] []))),
      (unit_key ''jobs:b'' ''u1'', PUnit (work_unit_with_id 0 ''u1'' ''jobs:b'' [] [] [])),
      (spec_key ''jobs:b'', PSpec demo_spec), (status_key ''jobs:b'', PStatus (status_with_phase 0 Running)),
      (phase_key Running ''jobs:b'', PRaw [])]"

lemma demo_units_scanned:
  "units_scanned mem_codecs (map_of demo_units) ''jobs:b'' =
     [work_unit_with_id 0 ''u1'' ''jobs:b'' [] [] [], wu_fail 3 ''boom'' (work_unit_with_id 0 ''u2'' ''jobs:b2'' [] [] [])]"
  unfolding units_scanned_def prefix_entries_def mem_scan_entries [symmetric]
  by (simp add: demo_units_def key_forms scan_end_def scanned_units_def mem_codecs_def mem_codec_def)

lemma demo_units_stored: "batch_stored mem_codecs (map_of demo_units) ''jobs:b'' demo_spec (status_with_phase 0 Running)"
  by (auto simp: batch_stored_def demo_units_def index_ok_def enc_def mem_codecs_def mem_codec_def status_with_phase_def)

theorem running_batch_outcome_witness:
  "\<exists>st' s'. reconcile_batch_id mem_kv mem_codecs default_controller_config ''jobs:b''
      (demo_client (demo_store demo_units []) 5) = (Inr (), st') \<and>
    mem_contents (cl_world st') (status_key ''jobs:b'') = Some (enc (c_status mem_codecs) s') \<and>
    phase s' = Failed \<and> unat (work_units_failed s') = 1"
proof -
  have fails: "count_status {WFailed, WDead} (units_scanned mem_codecs (map_of demo_units) ''jobs:b'') = 1"
    "count_status {WProcessing} (units_scanned mem_codecs (map_of demo_units) ''jobs:b'') = 0"
    by (simp_all add: demo_units_scanned count_status_def wu_fail_def work_unit_with_id_def default_max_attempts_def)
  from running_batch_outcome [OF mem.reliable_backend_axioms mem_codecs_ok demo_units_stored [folded demo_spec_id] _
      demo_client_at [of demo_units 5], where cfg = default_controller_config] fails
  show ?thesis by (auto simp: demo_spec_id status_with_phase_def)
qed

end
