(* ===== verification/Work_Claims.thy ===== *)
theory Work_Claims
  imports Controller_Logic
begin

text \<open>
  The protocol by which workers share work units (\<open>claim_work_unit\<close>, \<open>complete_work_unit\<close>,
  \<open>fail_work_unit\<close> of \<open>batch/controller.rs\<close>) over a store whose calls may fail. \<open>work_step\<close> runs
  the operations of any number of workers one at a time, in any order, with the creation of units, other writes and the passing
  of time; \<open>work_inv\<close> relates what the workers hold to the stored units. Operations that overlap are the subject of the theory
  \<open>Overlap\<close>.
\<close>

section \<open>Pending keys\<close>

lemma parse_pending_key_ok:
  "b \<noteq> [] \<Longrightarrow> CHR ''/'' \<notin> set b \<Longrightarrow> parse_pending_key (pending_key b i) = Some (b, i)"
proof -
  assume "b \<noteq> []" "CHR ''/'' \<notin> set b"
  then have "trim_start_char CHR ''/'' (CHR ''/'' # b @ CHR ''/'' # i) = b @ CHR ''/'' # i"
    by (cases b) (auto simp: trim_start_char_def)
  moreover have "pending_key b i = pending_prefix @ CHR ''/'' # b @ CHR ''/'' # i"
    by (simp add: key_forms)
  ultimately show ?thesis
    using \<open>CHR ''/'' \<notin> set b\<close> by (simp add: parse_pending_key_def)
qed

lemma parse_pending_key_not_unit: "parse_pending_key k = Some r \<Longrightarrow> k \<noteq> unit_key b i"
  by (auto simp: parse_pending_key_def strip_prefix_def key_forms prefix_def split: if_splits)

text \<open>Identifiers without a slash can be read back from a unit key.\<close>

lemma unit_key_slash_free:
  assumes "unit_key c j = unit_key b i" "CHR ''/'' \<notin> set b" "CHR ''/'' \<notin> set i"
  shows "c = b \<and> j = i"
proof -
  have eq: "c @ CHR ''/'' # j = b @ CHR ''/'' # i" using assms(1) by (simp add: key_forms)
  have "length (filter (\<lambda>x. x = CHR ''/'') (c @ CHR ''/'' # j)) = 1"
    unfolding eq using assms(2,3) by (simp add: filter_empty_conv) (metis filter_False length_0_conv)
  then have "filter (\<lambda>x. x = CHR ''/'') c = []" by simp
  then have "CHR ''/'' \<notin> set c" by (auto simp: filter_empty_conv)
  with eq assms(2) show ?thesis by (simp add: append_sep_inj)
qed

section \<open>Effects on the data\<close>

text \<open>One unit was changed by \<open>f\<close>.\<close>

definition unit_changed ::
    "'v codecs \<Rightarrow> (work_unit \<Rightarrow> work_unit) \<Rightarrow> string \<Rightarrow> string \<Rightarrow> (key \<rightharpoonup> 'v) \<Rightarrow> (key \<rightharpoonup> 'v) \<Rightarrow> bool" where
  "unit_changed C f b i m m' \<longleftrightarrow>
     (\<exists>v u v'. m (unit_key b i) = Some v \<and> de (c_unit C) v = Inr u \<and> ser (c_unit C) (f u) = Inr v' \<and>
        m' = m(unit_key b i \<mapsto> v'))"

text \<open>The unit was failed and, when it may be retried, put back into the pending queue.\<close>

definition unit_failed ::
    "'v codecs \<Rightarrow> timestamp \<Rightarrow> string \<Rightarrow> string \<Rightarrow> string \<Rightarrow> (key \<rightharpoonup> 'v) \<Rightarrow> (key \<rightharpoonup> 'v) \<Rightarrow> bool" where
  "unit_failed C now err b i m m' \<longleftrightarrow>
     (\<exists>v u v'. m (unit_key b i) = Some v \<and> de (c_unit C) v = Inr u \<and>
        ser (c_unit C) (wu_fail now err u) = Inr v' \<and>
        m' = (if wu_status (wu_fail now err u) = WFailed
              then m(unit_key b i \<mapsto> v', pending_key b i \<mapsto> raw_bytes C b)
              else m(unit_key b i \<mapsto> v')))"

definition claimed ::
    "'v codecs \<Rightarrow> timestamp \<Rightarrow> string \<Rightarrow> (key \<rightharpoonup> 'v) \<Rightarrow> work_unit \<Rightarrow> (key \<rightharpoonup> 'v) \<Rightarrow> bool" where
  "claimed C now worker m u m' \<longleftrightarrow>
     (\<exists>pk b i v u0 v'. m pk \<noteq> None \<and> parse_pending_key pk = Some (b, i) \<and>
        m (unit_key b i) = Some v \<and> de (c_unit C) v = Inr u0 \<and> wu_claim now worker u0 = Inr u \<and>
        ser (c_unit C) u = Inr v' \<and> m' = m(unit_key b i \<mapsto> v', pk := None))"

text \<open>Keys under the pending prefix that parse; deleting one is the cleanup of a stale entry.\<close>

definition dropped_pending :: "(key \<rightharpoonup> 'v) \<Rightarrow> (key \<rightharpoonup> 'v) \<Rightarrow> bool" where
  "dropped_pending m m' \<longleftrightarrow> (\<exists>pk r. parse_pending_key pk = Some r \<and> m' = m(pk := None))"

lemma claim_outcome_cases:
  assumes "claim_outcome m (unit_key b i) pk (claim_processor C now w) (m (unit_key b i)) = (r, m')"
    and "m pk \<noteq> None" "parse_pending_key pk = Some (b, i)"
  shows "(m' = m \<and> (\<forall>v. r \<noteq> Inr (Some v))) \<or> (dropped_pending m m' \<and> (\<forall>v. r \<noteq> Inr (Some v))) \<or>
     (\<exists>u v. claimed C now w m u m' \<and> r = Inr (Some v) \<and> ser (c_unit C) u = Inr v)"
proof (cases "m (unit_key b i)")
  case None
  with assms show ?thesis by (auto simp: dropped_pending_def)
next
  case (Some v)
  show ?thesis
  proof (cases "claim_processor C now w v")
    case (Inl e)
    with assms Some show ?thesis by auto
  next
    case (Inr x)
    show ?thesis
    proof (cases x)
      case None
      with assms Some Inr show ?thesis by auto
    next
      case (Some nd)
      with Inr obtain u0 u where "de (c_unit C) v = Inr u0" "wu_claim now w u0 = Inr u"
        "ser (c_unit C) u = Inr nd"
        by (auto simp: claim_processor_def split: sum.splits)
      moreover from Some Inr assms(1) \<open>m (unit_key b i) = Some v\<close>
      have "r = Inr (Some nd)" "m' = m(unit_key b i \<mapsto> nd, pk := None)" by auto
      ultimately show ?thesis
        unfolding claimed_def using assms(2,3) \<open>m (unit_key b i) = Some v\<close> by blast
    qed
  qed
qed

lemma prefix_entries_mem: "finite (dom m) \<Longrightarrow> (k, v) \<in> set (prefix_entries m p) \<Longrightarrow> m k = Some v"
  by (simp add: set_prefix_entries)

context tikv_backend
begin

text \<open>A claim that returns a unit has claimed it; any other ending left the data alone, dropped a pending
  entry, or (a commit that failed after being applied) claimed a unit nobody was told of.\<close>

lemma claim_at_valid:
  assumes "m pk \<noteq> None" "parse_pending_key pk = Some (b, i)"
  shows "valid (holds m)
    (bindM (tc_transactional_claim K (unit_key b i) pk (claim_processor C now w)) (\<lambda>result.
       case result of
         None \<Rightarrow> ret None
       | Some data \<Rightarrow> bindM (liftR (decode (c_unit C) ''work unit: '' data)) (\<lambda>u. ret (Some u))))
    (\<lambda>r st. case r of
       Some u \<Rightarrow> \<exists>u'. claimed C now w m u' (contents (cl_world st)) \<and>
                   (\<exists>v. ser (c_unit C) u' = Inr v \<and> de (c_unit C) v = Inr u)
     | None \<Rightarrow> holds m st \<or> dropped_pending m (contents (cl_world st)))
    (\<lambda>_ st. holds m st \<or> dropped_pending m (contents (cl_world st)) \<or>
       (\<exists>u. claimed C now w m u (contents (cl_world st))))"
proof (rule valid_seq [OF claim_valid [of m]], goal_cases)
  case (1 result)
  show ?case
    by (rule validI)
       (auto dest!: claim_outcome_cases [where m = m and pk = pk, OF _ assms] simp: prog_iffs decode_def data_at_def
          split: option.splits sum.splits)
next
  case (2 e s)
  then show ?case
    using claim_outcome_cases [where m = m and pk = pk, OF prod.collapse [symmetric] assms, of C now w]
    by (auto simp: data_at_def)
qed

lemma claim_work_unit_valid:
  "valid (\<lambda>st. holds m st \<and> cl_clock st = now) (claim_work_unit K C w)
     (\<lambda>r st. case r of
        Some u \<Rightarrow> \<exists>u'. claimed C now w m u' (contents (cl_world st)) \<and>
                    (\<exists>v. ser (c_unit C) u' = Inr v \<and> de (c_unit C) v = Inr u)
      | None \<Rightarrow> holds m st \<or> dropped_pending m (contents (cl_world st)))
     (\<lambda>_ st. holds m st \<or> dropped_pending m (contents (cl_world st)) \<or>
        (\<exists>u. claimed C now w m u (contents (cl_world st))))"
  (is "valid _ _ ?Q ?E")
  unfolding claim_work_unit_def
proof (rule valid_seq [OF valid_frame [OF scan_valid preserves_clock_ops(1)]], goal_cases)
  case (1 pending)
  have found: "m pk \<noteq> None"
    if "pending = take (unat 1) (prefix_entries m pending_prefix)" "pending = (pk, x) # es"
      "finite (dom m)" for pk x es
    using that prefix_entries_mem [of m pk x pending_prefix] in_set_takeD [of "(pk, x)" "unat 1"]
    by (metis list.set_intros(1) option.distinct(1))
  show ?case
  proof (cases "\<exists>pk x es b i. pending = (pk, x) # es \<and> parse_pending_key pk = Some (b, i)")
    case False
    then have "(case pending of
       [] \<Rightarrow> ret None
     | (pk, _) # _ \<Rightarrow>
         (case parse_pending_key pk of None \<Rightarrow> ret None | Some (batch_id, unit_id) \<Rightarrow> f batch_id unit_id pk))
       = ret None" for f :: "string \<Rightarrow> string \<Rightarrow> key \<Rightarrow> ('s, work_unit option) tc"
      by (auto split: list.splits option.splits)
    then show ?thesis by (simp only:) (auto simp: valid_def)
  next
    case True
    then obtain pk x es b i where p: "pending = (pk, x) # es" "parse_pending_key pk = Some (b, i)"
      by blast
    show ?thesis
      unfolding p list.case prod.case option.case
    proof (rule validI, goal_cases)
      case (1 s a t)
      then have "finite (dom m)" by (auto simp: data_at_def intro: finite_contents)
      with 1 p(1) have "m pk \<noteq> None" by (intro found [where x = x and es = es]) auto
      with 1 show ?case
        by (intro valid_Inr [OF claim_at_valid [where m = m and pk = pk, OF _ p(2)]])
           (auto simp: now_utc_def)
    next
      case (2 s e t)
      then have "finite (dom m)" by (auto simp: data_at_def intro: finite_contents)
      with 2 p(1) have "m pk \<noteq> None" by (intro found [where x = x and es = es]) auto
      with 2 show ?case
        by (intro valid_Inl [OF claim_at_valid [where m = m and pk = pk, OF _ p(2)]])
           (auto simp: now_utc_def)
    qed
  qed
qed auto

lemma complete_valid:
  "valid (\<lambda>st. holds m st \<and> cl_clock st = now) (complete_work_unit K C b i)
     (\<lambda>r st. if r then unit_changed C (wu_complete now) b i m (contents (cl_world st)) else holds m st)
     (\<lambda>_ st. holds m st \<or> unit_changed C (wu_complete now) b i m (contents (cl_world st)))"
  unfolding complete_work_unit_def
proof (rule valid_seq [OF valid_frame [OF get_valid preserves_clock_get]], goal_cases)
  case (1 data)
  show ?case
    by (rule validI)
       (auto simp: prog_iffs now_utc_def decode_def encode_def unit_changed_def data_at_def
          split: option.splits sum.splits dest!: run_put)
qed auto

lemma fail_valid:
  "valid (\<lambda>st. holds m st \<and> cl_clock st = now) (fail_work_unit K C b i err)
     (\<lambda>r st. if r then unit_failed C now err b i m (contents (cl_world st)) else holds m st)
     (\<lambda>_ st. holds m st \<or> unit_changed C (wu_fail now err) b i m (contents (cl_world st)) \<or>
        unit_failed C now err b i m (contents (cl_world st)))"
  unfolding fail_work_unit_def
proof (rule valid_seq [OF valid_frame [OF get_valid preserves_clock_get]], goal_cases)
  case (1 data)
  show ?case
    by (rule validI)
       (auto simp: prog_iffs now_utc_def decode_def encode_def unit_changed_def unit_failed_def
          data_at_def Let_def split: option.splits sum.splits if_splits dest!: run_put)
qed auto

end

section \<open>Workers sharing the queue\<close>

record 's work_cluster =
  wk_world :: 's
  wk_clock :: timestamp
  wk_held :: "(string \<times> string) \<rightharpoonup> string"  \<comment> \<open>the worker that processes a unit\<close>

text \<open>
  A worker reports only on units it holds. \<open>create\<close> is the scanner adding a fresh pending unit,
  \<open>other\<close> any write that leaves the unit records alone (statuses, indexes, pending entries, locks).
\<close>

inductive work_step ::
    "('s, 'v) kv \<Rightarrow> 'v codecs \<Rightarrow> ('s \<Rightarrow> key \<rightharpoonup> 'v) \<Rightarrow> 's work_cluster \<Rightarrow> 's work_cluster \<Rightarrow> bool"
  for K C A where
  claim:
    "cl_world st = wk_world c \<Longrightarrow> cl_clock st = wk_clock c \<Longrightarrow> claim_work_unit K C w st = (r, st') \<Longrightarrow>
     work_step K C A c
       (c\<lparr>wk_world := cl_world st',
          wk_held := (case r of Inr (Some u) \<Rightarrow> (wk_held c)((wu_batch_id u, wu_id u) \<mapsto> w) | _ \<Rightarrow> wk_held c)\<rparr>)"
| complete:
    "wk_held c (b, i) = Some w \<Longrightarrow> cl_world st = wk_world c \<Longrightarrow> cl_clock st = wk_clock c \<Longrightarrow>
     complete_work_unit K C b i st = (r, st') \<Longrightarrow>
     work_step K C A c (c\<lparr>wk_world := cl_world st', wk_held := (wk_held c)((b, i) := None)\<rparr>)"
| fail:
    "wk_held c (b, i) = Some w \<Longrightarrow> cl_world st = wk_world c \<Longrightarrow> cl_clock st = wk_clock c \<Longrightarrow>
     fail_work_unit K C b i err st = (r, st') \<Longrightarrow>
     work_step K C A c (c\<lparr>wk_world := cl_world st', wk_held := (wk_held c)((b, i) := None)\<rparr>)"
| create:
    "A (wk_world c) (unit_key b i) = None \<Longrightarrow> CHR ''/'' \<notin> set b \<Longrightarrow> CHR ''/'' \<notin> set i \<Longrightarrow>
     wu_batch_id u = b \<Longrightarrow> wu_id u = i \<Longrightarrow> wu_status u = WPending \<Longrightarrow> ser (c_unit C) u = Inr v \<Longrightarrow>
     A x = (A (wk_world c))(unit_key b i \<mapsto> v) \<Longrightarrow>
     work_step K C A c (c\<lparr>wk_world := x\<rparr>)"
| other:
    "(\<And>b i. A x (unit_key b i) = A (wk_world c) (unit_key b i)) \<Longrightarrow>
     work_step K C A c (c\<lparr>wk_world := x\<rparr>)"
| tick:
    "0 \<le> d \<Longrightarrow> work_step K C A c (c\<lparr>wk_clock := wk_clock c + d\<rparr>)"

text \<open>
  Stored units carry the identifiers of their key, and a held unit is processing under its holder.
\<close>

definition ids_ok :: "'v codecs \<Rightarrow> (key \<rightharpoonup> 'v) \<Rightarrow> bool" where
  "ids_ok C m \<longleftrightarrow>
     (\<forall>b i v u. m (unit_key b i) = Some v \<longrightarrow> de (c_unit C) v = Inr u \<longrightarrow> wu_batch_id u = b \<and> wu_id u = i)"

definition held_by :: "'v codecs \<Rightarrow> (key \<rightharpoonup> 'v) \<Rightarrow> string \<Rightarrow> string \<Rightarrow> string \<Rightarrow> bool" where
  "held_by C m b i w \<longleftrightarrow>
     (\<exists>v u. m (unit_key b i) = Some v \<and> de (c_unit C) v = Inr u \<and> wu_status u = WProcessing \<and>
        wu_owner u = Some w)"

definition work_inv :: "'v codecs \<Rightarrow> ('s \<Rightarrow> key \<rightharpoonup> 'v) \<Rightarrow> 's work_cluster \<Rightarrow> bool" where
  "work_inv C A c \<longleftrightarrow>
     ids_ok C (A (wk_world c)) \<and>
     (\<forall>b i w. wk_held c (b, i) = Some w \<longrightarrow> held_by C (A (wk_world c)) b i w)"

text \<open>Every effect on the unit records replaces one unit by another with the same identifiers.\<close>

definition unit_replaced ::
    "'v codecs \<Rightarrow> string \<Rightarrow> string \<Rightarrow> work_unit \<Rightarrow> (key \<rightharpoonup> 'v) \<Rightarrow> (key \<rightharpoonup> 'v) \<Rightarrow> bool" where
  "unit_replaced C b i u' m m' \<longleftrightarrow>
     (\<exists>v u v'. m (unit_key b i) = Some v \<and> de (c_unit C) v = Inr u \<and> ser (c_unit C) u' = Inr v' \<and>
        wu_batch_id u' = wu_batch_id u \<and> wu_id u' = wu_id u \<and>
        (\<forall>c j. m' (unit_key c j) = (m(unit_key b i \<mapsto> v')) (unit_key c j)))"

lemma unit_replaced_ids:
  assumes "unit_replaced C b i u' m m'" "ids_ok C m" "codec_ok (c_unit C)"
  shows "ids_ok C m'"
  using assms unfolding ids_ok_def unit_replaced_def
  by (metis codec_ok_de fun_upd_apply option.inject sum.inject(2))

lemma unit_replaced_others:
  assumes "unit_replaced C b i u' m m'" "ids_ok C m" "held_by C m b' i' w" "(b', i') \<noteq> (b, i)"
  shows "held_by C m' b' i' w"
proof -
  have "unit_key b' i' \<noteq> unit_key b i"
    using assms unfolding ids_ok_def held_by_def unit_replaced_def by (metis Pair_inject)
  with assms(1,3) show ?thesis by (auto simp: held_by_def unit_replaced_def)
qed

lemma unit_changed_replaced:
  "unit_changed C (wu_complete now) b i m m' \<Longrightarrow> \<exists>u'. unit_replaced C b i u' m m'"
  "unit_changed C (wu_fail now err) b i m m' \<Longrightarrow> \<exists>u'. unit_replaced C b i u' m m'"
  "unit_failed C now err b i m m' \<Longrightarrow> \<exists>u'. unit_replaced C b i u' m m'"
proof -
  have keep: "wu_batch_id (wu_complete now u) = wu_batch_id u" "wu_id (wu_complete now u) = wu_id u"
    "wu_batch_id (wu_fail now err u) = wu_batch_id u" "wu_id (wu_fail now err u) = wu_id u" for u
    by (simp_all add: wu_complete_def wu_fail_def)
  show "unit_changed C (wu_complete now) b i m m' \<Longrightarrow> \<exists>u'. unit_replaced C b i u' m m'"
    "unit_changed C (wu_fail now err) b i m m' \<Longrightarrow> \<exists>u'. unit_replaced C b i u' m m'"
    unfolding unit_changed_def unit_replaced_def using keep by blast+
  assume "unit_failed C now err b i m m'"
  then obtain v u v' where f: "m (unit_key b i) = Some v" "de (c_unit C) v = Inr u"
    "ser (c_unit C) (wu_fail now err u) = Inr v'"
    "\<forall>c j. m' (unit_key c j) = (m(unit_key b i \<mapsto> v')) (unit_key c j)"
    unfolding unit_failed_def by auto
  then show "\<exists>u'. unit_replaced C b i u' m m'"
    unfolding unit_replaced_def using keep by blast
qed

lemma claimed_replaced:
  assumes "claimed C now w m u m'" "ids_ok C m"
  shows "unit_replaced C (wu_batch_id u) (wu_id u) u m m' \<and>
    wu_status u = WProcessing \<and> wu_owner u = Some w \<and>
    (\<forall>w'. \<not> held_by C m (wu_batch_id u) (wu_id u) w')"
proof -
  obtain pk b i v u0 v' where c: "parse_pending_key pk = Some (b, i)" "m (unit_key b i) = Some v"
    "de (c_unit C) v = Inr u0" "wu_claim now w u0 = Inr u" "ser (c_unit C) u = Inr v'"
    "m' = m(unit_key b i \<mapsto> v', pk := None)"
    using assms(1) by (auto simp: claimed_def)
  have ids: "wu_batch_id u0 = b" "wu_id u0 = i" using assms(2) c by (auto simp: ids_ok_def)
  have u: "wu_batch_id u = b" "wu_id u = i" "wu_status u = WProcessing" "wu_owner u = Some w"
    "wu_status u0 \<noteq> WProcessing"
    using c(4) ids by (auto simp: wu_claim_Inr_iff wu_is_claimable_def wus_defs)
  with c ids parse_pending_key_not_unit [OF c(1)] show ?thesis
    by (auto simp: unit_replaced_def held_by_def)
qed

lemma replaced_held:
  "unit_replaced C b i u m m' \<Longrightarrow> codec_ok (c_unit C) \<Longrightarrow> wu_status u = WProcessing \<Longrightarrow>
   wu_owner u = Some w \<Longrightarrow> held_by C m' b i w"
  by (auto simp: unit_replaced_def held_by_def dest: codec_ok_de)

lemma dropped_pending_units: "dropped_pending m m' \<Longrightarrow> m' (unit_key b i) = m (unit_key b i)"
  by (auto simp: dropped_pending_def dest: parse_pending_key_not_unit)

lemma same_units_inv:
  "(\<And>b i. m' (unit_key b i) = m (unit_key b i)) \<Longrightarrow> ids_ok C m' = ids_ok C m \<and> held_by C m' = held_by C m"
  by (simp add: ids_ok_def held_by_def fun_eq_iff)

lemma work_inv_replaced:
  assumes "work_inv C A c" "codec_ok (c_unit C)" "unit_replaced C b i u (A (wk_world c)) (A x)"
    and "\<And>b' i' w. held (b', i') = Some w \<Longrightarrow> (b', i') \<noteq> (b, i) \<Longrightarrow> wk_held c (b', i') = Some w"
    and "\<And>w. held (b, i) = Some w \<Longrightarrow> wu_status u = WProcessing \<and> wu_owner u = Some w"
  shows "work_inv C A (c\<lparr>wk_world := x, wk_held := held\<rparr>)"
  using assms unfolding work_inv_def
  by (auto intro: unit_replaced_ids) (metis Pair_inject replaced_held unit_replaced_others)

lemma work_inv_same_units:
  assumes "work_inv C A c" "\<And>b i. A x (unit_key b i) = A (wk_world c) (unit_key b i)"
    and "\<And>b i w. held (b, i) = Some w \<Longrightarrow> wk_held c (b, i) = Some w"
  shows "work_inv C A (c\<lparr>wk_world := x, wk_held := held\<rparr>)"
  using assms same_units_inv [of "A x" "A (wk_world c)" C] by (auto simp: work_inv_def)

context tikv_backend
begin

text \<open>What a report does to the units: nothing, or a replacement of the reported one.\<close>

lemma report_cases:
  assumes "complete_work_unit K C b i st = (r, st') \<or> fail_work_unit K C b i err st = (r, st')"
  shows "(\<forall>c j. contents (cl_world st') (unit_key c j) = contents (cl_world st) (unit_key c j)) \<or>
    (\<exists>u'. unit_replaced C b i u' (contents (cl_world st)) (contents (cl_world st')))"
proof -
  have pre: "data_at contents (contents (cl_world st)) st \<and> cl_clock st = cl_clock st"
    by (simp add: data_at_def)
  note v = complete_valid [of "contents (cl_world st)" "cl_clock st" C b i]
    fail_valid [of "contents (cl_world st)" "cl_clock st" C b i err]
  show ?thesis
    using assms
  proof
    assume run: "complete_work_unit K C b i st = (r, st')"
    show ?thesis
    proof (cases r)
      case (Inl e)
      from valid_Inl [OF v(1) pre run [unfolded Inl]] show ?thesis
        by (auto simp: data_at_def dest: unit_changed_replaced)
    next
      case (Inr x)
      from valid_Inr [OF v(1) pre run [unfolded Inr]] show ?thesis
        by (auto simp: data_at_def dest: unit_changed_replaced split: if_splits)
    qed
  next
    assume run: "fail_work_unit K C b i err st = (r, st')"
    show ?thesis
    proof (cases r)
      case (Inl e)
      from valid_Inl [OF v(2) pre run [unfolded Inl]] show ?thesis
        by (auto simp: data_at_def dest: unit_changed_replaced)
    next
      case (Inr x)
      from valid_Inr [OF v(2) pre run [unfolded Inr]] show ?thesis
        by (auto simp: data_at_def dest: unit_changed_replaced split: if_splits)
    qed
  qed
qed

lemma claim_cases:
  assumes "claim_work_unit K C w st = (r, st')" "codec_ok (c_unit C)"
  shows "((\<forall>b i. contents (cl_world st') (unit_key b i) = contents (cl_world st) (unit_key b i)) \<and>
      (\<forall>u. r \<noteq> Inr (Some u))) \<or>
    (\<exists>u. claimed C (cl_clock st) w (contents (cl_world st)) u (contents (cl_world st')) \<and>
      (\<forall>u'. r = Inr (Some u') \<longrightarrow> u' = u))"
proof -
  have pre: "data_at contents (contents (cl_world st)) st \<and> cl_clock st = cl_clock st"
    by (simp add: data_at_def)
  note v = claim_work_unit_valid [of "contents (cl_world st)" "cl_clock st" C w]
  show ?thesis
  proof (cases r)
    case (Inl e)
    from valid_Inl [OF v pre assms(1) [unfolded Inl]] Inl show ?thesis
      by (auto simp: data_at_def dest: dropped_pending_units)
  next
    case (Inr x)
    from valid_Inr [OF v pre assms(1) [unfolded Inr]] Inr assms(2) show ?thesis
      by (auto simp: data_at_def dest: dropped_pending_units codec_ok_de split: option.splits)
  qed
qed

lemma work_step_inv:
  assumes "work_step K C contents c c'" "codec_ok (c_unit C)" "work_inv C contents c"
  shows "work_inv C contents c'"
  using assms
proof (induction rule: work_step.induct)
  case (claim st c w r st')
  note c = claim.prems(1) and inv = claim.prems(2)
  from claim_cases [OF claim(3) c] show ?case
  proof (elim disjE exE conjE, goal_cases)
    case 1
    then show ?case
      using claim(1) by (intro work_inv_same_units [OF inv]) (auto split: sum.splits option.splits)
  next
    case (2 u)
    have "ids_ok C (contents (wk_world c))" using inv by (simp add: work_inv_def)
    with claimed_replaced [OF 2(1)] claim(1) 2(2) inv show ?case
      by (intro work_inv_replaced [OF inv c, where b = "wu_batch_id u" and i = "wu_id u" and u = u])
         (auto simp: work_inv_def split: sum.splits option.splits if_splits)
  qed
next
  case (complete c b i w st r st')
  note c = complete.prems(1) and inv = complete.prems(2)
  from report_cases [OF disjI1 [OF complete(4)]] complete(2) show ?case
    by (auto intro: work_inv_same_units [OF inv] work_inv_replaced [OF inv c] split: if_splits)
next
  case (fail c b i w st err r st')
  note c = fail.prems(1) and inv = fail.prems(2)
  from report_cases [OF disjI2 [OF fail(4)]] fail(2) show ?case
    by (auto intro: work_inv_same_units [OF inv] work_inv_replaced [OF inv c] split: if_splits)
next
  case (create c b i u v x)
  have key: "c' = b \<and> j = i" if "unit_key c' j = unit_key b i" for c' j
    using unit_key_slash_free [OF that create(2,3)] by simp
  have dec: "de (c_unit C) v = Inr u" using create.prems(1) create(7) by (rule codec_ok_de)
  have old: "ids_ok C (contents (wk_world c))" using create.prems(2) by (simp add: work_inv_def)
  have "ids_ok C (contents x)"
    unfolding ids_ok_def
  proof (intro allI impI)
    fix c' j y ua
    assume "contents x (unit_key c' j) = Some y" "de (c_unit C) y = Inr ua"
    then show "wu_batch_id ua = c' \<and> wu_id ua = j"
      using create(4,5,8) dec old key [of c' j]
      by (cases "unit_key c' j = unit_key b i") (auto simp: ids_ok_def)
  qed
  moreover have "held_by C (contents x) c' j w" if "held_by C (contents (wk_world c)) c' j w" for c' j w
    using that create(1,8) by (auto simp: held_by_def)
  ultimately show ?case
    using create.prems(2) by (auto simp: work_inv_def)
next
  case (other x c)
  then show ?case using work_inv_same_units [of C contents c x "wk_held c"] by simp
next
  case (tick d c)
  then show ?case by (simp add: work_inv_def)
qed

end

context tikv_backend
begin

lemma work_run_inv:
  assumes "(work_step K C contents)\<^sup>*\<^sup>* c c'" "codec_ok (c_unit C)" "work_inv C contents c"
  shows "work_inv C contents c'"
  using assms by (induction rule: rtranclp_induct) (auto intro: work_step_inv)

end

section \<open>Runs in a calm cluster\<close>

context reliable_backend
begin

lemma claim_first_yields:
  assumes C: "codecs_ok C" and first: "prefix_entries m pending_prefix = (pending_key b i, x) # rest"
    and b: "b \<noteq> []" "CHR ''/'' \<notin> set b"
    and u0: "m (unit_key b i) = Some (enc (c_unit C) u0)" "wu_claim now w u0 = Inr u"
  shows "yields (live m now) (claim_work_unit K C w) (Inr (Some u))
    (live (m(unit_key b i \<mapsto> enc (c_unit C) u, pending_key b i := None)) now)"
proof -
  have c: "de (c_unit C) (enc (c_unit C) u0) = Inr u0" "ser (c_unit C) u = Inr (enc (c_unit C) u)"
    "decode (c_unit C) msg (enc (c_unit C) u) = Inr u" for msg
    using C by (auto intro: codec_ok_enc decode_ok)
  then have proc: "claim_processor C now w (enc (c_unit C) u0) = Inr (Some (enc (c_unit C) u))"
    using u0(2) by (simp add: claim_processor_def)
  have out: "claim_outcome m (unit_key b i) (pending_key b i) (claim_processor C now w) (m (unit_key b i))
      = (Inr (Some (enc (c_unit C) u)), m(unit_key b i \<mapsto> enc (c_unit C) u, pending_key b i := None))"
    by (simp add: u0(1) proc)
  have take1: "take (unat 1) (prefix_entries m pending_prefix) = [(pending_key b i, x)]"
    by (simp add: first)
  have tx: "yields (live m now)
      (tc_transactional_claim K (unit_key b i) (pending_key b i) (claim_processor C now w))
      (Inr (Some (enc (c_unit C) u)))
      (live (m(unit_key b i \<mapsto> enc (c_unit C) u, pending_key b i := None)) now)"
    using claim_yields [of m now "unit_key b i" "pending_key b i" "claim_processor C now w"]
    by (simp only: out fst_conv snd_conv)
  show ?thesis
    unfolding claim_work_unit_def
    by (rule yields_bind [OF scan_yields],
        simp only: take1 list.case prod.case parse_pending_key_ok [OF b] option.case,
        rule yields_bind [OF now_yields], rule yields_bind [OF tx],
        simp only: option.case c bindM_simps, rule yields_ret)
qed

lemma claim_blocked_yields:
  assumes C: "codecs_ok C" and first: "prefix_entries m pending_prefix = (pending_key b i, x) # rest"
    and b: "b \<noteq> []" "CHR ''/'' \<notin> set b"
    and u: "m (unit_key b i) = Some (enc (c_unit C) u)" and no: "\<not> wu_is_claimable u"
  shows "yields (live m now) (claim_work_unit K C w) (Inr None) (live m now)"
proof -
  have "de (c_unit C) (enc (c_unit C) u) = Inr u" using C by (auto intro: codec_ok_enc)
  then have "claim_outcome m (unit_key b i) (pending_key b i) (claim_processor C now w) (m (unit_key b i))
      = (Inr None, m)"
    using no by (simp add: u claim_processor_def wu_claim_def)
  then have tx: "yields (live m now)
      (tc_transactional_claim K (unit_key b i) (pending_key b i) (claim_processor C now w))
      (Inr None) (live m now)"
    using claim_yields [of m now "unit_key b i" "pending_key b i" "claim_processor C now w"] by simp
  have take1: "take (unat 1) (prefix_entries m pending_prefix) = [(pending_key b i, x)]"
    by (simp add: first)
  show ?thesis
    unfolding claim_work_unit_def
    by (rule yields_bind [OF scan_yields],
        simp only: take1 list.case prod.case parse_pending_key_ok [OF b] option.case,
        rule yields_bind [OF now_yields], rule yields_bind [OF tx], simp only: option.case, rule yields_ret)
qed

lemma fail_yields:
  assumes C: "codecs_ok C" and u: "m (unit_key b i) = Some (enc (c_unit C) u)"
  shows "yields (live m now) (fail_work_unit K C b i err) (Inr True)
    (live (if wu_status (wu_fail now err u) = WFailed
           then m(unit_key b i \<mapsto> enc (c_unit C) (wu_fail now err u), pending_key b i \<mapsto> raw_bytes C b)
           else m(unit_key b i \<mapsto> enc (c_unit C) (wu_fail now err u))) now)"
proof -
  have c: "decode (c_unit C) msg (enc (c_unit C) u) = Inr u"
    "encode (c_unit C) (wu_fail now err u) = Inr (enc (c_unit C) (wu_fail now err u))" for msg
    using C by (auto intro: encode_ok decode_ok)
  show ?thesis
    unfolding fail_work_unit_def Let_def
    by (rule yields_bind [OF get_yields], simp only: u option.case c bindM_simps,
        rule yields_bind [OF now_yields], simp only: c bindM_simps, rule yields_bind [OF put_yields])
       (auto intro: yields_ret yields_bind [OF put_yields] simp del: ret_simp)
qed

end

section \<open>Properties\<close>

text \<open>Claims that do not overlap are exclusive: for any sequence of whole claims and reports
  of any workers with unit creation, other writes and time, over a store whose calls may fail and whose
  failed commits may have been applied, a unit that a claim returns is held by no worker at that moment;
  the returned unit is processing with the claimant as owner, and so is the stored one.\<close>

theorem claims_exclusive:
  assumes backend: "tikv_backend K contents fresh pend" and C: "codec_ok (c_unit C)"
    and init: "ids_ok C (contents (wk_world c))" "wk_held c = Map.empty"
    and run: "(work_step K C contents)\<^sup>*\<^sup>* c c'"
    and st: "cl_world st = wk_world c'" and claim: "claim_work_unit K C w st = (Inr (Some u), st')"
  shows "wk_held c' (wu_batch_id u, wu_id u) = None \<and> wu_status u = WProcessing \<and> wu_owner u = Some w \<and>
    held_by C (contents (cl_world st')) (wu_batch_id u) (wu_id u) w"
proof -
  have "work_inv C contents c" using init by (simp add: work_inv_def)
  then have inv: "work_inv C contents c'"
    using tikv_backend.work_run_inv [OF backend run C] by blast
  then have ids: "ids_ok C (contents (cl_world st))" by (simp add: work_inv_def st)
  obtain u' where "claimed C (cl_clock st) w (contents (cl_world st)) u' (contents (cl_world st'))" "u = u'"
    using tikv_backend.claim_cases [OF backend claim C] by auto
  with claimed_replaced [OF _ ids] have rep: "unit_replaced C (wu_batch_id u) (wu_id u) u
      (contents (cl_world st)) (contents (cl_world st'))" "wu_status u = WProcessing" "wu_owner u = Some w"
    "\<forall>w'. \<not> held_by C (contents (wk_world c')) (wu_batch_id u) (wu_id u) w'"
    unfolding st by blast+
  moreover from rep(4) inv have "wk_held c' (wu_batch_id u, wu_id u) = None"
    unfolding work_inv_def by (cases "wk_held c' (wu_batch_id u, wu_id u)") auto
  ultimately show ?thesis using replaced_held [OF rep(1) C] by blast
qed

definition demo_queue :: "(key \<times> payload) list" where
  "demo_queue =
     [(unit_key ''jobs:b'' ''u1'', PUnit (work_unit_with_id 0 ''u1'' ''jobs:b'' [] [] [])),
      (pending_key ''jobs:b'' ''u1'', PRaw ''jobs:b'')]"

lemma demo_queue_first:
  "prefix_entries (map_of demo_queue) pending_prefix = [(pending_key ''jobs:b'' ''u1'', PRaw ''jobs:b'')]"
  unfolding prefix_entries_def mem_scan_entries [symmetric]
  by (simp add: demo_queue_def key_forms scan_end_def)

lemma demo_queue_ids: "ids_ok mem_codecs (map_of demo_queue)"
proof -
  have "b = ''jobs:b'' \<and> i = ''u1''" if "unit_key b i = unit_key ''jobs:b'' ''u1''" for b i
    using unit_key_slash_free [OF that] by simp
  then show ?thesis
    by (auto simp: ids_ok_def demo_queue_def mem_codecs_def mem_codec_def work_unit_with_id_def
        split: if_splits)
qed

text \<open>a claimable unit at the head of the queue is claimed. In a calm cluster, when the first pending
  entry names a stored unit that is claimable, \<open>claim_work_unit\<close> returns that unit, claimed by the worker,
  stores it and removes the entry, in one transaction.\<close>

theorem claim_takes_first_pending:
  assumes rel: "reliable_backend K contents fresh pend calm" and C: "codecs_ok C"
    and first: "prefix_entries m pending_prefix = (pending_key b i, x) # rest"
    and b: "b \<noteq> []" "CHR ''/'' \<notin> set b"
    and u0: "m (unit_key b i) = Some (enc (c_unit C) v)" and claimable: "wu_is_claimable v"
    and st: "client_at contents calm m now st"
  shows "\<exists>u st'. wu_claim now w v = Inr u \<and> claim_work_unit K C w st = (Inr (Some u), st') \<and>
    contents (cl_world st') = m(unit_key b i \<mapsto> enc (c_unit C) u, pending_key b i := None)"
proof -
  obtain u where u: "wu_claim now w v = Inr u" using claimable by (auto simp: wu_claim_Inr_iff)
  from yieldsD [OF reliable_backend.claim_first_yields [where m = m, OF rel C first b u0 u] st] u
  show ?thesis by (auto simp: client_at_def)
qed

theorem claim_takes_first_pending_witness:
  "\<exists>u st'. claim_work_unit mem_kv mem_codecs ''w1'' (demo_client (demo_store demo_queue []) 9) =
     (Inr (Some u), st') \<and> wu_owner u = Some ''w1''"
proof -
  have "map_of demo_queue (unit_key ''jobs:b'' ''u1'') =
      Some (enc (c_unit mem_codecs) (work_unit_with_id 0 ''u1'' ''jobs:b'' [] [] []))"
    by (simp add: demo_queue_def enc_def mem_codecs_def mem_codec_def)
  moreover have "wu_is_claimable (work_unit_with_id 0 ''u1'' ''jobs:b'' [] [] [])"
    by (simp add: wu_is_claimable_def wus_defs work_unit_with_id_def default_max_attempts_def)
  ultimately show ?thesis
    using claim_takes_first_pending [where w = "''w1''" and v = "work_unit_with_id 0 ''u1'' ''jobs:b'' [] [] []",
        OF mem.reliable_backend_axioms mem_codecs_ok demo_queue_first _ _ _ _ demo_client_at [of demo_queue 9]]
    by (auto simp: wu_claim_Inr_iff)
qed

theorem claims_exclusive_witness:
  "\<exists>u st'. claim_work_unit mem_kv mem_codecs ''w1'' (demo_client (demo_store demo_queue []) 9) =
     (Inr (Some u), st') \<and> held_by mem_codecs (mem_contents (cl_world st')) (wu_batch_id u) (wu_id u) ''w1''"
proof -
  define c where "c = \<lparr> wk_world = demo_store demo_queue [], wk_clock = 9, wk_held = Map.empty \<rparr>"
  have "yields (client_at mem_contents mem_calm (map_of demo_queue) 9)
      (claim_work_unit mem_kv mem_codecs ''w1'')
      (Inr (Some ((work_unit_with_id 0 ''u1'' ''jobs:b'' [] [] [])\<lparr>wu_status := WProcessing,
         wu_owner := Some ''w1'', wu_attempts := 1, wu_updated_at := 9\<rparr>))) (\<lambda>_. True)"
    by (rule yields_post [OF mem.claim_first_yields [OF mem_codecs_ok demo_queue_first]])
       (auto simp: demo_queue_def enc_def mem_codecs_def mem_codec_def wu_claim_Inr_iff wu_is_claimable_def
          wus_defs work_unit_with_id_def default_max_attempts_def)
  from yieldsD [OF this demo_client_at] obtain u st' where
    run: "claim_work_unit mem_kv mem_codecs ''w1'' (demo_client (demo_store demo_queue []) 9) = (Inr (Some u), st')"
    by blast
  have "ids_ok mem_codecs (mem_contents (wk_world c))" "wk_held c = Map.empty"
    "cl_world (demo_client (demo_store demo_queue []) 9) = wk_world c"
    using demo_queue_ids by (simp_all add: c_def demo_store_def demo_client_def mem_contents_def)
  with claims_exclusive [OF mem.tikv_backend_axioms _ _ _ rtranclp.rtrancl_refl _ run] mem_codecs_ok run
  show ?thesis by blast
qed

text \<open>an unclaimable unit at the head blocks the queue. When the first pending entry names a stored unit
  that is not claimable, the claim returns nothing and leaves the data, the entry included, as it is, so
  that no claim of any worker makes progress, whatever units wait behind it.\<close>

theorem unclaimable_head_blocks:
  assumes rel: "reliable_backend K contents fresh pend calm" and C: "codecs_ok C"
    and first: "prefix_entries m pending_prefix = (pending_key b i, x) # rest"
    and b: "b \<noteq> []" "CHR ''/'' \<notin> set b"
    and u: "m (unit_key b i) = Some (enc (c_unit C) u)" and no: "\<not> wu_is_claimable u"
    and st: "client_at contents calm m now st"
  shows "\<exists>st'. foldM (\<lambda>w got. bindM (claim_work_unit K C w) (\<lambda>r. ret (got @ [r]))) ws [] st =
      (Inr (replicate (length ws) None), st') \<and> client_at contents calm m now st'"
proof -
  have "yields (client_at contents calm m now)
      (foldM (\<lambda>w got. bindM (claim_work_unit K C w) (\<lambda>r. ret (got @ [r]))) ws rs)
      (Inr (rs @ replicate (length ws) None)) (client_at contents calm m now)" for rs
  proof (induction ws arbitrary: rs)
    case Nil
    show ?case by (simp add: yields_ret del: ret_simp)
  next
    case (Cons w ws)
    have step: "yields (client_at contents calm m now)
        (bindM (claim_work_unit K C w) (\<lambda>r. ret (rs @ [r]))) (Inr (rs @ [None])) (client_at contents calm m now)"
      by (rule yields_bind [OF reliable_backend.claim_blocked_yields [OF rel C first b u no]], rule yields_ret)
    show ?case
      unfolding foldM.simps
      by (rule yields_bind [OF step]) (use Cons.IH [of "rs @ [None]"] in \<open>simp del: ret_simp\<close>)
  qed
  from yieldsD [OF this [of "[]"] st] show ?thesis by auto
qed

definition demo_blocked :: "(key \<times> payload) list" where
  "demo_blocked =
     [(unit_key ''jobs:b'' ''u1'', PUnit (wu_complete 3 (work_unit_with_id 0 ''u1'' ''jobs:b'' [] [] []))),
      (pending_key ''jobs:b'' ''u1'', PRaw ''jobs:b''),
      (pending_key ''jobs:c'' ''u2'', PRaw ''jobs:c'')]"

theorem unclaimable_head_blocks_witness:
  "\<exists>st'. foldM (\<lambda>w got. bindM (claim_work_unit mem_kv mem_codecs w) (\<lambda>r. ret (got @ [r]))) [''w1'', ''w2''] []
       (demo_client (demo_store demo_blocked []) 9) = (Inr [None, None], st')"
proof -
  have first: "prefix_entries (map_of demo_blocked) pending_prefix =
      [(pending_key ''jobs:b'' ''u1'', PRaw ''jobs:b''), (pending_key ''jobs:c'' ''u2'', PRaw ''jobs:c'')]"
    unfolding prefix_entries_def mem_scan_entries [symmetric]
    by (simp add: demo_blocked_def key_forms scan_end_def)
  have "map_of demo_blocked (unit_key ''jobs:b'' ''u1'') =
      Some (enc (c_unit mem_codecs) (wu_complete 3 (work_unit_with_id 0 ''u1'' ''jobs:b'' [] [] [])))"
    by (simp add: demo_blocked_def enc_def mem_codecs_def mem_codec_def)
  moreover have "\<not> wu_is_claimable (wu_complete 3 (work_unit_with_id 0 ''u1'' ''jobs:b'' [] [] []))"
    by (simp add: wu_is_claimable_def wus_defs wu_complete_def)
  ultimately show ?thesis
    using unclaimable_head_blocks [where ws = "[''w1'', ''w2'']",
        OF mem.reliable_backend_axioms mem_codecs_ok first _ _ _ _ demo_client_at [of demo_blocked 9]]
    by auto
qed

text \<open>reporting a failure. In a calm cluster \<open>fail_work_unit\<close> stores the failed unit; the unit is back in
  the pending queue exactly when it has an attempt left, which is exactly when the stored unit can be
  claimed again, and otherwise it is dead.\<close>

theorem fail_requeues:
  assumes rel: "reliable_backend K contents fresh pend calm" and C: "codecs_ok C"
    and u: "m (unit_key b i) = Some (enc (c_unit C) u)" and p: "m (pending_key b i) = None"
    and st: "client_at contents calm m now st"
  shows "\<exists>st'. fail_work_unit K C b i err st = (Inr True, st') \<and>
    contents (cl_world st') (unit_key b i) = Some (enc (c_unit C) (wu_fail now err u)) \<and>
    (contents (cl_world st') (pending_key b i) \<noteq> None \<longleftrightarrow> wu_attempts u < wu_max_attempts u) \<and>
    (wu_is_claimable (wu_fail now err u) \<longleftrightarrow> wu_attempts u < wu_max_attempts u) \<and>
    (wu_status (wu_fail now err u) = WDead \<longleftrightarrow> \<not> wu_attempts u < wu_max_attempts u)"
proof -
  obtain st' where run: "fail_work_unit K C b i err st = (Inr True, st')"
    "contents (cl_world st') = (if wu_status (wu_fail now err u) = WFailed
       then m(unit_key b i \<mapsto> enc (c_unit C) (wu_fail now err u), pending_key b i \<mapsto> raw_bytes C b)
       else m(unit_key b i \<mapsto> enc (c_unit C) (wu_fail now err u)))"
    using yieldsD [OF reliable_backend.fail_yields [where m = m and err = err, OF rel C u] st]
    by (auto simp: client_at_def)
  have "wu_status (wu_fail now err u) = (if wu_attempts u < wu_max_attempts u then WFailed else WDead)"
    "wu_attempts (wu_fail now err u) = wu_attempts u" "wu_max_attempts (wu_fail now err u) = wu_max_attempts u"
    by (auto simp: wu_fail_def)
  with run p show ?thesis by (auto simp: wu_is_claimable_def wus_defs)
qed

theorem fail_requeues_witness:
  "\<exists>st'. fail_work_unit mem_kv mem_codecs ''jobs:b'' ''u1'' ''boom'' (demo_client (demo_store demo_units []) 9)
       = (Inr True, st') \<and>
     mem_contents (cl_world st') (pending_key ''jobs:b'' ''u1'') \<noteq> None"
proof -
  have "map_of demo_units (unit_key ''jobs:b'' ''u1'') =
      Some (enc (c_unit mem_codecs) (work_unit_with_id 0 ''u1'' ''jobs:b'' [] [] []))"
    by (simp add: demo_units_def key_forms enc_def mem_codecs_def mem_codec_def)
  moreover have "map_of demo_units (pending_key ''jobs:b'' ''u1'') = None"
    by (simp add: demo_units_def key_forms)
  ultimately show ?thesis
    using fail_requeues [OF mem.reliable_backend_axioms mem_codecs_ok _ _ demo_client_at [of demo_units 9],
        of "''jobs:b''" "''u1''" "work_unit_with_id 0 ''u1'' ''jobs:b'' [] [] []" "''boom''"]
    by (auto simp: work_unit_with_id_def default_max_attempts_def)
qed

end
