(* ===== verification/Lock_Manager.thy ===== *)
theory Lock_Manager
  imports Client_Logic
begin

text \<open>
  \<open>tikv/locks.rs\<close>: the lock manager and the guards it hands out. A guard's background renewal is the
  operation \<open>lg_renewal_tick\<close>, run once per interval; dropping a guard is \<open>lg_drop\<close>. The random jitter of
  the blocking acquisition (package \<open>fastrand\<close>) is the argument \<open>rand\<close>.

  The second part is the mutual exclusion of locks whose requests do not overlap. \<open>lock_step\<close> runs lock requests (with one time
  to live), releases, writes to other keys and the passing of time by any number of processes one at a time over one store that
  may fail; \<open>lock_inv\<close> relates the leases the processes believe in to the stored record. Requests that overlap are the subject
  of the theory \<open>Overlap\<close>.
\<close>

section \<open>Configuration\<close>

record lock_manager_config =
  lm_default_ttl :: int
  lm_renewal_interval :: int
  lm_backoff_base_delay :: int
  lm_max_acquire_attempts :: u32

definition default_lock_manager_config :: lock_manager_config where
  "default_lock_manager_config =
     \<lparr> lm_default_ttl = duration_seconds 300, lm_renewal_interval = duration_seconds 120,
       lm_backoff_base_delay = 50 * ns_per_ms, lm_max_acquire_attempts = 20 \<rparr>"

definition lm_with_default_ttl :: "int \<Rightarrow> lock_manager_config \<Rightarrow> lock_manager_config" where
  "lm_with_default_ttl d c = c\<lparr>lm_default_ttl := d\<rparr>"

definition lm_with_renewal_interval :: "int \<Rightarrow> lock_manager_config \<Rightarrow> lock_manager_config" where
  "lm_with_renewal_interval d c = c\<lparr>lm_renewal_interval := d\<rparr>"

definition lm_with_backoff_delay :: "int \<Rightarrow> lock_manager_config \<Rightarrow> lock_manager_config" where
  "lm_with_backoff_delay d c = c\<lparr>lm_backoff_base_delay := d\<rparr>"

definition lm_with_max_acquire_attempts :: "u32 \<Rightarrow> lock_manager_config \<Rightarrow> lock_manager_config" where
  "lm_with_max_acquire_attempts n c = c\<lparr>lm_max_acquire_attempts := n\<rparr>"

record lock_manager =
  lm_owner :: string
  lm_config :: lock_manager_config

record lock_guard =
  lg_resource :: string
  lg_owner :: string
  lg_ttl_secs :: int
  lg_released :: bool
  lg_renewing :: bool

definition lock_manager_new :: "string \<Rightarrow> lock_manager" where
  "lock_manager_new owner = \<lparr> lm_owner = owner, lm_config = default_lock_manager_config \<rparr>"

section \<open>Operations\<close>

definition quoted :: "string \<Rightarrow> string" where
  "quoted s = [CHR 0x27] @ s @ [CHR 0x27]"

text \<open>A duration in nanoseconds as whole seconds, rounded up when it has milliseconds, at most \<open>i64::MAX\<close>.\<close>

definition ttl_to_secs :: "int \<Rightarrow> int" where
  "ttl_to_secs ttl =
     (let secs = min (ttl div ns_per_sec + (if (ttl mod ns_per_sec) div ns_per_ms > 0 then 1 else 0))
                   (2 ^ 64 - 1)
      in if secs < 2 ^ 63 then secs else 2 ^ 63 - 1)"

definition lock_guard_new :: "string \<Rightarrow> string \<Rightarrow> int \<Rightarrow> bool \<Rightarrow> lock_guard" where
  "lock_guard_new resource owner ttl auto_renew =
     \<lparr> lg_resource = resource, lg_owner = owner, lg_ttl_secs = ttl, lg_released = False,
       lg_renewing = auto_renew \<rparr>"

definition lm_try_acquire ::
    "('s, 'v) kv \<Rightarrow> 'v codecs \<Rightarrow> lock_manager \<Rightarrow> string \<Rightarrow> int \<Rightarrow> ('s, lock_guard option) tc" where
  "lm_try_acquire K C lm resource ttl =
     (let secs = ttl_to_secs ttl
      in bindM (tc_acquire_lock K C resource (lm_owner lm) secs) (\<lambda>acquired.
         if acquired then ret (Some (lock_guard_new resource (lm_owner lm) secs False)) else ret None))"

definition lm_try_acquire_default ::
    "('s, 'v) kv \<Rightarrow> 'v codecs \<Rightarrow> lock_manager \<Rightarrow> string \<Rightarrow> ('s, lock_guard option) tc" where
  "lm_try_acquire_default K C lm resource =
     lm_try_acquire K C lm resource (lm_default_ttl (lm_config lm))"

text \<open>
  The delay before the next attempt: the base doubled per attempt (\<open>2_u32.pow\<close> wraps), at most five
  seconds, plus a jitter of up to a quarter of it.
\<close>

definition backoff_delay :: "(nat \<Rightarrow> nat \<Rightarrow> nat) \<Rightarrow> lock_manager_config \<Rightarrow> nat \<Rightarrow> int" where
  "backoff_delay rand cfg attempt =
     (let delay = min (lm_backoff_base_delay cfg * uint ((2 :: u32) ^ (attempt - 1))) (duration_seconds 5);
          jitter_ms = max 1 (nat (delay div ns_per_ms div 4))
      in delay + int (rand attempt jitter_ms) * ns_per_ms)"

function lm_blocking_loop ::
    "(nat \<Rightarrow> nat \<Rightarrow> nat) \<Rightarrow> ('s, 'v) kv \<Rightarrow> 'v codecs \<Rightarrow> lock_manager \<Rightarrow> string \<Rightarrow> int \<Rightarrow> int \<Rightarrow>
     timestamp \<Rightarrow> nat \<Rightarrow> ('s, lock_guard) tc" where
  "lm_blocking_loop rand K C lm resource secs timeout started attempt =
     bindM now_utc (\<lambda>now.
     if now - started \<ge> timeout
       then throw (LockAcquisitionFailed (''Timeout after '' @ debug_duration timeout
                                     @ '' waiting for lock '' @ quoted resource))
     else bindM (tc_acquire_lock K C resource (lm_owner lm) secs) (\<lambda>acquired.
       if acquired then ret (lock_guard_new resource (lm_owner lm) secs False)
       else if Suc attempt \<ge> unat (lm_max_acquire_attempts (lm_config lm))
         then throw (LockAcquisitionFailed
                  (''Max attempts ('' @ show_nat (unat (lm_max_acquire_attempts (lm_config lm)))
                   @ '') reached waiting for lock '' @ quoted resource))
       else bindM (sleep (backoff_delay rand (lm_config lm) (Suc attempt))) (\<lambda>_.
         lm_blocking_loop rand K C lm resource secs timeout started (Suc attempt))))"
  by pat_completeness auto
termination
  by (relation "measure (\<lambda>(r, K, C, lm, res, s, t, st, a). unat (lm_max_acquire_attempts (lm_config lm)) - a)")
     auto

declare lm_blocking_loop.simps [simp del]

definition lm_acquire_blocking ::
    "(nat \<Rightarrow> nat \<Rightarrow> nat) \<Rightarrow> ('s, 'v) kv \<Rightarrow> 'v codecs \<Rightarrow> lock_manager \<Rightarrow> string \<Rightarrow> int \<Rightarrow> int \<Rightarrow>
     ('s, lock_guard) tc" where
  "lm_acquire_blocking rand K C lm resource ttl timeout =
     bindM now_utc (\<lambda>started.
     lm_blocking_loop rand K C lm resource (ttl_to_secs ttl) timeout started 0)"

definition lm_acquire_blocking_default ::
    "(nat \<Rightarrow> nat \<Rightarrow> nat) \<Rightarrow> ('s, 'v) kv \<Rightarrow> 'v codecs \<Rightarrow> lock_manager \<Rightarrow> string \<Rightarrow>
     ('s, lock_guard) tc" where
  "lm_acquire_blocking_default rand K C lm resource =
     lm_acquire_blocking rand K C lm resource (lm_default_ttl (lm_config lm)) (duration_seconds 30)"

definition lm_acquire_with_renewal ::
    "('s, 'v) kv \<Rightarrow> 'v codecs \<Rightarrow> lock_manager \<Rightarrow> string \<Rightarrow> int \<Rightarrow> ('s, lock_guard) tc" where
  "lm_acquire_with_renewal K C lm resource ttl =
     (let secs = ttl_to_secs ttl
      in bindM (tc_acquire_lock K C resource (lm_owner lm) secs) (\<lambda>acquired.
         if \<not> acquired
           then throw (LockAcquisitionFailed (''Failed to acquire lock '' @ quoted resource @ '' for renewal''))
         else ret (lock_guard_new resource (lm_owner lm) secs True)))"

definition lm_acquire_with_renewal_default ::
    "('s, 'v) kv \<Rightarrow> 'v codecs \<Rightarrow> lock_manager \<Rightarrow> string \<Rightarrow> ('s, lock_guard) tc" where
  "lm_acquire_with_renewal_default K C lm resource =
     lm_acquire_with_renewal K C lm resource (lm_default_ttl (lm_config lm))"

definition read_lock :: "('s, 'v) kv \<Rightarrow> 'v codecs \<Rightarrow> string \<Rightarrow> ('s, lock_record option) tc" where
  "read_lock K C resource = get_record K (c_lock C) (lock_key resource)"

definition lm_is_locked :: "('s, 'v) kv \<Rightarrow> 'v codecs \<Rightarrow> string \<Rightarrow> ('s, bool) tc" where
  "lm_is_locked K C resource =
     bindM (read_lock K C resource) (\<lambda>l. bindM now_utc (\<lambda>now.
     ret (case l of Some lock \<Rightarrow> \<not> lk_is_expired now lock | None \<Rightarrow> False)))"

definition lm_get_owner :: "('s, 'v) kv \<Rightarrow> 'v codecs \<Rightarrow> string \<Rightarrow> ('s, string option) tc" where
  "lm_get_owner K C resource =
     bindM (read_lock K C resource) (\<lambda>l. bindM now_utc (\<lambda>now.
     ret (case l of
            Some lock \<Rightarrow> (if lk_is_expired now lock then None else Some (lk_owner lock))
          | None \<Rightarrow> None)))"

definition lm_is_expired :: "('s, 'v) kv \<Rightarrow> 'v codecs \<Rightarrow> string \<Rightarrow> ('s, bool) tc" where
  "lm_is_expired K C resource =
     bindM (read_lock K C resource) (\<lambda>l. bindM now_utc (\<lambda>now.
     ret (case l of Some lock \<Rightarrow> lk_is_expired now lock | None \<Rightarrow> False)))"

definition lm_release :: "('s, 'v) kv \<Rightarrow> 'v codecs \<Rightarrow> lock_manager \<Rightarrow> string \<Rightarrow> ('s, bool) tc" where
  "lm_release K C lm resource = tc_release_lock K C resource (lm_owner lm)"

definition lm_renew :: "('s, 'v) kv \<Rightarrow> 'v codecs \<Rightarrow> lock_manager \<Rightarrow> string \<Rightarrow> int \<Rightarrow> ('s, bool) tc" where
  "lm_renew K C lm resource ttl = tc_acquire_lock K C resource (lm_owner lm) (ttl_to_secs ttl)"

definition lm_steal :: "('s, 'v) kv \<Rightarrow> 'v codecs \<Rightarrow> lock_manager \<Rightarrow> string \<Rightarrow> int \<Rightarrow> ('s, bool) tc" where
  "lm_steal K C lm resource ttl =
     bindM (read_lock K C resource) (\<lambda>l. bindM now_utc (\<lambda>now.
     if (case l of Some lock \<Rightarrow> lk_is_expired now lock | None \<Rightarrow> True)
       then tc_acquire_lock K C resource (lm_owner lm) (ttl_to_secs ttl)
     else ret False))"

section \<open>Guards\<close>

definition lg_is_valid :: "lock_guard \<Rightarrow> bool" where
  "lg_is_valid g = (\<not> lg_released g)"

text \<open>\<open>release\<close> consumes the guard: it is marked released first, so that its drop does nothing.\<close>

definition lg_release :: "('s, 'v) kv \<Rightarrow> 'v codecs \<Rightarrow> lock_guard \<Rightarrow> ('s, bool) tc" where
  "lg_release K C g = tc_release_lock K C (lg_resource g) (lg_owner g)"

definition lg_renew :: "('s, 'v) kv \<Rightarrow> 'v codecs \<Rightarrow> lock_guard \<Rightarrow> ('s, bool) tc" where
  "lg_renew K C g = tc_acquire_lock K C (lg_resource g) (lg_owner g) (lg_ttl_secs g)"

definition lg_fencing_token :: "('s, 'v) kv \<Rightarrow> 'v codecs \<Rightarrow> lock_guard \<Rightarrow> ('s, u64 option) tc" where
  "lg_fencing_token K C g =
     bindM (read_lock K C (lg_resource g)) (\<lambda>l. bindM now_utc (\<lambda>now.
     ret (case l of
            Some lock \<Rightarrow>
              (if lk_is_owned_by (lg_owner g) lock \<and> \<not> lk_is_expired now lock
               then Some (lk_fencing_token lock) else None)
          | None \<Rightarrow> None)))"

text \<open>
  One tick of the renewal task, with the guard after it: the task stops when the guard is released or the lock is lost, and goes on
  after an error.
\<close>

definition lg_renewal_tick :: "('s, 'v) kv \<Rightarrow> 'v codecs \<Rightarrow> lock_guard \<Rightarrow> ('s, lock_guard) tc" where
  "lg_renewal_tick K C g =
     (if \<not> lg_renewing g then ret g
      else if lg_released g then ret (g\<lparr>lg_renewing := False\<rparr>)
      else handleM (tc_acquire_lock K C (lg_resource g) (lg_owner g) (lg_ttl_secs g))
             (\<lambda>_. ret g)
             (\<lambda>renewed. if renewed then ret g else ret (g\<lparr>lg_renewing := False\<rparr>)))"

text \<open>Dropping a guard: the spawned cleanup releases the lock unless that was done already.\<close>

definition lg_drop :: "('s, 'v) kv \<Rightarrow> 'v codecs \<Rightarrow> bool \<Rightarrow> lock_guard \<Rightarrow> ('s, lock_guard) tc" where
  "lg_drop K C has_runtime g =
     (let g' = g\<lparr>lg_released := True, lg_renewing := False\<rparr>
      in if lg_released g then ret (g\<lparr>lg_released := True\<rparr>)
         else if has_runtime
           then handleM (tc_release_lock K C (lg_resource g) (lg_owner g)) (\<lambda>_. ret g') (\<lambda>_. ret g')
         else ret g')"

section \<open>Leases\<close>

text \<open>
  A process that was granted a lock at time \<open>t\<close> believes it holds it until \<open>t\<close> plus the time to live.
  \<open>lock_step\<close> is one event of the cluster concerning one resource and one time to live.
\<close>

record 's lock_cluster =
  lc_world :: 's
  lc_clock :: timestamp
  lc_leases :: "string \<rightharpoonup> timestamp"

inductive lock_step ::
    "('s, 'v) kv \<Rightarrow> 'v codecs \<Rightarrow> ('s \<Rightarrow> key \<rightharpoonup> 'v) \<Rightarrow> string \<Rightarrow> int \<Rightarrow>
     's lock_cluster \<Rightarrow> 's lock_cluster \<Rightarrow> bool"
  for K C A resource ttl where
  acquire:
    "cl_world st = lc_world c \<Longrightarrow> cl_clock st = lc_clock c \<Longrightarrow>
     tc_acquire_lock_once K C resource owner ttl st = (r, st') \<Longrightarrow>
     lock_step K C A resource ttl c
       (c\<lparr>lc_world := cl_world st',
          lc_leases := (if r = Inr True then (lc_leases c)(owner \<mapsto> lc_clock c + duration_seconds ttl)
                        else lc_leases c)\<rparr>)"
| release:
    "cl_world st = lc_world c \<Longrightarrow> tc_release_lock_once K C resource owner st = (r, st') \<Longrightarrow>
     lock_step K C A resource ttl c
       (c\<lparr>lc_world := cl_world st', lc_leases := (lc_leases c)(owner := None)\<rparr>)"
| other:
    "A w (lock_key resource) = A (lc_world c) (lock_key resource) \<Longrightarrow>
     lock_step K C A resource ttl c (c\<lparr>lc_world := w\<rparr>)"
| tick:
    "0 \<le> d \<Longrightarrow> lock_step K C A resource ttl c (c\<lparr>lc_clock := lc_clock c + d\<rparr>)"

definition lease_live :: "'s lock_cluster \<Rightarrow> string \<Rightarrow> bool" where
  "lease_live c owner \<longleftrightarrow> (\<exists>e. lc_leases c owner = Some e \<and> lc_clock c \<le> e)"

text \<open>A live lease is covered by the stored record, which lasts at least as long.\<close>

definition lease_covered ::
    "'v codecs \<Rightarrow> string \<Rightarrow> (key \<rightharpoonup> 'v) \<Rightarrow> string \<Rightarrow> timestamp \<Rightarrow> bool" where
  "lease_covered C resource m owner e \<longleftrightarrow>
     (\<exists>l. stored_lock C m resource = Inr (Some l) \<and> lk_owner l = owner \<and> e \<le> lk_expires_at l)"

definition lock_inv ::
    "'v codecs \<Rightarrow> ('s \<Rightarrow> key \<rightharpoonup> 'v) \<Rightarrow> string \<Rightarrow> int \<Rightarrow> 's lock_cluster \<Rightarrow> bool" where
  "lock_inv C A resource ttl c \<longleftrightarrow>
     (\<forall>owner e. lc_leases c owner = Some e \<longrightarrow>
        e \<le> lc_clock c + duration_seconds ttl \<and>
        (lc_clock c \<le> e \<longrightarrow> lease_covered C resource (A (lc_world c)) owner e))"

lemma stored_lock_put:
  "codec_ok (c_lock C) \<Longrightarrow> ser (c_lock C) l = Inr v \<Longrightarrow>
   stored_lock C (m(lock_key resource \<mapsto> v)) resource = Inr (Some l)"
  by (auto simp: stored_lock_def dest: codec_ok_de)

text \<open>
  A request keeps every live lease covered: it extends the requester's own record to the new expiry, and
  it is refused while the record of another owner is live.
\<close>

lemma acquire_keeps_lease:
  assumes rel: "acquire_rel C now resource owner ttl m b m'" and c: "codec_ok (c_lock C)"
    and cov: "lease_covered C resource m o' e" and live: "now \<le> e"
    and bound: "e \<le> now + duration_seconds ttl"
  shows "lease_covered C resource m' o' e"
proof -
  obtain l where l: "stored_lock C m resource = Inr (Some l)" "lk_owner l = o'" "e \<le> lk_expires_at l"
    using cov by (auto simp: lease_covered_def)
  show ?thesis
  proof (cases "lk_owner l = owner")
    case True
    with rel l(1) obtain v where "ser (c_lock C) (lk_extend now ttl l) = Inr v"
      "m' = m(lock_key resource \<mapsto> v)"
      by (auto simp: acquire_rel_def)
    with c l bound show ?thesis
      by (auto simp: lease_covered_def stored_lock_put lk_extend_def)
  next
    case False
    with rel l live have "m' = m" by (auto simp: acquire_rel_def)
    with cov show ?thesis by simp
  qed
qed

lemma acquire_grants:
  assumes "acquire_rel C now resource owner ttl m True m'" "codec_ok (c_lock C)"
  shows "lease_covered C resource m' owner (now + duration_seconds ttl)"
  using assms
  by (auto simp: acquire_rel_def lease_covered_def stored_lock_put lock_new_def lk_extend_def
      elim!: lock_decision.elims split: option.splits if_splits)

lemma release_keeps_lease:
  "release_rel C resource owner m b m' \<Longrightarrow> lease_covered C resource m o' e \<Longrightarrow> o' \<noteq> owner \<Longrightarrow>
   lease_covered C resource m' o' e"
  by (auto simp: release_rel_def lease_covered_def)

context tikv_backend
begin

lemma acquire_once_cases:
  assumes "tc_acquire_lock_once K C resource owner ttl st = (r, st')"
  obtains "r \<noteq> Inr True" "contents (cl_world st') = contents (cl_world st)"
  | b where "acquire_rel C (cl_clock st) resource owner ttl (contents (cl_world st)) b (contents (cl_world st'))"
      "r = Inr True \<Longrightarrow> b"
proof -
  have pre: "data_at contents (contents (cl_world st)) st \<and> cl_clock st = cl_clock st"
    by (simp add: data_at_def)
  show thesis
  proof (cases r)
    case (Inl e)
    from valid_Inl [OF acquire_once_valid pre assms [unfolded Inl]] that Inl show thesis
      by (auto simp: data_at_def)
  next
    case (Inr b)
    from valid_Inr [OF acquire_once_valid pre assms [unfolded Inr]] that(2) [of b] Inr show thesis
      by auto
  qed
qed

lemma release_once_cases:
  assumes "tc_release_lock_once K C resource owner st = (r, st')"
  obtains "contents (cl_world st') = contents (cl_world st)"
  | b where "release_rel C resource owner (contents (cl_world st)) b (contents (cl_world st'))"
proof -
  have pre: "data_at contents (contents (cl_world st)) st" by (simp add: data_at_def)
  show thesis
  proof (cases r)
    case (Inl e)
    from valid_Inl [OF release_once_valid pre assms [unfolded Inl]] that show thesis
      by (auto simp: data_at_def)
  next
    case (Inr b)
    from valid_Inr [OF release_once_valid pre assms [unfolded Inr]] that show thesis by blast
  qed
qed

lemma lock_step_inv:
  assumes "lock_step K C contents resource ttl c c'" "codec_ok (c_lock C)"
    "lock_inv C contents resource ttl c"
  shows "lock_inv C contents resource ttl c'"
  using assms
proof (induction rule: lock_step.induct)
  case (acquire st c owner r st')
  note inv = acquire.prems(2) [unfolded lock_inv_def]
  from acquire(3) show ?case
  proof (cases rule: acquire_once_cases)
    case 1
    with inv acquire(1) show ?thesis by (auto simp: lock_inv_def)
  next
    case (2 b)
    note rel = 2(1) [unfolded acquire(1,2)]
    show ?thesis
      unfolding lock_inv_def
    proof (intro allI impI, goal_cases)
      case (1 o' e)
      show ?case
      proof (cases "r = Inr True \<and> o' = owner")
        case True
        with 1 2(2) acquire_grants [of C "lc_clock c" resource owner ttl] rel acquire.prems(1) show ?thesis
          by auto
      next
        case False
        with 1 have "lc_leases c o' = Some e" by (auto split: if_splits)
        with inv acquire_keeps_lease [OF rel acquire.prems(1)] show ?thesis by auto
      qed
    qed
  qed
next
  case (release st c owner r st')
  note inv = release.prems(2) [unfolded lock_inv_def]
  from release(2) show ?case
  proof (cases rule: release_once_cases)
    case 1
    with inv release(1) show ?thesis by (auto simp: lock_inv_def)
  next
    case (2 b)
    with inv release_keeps_lease [OF 2 [unfolded release(1)]] show ?thesis
      by (auto simp: lock_inv_def)
  qed
next
  case (other w c)
  then have "stored_lock C (contents w) resource = stored_lock C (contents (lc_world c)) resource"
    by (simp add: stored_lock_def)
  with other.prems(2) show ?case by (auto simp: lock_inv_def lease_covered_def)
next
  case (tick d c)
  then show ?case by (fastforce simp: lock_inv_def lease_covered_def)
qed

lemma lock_run_inv:
  assumes "(lock_step K C contents resource ttl)\<^sup>*\<^sup>* c c'" "codec_ok (c_lock C)"
    "lock_inv C contents resource ttl c"
  shows "lock_inv C contents resource ttl c'"
  using assms by (induction rule: rtranclp_induct) (auto intro: lock_step_inv)

lemma acquire_once_clock: "preserves (\<lambda>st. cl_clock st = c) (tc_acquire_lock_once K C resource owner ttl)"
  unfolding tc_acquire_lock_once_def commit_or_rollback_def acquire_lock_body_def put_lock_def now_utc_def
  by (intro pres)

lemma acquire_granted:
  assumes "codec_ok (c_lock C)"
  shows "valid (\<lambda>_. True) (tc_acquire_lock K C resource owner ttl)
     (\<lambda>b st. b \<longrightarrow> lease_covered C resource (contents (cl_world st)) owner
               (cl_clock st + duration_seconds ttl)) (\<lambda>_ _. True)"
  unfolding tc_acquire_lock_def
proof (rule with_retry_valid)
  show "valid (\<lambda>_. True) (tc_acquire_lock_once K C resource owner ttl)
     (\<lambda>b st. b \<longrightarrow> lease_covered C resource (contents (cl_world st)) owner
               (cl_clock st + duration_seconds ttl)) (\<lambda>_ _. True)"
  proof (rule validI)
    fix s b t
    assume step: "tc_acquire_lock_once K C resource owner ttl s = (Inr b, t)"
    have "cl_clock t = cl_clock s" using preservesD [OF acquire_once_clock _ step] by simp
    with step show "b \<longrightarrow> lease_covered C resource (contents (cl_world t)) owner
               (cl_clock t + duration_seconds ttl)"
      by (cases rule: acquire_once_cases) (auto dest: acquire_grants [OF _ assms])
  qed auto
qed auto

end

lemma lock_inv_exclusive:
  assumes "lock_inv C A resource ttl c" "lease_live c o1" "lease_live c o2"
  shows "o1 = o2"
proof -
  obtain e1 e2 where "lc_leases c o1 = Some e1" "lc_clock c \<le> e1"
    "lc_leases c o2 = Some e2" "lc_clock c \<le> e2"
    using assms(2,3) by (auto simp: lease_live_def)
  with assms(1) have "lease_covered C resource (A (lc_world c)) o1 e1"
    "lease_covered C resource (A (lc_world c)) o2 e2"
    by (auto simp: lock_inv_def)
  then show ?thesis by (auto simp: lease_covered_def)
qed

section \<open>Properties\<close>

text \<open>Lock requests that do not overlap exclude each other: for any sequence of whole requests with one time to live, releases, other
  writes and the passing of time by any processes, over a store whose calls may fail and whose failed
  commits may have been applied, at most one process has a live lease on a resource.\<close>

theorem lock_mutual_exclusion:
  assumes "tikv_backend K contents fresh pend" "codec_ok (c_lock C)"
    and "lc_leases c = Map.empty"
    and "(lock_step K C contents resource ttl)\<^sup>*\<^sup>* c c'"
    and "lease_live c' o1" "lease_live c' o2"
  shows "o1 = o2"
proof -
  have "lock_inv C contents resource ttl c" using assms(3) by (simp add: lock_inv_def)
  with tikv_backend.lock_run_inv [OF assms(1,4,2)] have "lock_inv C contents resource ttl c'"
    by blast
  then show ?thesis using assms(5,6) by (rule lock_inv_exclusive)
qed

theorem lock_mutual_exclusion_witness:
  "let st1 = demo_client (demo_store [] []) 0;
       r1 = tc_acquire_lock_once mem_kv mem_codecs ''r'' ''p1'' 10 st1;
       st2 = demo_client (cl_world (snd r1)) (5 * ns_per_sec);
       r2 = tc_acquire_lock_once mem_kv mem_codecs ''r'' ''p2'' 10 st2;
       c = \<lparr> lc_world = cl_world (snd r2), lc_clock = 5 * ns_per_sec,
             lc_leases = [''p1'' \<mapsto> 10 * ns_per_sec] \<rparr>
   in fst r2 = Inr False \<and> lease_live c ''p1'' \<and> \<not> lease_live c ''p2''"
proof -
  define st1 where "st1 = demo_client (demo_store [] []) 0"
  define r1 where "r1 = tc_acquire_lock_once mem_kv mem_codecs ''r'' ''p1'' 10 st1"
  define st2 where "st2 = demo_client (cl_world (snd r1)) (5 * ns_per_sec)"
  define r2 where "r2 = tc_acquire_lock_once mem_kv mem_codecs ''r'' ''p2'' 10 st2"
  define c0 where "c0 = \<lparr> lc_world = cl_world st1, lc_clock = 0, lc_leases = Map.empty \<rparr>"
  define c1 where "c1 = c0\<lparr>lc_world := cl_world (snd r1), lc_leases := [''p1'' \<mapsto> 10 * ns_per_sec]\<rparr>"
  define c2 where "c2 = c1\<lparr>lc_clock := 5 * ns_per_sec\<rparr>"
  define c3 where "c3 = c2\<lparr>lc_world := cl_world (snd r2)\<rparr>"
  have res: "fst r1 = Inr True" "fst r2 = Inr False"
    by (simp_all add: r2_def st2_def r1_def st1_def lock_run_defs ns_per_sec_def duration_seconds_def)
  let ?step = "lock_step mem_kv mem_codecs mem_contents ''r'' 10"
  have s01: "?step c0 c1"
    using lock_step.acquire [where K = mem_kv and C = mem_codecs and A = mem_contents and c = c0
        and st = st1 and owner = "''p1''" and r = "fst r1" and st' = "snd r1" and ttl = 10] res
    by (simp add: c0_def c1_def r1_def st1_def demo_client_def duration_seconds_def)
  have s12: "?step c1 c2"
    using lock_step.tick [where c = c1 and d = "5 * ns_per_sec"]
    by (simp add: c2_def c1_def c0_def ns_per_sec_def)
  have s23: "?step c2 c3"
    using lock_step.acquire [where K = mem_kv and C = mem_codecs and A = mem_contents and c = c2
        and st = st2 and owner = "''p2''" and r = "fst r2" and st' = "snd r2" and ttl = 10] res
    by (simp add: c3_def c2_def c1_def c0_def r2_def st2_def demo_client_def)
  from s01 s12 s23 have run: "?step\<^sup>*\<^sup>* c0 c3"
    by (blast intro: converse_rtranclp_into_rtranclp)
  have "codec_ok (c_lock mem_codecs)" "lc_leases c0 = Map.empty"
    using mem_codecs_ok by (auto simp: c0_def)
  note excl = lock_mutual_exclusion [OF mem.tikv_backend_axioms this run]
  have "lease_live c3 ''p1''"
    by (simp add: lease_live_def c3_def c2_def c1_def ns_per_sec_def)
  moreover from excl [OF this] have "\<not> lease_live c3 ''p2''" by auto
  moreover have "c3 = \<lparr> lc_world = cl_world (snd r2), lc_clock = 5 * ns_per_sec,
      lc_leases = [''p1'' \<mapsto> 10 * ns_per_sec] \<rparr>"
    by (simp add: c3_def c2_def c1_def c0_def)
  ultimately show ?thesis
    using res by (simp add: Let_def st1_def [symmetric] r1_def [symmetric] st2_def [symmetric]
        r2_def [symmetric])
qed

text \<open>a blocking acquisition that returns a guard holds the lock. Over a store whose calls may fail,
  when \<open>acquire_blocking\<close> returns a guard, the guard is for the requested resource and owner, and the
  stored record is the owner's and lasts at least the requested time from that moment.\<close>

theorem acquire_blocking_sound:
  assumes backend: "tikv_backend K contents fresh pend" and codec: "codec_ok (c_lock C)"
    and run: "lm_acquire_blocking rand K C lm resource ttl timeout st = (Inr g, st')"
  shows "g = lock_guard_new resource (lm_owner lm) (ttl_to_secs ttl) False \<and>
    lease_covered C resource (contents (cl_world st')) (lm_owner lm)
      (cl_clock st' + duration_seconds (ttl_to_secs ttl))"
proof -
  note granted = valid_Inr [OF tikv_backend.acquire_granted [OF backend codec] TrueI]
  have "lm_blocking_loop rand K C lm resource secs timeout started attempt st = (Inr g, st') \<Longrightarrow>
    g = lock_guard_new resource (lm_owner lm) secs False \<and>
    lease_covered C resource (contents (cl_world st')) (lm_owner lm) (cl_clock st' + duration_seconds secs)"
    for secs started attempt st
  proof (induction "unat (lm_max_acquire_attempts (lm_config lm)) - attempt" arbitrary: attempt st
      rule: less_induct)
    case less
    from less.prems show ?case
      by (subst (asm) lm_blocking_loop.simps)
         (auto simp: prog_iffs now_utc_def split: if_splits dest!: granted less.hyps [rotated])
  qed
  from this [OF run [unfolded lm_acquire_blocking_def, simplified now_utc_def, simplified]]
  show ?thesis .
qed

theorem acquire_blocking_sound_witness:
  "let r = lm_acquire_blocking (\<lambda>_ _. 0) mem_kv mem_codecs (lock_manager_new ''p1'') ''r''
             (duration_seconds 60) (duration_seconds 10)
             (demo_client (demo_store [] [NoFault, FailBefore ''WriteConflict'']) 0)
   in lease_covered mem_codecs ''r'' (mem_contents (cl_world (snd r))) ''p1''
        (cl_clock (snd r) + duration_seconds 60)"
proof -
  define r where "r = lm_acquire_blocking (\<lambda>_ _. 0) mem_kv mem_codecs (lock_manager_new ''p1'') ''r''
             (duration_seconds 60) (duration_seconds 10)
             (demo_client (demo_store [] [NoFault, FailBefore ''WriteConflict'']) 0)"
  have "fst r = Inr (lock_guard_new ''r'' ''p1'' 60 False)"
    by (simp add: r_def lm_acquire_blocking_def lm_blocking_loop.simps tc_acquire_lock_def with_retry_def
        retry_loop.simps lock_run_defs lock_manager_new_def default_tikv_config_def env_unsigned_def
        is_retryable_def str_contains_def duration_seconds_def ns_per_sec_def ns_per_ms_def
        ttl_to_secs_def)
  then have "lm_acquire_blocking (\<lambda>_ _. 0) mem_kv mem_codecs (lock_manager_new ''p1'') ''r''
             (duration_seconds 60) (duration_seconds 10)
             (demo_client (demo_store [] [NoFault, FailBefore ''WriteConflict'']) 0)
     = (Inr (lock_guard_new ''r'' ''p1'' 60 False), snd r)"
    by (metis prod.collapse r_def)
  note granted = acquire_blocking_sound [OF mem.tikv_backend_axioms _ this]
  have "ttl_to_secs (duration_seconds 60) = 60" "lm_owner (lock_manager_new ''p1'') = ''p1''"
    by (simp_all add: lock_manager_new_def ttl_to_secs_def duration_seconds_def ns_per_sec_def ns_per_ms_def)
  with granted mem_codecs_ok show ?thesis
    unfolding Let_def r_def [symmetric] by auto
qed

end
