(* ===== verification/Episode_Allocator.thy ===== *)
theory Episode_Allocator
  imports Client_Logic
begin

text \<open>
  \<open>episode/allocator.rs\<close>: allocation of episode indices. The distributed allocator keeps one counter per
  batch in the store and advances it by compare-and-swap; the local one is an atomic integer. \<open>cc\<close> is the
  JSON codec of the counter; \<open>counter_codec\<close> states what the code relies on of \<open>serde_json\<close>: the round trip,
  and that the member \<open>version\<close> of the written object is the field. A panic (division by a zero chunk size)
  is the error \<open>EpPanic\<close>.

  \<open>alloc_step\<close> interleaves the reads and swaps of any number of allocations, each swap undisturbed; then no index is granted
  twice. Swaps that overlap are the subject of the theory \<open>Overlap\<close>.
\<close>

section \<open>Allocations\<close>

datatype episode_error =
    EpTikv tikv_error
  | EpOverflow u64
  | EpNotInitialized string
  | EpBatchExceedsLimit nat u64 u64
  | EpPanic

record episode_allocation =
  ea_episode_index :: u64
  ea_chunk_index :: u32
  ea_chunk_offset :: u32

definition chunk_index_from_episode :: "u64 \<Rightarrow> u32 \<Rightarrow> u32" where
  "chunk_index_from_episode e n = ucast (e div ucast n)"

definition episode_allocation_new :: "u64 \<Rightarrow> u32 \<Rightarrow> episode_error + episode_allocation" where
  "episode_allocation_new e n =
     (if n = 0 then Inl EpPanic
      else Inr \<lparr> ea_episode_index = e, ea_chunk_index = ucast (e div ucast n),
                 ea_chunk_offset = ucast (e mod ucast n) \<rparr>)"

definition video_path :: "string \<Rightarrow> episode_allocation \<Rightarrow> string" where
  "video_path camera a =
     ''videos/chunk-'' @ pad_zero 3 (show_nat (unat (ea_chunk_index a))) @ ''/'' @ camera @ ''/episode_''
     @ pad_zero 6 (show_nat (unat (ea_episode_index a))) @ ''.mp4''"

definition parquet_path :: "episode_allocation \<Rightarrow> string" where
  "parquet_path a =
     ''data/chunk-'' @ pad_zero 3 (show_nat (unat (ea_chunk_index a))) @ ''/episode_''
     @ pad_zero 6 (show_nat (unat (ea_episode_index a))) @ ''.parquet''"

text \<open>\<open>(start..start + count).map(EpisodeAllocation::new).collect()\<close>\<close>

fun allocations_from :: "u32 \<Rightarrow> u64 \<Rightarrow> nat \<Rightarrow> episode_error + episode_allocation list" where
  "allocations_from n start 0 = Inr []"
| "allocations_from n start (Suc k) =
     (case episode_allocation_new start n of
        Inl e \<Rightarrow> Inl e
      | Inr a \<Rightarrow> (case allocations_from n (start + 1) k of Inl e \<Rightarrow> Inl e | Inr as \<Rightarrow> Inr (a # as)))"

section \<open>The distributed allocator\<close>

record episode_counter =
  ec_next_episode :: u64
  ec_version :: u64

definition episode_counter_new :: episode_counter where
  "episode_counter_new = \<lparr> ec_next_episode = 0, ec_version = 0 \<rparr>"

record episode_allocator =
  al_batch_id :: string
  al_episodes_per_chunk :: u32
  al_max_episodes :: u64
  al_counter_key :: key

definition episode_allocator_new :: "string \<Rightarrow> u32 \<Rightarrow> episode_allocator" where
  "episode_allocator_new batch n =
     \<lparr> al_batch_id = batch, al_episodes_per_chunk = n,
       al_max_episodes = ucast (- 1 :: u32) * ucast n,
       al_counter_key = ''/batch/'' @ batch @ ''/episode_counter'' \<rparr>"

definition al_with_max_episodes :: "u64 \<Rightarrow> episode_allocator \<Rightarrow> episode_allocator" where
  "al_with_max_episodes m a = a\<lparr>al_max_episodes := m\<rparr>"

definition counter_codec :: "'v codecs \<Rightarrow> ('v, episode_counter) codec \<Rightarrow> bool" where
  "counter_codec C cc \<longleftrightarrow> codec_ok cc \<and> (\<forall>c. json_version C (enc cc c) = Some (ec_version c))"

definition ensure_initialized ::
    "('s, 'v) kv \<Rightarrow> 'v codecs \<Rightarrow> ('v, episode_counter) codec \<Rightarrow> episode_allocator \<Rightarrow> ('s, unit) tc" where
  "ensure_initialized K C cc a =
     bindM (tc_get K (al_counter_key a)) (\<lambda>existing.
     case existing of
       Some _ \<Rightarrow> ret ()
     | None \<Rightarrow>
         bindM (liftR (encode cc episode_counter_new)) (\<lambda>value.
         handleM (tc_cas K C (al_counter_key a) 0 value) (\<lambda>_. ret ()) (\<lambda>_. ret ())))"

text \<open>The counter after an allocation.\<close>

definition advance_counter :: "u64 \<Rightarrow> u64 \<Rightarrow> episode_counter \<Rightarrow> episode_error + episode_counter" where
  "advance_counter mx count c =
     (case checked_add (ec_next_episode c) count of
        None \<Rightarrow> Inl (EpOverflow mx)
      | Some new_next \<Rightarrow>
          if new_next > mx then Inl (EpOverflow mx)
          else Inr (c\<lparr>ec_next_episode := new_next, ec_version := ec_version c + 1\<rparr>))"

definition cas_allocate ::
    "('s, 'v) kv \<Rightarrow> 'v codecs \<Rightarrow> ('v, episode_counter) codec \<Rightarrow> episode_allocator \<Rightarrow> u64 \<Rightarrow>
     ('s client, episode_error, u64) prog" where
  "cas_allocate K C cc a count =
     bindM (map_errM EpTikv (ensure_initialized K C cc a)) (\<lambda>_.
     bindM (map_errM EpTikv (tc_get K (al_counter_key a))) (\<lambda>data.
     case data of
       None \<Rightarrow> throw (EpNotInitialized (al_batch_id a))
     | Some existing \<Rightarrow>
         bindM (map_errM EpTikv (liftR (decode cc [] existing))) (\<lambda>counter.
         bindM (liftR (advance_counter (al_max_episodes a) count counter)) (\<lambda>counter'.
         bindM (map_errM EpTikv (liftR (encode cc counter'))) (\<lambda>new_value.
         bindM (map_errM EpTikv (tc_cas K C (al_counter_key a) (ec_version counter' - 1) new_value)) (\<lambda>success.
         if success then ret (ec_next_episode counter)
         else throw (EpTikv (CasFailed (ec_version counter' - 1) (ec_version counter')))))))))"

text \<open>The loop of \<open>allocate\<close> and \<open>allocate_batch\<close>: ten attempts, with a delay after each lost swap.\<close>

function alloc_loop ::
    "('s, 'v) kv \<Rightarrow> 'v codecs \<Rightarrow> ('v, episode_counter) codec \<Rightarrow> episode_allocator \<Rightarrow> u64 \<Rightarrow> nat \<Rightarrow>
     ('s client, episode_error, u64) prog" where
  "alloc_loop K C cc a count attempts =
     handleM (cas_allocate K C cc a count)
       (\<lambda>e. case e of
              EpTikv (CasFailed _ _) \<Rightarrow>
                (if Suc attempts \<ge> 10 then throw (EpTikv (CasFailed 0 0))
                 else bindM (map_errM EpTikv (sleep (2 ^ min attempts 6 * ns_per_ms)))
                        (\<lambda>_. alloc_loop K C cc a count (Suc attempts)))
            | _ \<Rightarrow> throw e)
       ret"
  by pat_completeness auto
termination by (relation "measure (\<lambda>(K, C, cc, a, n, i). 10 - i)") auto

declare alloc_loop.simps [simp del]

definition ep_allocate ::
    "('s, 'v) kv \<Rightarrow> 'v codecs \<Rightarrow> ('v, episode_counter) codec \<Rightarrow> episode_allocator \<Rightarrow>
     ('s client, episode_error, episode_allocation) prog" where
  "ep_allocate K C cc a =
     bindM (alloc_loop K C cc a 1 0) (\<lambda>start.
     liftR (episode_allocation_new start (al_episodes_per_chunk a)))"

definition ep_allocate_batch ::
    "('s, 'v) kv \<Rightarrow> 'v codecs \<Rightarrow> ('v, episode_counter) codec \<Rightarrow> episode_allocator \<Rightarrow> u64 \<Rightarrow>
     ('s client, episode_error, episode_allocation list) prog" where
  "ep_allocate_batch K C cc a count =
     (if count = 0 then ret []
      else bindM (alloc_loop K C cc a count 0) (\<lambda>start.
           liftR (allocations_from (al_episodes_per_chunk a) start (unat count))))"

definition ep_allocated_count ::
    "('s, 'v) kv \<Rightarrow> ('v, episode_counter) codec \<Rightarrow> episode_allocator \<Rightarrow>
     ('s client, episode_error, u64) prog" where
  "ep_allocated_count K cc a =
     bindM (map_errM EpTikv (tc_get K (al_counter_key a))) (\<lambda>existing.
     case existing of
       Some data \<Rightarrow>
         bindM (map_errM EpTikv (liftR (decode cc [] data))) (\<lambda>counter. ret (ec_next_episode counter))
     | None \<Rightarrow> ret 0)"

section \<open>The local allocator\<close>

record local_allocator =
  la_counter :: u64
  la_episodes_per_chunk :: u32
  la_max_episodes :: u64

definition local_allocator_new :: "u32 \<Rightarrow> local_allocator" where
  "local_allocator_new n =
     \<lparr> la_counter = 0, la_episodes_per_chunk = n, la_max_episodes = ucast (- 1 :: u32) * ucast n \<rparr>"

definition la_with_max_episodes :: "u64 \<Rightarrow> local_allocator \<Rightarrow> local_allocator" where
  "la_with_max_episodes m a = a\<lparr>la_max_episodes := m\<rparr>"

definition la_allocate :: "(local_allocator, episode_error, episode_allocation) prog" where
  "la_allocate a =
     (let index = la_counter a; a' = a\<lparr>la_counter := la_counter a + 1\<rparr>
      in if index \<ge> la_max_episodes a then (Inl (EpOverflow (la_max_episodes a)), a')
         else (episode_allocation_new index (la_episodes_per_chunk a), a'))"

definition la_allocate_batch :: "u64 \<Rightarrow> (local_allocator, episode_error, episode_allocation list) prog" where
  "la_allocate_batch count a =
     (if count = 0 then (Inr [], a)
      else let start = la_counter a; a' = a\<lparr>la_counter := la_counter a + count\<rparr>
           in if start + count > la_max_episodes a
                then (Inl (EpBatchExceedsLimit (unat count) start (la_max_episodes a)), a')
              else (allocations_from (la_episodes_per_chunk a) start (unat (start + count) - unat start), a'))"

definition la_allocated_count :: "local_allocator \<Rightarrow> u64" where
  "la_allocated_count a = la_counter a"

section \<open>Interleavings\<close>

text \<open>
  Any number of processes allocate at once. Between its store operations a process remembers the counter it
  read and the number of indices it wants. \<open>init\<close> is the swap of \<open>ensure_initialized\<close>; \<open>swap\<close> is the
  final swap, which grants the range on success; \<open>other\<close> is everything else in the cluster.
\<close>

record 's alloc_cluster =
  ax_world :: 's
  ax_reads :: "nat \<rightharpoonup> episode_counter \<times> u64"
  ax_granted :: "(u64 \<times> u64) list"

inductive alloc_step ::
    "('s, 'v) kv \<Rightarrow> 'v codecs \<Rightarrow> ('v, episode_counter) codec \<Rightarrow> ('s \<Rightarrow> key \<rightharpoonup> 'v) \<Rightarrow> episode_allocator \<Rightarrow>
     's alloc_cluster \<Rightarrow> 's alloc_cluster \<Rightarrow> bool"
  for K C cc A a where
  read:
    "cl_world st = ax_world c \<Longrightarrow> tc_get K (al_counter_key a) st = (Inr (Some v), st') \<Longrightarrow>
     decode cc [] v = Inr counter \<Longrightarrow> count \<noteq> 0 \<Longrightarrow>
     alloc_step K C cc A a c
       (c\<lparr>ax_world := cl_world st', ax_reads := (ax_reads c)(p \<mapsto> (counter, count))\<rparr>)"
| init:
    "cl_world st = ax_world c \<Longrightarrow> encode cc episode_counter_new = Inr v \<Longrightarrow>
     tc_cas K C (al_counter_key a) 0 v st = (r, st') \<Longrightarrow>
     alloc_step K C cc A a c (c\<lparr>ax_world := cl_world st'\<rparr>)"
| swap:
    "cl_world st = ax_world c \<Longrightarrow> ax_reads c p = Some (counter, count) \<Longrightarrow>
     advance_counter (al_max_episodes a) count counter = Inr counter' \<Longrightarrow> encode cc counter' = Inr v \<Longrightarrow>
     tc_cas K C (al_counter_key a) (ec_version counter' - 1) v st = (r, st') \<Longrightarrow>
     alloc_step K C cc A a c
       (c\<lparr>ax_world := cl_world st', ax_reads := (ax_reads c)(p := None),
          ax_granted := (if r = Inr True then (ec_next_episode counter, count) # ax_granted c else ax_granted c)\<rparr>)"
| other:
    "A w (al_counter_key a) = A (ax_world c) (al_counter_key a) \<Longrightarrow>
     alloc_step K C cc A a c (c\<lparr>ax_world := w\<rparr>)"

definition granted_indices :: "(u64 \<times> u64) list \<Rightarrow> nat list" where
  "granted_indices gs = concat (map (\<lambda>(s, n). [unat s ..< unat s + unat n]) gs)"

lemma granted_indices_simps [simp]:
  "granted_indices [] = []"
  "granted_indices ((s, n) # gs) = [unat s ..< unat s + unat n] @ granted_indices gs"
  by (simp_all add: granted_indices_def)

text \<open>A counter's version determines its value: versions and indices only grow together.\<close>

definition counter_ok :: "u64 \<Rightarrow> episode_counter \<Rightarrow> bool" where
  "counter_ok mx c \<longleftrightarrow>
     unat (ec_version c) \<le> unat (ec_next_episode c) \<and> (ec_version c = 0 \<longrightarrow> ec_next_episode c = 0) \<and>
     ec_next_episode c \<le> mx"

definition counter_stored ::
    "('v, episode_counter) codec \<Rightarrow> episode_allocator \<Rightarrow> (key \<rightharpoonup> 'v) \<Rightarrow> bool" where
  "counter_stored cc a m \<longleftrightarrow>
     (case m (al_counter_key a) of
        None \<Rightarrow> True
      | Some v \<Rightarrow> (\<exists>c. v = enc cc c \<and> counter_ok (al_max_episodes a) c))"

definition reads_ok :: "(nat \<rightharpoonup> episode_counter \<times> u64) \<Rightarrow> episode_counter \<Rightarrow> bool" where
  "reads_ok rs cur \<longleftrightarrow>
     (\<forall>p r n. rs p = Some (r, n) \<longrightarrow> n \<noteq> 0 \<and> ec_version r \<le> ec_version cur \<and>
        (ec_version r = ec_version cur \<longrightarrow> r = cur))"

definition alloc_inv ::
    "('v, episode_counter) codec \<Rightarrow> ('s \<Rightarrow> key \<rightharpoonup> 'v) \<Rightarrow> episode_allocator \<Rightarrow> 's alloc_cluster \<Rightarrow> bool" where
  "alloc_inv cc A a c \<longleftrightarrow>
     distinct (granted_indices (ax_granted c)) \<and>
     (case A (ax_world c) (al_counter_key a) of
        None \<Rightarrow> ax_reads c = Map.empty \<and> ax_granted c = []
      | Some v \<Rightarrow> (\<exists>cur. v = enc cc cur \<and> counter_ok (al_max_episodes a) cur \<and>
          (\<forall>i \<in> set (granted_indices (ax_granted c)). i < unat (ec_next_episode cur)) \<and>
          reads_ok (ax_reads c) cur))"

lemma reads_ok_add: "reads_ok rs cur \<Longrightarrow> n \<noteq> 0 \<Longrightarrow> reads_ok (rs(p \<mapsto> (cur, n))) cur"
  by (auto simp: reads_ok_def)

lemma reads_ok_forward:
  assumes "reads_ok rs cur" "ec_version cur < ec_version d"
  shows "reads_ok (rs(p := None)) d"
  unfolding reads_ok_def
proof (intro allI impI)
  fix q r n
  assume "(rs(p := None)) q = Some (r, n)"
  then have "n \<noteq> 0" "ec_version r \<le> ec_version cur"
    using assms(1) by (auto simp: reads_ok_def split: if_splits)
  moreover from this(2) assms(2) have "ec_version r < ec_version d" by (rule le_less_trans)
  ultimately show "n \<noteq> 0 \<and> ec_version r \<le> ec_version d \<and> (ec_version r = ec_version d \<longrightarrow> r = d)"
    by simp
qed

lemma alloc_inv_Some:
  assumes "A (ax_world c) (al_counter_key a) = Some (enc cc cur)" "codec_ok cc"
  shows "alloc_inv cc A a c \<longleftrightarrow>
    distinct (granted_indices (ax_granted c)) \<and> counter_ok (al_max_episodes a) cur \<and>
    (\<forall>i \<in> set (granted_indices (ax_granted c)). i < unat (ec_next_episode cur)) \<and> reads_ok (ax_reads c) cur"
  by (simp add: alloc_inv_def assms enc_inj)

lemma advance_ok:
  assumes "advance_counter mx n c = Inr d" "counter_ok mx c" "n \<noteq> 0"
  shows "counter_ok mx d" "ec_version c < ec_version d" "ec_version d - 1 = ec_version c"
    "unat (ec_next_episode d) = unat (ec_next_episode c) + unat n"
proof -
  have add: "unat (ec_next_episode c) + unat n < 2 ^ 64" "ec_next_episode c + n \<le> mx"
    and d: "d = c\<lparr>ec_next_episode := ec_next_episode c + n, ec_version := ec_version c + 1\<rparr>"
    using assms(1) by (auto simp: advance_counter_def checked_add_def split: if_splits)
  have n: "0 < unat n" using assms(3) by (simp add: unat_gt_0)
  have next_d: "unat (ec_next_episode c + n) = unat (ec_next_episode c) + unat n"
    using add(1) by (intro unat_add_no_wrap) simp
  have "unat (ec_version c) < unat (ec_next_episode c + n)"
    using assms(2) n next_d by (simp add: counter_ok_def)
  then have ver: "unat (ec_version c + 1) = unat (ec_version c) + 1"
    by (rule unat_inc_no_wrap)
  show "unat (ec_next_episode d) = unat (ec_next_episode c) + unat n" using d next_d by simp
  show "ec_version c < ec_version d" using d ver by (simp add: word_less_nat_alt)
  show "ec_version d - 1 = ec_version c" using d by simp
  have "ec_version c + 1 \<noteq> 0" using ver by (metis One_nat_def add_is_0 nat.simps(3) unat_0)
  then show "counter_ok mx d"
    using d ver next_d add(2) assms(2) n by (auto simp: counter_ok_def)
qed

lemma alloc_inv_read:
  assumes inv: "alloc_inv cc A a c" and v: "A (ax_world c) (al_counter_key a) = Some v"
    and dec: "decode cc [] v = Inr r" and cc: "codec_ok cc" and n: "n \<noteq> 0"
    and w: "A w (al_counter_key a) = A (ax_world c) (al_counter_key a)"
  shows "alloc_inv cc A a (c\<lparr>ax_world := w, ax_reads := (ax_reads c)(p \<mapsto> (r, n))\<rparr>)"
proof -
  obtain cur where cur: "v = enc cc cur" using inv v by (auto simp: alloc_inv_def)
  with dec cc have "r = cur" by simp
  moreover have stored: "A (ax_world c) (al_counter_key a) = Some (enc cc cur)" using v cur by simp
  ultimately show ?thesis
    using inv n w by (simp add: alloc_inv_Some [OF _ cc] reads_ok_add)
qed

lemma alloc_inv_swap:
  assumes inv: "alloc_inv cc A a c" and r: "ax_reads c p = Some (r, n)"
    and adv: "advance_counter (al_max_episodes a) n r = Inr d"
    and cur: "A (ax_world c) (al_counter_key a) = Some (enc cc cur)" and cc: "codec_ok cc"
    and ver: "ec_version cur = ec_version d - 1" and w: "A w (al_counter_key a) = Some (enc cc d)"
  shows "alloc_inv cc A a (c\<lparr>ax_world := w, ax_reads := (ax_reads c)(p := None),
           ax_granted := (if won then (ec_next_episode r, n) # ax_granted c else ax_granted c)\<rparr>)"
proof -
  have old: "counter_ok (al_max_episodes a) cur" "distinct (granted_indices (ax_granted c))"
    "\<forall>i \<in> set (granted_indices (ax_granted c)). i < unat (ec_next_episode cur)" "reads_ok (ax_reads c) cur"
    using inv by (simp_all add: alloc_inv_Some [where A = A and c = c, OF cur cc])
  have "ec_version d - 1 = ec_version r"
    using adv by (auto simp: advance_counter_def split: option.splits if_splits)
  with old(4) r ver have same: "r = cur" and "n \<noteq> 0" by (auto simp: reads_ok_def)
  note d = advance_ok [OF adv [unfolded same] old(1) \<open>n \<noteq> 0\<close>]
  have "\<forall>i \<in> set (granted_indices (ax_granted c)). i < unat (ec_next_episode d)"
    using old(3) d(4) by auto
  then show ?thesis
    using old(2,3) d(1,4) reads_ok_forward [OF old(4) d(2)] w cc same
    by (auto simp: alloc_inv_Some [where cur = d] dest: leD)
qed

lemma alloc_inv_world:
  "A w (al_counter_key a) = A (ax_world c) (al_counter_key a) \<Longrightarrow>
   alloc_inv cc A a (c\<lparr>ax_world := w\<rparr>) \<longleftrightarrow> alloc_inv cc A a c"
  by (simp add: alloc_inv_def split: option.split)

lemma reads_ok_forget: "reads_ok rs cur \<Longrightarrow> reads_ok (rs(p := None)) cur"
  by (auto simp: reads_ok_def)

lemma alloc_inv_forget: "alloc_inv cc A a c \<Longrightarrow> alloc_inv cc A a (c\<lparr>ax_reads := (ax_reads c)(p := None)\<rparr>)"
  by (cases c) (auto simp: alloc_inv_def fun_upd_idem intro: reads_ok_forget split: option.splits)

lemma counter_ok_new: "counter_ok mx episode_counter_new"
  by (simp add: counter_ok_def episode_counter_new_def)

lemma counter_ok_zero: "counter_ok mx c \<Longrightarrow> ec_version c = 0 \<Longrightarrow> c = episode_counter_new"
  by (simp add: counter_ok_def episode_counter_new_def)

context tikv_backend
begin

lemma alloc_init_inv:
  assumes inv: "alloc_inv cc contents a c" and cc: "counter_codec C cc"
    and run: "tc_cas K C (al_counter_key a) 0 (enc cc episode_counter_new) st = (r, st')"
    and st: "cl_world st = ax_world c"
  shows "alloc_inv cc contents a (c\<lparr>ax_world := cl_world st'\<rparr>)"
proof -
  let ?k = "al_counter_key a" and ?m = "contents (ax_world c)"
  have ok: "codec_ok cc" using cc by (simp add: counter_codec_def)
  consider (same) "contents (cl_world st') ?k = ?m ?k"
    | (created) "contents (cl_world st') ?k = Some (enc cc episode_counter_new)" "?m ?k = None"
    | (zero) d where "contents (cl_world st') ?k = Some (enc cc episode_counter_new)" "?m ?k = Some d"
        "json_version C d = Some 0"
    using run_cas [OF run] st by (auto split: option.splits)
  then show ?thesis
  proof cases
    case same
    then show ?thesis using inv by (simp add: alloc_inv_world)
  next
    case created
    with inv ok show ?thesis
      by (simp add: alloc_inv_Some [where cur = episode_counter_new] counter_ok_new)
         (simp add: alloc_inv_def reads_ok_def)
  next
    case zero
    with inv obtain cur where cur: "d = enc cc cur" "counter_ok (al_max_episodes a) cur"
      by (auto simp: alloc_inv_def)
    with zero cc have "ec_version cur = 0" by (simp add: counter_codec_def)
    with cur counter_ok_zero have "d = enc cc episode_counter_new" by blast
    with zero inv show ?thesis by (simp add: alloc_inv_world)
  qed
qed

lemma alloc_swap_inv:
  assumes inv: "alloc_inv cc contents a c" and cc: "counter_codec C cc"
    and r: "ax_reads c p = Some (counter, n)"
    and adv: "advance_counter (al_max_episodes a) n counter = Inr d"
    and run: "tc_cas K C (al_counter_key a) (ec_version d - 1) (enc cc d) st = (res, st')"
    and st: "cl_world st = ax_world c"
  shows "alloc_inv cc contents a (c\<lparr>ax_world := cl_world st', ax_reads := (ax_reads c)(p := None),
    ax_granted := (if res = Inr True then (ec_next_episode counter, n) # ax_granted c else ax_granted c)\<rparr>)"
proof -
  let ?k = "al_counter_key a" and ?m = "contents (ax_world c)"
  have ok: "codec_ok cc" using cc by (simp add: counter_codec_def)
  obtain cur where cur: "?m ?k = Some (enc cc cur)"
    using inv r by (auto simp: alloc_inv_def split: option.splits)
  consider "contents (cl_world st') ?k = ?m ?k" "res \<noteq> Inr True"
    | "contents (cl_world st') ?k = Some (enc cc d)" "json_version C (enc cc cur) = Some (ec_version d - 1)"
    using run_cas [OF run] st cur by auto
  then show ?thesis
  proof cases
    case 1
    with inv have "alloc_inv cc contents a (c\<lparr>ax_world := cl_world st'\<rparr>)" by (simp add: alloc_inv_world)
    from alloc_inv_forget [OF this, of p] 1 show ?thesis by simp
  next
    case 2
    then have "ec_version cur = ec_version d - 1" using cc by (simp add: counter_codec_def)
    from alloc_inv_swap [where A = contents and w = "cl_world st'", OF inv r adv cur ok this 2(1), of "res = Inr True"]
    show ?thesis by simp
  qed
qed

lemma alloc_step_inv:
  assumes "alloc_step K C cc contents a c c'" "counter_codec C cc" "alloc_inv cc contents a c"
  shows "alloc_inv cc contents a c'"
  using assms
proof (induction rule: alloc_step.induct)
  case (read st c v st' counter count p)
  have "Some v = contents (ax_world c) (al_counter_key a)" "contents (cl_world st') = contents (ax_world c)"
    using run_get(1) [OF read(2)] read(1) by simp_all
  with read show ?case
    by (intro alloc_inv_read [where v = v]) (auto simp: counter_codec_def)
next
  case (init st c v r st')
  then show ?case
    using alloc_init_inv [of cc a c C st r st'] by (auto simp: counter_codec_def)
next
  case (swap st c p counter count counter' v r st')
  then show ?case
    using alloc_swap_inv [of cc a c C p counter count counter' st r st'] by (auto simp: counter_codec_def)
next
  case (other w c)
  then show ?case by (simp add: alloc_inv_world)
qed

lemma alloc_run_inv:
  assumes "(alloc_step K C cc contents a)\<^sup>*\<^sup>* c c'" "counter_codec C cc" "alloc_inv cc contents a c"
  shows "alloc_inv cc contents a c'"
  using assms by (induction rule: rtranclp_induct) (auto intro: alloc_step_inv)

text \<open>A run of the allocator without interruption is a sequence of steps.\<close>

definition reaches ::
    "'v codecs \<Rightarrow> ('v, episode_counter) codec \<Rightarrow> episode_allocator \<Rightarrow> 's alloc_cluster \<Rightarrow> 's \<Rightarrow>
     (u64 \<times> u64) list \<Rightarrow> bool" where
  "reaches C cc a c w gs \<longleftrightarrow>
     (\<exists>c'. (alloc_step K C cc contents a)\<^sup>*\<^sup>* c c' \<and> ax_world c' = w \<and> ax_granted c' = gs)"

lemma reaches_refl: "reaches C cc a c (ax_world c) (ax_granted c)"
  unfolding reaches_def by blast

lemma reaches_step: "alloc_step K C cc contents a c c1 \<Longrightarrow> reaches C cc a c1 w gs \<Longrightarrow> reaches C cc a c w gs"
  unfolding reaches_def by (metis converse_rtranclp_into_rtranclp)

lemma reaches_trans:
  assumes "reaches C cc a c w gs"
    and "\<And>c1. ax_world c1 = w \<Longrightarrow> ax_granted c1 = gs \<Longrightarrow> reaches C cc a c1 w' gs'"
  shows "reaches C cc a c w' gs'"
proof -
  obtain c1 where c1: "(alloc_step K C cc contents a)\<^sup>*\<^sup>* c c1" "ax_world c1 = w" "ax_granted c1 = gs"
    using assms(1) by (auto simp: reaches_def)
  from assms(2) [OF c1(2,3)] c1(1) show ?thesis
    unfolding reaches_def by (metis rtranclp_trans)
qed

lemma reaches_get:
  assumes "tc_get K k st = (g, st')" "cl_world st = ax_world c"
  shows "reaches C cc a c (cl_world st') (ax_granted c)"
proof -
  have "contents (cl_world st') = contents (ax_world c)"
    using run_get [of k st] assms by (cases g) auto
  then have "alloc_step K C cc contents a c (c\<lparr>ax_world := cl_world st'\<rparr>)"
    by (intro alloc_step.other) simp
  then show ?thesis by (rule reaches_step) (use reaches_refl [of C cc a "c\<lparr>ax_world := cl_world st'\<rparr>"] in simp)
qed

lemma reaches_init:
  assumes "tc_cas K C (al_counter_key a) 0 (enc cc episode_counter_new) st = (r, st')"
    "cl_world st = ax_world c" "codec_ok cc"
  shows "reaches C cc a c (cl_world st') (ax_granted c)"
proof -
  have "alloc_step K C cc contents a c (c\<lparr>ax_world := cl_world st'\<rparr>)"
    by (rule alloc_step.init [OF assms(2) _ assms(1)]) (use assms(3) in simp)
  then show ?thesis by (rule reaches_step) (use reaches_refl [of C cc a "c\<lparr>ax_world := cl_world st'\<rparr>"] in simp)
qed

lemma ensure_reaches:
  assumes run: "ensure_initialized K C cc a st = (r, st')" and st: "cl_world st = ax_world c"
    and cc: "codec_ok cc"
  shows "reaches C cc a c (cl_world st') (ax_granted c)"
proof -
  obtain g s1 where get: "tc_get K (al_counter_key a) st = (g, s1)" by force
  note to_s1 = reaches_get [OF get st, of C cc a]
  show ?thesis
  proof (cases "g = Inr None")
    case True
    obtain q t where cas: "tc_cas K C (al_counter_key a) 0 (enc cc episode_counter_new) s1 = (q, t)" by force
    with run get True cc have "t = st'"
      by (cases q) (auto simp: ensure_initialized_def bindM_def handleM_def)
    with cas show ?thesis
      by (intro reaches_trans [OF to_s1]) (metis reaches_init [OF _ _ cc])
  next
    case False
    with run get have "s1 = st'"
      by (cases g) (auto simp: ensure_initialized_def bindM_def split: option.splits)
    with to_s1 show ?thesis by simp
  qed
qed

lemma reaches_swap:
  assumes get: "tc_get K (al_counter_key a) st = (Inr (Some v), s2)" and st: "cl_world st = ax_world c"
    and dec: "decode cc [] v = Inr counter" and n: "n \<noteq> 0" and cc: "codec_ok cc"
    and adv: "advance_counter (al_max_episodes a) n counter = Inr d"
    and cas: "tc_cas K C (al_counter_key a) (ec_version d - 1) (enc cc d) s2 = (q, s3)"
  shows "reaches C cc a c (cl_world s3)
    (if q = Inr True then (ec_next_episode counter, n) # ax_granted c else ax_granted c)"
proof -
  let ?c1 = "c\<lparr>ax_world := cl_world s2, ax_reads := (ax_reads c)(0 \<mapsto> (counter, n))\<rparr>"
  have r: "alloc_step K C cc contents a c ?c1" by (rule alloc_step.read [OF st get dec n])
  have "alloc_step K C cc contents a ?c1
      (?c1\<lparr>ax_world := cl_world s3, ax_reads := (ax_reads ?c1)(0 := None),
         ax_granted := (if q = Inr True then (ec_next_episode counter, n) # ax_granted ?c1 else ax_granted ?c1)\<rparr>)"
    by (rule alloc_step.swap [OF _ _ adv _ cas]) (use cc in simp_all)
  from reaches_step [OF r reaches_step [OF this reaches_refl]] show ?thesis by (cases "q = Inr True") simp_all
qed

lemma cas_allocate_reaches:
  assumes run: "cas_allocate K C cc a n st = (r, st')" and st: "cl_world st = ax_world c"
    and cc: "codec_ok cc" and n: "n \<noteq> 0"
  shows "reaches C cc a c (cl_world st')
    (case r of Inr s \<Rightarrow> (s, n) # ax_granted c | Inl _ \<Rightarrow> ax_granted c)"
proof -
  obtain e s1 where ens: "ensure_initialized K C cc a st = (e, s1)" by force
  obtain g s2 where get: "tc_get K (al_counter_key a) s1 = (g, s2)" by force
  note to_s1 = ensure_reaches [OF ens st cc]
  have to_s2: "reaches C cc a c (cl_world s2) (ax_granted c)"
    by (rule reaches_trans [OF to_s1]) (metis reaches_get [OF get])
  show ?thesis
  proof (cases e)
    case (Inl x)
    with run ens have "r = Inl (EpTikv x)" "st' = s1"
      by (auto simp: cas_allocate_def bindM_def map_errM_def handleM_def)
    with to_s1 show ?thesis by simp
  next
    case (Inr u)
    have eq: "cas_allocate K C cc a n st =
        (case g of Inl x \<Rightarrow> (Inl (EpTikv x), s2)
         | Inr None \<Rightarrow> (Inl (EpNotInitialized (al_batch_id a)), s2)
         | Inr (Some v) \<Rightarrow>
             (case decode cc [] v of Inl x \<Rightarrow> (Inl (EpTikv x), s2)
              | Inr counter \<Rightarrow>
                  (case advance_counter (al_max_episodes a) n counter of Inl x \<Rightarrow> (Inl x, s2)
                   | Inr d \<Rightarrow>
                       (case tc_cas K C (al_counter_key a) (ec_version d - 1) (enc cc d) s2 of
                          (Inl x, s3) \<Rightarrow> (Inl (EpTikv x), s3)
                        | (Inr b, s3) \<Rightarrow>
                            (if b then Inr (ec_next_episode counter)
                             else Inl (EpTikv (CasFailed (ec_version d - 1) (ec_version d))), s3)))))"
      using ens get Inr cc
      by (auto simp: cas_allocate_def bindM_def map_errM_def handleM_def split: sum.splits option.splits prod.splits)
    consider (bad) x where "r = Inl x" "st' = s2"
      | (go) v counter d where "g = Inr (Some v)" "decode cc [] v = Inr counter"
          "advance_counter (al_max_episodes a) n counter = Inr d"
      using run unfolding eq by (auto split: sum.splits option.splits)
    then show ?thesis
    proof cases
      case bad
      with to_s2 show ?thesis by simp
    next
      case go
      obtain q s3 where cas: "tc_cas K C (al_counter_key a) (ec_version d - 1) (enc cc d) s2 = (q, s3)" by force
      have "reaches C cc a c (cl_world s3)
          (if q = Inr True then (ec_next_episode counter, n) # ax_granted c else ax_granted c)"
        by (rule reaches_trans [OF to_s1])
           (metis reaches_swap [OF get [unfolded go(1)] _ go(2) n cc go(3) cas])
      moreover have "st' = s3" "r = (case q of Inl x \<Rightarrow> Inl (EpTikv x)
          | Inr b \<Rightarrow> if b then Inr (ec_next_episode counter)
                     else Inl (EpTikv (CasFailed (ec_version d - 1) (ec_version d))))"
        using run unfolding eq by (auto simp: go cas split: sum.splits)
      ultimately show ?thesis by (cases q) (auto split: if_splits)
    qed
  qed
qed

lemma alloc_loop_reaches:
  assumes "alloc_loop K C cc a n i st = (Inr s, st')" "cl_world st = ax_world c" "codec_ok cc" "n \<noteq> 0"
  shows "reaches C cc a c (cl_world st') ((s, n) # ax_granted c)"
  using assms
proof (induction "10 - i" arbitrary: i st c rule: less_induct)
  case less
  obtain r s1 where run: "cas_allocate K C cc a n st = (r, s1)" by force
  note to_s1 = cas_allocate_reaches [OF run less.prems(2-4)]
  show ?case
  proof (cases r)
    case (Inr x)
    with less.prems(1) run have "x = s" "s1 = st'"
      by (subst (asm) alloc_loop.simps, simp add: handleM_def)+
    with to_s1 Inr show ?thesis by simp
  next
    case (Inl e)
    then obtain x y where e: "e = EpTikv (CasFailed x y)" "Suc i < 10"
      and rest: "alloc_loop K C cc a n (Suc i) (s1\<lparr>cl_clock := cl_clock s1 + 2 ^ min i 6 * ns_per_ms\<rparr>) = (Inr s, st')"
      using less.prems(1) run
      by (subst (asm) alloc_loop.simps)
         (auto simp: handleM_def map_errM_def bindM_def sleep_def
            split: episode_error.splits tikv_error.splits if_splits)
    have IH: "reaches C cc a c1 (cl_world st') ((s, n) # ax_granted c1)" if "ax_world c1 = cl_world s1" for c1
      using less.hyps [OF _ rest, of c1] that e(2) less.prems(3,4) by simp
    show ?thesis
      by (rule reaches_trans [OF to_s1 [unfolded Inl sum.case]]) (metis IH)
  qed
qed

end

section \<open>Layout\<close>

lemma episode_allocation_index: "episode_allocation_new e n = Inr x \<Longrightarrow> ea_episode_index x = e"
  by (auto simp: episode_allocation_new_def split: if_splits)

lemma allocations_from_indices:
  "allocations_from n s k = Inr xs \<Longrightarrow> unat s + k \<le> 2 ^ 64 - 1 \<Longrightarrow>
   map (\<lambda>x. unat (ea_episode_index x)) xs = [unat s ..< unat s + k]"
proof (induction k arbitrary: s xs)
  case 0
  then show ?case by simp
next
  case (Suc k)
  have step: "unat (s + 1) = unat s + 1" using Suc.prems(2) by (intro unat_inc_no_wrap [of _ "- 1"]) (simp add: unat_minus_1)
  from Suc.prems(1) obtain x ys where xs: "xs = x # ys" "episode_allocation_new s n = Inr x"
    "allocations_from n (s + 1) k = Inr ys"
    by (auto split: sum.splits)
  with Suc.IH [OF xs(3)] Suc.prems(2) step episode_allocation_index [OF xs(2)] show ?case
    by (simp add: upt_rec)
qed

lemma allocations_from_total: "n \<noteq> 0 \<Longrightarrow> \<exists>xs. allocations_from n s k = Inr xs"
proof (induction k arbitrary: s)
  case (Suc k)
  then obtain xs where "allocations_from n (s + 1) k = Inr xs" by blast
  with Suc.prems show ?case by (simp add: episode_allocation_new_def)
qed simp

text \<open>Below the limit of \<open>TiKVEpisodeAllocator::new\<close> the chunk index does not lose bits.\<close>

lemma chunk_fits:
  assumes "e < al_max_episodes (episode_allocator_new b n)" "n \<noteq> 0"
  shows "unat (ucast (e div ucast n) :: u32) = unat e div unat n"
    "unat (ucast (e mod ucast n) :: u32) = unat e mod unat n"
proof -
  have n: "0 < unat n" "unat n < 2 ^ 32" using assms(2) unat_bound_u32 [of n] by (simp_all add: unat_gt_0)
  have "unat (ucast (- 1 :: u32) :: u64) * unat (ucast n :: u64) < 2 ^ LENGTH(64)"
    using n by (simp add: unat_minus_1)
  then have "unat (ucast (- 1 :: u32) * ucast n :: u64) = (2 ^ 32 - 1) * unat n"
    by (simp only: unat_mult_lem [THEN iffD1] unat_u32_u64 unat_minus_1)
  then have "unat e < (2 ^ 32 - 1) * unat n"
    using assms(1) by (simp add: word_less_nat_alt episode_allocator_new_def)
  then have "unat e div unat n < 2 ^ 32"
    by (metis less_mult_imp_div_less less_trans diff_less zero_less_numeral zero_less_power zero_less_one)
  then show "unat (ucast (e div ucast n) :: u32) = unat e div unat n"
    by (simp add: unat_u64_u32 unat_div)
  have "unat e mod unat n < 2 ^ 32" using n by (meson mod_less_divisor less_trans)
  then show "unat (ucast (e mod ucast n) :: u32) = unat e mod unat n"
    by (simp add: unat_u64_u32 unat_mod)
qed

lemma show_nat_chars: "c \<in> set (show_nat n) \<Longrightarrow> 48 \<le> (of_char c :: nat)"
proof (induction n rule: show_nat.induct)
  case (1 n)
  then show ?case
    by (subst (asm) show_nat.simps) (auto simp: digit_char_def of_char_of split: if_splits)
qed

lemma padded_no_slash: "CHR ''/'' \<notin> set (pad_zero w (show_nat n))"
  using show_nat_chars [of "CHR ''/''" n] by (auto simp: pad_zero_def)

lemma padded_inj: "pad_zero w (show_nat m) = pad_zero w (show_nat n) \<longleftrightarrow> m = n"
  by (metis digits_value_pad digits_value_show_nat)

section \<open>A calm cluster\<close>

lemma alloc_loop_once:
  "yields S (cas_allocate K C cc a n) (Inr s) S' \<Longrightarrow> yields S (alloc_loop K C cc a n i) (Inr s) S'"
  by (subst alloc_loop.simps) (rule yields_handle, assumption, rule yields_ret)

lemma yields_map_err: "yields S m (Inr x) S' \<Longrightarrow> yields S (map_errM h m) (Inr x) S'"
  unfolding map_errM_def by (rule yields_handle, assumption, rule yields_ret)

lemma cas_hit:
  "m k = Some d \<Longrightarrow> json_version C d = Some e \<Longrightarrow> cas_outcome C m k e v = (Inr True, m(k \<mapsto> v))"
  "m k = None \<Longrightarrow> cas_outcome C m k 0 v = (Inr True, m(k \<mapsto> v))"
  by (simp_all add: cas_won)

context reliable_backend
begin

lemma ensure_yields:
  assumes cc: "codec_ok cc"
  shows "yields (live m now) (ensure_initialized K C cc a) (Inr ())
    (live (m(al_counter_key a \<mapsto>
        (case m (al_counter_key a) of None \<Rightarrow> enc cc episode_counter_new | Some v \<Rightarrow> v))) now)"
proof (cases "m (al_counter_key a)")
  case None
  let ?v = "enc cc episode_counter_new"
  have "yields (live m now) (tc_cas K C (al_counter_key a) 0 ?v) (Inr True) (live (m(al_counter_key a \<mapsto> ?v)) now)"
    using cas_yields [of m now C "al_counter_key a" 0 ?v] by (simp add: cas_hit(2) [where m = m, OF None])
  then show ?thesis
    unfolding ensure_initialized_def
    by (intro yields_bind [OF get_yields])
       (simp only: None option.case encode_ok [OF cc] bindM_simps, rule yields_handle, assumption, rule yields_ret)
next
  case (Some v)
  then have same: "m(al_counter_key a \<mapsto> v) = m" by (auto simp: fun_eq_iff)
  show ?thesis
    unfolding ensure_initialized_def
    by (rule yields_bind [OF get_yields]) (simp only: Some option.case same, rule yields_ret)
qed

lemma cas_allocate_yields:
  assumes cc: "counter_codec C cc"
    and cur: "m (al_counter_key a) = None \<and> cur = episode_counter_new \<or>
      m (al_counter_key a) = Some (enc cc cur)"
    and adv: "advance_counter (al_max_episodes a) n cur = Inr d"
  shows "yields (live m now) (cas_allocate K C cc a n) (Inr (ec_next_episode cur))
    (live (m(al_counter_key a \<mapsto> enc cc d)) now)"
proof -
  let ?k = "al_counter_key a"
  let ?m = "m(?k \<mapsto> enc cc cur)"
  have ok: "codec_ok cc" using cc by (simp add: counter_codec_def)
  have ens: "yields (live m now) (map_errM EpTikv (ensure_initialized K C cc a)) (Inr ()) (live ?m now)"
    using ensure_yields [OF ok, of m now C a] cur by (intro yields_map_err) auto
  have get: "yields (live ?m now) (map_errM EpTikv (tc_get K ?k)) (Inr (Some (enc cc cur))) (live ?m now)"
    using get_yields [of ?m now ?k] by (intro yields_map_err) simp
  have ver: "ec_version d - 1 = ec_version cur"
    using adv by (auto simp: advance_counter_def split: option.splits if_splits)
  have cas: "yields (live ?m now) (map_errM EpTikv (tc_cas K C ?k (ec_version d - 1) (enc cc d))) (Inr True)
      (live (m(?k \<mapsto> enc cc d)) now)"
    using cas_yields [of ?m now C ?k "ec_version d - 1" "enc cc d"] cc
    by (intro yields_map_err) (simp add: cas_hit(1) [where m = ?m and d = "enc cc cur"] counter_codec_def ver)
  have lift: "map_errM EpTikv (liftR (Inr x)) = liftR (Inr x)" for x
    by (simp add: map_errM_def fun_eq_iff handleM_def)
  show ?thesis
    unfolding cas_allocate_def
    by (rule yields_bind [OF ens], rule yields_bind [OF get],
        simp only: option.case decode_ok [OF ok] encode_ok [OF ok] lift adv bindM_simps,
        rule yields_bind [OF cas], simp only: if_True, rule yields_ret)
qed

end

section \<open>Properties\<close>

text \<open>Swaps that do not overlap grant no index twice: for any interleaving of the reads and whole swaps of any number of
  allocations, over a store whose calls may fail and whose failed commits may have been applied, the
  indices granted so far are pairwise different, and the indices that \<open>allocate_batch\<close> then returns are as
  many as requested, pairwise different, different from every granted one, and below the limit.\<close>

theorem episodes_granted_once:
  assumes backend: "tikv_backend K contents fresh pend" and cc: "counter_codec C cc"
    and init: "counter_stored cc a (contents (ax_world c))" "ax_reads c = Map.empty" "ax_granted c = []"
    and run: "(alloc_step K C cc contents a)\<^sup>*\<^sup>* c c'"
    and st: "cl_world st = ax_world c'" and alloc: "ep_allocate_batch K C cc a n st = (Inr xs, st')"
  shows "distinct (map (\<lambda>x. unat (ea_episode_index x)) xs @ granted_indices (ax_granted c')) \<and>
    length xs = unat n \<and> list_all (\<lambda>x. ea_episode_index x < al_max_episodes a) xs"
proof -
  have ok: "codec_ok cc" using cc by (simp add: counter_codec_def)
  have inv0: "alloc_inv cc contents a c"
    using init by (auto simp: alloc_inv_def counter_stored_def reads_ok_def split: option.splits)
  have inv: "alloc_inv cc contents a c'" by (rule tikv_backend.alloc_run_inv [OF backend run cc inv0])
  show ?thesis
  proof (cases "n = 0")
    case True
    with alloc have "xs = []" by (simp add: ep_allocate_batch_def)
    with inv True show ?thesis by (simp add: alloc_inv_def)
  next
    case False
    with alloc obtain s t where loop: "alloc_loop K C cc a n 0 st = (Inr s, t)"
      and xs: "allocations_from (al_episodes_per_chunk a) s (unat n) = Inr xs"
      by (auto simp: ep_allocate_batch_def bindM_Inr_iff)
    obtain c2 where c2: "(alloc_step K C cc contents a)\<^sup>*\<^sup>* c' c2" "ax_granted c2 = (s, n) # ax_granted c'"
      using tikv_backend.alloc_loop_reaches [OF backend loop st ok False]
      unfolding tikv_backend.reaches_def [OF backend] by blast
    have inv2: "alloc_inv cc contents a c2" by (rule tikv_backend.alloc_run_inv [OF backend c2(1) cc inv])
    then obtain cur where cur: "counter_ok (al_max_episodes a) cur"
      "\<forall>i \<in> set (granted_indices (ax_granted c2)). i < unat (ec_next_episode cur)"
      by (auto simp: alloc_inv_def c2(2) split: option.splits)
    have n: "0 < unat n" using False by (simp add: unat_gt_0)
    have "unat s + unat n - 1 \<in> set (granted_indices (ax_granted c2))" using n by (auto simp: c2(2))
    with cur(2) have below: "unat s + unat n - 1 < unat (ec_next_episode cur)" by blast
    with n unat_bound_u64 [of "ec_next_episode cur"] have "unat s + unat n \<le> 2 ^ 64 - 1" by linarith
    from allocations_from_indices [OF xs this]
    have idx: "map (\<lambda>x. unat (ea_episode_index x)) xs = [unat s ..< unat s + unat n]" .
    have "unat (ea_episode_index x) < unat (al_max_episodes a)" if "x \<in> set xs" for x
    proof -
      have "unat (ea_episode_index x) \<in> set [unat s ..< unat s + unat n]" using that idx by (metis image_eqI list.set_map)
      moreover have "unat (ec_next_episode cur) \<le> unat (al_max_episodes a)"
        using cur(1) by (simp add: counter_ok_def word_le_nat_alt)
      ultimately show ?thesis using below by auto
    qed
    moreover have "length xs = unat n" using arg_cong [OF idx, of length] by simp
    moreover have "distinct (map (\<lambda>x. unat (ea_episode_index x)) xs @ granted_indices (ax_granted c'))"
      using inv2 by (simp add: idx alloc_inv_def c2(2))
    ultimately show ?thesis by (simp add: list_all_iff word_less_nat_alt)
  qed
qed

text \<open>The JSON codec of the counter over the in-memory payloads.\<close>

definition mem_counter :: "(payload, episode_counter) codec" where
  "mem_counter =
     \<lparr> ser = (\<lambda>c. Inr (PJson [(''next_episode'', ec_next_episode c), (''version'', ec_version c)])),
       de = (\<lambda>v. case v of
               PJson ms \<Rightarrow>
                 (case (map_of ms ''next_episode'', map_of ms ''version'') of
                    (Some n, Some w) \<Rightarrow> Inr \<lparr> ec_next_episode = n, ec_version = w \<rparr>
                  | _ \<Rightarrow> Inl ''missing field'')
             | _ \<Rightarrow> Inl ''not an object'') \<rparr>"

lemma mem_counter_ok: "counter_codec mem_codecs mem_counter"
  by (simp add: counter_codec_def codec_ok_def enc_def mem_counter_def mem_codecs_def)

text \<open>a batch of episodes in a calm cluster. When the counter of the batch is absent or stored and the
  request fits below the limit, \<open>allocate_batch\<close> returns the consecutive indices from the counter on, each
  with its place in its chunk, and the stored counter has moved past them by one version.\<close>

theorem allocate_batch_consecutive:
  assumes rel: "reliable_backend K contents fresh pend calm" and cc: "counter_codec C cc"
    and cur: "m (al_counter_key a) = None \<and> cur = episode_counter_new \<or>
      m (al_counter_key a) = Some (enc cc cur)"
    and fits: "unat (ec_next_episode cur) + unat n \<le> unat (al_max_episodes a)"
    and pos: "n \<noteq> 0" "al_episodes_per_chunk a \<noteq> 0"
    and st: "client_at contents calm m now st"
  shows "\<exists>xs st'. ep_allocate_batch K C cc a n st = (Inr xs, st') \<and>
    map (\<lambda>x. unat (ea_episode_index x)) xs = [unat (ec_next_episode cur) ..< unat (ec_next_episode cur) + unat n] \<and>
    contents (cl_world st') = m(al_counter_key a \<mapsto>
      enc cc \<lparr> ec_next_episode = ec_next_episode cur + n, ec_version = ec_version cur + 1 \<rparr>)"
proof -
  let ?d = "\<lparr> ec_next_episode = ec_next_episode cur + n, ec_version = ec_version cur + 1 \<rparr>"
  have small: "unat (ec_next_episode cur) + unat n \<le> 2 ^ 64 - 1"
    using fits unat_bound_u64 [of "al_max_episodes a"] by linarith
  then have "unat (ec_next_episode cur + n) = unat (ec_next_episode cur) + unat n"
    by (intro unat_add_no_wrap) simp
  then have "advance_counter (al_max_episodes a) n cur = Inr ?d"
    using fits small by (auto simp: advance_counter_def checked_add_def word_less_nat_alt)
  from yieldsD [OF alloc_loop_once [OF reliable_backend.cas_allocate_yields [where m = m, OF rel cc cur this]] st]
  obtain t where loop: "alloc_loop K C cc a n 0 st = (Inr (ec_next_episode cur), t)"
    and t: "contents (cl_world t) = m(al_counter_key a \<mapsto> enc cc ?d)"
    by (auto simp: client_at_def)
  obtain xs where xs: "allocations_from (al_episodes_per_chunk a) (ec_next_episode cur) (unat n) = Inr xs"
    using allocations_from_total [OF pos(2)] by blast
  have "ep_allocate_batch K C cc a n st = (Inr xs, t)"
    using pos(1) loop xs by (simp add: ep_allocate_batch_def bindM_def)
  with allocations_from_indices [OF xs small] t show ?thesis by blast
qed

theorem allocate_batch_consecutive_witness:
  "\<exists>xs st'. ep_allocate_batch mem_kv mem_codecs mem_counter (episode_allocator_new ''b'' 500) 3
       (demo_client (demo_store [] []) 9) = (Inr xs, st') \<and>
     map (\<lambda>x. unat (ea_episode_index x)) xs = [0, 1, 2]"
proof -
  have upt: "[0..<3] = [0, 1, 2 :: nat]" by (simp add: upt_rec)
  show ?thesis
    using allocate_batch_consecutive [OF mem.reliable_backend_axioms mem_counter_ok _ _ _ _ demo_client_at [of "[]" 9],
        of "episode_allocator_new ''b'' 500" episode_counter_new 3]
    by (auto simp: episode_allocator_new_def episode_counter_new_def upt ucast_max_u32)
qed

theorem episodes_granted_once_witness:
  "\<exists>xs st'. ep_allocate_batch mem_kv mem_codecs mem_counter (episode_allocator_new ''b'' 500) 3
       (demo_client (demo_store [] []) 9) = (Inr xs, st') \<and> length xs = 3"
proof -
  define c where "c = \<lparr> ax_world = demo_store [] [], ax_reads = Map.empty, ax_granted = [] \<rparr>"
  let ?a = "episode_allocator_new ''b'' 500"
  have adv: "advance_counter (al_max_episodes ?a) 3 episode_counter_new = Inr \<lparr> ec_next_episode = 3, ec_version = 1 \<rparr>"
    by (simp add: advance_counter_def checked_add_def episode_counter_new_def episode_allocator_new_def
        ucast_max_u32)
  have "yields (client_at mem_contents mem_calm Map.empty 9) (cas_allocate mem_kv mem_codecs mem_counter ?a 3)
      (Inr 0) (client_at mem_contents mem_calm
        [al_counter_key ?a \<mapsto> enc mem_counter \<lparr> ec_next_episode = 3, ec_version = 1 \<rparr>] 9)"
    using mem.cas_allocate_yields [where m = Map.empty and now = 9, OF mem_counter_ok _ adv]
    by (simp add: episode_counter_new_def)
  from yieldsD [OF alloc_loop_once [OF this, of 0]] demo_client_at [of "[]" 9] obtain t where
    loop: "alloc_loop mem_kv mem_codecs mem_counter ?a 3 0 (demo_client (demo_store [] []) 9) = (Inr 0, t)"
    by auto
  obtain xs where "allocations_from 500 0 3 = Inr xs" using allocations_from_total [of 500 0 3] by auto
  with loop have run: "ep_allocate_batch mem_kv mem_codecs mem_counter ?a 3 (demo_client (demo_store [] []) 9) = (Inr xs, t)"
    by (simp add: ep_allocate_batch_def bindM_def episode_allocator_new_def)
  from episodes_granted_once [OF mem.tikv_backend_axioms mem_counter_ok _ _ _ rtranclp.rtrancl_refl _ run, of c] run
  show ?thesis
    by (auto simp: c_def demo_client_def demo_store_def counter_stored_def mem_contents_def)
qed

text \<open>episodes do not share files. Below the limit of \<open>TiKVEpisodeAllocator::new\<close>, an episode is its chunk
  times the chunk size plus its offset, the offset is below the chunk size, and two episodes of a dataset
  have the same Parquet path only if they are the same episode.\<close>

theorem episode_files_distinct:
  assumes new: "episode_allocation_new e n = Inr x" "episode_allocation_new f n = Inr y"
    and below: "e < al_max_episodes (episode_allocator_new b n)"
  shows "unat e = unat (ea_chunk_index x) * unat n + unat (ea_chunk_offset x) \<and>
    unat (ea_chunk_offset x) < unat n \<and> ea_chunk_index x = chunk_index_from_episode e n \<and>
    (parquet_path x = parquet_path y \<longleftrightarrow> e = f)"
proof -
  have n: "n \<noteq> 0" and x: "x = \<lparr> ea_episode_index = e, ea_chunk_index = ucast (e div ucast n),
      ea_chunk_offset = ucast (e mod ucast n) \<rparr>"
    and y: "y = \<lparr> ea_episode_index = f, ea_chunk_index = ucast (f div ucast n),
      ea_chunk_offset = ucast (f mod ucast n) \<rparr>"
    using new by (auto simp: episode_allocation_new_def split: if_splits)
  have "parquet_path x = parquet_path y \<longleftrightarrow> e = f"
    unfolding x y parquet_path_def
    by (auto simp: append_sep_inj [OF padded_no_slash padded_no_slash] padded_inj
        intro: word_unat_eq_iff [THEN iffD2])
  with n chunk_fits [OF below n] show ?thesis
    by (simp add: x chunk_index_from_episode_def unat_gt_0)
qed

theorem episode_files_distinct_witness:
  "unat (ea_chunk_index \<lparr> ea_episode_index = 1234, ea_chunk_index = 2, ea_chunk_offset = 234 \<rparr>) * 500 + 234 = 1234"
  using episode_files_distinct [of 1234 500
      "\<lparr> ea_episode_index = 1234, ea_chunk_index = 2, ea_chunk_offset = 234 \<rparr>" 0
      "\<lparr> ea_episode_index = 0, ea_chunk_index = 0, ea_chunk_offset = 0 \<rparr>" "''b''"]
  by (simp add: episode_allocation_new_def episode_allocator_new_def)

end
