(* ===== verification/Overlap.thy ===== *)
theory Overlap
  imports Work_Claims Lock_Manager Episode_Allocator
begin

text \<open>
  The read-then-write operations of the client (claims, locks, compare-and-swap) while other clients commit between their
  calls. \<open>shared_backend\<close> states what the package \<open>tikv_client\<close> documents of a pessimistic transaction: \<open>get\<close> reads the
  snapshot of the start of the transaction and takes no lock (only \<open>get_for_update\<close> does), \<open>put\<close> and \<open>delete\<close> buffer the
  write, \<open>commit\<close> applies all writes to whatever is committed by then. Nothing is assumed of the committed data between two
  calls: any other client may have changed it. \<open>hist\<close> is the history of this client's commits, the last one first: the
  snapshot of the start, the data just before and the data just after the commit.

  The comments of \<open>client.rs\<close> claim that a pessimistic read locks the row and sees the latest state. The properties say what is
  left without that: an operation decides on the state at its start, so it is exclusive exactly against what was committed by
  then. \<open>shared_kv\<close> is an executable store with a script of what other clients commit before each call and of faults; it
  satisfies \<open>shared_backend\<close>, and on it two overlapping operations both succeed.
\<close>

section \<open>Transactions among other clients\<close>

locale shared_backend =
  fixes K :: "('s, 'v) kv"
    and data :: "'s \<Rightarrow> key \<rightharpoonup> 'v"  \<comment> \<open>the committed data\<close>
    and txn :: "'s \<Rightarrow> nat \<Rightarrow> ((key \<rightharpoonup> 'v) \<times> 'v writes) option"  \<comment> \<open>snapshot and buffered writes of an open transaction\<close>
    and hist :: "'s \<Rightarrow> ((key \<rightharpoonup> 'v) \<times> (key \<rightharpoonup> 'v) \<times> (key \<rightharpoonup> 'v)) list"
  assumes timestamp_hist: "kv_current_timestamp K s = (Inr ts, t) \<Longrightarrow> hist t = hist s"
    and scan_hist: "kv_snapshot_scan K ts a b n s = (Inr xs, t) \<Longrightarrow> hist t = hist s"
    and begin_snapshot:
      "kv_begin_pessimistic K s = (Inr x, t) \<Longrightarrow> txn t x = Some (data t, Map.empty) \<and> hist t = hist s"
    and get_snapshot:
      "txn s x = Some (m, w) \<Longrightarrow> kv_txn_get K x k s = (Inr v, t) \<Longrightarrow>
       v = apply_writes w m k \<and> txn t x = Some (m, w) \<and> hist t = hist s"
    and put_buffers:
      "txn s x = Some (m, w) \<Longrightarrow> kv_txn_put K x k y s = (Inr u, t) \<Longrightarrow>
       txn t x = Some (m, w(k \<mapsto> Some y)) \<and> hist t = hist s"
    and delete_buffers:
      "txn s x = Some (m, w) \<Longrightarrow> kv_txn_delete K x k s = (Inr u, t) \<Longrightarrow>
       txn t x = Some (m, w(k \<mapsto> None)) \<and> hist t = hist s"
    and commit_applies:
      "txn s x = Some (m, w) \<Longrightarrow> kv_commit K x s = (Inr u, t) \<Longrightarrow>
       \<exists>before. data t = apply_writes w before \<and> hist t = (m, before, data t) # hist s"

lemma require_inner_Inr: "require_inner st = (Inr a, st') \<longleftrightarrow> cl_connected st \<and> st' = st"
  by (auto simp: require_inner_def)

lemma decode_Inr: "decode c what v = Inr x \<longleftrightarrow> de c v = Inr x"
  by (auto simp: decode_def split: sum.splits)

context shared_backend
begin

definition in_txn :: "nat \<Rightarrow> (key \<rightharpoonup> 'v) \<Rightarrow> 'v writes \<Rightarrow> 's client \<Rightarrow> 's client \<Rightarrow> bool" where
  "in_txn x m w st0 st \<longleftrightarrow>
     txn (cl_world st) x = Some (m, w) \<and> hist (cl_world st) = hist (cl_world st0) \<and> cl_clock st = cl_clock st0"

text \<open>One call of a transaction, and its commit.\<close>

lemma begin_run:
  "kv_do (kv_begin_pessimistic K) st = (Inr x, st') \<Longrightarrow> \<exists>m. in_txn x m Map.empty st st'"
  by (auto simp: kv_do_iff in_txn_def dest: begin_snapshot)

lemma get_run:
  "in_txn x m w st0 st \<Longrightarrow> kv_do (kv_txn_get K x k) st = (Inr v, st') \<Longrightarrow> v = apply_writes w m k \<and> in_txn x m w st0 st'"
  by (auto simp: kv_do_iff in_txn_def dest: get_snapshot)

lemma put_run:
  assumes "in_txn x m w st0 st" "kv_do (kv_txn_put K x k y) st = (Inr u, st')"
  shows "in_txn x m (w(k \<mapsto> Some y)) st0 st'"
proof -
  from assms(2) obtain t where t: "kv_txn_put K x k y (cl_world st) = (Inr u, t)" "st' = st\<lparr>cl_world := t\<rparr>"
    by (auto simp: kv_do_iff)
  from assms(1) have x: "txn (cl_world st) x = Some (m, w)" by (simp add: in_txn_def)
  from put_buffers [OF x t(1)] assms(1) t(2) show ?thesis by (simp add: in_txn_def)
qed

lemma delete_run:
  assumes "in_txn x m w st0 st" "kv_do (kv_txn_delete K x k) st = (Inr u, st')"
  shows "in_txn x m (w(k \<mapsto> None)) st0 st'"
proof -
  from assms(2) obtain t where t: "kv_txn_delete K x k (cl_world st) = (Inr u, t)" "st' = st\<lparr>cl_world := t\<rparr>"
    by (auto simp: kv_do_iff)
  from assms(1) have x: "txn (cl_world st) x = Some (m, w)" by (simp add: in_txn_def)
  from delete_buffers [OF x t(1)] assms(1) t(2) show ?thesis by (simp add: in_txn_def)
qed

definition committed :: "(key \<rightharpoonup> 'v) \<Rightarrow> 'v writes \<Rightarrow> 's client \<Rightarrow> 's client \<Rightarrow> bool" where
  "committed m w st0 st \<longleftrightarrow>
     (\<exists>before. data (cl_world st) = apply_writes w before \<and>
        hist (cl_world st) = (m, before, data (cl_world st)) # hist (cl_world st0)) \<and> cl_clock st = cl_clock st0"

lemma commit_run:
  assumes "in_txn x m w st0 st" "kv_do (kv_commit K x) st = (Inr u, st')"
  shows "committed m w st0 st'"
proof -
  from assms(2) obtain t where t: "kv_commit K x (cl_world st) = (Inr u, t)" "st' = st\<lparr>cl_world := t\<rparr>"
    by (auto simp: kv_do_iff)
  from assms(1) have x: "txn (cl_world st) x = Some (m, w)" by (simp add: in_txn_def)
  from commit_applies [OF x t(1)] assms(1) t(2) show ?thesis by (auto simp: in_txn_def committed_def)
qed

text \<open>A claim that returns a payload, a swap and a lock request that succeed.\<close>

lemma claim_run:
  assumes "tc_transactional_claim K wk pk cp st = (Inr (Some d), st')"
  shows "\<exists>m v. m wk = Some v \<and> cp v = Inr (Some d) \<and> committed m [wk \<mapsto> Some d, pk \<mapsto> None] st st'"
proof -
  from assms obtain x s1 cur s2 where s1: "kv_do (kv_begin_pessimistic K) st = (Inr x, s1)"
    and s2: "kv_do (kv_txn_get K x wk) s1 = (Inr cur, s2)"
    and rest: "(case cur of
       Some data \<Rightarrow>
         (case cp data of
            Inr (Some new_data) \<Rightarrow>
              bindM (kv_do (kv_txn_put K x wk new_data)) (\<lambda>_.
              bindM (kv_do (kv_txn_delete K x pk)) (\<lambda>_.
              bindM (kv_do (kv_commit K x)) (\<lambda>_. ret (Some new_data))))
          | Inr None \<Rightarrow> bindM (kv_do (kv_commit K x)) (\<lambda>_. ret None)
          | Inl e \<Rightarrow> throw (Other (''Claim processor failed: '' @ e)))
     | None \<Rightarrow>
         bindM (kv_do (kv_txn_delete K x pk)) (\<lambda>_.
         bindM (kv_do (kv_commit K x)) (\<lambda>_. ret None))) s2 = (Inr (Some d), st')"
    unfolding tc_transactional_claim_def by (auto simp: bindM_Inr_iff require_inner_Inr)
  from begin_run [OF s1] obtain m where "in_txn x m Map.empty st s1" by blast
  from get_run [OF this s2] have r: "cur = m wk" "in_txn x m Map.empty st s2" by simp_all
  from rest obtain v s3 s4 u1 u2 u3 where v: "cur = Some v" "cp v = Inr (Some d)"
    and steps: "kv_do (kv_txn_put K x wk d) s2 = (Inr u1, s3)" "kv_do (kv_txn_delete K x pk) s3 = (Inr u2, s4)"
      "kv_do (kv_commit K x) s4 = (Inr u3, st')"
    by (auto simp: bindM_Inr_iff split: option.splits sum.splits)
  from commit_run [OF delete_run [OF put_run [OF r(2) steps(1)] steps(2)] steps(3)] v r(1) show ?thesis by auto
qed

lemma cas_run:
  assumes "tc_cas K C k e d st = (Inr True, st')"
  shows "\<exists>m. (case m k of None \<Rightarrow> e = 0 | Some v \<Rightarrow> json_version C v = Some e) \<and> committed m [k \<mapsto> Some d] st st'"
proof -
  let ?finish = "\<lambda>x. bindM (kv_do (kv_txn_put K x k d)) (\<lambda>_. bindM (kv_do (kv_commit K x)) (\<lambda>_. ret True))"
  from assms obtain x s1 cur s2 where s1: "kv_do (kv_begin_pessimistic K) st = (Inr x, s1)"
    and s2: "kv_do (kv_txn_get K x k) s1 = (Inr cur, s2)"
    and rest: "(case cur of
          Some data \<Rightarrow>
            (case json_version C data of
               Some version \<Rightarrow> (if version = e then ?finish x else throw (CasFailed e version))
             | None \<Rightarrow> throw (Deserialization ''No version field in value''))
        | None \<Rightarrow> (if e = 0 then ?finish x else ret False)) s2 = (Inr True, st')"
    unfolding tc_cas_def Let_def by (auto simp: bindM_Inr_iff require_inner_Inr)
  from begin_run [OF s1] obtain m where "in_txn x m Map.empty st s1" by blast
  from get_run [OF this s2] have r: "cur = m k" "in_txn x m Map.empty st s2" by simp_all
  from rest have won: "case cur of None \<Rightarrow> e = 0 | Some v \<Rightarrow> json_version C v = Some e" and "?finish x s2 = (Inr True, st')"
    by (auto split: option.splits if_splits)
  then obtain s3 u1 u2 where "kv_do (kv_txn_put K x k d) s2 = (Inr u1, s3)" "kv_do (kv_commit K x) s3 = (Inr u2, st')"
    by (auto simp: bindM_Inr_iff)
  from commit_run [OF put_run [OF r(2) this(1)] this(2)] won r(1) show ?thesis by auto
qed

lemma put_lock_run:
  assumes "put_lock K C x k l st = (Inr b, st')" "in_txn x m w st0 st"
  shows "b \<and> (\<exists>v. ser (c_lock C) l = Inr v \<and> in_txn x m (w(k \<mapsto> Some v)) st0 st')"
  using assms put_run [OF assms(2)]
  by (auto simp: put_lock_def bindM_Inr_iff encode_def split: sum.splits)

lemma acquire_body_run:
  assumes "acquire_lock_body K C x resource owner ttl st = (Inr True, st')" "in_txn x m Map.empty st0 st"
  shows "\<exists>cur l v. stored_lock C m resource = Inr cur \<and> lock_decision (cl_clock st0) resource owner ttl cur = Some l \<and>
    ser (c_lock C) l = Inr v \<and> in_txn x m [lock_key resource \<mapsto> Some v] st0 st'"
proof -
  let ?put = "\<lambda>l. put_lock K C x (lock_key resource) l"
  from assms(1) obtain cur s1 where s1: "kv_do (kv_txn_get K x (lock_key resource)) st = (Inr cur, s1)"
    and rest: "(case cur of
       Some data \<Rightarrow>
         bindM (liftR (decode (c_lock C) [] data)) (\<lambda>existing.
           if lk_is_owned_by owner existing then ?put (lk_extend (cl_clock s1) ttl existing)
           else if \<not> lk_is_expired (cl_clock s1) existing then ret False
           else ?put (lock_new (cl_clock s1) resource owner ttl))
     | None \<Rightarrow> ?put (lock_new (cl_clock s1) resource owner ttl)) s1 = (Inr True, st')"
    unfolding acquire_lock_body_def by (auto simp: bindM_Inr_iff now_utc_def)
  from get_run [OF assms(2) s1] have r: "cur = m (lock_key resource)" "in_txn x m Map.empty st0 s1" by simp_all
  from r(2) have now: "cl_clock s1 = cl_clock st0" by (simp add: in_txn_def)
  from rest obtain c l where "stored_lock C m resource = Inr c"
    "lock_decision (cl_clock st0) resource owner ttl c = Some l" "?put l s1 = (Inr True, st')"
    by (auto simp: r(1) now stored_lock_def decode_def bindM_Inr_iff lk_is_owned_by_def lk_is_expired_def
        split: option.splits sum.splits if_splits)
  with put_lock_run [OF _ r(2)] show ?thesis by blast
qed

lemma acquire_once_run:
  assumes "tc_acquire_lock_once K C resource owner ttl st = (Inr True, st')"
  shows "\<exists>m cur l v. stored_lock C m resource = Inr cur \<and> lock_decision (cl_clock st') resource owner ttl cur = Some l \<and>
    ser (c_lock C) l = Inr v \<and> committed m [lock_key resource \<mapsto> Some v] st st'"
proof -
  from assms obtain x s1 s2 u where s1: "kv_do (kv_begin_pessimistic K) st = (Inr x, s1)"
    and body: "acquire_lock_body K C x resource owner ttl s1 = (Inr True, s2)"
    and commit: "kv_do (kv_commit K x) s2 = (Inr u, st')"
    unfolding tc_acquire_lock_once_def commit_or_rollback_def
    by (auto simp: bindM_Inr_iff require_inner_Inr prog_iffs)
  from begin_run [OF s1] obtain m where "in_txn x m Map.empty st s1" by blast
  from acquire_body_run [OF body this] obtain cur l v where
    l: "stored_lock C m resource = Inr cur" "lock_decision (cl_clock st) resource owner ttl cur = Some l"
      "ser (c_lock C) l = Inr v" and t: "in_txn x m [lock_key resource \<mapsto> Some v] st s2"
    by blast
  from commit_run [OF t commit] have c: "committed m [lock_key resource \<mapsto> Some v] st st'" .
  then have "cl_clock st' = cl_clock st" by (simp add: committed_def)
  with c l show ?thesis by auto
qed

end

section \<open>An executable shared store\<close>

text \<open>
  A script entry holds what other clients commit before the call and whether the call fails. Keys the open transactions have
  written are locked: the writes of other clients to them wait, so they are left out. The operations of this theory begin
  pessimistic transactions only; an optimistic one is begun alike.
\<close>

record 'v shared =
  sh_data :: "(key \<times> 'v) list"
  sh_snaps :: "(key \<times> 'v) list list"  \<comment> \<open>the data at each timestamp\<close>
  sh_txns :: "(nat \<times> (key \<times> 'v) list \<times> (key \<times> 'v option) list) list"
  sh_hist :: "((key \<rightharpoonup> 'v) \<times> (key \<rightharpoonup> 'v) \<times> (key \<rightharpoonup> 'v)) list"
  sh_script :: "((key \<times> 'v option) list \<times> fault) list"

definition sh_locked :: "'v shared \<Rightarrow> key \<Rightarrow> bool" where
  "sh_locked s k \<longleftrightarrow> list_ex (\<lambda>(x, m, w). list_ex (\<lambda>(j, v). j = k) w) (sh_txns s)"

definition sh_others :: "(key \<times> 'v option) list \<Rightarrow> 'v shared \<Rightarrow> 'v shared" where
  "sh_others ws s = s\<lparr>sh_data := mem_apply (filter (\<lambda>(k, v). \<not> sh_locked s k) ws) (sh_data s)\<rparr>"

definition sh_call :: "('v shared, string, 'a) prog \<Rightarrow> ('v shared, string, 'a) prog" where
  "sh_call m s =
     (case sh_script s of
        [] \<Rightarrow> m s
      | (ws, f) # es \<Rightarrow>
          (let s1 = sh_others ws (s\<lparr>sh_script := es\<rparr>)
           in case f of
                NoFault \<Rightarrow> m s1
              | FailBefore e \<Rightarrow> (Inl e, s1)
              | FailAfter e \<Rightarrow> (Inl e, snd (m s1))))"

definition sh_timestamp :: "('v shared, string, nat) prog" where
  "sh_timestamp s = (Inr (length (sh_snaps s)), s\<lparr>sh_snaps := sh_snaps s @ [sh_data s]\<rparr>)"

definition sh_at :: "nat \<Rightarrow> ((key \<times> 'v) list \<Rightarrow> 'a) \<Rightarrow> ('v shared, string, 'a) prog" where
  "sh_at ts f s = (if ts < length (sh_snaps s) then (Inr (f (sh_snaps s ! ts)), s) else (Inl ''no such timestamp'', s))"

definition sh_scan :: "key \<Rightarrow> key \<Rightarrow> u32 \<Rightarrow> (key \<times> 'v) list \<Rightarrow> (key \<times> 'v) list" where
  "sh_scan a b n d =
     take (unat n) (map (\<lambda>k. (k, the (map_of d k))) (filter (\<lambda>k. a \<le> k \<and> k < b) (sort (remdups (map fst d)))))"

definition sh_begin :: "('v shared, string, nat) prog" where
  "sh_begin s = (let x = length (sh_txns s) in (Inr x, s\<lparr>sh_txns := (x, sh_data s, []) # sh_txns s\<rparr>))"

definition sh_on_txn ::
    "nat \<Rightarrow> ((key \<times> 'v) list \<Rightarrow> (key \<times> 'v option) list \<Rightarrow> ('v shared, string, 'a) prog) \<Rightarrow> ('v shared, string, 'a) prog" where
  "sh_on_txn x f s =
     (case map_of (sh_txns s) x of None \<Rightarrow> (Inl ''no such transaction'', s) | Some (m, w) \<Rightarrow> f m w s)"

definition sh_get :: "nat \<Rightarrow> key \<Rightarrow> ('v shared, string, 'v option) prog" where
  "sh_get x k = sh_on_txn x (\<lambda>m w. ret (apply_writes (map_of w) (map_of m) k))"

definition sh_write :: "nat \<Rightarrow> key \<Rightarrow> 'v option \<Rightarrow> ('v shared, string, unit) prog" where
  "sh_write x k v = sh_on_txn x (\<lambda>m w. modifyM (\<lambda>s. s\<lparr>sh_txns := (x, m, (k, v) # w) # filter (\<lambda>e. fst e \<noteq> x) (sh_txns s)\<rparr>))"

definition sh_commit :: "nat \<Rightarrow> ('v shared, string, unit) prog" where
  "sh_commit x =
     sh_on_txn x (\<lambda>m w. modifyM (\<lambda>s.
       s\<lparr>sh_data := mem_apply w (sh_data s), sh_txns := map (\<lambda>(y, n, v). (y, n, if y = x then [] else v)) (sh_txns s),
         sh_hist := (map_of m, map_of (sh_data s), map_of (mem_apply w (sh_data s))) # sh_hist s\<rparr>))"

definition sh_rollback :: "nat \<Rightarrow> ('v shared, string, unit) prog" where
  "sh_rollback x = modifyM (\<lambda>s. s\<lparr>sh_txns := map (\<lambda>(y, n, v). (y, n, if y = x then [] else v)) (sh_txns s)\<rparr>)"

definition shared_kv :: "('v shared, 'v) kv" where
  "shared_kv =
     \<lparr> kv_current_timestamp = sh_call sh_timestamp,
       kv_snapshot_get = (\<lambda>ts k. sh_call (sh_at ts (\<lambda>d. map_of d k))),
       kv_snapshot_scan = (\<lambda>ts a b n. sh_call (sh_at ts (sh_scan a b n))),
       kv_begin_optimistic = sh_call sh_begin,
       kv_begin_pessimistic = sh_call sh_begin,
       kv_txn_get = (\<lambda>x k. sh_call (sh_get x k)),
       kv_txn_put = (\<lambda>x k v. sh_call (sh_write x k (Some v))),
       kv_txn_delete = (\<lambda>x k. sh_call (sh_write x k None)),
       kv_commit = (\<lambda>x. sh_call (sh_commit x)),
       kv_rollback = (\<lambda>x. sh_call (sh_rollback x)) \<rparr>"

definition sh_contents :: "'v shared \<Rightarrow> key \<rightharpoonup> 'v" where
  "sh_contents s = map_of (sh_data s)"

definition sh_txn :: "'v shared \<Rightarrow> nat \<Rightarrow> ((key \<rightharpoonup> 'v) \<times> 'v writes) option" where
  "sh_txn s x = map_option (\<lambda>(m, w). (map_of m, map_of w)) (map_of (sh_txns s) x)"

lemmas sh_defs = shared_kv_def sh_call_def sh_others_def sh_timestamp_def sh_at_def sh_begin_def sh_on_txn_def sh_get_def
  sh_write_def sh_commit_def sh_rollback_def sh_contents_def sh_txn_def

lemma map_of_clear_txn:
  "map_of (map (\<lambda>(y, n, v). (y, n, if y = x then [] else v)) ts) z =
   map_option (\<lambda>(n, v). (n, if z = x then [] else v)) (map_of ts z)"
  by (induction ts) auto

interpretation sh: shared_backend shared_kv sh_contents sh_txn sh_hist
proof (unfold_locales, goal_cases)
  case (1 s ts t)
  then show ?case by (auto simp: sh_defs Let_def split: list.splits prod.splits fault.splits)
next
  case (2 ts a b n s xs t)
  then show ?case by (auto simp: sh_defs Let_def split: list.splits prod.splits fault.splits if_splits)
next
  case (3 s x t)
  then show ?case by (auto simp: sh_defs Let_def split: list.splits prod.splits fault.splits)
next
  case (4 s x m w k v t)
  then show ?case by (auto simp: sh_defs Let_def split: list.splits prod.splits fault.splits option.splits)
next
  case (5 s x m w k y u t)
  then show ?case by (auto simp: sh_defs Let_def split: list.splits prod.splits fault.splits option.splits)
next
  case (6 s x m w k u t)
  then show ?case by (auto simp: sh_defs Let_def split: list.splits prod.splits fault.splits option.splits)
next
  case (7 s x m w u t)
  then show ?case
    by (auto simp: sh_defs Let_def mem_apply_contents split: list.splits prod.splits fault.splits option.splits)
qed

definition shared_store :: "(key \<times> 'v) list \<Rightarrow> ((key \<times> 'v option) list \<times> fault) list \<Rightarrow> 'v shared" where
  "shared_store d script = \<lparr> sh_data = d, sh_snaps = [], sh_txns = [], sh_hist = [], sh_script = script \<rparr>"

definition shared_client :: "'v shared \<Rightarrow> timestamp \<Rightarrow> 'v shared client" where
  "shared_client w now =
     \<lparr> cl_config = default_tikv_config (\<lambda>_. None), cl_connected = True,
       cl_circuit = circuit_new now default_circuit_config, cl_clock = now, cl_world = w \<rparr>"

text \<open>The script in which other clients are quiet for \<open>n\<close> calls and then commit \<open>ws\<close>.\<close>

definition then_commit :: "nat \<Rightarrow> (key \<times> 'v option) list \<Rightarrow> ((key \<times> 'v option) list \<times> fault) list" where
  "then_commit n ws = replicate n ([], NoFault) @ [(ws, NoFault)]"

lemmas sh_run_defs = shared_client_def shared_store_def then_commit_def numeral_nat require_inner_def check_circuit_def record_success_def
  record_failure_def now_utc_def kv_do_def kv_do_recorded_def bindM_def handleM_def encode_def decode_def sh_defs
  sh_locked_def circuit_new_def cb_get_state_def cs_from_u8_def cb_is_call_permitted_def cb_record_success_def

section \<open>Properties\<close>

text \<open>C3: what a claim guarantees while other clients work. Whatever other clients commit between its calls, a unit that
  \<open>claim_work_unit\<close> returns was claimable in the snapshot its transaction began with, and the commit stores it as processing by
  this worker and removes its pending entry, changing nothing else. If another worker held the unit just before the commit,
  that worker had claimed it while the transaction was open.\<close>

theorem claim_decided_at_start:
  assumes backend: "shared_backend K data txn hist" and c: "codec_ok (c_unit C)"
    and run: "claim_work_unit K C w st = (Inr (Some u), st')"
  shows "\<exists>start before pk b i v u0.
    hist (cl_world st') = (start, before, data (cl_world st')) # hist (cl_world st) \<and>
    parse_pending_key pk = Some (b, i) \<and>
    start (unit_key b i) = Some v \<and> de (c_unit C) v = Inr u0 \<and> wu_is_claimable u0 \<and> wu_attempts u = wu_attempts u0 + 1 \<and>
    wu_status u = WProcessing \<and> wu_owner u = Some w \<and>
    data (cl_world st') = before(unit_key b i \<mapsto> enc (c_unit C) u, pk := None) \<and>
    (\<forall>w'. held_by C before b i w' \<longrightarrow> before (unit_key b i) \<noteq> start (unit_key b i))"
proof -
  from run obtain s0 ts s1 ps where scan: "kv_do (kv_current_timestamp K) st = (Inr ts, s0)"
    "kv_do (kv_snapshot_scan K ts pending_prefix (scan_end pending_prefix) 1) s0 = (Inr ps, s1)"
    and rest: "(case ps of
       [] \<Rightarrow> ret None
     | (pk, _) # _ \<Rightarrow>
         (case parse_pending_key pk of
            None \<Rightarrow> ret None
          | Some (b, i) \<Rightarrow>
              bindM now_utc (\<lambda>now.
              bindM (tc_transactional_claim K (unit_key b i) pk (claim_processor C now w)) (\<lambda>result.
              case result of
                None \<Rightarrow> ret None
              | Some data \<Rightarrow> bindM (liftR (decode (c_unit C) ''work unit: '' data)) (\<lambda>u. ret (Some u))))))
        s1 = (Inr (Some u), st')"
    unfolding claim_work_unit_def tc_scan_def by (auto simp: bindM_Inr_iff require_inner_Inr)
  from rest obtain pk b i d where p: "parse_pending_key pk = Some (b, i)"
    and claim: "tc_transactional_claim K (unit_key b i) pk (claim_processor C (cl_clock s1) w) s1 = (Inr (Some d), st')"
    and d: "de (c_unit C) d = Inr u"
    by (auto simp: bindM_Inr_iff now_utc_def decode_Inr split: list.splits option.splits)
  from scan have hist: "hist (cl_world s1) = hist (cl_world st)"
    by (auto simp: kv_do_iff) (metis shared_backend.timestamp_hist [OF backend] shared_backend.scan_hist [OF backend])
  from shared_backend.claim_run [OF backend claim] obtain m v where
    m: "m (unit_key b i) = Some v" "claim_processor C (cl_clock s1) w v = Inr (Some d)"
    and done': "shared_backend.committed data hist m [unit_key b i \<mapsto> Some d, pk \<mapsto> None] s1 st'"
    by blast
  from m(2) obtain u0 u1 where u0: "de (c_unit C) v = Inr u0" "wu_claim (cl_clock s1) w u0 = Inr u1" "ser (c_unit C) u1 = Inr d"
    by (auto simp: claim_processor_def split: sum.splits)
  with c d have u1: "u1 = u" "d = enc (c_unit C) u" by (auto simp: enc_def dest: codec_ok_de)
  from done' obtain before where before: "data (cl_world st') = before(unit_key b i \<mapsto> d, pk := None)"
    "hist (cl_world st') = (m, before, data (cl_world st')) # hist (cl_world st)"
    unfolding shared_backend.committed_def [OF backend] using hist by auto
  from u0(2) have props: "wu_is_claimable u0" "wu_attempts u = wu_attempts u0 + 1" "wu_status u = WProcessing"
    "wu_owner u = Some w" "wu_status u0 \<noteq> WProcessing"
    by (auto simp: u1(1) wu_claim_Inr_iff wu_is_claimable_def wus_defs)
  from props(5) m(1) u0(1) have "\<forall>w'. held_by C before b i w' \<longrightarrow> before (unit_key b i) \<noteq> m (unit_key b i)"
    by (auto simp: held_by_def)
  with before p m(1) u0(1) props u1(2) show ?thesis by blast
qed

text \<open>C4: what a lock request guarantees while other clients work. Whatever other clients commit between its calls and however
  often the request is retried, a lock that \<open>acquire_lock\<close> grants was free, expired or already this owner's in the snapshot
  its last transaction began with, and the commit stores this owner's record, live for at least the requested time. If the
  live lock of another owner was stored just before the commit, it was stored there while the transaction was open.\<close>

theorem lock_decided_at_start:
  assumes backend: "shared_backend K data txn hist" and c: "codec_ok (c_lock C)"
    and run: "tc_acquire_lock K C resource owner ttl st = (Inr True, st')"
  shows "\<exists>start before h cur l.
    hist (cl_world st') = (start, before, data (cl_world st')) # h \<and>
    stored_lock C start resource = Inr cur \<and>
    (\<forall>l0. cur = Some l0 \<longrightarrow> lk_owner l0 = owner \<or> lk_is_expired (cl_clock st') l0) \<and>
    lk_owner l = owner \<and> cl_clock st' + duration_seconds ttl \<le> lk_expires_at l \<and>
    data (cl_world st') = before(lock_key resource \<mapsto> enc (c_lock C) l) \<and>
    (\<forall>l1. stored_lock C before resource = Inr (Some l1) \<longrightarrow> lk_owner l1 \<noteq> owner \<longrightarrow> \<not> lk_is_expired (cl_clock st') l1 \<longrightarrow>
       before (lock_key resource) \<noteq> start (lock_key resource))"
proof -
  let ?Q = "\<lambda>st'. \<exists>m cur l v st. stored_lock C m resource = Inr cur \<and>
    lock_decision (cl_clock st') resource owner ttl cur = Some l \<and>
    ser (c_lock C) l = Inr v \<and> shared_backend.committed data hist m [lock_key resource \<mapsto> Some v] st st'"
  have once: "r \<longrightarrow> ?Q t" if "tc_acquire_lock_once K C resource owner ttl s = (Inr r, t)" for r s t
    using shared_backend.acquire_once_run [OF backend, of C resource owner ttl s t] that by (cases r) (simp_all, blast)
  have "valid (\<lambda>_. True) (tc_acquire_lock K C resource owner ttl) (\<lambda>r st'. r \<longrightarrow> ?Q st') (\<lambda>_ _. True)"
    unfolding tc_acquire_lock_def by (rule with_retry_valid, rule validI, erule once) simp_all
  from valid_Inr [OF this _ run] obtain m cur l v s0 where
    l: "stored_lock C m resource = Inr cur" "lock_decision (cl_clock st') resource owner ttl cur = Some l" "ser (c_lock C) l = Inr v"
    and com: "shared_backend.committed data hist m [lock_key resource \<mapsto> Some v] s0 st'"
    by blast
  from com obtain before where before: "data (cl_world st') = before(lock_key resource \<mapsto> v)"
    "hist (cl_world st') = (m, before, data (cl_world st')) # hist (cl_world s0)"
    unfolding shared_backend.committed_def [OF backend] by auto
  from l(3) have v: "v = enc (c_lock C) l" by (simp add: enc_def)
  from l(2) have d: "\<forall>l0. cur = Some l0 \<longrightarrow> lk_owner l0 = owner \<or> lk_is_expired (cl_clock st') l0"
    "lk_owner l = owner" "cl_clock st' + duration_seconds ttl \<le> lk_expires_at l"
    by (auto simp: lk_is_expired_def lock_new_def lk_extend_def elim!: lock_decision.elims split: if_splits)
  have "before (lock_key resource) \<noteq> m (lock_key resource)"
    if "stored_lock C before resource = Inr (Some l1)" "lk_owner l1 \<noteq> owner" "\<not> lk_is_expired (cl_clock st') l1" for l1
    using that l(1) d(1) by (auto simp: stored_lock_def)
  with before l(1) d v show ?thesis by blast
qed

text \<open>C5: what a compare-and-swap guarantees while other clients work. Whatever other clients commit between its calls, a swap
  that succeeds found the expected version (or, for version 0, no value) in the snapshot its transaction began with, and the
  commit stores the new value and changes nothing else. If the version just before the commit was a different one, the value
  was changed while the transaction was open.\<close>

theorem cas_decided_at_start:
  assumes backend: "shared_backend K data txn hist" and run: "tc_cas K C k e d st = (Inr True, st')"
  shows "\<exists>start before. hist (cl_world st') = (start, before, data (cl_world st')) # hist (cl_world st) \<and>
    (case start k of None \<Rightarrow> e = 0 | Some v \<Rightarrow> json_version C v = Some e) \<and>
    data (cl_world st') = before(k \<mapsto> d) \<and>
    (\<forall>v. before k = Some v \<longrightarrow> json_version C v \<noteq> Some e \<longrightarrow> before k \<noteq> start k)"
proof -
  from shared_backend.cas_run [OF backend run] obtain m where
    m: "case m k of None \<Rightarrow> e = 0 | Some v \<Rightarrow> json_version C v = Some e"
    and com: "shared_backend.committed data hist m [k \<mapsto> Some d] st st'"
    by blast
  from com obtain before where before: "data (cl_world st') = before(k \<mapsto> d)"
    "hist (cl_world st') = (m, before, data (cl_world st')) # hist (cl_world st)"
    unfolding shared_backend.committed_def [OF backend] by auto
  from m have "\<forall>v. before k = Some v \<longrightarrow> json_version C v \<noteq> Some e \<longrightarrow> before k \<noteq> m k"
    by (auto split: option.splits)
  with before m show ?thesis by blast
qed

text \<open>C6: two workers can claim the same unit. On a store whose reads take no lock, when the claim of a second worker commits after the first worker's read and before
  its first write, both claims return the unit: the second one alone yields the data that the first one's commit then finds and
  overwrites.\<close>

theorem overlapping_claims_both_succeed:
  assumes c: "codec_ok (c_unit C)" and u: "wu_claim now w1 u = Inr a" "wu_claim now w2 u = Inr b" and pk: "pk \<noteq> wk"
  shows "\<exists>s1 s2.
    tc_transactional_claim shared_kv wk pk (claim_processor C now w2)
      (shared_client (shared_store [(wk, enc (c_unit C) u), (pk, q)] []) now) = (Inr (Some (enc (c_unit C) b)), s2) \<and>
    tc_transactional_claim shared_kv wk pk (claim_processor C now w1)
      (shared_client (shared_store [(wk, enc (c_unit C) u), (pk, q)]
         (then_commit 2 [(wk, Some (enc (c_unit C) b)), (pk, None)])) now) = (Inr (Some (enc (c_unit C) a)), s1) \<and>
    fst (snd (hd (sh_hist (cl_world s1)))) = sh_contents (cl_world s2)"
  using pk
  by (simp add: tc_transactional_claim_def claim_processor_def u codec_ok_enc [OF c] sh_run_defs)

text \<open>C7: two owners can be granted the same lock. On a store whose reads take no lock, when the request of a second owner commits after the first owner's read and
  before its write, both requests for the free lock are granted for their full time: the second one alone yields the data that
  the first one's commit then finds and overwrites.\<close>

theorem overlapping_locks_both_granted:
  assumes c: "codec_ok (c_lock C)"
  shows "\<exists>s1 s2.
    tc_acquire_lock shared_kv C resource o2 ttl2 (shared_client (shared_store [] []) now) = (Inr True, s2) \<and>
    tc_acquire_lock shared_kv C resource o1 ttl1
      (shared_client (shared_store []
         (then_commit 2 [(lock_key resource, Some (enc (c_lock C) (lock_new now resource o2 ttl2)))])) now) = (Inr True, s1) \<and>
    fst (snd (hd (sh_hist (cl_world s1)))) = sh_contents (cl_world s2) \<and>
    stored_lock C (sh_contents (cl_world s2)) resource = Inr (Some (lock_new now resource o2 ttl2)) \<and>
    stored_lock C (sh_contents (cl_world s1)) resource = Inr (Some (lock_new now resource o1 ttl1))"
  by (simp add: tc_acquire_lock_def with_retry_def retry_loop.simps tc_acquire_lock_once_def commit_or_rollback_def
      acquire_lock_body_def put_lock_def codec_ok_enc [OF c] stored_lock_def sh_run_defs)

lemma allocations_shared:
  assumes cc: "counter_codec C cc" and adv: "advance_counter (al_max_episodes a) n cur = Inr d"
    and script: "es = [] \<or> es = then_commit 6 [(al_counter_key a, Some v)]"
  shows "\<exists>st. cas_allocate shared_kv C cc a n
      (shared_client (shared_store [(al_counter_key a, enc cc cur)] es) now) = (Inr (ec_next_episode cur), st) \<and>
    sh_contents (cl_world st) = [al_counter_key a \<mapsto> enc cc d] \<and>
    (es \<noteq> [] \<longrightarrow> fst (snd (hd (sh_hist (cl_world st)))) = [al_counter_key a \<mapsto> v])"
proof -
  have ok: "codec_ok cc" and ver: "json_version C (enc cc cur) = Some (ec_version d - 1)"
    using cc adv by (auto simp: counter_codec_def advance_counter_def split: option.splits if_splits)
  show ?thesis
    using script
    by (elim disjE)
       (simp_all add: cas_allocate_def ensure_initialized_def map_errM_def tc_get_def tc_cas_def adv ver codec_ok_enc [OF ok]
          sh_run_defs)
qed

text \<open>C8: two processes can be given the same episode indices. On a store whose reads take no lock, when the swap of a second process commits after the read of the
  first one's transaction and before its write, both calls of \<open>allocate_batch\<close> return the same indices, as many as requested: the
  second one alone yields the data that the first one's commit then finds and overwrites.\<close>

theorem overlapping_allocations_collide:
  assumes cc: "counter_codec C cc" and adv: "advance_counter (al_max_episodes a) n cur = Inr d"
    and pos: "n \<noteq> 0" "al_episodes_per_chunk a \<noteq> 0"
  shows "\<exists>xs s1 s2.
    ep_allocate_batch shared_kv C cc a n
      (shared_client (shared_store [(al_counter_key a, enc cc cur)] []) now) = (Inr xs, s2) \<and>
    ep_allocate_batch shared_kv C cc a n
      (shared_client (shared_store [(al_counter_key a, enc cc cur)]
         (then_commit 6 [(al_counter_key a, Some (enc cc d))])) now) = (Inr xs, s1) \<and>
    length xs = unat n \<and> fst (snd (hd (sh_hist (cl_world s1)))) = sh_contents (cl_world s2)"
proof -
  let ?k = "al_counter_key a" and ?s = "ec_next_episode cur"
  obtain xs where xs: "allocations_from (al_episodes_per_chunk a) ?s (unat n) = Inr xs"
    using allocations_from_total [OF pos(2)] by blast
  have len: "length ys = m" if "allocations_from e s m = Inr ys" for e s m ys
    using that by (induction e s m arbitrary: ys rule: allocations_from.induct) (auto split: sum.splits)
  have batch: "ep_allocate_batch shared_kv C cc a n st = (Inr xs, t)"
    if "cas_allocate shared_kv C cc a n st = (Inr ?s, t)" for st :: "'a shared client" and t
    using that pos(1) xs by (simp add: ep_allocate_batch_def alloc_loop.simps handleM_def bindM_def)
  from allocations_shared [OF cc adv, of "[]"] obtain s2 where s2:
    "cas_allocate shared_kv C cc a n (shared_client (shared_store [(?k, enc cc cur)] []) now) = (Inr ?s, s2)"
    "sh_contents (cl_world s2) = [?k \<mapsto> enc cc d]"
    by auto
  from allocations_shared [OF cc adv, of "then_commit 6 [(?k, Some (enc cc d))]" "enc cc d" now] obtain s1 where s1:
    "cas_allocate shared_kv C cc a n
       (shared_client (shared_store [(?k, enc cc cur)] (then_commit 6 [(?k, Some (enc cc d))])) now) = (Inr ?s, s1)"
    "fst (snd (hd (sh_hist (cl_world s1)))) = [?k \<mapsto> enc cc d]"
    by (auto simp: then_commit_def)
  from batch [OF s2(1)] batch [OF s1(1)] len [OF xs] s1(2) s2(2) show ?thesis by auto
qed

section \<open>Witnesses\<close>

abbreviation race_unit :: work_unit where
  "race_unit \<equiv> work_unit_with_id 0 ''u1'' ''jobs:b'' [] [] []"

abbreviation race_claimed :: "string \<Rightarrow> work_unit" where
  "race_claimed w \<equiv> race_unit\<lparr>wu_status := WProcessing, wu_owner := Some w, wu_attempts := 1, wu_updated_at := 9\<rparr>"

lemma race_unit_claim: "wu_claim 9 w race_unit = Inr (race_claimed w)"
  by (simp add: wu_claim_Inr_iff wu_is_claimable_def wus_defs work_unit_with_id_def default_max_attempts_def)

lemma race_queue_scan:
  "sh_scan pending_prefix (scan_end pending_prefix) 1 demo_queue = [(pending_key ''jobs:b'' ''u1'', PRaw ''jobs:b'')]"
  using demo_queue_first
  unfolding sh_scan_def mem_scan_entries prefix_entries_def by simp

text \<open>Worker \<open>w2\<close> claims the unit between the read and the write of \<open>w1\<close>, which is given it nevertheless.\<close>

lemma race_run:
  "\<exists>st'. claim_work_unit shared_kv mem_codecs ''w1'' (shared_client (shared_store demo_queue
      (then_commit 4 [(unit_key ''jobs:b'' ''u1'', Some (PUnit (race_claimed ''w2'')))])) 9)
     = (Inr (Some (race_claimed ''w1'')), st')"
proof -
  have p: "parse_pending_key (pending_key ''jobs:b'' ''u1'') = Some (''jobs:b'', ''u1'')"
    by (rule parse_pending_key_ok) simp_all
  have d: "map_of demo_queue (unit_key ''jobs:b'' ''u1'') = Some (PUnit race_unit)" by (simp add: demo_queue_def)
  let ?s = "shared_client (shared_store demo_queue
      (then_commit 4 [(unit_key ''jobs:b'' ''u1'', Some (PUnit (race_claimed ''w2'')))])) 9"
  obtain s1 where scan: "tc_scan shared_kv pending_prefix 1 ?s = (Inr [(pending_key ''jobs:b'' ''u1'', PRaw ''jobs:b'')], s1)"
    and s1: "cl_clock s1 = 9" "cl_connected s1" "sh_data (cl_world s1) = demo_queue" "sh_txns (cl_world s1) = []"
      "sh_script (cl_world s1) = then_commit 2 [(unit_key ''jobs:b'' ''u1'', Some (PUnit (race_claimed ''w2'')))]"
    by (simp add: tc_scan_def race_queue_scan sh_run_defs)
  obtain s2 where "tc_transactional_claim shared_kv (unit_key ''jobs:b'' ''u1'') (pending_key ''jobs:b'' ''u1'')
      (claim_processor mem_codecs 9 ''w1'') s1 = (Inr (Some (PUnit (race_claimed ''w1''))), s2)"
    using s1
    by (simp add: tc_transactional_claim_def claim_processor_def race_unit_claim d mem_codecs_def mem_codec_def sh_run_defs)
  with scan s1(1) p show ?thesis
    by (simp add: claim_work_unit_def bindM_def now_utc_def decode_def mem_codecs_def mem_codec_def)
qed

theorem claim_decided_at_start_witness:
  "\<exists>u st' start before. claim_work_unit shared_kv mem_codecs ''w1'' (shared_client (shared_store demo_queue
      (then_commit 4 [(unit_key ''jobs:b'' ''u1'', Some (PUnit (race_claimed ''w2'')))])) 9) = (Inr (Some u), st') \<and>
     wu_owner u = Some ''w1'' \<and> hd (sh_hist (cl_world st')) = (start, before, sh_contents (cl_world st'))"
proof -
  from race_run obtain st' where run: "claim_work_unit shared_kv mem_codecs ''w1'' (shared_client (shared_store demo_queue
      (then_commit 4 [(unit_key ''jobs:b'' ''u1'', Some (PUnit (race_claimed ''w2'')))])) 9)
     = (Inr (Some (race_claimed ''w1'')), st')"
    by blast
  from claim_decided_at_start [OF sh.shared_backend_axioms codecs_okD(1) [OF mem_codecs_ok] run]
  obtain start before where "hd (sh_hist (cl_world st')) = (start, before, sh_contents (cl_world st'))"
    "wu_owner (race_claimed ''w1'') = Some ''w1''"
    by auto
  with run show ?thesis by blast
qed

theorem lock_decided_at_start_witness:
  "\<exists>st' start before h. tc_acquire_lock shared_kv mem_codecs ''r'' ''p1'' 60 (shared_client (shared_store []
      (then_commit 2 [(lock_key ''r'', Some (PLock (lock_new 9 ''r'' ''p2'' 60)))])) 9) = (Inr True, st') \<and>
     sh_hist (cl_world st') = (start, before, sh_contents (cl_world st')) # h"
proof -
  obtain st' where run: "tc_acquire_lock shared_kv mem_codecs ''r'' ''p1'' 60 (shared_client (shared_store []
      (then_commit 2 [(lock_key ''r'', Some (PLock (lock_new 9 ''r'' ''p2'' 60)))])) 9) = (Inr True, st')"
    by (simp add: tc_acquire_lock_def with_retry_def retry_loop.simps tc_acquire_lock_once_def commit_or_rollback_def
        acquire_lock_body_def put_lock_def mem_codecs_def mem_codec_def sh_run_defs)
  from lock_decided_at_start [OF sh.shared_backend_axioms codecs_okD(4) [OF mem_codecs_ok] run] run show ?thesis by blast
qed

theorem cas_decided_at_start_witness:
  "\<exists>st' start before. tc_cas shared_kv mem_codecs ''k'' 0 (PJson [(''version'', 1)]) (shared_client (shared_store [] []) 9)
      = (Inr True, st') \<and> hd (sh_hist (cl_world st')) = (start, before, sh_contents (cl_world st'))"
proof -
  obtain st' where run: "tc_cas shared_kv mem_codecs ''k'' 0 (PJson [(''version'', 1)]) (shared_client (shared_store [] []) 9)
      = (Inr True, st')"
    by (simp add: tc_cas_def sh_run_defs)
  from cas_decided_at_start [OF sh.shared_backend_axioms run] run show ?thesis by fastforce
qed

theorem overlapping_claims_both_succeed_witness:
  "\<exists>s1. tc_transactional_claim shared_kv ''u'' ''p'' (claim_processor mem_codecs 9 ''w1'')
      (shared_client (shared_store [(''u'', enc (c_unit mem_codecs) race_unit), (''p'', PRaw [])]
         (then_commit 2 [(''u'', Some (enc (c_unit mem_codecs) (race_claimed ''w2''))), (''p'', None)])) 9)
     = (Inr (Some (enc (c_unit mem_codecs) (race_claimed ''w1''))), s1)"
  using overlapping_claims_both_succeed [OF _ race_unit_claim [of "''w1''"] race_unit_claim [of "''w2''"], of mem_codecs "''p''" "''u''"
      "PRaw []"] mem_codecs_ok
  by auto

theorem overlapping_locks_both_granted_witness:
  "\<exists>s1 s2. tc_acquire_lock shared_kv mem_codecs ''r'' ''p2'' 60 (shared_client (shared_store [] []) 9) = (Inr True, s2) \<and>
     tc_acquire_lock shared_kv mem_codecs ''r'' ''p1'' 30 (shared_client (shared_store []
       (then_commit 2 [(lock_key ''r'', Some (enc (c_lock mem_codecs) (lock_new 9 ''r'' ''p2'' 60)))])) 9) = (Inr True, s1)"
  using overlapping_locks_both_granted [of mem_codecs "''r''" "''p2''" 60 9 "''p1''" 30] mem_codecs_ok by blast

theorem overlapping_allocations_collide_witness:
  "\<exists>xs s1. ep_allocate_batch shared_kv mem_codecs mem_counter (episode_allocator_new ''b'' 500) 3
      (shared_client (shared_store [(al_counter_key (episode_allocator_new ''b'' 500), enc mem_counter episode_counter_new)]
         (then_commit 6 [(al_counter_key (episode_allocator_new ''b'' 500),
            Some (enc mem_counter \<lparr> ec_next_episode = 3, ec_version = 1 \<rparr>))])) 9) = (Inr xs, s1) \<and> length xs = 3"
proof -
  have "advance_counter (al_max_episodes (episode_allocator_new ''b'' 500)) 3 episode_counter_new
      = Inr \<lparr> ec_next_episode = 3, ec_version = 1 \<rparr>"
    by (simp add: advance_counter_def checked_add_def episode_counter_new_def episode_allocator_new_def ucast_max_u32)
  from overlapping_allocations_collide [OF mem_counter_ok this, of 9] show ?thesis
    by (auto simp: episode_allocator_new_def)
qed

end
