(* ===== verification/Client_Properties.thy ===== *)
theory Client_Properties
  imports Client_Logic
begin

text \<open>
  Properties of the client of \<open>tikv/client.rs\<close>: what a failed write can have done, that a compare-and-swap
  has one winner, how long the retry loop goes on, and that an open circuit keeps calls away from the
  cluster.
\<close>

section \<open>The retry loop\<close>

text \<open>The delays of a loop that makes the attempts \<open>a, ..., mx\<close>, in nanoseconds.\<close>

definition retry_wait :: "u64 \<Rightarrow> nat \<Rightarrow> nat \<Rightarrow> int" where
  "retry_wait base a mx = (\<Sum>i = a..<mx. uint (retry_delay_ms base i) * ns_per_ms)"

lemma retry_loop_exhausts:
  assumes fails: "\<And>st. \<exists>e st'. op st = (Inl e, st') \<and> retry e \<and> cl_clock st' = cl_clock st \<and>
      calls (cl_world st') = Suc (calls (cl_world st))"
  shows "a \<le> mx \<Longrightarrow> \<exists>e st'. retry_loop retry base mx a op st = (Inl e, st') \<and> retry e \<and>
    calls (cl_world st') = calls (cl_world st) + (mx - a) + 1 \<and>
    cl_clock st' = cl_clock st + retry_wait base a mx"
proof (induction "mx - a" arbitrary: a st)
  case 0
  from fails [of st] 0 show ?case
    by (subst retry_loop.simps) (auto simp: handleM_def retry_wait_def)
next
  case (Suc n)
  then have less: "a < mx" and n: "n = mx - Suc a" by simp_all
  obtain e st1 where op: "op st = (Inl e, st1)" "retry e" "cl_clock st1 = cl_clock st"
    "calls (cl_world st1) = Suc (calls (cl_world st))"
    using fails by blast
  let ?st2 = "st1\<lparr>cl_clock := cl_clock st1 + uint (retry_delay_ms base a) * ns_per_ms\<rparr>"
  obtain e' st' where rest: "retry_loop retry base mx (Suc a) op ?st2 = (Inl e', st')" "retry e'"
    "calls (cl_world st') = calls (cl_world st1) + (mx - Suc a) + 1"
    "cl_clock st' = cl_clock ?st2 + retry_wait base (Suc a) mx"
    using Suc.hyps(1) [OF n, of ?st2] less by auto
  have "retry_wait base a mx = uint (retry_delay_ms base a) * ns_per_ms + retry_wait base (Suc a) mx"
    using less by (simp add: retry_wait_def sum.atLeast_Suc_lessThan)
  with op rest less show ?case
    by (subst retry_loop.simps) (auto simp: handleM_def bindM_def sleep_def)
qed

lemma retry_delay_exact:
  assumes "unat base * 2 ^ n < 2 ^ 64" "i < n" "base \<noteq> 0"
  shows "uint (retry_delay_ms base i) = uint base * 2 ^ i"
proof -
  have le: "unat base * 2 ^ i \<le> unat base * 2 ^ n" using assms(2) by (simp add: power_increasing)
  then have small: "unat base * 2 ^ i < 2 ^ 64" using assms(1) by linarith
  moreover have "(2::nat) ^ i \<le> unat base * 2 ^ i"
    using assms(3) by (cases "unat base") (auto simp: unat_eq_0)
  ultimately have "(2::nat) ^ i < 2 ^ 64" by linarith
  then have p: "unat ((2::u64) ^ i) = 2 ^ i"
    using unat_of_nat [of "2 ^ i", where 'a = 64] by simp
  have fits: "unat base * unat ((2::u64) ^ i) < 2 ^ LENGTH(64)" using small by (simp add: p)
  have "unat (retry_delay_ms base i) = unat base * 2 ^ i"
    unfolding retry_delay_ms_def saturating_mul_def if_P [OF fits]
    using unat_mult_lem [THEN iffD1, OF fits] by (simp only: p)
  then show ?thesis by (simp only: uint_nat of_nat_mult of_nat_power of_nat_numeral)
qed

lemma retry_wait_exact:
  assumes "unat base * 2 ^ n < 2 ^ 64" "base \<noteq> 0"
  shows "retry_wait base 0 n = uint base * (2 ^ n - 1) * ns_per_ms"
proof -
  have "retry_wait base 0 n = (\<Sum>i = 0..<n. uint base * 2 ^ i * ns_per_ms)"
    unfolding retry_wait_def by (rule sum.cong) (auto simp: retry_delay_exact [OF assms(1) _ assms(2)])
  also have "\<dots> = uint base * (\<Sum>i = 0..<n. 2 ^ i) * ns_per_ms"
    by (simp add: sum_distrib_left sum_distrib_right)
  also have "(\<Sum>i = 0..<n. 2 ^ i) = (2 ^ n - 1 :: int)"
    by (induction n) auto
  finally show ?thesis .
qed

section \<open>Properties\<close>

text \<open>the retry loop gives up. When every attempt fails with an error that is to be retried, an operation
  makes exactly \<open>max_retries + 1\<close> calls and returns the last error after waiting the doubled delays, which
  sum to \<open>base * (2 ^ max_retries - 1)\<close> milliseconds as long as they fit into 64 bits.\<close>

theorem retry_gives_up:
  fixes st :: "'s client"
  assumes fails: "\<And>st. \<exists>e st'. op st = (Inl e, st') \<and> retry e \<and> cl_clock st' = cl_clock st \<and>
      calls (cl_world st') = Suc (calls (cl_world st))"
    and fits: "unat (retry_base_delay_ms (cl_config st)) * 2 ^ unat (max_retries (cl_config st)) < 2 ^ 64"
    and base: "retry_base_delay_ms (cl_config st) \<noteq> 0"
  shows "\<exists>e st'. with_retry retry op st = (Inl e, st') \<and> retry e \<and>
    calls (cl_world st') = calls (cl_world st) + unat (max_retries (cl_config st)) + 1 \<and>
    cl_clock st' = cl_clock st + uint (retry_base_delay_ms (cl_config st)) *
      (2 ^ unat (max_retries (cl_config st)) - 1) * ns_per_ms"
  unfolding with_retry_def retry_wait_exact [OF fits base, symmetric]
  using retry_loop_exhausts [where op = op and calls = calls and st = st
      and mx = "unat (max_retries (cl_config st))" and base = "retry_base_delay_ms (cl_config st)", OF fails le0]
  by (auto simp: bindM_def)

lemma conflict_seen: "is_write_conflict (ClientError ''WriteConflict'')"
  by (simp add: is_write_conflict_def str_contains_def)

theorem retry_gives_up_witness:
  "\<exists>e st'. with_retry is_write_conflict
       (\<lambda>st. (Inl (ClientError ''WriteConflict''), st\<lparr>cl_world := Suc (cl_world st)\<rparr>))
       \<lparr> cl_config = default_tikv_config (\<lambda>_. None), cl_connected = True,
         cl_circuit = circuit_new 0 default_circuit_config, cl_clock = 0, cl_world = 0 \<rparr> = (Inl e, st') \<and>
     cl_world st' = 11 \<and> cl_clock st' = 51150 * ns_per_ms"
  using retry_gives_up [where calls = "\<lambda>n. n" and retry = is_write_conflict
      and op = "\<lambda>st. (Inl (ClientError ''WriteConflict''), st\<lparr>cl_world := Suc (cl_world st)\<rparr>)"
      and st = "\<lparr> cl_config = default_tikv_config (\<lambda>_. None), cl_connected = True,
         cl_circuit = circuit_new 0 default_circuit_config, cl_clock = 0, cl_world = 0 \<rparr>"]
  by (auto simp: conflict_seen default_tikv_config_def env_unsigned_def)

text \<open>a compare-and-swap has one winner. When a swap from version \<open>e\<close> succeeded and wrote a value of
  another version, a later swap from the same version does not succeed as long as nobody else writes the
  key, whatever faults happen.\<close>

theorem cas_one_winner:
  assumes backend: "tikv_backend K contents fresh pend"
    and first: "tc_cas K C k e v1 st1 = (Inr True, st1')"
    and version: "json_version C v1 \<noteq> Some e"
    and kept: "contents (cl_world st2) k = contents (cl_world st1') k"
    and second: "tc_cas K C k e v2 st2 = (r, st2')"
  shows "r \<noteq> Inr True"
proof
  assume "r = Inr True"
  with second have "cas_outcome C (contents (cl_world st2)) k e v2 = (Inr True, contents (cl_world st2'))"
    using valid_Inr [OF tikv_backend.cas_valid [OF backend], of "contents (cl_world st2)" st2]
    by (auto simp: data_at_def)
  moreover have "cas_outcome C (contents (cl_world st1)) k e v1 = (Inr True, contents (cl_world st1'))"
    using valid_Inr [OF tikv_backend.cas_valid [OF backend], of "contents (cl_world st1)" st1] first
    by (auto simp: data_at_def)
  ultimately show False
    using kept version unfolding cas_won by simp
qed

theorem cas_one_winner_witness:
  "\<exists>st'. tc_cas mem_kv mem_codecs ''k'' 0 (PJson [(''version'', 1)]) (demo_client (demo_store [] []) 9) = (Inr True, st') \<and>
     (\<forall>st''. tc_cas mem_kv mem_codecs ''k'' 0 (PJson [(''version'', 1)]) st' \<noteq> (Inr True, st''))"
proof -
  obtain st' where run: "tc_cas mem_kv mem_codecs ''k'' 0 (PJson [(''version'', 1)]) (demo_client (demo_store [] []) 9) = (Inr True, st')"
    by (simp add: run_defs tc_cas_def)
  then show ?thesis
    using cas_one_winner [OF mem.tikv_backend_axioms run _ refl, of "PJson [(''version'', 1)]" "Inr True"]
    by (auto simp: mem_codecs_def)
qed

text \<open>writes under faults. A put that returns has written its pair and nothing else; one that fails, after
  any number of retried attempts, has written its pair or nothing. The same holds of a delete.\<close>

theorem write_outcomes:
  assumes backend: "tikv_backend K contents fresh pend"
    and put: "tc_put K k v st = (r, st')" and del: "tc_delete K k st = (q, st'')"
  defines "m \<equiv> contents (cl_world st)"
  shows "contents (cl_world st') \<in> (if r = Inr () then {m(k \<mapsto> v)} else {m, m(k \<mapsto> v)}) \<and>
    contents (cl_world st'') \<in> (if q = Inr () then {m(k := None)} else {m, m(k := None)})"
proof
  show "contents (cl_world st') \<in> (if r = Inr () then {m(k \<mapsto> v)} else {m, m(k \<mapsto> v)})"
    using put tikv_backend.run_put [OF backend, of k v st] unfolding m_def by (cases r) auto
  show "contents (cl_world st'') \<in> (if q = Inr () then {m(k := None)} else {m, m(k := None)})"
    using del tikv_backend.run_delete [OF backend, of k st] unfolding m_def by (cases q) auto
qed

theorem write_outcomes_witness:
  "\<exists>r st'. tc_put mem_kv ''k'' (PRaw ''v'') (demo_client (demo_store [] [NoFault, NoFault, FailAfter ''WriteConflict'']) 9) = (r, st') \<and>
     mem_contents (cl_world st') \<in> {Map.empty, [''k'' \<mapsto> PRaw ''v'']}"
proof -
  obtain r st' q st'' where
    "tc_put mem_kv ''k'' (PRaw ''v'') (demo_client (demo_store [] [NoFault, NoFault, FailAfter ''WriteConflict'']) 9) = (r, st')"
    "tc_delete mem_kv ''k'' (demo_client (demo_store [] [NoFault, NoFault, FailAfter ''WriteConflict'']) 9) = (q, st'')"
    by fastforce
  with write_outcomes [OF mem.tikv_backend_axioms this] show ?thesis
    by (auto simp: demo_client_def demo_store_def mem_contents_def split: if_splits)
qed

text \<open>an open circuit shields the cluster. Until the timeout of an open circuit has passed, \<open>get\<close>, \<open>put\<close>
  and \<open>delete\<close> fail at once with \<open>CircuitOpen\<close>: the cluster is not called, no time is spent and the client is
  unchanged.\<close>

theorem open_circuit_shields:
  fixes K :: "('s, 'v) kv"
  assumes "cb_get_state (cl_circuit st) = Open" "\<not> cb_should_attempt_reset (cl_clock st) (cl_circuit st)"
  defines "refused \<equiv> CircuitOpen (ucast (cb_failures (cl_circuit st)))"
  shows "tc_get K k st = (Inl refused, st) \<and> tc_put K k v st = (Inl refused, st) \<and>
    tc_delete K k st = (Inl refused, st)"
proof -
  have "check_circuit st = (Inl refused, st)"
    using assms by (simp add: check_circuit_def cb_is_call_permitted_def)
  then show ?thesis
    by (simp add: tc_get_def tc_put_def tc_put_once_def tc_delete_def tc_delete_once_def bindM_def
        with_retry_def retry_loop.simps handleM_def refused_def)
qed

theorem open_circuit_shields_witness:
  "tc_put mem_kv ''k'' (PRaw ''v'')
       ((demo_client (demo_store [] []) 9)\<lparr>cl_circuit := cb_trip 9 (circuit_new 9 default_circuit_config)\<rparr>) =
     (Inl (CircuitOpen 0),
      (demo_client (demo_store [] []) 9)\<lparr>cl_circuit := cb_trip 9 (circuit_new 9 default_circuit_config)\<rparr>)"
  using open_circuit_shields [where K = mem_kv and k = "''k''" and v = "PRaw ''v''"
      and st = "(demo_client (demo_store [] []) 9)\<lparr>cl_circuit := cb_trip 9 (circuit_new 9 default_circuit_config)\<rparr>"]
  by (simp add: demo_client_def cb_trip_def cb_set_state_def circuit_new_def cb_get_state_def cs_from_u8_def
      cb_should_attempt_reset_def cb_elapsed_def default_circuit_config_def duration_seconds_def ns_per_sec_def
      saturating_sub_def)

end
