(* ===== verification/Zombie_Reaper.thy ===== *)
theory Zombie_Reaper
  imports Client_Logic
begin

text \<open>
  \<open>reaper.rs\<close>: reclaiming the work units of workers whose heartbeat is stale. The state of an operation is
  the client and the metrics counters. The loop of \<open>run\<close> is one iteration followed by a sleep; the shutdown
  channel only ends it.

  A reaper touches nothing but orphans (\<open>reap_rel\<close>), whatever faults happen; in a calm cluster the outcome of
  a reclamation is determined, and the reclaimed unit is not put back into the pending queue.
\<close>

section \<open>Configuration and metrics\<close>

record reaper_config =
  rc_interval :: int
  rc_stale_threshold :: int
  rc_max_reclaims_per_iteration :: nat
  rc_max_work_unit_scan :: u32

definition default_reaper_config :: reaper_config where
  "default_reaper_config =
     \<lparr> rc_interval = duration_seconds 60, rc_stale_threshold = duration_seconds 300,
       rc_max_reclaims_per_iteration = 10, rc_max_work_unit_scan = 1000 \<rparr>"

definition rc_with_interval :: "int \<Rightarrow> reaper_config \<Rightarrow> reaper_config" where
  "rc_with_interval d c = c\<lparr>rc_interval := d\<rparr>"

definition rc_with_stale_threshold :: "int \<Rightarrow> reaper_config \<Rightarrow> reaper_config" where
  "rc_with_stale_threshold d c = c\<lparr>rc_stale_threshold := d\<rparr>"

definition rc_with_max_reclaims :: "nat \<Rightarrow> reaper_config \<Rightarrow> reaper_config" where
  "rc_with_max_reclaims n c = c\<lparr>rc_max_reclaims_per_iteration := n\<rparr>"

definition rc_with_max_work_unit_scan :: "u32 \<Rightarrow> reaper_config \<Rightarrow> reaper_config" where
  "rc_with_max_work_unit_scan n c = c\<lparr>rc_max_work_unit_scan := n\<rparr>"

record reaper_metrics =
  rm_work_units_reclaimed :: u64
  rm_stale_workers_found :: u64
  rm_iterations_total :: u64
  rm_reclaim_attempts :: u64
  rm_reclaim_failures :: u64
  rm_work_units_skipped :: u64

definition reaper_metrics_new :: reaper_metrics where
  "reaper_metrics_new =
     \<lparr> rm_work_units_reclaimed = 0, rm_stale_workers_found = 0, rm_iterations_total = 0,
       rm_reclaim_attempts = 0, rm_reclaim_failures = 0, rm_work_units_skipped = 0 \<rparr>"

definition inc_work_units_reclaimed :: "reaper_metrics \<Rightarrow> reaper_metrics" where
  "inc_work_units_reclaimed m = m\<lparr>rm_work_units_reclaimed := rm_work_units_reclaimed m + 1\<rparr>"

definition inc_stale_workers_found :: "u64 \<Rightarrow> reaper_metrics \<Rightarrow> reaper_metrics" where
  "inc_stale_workers_found n m = m\<lparr>rm_stale_workers_found := rm_stale_workers_found m + n\<rparr>"

definition inc_iterations :: "reaper_metrics \<Rightarrow> reaper_metrics" where
  "inc_iterations m = m\<lparr>rm_iterations_total := rm_iterations_total m + 1\<rparr>"

definition inc_reclaim_attempts :: "reaper_metrics \<Rightarrow> reaper_metrics" where
  "inc_reclaim_attempts m = m\<lparr>rm_reclaim_attempts := rm_reclaim_attempts m + 1\<rparr>"

definition inc_reclaim_failures :: "reaper_metrics \<Rightarrow> reaper_metrics" where
  "inc_reclaim_failures m = m\<lparr>rm_reclaim_failures := rm_reclaim_failures m + 1\<rparr>"

definition inc_work_units_skipped :: "reaper_metrics \<Rightarrow> reaper_metrics" where
  "inc_work_units_skipped m = m\<lparr>rm_work_units_skipped := rm_work_units_skipped m + 1\<rparr>"

datatype reclaim_result = Reclaimed | NotStale | NotProcessing | ReclaimFailed | Skipped

type_synonym ('s, 'a) reaper = "('s client \<times> reaper_metrics, tikv_error, 'a) prog"

section \<open>Operations\<close>

definition find_stale_workers ::
    "('s, 'v) kv \<Rightarrow> 'v codecs \<Rightarrow> reaper_config \<Rightarrow> ('s, string list) reaper" where
  "find_stale_workers K C cfg =
     bindM (on_fst (tc_scan K heartbeat_prefix 1000)) (\<lambda>results.
     bindM (on_fst now_utc) (\<lambda>now.
     let pods = stale_pods C now (secs_i64 (rc_stale_threshold cfg)) results
     in bindM (on_snd (inc_stale_workers_found (of_nat (length pods)))) (\<lambda>_. ret pods)))"

definition orphans :: "'v codecs \<Rightarrow> string list \<Rightarrow> (key \<times> 'v) list \<Rightarrow> (string \<times> string \<times> string) list" where
  "orphans C stale results =
     concat (map (\<lambda>(k, v).
       case de (c_unit C) v of
         Inl _ \<Rightarrow> []
       | Inr u \<Rightarrow>
           (case wu_owner u of
              Some owner \<Rightarrow>
                (if wu_status u = WProcessing \<and> owner \<in> set stale then [(wu_id u, wu_batch_id u, owner)] else [])
            | None \<Rightarrow> [])) results)"

definition find_orphaned_work_units ::
    "('s, 'v) kv \<Rightarrow> 'v codecs \<Rightarrow> reaper_config \<Rightarrow> ('s, (string \<times> string \<times> string) list) reaper" where
  "find_orphaned_work_units K C cfg =
     bindM (find_stale_workers K C cfg) (\<lambda>stale.
     if stale = [] then ret []
     else bindM (on_fst (tc_scan K units_prefix (rc_max_work_unit_scan cfg))) (\<lambda>results.
          ret (orphans C stale results)))"

definition died_message :: string where
  "died_message = ''Worker died during processing''"

definition reclaim_processor :: "'v codecs \<Rightarrow> timestamp \<Rightarrow> string \<Rightarrow> 'v \<Rightarrow> string + 'v option" where
  "reclaim_processor C now owner data =
     (case de (c_unit C) data of
        Inl e \<Rightarrow> Inl e
      | Inr u \<Rightarrow>
          (if wu_status u \<noteq> WProcessing then Inr None
           else if wu_owner u \<noteq> Some owner then Inr None
           else (case ser (c_unit C) (wu_fail now died_message u) of Inl e \<Rightarrow> Inl e | Inr v \<Rightarrow> Inr (Some v))))"

text \<open>Whether a heartbeat that was read shows a live owner.\<close>

definition heartbeat_live :: "'v codecs \<Rightarrow> int \<Rightarrow> timestamp \<Rightarrow> 'v option \<Rightarrow> bool" where
  "heartbeat_live C threshold now data =
     (case data of
        Some d \<Rightarrow> (case de (c_heartbeat C) d of Inr h \<Rightarrow> \<not> hb_is_stale now threshold h | Inl _ \<Rightarrow> False)
      | None \<Rightarrow> False)"

definition reclaim_work_unit ::
    "('s, 'v) kv \<Rightarrow> 'v codecs \<Rightarrow> reaper_config \<Rightarrow> string \<Rightarrow> string \<Rightarrow> string \<Rightarrow> ('s, reclaim_result) reaper" where
  "reclaim_work_unit K C cfg batch_id unit_id owner =
     bindM (on_snd inc_reclaim_attempts) (\<lambda>_.
     bindM (on_fst (tc_get K (heartbeat_key owner))) (\<lambda>data.
     bindM (on_fst now_utc) (\<lambda>now.
     if heartbeat_live C (secs_i64 (rc_stale_threshold cfg)) now data
     then bindM (on_snd inc_work_units_skipped) (\<lambda>_. ret NotStale)
     else handleM
            (on_fst (tc_transactional_claim K (unit_key batch_id unit_id) [] (reclaim_processor C now owner)))
            (\<lambda>_. bindM (on_snd inc_reclaim_failures) (\<lambda>_. ret ReclaimFailed))
            (\<lambda>result. case result of
               Some _ \<Rightarrow> bindM (on_snd inc_work_units_reclaimed) (\<lambda>_. ret Reclaimed)
             | None \<Rightarrow> bindM (on_snd inc_work_units_skipped) (\<lambda>_. ret Skipped)))))"

definition run_iteration :: "('s, 'v) kv \<Rightarrow> 'v codecs \<Rightarrow> reaper_config \<Rightarrow> ('s, nat) reaper" where
  "run_iteration K C cfg =
     bindM (on_snd inc_iterations) (\<lambda>_.
     bindM (find_orphaned_work_units K C cfg) (\<lambda>orphaned.
     foldM (\<lambda>(unit_id, batch_id, owner) n.
       bindM (reclaim_work_unit K C cfg batch_id unit_id owner) (\<lambda>r.
       ret (if r = Reclaimed then n + 1 else n)))
       (take (rc_max_reclaims_per_iteration cfg) orphaned) 0))"

definition reaper_tick :: "('s, 'v) kv \<Rightarrow> 'v codecs \<Rightarrow> reaper_config \<Rightarrow> ('s, unit) reaper" where
  "reaper_tick K C cfg =
     handleM (run_iteration K C cfg) (\<lambda>_. on_fst (sleep (rc_interval cfg))) (\<lambda>_. on_fst (sleep (rc_interval cfg)))"

text \<open>\<open>shutdown\<close> fails when \<open>run\<close> has not created the channel; the message itself only ends the loop.\<close>

definition reaper_shutdown :: "bool \<Rightarrow> tikv_error + unit" where
  "reaper_shutdown started =
     (if started then Inr () else Inl (Other ''Cannot shutdown reaper: no background task running''))"

section \<open>What a reaper changes\<close>

definition lapsed :: "'v codecs \<Rightarrow> int \<Rightarrow> timestamp \<Rightarrow> (key \<rightharpoonup> 'v) \<Rightarrow> string \<Rightarrow> bool" where
  "lapsed C threshold now m owner \<longleftrightarrow> \<not> heartbeat_live C threshold now (m (heartbeat_key owner))"

text \<open>Every key is kept, except that the empty key may be deleted and orphans may have been failed.\<close>

definition orphan_failed ::
    "'v codecs \<Rightarrow> int \<Rightarrow> timestamp \<Rightarrow> (key \<rightharpoonup> 'v) \<Rightarrow> (key \<rightharpoonup> 'v) \<Rightarrow> key \<Rightarrow> bool" where
  "orphan_failed C threshold now m m' k \<longleftrightarrow>
     (\<exists>b i v u owner. k = unit_key b i \<and> m k = Some v \<and> de (c_unit C) v = Inr u \<and> wu_status u = WProcessing \<and>
        wu_owner u = Some owner \<and> lapsed C threshold now m owner \<and>
        m' k = Some (enc (c_unit C) (wu_fail now died_message u)))"

definition reap_rel :: "'v codecs \<Rightarrow> int \<Rightarrow> timestamp \<Rightarrow> (key \<rightharpoonup> 'v) \<Rightarrow> (key \<rightharpoonup> 'v) \<Rightarrow> bool" where
  "reap_rel C threshold now m m' \<longleftrightarrow>
     (\<forall>k. m' k = m k \<or> (k = [] \<and> m' k = None) \<or> orphan_failed C threshold now m m' k)"

lemma unit_key_not_empty: "unit_key b i \<noteq> []"
  by (simp add: key_forms)

lemma heartbeat_key_distinct: "heartbeat_key o1 \<noteq> []" "heartbeat_key o1 \<noteq> unit_key b i"
  by (simp_all add: key_forms)

lemma reap_rel_heartbeat:
  "reap_rel C th now m m' \<Longrightarrow> m' (heartbeat_key owner) = m (heartbeat_key owner)"
  using heartbeat_key_distinct unfolding reap_rel_def orphan_failed_def by metis

lemma reap_rel_refl: "reap_rel C th now m m"
  by (simp add: reap_rel_def)

lemma reap_rel_trans:
  assumes "reap_rel C th now m m'" "reap_rel C th now m' m''" "codec_ok (c_unit C)"
  shows "reap_rel C th now m m''"
  unfolding reap_rel_def
proof
  fix k
  have same: "lapsed C th now m' owner \<longleftrightarrow> lapsed C th now m owner" for owner
    using reap_rel_heartbeat [OF assms(1)] by (simp add: lapsed_def)
  have once: "\<not> orphan_failed C th now m' m'' k" if "orphan_failed C th now m m' k"
    using that codec_ok_enc(2) [OF assms(3)] by (auto simp: orphan_failed_def wu_fail_def split: if_splits)
  have later: "orphan_failed C th now m m'' k" if "m' k = m k" "orphan_failed C th now m' m'' k"
    using that unfolding orphan_failed_def same by metis
  have kept: "orphan_failed C th now m m'' k" if "m'' k = m' k" "orphan_failed C th now m m' k"
    using that unfolding orphan_failed_def by metis
  have empty: "\<not> orphan_failed C th now n n' []" for n n'
    using unit_key_not_empty unfolding orphan_failed_def by metis
  have first: "m' k = m k \<or> (k = [] \<and> m' k = None) \<or> orphan_failed C th now m m' k"
    using assms(1) unfolding reap_rel_def by blast
  have "m'' k = m' k \<or> (k = [] \<and> m'' k = None) \<or> orphan_failed C th now m' m'' k"
    using assms(2) unfolding reap_rel_def by blast
  then consider "m'' k = m' k" | "k = []" "m'' k = None" | "orphan_failed C th now m' m'' k" by (elim disjE conjE)
  then show "m'' k = m k \<or> (k = [] \<and> m'' k = None) \<or> orphan_failed C th now m m'' k"
  proof cases
    case 1
    then show ?thesis using first kept by auto
  next
    case 2
    then show ?thesis by blast
  next
    case 3
    then have "k \<noteq> []" using empty by blast
    with first once later 3 show ?thesis by blast
  qed
qed

lemma reclaim_outcome_rel:
  assumes ok: "codec_ok (c_unit C)" and lapsed: "lapsed C th now m owner"
  shows "reap_rel C th now m (snd (claim_outcome m (unit_key b i) [] (reclaim_processor C now owner) (m (unit_key b i))))"
proof (cases "m (unit_key b i)")
  case None
  then show ?thesis by (auto simp: reap_rel_def)
next
  case (Some v)
  show ?thesis
  proof (cases "reclaim_processor C now owner v")
    case (Inl e)
    with Some show ?thesis by (simp add: reap_rel_refl)
  next
    case (Inr x)
    show ?thesis
    proof (cases x)
      case None
      with Some Inr show ?thesis by (simp add: reap_rel_refl)
    next
      case new: (Some nd)
      with Inr obtain u where u: "de (c_unit C) v = Inr u" "wu_status u = WProcessing" "wu_owner u = Some owner"
        "ser (c_unit C) (wu_fail now died_message u) = Inr nd"
        by (auto simp: reclaim_processor_def split: sum.splits if_splits)
      have nd: "nd = enc (c_unit C) (wu_fail now died_message u)" using u(4) by (simp add: enc_def)
      with u lapsed have "orphan_failed C th now m (m(unit_key b i \<mapsto> nd, [] := None)) (unit_key b i)"
        using unit_key_not_empty [of b i] unfolding orphan_failed_def by (auto simp: Some)
      then show ?thesis using Some Inr new by (simp add: reap_rel_def)
    qed
  qed
qed

context tikv_backend
begin

lemma reclaim_run:
  assumes run: "reclaim_work_unit K C cfg b i owner x = (r, y)" and ok: "codec_ok (c_unit C)"
  shows "cl_clock (fst y) = cl_clock (fst x) \<and>
    reap_rel C (secs_i64 (rc_stale_threshold cfg)) (cl_clock (fst x))
      (contents (cl_world (fst x))) (contents (cl_world (fst y)))"
proof -
  let ?th = "secs_i64 (rc_stale_threshold cfg)" and ?now = "cl_clock (fst x)" and ?m = "contents (cl_world (fst x))"
  obtain g s1 where get: "tc_get K (heartbeat_key owner) (fst x) = (g, s1)" by force
  have clk: "cl_clock s1 = ?now" using preservesD [OF preserves_clock_get _ get] by blast
  have same: "contents (cl_world s1) = ?m"
    using run_get(1) [of "heartbeat_key owner" "fst x"] run_get(2) [of "heartbeat_key owner" "fst x"] get by (cases g) auto
  note s1 = same clk
  obtain q s2 where claim: "tc_transactional_claim K (unit_key b i) [] (reclaim_processor C ?now owner) s1 = (q, s2)"
    by force
  have s2: "cl_clock s2 = ?now" using preservesD [OF preserves_clock_ops(2) _ claim] s1(2) by blast
  show ?thesis
  proof (cases "\<exists>d. g = Inr d \<and> \<not> heartbeat_live C ?th ?now d")
    case True
    then obtain d where d: "g = Inr d" "\<not> heartbeat_live C ?th ?now d" by blast
    with run_get(1) [of "heartbeat_key owner" "fst x" d s1] get have "lapsed C ?th ?now ?m owner"
      by (simp add: lapsed_def)
    from reclaim_outcome_rel [OF ok this, of b i] run_claim(1) [OF claim] s1(1)
    have "reap_rel C ?th ?now ?m (contents (cl_world s2))" by (auto simp: reap_rel_refl)
    moreover have "fst y = s2"
      using run get d claim s1(2)
      by (cases q) (auto simp: reclaim_work_unit_def bindM_def handleM_def on_fst_def now_utc_def
          split: option.splits)
    ultimately show ?thesis using s2 by simp
  next
    case False
    then have "fst y = s1"
      using run get s1(2)
      by (cases g) (auto simp: reclaim_work_unit_def bindM_def on_fst_def now_utc_def)
    with s1 show ?thesis by (simp add: reap_rel_refl)
  qed
qed

text \<open>An iteration, as an invariant of its steps against the store it started from.\<close>

lemma iteration_preserves:
  assumes ok: "codec_ok (c_unit C)"
  shows "preserves (\<lambda>x. cl_clock (fst x) = now \<and>
      reap_rel C (secs_i64 (rc_stale_threshold cfg)) now m (contents (cl_world (fst x)))) (run_iteration K C cfg)"
proof -
  let ?I = "\<lambda>s. cl_clock s = now \<and> reap_rel C (secs_i64 (rc_stale_threshold cfg)) now m (contents (cl_world s))"
  have scan: "preserves ?I (tc_scan K p n)" for p n
  proof (rule preservesI)
    fix s r t
    assume "?I s" and run: "tc_scan K p n s = (r, t)"
    moreover have "contents (cl_world t) = contents (cl_world s)"
      using run_scan(1) [of p n s] run_scan(2) [of p n s] run by (cases r) auto
    ultimately show "?I t" using preservesD [OF preserves_clock_ops(1) _ run, of now] by auto
  qed
  have now: "preserves ?I now_utc" by (simp add: preserves_def now_utc_def)
  have reclaim: "preserves (\<lambda>x. ?I (fst x)) (reclaim_work_unit K C cfg b i owner)" for b i owner
    using reclaim_run [OF _ ok] by (intro preservesI) (blast intro: reap_rel_trans [OF _ _ ok])
  note lifted = preserves_on_fst [OF scan] preserves_on_fst [OF now]
  have "preserves (\<lambda>x. ?I (fst x)) ((case z of (unit_id, batch_id, owner) \<Rightarrow> \<lambda>n.
      bindM (reclaim_work_unit K C cfg batch_id unit_id owner) (\<lambda>r. ret (if r = Reclaimed then n + 1 else n))) n)"
    for z and n :: nat
    by (cases z) (simp del: ret_simp, intro preserves_bind reclaim preserves_ret)
  then show ?thesis
    unfolding run_iteration_def find_orphaned_work_units_def find_stale_workers_def Let_def
    by (intro preserves_bind preserves_on_snd preserves_if preserves_ret preserves_foldM lifted)
qed

end

text \<open>What a reaper decides about a unit it finds stored, and what it then stores.\<close>

definition reclaim_decision :: "'v codecs \<Rightarrow> int \<Rightarrow> timestamp \<Rightarrow> (key \<rightharpoonup> 'v) \<Rightarrow> string \<Rightarrow> work_unit \<Rightarrow> reclaim_result" where
  "reclaim_decision C th now m owner u =
     (if heartbeat_live C th now (m (heartbeat_key owner)) then NotStale
      else if wu_status u = WProcessing \<and> wu_owner u = Some owner then Reclaimed else Skipped)"

context reliable_backend
begin

lemma reclaim_calm:
  assumes ok: "codec_ok (c_unit C)" and u: "m (unit_key b i) = Some (enc (c_unit C) u)"
    and st: "live m now (fst x)"
    and r: "r = reclaim_decision C (secs_i64 (rc_stale_threshold cfg)) now m owner u"
  shows "\<exists>y. reclaim_work_unit K C cfg b i owner x = (Inr r, y) \<and>
    live (if r = Reclaimed then m(unit_key b i \<mapsto> enc (c_unit C) (wu_fail now died_message u), [] := None) else m)
      now (fst y)"
proof -
  let ?proc = "reclaim_processor C now owner" and ?q = "snd x\<lparr>rm_reclaim_attempts := rm_reclaim_attempts (snd x) + 1\<rparr>"
  let ?live = "heartbeat_live C (secs_i64 (rc_stale_threshold cfg)) now (m (heartbeat_key owner))"
  obtain s1 where get: "tc_get K (heartbeat_key owner) (fst x) = (Inr (m (heartbeat_key owner)), s1)" "live m now s1"
    using yieldsD [OF get_yields st] by blast
  then have now: "now_utc s1 = (Inr now, s1)" by (simp add: now_utc_def client_at_def)
  show ?thesis
  proof (cases ?live)
    case True
    with get now r show ?thesis
      by (simp add: reclaim_work_unit_def bindM_def on_fst_def reclaim_decision_def)
  next
    case False
    obtain s2 where claim: "tc_transactional_claim K (unit_key b i) [] ?proc s1 =
        (fst (claim_outcome m (unit_key b i) [] ?proc (m (unit_key b i))), s2)"
      "live (snd (claim_outcome m (unit_key b i) [] ?proc (m (unit_key b i)))) now s2"
      using yieldsD [OF claim_yields get(2)] by blast
    have "?proc (enc (c_unit C) u) = Inr (if wu_status u = WProcessing \<and> wu_owner u = Some owner
        then Some (enc (c_unit C) (wu_fail now died_message u)) else None)"
      by (auto simp: reclaim_processor_def codec_ok_enc [OF ok])
    with claim get(1) now False r show ?thesis
      by (auto simp: reclaim_work_unit_def bindM_def handleM_def on_fst_def reclaim_decision_def u)
  qed
qed

end

section \<open>Properties\<close>

text \<open>C33: a reaper touches only orphans. Whatever calls of the store fail, and whether or not an iteration
  returns an error, it changes no key except that a unit that was processing under an owner with no live
  heartbeat may have become the failed unit; it never counts more reclaims than the configured maximum.\<close>

theorem reaper_touches_only_orphans:
  assumes backend: "tikv_backend K contents fresh pend" and C: "codec_ok (c_unit C)"
    and empty: "contents (cl_world (fst x)) [] = None"
    and run: "run_iteration K C cfg x = (r, y)"
  shows "(case r of Inr n \<Rightarrow> n \<le> rc_max_reclaims_per_iteration cfg | Inl _ \<Rightarrow> True) \<and>
    (\<forall>k. contents (cl_world (fst y)) k = contents (cl_world (fst x)) k \<or>
       orphan_failed C (secs_i64 (rc_stale_threshold cfg)) (cl_clock (fst x))
         (contents (cl_world (fst x))) (contents (cl_world (fst y))) k)"
proof -
  have "n \<le> rc_max_reclaims_per_iteration cfg" if "r = Inr n" for n
  proof -
    have split: "(\<lambda>(unit_id, batch_id, owner) n. bindM (reclaim_work_unit K C cfg batch_id unit_id owner)
          (\<lambda>r. ret (if r = Reclaimed then n + 1 else n))) =
        (\<lambda>z n. bindM (case z of (unit_id, batch_id, owner) \<Rightarrow> reclaim_work_unit K C cfg batch_id unit_id owner)
          (\<lambda>r. ret (if r = Reclaimed then n + 1 else n)))"
      by (auto simp: fun_eq_iff)
    show ?thesis
      using run that by (auto simp: run_iteration_def split bindM_Inr_iff dest!: foldM_count)
  qed
  moreover have "reap_rel C (secs_i64 (rc_stale_threshold cfg)) (cl_clock (fst x))
      (contents (cl_world (fst x))) (contents (cl_world (fst y)))"
    using preservesD [OF tikv_backend.iteration_preserves [OF backend C] _ run] by (blast intro: reap_rel_refl)
  ultimately show ?thesis
    using empty by (auto simp: reap_rel_def split: sum.splits)
qed

text \<open>the outcome of a reclamation. In a calm cluster a stored unit is left alone when its owner's
  heartbeat is live, or when it is no longer processing under that owner; otherwise the failed unit is
  stored, which gives it back for a retry or, with no attempt left, declares it dead. The pending queue is
  the same afterwards: nothing puts a reclaimed unit that could be claimed again back into it.\<close>

theorem reclaim_outcome:
  assumes rel: "reliable_backend K contents fresh pend calm" and C: "codec_ok (c_unit C)"
    and u: "m (unit_key b i) = Some (enc (c_unit C) u)" and st: "client_at contents calm m now (fst x)"
    and r: "r = reclaim_decision C (secs_i64 (rc_stale_threshold cfg)) now m owner u"
  shows "\<exists>y. reclaim_work_unit K C cfg b i owner x = (Inr r, y) \<and>
    contents (cl_world (fst y)) (unit_key b i) =
      Some (enc (c_unit C) (if r = Reclaimed then wu_fail now died_message u else u)) \<and>
    (r = Reclaimed \<longleftrightarrow> \<not> heartbeat_live C (secs_i64 (rc_stale_threshold cfg)) now (m (heartbeat_key owner)) \<and>
       wu_status u = WProcessing \<and> wu_owner u = Some owner) \<and>
    contents (cl_world (fst y)) (pending_key b i) = m (pending_key b i)"
proof -
  obtain y where run: "reclaim_work_unit K C cfg b i owner x = (Inr r, y)"
    "contents (cl_world (fst y)) =
      (if r = Reclaimed then m(unit_key b i \<mapsto> enc (c_unit C) (wu_fail now died_message u), [] := None) else m)"
    using reliable_backend.reclaim_calm [where m = m, OF rel C u st r] by (auto simp: client_at_def)
  moreover have "r = Reclaimed \<longleftrightarrow>
      \<not> heartbeat_live C (secs_i64 (rc_stale_threshold cfg)) now (m (heartbeat_key owner)) \<and>
      wu_status u = WProcessing \<and> wu_owner u = Some owner"
    using r by (auto simp: reclaim_decision_def)
  moreover have "unit_key b i \<noteq> []" "pending_key b i \<noteq> []" "pending_key b i \<noteq> unit_key b i"
    by (simp_all add: key_forms)
  ultimately show ?thesis using u by auto
qed

definition demo_orphan :: "(key \<times> payload) list" where
  "demo_orphan =
     [(unit_key ''jobs:b'' ''u1'', PUnit ((work_unit_with_id 0 ''u1'' ''jobs:b'' [] [] [])\<lparr>wu_status := WProcessing,
        wu_owner := Some ''w1'', wu_attempts := 1\<rparr>))]"

lemma demo_orphan_unit:
  "map_of demo_orphan (unit_key ''jobs:b'' ''u1'') = Some (enc (c_unit mem_codecs)
     ((work_unit_with_id 0 ''u1'' ''jobs:b'' [] [] [])\<lparr>wu_status := WProcessing, wu_owner := Some ''w1'', wu_attempts := 1\<rparr>))"
  "map_of demo_orphan (heartbeat_key ''w1'') = None" "map_of demo_orphan [] = None"
  by (simp_all add: demo_orphan_def enc_def mem_codecs_def mem_codec_def key_forms)

theorem reclaim_outcome_witness:
  "\<exists>y. reclaim_work_unit mem_kv mem_codecs default_reaper_config ''jobs:b'' ''u1'' ''w1''
       (demo_client (demo_store demo_orphan []) 9, reaper_metrics_new) = (Inr Reclaimed, y)"
  using reclaim_outcome [where r = Reclaimed and m = "map_of demo_orphan" and cfg = default_reaper_config and owner = "''w1''" and now = 9 and
      x = "(demo_client (demo_store demo_orphan []) 9, reaper_metrics_new)",
      OF mem.reliable_backend_axioms _ demo_orphan_unit(1)]
    mem_codecs_ok demo_client_at [of demo_orphan 9]
  by (auto simp: reclaim_decision_def heartbeat_live_def demo_orphan_unit)

theorem reaper_touches_only_orphans_witness:
  "\<exists>r y. run_iteration mem_kv mem_codecs default_reaper_config
       (demo_client (demo_store demo_orphan []) 9, reaper_metrics_new) = (r, y) \<and>
     (case r of Inr n \<Rightarrow> n \<le> 10 | Inl _ \<Rightarrow> True)"
proof -
  obtain r y where run: "run_iteration mem_kv mem_codecs default_reaper_config
      (demo_client (demo_store demo_orphan []) 9, reaper_metrics_new) = (r, y)"
    using prod.exhaust_sel by blast
  have "mem_contents (cl_world (fst (demo_client (demo_store demo_orphan []) 9, reaper_metrics_new))) [] = None"
    using demo_client_at [of demo_orphan 9] demo_orphan_unit(3) by (simp add: client_at_def)
  from reaper_touches_only_orphans [OF mem.tikv_backend_axioms codecs_okD(1) [OF mem_codecs_ok] this run]
  have "case r of Inr n \<Rightarrow> n \<le> rc_max_reclaims_per_iteration default_reaper_config | Inl _ \<Rightarrow> True" by blast
  with run show ?thesis by (metis default_reaper_config_def reaper_config.select_convs(3))
qed

end
