(* ===== verification/Heartbeats.thy ===== *)
theory Heartbeats
  imports Zombie_Reaper
begin

text \<open>
  \<open>heartbeat.rs\<close>: the liveness records of workers. The state of an operation is the client and the metrics
  counters; the mutex around the current job is read as a field. The background task is one beat per tick of
  its interval timer. \<open>to_rfc3339\<close> of the chrono package is the parameter \<open>rfc\<close>.

  A beat that was stored protects the units of its worker from the reaper until the stale threshold has
  passed.
\<close>

section \<open>Configuration and metrics\<close>

definition DEFAULT_HEARTBEAT_INTERVAL_SECS :: int where
  "DEFAULT_HEARTBEAT_INTERVAL_SECS = 30"

definition DEFAULT_STALE_THRESHOLD_SECS :: int where
  "DEFAULT_STALE_THRESHOLD_SECS = 300"

record heartbeat_config =
  hc_interval :: int
  hc_stale_threshold :: int
  hc_current_job :: "string option"

definition default_heartbeat_config :: heartbeat_config where
  "default_heartbeat_config =
     \<lparr> hc_interval = duration_seconds DEFAULT_HEARTBEAT_INTERVAL_SECS,
       hc_stale_threshold = duration_seconds DEFAULT_STALE_THRESHOLD_SECS, hc_current_job = None \<rparr>"

definition hc_with_interval :: "int \<Rightarrow> heartbeat_config \<Rightarrow> heartbeat_config" where
  "hc_with_interval d c = c\<lparr>hc_interval := d\<rparr>"

definition hc_with_stale_threshold :: "int \<Rightarrow> heartbeat_config \<Rightarrow> heartbeat_config" where
  "hc_with_stale_threshold d c = c\<lparr>hc_stale_threshold := d\<rparr>"

definition hc_with_current_job :: "string option \<Rightarrow> heartbeat_config \<Rightarrow> heartbeat_config" where
  "hc_with_current_job j c = c\<lparr>hc_current_job := j\<rparr>"

record heartbeat_metrics =
  hm_updates_total :: u64
  hm_errors_total :: u64
  hm_last_success :: u64
  hm_last_age_seconds :: u64

definition heartbeat_metrics_new :: heartbeat_metrics where
  "heartbeat_metrics_new =
     \<lparr> hm_updates_total = 0, hm_errors_total = 0, hm_last_success = 0, hm_last_age_seconds = 0 \<rparr>"

definition hm_inc_updates :: "heartbeat_metrics \<Rightarrow> heartbeat_metrics" where
  "hm_inc_updates m = m\<lparr>hm_updates_total := hm_updates_total m + 1\<rparr>"

definition hm_inc_errors :: "heartbeat_metrics \<Rightarrow> heartbeat_metrics" where
  "hm_inc_errors m = m\<lparr>hm_errors_total := hm_errors_total m + 1\<rparr>"

text \<open>A clock before the epoch counts as the epoch (\<open>unwrap_or_default\<close>).\<close>

definition hm_update_success :: "timestamp \<Rightarrow> heartbeat_metrics \<Rightarrow> heartbeat_metrics" where
  "hm_update_success now m = m\<lparr>hm_last_success := word_of_int (max 0 now div ns_per_sec)\<rparr>"

definition hm_update_age :: "u64 \<Rightarrow> heartbeat_metrics \<Rightarrow> heartbeat_metrics" where
  "hm_update_age age m = m\<lparr>hm_last_age_seconds := age\<rparr>"

section \<open>The manager\<close>

record heartbeat_manager =
  hbm_pod_id :: string
  hbm_config :: heartbeat_config
  hbm_hostname :: string
  hbm_started_at :: timestamp
  hbm_background :: bool  \<comment> \<open>the shutdown sender is there\<close>

definition heartbeat_manager_new :: "timestamp \<Rightarrow> string \<Rightarrow> string \<Rightarrow> heartbeat_config \<Rightarrow> heartbeat_manager" where
  "heartbeat_manager_new now host pod cfg =
     \<lparr> hbm_pod_id = pod, hbm_config = cfg, hbm_hostname = host, hbm_started_at = now, hbm_background = False \<rparr>"

type_synonym ('s, 'a) beating = "('s client \<times> heartbeat_metrics, tikv_error, 'a) prog"

text \<open>\<open>Map::insert\<close> on the members of a JSON object; other values are left alone.\<close>

definition obj_insert :: "string \<Rightarrow> json \<Rightarrow> json option \<Rightarrow> json option" where
  "obj_insert k v md =
     (case md of Some (JObj ms) \<Rightarrow> Some (JObj ((k, v) # filter (\<lambda>(k', _). k' \<noteq> k) ms)) | _ \<Rightarrow> md)"

text \<open>The record a beat stores: the stored one or a new one, at the present time.\<close>

definition beat_record ::
    "(timestamp \<Rightarrow> string) \<Rightarrow> heartbeat_manager \<Rightarrow> timestamp \<Rightarrow> heartbeat_record option \<Rightarrow> heartbeat_record" where
  "beat_record rfc hbm now stored =
     (let h = (case stored of
                 Some h \<Rightarrow> h
               | None \<Rightarrow> (heartbeat_new now (hbm_pod_id hbm))\<lparr>hb_metadata :=
                   Some (JObj [(''hostname'', JStr (hbm_hostname hbm)), (''started_at'', JStr (rfc (hbm_started_at hbm)))])\<rparr>);
          active = (if hc_current_job (hbm_config hbm) \<noteq> None then 1 else 0);
          h1 = (hb_beat now h)\<lparr>hb_active_jobs := active, hb_status := (if active > 0 then Busy else Idle)\<rparr>
      in case hc_current_job (hbm_config hbm) of
           Some job \<Rightarrow> h1\<lparr>hb_metadata := obj_insert ''current_job'' (JStr job) (hb_metadata h1)\<rparr>
         | None \<Rightarrow> h1)"

definition hbm_update_heartbeat ::
    "(timestamp \<Rightarrow> string) \<Rightarrow> ('s, 'v) kv \<Rightarrow> 'v codecs \<Rightarrow> heartbeat_manager \<Rightarrow> ('s, unit) beating" where
  "hbm_update_heartbeat rfc K C hbm =
     bindM (on_fst (tc_get_heartbeat K C (hbm_pod_id hbm))) (\<lambda>stored.
     bindM (on_fst now_utc) (\<lambda>now.
     let h = beat_record rfc hbm now stored
     in bindM (on_fst (tc_update_heartbeat K C (hbm_pod_id hbm) h)) (\<lambda>_.
        bindM (on_fst now_utc) (\<lambda>after.
        bindM (on_snd hm_inc_updates) (\<lambda>_.
        bindM (on_snd (hm_update_success after)) (\<lambda>_.
        on_snd (hm_update_age (word_of_int (max 0 (num_seconds (after - hb_last_heartbeat h)))))))))))"

text \<open>\<open>graceful_shutdown\<close>, \<open>send_with_status\<close> and the background beat start from the stored record or a bare
  new one.\<close>

definition restored :: "timestamp \<Rightarrow> string \<Rightarrow> heartbeat_record option \<Rightarrow> heartbeat_record" where
  "restored now pod stored = hb_beat now (case stored of Some h \<Rightarrow> h | None \<Rightarrow> heartbeat_new now pod)"

definition hbm_graceful_shutdown ::
    "(timestamp \<Rightarrow> string) \<Rightarrow> ('s, 'v) kv \<Rightarrow> 'v codecs \<Rightarrow> heartbeat_manager \<Rightarrow> ('s, unit) beating" where
  "hbm_graceful_shutdown rfc K C hbm =
     bindM (on_fst (tc_get_heartbeat K C (hbm_pod_id hbm))) (\<lambda>stored.
     bindM (on_fst now_utc) (\<lambda>now.
     let h = (restored now (hbm_pod_id hbm) stored)\<lparr>hb_status := Draining\<rparr>;
         md = obj_insert ''reason'' (JStr ''graceful_shutdown'') (obj_insert ''shutdown_at'' (JStr (rfc now)) (hb_metadata h))
     in on_fst (tc_update_heartbeat K C (hbm_pod_id hbm) (h\<lparr>hb_metadata := md\<rparr>))))"

definition hbm_cleanup :: "('s, 'v) kv \<Rightarrow> heartbeat_manager \<Rightarrow> ('s, unit) beating" where
  "hbm_cleanup K hbm = on_fst (tc_delete K (heartbeat_key (hbm_pod_id hbm)))"

definition hbm_send_with_status ::
    "('s, 'v) kv \<Rightarrow> 'v codecs \<Rightarrow> heartbeat_manager \<Rightarrow> worker_status \<Rightarrow> ('s, unit) beating" where
  "hbm_send_with_status K C hbm status =
     bindM (on_fst (tc_get_heartbeat K C (hbm_pod_id hbm))) (\<lambda>stored.
     bindM (on_fst now_utc) (\<lambda>now.
     bindM (on_fst (tc_update_heartbeat K C (hbm_pod_id hbm)
       ((restored now (hbm_pod_id hbm) stored)\<lparr>hb_status := status\<rparr>))) (\<lambda>_.
     bindM (on_fst now_utc) (\<lambda>after.
     bindM (on_snd hm_inc_updates) (\<lambda>_. on_snd (hm_update_success after))))))"

definition update_heartbeat_inner :: "('s, 'v) kv \<Rightarrow> 'v codecs \<Rightarrow> string \<Rightarrow> ('s, unit) tc" where
  "update_heartbeat_inner K C pod =
     bindM (tc_get_heartbeat K C pod) (\<lambda>stored.
     bindM now_utc (\<lambda>now.
     tc_update_heartbeat K C pod ((restored now pod stored)\<lparr>hb_status := Idle\<rparr>)))"

text \<open>One beat of the background task; the first one is sent before the timer starts.\<close>

definition background_beat :: "('s, 'v) kv \<Rightarrow> 'v codecs \<Rightarrow> heartbeat_manager \<Rightarrow> ('s, unit) beating" where
  "background_beat K C hbm =
     handleM (on_fst (update_heartbeat_inner K C (hbm_pod_id hbm))) (\<lambda>_. on_snd hm_inc_errors) (\<lambda>_. ret ())"

definition hbm_start_background_task :: "heartbeat_manager \<Rightarrow> heartbeat_manager" where
  "hbm_start_background_task hbm = hbm\<lparr>hbm_background := True\<rparr>"

definition hbm_shutdown :: "heartbeat_manager \<Rightarrow> tikv_error + unit" where
  "hbm_shutdown hbm =
     (if hbm_background hbm then Inr ()
      else Inl (Other ''Cannot shutdown heartbeat: no background task running''))"

section \<open>A stored beat\<close>

text \<open>The heartbeat under a key says that its worker was seen at a time.\<close>

definition beat_at :: "'v codecs \<Rightarrow> (key \<rightharpoonup> 'v) \<Rightarrow> string \<Rightarrow> timestamp \<Rightarrow> bool" where
  "beat_at C m pod t \<longleftrightarrow> (\<exists>h. m (heartbeat_key pod) = Some (enc (c_heartbeat C) h) \<and> hb_last_heartbeat h = t)"

lemma beat_times [simp]:
  "hb_last_heartbeat (beat_record rfc hbm now stored) = now"
  "hb_last_heartbeat (restored now pod stored) = now"
  by (auto simp: beat_record_def restored_def hb_beat_def Let_def split: option.splits)

lemma beat_not_lapsed:
  assumes "beat_at C m pod t" "codec_ok (c_heartbeat C)" "now - t \<le> duration_seconds th"
  shows "\<not> lapsed C th now m pod"
  using assms codec_ok_enc(2) [OF assms(2)]
  by (auto simp: beat_at_def lapsed_def heartbeat_live_def hb_is_stale_def)

context tikv_backend
begin

lemma get_heartbeat_run:
  assumes "tc_get_heartbeat K C pod s = (r, t)"
  shows "contents (cl_world t) = contents (cl_world s) \<and> cl_clock t = cl_clock s"
proof -
  obtain g s1 where get: "tc_get K (heartbeat_key pod) s = (g, s1)" by force
  have "t = s1"
    using assms get by (cases g) (auto simp: tc_get_heartbeat_def get_record_def bindM_def split: option.splits sum.splits)
  moreover have "contents (cl_world s1) = contents (cl_world s)"
    using run_get(1) [of "heartbeat_key pod" s] run_get(2) [of "heartbeat_key pod" s] get by (cases g) auto
  moreover have "cl_clock s1 = cl_clock s" using preservesD [OF preserves_clock_get _ get] by blast
  ultimately show ?thesis by simp
qed

lemma update_heartbeat_run:
  assumes "tc_update_heartbeat K C pod h s = (Inr u, t)"
  shows "contents (cl_world t) = (contents (cl_world s))(heartbeat_key pod \<mapsto> enc (c_heartbeat C) h)"
  using assms run_put(1) [of "heartbeat_key pod" _ s]
  by (auto simp: tc_update_heartbeat_def put_record_def encode_def enc_def bindM_Inr_iff split: sum.splits)

text \<open>Every operation that sends a beat stores one with the time of its call.\<close>

lemma beat_stored:
  assumes "update_heartbeat_inner K C pod s = (Inr (), t)"
  shows "beat_at C (contents (cl_world t)) pod (cl_clock s)"
  using assms
  by (auto simp: update_heartbeat_inner_def bindM_Inr_iff now_utc_def beat_at_def
      dest!: get_heartbeat_run update_heartbeat_run)

lemma beat_stored_update:
  assumes "hbm_update_heartbeat rfc K C hbm x = (Inr (), y)"
  shows "beat_at C (contents (cl_world (fst y))) (hbm_pod_id hbm) (cl_clock (fst x))"
  using assms
  by (auto simp: hbm_update_heartbeat_def Let_def bindM_Inr_iff on_fst_iff now_utc_def beat_at_def
      dest!: get_heartbeat_run update_heartbeat_run)

lemma beat_stored_status:
  assumes "hbm_send_with_status K C hbm status x = (Inr (), y)"
  shows "beat_at C (contents (cl_world (fst y))) (hbm_pod_id hbm) (cl_clock (fst x))"
  using assms
  by (auto simp: hbm_send_with_status_def bindM_Inr_iff on_fst_iff now_utc_def beat_at_def
      dest!: get_heartbeat_run update_heartbeat_run)

lemma beat_stored_shutdown:
  assumes "hbm_graceful_shutdown rfc K C hbm x = (Inr (), y)"
  shows "beat_at C (contents (cl_world (fst y))) (hbm_pod_id hbm) (cl_clock (fst x))"
  using assms
  by (auto simp: hbm_graceful_shutdown_def Let_def bindM_Inr_iff on_fst_iff now_utc_def beat_at_def
      dest!: get_heartbeat_run update_heartbeat_run)

lemma beat_protects:
  assumes C: "codec_ok (c_unit C)" "codec_ok (c_heartbeat C)"
    and beat: "beat_at C (contents (cl_world (fst x))) pod t"
    and time: "cl_clock (fst x) - t \<le> duration_seconds (secs_i64 (rc_stale_threshold cfg))"
    and run: "run_iteration K C cfg x = (r, y)"
    and unit: "contents (cl_world (fst x)) (unit_key b i) = Some (enc (c_unit C) u)" "wu_owner u = Some pod"
  shows "contents (cl_world (fst y)) (unit_key b i) = Some (enc (c_unit C) u)"
proof -
  have "reap_rel C (secs_i64 (rc_stale_threshold cfg)) (cl_clock (fst x))
      (contents (cl_world (fst x))) (contents (cl_world (fst y)))"
    using preservesD [OF iteration_preserves [OF C(1)] _ run] by (blast intro: reap_rel_refl)
  moreover have "\<not> lapsed C (secs_i64 (rc_stale_threshold cfg)) (cl_clock (fst x)) (contents (cl_world (fst x))) pod"
    by (rule beat_not_lapsed [OF beat C(2) time])
  ultimately show ?thesis
    using unit unit_key_not_empty [of b i] codec_ok_enc(2) [OF C(1), of u]
    unfolding reap_rel_def orphan_failed_def by (metis option.inject sum.inject(2))
qed

end

section \<open>Properties\<close>

text \<open>a live worker keeps its work. After any of the operations that send a heartbeat returned, and as long
  as nobody overwrites the record and no more than the stale threshold has passed since the call, an
  iteration of a reaper leaves every stored unit of that worker as it is, whatever faults happen.\<close>

theorem heartbeat_protects:
  assumes backend: "tikv_backend K contents fresh pend" and C: "codec_ok (c_unit C)" "codec_ok (c_heartbeat C)"
    and beat: "hbm_update_heartbeat rfc K C hbm s = (Inr (), s') \<or> hbm_send_with_status K C hbm status s = (Inr (), s') \<or>
      hbm_graceful_shutdown rfc K C hbm s = (Inr (), s') \<or>
      on_fst (update_heartbeat_inner K C (hbm_pod_id hbm)) s = (Inr (), s')"
    and kept: "contents (cl_world (fst x)) (heartbeat_key (hbm_pod_id hbm)) =
      contents (cl_world (fst s')) (heartbeat_key (hbm_pod_id hbm))"
    and time: "cl_clock (fst x) - cl_clock (fst s) \<le> duration_seconds (secs_i64 (rc_stale_threshold cfg))"
    and unit: "contents (cl_world (fst x)) (unit_key b i) = Some (enc (c_unit C) u)" "wu_owner u = Some (hbm_pod_id hbm)"
    and run: "run_iteration K C cfg x = (r, y)"
  shows "contents (cl_world (fst y)) (unit_key b i) = Some (enc (c_unit C) u)"
proof -
  have "beat_at C (contents (cl_world (fst s'))) (hbm_pod_id hbm) (cl_clock (fst s))"
    using beat tikv_backend.beat_stored_update [OF backend] tikv_backend.beat_stored_status [OF backend]
      tikv_backend.beat_stored_shutdown [OF backend] tikv_backend.beat_stored [OF backend]
    unfolding on_fst_iff by metis
  then have "beat_at C (contents (cl_world (fst x))) (hbm_pod_id hbm) (cl_clock (fst s))"
    by (simp add: beat_at_def kept)
  from tikv_backend.beat_protects [OF backend C this time run unit] show ?thesis .
qed

theorem heartbeat_protects_witness:
  "\<exists>t r y. update_heartbeat_inner mem_kv mem_codecs ''w1'' (demo_client (demo_store demo_orphan []) 9) = (Inr (), t) \<and>
     run_iteration mem_kv mem_codecs default_reaper_config (t, reaper_metrics_new) = (r, y) \<and>
     mem_contents (cl_world (fst y)) (unit_key ''jobs:b'' ''u1'') =
       map_of demo_orphan (unit_key ''jobs:b'' ''u1'')"
proof -
  let ?st = "demo_client (demo_store demo_orphan []) 9" and ?live = "client_at mem_contents mem_calm"
  let ?hbm = "heartbeat_manager_new 0 ''host'' ''w1'' default_heartbeat_config"
  define h where "h = (restored 9 ''w1'' None)\<lparr>hb_status := Idle\<rparr>"
  let ?m = "(map_of demo_orphan)(heartbeat_key ''w1'' \<mapsto> enc (c_heartbeat mem_codecs) h)"
  have now: "yields (?live (map_of demo_orphan) 9) now_utc (Inr 9) (?live (map_of demo_orphan) 9)"
    by (simp add: yields_def now_utc_def client_at_def)
  have "yields (?live (map_of demo_orphan) 9) (update_heartbeat_inner mem_kv mem_codecs ''w1'') (Inr ()) (?live ?m 9)"
    unfolding update_heartbeat_inner_def tc_get_heartbeat_def tc_update_heartbeat_def
    by (rule yields_bind [OF mem.get_record_yields_none [where m = "map_of demo_orphan", OF demo_orphan_unit(2)]], rule yields_bind [OF now],
        fold h_def, rule mem.put_record_yields [OF codecs_okD(5) [OF mem_codecs_ok]])
  from yieldsD [OF this demo_client_at] obtain t where
    beat: "update_heartbeat_inner mem_kv mem_codecs ''w1'' ?st = (Inr (), t)" and t: "?live ?m 9 t" by blast
  obtain r y where run: "run_iteration mem_kv mem_codecs default_reaper_config (t, reaper_metrics_new) = (r, y)"
    using prod.exhaust_sel by blast
  have "mem_contents (cl_world (fst y)) (unit_key ''jobs:b'' ''u1'') = Some (enc (c_unit mem_codecs)
      ((work_unit_with_id 0 ''u1'' ''jobs:b'' [] [] [])\<lparr>wu_status := WProcessing, wu_owner := Some ''w1'', wu_attempts := 1\<rparr>))"
    by (rule heartbeat_protects [where hbm = ?hbm and s = "(?st, heartbeat_metrics_new)" and
          s' = "(t, heartbeat_metrics_new)" and rfc = "\<lambda>_. []" and status = Idle,
          OF mem.tikv_backend_axioms codecs_okD(1) [OF mem_codecs_ok] codecs_okD(5) [OF mem_codecs_ok] _ _ _ _ _ run])
       (use beat t demo_orphan_unit(1) heartbeat_key_distinct(2) in
         \<open>simp_all add: on_fst_iff heartbeat_manager_new_def client_at_def demo_client_def default_reaper_config_def
           duration_seconds_def secs_i64_def ns_per_sec_def work_unit_with_id_def\<close>)
  with beat run demo_orphan_unit(1) show ?thesis by metis
qed

end
