(* ===== verification/Merge_Coordinator.thy ===== *)
theory Merge_Coordinator
  imports Controller_Logic
begin

text \<open>
  \<open>merge/coordinator.rs\<close>: claiming and running the merge of a finished batch. The state of an operation is
  the client and the merge semaphore. The permit lives until
  \<open>try_claim_merge\<close> returns, on every path: its drop at the end of the scope is \<open>dropping_permit\<close>.
  The mutexes of the pending queue and the metrics are never contended here, so that \<open>try_lock\<close> succeeds. The
  storage factory (\<open>mk\<close>) and the merge executor (\<open>ex\<close>), which work on object storage, are parameters, and so
  is the random part of the merge worker's name.

  In a calm cluster the result of a claim and what it stores are
  determined. The phase index is written under a wrong batch identifier, a claim that finds too few workers
  deletes the batch status, and a claim is not exclusive.
\<close>

section \<open>The semaphore\<close>

definition DEFAULT_MAX_CONCURRENT_MERGES :: nat where
  "DEFAULT_MAX_CONCURRENT_MERGES = 3"

record merge_metrics =
  mm_available_permits :: nat
  mm_queue_depth :: nat
  mm_total_attempts :: u64
  mm_successful_merges :: u64

record merge_semaphore =
  sem_max :: nat
  sem_available :: u32
  sem_pending :: "(string \<times> timestamp) list"
  sem_metrics :: merge_metrics

definition merge_semaphore_new :: "nat \<Rightarrow> merge_semaphore" where
  "merge_semaphore_new n =
     \<lparr> sem_max = n, sem_available = of_nat n, sem_pending = [],
       sem_metrics = \<lparr> mm_available_permits = n, mm_queue_depth = 0, mm_total_attempts = 0, mm_successful_merges = 0 \<rparr> \<rparr>"

definition inner_try_acquire :: "merge_semaphore \<Rightarrow> bool \<times> merge_semaphore" where
  "inner_try_acquire s =
     (if sem_available s > 0 then (True, s\<lparr>sem_available := sem_available s - 1\<rparr>) else (False, s))"

definition inner_release :: "merge_semaphore \<Rightarrow> merge_semaphore" where
  "inner_release s =
     (if sem_available s < of_nat (sem_max s) then s\<lparr>sem_available := sem_available s + 1\<rparr> else s)"

definition sem_try_acquire :: "merge_semaphore \<Rightarrow> bool \<times> merge_semaphore" where
  "sem_try_acquire s =
     (let s1 = s\<lparr>sem_metrics := (sem_metrics s)\<lparr>mm_total_attempts := mm_total_attempts (sem_metrics s) + 1\<rparr>\<rparr>
      in case inner_try_acquire s1 of
           (True, s2) \<Rightarrow>
             (True, s2\<lparr>sem_metrics := (sem_metrics s2)\<lparr>mm_available_permits := unat (sem_available s2)\<rparr>\<rparr>)
         | (False, s2) \<Rightarrow> (False, s2\<lparr>sem_metrics := (sem_metrics s2)\<lparr>mm_available_permits := 0\<rparr>\<rparr>))"

definition sem_set_depth :: "merge_semaphore \<Rightarrow> merge_semaphore" where
  "sem_set_depth s = s\<lparr>sem_metrics := (sem_metrics s)\<lparr>mm_queue_depth := length (sem_pending s)\<rparr>\<rparr>"

definition sem_enqueue_pending :: "timestamp \<Rightarrow> string \<Rightarrow> merge_semaphore \<Rightarrow> merge_semaphore" where
  "sem_enqueue_pending now job s = sem_set_depth (s\<lparr>sem_pending := sem_pending s @ [(job, now)]\<rparr>)"

definition sem_dequeue_pending :: "string \<Rightarrow> merge_semaphore \<Rightarrow> merge_semaphore" where
  "sem_dequeue_pending job s = sem_set_depth (s\<lparr>sem_pending := filter (\<lambda>(j, _). j \<noteq> job) (sem_pending s)\<rparr>)"

definition sem_record_success :: "merge_semaphore \<Rightarrow> merge_semaphore" where
  "sem_record_success s =
     s\<lparr>sem_metrics := (sem_metrics s)\<lparr>mm_successful_merges := mm_successful_merges (sem_metrics s) + 1\<rparr>\<rparr>"

record merge_config =
  mcfg_merge_timeout :: int
  mcfg_max_retries :: nat

definition default_merge_config :: merge_config where
  "default_merge_config = \<lparr> mcfg_merge_timeout = duration_seconds 300, mcfg_max_retries = 3 \<rparr>"

section \<open>The merge record of a job\<close>

datatype merge_result = MergeNotFound | MergeNotClaimed | MergeNotReady | MergeSuccess string u64 | MergeFailure string

type_synonym ('s, 'a) merging = "('s client \<times> merge_semaphore, tikv_error, 'a) prog"

definition merge_state_key :: "string \<Rightarrow> key" where
  "merge_state_key job = ''/roboflow/v1/merge/'' @ job"

text \<open>The messages of the two directions of the codec differ from those of the other records.\<close>

definition merge_decode :: "'v codecs \<Rightarrow> string \<Rightarrow> 'v \<Rightarrow> tikv_error + merge_state" where
  "merge_decode C what v = (case de (c_merge C) v of Inl e \<Rightarrow> Inl (Serialization (what @ e)) | Inr x \<Rightarrow> Inr x)"

definition merge_encode :: "'v codecs \<Rightarrow> string \<Rightarrow> merge_state \<Rightarrow> tikv_error + 'v" where
  "merge_encode C what x = (case ser (c_merge C) x of Inl e \<Rightarrow> Inl (Serialization (what @ e)) | Inr v \<Rightarrow> Inr v)"

definition register_staging_complete ::
    "('s, 'v) kv \<Rightarrow> 'v codecs \<Rightarrow> string \<Rightarrow> string \<Rightarrow> string \<Rightarrow> u64 \<Rightarrow> ('s, unit) tc" where
  "register_staging_complete K C job worker path frames =
     bindM (tc_get K (merge_state_key job)) (\<lambda>data.
     bindM now_utc (\<lambda>now.
     bindM (case data of
              Some d \<Rightarrow> liftR (merge_decode C ''Failed to deserialize merge state: '' d)
            | None \<Rightarrow> ret (merge_state_new now job 1 [])) (\<lambda>state.
     bindM (liftR (merge_encode C ''Failed to serialize merge state: '' (ms_add_worker now worker path frames state))) (\<lambda>v.
     tc_put K (merge_state_key job) v))))"

definition get_merge_state :: "('s, 'v) kv \<Rightarrow> 'v codecs \<Rightarrow> string \<Rightarrow> ('s, merge_state option) tc" where
  "get_merge_state K C job =
     bindM (tc_get K (merge_state_key job)) (\<lambda>data.
     case data of
       Some d \<Rightarrow> bindM (liftR (merge_decode C ''Failed to deserialize merge state: '' d)) (\<lambda>x. ret (Some x))
     | None \<Rightarrow> ret None)"

definition is_merge_complete :: "('s, 'v) kv \<Rightarrow> 'v codecs \<Rightarrow> string \<Rightarrow> ('s, bool) tc" where
  "is_merge_complete K C job =
     bindM (get_merge_state K C job) (\<lambda>s. case s of Some state \<Rightarrow> ret (ms_is_complete state) | None \<Rightarrow> ret False)"

definition get_or_create_merge_state ::
    "('s, 'v) kv \<Rightarrow> 'v codecs \<Rightarrow> string \<Rightarrow> nat \<Rightarrow> string \<Rightarrow> ('s, merge_state) tc" where
  "get_or_create_merge_state K C job expected out =
     bindM (tc_get K (merge_state_key job)) (\<lambda>data.
     case data of
       Some d \<Rightarrow>
         bindM (liftR (merge_decode C ''Failed to deserialize merge state: '' d)) (\<lambda>state.
         ret (state\<lparr>ms_expected_workers := expected, ms_output_path := out\<rparr>))
     | None \<Rightarrow> bindM now_utc (\<lambda>now. ret (merge_state_new now job expected out)))"

definition save_merge_state :: "('s, 'v) kv \<Rightarrow> 'v codecs \<Rightarrow> string \<Rightarrow> merge_state \<Rightarrow> ('s, unit) tc" where
  "save_merge_state K C job state =
     bindM (liftR (merge_encode C ''Failed to serialize merge state: '' state)) (\<lambda>v.
     tc_put K (merge_state_key job) v)"

text \<open>With one expected worker and no registration the output itself counts as the staged data.\<close>

definition ensure_merge_ready :: "timestamp \<Rightarrow> nat \<Rightarrow> string \<Rightarrow> merge_state \<Rightarrow> bool \<times> merge_state" where
  "ensure_merge_ready now expected out state =
     (if ms_is_ready state then (True, state)
      else if ms_completed_workers state = 0 \<and> expected = 1
        then (True, ms_add_worker now ''direct'' out 0 state)
      else (False, state))"

section \<open>Claiming and running a merge\<close>

definition try_acquire_merge_permit :: "string \<Rightarrow> ('s, unit) merging" where
  "try_acquire_merge_permit job x =
     (case sem_try_acquire (snd x) of
        (True, s) \<Rightarrow> (Inr (), (fst x, sem_dequeue_pending job s))
      | (False, s) \<Rightarrow>
          (Inl (Other ''No merge permits available''), (fst x, sem_enqueue_pending (cl_clock (fst x)) job s)))"

text \<open>The permit is dropped on the way out.\<close>

definition dropping_permit :: "('s, 'a) merging \<Rightarrow> ('s, 'a) merging" where
  "dropping_permit body =
     handleM body (\<lambda>e. bindM (on_snd inner_release) (\<lambda>_. throw e)) (\<lambda>r. bindM (on_snd inner_release) (\<lambda>_. ret r))"

definition mc_get_batch_status :: "('s, 'v) kv \<Rightarrow> 'v codecs \<Rightarrow> string \<Rightarrow> ('s, batch_status option) tc" where
  "mc_get_batch_status K C job =
     bindM (tc_get K (status_key job)) (\<lambda>data.
     case data of
       Some d \<Rightarrow> bindM (liftR (decode (c_status C) ''batch status: '' d)) (\<lambda>s. ret (Some s))
     | None \<Rightarrow> ret None)"

definition is_batch_claimable :: "batch_status \<Rightarrow> bool" where
  "is_batch_claimable s = (phase s = Running)"

definition transition_to_merging :: "('s, 'v) kv \<Rightarrow> 'v codecs \<Rightarrow> key \<Rightarrow> batch_status \<Rightarrow> ('s, unit) tc" where
  "transition_to_merging K C skey current =
     bindM now_utc (\<lambda>now.
     bindM (liftR (encode (c_status C) (st_transition_to now Merging current))) (\<lambda>v.
     bindM (tc_put K skey v) (\<lambda>_.
     update_phase_index K C (trim_start_str ''/roboflow/v1/batch/'' skey) Running Merging)))"

definition verify_cas_won :: "('s, 'v) kv \<Rightarrow> key \<Rightarrow> ('s, bool) tc" where
  "verify_cas_won K skey = bindM (tc_get K skey) (\<lambda>data. ret (data \<noteq> None))"

definition rollback_to_running :: "('s, 'v) kv \<Rightarrow> key \<Rightarrow> ('s, unit) tc" where
  "rollback_to_running K skey = handleM (tc_delete K skey) (\<lambda>_. ret ()) (\<lambda>_. ret ())"

text \<open>\<open>let _ = \<dots>\<close>: the result is dropped.\<close>

definition ignored :: "('s, 'e, 'a) prog \<Rightarrow> ('s, 'f, unit) prog" where
  "ignored p = handleM p (\<lambda>_. ret ()) (\<lambda>_. ret ())"

definition end_merge ::
    "('s, 'v) kv \<Rightarrow> 'v codecs \<Rightarrow> string \<Rightarrow> (timestamp \<Rightarrow> merge_state \<Rightarrow> merge_state) \<Rightarrow> ('s, unit) tc" where
  "end_merge K C job f =
     bindM (tc_get K (merge_state_key job)) (\<lambda>data.
     case data of
       Some d \<Rightarrow>
         bindM (liftR (merge_decode C ''merge state: '' d)) (\<lambda>state.
         bindM now_utc (\<lambda>now.
         bindM (liftR (merge_encode C [] (f now state))) (\<lambda>v.
         ignored (tc_put K (merge_state_key job) v))))
     | None \<Rightarrow> ret ())"

definition load_status :: "('s, 'v) kv \<Rightarrow> 'v codecs \<Rightarrow> string \<Rightarrow> ('s, batch_status) tc" where
  "load_status K C job =
     bindM (tc_get K (status_key job)) (\<lambda>data.
     case data of
       Some d \<Rightarrow> liftR (decode (c_status C) ''batch status: '' d)
     | None \<Rightarrow> throw (KeyNotFound (''Batch status not found: '' @ job)))"

definition fail_merge_with_status :: "('s, 'v) kv \<Rightarrow> 'v codecs \<Rightarrow> string \<Rightarrow> string \<Rightarrow> ('s, unit) tc" where
  "fail_merge_with_status K C job err =
     bindM (load_status K C job) (\<lambda>status.
     bindM now_utc (\<lambda>now.
     bindM (liftR (encode (c_status C) ((st_transition_to now Failed status)\<lparr>bst_error := Some err\<rparr>))) (\<lambda>v.
     bindM (tc_put K (status_key job) v) (\<lambda>_.
     bindM (ignored (update_phase_index K C job (phase status) Failed)) (\<lambda>_.
     end_merge K C job (\<lambda>now. ms_fail now err))))))"

definition complete_merge_with_status :: "('s, 'v) kv \<Rightarrow> 'v codecs \<Rightarrow> string \<Rightarrow> u64 \<Rightarrow> ('s, unit) tc" where
  "complete_merge_with_status K C job frames =
     bindM (load_status K C job) (\<lambda>status.
     bindM now_utc (\<lambda>now.
     bindM (liftR (encode (c_status C) (st_transition_to now Complete status))) (\<lambda>v.
     bindM (tc_put K (status_key job) v) (\<lambda>_.
     bindM (ignored (update_phase_index K C job Merging Complete)) (\<lambda>_.
     end_merge K C job (\<lambda>now s. ms_complete now (s\<lparr>ms_total_frames := frames\<rparr>)))))))"

definition execute_merge ::
    "(string \<Rightarrow> string option) \<Rightarrow> (merge_state \<Rightarrow> string + u64) \<Rightarrow> merge_state \<Rightarrow> tikv_error + u64" where
  "execute_merge mk ex state =
     (case mk (ms_output_path state) of
        Some e \<Rightarrow> Inl (Other (''Failed to create storage: '' @ e))
      | None \<Rightarrow>
          (case ex state of
             Inl e \<Rightarrow> Inl (Other (''Merge execution failed: '' @ e))
           | Inr frames \<Rightarrow> Inr frames))"

definition prepare_and_execute_merge ::
    "(string \<Rightarrow> string option) \<Rightarrow> (merge_state \<Rightarrow> string + u64) \<Rightarrow> string \<Rightarrow> ('s, 'v) kv \<Rightarrow> 'v codecs \<Rightarrow>
     string \<Rightarrow> nat \<Rightarrow> string \<Rightarrow> key \<Rightarrow> ('s, merge_result) merging" where
  "prepare_and_execute_merge mk ex uuid K C job expected out skey =
     bindM (on_fst (get_or_create_merge_state K C job expected out)) (\<lambda>state.
     bindM (on_fst now_utc) (\<lambda>now.
     case ensure_merge_ready now expected out state of (is_ready, state) \<Rightarrow>
       if \<not> is_ready then bindM (on_fst (rollback_to_running K skey)) (\<lambda>_. ret MergeNotReady)
       else
         (case ms_start_merge now (''merge-'' @ uuid) state of
            Inl e \<Rightarrow> bindM (on_fst (ignored (fail_merge_with_status K C job e))) (\<lambda>_. ret (MergeFailure e))
          | Inr state \<Rightarrow>
              bindM (on_fst (save_merge_state K C job state)) (\<lambda>_.
              case execute_merge mk ex state of
                Inl e \<Rightarrow>
                  bindM (on_fst (ignored (fail_merge_with_status K C job (display_tikv_error e)))) (\<lambda>_.
                  ret (MergeFailure (display_tikv_error e)))
              | Inr frames \<Rightarrow>
                  handleM (on_fst (complete_merge_with_status K C job frames))
                    (\<lambda>e. ret (MergeFailure (display_tikv_error e)))
                    (\<lambda>_. bindM (on_snd sem_record_success) (\<lambda>_. ret (MergeSuccess (ms_output_path state) frames)))))))"

text \<open>Phases 2 and 3 of \<open>try_claim_merge\<close>: the status to claim, or the result to return.\<close>

definition claim_check :: "('s, 'v) kv \<Rightarrow> 'v codecs \<Rightarrow> string \<Rightarrow> ('s, merge_result + batch_status) tc" where
  "claim_check K C job =
     bindM (mc_get_batch_status K C job) (\<lambda>s.
     case s of
       None \<Rightarrow> ret (Inl MergeNotFound)
     | Some status \<Rightarrow>
         (if \<not> is_batch_claimable status then ret (Inl MergeNotClaimed)
          else if \<not> st_is_complete status then ret (Inl MergeNotReady)
          else ret (Inr status)))"

text \<open>Phases 4 and 5: taking the claim, and whether it counts as won.\<close>

definition claim_take :: "('s, 'v) kv \<Rightarrow> 'v codecs \<Rightarrow> string \<Rightarrow> batch_status \<Rightarrow> ('s, bool) tc" where
  "claim_take K C job status =
     bindM (transition_to_merging K C (status_key job) status) (\<lambda>_. verify_cas_won K (status_key job))"

definition try_claim_merge ::
    "(string \<Rightarrow> string option) \<Rightarrow> (merge_state \<Rightarrow> string + u64) \<Rightarrow> string \<Rightarrow> ('s, 'v) kv \<Rightarrow> 'v codecs \<Rightarrow>
     string \<Rightarrow> nat \<Rightarrow> string \<Rightarrow> ('s, merge_result) merging" where
  "try_claim_merge mk ex uuid K C job expected out =
     bindM (try_acquire_merge_permit job) (\<lambda>_.
     dropping_permit (
       bindM (on_fst (claim_check K C job)) (\<lambda>c.
       case c of
         Inl r \<Rightarrow> ret r
       | Inr status \<Rightarrow>
           bindM (on_fst (claim_take K C job status)) (\<lambda>won.
           if \<not> won then ret MergeNotClaimed
           else prepare_and_execute_merge mk ex uuid K C job expected out (status_key job)))))"

section \<open>The permits\<close>

lemma sem_fields [simp]:
  "sem_available (sem_dequeue_pending j s) = sem_available s" "sem_max (sem_dequeue_pending j s) = sem_max s"
  "sem_available (sem_enqueue_pending t j s) = sem_available s" "sem_max (sem_enqueue_pending t j s) = sem_max s"
  "sem_available (sem_record_success s) = sem_available s" "sem_max (sem_record_success s) = sem_max s"
  by (simp_all add: sem_dequeue_pending_def sem_enqueue_pending_def sem_record_success_def sem_set_depth_def)

lemma sem_try_acquire_cases:
  "sem_available s > 0 \<Longrightarrow> \<exists>t. sem_try_acquire s = (True, t) \<and> sem_available t = sem_available s - 1 \<and> sem_max t = sem_max s"
  "sem_available s = 0 \<Longrightarrow> \<exists>t. sem_try_acquire s = (False, t) \<and> sem_available t = 0 \<and> sem_max t = sem_max s"
  by (auto simp: sem_try_acquire_def inner_try_acquire_def Let_def)

section \<open>Runs in a calm cluster\<close>

text \<open>The store after a claim was taken: the index entries are those of the batch named \<open>statuses/\<dots>\<close>.\<close>

definition claimed_store :: "'v codecs \<Rightarrow> string \<Rightarrow> timestamp \<Rightarrow> batch_status \<Rightarrow> (key \<rightharpoonup> 'v) \<Rightarrow> (key \<rightharpoonup> 'v)" where
  "claimed_store C job now status m =
     move_index C (''statuses/'' @ job) Running Merging
       (m(status_key job \<mapsto> enc (c_status C) (st_transition_to now Merging status)))"

text \<open>The store after a merge ended, and the merge state a claim starts from.\<close>

definition ended_store ::
    "'v codecs \<Rightarrow> string \<Rightarrow> batch_phase \<Rightarrow> batch_status \<Rightarrow> merge_state \<Rightarrow> (key \<rightharpoonup> 'v) \<Rightarrow> (key \<rightharpoonup> 'v)" where
  "ended_store C job old status state m =
     (move_index C job old (phase status) (m(status_key job \<mapsto> enc (c_status C) status)))
       (merge_state_key job \<mapsto> enc (c_merge C) state)"

lemma status_phase [simp]: "phase (st_transition_to now p s) = p"
  by (simp add: st_transition_to_def Let_def)

definition planned_merge :: "timestamp \<Rightarrow> string \<Rightarrow> nat \<Rightarrow> string \<Rightarrow> merge_state option \<Rightarrow> merge_state" where
  "planned_merge now job expected out stored =
     (case stored of
        Some s \<Rightarrow> s\<lparr>ms_expected_workers := expected, ms_output_path := out\<rparr>
      | None \<Rightarrow> merge_state_new now job expected out)"

lemma trim_status_key: "trim_start_str ''/roboflow/v1/batch/'' (status_key job) = ''statuses/'' @ job"
  by (simp add: key_forms trim_start_str.simps)

lemma merge_key_distinct:
  "merge_state_key job \<noteq> status_key b" "merge_state_key job \<noteq> phase_key p b" "phase_key p b \<noteq> status_key b'"
  by (simp_all add: merge_state_key_def key_forms)

lemma claimed_store_simps:
  "claimed_store C job now s m (status_key job) = Some (enc (c_status C) (st_transition_to now Merging s))"
  "claimed_store C job now s m (merge_state_key j) = m (merge_state_key j)"
  using merge_key_distinct by (auto simp: claimed_store_def move_index_def)

context reliable_backend
begin

lemma merge_codec:
  assumes "codecs_ok C"
  shows "merge_encode C w s = Inr (enc (c_merge C) s)" "merge_decode C w (enc (c_merge C) s) = Inr s"
    "encode (c_status C) st = Inr (enc (c_status C) st)" "decode (c_status C) w (enc (c_status C) st) = Inr st"
  using codec_ok_enc [OF codecs_okD(8) [OF assms]] codec_ok_enc [OF codecs_okD(2) [OF assms]]
  by (simp_all add: merge_encode_def merge_decode_def encode_def decode_def)

lemma claim_check_yields:
  assumes C: "codecs_ok C" and s: "m (status_key job) = Some (enc (c_status C) status)"
  shows "yields (live m now) (claim_check K C job)
    (Inr (if phase status \<noteq> Running then Inl MergeNotClaimed
          else if \<not> st_is_complete status then Inl MergeNotReady else Inr status)) (live m now)"
proof -
  have "yields (live m now) (mc_get_batch_status K C job) (Inr (Some status)) (live m now)"
    unfolding mc_get_batch_status_def
    by (rule yields_bind [OF get_yields]) (simp only: s option.case merge_codec [OF C] bindM_simps yields_ret)
  then show ?thesis
    unfolding claim_check_def
    by (rule yields_bind) (auto simp: is_batch_claimable_def simp del: ret_simp intro: yields_ret)
qed

lemma claim_take_yields:
  assumes C: "codecs_ok C"
  shows "yields (live m now) (claim_take K C job status) (Inr True) (live (claimed_store C job now status m) now)"
proof -
  have move: "yields (live m now) (transition_to_merging K C (status_key job) status) (Inr ())
      (live (claimed_store C job now status m) now)"
    unfolding transition_to_merging_def trim_status_key merge_codec [OF C] claimed_store_def bindM_simps
    by (rule yields_bind [OF now_yields], rule yields_bind [OF put_yields update_phase_index_yields])
  show ?thesis
    unfolding claim_take_def verify_cas_won_def
    by (rule yields_bind [OF move], rule yields_bind [OF get_yields])
       (simp only: claimed_store_simps option.distinct simp_thms yields_ret)
qed

lemma load_status_yields:
  assumes "codecs_ok C" "m (status_key job) = Some (enc (c_status C) status)"
  shows "yields (live m now) (load_status K C job) (Inr status) (live m now)"
  unfolding load_status_def
  by (rule yields_bind [OF get_yields]) (simp only: assms(2) option.case merge_codec [OF assms(1)] yields_liftR)

lemma ignored_yields: "yields S p (Inr a) S' \<Longrightarrow> yields S (ignored p) (Inr ()) S'"
  unfolding ignored_def by (rule yields_handle [OF _ yields_ret])

lemma end_merge_yields:
  assumes C: "codecs_ok C" and s: "m (merge_state_key job) = Some (enc (c_merge C) state)"
  shows "yields (live m now) (end_merge K C job f) (Inr ())
    (live (m(merge_state_key job \<mapsto> enc (c_merge C) (f now state))) now)"
  unfolding end_merge_def
  by (rule yields_bind [OF get_yields], simp only: s option.case merge_codec [OF C] bindM_simps,
      rule yields_bind [OF now_yields], rule ignored_yields, rule put_yields)

lemma complete_merge_yields:
  assumes C: "codecs_ok C" and s: "m (status_key job) = Some (enc (c_status C) status)"
    and st: "m (merge_state_key job) = Some (enc (c_merge C) state)"
  shows "yields (live m now) (complete_merge_with_status K C job frames) (Inr ())
    (live (ended_store C job Merging (st_transition_to now Complete status)
       (ms_complete now (state\<lparr>ms_total_frames := frames\<rparr>)) m) now)"
proof -
  have kept: "move_index C job Merging Complete (m(status_key job \<mapsto> v)) (merge_state_key job) =
      Some (enc (c_merge C) state)" for v
    using merge_key_distinct(1,2) [of job] st by (simp add: move_index_def)
  show ?thesis
    unfolding complete_merge_with_status_def ended_store_def status_phase
    by (rule yields_bind [OF load_status_yields [where m = m, OF C s]], rule yields_bind [OF now_yields],
        simp only: merge_codec [OF C] bindM_simps, rule yields_bind [OF put_yields],
        rule yields_bind [OF ignored_yields [OF update_phase_index_yields]],
        rule end_merge_yields [OF C], rule kept)
qed

lemma fail_merge_yields:
  assumes C: "codecs_ok C" and s: "m (status_key job) = Some (enc (c_status C) status)"
    and st: "m (merge_state_key job) = Some (enc (c_merge C) state)"
  shows "yields (live m now) (fail_merge_with_status K C job err) (Inr ())
    (live (ended_store C job (phase status) ((st_transition_to now Failed status)\<lparr>bst_error := Some err\<rparr>)
       (ms_fail now err state) m) now)"
proof -
  have kept: "move_index C job p Failed (m(status_key job \<mapsto> v)) (merge_state_key job) =
      Some (enc (c_merge C) state)" for v p
    using merge_key_distinct(1,2) [of job] st by (simp add: move_index_def)
  have ph: "phase ((st_transition_to now Failed status)\<lparr>bst_error := Some err\<rparr>) = Failed" by simp
  show ?thesis
    unfolding fail_merge_with_status_def ended_store_def ph
    by (rule yields_bind [OF load_status_yields [where m = m, OF C s]], rule yields_bind [OF now_yields],
        simp only: merge_codec [OF C] bindM_simps, rule yields_bind [OF put_yields],
        rule yields_bind [OF ignored_yields [OF update_phase_index_yields]],
        rule end_merge_yields [OF C], rule kept)
qed

lemma get_or_create_yields:
  assumes C: "codecs_ok C" and st: "m (merge_state_key job) = map_option (enc (c_merge C)) stored"
  shows "yields (live m now) (get_or_create_merge_state K C job expected out)
    (Inr (planned_merge now job expected out stored)) (live m now)"
  unfolding get_or_create_merge_state_def planned_merge_def
  by (rule yields_bind [OF get_yields])
     (cases stored; simp only: st option.map option.case merge_codec [OF C] bindM_simps;
      intro yields_ret yields_bind [OF now_yields])

lemma save_merge_yields:
  "codecs_ok C \<Longrightarrow> yields (live m now) (save_merge_state K C job state) (Inr ())
     (live (m(merge_state_key job \<mapsto> enc (c_merge C) state)) now)"
  unfolding save_merge_state_def by (simp only: merge_codec bindM_simps put_yields)

lemma rollback_yields:
  "yields (live m now) (rollback_to_running K skey) (Inr ()) (live (m(skey := None)) now)"
  unfolding rollback_to_running_def by (rule yields_handle [OF delete_yields yields_ret])

lemma prepare_not_ready_yields:
  assumes C: "codecs_ok C" and st: "m (merge_state_key job) = map_option (enc (c_merge C)) stored"
    and no: "\<not> fst (ensure_merge_ready now expected out (planned_merge now job expected out stored))"
  shows "yields (\<lambda>x. live m now (fst x) \<and> snd x = q)
    (prepare_and_execute_merge mk ex uuid K C job expected out skey) (Inr MergeNotReady)
    (\<lambda>x. live (m(skey := None)) now (fst x) \<and> snd x = q)"
  unfolding prepare_and_execute_merge_def
  by (rule yields_bind [OF yields_on_fst [OF get_or_create_yields [where m = m, OF C st]]],
      rule yields_bind [OF yields_on_fst [OF now_yields]],
      subst (1) prod.collapse [symmetric], simp only: prod.case no simp_thms if_True,
      rule yields_bind [OF yields_on_fst [OF rollback_yields]], rule yields_ret)

lemma prepare_success_yields:
  assumes C: "codecs_ok C" and s: "m (status_key job) = Some (enc (c_status C) status)"
    and st: "m (merge_state_key job) = map_option (enc (c_merge C)) stored"
    and plan: "ensure_merge_ready now expected out (planned_merge now job expected out stored) = (True, s1)"
      "ms_start_merge now (''merge-'' @ uuid) s1 = Inr s2" "execute_merge mk ex s2 = Inr frames"
  shows "yields (\<lambda>x. live m now (fst x) \<and> snd x = q)
    (prepare_and_execute_merge mk ex uuid K C job expected out (status_key job))
    (Inr (MergeSuccess (ms_output_path s2) frames))
    (\<lambda>x. live (ended_store C job Merging (st_transition_to now Complete status)
         (ms_complete now (s2\<lparr>ms_total_frames := frames\<rparr>)) (m(merge_state_key job \<mapsto> enc (c_merge C) s2))) now (fst x) \<and>
       snd x = sem_record_success q)"
proof -
  let ?m = "m(merge_state_key job \<mapsto> enc (c_merge C) s2)"
  have m: "?m (status_key job) = Some (enc (c_status C) status)" "?m (merge_state_key job) = Some (enc (c_merge C) s2)"
    using s merge_key_distinct(1) [of job job] by simp_all
  show ?thesis
    unfolding prepare_and_execute_merge_def
    by (rule yields_bind [OF yields_on_fst [OF get_or_create_yields [where m = m, OF C st]]],
        rule yields_bind [OF yields_on_fst [OF now_yields]],
        simp only: plan prod.case simp_thms if_False sum.case,
        rule yields_bind [OF yields_on_fst [OF save_merge_yields [OF C]]],
        rule yields_handle [OF yields_on_fst [OF complete_merge_yields [where m = ?m, OF C m]]],
        rule yields_bind [OF yields_on_snd yields_ret])
qed

lemma try_claim_yields:
  assumes C: "codecs_ok C" and s: "m (status_key job) = Some (enc (c_status C) status)"
    and ready: "phase status = Running" "st_is_complete status" and free: "sem_available q > 0"
    and body: "\<And>q1. sem_available q1 = sem_available q - 1 \<Longrightarrow> sem_max q1 = sem_max q \<Longrightarrow>
      yields (\<lambda>x. live (claimed_store C job now status m) now (fst x) \<and> snd x = q1)
        (prepare_and_execute_merge mk ex uuid K C job expected out (status_key job)) (Inr r)
        (\<lambda>x. live m' now (fst x) \<and> snd x = f q1)"
  shows "\<exists>q1. sem_available q1 = sem_available q - 1 \<and> sem_max q1 = sem_max q \<and>
    yields (\<lambda>x. live m now (fst x) \<and> snd x = q) (try_claim_merge mk ex uuid K C job expected out) (Inr r)
      (\<lambda>x. live m' now (fst x) \<and> snd x = inner_release (f q1))"
proof -
  obtain qa where qa: "sem_try_acquire q = (True, qa)" "sem_available qa = sem_available q - 1" "sem_max qa = sem_max q"
    using sem_try_acquire_cases(1) [OF free] by blast
  let ?q = "sem_dequeue_pending job qa"
  have permit: "yields (\<lambda>x. live m now (fst x) \<and> snd x = q) (try_acquire_merge_permit job) (Inr ())
      (\<lambda>x. live m now (fst x) \<and> snd x = ?q)"
    by (simp add: yields_def try_acquire_merge_permit_def qa)
  have check: "yields (live m now) (claim_check K C job) (Inr (Inr status)) (live m now)"
    using claim_check_yields [where m = m, OF C s] ready by simp
  have "yields (\<lambda>x. live m now (fst x) \<and> snd x = q) (try_claim_merge mk ex uuid K C job expected out) (Inr r)
      (\<lambda>x. live m' now (fst x) \<and> snd x = inner_release (f ?q))"
    unfolding try_claim_merge_def dropping_permit_def
    by (rule yields_bind [OF permit], rule yields_handle, rule yields_bind [OF yields_on_fst [OF check]],
        simp only: sum.case, rule yields_bind [OF yields_on_fst [OF claim_take_yields [OF C]]],
        simp only: simp_thms if_False, rule body,
        simp_all only: sem_fields qa(2,3), rule yields_bind [OF yields_on_snd yields_ret])
  then show ?thesis by (intro exI [of _ ?q]) (simp add: qa)
qed

lemma try_claim_runs:
  assumes "codecs_ok C" "m (status_key job) = Some (enc (c_status C) status)" "phase status = Running"
    "st_is_complete status" "sem_available (snd x) > 0" "live m now (fst x)"
    and "\<And>q1. sem_available q1 = sem_available (snd x) - 1 \<Longrightarrow> sem_max q1 = sem_max (snd x) \<Longrightarrow>
      yields (\<lambda>x. live (claimed_store C job now status m) now (fst x) \<and> snd x = q1)
        (prepare_and_execute_merge mk ex uuid K C job expected out (status_key job)) (Inr r)
        (\<lambda>x. live m' now (fst x) \<and> snd x = f q1)"
  shows "\<exists>y. try_claim_merge mk ex uuid K C job expected out x = (Inr r, y) \<and> live m' now (fst y)"
  using try_claim_yields [where m = m and f = f, OF assms(1-5,7)] yieldsD [of _ _ _ _ x] assms(6) by blast

end

section \<open>Properties\<close>

text \<open>C32: what a successful merge stores. In a calm cluster, when a batch is running with all its units
  finished, a permit is free, and the merge can start and its execution succeeds, \<open>try_claim_merge\<close> reports
  the output and the frames, the stored batch status is complete and the stored merge state is complete with
  these frames. In the phase index the batch gets its entry as complete; but its entry as running is
  kept, and an entry as merging is left behind for a batch named \<open>statuses/\<close> and the identifier.\<close>

theorem merge_completes_batch:
  assumes rel: "reliable_backend K contents fresh pend calm" and C: "codecs_ok C"
    and s: "m (status_key job) = Some (enc (c_status C) status)" "phase status = Running" "st_is_complete status"
    and free: "sem_available (snd x) > 0"
    and st: "m (merge_state_key job) = map_option (enc (c_merge C)) stored"
    and plan: "ensure_merge_ready now expected out (planned_merge now job expected out stored) = (True, s1)"
      "ms_start_merge now (''merge-'' @ uuid) s1 = Inr s2" "execute_merge mk ex s2 = Inr frames"
    and cl: "client_at contents calm m now (fst x)"
  shows "\<exists>y. try_claim_merge mk ex uuid K C job expected out x = (Inr (MergeSuccess (ms_output_path s2) frames), y) \<and>
    contents (cl_world (fst y)) (status_key job) =
      Some (enc (c_status C) (st_transition_to now Complete (st_transition_to now Merging status))) \<and>
    contents (cl_world (fst y)) (merge_state_key job) =
      Some (enc (c_merge C) (ms_complete now (s2\<lparr>ms_total_frames := frames\<rparr>))) \<and>
    contents (cl_world (fst y)) (phase_key Complete job) = Some (raw_bytes C []) \<and>
    contents (cl_world (fst y)) (phase_key Running job) = m (phase_key Running job) \<and>
    contents (cl_world (fst y)) (phase_key Merging (''statuses/'' @ job)) = Some (raw_bytes C [])"
proof -
  let ?m = "claimed_store C job now status m"
  let ?e = "ended_store C job Merging (st_transition_to now Complete (st_transition_to now Merging status))
    (ms_complete now (s2\<lparr>ms_total_frames := frames\<rparr>)) (?m(merge_state_key job \<mapsto> enc (c_merge C) s2))"
  have "?m (merge_state_key job) = map_option (enc (c_merge C)) stored"
    by (simp add: claimed_store_simps st)
  from reliable_backend.try_claim_runs [where m = m and f = sem_record_success and m' = ?e, OF rel C s free cl
      reliable_backend.prepare_success_yields [where m = ?m, OF rel C claimed_store_simps(1) this plan]]
  obtain y where run: "try_claim_merge mk ex uuid K C job expected out x = (Inr (MergeSuccess (ms_output_path s2) frames), y)"
    "client_at contents calm ?e now (fst y)"
    by blast
  then have "contents (cl_world (fst y)) = ?e" by (simp add: client_at_def)
  with run(1) show ?thesis
    using merge_key_distinct [symmetric] merge_key_distinct
    by (auto simp: ended_store_def claimed_store_def move_index_def)
qed

text \<open>a merge that is not ready drops its batch. In a calm cluster, when a batch is running with all its
  units finished but the merge state does not have the expected workers, \<open>try_claim_merge\<close> answers
  \<open>NotReady\<close> and the stored batch status is gone: the step documented as going back to running deletes it,
  so that the retry the answer asks for finds no batch.\<close>

theorem merge_not_ready_drops_batch:
  assumes rel: "reliable_backend K contents fresh pend calm" and C: "codecs_ok C"
    and s: "m (status_key job) = Some (enc (c_status C) status)" "phase status = Running" "st_is_complete status"
    and free: "sem_available (snd x) > 0"
    and st: "m (merge_state_key job) = map_option (enc (c_merge C)) stored"
    and no: "\<not> fst (ensure_merge_ready now expected out (planned_merge now job expected out stored))"
    and cl: "client_at contents calm m now (fst x)"
  shows "\<exists>y z. try_claim_merge mk ex uuid K C job expected out x = (Inr MergeNotReady, y) \<and>
    contents (cl_world (fst y)) (status_key job) = None \<and>
    claim_check K C job (fst y) = (Inr (Inl MergeNotFound), z)"
proof -
  let ?m = "claimed_store C job now status m"
  have "?m (merge_state_key job) = map_option (enc (c_merge C)) stored"
    by (simp add: claimed_store_simps st)
  from reliable_backend.try_claim_runs [where m = m and f = "\<lambda>q. q" and m' = "?m(status_key job := None)",
      OF rel C s free cl reliable_backend.prepare_not_ready_yields [where m = ?m, OF rel C this no]]
  obtain y where run: "try_claim_merge mk ex uuid K C job expected out x = (Inr MergeNotReady, y)"
    "client_at contents calm (?m(status_key job := None)) now (fst y)"
    by blast
  from yieldsD [OF reliable_backend.get_yields [OF rel] run(2), of "status_key job"]
  obtain z where "tc_get K (status_key job) (fst y) = (Inr None, z)" by auto
  then have "claim_check K C job (fst y) = (Inr (Inl MergeNotFound), z)"
    by (simp add: claim_check_def mc_get_batch_status_def bindM_def)
  with run show ?thesis by (auto simp: client_at_def)
qed

text \<open>a merge can be claimed twice. When one coordinator has read a claimable status and another then claims
  and finishes the merge, the first one still takes the claim: \<open>claim_take\<close> overwrites the status without
  comparing it, reports that it won, and the batch that was complete is merging again.\<close>

theorem merge_claims_not_exclusive:
  assumes rel: "reliable_backend K contents fresh pend calm" and C: "codecs_ok C"
    and s: "m (status_key job) = Some (enc (c_status C) status)" "phase status = Running" "st_is_complete status"
    and free: "sem_available q > 0"
    and st: "m (merge_state_key job) = map_option (enc (c_merge C)) stored"
    and plan: "ensure_merge_ready now expected out (planned_merge now job expected out stored) = (True, s1)"
      "ms_start_merge now (''merge-'' @ uuid) s1 = Inr s2" "execute_merge mk ex s2 = Inr frames"
    and cl: "client_at contents calm m now a"
  shows "\<exists>a1 b q' a2 w. claim_check K C job a = (Inr (Inr status), a1) \<and>
    try_claim_merge mk ex uuid K C job expected out (a1, q) = (Inr (MergeSuccess (ms_output_path s2) frames), (b, q')) \<and>
    claim_take K C job status b = (Inr w, a2) \<and> w \<and>
    contents (cl_world a2) (status_key job) = Some (enc (c_status C) (st_transition_to now Merging status))"
proof -
  let ?m = "claimed_store C job now status m"
  let ?e = "ended_store C job Merging (st_transition_to now Complete (st_transition_to now Merging status))
    (ms_complete now (s2\<lparr>ms_total_frames := frames\<rparr>)) (?m(merge_state_key job \<mapsto> enc (c_merge C) s2))"
  obtain a1 where a1: "claim_check K C job a = (Inr (Inr status), a1)" "client_at contents calm m now a1"
    using yieldsD [OF reliable_backend.claim_check_yields [where m = m, OF rel C s(1)] cl] s(2,3) by auto
  have "?m (merge_state_key job) = map_option (enc (c_merge C)) stored"
    by (simp add: claimed_store_simps st)
  from reliable_backend.try_claim_runs [where m = m and f = sem_record_success and m' = ?e and x = "(a1, q)",
      OF rel C s _ _ reliable_backend.prepare_success_yields [where m = ?m, OF rel C claimed_store_simps(1) this plan]]
    free a1(2)
  obtain b q' where b: "try_claim_merge mk ex uuid K C job expected out (a1, q) =
      (Inr (MergeSuccess (ms_output_path s2) frames), (b, q'))" "client_at contents calm ?e now b"
    by auto
  obtain a2 where "claim_take K C job status b = (Inr True, a2)"
    "client_at contents calm (claimed_store C job now status ?e) now a2"
    using yieldsD [OF reliable_backend.claim_take_yields [OF rel C] b(2)] by blast
  with a1(1) b(1) show ?thesis by (fastforce simp: client_at_def claimed_store_simps)
qed

definition demo_done :: batch_status where
  "demo_done = (status_new 0)\<lparr>phase := Running, work_units_total := 1, work_units_completed := 1\<rparr>"

definition demo_merge :: "(key \<times> payload) list" where
  "demo_merge = [(status_key ''jobs:b'', PStatus demo_done)]"

lemma demo_merge_facts:
  "map_of demo_merge (status_key ''jobs:b'') = Some (enc (c_status mem_codecs) demo_done)"
  "phase demo_done = Running" "st_is_complete demo_done"
  "map_of demo_merge (merge_state_key ''jobs:b'') = map_option (enc (c_merge mem_codecs)) None"
  by (simp_all add: demo_merge_def demo_done_def enc_def mem_codecs_def mem_codec_def st_is_complete_def status_new_def
      merge_key_distinct)

definition demo_direct :: merge_state where
  "demo_direct = ms_add_worker 9 ''direct'' ''out'' 0 (merge_state_new 9 ''jobs:b'' 1 ''out'')"

lemma demo_plan:
  "ensure_merge_ready 9 1 ''out'' (planned_merge 9 ''jobs:b'' 1 ''out'' None) = (True, demo_direct)"
  "ms_start_merge 9 (''merge-'' @ ''id'') demo_direct =
     Inr (demo_direct\<lparr>ms_status := MInProgress, ms_merge_worker := Some ''merge-id'', ms_updated_at := 9\<rparr>)"
  "execute_merge (\<lambda>_. None) (\<lambda>_. Inr 7) s = Inr 7"
  "\<not> fst (ensure_merge_ready 9 2 ''out'' (planned_merge 9 ''jobs:b'' 2 ''out'' None))"
  by (simp_all add: ensure_merge_ready_def planned_merge_def merge_state_new_def ms_is_ready_def demo_direct_def
      ms_add_worker_def ms_start_merge_def execute_merge_def)

lemmas demo_merge_run = mem.reliable_backend_axioms mem_codecs_ok demo_merge_facts(1-3)

theorem merge_completes_batch_witness:
  "\<exists>y. try_claim_merge (\<lambda>_. None) (\<lambda>_. Inr 7) ''id'' mem_kv mem_codecs ''jobs:b'' 1 ''out''
       (demo_client (demo_store demo_merge []) 9, merge_semaphore_new 3) = (Inr (MergeSuccess ''out'' 7), y)"
  using merge_completes_batch [where m = "map_of demo_merge" and x = "(demo_client (demo_store demo_merge []) 9, merge_semaphore_new 3)",
      OF demo_merge_run _ demo_merge_facts(4) demo_plan(1-3)] demo_client_at [of demo_merge 9]
  by (auto simp: merge_semaphore_new_def demo_direct_def ms_add_worker_def merge_state_new_def)

theorem merge_not_ready_drops_batch_witness:
  "\<exists>y. try_claim_merge (\<lambda>_. None) (\<lambda>_. Inr 7) ''id'' mem_kv mem_codecs ''jobs:b'' 2 ''out''
       (demo_client (demo_store demo_merge []) 9, merge_semaphore_new 3) = (Inr MergeNotReady, y) \<and>
     mem_contents (cl_world (fst y)) (status_key ''jobs:b'') = None"
  using merge_not_ready_drops_batch [where m = "map_of demo_merge" and
      x = "(demo_client (demo_store demo_merge []) 9, merge_semaphore_new 3)" and mk = "\<lambda>_. None" and
      ex = "\<lambda>_. Inr 7" and uuid = "''id''", OF demo_merge_run _ demo_merge_facts(4) demo_plan(4)]
    demo_client_at [of demo_merge 9]
  by (auto simp: merge_semaphore_new_def)

theorem merge_claims_not_exclusive_witness:
  "\<exists>a1 b q' a2. claim_check mem_kv mem_codecs ''jobs:b'' (demo_client (demo_store demo_merge []) 9) = (Inr (Inr demo_done), a1) \<and>
     try_claim_merge (\<lambda>_. None) (\<lambda>_. Inr 7) ''id'' mem_kv mem_codecs ''jobs:b'' 1 ''out'' (a1, merge_semaphore_new 3) =
       (Inr (MergeSuccess ''out'' 7), (b, q')) \<and>
     claim_take mem_kv mem_codecs ''jobs:b'' demo_done b = (Inr True, a2)"
  using merge_claims_not_exclusive [where m = "map_of demo_merge" and q = "merge_semaphore_new 3" and a = "demo_client (demo_store demo_merge []) 9",
      OF demo_merge_run _ demo_merge_facts(4) demo_plan(1-3)] demo_client_at [of demo_merge 9]
  by (fastforce simp: merge_semaphore_new_def demo_direct_def ms_add_worker_def merge_state_new_def)

end
