(* ===== verification/Finalizer.thy ===== *)
theory Finalizer
  imports Merge_Coordinator Tikv_Config
begin

text \<open>
  \<open>finalizer/mod.rs\<close> and \<open>finalizer/config.rs\<close>: finding finished batches, triggering their merge and recording
  the outcome. The assembly of dataset metadata (present when storage and a dataset configuration are) and the
  statistics collector are parameters; their failures are only logged. \<open>run\<close> is one iteration of its loop.

  A batch that is refused a merge permit is marked as failed.
\<close>

record dataset_metadata_config =
  dmc_name :: string
  dmc_robot_type :: "string option"
  dmc_fps :: u32

definition dataset_metadata_config_new :: "string \<Rightarrow> dataset_metadata_config" where
  "dataset_metadata_config_new name = \<lparr> dmc_name = name, dmc_robot_type = None, dmc_fps = 30 \<rparr>"

definition dmc_with_robot_type :: "string \<Rightarrow> dataset_metadata_config \<Rightarrow> dataset_metadata_config" where
  "dmc_with_robot_type r c = c\<lparr>dmc_robot_type := Some r\<rparr>"

definition dmc_with_fps :: "u32 \<Rightarrow> dataset_metadata_config \<Rightarrow> dataset_metadata_config" where
  "dmc_with_fps f c = c\<lparr>dmc_fps := f\<rparr>"

record finalizer_config =
  fc_poll_interval :: int
  fc_merge_timeout :: int
  fc_dataset_config :: "dataset_metadata_config option"

definition DEFAULT_POLL_INTERVAL_SECS :: nat where
  "DEFAULT_POLL_INTERVAL_SECS = 30"

definition DEFAULT_MERGE_TIMEOUT_SECS :: nat where
  "DEFAULT_MERGE_TIMEOUT_SECS = 600"

definition default_finalizer_config :: finalizer_config where
  "default_finalizer_config =
     \<lparr> fc_poll_interval = duration_seconds (int DEFAULT_POLL_INTERVAL_SECS),
       fc_merge_timeout = duration_seconds (int DEFAULT_MERGE_TIMEOUT_SECS), fc_dataset_config = None \<rparr>"

definition finalizer_from_env :: "(string \<rightharpoonup> string) \<Rightarrow> finalizer_config" where
  "finalizer_from_env env =
     \<lparr> fc_poll_interval = duration_seconds (int (env_unsigned env 64 ''FINALIZER_POLL_INTERVAL_SECS'' DEFAULT_POLL_INTERVAL_SECS)),
       fc_merge_timeout = duration_seconds (int (env_unsigned env 64 ''FINALIZER_MERGE_TIMEOUT_SECS'' DEFAULT_MERGE_TIMEOUT_SECS)),
       fc_dataset_config = None \<rparr>"

definition fc_with_dataset_config :: "dataset_metadata_config \<Rightarrow> finalizer_config \<Rightarrow> finalizer_config" where
  "fc_with_dataset_config d c = c\<lparr>fc_dataset_config := Some d\<rparr>"

section \<open>Recording the outcome\<close>

definition mark_batch ::
    "('s, 'v) kv \<Rightarrow> 'v codecs \<Rightarrow> string \<Rightarrow> batch_phase \<Rightarrow> (batch_status \<Rightarrow> batch_status) \<Rightarrow> ('s, unit) tc" where
  "mark_batch K C batch_id p f =
     bindM (tc_get K (status_key batch_id)) (\<lambda>data.
     case data of
       None \<Rightarrow> throw (Other ''Batch status not found'')
     | Some d \<Rightarrow>
         bindM (liftR (decode (c_status C) ''batch status: '' d)) (\<lambda>status.
         bindM now_utc (\<lambda>now.
         bindM (liftR (encode (c_status C) (f (st_transition_to now p status)))) (\<lambda>v.
         bindM (tc_put K (status_key batch_id) v) (\<lambda>_.
         update_phase_index K C batch_id (phase status) p)))))"

definition mark_batch_complete :: "('s, 'v) kv \<Rightarrow> 'v codecs \<Rightarrow> string \<Rightarrow> ('s, unit) tc" where
  "mark_batch_complete K C batch_id = mark_batch K C batch_id Complete (\<lambda>s. s)"

definition mark_batch_failed :: "('s, 'v) kv \<Rightarrow> 'v codecs \<Rightarrow> string \<Rightarrow> string \<Rightarrow> ('s, unit) tc" where
  "mark_batch_failed K C batch_id err = mark_batch K C batch_id Failed (\<lambda>s. s\<lparr>bst_error := Some err\<rparr>)"

section \<open>Finding and finalizing a batch\<close>

definition awaits_finalization :: "batch_summary \<Rightarrow> bool" where
  "awaits_finalization b =
     (bsum_phase b = Running \<and> bsum_files_completed b + bsum_files_failed b \<ge> bsum_files_total b \<and>
      bsum_files_total b > 0)"

fun first_with_spec ::
    "('s, 'v) kv \<Rightarrow> 'v codecs \<Rightarrow> batch_summary list \<Rightarrow> ('s, (batch_summary \<times> batch_spec) option) tc" where
  "first_with_spec K C [] = ret None"
| "first_with_spec K C (b # bs) =
     (if \<not> awaits_finalization b then first_with_spec K C bs
      else handleM (get_batch_spec K C (bsum_id b))
             (\<lambda>_. first_with_spec K C bs)
             (\<lambda>s. case s of Some spec \<Rightarrow> ret (Some (b, spec)) | None \<Rightarrow> first_with_spec K C bs))"

definition find_batch_awaiting_finalization ::
    "('s, 'v) kv \<Rightarrow> 'v codecs \<Rightarrow> ('s, (batch_summary \<times> batch_spec) option) tc" where
  "find_batch_awaiting_finalization K C =
     handleM (list_batches K C) (\<lambda>_. ret None) (\<lambda>batches. first_with_spec K C batches)"

text \<open>What the finalizer is given besides the store: metadata assembly for a batch and an output path, and
  the statistics collector.\<close>

record 's finalizer_env =
  fe_storage :: "string \<Rightarrow> string option"
  fe_executor :: "merge_state \<Rightarrow> string + u64"
  fe_assemble :: "(string \<Rightarrow> string \<Rightarrow> ('s, unit) tc) option"
  fe_delete_stats :: "(string \<Rightarrow> ('s, unit) tc) option"

definition finalize_batch ::
    "'s finalizer_env \<Rightarrow> string \<Rightarrow> ('s, 'v) kv \<Rightarrow> 'v codecs \<Rightarrow> string \<Rightarrow> string \<Rightarrow> ('s, bool) merging" where
  "finalize_batch E uuid K C batch_id out =
     bindM (case fe_assemble E of Some f \<Rightarrow> on_fst (ignored (f batch_id out)) | None \<Rightarrow> ret ()) (\<lambda>_.
     bindM (try_claim_merge (fe_storage E) (fe_executor E) uuid K C batch_id 1 out) (\<lambda>result.
     case result of
       MergeSuccess _ _ \<Rightarrow>
         bindM (case fe_delete_stats E of Some f \<Rightarrow> on_fst (ignored (f batch_id)) | None \<Rightarrow> ret ()) (\<lambda>_.
         bindM (on_fst (mark_batch_complete K C batch_id)) (\<lambda>_. ret True))
     | MergeNotFound \<Rightarrow> ret False
     | MergeNotClaimed \<Rightarrow> ret False
     | MergeNotReady \<Rightarrow> ret False
     | MergeFailure e \<Rightarrow> throw (Other (''Merge failed: '' @ e))))"

text \<open>What the loop does with a batch it found.\<close>

definition finalize_found ::
    "'s finalizer_env \<Rightarrow> string \<Rightarrow> ('s, 'v) kv \<Rightarrow> 'v codecs \<Rightarrow> batch_summary \<Rightarrow> batch_spec \<Rightarrow> ('s, unit) merging" where
  "finalize_found E uuid K C batch spec =
     handleM (finalize_batch E uuid K C (bsum_id batch) (js_output (bs_spec spec)))
       (\<lambda>e. on_fst (ignored (mark_batch_failed K C (bsum_id batch)
          (''Finalization failed: '' @ display_tikv_error e))))
       (\<lambda>_. ret ())"

definition finalizer_tick ::
    "finalizer_config \<Rightarrow> 's finalizer_env \<Rightarrow> string \<Rightarrow> ('s, 'v) kv \<Rightarrow> 'v codecs \<Rightarrow> ('s, unit) merging" where
  "finalizer_tick cfg E uuid K C =
     bindM (on_fst (find_batch_awaiting_finalization K C)) (\<lambda>found.
     bindM (case found of None \<Rightarrow> ret () | Some (batch, spec) \<Rightarrow> finalize_found E uuid K C batch spec) (\<lambda>_.
     on_fst (sleep (fc_poll_interval cfg))))"

context reliable_backend
begin

lemma mark_batch_yields:
  assumes C: "codecs_ok C" and s: "m (status_key b) = Some (enc (c_status C) status)"
  shows "yields (live m now) (mark_batch K C b p f) (Inr ())
    (live (move_index C b (phase status) p (m(status_key b \<mapsto> enc (c_status C) (f (st_transition_to now p status))))) now)"
  unfolding mark_batch_def
  by (rule yields_bind [OF get_yields], simp only: s option.case merge_codec [OF C] bindM_simps,
      rule yields_bind [OF now_yields], rule yields_bind [OF put_yields], rule update_phase_index_yields)

end

section \<open>Properties\<close>

text \<open>backpressure fails a batch. In a calm cluster, when a finished batch is found while all merge permits
  are in use, the refusal of the semaphore reaches the finalizer as an error and the batch is stored as
  failed, although nothing went wrong with it and the semaphore asks the caller to try again later.\<close>

theorem no_permit_fails_batch:
  assumes rel: "reliable_backend K contents fresh pend calm" and C: "codecs_ok C"
    and s: "m (status_key (bsum_id b)) = Some (enc (c_status C) status)"
    and none: "sem_available (snd x) = 0" and plain: "fe_assemble E = None"
    and cl: "client_at contents calm m now (fst x)"
  shows "\<exists>y. finalize_found E uuid K C b spec x = (Inr (), y) \<and>
    contents (cl_world (fst y)) (status_key (bsum_id b)) = Some (enc (c_status C)
      ((st_transition_to now Failed status)\<lparr>bst_error := Some ''Finalization failed: No merge permits available''\<rparr>))"
proof -
  obtain q where q: "sem_try_acquire (snd x) = (False, q)" using sem_try_acquire_cases(2) [OF none] by blast
  have fin: "finalize_batch E uuid K C (bsum_id b) (js_output (bs_spec spec)) x =
      (Inl (Other ''No merge permits available''), (fst x, sem_enqueue_pending (cl_clock (fst x)) (bsum_id b) q))"
    by (simp add: finalize_batch_def plain try_claim_merge_def bindM_def try_acquire_merge_permit_def q)
  have mark: "yields (client_at contents calm m now)
      (ignored (mark_batch_failed K C (bsum_id b) ''Finalization failed: No merge permits available'') :: ('a, unit) tc) (Inr ())
      (client_at contents calm (move_index C (bsum_id b) (phase status) Failed (m(status_key (bsum_id b) \<mapsto> enc (c_status C)
        ((st_transition_to now Failed status)\<lparr>bst_error := Some ''Finalization failed: No merge permits available''\<rparr>)))) now)"
    unfolding mark_batch_failed_def
    by (rule reliable_backend.ignored_yields [OF rel], rule reliable_backend.mark_batch_yields [where m = m, OF rel C s])
  from yieldsD [OF mark cl] obtain t where
    t: "ignored (mark_batch_failed K C (bsum_id b) ''Finalization failed: No merge permits available'') (fst x) =
        ((Inr (), t) :: (tikv_error + unit) \<times> 'a client)"
      "contents (cl_world t) (status_key (bsum_id b)) = Some (enc (c_status C)
        ((st_transition_to now Failed status)\<lparr>bst_error := Some ''Finalization failed: No merge permits available''\<rparr>))"
    using merge_key_distinct(3) by (auto simp: client_at_def move_index_def)
  then show ?thesis
    by (simp add: finalize_found_def handleM_def fin on_fst_def)
qed

definition demo_env :: "'s finalizer_env" where
  "demo_env = \<lparr> fe_storage = (\<lambda>_. None), fe_executor = (\<lambda>_. Inr 7), fe_assemble = None, fe_delete_stats = None \<rparr>"

theorem no_permit_fails_batch_witness:
  "\<exists>y. finalize_found demo_env ''id'' mem_kv mem_codecs (make_summary ''jobs:b'' demo_spec demo_done) demo_spec
       (demo_client (demo_store demo_merge []) 9, merge_semaphore_new 0) = (Inr (), y) \<and>
     mem_contents (cl_world (fst y)) (status_key ''jobs:b'') = Some (enc (c_status mem_codecs)
       ((st_transition_to 9 Failed demo_done)\<lparr>bst_error := Some ''Finalization failed: No merge permits available''\<rparr>))"
  using no_permit_fails_batch [where m = "map_of demo_merge" and b = "make_summary ''jobs:b'' demo_spec demo_done" and
      E = demo_env and uuid = "''id''" and spec = demo_spec and
      x = "(demo_client (demo_store demo_merge []) 9, merge_semaphore_new 0)" and now = 9,
      OF mem.reliable_backend_axioms mem_codecs_ok] demo_merge_facts(1) demo_client_at [of demo_merge 9]
  by (simp add: make_summary_def demo_env_def merge_semaphore_new_def)

end
