(* ===== verification/Ring_Buffer.thy ===== *)
theory Ring_Buffer
  imports RF_Prelude
begin

unbundle bit_operations_syntax

text \<open>
  \<open>formats/common/ring_buffer.rs\<close> of the dataset crate: the bounded buffer between the thread that captures
  frames and the thread that encodes them. Frames are values of a type parameter. The indices are 64-bit
  words that wrap around; a slot is selected by masking an index.

  The buffer implements a bounded queue (\<open>bounded_queue\<close>), and it does so also when one pushing and one popping
  thread interleave step by step (\<open>spsc_step\<close>).
\<close>

section \<open>The buffer\<close>

datatype ring_error = RingFull | RingEmpty | RingClosed | RingTimeout

record 'f ring =
  rb_buffer :: "'f option list"
  rb_capacity :: u64
  rb_mask :: u64
  rb_write :: u64
  rb_read :: u64
  rb_closed :: u64

fun next_power_of_two :: "nat \<Rightarrow> nat" where
  "next_power_of_two n = (if n \<le> 1 then 1 else 2 * next_power_of_two ((n + 1) div 2))"

declare next_power_of_two.simps [simp del]

text \<open>\<open>None\<close> stands for a panic: of the assertion, or of \<open>next_power_of_two\<close> when the result is no \<open>usize\<close>.\<close>

definition ring_new :: "nat \<Rightarrow> 'f ring option" where
  "ring_new n =
     (if n = 0 \<or> n > 2 ^ 63 then None
      else let capacity = of_nat (next_power_of_two n)
           in Some \<lparr> rb_buffer = replicate (next_power_of_two n) None, rb_capacity = capacity, rb_mask = capacity - 1,
                     rb_write = 0, rb_read = 0, rb_closed = 0 \<rparr>)"

definition rb_len :: "'f ring \<Rightarrow> u64" where
  "rb_len r = rb_write r - rb_read r"

definition rb_is_empty :: "'f ring \<Rightarrow> bool" where
  "rb_is_empty r = (rb_len r = 0)"

definition rb_is_full :: "'f ring \<Rightarrow> bool" where
  "rb_is_full r = (rb_len r = rb_capacity r)"

definition rb_close :: "'f ring \<Rightarrow> 'f ring" where
  "rb_close r = r\<lparr>rb_closed := 1\<rparr>"

definition rb_is_closed :: "'f ring \<Rightarrow> bool" where
  "rb_is_closed r = (rb_closed r \<noteq> 0)"

definition slot_of :: "'f ring \<Rightarrow> u64 \<Rightarrow> nat" where
  "slot_of r i = unat (i AND rb_mask r)"

definition rb_try_push :: "'f \<Rightarrow> 'f ring \<Rightarrow> (ring_error + unit) \<times> 'f ring" where
  "rb_try_push frame r =
     (if rb_is_closed r then (Inl RingClosed, r)
      else let w = rb_write r; rd = rb_read r
           in if w - rd \<ge> rb_capacity r then (Inl RingFull, r)
              else (Inr (), r\<lparr>rb_buffer := (rb_buffer r)[slot_of r w := Some frame], rb_write := w + 1\<rparr>))"

definition rb_try_pop :: "'f ring \<Rightarrow> 'f option \<times> 'f ring" where
  "rb_try_pop r =
     (let rd = rb_read r; w = rb_write r
      in if rd = w then (None, r)
         else (rb_buffer r ! slot_of r rd, r\<lparr>rb_buffer := (rb_buffer r)[slot_of r rd := None], rb_read := rd + 1\<rparr>))"

text \<open>The blocking operations: \<open>env\<close> is what the other threads do to the buffer between two attempts; the fuel
  is the number of attempts the timeout leaves time for.\<close>

fun rb_push_with_timeout :: "nat \<Rightarrow> ('f ring \<Rightarrow> 'f ring) \<Rightarrow> 'f \<Rightarrow> 'f ring \<Rightarrow> (ring_error + unit) \<times> 'f ring" where
  "rb_push_with_timeout n env frame r =
     (if rb_is_closed r then (Inl RingClosed, r)
      else case rb_try_push frame r of
        (Inr _, r') \<Rightarrow> (Inr (), r')
      | (Inl _, r') \<Rightarrow> (case n of 0 \<Rightarrow> (Inl RingTimeout, r') | Suc k \<Rightarrow> rb_push_with_timeout k env frame (env r')))"

fun rb_pop_with_timeout :: "nat \<Rightarrow> ('f ring \<Rightarrow> 'f ring) \<Rightarrow> 'f ring \<Rightarrow> (ring_error + 'f) \<times> 'f ring" where
  "rb_pop_with_timeout n env r =
     (if rb_is_closed r \<and> rb_is_empty r then (Inl RingClosed, r)
      else case rb_try_pop r of
        (Some f, r') \<Rightarrow> (Inr f, r')
      | (None, r') \<Rightarrow> (case n of 0 \<Rightarrow> (Inl RingTimeout, r') | Suc k \<Rightarrow> rb_pop_with_timeout k env (env r')))"

text \<open>\<open>clone\<close> shares the indices and the closed flag but has slots of its own.\<close>

definition rb_clone :: "'f ring \<Rightarrow> 'f ring" where
  "rb_clone r = r\<lparr>rb_buffer := replicate (unat (rb_capacity r)) None\<rparr>"

record ring_snapshot =
  rs_capacity :: u64
  rs_len :: u64
  rs_is_empty :: bool
  rs_is_full :: bool
  rs_is_closed :: bool

definition rb_snapshot :: "'f ring \<Rightarrow> ring_snapshot" where
  "rb_snapshot r =
     \<lparr> rs_capacity = rb_capacity r, rs_len = rb_len r, rs_is_empty = rb_is_empty r, rs_is_full = rb_is_full r,
       rs_is_closed = rb_is_closed r \<rparr>"

section \<open>Indices\<close>

lemma next_power_of_two_bounds:
  "(\<exists>k. next_power_of_two n = 2 ^ k) \<and> n \<le> next_power_of_two n \<and> (n \<noteq> 0 \<longrightarrow> next_power_of_two n < 2 * n)"
proof (induction n rule: next_power_of_two.induct)
  case (1 n)
  show ?case
  proof (cases "n \<le> 1")
    case True
    then show ?thesis by (auto simp: next_power_of_two.simps [of n] intro: exI [of _ 0])
  next
    case False
    with 1 obtain k where k: "next_power_of_two ((n + 1) div 2) = 2 ^ k"
      "(n + 1) div 2 \<le> next_power_of_two ((n + 1) div 2)"
      "next_power_of_two ((n + 1) div 2) < 2 * ((n + 1) div 2)"
      by auto
    have "next_power_of_two n = 2 ^ Suc k" "n \<le> next_power_of_two n"
      using False k by (simp_all add: next_power_of_two.simps [of n])
    moreover have "next_power_of_two n < 2 * n"
    proof -
      have "2 ^ k \<noteq> n" if "odd n" using that False by (cases k) auto
      then have "2 ^ k < n"
        using k False by (cases "odd n") (auto elim!: oddE evenE simp: less_le)
      then show ?thesis using False k(1) by (simp add: next_power_of_two.simps [of n])
    qed
    ultimately show ?thesis using False by blast
  qed
qed

text \<open>The geometry of a buffer: its capacity is a power of two, so that masking is a remainder also when an
  index wraps around.\<close>

definition ring_geo :: "'f ring \<Rightarrow> bool" where
  "ring_geo r \<longleftrightarrow>
     (\<exists>k < 64. rb_capacity r = 2 ^ k \<and> rb_mask r = rb_capacity r - 1 \<and> length (rb_buffer r) = 2 ^ k)"

lemma unat_exp64: "k < 64 \<Longrightarrow> unat (2 ^ k :: u64) = 2 ^ k"
  using unat_of_nat [where 'a = 64, of "2 ^ k"] power_strict_increasing [of k 64 "2 :: nat"] by simp

lemma ring_geo_cap: "ring_geo r \<Longrightarrow> unat (rb_capacity r) = length (rb_buffer r)" "ring_geo r \<Longrightarrow> 0 < length (rb_buffer r)"
  by (auto simp: ring_geo_def unat_exp64)

lemma slot_of_mod:
  assumes "ring_geo r"
  shows "slot_of r i = unat i mod length (rb_buffer r)"
proof -
  obtain k where k: "k < 64" "rb_capacity r = 2 ^ k" "rb_mask r = 2 ^ k - 1" "length (rb_buffer r) = 2 ^ k"
    using assms by (auto simp: ring_geo_def)
  have "i AND rb_mask r = take_bit k i" by (simp add: k(3) take_bit_eq_mask mask_eq_exp_minus_1)
  then show ?thesis
    using k(1) by (simp add: slot_of_def k(4) take_bit_eq_mod unat_mod unat_exp64)
qed

lemma slot_of_add:
  assumes "ring_geo r"
  shows "slot_of r (i + of_nat j) = (unat i + j) mod length (rb_buffer r)"
proof -
  obtain k where k: "k < 64" "length (rb_buffer r) = 2 ^ k" using assms by (auto simp: ring_geo_def)
  have "(2::nat) ^ k dvd 2 ^ 64" by (rule le_imp_power_dvd) (use k(1) in simp)
  have "unat (i + of_nat j) = (unat i + j) mod 2 ^ 64"
    by (simp add: unat_word_ariths unat_of_nat mod_simps)
  then show ?thesis
    using \<open>2 ^ k dvd 2 ^ 64\<close> by (simp add: slot_of_mod [OF assms] k(2) mod_mod_cancel)
qed

lemma slot_of_bound: "ring_geo r \<Longrightarrow> slot_of r i < length (rb_buffer r)"
  using slot_of_mod ring_geo_cap(2) by fastforce

text \<open>Different offsets below the capacity have different slots.\<close>

lemma slot_of_inj:
  assumes "ring_geo r" "i < length (rb_buffer r)" "j < length (rb_buffer r)"
  shows "slot_of r (b + of_nat i) = slot_of r (b + of_nat j) \<longleftrightarrow> i = j"
proof
  assume "slot_of r (b + of_nat i) = slot_of r (b + of_nat j)"
  then have eq: "(unat b + i) mod length (rb_buffer r) = (unat b + j) mod length (rb_buffer r)"
    by (simp add: slot_of_add [OF assms(1)])
  show "i = j"
  proof (cases "i \<le> j")
    case True
    then have "length (rb_buffer r) dvd j - i"
      using eq by (metis add_diff_cancel_left add_le_cancel_left mod_eq_dvd_iff_nat)
    with assms True show ?thesis by (metis diff_is_0_eq le_antisym less_imp_diff_less nat_dvd_not_less not_gr_zero)
  next
    case False
    then have "length (rb_buffer r) dvd i - j"
      using eq by (metis add_diff_cancel_left add_le_cancel_left mod_eq_dvd_iff_nat nat_le_linear)
    with assms False show ?thesis by (metis diff_is_0_eq le_antisym less_imp_diff_less nat_dvd_not_less nat_le_linear not_gr_zero)
  qed
qed simp

section \<open>A bounded queue\<close>

text \<open>The slot at an offset from the read index, and the frames in the buffer from there.\<close>

definition slot_at :: "'f ring \<Rightarrow> nat \<Rightarrow> 'f option" where
  "slot_at r i = rb_buffer r ! slot_of r (rb_read r + of_nat i)"

definition ring_frames :: "'f ring \<Rightarrow> 'f list" where
  "ring_frames r = map (\<lambda>i. the (slot_at r i)) [0..<unat (rb_len r)]"

definition ring_inv :: "'f ring \<Rightarrow> bool" where
  "ring_inv r \<longleftrightarrow> ring_geo r \<and> rb_len r \<le> rb_capacity r \<and>
     (\<forall>i < length (rb_buffer r). slot_at r i \<noteq> None \<longleftrightarrow> i < unat (rb_len r))"

text \<open>A history of attempts: the frames that were accepted and the frames that came out.\<close>

datatype 'f queue_op = Push 'f | Pop

fun queue_run ::
    "('f \<Rightarrow> 'q \<Rightarrow> (ring_error + unit) \<times> 'q) \<Rightarrow> ('q \<Rightarrow> 'f option \<times> 'q) \<Rightarrow> 'f queue_op list \<Rightarrow> 'q \<Rightarrow> 'f list \<times> 'f list \<times> 'q" where
  "queue_run push pop [] q = ([], [], q)"
| "queue_run push pop (Push f # ops) q =
     (case push f q of (r, q1) \<Rightarrow>
        (case queue_run push pop ops q1 of (ins, outs, q2) \<Rightarrow> ((case r of Inr _ \<Rightarrow> f # ins | Inl _ \<Rightarrow> ins), outs, q2)))"
| "queue_run push pop (Pop # ops) q =
     (case pop q of (r, q1) \<Rightarrow>
        (case queue_run push pop ops q1 of (ins, outs, q2) \<Rightarrow> (ins, (case r of Some f \<Rightarrow> f # outs | None \<Rightarrow> outs), q2)))"

text \<open>What a bounded queue promises: its contents as a list, and how pushing and popping change it.\<close>

locale bounded_queue =
  fixes push :: "'f \<Rightarrow> 'q \<Rightarrow> (ring_error + unit) \<times> 'q" and pop :: "'q \<Rightarrow> 'f option \<times> 'q"
    and frames :: "'q \<Rightarrow> 'f list" and cap :: "'q \<Rightarrow> nat" and closed :: "'q \<Rightarrow> bool" and inv :: "'q \<Rightarrow> bool"
  assumes push_closed: "inv q \<Longrightarrow> closed q \<Longrightarrow> push f q = (Inl RingClosed, q)"
    and push_full: "inv q \<Longrightarrow> \<not> closed q \<Longrightarrow> length (frames q) = cap q \<Longrightarrow> push f q = (Inl RingFull, q)"
    and push_ok: "inv q \<Longrightarrow> \<not> closed q \<Longrightarrow> length (frames q) < cap q \<Longrightarrow>
      \<exists>q'. push f q = (Inr (), q') \<and> inv q' \<and> frames q' = frames q @ [f] \<and> cap q' = cap q \<and> closed q' = closed q"
    and pop_empty: "inv q \<Longrightarrow> frames q = [] \<Longrightarrow> pop q = (None, q)"
    and pop_ok: "inv q \<Longrightarrow> frames q = f # fs \<Longrightarrow>
      \<exists>q'. pop q = (Some f, q') \<and> inv q' \<and> frames q' = fs \<and> cap q' = cap q \<and> closed q' = closed q"
    and bound: "inv q \<Longrightarrow> length (frames q) \<le> cap q"
begin

lemma push_cases:
  assumes "inv q"
  shows "(closed q \<and> push f q = (Inl RingClosed, q)) \<or>
    (\<not> closed q \<and> length (frames q) = cap q \<and> push f q = (Inl RingFull, q)) \<or>
    (\<exists>q'. \<not> closed q \<and> push f q = (Inr (), q') \<and> inv q' \<and> frames q' = frames q @ [f] \<and> cap q' = cap q \<and> \<not> closed q')"
  using assms push_closed push_full push_ok bound by (metis le_neq_implies_less)

lemma pop_cases:
  assumes "inv q"
  shows "(frames q = [] \<and> pop q = (None, q)) \<or>
    (\<exists>f fs q'. frames q = f # fs \<and> pop q = (Some f, q') \<and> inv q' \<and> frames q' = fs \<and> cap q' = cap q)"
  using assms pop_empty pop_ok by (metis neq_Nil_conv)

text \<open>First in, first out, and never more frames than the capacity.\<close>

lemma run_fifo:
  "inv q \<Longrightarrow> queue_run push pop ops q = (ins, outs, q') \<Longrightarrow>
     frames q @ ins = outs @ frames q' \<and> inv q' \<and> cap q' = cap q"
proof (induction ops arbitrary: q ins outs)
  case (Cons op ops)
  show ?case
  proof (cases op)
    case (Push f)
    with Cons.prems obtain r q1 ins1 where 1: "push f q = (r, q1)" "queue_run push pop ops q1 = (ins1, outs, q')"
      "ins = (case r of Inr _ \<Rightarrow> f # ins1 | Inl _ \<Rightarrow> ins1)"
      by (auto split: prod.splits)
    from push_cases [OF Cons.prems(1), of f] 1(1) Cons.prems(1) have "inv q1" by auto
    from Cons.IH [OF this 1(2)] push_cases [OF Cons.prems(1), of f] 1 show ?thesis by auto
  next
    case Pop
    with Cons.prems obtain r q1 outs1 where 1: "pop q = (r, q1)" "queue_run push pop ops q1 = (ins, outs1, q')"
      "outs = (case r of Some f \<Rightarrow> f # outs1 | None \<Rightarrow> outs1)"
      by (auto split: prod.splits)
    from pop_cases [OF Cons.prems(1)] 1(1) Cons.prems(1) have "inv q1" by auto
    from Cons.IH [OF this 1(2)] pop_cases [OF Cons.prems(1)] 1 show ?thesis by auto
  qed
qed simp

end

subsection \<open>The ring buffer is one\<close>

lemma write_at_len: "rb_write r = rb_read r + of_nat (unat (rb_len r))"
  by (simp add: rb_len_def)

text \<open>A slot written at an offset below the capacity, and the move of the read index by one.\<close>

lemma slot_at_update:
  assumes geo: "ring_geo r" and bounds: "i < length (rb_buffer r)" "j < length (rb_buffer r)"
  shows "slot_at (r\<lparr>rb_buffer := (rb_buffer r)[slot_of r (rb_read r + of_nat j) := x]\<rparr>) i =
    (if i = j then x else slot_at r i)"
  using slot_of_inj [OF geo bounds, of "rb_read r"] slot_of_bound [OF geo]
  by (auto simp: slot_at_def slot_of_def nth_list_update)

lemma slot_at_write [simp]: "slot_at (r\<lparr>rb_write := w\<rparr>) i = slot_at r i"
  by (simp add: slot_at_def slot_of_def)

lemma slot_at_read:
  assumes geo: "ring_geo r" and i: "i < length (rb_buffer r)"
  shows "slot_at (r\<lparr>rb_read := rb_read r + 1\<rparr>) i =
    (if Suc i = length (rb_buffer r) then slot_at r 0 else slot_at r (Suc i))"
proof -
  have "slot_at (r\<lparr>rb_read := rb_read r + 1\<rparr>) i = slot_at r (Suc i)"
    by (simp add: slot_at_def slot_of_def add.assoc)
  moreover have "slot_at r (Suc i) = slot_at r 0" if "Suc i = length (rb_buffer r)"
    unfolding slot_at_def slot_of_add [OF geo] that by simp
  ultimately show ?thesis by simp
qed

lemma geo_updates [simp]:
  "ring_geo (r\<lparr>rb_write := w\<rparr>) = ring_geo r" "ring_geo (r\<lparr>rb_read := w\<rparr>) = ring_geo r"
  "ring_geo (r\<lparr>rb_buffer := (rb_buffer r)[k := x]\<rparr>) = ring_geo r" "ring_geo (r\<lparr>rb_closed := w\<rparr>) = ring_geo r"
  by (simp_all add: ring_geo_def)

lemma ring_len_bound:
  "ring_inv r \<Longrightarrow> unat (rb_len r) \<le> length (rb_buffer r)"
  using ring_geo_cap(1) [of r] by (auto simp: ring_inv_def word_le_nat_alt)

lemma geo_no_wrap: "ring_geo r \<Longrightarrow> n < length (rb_buffer r) \<Longrightarrow> n + 1 < 2 ^ 64"
proof -
  assume "ring_geo r" "n < length (rb_buffer r)"
  then obtain k where k: "k < 64" "length (rb_buffer r) = 2 ^ k" "n < 2 ^ k" by (auto simp: ring_geo_def)
  then have "(2::nat) ^ k \<le> 2 ^ 63" by (intro power_increasing) auto
  with k(3) show ?thesis by simp
qed

lemma ring_frames_length [simp]: "length (ring_frames r) = unat (rb_len r)"
  by (simp add: ring_frames_def)

lemma ring_push_ok:
  assumes inv: "ring_inv r" and "\<not> rb_is_closed r" and room: "unat (rb_len r) < length (rb_buffer r)"
  shows "\<exists>r'. rb_try_push f r = (Inr (), r') \<and> ring_inv r' \<and> ring_frames r' = ring_frames r @ [f] \<and>
    length (rb_buffer r') = length (rb_buffer r) \<and> rb_is_closed r' = rb_is_closed r"
proof -
  let ?l = "unat (rb_len r)"
  let ?b = "r\<lparr>rb_buffer := (rb_buffer r)[slot_of r (rb_read r + of_nat ?l) := Some f]\<rparr>"
  define r' where "r' = ?b\<lparr>rb_write := rb_write r + 1\<rparr>"
  have geo: "ring_geo r" using inv by (simp add: ring_inv_def)
  have "rb_len r' = rb_len r + 1" by (simp add: r'_def rb_len_def)
  moreover have "unat (rb_len r + 1) = ?l + 1"
    using geo_no_wrap [OF geo room] by (simp add: unat_word_ariths)
  ultimately have len: "unat (rb_len r') = Suc ?l" by simp
  have slots: "slot_at r' i = (if i = ?l then Some f else slot_at r i)" if "i < length (rb_buffer r)" for i
    unfolding r'_def slot_at_write by (rule slot_at_update [OF geo that room])
  have cap: "rb_capacity r' = rb_capacity r" "length (rb_buffer r') = length (rb_buffer r)" "ring_geo r'"
    using geo by (simp_all add: r'_def)
  have "rb_len r' \<le> rb_capacity r'"
    using room len by (simp add: word_le_nat_alt cap ring_geo_cap(1) [OF geo])
  moreover have "slot_at r' i \<noteq> None \<longleftrightarrow> i < unat (rb_len r')" if "i < length (rb_buffer r)" for i
    using inv that by (auto simp: slots ring_inv_def len)
  ultimately have "ring_inv r'" using cap by (simp add: ring_inv_def)
  moreover have "ring_frames r' = ring_frames r @ [f]"
    using slots room by (auto simp: ring_frames_def len)
  moreover have "\<not> rb_capacity r \<le> rb_len r"
    using room by (simp add: word_le_nat_alt ring_geo_cap(1) [OF geo])
  then have "rb_try_push f r = (Inr (), r')"
    using assms(2) unfolding rb_try_push_def rb_len_def [symmetric] r'_def Let_def
    by (simp add: write_at_len [of r, symmetric] del: of_nat_unat)
  ultimately show ?thesis using cap by (auto simp: r'_def rb_is_closed_def)
qed

lemma ring_pop_ok:
  assumes inv: "ring_inv r" and fs: "ring_frames r = f # fs"
  shows "\<exists>r'. rb_try_pop r = (Some f, r') \<and> ring_inv r' \<and> ring_frames r' = fs \<and>
    length (rb_buffer r') = length (rb_buffer r) \<and> rb_is_closed r' = rb_is_closed r"
proof -
  let ?l = "unat (rb_len r)" and ?N = "length (rb_buffer r)"
  let ?b = "r\<lparr>rb_buffer := (rb_buffer r)[slot_of r (rb_read r + of_nat 0) := None]\<rparr>"
  define r' where "r' = ?b\<lparr>rb_read := rb_read r + 1\<rparr>"
  have geo: "ring_geo r" "ring_geo ?b" using inv by (simp_all add: ring_inv_def)
  have l: "0 < ?l" using arg_cong [OF fs, of length] by simp
  have N: "0 < ?N" "?l \<le> ?N" using ring_geo_cap(2) [OF geo(1)] ring_len_bound [OF inv] by auto
  have "[0..<?l] = 0 # map Suc [0..<?l - 1]"
    using l by (simp add: map_Suc_upt upt_conv_Cons)
  then have frames_split: "ring_frames r = the (slot_at r 0) # map (\<lambda>i. the (slot_at r (Suc i))) [0..<?l - 1]"
    by (simp add: ring_frames_def comp_def)
  have first: "slot_at r 0 = Some f"
  proof -
    have "the (slot_at r 0) = f" using fs frames_split by simp
    moreover have "slot_at r 0 \<noteq> None" using inv N l by (auto simp: ring_inv_def)
    ultimately show ?thesis by auto
  qed
  have "rb_len r' = rb_len r - 1" by (simp add: r'_def rb_len_def)
  moreover have "unat (rb_len r - 1) = ?l - 1"
    using l by (intro unat_minus_one) auto
  ultimately have len: "unat (rb_len r') = ?l - 1" by simp
  have slots: "slot_at r' i = (if Suc i = ?N then None else slot_at r (Suc i))" if i: "i < ?N" for i
    using slot_at_read [OF geo(2), of i] slot_at_update [OF geo(1) _ N(1), of "Suc i" None]
      slot_at_update [OF geo(1) N(1) N(1), of None] i
    by (auto simp: r'_def)
  have cap: "rb_capacity r' = rb_capacity r" "length (rb_buffer r') = ?N" "ring_geo r'"
    using geo by (simp_all add: r'_def)
  have "rb_len r' \<le> rb_capacity r'"
    using N len by (simp add: word_le_nat_alt cap ring_geo_cap(1) [OF geo(1)])
  moreover have "slot_at r' i \<noteq> None \<longleftrightarrow> i < unat (rb_len r')" if "i < ?N" for i
    using inv that N(2) by (auto simp: slots ring_inv_def len)
  ultimately have "ring_inv r'" using cap by (simp add: ring_inv_def)
  moreover have "ring_frames r' = fs"
  proof -
    have "map (\<lambda>i. the (slot_at r (Suc i))) [0..<?l - 1] = fs"
      using fs unfolding frames_split by simp
    moreover have "slot_at r' i = slot_at r (Suc i)" if "i < ?l - 1" for i
      using that N slots [of i] by auto
    ultimately show ?thesis by (auto simp: ring_frames_def len)
  qed
  moreover have "rb_try_pop r = (Some f, r')"
    using first l by (auto simp: rb_try_pop_def r'_def slot_at_def Let_def rb_len_def)
  ultimately show ?thesis using cap by (auto simp: r'_def rb_is_closed_def)
qed

interpretation ring: bounded_queue rb_try_push rb_try_pop ring_frames "\<lambda>r. length (rb_buffer r)" rb_is_closed ring_inv
proof (unfold_locales, goal_cases)
  case (1 q f)
  then show ?case by (simp add: rb_try_push_def)
next
  case (2 q f)
  then show ?case
    by (auto simp: rb_try_push_def Let_def ring_inv_def word_le_nat_alt ring_geo_cap(1) rb_len_def)
next
  case (3 q f)
  then show ?case using ring_push_ok by fastforce
next
  case (4 q)
  have "unat (rb_len q) = 0" using arg_cong [OF 4(2), of length] by simp
  then have "rb_len q = 0" by (simp only: unat_eq_zero)
  then show ?case by (simp add: rb_try_pop_def rb_len_def Let_def)
next
  case (5 q f fs)
  then show ?case by (intro ring_pop_ok)
next
  case (6 q)
  then show ?case by (simp add: ring_len_bound)
qed

lemma ring_new_ok:
  assumes "ring_new n = Some r"
  shows "ring_inv r \<and> ring_frames r = [] \<and> length (rb_buffer r) = next_power_of_two n \<and> \<not> rb_is_closed r"
proof -
  let ?c = "next_power_of_two n"
  have n: "0 < n" "n \<le> 2 ^ 63" and r: "r = \<lparr> rb_buffer = replicate ?c None, rb_capacity = of_nat ?c,
      rb_mask = of_nat ?c - 1, rb_write = 0, rb_read = 0, rb_closed = 0 \<rparr>"
    using assms by (auto simp: ring_new_def Let_def split: if_splits)
  obtain k where k: "?c = 2 ^ k" "?c < 2 * n" using next_power_of_two_bounds [of n] n(1) by auto
  then have "(2::nat) ^ k < 2 ^ 64" using n(2) by simp
  then have "k < 64" using power_less_imp_less_exp [of "2::nat" k 64] by simp
  then have "ring_geo r" using k(1) by (auto simp: ring_geo_def r)
  moreover have len: "rb_len r = 0" by (simp add: rb_len_def r)
  moreover have "slot_at r i = None" for i
    using slot_of_bound [OF \<open>ring_geo r\<close>] by (simp add: slot_at_def r)
  ultimately show ?thesis
    by (simp add: ring_inv_def ring_frames_def rb_is_closed_def) (simp add: r)
qed

lemma queue_run_closed:
  "queue_run rb_try_push rb_try_pop ops r = (ins, outs, r') \<Longrightarrow> \<not> rb_is_closed r \<Longrightarrow> \<not> rb_is_closed r'"
proof (induction ops arbitrary: r ins outs)
  case (Cons op ops)
  have keep: "rb_is_closed (snd (rb_try_push f r)) = rb_is_closed r" "rb_is_closed (snd (rb_try_pop r)) = rb_is_closed r" for f
    by (simp_all add: rb_try_push_def rb_try_pop_def rb_is_closed_def Let_def)
  show ?case
  proof (cases op)
    case (Push f)
    with Cons.prems Cons.IH [of "snd (rb_try_push f r)"] keep show ?thesis by (auto split: prod.splits)
  next
    case Pop
    with Cons.prems Cons.IH [of "snd (rb_try_pop r)"] keep show ?thesis by (auto split: prod.splits)
  qed
qed simp

text \<open>A clone has the indices of the buffer but not its frames: popping from it yields nothing and still moves
  the read index, so that the frame is lost to both.\<close>

lemma clone_loses_frame:
  assumes inv: "ring_inv r" and some: "ring_frames r \<noteq> []"
  shows "rb_try_pop (rb_clone r) = (None, (rb_clone r)\<lparr>rb_read := rb_read r + 1\<rparr>)"
proof -
  have "unat (rb_len r) \<noteq> 0" using some by (metis length_0_conv ring_frames_length)
  then have "rb_read r \<noteq> rb_write r" by (auto simp: rb_len_def)
  moreover have "slot_of r (rb_read r) < unat (rb_capacity r)"
    using inv slot_of_bound ring_geo_cap(1) by (metis ring_inv_def)
  then have "slot_of (rb_clone r) (rb_read r) < unat (rb_capacity r)"
    by (simp add: slot_of_def rb_clone_def)
  ultimately show ?thesis
    by (auto simp: rb_try_pop_def rb_clone_def Let_def list_update_same_conv)
qed

section \<open>One pushing and one popping thread\<close>

text \<open>
  The loads and stores of \<open>try_push\<close> and \<open>try_pop\<close> as separate steps of two threads on the shared buffer. A push
  is three steps: it decides with the indices it loads that there is room, writes its slot, and publishes the
  write index; a pop decides that there is a frame, takes the slot, and publishes the read index. Attempts
  that find the buffer full, closed or empty change nothing and need no step. The lists record the frames
  that were pushed and popped, in the order in which the indices were published.
\<close>

datatype 'f pusher = PIdle | PWrite u64 'f | PPublish u64 'f
datatype 'f popper = CIdle | CTake u64 | CPublish u64 "'f option"

record 'f spsc =
  sp_ring :: "'f ring"
  sp_push :: "'f pusher"
  sp_pop :: "'f popper"
  sp_in :: "'f list"
  sp_out :: "'f option list"

inductive spsc_step :: "'f spsc \<Rightarrow> 'f spsc \<Rightarrow> bool" where
  push_decide: "sp_push s = PIdle \<Longrightarrow> r = sp_ring s \<Longrightarrow> \<not> rb_is_closed r \<Longrightarrow> \<not> rb_write r - rb_read r \<ge> rb_capacity r \<Longrightarrow>
     spsc_step s (s\<lparr>sp_push := PWrite (rb_write r) f\<rparr>)"
| push_write: "sp_push s = PWrite w f \<Longrightarrow> r = sp_ring s \<Longrightarrow>
     spsc_step s (s\<lparr>sp_push := PPublish w f, sp_ring := r\<lparr>rb_buffer := (rb_buffer r)[slot_of r w := Some f]\<rparr>\<rparr>)"
| push_publish: "sp_push s = PPublish w f \<Longrightarrow>
     spsc_step s (s\<lparr>sp_push := PIdle, sp_ring := (sp_ring s)\<lparr>rb_write := w + 1\<rparr>, sp_in := sp_in s @ [f]\<rparr>)"
| pop_decide: "sp_pop s = CIdle \<Longrightarrow> r = sp_ring s \<Longrightarrow> rb_read r \<noteq> rb_write r \<Longrightarrow>
     spsc_step s (s\<lparr>sp_pop := CTake (rb_read r)\<rparr>)"
| pop_take: "sp_pop s = CTake i \<Longrightarrow> r = sp_ring s \<Longrightarrow>
     spsc_step s (s\<lparr>sp_pop := CPublish i (rb_buffer r ! slot_of r i),
       sp_ring := r\<lparr>rb_buffer := (rb_buffer r)[slot_of r i := None]\<rparr>\<rparr>)"
| pop_publish: "sp_pop s = CPublish i x \<Longrightarrow>
     spsc_step s (s\<lparr>sp_pop := CIdle, sp_ring := (sp_ring s)\<lparr>rb_read := i + 1\<rparr>, sp_out := sp_out s @ [x]\<rparr>)"
| close: "spsc_step s (s\<lparr>sp_ring := rb_close (sp_ring s)\<rparr>)"

text \<open>The frames between the published indices, with those a thread has in hand: the first one may have been
  taken from its slot but not be published, and one more may have been written but not be published.\<close>

definition spsc_at :: "'f spsc \<Rightarrow> 'f list \<Rightarrow> bool" where
  "spsc_at s q \<longleftrightarrow>
     ring_geo (sp_ring s) \<and> length q = unat (rb_len (sp_ring s)) \<and> length q \<le> length (rb_buffer (sp_ring s)) \<and>
     map Some (sp_in s) = sp_out s @ map Some q \<and>
     (\<forall>i < length q. (i = 0 \<and> (\<exists>w x. sp_pop s = CPublish w x)) \<or> slot_at (sp_ring s) i = Some (q ! i)) \<and>
     (case sp_push s of
        PIdle \<Rightarrow> True
      | PWrite w f \<Rightarrow> w = rb_write (sp_ring s) \<and> length q < length (rb_buffer (sp_ring s))
      | PPublish w f \<Rightarrow> w = rb_write (sp_ring s) \<and> length q < length (rb_buffer (sp_ring s)) \<and>
          slot_at (sp_ring s) (length q) = Some f) \<and>
     (case sp_pop s of
        CIdle \<Rightarrow> True
      | CTake i \<Rightarrow> i = rb_read (sp_ring s) \<and> q \<noteq> []
      | CPublish i x \<Rightarrow> i = rb_read (sp_ring s) \<and> q \<noteq> [] \<and> x = Some (q ! 0))"

lemma len_updates [simp]:
  "rb_len (r\<lparr>rb_buffer := b\<rparr>) = rb_len r" "rb_len (r\<lparr>rb_closed := c\<rparr>) = rb_len r"
  by (simp_all add: rb_len_def)

lemma slot_at_closed [simp]: "slot_at (r\<lparr>rb_closed := c\<rparr>) i = slot_at r i"
  by (simp add: slot_at_def slot_of_def)

lemma spsc_write_slot: "spsc_at s q \<Longrightarrow> rb_write (sp_ring s) = rb_read (sp_ring s) + of_nat (length q)"
  using write_at_len [of "sp_ring s"] by (simp add: spsc_at_def)

lemma spsc_push_write:
  assumes at: "spsc_at s q" and pc: "sp_push s = PWrite w f"
  shows "spsc_at (s\<lparr>sp_push := PPublish w f,
    sp_ring := (sp_ring s)\<lparr>rb_buffer := (rb_buffer (sp_ring s))[slot_of (sp_ring s) w := Some f]\<rparr>\<rparr>) q"
proof -
  have w: "w = rb_read (sp_ring s) + of_nat (length q)" "length q < length (rb_buffer (sp_ring s))" "ring_geo (sp_ring s)"
    using at pc spsc_write_slot [OF at] by (auto simp: spsc_at_def)
  note upd = slot_at_update [OF w(3) _ w(2), of _ "Some f", folded w(1)]
  show ?thesis using at pc w(2) upd by (auto simp: spsc_at_def split: popper.splits)
qed

lemma spsc_push_publish:
  assumes at: "spsc_at s q" and pc: "sp_push s = PPublish w f"
  shows "spsc_at (s\<lparr>sp_push := PIdle, sp_ring := (sp_ring s)\<lparr>rb_write := w + 1\<rparr>, sp_in := sp_in s @ [f]\<rparr>) (q @ [f])"
proof -
  have w: "w = rb_write (sp_ring s)" "length q < length (rb_buffer (sp_ring s))" "ring_geo (sp_ring s)"
    "slot_at (sp_ring s) (length q) = Some f" "length q = unat (rb_len (sp_ring s))"
    using at pc by (auto simp: spsc_at_def)
  have "rb_len ((sp_ring s)\<lparr>rb_write := w + 1\<rparr>) = rb_len (sp_ring s) + 1" by (simp add: rb_len_def w(1))
  then have "unat (rb_len ((sp_ring s)\<lparr>rb_write := w + 1\<rparr>)) = Suc (length q)"
    using geo_no_wrap [OF w(3,2)] by (simp add: unat_word_ariths w(5))
  then show ?thesis
    using at pc w by (auto simp: spsc_at_def nth_append less_Suc_eq split: popper.splits)
qed

lemma spsc_pop_take:
  assumes at: "spsc_at s q" and pc: "sp_pop s = CTake i"
  shows "spsc_at (s\<lparr>sp_pop := CPublish i (rb_buffer (sp_ring s) ! slot_of (sp_ring s) i),
    sp_ring := (sp_ring s)\<lparr>rb_buffer := (rb_buffer (sp_ring s))[slot_of (sp_ring s) i := None]\<rparr>\<rparr>) q"
proof -
  have q: "q \<noteq> []" using at pc by (simp add: spsc_at_def)
  then have pos: "0 < length q" by simp
  then have i: "i = rb_read (sp_ring s) + of_nat 0" "0 < length q" "ring_geo (sp_ring s)"
    "0 < length (rb_buffer (sp_ring s))" "slot_at (sp_ring s) 0 = Some (q ! 0)"
    using at pc unfolding spsc_at_def by (simp, simp, simp, linarith, simp)
  have x: "rb_buffer (sp_ring s) ! slot_of (sp_ring s) i = Some (q ! 0)"
    using i(5) by (simp add: slot_at_def i(1))
  note upd = slot_at_update [OF i(3) _ i(4), of _ None, folded i(1)]
  show ?thesis using at pc i(2) upd x by (auto simp: spsc_at_def i(1) split: pusher.splits)
qed

lemma spsc_pop_publish:
  assumes at: "spsc_at s q" and pc: "sp_pop s = CPublish i x"
  shows "spsc_at (s\<lparr>sp_pop := CIdle, sp_ring := (sp_ring s)\<lparr>rb_read := i + 1\<rparr>, sp_out := sp_out s @ [x]\<rparr>) (tl q)"
proof -
  let ?r = "(sp_ring s)\<lparr>rb_read := i + 1\<rparr>"
  have i: "i = rb_read (sp_ring s)" "q \<noteq> []" "x = Some (q ! 0)" "ring_geo (sp_ring s)"
    "length q = unat (rb_len (sp_ring s))" "length q \<le> length (rb_buffer (sp_ring s))"
    using at pc by (auto simp: spsc_at_def)
  have "rb_len ?r = rb_len (sp_ring s) - 1" by (simp add: rb_len_def i(1))
  moreover have "rb_len (sp_ring s) \<noteq> 0" using i(2,5) by auto
  ultimately have len: "unat (rb_len ?r) = length q - 1" by (simp add: unat_minus_one i(5))
  have slot: "slot_at ?r j = slot_at (sp_ring s) (Suc j)" if "Suc j < length (rb_buffer (sp_ring s))" for j
    using slot_at_read [OF i(4), of j] that by (simp add: i(1))
  have hist: "map Some (sp_in s) = sp_out s @ x # map Some (tl q)"
    using at i(2,3) by (cases q) (auto simp: spsc_at_def)
  have kept: "slot_at ?r j = Some (tl q ! j)" if "j < length (tl q)" for j
  proof -
    have "Suc j < length q" using that by simp
    then have "slot_at (sp_ring s) (Suc j) = Some (q ! Suc j)" using at by (auto simp: spsc_at_def)
    then show ?thesis using slot [of j] \<open>Suc j < length q\<close> i(6) by (simp add: nth_tl that)
  qed
  have last: "slot_at ?r (length (tl q)) = slot_at (sp_ring s) (length q)" if "length q < length (rb_buffer (sp_ring s))"
    using slot [of "length (tl q)"] that i(2) by simp
  have push: "case sp_push s of
      PIdle \<Rightarrow> True
    | PWrite w f \<Rightarrow> w = rb_write ?r \<and> length (tl q) < length (rb_buffer ?r)
    | PPublish w f \<Rightarrow> w = rb_write ?r \<and> length (tl q) < length (rb_buffer ?r) \<and> slot_at ?r (length (tl q)) = Some f"
    using at last by (auto simp: spsc_at_def split: pusher.splits)
  show ?thesis
    unfolding spsc_at_def using i(4,6) len hist kept push by (auto split: pusher.splits)
qed

lemma spsc_step_inv:
  assumes "spsc_step s s'" "spsc_at s q"
  shows "\<exists>q'. spsc_at s' q'"
  using assms
proof (cases rule: spsc_step.cases)
  case (push_decide r f)
  with assms(2) have "spsc_at s' q"
    by (auto simp: spsc_at_def rb_len_def word_le_nat_alt ring_geo_cap(1) split: popper.splits)
  then show ?thesis ..
next
  case (pop_decide r)
  then have "rb_len r \<noteq> 0" by (simp add: rb_len_def)
  with pop_decide assms(2) have "spsc_at s' q"
    by (auto simp: spsc_at_def unat_eq_zero split: pusher.splits)
  then show ?thesis ..
next
  case close
  with assms(2) have "spsc_at s' q"
    by (auto simp: spsc_at_def rb_close_def split: pusher.splits popper.splits)
  then show ?thesis ..
next
  case (push_write w f r)
  with spsc_push_write [OF assms(2)] show ?thesis by blast
next
  case (push_publish w f)
  with spsc_push_publish [OF assms(2)] show ?thesis by blast
next
  case (pop_take i r)
  with spsc_pop_take [OF assms(2)] show ?thesis by blast
next
  case (pop_publish i x)
  with spsc_pop_publish [OF assms(2)] show ?thesis by blast
qed

lemma spsc_run_inv: "spsc_step\<^sup>*\<^sup>* s s' \<Longrightarrow> spsc_at s q \<Longrightarrow> \<exists>q'. spsc_at s' q'"
  by (induction rule: rtranclp_induct) (blast dest: spsc_step_inv)+

lemma spsc_step_size:
  "spsc_step s s' \<Longrightarrow> length (rb_buffer (sp_ring s')) = length (rb_buffer (sp_ring s))"
  by (induction rule: spsc_step.induct) (auto simp: rb_close_def)

section \<open>Properties\<close>

text \<open>C34: frames pass between two threads in order. In every interleaving of the loads and stores of one pushing
  and one popping thread on a new buffer, and whatever index wraps around, the frames popped so far are the
  first of the frames pushed so far, each one once, and no pop of a non-empty buffer comes back without a
  frame; the rest is in the buffer and never exceeds its capacity.\<close>

theorem ring_spsc_fifo:
  assumes new: "ring_new n = Some r"
    and start: "sp_ring s = r\<lparr>rb_read := i, rb_write := i\<rparr>" "sp_push s = PIdle" "sp_pop s = CIdle" "sp_in s = []" "sp_out s = []"
    and run: "spsc_step\<^sup>*\<^sup>* s s'"
  shows "\<exists>rest. map Some (sp_in s') = sp_out s' @ map Some rest \<and>
    length rest = unat (rb_len (sp_ring s')) \<and> length rest \<le> next_power_of_two n"
proof -
  have r: "ring_geo r" "length (rb_buffer r) = next_power_of_two n" using ring_new_ok [OF new] by (auto simp: ring_inv_def)
  have "spsc_at s []" using r start by (simp add: spsc_at_def rb_len_def)
  from spsc_run_inv [OF run this] obtain q where q: "spsc_at s' q" ..
  have "length (rb_buffer (sp_ring s')) = length (rb_buffer (sp_ring s))"
    using run by (induction rule: rtranclp_induct) (simp_all add: spsc_step_size)
  with q r start show ?thesis by (auto simp: spsc_at_def)
qed

definition demo_ring :: "string ring" where
  "demo_ring = \<lparr> rb_buffer = [None], rb_capacity = 1, rb_mask = 0, rb_write = 0, rb_read = 0, rb_closed = 0 \<rparr>"

lemma demo_ring_new: "ring_new 1 = Some demo_ring"
  by (simp add: ring_new_def demo_ring_def next_power_of_two.simps)

text \<open>One frame goes through a buffer with one slot while the indices wrap around.\<close>

theorem ring_spsc_fifo_witness:
  "\<exists>(s' :: string spsc) rest. sp_in s' = [''a''] \<and> sp_out s' = [Some ''a''] \<and> rb_read (sp_ring s') = 0 \<and>
     map Some (sp_in s') = sp_out s' @ map Some rest"
proof -
  define s where "s = \<lparr> sp_ring = demo_ring\<lparr>rb_read := - 1, rb_write := - 1\<rparr>, sp_push = PIdle, sp_pop = CIdle,
    sp_in = [], sp_out = [] \<rparr>"
  define a where "a = s\<lparr>sp_push := PWrite (- 1) ''a''\<rparr>"
  define b where "b = a\<lparr>sp_push := PPublish (- 1) ''a'', sp_ring := (sp_ring a)\<lparr>rb_buffer := [Some ''a'']\<rparr>\<rparr>"
  define c where "c = b\<lparr>sp_push := PIdle, sp_ring := (sp_ring b)\<lparr>rb_write := 0\<rparr>, sp_in := [''a'']\<rparr>"
  define d where "d = c\<lparr>sp_pop := CTake (- 1)\<rparr>"
  define e where "e = d\<lparr>sp_pop := CPublish (- 1) (Some ''a''), sp_ring := (sp_ring d)\<lparr>rb_buffer := [None]\<rparr>\<rparr>"
  define f where "f = e\<lparr>sp_pop := CIdle, sp_ring := (sp_ring e)\<lparr>rb_read := 0\<rparr>, sp_out := [Some ''a'']\<rparr>"
  note defs = s_def a_def b_def c_def d_def e_def f_def demo_ring_def
  have st1: "spsc_step s a" using push_decide [of s "sp_ring s" "''a''"] by (simp add: defs rb_is_closed_def)
  have st2: "spsc_step a b" using push_write [of a "- 1" "''a''" "sp_ring a"] by (simp add: defs slot_of_def)
  have st3: "spsc_step b c" using push_publish [of b "- 1" "''a''"] by (simp add: defs)
  have st4: "spsc_step c d" using pop_decide [of c "sp_ring c"] by (simp add: defs)
  have st5: "spsc_step d e" using pop_take [of d "- 1" "sp_ring d"] by (simp add: defs slot_of_def)
  have st6: "spsc_step e f" using pop_publish [of e "- 1" "Some ''a''"] by (simp add: defs)
  have run: "spsc_step\<^sup>*\<^sup>* s f"
    by (rule converse_rtranclp_into_rtranclp [where r = spsc_step, OF st1], rule converse_rtranclp_into_rtranclp [where r = spsc_step, OF st2],
        rule converse_rtranclp_into_rtranclp [where r = spsc_step, OF st3], rule converse_rtranclp_into_rtranclp [where r = spsc_step, OF st4],
        rule converse_rtranclp_into_rtranclp [where r = spsc_step, OF st5], rule r_into_rtranclp [where r = spsc_step, OF st6])
  from ring_spsc_fifo [OF demo_ring_new _ _ _ _ _ run, of "- 1"]
  obtain rest where "map Some (sp_in f) = sp_out f @ map Some rest" by (auto simp: s_def)
  moreover have "sp_in f = [''a'']" "sp_out f = [Some ''a'']" "rb_read (sp_ring f) = 0" by (simp_all add: defs)
  ultimately show ?thesis by blast
qed

text \<open>the buffer is a bounded queue. For every sequence of pushes and pops of a new buffer, the accepted
  frames are the popped ones followed by those still in the buffer, in order; a push is refused exactly when
  the buffer holds as many frames as the power of two its capacity was rounded up to.\<close>

theorem ring_is_bounded_queue:
  assumes new: "ring_new n = Some r" and run: "queue_run rb_try_push rb_try_pop ops r = (ins, outs, r')"
  shows "ins = outs @ ring_frames r' \<and> length (ring_frames r') \<le> next_power_of_two n \<and>
    (fst (rb_try_push f r') = Inl RingFull \<longleftrightarrow> length (ring_frames r') = next_power_of_two n) \<and>
    (fst (rb_try_pop r') = None \<longleftrightarrow> ring_frames r' = []) \<and> rb_is_full r' = (length (ring_frames r') = next_power_of_two n)"
proof -
  have r: "ring_inv r" "ring_frames r = []" "length (rb_buffer r) = next_power_of_two n" "\<not> rb_is_closed r"
    using ring_new_ok [OF new] by auto
  from ring.run_fifo [OF r(1) run] r have r': "ins = outs @ ring_frames r'" "ring_inv r'"
    "length (rb_buffer r') = next_power_of_two n" by auto
  have "\<not> rb_is_closed r'"
    using run r(4) by (rule queue_run_closed)
  note bound = ring.bound [OF r'(2)]
  have "fst (rb_try_push f r') = Inl RingFull \<longleftrightarrow> length (ring_frames r') = next_power_of_two n"
  proof (cases "length (ring_frames r') = length (rb_buffer r')")
    case True
    with ring.push_full [OF r'(2) \<open>\<not> rb_is_closed r'\<close>] r'(3) show ?thesis by simp
  next
    case False
    with bound ring.push_ok [OF r'(2) \<open>\<not> rb_is_closed r'\<close>, of f] r'(3) show ?thesis by auto
  qed
  moreover have "fst (rb_try_pop r') = None \<longleftrightarrow> ring_frames r' = []" "length (ring_frames r') \<le> next_power_of_two n"
    using ring.pop_cases [OF r'(2)] bound r'(3) by auto
  moreover have "rb_is_full r' = (length (ring_frames r') = next_power_of_two n)"
    using ring_geo_cap(1) [of r'] r' by (auto simp: rb_is_full_def ring_inv_def word_unat_eq_iff)
  ultimately show ?thesis using r'(1) by blast
qed

theorem ring_is_bounded_queue_witness:
  "\<exists>r' :: string ring. queue_run rb_try_push rb_try_pop [Push ''a'', Push ''b'', Pop, Push ''c''] demo_ring =
       ([''a'', ''c''], [''a''], r') \<and> fst (rb_try_push ''d'' r') = Inl RingFull"
proof -
  define r :: "string ring" where "r = demo_ring\<lparr>rb_buffer := [Some ''c''], rb_read := 1, rb_write := 2\<rparr>"
  have run: "queue_run rb_try_push rb_try_pop [Push ''a'', Push ''b'', Pop, Push ''c''] demo_ring = ([''a'', ''c''], [''a''], r)"
    by (simp add: r_def demo_ring_def rb_try_push_def rb_try_pop_def rb_is_closed_def slot_of_def)
  have "unat (rb_len r) = 1" by (simp add: r_def rb_len_def demo_ring_def)
  with ring_is_bounded_queue [OF demo_ring_new run, of "''d''"] have "fst (rb_try_push ''d'' r) = Inl RingFull"
    by (simp add: next_power_of_two.simps)
  with run show ?thesis by blast
qed

end
