(* ===== verification/Rgb_Yuv.thy ===== *)
theory Rgb_Yuv
  imports RF_Prelude
begin

unbundle bit_operations_syntax

text \<open>
  \<open>video/simd\<close> of the media crate: conversion of RGB frames to planar and semi-planar YUV, in the scalar
  reference version (\<open>scalar.rs\<close>) and the two vector versions (\<open>avx2.rs\<close>, \<open>neon.rs\<close>). Planes are lists of bytes
  that the loops update in place; the 32-bit intermediate values are integers, whose bounds are proved (the
  sums of a block are positive, so that the truncating division by four is \<open>div\<close>). The
  AVX2 intrinsics are modelled as operations on lanes. Sizes are natural numbers: the products of width and
  height are taken to fit \<open>usize\<close>.

  The vector versions agree with the reference on the luma plane; their chroma values round instead of
  truncating and so may be larger by one.
\<close>

section \<open>Pixels\<close>

definition luma :: "int \<Rightarrow> int \<Rightarrow> int \<Rightarrow> int" where
  "luma r g b = (77 * r + 150 * g + 29 * b + 128) div 256"

definition chroma_u :: "int \<Rightarrow> int \<Rightarrow> int \<Rightarrow> int" where
  "chroma_u r g b = (- 43 * r + - 85 * g + 128 * b + 128) div 256 + 128"

definition chroma_v :: "int \<Rightarrow> int \<Rightarrow> int \<Rightarrow> int" where
  "chroma_v r g b = (128 * r + - 107 * g + - 21 * b + 128) div 256 + 128"

text \<open>\<open>v.clamp(0, 255) as u8\<close>\<close>

definition clamp_u8 :: "int \<Rightarrow> u8" where
  "clamp_u8 v = word_of_int (max 0 (min 255 v))"

text \<open>The pixel at an offset of the RGB bytes, and a function of it.\<close>

definition at_pixel :: "u8 list \<Rightarrow> nat \<Rightarrow> (int \<Rightarrow> int \<Rightarrow> int \<Rightarrow> int) \<Rightarrow> int" where
  "at_pixel rgb off f = f (uint (rgb ! off)) (uint (rgb ! (off + 1))) (uint (rgb ! (off + 2)))"

section \<open>The scalar version\<close>

text \<open>The four pixels of a block, in the order of the loops.\<close>

definition block_pixels :: "nat \<Rightarrow> nat \<Rightarrow> (nat \<times> nat) list" where
  "block_pixels by bx = [(by * 2 + dy, bx * 2 + dx). dy \<leftarrow> [0, 1], dx \<leftarrow> [0, 1]]"

definition blocks :: "nat \<Rightarrow> nat \<Rightarrow> (nat \<times> nat) list" where
  "blocks w h = [(by, bx). by \<leftarrow> [0..<h div 2], bx \<leftarrow> [0..<w div 2]]"

definition scalar_pixel ::
    "u8 list \<Rightarrow> nat \<Rightarrow> nat \<times> nat \<Rightarrow> u8 list \<times> int list \<times> int list \<Rightarrow> u8 list \<times> int list \<times> int list" where
  "scalar_pixel rgb w = (\<lambda>(y, x) (yp, us, vs).
     let off = (y * w + x) * 3;
         i = (y AND 1) * 2 OR (x AND 1)
     in (yp[y * w + x := clamp_u8 (at_pixel rgb off luma)],
         us[i := us ! i + at_pixel rgb off chroma_u], vs[i := vs ! i + at_pixel rgb off chroma_v]))"

text \<open>The luma plane after a block, and the sums of its chroma samples.\<close>

definition scalar_block :: "u8 list \<Rightarrow> nat \<Rightarrow> nat \<Rightarrow> nat \<Rightarrow> u8 list \<Rightarrow> u8 list \<times> int list \<times> int list" where
  "scalar_block rgb w by bx yp = fold (scalar_pixel rgb w) (block_pixels by bx) (yp, [0, 0, 0, 0], [0, 0, 0, 0])"

definition rgb_to_yuv420p_scalar ::
    "u8 list \<Rightarrow> nat \<Rightarrow> nat \<Rightarrow> u8 list \<times> u8 list \<times> u8 list \<Rightarrow> u8 list \<times> u8 list \<times> u8 list" where
  "rgb_to_yuv420p_scalar rgb w h =
     fold (\<lambda>(by, bx) (yp, up, vp).
       case scalar_block rgb w by bx yp of (yp, us, vs) \<Rightarrow>
         let off = by * (w div 2) + bx
         in (yp, up[off := clamp_u8 (sum_list us div 4)], vp[off := clamp_u8 (sum_list vs div 4)]))
       (blocks w h)"

definition rgb_to_nv12_scalar :: "u8 list \<Rightarrow> nat \<Rightarrow> nat \<Rightarrow> u8 list \<times> u8 list \<Rightarrow> u8 list \<times> u8 list" where
  "rgb_to_nv12_scalar rgb w h =
     fold (\<lambda>(by, bx) (yp, uvp).
       case scalar_block rgb w by bx yp of (yp, us, vs) \<Rightarrow>
         let off = (by * (w div 2) + bx) * 2
         in (yp, uvp[off := clamp_u8 (sum_list us div 4), off + 1 := clamp_u8 (sum_list vs div 4)]))
       (blocks w h)"

section \<open>The AVX2 version\<close>

text \<open>Lanes of 32 bits: products and sums keep the low 32 bits, read as signed.\<close>

definition wrap32 :: "int \<Rightarrow> int" where
  "wrap32 v = (v + 2 ^ 31) mod 2 ^ 32 - 2 ^ 31"

definition mullo_epi32 :: "int list \<Rightarrow> int list \<Rightarrow> int list" where
  "mullo_epi32 a b = map2 (\<lambda>x y. wrap32 (x * y)) a b"

definition add_epi32 :: "int list \<Rightarrow> int list \<Rightarrow> int list" where
  "add_epi32 a b = map2 (\<lambda>x y. wrap32 (x + y)) a b"

definition set1_epi32 :: "int \<Rightarrow> int list" where
  "set1_epi32 v = replicate 8 v"

definition srai_epi32 :: "int list \<Rightarrow> nat \<Rightarrow> int list" where
  "srai_epi32 a n = map (\<lambda>x. x div 2 ^ n) a"

definition sat_i16 :: "int \<Rightarrow> int" where
  "sat_i16 v = max (- 32768) (min 32767 v)"

definition sat_u8 :: "int \<Rightarrow> u8" where
  "sat_u8 v = word_of_int (max 0 (min 255 v))"

text \<open>The pack instructions work on each half of the register.\<close>

definition packs_epi32 :: "int list \<Rightarrow> int list \<Rightarrow> int list" where
  "packs_epi32 a b =
     map sat_i16 (take 4 a) @ map sat_i16 (take 4 b) @ map sat_i16 (drop 4 a) @ map sat_i16 (drop 4 b)"

definition packus_epi16 :: "int list \<Rightarrow> int list \<Rightarrow> u8 list" where
  "packus_epi16 a b =
     map sat_u8 (take 8 a) @ map sat_u8 (take 8 b) @ map sat_u8 (drop 8 a) @ map sat_u8 (drop 8 b)"

definition slli_si128 :: "u8 list \<Rightarrow> nat \<Rightarrow> u8 list" where
  "slli_si128 a n = replicate n 0 @ take (16 - n) a"

definition or_si128 :: "u8 list \<Rightarrow> u8 list \<Rightarrow> u8 list" where
  "or_si128 a b = map2 (OR) a b"

definition load_rgb_values :: "u8 list \<Rightarrow> nat \<Rightarrow> int list \<times> int list \<times> int list" where
  "load_rgb_values rgb p =
     (map (\<lambda>i. uint (rgb ! (p + i * 3))) [0..<8], map (\<lambda>i. uint (rgb ! (p + i * 3 + 1))) [0..<8],
      map (\<lambda>i. uint (rgb ! (p + i * 3 + 2))) [0..<8])"

definition rgb8_to_y_avx2 :: "int list \<Rightarrow> int list \<Rightarrow> int list \<Rightarrow> int list" where
  "rgb8_to_y_avx2 r g b =
     (let r_contrib = mullo_epi32 r (set1_epi32 77);
          g_contrib = mullo_epi32 g (set1_epi32 150);
          b_contrib = mullo_epi32 b (set1_epi32 29);
          y_sum = add_epi32 (add_epi32 r_contrib g_contrib) b_contrib;
          y_rounded = add_epi32 y_sum (set1_epi32 128)
      in srai_epi32 y_rounded 8)"

definition pack_and_clamp_epi32 :: "int list \<Rightarrow> u8 list" where
  "pack_and_clamp_epi32 v =
     (let zero = replicate 8 0;
          clamped = map2 min (map2 max v zero) (set1_epi32 255);
          packed16 = packs_epi32 clamped zero;
          packed8 = packus_epi16 packed16 (replicate 16 0);
          lo = take 16 packed8;
          hi = drop 16 packed8
      in or_si128 lo (slli_si128 hi 4))"

text \<open>\<open>_mm_storel_epi64\<close>: the low eight bytes, at an offset of the plane.\<close>

definition store8 :: "u8 list \<Rightarrow> nat \<Rightarrow> u8 list \<Rightarrow> u8 list" where
  "store8 p off v = take off p @ take 8 v @ drop (off + 8) p"

function avx2_row :: "u8 list \<Rightarrow> nat \<Rightarrow> nat \<Rightarrow> nat \<Rightarrow> u8 list \<Rightarrow> nat \<times> u8 list" where
  "avx2_row rgb w y x p =
     (if x < w - w mod 8
      then case load_rgb_values rgb (y * w * 3 + x * 3) of (r, g, b) \<Rightarrow>
             avx2_row rgb w y (x + 8) (store8 p (y * w + x) (pack_and_clamp_epi32 (rgb8_to_y_avx2 r g b)))
      else (x, p))"
  by pat_completeness auto
termination
  by (relation "measure (\<lambda>(rgb, w, y, x, p). w - x)") auto

text \<open>The remaining pixels of a row.\<close>

function tail_row :: "u8 list \<Rightarrow> nat \<Rightarrow> nat \<Rightarrow> nat \<Rightarrow> u8 list \<Rightarrow> u8 list" where
  "tail_row rgb w y x p =
     (if x < w then tail_row rgb w y (x + 1) (p[y * w + x := clamp_u8 (at_pixel rgb (y * w * 3 + x * 3) luma)]) else p)"
  by pat_completeness auto
termination
  by (relation "measure (\<lambda>(rgb, w, y, x, p). w - x)") auto

declare avx2_row.simps [simp del] tail_row.simps [simp del]

definition avx2_luma :: "u8 list \<Rightarrow> nat \<Rightarrow> nat \<Rightarrow> u8 list \<Rightarrow> u8 list" where
  "avx2_luma rgb w h p = fold (\<lambda>y p. case avx2_row rgb w y 0 p of (x, p) \<Rightarrow> tail_row rgb w y x p) [0..<h] p"

text \<open>The sum of a chroma sample over a block, and its rounded mean.\<close>

definition block_sum :: "u8 list \<Rightarrow> nat \<Rightarrow> nat \<Rightarrow> nat \<Rightarrow> (int \<Rightarrow> int \<Rightarrow> int \<Rightarrow> int) \<Rightarrow> int" where
  "block_sum rgb w by bx f =
     fold (\<lambda>(y, x) s. s + at_pixel rgb ((y * w + x) * 3) f) (block_pixels by bx) 0"

definition rgb_to_yuv420p_avx2 ::
    "u8 list \<Rightarrow> nat \<Rightarrow> nat \<Rightarrow> u8 list \<times> u8 list \<times> u8 list \<Rightarrow> u8 list \<times> u8 list \<times> u8 list" where
  "rgb_to_yuv420p_avx2 rgb w h = (\<lambda>(yp, up, vp).
     let yp = avx2_luma rgb w h yp
     in fold (\<lambda>(by, bx) (yp, up, vp).
          let off = by * (w div 2) + bx
          in (yp, up[off := clamp_u8 ((block_sum rgb w by bx chroma_u + 2) div 4)],
              vp[off := clamp_u8 ((block_sum rgb w by bx chroma_v + 2) div 4)])) (blocks w h) (yp, up, vp))"

definition rgb_to_nv12_avx2 :: "u8 list \<Rightarrow> nat \<Rightarrow> nat \<Rightarrow> u8 list \<times> u8 list \<Rightarrow> u8 list \<times> u8 list" where
  "rgb_to_nv12_avx2 rgb w h = (\<lambda>(yp, uvp).
     let yp = avx2_luma rgb w h yp
     in fold (\<lambda>(by, bx) (yp, uvp).
          let off = (by * (w div 2) + bx) * 2
          in (yp, uvp[off := clamp_u8 ((block_sum rgb w by bx chroma_u + 2) div 4),
                      off + 1 := clamp_u8 ((block_sum rgb w by bx chroma_v + 2) div 4)])) (blocks w h) (yp, uvp))"

section \<open>The NEON version\<close>

definition compute_y_values_8 :: "u8 list \<Rightarrow> nat \<Rightarrow> u8 list" where
  "compute_y_values_8 rgb p = map (\<lambda>i. clamp_u8 (at_pixel rgb (p + i * 3) luma)) [0..<8]"

function neon_row :: "u8 list \<Rightarrow> nat \<Rightarrow> nat \<Rightarrow> nat \<Rightarrow> u8 list \<Rightarrow> nat \<times> u8 list" where
  "neon_row rgb w y x p =
     (if x < w - w mod 8
      then neon_row rgb w y (x + 8) (store8 p (y * w + x) (compute_y_values_8 rgb (y * w * 3 + x * 3)))
      else (x, p))"
  by pat_completeness auto
termination
  by (relation "measure (\<lambda>(rgb, w, y, x, p). w - x)") auto

declare neon_row.simps [simp del]

definition neon_luma :: "u8 list \<Rightarrow> nat \<Rightarrow> nat \<Rightarrow> u8 list \<Rightarrow> u8 list" where
  "neon_luma rgb w h p = fold (\<lambda>y p. case neon_row rgb w y 0 p of (x, p) \<Rightarrow> tail_row rgb w y x p) [0..<h] p"

definition rgb_to_yuv420p_neon ::
    "u8 list \<Rightarrow> nat \<Rightarrow> nat \<Rightarrow> u8 list \<times> u8 list \<times> u8 list \<Rightarrow> u8 list \<times> u8 list \<times> u8 list" where
  "rgb_to_yuv420p_neon rgb w h = (\<lambda>(yp, up, vp).
     let yp = neon_luma rgb w h yp
     in fold (\<lambda>(by, bx) (yp, up, vp).
          let off = by * (w div 2) + bx
          in (yp, up[off := clamp_u8 ((block_sum rgb w by bx chroma_u + 2) div 4)],
              vp[off := clamp_u8 ((block_sum rgb w by bx chroma_v + 2) div 4)])) (blocks w h) (yp, up, vp))"

definition rgb_to_nv12_neon :: "u8 list \<Rightarrow> nat \<Rightarrow> nat \<Rightarrow> u8 list \<times> u8 list \<Rightarrow> u8 list \<times> u8 list" where
  "rgb_to_nv12_neon rgb w h = (\<lambda>(yp, uvp).
     let yp = neon_luma rgb w h yp
     in fold (\<lambda>(by, bx) (yp, uvp).
          let off = (by * (w div 2) + bx) * 2
          in (yp, uvp[off := clamp_u8 ((block_sum rgb w by bx chroma_u + 2) div 4),
                      off + 1 := clamp_u8 ((block_sum rgb w by bx chroma_v + 2) div 4)])) (blocks w h) (yp, uvp))"

section \<open>Choice of the version and the public functions\<close>

datatype target_arch = X86_64 | Aarch64 | OtherArch

datatype conversion_strategy = Avx512 | Avx2 | Sse2 | Neon | Scalar

text \<open>The target features the binary was compiled for, and what \<open>is_x86_feature_detected!\<close> answers.\<close>

record cpu =
  cpu_arch :: target_arch
  cpu_avx512f :: bool
  cpu_sse2 :: bool
  cpu_avx2 :: bool

definition optimal :: "cpu \<Rightarrow> conversion_strategy" where
  "optimal c =
     (case cpu_arch c of
        X86_64 \<Rightarrow> (if cpu_avx512f c then Avx512 else if cpu_avx2 c then Avx2 else if cpu_sse2 c then Sse2 else Scalar)
      | Aarch64 \<Rightarrow> Neon
      | OtherArch \<Rightarrow> Scalar)"

definition convert_yuv420p ::
    "cpu \<Rightarrow> u8 list \<Rightarrow> nat \<Rightarrow> nat \<Rightarrow> u8 list \<times> u8 list \<times> u8 list \<Rightarrow> u8 list \<times> u8 list \<times> u8 list" where
  "convert_yuv420p c rgb w h =
     (case cpu_arch c of
        X86_64 \<Rightarrow> (if optimal c \<in> {Avx2, Avx512} then rgb_to_yuv420p_avx2 rgb w h else rgb_to_yuv420p_scalar rgb w h)
      | Aarch64 \<Rightarrow> (if optimal c = Neon then rgb_to_yuv420p_neon rgb w h else rgb_to_yuv420p_scalar rgb w h)
      | OtherArch \<Rightarrow> rgb_to_yuv420p_scalar rgb w h)"

definition convert_nv12 :: "cpu \<Rightarrow> u8 list \<Rightarrow> nat \<Rightarrow> nat \<Rightarrow> u8 list \<times> u8 list \<Rightarrow> u8 list \<times> u8 list" where
  "convert_nv12 c rgb w h =
     (case cpu_arch c of
        X86_64 \<Rightarrow> (if optimal c \<in> {Avx2, Avx512} then rgb_to_nv12_avx2 rgb w h else rgb_to_nv12_scalar rgb w h)
      | Aarch64 \<Rightarrow> (if optimal c = Neon then rgb_to_nv12_neon rgb w h else rgb_to_nv12_scalar rgb w h)
      | OtherArch \<Rightarrow> rgb_to_nv12_scalar rgb w h)"

definition size_mismatch :: "string \<Rightarrow> nat \<Rightarrow> nat \<Rightarrow> string" where
  "size_mismatch what expected got =
     what @ '' size mismatch: expected '' @ show_nat expected @ '' bytes, got '' @ show_nat got"

definition check_dims :: "string \<Rightarrow> nat \<Rightarrow> nat \<Rightarrow> string + unit" where
  "check_dims fmt w h =
     (if odd w \<or> odd h then Inl (''Width and height must be even for '' @ fmt @ '' conversion'')
      else if w = 0 \<or> h = 0 then Inl ''Width and height must be non-zero''
      else Inr ())"

definition rgb_to_yuv420p :: "cpu \<Rightarrow> u8 list \<Rightarrow> nat \<Rightarrow> nat \<Rightarrow> string + u8 list \<times> u8 list \<times> u8 list" where
  "rgb_to_yuv420p c rgb w h =
     (if length rgb \<noteq> w * h * 3 then Inl (size_mismatch ''RGB data'' (w * h * 3) (length rgb))
      else case check_dims ''YUV420P'' w h of
        Inl e \<Rightarrow> Inl e
      | Inr _ \<Rightarrow> Inr (convert_yuv420p c rgb w h (replicate (w * h) 0, replicate ((w div 2) * (h div 2)) 0,
                      replicate ((w div 2) * (h div 2)) 0)))"

definition rgb_to_nv12 :: "cpu \<Rightarrow> u8 list \<Rightarrow> nat \<Rightarrow> nat \<Rightarrow> string + u8 list \<times> u8 list" where
  "rgb_to_nv12 c rgb w h =
     (if length rgb \<noteq> w * h * 3 then Inl (size_mismatch ''RGB data'' (w * h * 3) (length rgb))
      else case check_dims ''NV12'' w h of
        Inl e \<Rightarrow> Inl e
      | Inr _ \<Rightarrow> Inr (convert_nv12 c rgb w h (replicate (w * h) 0, replicate ((w div 2) * (h div 2) * 2) 0)))"

text \<open>The new length of the valid data, and the buffer; what follows the data is left over.\<close>

definition rgb_to_nv12_in_place :: "cpu \<Rightarrow> u8 list \<Rightarrow> nat \<Rightarrow> nat \<Rightarrow> string + nat \<times> u8 list" where
  "rgb_to_nv12_in_place c buffer w h =
     (if length buffer < w * h * 3
      then Inl (''Buffer too small: expected at least '' @ show_nat (w * h * 3) @ '' bytes, got '' @ show_nat (length buffer))
      else case check_dims ''NV12'' w h of
        Inl e \<Rightarrow> Inl e
      | Inr _ \<Rightarrow>
          (let y_size = w * h; nv12_size = y_size + (w div 2) * (h div 2) * 2
           in case convert_nv12 c (take (w * h * 3) buffer) w h
                     (replicate y_size 0, replicate ((w div 2) * (h div 2) * 2) 0) of
                (yp, uvp) \<Rightarrow> Inr (nv12_size, yp @ uvp @ drop nv12_size buffer)))"

fun check_frames :: "nat \<Rightarrow> nat \<Rightarrow> u8 list list \<Rightarrow> string + unit" where
  "check_frames expected i [] = Inr ()"
| "check_frames expected i (rgb # rgbs) =
     (if length rgb \<noteq> expected then Inl (size_mismatch (''Frame '' @ show_nat i) expected (length rgb))
      else check_frames expected (i + 1) rgbs)"

text \<open>The batch loops convert frame \<open>i\<close> into the planes \<open>i\<close> of the results.\<close>

fun batch_loop :: "('r \<Rightarrow> 'p \<Rightarrow> 'p) \<Rightarrow> 'r list \<Rightarrow> 'p list \<Rightarrow> 'p list" where
  "batch_loop f (r # rs) (p # ps) = f r p # batch_loop f rs ps"
| "batch_loop f _ ps = ps"

definition rgb_batch_to_nv12_avx2 where
  "rgb_batch_to_nv12_avx2 rgbs w h results = batch_loop (\<lambda>rgb. rgb_to_nv12_avx2 rgb w h) rgbs results"

definition rgb_batch_to_yuv420p_avx2 where
  "rgb_batch_to_yuv420p_avx2 rgbs w h results = batch_loop (\<lambda>rgb. rgb_to_yuv420p_avx2 rgb w h) rgbs results"

definition rgb_batch_to_nv12_neon where
  "rgb_batch_to_nv12_neon rgbs w h results = batch_loop (\<lambda>rgb. rgb_to_nv12_neon rgb w h) rgbs results"

definition rgb_batch_to_yuv420p_neon where
  "rgb_batch_to_yuv420p_neon rgbs w h results = batch_loop (\<lambda>rgb. rgb_to_yuv420p_neon rgb w h) rgbs results"

definition rgb_batch_to_nv12 :: "cpu \<Rightarrow> u8 list list \<Rightarrow> nat \<Rightarrow> nat \<Rightarrow> string + (u8 list \<times> u8 list) list" where
  "rgb_batch_to_nv12 c rgbs w h =
     (if rgbs = [] then Inr []
      else case check_frames (w * h * 3) 0 rgbs of
        Inl e \<Rightarrow> Inl e
      | Inr _ \<Rightarrow>
          (case check_dims ''NV12'' w h of
             Inl e \<Rightarrow> Inl e
           | Inr _ \<Rightarrow>
               (let results = replicate (length rgbs) (replicate (w * h) 0, replicate ((w div 2) * (h div 2) * 2) 0);
                    scalar = batch_loop (\<lambda>rgb. rgb_to_nv12_scalar rgb w h) rgbs results
                in Inr (case cpu_arch c of
                     X86_64 \<Rightarrow> (if optimal c \<in> {Avx2, Avx512} then rgb_batch_to_nv12_avx2 rgbs w h results else scalar)
                   | Aarch64 \<Rightarrow> (if optimal c = Neon then rgb_batch_to_nv12_neon rgbs w h results else scalar)
                   | OtherArch \<Rightarrow> scalar))))"

definition rgb_batch_to_yuv420p :: "cpu \<Rightarrow> u8 list list \<Rightarrow> nat \<Rightarrow> nat \<Rightarrow> string + (u8 list \<times> u8 list \<times> u8 list) list" where
  "rgb_batch_to_yuv420p c rgbs w h =
     (if rgbs = [] then Inr []
      else case check_frames (w * h * 3) 0 rgbs of
        Inl e \<Rightarrow> Inl e
      | Inr _ \<Rightarrow>
          (case check_dims ''YUV420P'' w h of
             Inl e \<Rightarrow> Inl e
           | Inr _ \<Rightarrow>
               (let results = replicate (length rgbs) (replicate (w * h) 0, replicate ((w div 2) * (h div 2)) 0,
                      replicate ((w div 2) * (h div 2)) 0);
                    scalar = batch_loop (\<lambda>rgb. rgb_to_yuv420p_scalar rgb w h) rgbs results
                in Inr (case cpu_arch c of
                     X86_64 \<Rightarrow> (if optimal c \<in> {Avx2, Avx512} then rgb_batch_to_yuv420p_avx2 rgbs w h results else scalar)
                   | Aarch64 \<Rightarrow> (if optimal c = Neon then rgb_batch_to_yuv420p_neon rgbs w h results else scalar)
                   | OtherArch \<Rightarrow> scalar))))"

text \<open>The allocating functions of the scalar module, which accept empty frames.\<close>

definition check_even :: "string \<Rightarrow> nat \<Rightarrow> nat \<Rightarrow> string + unit" where
  "check_even fmt w h =
     (if odd w \<or> odd h then Inl (''Width and height must be even for '' @ fmt @ '' conversion'') else Inr ())"

definition scalar_rgb_to_yuv420p :: "u8 list \<Rightarrow> nat \<Rightarrow> nat \<Rightarrow> string + u8 list \<times> u8 list \<times> u8 list" where
  "scalar_rgb_to_yuv420p rgb w h =
     (if length rgb \<noteq> w * h * 3 then Inl (size_mismatch ''RGB data'' (w * h * 3) (length rgb))
      else case check_even ''YUV420P'' w h of
        Inl e \<Rightarrow> Inl e
      | Inr _ \<Rightarrow> Inr (rgb_to_yuv420p_scalar rgb w h (replicate (w * h) 0, replicate ((w div 2) * (h div 2)) 0,
                      replicate ((w div 2) * (h div 2)) 0)))"

definition scalar_rgb_to_nv12 :: "u8 list \<Rightarrow> nat \<Rightarrow> nat \<Rightarrow> string + u8 list \<times> u8 list" where
  "scalar_rgb_to_nv12 rgb w h =
     (if length rgb \<noteq> w * h * 3 then Inl (size_mismatch ''RGB data'' (w * h * 3) (length rgb))
      else case check_even ''NV12'' w h of
        Inl e \<Rightarrow> Inl e
      | Inr _ \<Rightarrow> Inr (rgb_to_nv12_scalar rgb w h (replicate (w * h) 0, replicate ((w div 2) * (h div 2) * 2) 0)))"

section \<open>Planes updated by index\<close>

text \<open>When the value written depends only on the index, the order of the updates does not matter.\<close>

definition fill :: "(nat \<Rightarrow> 'a) \<Rightarrow> nat list \<Rightarrow> 'a list \<Rightarrow> 'a list" where
  "fill f is p = fold (\<lambda>i p. p[i := f i]) is p"

lemma fill_length [simp]: "length (fill f is p) = length p"
  by (induction "is" arbitrary: p) (simp_all add: fill_def)

lemma fill_nth: "j < length p \<Longrightarrow> fill f is p ! j = (if j \<in> set is then f j else p ! j)"
  by (induction "is" arbitrary: p) (auto simp: fill_def nth_list_update)

lemma fill_all: "set is \<supseteq> {0..<length p} \<Longrightarrow> fill f is p = map f [0..<length p]"
  by (rule nth_equalityI) (auto simp: fill_nth)

lemma fill_append: "fill f (is @ js) p = fill f js (fill f is p)"
  by (simp add: fill_def)

lemma fill_concat: "fold (\<lambda>b. fill f (k b)) bs p = fill f (concat (map k bs)) p"
  by (induction bs arbitrary: p) (simp_all add: fill_append, simp add: fill_def)

text \<open>A loop over several planes whose step works on each plane alone is a loop per plane.\<close>

lemma fold_triple:
  assumes "\<And>b x y z. F b (x, y, z) = (X b x, Y b y, Z b z)"
  shows "fold F bs (x, y, z) = (fold X bs x, fold Y bs y, fold Z bs z)"
  by (induction bs arbitrary: x y z) (simp_all add: assms)

lemma fold_pair:
  assumes "\<And>b x y. F b (x, y) = (X b x, Y b y)"
  shows "fold F bs (x, y) = (fold X bs x, fold Y bs y)"
  by (induction bs arbitrary: x y) (simp_all add: assms)

lemma fold_skip: "fold (\<lambda>b p. p) bs p = p"
  by (induction bs) simp_all

lemma upt_join: "i \<le> j \<Longrightarrow> j = j' \<Longrightarrow> j \<le> k \<Longrightarrow> [i..<j] @ [j'..<k] = [i..<k]"
  using upt_add_eq_append [of i j "k - j"] by simp

section \<open>Bounds of the pixel arithmetic\<close>

definition byte :: "int \<Rightarrow> bool" where
  "byte v \<longleftrightarrow> 0 \<le> v \<and> v \<le> 255"

lemma byte_uint [simp]: "byte (uint (b :: u8))"
  using uint_lt2p [of b] by (simp add: byte_def)

lemma luma_range: "byte r \<Longrightarrow> byte g \<Longrightarrow> byte b \<Longrightarrow> byte (luma r g b)"
  unfolding luma_def byte_def by linarith

lemma chroma_range:
  "byte r \<Longrightarrow> byte g \<Longrightarrow> byte b \<Longrightarrow> 1 \<le> chroma_u r g b \<and> chroma_u r g b \<le> 256"
  "byte r \<Longrightarrow> byte g \<Longrightarrow> byte b \<Longrightarrow> 1 \<le> chroma_v r g b \<and> chroma_v r g b \<le> 256"
  unfolding chroma_u_def chroma_v_def byte_def by linarith+

lemma wrap32_id: "- (2 ^ 31) \<le> v \<Longrightarrow> v < 2 ^ 31 \<Longrightarrow> wrap32 v = v"
  by (simp add: wrap32_def)

section \<open>The luma plane\<close>

definition lum :: "u8 list \<Rightarrow> nat \<Rightarrow> u8" where
  "lum rgb i = clamp_u8 (at_pixel rgb (i * 3) luma)"

lemma eight_lanes:
  assumes "length v = 8"
  obtains a b c d e f g h where "v = [a, b, c, d, e, f, g, h]"
  using assms by (auto simp: numeral_eq_Suc length_Suc_conv)

lemma upt_eight: "[0..<8] = [0, 1, 2, 3, 4, 5, 6, 7 :: nat]"
  by (simp add: upt_rec)

lemma sat_clamp: "sat_u8 (sat_i16 (min (max v 0) 255)) = clamp_u8 v"
  by (simp add: sat_u8_def sat_i16_def clamp_u8_def min_def max_def)

lemma sat_zero: "sat_i16 0 = 0" "sat_u8 0 = 0"
  by (simp_all add: sat_u8_def sat_i16_def)

lemma pack_lanes:
  assumes "length v = 8"
  shows "take 8 (pack_and_clamp_epi32 v) = map clamp_u8 v"
proof -
  obtain a b c d e f g h where v: "v = [a, b, c, d, e, f, g, h]" using assms by (rule eight_lanes)
  show ?thesis
    unfolding v pack_and_clamp_epi32_def Let_def set1_epi32_def packs_epi32_def packus_epi16_def slli_si128_def or_si128_def
    by (simp add: numeral_eq_Suc sat_clamp [unfolded numeral_eq_Suc, simplified] sat_zero)
qed

lemma y_lanes:
  assumes "length r = 8" "length g = 8" "length b = 8"
    and "list_all byte r" "list_all byte g" "list_all byte b"
  shows "rgb8_to_y_avx2 r g b = map (\<lambda>i. luma (r ! i) (g ! i) (b ! i)) [0..<8]"
proof (rule nth_equalityI)
  show "length (rgb8_to_y_avx2 r g b) = length (map (\<lambda>i. luma (r ! i) (g ! i) (b ! i)) [0..<8])"
    using assms by (simp add: rgb8_to_y_avx2_def srai_epi32_def add_epi32_def mullo_epi32_def set1_epi32_def Let_def)
next
  fix i assume "i < length (rgb8_to_y_avx2 r g b)"
  then have i: "i < 8" by (simp add: rgb8_to_y_avx2_def srai_epi32_def add_epi32_def mullo_epi32_def set1_epi32_def Let_def)
  with assms have bytes: "byte (r ! i)" "byte (g ! i)" "byte (b ! i)" by (simp_all add: list_all_length)
  then have "wrap32 (r ! i * 77) = r ! i * 77" "wrap32 (g ! i * 150) = g ! i * 150" "wrap32 (b ! i * 29) = b ! i * 29"
    "wrap32 (r ! i * 77 + g ! i * 150) = r ! i * 77 + g ! i * 150"
    "wrap32 (r ! i * 77 + g ! i * 150 + b ! i * 29) = r ! i * 77 + g ! i * 150 + b ! i * 29"
    "wrap32 (r ! i * 77 + g ! i * 150 + b ! i * 29 + 128) = r ! i * 77 + g ! i * 150 + b ! i * 29 + 128"
    by (auto simp: byte_def intro!: wrap32_id)
  with i assms show "rgb8_to_y_avx2 r g b ! i = map (\<lambda>i. luma (r ! i) (g ! i) (b ! i)) [0..<8] ! i"
    by (simp add: rgb8_to_y_avx2_def srai_epi32_def add_epi32_def mullo_epi32_def set1_epi32_def Let_def luma_def ac_simps)
qed

text \<open>Eight luma values at once, from either vector version.\<close>

lemma avx2_eight:
  assumes "load_rgb_values rgb (k * 3) = (r, g, b)"
  shows "take 8 (pack_and_clamp_epi32 (rgb8_to_y_avx2 r g b)) = map (\<lambda>i. lum rgb (k + i)) [0..<8]"
proof -
  have l: "r = map (\<lambda>i. uint (rgb ! (k * 3 + i * 3))) [0..<8]" "g = map (\<lambda>i. uint (rgb ! (k * 3 + i * 3 + 1))) [0..<8]"
    "b = map (\<lambda>i. uint (rgb ! (k * 3 + i * 3 + 2))) [0..<8]"
    using assms by (auto simp: load_rgb_values_def)
  have "rgb8_to_y_avx2 r g b = map (\<lambda>i. luma (r ! i) (g ! i) (b ! i)) [0..<8]"
    by (rule y_lanes) (simp_all add: l list_all_iff)
  then have "take 8 (pack_and_clamp_epi32 (rgb8_to_y_avx2 r g b)) =
      map (\<lambda>i. clamp_u8 (luma (r ! i) (g ! i) (b ! i))) [0..<8]"
    by (simp add: pack_lanes comp_def)
  also have "\<dots> = map (\<lambda>i. lum rgb (k + i)) [0..<8]"
    by (rule map_cong) (auto simp: l lum_def at_pixel_def add_mult_distrib)
  finally show ?thesis .
qed

lemma neon_eight: "take 8 (compute_y_values_8 rgb (k * 3)) = map (\<lambda>i. lum rgb (k + i)) [0..<8]"
  by (simp add: compute_y_values_8_def lum_def add_mult_distrib)

lemma store8_fill:
  assumes "take 8 v = map (\<lambda>i. f (off + i)) [0..<8]" "off + 8 \<le> length p"
  shows "store8 p off v = fill f [off..<off + 8] p"
proof (rule nth_equalityI)
  have v: "length (take 8 v) = 8" by (simp add: assms(1))
  then show "length (store8 p off v) = length (fill f [off..<off + 8] p)"
    using assms(2) by (simp add: store8_def)
  fix j assume "j < length (store8 p off v)"
  with v assms(2) have j: "j < length p" by (simp add: store8_def)
  show "store8 p off v ! j = fill f [off..<off + 8] p ! j"
    using j assms(2) v
    by (auto simp: store8_def nth_append fill_nth assms(1) min_def)
qed

lemma tail_row_fill: "tail_row rgb w y x p = fill (lum rgb) [y * w + x..<y * w + w] p"
proof (induction rgb w y x p rule: tail_row.induct)
  case (1 rgb w y x p)
  have off: "y * w * 3 + x * 3 = (y * w + x) * 3" by (simp add: algebra_simps)
  show ?case
  proof (cases "x < w")
    case True
    then have cons: "[y * w + x..<y * w + w] = (y * w + x) # [y * w + (x + 1)..<y * w + w]"
      by (simp add: upt_conv_Cons)
    have "tail_row rgb w y x p = tail_row rgb w y (x + 1) (p[y * w + x := lum rgb (y * w + x)])"
      using True by (subst tail_row.simps) (simp only: if_True off lum_def)
    also have "\<dots> = fill (lum rgb) [y * w + (x + 1)..<y * w + w] (p[y * w + x := lum rgb (y * w + x)])"
      using 1 [OF True] unfolding off lum_def [symmetric] .
    finally show ?thesis unfolding cons by (simp add: fill_def)
  next
    case False
    then show ?thesis by (simp add: tail_row.simps [of rgb w y x] fill_def)
  qed
qed

text \<open>A row of a vector version, given how it stores eight values.\<close>

lemma row_fill:
  assumes rec: "\<And>x p. row x p = (if x < w - w mod 8 then row (x + 8) (store8 p (y * w + x) (val x)) else (x, p))"
    and val: "\<And>x. take 8 (val x) = map (\<lambda>i. lum rgb (y * w + x + i)) [0..<8]"
    and len: "y * w + w \<le> length p" and x: "x mod 8 = 0" "x \<le> w - w mod 8"
  shows "row x p = (w - w mod 8, fill (lum rgb) [y * w + x..<y * w + (w - w mod 8)] p)"
  using len x
proof (induction "w - x" arbitrary: x p rule: less_induct)
  case less
  show ?case
  proof (cases "x < w - w mod 8")
    case True
    have step: "x + 8 \<le> w - w mod 8"
    proof -
      have "(w - w mod 8) mod 8 = 0" by (simp add: minus_mod_eq_mult_div)
      then obtain a b where "w - w mod 8 = 8 * a" "x = 8 * b" using less.prems(2) by (metis mod_0_imp_dvd dvdE)
      with True show ?thesis by simp
    qed
    let ?p = "store8 p (y * w + x) (val x)"
    have p: "?p = fill (lum rgb) [y * w + x..<y * w + x + 8] p"
      using store8_fill [OF val [of x], of p] less.prems(1) step by simp
    have split: "[y * w + x..<y * w + x + 8] @ [y * w + (x + 8)..<y * w + (w - w mod 8)] =
        [y * w + x..<y * w + (w - w mod 8)]"
      by (rule upt_join) (use step in simp_all)
    have "row x p = row (x + 8) ?p" using rec [of x p] True by simp
    also have "\<dots> = (w - w mod 8, fill (lum rgb) [y * w + (x + 8)..<y * w + (w - w mod 8)] ?p)"
      by (rule less.hyps) (use True less.prems step in \<open>auto simp: p\<close>)
    finally show ?thesis unfolding p fill_append [symmetric] split .
  next
    case False
    then show ?thesis using rec [of x p] less.prems by (simp add: fill_def)
  qed
qed

text \<open>The whole plane: row by row, or block by block, every index below the size is written.\<close>

lemma rows_cover: "concat (map (\<lambda>y. [y * w..<y * w + w]) [0..<h]) = [0..<h * w]"
proof (induction h)
  case (Suc h)
  then show ?case using upt_join [of 0 "h * w" "h * w" "h * w + w"] by (simp add: add.commute)
qed simp

lemma luma_by_rows:
  assumes rec: "\<And>y x p. row y x p =
      (if x < w - w mod 8 then row y (x + 8) (store8 p (y * w + x) (val y x)) else (x, p))"
    and val: "\<And>y x. take 8 (val y x) = map (\<lambda>i. lum rgb (y * w + x + i)) [0..<8]"
    and len: "length p = w * h"
  shows "fold (\<lambda>y p. case row y 0 p of (x, p) \<Rightarrow> tail_row rgb w y x p) [0..<h] p = map (lum rgb) [0..<w * h]"
proof -
  have one: "(case row y 0 q of (x, q) \<Rightarrow> tail_row rgb w y x q) = fill (lum rgb) [y * w..<y * w + w] q"
    if "y < h" "length q = w * h" for y q
  proof -
    have "y * w + w = Suc y * w" by simp
    also have "\<dots> \<le> h * w" by (rule mult_le_mono1) (use that in simp)
    finally have "y * w + w \<le> length q" using that by (simp add: mult.commute)
    then have "row y 0 q = (w - w mod 8, fill (lum rgb) [y * w..<y * w + (w - w mod 8)] q)"
      using row_fill [where row = "row y" and val = "val y" and x = 0, OF rec val] by simp
    then show ?thesis
      by (simp add: tail_row_fill fill_append [symmetric] upt_join)
  qed
  have "fold (\<lambda>y p. case row y 0 p of (x, p) \<Rightarrow> tail_row rgb w y x p) ys p = fold (\<lambda>y. fill (lum rgb) [y * w..<y * w + w]) ys p"
    if "set ys \<subseteq> {0..<h}" for ys
    using that len by (induction ys arbitrary: p) (simp_all add: one)
  then have "fold (\<lambda>y p. case row y 0 p of (x, p) \<Rightarrow> tail_row rgb w y x p) [0..<h] p =
      fold (\<lambda>y. fill (lum rgb) [y * w..<y * w + w]) [0..<h] p" by simp
  also have "\<dots> = fill (lum rgb) [0..<h * w] p" by (simp add: fill_concat rows_cover)
  also have "\<dots> = map (lum rgb) [0..<w * h]" using len by (simp add: fill_all mult.commute)
  finally show ?thesis .
qed

lemma avx2_luma_all: "length p = w * h \<Longrightarrow> avx2_luma rgb w h p = map (lum rgb) [0..<w * h]"
  unfolding avx2_luma_def
proof (rule luma_by_rows [where val = "\<lambda>y x. case load_rgb_values rgb (y * w * 3 + x * 3) of (r, g, b) \<Rightarrow>
    pack_and_clamp_epi32 (rgb8_to_y_avx2 r g b)"], goal_cases)
  case (1 y x p)
  show ?case by (subst avx2_row.simps) (auto split: prod.splits)
next
  case (2 y x)
  have "y * w * 3 + x * 3 = (y * w + x) * 3" by (simp add: algebra_simps)
  then show ?case by (auto simp: avx2_eight split: prod.splits)
qed

lemma neon_luma_all: "length p = w * h \<Longrightarrow> neon_luma rgb w h p = map (lum rgb) [0..<w * h]"
  unfolding neon_luma_def
proof (rule luma_by_rows [where val = "\<lambda>y x. compute_y_values_8 rgb (y * w * 3 + x * 3)"], goal_cases)
  case (1 y x p)
  show ?case by (subst neon_row.simps) simp
next
  case (2 y x)
  have off: "y * w * 3 + x * 3 = (y * w + x) * 3" by (simp add: algebra_simps)
  show ?case unfolding off by (rule neon_eight)
qed

section \<open>The chroma planes\<close>

text \<open>The mean of a chroma sample over the block with a number, with the rounding a version adds.\<close>

definition mean :: "(int \<Rightarrow> int \<Rightarrow> int \<Rightarrow> int) \<Rightarrow> int \<Rightarrow> u8 list \<Rightarrow> nat \<Rightarrow> nat \<Rightarrow> u8" where
  "mean f c rgb w k = clamp_u8 ((block_sum rgb w (k div (w div 2)) (k mod (w div 2)) f + c) div 4)"

definition block_no :: "nat \<Rightarrow> nat \<times> nat \<Rightarrow> nat" where
  "block_no w = (\<lambda>(by, bx). by * (w div 2) + bx)"

lemma block_pixels_list:
  "block_pixels by bx = [(by * 2, bx * 2), (by * 2, bx * 2 + 1), (by * 2 + 1, bx * 2), (by * 2 + 1, bx * 2 + 1)]"
  by (simp add: block_pixels_def)

definition sample :: "(int \<Rightarrow> int \<Rightarrow> int \<Rightarrow> int) \<Rightarrow> u8 list \<Rightarrow> nat \<Rightarrow> int" where
  "sample f rgb i = at_pixel rgb (i * 3) f"

lemma block_slots:
  "(k * 2 AND 1) * 2 OR (l * 2 AND 1) = (0 :: nat)" "(k * 2 AND 1) * 2 OR ((l * 2 + 1) AND 1) = (1 :: nat)"
  "((k * 2 + 1) AND 1) * 2 OR (l * 2 AND 1) = (2 :: nat)" "((k * 2 + 1) AND 1) * 2 OR ((l * 2 + 1) AND 1) = (3 :: nat)"
proof -
  have "(n * 2) AND 1 = (0 :: nat)" "(n * 2 + 1) AND 1 = (1 :: nat)" for n :: nat
    unfolding and_one_eq by presburger+
  then show "(k * 2 AND 1) * 2 OR (l * 2 AND 1) = (0 :: nat)" "(k * 2 AND 1) * 2 OR ((l * 2 + 1) AND 1) = (1 :: nat)"
    "((k * 2 + 1) AND 1) * 2 OR (l * 2 AND 1) = (2 :: nat)" "((k * 2 + 1) AND 1) * 2 OR ((l * 2 + 1) AND 1) = (3 :: nat)"
    by simp_all
qed

lemma scalar_block_eq:
  "\<exists>us vs. scalar_block rgb w by bx yp =
      (fill (lum rgb) (map (\<lambda>(y, x). y * w + x) (block_pixels by bx)) yp, us, vs) \<and>
    sum_list us = block_sum rgb w by bx chroma_u \<and> sum_list vs = block_sum rgb w by bx chroma_v"
proof -
  let ?a = "by * 2 * w + bx * 2" and ?b = "by * 2 * w + (bx * 2 + 1)"
  let ?c = "(by * 2 + 1) * w + bx * 2" and ?d = "(by * 2 + 1) * w + (bx * 2 + 1)"
  have "scalar_block rgb w by bx yp = (fill (lum rgb) [?a, ?b, ?c, ?d] yp,
      [sample chroma_u rgb ?a, sample chroma_u rgb ?b, sample chroma_u rgb ?c, sample chroma_u rgb ?d],
      [sample chroma_v rgb ?a, sample chroma_v rgb ?b, sample chroma_v rgb ?c, sample chroma_v rgb ?d])"
    unfolding scalar_block_def block_pixels_list scalar_pixel_def fill_def lum_def sample_def [symmetric] Let_def
    by (simp only: fold.simps prod.case comp_apply id_apply block_slots) (simp add: numeral_eq_Suc)
  moreover have "block_sum rgb w by bx f =
      sample f rgb ?a + sample f rgb ?b + sample f rgb ?c + sample f rgb ?d" for f
    unfolding block_sum_def block_pixels_list sample_def [symmetric]
    by (simp only: fold.simps prod.case comp_apply id_apply add_0)
  moreover have "sum_list [a, b, c, d] = a + b + c + d" for a b c d :: int by simp
  ultimately show ?thesis
    unfolding block_pixels_list by (intro exI conjI) (simp_all only: list.map prod.case)
qed

lemma block_no_inv:
  assumes "(by, bx) \<in> set (blocks w h)"
  shows "block_no w (by, bx) div (w div 2) = by" "block_no w (by, bx) mod (w div 2) = bx"
  using assms by (auto simp: blocks_def block_no_def)

lemma blocks_cover: "map (block_no w) (blocks w h) = [0..<(w div 2) * (h div 2)]"
proof -
  have grid: "concat (map (\<lambda>by. map (\<lambda>bx. by * v + bx) [0..<v]) [0..<n]) = [0..<n * v]" for v n :: nat
  proof -
    have "map (\<lambda>bx. i * v + bx) [0..<v] = [i * v..<i * v + v]" for i
      using map_add_upt [of "i * v" v] by (simp add: add.commute)
    then show ?thesis by (simp add: rows_cover)
  qed
  have "map (block_no w) (blocks w h) =
      concat (map (\<lambda>by. map (\<lambda>bx. by * (w div 2) + bx) [0..<w div 2]) [0..<h div 2])"
    by (simp add: blocks_def block_no_def map_concat comp_def)
  then show ?thesis unfolding grid by (simp add: mult.commute)
qed

lemma pixels_cover:
  assumes "even w" "even h"
  shows "{0..<w * h} \<subseteq> set (concat (map (\<lambda>(by, bx). map (\<lambda>(y, x). y * w + x) (block_pixels by bx)) (blocks w h)))"
proof
  fix j assume "j \<in> {0..<w * h}"
  then have j: "j < h * w" by (simp add: mult.commute)
  then have w: "0 < w" by (cases w) auto
  let ?y = "j div w" and ?x = "j mod w"
  have y: "?y < h" using j by (simp add: less_mult_imp_div_less)
  have x: "?x < w" using w by simp
  have "n = n div 2 * 2 \<or> n = n div 2 * 2 + 1" for n :: nat by presburger
  from this [of ?y] this [of ?x] have "(?y, ?x) \<in> set (block_pixels (?y div 2) (?x div 2))"
    unfolding block_pixels_list by auto
  moreover have "?y div 2 < h div 2" "?x div 2 < w div 2"
    using x y assms by (auto elim!: evenE simp: less_mult_imp_div_less)
  then have "(?y div 2, ?x div 2) \<in> set (blocks w h)" by (auto simp: blocks_def image_iff)
  moreover have "j = ?y * w + ?x" by simp
  ultimately show "j \<in> set (concat (map (\<lambda>(by, bx). map (\<lambda>(y, x). y * w + x) (block_pixels by bx)) (blocks w h)))"
    by (force simp del: mod_mult_self4)
qed

lemma chroma_fill:
  "fold (\<lambda>(by, bx) p. p[by * (w div 2) + bx := clamp_u8 ((block_sum rgb w by bx f + c) div 4)]) (blocks w h) p =
     fill (mean f c rgb w) [0..<(w div 2) * (h div 2)] p"
proof -
  have "fold (\<lambda>(by, bx) p. p[by * (w div 2) + bx := clamp_u8 ((block_sum rgb w by bx f + c) div 4)]) bs p =
      fill (mean f c rgb w) (map (block_no w) bs) p" if "set bs \<subseteq> set (blocks w h)" for bs
    using that
  proof (induction bs arbitrary: p)
    case (Cons b bs)
    obtain k l where b: "b = (k, l)" by force
    have "clamp_u8 ((block_sum rgb w k l f + c) div 4) = mean f c rgb w (block_no w b)"
      using block_no_inv [of k l w h] Cons.prems by (simp add: mean_def b)
    with Cons show ?case by (simp add: b fill_def block_no_def)
  qed (simp add: fill_def)
  from this [of "blocks w h"] show ?thesis by (simp add: blocks_cover)
qed

text \<open>In the semi-planar format the two samples of a block alternate.\<close>

definition mean_uv :: "int \<Rightarrow> u8 list \<Rightarrow> nat \<Rightarrow> nat \<Rightarrow> u8" where
  "mean_uv c rgb w k = (if even k then mean chroma_u c rgb w (k div 2) else mean chroma_v c rgb w (k div 2))"

lemma uv_fill:
  assumes "length p = (w div 2) * (h div 2) * 2"
  shows "fold (\<lambda>(by, bx) p. p[(by * (w div 2) + bx) * 2 := clamp_u8 ((block_sum rgb w by bx chroma_u + c) div 4),
       (by * (w div 2) + bx) * 2 + 1 := clamp_u8 ((block_sum rgb w by bx chroma_v + c) div 4)]) (blocks w h) p =
     map (mean_uv c rgb w) [0..<length p]"
proof -
  let ?ks = "concat (map (\<lambda>k. [k * 2, k * 2 + 1]) [0..<(w div 2) * (h div 2)])"
  have "fold (\<lambda>(by, bx) p. p[(by * (w div 2) + bx) * 2 := clamp_u8 ((block_sum rgb w by bx chroma_u + c) div 4),
       (by * (w div 2) + bx) * 2 + 1 := clamp_u8 ((block_sum rgb w by bx chroma_v + c) div 4)]) bs p =
      fill (mean_uv c rgb w) (concat (map (\<lambda>k. [k * 2, k * 2 + 1]) (map (block_no w) bs))) p"
    if "set bs \<subseteq> set (blocks w h)" for bs
    using that
  proof (induction bs arbitrary: p)
    case (Cons b bs)
    obtain k l where b: "b = (k, l)" by force
    have "clamp_u8 ((block_sum rgb w k l chroma_u + c) div 4) = mean_uv c rgb w (block_no w b * 2)"
      "clamp_u8 ((block_sum rgb w k l chroma_v + c) div 4) = mean_uv c rgb w (block_no w b * 2 + 1)"
      using block_no_inv [of k l w h] Cons.prems by (simp_all add: mean_uv_def mean_def b)
    with Cons show ?case by (simp add: b fill_def block_no_def)
  qed (simp add: fill_def)
  from this [of "blocks w h"]
  have "fold (\<lambda>(by, bx) p. p[(by * (w div 2) + bx) * 2 := clamp_u8 ((block_sum rgb w by bx chroma_u + c) div 4),
       (by * (w div 2) + bx) * 2 + 1 := clamp_u8 ((block_sum rgb w by bx chroma_v + c) div 4)]) (blocks w h) p =
      fill (mean_uv c rgb w) ?ks p" by (simp add: blocks_cover)
  moreover have "{0..<length p} \<subseteq> set ?ks"
  proof
    fix j assume "j \<in> {0..<length p}"
    then have "j div 2 < (w div 2) * (h div 2)" using assms by auto
    moreover have "j = j div 2 * 2 \<or> j = j div 2 * 2 + 1" by presburger
    ultimately show "j \<in> set ?ks" by auto
  qed
  ultimately show ?thesis by (simp add: fill_all)
qed

section \<open>What every version computes\<close>

text \<open>The planes of a frame: all luma values, and the means of the chroma samples with the rounding \<open>c\<close>.\<close>

definition yuv_planes :: "int \<Rightarrow> u8 list \<Rightarrow> nat \<Rightarrow> nat \<Rightarrow> u8 list \<times> u8 list \<times> u8 list" where
  "yuv_planes c rgb w h =
     (map (lum rgb) [0..<w * h], map (mean chroma_u c rgb w) [0..<(w div 2) * (h div 2)],
      map (mean chroma_v c rgb w) [0..<(w div 2) * (h div 2)])"

definition nv12_planes :: "int \<Rightarrow> u8 list \<Rightarrow> nat \<Rightarrow> nat \<Rightarrow> u8 list \<times> u8 list" where
  "nv12_planes c rgb w h =
     (map (lum rgb) [0..<w * h], map (mean_uv c rgb w) [0..<(w div 2) * (h div 2) * 2])"

lemma scalar_luma_all:
  assumes "even w" "even h" "length yp = w * h"
  shows "fold (\<lambda>(by, bx) p. fill (lum rgb) (map (\<lambda>(y, x). y * w + x) (block_pixels by bx)) p) (blocks w h) yp =
    map (lum rgb) [0..<w * h]"
  using fill_concat [of "lum rgb" "\<lambda>(by, bx). map (\<lambda>(y, x). y * w + x) (block_pixels by bx)" "blocks w h" yp]
    fill_all [of yp _ "lum rgb"] pixels_cover [OF assms(1,2)] assms(3)
  by (simp add: case_prod_unfold)

text \<open>The steps of the loops, per plane.\<close>

definition put_luma :: "u8 list \<Rightarrow> nat \<Rightarrow> nat \<times> nat \<Rightarrow> u8 list \<Rightarrow> u8 list" where
  "put_luma rgb w = (\<lambda>(by, bx) p. fill (lum rgb) (map (\<lambda>(y, x). y * w + x) (block_pixels by bx)) p)"

definition put_chroma :: "(int \<Rightarrow> int \<Rightarrow> int \<Rightarrow> int) \<Rightarrow> int \<Rightarrow> u8 list \<Rightarrow> nat \<Rightarrow> nat \<times> nat \<Rightarrow> u8 list \<Rightarrow> u8 list" where
  "put_chroma f c rgb w = (\<lambda>(by, bx) p. p[by * (w div 2) + bx := clamp_u8 ((block_sum rgb w by bx f + c) div 4)])"

definition put_uv :: "int \<Rightarrow> u8 list \<Rightarrow> nat \<Rightarrow> nat \<times> nat \<Rightarrow> u8 list \<Rightarrow> u8 list" where
  "put_uv c rgb w = (\<lambda>(by, bx) p. p[(by * (w div 2) + bx) * 2 := clamp_u8 ((block_sum rgb w by bx chroma_u + c) div 4),
       (by * (w div 2) + bx) * 2 + 1 := clamp_u8 ((block_sum rgb w by bx chroma_v + c) div 4)])"

lemma put_luma_all:
  assumes "even w" "even h" "length yp = w * h"
  shows "fold (put_luma rgb w) (blocks w h) yp = map (lum rgb) [0..<w * h]"
  using scalar_luma_all [OF assms] by (simp only: put_luma_def)

lemma put_chroma_all:
  "length p = (w div 2) * (h div 2) \<Longrightarrow>
     fold (put_chroma f c rgb w) (blocks w h) p = map (mean f c rgb w) [0..<(w div 2) * (h div 2)]"
  by (simp only: put_chroma_def chroma_fill) (simp add: fill_all)

lemma put_uv_all:
  assumes "length p = (w div 2) * (h div 2) * 2"
  shows "fold (put_uv c rgb w) (blocks w h) p = map (mean_uv c rgb w) [0..<(w div 2) * (h div 2) * 2]"
  unfolding put_uv_def uv_fill [OF assms] assms ..

lemmas put_planes = put_luma_all put_chroma_all put_uv_all

lemma scalar_step:
  obtains us vs where "scalar_block rgb w k l yp = (put_luma rgb w (k, l) yp, us, vs)"
    "sum_list us = block_sum rgb w k l chroma_u" "sum_list vs = block_sum rgb w k l chroma_v"
  using scalar_block_eq [of rgb w k l yp] by (auto simp: put_luma_def)

lemma scalar_yuv:
  assumes "even w" "even h" "length yp = w * h" "length up = (w div 2) * (h div 2)" "length vp = (w div 2) * (h div 2)"
  shows "rgb_to_yuv420p_scalar rgb w h (yp, up, vp) = yuv_planes 0 rgb w h"
proof -
  have "rgb_to_yuv420p_scalar rgb w h (yp, up, vp) = (fold (put_luma rgb w) (blocks w h) yp,
      fold (put_chroma chroma_u 0 rgb w) (blocks w h) up, fold (put_chroma chroma_v 0 rgb w) (blocks w h) vp)"
    unfolding rgb_to_yuv420p_scalar_def
  proof (rule fold_triple)
    fix b :: "nat \<times> nat" and yp up vp :: "u8 list"
    obtain k l where b: "b = (k, l)" by force
    obtain us vs where "scalar_block rgb w k l yp = (put_luma rgb w (k, l) yp, us, vs)"
      "sum_list us = block_sum rgb w k l chroma_u" "sum_list vs = block_sum rgb w k l chroma_v"
      by (rule scalar_step)
    then show "(case b of (by, bx) \<Rightarrow> \<lambda>(yp, up, vp). case scalar_block rgb w by bx yp of (yp, us, vs) \<Rightarrow>
         let off = by * (w div 2) + bx
         in (yp, up[off := clamp_u8 (sum_list us div 4)], vp[off := clamp_u8 (sum_list vs div 4)])) (yp, up, vp) =
      (put_luma rgb w b yp, put_chroma chroma_u 0 rgb w b up, put_chroma chroma_v 0 rgb w b vp)"
      by (simp add: Let_def b put_chroma_def)
  qed
  with assms show ?thesis by (simp add: put_planes yuv_planes_def)
qed

lemma scalar_nv12:
  assumes "even w" "even h" "length yp = w * h" "length uvp = (w div 2) * (h div 2) * 2"
  shows "rgb_to_nv12_scalar rgb w h (yp, uvp) = nv12_planes 0 rgb w h"
proof -
  have "rgb_to_nv12_scalar rgb w h (yp, uvp) =
      (fold (put_luma rgb w) (blocks w h) yp, fold (put_uv 0 rgb w) (blocks w h) uvp)"
    unfolding rgb_to_nv12_scalar_def
  proof (rule fold_pair)
    fix b :: "nat \<times> nat" and yp uvp :: "u8 list"
    obtain k l where b: "b = (k, l)" by force
    obtain us vs where "scalar_block rgb w k l yp = (put_luma rgb w (k, l) yp, us, vs)"
      "sum_list us = block_sum rgb w k l chroma_u" "sum_list vs = block_sum rgb w k l chroma_v"
      by (rule scalar_step)
    then show "(case b of (by, bx) \<Rightarrow> \<lambda>(yp, uvp). case scalar_block rgb w by bx yp of (yp, us, vs) \<Rightarrow>
         let off = (by * (w div 2) + bx) * 2
         in (yp, uvp[off := clamp_u8 (sum_list us div 4), off + 1 := clamp_u8 (sum_list vs div 4)])) (yp, uvp) =
      (put_luma rgb w b yp, put_uv 0 rgb w b uvp)"
      by (simp add: Let_def b put_uv_def)
  qed
  with assms show ?thesis by (simp add: put_planes nv12_planes_def)
qed

lemma vector_yuv:
  assumes "length yp = w * h" "length up = (w div 2) * (h div 2)" "length vp = (w div 2) * (h div 2)"
  shows "rgb_to_yuv420p_avx2 rgb w h (yp, up, vp) = yuv_planes 2 rgb w h"
    "rgb_to_yuv420p_neon rgb w h (yp, up, vp) = yuv_planes 2 rgb w h"
proof -
  let ?F = "\<lambda>(by, bx) (yp, up, vp).
       let off = by * (w div 2) + bx
       in (yp, up[off := clamp_u8 ((block_sum rgb w by bx chroma_u + 2) div 4)],
           vp[off := clamp_u8 ((block_sum rgb w by bx chroma_v + 2) div 4)])"
  have "fold ?F (blocks w h) (q, up, vp) = (fold (\<lambda>b p. p) (blocks w h) q,
      fold (put_chroma chroma_u 2 rgb w) (blocks w h) up, fold (put_chroma chroma_v 2 rgb w) (blocks w h) vp)" for q :: "u8 list"
    by (rule fold_triple) (simp add: put_chroma_def Let_def split: prod.split)
  then show "rgb_to_yuv420p_avx2 rgb w h (yp, up, vp) = yuv_planes 2 rgb w h"
    "rgb_to_yuv420p_neon rgb w h (yp, up, vp) = yuv_planes 2 rgb w h"
    using assms unfolding rgb_to_yuv420p_avx2_def rgb_to_yuv420p_neon_def
    by (simp_all add: fold_skip put_planes yuv_planes_def avx2_luma_all neon_luma_all)
qed

lemma vector_nv12:
  assumes "length yp = w * h" "length uvp = (w div 2) * (h div 2) * 2"
  shows "rgb_to_nv12_avx2 rgb w h (yp, uvp) = nv12_planes 2 rgb w h"
    "rgb_to_nv12_neon rgb w h (yp, uvp) = nv12_planes 2 rgb w h"
proof -
  let ?F = "\<lambda>(by, bx) (yp, uvp).
       let off = (by * (w div 2) + bx) * 2
       in (yp, uvp[off := clamp_u8 ((block_sum rgb w by bx chroma_u + 2) div 4),
                   off + 1 := clamp_u8 ((block_sum rgb w by bx chroma_v + 2) div 4)])"
  have "fold ?F (blocks w h) (q, uvp) = (fold (\<lambda>b p. p) (blocks w h) q, fold (put_uv 2 rgb w) (blocks w h) uvp)"
    for q :: "u8 list"
    by (rule fold_pair) (simp add: put_uv_def Let_def split: prod.split)
  then show "rgb_to_nv12_avx2 rgb w h (yp, uvp) = nv12_planes 2 rgb w h"
    "rgb_to_nv12_neon rgb w h (yp, uvp) = nv12_planes 2 rgb w h"
    using assms unfolding rgb_to_nv12_avx2_def rgb_to_nv12_neon_def
    by (simp_all add: fold_skip put_planes nv12_planes_def avx2_luma_all neon_luma_all)
qed

section \<open>The public functions\<close>

text \<open>The rounding of the version a processor is given.\<close>

definition rounding :: "cpu \<Rightarrow> int" where
  "rounding c = (if optimal c \<in> {Avx2, Avx512, Neon} then 2 else 0)"

lemma convert_planes:
  assumes "even w" "even h" "length yp = w * h"
  shows "length up = (w div 2) * (h div 2) \<Longrightarrow> length vp = (w div 2) * (h div 2) \<Longrightarrow>
      convert_yuv420p c rgb w h (yp, up, vp) = yuv_planes (rounding c) rgb w h"
    and "length uvp = (w div 2) * (h div 2) * 2 \<Longrightarrow>
      convert_nv12 c rgb w h (yp, uvp) = nv12_planes (rounding c) rgb w h"
  using assms
  by (auto simp: convert_yuv420p_def convert_nv12_def rounding_def optimal_def scalar_yuv scalar_nv12 vector_yuv vector_nv12
      split: target_arch.split)

lemma check_frames_ok: "list_all (\<lambda>rgb. length rgb = n) rgbs \<Longrightarrow> check_frames n i rgbs = Inr ()"
  by (induction rgbs arbitrary: i) simp_all

lemma batch_loop_replicate: "batch_loop f rs (replicate (length rs) p) = map (\<lambda>r. f r p) rs"
  by (induction rs) simp_all

lemma batch_convert:
  assumes "list_all (\<lambda>rgb. length rgb = w * h * 3) rgbs" "even w" "even h" "0 < w" "0 < h"
  shows "rgb_batch_to_nv12 c rgbs w h = Inr (map (\<lambda>rgb. nv12_planes (rounding c) rgb w h) rgbs)"
    and "rgb_batch_to_yuv420p c rgbs w h = Inr (map (\<lambda>rgb. yuv_planes (rounding c) rgb w h) rgbs)"
  using assms check_frames_ok [OF assms(1), of 0]
  by (auto simp: rgb_batch_to_nv12_def rgb_batch_to_yuv420p_def rgb_batch_to_nv12_avx2_def rgb_batch_to_nv12_neon_def
      rgb_batch_to_yuv420p_avx2_def rgb_batch_to_yuv420p_neon_def batch_loop_replicate check_dims_def rounding_def
      optimal_def scalar_yuv scalar_nv12 vector_yuv vector_nv12 Let_def split: target_arch.split)

lemma scalar_alloc:
  assumes "length rgb = w * h * 3" "even w" "even h"
  shows "scalar_rgb_to_yuv420p rgb w h = Inr (yuv_planes 0 rgb w h)" "scalar_rgb_to_nv12 rgb w h = Inr (nv12_planes 0 rgb w h)"
  using assms by (simp_all add: scalar_rgb_to_yuv420p_def scalar_rgb_to_nv12_def check_even_def scalar_yuv scalar_nv12)

lemma even_frame:
  assumes "even w" "even h" "0 < w" "0 < h" "length rgb = w * h * 3"
  shows "rgb_to_yuv420p c rgb w h = Inr (yuv_planes (rounding c) rgb w h)"
    and "rgb_to_nv12 c rgb w h = Inr (nv12_planes (rounding c) rgb w h)"
  using assms by (simp_all add: rgb_to_yuv420p_def rgb_to_nv12_def check_dims_def convert_planes)

text \<open>C35: on a frame with even sides and three bytes per pixel, every version of the conversion (scalar, AVX2 with its
  packed lanes, NEON with its rows of eight) returns the planes of the reference definition: the luma of every pixel
  in order, and for each two-by-two block the mean of its four chroma samples, rounded as the version of the
  processor rounds; the batch functions do so for every frame.\<close>

theorem conversion_equals_reference:
  assumes "even w" "even h" "0 < w" "0 < h" and "list_all (\<lambda>rgb. length rgb = w * h * 3) (rgb # rgbs)"
  shows "rgb_to_yuv420p c rgb w h = Inr (yuv_planes (rounding c) rgb w h) \<and>
    rgb_to_nv12 c rgb w h = Inr (nv12_planes (rounding c) rgb w h) \<and>
    rgb_batch_to_yuv420p c (rgb # rgbs) w h = Inr (map (\<lambda>rgb. yuv_planes (rounding c) rgb w h) (rgb # rgbs)) \<and>
    rgb_batch_to_nv12 c (rgb # rgbs) w h = Inr (map (\<lambda>rgb. nv12_planes (rounding c) rgb w h) (rgb # rgbs)) \<and>
    scalar_rgb_to_yuv420p rgb w h = Inr (yuv_planes 0 rgb w h)"
  using assms batch_convert [OF assms(5), of c] by (simp add: even_frame scalar_alloc)

theorem conversion_equals_reference_witness:
  "rgb_to_yuv420p \<lparr>cpu_arch = X86_64, cpu_avx512f = False, cpu_sse2 = True, cpu_avx2 = True\<rparr>
     [0, 0, 0, 255, 255, 255, 255, 0, 0, 0, 0, 255] 2 2 = Inr ([0, 255, 77, 29], [149], [155])"
proof -
  let ?c = "\<lparr>cpu_arch = X86_64, cpu_avx512f = False, cpu_sse2 = True, cpu_avx2 = True\<rparr>"
  let ?rgb = "[0, 0, 0, 255, 255, 255, 255, 0, 0, 0, 0, 255] :: u8 list"
  have "rgb_to_yuv420p ?c ?rgb 2 2 = Inr (yuv_planes (rounding ?c) ?rgb 2 2)"
    using conversion_equals_reference [of 2 2 ?rgb "[]" ?c] by simp
  also have "yuv_planes (rounding ?c) ?rgb 2 2 = ([0, 255, 77, 29], [149], [155])" by code_simp
  finally show ?thesis .
qed

lemma clamp_near: "a \<le> b \<Longrightarrow> b \<le> a + 1 \<Longrightarrow> \<bar>uint (clamp_u8 b) - uint (clamp_u8 a)\<bar> \<le> 1"
proof -
  have "uint (clamp_u8 v) = max 0 (min 255 v)" for v
    by (simp add: clamp_u8_def word_of_int_inverse uint_word_of_int min_def max_def)
  then show "a \<le> b \<Longrightarrow> b \<le> a + 1 \<Longrightarrow> \<bar>uint (clamp_u8 b) - uint (clamp_u8 a)\<bar> \<le> 1" by (simp add: min_def max_def)
qed

lemma mean_near: "\<bar>uint (mean f (rounding c) rgb w k) - uint (mean f (rounding d) rgb w k)\<bar> \<le> 1"
proof -
  have "s div 4 \<le> (s + 2) div 4" "(s + 2) div 4 \<le> s div 4 + 1" for s :: int by linarith+
  then have "\<bar>uint (mean f 2 rgb w k) - uint (mean f 0 rgb w k)\<bar> \<le> 1"
    unfolding mean_def by (simp add: clamp_near)
  then show ?thesis by (auto simp: rounding_def abs_minus_commute)
qed

text \<open>two processors give the same luma plane, and chroma samples that differ by at most one; the difference is
  the rounding: the scalar version cuts the mean of a block, the AVX2 and NEON versions round it.\<close>

theorem versions_differ_by_one:
  assumes "even w" "even h" "0 < w" "0 < h" "length rgb = w * h * 3"
  shows "\<exists>y u v u' v'. rgb_to_yuv420p c rgb w h = Inr (y, u, v) \<and> rgb_to_yuv420p d rgb w h = Inr (y, u', v') \<and>
      length y = w * h \<and> list_all (\<lambda>p. length p = (w div 2) * (h div 2)) [u, v, u', v'] \<and>
      (\<forall>k < (w div 2) * (h div 2).
         \<bar>uint (u ! k) - uint (u' ! k)\<bar> \<le> 1 \<and> \<bar>uint (v ! k) - uint (v' ! k)\<bar> \<le> 1)"
  using even_frame [OF assms] by (simp add: yuv_planes_def mean_near)

theorem versions_differ_by_one_witness:
  "let rgb = [255, 0, 0, 255, 0, 0, 255, 0, 0, 0, 0, 0] :: u8 list;
       scalar = \<lparr>cpu_arch = OtherArch, cpu_avx512f = False, cpu_sse2 = False, cpu_avx2 = False\<rparr>;
       neon = \<lparr>cpu_arch = Aarch64, cpu_avx512f = False, cpu_sse2 = False, cpu_avx2 = False\<rparr>
   in (\<exists>y u v u' v'. rgb_to_yuv420p neon rgb 2 2 = Inr (y, u, v) \<and> rgb_to_yuv420p scalar rgb 2 2 = Inr (y, u', v') \<and>
        \<bar>uint (u ! 0) - uint (u' ! 0)\<bar> \<le> 1)"
proof -
  let ?rgb = "[255, 0, 0, 255, 0, 0, 255, 0, 0, 0, 0, 0] :: u8 list"
  show ?thesis
    using versions_differ_by_one [of 2 2 ?rgb
        "\<lparr>cpu_arch = Aarch64, cpu_avx512f = False, cpu_sse2 = False, cpu_avx2 = False\<rparr>"
        "\<lparr>cpu_arch = OtherArch, cpu_avx512f = False, cpu_sse2 = False, cpu_avx2 = False\<rparr>"]
    by (fastforce simp: Let_def)
qed

text \<open>converting in place puts the two planes of the NV12 frame one after the other at the front of the buffer,
  returns their total length (half the length of the RGB data), and leaves the bytes behind them as they were; the
  interleaved plane holds the two chroma planes of the YUV420P frame, sample by sample.\<close>

theorem in_place_conversion:
  assumes "even w" "even h" "0 < w" "0 < h" "w * h * 3 \<le> length buffer"
  shows "\<exists>y uv u v n. rgb_to_nv12_in_place c buffer w h = Inr (n, y @ uv @ drop n buffer) \<and>
      rgb_to_nv12 c (take (w * h * 3) buffer) w h = Inr (y, uv) \<and>
      rgb_to_yuv420p c (take (w * h * 3) buffer) w h = Inr (y, u, v) \<and>
      n = length y + length uv \<and> 2 * n = w * h * 3 \<and>
      uv = concat (map2 (\<lambda>a b. [a, b]) u v)"
proof -
  let ?rgb = "take (w * h * 3) buffer" and ?n = "(w div 2) * (h div 2)"
  have len: "length ?rgb = w * h * 3" using assms by simp
  note conv = even_frame [OF assms(1-4) len]
  let ?y = "map (lum ?rgb) [0..<w * h]" and ?uv = "map (mean_uv (rounding c) ?rgb w) [0..<?n * 2]"
  let ?u = "map (mean chroma_u (rounding c) ?rgb w) [0..<?n]" and ?v = "map (mean chroma_v (rounding c) ?rgb w) [0..<?n]"
  have "map (mean_uv r ?rgb w) [0..<m * 2] =
      concat (map2 (\<lambda>a b. [a, b]) (map (mean chroma_u r ?rgb w) [0..<m]) (map (mean chroma_v r ?rgb w) [0..<m]))" for r m
    by (induction m) (simp_all add: mean_uv_def)
  then have "?uv = concat (map2 (\<lambda>a b. [a, b]) ?u ?v)" .
  moreover have "2 * (w * h + ?n * 2) = w * h * 3" using assms(1,2) by (auto elim!: evenE)
  moreover have "rgb_to_nv12_in_place c buffer w h = Inr (w * h + ?n * 2, ?y @ ?uv @ drop (w * h + ?n * 2) buffer)"
    using assms by (simp add: rgb_to_nv12_in_place_def check_dims_def convert_planes Let_def nv12_planes_def)
  moreover have "w * h + ?n * 2 = length ?y + length ?uv" by simp
  moreover note conv [of c, unfolded nv12_planes_def yuv_planes_def]
  ultimately show ?thesis by blast
qed

theorem in_place_conversion_witness:
  "fst (projr (rgb_to_nv12_in_place \<lparr>cpu_arch = OtherArch, cpu_avx512f = False, cpu_sse2 = False, cpu_avx2 = False\<rparr>
     (replicate 13 7) 2 2)) = 6"
  using in_place_conversion [of 2 2 "replicate 13 7"
      "\<lparr>cpu_arch = OtherArch, cpu_avx512f = False, cpu_sse2 = False, cpu_avx2 = False\<rparr>"] by auto

end
