(* ===== verification/Storage_Types.thy ===== *)
theory Storage_Types
  imports Text_Parsing
begin

text \<open>
  The storage crate's errors (\<open>error.rs\<close>) and the metadata of objects (\<open>metadata.rs\<close>). The message of an I/O error
  of the operating system is its text.
\<close>

section \<open>Errors and metadata\<close>

datatype storage_error =
    NotFound string
  | PermissionDenied string
  | AlreadyExists string
  | InvalidPath string
  | NetworkError string
  | StorageTimeout string
  | StorageIo string
  | Cloud string
  | StorageOther string

fun display_storage_error :: "storage_error \<Rightarrow> string" where
  "display_storage_error (NotFound m) = ''object not found: '' @ m"
| "display_storage_error (PermissionDenied m) = ''permission denied: '' @ m"
| "display_storage_error (AlreadyExists m) = ''object already exists: '' @ m"
| "display_storage_error (InvalidPath m) = ''invalid path: '' @ m"
| "display_storage_error (NetworkError m) = ''network error: '' @ m"
| "display_storage_error (StorageTimeout m) = ''operation timed out: '' @ m"
| "display_storage_error (StorageIo m) = ''I/O error: '' @ m"
| "display_storage_error (Cloud m) = ''cloud storage error: '' @ m"
| "display_storage_error (StorageOther m) = m"

definition storage_retryable :: "storage_error \<Rightarrow> bool" where
  "storage_retryable e = (case e of NetworkError _ \<Rightarrow> True | StorageTimeout _ \<Rightarrow> True | Cloud _ \<Rightarrow> True | _ \<Rightarrow> False)"

record object_metadata =
  om_path :: string
  om_size :: u64
  om_last_modified :: "timestamp option"
  om_content_type :: "string option"
  om_is_dir :: bool

definition object_metadata_new :: "string \<Rightarrow> u64 \<Rightarrow> object_metadata" where
  "object_metadata_new path n =
     \<lparr> om_path = path, om_size = n, om_last_modified = None, om_content_type = None, om_is_dir = False \<rparr>"

definition object_metadata_dir :: "string \<Rightarrow> object_metadata" where
  "object_metadata_dir path =
     \<lparr> om_path = path, om_size = 0, om_last_modified = None, om_content_type = None, om_is_dir = True \<rparr>"

definition om_with_last_modified :: "timestamp \<Rightarrow> object_metadata \<Rightarrow> object_metadata" where
  "om_with_last_modified t m = m\<lparr>om_last_modified := Some t\<rparr>"

definition om_with_content_type :: "string \<Rightarrow> object_metadata \<Rightarrow> object_metadata" where
  "om_with_content_type t m = m\<lparr>om_content_type := Some t\<rparr>"

record streaming_config =
  sg_chunk_size :: nat
  sg_prefetch_count :: nat

definition default_streaming_config :: streaming_config where
  "default_streaming_config = \<lparr> sg_chunk_size = 16 * 1024 * 1024, sg_prefetch_count = 2 \<rparr>"

definition sg_with_chunk_size :: "nat \<Rightarrow> streaming_config \<Rightarrow> streaming_config" where
  "sg_with_chunk_size n c = c\<lparr>sg_chunk_size := n\<rparr>"

text \<open>The prefetch count is reserved: setting it does nothing.\<close>

definition sg_with_prefetch_count :: "nat \<Rightarrow> streaming_config \<Rightarrow> streaming_config" where
  "sg_with_prefetch_count n c = c"

end
