(* ===== verification/Scanner.thy ===== *)
theory Scanner
  imports Controller_Logic Lock_Manager Storage_Types
begin

text \<open>
  \<open>scanner.rs\<close>: the actor that turns the sources of submitted batches into work units. One scanner at a time is the
  leader (a lock); a cycle takes the batches of the phases Pending and Discovering, lists their sources, creates a
  work unit and a pending entry per new file, and moves the batch on to Running or Failed. The state of an operation
  is the client and the metrics. What storage contains during an operation is the argument \<open>create\<close>: the factory's
  answer for a URL, a backend with its answers to \<open>list\<close> and \<open>metadata\<close>. The hash function of the standard library is
  the argument \<open>hasher\<close>. Chunks are taken of a positive size (\<open>chunks\<close> panics for zero). The loop of \<open>run\<close> is
  \<open>scanner_tick\<close>; its shutdown channel only ends it.
\<close>

section \<open>Configuration and metrics\<close>

record scanner_config =
  sc_batch_namespace :: string
  sc_scan_interval :: int
  sc_batch_size :: nat
  sc_max_batches_per_cycle :: nat

definition DEFAULT_SCAN_INTERVAL_SECS :: nat where
  "DEFAULT_SCAN_INTERVAL_SECS = 60"

definition DEFAULT_BATCH_SIZE :: nat where
  "DEFAULT_BATCH_SIZE = 100"

definition default_scanner_config :: scanner_config where
  "default_scanner_config =
     \<lparr> sc_batch_namespace = ''jobs'', sc_scan_interval = duration_seconds (int DEFAULT_SCAN_INTERVAL_SECS),
       sc_batch_size = DEFAULT_BATCH_SIZE, sc_max_batches_per_cycle = 10 \<rparr>"

definition scanner_config_new :: "string \<Rightarrow> scanner_config" where
  "scanner_config_new namespace = default_scanner_config\<lparr>sc_batch_namespace := namespace\<rparr>"

definition scanner_config_from_env :: "(string \<Rightarrow> string option) \<Rightarrow> string + scanner_config" where
  "scanner_config_from_env env =
     Inr \<lparr> sc_batch_namespace = (case env ''SCANNER_BATCH_NAMESPACE'' of Some s \<Rightarrow> s | None \<Rightarrow> ''jobs''),
       sc_scan_interval =
         duration_seconds (int (env_unsigned env 64 ''SCANNER_SCAN_INTERVAL_SECS'' DEFAULT_SCAN_INTERVAL_SECS)),
       sc_batch_size = env_unsigned env 64 ''SCANNER_BATCH_SIZE'' DEFAULT_BATCH_SIZE,
       sc_max_batches_per_cycle = env_unsigned env 64 ''SCANNER_MAX_BATCHES_PER_CYCLE'' 10 \<rparr>"

definition sc_with_scan_interval :: "int \<Rightarrow> scanner_config \<Rightarrow> scanner_config" where
  "sc_with_scan_interval d c = c\<lparr>sc_scan_interval := d\<rparr>"

definition sc_with_batch_size :: "nat \<Rightarrow> scanner_config \<Rightarrow> scanner_config" where
  "sc_with_batch_size n c = c\<lparr>sc_batch_size := n\<rparr>"

definition sc_with_max_batches_per_cycle :: "nat \<Rightarrow> scanner_config \<Rightarrow> scanner_config" where
  "sc_with_max_batches_per_cycle n c = c\<lparr>sc_max_batches_per_cycle := n\<rparr>"

record scanner_metrics =
  sm_files_discovered :: u64
  sm_jobs_created :: u64
  sm_duplicates_skipped :: u64
  sm_scan_errors :: u64
  sm_last_scan_duration_ms :: u64
  sm_is_leader :: u64

definition scanner_metrics_new :: scanner_metrics where
  "scanner_metrics_new =
     \<lparr> sm_files_discovered = 0, sm_jobs_created = 0, sm_duplicates_skipped = 0, sm_scan_errors = 0,
       sm_last_scan_duration_ms = 0, sm_is_leader = 0 \<rparr>"

definition inc_files_discovered :: "u64 \<Rightarrow> scanner_metrics \<Rightarrow> scanner_metrics" where
  "inc_files_discovered n m = m\<lparr>sm_files_discovered := sm_files_discovered m + n\<rparr>"

definition inc_jobs_created :: "u64 \<Rightarrow> scanner_metrics \<Rightarrow> scanner_metrics" where
  "inc_jobs_created n m = m\<lparr>sm_jobs_created := sm_jobs_created m + n\<rparr>"

definition inc_duplicates_skipped :: "u64 \<Rightarrow> scanner_metrics \<Rightarrow> scanner_metrics" where
  "inc_duplicates_skipped n m = m\<lparr>sm_duplicates_skipped := sm_duplicates_skipped m + n\<rparr>"

definition inc_scan_errors :: "scanner_metrics \<Rightarrow> scanner_metrics" where
  "inc_scan_errors m = m\<lparr>sm_scan_errors := sm_scan_errors m + 1\<rparr>"

definition set_last_scan_duration :: "u64 \<Rightarrow> scanner_metrics \<Rightarrow> scanner_metrics" where
  "set_last_scan_duration d m = m\<lparr>sm_last_scan_duration_ms := d\<rparr>"

definition set_leader :: "bool \<Rightarrow> scanner_metrics \<Rightarrow> scanner_metrics" where
  "set_leader b m = m\<lparr>sm_is_leader := (if b then 1 else 0)\<rparr>"

record metrics_snapshot =
  msn_files_discovered :: u64
  msn_jobs_created :: u64
  msn_duplicates_skipped :: u64
  msn_scan_errors :: u64
  msn_last_scan_duration_ms :: u64
  msn_is_leader :: bool

definition sm_snapshot :: "scanner_metrics \<Rightarrow> metrics_snapshot" where
  "sm_snapshot m =
     \<lparr> msn_files_discovered = sm_files_discovered m, msn_jobs_created = sm_jobs_created m,
       msn_duplicates_skipped = sm_duplicates_skipped m, msn_scan_errors = sm_scan_errors m,
       msn_last_scan_duration_ms = sm_last_scan_duration_ms m, msn_is_leader = (sm_is_leader m = 1) \<rparr>"

record scan_stats =
  ss_files_discovered :: u64
  ss_jobs_created :: u64
  ss_duplicates_skipped :: u64

definition scan_stats_zero :: scan_stats where
  "scan_stats_zero = \<lparr> ss_files_discovered = 0, ss_jobs_created = 0, ss_duplicates_skipped = 0 \<rparr>"

definition add_stats :: "scan_stats \<Rightarrow> scan_stats \<Rightarrow> scan_stats" where
  "add_stats a b =
     \<lparr> ss_files_discovered = ss_files_discovered a + ss_files_discovered b,
       ss_jobs_created = ss_jobs_created a + ss_jobs_created b,
       ss_duplicates_skipped = ss_duplicates_skipped a + ss_duplicates_skipped b \<rparr>"

type_synonym ('s, 'a) scanner = "('s client \<times> scanner_metrics, tikv_error, 'a) prog"

section \<open>Leadership\<close>

definition wrap_i64 :: "int \<Rightarrow> int" where
  "wrap_i64 v = (v + 2 ^ 63) mod 2 ^ 64 - 2 ^ 63"

definition leader_ttl :: "scanner_config \<Rightarrow> int" where
  "leader_ttl cfg = duration_seconds (max (wrap_i64 (secs_i64 (sc_scan_interval cfg) * 3)) 60)"

definition try_become_leader ::
    "('s, 'v) kv \<Rightarrow> 'v codecs \<Rightarrow> scanner_config \<Rightarrow> string \<Rightarrow> ('s, lock_guard option) scanner" where
  "try_become_leader K C cfg pod =
     handleM (on_fst (lm_acquire_with_renewal K C (lock_manager_new pod) ''scanner_lock'' (leader_ttl cfg)))
       (\<lambda>e. case e of
              LockAcquisitionFailed _ \<Rightarrow> bindM (on_snd (set_leader False)) (\<lambda>_. ret None)
            | _ \<Rightarrow> throw e)
       (\<lambda>guard. bindM (on_snd (set_leader True)) (\<lambda>_. ret (Some guard)))"

section \<open>Sources\<close>

record storage_view =
  sv_list :: "string \<Rightarrow> storage_error + object_metadata list"
  sv_metadata :: "string \<Rightarrow> storage_error + object_metadata"

type_synonym storage_factory = "string \<Rightarrow> storage_error + storage_view"

text \<open>The part of a URL after the bucket.\<close>

definition path_for_list :: "string \<Rightarrow> string" where
  "path_for_list url =
     (case split_str ''://'' url of
        Some (_, after) \<Rightarrow> (case split_once CHR ''/'' after of Some (_, p) \<Rightarrow> p | None \<Rightarrow> [])
      | None \<Rightarrow> url)"

definition scan_source_url :: "storage_factory \<Rightarrow> string \<Rightarrow> storage_error + object_metadata list" where
  "scan_source_url create url =
     (case create url of
        Inl e \<Rightarrow> Inl e
      | Inr storage \<Rightarrow>
          (case sv_list storage (path_for_list url) of
             Inl e \<Rightarrow> Inl e
           | Inr all \<Rightarrow>
               (let files = filter (\<lambda>m. \<not> om_is_dir m) all
                in if files \<noteq> [] then Inr files
                   else case sv_metadata storage (path_for_list url) of
                          Inr m \<Rightarrow> Inr [m]
                        | Inl (NotFound _) \<Rightarrow> Inr []
                        | Inl e \<Rightarrow> Inl e)))"

definition hex_digit :: "nat \<Rightarrow> char" where
  "hex_digit d = (if d < 10 then char_of (48 + d) else char_of (87 + d))"

definition hex16 :: "u64 \<Rightarrow> string" where
  "hex16 w = map (\<lambda>i. hex_digit (unat w div 16 ^ (15 - i) mod 16)) [0..<16]"

type_synonym hasher = "string \<Rightarrow> u64 \<Rightarrow> string \<Rightarrow> u64"

definition compute_file_hash :: "hasher \<Rightarrow> object_metadata \<Rightarrow> string \<Rightarrow> string" where
  "compute_file_hash hasher m config_hash = hex16 (hasher (om_path m) (om_size m) config_hash)"

section \<open>Work units\<close>

definition check_existing_work_units ::
    "('s, 'v) kv \<Rightarrow> scanner_config \<Rightarrow> string \<Rightarrow> string list \<Rightarrow> ('s, string set) tc" where
  "check_existing_work_units K cfg batch_id hashes =
     (if hashes = [] then ret {}
      else foldM (\<lambda>chunk existing.
             bindM (tc_batch_get K (map (\<lambda>h. unit_key batch_id h) chunk)) (\<lambda>results.
             ret (existing \<union> set (map fst (filter (\<lambda>(h, r). r \<noteq> None) (zip chunk results))))))
             (chunks (sc_batch_size cfg) hashes) {})"

definition create_work_unit ::
    "timestamp \<Rightarrow> string \<Rightarrow> string \<Rightarrow> object_metadata \<Rightarrow> string \<Rightarrow> string \<Rightarrow> string \<Rightarrow> work_unit" where
  "create_work_unit now batch_id source_url m hash output_prefix config_hash =
     work_unit_with_id now hash batch_id [work_file_new source_url (om_size m)] output_prefix config_hash"

text \<open>The pairs of a chunk: all units, then all pending entries.\<close>

fun unit_pairs :: "'v codecs \<Rightarrow> work_unit list \<Rightarrow> tikv_error + (key \<times> 'v) list" where
  "unit_pairs C [] = Inr []"
| "unit_pairs C (u # us) =
     (case encode (c_unit C) u of
        Inl e \<Rightarrow> Inl e
      | Inr v \<Rightarrow>
          (case unit_pairs C us of
             Inl e \<Rightarrow> Inl e
           | Inr pairs \<Rightarrow> Inr ((unit_key (wu_batch_id u) (wu_id u), v) # pairs)))"

definition chunk_pairs ::
    "'v codecs \<Rightarrow> timestamp \<Rightarrow> string \<Rightarrow> string \<Rightarrow> string \<Rightarrow> string \<Rightarrow> (object_metadata \<times> string) list \<Rightarrow>
     tikv_error + (key \<times> 'v) list" where
  "chunk_pairs C now batch_id source_url output_prefix config_hash chunk =
     (let units = map (\<lambda>(m, h). create_work_unit now batch_id source_url m h output_prefix config_hash) chunk
      in case unit_pairs C units of
           Inl e \<Rightarrow> Inl e
         | Inr pairs \<Rightarrow> Inr (pairs @ map (\<lambda>u. (pending_key batch_id (wu_id u), raw_bytes C (wu_batch_id u))) units))"

definition create_work_units_for_files ::
    "('s, 'v) kv \<Rightarrow> 'v codecs \<Rightarrow> scanner_config \<Rightarrow> string \<Rightarrow> string \<Rightarrow> (object_metadata \<times> string) list \<Rightarrow> string \<Rightarrow> string \<Rightarrow>
     ('s, u64) tc" where
  "create_work_units_for_files K C cfg batch_id source_url new_files output_prefix config_hash =
     foldM (\<lambda>chunk created.
       bindM now_utc (\<lambda>now.
       bindM (liftR (chunk_pairs C now batch_id source_url output_prefix config_hash chunk)) (\<lambda>pairs.
       bindM (tc_batch_put K pairs) (\<lambda>_. ret (created + of_nat (length chunk))))))
       (chunks (sc_batch_size cfg) new_files) 0"

definition process_single_source ::
    "('s, 'v) kv \<Rightarrow> 'v codecs \<Rightarrow> scanner_config \<Rightarrow> storage_factory \<Rightarrow> hasher \<Rightarrow> string \<Rightarrow> string \<Rightarrow> string \<Rightarrow> string \<Rightarrow>
     ('s, scan_stats) tc" where
  "process_single_source K C cfg create hasher batch_id source_url config_hash output_prefix =
     (case scan_source_url create source_url of
        Inl e \<Rightarrow> throw (Other (''Failed to scan source: '' @ display_storage_error e))
      | Inr files \<Rightarrow>
          (let file_hashes = map (\<lambda>m. (m, compute_file_hash hasher m config_hash)) files
           in bindM (check_existing_work_units K cfg batch_id (map snd file_hashes)) (\<lambda>existing.
              let new_files = filter (\<lambda>(m, h). h \<notin> existing) file_hashes
              in bindM (create_work_units_for_files K C cfg batch_id source_url new_files output_prefix config_hash) (\<lambda>created.
                 ret \<lparr> ss_files_discovered = of_nat (length files), ss_jobs_created = created,
                       ss_duplicates_skipped = of_nat (length files) - of_nat (length new_files) \<rparr>))))"

section \<open>Batches\<close>

definition default_on_error :: "'v codecs \<Rightarrow> timestamp \<Rightarrow> 'v option \<Rightarrow> batch_status" where
  "default_on_error C now data =
     (case data of
        Some d \<Rightarrow> (case de (c_status C) d of Inr st \<Rightarrow> st | Inl _ \<Rightarrow> status_new now)
      | None \<Rightarrow> status_new now)"

text \<open>What one entry of the phase index adds to the batches; a stale entry is deleted, and a failure to delete it is
  only logged.\<close>

definition pending_entry ::
    "('s, 'v) kv \<Rightarrow> 'v codecs \<Rightarrow> scanner_config \<Rightarrow> batch_phase \<Rightarrow> key \<Rightarrow> (string \<times> batch_spec \<times> batch_status) list \<Rightarrow>
     ('s, (string \<times> batch_spec \<times> batch_status) list) tc" where
  "pending_entry K C cfg p k batches =
     (let batch_id = split_last CHR ''/'' k
      in bindM (tc_get K (spec_key batch_id)) (\<lambda>data.
         case data of
           None \<Rightarrow> ret batches
         | Some d \<Rightarrow>
             (case de (c_spec C) d of
                Inl _ \<Rightarrow> ret batches
              | Inr spec \<Rightarrow>
                  (if md_namespace (bs_metadata spec) \<noteq> sc_batch_namespace cfg then ret batches
                   else bindM (tc_get K (status_key batch_id)) (\<lambda>sd.
                        bindM now_utc (\<lambda>now.
                        let status = default_on_error C now sd
                        in if phase status \<in> {Pending, Discovering} then ret (batches @ [(batch_id, spec, status)])
                           else handleM (tc_delete K (phase_key p batch_id)) (\<lambda>_. ret batches) (\<lambda>_. ret batches)))))))"

fun pending_from ::
    "('s, 'v) kv \<Rightarrow> 'v codecs \<Rightarrow> scanner_config \<Rightarrow> batch_phase list \<Rightarrow> (string \<times> batch_spec \<times> batch_status) list \<Rightarrow>
     ('s, (string \<times> batch_spec \<times> batch_status) list) tc" where
  "pending_from K C cfg [] batches = ret batches"
| "pending_from K C cfg (p # ps) batches =
     bindM (tc_scan K (phase_prefix p) 1000) (\<lambda>results.
     bindM (foldM (\<lambda>(k, v) bs. pending_entry K C cfg p k bs) results batches) (\<lambda>batches'.
     if length batches' \<ge> sc_max_batches_per_cycle cfg then ret batches'
     else pending_from K C cfg ps batches'))"

definition get_pending_batches ::
    "('s, 'v) kv \<Rightarrow> 'v codecs \<Rightarrow> scanner_config \<Rightarrow> ('s, (string \<times> batch_spec \<times> batch_status) list) tc" where
  "get_pending_batches K C cfg = pending_from K C cfg [Pending, Discovering] []"

definition initialize_discovery_phase ::
    "('s, 'v) kv \<Rightarrow> 'v codecs \<Rightarrow> string \<Rightarrow> batch_status \<Rightarrow> batch_spec \<Rightarrow> ('s, batch_status) tc" where
  "initialize_discovery_phase K C batch_id status spec =
     (if phase status \<noteq> Pending then ret status
      else bindM now_utc (\<lambda>now.
           let status' = (st_transition_to now Discovering status)
                 \<lparr>discovery := Some (discovery_new (of_nat (length (js_sources (bs_spec spec)))))\<rparr>
           in bindM (save_status K C batch_id status') (\<lambda>_.
              bindM (update_phase_index K C batch_id Pending Discovering) (\<lambda>_. ret status'))))"

definition sources_scanned :: "batch_status \<Rightarrow> u32" where
  "sources_scanned status = (case discovery status of Some d \<Rightarrow> ds_sources_scanned d | None \<Rightarrow> 0)"

definition finalize_batch_phase ::
    "('s, 'v) kv \<Rightarrow> 'v codecs \<Rightarrow> string \<Rightarrow> batch_status \<Rightarrow> u32 \<Rightarrow> u64 \<Rightarrow> u64 \<Rightarrow> ('s, batch_status) tc" where
  "finalize_batch_phase K C batch_id status total_sources jobs_created files_discovered =
     (if sources_scanned status < total_sources then ret status
      else bindM now_utc (\<lambda>now.
           if jobs_created = 0 \<and> files_discovered = 0
           then let status' = (st_transition_to now Failed status)
                      \<lparr>bst_error := Some (''No files discovered from '' @ show_nat (unat total_sources) @ '' source(s)'')\<rparr>
                in bindM (save_status K C batch_id status') (\<lambda>_.
                   bindM (update_phase_index K C batch_id Discovering Failed) (\<lambda>_. ret status'))
           else let status' = st_transition_to now Running (st_set_work_units_total now (ucast jobs_created) status)
                in bindM (save_status K C batch_id status') (\<lambda>_.
                   bindM (update_phase_index K C batch_id Discovering Running) (\<lambda>_. ret status'))))"

definition source_done :: "scan_stats \<Rightarrow> batch_status \<Rightarrow> batch_status" where
  "source_done stats status =
     (let n = ucast (ss_files_discovered stats)
      in status\<lparr>files_total := files_total status + n,
                discovery := map_option (\<lambda>d. ds_increment_scanned (ds_add_files n d)) (discovery status)\<rparr>)"

definition process_source ::
    "('s, 'v) kv \<Rightarrow> 'v codecs \<Rightarrow> scanner_config \<Rightarrow> storage_factory \<Rightarrow> hasher \<Rightarrow> string \<Rightarrow> batch_spec \<Rightarrow> source_url \<Rightarrow>
     batch_status \<times> scan_stats \<Rightarrow> ('s, batch_status \<times> scan_stats) scanner" where
  "process_source K C cfg create hasher batch_id spec source = (\<lambda>(status, acc).
     handleM (on_fst (process_single_source K C cfg create hasher batch_id (su_url source)
                (js_config (bs_spec spec)) (js_output (bs_spec spec))))
       (\<lambda>_. bindM (on_snd inc_scan_errors) (\<lambda>_. ret (status, acc)))
       (\<lambda>stats. let status' = source_done stats status
                in bindM (on_fst (save_status K C batch_id status')) (\<lambda>_. ret (status', add_stats acc stats))))"

definition process_batch ::
    "('s, 'v) kv \<Rightarrow> 'v codecs \<Rightarrow> scanner_config \<Rightarrow> storage_factory \<Rightarrow> hasher \<Rightarrow> string \<Rightarrow> batch_spec \<Rightarrow> batch_status \<Rightarrow>
     ('s, scan_stats) scanner" where
  "process_batch K C cfg create hasher batch_id spec status =
     (if phase status = Running then ret scan_stats_zero
      else bindM (on_fst (initialize_discovery_phase K C batch_id status spec)) (\<lambda>status1.
           bindM (foldM (process_source K C cfg create hasher batch_id spec)
                    (drop (unat (sources_scanned status1)) (js_sources (bs_spec spec))) (status1, scan_stats_zero))
             (\<lambda>(status2, acc).
           bindM (on_fst (finalize_batch_phase K C batch_id status2 (of_nat (length (js_sources (bs_spec spec))))
                    (ss_jobs_created acc) (ss_files_discovered acc))) (\<lambda>_.
           bindM (on_snd (inc_files_discovered (ss_files_discovered acc))) (\<lambda>_.
           bindM (on_snd (inc_jobs_created (ss_jobs_created acc))) (\<lambda>_.
           bindM (on_snd (inc_duplicates_skipped (ss_duplicates_skipped acc))) (\<lambda>_. ret acc)))))))"

definition scan_cycle ::
    "('s, 'v) kv \<Rightarrow> 'v codecs \<Rightarrow> scanner_config \<Rightarrow> storage_factory \<Rightarrow> hasher \<Rightarrow> ('s, scan_stats) scanner" where
  "scan_cycle K C cfg create hasher =
     bindM (on_fst now_utc) (\<lambda>started.
     bindM (on_fst (get_pending_batches K C cfg)) (\<lambda>batches.
     if batches = [] then ret scan_stats_zero
     else bindM (foldM (\<lambda>(batch_id, spec, status) acc.
                   handleM (process_batch K C cfg create hasher batch_id spec status)
                     (\<lambda>_. bindM (on_snd inc_scan_errors) (\<lambda>_. ret acc))
                     (\<lambda>stats. ret (add_stats acc stats))) batches scan_stats_zero) (\<lambda>acc.
          bindM (on_fst now_utc) (\<lambda>ended.
          bindM (on_snd (set_last_scan_duration (of_int ((ended - started) div ns_per_ms)))) (\<lambda>_. ret acc)))))"

text \<open>One turn of the loop: the leader scans, sleeps with the lock held and releases it.\<close>

definition scanner_tick ::
    "('s, 'v) kv \<Rightarrow> 'v codecs \<Rightarrow> scanner_config \<Rightarrow> storage_factory \<Rightarrow> hasher \<Rightarrow> string \<Rightarrow> ('s, unit) scanner" where
  "scanner_tick K C cfg create hasher pod =
     handleM (try_become_leader K C cfg pod)
       (\<lambda>_. bindM (on_snd inc_scan_errors) (\<lambda>_. on_fst (sleep (sc_scan_interval cfg))))
       (\<lambda>leader. case leader of
          Some guard \<Rightarrow>
            bindM (handleM (scan_cycle K C cfg create hasher) (\<lambda>_. ret ()) (\<lambda>_. ret ())) (\<lambda>_.
            bindM (on_fst (sleep (sc_scan_interval cfg))) (\<lambda>_.
            handleM (on_fst (lg_release K C guard)) (\<lambda>_. ret ()) (\<lambda>_. ret ())))
        | None \<Rightarrow> on_fst (sleep (sc_scan_interval cfg)))"

end
