(* ===== verification/Scanner_Logic.thy ===== *)
theory Scanner_Logic
  imports Scanner
begin

text \<open>
  What the scanner does to the stored data. \<open>scan_rel\<close> bounds the changes of processing a batch, whatever calls fail:
  the status and the index entries of the batch, and work units that were not there before. In a calm cluster
  \<open>units_added\<close> describes the units a source adds.
\<close>

section \<open>Reading many keys\<close>

context tikv_backend
begin

lemma batch_get_loop_valid:
  "valid (\<lambda>st. contents (cl_world st) = m \<and> fresh (cl_world st) ts)
     (foldM (\<lambda>k results. bindM (kv_do (kv_snapshot_get K ts k)) (\<lambda>v. ret (results @ [v]))) keys acc)
     (\<lambda>vs st. vs = acc @ map m keys \<and> contents (cl_world st) = m) (\<lambda>_ st. contents (cl_world st) = m)"
proof (induction keys arbitrary: acc)
  case Nil
  then show ?case by (simp add: valid_def)
next
  case (Cons k keys)
  have "valid (\<lambda>st. contents (cl_world st) = m \<and> fresh (cl_world st) ts)
      (bindM (kv_do (kv_snapshot_get K ts k)) (\<lambda>v. ret (acc @ [v])))
      (\<lambda>r st. r = acc @ [m k] \<and> contents (cl_world st) = m \<and> fresh (cl_world st) ts)
      (\<lambda>_ st. contents (cl_world st) = m)"
    by (rule valid_seq [OF kv_read(2)]) (auto simp: valid_def)
  then show ?case
    unfolding foldM.simps by (rule valid_seq, intro valid_assume) (simp_all add: valid_post [OF Cons.IH])
qed

lemma batch_get_valid:
  "valid (holds m) (tc_batch_get K keys) (\<lambda>vs st. vs = map m keys \<and> holds m st) (\<lambda>_. holds m)"
  unfolding tc_batch_get_def data_at_def
  by (rule valid_seq [OF local_steps_valid(2)], rule valid_seq [OF kv_read(1)],
      rule valid_post [OF batch_get_loop_valid]) auto

lemma run_batch_put:
  assumes "tc_batch_put K pairs s = (r, t)"
  shows "contents (cl_world t) = contents (cl_world s) \<or> contents (cl_world t) = contents (cl_world s) ++ map_of (rev pairs)"
  using valid_Inr [OF batch_put_valid, of "contents (cl_world s)" s pairs]
    valid_Inl [OF batch_put_valid, of "contents (cl_world s)" s pairs] assms
  by (cases r) (auto simp: data_at_def)

end

section \<open>Which units exist\<close>

lemma chunks_subset: "c \<in> set (chunks n xs) \<Longrightarrow> set c \<subseteq> set xs"
  using chunks_concat [of n xs] by (metis UN_upper set_concat)

definition stored_hashes :: "(key \<rightharpoonup> 'v) \<Rightarrow> string \<Rightarrow> string list \<Rightarrow> string set" where
  "stored_hashes m b hs = {h \<in> set hs. m (unit_key b h) \<noteq> None}"

lemma zip_existing:
  "set (map fst (filter (\<lambda>(h, r). r \<noteq> None) (zip hs (map (\<lambda>h. m (unit_key b h)) hs)))) = stored_hashes m b hs"
  by (induction hs) (auto simp: stored_hashes_def)

context tikv_backend
begin

lemma check_existing_valid:
  "valid (holds m) (check_existing_work_units K cfg b hs)
     (\<lambda>ex st. ex = stored_hashes m b hs \<and> holds m st) (\<lambda>_. holds m)"
proof -
  have loop: "valid (holds m)
      (foldM (\<lambda>chunk existing.
         bindM (tc_batch_get K (map (\<lambda>h. unit_key b h) chunk)) (\<lambda>results.
         ret (existing \<union> set (map fst (filter (\<lambda>(h, r). r \<noteq> None) (zip chunk results)))))) cs ex)
      (\<lambda>r st. r = ex \<union> stored_hashes m b (concat cs) \<and> holds m st) (\<lambda>_. holds m)" for cs ex
  proof (induction cs arbitrary: ex)
    case Nil
    then show ?case by (simp add: valid_def stored_hashes_def)
  next
    case (Cons c cs)
    have step: "valid (holds m)
        (bindM (tc_batch_get K (map (\<lambda>h. unit_key b h) c)) (\<lambda>results.
           ret (ex \<union> set (map fst (filter (\<lambda>(h, r). r \<noteq> None) (zip c results))))))
        (\<lambda>r st. r = ex \<union> stored_hashes m b c \<and> holds m st) (\<lambda>_. holds m)"
      by (rule valid_seq [OF batch_get_valid], rule valid_assume)
         (simp only: list.map_comp comp_def zip_existing, rule valid_retI, simp_all)
    have eq: "ex \<union> stored_hashes m b (concat (c # cs)) = (ex \<union> stored_hashes m b c) \<union> stored_hashes m b (concat cs)"
      by (auto simp: stored_hashes_def)
    show ?case
      unfolding foldM.simps eq by (rule valid_seq [OF step]) (rule valid_assume, simp_all only: Cons.IH)
  qed
  have empty: "stored_hashes m b [] = {}" by (simp add: stored_hashes_def)
  show ?thesis
    unfolding check_existing_work_units_def
    using loop [of "chunks (sc_batch_size cfg) hs" "{}"] by (auto simp: chunks_concat valid_def empty)
qed

end

section \<open>What processing a batch can change\<close>

definition scan_rel :: "string \<Rightarrow> (key \<rightharpoonup> 'v) \<Rightarrow> (key \<rightharpoonup> 'v) \<Rightarrow> bool" where
  "scan_rel b m m' \<longleftrightarrow>
     (\<forall>k. m' k = m k \<or> k = status_key b \<or> (\<exists>p. k = phase_key p b) \<or>
        (\<exists>h. (k = unit_key b h \<or> k = pending_key b h) \<and> m (unit_key b h) = None))"

lemma scan_rel_refl: "scan_rel b m m"
  by (simp add: scan_rel_def)

lemma scan_rel_new: "scan_rel b m m1 \<Longrightarrow> m1 (unit_key b h) = None \<Longrightarrow> m (unit_key b h) = None"
  unfolding scan_rel_def by (drule spec [of _ "unit_key b h"]) (auto simp: key_family_distinct unit_key_inj)

lemma scan_rel_keeps:
  "scan_rel b m m1 \<Longrightarrow> (\<forall>k. m2 k = m1 k \<or> k = status_key b \<or> (\<exists>p. k = phase_key p b)) \<Longrightarrow> scan_rel b m m2"
  unfolding scan_rel_def by metis

lemma scan_rel_units:
  assumes "scan_rel b m m1" "\<And>k. k \<in> fst ` set pairs \<Longrightarrow> \<exists>h. (k = unit_key b h \<or> k = pending_key b h) \<and> m (unit_key b h) = None"
  shows "scan_rel b m (m1 ++ map_of (rev pairs))"
  unfolding scan_rel_def
proof
  fix k
  show "(m1 ++ map_of (rev pairs)) k = m k \<or> k = status_key b \<or> (\<exists>p. k = phase_key p b) \<or>
      (\<exists>h. (k = unit_key b h \<or> k = pending_key b h) \<and> m (unit_key b h) = None)"
  proof (cases "k \<in> fst ` set pairs")
    case True
    then show ?thesis using assms(2) by blast
  next
    case False
    then have "map_of (rev pairs) k = None" by (simp add: map_of_eq_None_iff)
    then show ?thesis using assms(1) by (simp add: scan_rel_def map_add_def)
  qed
qed

lemma unit_pairs_keys: "unit_pairs C us = Inr ps \<Longrightarrow> map fst ps = map (\<lambda>u. unit_key (wu_batch_id u) (wu_id u)) us"
  by (induction us arbitrary: ps) (auto split: sum.splits)

lemma create_work_unit_fields [simp]:
  "wu_id (create_work_unit now b url m h o' c) = h" "wu_batch_id (create_work_unit now b url m h o' c) = b"
  "wu_files (create_work_unit now b url m h o' c) = [work_file_new url (om_size m)]"
  "wu_status (create_work_unit now b url m h o' c) = WPending"
  by (simp_all add: create_work_unit_def work_unit_with_id_def)

lemma chunk_pairs_keys:
  assumes "chunk_pairs C now b url outp ch chunk = Inr ps" "k \<in> fst ` set ps"
  shows "\<exists>h \<in> snd ` set chunk. k = unit_key b h \<or> k = pending_key b h"
proof -
  let ?us = "map (\<lambda>(m, h). create_work_unit now b url m h outp ch) chunk"
  obtain qs where qs: "unit_pairs C ?us = Inr qs" "ps = qs @ map (\<lambda>u. (pending_key b (wu_id u), raw_bytes C (wu_batch_id u))) ?us"
    using assms(1) by (auto simp: chunk_pairs_def Let_def split: sum.splits)
  have "map (\<lambda>u. unit_key (wu_batch_id u) (wu_id u)) ?us = map (\<lambda>x. unit_key b (snd x)) chunk" by (simp add: split_beta)
  with unit_pairs_keys [OF qs(1)] have "map fst qs = map (\<lambda>x. unit_key b (snd x)) chunk" by simp
  moreover have "map fst ps = map fst qs @ map (\<lambda>x. pending_key b (snd x)) chunk" by (simp add: qs(2) split_beta)
  ultimately have "k \<in> set (map (\<lambda>x. unit_key b (snd x)) chunk @ map (\<lambda>x. pending_key b (snd x)) chunk)"
    using assms(2) by (metis list.set_map)
  then show ?thesis by auto
qed

context tikv_backend
begin

abbreviation scanned :: "string \<Rightarrow> (key \<rightharpoonup> 'v) \<Rightarrow> 's client \<Rightarrow> bool" where
  "scanned b m st \<equiv> scan_rel b m (contents (cl_world st))"

lemma now_preserves: "preserves P now_utc"
  by (simp add: preserves_def now_utc_def)

lemma save_status_preserves: "preserves (scanned b m) (save_status K C b st)"
proof -
  have "preserves (scanned b m) (tc_put K (status_key b) v)" for v
  proof (rule preservesI)
    fix s r t assume "scanned b m s" "tc_put K (status_key b) v s = (r, t)"
    then show "scanned b m t"
      using run_put [of "status_key b" v s] by (cases r) (auto elim!: scan_rel_keeps)
  qed
  then show ?thesis unfolding save_status_def put_record_def by (intro preserves_bind preserves_liftR)
qed

lemma update_phase_index_preserves: "preserves (scanned b m) (update_phase_index K C b old new)"
proof -
  have "preserves (scanned b m) (tc_put K (phase_key p b) v)" for p v
  proof (rule preservesI)
    fix s r t assume "scanned b m s" "tc_put K (phase_key p b) v s = (r, t)"
    then show "scanned b m t"
      using run_put [of "phase_key p b" v s] by (cases r) (auto elim!: scan_rel_keeps)
  qed
  moreover have "preserves (scanned b m) (tc_delete K (phase_key p b))" for p
  proof (rule preservesI)
    fix s r t assume "scanned b m s" "tc_delete K (phase_key p b) s = (r, t)"
    then show "scanned b m t"
      using run_delete [of "phase_key p b" s] by (cases r) (auto elim!: scan_rel_keeps)
  qed
  ultimately show ?thesis unfolding update_phase_index_def by (intro preserves_if preserves_bind preserves_ret)
qed

lemma create_preserves:
  assumes "\<And>h. h \<in> snd ` set fs \<Longrightarrow> m (unit_key b h) = None"
  shows "preserves (scanned b m) (create_work_units_for_files K C cfg b url fs outp ch)"
  unfolding create_work_units_for_files_def
proof (rule preserves_foldM, rule preserves_bind [OF now_preserves])
  fix chunk now and n :: u64
  assume 1: "chunk \<in> set (chunks (sc_batch_size cfg) fs)"
  show "preserves (scanned b m) (bindM (liftR (chunk_pairs C now b url outp ch chunk)) (\<lambda>pairs.
      bindM (tc_batch_put K pairs) (\<lambda>_. ret (n + of_nat (length chunk)))))"
  proof (cases "chunk_pairs C now b url outp ch chunk")
    case (Inl e)
    then show ?thesis by (simp add: preserves_throw)
  next
    case (Inr ps)
    have "preserves (scanned b m) (tc_batch_put K ps)"
    proof (rule preservesI)
      fix s r t assume "scanned b m s" and run: "tc_batch_put K ps s = (r, t)"
      moreover from this have "scan_rel b m (contents (cl_world s) ++ map_of (rev ps))"
        using chunk_pairs_keys [OF Inr] chunks_subset [OF 1] assms by (intro scan_rel_units) blast+
      ultimately show "scanned b m t" using run_batch_put [OF run] by auto
    qed
    then show ?thesis unfolding Inr bindM_simps by (intro preserves_bind preserves_ret)
  qed
qed

lemma single_source_preserves:
  "preserves (scanned b m) (process_single_source K C cfg create hasher b url ch outp)"
proof (rule preservesI)
  fix s r t
  assume inv: "scanned b m s" and run: "process_single_source K C cfg create hasher b url ch outp s = (r, t)"
  show "scanned b m t"
  proof (cases "scan_source_url create url")
    case (Inl e)
    with inv run show ?thesis by (simp add: process_single_source_def)
  next
    case (Inr files)
    let ?fh = "map (\<lambda>m. (m, compute_file_hash hasher m ch)) files"
    obtain x s1 where check: "check_existing_work_units K cfg b (map snd ?fh) s = (x, s1)" by force
    have same: "contents (cl_world s1) = contents (cl_world s)"
      using valid_Inr [OF check_existing_valid, of "contents (cl_world s)" s]
        valid_Inl [OF check_existing_valid, of "contents (cl_world s)" s] check
      by (cases x) (auto simp: data_at_def)
    show ?thesis
    proof (cases x)
      case (Inl e)
      with run check Inr have "t = s1" by (simp add: process_single_source_def Let_def bindM_def)
      with inv same show ?thesis by simp
    next
      case ex: (Inr ex)
      let ?new = "filter (\<lambda>(m, h). h \<notin> ex) ?fh"
      have "ex = stored_hashes (contents (cl_world s)) b (map snd ?fh)"
        using valid_Inr [OF check_existing_valid, of "contents (cl_world s)" s] check ex by (auto simp: data_at_def)
      then have "m (unit_key b h) = None" if "h \<in> snd ` set ?new" for h
        using that scan_rel_new [OF inv] by (force simp: stored_hashes_def)
      then have "preserves (scanned b m) (create_work_units_for_files K C cfg b url ?new outp ch)"
        by (rule create_preserves)
      then have pres: "preserves (scanned b m) (bindM (create_work_units_for_files K C cfg b url ?new outp ch)
          (\<lambda>created. ret \<lparr> ss_files_discovered = of_nat (length files), ss_jobs_created = created,
            ss_duplicates_skipped = of_nat (length files) - of_nat (length ?new) \<rparr>))"
        by (rule preserves_bind) (rule preserves_ret)
      have "bindM (create_work_units_for_files K C cfg b url ?new outp ch)
          (\<lambda>created. ret \<lparr> ss_files_discovered = of_nat (length files), ss_jobs_created = created,
            ss_duplicates_skipped = of_nat (length files) - of_nat (length ?new) \<rparr>) s1 = (r, t)"
        using run unfolding process_single_source_def Inr sum.case Let_def
          bindM_apply_Inr [where m = "check_existing_work_units K cfg b (map snd ?fh)" and s = s, OF check [unfolded ex]] .
      moreover have "scanned b m s1" using inv same by simp
      ultimately show ?thesis by (rule preservesD [OF pres, rotated])
    qed
  qed
qed

lemma process_batch_preserves:
  "preserves (\<lambda>x. scanned b m (fst x)) (process_batch K C cfg create hasher b spec st)"
proof -
  have init: "preserves (scanned b m) (initialize_discovery_phase K C b st spec)" for st
    unfolding initialize_discovery_phase_def Let_def
    by (intro preserves_if preserves_bind now_preserves save_status_preserves update_phase_index_preserves preserves_ret)
  have fin: "preserves (scanned b m) (finalize_batch_phase K C b st n j f)" for st n j f
    unfolding finalize_batch_phase_def Let_def
    by (intro preserves_if preserves_bind now_preserves save_status_preserves update_phase_index_preserves preserves_ret)
  have source: "preserves (\<lambda>x. scanned b m (fst x)) (process_source K C cfg create hasher b spec src acc)" for src acc
    unfolding process_source_def Let_def
    by (cases acc) (simp only: prod.case, intro preserves_handle preserves_bind preserves_on_fst preserves_on_snd
        single_source_preserves save_status_preserves preserves_ret)
  show ?thesis
    unfolding process_batch_def
    by (intro preserves_if preserves_bind preserves_on_fst preserves_on_snd init preserves_foldM source preserves_ret
        preserves_prod fin)
qed

end

text \<open>C13: the scanner never touches a work unit that is already there. Whatever calls of the store fail, and wherever
  the scan of a batch stops, processing a batch changes only the status of that batch, its entries in the phase index,
  and units of that batch that were not stored before together with their pending entries: a unit that exists keeps
  its state (its owner, attempts and result), no other batch is touched and no unit is put back into the queue.\<close>

theorem scan_keeps_units:
  assumes store: "tikv_backend K contents fresh pend"
    and run: "process_batch K C cfg create hasher b spec status (st, metrics) = (r, (st', metrics'))"
  shows "scan_rel b (contents (cl_world st)) (contents (cl_world st'))"
  using preservesD [OF tikv_backend.process_batch_preserves [OF store] _ run, of "contents (cl_world st)"]
  by (simp add: scan_rel_refl)

end
