(* ===== verification/Scanner_Discovery.thy ===== *)
theory Scanner_Discovery
  imports Scanner_Logic
begin

text \<open>
  Discovery in a calm cluster. The store after a source is a function of the store before it (\<open>source_store\<close>), and
  processing a batch is a fold of it over the sources that are left (\<open>scan_sources\<close>). A failing source is skipped and
  not counted, which loses it for good when the count of scanned sources is used to resume.
\<close>

section \<open>The units a source adds\<close>

definition put_all :: "(key \<times> 'v) list \<Rightarrow> (key \<rightharpoonup> 'v) \<Rightarrow> (key \<rightharpoonup> 'v)" where
  "put_all ps m = m ++ map_of (rev ps)"

lemma put_all_in: "k \<in> fst ` set ps \<Longrightarrow> \<exists>v. (k, v) \<in> set ps \<and> put_all ps m k = Some v"
proof -
  assume "k \<in> fst ` set ps"
  then obtain v where "map_of (rev ps) k = Some v"
    by (metis (no_types) list.set_map map_of_eq_None_iff option.exhaust set_rev)
  then show ?thesis by (auto simp: put_all_def dest: map_of_SomeD)
qed

lemma put_all_out: "k \<notin> fst ` set ps \<Longrightarrow> put_all ps m k = m k"
proof -
  assume "k \<notin> fst ` set ps"
  then have "map_of (rev ps) k = None" by (simp add: map_of_eq_None_iff)
  then show ?thesis by (simp add: put_all_def map_add_def)
qed

text \<open>The pairs of a chunk when the encoder works.\<close>

definition ready_pairs ::
    "'v codecs \<Rightarrow> timestamp \<Rightarrow> string \<Rightarrow> string \<Rightarrow> string \<Rightarrow> string \<Rightarrow> (object_metadata \<times> string) list \<Rightarrow> (key \<times> 'v) list" where
  "ready_pairs C now b url outp ch chunk =
     map (\<lambda>(x, h). (unit_key b h, enc (c_unit C) (create_work_unit now b url x h outp ch))) chunk
     @ map (\<lambda>(x, h). (pending_key b h, raw_bytes C b)) chunk"

lemma unit_pairs_ok:
  "codecs_ok C \<Longrightarrow> unit_pairs C us = Inr (map (\<lambda>u. (unit_key (wu_batch_id u) (wu_id u), enc (c_unit C) u)) us)"
  by (induction us) (simp_all add: codecs_okD)

lemma chunk_pairs_ok: "codecs_ok C \<Longrightarrow> chunk_pairs C now b url outp ch chunk = Inr (ready_pairs C now b url outp ch chunk)"
  by (simp add: chunk_pairs_def Let_def unit_pairs_ok ready_pairs_def split_beta)

definition store_new ::
    "'v codecs \<Rightarrow> nat \<Rightarrow> timestamp \<Rightarrow> string \<Rightarrow> string \<Rightarrow> string \<Rightarrow> string \<Rightarrow> (object_metadata \<times> string) list \<Rightarrow>
     (key \<rightharpoonup> 'v) \<Rightarrow> (key \<rightharpoonup> 'v)" where
  "store_new C n now b url outp ch fs m =
     fold (\<lambda>chunk. put_all (ready_pairs C now b url outp ch chunk)) (chunks n fs) m"

text \<open>A unit that waits to be claimed.\<close>

definition unit_ready :: "'v codecs \<Rightarrow> string \<Rightarrow> string \<Rightarrow> (key \<rightharpoonup> 'v) \<Rightarrow> bool" where
  "unit_ready C b h m \<longleftrightarrow>
     (\<exists>u. m (unit_key b h) = Some (enc (c_unit C) u) \<and> wu_id u = h \<and> wu_batch_id u = b \<and> wu_status u = WPending) \<and>
     m (pending_key b h) = Some (raw_bytes C b)"

lemma ready_pairs_keys: "fst ` set (ready_pairs C now b url outp ch chunk) =
    unit_key b ` snd ` set chunk \<union> pending_key b ` snd ` set chunk"
  by (force simp: ready_pairs_def)

lemma chunk_stored:
  "h \<in> snd ` set chunk \<Longrightarrow> unit_ready C b h (put_all (ready_pairs C now b url outp ch chunk) m)"
proof -
  assume h: "h \<in> snd ` set chunk"
  let ?ps = "ready_pairs C now b url outp ch chunk"
  obtain v where v: "(unit_key b h, v) \<in> set ?ps" "put_all ?ps m (unit_key b h) = Some v"
    using put_all_in [of "unit_key b h" ?ps m] h by (auto simp: ready_pairs_keys)
  obtain w where w: "(pending_key b h, w) \<in> set ?ps" "put_all ?ps m (pending_key b h) = Some w"
    using put_all_in [of "pending_key b h" ?ps m] h by (auto simp: ready_pairs_keys)
  from v(1) obtain x where "v = enc (c_unit C) (create_work_unit now b url x h outp ch)"
    by (auto simp: ready_pairs_def)
  moreover from w(1) have "w = raw_bytes C b" by (auto simp: ready_pairs_def)
  ultimately show ?thesis using v(2) w(2) by (force simp: unit_ready_def)
qed

lemma chunk_other:
  "h \<notin> snd ` set chunk \<Longrightarrow> put_all (ready_pairs C now b url outp ch chunk) m (unit_key b h) = m (unit_key b h) \<and>
     put_all (ready_pairs C now b url outp ch chunk) m (pending_key b h) = m (pending_key b h)"
  by (auto simp: put_all_out ready_pairs_keys image_iff)

lemma store_chunks:
  "h \<in> snd ` set (concat cs) \<Longrightarrow> unit_ready C b h (fold (\<lambda>chunk. put_all (ready_pairs C now b url outp ch chunk)) cs m)"
  "h \<notin> snd ` set (concat cs) \<Longrightarrow>
     fold (\<lambda>chunk. put_all (ready_pairs C now b url outp ch chunk)) cs m (unit_key b h) = m (unit_key b h) \<and>
     fold (\<lambda>chunk. put_all (ready_pairs C now b url outp ch chunk)) cs m (pending_key b h) = m (pending_key b h)"
proof (induction cs arbitrary: m)
  case (Cons c cs)
  {
    case 1
    then show ?case
    proof (cases "h \<in> snd ` set (concat cs)")
      case True
      then show ?thesis using Cons.IH(1) by simp
    next
      case False
      with 1 have "h \<in> snd ` set c" by auto
      from chunk_stored [OF this] Cons.IH(2) [OF False] show ?thesis by (simp add: unit_ready_def)
    qed
  next
    case 2
    then have "h \<notin> snd ` set c" "h \<notin> snd ` set (concat cs)" by auto
    then show ?case using chunk_other [of h c] Cons.IH(2) by simp
  }
qed simp_all

lemma store_new_units:
  "h \<in> snd ` set fs \<Longrightarrow> unit_ready C b h (store_new C n now b url outp ch fs m)"
  "h \<notin> snd ` set fs \<Longrightarrow> store_new C n now b url outp ch fs m (unit_key b h) = m (unit_key b h) \<and>
     store_new C n now b url outp ch fs m (pending_key b h) = m (pending_key b h)"
  using store_chunks [of h "chunks n fs"] by (simp_all add: store_new_def chunks_concat)

lemma store_new_other:
  assumes "\<And>h. k \<noteq> unit_key b h" "\<And>h. k \<noteq> pending_key b h"
  shows "store_new C n now b url outp ch fs m k = m k"
proof -
  have "put_all (ready_pairs C now b url outp ch c) m k = m k" for c m
    using assms by (intro put_all_out) (auto simp: ready_pairs_keys)
  then have "fold (\<lambda>chunk. put_all (ready_pairs C now b url outp ch chunk)) cs m k = m k" for cs
    by (induction cs arbitrary: m) simp_all
  then show ?thesis by (simp add: store_new_def)
qed

section \<open>Runs in a calm cluster\<close>

context reliable_backend
begin

lemma batch_get_yields: "yields (live m now) (tc_batch_get K keys) (Inr (map m keys)) (live m now)"
proof -
  have get: "total (\<lambda>s. calm s \<and> contents s = m \<and> fresh s ts) (kv_snapshot_get K ts k)
      (\<lambda>v s. v = m k \<and> calm s \<and> contents s = m \<and> fresh s ts)" for ts k
    unfolding total_def using calm_get get_ok by metis
  have loop: "yields (\<lambda>st. (calm (cl_world st) \<and> contents (cl_world st) = m \<and> fresh (cl_world st) ts) \<and> ready now st)
      (foldM (\<lambda>k results. bindM (kv_do (kv_snapshot_get K ts k)) (\<lambda>v. ret (results @ [v]))) keys acc)
      (Inr (acc @ map m keys))
      (\<lambda>st. (calm (cl_world st) \<and> contents (cl_world st) = m \<and> fresh (cl_world st) ts) \<and> ready now st)" for ts keys acc
  proof (induction keys arbitrary: acc)
    case Nil
    then show ?case by (simp add: yields_ret del: ret_simp)
  next
    case (Cons k keys)
    have eq: "acc @ map m (k # keys) = (acc @ [m k]) @ map m keys" by simp
    show ?case
      unfolding foldM.simps eq
      by (rule yields_bind [OF yields_bind [OF total_yields_step [OF total_kv_do(1) [OF get]] yields_ret]]) (rule Cons.IH)
  qed
  have eq: "map m keys = [] @ map m keys" by simp
  show ?thesis
    unfolding tc_batch_get_def client_at_ready
    by (rule yields_bind [OF ready_yields(2)], rule yields_total [OF kv_total(1)], subst eq,
        rule yields_post [OF loop]) auto
qed

lemma check_existing_yields:
  "yields (live m now) (check_existing_work_units K cfg b hs) (Inr (stored_hashes m b hs)) (live m now)"
proof -
  have loop: "yields (live m now)
      (foldM (\<lambda>chunk existing.
         bindM (tc_batch_get K (map (\<lambda>h. unit_key b h) chunk)) (\<lambda>results.
         ret (existing \<union> set (map fst (filter (\<lambda>(h, r). r \<noteq> None) (zip chunk results)))))) cs ex)
      (Inr (ex \<union> stored_hashes m b (concat cs))) (live m now)" for cs ex
  proof (induction cs arbitrary: ex)
    case Nil
    then show ?case by (simp add: yields_ret stored_hashes_def del: ret_simp)
  next
    case (Cons c cs)
    have step: "yields (live m now)
        (bindM (tc_batch_get K (map (\<lambda>h. unit_key b h) c)) (\<lambda>results.
           ret (ex \<union> set (map fst (filter (\<lambda>(h, r). r \<noteq> None) (zip c results))))))
        (Inr (ex \<union> stored_hashes m b c)) (live m now)"
      by (rule yields_bind [OF batch_get_yields]) (simp only: list.map_comp comp_def zip_existing yields_ret)
    have eq: "ex \<union> stored_hashes m b (concat (c # cs)) = (ex \<union> stored_hashes m b c) \<union> stored_hashes m b (concat cs)"
      by (auto simp: stored_hashes_def)
    show ?case unfolding foldM.simps eq by (rule yields_bind [OF step Cons.IH])
  qed
  have empty: "stored_hashes m b [] = {}" by (simp add: stored_hashes_def)
  show ?thesis
    using loop [of "chunks (sc_batch_size cfg) hs" "{}"]
    by (cases "hs = []") (simp_all add: check_existing_work_units_def chunks_concat empty yields_ret del: ret_simp)
qed

lemma create_units_yields:
  assumes C: "codecs_ok C"
  shows "yields (live m now) (create_work_units_for_files K C cfg b url fs outp ch) (Inr (of_nat (length fs)))
    (live (store_new C (sc_batch_size cfg) now b url outp ch fs m) now)"
proof -
  have loop: "yields (live m now)
      (foldM (\<lambda>chunk created.
         bindM now_utc (\<lambda>now. bindM (liftR (chunk_pairs C now b url outp ch chunk)) (\<lambda>pairs.
         bindM (tc_batch_put K pairs) (\<lambda>_. ret (created + of_nat (length chunk)))))) cs n)
      (Inr (n + of_nat (length (concat cs))))
      (live (fold (\<lambda>chunk. put_all (ready_pairs C now b url outp ch chunk)) cs m) now)" for cs and n :: u64
  proof (induction cs arbitrary: n m)
    case Nil
    then show ?case by (simp add: yields_ret del: ret_simp)
  next
    case (Cons c cs)
    have step: "yields (live m now)
        (bindM now_utc (\<lambda>now. bindM (liftR (chunk_pairs C now b url outp ch c)) (\<lambda>pairs.
           bindM (tc_batch_put K pairs) (\<lambda>_. ret (n + of_nat (length c))))))
        (Inr (n + of_nat (length c))) (live (put_all (ready_pairs C now b url outp ch c) m) now)"
      unfolding put_all_def
      by (rule yields_bind [OF now_yields])
         (simp only: chunk_pairs_ok [OF C] bindM_simps, rule yields_bind [OF batch_put_yields yields_ret])
    have eq: "n + of_nat (length (concat (c # cs))) = (n + of_nat (length c)) + of_nat (length (concat cs))"
      by (simp add: add.assoc)
    show ?case
      unfolding foldM.simps fold_simps comp_apply eq by (rule yields_bind [OF step Cons.IH])
  qed
  show ?thesis
    unfolding create_work_units_for_files_def store_new_def using loop [of "chunks (sc_batch_size cfg) fs" 0]
    by (simp add: chunks_concat)
qed

end

section \<open>A source, and all sources, as a function\<close>

definition source_hashes :: "hasher \<Rightarrow> string \<Rightarrow> object_metadata list \<Rightarrow> (object_metadata \<times> string) list" where
  "source_hashes hasher ch files = map (\<lambda>x. (x, compute_file_hash hasher x ch)) files"

definition new_files :: "(key \<rightharpoonup> 'v) \<Rightarrow> string \<Rightarrow> (object_metadata \<times> string) list \<Rightarrow> (object_metadata \<times> string) list" where
  "new_files m b fh = filter (\<lambda>(x, h). m (unit_key b h) = None) fh"

definition source_stats :: "'a list \<Rightarrow> 'b list \<Rightarrow> scan_stats" where
  "source_stats files new =
     \<lparr> ss_files_discovered = of_nat (length files), ss_jobs_created = of_nat (length new),
       ss_duplicates_skipped = of_nat (length files) - of_nat (length new) \<rparr>"

type_synonym 'v scan_state = "batch_status \<times> scan_stats \<times> (key \<rightharpoonup> 'v) \<times> scanner_metrics"

definition scan_step ::
    "'v codecs \<Rightarrow> scanner_config \<Rightarrow> timestamp \<Rightarrow> storage_factory \<Rightarrow> hasher \<Rightarrow> string \<Rightarrow> batch_spec \<Rightarrow> source_url \<Rightarrow>
     'v scan_state \<Rightarrow> 'v scan_state" where
  "scan_step C cfg now create hasher b spec src = (\<lambda>(status, acc, m, mt).
     case scan_source_url create (su_url src) of
       Inl _ \<Rightarrow> (status, acc, m, inc_scan_errors mt)
     | Inr files \<Rightarrow>
         let new = new_files m b (source_hashes hasher (js_config (bs_spec spec)) files);
             stats = source_stats files new; status' = source_done stats status
         in (status', add_stats acc stats,
             (store_new C (sc_batch_size cfg) now b (su_url src) (js_output (bs_spec spec)) (js_config (bs_spec spec)) new m)
               (status_key b \<mapsto> enc (c_status C) status'), mt))"

definition finish_status :: "timestamp \<Rightarrow> u32 \<Rightarrow> scan_stats \<Rightarrow> batch_status \<Rightarrow> batch_status" where
  "finish_status now n_src acc status =
     (if sources_scanned status < n_src then status
      else if ss_jobs_created acc = 0 \<and> ss_files_discovered acc = 0
        then (st_transition_to now Failed status)
               \<lparr>bst_error := Some (''No files discovered from '' @ show_nat (unat n_src) @ '' source(s)'')\<rparr>
      else st_transition_to now Running (st_set_work_units_total now (ucast (ss_jobs_created acc)) status))"

definition finish_store ::
    "'v codecs \<Rightarrow> timestamp \<Rightarrow> string \<Rightarrow> u32 \<Rightarrow> scan_stats \<Rightarrow> batch_status \<Rightarrow> (key \<rightharpoonup> 'v) \<Rightarrow> (key \<rightharpoonup> 'v)" where
  "finish_store C now b n_src acc status m =
     (if sources_scanned status < n_src then m
      else let s = finish_status now n_src acc status
           in move_index C b Discovering (phase s) (m(status_key b \<mapsto> enc (c_status C) s)))"

definition started_status :: "timestamp \<Rightarrow> batch_spec \<Rightarrow> batch_status \<Rightarrow> batch_status" where
  "started_status now spec status =
     (if phase status \<noteq> Pending then status
      else (st_transition_to now Discovering status)
             \<lparr>discovery := Some (discovery_new (of_nat (length (js_sources (bs_spec spec)))))\<rparr>)"

definition started_store ::
    "'v codecs \<Rightarrow> timestamp \<Rightarrow> string \<Rightarrow> batch_spec \<Rightarrow> batch_status \<Rightarrow> (key \<rightharpoonup> 'v) \<Rightarrow> (key \<rightharpoonup> 'v)" where
  "started_store C now b spec status m =
     (if phase status \<noteq> Pending then m
      else move_index C b Pending Discovering (m(status_key b \<mapsto> enc (c_status C) (started_status now spec status))))"

definition scan_sources ::
    "'v codecs \<Rightarrow> scanner_config \<Rightarrow> timestamp \<Rightarrow> storage_factory \<Rightarrow> hasher \<Rightarrow> string \<Rightarrow> batch_spec \<Rightarrow> batch_status \<Rightarrow>
     (key \<rightharpoonup> 'v) \<Rightarrow> scanner_metrics \<Rightarrow> 'v scan_state" where
  "scan_sources C cfg now create hasher b spec status m mt =
     fold (scan_step C cfg now create hasher b spec)
       (drop (unat (sources_scanned (started_status now spec status))) (js_sources (bs_spec spec)))
       (started_status now spec status, scan_stats_zero, started_store C now b spec status m, mt)"

definition counted :: "scan_stats \<Rightarrow> scanner_metrics \<Rightarrow> scanner_metrics" where
  "counted acc mt = inc_duplicates_skipped (ss_duplicates_skipped acc)
     (inc_jobs_created (ss_jobs_created acc) (inc_files_discovered (ss_files_discovered acc) mt))"

context reliable_backend
begin

abbreviation live_with :: "(key \<rightharpoonup> 'b) \<Rightarrow> timestamp \<Rightarrow> scanner_metrics \<Rightarrow> 'a client \<times> scanner_metrics \<Rightarrow> bool" where
  "live_with m now mt \<equiv> (\<lambda>x. live m now (fst x) \<and> snd x = mt)"

lemma single_source_yields:
  assumes C: "codecs_ok C" and files: "scan_source_url create url = Inr files"
    and n: "new = new_files m b (source_hashes hasher ch files)"
  shows "yields (live m now) (process_single_source K C cfg create hasher b url ch outp) (Inr (source_stats files new))
    (live (store_new C (sc_batch_size cfg) now b url outp ch new m) now)"
proof -
  let ?fh = "source_hashes hasher ch files"
  have new: "filter (\<lambda>(x, h). h \<notin> stored_hashes m b (map snd ?fh)) ?fh = new"
    unfolding n new_files_def by (rule filter_cong) (force simp: stored_hashes_def)+
  show ?thesis
    unfolding process_single_source_def files sum.case Let_def source_hashes_def [symmetric]
    by (rule yields_bind [OF check_existing_yields], simp only: new source_stats_def,
        rule yields_bind [OF create_units_yields [OF C] yields_ret])
qed

lemma process_source_yields:
  assumes C: "codecs_ok C" and step: "scan_step C cfg now create hasher b spec src (status, acc, m, mt) = (status', acc', m', mt')"
  shows "yields (live_with m now mt) (process_source K C cfg create hasher b spec src (status, acc)) (Inr (status', acc'))
    (live_with m' now mt')"
proof (cases "scan_source_url create (su_url src)")
  case (Inl e)
  have "yields (live m now) (process_single_source K C cfg create hasher b (su_url src) ch outp)
      (Inl (Other (''Failed to scan source: '' @ display_storage_error e))) (live m now)" for ch outp
    unfolding process_single_source_def Inl sum.case by (rule yields_throw)
  note fails = yields_on_fst [OF this]
  have r: "status' = status" "acc' = acc" "m' = m" "mt' = inc_scan_errors mt" using step by (simp_all add: scan_step_def Inl)
  show ?thesis
    unfolding process_source_def prod.case r
    by (rule yields_handle_err [OF fails], rule yields_bind [OF yields_on_snd yields_ret])
next
  case (Inr files)
  note single = yields_on_fst [OF single_source_yields [OF C Inr refl]]
  have r: "status' = source_done (source_stats files (new_files m b (source_hashes hasher (js_config (bs_spec spec)) files))) status"
    "acc' = add_stats acc (source_stats files (new_files m b (source_hashes hasher (js_config (bs_spec spec)) files)))"
    "m' = (store_new C (sc_batch_size cfg) now b (su_url src) (js_output (bs_spec spec)) (js_config (bs_spec spec))
       (new_files m b (source_hashes hasher (js_config (bs_spec spec)) files)) m)(status_key b \<mapsto> enc (c_status C) status')"
    "mt' = mt" using step by (auto simp: scan_step_def Inr Let_def)
  show ?thesis
    unfolding process_source_def prod.case Let_def r(2-4) unfolding r(1)
    by (rule yields_handle [OF single], rule yields_bind [OF yields_on_fst [OF save_status_yields [OF C]] yields_ret])
qed

lemma sources_yield:
  assumes C: "codecs_ok C"
  shows "yields (live_with m now mt) (foldM (process_source K C cfg create hasher b spec) srcs (status, acc))
    (Inr (fst (fold (scan_step C cfg now create hasher b spec) srcs (status, acc, m, mt)),
          fst (snd (fold (scan_step C cfg now create hasher b spec) srcs (status, acc, m, mt)))))
    (live_with (fst (snd (snd (fold (scan_step C cfg now create hasher b spec) srcs (status, acc, m, mt))))) now
       (snd (snd (snd (fold (scan_step C cfg now create hasher b spec) srcs (status, acc, m, mt))))))"
proof (induction srcs arbitrary: status acc m mt)
  case Nil
  then show ?case by (simp only: foldM.simps fold_simps fst_conv snd_conv yields_ret)
next
  case (Cons src srcs)
  obtain status' acc' m' mt' where step: "scan_step C cfg now create hasher b spec src (status, acc, m, mt) = (status', acc', m', mt')"
    by (metis prod_cases4)
  show ?case
    unfolding foldM.simps fold_simps step by (rule yields_bind [OF process_source_yields [OF C step]], rule Cons.IH)
qed

lemma initialize_yields:
  assumes C: "codecs_ok C"
  shows "yields (live m now) (initialize_discovery_phase K C b status spec) (Inr (started_status now spec status))
    (live (started_store C now b spec status m) now)"
proof (cases "phase status = Pending")
  case True
  then show ?thesis
    unfolding initialize_discovery_phase_def started_store_def started_status_def Let_def
    by (simp only: not_True_eq_False if_False simp_thms if_True)
       (rule yields_bind [OF now_yields], rule yields_bind [OF save_status_yields [OF C]],
        rule yields_bind [OF update_phase_index_yields yields_ret])
next
  case False
  then show ?thesis
    unfolding initialize_discovery_phase_def started_store_def started_status_def
    by (simp only: simp_thms if_True yields_ret)
qed

lemma finalize_yields:
  assumes C: "codecs_ok C"
  shows "yields (live m now) (finalize_batch_phase K C b status n_src (ss_jobs_created acc) (ss_files_discovered acc))
    (Inr (finish_status now n_src acc status)) (live (finish_store C now b n_src acc status m) now)"
proof -
  consider "sources_scanned status < n_src"
    | "\<not> sources_scanned status < n_src" "ss_jobs_created acc = 0 \<and> ss_files_discovered acc = 0"
    | "\<not> sources_scanned status < n_src" "\<not> (ss_jobs_created acc = 0 \<and> ss_files_discovered acc = 0)" by blast
  then show ?thesis
  proof cases
    case 1
    then show ?thesis
      unfolding finalize_batch_phase_def finish_status_def finish_store_def by (simp only: if_True yields_ret)
  next
    case 2
    have ph: "phase (finish_status now n_src acc status) = Failed" using 2 by (simp add: finish_status_def)
    show ?thesis
      unfolding finalize_batch_phase_def finish_store_def Let_def ph using 2 unfolding finish_status_def
      by (simp only: if_True if_False simp_thms)
         (rule yields_bind [OF now_yields], rule yields_bind [OF save_status_yields [OF C]],
          rule yields_bind [OF update_phase_index_yields yields_ret])
  next
    case 3
    have ph: "phase (finish_status now n_src acc status) = Running" using 3 by (auto simp: finish_status_def)
    show ?thesis
      unfolding finalize_batch_phase_def finish_store_def Let_def ph using 3 unfolding finish_status_def
      by (simp only: if_True if_False simp_thms)
         (rule yields_bind [OF now_yields], rule yields_bind [OF save_status_yields [OF C]],
          rule yields_bind [OF update_phase_index_yields yields_ret])
  qed
qed

lemma process_batch_yields:
  assumes C: "codecs_ok C" and ph: "phase status \<noteq> Running"
    and scan: "scan_sources C cfg now create hasher b spec status m mt = (s2, acc, m2, mt2)"
  shows "yields (live_with m now mt) (process_batch K C cfg create hasher b spec status) (Inr acc)
    (live_with (finish_store C now b (of_nat (length (js_sources (bs_spec spec)))) acc s2 m2) now (counted acc mt2))"
proof -
  note loop = sources_yield [OF C, of "started_store C now b spec status m" now mt cfg create hasher b spec
      "drop (unat (sources_scanned (started_status now spec status))) (js_sources (bs_spec spec))"
      "started_status now spec status" scan_stats_zero,
      folded scan_sources_def, unfolded scan fst_conv snd_conv]
  show ?thesis
    unfolding process_batch_def counted_def using ph
    by (simp only: if_False)
       (rule yields_bind [OF yields_on_fst [OF initialize_yields [OF C]]], rule yields_bind [OF loop], simp only: prod.case,
        rule yields_bind [OF yields_on_fst [OF finalize_yields [OF C]]], rule yields_bind [OF yields_on_snd],
        rule yields_bind [OF yields_on_snd], rule yields_bind [OF yields_on_snd yields_ret])
qed

end

section \<open>Every file gets its unit\<close>

text \<open>After a source its files have units, new ones are ready to be claimed, and older units are as they were.\<close>

definition covered :: "'v codecs \<Rightarrow> string \<Rightarrow> (key \<rightharpoonup> 'v) \<Rightarrow> string \<Rightarrow> (key \<rightharpoonup> 'v) \<Rightarrow> bool" where
  "covered C b m0 h m \<longleftrightarrow> m (unit_key b h) \<noteq> None \<and> (m0 (unit_key b h) = None \<longrightarrow> unit_ready C b h m)"

definition keeps_units :: "string \<Rightarrow> (key \<rightharpoonup> 'v) \<Rightarrow> (key \<rightharpoonup> 'v) \<Rightarrow> bool" where
  "keeps_units b m m' \<longleftrightarrow>
     (\<forall>h. m (unit_key b h) \<noteq> None \<longrightarrow> m' (unit_key b h) = m (unit_key b h) \<and> m' (pending_key b h) = m (pending_key b h))"

definition same_elsewhere :: "string \<Rightarrow> (key \<rightharpoonup> 'v) \<Rightarrow> (key \<rightharpoonup> 'v) \<Rightarrow> bool" where
  "same_elsewhere b m m' \<longleftrightarrow>
     (\<forall>k. k \<noteq> status_key b \<and> (\<forall>h. k \<noteq> unit_key b h \<and> k \<noteq> pending_key b h) \<longrightarrow> m' k = m k)"

lemma keeps_trans: "keeps_units b m m1 \<Longrightarrow> keeps_units b m1 m2 \<Longrightarrow> keeps_units b m m2"
  unfolding keeps_units_def by metis

lemma covered_later: "covered C b m0 h m \<Longrightarrow> keeps_units b m m' \<Longrightarrow> covered C b m0 h m'"
  unfolding covered_def keeps_units_def unit_ready_def by metis

lemma covered_earlier:
  "covered C b m1 h m \<Longrightarrow> keeps_units b m1 m \<Longrightarrow>
   (m0 (unit_key b h) = None \<Longrightarrow> m1 (unit_key b h) \<noteq> None \<Longrightarrow> unit_ready C b h m1) \<Longrightarrow> covered C b m0 h m"
  unfolding covered_def keeps_units_def unit_ready_def by metis

lemma source_store_units:
  fixes m :: "key \<rightharpoonup> 'v" and b :: string
  defines "new \<equiv> \<lambda>fh. new_files m b fh"
  shows "keeps_units b m ((store_new C n now b url outp ch (new fh) m)(status_key b \<mapsto> v))"
    "h \<in> snd ` set fh \<Longrightarrow> covered C b m h ((store_new C n now b url outp ch (new fh) m)(status_key b \<mapsto> v))"
    "same_elsewhere b m ((store_new C n now b url outp ch (new fh) m)(status_key b \<mapsto> v))"
    "m (unit_key b h) = None \<Longrightarrow> ((store_new C n now b url outp ch (new fh) m)(status_key b \<mapsto> v)) (unit_key b h) \<noteq> None \<Longrightarrow>
       unit_ready C b h ((store_new C n now b url outp ch (new fh) m)(status_key b \<mapsto> v))"
proof -
  let ?m1 = "store_new C n now b url outp ch (new fh) m"
  have mem: "h \<in> snd ` set (new fh) \<longleftrightarrow> h \<in> snd ` set fh \<and> m (unit_key b h) = None" for h
    unfolding new_def new_files_def by force
  show keep: "keeps_units b m (?m1(status_key b \<mapsto> v))"
    unfolding keeps_units_def using store_new_units(2) [of _ "new fh" C n now b url outp ch m] mem by simp
  show "same_elsewhere b m (?m1(status_key b \<mapsto> v))"
    unfolding same_elsewhere_def by (auto intro!: store_new_other)
  show "unit_ready C b h (?m1(status_key b \<mapsto> v))"
    if "m (unit_key b h) = None" "(?m1(status_key b \<mapsto> v)) (unit_key b h) \<noteq> None"
  proof -
    have "h \<in> snd ` set (new fh)" using that store_new_units(2) [of h "new fh" C n now b url outp ch m] by (cases "h \<in> snd ` set (new fh)") auto
    then have "unit_ready C b h ?m1" by (rule store_new_units(1))
    then show ?thesis by (simp add: unit_ready_def)
  qed
  assume h: "h \<in> snd ` set fh"
  show "covered C b m h (?m1(status_key b \<mapsto> v))"
  proof (cases "m (unit_key b h) = None")
    case True
    with h mem have "unit_ready C b h ?m1" by (intro store_new_units(1)) blast
    then show ?thesis by (auto simp: covered_def unit_ready_def)
  next
    case False
    with keep show ?thesis by (auto simp: covered_def keeps_units_def)
  qed
qed

lemma source_done_simps [simp]:
  "phase (source_done stats s) = phase s"
  "discovery s = Some d \<Longrightarrow> sources_scanned (source_done stats s) = sources_scanned s + 1"
  "discovery (source_done stats s) = map_option (\<lambda>d. ds_increment_scanned (ds_add_files (ucast (ss_files_discovered stats)) d)) (discovery s)"
  by (auto simp: source_done_def Let_def sources_scanned_def ds_increment_scanned_def ds_add_files_def ds_update_progress_def)

lemma scan_fold_ok:
  assumes "\<And>src. src \<in> set srcs \<Longrightarrow> scan_source_url create (su_url src) = Inr (files src)" and "discovery s = Some d"
    and "fold (scan_step C cfg now create hasher b spec) srcs (s, acc, m, mt) = (s', acc', m', mt')"
    and "m (status_key b) = Some (enc (c_status C) s)"
  shows "mt' = mt \<and> phase s' = phase s \<and> sources_scanned s' = sources_scanned s + of_nat (length srcs) \<and>
    ss_files_discovered acc' = ss_files_discovered acc + of_nat (length (concat (map files srcs))) \<and>
    m' (status_key b) = Some (enc (c_status C) s') \<and> keeps_units b m m' \<and> same_elsewhere b m m' \<and>
    (\<forall>x \<in> set (concat (map files srcs)). covered C b m (compute_file_hash hasher x (js_config (bs_spec spec))) m')"
  using assms
proof (induction srcs arbitrary: s d acc m mt)
  case Nil
  then show ?case by (simp add: keeps_units_def same_elsewhere_def)
next
  case (Cons src srcs)
  let ?fh = "source_hashes hasher (js_config (bs_spec spec)) (files src)"
  let ?new = "new_files m b ?fh"
  define s1 where "s1 = source_done (source_stats (files src) ?new) s"
  define acc1 where "acc1 = add_stats acc (source_stats (files src) ?new)"
  define m1 where "m1 = (store_new C (sc_batch_size cfg) now b (su_url src) (js_output (bs_spec spec)) (js_config (bs_spec spec)) ?new m)
      (status_key b \<mapsto> enc (c_status C) s1)"
  have step: "scan_step C cfg now create hasher b spec src (s, acc, m, mt) = (s1, acc1, m1, mt)"
    using Cons.prems(1) [of src] by (simp add: scan_step_def Let_def s1_def acc1_def m1_def)
  obtain d1 where d1: "discovery s1 = Some d1" using Cons.prems(2) by (simp add: s1_def)
  have rest: "fold (scan_step C cfg now create hasher b spec) srcs (s1, acc1, m1, mt) = (s', acc', m', mt')"
    using Cons.prems(3) by (simp only: fold_simps step)
  have stored: "m1 (status_key b) = Some (enc (c_status C) s1)" by (simp add: m1_def)
  have counts: "phase s1 = phase s" "sources_scanned s1 = sources_scanned s + 1"
    using source_done_simps(2) [OF Cons.prems(2)] by (simp_all add: s1_def)
  have IH: "mt' = mt \<and> phase s' = phase s1 \<and> sources_scanned s' = sources_scanned s1 + of_nat (length srcs) \<and>
    ss_files_discovered acc' = ss_files_discovered acc1 + of_nat (length (concat (map files srcs))) \<and>
    m' (status_key b) = Some (enc (c_status C) s') \<and> keeps_units b m1 m' \<and> same_elsewhere b m1 m' \<and>
    (\<forall>x \<in> set (concat (map files srcs)). covered C b m1 (compute_file_hash hasher x (js_config (bs_spec spec))) m')"
    by (rule Cons.IH [OF _ d1 rest stored], rule Cons.prems(1)) simp
  note here = source_store_units [where b = b and m = m and C = C and n = "sc_batch_size cfg" and now = now and
      url = "su_url src" and outp = "js_output (bs_spec spec)" and ch = "js_config (bs_spec spec)" and
      fh = ?fh and v = "enc (c_status C) s1", folded m1_def]
  have IH': "mt' = mt" "phase s' = phase s" "sources_scanned s' = sources_scanned s + 1 + of_nat (length srcs)"
    "ss_files_discovered acc' = ss_files_discovered acc1 + of_nat (length (concat (map files srcs)))"
    "m' (status_key b) = Some (enc (c_status C) s')" "keeps_units b m1 m'" "same_elsewhere b m1 m'"
    "\<And>x. x \<in> set (concat (map files srcs)) \<Longrightarrow> covered C b m1 (compute_file_hash hasher x (js_config (bs_spec spec))) m'"
    using IH by (simp_all add: counts) blast
  have "covered C b m (compute_file_hash hasher x (js_config (bs_spec spec))) m'" if "x \<in> set (concat (map files (src # srcs)))" for x
  proof (cases "x \<in> set (files src)")
    case True
    then show ?thesis using covered_later [OF here(2) IH'(6)] by (force simp: source_hashes_def)
  next
    case False
    then have "covered C b m1 (compute_file_hash hasher x (js_config (bs_spec spec))) m'" using that IH'(8) by simp
    then show ?thesis by (rule covered_earlier [OF _ IH'(6) here(4)])
  qed
  moreover have "keeps_units b m m'" by (rule keeps_trans [OF here(1) IH'(6)])
  moreover have "same_elsewhere b m m'" using here(3) IH'(7) unfolding same_elsewhere_def by metis
  moreover have "ss_files_discovered acc' = ss_files_discovered acc + of_nat (length (concat (map files (src # srcs))))"
    using IH'(4) by (simp add: add_stats_def source_stats_def acc1_def)
  ultimately show ?case using IH'(1,2,3,5) by (simp add: add.assoc)
qed


lemma scan_fold_no_files:
  assumes "\<And>src. src \<in> set srcs \<Longrightarrow> scan_source_url create (su_url src) = Inr []"
  shows "ss_jobs_created (fst (snd (fold (scan_step C cfg now create hasher b spec) srcs (s, acc, m, mt)))) = ss_jobs_created acc"
  using assms
proof (induction srcs arbitrary: s acc m mt)
  case (Cons src srcs)
  obtain s1 m1 where "scan_step C cfg now create hasher b spec src (s, acc, m, mt) =
      (s1, add_stats acc (source_stats ([] :: object_metadata list) ([] :: (object_metadata \<times> string) list)), m1, mt)"
    using Cons.prems [of src] by (simp add: scan_step_def Let_def new_files_def source_hashes_def)
  then show ?case using Cons by (simp add: add_stats_def source_stats_def)
qed simp

lemma started_pending:
  assumes "phase s = Pending"
  shows "discovery (started_status now spec s) = Some (discovery_new (of_nat (length (js_sources (bs_spec spec)))))"
    "phase (started_status now spec s) = Discovering" "sources_scanned (started_status now spec s) = 0"
    "started_store C now b spec s m = store_status C b s (started_status now spec s) m"
  using assms by (simp_all add: started_status_def sources_scanned_def discovery_new_def started_store_def store_status_def)

lemma store_status_keeps: "keeps_units b m (store_status C b old new m)"
  by (auto simp: keeps_units_def store_status_other)

lemma same_elsewhere_stored:
  assumes "batch_stored C m b spec s" "same_elsewhere b m m'" "m' (status_key b) = Some (enc (c_status C) s')"
    "phase s' = phase s"
  shows "batch_stored C m' b spec s'"
proof -
  have "m' (spec_key b) = m (spec_key b)" "m' (phase_key q b) = m (phase_key q b)" for q
    using assms(2) by (simp_all add: same_elsewhere_def)
  then show ?thesis using assms by (simp add: batch_stored_def index_ok_def)
qed

lemma finish_store_status:
  "\<not> sources_scanned s < n \<Longrightarrow> phase s = Discovering \<Longrightarrow>
   finish_store C now b n acc s m = store_status C b s (finish_status now n acc s) m"
  by (simp add: finish_store_def store_status_def Let_def)

section \<open>Properties\<close>

text \<open>C12: discovery completes. In a calm cluster, when every source of a pending batch can be listed, processing the batch
  succeeds: the batch ends in phase Running, or in Failed when the sources hold no file at all, and stays consistent with
  its spec and index; every listed file has its work unit, a unit that was not there before is pending and queued to be
  claimed, and units that were there keep their record and their queue entry.\<close>

theorem discovery_completes:
  assumes rel: "reliable_backend K contents fresh pend calm" and C: "codecs_ok C"
    and stored: "batch_stored C m b spec s" and pending: "phase s = Pending"
    and st: "client_at contents calm m now st" and chunk: "0 < sc_batch_size cfg"
    and lists: "\<forall>src \<in> set (js_sources (bs_spec spec)). scan_source_url create (su_url src) = Inr (files src)"
    and few: "length (js_sources (bs_spec spec)) < 2 ^ 32"
      "length (concat (map files (js_sources (bs_spec spec)))) < 2 ^ 64"
  defines "all \<equiv> concat (map files (js_sources (bs_spec spec)))"
  shows "\<exists>acc st' mt' s'. process_batch K C cfg create hasher b spec s (st, mt) = (Inr acc, (st', mt')) \<and>
    batch_stored C (contents (cl_world st')) b spec s' \<and> phase s' = (if all = [] then Failed else Running) \<and>
    unat (ss_files_discovered acc) = length all \<and> keeps_units b m (contents (cl_world st')) \<and>
    (\<forall>x \<in> set all. covered C b m (compute_file_hash hasher x (js_config (bs_spec spec))) (contents (cl_world st')))"
proof -
  let ?srcs = "js_sources (bs_spec spec)" let ?n = "of_nat (length ?srcs) :: u32"
  define s1 m1 where "s1 = started_status now spec s" and "m1 = store_status C b s s1 m"
  note start = started_pending [OF pending, where now = now and spec = spec, folded s1_def]
  have stored1: "batch_stored C m1 b spec s1" unfolding m1_def by (rule store_status_stored [OF stored])
  obtain s2 acc m2 mt2 where fold: "fold (scan_step C cfg now create hasher b spec) ?srcs (s1, scan_stats_zero, m1, mt) = (s2, acc, m2, mt2)"
    by (metis prod_cases4)
  have scan: "scan_sources C cfg now create hasher b spec s m mt = (s2, acc, m2, mt2)"
    using fold by (simp add: scan_sources_def s1_def [symmetric] start m1_def)
  have "mt2 = mt \<and> phase s2 = phase s1 \<and> sources_scanned s2 = sources_scanned s1 + of_nat (length ?srcs) \<and>
    ss_files_discovered acc = ss_files_discovered scan_stats_zero + of_nat (length (concat (map files ?srcs))) \<and>
    m2 (status_key b) = Some (enc (c_status C) s2) \<and> keeps_units b m1 m2 \<and> same_elsewhere b m1 m2 \<and>
    (\<forall>x \<in> set (concat (map files ?srcs)). covered C b m1 (compute_file_hash hasher x (js_config (bs_spec spec))) m2)"
    by (rule scan_fold_ok [OF _ start(1) fold]) (use lists stored1 in \<open>auto simp: batch_stored_def\<close>)
  then have r: "phase s2 = Discovering" "sources_scanned s2 = ?n" "ss_files_discovered acc = of_nat (length all)"
    "m2 (status_key b) = Some (enc (c_status C) s2)" "keeps_units b m1 m2" "same_elsewhere b m1 m2"
    "\<And>x. x \<in> set all \<Longrightarrow> covered C b m1 (compute_file_hash hasher x (js_config (bs_spec spec))) m2"
    by (simp_all add: start all_def scan_stats_zero_def) blast
  define s3 m3 where "s3 = finish_status now ?n acc s2" and "m3 = store_status C b s2 s3 m2"
  have m3: "finish_store C now b ?n acc s2 m2 = m3" using r(1,2) by (simp add: finish_store_status s3_def m3_def)
  have stored3: "batch_stored C m3 b spec s3" unfolding m3_def
    by (rule store_status_stored, rule same_elsewhere_stored [OF stored1 r(6,4)]) (simp add: r(1) start)
  have count: "unat (ss_files_discovered acc) = length all"
    using few(2) by (simp add: r(3) all_def unat_of_nat take_bit_nat_eq_self)
  then have none: "ss_files_discovered acc = 0 \<longleftrightarrow> all = []" by (auto simp: word_unat_eq_iff)
  have "ss_jobs_created acc = 0" if "all = []"
    using scan_fold_no_files [of ?srcs create C cfg now hasher b spec s1 scan_stats_zero m1 mt] lists that fold
    by (simp add: all_def scan_stats_zero_def)
  then have ph: "phase s3 = (if all = [] then Failed else Running)"
    using count none r(2) by (auto simp: s3_def finish_status_def)
  have units: "m1 (unit_key b h) = m (unit_key b h)" "keeps_units b m m1" "keeps_units b m2 m3" for h
    by (simp_all add: m1_def m3_def store_status_keeps store_status_other)
  have cov: "covered C b m (compute_file_hash hasher x (js_config (bs_spec spec))) m3" if "x \<in> set all" for x
    using covered_later [OF r(7) [OF that] units(3)] by (simp add: covered_def units(1))
  have keep: "keeps_units b m m3" by (rule keeps_trans [OF units(2) keeps_trans [OF r(5) units(3)]])
  have "phase s \<noteq> Running" using pending by simp
  note run = reliable_backend.process_batch_yields [OF rel C this scan, unfolded m3]
  have "client_at contents calm m now (fst (st, mt)) \<and> snd (st, mt) = mt" using st by simp
  then obtain st' where "process_batch K C cfg create hasher b spec s (st, mt) = (Inr acc, (st', counted acc mt2))"
    "contents (cl_world st') = m3"
    using yieldsD [OF run, of "(st, mt)"] by (auto simp: client_at_def)
  then show ?thesis using stored3 ph count keep cov by blast
qed


text \<open>A bucket with one new file.\<close>

definition demo_bucket :: storage_factory where
  "demo_bucket url = Inr \<lparr> sv_list = (\<lambda>_. Inr [object_metadata_new ''a.bag'' 5]), sv_metadata = (\<lambda>p. Inl (NotFound p)) \<rparr>"

lemma demo_source: "scan_source_url demo_bucket url = Inr [object_metadata_new ''a.bag'' 5]"
  by (simp add: scan_source_url_def demo_bucket_def object_metadata_new_def)

lemma demo_spec_sources: "length (js_sources (bs_spec demo_spec)) = 1"
  by (simp add: demo_spec_def batch_spec_new_def)

theorem discovery_completes_witness:
  "\<exists>acc st' mt' s'. process_batch mem_kv mem_codecs default_scanner_config demo_bucket (\<lambda>_ _ _. 1) ''jobs:b'' demo_spec (status_new 0)
      (demo_client (demo_store demo_batch []) 7, scanner_metrics_new) = (Inr acc, (st', mt')) \<and>
    batch_stored mem_codecs (mem_contents (cl_world st')) ''jobs:b'' demo_spec s' \<and> phase s' = Running"
proof -
  obtain src where "js_sources (bs_spec demo_spec) = [src]"
    using demo_spec_sources by (auto simp: length_Suc_conv)
  then show ?thesis
    using discovery_completes [OF mem.reliable_backend_axioms mem_codecs_ok demo_batch_stored _ demo_client_at [of demo_batch 7],
        where cfg = default_scanner_config and create = demo_bucket and hasher = "\<lambda>_ _ _. 1" and mt = scanner_metrics_new
          and files = "\<lambda>_. [object_metadata_new ''a.bag'' 5]"]
    by (auto simp: demo_source status_new_def default_scanner_config_def DEFAULT_BATCH_SIZE_def)
qed

theorem scan_keeps_units_witness:
  "\<exists>r st' mt'. process_batch mem_kv mem_codecs default_scanner_config demo_bucket (\<lambda>_ _ _. 1) ''jobs:b'' demo_spec (status_new 0)
      (demo_client (demo_store demo_batch []) 7, scanner_metrics_new) = (r, (st', mt')) \<and>
    scan_rel ''jobs:b'' (map_of demo_batch) (mem_contents (cl_world st'))"
proof -
  obtain r st' mt' where run: "process_batch mem_kv mem_codecs default_scanner_config demo_bucket (\<lambda>_ _ _. 1) ''jobs:b'' demo_spec
      (status_new 0) (demo_client (demo_store demo_batch []) 7, scanner_metrics_new) = (r, (st', mt'))"
    by (metis prod_cases3)
  have "mem_contents (cl_world (demo_client (demo_store demo_batch []) 7)) = map_of demo_batch"
    using demo_client_at [of demo_batch 7] by (simp add: client_at_def)
  with scan_keeps_units [OF mem.tikv_backend_axioms run] run show ?thesis by auto
qed


text \<open>What one source does to the store of a batch.\<close>

definition source_store ::
    "'v codecs \<Rightarrow> scanner_config \<Rightarrow> timestamp \<Rightarrow> hasher \<Rightarrow> string \<Rightarrow> batch_spec \<Rightarrow> source_url \<Rightarrow> object_metadata list \<Rightarrow>
     batch_status \<Rightarrow> (key \<rightharpoonup> 'v) \<Rightarrow> (key \<rightharpoonup> 'v)" where
  "source_store C cfg now hasher b spec src files s m =
     (store_new C (sc_batch_size cfg) now b (su_url src) (js_output (bs_spec spec)) (js_config (bs_spec spec))
        (new_files m b (source_hashes hasher (js_config (bs_spec spec)) files)) m)(status_key b \<mapsto> enc (c_status C) s)"

definition source_result :: "hasher \<Rightarrow> string \<Rightarrow> batch_spec \<Rightarrow> object_metadata list \<Rightarrow> (key \<rightharpoonup> 'v) \<Rightarrow> scan_stats" where
  "source_result hasher b spec files m =
     source_stats files (new_files m b (source_hashes hasher (js_config (bs_spec spec)) files))"

lemma scan_step_simps:
  "scan_source_url create (su_url src) = Inl e \<Longrightarrow>
     scan_step C cfg now create hasher b spec src (s, acc, m, mt) = (s, acc, m, inc_scan_errors mt)"
  "scan_source_url create (su_url src) = Inr files \<Longrightarrow>
     scan_step C cfg now create hasher b spec src (s, acc, m, mt) =
       (source_done (source_result hasher b spec files m) s, add_stats acc (source_result hasher b spec files m),
        source_store C cfg now hasher b spec src files (source_done (source_result hasher b spec files m) s) m, mt)"
  by (simp_all add: scan_step_def source_store_def source_result_def Let_def)

lemma source_store_stored:
  "batch_stored C m b spec s \<Longrightarrow> phase s' = phase s \<Longrightarrow> batch_stored C (source_store C cfg now hasher b spec src files s' m) b spec s'"
  unfolding source_store_def by (erule same_elsewhere_stored [OF _ source_store_units(3)]) simp_all

lemma source_store_unlisted:
  assumes "h \<notin> (\<lambda>x. compute_file_hash hasher x (js_config (bs_spec spec))) ` set files"
  shows "source_store C cfg now hasher b spec src files s m (unit_key b h) = m (unit_key b h)"
proof -
  have "h \<notin> snd ` set (new_files m b (source_hashes hasher (js_config (bs_spec spec)) files))"
    using assms by (auto simp: new_files_def source_hashes_def)
  then show ?thesis by (simp add: source_store_def store_new_units(2))
qed


lemma process_batch_run:
  assumes rel: "reliable_backend K contents fresh pend calm" and C: "codecs_ok C" and ph: "phase s \<noteq> Running"
    and st: "client_at contents calm m now st"
    and scan: "scan_sources C cfg now create hasher b spec s m mt = (s2, acc, m2, mt2)"
    and fin: "finish_store C now b (of_nat (length (js_sources (bs_spec spec)))) acc s2 m2 = m3"
  shows "\<exists>st'. process_batch K C cfg create hasher b spec s (st, mt) = (Inr acc, (st', counted acc mt2)) \<and>
    client_at contents calm m3 now st'"
proof -
  have "client_at contents calm m now (fst (st, mt)) \<and> snd (st, mt) = mt" using st by simp
  from yieldsD [OF reliable_backend.process_batch_yields [OF rel C ph scan, unfolded fin], of "(st, mt)", OF this]
  show ?thesis by auto
qed

text \<open>The first source fails: only the second is counted.\<close>

lemma first_source_fails:
  fixes m :: "key \<rightharpoonup> 'v"
  assumes stored: "batch_stored C m b spec s" and pending: "phase s = Pending" and srcs: "js_sources (bs_spec spec) = [a, c]"
    and one: "scan_source_url create (su_url a) = Inl e" "scan_source_url create (su_url c) = Inr files"
    and h: "h \<notin> (\<lambda>x. compute_file_hash hasher x (js_config (bs_spec spec))) ` set files" "m (unit_key b h) = None"
  obtains acc s1 m1 d where "scan_sources C cfg now create hasher b spec s m mt = (s1, acc, m1, inc_scan_errors mt)"
    "phase s1 = Discovering" "sources_scanned s1 = 1" "discovery s1 = Some d" "batch_stored C m1 b spec s1" "m1 (unit_key b h) = None"
proof -
  define s0 m0 where "s0 = started_status now spec s" and "m0 = store_status C b s s0 m"
  note start = started_pending [OF pending, where now = now and spec = spec, folded s0_def]
  have stored0: "batch_stored C m0 b spec s0" unfolding m0_def by (rule store_status_stored [OF stored])
  define r1 where "r1 = source_result hasher b spec files m0"
  define s1 where "s1 = source_done r1 s0"
  define m1 where "m1 = source_store C cfg now hasher b spec c files s1 m0"
  have count: "sources_scanned s1 = 1" "phase s1 = Discovering"
    using source_done_simps(2) [OF start(1)] by (simp_all add: s1_def start)
  have "batch_stored C m1 b spec s1" unfolding m1_def
    by (rule source_store_stored [OF stored0]) (simp add: count start)
  moreover have "scan_sources C cfg now create hasher b spec s m mt = (s1, add_stats scan_stats_zero r1, m1, inc_scan_errors mt)"
    by (simp add: scan_sources_def s0_def [symmetric] start srcs scan_step_simps(1) [OF one(1)] scan_step_simps(2) [OF one(2)]
        m0_def [symmetric] r1_def [symmetric] s1_def [symmetric] m1_def [symmetric])
  moreover have "m1 (unit_key b h) = None" using h by (simp add: m1_def m0_def store_status_other source_store_unlisted)
  moreover obtain d where "discovery s1 = Some d" by (simp add: s1_def start)
  ultimately show ?thesis using count that by blast
qed

text \<open>Resuming skips the first source.\<close>

lemma resume_skips_first:
  fixes m :: "key \<rightharpoonup> 'v"
  assumes stored: "batch_stored C m b spec s" and ph: "phase s = Discovering" "sources_scanned s = 1" "discovery s = Some d"
    and srcs: "js_sources (bs_spec spec) = [a, c]"
    and two: "scan_source_url create (su_url c) = Inr (x # xs)" and few: "length xs < 1000"
    and h: "h \<notin> (\<lambda>x. compute_file_hash hasher x (js_config (bs_spec spec))) ` set (x # xs)" "m (unit_key b h) = None"
  obtains acc s2 m2 s3 m3 where "scan_sources C cfg now create hasher b spec s m mt = (s2, acc, m2, mt)"
    "finish_store C now b (of_nat (length (js_sources (bs_spec spec)))) acc s2 m2 = m3"
    "batch_stored C m3 b spec s3" "phase s3 = Running" "m3 (unit_key b h) = None"
proof -
  define r2 where "r2 = source_result hasher b spec (x # xs) m"
  define s2 where "s2 = source_done r2 s"
  define m2 where "m2 = source_store C cfg now hasher b spec c (x # xs) s2 m"
  define s3 where "s3 = finish_status now (of_nat (length (js_sources (bs_spec spec)))) (add_stats scan_stats_zero r2) s2"
  define m3 where "m3 = store_status C b s2 s3 m2"
  have same: "started_status now spec s = s" "started_store C now b spec s m = m"
    by (simp_all add: started_status_def started_store_def ph)
  have scan: "scan_sources C cfg now create hasher b spec s m mt = (s2, add_stats scan_stats_zero r2, m2, mt)"
    by (simp add: scan_sources_def same ph srcs scan_step_simps(2) [OF two] r2_def [symmetric] s2_def [symmetric] m2_def [symmetric])
  have count: "sources_scanned s2 = 2" "phase s2 = Discovering"
    using source_done_simps(2) [OF ph(3)] by (simp_all add: s2_def ph)
  have fin: "finish_store C now b (of_nat (length (js_sources (bs_spec spec)))) (add_stats scan_stats_zero r2) s2 m2 = m3"
    unfolding m3_def s3_def by (rule finish_store_status) (simp_all add: count srcs)
  have "unat (ss_files_discovered r2) = Suc (length xs)"
    using few unat_of_nat [where 'a = 64, of "Suc (length xs)"] by (simp add: r2_def source_result_def source_stats_def)
  then have "ss_files_discovered r2 \<noteq> 0" by auto
  then have "phase s3 = Running" by (simp add: s3_def finish_status_def count srcs add_stats_def scan_stats_zero_def)
  moreover have "batch_stored C m3 b spec s3" unfolding m3_def m2_def
    by (rule store_status_stored, rule source_store_stored [OF stored]) (simp add: count ph)
  moreover have "m3 (unit_key b h) = None"
    using h by (simp add: m3_def m2_def store_status_other source_store_unlisted)
  ultimately show ?thesis using that [OF scan fin] by blast
qed

text \<open>a source that fails once is lost. When the first of two sources cannot be listed in one cycle and the second
  can, the batch stays in Discovering with one source counted. The next cycle skips as many sources as were counted, so
  it scans the second source again and never the first, whether it works by then or not, and moves the batch to
  Running: the files of the first source have no work unit, and no later cycle looks at the batch.\<close>

theorem failed_source_lost:
  assumes rel: "reliable_backend K contents fresh pend calm" and C: "codecs_ok C"
    and stored: "batch_stored C m b spec s" and pending: "phase s = Pending" and st: "client_at contents calm m now st"
    and chunk: "0 < sc_batch_size cfg" and srcs: "js_sources (bs_spec spec) = [a, c]"
    and one: "scan_source_url create1 (su_url a) = Inl e" "scan_source_url create1 (su_url c) = Inr (x # xs)"
    and two: "scan_source_url create2 (su_url c) = Inr (x # xs)" and few: "length xs < 1000"
    and h: "h \<notin> (\<lambda>x. compute_file_hash hasher x (js_config (bs_spec spec))) ` set (x # xs)" "m (unit_key b h) = None"
  shows "\<exists>acc1 st1 mt1 s1. process_batch K C cfg create1 hasher b spec s (st, mt) = (Inr acc1, (st1, mt1)) \<and>
    batch_stored C (contents (cl_world st1)) b spec s1 \<and> phase s1 = Discovering \<and> sources_scanned s1 = 1 \<and>
    (\<exists>acc2 st2 mt2 s2. process_batch K C cfg create2 hasher b spec s1 (st1, mt1) = (Inr acc2, (st2, mt2)) \<and>
       batch_stored C (contents (cl_world st2)) b spec s2 \<and> phase s2 = Running \<and> contents (cl_world st2) (unit_key b h) = None)"
proof -
  have none: "h \<notin> (\<lambda>x. compute_file_hash hasher x (js_config (bs_spec spec))) ` set (x # xs)" by (fact h(1))
  obtain acc1 s1 m1 d where one': "scan_sources C cfg now create1 hasher b spec s m mt = (s1, acc1, m1, inc_scan_errors mt)"
    "phase s1 = Discovering" "sources_scanned s1 = 1" "discovery s1 = Some d" "batch_stored C m1 b spec s1" "m1 (unit_key b h) = None"
    by (rule first_source_fails [OF stored pending srcs one h])
  have wait: "finish_store C now b (of_nat (length (js_sources (bs_spec spec)))) acc1 s1 m1 = m1"
    by (simp add: finish_store_def one' srcs)
  have "phase s \<noteq> Running" using pending by simp
  from process_batch_run [OF rel C this st one'(1) wait] obtain st1 where
    1: "process_batch K C cfg create1 hasher b spec s (st, mt) = (Inr acc1, (st1, counted acc1 (inc_scan_errors mt)))"
    "client_at contents calm m1 now st1" by blast
  let ?mt1 = "counted acc1 (inc_scan_errors mt)"
  obtain acc2 s2 m2 s3 m3 where two': "scan_sources C cfg now create2 hasher b spec s1 m1 ?mt1 = (s2, acc2, m2, ?mt1)"
    "finish_store C now b (of_nat (length (js_sources (bs_spec spec)))) acc2 s2 m2 = m3"
    "batch_stored C m3 b spec s3" "phase s3 = Running" "m3 (unit_key b h) = None"
    by (rule resume_skips_first [OF one'(5,2,3,4) srcs two few none one'(6)])
  have "phase s1 \<noteq> Running" by (simp add: one')
  from process_batch_run [OF rel C this 1(2) two'(1,2)] obtain st2 where
    2: "process_batch K C cfg create2 hasher b spec s1 (st1, ?mt1) = (Inr acc2, (st2, counted acc2 ?mt1))"
    "client_at contents calm m3 now st2" by blast
  have "contents (cl_world st1) = m1" "contents (cl_world st2) = m3" using 1(2) 2(2) by (simp_all add: client_at_def)
  then show ?thesis using 1(1) 2(1) one' two' by metis
qed

text \<open>Two sources with a file each, of which the first cannot be reached at first.\<close>

definition demo_pair :: batch_spec where
  "demo_pair = batch_spec_new 0 ''b'' [''s3://in/a'', ''s3://in/c''] ''s3://out/b''"

definition demo_pair_batch :: "(key \<times> payload) list" where
  "demo_pair_batch = [(spec_key ''jobs:b'', PSpec demo_pair), (status_key ''jobs:b'', PStatus (status_new 0)),
     (phase_key Pending ''jobs:b'', PRaw [])]"

definition demo_listing :: "string \<Rightarrow> storage_view" where
  "demo_listing url = \<lparr> sv_list = (\<lambda>p. Inr [object_metadata_new p 5]), sv_metadata = (\<lambda>p. Inl (NotFound p)) \<rparr>"

definition demo_flaky :: "string list \<Rightarrow> storage_factory" where
  "demo_flaky bad url = (if url \<in> set bad then Inl (StorageTimeout url) else Inr (demo_listing url))"

definition demo_hasher :: hasher where
  "demo_hasher path n ch = (if path = ''a'' then 1 else 2)"

lemma demo_pair_stored: "batch_stored mem_codecs (map_of demo_pair_batch) ''jobs:b'' demo_pair (status_new 0)"
  by (auto simp: batch_stored_def demo_pair_batch_def index_ok_def enc_def mem_codecs_def mem_codec_def status_new_def)

theorem failed_source_lost_witness:
  "\<exists>acc1 st1 mt1 s1. process_batch mem_kv mem_codecs default_scanner_config (demo_flaky [''s3://in/a'']) demo_hasher ''jobs:b''
      demo_pair (status_new 0) (demo_client (demo_store demo_pair_batch []) 7, scanner_metrics_new) = (Inr acc1, (st1, mt1)) \<and>
    (\<exists>acc2 st2 mt2 s2. process_batch mem_kv mem_codecs default_scanner_config (demo_flaky []) demo_hasher ''jobs:b'' demo_pair s1 (st1, mt1)
        = (Inr acc2, (st2, mt2)) \<and>
      batch_stored mem_codecs (mem_contents (cl_world st2)) ''jobs:b'' demo_pair s2 \<and> phase s2 = Running \<and>
      mem_contents (cl_world st2) (unit_key ''jobs:b'' (hex16 1)) = None)"
proof -
  obtain a c where srcs: "js_sources (bs_spec demo_pair) = [a, c]" "su_url a = ''s3://in/a''" "su_url c = ''s3://in/c''"
    by (simp add: demo_pair_def batch_spec_new_def)
  have p: "path_for_list ''s3://in/c'' = ''c''" by code_simp
  have "hex16 1 ! 15 \<noteq> hex16 2 ! 15" by (simp add: hex16_def hex_digit_def)
  then have "hex16 1 \<noteq> hex16 2" by metis
  then have h: "hex16 1 \<notin> (\<lambda>x. compute_file_hash demo_hasher x (js_config (bs_spec demo_pair))) ` set [object_metadata_new ''c'' 5]"
    by (simp add: compute_file_hash_def demo_hasher_def object_metadata_new_def)
  have no: "map_of demo_pair_batch (unit_key ''jobs:b'' (hex16 1)) = None" by (simp add: demo_pair_batch_def)
  have lists: "scan_source_url (demo_flaky [''s3://in/a'']) (su_url a) = Inl (StorageTimeout ''s3://in/a'')"
    "scan_source_url (demo_flaky [''s3://in/a'']) (su_url c) = Inr [object_metadata_new ''c'' 5]"
    "scan_source_url (demo_flaky []) (su_url c) = Inr [object_metadata_new ''c'' 5]"
    by (simp_all add: srcs scan_source_url_def demo_flaky_def demo_listing_def p object_metadata_new_def)
  have "phase (status_new 0) = Pending" "0 < sc_batch_size default_scanner_config"
    by (simp_all add: status_new_def default_scanner_config_def DEFAULT_BATCH_SIZE_def)
  from failed_source_lost [OF mem.reliable_backend_axioms mem_codecs_ok demo_pair_stored this(1) demo_client_at this(2) srcs(1)
      lists _ h no, where now = 7 and mt = scanner_metrics_new] show ?thesis by (simp, blast)
qed

end
