(* ===== verification/Local_Paths.thy ===== *)
theory Local_Paths
  imports Storage_Types
begin

text \<open>
  The path logic of the local storage backend (\<open>local.rs\<close>): every operation first turns its argument into a path
  below the root directory. A path of the standard library is the list of its components (Unix, so there are no
  prefixes); two paths are equal, and one starts with another, when their component lists do. The file operations
  themselves are system calls.

  An accepted path lies below the root and has no \<open>..\<close> left, and a path that ends elsewhere is refused (\<open>local_path_confined\<close>).
\<close>

section \<open>Paths\<close>

datatype component = RootDir | CurDir | ParentDir | Normal string

type_synonym path = "component list"

definition component_of :: "string \<Rightarrow> component list" where
  "component_of s = (if s = [] \<or> s = ''.'' then [] else if s = ''..'' then [ParentDir] else [Normal s])"

text \<open>\<open>Path::components\<close>: repeated slashes and inner \<open>.\<close> are dropped, a leading \<open>.\<close> is kept.\<close>

definition components :: "string \<Rightarrow> path" where
  "components s =
     (let parts = split_char CHR ''/'' s
      in (if starts_with s ''/'' then [RootDir] else if hd parts = ''.'' then [CurDir] else [])
         @ concat (map component_of parts))"

definition is_absolute :: "path \<Rightarrow> bool" where
  "is_absolute p = (case p of RootDir # _ \<Rightarrow> True | _ \<Rightarrow> False)"

text \<open>\<open>join\<close>: an absolute path replaces the base; the leading \<open>.\<close> of a relative one is an inner one afterwards.\<close>

definition path_join :: "path \<Rightarrow> path \<Rightarrow> path" where
  "path_join base p =
     (if is_absolute p then p else base @ (if base \<noteq> [] then filter (\<lambda>c. c \<noteq> CurDir) p else p))"

definition path_parent :: "path \<Rightarrow> path option" where
  "path_parent p = (if p = [] \<or> last p = RootDir then None else Some (butlast p))"

definition path_starts_with :: "path \<Rightarrow> path \<Rightarrow> bool" where
  "path_starts_with p q = prefix q p"

section \<open>The root directory is not left\<close>

fun normalize_root_loop :: "path \<Rightarrow> path \<Rightarrow> bool \<Rightarrow> path" where
  "normalize_root_loop [] r skip = r"
| "normalize_root_loop (RootDir # cs) r skip = normalize_root_loop cs [RootDir] False"
| "normalize_root_loop (CurDir # cs) r skip =
     normalize_root_loop cs (if \<not> skip \<or> r \<noteq> [] then r @ [CurDir] else r) skip"
| "normalize_root_loop (c # cs) r skip = normalize_root_loop cs (r @ [c]) False"

definition normalize_root :: "path \<Rightarrow> path" where
  "normalize_root rt = (let r = normalize_root_loop rt [] True in if r = [] then [CurDir] else r)"

fun resolve_loop :: "path \<Rightarrow> path \<Rightarrow> storage_error + path" where
  "resolve_loop [] r = Inr r"
| "resolve_loop (RootDir # cs) r = resolve_loop cs [RootDir]"
| "resolve_loop (CurDir # cs) r = resolve_loop cs r"
| "resolve_loop (ParentDir # cs) r =
     (case path_parent r of
        None \<Rightarrow> Inl (PermissionDenied (''Path traversal detected: '' @ [CHR 0x27] @ ''..'' @ [CHR 0x27] @ '' escape attempt''))
      | Some p \<Rightarrow> resolve_loop cs p)"
| "resolve_loop (Normal s # cs) r = resolve_loop cs (r @ [Normal s])"

definition normalize_path :: "path \<Rightarrow> path \<Rightarrow> storage_error + path" where
  "normalize_path p rt =
     (case resolve_loop p [] of
        Inl e \<Rightarrow> Inl e
      | Inr result \<Rightarrow>
          (let nroot = normalize_root rt
           in if result \<noteq> nroot \<and> \<not> path_starts_with result nroot
                then Inl (PermissionDenied ''Path traversal detected: access denied'')
              else Inr result))"

definition full_path :: "path \<Rightarrow> string \<Rightarrow> storage_error + path" where
  "full_path rt p = normalize_path (path_join rt (components p)) rt"

section \<open>Properties\<close>

text \<open>A resolved path is a root followed by names, or names alone.\<close>

definition resolved :: "path \<Rightarrow> bool" where
  "resolved p \<longleftrightarrow> list_all (\<lambda>c. case c of Normal _ \<Rightarrow> True | _ \<Rightarrow> False) (case p of RootDir # cs \<Rightarrow> cs | _ \<Rightarrow> p)"

lemma resolved_butlast: "resolved p \<Longrightarrow> path_parent p = Some q \<Longrightarrow> resolved q"
  by (cases p) (auto simp: resolved_def path_parent_def list_all_iff dest!: in_set_butlastD
      split: if_splits component.splits list.splits)

lemma resolve_loop_resolved: "resolve_loop cs r = Inr p \<Longrightarrow> resolved r \<Longrightarrow> resolved p"
proof (induction cs r rule: resolve_loop.induct)
  case (4 cs r)
  then show ?case by (auto simp: resolved_butlast split: option.splits)
next
  case (5 s cs r)
  have "resolved (r @ [Normal s])" using 5(3) by (cases r) (auto simp: resolved_def split: component.splits)
  with 5 show ?case by simp
qed (auto simp: resolved_def)

lemma resolve_loop_names:
  "list_all (\<lambda>c. case c of Normal _ \<Rightarrow> True | _ \<Rightarrow> False) cs \<Longrightarrow> resolve_loop cs r = Inr (r @ cs)"
  by (induction cs arbitrary: r) (auto split: component.splits)

lemma normalize_root_clean:
  assumes "list_all (\<lambda>c. case c of Normal _ \<Rightarrow> True | _ \<Rightarrow> False) cs"
  shows "normalize_root (RootDir # cs) = RootDir # cs"
proof -
  have "normalize_root_loop cs r False = r @ cs" for r
    using assms by (induction cs arbitrary: r) (auto split: component.splits)
  then show ?thesis by (simp add: normalize_root_def)
qed

text \<open>The directory a sequence of components leads to, starting in a directory given by its names from the root of the file
  system; nothing when it climbs above that root.\<close>

fun walk :: "string list \<Rightarrow> path \<Rightarrow> string list option" where
  "walk ns [] = Some ns"
| "walk ns (RootDir # cs) = walk [] cs"
| "walk ns (CurDir # cs) = walk ns cs"
| "walk ns (ParentDir # cs) = (if ns = [] then None else walk (butlast ns) cs)"
| "walk ns (Normal s # cs) = walk (ns @ [s]) cs"

lemma walk_without_CurDir: "walk ns (filter (\<lambda>c. c \<noteq> CurDir) cs) = walk ns cs"
  by (induction ns cs rule: walk.induct) auto

abbreviation escape_error :: storage_error where
  "escape_error \<equiv> PermissionDenied (''Path traversal detected: '' @ [CHR 0x27] @ ''..'' @ [CHR 0x27] @ '' escape attempt'')"

lemma resolve_loop_walk:
  "resolve_loop cs (RootDir # map Normal ns) =
     (case walk ns cs of None \<Rightarrow> Inl escape_error | Some q \<Rightarrow> Inr (RootDir # map Normal q))"
proof (induction ns cs rule: walk.induct)
  case (4 ns cs)
  have "path_parent (RootDir # map Normal ns) = (if ns = [] then None else Some (RootDir # map Normal (butlast ns)))"
    by (auto simp: path_parent_def last_map map_butlast)
  with 4 show ?case by simp
next
  case (5 ns s cs)
  then show ?case by simp
qed auto

lemma prefix_map_Normal: "prefix (map Normal ns) (map Normal q) \<longleftrightarrow> prefix ns q"
proof (induction ns arbitrary: q)
  case (Cons n ns)
  then show ?case by (cases q) auto
qed simp

lemma map_Normal_eq: "map Normal ns = map Normal q \<longleftrightarrow> ns = q"
  by (simp add: inj_map_eq_map inj_def)

lemma resolve_below:
  "resolve_loop (path_join (RootDir # map Normal ns) (components s)) [] =
     (case walk (if is_absolute (components s) then [] else ns) (components s) of
        None \<Rightarrow> Inl escape_error | Some q \<Rightarrow> Inr (RootDir # map Normal q))"
proof (cases "is_absolute (components s)")
  case True
  then obtain cs where "components s = RootDir # cs"
    by (auto simp: is_absolute_def split: list.splits component.splits)
  then show ?thesis using resolve_loop_walk [of cs "[]"] by (simp add: path_join_def is_absolute_def)
next
  case False
  have names: "resolve_loop (map Normal ns @ cs) r = resolve_loop cs (r @ map Normal ns)" for cs r
    by (induction ns arbitrary: r) auto
  from False resolve_loop_walk [of "filter (\<lambda>c. c \<noteq> CurDir) (components s)" ns] show ?thesis
    by (simp add: path_join_def names walk_without_CurDir)
qed

text \<open>C14: local storage does not leave its root directory. A path that is accepted, under whatever root, starts with the
  (normalized) root and has no \<open>..\<close> or \<open>.\<close> after its first component. Under an absolute root without \<open>..\<close> the result is
  exact: the argument is followed from the root directory (an absolute one from the root of the file system); if it climbs
  above the root of the file system, or ends outside the root directory, it is refused as a traversal, and otherwise it is
  accepted as the place where it ends, also when it leaves the root directory on the way and comes back.\<close>

theorem local_path_confined:
  "(full_path rt s = Inr p \<longrightarrow> prefix (normalize_root rt) p \<and> resolved p) \<and>
   full_path (RootDir # map Normal ns) s =
     (case walk (if is_absolute (components s) then [] else ns) (components s) of
        None \<Rightarrow> Inl (PermissionDenied (''Path traversal detected: '' @ [CHR 0x27] @ ''..'' @ [CHR 0x27] @ '' escape attempt''))
      | Some q \<Rightarrow>
          if prefix ns q then Inr (RootDir # map Normal q)
          else Inl (PermissionDenied ''Path traversal detected: access denied''))"
proof (intro conjI impI)
  assume acc: "full_path rt s = Inr p"
  then obtain q where q: "resolve_loop (path_join rt (components s)) [] = Inr q"
    by (auto simp: full_path_def normalize_path_def split: sum.splits)
  with acc have p: "p = q" "p = normalize_root rt \<or> prefix (normalize_root rt) p"
    by (auto simp: full_path_def normalize_path_def path_starts_with_def Let_def split: if_splits)
  then show "prefix (normalize_root rt) p" by auto
  show "resolved p" using resolve_loop_resolved [OF q] p(1) by (simp add: resolved_def)
next
  have "normalize_root (RootDir # map Normal ns) = RootDir # map Normal ns"
    by (rule normalize_root_clean) (simp add: list_all_iff)
  then show "full_path (RootDir # map Normal ns) s =
     (case walk (if is_absolute (components s) then [] else ns) (components s) of
        None \<Rightarrow> Inl escape_error
      | Some q \<Rightarrow>
          if prefix ns q then Inr (RootDir # map Normal q)
          else Inl (PermissionDenied ''Path traversal detected: access denied''))"
    unfolding full_path_def normalize_path_def resolve_below
    by (auto simp: path_starts_with_def Let_def prefix_map_Normal map_Normal_eq split: option.splits)
qed

theorem local_path_confined_witness:
  "full_path (components ''/data/bags'') ''../bags/x'' = Inr [RootDir, Normal ''data'', Normal ''bags'', Normal ''x''] \<and>
   full_path (components ''/data/bags'') ''x/../../y'' = Inl (PermissionDenied ''Path traversal detected: access denied'') \<and>
   prefix (normalize_root (components ''/data/bags'')) [RootDir, Normal ''data'', Normal ''bags'', Normal ''x'']"
proof -
  have c: "components ''/data/bags'' = RootDir # map Normal [''data'', ''bags'']"
    "components ''../bags/x'' = [ParentDir, Normal ''bags'', Normal ''x'']"
    "components ''x/../../y'' = [Normal ''x'', ParentDir, ParentDir, Normal ''y'']"
    by code_simp+
  have "full_path (RootDir # map Normal [''data'', ''bags'']) ''../bags/x'' =
      Inr [RootDir, Normal ''data'', Normal ''bags'', Normal ''x'']"
    "full_path (RootDir # map Normal [''data'', ''bags'']) ''x/../../y'' =
      Inl (PermissionDenied ''Path traversal detected: access denied'')"
    using local_path_confined [of "[]" "''../bags/x''" "[]" "[''data'', ''bags'']"]
      local_path_confined [of "[]" "''x/../../y''" "[]" "[''data'', ''bags'']"]
    by (simp_all add: c is_absolute_def)
  then show ?thesis
    using local_path_confined [of "components ''/data/bags''" "''../bags/x''" "[RootDir, Normal ''data'', Normal ''bags'', Normal ''x'']" "[]"]
    by (simp add: c(1))
qed

text \<open>Below the current directory nothing is accessible: a backend whose root is \<open>.\<close> or the empty path (the root
  the factory takes for a file name without a directory) refuses every path with a name in it, also those that stay
  below the root.\<close>

theorem dot_root_refuses:
  assumes "rt = [] \<or> rt = [CurDir]" "components s = Normal n # cs" "list_all (\<lambda>c. case c of Normal _ \<Rightarrow> True | _ \<Rightarrow> False) cs"
  shows "full_path rt s = Inl (PermissionDenied ''Path traversal detected: access denied'')"
proof -
  have names: "list_all (\<lambda>c. case c of Normal _ \<Rightarrow> True | _ \<Rightarrow> False) (Normal n # cs)" using assms(3) by simp
  have keep: "filter (\<lambda>c. c \<noteq> CurDir) cs = cs"
    using assms(3) by (auto simp: filter_id_conv list_all_iff)
  have "resolve_loop (path_join rt (components s)) [] = Inr (Normal n # cs)"
    using assms(1) resolve_loop_names [OF names, of "[]"] keep by (auto simp: assms(2) path_join_def is_absolute_def)
  moreover have "normalize_root rt = [CurDir]" using assms(1) by (auto simp: normalize_root_def)
  ultimately show ?thesis by (simp add: full_path_def normalize_path_def path_starts_with_def)
qed

theorem dot_root_refuses_witness:
  "full_path (components ''.'') ''a/b.bag'' = Inl (PermissionDenied ''Path traversal detected: access denied'')"
proof -
  have "components ''.'' = [CurDir]" "components ''a/b.bag'' = [Normal ''a'', Normal ''b.bag'']" by code_simp+
  then show ?thesis using dot_root_refuses [of "[CurDir]" "''a/b.bag''" "''a''" "[Normal ''b.bag'']"] by simp
qed

end
