(* ===== verification/Storage_Url.thy ===== *)
theory Storage_Url
  imports Local_Paths
begin

text \<open>
  URLs of the storage crate (\<open>url.rs\<close>), the configuration of S3 clients (\<open>S3Config\<close> of \<open>s3.rs\<close>) and the factory
  that turns a URL into a backend (\<open>factory.rs\<close>). The path in a URL is its text. What a backend does is I/O; the
  factory's result is the description of the backend it builds (\<open>backend\<close>).

  Printing and parsing URLs are inverse on the URLs that \<open>url_ok\<close> accepts.
\<close>

section \<open>URLs\<close>

datatype storage_url =
    LocalUrl string
  | S3Url (url_bucket: string) (url_key: string) (url_endpoint: "string option") (url_region: "string option")

definition url_is_local :: "storage_url \<Rightarrow> bool" where
  "url_is_local u = (case u of LocalUrl _ \<Rightarrow> True | S3Url _ _ _ _ \<Rightarrow> False)"

definition url_is_remote :: "storage_url \<Rightarrow> bool" where
  "url_is_remote u = (\<not> url_is_local u)"

definition url_path :: "storage_url \<Rightarrow> string" where
  "url_path u = (case u of LocalUrl path \<Rightarrow> path | S3Url _ key _ _ \<Rightarrow> key)"

definition url_bucket_opt :: "storage_url \<Rightarrow> string option" where
  "url_bucket_opt u = (case u of LocalUrl _ \<Rightarrow> None | S3Url bucket _ _ _ \<Rightarrow> Some bucket)"

definition s3_url :: "string \<Rightarrow> string \<Rightarrow> storage_url" where
  "s3_url bucket key = S3Url bucket key None None"

text \<open>The query parameters, later ones overriding earlier ones; a parameter without \<open>=\<close> is ignored.\<close>

definition query_param :: "string \<Rightarrow> string option \<times> string option \<Rightarrow> string option \<times> string option" where
  "query_param param = (\<lambda>(endpoint, region).
     case split_once CHR ''='' param of
       None \<Rightarrow> (endpoint, region)
     | Some (k, v) \<Rightarrow>
         (if k = ''endpoint'' then (Some v, region) else if k = ''region'' then (endpoint, Some v) else (endpoint, region)))"

definition parse_s3_url :: "string \<Rightarrow> storage_error + storage_url" where
  "parse_s3_url rest =
     (let (path, query) = (case split_once CHR ''?'' rest of Some (p, q) \<Rightarrow> (p, Some q) | None \<Rightarrow> (rest, None));
          (bucket, key) = (case split_once CHR ''/'' path of Some (b, k) \<Rightarrow> (b, k) | None \<Rightarrow> (path, []))
      in if bucket = [] then Inl (InvalidPath ''S3 URL missing bucket name'')
         else let (endpoint, region) =
                (case query of Some q \<Rightarrow> fold query_param (split_char CHR ''&'' q) (None, None) | None \<Rightarrow> (None, None))
              in Inr (S3Url bucket key endpoint region))"

definition parse_file_url :: "string \<Rightarrow> storage_url" where
  "parse_file_url rest =
     LocalUrl (if starts_with rest ''localhost/'' then ''/'' @ drop 9 rest
               else if starts_with rest ''/'' then rest
               else ''/'' @ rest)"

definition url_from_str :: "string \<Rightarrow> storage_error + storage_url" where
  "url_from_str s0 =
     (let s = trim s0
      in case split_str ''://'' s of
           Some (scheme, rest) \<Rightarrow>
             (if scheme = ''file'' then Inr (parse_file_url rest)
              else if scheme = ''s3'' then parse_s3_url rest
              else Inl (InvalidPath (''unsupported URL scheme: '' @ scheme)))
         | None \<Rightarrow>
             (if starts_with s ''s3:''
              then Inl (InvalidPath (''malformed cloud URL '' @ [CHR 0x27] @ s @ [CHR 0x27]
                                      @ '': use s3://bucket/path (double slash required)''))
              else Inr (LocalUrl s)))"

definition url_query :: "string option \<Rightarrow> string option \<Rightarrow> string" where
  "url_query endpoint region =
     (if endpoint = None \<and> region = None then []
      else ''?'' @ (case endpoint of Some e \<Rightarrow> ''endpoint='' @ e | None \<Rightarrow> [])
           @ (case region of Some r \<Rightarrow> (if endpoint \<noteq> None then ''&'' else []) @ ''region='' @ r | None \<Rightarrow> []))"

definition url_display :: "storage_url \<Rightarrow> string" where
  "url_display u =
     (case u of
        LocalUrl path \<Rightarrow> ''file://'' @ path
      | S3Url bucket key endpoint region \<Rightarrow> ''s3://'' @ bucket @ ''/'' @ key @ url_query endpoint region)"

section \<open>The factory\<close>

record storage_config =
  oss_access_key_id :: "string option"
  oss_access_key_secret :: "string option"
  oss_endpoint :: "string option"
  aws_access_key_id :: "string option"
  aws_secret_access_key :: "string option"
  aws_region :: "string option"
  aws_endpoint_url :: "string option"
  local_buffer_dir :: "string option"

definition default_storage_config :: storage_config where
  "default_storage_config =
     \<lparr> oss_access_key_id = None, oss_access_key_secret = None, oss_endpoint = None, aws_access_key_id = None,
       aws_secret_access_key = None, aws_region = None, aws_endpoint_url = None, local_buffer_dir = None \<rparr>"

definition or_else :: "'a option \<Rightarrow> 'a option \<Rightarrow> 'a option" where
  "or_else a b = (case a of Some x \<Rightarrow> Some x | None \<Rightarrow> b)"

definition storage_config_from_env :: "(string \<Rightarrow> string option) \<Rightarrow> storage_config" where
  "storage_config_from_env env =
     \<lparr> oss_access_key_id =
         or_else (or_else (env ''OSS_ACCESS_KEY_ID'') (env ''ALIYUN_ACCESS_KEY_ID'')) (env ''ALIYUN_OSS_ACCESS_KEY_ID''),
       oss_access_key_secret =
         or_else (or_else (env ''OSS_ACCESS_KEY_SECRET'') (env ''ALIYUN_ACCESS_KEY_SECRET''))
           (env ''ALIYUN_OSS_ACCESS_KEY_SECRET''),
       oss_endpoint = or_else (env ''OSS_ENDPOINT'') (env ''ALIYUN_OSS_ENDPOINT''),
       aws_access_key_id = env ''AWS_ACCESS_KEY_ID'', aws_secret_access_key = env ''AWS_SECRET_ACCESS_KEY'',
       aws_region = env ''AWS_REGION'', aws_endpoint_url = env ''AWS_ENDPOINT_URL'',
       local_buffer_dir = env ''ROBOFLOW_BUFFER_DIR'' \<rparr>"

text \<open>The S3 section of a configuration file: key, secret, endpoint and region.\<close>

definition merge_with_config_file ::
    "(string option \<times> string option \<times> string option \<times> string option) option \<Rightarrow> storage_config \<Rightarrow> storage_config" where
  "merge_with_config_file config c =
     (case config of
        None \<Rightarrow> c
      | Some (key_id, secret, endpoint, region) \<Rightarrow>
          c\<lparr>oss_access_key_id := or_else (oss_access_key_id c) key_id,
            oss_access_key_secret := or_else (oss_access_key_secret c) secret,
            oss_endpoint := or_else (oss_endpoint c) endpoint,
            aws_region := or_else (aws_region c) region\<rparr>)"

definition with_oss_credentials :: "string \<Rightarrow> string \<Rightarrow> storage_config \<Rightarrow> storage_config" where
  "with_oss_credentials k s c = c\<lparr>oss_access_key_id := Some k, oss_access_key_secret := Some s\<rparr>"

definition with_oss_endpoint :: "string \<Rightarrow> storage_config \<Rightarrow> storage_config" where
  "with_oss_endpoint e c = c\<lparr>oss_endpoint := Some e\<rparr>"

definition with_aws_credentials :: "string \<Rightarrow> string \<Rightarrow> storage_config \<Rightarrow> storage_config" where
  "with_aws_credentials k s c = c\<lparr>aws_access_key_id := Some k, aws_secret_access_key := Some s\<rparr>"

definition with_aws_region :: "string \<Rightarrow> storage_config \<Rightarrow> storage_config" where
  "with_aws_region r c = c\<lparr>aws_region := Some r\<rparr>"

definition with_aws_endpoint_url :: "string \<Rightarrow> storage_config \<Rightarrow> storage_config" where
  "with_aws_endpoint_url e c = c\<lparr>aws_endpoint_url := Some e\<rparr>"

definition with_oss_region :: "string \<Rightarrow> storage_config \<Rightarrow> storage_config" where
  "with_oss_region r c = c\<lparr>aws_region := Some r\<rparr>"

definition with_local_buffer_dir :: "string \<Rightarrow> storage_config \<Rightarrow> storage_config" where
  "with_local_buffer_dir d c = c\<lparr>local_buffer_dir := Some d\<rparr>"

definition get_oss_key_id :: "storage_config \<Rightarrow> string option" where
  "get_oss_key_id c = or_else (oss_access_key_id c) (aws_access_key_id c)"

definition get_oss_key_secret :: "storage_config \<Rightarrow> string option" where
  "get_oss_key_secret c = or_else (oss_access_key_secret c) (aws_secret_access_key c)"

definition has_oss_credentials :: "storage_config \<Rightarrow> bool" where
  "has_oss_credentials c \<longleftrightarrow> get_oss_key_id c \<noteq> None \<and> get_oss_key_secret c \<noteq> None"

section \<open>S3 configuration\<close>

record s3_config =
  s3_bucket :: string
  s3_endpoint :: string
  s3_key_id :: string
  s3_key_secret :: string
  s3_region :: "string option"
  s3_prefix :: "string option"
  s3_use_internal_endpoint :: bool
  s3_allow_http :: bool

definition s3_config_new :: "string \<Rightarrow> string \<Rightarrow> string \<Rightarrow> string \<Rightarrow> s3_config" where
  "s3_config_new bucket endpoint key_id secret =
     \<lparr> s3_bucket = bucket, s3_endpoint = endpoint, s3_key_id = key_id, s3_key_secret = secret, s3_region = None,
       s3_prefix = None, s3_use_internal_endpoint = False, s3_allow_http = False \<rparr>"

definition s3_with_prefix :: "string \<Rightarrow> s3_config \<Rightarrow> s3_config" where
  "s3_with_prefix p c = c\<lparr>s3_prefix := Some p\<rparr>"

definition s3_with_region :: "string \<Rightarrow> s3_config \<Rightarrow> s3_config" where
  "s3_with_region r c = c\<lparr>s3_region := Some r\<rparr>"

definition s3_with_internal_endpoint :: "s3_config \<Rightarrow> s3_config" where
  "s3_with_internal_endpoint c = c\<lparr>s3_use_internal_endpoint := True\<rparr>"

definition s3_with_allow_http :: "bool \<Rightarrow> s3_config \<Rightarrow> s3_config" where
  "s3_with_allow_http b c = c\<lparr>s3_allow_http := b\<rparr>"

definition is_lower :: "char \<Rightarrow> bool" where
  "is_lower c = (97 \<le> (of_char c :: nat) \<and> of_char c \<le> (122 :: nat))"

definition is_alnum :: "char \<Rightarrow> bool" where
  "is_alnum c \<longleftrightarrow> is_lower c \<or> is_digit c \<or> (65 \<le> (of_char c :: nat) \<and> of_char c \<le> (90 :: nat))"

text \<open>Text that parses as an \<open>IpAddr\<close> and has none but bucket characters: a dotted IPv4 address, each number at
  most 255 and without leading zeros.\<close>

definition is_octet :: "string \<Rightarrow> bool" where
  "is_octet s \<longleftrightarrow> s \<noteq> [] \<and> length s \<le> 3 \<and> list_all is_digit s \<and> (length s > 1 \<longrightarrow> hd s \<noteq> CHR ''0'') \<and> digits_value s \<le> 255"

definition is_ipv4 :: "string \<Rightarrow> bool" where
  "is_ipv4 s = (let parts = split_char CHR ''.'' s in length parts = 4 \<and> list_all is_octet parts)"

definition validate_bucket_name :: "s3_config \<Rightarrow> storage_error + unit" where
  "validate_bucket_name c =
     (let bucket = s3_bucket c
      in if length bucket < 3 \<or> length bucket > 63
           then Inl (InvalidPath (''Bucket name must be between 3 and 63 characters, got '' @ show_nat (length bucket) @ '' characters''))
         else if \<not> list_all (\<lambda>x. is_lower x \<or> is_digit x \<or> x = CHR ''-'' \<or> x = CHR ''.'') bucket
           then Inl (InvalidPath ''Bucket name can only contain lowercase letters, numbers, hyphens, and dots'')
         else if \<not> is_alnum (hd bucket) then Inl (InvalidPath ''Bucket name must start with a letter or number'')
         else if \<not> is_alnum (last bucket) then Inl (InvalidPath ''Bucket name must end with a letter or number'')
         else if is_ipv4 bucket then Inl (InvalidPath ''Bucket name cannot be formatted as an IP address'')
         else Inr ())"

definition s3_full_key :: "s3_config \<Rightarrow> string \<Rightarrow> string" where
  "s3_full_key c path =
     (case s3_prefix c of Some p \<Rightarrow> trim_end_char CHR ''/'' p @ ''/'' @ path | None \<Rightarrow> path)"

definition endpoint_url :: "s3_config \<Rightarrow> string" where
  "endpoint_url c =
     (if str_contains (s3_endpoint c) ''://'' then s3_endpoint c
      else if s3_allow_http c then ''http://'' @ s3_endpoint c
      else ''https://'' @ s3_endpoint c)"

section \<open>Backends for URLs\<close>

text \<open>The backend built for a URL: the root of a local one, or the parameters of the S3 client, which the package
  \<open>object_store\<close> builds from them.\<close>

datatype backend = LocalBackend path | S3Backend s3_config

definition local_root :: "string \<Rightarrow> path" where
  "local_root path =
     (if CHR ''.'' \<in> set path then (case path_parent (components path) of Some p \<Rightarrow> p | None \<Rightarrow> components ''.'')
      else components path)"

definition missing_credentials :: "string \<Rightarrow> storage_error" where
  "missing_credentials vars =
     StorageOther (''S3 credentials not found. Set '' @ vars @ '' environment variable.'')"

text \<open>Key, secret, endpoint and region for a bucket.\<close>

definition s3_params :: "storage_config \<Rightarrow> string option \<Rightarrow> string option \<Rightarrow> storage_error + string \<times> string \<times> string \<times> string" where
  "s3_params c endpoint region =
     (case or_else (aws_access_key_id c) (oss_access_key_id c) of
        None \<Rightarrow> Inl (missing_credentials ''AWS_ACCESS_KEY_ID or OSS_ACCESS_KEY_ID'')
      | Some key_id \<Rightarrow>
          (case or_else (aws_secret_access_key c) (oss_access_key_secret c) of
             None \<Rightarrow> Inl (missing_credentials ''AWS_SECRET_ACCESS_KEY or OSS_ACCESS_KEY_SECRET'')
           | Some secret \<Rightarrow>
               Inr (key_id, secret,
                 (case or_else endpoint (aws_endpoint_url c) of Some e \<Rightarrow> e | None \<Rightarrow> ''s3.amazonaws.com''),
                 (case or_else region (aws_region c) of Some r \<Rightarrow> r | None \<Rightarrow> ''us-east-1''))))"

definition create_from_url :: "storage_config \<Rightarrow> storage_url \<Rightarrow> storage_error + backend" where
  "create_from_url c u =
     (case u of
        LocalUrl path \<Rightarrow> Inr (LocalBackend (local_root path))
      | S3Url bucket _ endpoint region \<Rightarrow>
          (case s3_params c endpoint region of
             Inl e \<Rightarrow> Inl e
           | Inr (key_id, secret, ep, reg) \<Rightarrow>
               (let c1 = s3_with_region reg (s3_config_new bucket ep key_id secret);
                    c2 = (if starts_with ep ''http://'' then s3_with_allow_http True c1 else c1)
                in case validate_bucket_name c2 of Inl e \<Rightarrow> Inl e | Inr _ \<Rightarrow> Inr (S3Backend c2))))"

definition factory_create :: "storage_config \<Rightarrow> string \<Rightarrow> storage_error + backend" where
  "factory_create c s = (case url_from_str s of Inl e \<Rightarrow> Inl e | Inr u \<Rightarrow> create_from_url c u)"

definition create_async_from_url :: "storage_config \<Rightarrow> storage_url \<Rightarrow> storage_error + s3_config" where
  "create_async_from_url c u =
     (case u of
        S3Url bucket _ endpoint region \<Rightarrow>
          (case s3_params c endpoint region of
             Inl e \<Rightarrow> Inl e
           | Inr (key_id, secret, ep, reg) \<Rightarrow>
               (let c1 = s3_with_region reg (s3_config_new bucket ep key_id secret)
                in case validate_bucket_name c1 of Inl e \<Rightarrow> Inl e | Inr _ \<Rightarrow> Inr c1))
      | LocalUrl _ \<Rightarrow>
          Inl (StorageOther (''Local filesystem is not supported by async storage. Use the sync Storage trait instead.'')))"

definition create_async :: "storage_config \<Rightarrow> string \<Rightarrow> storage_error + s3_config" where
  "create_async c s = (case url_from_str s of Inl e \<Rightarrow> Inl e | Inr u \<Rightarrow> create_async_from_url c u)"

definition create_seekable :: "string \<Rightarrow> storage_error + backend" where
  "create_seekable s =
     (case url_from_str s of
        Inl e \<Rightarrow> Inl e
      | Inr (LocalUrl _) \<Rightarrow> Inl (StorageOther ''Use create() and check for SeekableStorage support'')
      | Inr _ \<Rightarrow> Inl (StorageOther ''Seekable storage only supported for local filesystem''))"

section \<open>Printing and parsing\<close>

text \<open>URLs that are printed so that they can be read: an absolute local path; a bucket, key and parameters without
  the characters that separate them; and no blank at the end.\<close>

definition url_ok :: "storage_url \<Rightarrow> bool" where
  "url_ok u \<longleftrightarrow> trim (url_display u) = url_display u \<and>
     (case u of
        LocalUrl path \<Rightarrow> starts_with path ''/''
      | S3Url bucket key endpoint region \<Rightarrow>
          bucket \<noteq> [] \<and> CHR ''/'' \<notin> set bucket \<and> CHR ''?'' \<notin> set bucket \<and> CHR ''?'' \<notin> set key \<and>
          pred_option (\<lambda>e. CHR ''&'' \<notin> set e) endpoint \<and> pred_option (\<lambda>r. CHR ''&'' \<notin> set r) region)"

lemma split_scheme:
  "split_str ''://'' (''file://'' @ s) = Some (''file'', s)" "split_str ''://'' (''s3://'' @ s) = Some (''s3'', s)"
  by (simp_all add: strip_prefix_def)

lemma query_params:
  assumes "pred_option (\<lambda>e. CHR ''&'' \<notin> set e) endpoint" "pred_option (\<lambda>r. CHR ''&'' \<notin> set r) region"
    and "\<not> (endpoint = None \<and> region = None)"
  shows "\<exists>q. url_query endpoint region = CHR ''?'' # q \<and>
    fold query_param (split_char CHR ''&'' q) (None, None) = (endpoint, region)"
proof -
  have once: "split_once CHR ''='' (''endpoint='' @ v) = Some (''endpoint'', v)"
    "split_once CHR ''='' (''region='' @ v) = Some (''region'', v)" for v
    using split_once_append [of "CHR ''=''" "''endpoint''" v] split_once_append [of "CHR ''=''" "''region''" v] by simp_all
  have free: "CHR ''&'' \<notin> set (''endpoint='' @ v)" "CHR ''&'' \<notin> set (''region='' @ v)" if "CHR ''&'' \<notin> set v" for v
    using that by simp_all
  note split = split_char_free [OF free(1)] split_char_free [OF free(2)] split_char_sep [OF free(1)]
  show ?thesis
  proof (cases endpoint)
    case None
    then obtain r where "region = Some r" using assms(3) by auto
    then show ?thesis
      using None assms split(2) [of r] once(2) [of r] by (simp add: url_query_def query_param_def)
  next
    case (Some e)
    then show ?thesis
      using assms split(1) [of e] split(2) split(3) [of e] once
      by (cases region) (auto simp: url_query_def query_param_def)
  qed
qed

lemma parse_s3_display:
  assumes "bucket \<noteq> []" "CHR ''/'' \<notin> set bucket" "CHR ''?'' \<notin> set bucket" "CHR ''?'' \<notin> set key"
    and "pred_option (\<lambda>e. CHR ''&'' \<notin> set e) endpoint" "pred_option (\<lambda>r. CHR ''&'' \<notin> set r) region"
  shows "parse_s3_url (bucket @ ''/'' @ key @ url_query endpoint region) = Inr (S3Url bucket key endpoint region)"
proof -
  have path: "split_once CHR ''/'' (bucket @ ''/'' @ key) = Some (bucket, key)"
    using assms(2) split_once_append [of "CHR ''/''" bucket key] by simp
  have free: "CHR ''?'' \<notin> set (bucket @ ''/'' @ key)" using assms(3,4) by simp
  show ?thesis
  proof (cases "endpoint = None \<and> region = None")
    case True
    then show ?thesis
      using path free assms(1) split_once_None [of "CHR ''?''" "bucket @ ''/'' @ key"]
      by (simp add: parse_s3_url_def url_query_def)
  next
    case False
    then obtain q where q: "url_query endpoint region = CHR ''?'' # q"
      "fold query_param (split_char CHR ''&'' q) (None, None) = (endpoint, region)"
      using query_params [OF assms(5,6)] by blast
    have "split_once CHR ''?'' ((bucket @ ''/'' @ key) @ CHR ''?'' # q) = Some (bucket @ ''/'' @ key, q)"
      using free by (rule split_once_append)
    then show ?thesis using path q assms(1) by (simp add: parse_s3_url_def)
  qed
qed

text \<open>C17: a storage URL that is printed is read back: for absolute local paths and for S3 locations whose parts do not
  contain the separators of the syntax, parsing the displayed URL gives the same URL, with its bucket, key, endpoint
  and region.\<close>

theorem url_roundtrip:
  assumes "url_ok u"
  shows "url_from_str (url_display u) = Inr u"
proof (cases u)
  case (LocalUrl path)
  then obtain rest where path: "path = CHR ''/'' # rest" using assms by (auto simp: url_ok_def starts_with_def prefix_def)
  have "\<not> starts_with path ''localhost/''" by (simp add: path starts_with_def)
  then show ?thesis
    using assms LocalUrl split_scheme(1) [of path]
    by (simp add: url_from_str_def url_ok_def url_display_def parse_file_url_def)
next
  case (S3Url bucket key endpoint region)
  then show ?thesis
    using assms split_scheme(2) [of "bucket @ ''/'' @ key @ url_query endpoint region"]
      parse_s3_display [of bucket key endpoint region]
    by (simp add: url_from_str_def url_ok_def url_display_def)
qed

theorem url_roundtrip_witness:
  "url_from_str ''s3://data/a/b.bag?endpoint=http://minio:9000&region=eu'' =
     Inr (S3Url ''data'' ''a/b.bag'' (Some ''http://minio:9000'') (Some ''eu''))"
proof -
  let ?u = "S3Url ''data'' ''a/b.bag'' (Some ''http://minio:9000'') (Some ''eu'')"
  have "url_display ?u = ''s3://data/a/b.bag?endpoint=http://minio:9000&region=eu''"
    by (simp add: url_display_def url_query_def)
  moreover have "url_ok ?u" by (simp add: url_ok_def url_display_def url_query_def trim_def is_space_def)
  ultimately show ?thesis using url_roundtrip [of ?u] by simp
qed

text \<open>A host in a file URL leaves its slash behind, and a relative path does not survive printing.\<close>

lemma localhost_path: "url_from_str (''file://localhost'' @ ''/tmp/x'') = Inr (LocalUrl ''//tmp/x'')"
  by code_simp

lemma relative_path_printed: "url_from_str (url_display (LocalUrl ''data/x'')) = Inr (LocalUrl ''/data/x'')"
  by code_simp

end
