(* ===== verification/File_System.thy ===== *)
theory File_System
  imports Local_Paths "HOL-Library.AList"
begin

text \<open>
  What the storage backends use of \<open>std::fs\<close> and \<open>std::io\<close>. A file system is an association list of paths in the order in
  which directories are read; there are no symbolic links, the roots (\<open>/\<close>, \<open>.\<close> and the empty path) are directories. Every
  call may fail: \<open>fs_faults\<close> says which of the next calls do, so that it stands for any sequence of failures; a failed
  call has no effect. A path is looked up as it is written. The content of an open file is found under its path, so a
  file that was removed is lost for those who write to it. An opened stream is the list of what its \<open>read\<close> calls return.
\<close>

section \<open>Files and directories\<close>

datatype io_error = IoNotFound | IoOther string

datatype node = FileNode "u8 list" timestamp | DirNode timestamp

record file_system =
  fs_nodes :: "(path \<times> node) list"
  fs_faults :: "bool list"
  fs_clock :: timestamp

type_synonym 'a fs = "(file_system, io_error, 'a) prog"

definition base_path :: "path \<Rightarrow> bool" where
  "base_path p = list_all (\<lambda>c. c = RootDir \<or> c = CurDir) p"

definition node_at :: "file_system \<Rightarrow> path \<Rightarrow> node option" where
  "node_at f p = (if base_path p then Some (DirNode 0) else map_of (fs_nodes f) p)"

definition is_file :: "file_system \<Rightarrow> path \<Rightarrow> bool" where
  "is_file f p = (case node_at f p of Some (FileNode _ _) \<Rightarrow> True | _ \<Rightarrow> False)"

definition is_directory :: "file_system \<Rightarrow> path \<Rightarrow> bool" where
  "is_directory f p = (case node_at f p of Some (DirNode _) \<Rightarrow> True | _ \<Rightarrow> False)"

definition path_exists :: "file_system \<Rightarrow> path \<Rightarrow> bool" where
  "path_exists f p = (node_at f p \<noteq> None)"

text \<open>The content of a regular file.\<close>

definition file_at :: "file_system \<Rightarrow> path \<Rightarrow> u8 list option" where
  "file_at f p = (case node_at f p of Some (FileNode bs _) \<Rightarrow> Some bs | _ \<Rightarrow> None)"

definition put_node :: "path \<Rightarrow> node \<Rightarrow> file_system \<Rightarrow> file_system" where
  "put_node p n f = f\<lparr>fs_nodes := AList.update p n (fs_nodes f)\<rparr>"

definition drop_node :: "path \<Rightarrow> file_system \<Rightarrow> file_system" where
  "drop_node p f = f\<lparr>fs_nodes := AList.delete p (fs_nodes f)\<rparr>"

text \<open>What a missing path is reported as: a file on the way to it is another error.\<close>

definition missing :: "file_system \<Rightarrow> path \<Rightarrow> io_error" where
  "missing f p = (if list_ex (is_file f) (prefixes (butlast p)) then IoOther ''not a directory'' else IoNotFound)"

section \<open>System calls\<close>

definition syscall :: "'a fs \<Rightarrow> 'a fs" where
  "syscall body = (\<lambda>f.
     case fs_faults f of
       [] \<Rightarrow> body f
     | fails # rest \<Rightarrow>
         if fails then (Inl (IoOther ''fault''), f\<lparr>fs_faults := rest\<rparr>) else body (f\<lparr>fs_faults := rest\<rparr>))"

definition fs_open :: "path \<Rightarrow> node fs" where
  "fs_open p = syscall (\<lambda>f. case node_at f p of None \<Rightarrow> (Inl (missing f p), f) | Some n \<Rightarrow> (Inr n, f))"

text \<open>A file can be made where its directory exists.\<close>

definition parent_is_directory :: "file_system \<Rightarrow> path \<Rightarrow> bool" where
  "parent_is_directory f p = (case path_parent p of None \<Rightarrow> False | Some q \<Rightarrow> is_directory f q)"

definition set_file :: "path \<Rightarrow> u8 list \<Rightarrow> unit fs" where
  "set_file p bs = (\<lambda>f.
     if is_directory f p then (Inl (IoOther ''is a directory''), f)
     else if \<not> parent_is_directory f p then (Inl (missing f p), f)
     else (Inr (), put_node p (FileNode bs (fs_clock f)) f))"

definition fs_create :: "path \<Rightarrow> unit fs" where
  "fs_create p = syscall (set_file p [])"

definition append_file :: "path \<Rightarrow> u8 list \<Rightarrow> file_system \<Rightarrow> file_system" where
  "append_file p bs f =
     (case file_at f p of None \<Rightarrow> f | Some old \<Rightarrow> put_node p (FileNode (old @ bs) (fs_clock f)) f)"

definition fs_write :: "path \<Rightarrow> u8 list \<Rightarrow> unit fs" where
  "fs_write p bs = syscall (\<lambda>f. (Inr (), append_file p bs f))"

definition fs_metadata :: "path \<Rightarrow> node fs" where
  "fs_metadata = fs_open"

definition node_len :: "node \<Rightarrow> u64" where
  "node_len n = (case n of FileNode bs _ \<Rightarrow> word_of_nat (length bs) | DirNode _ \<Rightarrow> 0)"

definition node_modified :: "node \<Rightarrow> timestamp" where
  "node_modified n = (case n of FileNode _ t \<Rightarrow> t | DirNode t \<Rightarrow> t)"

definition node_is_dir :: "node \<Rightarrow> bool" where
  "node_is_dir n = (case n of FileNode _ _ \<Rightarrow> False | DirNode _ \<Rightarrow> True)"

definition fs_remove_file :: "path \<Rightarrow> unit fs" where
  "fs_remove_file p = syscall (\<lambda>f.
     if is_file f p then (Inr (), drop_node p f)
     else if path_exists f p then (Inl (IoOther ''is a directory''), f)
     else (Inl (missing f p), f))"

definition children :: "file_system \<Rightarrow> path \<Rightarrow> path list" where
  "children f p = filter (\<lambda>q. path_parent q = Some p) (remdups (map fst (fs_nodes f)))"

definition fs_read_dir :: "path \<Rightarrow> path list fs" where
  "fs_read_dir p = syscall (\<lambda>f.
     if is_directory f p then (Inr (children f p), f)
     else if path_exists f p then (Inl (IoOther ''not a directory''), f)
     else (Inl (missing f p), f))"

definition fs_remove_dir :: "path \<Rightarrow> unit fs" where
  "fs_remove_dir p = syscall (\<lambda>f.
     if \<not> is_directory f p then (Inl (if path_exists f p then IoOther ''not a directory'' else missing f p), f)
     else if base_path p \<or> children f p \<noteq> [] then (Inl (IoOther ''directory not empty''), f)
     else (Inr (), drop_node p f))"

definition fs_create_dir :: "path \<Rightarrow> unit fs" where
  "fs_create_dir p = syscall (\<lambda>f.
     if path_exists f p then (Inl (IoOther ''already exists''), f)
     else if \<not> parent_is_directory f p then (Inl (missing f p), f)
     else (Inr (), put_node p (DirNode (fs_clock f)) f))"

text \<open>All missing directories of a path are made, from the top; a file among them stops it.\<close>

fun make_dirs :: "path list \<Rightarrow> unit fs" where
  "make_dirs [] f = (Inr (), f)"
| "make_dirs (p # ps) f =
     (if is_directory f p then make_dirs ps f
      else if is_file f p then (Inl (IoOther ''not a directory''), f)
      else make_dirs ps (put_node p (DirNode (fs_clock f)) f))"

definition fs_create_dir_all :: "path \<Rightarrow> unit fs" where
  "fs_create_dir_all p = syscall (make_dirs (prefixes p))"

definition fs_copy :: "path \<Rightarrow> path \<Rightarrow> unit fs" where
  "fs_copy a b = syscall (\<lambda>f.
     case node_at f a of
       None \<Rightarrow> (Inl (missing f a), f)
     | Some (DirNode _) \<Rightarrow> (Inl (IoOther ''not a regular file''), f)
     | Some (FileNode bs _) \<Rightarrow> set_file b bs f)"

text \<open>Renaming a regular file; the target is replaced.\<close>

definition fs_rename :: "path \<Rightarrow> path \<Rightarrow> unit fs" where
  "fs_rename a b = syscall (\<lambda>f.
     case node_at f a of
       Some (FileNode bs t) \<Rightarrow>
         (if is_directory f b then (Inl (IoOther ''is a directory''), f)
          else if \<not> parent_is_directory f b then (Inl (missing f b), f)
          else (Inr (), put_node b (FileNode bs t) (drop_node a f)))
     | _ \<Rightarrow> (Inl (missing f a), f))"

section \<open>Streams\<close>

datatype read_event = Chunk "u8 list" | ReadFails string

text \<open>A file read through a buffer of \<open>n\<close> bytes; reading a directory fails.\<close>

definition node_stream :: "nat \<Rightarrow> node \<Rightarrow> read_event list" where
  "node_stream n x = (case x of FileNode bs _ \<Rightarrow> map Chunk (chunks n bs) | DirNode _ \<Rightarrow> [ReadFails ''is a directory''])"

text \<open>The bytes of a stream up to its end, if no read fails before.\<close>

fun stream_bytes :: "read_event list \<Rightarrow> u8 list option" where
  "stream_bytes [] = Some []"
| "stream_bytes (Chunk bs # rest) = (if bs = [] then Some [] else map_option (append bs) (stream_bytes rest))"
| "stream_bytes (ReadFails _ # rest) = None"

section \<open>Buffered writers\<close>

text \<open>\<open>BufWriter<File>\<close>: data that does not fit is written after what is buffered, large data directly.\<close>

record buf_writer =
  bw_path :: path
  bw_capacity :: nat
  bw_buffer :: "u8 list"

definition buf_writer_new :: "nat \<Rightarrow> path \<Rightarrow> buf_writer" where
  "buf_writer_new n p = \<lparr> bw_path = p, bw_capacity = n, bw_buffer = [] \<rparr>"

text \<open>A program over an open handle and the state below it.\<close>

definition below :: "('s, 'e, 'a) prog \<Rightarrow> ('w \<times> 's, 'e, 'a) prog" where
  "below m x = (case m (snd x) of (r, t) \<Rightarrow> (r, (fst x, t)))"

text \<open>The scope of a handle: whatever happens in it, the handle is dropped at its end.\<close>

definition scoped :: "('w \<Rightarrow> 's \<Rightarrow> 's) \<Rightarrow> 'w \<Rightarrow> ('w \<times> 's, 'e, 'a) prog \<Rightarrow> ('s, 'e, 'a) prog" where
  "scoped close w m s = (case m (w, s) of (r, (v, t)) \<Rightarrow> (r, close v t))"

type_synonym 'a bw = "(buf_writer \<times> file_system, io_error, 'a) prog"

definition bw_put :: "u8 list \<Rightarrow> unit bw" where
  "bw_put bs = bindM (gets (bw_path \<circ> fst)) (\<lambda>p. below (fs_write p bs))"

definition bw_flush :: "unit bw" where
  "bw_flush =
     bindM (gets (bw_buffer \<circ> fst)) (\<lambda>b.
     if b = [] then ret ()
     else bindM (bw_put b) (\<lambda>_. modifyM (\<lambda>(w, f). (w\<lparr>bw_buffer := []\<rparr>, f))))"

definition bw_write_all :: "u8 list \<Rightarrow> unit bw" where
  "bw_write_all bs =
     bindM (gets fst) (\<lambda>w.
     bindM (if bw_capacity w - length (bw_buffer w) < length bs then bw_flush else ret ()) (\<lambda>_.
     if bw_capacity w \<le> length bs then bw_put bs
     else modifyM (\<lambda>(w, f). (w\<lparr>bw_buffer := bw_buffer w @ bs\<rparr>, f))))"

text \<open>A writer that is dropped writes its buffer and ignores errors.\<close>

definition bw_drop :: "buf_writer \<Rightarrow> file_system \<Rightarrow> file_system" where
  "bw_drop w f = snd (snd (bw_flush (w, f)))"

section \<open>What the calls change\<close>

named_theorems fsys \<open>what the calls of the file system change\<close>

lemma syscall_cases:
  assumes "syscall m f = (r, g)"
  obtains (fault) "r = Inl (IoOther ''fault'')" "node_at g = node_at f" "file_at g = file_at f"
  | (works) h where "m h = (r, g)" "node_at h = node_at f" "file_at h = file_at f"
proof (cases "fs_faults f")
  case Nil
  then show ?thesis using assms works [of f] by (simp add: syscall_def)
next
  case (Cons b rest)
  then show ?thesis
    using assms fault works [of "f\<lparr>fs_faults := rest\<rparr>"]
    by (cases b) (auto simp: syscall_def node_at_def file_at_def fun_eq_iff)
qed

lemma syscall_calm [simp]: "fs_faults f = [] \<Longrightarrow> syscall m f = m f"
  by (simp add: syscall_def)

lemma node_at_put [simp]:
  "node_at (put_node p n f) q = (if q = p \<and> \<not> base_path p then Some n else node_at f q)"
  by (auto simp: node_at_def put_node_def update_conv')

lemma node_at_drop [simp]:
  "node_at (drop_node p f) q = (if q = p \<and> \<not> base_path p then None else node_at f q)"
  by (auto simp: node_at_def drop_node_def delete_conv')

lemma put_node_clock [simp]: "fs_clock (put_node p n f) = fs_clock f" "fs_faults (put_node p n f) = fs_faults f"
  by (simp_all add: put_node_def)

lemma drop_node_clock [simp]: "fs_clock (drop_node p f) = fs_clock f" "fs_faults (drop_node p f) = fs_faults f"
  by (simp_all add: drop_node_def)

lemma base_not_file [simp]: "base_path p \<Longrightarrow> file_at f p = None"
  by (simp add: file_at_def node_at_def)

lemma base_is_directory [simp]: "base_path p \<Longrightarrow> is_directory f p"
  by (simp add: is_directory_def node_at_def)

lemma file_at_put:
  "file_at (put_node p n f) q = (if q = p \<and> \<not> base_path p then (case n of FileNode bs _ \<Rightarrow> Some bs | DirNode _ \<Rightarrow> None) else file_at f q)"
  by (simp add: file_at_def split: node.splits)

lemma file_at_drop: "file_at (drop_node p f) q = (if q = p then None else file_at f q)"
  by (auto simp: file_at_def node_at_def drop_node_def delete_conv')

lemma is_file_iff: "is_file f p \<longleftrightarrow> file_at f p \<noteq> None"
  by (auto simp: is_file_def file_at_def split: option.splits node.splits)

lemma file_not_base: "file_at f p = Some bs \<Longrightarrow> \<not> base_path p"
  by auto

text \<open>Every call leaves the other files as they are; the calls on directories leave all files.\<close>

lemma fs_write_files:
  assumes "fs_write p bs f = (r, g)"
  shows "q \<noteq> p \<Longrightarrow> file_at g q = file_at f q"
    and "r = Inr () \<Longrightarrow> file_at g p = map_option (\<lambda>old. old @ bs) (file_at f p)"
    and "r = Inl e \<Longrightarrow> file_at g p = file_at f p"
  using assms unfolding fs_write_def
  by (atomize (full), cases rule: syscall_cases)
    (auto simp: append_file_def file_at_put file_not_base split: option.splits)

lemma set_file_files:
  assumes "set_file p bs f = (r, g)"
  shows "q \<noteq> p \<Longrightarrow> file_at g q = file_at f q"
    and "r = Inr () \<Longrightarrow> file_at g p = Some bs"
    and "r = Inl e \<Longrightarrow> g = f"
  using assms by (auto simp: set_file_def file_at_put split: if_splits)

lemma fs_create_files:
  assumes "fs_create p f = (r, g)"
  shows "q \<noteq> p \<Longrightarrow> file_at g q = file_at f q"
    and "r = Inr () \<Longrightarrow> file_at g p = Some []"
    and "r = Inl e \<Longrightarrow> file_at g p = file_at f p"
  using assms unfolding fs_create_def
  by (atomize (full), cases rule: syscall_cases) (auto dest: set_file_files)

lemma make_dirs_files: "make_dirs ps f = (r, g) \<Longrightarrow> file_at g q = file_at f q"
proof (induction ps f rule: make_dirs.induct)
  case (2 p ps f)
  then show ?case by (auto simp: file_at_put is_file_iff split: if_splits)
qed simp

lemma fs_create_dir_all_files: "fs_create_dir_all p f = (r, g) \<Longrightarrow> file_at g q = file_at f q"
  unfolding fs_create_dir_all_def
  by (cases rule: syscall_cases, assumption) (auto dest: make_dirs_files [of _ _ _ _ q])

lemma fs_remove_file_files:
  assumes "fs_remove_file p f = (r, g)"
  shows "q \<noteq> p \<Longrightarrow> file_at g q = file_at f q"
    and "r = Inr () \<Longrightarrow> \<not> path_exists g p"
    and "r = Inl e \<Longrightarrow> file_at g p = file_at f p"
  using assms unfolding fs_remove_file_def
  by (atomize (full), cases rule: syscall_cases)
    (auto simp: file_at_drop is_file_iff path_exists_def file_not_base split: if_splits)

lemma fs_rename_files:
  assumes "fs_rename a b f = (r, g)"
  shows "q \<noteq> a \<Longrightarrow> q \<noteq> b \<Longrightarrow> file_at g q = file_at f q"
    and "r = Inr () \<Longrightarrow> file_at g b = file_at f a \<and> (a \<noteq> b \<longrightarrow> file_at g a = None)"
    and "r = Inl e \<Longrightarrow> file_at g = file_at f"
  using assms unfolding fs_rename_def
proof (atomize (full), cases rule: syscall_cases)
  case (works h)
  then show "(q \<noteq> a \<longrightarrow> q \<noteq> b \<longrightarrow> file_at g q = file_at f q) \<and>
      (r = Inr () \<longrightarrow> file_at g b = file_at f a \<and> (a \<noteq> b \<longrightarrow> file_at g a = None)) \<and> (r = Inl e \<longrightarrow> file_at g = file_at f)"
    by (auto simp: file_at_put file_at_drop split: option.splits node.splits if_splits) (auto simp: file_at_def)
qed simp

text \<open>What a writer has taken: the file and what is still buffered.\<close>

definition bw_content :: "buf_writer \<Rightarrow> file_system \<Rightarrow> u8 list option" where
  "bw_content w f = map_option (\<lambda>old. old @ bw_buffer w) (file_at f (bw_path w))"

lemma bw_put_iff: "bw_put bs (w, f) = (r, (v, g)) \<longleftrightarrow> v = w \<and> fs_write (bw_path w) bs f = (r, g)"
  by (auto simp: bw_put_def bindM_def below_def split: prod.splits)

lemma bw_flush_cases:
  assumes "bw_flush (w, f) = (r, (v, g))"
  obtains (none) "bw_buffer w = []" "r = Inr ()" "v = w" "g = f"
  | (fails) e where "fs_write (bw_path w) (bw_buffer w) f = (Inl e, g)" "r = Inl e" "v = w"
  | (put) "fs_write (bw_path w) (bw_buffer w) f = (Inr (), g)" "r = Inr ()" "v = w\<lparr>bw_buffer := []\<rparr>"
proof (cases "bw_buffer w = []")
  case True
  with assms have "r = Inr ()" "v = w" "g = f" by (auto simp: bw_flush_def bindM_def)
  with True none show ?thesis by blast
next
  case False
  obtain x u h where one: "bw_put (bw_buffer w) (w, f) = (x, (u, h))" by (rule prod_cases3)
  then have h: "u = w" "fs_write (bw_path w) (bw_buffer w) f = (x, h)" by (simp_all add: bw_put_iff)
  show ?thesis
  proof (cases x)
    case (Inl e)
    with assms False one have "r = Inl e" "v = u" "g = h" by (simp_all add: bw_flush_def bindM_def)
    with h Inl fails show ?thesis by simp
  next
    case (Inr a)
    with assms False one have "r = Inr ()" "v = u\<lparr>bw_buffer := []\<rparr>" "g = h" by (simp_all add: bw_flush_def bindM_def)
    with h Inr put show ?thesis by simp
  qed
qed

lemma bw_flush_files:
  assumes "bw_flush (w, f) = (r, (v, g))"
  shows "bw_path v = bw_path w" "bw_capacity v = bw_capacity w" "q \<noteq> bw_path w \<Longrightarrow> file_at g q = file_at f q"
    "bw_content v g = bw_content w f" "r = Inr () \<Longrightarrow> bw_buffer v = []"
  using assms
  by (atomize (full), cases rule: bw_flush_cases)
    (auto simp: bw_content_def fs_write_files option.map_comp o_def)

lemma bw_drop_files: "q \<noteq> bw_path w \<Longrightarrow> file_at (bw_drop w f) q = file_at f q"
  unfolding bw_drop_def using bw_flush_files(3) by (metis prod.collapse)

lemma bw_write_all_files:
  assumes "bw_write_all bs (w, f) = (r, (v, g))"
  shows "bw_path v = bw_path w" "bw_capacity v = bw_capacity w" "q \<noteq> bw_path w \<Longrightarrow> file_at g q = file_at f q"
    "r = Inr () \<Longrightarrow> bw_content v g = map_option (\<lambda>old. old @ bs) (bw_content w f)"
proof -
  let ?first = "if bw_capacity w - length (bw_buffer w) < length bs then bw_flush else ret ()"
  obtain x u h where first: "?first (w, f) = (x, (u, h))" by (rule prod_cases3)
  have u: "bw_path u = bw_path w \<and> bw_capacity u = bw_capacity w \<and> (q \<noteq> bw_path w \<longrightarrow> file_at h q = file_at f q) \<and>
    bw_content u h = bw_content w f"
  proof (cases "bw_capacity w - length (bw_buffer w) < length bs")
    case True
    with first have "bw_flush (w, f) = (x, (u, h))" by simp
    from bw_flush_files [OF this] show ?thesis by blast
  qed (use first in simp)
  have direct: "bw_buffer u = [] \<or> bs = []" if "bw_capacity w \<le> length bs" "x = Inr ()"
  proof (cases "bw_capacity w - length (bw_buffer w) < length bs")
    case True
    with first that show ?thesis using bw_flush_files(5) [of w f x u h] by simp
  next
    case False
    with first have "u = w" by simp
    with that False show ?thesis by (cases "bw_buffer w"; cases bs) auto
  qed
  consider (early) e where "x = Inl e" "r = Inl e" "v = u" "g = h"
    | (big) "x = Inr ()" "bw_capacity w \<le> length bs" "v = u" "fs_write (bw_path w) bs h = (r, g)"
    | (small) "x = Inr ()" "r = Inr ()" "v = u\<lparr>bw_buffer := bw_buffer u @ bs\<rparr>" "g = h"
    using assms first u by (cases x) (auto simp: bw_write_all_def bindM_def bw_put_iff split: if_splits)
  then have "bw_path v = bw_path w \<and> bw_capacity v = bw_capacity w \<and> (q \<noteq> bw_path w \<longrightarrow> file_at g q = file_at f q) \<and>
    (r = Inr () \<longrightarrow> bw_content v g = map_option (\<lambda>old. old @ bs) (bw_content w f))"
  proof cases
    case big
    have "bw_content u g = map_option (\<lambda>old. old @ bs) (bw_content u h)" if "r = Inr ()"
      using direct [OF big(2,1)] fs_write_files(2) [OF big(4) that] u
      by (auto simp: bw_content_def option.map_comp o_def)
    with big fs_write_files(1) [OF big(4)] u show ?thesis by simp
  next
    case small
    have "bw_content v g = map_option (\<lambda>old. old @ bs) (bw_content u h)"
      using small by (simp add: bw_content_def option.map_comp o_def)
    with small u show ?thesis by simp
  qed (use u in simp)
  then show "bw_path v = bw_path w" "bw_capacity v = bw_capacity w" "q \<noteq> bw_path w \<Longrightarrow> file_at g q = file_at f q"
    "r = Inr () \<Longrightarrow> bw_content v g = map_option (\<lambda>old. old @ bs) (bw_content w f)"
    by blast+
qed

end
