(* ===== verification/Retry_Policy.thy ===== *)
theory Retry_Policy
  imports Storage_Types
begin

text \<open>
  \<open>retry.rs\<close> of the core crate, exponential backoff with jitter, and \<open>retry.rs\<close> of the storage crate, which puts it
  around the operations of a storage backend. The factors (\<open>f64\<close> in the code) are real numbers, so rounding is not
  modelled; milliseconds are natural numbers. The jitter is drawn from the system clock: \<open>nanos n\<close> is its reading at
  the \<open>n\<close>-th wait. A backend (\<open>storage\<close>) is a record of programs over its own state.

  \<open>retry_outcome\<close> gives the result of a retried operation and the number of calls for every sequence of answers.
\<close>

section \<open>Configuration\<close>

record retry_config =
  rp_max_retries :: u32
  rp_initial_backoff_ms :: u64
  rp_max_backoff_ms :: u64
  rp_backoff_multiplier :: real
  rp_jitter_enabled :: bool
  rp_jitter_factor :: real

definition default_retry_config :: retry_config where
  "default_retry_config =
     \<lparr> rp_max_retries = 5, rp_initial_backoff_ms = 100, rp_max_backoff_ms = 30000, rp_backoff_multiplier = 2,
       rp_jitter_enabled = True, rp_jitter_factor = 15 / 100 \<rparr>"

definition rp_with_max_retries :: "u32 \<Rightarrow> retry_config \<Rightarrow> retry_config" where
  "rp_with_max_retries n c = c\<lparr>rp_max_retries := n\<rparr>"

definition rp_with_initial_backoff_ms :: "u64 \<Rightarrow> retry_config \<Rightarrow> retry_config" where
  "rp_with_initial_backoff_ms n c = c\<lparr>rp_initial_backoff_ms := n\<rparr>"

definition rp_with_max_backoff_ms :: "u64 \<Rightarrow> retry_config \<Rightarrow> retry_config" where
  "rp_with_max_backoff_ms n c = c\<lparr>rp_max_backoff_ms := n\<rparr>"

definition rp_with_backoff_multiplier :: "real \<Rightarrow> retry_config \<Rightarrow> retry_config" where
  "rp_with_backoff_multiplier x c = c\<lparr>rp_backoff_multiplier := x\<rparr>"

definition rp_with_jitter :: "bool \<Rightarrow> retry_config \<Rightarrow> retry_config" where
  "rp_with_jitter b c = c\<lparr>rp_jitter_enabled := b\<rparr>"

definition rp_with_jitter_factor :: "real \<Rightarrow> retry_config \<Rightarrow> retry_config" where
  "rp_with_jitter_factor x c = c\<lparr>rp_jitter_factor := max 0 (min 1 x)\<rparr>"

text \<open>The wait before the next attempt, in milliseconds. The attempt number is below \<open>2 ^ 31\<close>, where it is its own
  \<open>i32\<close>.\<close>

definition clamped_ms :: "retry_config \<Rightarrow> nat \<Rightarrow> nat" where
  "clamped_ms c attempt =
     nat \<lfloor>max 0 (min (real (unat (rp_max_backoff_ms c)))
        (real (unat (rp_initial_backoff_ms c)) * rp_backoff_multiplier c ^ attempt))\<rfloor>"

definition jitter_range :: "retry_config \<Rightarrow> nat \<Rightarrow> nat" where
  "jitter_range c ms = nat \<lfloor>real ms * rp_jitter_factor c\<rfloor>"

definition backoff_duration :: "retry_config \<Rightarrow> nat \<Rightarrow> nat \<Rightarrow> nat" where
  "backoff_duration c nanos attempt =
     (let ms = clamped_ms c attempt
      in if rp_jitter_enabled c
         then let range = jitter_range c ms;
                  jitter = (if range > 0 then int (nanos mod (2 * range)) - int range else 0)
              in min (nat (int ms + jitter)) (2 ^ 64 - 1)
         else ms)"

section \<open>The loop\<close>

text \<open>\<open>f\<close> is the operation and \<open>slp\<close> the wait, both over one state.\<close>

function retry_from ::
    "retry_config \<Rightarrow> (nat \<Rightarrow> nat) \<Rightarrow> ('e \<Rightarrow> bool) \<Rightarrow> (nat \<Rightarrow> ('s, 'e, unit) prog) \<Rightarrow> ('s, 'e, 'a) prog \<Rightarrow> nat \<Rightarrow>
     ('s, 'e, 'a) prog" where
  "retry_from c nanos retryable slp f attempt =
     handleM f
       (\<lambda>e. if \<not> retryable e then throw e
            else if attempt < unat (rp_max_retries c)
              then bindM (slp (backoff_duration c (nanos attempt) attempt))
                     (\<lambda>_. retry_from c nanos retryable slp f (Suc attempt))
            else throw e)
       ret"
  by pat_completeness auto
termination by (relation "measure (\<lambda>(c, n, r, s, f, a). unat (rp_max_retries c) - a)") auto

declare retry_from.simps [simp del]

definition retry_with_backoff ::
    "retry_config \<Rightarrow> (nat \<Rightarrow> nat) \<Rightarrow> ('e \<Rightarrow> bool) \<Rightarrow> (nat \<Rightarrow> ('s, 'e, unit) prog) \<Rightarrow> ('s, 'e, 'a) prog \<Rightarrow> ('s, 'e, 'a) prog" where
  "retry_with_backoff c nanos retryable slp f = retry_from c nanos retryable slp f 0"

section \<open>Retrying storage\<close>

record ('s, 'r, 'w) storage =
  so_reader :: "string \<Rightarrow> ('s, storage_error, 'r) prog"
  so_writer :: "string \<Rightarrow> ('s, storage_error, 'w) prog"
  so_exists :: "string \<Rightarrow> ('s, storage_error, bool) prog"
  so_size :: "string \<Rightarrow> ('s, storage_error, u64) prog"
  so_metadata :: "string \<Rightarrow> ('s, storage_error, object_metadata) prog"
  so_list :: "string \<Rightarrow> ('s, storage_error, object_metadata list) prog"
  so_delete :: "string \<Rightarrow> ('s, storage_error, unit) prog"
  so_copy :: "string \<Rightarrow> string \<Rightarrow> ('s, storage_error, unit) prog"
  so_create_dir :: "string \<Rightarrow> ('s, storage_error, unit) prog"
  so_create_dir_all :: "string \<Rightarrow> ('s, storage_error, unit) prog"

definition retrying_storage ::
    "retry_config \<Rightarrow> (nat \<Rightarrow> nat) \<Rightarrow> (nat \<Rightarrow> ('s, storage_error, unit) prog) \<Rightarrow> ('s, 'r, 'w) storage \<Rightarrow> ('s, 'r, 'w) storage" where
  "retrying_storage c nanos slp inner =
     \<lparr> so_reader = (\<lambda>p. retry_with_backoff c nanos storage_retryable slp (so_reader inner p)),
       so_writer = so_writer inner,
       so_exists = so_exists inner,
       so_size = (\<lambda>p. retry_with_backoff c nanos storage_retryable slp (so_size inner p)),
       so_metadata = (\<lambda>p. retry_with_backoff c nanos storage_retryable slp (so_metadata inner p)),
       so_list = (\<lambda>p. retry_with_backoff c nanos storage_retryable slp (so_list inner p)),
       so_delete = (\<lambda>p. retry_with_backoff c nanos storage_retryable slp (so_delete inner p)),
       so_copy = (\<lambda>p q. retry_with_backoff c nanos storage_retryable slp (so_copy inner p q)),
       so_create_dir = (\<lambda>p. retry_with_backoff c nanos storage_retryable slp (so_create_dir inner p)),
       so_create_dir_all = (\<lambda>p. retry_with_backoff c nanos storage_retryable slp (so_create_dir_all inner p)) \<rparr>"

definition retrying_with_default where
  "retrying_with_default nanos slp inner = retrying_storage default_retry_config nanos slp inner"

section \<open>Waits\<close>

lemma clamped_le: "clamped_ms c attempt \<le> unat (rp_max_backoff_ms c)"
proof -
  have "\<lfloor>max 0 (min (real (unat (rp_max_backoff_ms c))) x)\<rfloor> \<le> int (unat (rp_max_backoff_ms c))" for x
    by linarith
  then show ?thesis unfolding clamped_ms_def by linarith
qed

text \<open>no wait is longer than the configured maximum plus the jitter, at most twice the maximum when the jitter
  factor is at most one (as \<open>with_jitter_factor\<close> ensures); without jitter the waits never decrease when the multiplier
  is at least one.\<close>

theorem backoff_bounds:
  assumes "0 \<le> rp_jitter_factor c" "rp_jitter_factor c \<le> 1" "1 \<le> rp_backoff_multiplier c"
  shows "backoff_duration c nanos attempt \<le> clamped_ms c attempt + jitter_range c (clamped_ms c attempt) \<and>
    clamped_ms c attempt \<le> backoff_duration c nanos attempt + jitter_range c (clamped_ms c attempt) \<and>
    backoff_duration c nanos attempt \<le> 2 * unat (rp_max_backoff_ms c) \<and>
    clamped_ms c attempt \<le> clamped_ms c (Suc attempt)"
proof -
  let ?ms = "clamped_ms c attempt"
  let ?r = "jitter_range c ?ms"
  have "real ?ms * rp_jitter_factor c \<le> real ?ms" using assms by (simp add: mult_left_le)
  then have r: "?r \<le> ?ms" unfolding jitter_range_def by linarith
  have small: "?ms < 2 ^ 64" using clamped_le [of c attempt] unat_bound_u64 [of "rp_max_backoff_ms c"] by simp
  have jit: "\<bar>int (nanos mod (2 * ?r)) - int ?r\<bar> \<le> int ?r" if "?r > 0"
    using mod_less_divisor [of "2 * ?r" nanos] that by linarith
  have dur: "backoff_duration c nanos attempt \<le> ?ms + ?r \<and> ?ms \<le> backoff_duration c nanos attempt + ?r"
    using jit small r by (cases "?r > 0") (auto simp: backoff_duration_def Let_def min_def)
  have mono: "?ms \<le> clamped_ms c (Suc attempt)"
  proof -
    have "rp_backoff_multiplier c ^ attempt \<le> rp_backoff_multiplier c ^ Suc attempt"
      using assms(3) by (rule power_increasing [OF le_SucI [OF order.refl]])
    then have "real (unat (rp_initial_backoff_ms c)) * rp_backoff_multiplier c ^ attempt
        \<le> real (unat (rp_initial_backoff_ms c)) * rp_backoff_multiplier c ^ Suc attempt"
      by (rule mult_left_mono) (rule of_nat_0_le_iff)
    then show ?thesis unfolding clamped_ms_def by (intro nat_mono floor_mono) (auto simp: min_def max_def)
  qed
  show ?thesis using dur mono r clamped_le [of c attempt] by linarith
qed

theorem backoff_bounds_witness:
  "backoff_duration default_retry_config 7 3 \<le> 60000"
  using backoff_bounds [of default_retry_config 7 3] by (simp add: default_retry_config_def)

section \<open>Outcomes\<close>

text \<open>A backend seen from one operation: the answers to its calls in order. The state counts the calls and records the
  waits.\<close>

definition answering :: "(nat \<Rightarrow> 'e + 'a) \<Rightarrow> (nat \<times> nat list, 'e, 'a) prog" where
  "answering answers = (\<lambda>(n, ws). (answers n, (Suc n, ws)))"

definition waiting :: "nat \<Rightarrow> (nat \<times> nat list, 'e, unit) prog" where
  "waiting d = (\<lambda>(n, ws). (Inr (), (n, ws @ [d])))"

definition again :: "('e \<Rightarrow> bool) \<Rightarrow> 'e + 'a \<Rightarrow> bool" where
  "again retryable r = (case r of Inl e \<Rightarrow> retryable e | Inr _ \<Rightarrow> False)"

lemma retry_from_answers:
  assumes "\<And>i. i < k \<Longrightarrow> again retryable (answers (n + i))" and "n + k \<le> unat (rp_max_retries c)"
    and "n + k = unat (rp_max_retries c) \<or> \<not> again retryable (answers (n + k))"
  shows "retry_from c nanos retryable waiting (answering answers) n (n, ws) =
    (answers (n + k), (Suc (n + k), ws @ map (\<lambda>i. backoff_duration c (nanos i) i) [n..<n + k]))"
  using assms
proof (induction k arbitrary: n ws)
  case 0
  then show ?case
    by (subst retry_from.simps) (auto simp: handleM_def answering_def again_def split: sum.splits)
next
  case (Suc k)
  then obtain e where e: "answers n = Inl e" "retryable e"
    using Suc.prems(1) [of 0] by (auto simp: again_def split: sum.splits)
  have "retry_from c nanos retryable waiting (answering answers) n (n, ws) =
      retry_from c nanos retryable waiting (answering answers) (Suc n)
        (Suc n, ws @ [backoff_duration c (nanos n) n])"
    using e Suc.prems(2) by (subst retry_from.simps) (simp add: handleM_def answering_def waiting_def bindM_def)
  also have "\<dots> = (answers (Suc n + k), (Suc (Suc n + k), (ws @ [backoff_duration c (nanos n) n]) @
      map (\<lambda>i. backoff_duration c (nanos i) i) [Suc n..<Suc n + k]))"
    using Suc.prems by (intro Suc.IH) (use Suc.prems(1) [of "Suc _"] in auto)
  also have "[n..<n + Suc k] = n # [Suc n..<Suc n + k]" by (simp add: upt_rec)
  ultimately show ?case by simp
qed

text \<open>what a retried operation returns. For every sequence of answers of the backend there is a last call \<open>k\<close>, at
  most \<open>max_retries\<close> after the first: all calls before it failed with a retryable error, it is the first whose answer is
  final or the last one allowed, its answer is the result, and between the calls the operation waited the backoff
  times in order. So a retried operation always ends, succeeds if one of the calls allowed succeeds before a final
  error, and stops at once at an error that is not retryable.\<close>

theorem retry_outcome:
  assumes "so_list inner p = answering answers"
  shows "\<exists>k \<le> unat (rp_max_retries c).
     (\<forall>i < k. again storage_retryable (answers i)) \<and>
     (k = unat (rp_max_retries c) \<or> \<not> again storage_retryable (answers k)) \<and>
     so_list (retrying_storage c nanos waiting inner) p (0, []) =
       (answers k, (Suc k, map (\<lambda>i. backoff_duration c (nanos i) i) [0..<k]))"
proof -
  define m where "m = unat (rp_max_retries c)"
  define k where "k = (LEAST k. k = m \<or> \<not> again storage_retryable (answers k))"
  have final: "k = m \<or> \<not> again storage_retryable (answers k)" unfolding k_def by (rule LeastI [of _ m]) simp
  have le: "k \<le> m" unfolding k_def by (rule Least_le) simp
  have before: "\<forall>i < k. again storage_retryable (answers i)"
    unfolding k_def using not_less_Least by blast
  have "retry_from c nanos storage_retryable waiting (answering answers) 0 (0, []) =
      (answers (0 + k), (Suc (0 + k), [] @ map (\<lambda>i. backoff_duration c (nanos i) i) [0..<0 + k]))"
    by (rule retry_from_answers) (use before le final in \<open>simp_all add: m_def\<close>)
  then have "so_list (retrying_storage c nanos waiting inner) p (0, []) =
      (answers k, (Suc k, map (\<lambda>i. backoff_duration c (nanos i) i) [0..<k]))"
    by (simp add: retrying_storage_def retry_with_backoff_def assms)
  with le before final show ?thesis unfolding m_def by blast
qed

definition busy_once :: "nat \<Rightarrow> storage_error + object_metadata list" where
  "busy_once n = (if n = 0 then Inl (Cloud ''busy'') else Inr [])"

definition busy_storage :: "(nat \<times> nat list, unit, unit) storage" where
  "busy_storage =
     \<lparr> so_reader = (\<lambda>_. throw (StorageOther [])), so_writer = (\<lambda>_. throw (StorageOther [])),
       so_exists = (\<lambda>_. ret False), so_size = (\<lambda>_. ret 0), so_metadata = (\<lambda>_. throw (NotFound [])),
       so_list = (\<lambda>_. answering busy_once), so_delete = (\<lambda>_. ret ()), so_copy = (\<lambda>_ _. ret ()),
       so_create_dir = (\<lambda>_. ret ()), so_create_dir_all = (\<lambda>_. ret ()) \<rparr>"

theorem retry_outcome_witness:
  "\<exists>ws. so_list (retrying_storage default_retry_config (\<lambda>_. 0) waiting busy_storage) ''bags'' (0, []) = (Inr [], (2, ws))"
proof -
  have again: "again storage_retryable (busy_once i) \<longleftrightarrow> i = 0" for i
    by (simp add: again_def storage_retryable_def busy_once_def)
  have m: "unat (rp_max_retries default_retry_config) = 5" by (simp add: default_retry_config_def)
  have l: "so_list busy_storage ''bags'' = answering busy_once" by (simp add: busy_storage_def)
  obtain k where k: "\<forall>i < k. i = 0" "k = 5 \<or> k \<noteq> 0"
    "so_list (retrying_storage default_retry_config (\<lambda>_. 0) waiting busy_storage) ''bags'' (0, []) =
       (busy_once k, (Suc k, map (\<lambda>i. backoff_duration default_retry_config 0 i) [0..<k]))"
    using retry_outcome [OF l, of default_retry_config "\<lambda>_. 0"] unfolding again m by blast
  have "k = 1"
  proof (rule ccontr)
    assume "k \<noteq> 1"
    then show False using k(1) [rule_format, of 1] k(2) by linarith
  qed
  with k(3) show ?thesis by (simp add: busy_once_def)
qed

end
