(* ===== verification/Local_Storage.thy ===== *)
theory Local_Storage
  imports File_System Retry_Policy
begin

text \<open>
  The local backend (\<open>local.rs\<close>) over the file system of \<open>File_System\<close>, and its multipart upload
  (\<open>streaming_upload.rs\<close>): data goes to a temporary file next to the target, which a successful \<open>finish\<close> renames. The name
  of the temporary file is chosen by a library and is the argument \<open>tmp\<close>. \<open>byte_store\<close> adds to a storage backend what its
  callers do with an open writer. A buffer of any length can be allocated; readers are read 64 KiB at a time.

  \<open>multipart_atomic\<close>: the target of a multipart upload changes only when it is finished, and then holds all that was
  written. \<open>local_roundtrip\<close>: below an absolute root what was uploaded is read back; \<open>object_store\<close> is that contract for the
  clients of a backend. \<open>relative_root_writes\<close>: below a relative root a directory is made in the wrong place and writing fails.
\<close>

section \<open>Backends whose objects are bytes\<close>

record ('s, 'w) byte_store = "('s, read_event list, 'w) storage" +
  so_write_all :: "u8 list \<Rightarrow> ('w \<times> 's, io_error, unit) prog"
  so_flush :: "('w \<times> 's, io_error, unit) prog"
  so_drop :: "'w \<Rightarrow> 's \<Rightarrow> 's"

section \<open>Errors and paths\<close>

fun io_text :: "io_error \<Rightarrow> string" where
  "io_text IoNotFound = ''not found''"
| "io_text (IoOther m) = m"

definition io_storage :: "io_error \<Rightarrow> storage_error" where
  "io_storage e = StorageIo (io_text e)"

fun show_component :: "component \<Rightarrow> string" where
  "show_component RootDir = ''''"
| "show_component CurDir = ''.''"
| "show_component ParentDir = ''..''"
| "show_component (Normal s) = s"

definition show_path :: "path \<Rightarrow> string" where
  "show_path p = (if p = [RootDir] then ''/'' else join_strings ''/'' (map show_component p))"

text \<open>The usual treatment of a failed call: a missing file is \<open>not_found\<close>.\<close>

definition not_found_or_io :: "path \<Rightarrow> io_error \<Rightarrow> storage_error" where
  "not_found_or_io p e = (case e of IoNotFound \<Rightarrow> NotFound (show_path p) | IoOther m \<Rightarrow> StorageIo m)"

type_synonym 'a local = "(file_system, storage_error, 'a) prog"

text \<open>The argument of the inner call is already a full path.\<close>

definition ensure_parent :: "path \<Rightarrow> path \<Rightarrow> unit local" where
  "ensure_parent rt p =
     (case path_parent p of
        None \<Rightarrow> ret ()
      | Some [] \<Rightarrow> ret ()
      | Some q \<Rightarrow>
          map_errM (\<lambda>e. StorageOther (''failed to create parent directories: '' @ io_text e))
            (fs_create_dir_all (case normalize_path (path_join rt q) rt of Inr r \<Rightarrow> r | Inl _ \<Rightarrow> rt)))"

section \<open>Operations\<close>

definition local_reader :: "path \<Rightarrow> string \<Rightarrow> read_event list local" where
  "local_reader rt s =
     bindM (liftR (full_path rt s)) (\<lambda>p.
     map_errM (not_found_or_io p) (bindM (fs_open p) (\<lambda>n. ret (node_stream 65536 n))))"

definition local_writer :: "path \<Rightarrow> string \<Rightarrow> buf_writer local" where
  "local_writer rt s =
     bindM (liftR (full_path rt s)) (\<lambda>p.
     bindM (ensure_parent rt p) (\<lambda>_.
     map_errM io_storage (bindM (fs_create p) (\<lambda>_. ret (buf_writer_new 8192 p)))))"

definition local_exists :: "path \<Rightarrow> string \<Rightarrow> bool local" where
  "local_exists rt s = (\<lambda>f. (Inr (case full_path rt s of Inl _ \<Rightarrow> False | Inr p \<Rightarrow> path_exists f p), f))"

definition local_size :: "path \<Rightarrow> string \<Rightarrow> u64 local" where
  "local_size rt s =
     bindM (liftR (full_path rt s)) (\<lambda>p.
     map_errM (not_found_or_io p) (bindM (fs_metadata p) (\<lambda>n. ret (node_len n))))"

definition node_metadata :: "path \<Rightarrow> node \<Rightarrow> object_metadata" where
  "node_metadata p n =
     \<lparr> om_path = show_path p, om_size = node_len n, om_last_modified = Some (node_modified n), om_content_type = None,
       om_is_dir = node_is_dir n \<rparr>"

definition local_metadata :: "path \<Rightarrow> string \<Rightarrow> object_metadata local" where
  "local_metadata rt s =
     bindM (liftR (full_path rt s)) (\<lambda>p.
     map_errM (not_found_or_io p) (bindM (fs_metadata p) (\<lambda>n. ret (node_metadata p n))))"

definition local_list :: "path \<Rightarrow> string \<Rightarrow> object_metadata list local" where
  "local_list rt s =
     bindM (liftR (full_path rt s)) (\<lambda>p.
     bindM (gets (\<lambda>f. path_exists f p)) (\<lambda>found.
     if \<not> found then ret []
     else map_errM io_storage
       (bindM (fs_metadata p) (\<lambda>n.
        if \<not> node_is_dir n then ret [node_metadata p n]
        else bindM (fs_read_dir p) (\<lambda>qs.
          foldM (\<lambda>q acc. bindM (fs_metadata q) (\<lambda>m. ret (acc @ [node_metadata q m]))) qs [])))))"

definition local_delete :: "path \<Rightarrow> string \<Rightarrow> unit local" where
  "local_delete rt s =
     bindM (liftR (full_path rt s)) (\<lambda>p. map_errM (not_found_or_io p) (fs_remove_file p))"

definition local_copy :: "path \<Rightarrow> string \<Rightarrow> string \<Rightarrow> unit local" where
  "local_copy rt a b =
     bindM (liftR (full_path rt a)) (\<lambda>p.
     bindM (liftR (full_path rt b)) (\<lambda>q.
     bindM (ensure_parent rt q) (\<lambda>_. map_errM (not_found_or_io p) (fs_copy p q))))"

definition local_create_dir :: "path \<Rightarrow> string \<Rightarrow> unit local" where
  "local_create_dir rt s = bindM (liftR (full_path rt s)) (\<lambda>p. map_errM io_storage (fs_create_dir p))"

definition local_create_dir_all :: "path \<Rightarrow> string \<Rightarrow> unit local" where
  "local_create_dir_all rt s = bindM (liftR (full_path rt s)) (\<lambda>p. map_errM io_storage (fs_create_dir_all p))"

definition local_storage :: "path \<Rightarrow> (file_system, buf_writer) byte_store" where
  "local_storage rt =
     \<lparr> so_reader = local_reader rt, so_writer = local_writer rt, so_exists = local_exists rt, so_size = local_size rt,
       so_metadata = local_metadata rt, so_list = local_list rt, so_delete = local_delete rt, so_copy = local_copy rt,
       so_create_dir = local_create_dir rt, so_create_dir_all = local_create_dir_all rt,
       so_write_all = bw_write_all, so_flush = bw_flush, so_drop = bw_drop \<rparr>"

text \<open>\<open>collect_files\<close> and \<open>remove_empty_dirs\<close> go down the tree; \<open>n\<close> bounds the depth.\<close>

fun collect_files :: "nat \<Rightarrow> path \<Rightarrow> path list \<Rightarrow> path list fs" where
  "collect_files 0 p acc = ret acc"
| "collect_files (Suc n) p acc =
     bindM (gets (\<lambda>f. is_file f p)) (\<lambda>single.
     if single then ret (acc @ [p])
     else bindM (fs_read_dir p) (\<lambda>qs.
       foldM (\<lambda>q acc.
         bindM (gets (\<lambda>f. is_directory f q)) (\<lambda>dir.
         if dir then collect_files n q acc else ret (acc @ [q]))) qs acc))"

fun remove_empty_dirs :: "nat \<Rightarrow> path \<Rightarrow> file_system \<Rightarrow> file_system" where
  "remove_empty_dirs 0 p f = f"
| "remove_empty_dirs (Suc n) p f =
     (if is_directory f p
        then (case fs_read_dir p f of
                (Inl _, g) \<Rightarrow> snd (fs_remove_dir p g)
              | (Inr qs, g) \<Rightarrow> snd (fs_remove_dir p (fold (remove_empty_dirs n) qs g)))
        else f)"

definition tree_depth :: "file_system \<Rightarrow> nat" where
  "tree_depth f = Suc (fold max (map (length \<circ> fst) (fs_nodes f)) 0)"

definition local_delete_prefix :: "path \<Rightarrow> string \<Rightarrow> nat local" where
  "local_delete_prefix rt s =
     bindM (liftR (full_path rt s)) (\<lambda>p.
     bindM (gets (\<lambda>f. path_exists f p)) (\<lambda>found.
     if \<not> found then ret 0
     else bindM (gets tree_depth) (\<lambda>n.
       bindM (map_errM (\<lambda>e. StorageOther (''failed to list files for deletion: '' @ io_text e)) (collect_files n p [])) (\<lambda>qs.
       bindM (foldM (\<lambda>q k.
         bindM (map_errM (\<lambda>e. StorageOther (''failed to delete '' @ show_path q @ '': '' @ io_text e)) (fs_remove_file q)) (\<lambda>_.
         ret (k + 1))) qs 0) (\<lambda>k.
       bindM (modifyM (remove_empty_dirs n p)) (\<lambda>_. ret k))))))"

definition local_read_range :: "path \<Rightarrow> string \<Rightarrow> u64 \<Rightarrow> u64 option \<Rightarrow> u8 list local" where
  "local_read_range rt s start stop =
     bindM (liftR (full_path rt s)) (\<lambda>p.
     bindM (case stop of
              Some e \<Rightarrow> ret e
            | None \<Rightarrow> map_errM (not_found_or_io p) (bindM (fs_metadata p) (\<lambda>n. ret (node_len n)))) (\<lambda>e.
     if start > e
       then throw (InvalidPath (''start offset '' @ show_nat (unat start) @ '' exceeds end offset '' @ show_nat (unat e)))
     else bindM (map_errM (not_found_or_io p) (fs_open p)) (\<lambda>n.
       case n of
         DirNode _ \<Rightarrow> throw (StorageIo ''is a directory'')
       | FileNode bs _ \<Rightarrow>
           (if unat e \<le> max (unat start) (length bs) then ret (take (unat (e - start)) (drop (unat start) bs))
            else throw (StorageIo ''failed to fill whole buffer'')))))"

text \<open>The default \<open>upload_file\<close> of the trait, with the content of the local file as its argument.\<close>

definition upload_content :: "('s, 'w) byte_store \<Rightarrow> string \<Rightarrow> u8 list \<Rightarrow> ('s, storage_error, u64) prog" where
  "upload_content B s content =
     bindM (so_writer B s) (\<lambda>w.
     scoped (so_drop B) w
       (bindM (map_errM io_storage (so_write_all B content)) (\<lambda>_.
        bindM (map_errM io_storage (so_flush B)) (\<lambda>_. ret (word_of_nat (length content))))))"

section \<open>Multipart upload\<close>

record upload_stats =
  us_bytes_uploaded :: u64
  us_parts_count :: u64
  us_duration :: timestamp

definition upload_stats_bytes :: "u64 \<Rightarrow> upload_stats" where
  "upload_stats_bytes n = \<lparr> us_bytes_uploaded = n, us_parts_count = 1, us_duration = 0 \<rparr>"

record local_upload =
  lu_writer :: buf_writer
  lu_target_path :: path
  lu_temp_path :: path
  lu_bytes_written :: u64
  lu_start_time :: timestamp
  lu_finished :: bool

definition local_upload_new :: "timestamp \<Rightarrow> buf_writer \<Rightarrow> path \<Rightarrow> path \<Rightarrow> local_upload" where
  "local_upload_new now w temp target =
     \<lparr> lu_writer = w, lu_target_path = target, lu_temp_path = temp, lu_bytes_written = 0, lu_start_time = now,
       lu_finished = False \<rparr>"

definition put_multipart_stream :: "path \<Rightarrow> string \<Rightarrow> timestamp \<Rightarrow> string \<Rightarrow> local_upload local" where
  "put_multipart_stream rt tmp now s =
     bindM (liftR (full_path rt s)) (\<lambda>target.
     (let dir = (case path_parent target of None \<Rightarrow> [CurDir] | Some q \<Rightarrow> q);
          temp = path_join dir [Normal tmp]
      in bindM (map_errM io_storage (fs_create temp)) (\<lambda>_.
         ret (local_upload_new now (buf_writer_new 8192 temp) temp target))))"

type_synonym 'a upload = "(local_upload \<times> file_system, storage_error, 'a) prog"

text \<open>An operation of the writer inside the upload.\<close>

definition on_lu_writer :: "'a bw \<Rightarrow> 'a upload" where
  "on_lu_writer m x =
     (case m (lu_writer (fst x), snd x) of
        (r, (w, f)) \<Rightarrow> (case r of Inl e \<Rightarrow> Inl (io_storage e) | Inr a \<Rightarrow> Inr a, ((fst x)\<lparr>lu_writer := w\<rparr>, f)))"

definition lu_write :: "u8 list \<Rightarrow> unit upload" where
  "lu_write bs =
     bindM (gets (lu_finished \<circ> fst)) (\<lambda>fin.
     if fin then throw (StorageOther ''Cannot write to finished upload'')
     else bindM (on_lu_writer (bw_write_all bs)) (\<lambda>_.
       bindM (on_lu_writer bw_flush) (\<lambda>_.
       modifyM (\<lambda>(u, f). (u\<lparr>lu_bytes_written := lu_bytes_written u + word_of_nat (length bs)\<rparr>, f)))))"

text \<open>\<open>finish\<close> and \<open>abort\<close> take the upload; \<open>sync_all\<close> is one more call that may fail.\<close>

definition fs_sync :: "unit fs" where
  "fs_sync = syscall (ret ())"

definition lu_finish :: "timestamp \<Rightarrow> local_upload \<Rightarrow> upload_stats local" where
  "lu_finish now u =
     (if lu_finished u then throw (StorageOther ''Upload already finished'')
      else bindM (scoped bw_drop (lu_writer u) (map_errM (\<lambda>e. StorageOther (''BufWriter error: '' @ io_text e)) bw_flush)) (\<lambda>_.
        bindM (map_errM io_storage fs_sync) (\<lambda>_.
        bindM (case path_parent (lu_target_path u) of None \<Rightarrow> ret () | Some q \<Rightarrow> map_errM io_storage (fs_create_dir_all q)) (\<lambda>_.
        bindM (handleM (fs_rename (lu_temp_path u) (lu_target_path u))
                 (\<lambda>e. bindM (modifyM (\<lambda>f. snd (fs_remove_file (lu_temp_path u) f))) (\<lambda>_. throw (io_storage e)))
                 ret) (\<lambda>_.
        ret \<lparr> us_bytes_uploaded = lu_bytes_written u, us_parts_count = 1, us_duration = now - lu_start_time u \<rparr>)))))"

definition lu_abort :: "local_upload \<Rightarrow> unit local" where
  "lu_abort u =
     (if lu_finished u then throw (StorageOther ''Upload already finished'')
      else bindM (modifyM (bw_drop (lu_writer u))) (\<lambda>_. map_errM io_storage (fs_remove_file (lu_temp_path u))))"

section \<open>A multipart upload is atomic\<close>

lemma on_lu_writer_iff:
  "on_lu_writer m (u, f) = (r, (v, g)) \<longleftrightarrow>
     (\<exists>x w. m (lu_writer u, f) = (x, (w, g)) \<and> v = u\<lparr>lu_writer := w\<rparr> \<and>
        r = (case x of Inl e \<Rightarrow> Inl (io_storage e) | Inr a \<Rightarrow> Inr a))"
  by (auto simp: on_lu_writer_def split: prod.splits)

text \<open>An upload under way: its data is in the temporary file, the rest of the disk is as it was.\<close>

definition uploading :: "path \<Rightarrow> path \<Rightarrow> (path \<Rightarrow> u8 list option) \<Rightarrow> local_upload \<times> file_system \<Rightarrow> bool" where
  "uploading temp target old = (\<lambda>(u, f).
     lu_temp_path u = temp \<and> lu_target_path u = target \<and> bw_path (lu_writer u) = temp \<and> \<not> lu_finished u \<and>
     (\<forall>q. q \<noteq> temp \<longrightarrow> file_at f q = old q))"

definition uploaded :: "u8 list \<Rightarrow> local_upload \<times> file_system \<Rightarrow> bool" where
  "uploaded bs = (\<lambda>(u, f).
     bw_content (lu_writer u) f = Some bs \<and> lu_bytes_written u = word_of_nat (length bs))"

lemma lu_write_step:
  assumes "lu_write bs (u, f) = (r, (v, g))" "uploading temp target old (u, f)"
  shows "uploading temp target old (v, g)" "r = Inr () \<Longrightarrow> uploaded ds (u, f) \<Longrightarrow> uploaded (ds @ bs) (v, g)"
proof -
  obtain x w f1 where wr: "bw_write_all bs (lu_writer u, f) = (x, (w, f1))" by (rule prod_cases3)
  obtain y w' f2 where fl: "bw_flush (w, f1) = (y, (w', f2))" by (rule prod_cases3)
  note wr_files = bw_write_all_files [OF wr] and fl_files = bw_flush_files [OF fl]
  have unfinished: "\<not> lu_finished u" using assms(2) by (simp add: uploading_def)
  consider (early) e where "x = Inl e" "r = Inl (io_storage e)" "v = u\<lparr>lu_writer := w\<rparr>" "g = f1"
    | (late) e where "x = Inr ()" "y = Inl e" "r = Inl (io_storage e)" "v = u\<lparr>lu_writer := w'\<rparr>" "g = f2"
    | (all) "x = Inr ()" "y = Inr ()" "v = u\<lparr>lu_writer := w', lu_bytes_written := lu_bytes_written u + word_of_nat (length bs)\<rparr>" "g = f2"
    using assms(1) wr fl unfinished
    by (cases x; cases y) (auto simp: lu_write_def bindM_def on_lu_writer_def)
  then have "uploading temp target old (v, g) \<and> (r = Inr () \<longrightarrow> uploaded ds (u, f) \<longrightarrow> uploaded (ds @ bs) (v, g))"
    using assms(2) wr_files(1,3,4) fl_files(1,3,4) by cases (auto simp: uploading_def uploaded_def)
  then show "uploading temp target old (v, g)" "r = Inr () \<Longrightarrow> uploaded ds (u, f) \<Longrightarrow> uploaded (ds @ bs) (v, g)"
    by blast+
qed

lemma lu_writes:
  assumes "foldM (\<lambda>bs _. lu_write bs) bss () (u, f) = (r, (v, g))" "uploading temp target old (u, f)"
  shows "uploading temp target old (v, g) \<and> (r = Inr () \<longrightarrow> uploaded ds (u, f) \<longrightarrow> uploaded (ds @ concat bss) (v, g))"
  using assms
proof (induction bss arbitrary: u f ds)
  case (Cons bs bss)
  obtain x u' f' where step: "lu_write bs (u, f) = (x, (u', f'))" by (rule prod_cases3)
  note first = lu_write_step [OF step Cons.prems(2)]
  show ?case
  proof (cases x)
    case (Inl e)
    with Cons.prems step first(1) show ?thesis by (auto simp: bindM_def)
  next
    case (Inr a)
    with Cons.prems step have "foldM (\<lambda>bs _. lu_write bs) bss () (u', f') = (r, (v, g))" by (simp add: bindM_def)
    from Cons.IH [OF this first(1), of "ds @ bs"] first(2) [of ds] Inr show ?thesis by simp
  qed
qed simp

lemma put_multipart_started:
  assumes "put_multipart_stream rt tmp now s f = (Inr u, g)"
  shows "uploading (lu_temp_path u) (lu_target_path u) (file_at f) (u, g)" "uploaded [] (u, g)"
proof -
  from assms obtain target dir where u: "u = local_upload_new now (buf_writer_new 8192 (path_join dir [Normal tmp])) (path_join dir [Normal tmp]) target"
    and made: "fs_create (path_join dir [Normal tmp]) f = (Inr (), g)"
    by (auto simp: put_multipart_stream_def bindM_Inr_iff map_errM_def handleM_iff Let_def split: option.splits)
  note files = fs_create_files [OF made]
  show "uploading (lu_temp_path u) (lu_target_path u) (file_at f) (u, g)" "uploaded [] (u, g)"
    using files(1,2) by (simp_all add: u uploading_def uploaded_def local_upload_new_def buf_writer_new_def bw_content_def)
qed

text \<open>The writer is closed: what it has taken is in the file, if that worked.\<close>

lemma close_writer:
  assumes "scoped bw_drop w (map_errM h bw_flush) f = (r, g)"
  shows "q \<noteq> bw_path w \<Longrightarrow> file_at g q = file_at f q" "r = Inr () \<Longrightarrow> file_at g (bw_path w) = bw_content w f"
proof -
  obtain y v f' where fl: "bw_flush (w, f) = (y, (v, f'))" by (rule prod_cases3)
  note files = bw_flush_files [OF fl]
  have g: "g = bw_drop v f'" and r: "r = (case y of Inl e \<Rightarrow> Inl (h e) | Inr a \<Rightarrow> Inr a)"
    using assms fl by (auto simp: scoped_def map_errM_def handleM_def split: sum.splits)
  show "q \<noteq> bw_path w \<Longrightarrow> file_at g q = file_at f q" using files(1,3) by (simp add: g bw_drop_files)
  assume "r = Inr ()"
  then have "y = Inr ()" using r by (cases y) auto
  with files(5) have "bw_buffer v = []" by simp
  moreover from this have "g = f'" by (simp add: g bw_drop_def bw_flush_def bindM_def)
  ultimately show "file_at g (bw_path w) = bw_content w f"
    using files(1,4) by (simp add: bw_content_def option.map_id [unfolded id_def])
qed

lemma fs_sync_files: "fs_sync f = (r, g) \<Longrightarrow> file_at g = file_at f"
  unfolding fs_sync_def by (cases rule: syscall_cases, assumption) auto

text \<open>\<open>finish\<close> renames the closed file or leaves the target.\<close>

lemma lu_finish_cases:
  assumes "lu_finish t u f = (r, g)" "\<not> lu_finished u"
  obtains (failed) e h where "r = Inl e" "\<And>q. q \<noteq> bw_path (lu_writer u) \<Longrightarrow> file_at h q = file_at f q"
      "\<And>q. q \<noteq> lu_temp_path u \<Longrightarrow> file_at g q = file_at h q"
  | (renamed) h st where "r = Inr st" "us_bytes_uploaded st = lu_bytes_written u"
      "file_at h (bw_path (lu_writer u)) = bw_content (lu_writer u) f"
      "\<And>q. q \<noteq> bw_path (lu_writer u) \<Longrightarrow> file_at h q = file_at f q"
      "fs_rename (lu_temp_path u) (lu_target_path u) h = (Inr (), g)"
proof -
  let ?h = "\<lambda>e. StorageOther (''BufWriter error: '' @ io_text e)"
  let ?dirs = "case path_parent (lu_target_path u) of None \<Rightarrow> ret () | Some q \<Rightarrow> map_errM io_storage (fs_create_dir_all q)"
  obtain r1 f1 where s1: "scoped bw_drop (lu_writer u) (map_errM ?h bw_flush) f = (r1, f1)" by fastforce
  obtain r2 f2 where s2: "fs_sync f1 = (r2, f2)" by fastforce
  obtain r3 f3 where s3: "?dirs f2 = (r3, f3)" by fastforce
  obtain r4 f4 where s4: "fs_rename (lu_temp_path u) (lu_target_path u) f3 = (r4, f4)" by fastforce
  obtain r5 f5 where s5: "fs_remove_file (lu_temp_path u) f4 = (r5, f5)" by fastforce
  have f3: "file_at f3 q = file_at f2 q" for q
    using s3 by (auto simp: map_errM_def handleM_def split: option.splits prod.splits sum.splits dest: fs_create_dir_all_files)
  have f2: "file_at f2 = file_at f1" using s2 by (rule fs_sync_files)
  note f1 = close_writer [OF s1]
  have run: "lu_finish t u f =
    (case r1 of Inl e \<Rightarrow> (Inl e, f1) | Inr _ \<Rightarrow>
     case r2 of Inl e \<Rightarrow> (Inl (io_storage e), f2) | Inr _ \<Rightarrow>
     case r3 of Inl e \<Rightarrow> (Inl e, f3) | Inr _ \<Rightarrow>
     case r4 of Inl e \<Rightarrow> (Inl (io_storage e), f5) | Inr _ \<Rightarrow>
     (Inr \<lparr> us_bytes_uploaded = lu_bytes_written u, us_parts_count = 1, us_duration = t - lu_start_time u \<rparr>, f4))"
    using assms(2) s1 s2 s3 s4 s5 by (simp add: lu_finish_def bindM_def map_errM_def handleM_def split: sum.splits)
  consider (early) e where "r = Inl e" "g = f1 \<or> g = f2 \<or> g = f3"
    | (cleanup) e d where "r = Inl e" "r4 = Inl d" "g = f5"
    | (ok) st where "r = Inr st" "us_bytes_uploaded st = lu_bytes_written u" "r1 = Inr ()" "r4 = Inr ()" "g = f4"
    using assms(1) run by (auto split: sum.splits)
  then show thesis
  proof cases
    case early
    show thesis using early f1(1) f2 f3 by (intro failed [of e f1]) auto
  next
    case cleanup
    have "file_at f4 = file_at f3" using fs_rename_files(3) [OF s4] cleanup by simp
    then show thesis
      using cleanup f1(1) f2 f3 fs_remove_file_files(1) [OF s5] by (intro failed [of e f1]) auto
  next
    case ok
    show thesis using ok f1 f2 f3 s4 by (intro renamed [of st f3]) auto
  qed
qed

lemma lu_abort_files:
  assumes "lu_abort u f = (r, g)" "uploading temp target old (u, f)"
  shows "q \<noteq> temp \<Longrightarrow> file_at g q = old q" "r = Inr () \<Longrightarrow> \<not> path_exists g temp"
proof -
  from assms obtain x where "fs_remove_file temp (bw_drop (lu_writer u) f) = (x, g)" "r = Inr () \<longrightarrow> x = Inr ()"
    by (auto simp: lu_abort_def uploading_def bindM_def map_errM_def handleM_def split: prod.splits sum.splits)
  then show "q \<noteq> temp \<Longrightarrow> file_at g q = old q" "r = Inr () \<Longrightarrow> \<not> path_exists g temp"
    using assms(2) fs_remove_file_files(1,2) bw_drop_files [of q "lu_writer u" f] by (auto simp: uploading_def)
qed

lemma lu_finish_files:
  assumes "lu_finish t u f = (r, g)" "uploading temp target old (u, f)" "target \<noteq> temp"
  shows "q \<noteq> temp \<Longrightarrow> q \<noteq> target \<or> isl r \<Longrightarrow> file_at g q = old q"
    and "uploaded ds (u, f) \<Longrightarrow> r = Inr st \<Longrightarrow>
      file_at g target = Some ds \<and> file_at g temp = None \<and> us_bytes_uploaded st = word_of_nat (length ds)"
proof -
  have u: "lu_temp_path u = temp" "lu_target_path u = target" "bw_path (lu_writer u) = temp" "\<not> lu_finished u"
    "\<And>q. q \<noteq> temp \<Longrightarrow> file_at f q = old q"
    using assms(2) by (auto simp: uploading_def)
  have "(q \<noteq> temp \<longrightarrow> q \<noteq> target \<or> isl r \<longrightarrow> file_at g q = old q) \<and> (uploaded ds (u, f) \<longrightarrow> r = Inr st \<longrightarrow>
      file_at g target = Some ds \<and> file_at g temp = None \<and> us_bytes_uploaded st = word_of_nat (length ds))"
    using assms(1) u(4)
  proof (cases rule: lu_finish_cases)
    case (renamed h st')
    note moved = fs_rename_files(1,2) [OF renamed(5)]
    from renamed moved u assms(3) show ?thesis by (auto simp: uploaded_def)
  qed (use u in auto)
  then show "q \<noteq> temp \<Longrightarrow> q \<noteq> target \<or> isl r \<Longrightarrow> file_at g q = old q"
    and "uploaded ds (u, f) \<Longrightarrow> r = Inr st \<Longrightarrow>
      file_at g target = Some ds \<and> file_at g temp = None \<and> us_bytes_uploaded st = word_of_nat (length ds)"
    by blast+
qed

text \<open>C15: a multipart upload to local storage is atomic. While data is written, whatever fails, no file but the temporary
  one changes. A \<open>finish\<close> that succeeds puts exactly the written bytes under the target and leaves no temporary file; one
  that fails, at whatever step, leaves the target as it was before the upload, and so does \<open>abort\<close>. No other file is
  touched.\<close>

theorem multipart_atomic:
  assumes "put_multipart_stream rt tmp now s f = (Inr u, g)"
    and "foldM (\<lambda>bs _. lu_write bs) bss () (u, g) = (r, (v, h))"
    and "lu_target_path u \<noteq> lu_temp_path u"
    and "lu_finish t v h = (x, k)" and "lu_abort v h = (y, l)"
  shows "(q \<noteq> lu_temp_path u \<longrightarrow>
      file_at h q = file_at f q \<and> file_at l q = file_at f q \<and>
      (q \<noteq> lu_target_path u \<or> isl x \<longrightarrow> file_at k q = file_at f q)) \<and>
    (r = Inr () \<and> x = Inr st \<longrightarrow>
      file_at k (lu_target_path u) = Some (concat bss) \<and> file_at k (lu_temp_path u) = None \<and>
      us_bytes_uploaded st = word_of_nat (length (concat bss))) \<and>
    (y = Inr () \<longrightarrow> \<not> path_exists l (lu_temp_path u))"
proof -
  note started = put_multipart_started [OF assms(1)]
  have up: "uploading (lu_temp_path u) (lu_target_path u) (file_at f) (v, h)"
    and all: "r = Inr () \<longrightarrow> uploaded (concat bss) (v, h)"
    using lu_writes [OF assms(2) started(1), of "[]"] started(2) by simp_all
  show ?thesis
    using up all lu_finish_files [OF assms(4) up assms(3)] lu_abort_files [OF assms(5) up]
    by (auto simp: uploading_def)
qed

text \<open>A directory, and the upload of three bytes to it.\<close>

definition demo_disk :: "(path \<times> node) list \<Rightarrow> file_system" where
  "demo_disk nodes =
     \<lparr> fs_nodes = ([RootDir, Normal ''data''], DirNode 0) # nodes, fs_faults = [], fs_clock = 7 \<rparr>"

definition demo_upload :: "u64 \<Rightarrow> local_upload" where
  "demo_upload n = \<lparr> lu_writer = buf_writer_new 8192 [RootDir, Normal ''data'', Normal ''.tmp''],
     lu_target_path = [RootDir, Normal ''data'', Normal ''a''], lu_temp_path = [RootDir, Normal ''data'', Normal ''.tmp''],
     lu_bytes_written = n, lu_start_time = 0, lu_finished = False \<rparr>"

lemma demo_upload_steps:
  "put_multipart_stream [RootDir, Normal ''data''] ''.tmp'' 0 ''a'' (demo_disk []) =
     (Inr (demo_upload 0), demo_disk [([RootDir, Normal ''data'', Normal ''.tmp''], FileNode [] 7)])"
  "foldM (\<lambda>bs _. lu_write bs) [[1, 2], [3]] () (demo_upload 0, demo_disk [([RootDir, Normal ''data'', Normal ''.tmp''], FileNode [] 7)]) =
     (Inr (), (demo_upload 3, demo_disk [([RootDir, Normal ''data'', Normal ''.tmp''], FileNode [1, 2, 3] 7)]))"
  "lu_finish 5 (demo_upload 3) (demo_disk [([RootDir, Normal ''data'', Normal ''.tmp''], FileNode [1, 2, 3] 7)]) =
     (Inr \<lparr> us_bytes_uploaded = 3, us_parts_count = 1, us_duration = 5 \<rparr>,
      demo_disk [([RootDir, Normal ''data'', Normal ''a''], FileNode [1, 2, 3] 7)])"
proof -
  have p: "full_path [RootDir, Normal ''data''] ''a'' = Inr [RootDir, Normal ''data'', Normal ''a'']" by code_simp
  note disk = demo_disk_def put_node_def drop_node_def node_at_def base_path_def is_directory_def is_file_def file_at_def
    parent_is_directory_def path_parent_def path_join_def is_absolute_def
  note calls = fs_create_def set_file_def fs_write_def append_file_def fs_sync_def fs_create_dir_all_def fs_rename_def
    syscall_def bw_flush_def bw_write_all_def bw_put_iff bw_put_def below_def
  note lu = demo_upload_def local_upload_new_def buf_writer_new_def lu_write_def on_lu_writer_def
  note progs = bindM_def map_errM_def handleM_def
  show "put_multipart_stream [RootDir, Normal ''data''] ''.tmp'' 0 ''a'' (demo_disk []) =
     (Inr (demo_upload 0), demo_disk [([RootDir, Normal ''data'', Normal ''.tmp''], FileNode [] 7)])"
    by (simp add: put_multipart_stream_def p disk calls lu progs Let_def)
  show "foldM (\<lambda>bs _. lu_write bs) [[1, 2], [3]] () (demo_upload 0, demo_disk [([RootDir, Normal ''data'', Normal ''.tmp''], FileNode [] 7)]) =
     (Inr (), (demo_upload 3, demo_disk [([RootDir, Normal ''data'', Normal ''.tmp''], FileNode [1, 2, 3] 7)]))"
    by (simp add: disk calls lu progs)
  show "lu_finish 5 (demo_upload 3) (demo_disk [([RootDir, Normal ''data'', Normal ''.tmp''], FileNode [1, 2, 3] 7)]) =
     (Inr \<lparr> us_bytes_uploaded = 3, us_parts_count = 1, us_duration = 5 \<rparr>,
      demo_disk [([RootDir, Normal ''data'', Normal ''a''], FileNode [1, 2, 3] 7)])"
    by (simp add: lu_finish_def scoped_def bw_drop_def disk calls lu progs)
qed

theorem multipart_atomic_witness:
  "file_at (snd (lu_finish 5 (demo_upload 3) (demo_disk [([RootDir, Normal ''data'', Normal ''.tmp''], FileNode [1, 2, 3] 7)])))
     [RootDir, Normal ''data'', Normal ''a''] = Some [1, 2, 3]"
proof -
  obtain y l where abort: "lu_abort (demo_upload 3) (demo_disk [([RootDir, Normal ''data'', Normal ''.tmp''], FileNode [1, 2, 3] 7)]) = (y, l)"
    by fastforce
  from multipart_atomic [OF demo_upload_steps(1,2) _ demo_upload_steps(3) abort] show ?thesis
    by (simp add: demo_upload_steps(3)) (simp add: demo_upload_def)
qed

section \<open>Writing below a relative root\<close>

text \<open>Parents are made below the root a second time: the argument of \<open>ensure_parent\<close> already starts with the root. With a
  relative root a writer for a file in a new directory fails, although the same call works below an absolute root.\<close>

lemma make_dirs_only:
  assumes "make_dirs ps f = (r, g)" "q \<notin> set ps"
  shows "node_at g q = node_at f q"
  using assms by (induction ps f rule: make_dirs.induct) (auto split: if_splits)

lemma make_dirs_all:
  assumes "make_dirs ps f = (r, g)" "\<forall>p\<in>set ps. \<not> is_file f p"
  shows "r = Inr () \<and> (\<forall>p. is_directory f p \<or> p \<in> set ps \<longrightarrow> is_directory g p)"
  using assms
proof (induction ps f rule: make_dirs.induct)
  case (2 p ps f)
  let ?f = "put_node p (DirNode (fs_clock f)) f"
  have new: "is_file ?f q \<Longrightarrow> is_file f q" "is_directory f q \<or> q = p \<Longrightarrow> is_directory ?f q" for q
    by (auto simp: is_file_def is_directory_def split: if_splits) (simp add: node_at_def)
  show ?case
  proof (cases "is_directory f p")
    case True
    with 2 show ?thesis by simp
  next
    case False
    with 2(3,4) have "make_dirs ps ?f = (r, g)" "\<forall>q\<in>set ps. \<not> is_file ?f q" using new(1) by auto
    from 2(2) [OF False _ this] 2(4) new(2) show ?thesis by simp
  qed
qed simp

lemma plain_root:
  assumes "rt = map Normal rs \<or> rt = RootDir # map Normal rs" "rt \<noteq> []"
  shows "normalize_path (rt @ map Normal cs) rt = Inr (rt @ map Normal cs)" "path_join rt (map Normal cs) = rt @ map Normal cs"
proof -
  have names: "filter (\<lambda>c. c \<noteq> CurDir) (map Normal xs) = map Normal xs" for xs by (induction xs) auto
  have res: "resolve_loop (map Normal xs) r = Inr (r @ map Normal xs)" for xs r
    by (rule resolve_loop_names) (simp add: list_all_iff)
  have loop: "normalize_root_loop (map Normal xs) r b = r @ map Normal xs" for xs r b
    by (induction xs arbitrary: r b) auto
  have root: "normalize_root rt = rt" using assms loop by (auto simp: normalize_root_def Let_def)
  have resolved: "resolve_loop (rt @ map Normal cs) [] = Inr (rt @ map Normal cs)"
    using assms(1) res [of "rs @ cs" "[]"] res [of "rs @ cs" "[RootDir]"] by auto
  show "normalize_path (rt @ map Normal cs) rt = Inr (rt @ map Normal cs)"
    by (simp add: normalize_path_def resolved root path_starts_with_def Let_def)
  show "path_join rt (map Normal cs) = rt @ map Normal cs"
    using assms(2) by (cases cs) (simp_all add: path_join_def is_absolute_def names [of "_ # _", simplified] names)
qed

lemma fs_create_needs_parent:
  assumes "fs_create (q @ [c]) f = (r, g)" "c \<noteq> RootDir" "\<not> is_directory f q"
  shows "isl r"
  using assms unfolding fs_create_def
  by (cases rule: syscall_cases)
    (auto simp: set_file_def parent_is_directory_def path_parent_def is_directory_def split: if_splits)

theorem relative_root_writes:
  assumes "components s = map Normal (ds @ [n])" "rs \<noteq> []" "\<not> is_directory f (map Normal (rs @ ds))" "\<not> prefix ds (rs @ ds)"
  shows "isl (fst (local_writer (map Normal rs) s f))"
proof -
  let ?rt = "map Normal rs" and ?q = "map Normal (rs @ ds)"
  have full: "full_path ?rt s = Inr (?q @ [Normal n])"
    using plain_root [of ?rt rs "ds @ [n]"] assms(1,2) by (simp add: full_path_def)
  obtain c cs where q: "?q = c # cs" using assms(2) by (cases rs) auto
  have parent: "path_parent (?q @ [Normal n]) = Some ?q" by (simp add: path_parent_def del: map_append)
  have twice: "normalize_path (path_join ?rt ?q) ?rt = Inr (?rt @ ?q)"
    using plain_root [of ?rt rs "rs @ ds"] assms(2) by simp
  have ensure: "ensure_parent ?rt (?q @ [Normal n]) =
      map_errM (\<lambda>e. StorageOther (''failed to create parent directories: '' @ io_text e)) (fs_create_dir_all (?rt @ ?q))"
    using parent twice unfolding q by (simp add: ensure_parent_def)
  obtain x g where dirs: "fs_create_dir_all (?rt @ ?q) f = (x, g)" by fastforce
  have "map Normal xs = map Normal ys \<longleftrightarrow> xs = ys" for xs ys by (rule inj_map_eq_map) (simp add: inj_def)
  then have "prefix (map Normal xs) (map Normal ys) \<longleftrightarrow> prefix xs ys" for xs ys
    by (auto simp: prefix_def map_eq_append_conv)
  then have new: "?q \<notin> set (prefixes (?rt @ ?q))" using assms(4) by (simp flip: map_append)
  have "\<not> is_directory g ?q"
    using dirs assms(3) new unfolding fs_create_dir_all_def
    by (cases rule: syscall_cases) (auto simp: is_directory_def dest: make_dirs_only [of _ _ _ _ ?q])
  from fs_create_needs_parent [OF _ _ this] have "isl (fst (fs_create (?q @ [Normal n]) g))" by (metis component.distinct prod.collapse)
  then show ?thesis
    using dirs by (cases x)
      (auto simp: local_writer_def full ensure bindM_def map_errM_def handleM_def simp del: map_append split: prod.splits sum.splits)
qed

theorem relative_root_writes_witness:
  "isl (fst (local_writer (map Normal [''data'']) ''run/a.bag'' \<lparr> fs_nodes = [([Normal ''data''], DirNode 0)], fs_faults = [], fs_clock = 0 \<rparr>))"
proof -
  have "components ''run/a.bag'' = map Normal ([''run''] @ [''a.bag''])" by code_simp
  from relative_root_writes [OF this, of "[''data'']"] show ?thesis
    by (simp add: is_directory_def node_at_def base_path_def)
qed

section \<open>Writing and reading below an absolute root\<close>

lemma chunks_nonempty: "c \<in> set (chunks n xs) \<Longrightarrow> c \<noteq> []"
  by (induction n xs rule: chunks.induct) (subst (asm) chunks.simps, auto split: if_splits)

lemma stream_chunks: "(\<forall>c\<in>set cs. c \<noteq> []) \<Longrightarrow> stream_bytes (map Chunk cs) = Some (concat cs)"
  by (induction cs) auto

lemma stream_file: "stream_bytes (node_stream n (FileNode bs t)) = Some bs"
  using stream_chunks [of "chunks n bs"] chunks_nonempty by (auto simp: node_stream_def chunks_concat)

lemma make_dirs_faults: "make_dirs ps f = (r, g) \<Longrightarrow> fs_faults g = fs_faults f"
  by (induction ps f rule: make_dirs.induct) (auto split: if_splits)

lemma bw_calm:
  assumes "fs_faults f = []"
  shows "\<exists>v g. bw_flush (w, f) = (Inr (), (v, g)) \<and> fs_faults g = []"
    "\<exists>v g. bw_write_all bs (w, f) = (Inr (), (v, g)) \<and> fs_faults g = []"
proof -
  have put: "\<exists>g. fs_write p bs f = (Inr (), g) \<and> fs_faults g = []" if "fs_faults f = []" for p bs f
    using that by (auto simp: fs_write_def append_file_def split: option.splits)
  have flush: "\<exists>v g. bw_flush (w, f) = (Inr (), (v, g)) \<and> fs_faults g = []" if calm: "fs_faults f = []" for w f
  proof -
    from put [OF calm] obtain g where "fs_write (bw_path w) (bw_buffer w) f = (Inr (), g)" "fs_faults g = []" by blast
    with calm show ?thesis by (cases "bw_buffer w = []") (simp_all add: bw_flush_def bindM_def bw_put_def below_def)
  qed
  then show "\<exists>v g. bw_flush (w, f) = (Inr (), (v, g)) \<and> fs_faults g = []" using assms .
  obtain u h where "(if bw_capacity w - length (bw_buffer w) < length bs then bw_flush else ret ()) (w, f) = (Inr (), (u, h))" "fs_faults h = []"
    using flush [OF assms, of w] assms that by (cases "bw_capacity w - length (bw_buffer w) < length bs") fastforce+
  then show "\<exists>v g. bw_write_all bs (w, f) = (Inr (), (v, g)) \<and> fs_faults g = []"
    using put [of h "bw_path u" bs] by (auto simp: bw_write_all_def bindM_def bw_put_def below_def)
qed

text \<open>In a calm file system a file can be made in any directory that is not in the way.\<close>

lemma make_file_calm:
  assumes "fs_faults f = []" "\<forall>p\<in>set (prefixes q). \<not> is_file f p" "\<not> is_directory f (q @ [Normal n])"
  obtains g h where "fs_create_dir_all q f = (Inr (), g)" "fs_create (q @ [Normal n]) g = (Inr (), h)" "fs_faults h = []"
    "file_at h (q @ [Normal n]) = Some []" "\<And>x. x \<noteq> q @ [Normal n] \<Longrightarrow> file_at h x = file_at f x"
proof -
  have parent: "path_parent (q @ [Normal n]) = Some q" by (simp add: path_parent_def)
  obtain x g where dirs: "make_dirs (prefixes q) f = (x, g)" by fastforce
  note made = make_dirs_all [OF dirs assms(2)]
  have "q @ [Normal n] \<notin> set (prefixes q)" unfolding in_set_prefixes by (auto dest: prefix_length_le)
  from make_dirs_only [OF dirs this] have "\<not> is_directory g (q @ [Normal n])"
    using assms(3) by (simp add: is_directory_def)
  moreover have "parent_is_directory g (q @ [Normal n])" using made by (simp add: parent_is_directory_def parent)
  moreover have calm: "fs_faults g = []" using make_dirs_faults [OF dirs] assms(1) by simp
  ultimately have create: "fs_create (q @ [Normal n]) g = (Inr (), put_node (q @ [Normal n]) (FileNode [] (fs_clock g)) g)"
    by (simp add: fs_create_def set_file_def)
  moreover have "fs_create_dir_all q f = (Inr (), g)" using dirs made assms(1) by (simp add: fs_create_dir_all_def)
  ultimately show thesis
    using calm make_dirs_files [OF dirs] by (intro that [of g "put_node (q @ [Normal n]) (FileNode [] (fs_clock g)) g"]) (auto simp: file_at_put base_path_def)
qed

lemma local_writer_calm:
  assumes "components s = map Normal (ds @ [n])" "fs_faults f = []"
    and "\<forall>p\<in>set (prefixes (RootDir # map Normal (rs @ ds))). \<not> is_file f p" "\<not> is_directory f (RootDir # map Normal (rs @ ds @ [n]))"
  shows "\<exists>g. local_writer (RootDir # map Normal rs) s f = (Inr (buf_writer_new 8192 (RootDir # map Normal (rs @ ds @ [n]))), g) \<and>
    fs_faults g = [] \<and> file_at g (RootDir # map Normal (rs @ ds @ [n])) = Some [] \<and>
    (\<forall>q. q \<noteq> RootDir # map Normal (rs @ ds @ [n]) \<longrightarrow> file_at g q = file_at f q)"
proof -
  let ?rt = "RootDir # map Normal rs" and ?q = "RootDir # map Normal (rs @ ds)"
  have full: "full_path ?rt s = Inr (?q @ [Normal n])"
    using plain_root [of ?rt rs "ds @ [n]"] assms(1) by (simp add: full_path_def)
  have parent: "path_parent (?q @ [Normal n]) = Some ?q" by (simp add: path_parent_def butlast_append)
  have once: "normalize_path (path_join ?rt ?q) ?rt = Inr ?q"
    using plain_root(1) [of ?rt rs ds] by (simp add: path_join_def is_absolute_def)
  have "\<not> is_directory f (?q @ [Normal n])" using assms(4) by simp
  from make_file_calm [OF assms(2,3) this] obtain g h where gh: "fs_create_dir_all ?q f = (Inr (), g)"
    "fs_create (?q @ [Normal n]) g = (Inr (), h)" "fs_faults h = []" "file_at h (?q @ [Normal n]) = Some []"
    "\<And>x. x \<noteq> ?q @ [Normal n] \<Longrightarrow> file_at h x = file_at f x" by blast
  have ensure: "ensure_parent ?rt (?q @ [Normal n]) f = (Inr (), g)"
    unfolding ensure_parent_def parent using once gh(1) by (simp add: map_errM_def handleM_def del: map_append)
  have "local_writer ?rt s f = (Inr (buf_writer_new 8192 (?q @ [Normal n])), h)"
    unfolding local_writer_def full
    by (simp add: bindM_def map_errM_def handleM_def ensure [unfolded append_Cons] gh(2) [unfolded append_Cons] del: map_append)
  then show ?thesis using gh(3-5) by simp
qed

text \<open>An open file is read back whole.\<close>

lemma fs_open_file:
  assumes "fs_faults f = []" "file_at f p = Some bs"
  obtains t where "fs_open p f = (Inr (FileNode bs t), f)"
  using assms by (auto simp: fs_open_def file_at_def split: option.splits node.splits)

section \<open>The contract of an object store\<close>

text \<open>A calm store takes the bytes that are written to it and delivers them again. \<open>taken w s p bs\<close>: the writer \<open>w\<close> for \<open>p\<close> has
  taken \<open>bs\<close>; \<open>writable p s\<close>: an object can be put at \<open>p\<close>.\<close>

locale object_store =
  fixes B :: "('s, 'w) byte_store"
    and calm :: "'s \<Rightarrow> bool"
    and writable :: "string \<Rightarrow> 's \<Rightarrow> bool"
    and obj :: "'s \<Rightarrow> string \<Rightarrow> u8 list option"
    and taken :: "'w \<Rightarrow> 's \<Rightarrow> string \<Rightarrow> u8 list \<Rightarrow> bool"
  assumes writer: "calm s \<Longrightarrow> writable p s \<Longrightarrow> \<exists>w t. so_writer B p s = (Inr w, t) \<and> calm t \<and> taken w t p []"
    and write_all: "calm s \<Longrightarrow> taken w s p bs \<Longrightarrow>
      \<exists>v t. so_write_all B cs (w, s) = (Inr (), (v, t)) \<and> calm t \<and> taken v t p (bs @ cs)"
    and flush: "calm s \<Longrightarrow> taken w s p bs \<Longrightarrow>
      \<exists>v t. so_flush B (w, s) = (Inr (), (v, t)) \<and> calm t \<and> so_drop B v t = t \<and> obj t p = Some bs"
    and reader: "calm s \<Longrightarrow> obj s p = Some bs \<Longrightarrow> \<exists>st. so_reader B p s = (Inr st, s) \<and> stream_bytes st = Some bs"

definition local_calm :: "file_system \<Rightarrow> bool" where
  "local_calm f = (fs_faults f = [])"

definition local_writable :: "string list \<Rightarrow> string \<Rightarrow> file_system \<Rightarrow> bool" where
  "local_writable rs s f \<longleftrightarrow>
     (\<exists>ds n. components s = map Normal (ds @ [n]) \<and> (\<forall>p\<in>set (prefixes (RootDir # map Normal (rs @ ds))). \<not> is_file f p) \<and>
        \<not> is_directory f (RootDir # map Normal (rs @ ds @ [n])))"

definition local_object :: "string list \<Rightarrow> file_system \<Rightarrow> string \<Rightarrow> u8 list option" where
  "local_object rs f s = (case full_path (RootDir # map Normal rs) s of Inl _ \<Rightarrow> None | Inr p \<Rightarrow> file_at f p)"

definition local_taken :: "string list \<Rightarrow> buf_writer \<Rightarrow> file_system \<Rightarrow> string \<Rightarrow> u8 list \<Rightarrow> bool" where
  "local_taken rs w f s bs \<longleftrightarrow> full_path (RootDir # map Normal rs) s = Inr (bw_path w) \<and> bw_content w f = Some bs"

interpretation local_store: object_store "local_storage (RootDir # map Normal rs)" local_calm "local_writable rs" "local_object rs" "local_taken rs"
  for rs
proof unfold_locales
  let ?rt = "RootDir # map Normal rs"
  fix f s
  assume "local_calm f" "local_writable rs s f"
  then obtain ds n where s: "components s = map Normal (ds @ [n])" "fs_faults f = []"
    "\<forall>p\<in>set (prefixes (RootDir # map Normal (rs @ ds))). \<not> is_file f p" "\<not> is_directory f (RootDir # map Normal (rs @ ds @ [n]))"
    by (auto simp: local_calm_def local_writable_def)
  have "full_path ?rt s = Inr (RootDir # map Normal (rs @ ds @ [n]))"
    using plain_root [of ?rt rs "ds @ [n]"] s(1) by (simp add: full_path_def)
  then show "\<exists>w t. so_writer (local_storage ?rt) s f = (Inr w, t) \<and> local_calm t \<and> local_taken rs w t s []"
    using local_writer_calm [OF s] by (auto simp: local_storage_def local_calm_def local_taken_def bw_content_def buf_writer_new_def)
next
  fix f w s bs cs
  assume "local_calm f" "local_taken rs w f s bs"
  moreover from this obtain v t where "bw_write_all cs (w, f) = (Inr (), (v, t))" "fs_faults t = []"
    using bw_calm(2) [of f cs w] by (auto simp: local_calm_def)
  ultimately show "\<exists>v t. so_write_all (local_storage (RootDir # map Normal rs)) cs (w, f) = (Inr (), (v, t)) \<and> local_calm t \<and> local_taken rs v t s (bs @ cs)"
    using bw_write_all_files(1,4) [of cs w f "Inr ()" v t] by (simp add: local_storage_def local_calm_def local_taken_def)
next
  fix f w s bs
  assume *: "local_calm f" "local_taken rs w f s bs"
  then obtain v t where fl: "bw_flush (w, f) = (Inr (), (v, t))" "fs_faults t = []"
    using bw_calm(1) [of f w] by (auto simp: local_calm_def)
  note files = bw_flush_files [OF fl(1)]
  have "bw_drop v t = t" using files(5) by (simp add: bw_drop_def bw_flush_def bindM_def)
  moreover have "file_at t (bw_path w) = Some bs" using files(1,4,5) * by (auto simp: bw_content_def local_taken_def)
  ultimately show "\<exists>v t. so_flush (local_storage (RootDir # map Normal rs)) (w, f) = (Inr (), (v, t)) \<and> local_calm t \<and>
      so_drop (local_storage (RootDir # map Normal rs)) v t = t \<and> local_object rs t s = Some bs"
    using fl * by (auto simp: local_storage_def local_calm_def local_taken_def local_object_def)
next
  fix f s bs
  assume *: "local_calm f" "local_object rs f s = Some bs"
  then obtain p where p: "full_path (RootDir # map Normal rs) s = Inr p" "file_at f p = Some bs"
    by (auto simp: local_object_def split: sum.splits)
  from fs_open_file [OF _ p(2)] * obtain t where "fs_open p f = (Inr (FileNode bs t), f)" by (auto simp: local_calm_def)
  then show "\<exists>st. so_reader (local_storage (RootDir # map Normal rs)) s f = (Inr st, f) \<and> stream_bytes st = Some bs"
    using p(1) stream_file by (auto simp: local_storage_def local_reader_def bindM_def map_errM_def handleM_def)
qed

text \<open>C16: below an absolute root local storage gives back what was put into it. In a calm file system an upload to any path
  made of names succeeds, creates the missing directories, reports the number of bytes, and a reader of that path then
  delivers exactly the uploaded bytes; no other file changes.\<close>

theorem local_roundtrip:
  assumes "components s = map Normal (ds @ [n])" "fs_faults f = []"
    and "\<forall>p\<in>set (prefixes (RootDir # map Normal (rs @ ds))). \<not> is_file f p" "\<not> is_directory f (RootDir # map Normal (rs @ ds @ [n]))"
  shows "\<exists>g st. upload_content (local_storage (RootDir # map Normal rs)) s bs f = (Inr (word_of_nat (length bs)), g) \<and>
    local_reader (RootDir # map Normal rs) s g = (Inr st, g) \<and> stream_bytes st = Some bs \<and>
    (\<forall>q. q \<noteq> RootDir # map Normal (rs @ ds @ [n]) \<longrightarrow> file_at g q = file_at f q)"
proof -
  let ?rt = "RootDir # map Normal rs" and ?p = "RootDir # map Normal (rs @ ds @ [n])"
  from local_writer_calm [OF assms] obtain g1 where g1: "local_writer ?rt s f = (Inr (buf_writer_new 8192 ?p), g1)"
    "fs_faults g1 = []" "file_at g1 ?p = Some []" "\<And>q. q \<noteq> ?p \<Longrightarrow> file_at g1 q = file_at f q" by blast
  from bw_calm(2) [OF g1(2)] obtain v g2 where g2: "bw_write_all bs (buf_writer_new 8192 ?p, g1) = (Inr (), (v, g2))" "fs_faults g2 = []"
    by blast
  from bw_calm(1) [OF g2(2)] obtain w g3 where g3: "bw_flush (v, g2) = (Inr (), (w, g3))" "fs_faults g3 = []" by blast
  note put = bw_write_all_files [OF g2(1)] and fl = bw_flush_files [OF g3(1)]
  have "bw_drop w g3 = g3" using fl(5) by (simp add: bw_drop_def bw_flush_def bindM_def)
  then have up: "upload_content (local_storage ?rt) s bs f = (Inr (word_of_nat (length bs)), g3)"
    using g1(1) g2(1) g3(1) by (simp add: upload_content_def local_storage_def bindM_def scoped_def map_errM_def handleM_def)
  have "bw_content w g3 = Some bs"
    using put(4) fl(4) g1(3) by (simp add: bw_content_def buf_writer_new_def)
  then have "file_at g3 ?p = Some bs" using fl(1,5) put(1) by (auto simp: bw_content_def buf_writer_new_def)
  then obtain t where "node_at g3 ?p = Some (FileNode bs t)" by (auto simp: file_at_def split: option.splits node.splits)
  moreover have "full_path ?rt s = Inr ?p"
    using plain_root [of ?rt rs "ds @ [n]"] assms(1) by (simp add: full_path_def)
  ultimately have "local_reader ?rt s g3 = (Inr (node_stream 65536 (FileNode bs t)), g3)"
    using g3(2) unfolding local_reader_def by (simp add: fs_open_def bindM_def map_errM_def handleM_def del: map_append)
  moreover have "q \<noteq> ?p \<Longrightarrow> file_at g3 q = file_at f q" for q
    using fl(3) put(1,3) g1(4) by (simp add: buf_writer_new_def)
  ultimately show ?thesis using up stream_file by blast
qed

theorem local_roundtrip_witness:
  "\<exists>g st. upload_content (local_storage (RootDir # map Normal [''data''])) ''run/a.bag'' [1, 2, 3] (demo_disk []) = (Inr (word_of_nat 3), g) \<and>
    local_reader (RootDir # map Normal [''data'']) ''run/a.bag'' g = (Inr st, g) \<and> stream_bytes st = Some [1, 2, 3]"
proof -
  have "components ''run/a.bag'' = map Normal ([''run''] @ [''a.bag''])" by code_simp
  from local_roundtrip [OF this, of "demo_disk []" "[''data'']" "[1, 2, 3]"] show ?thesis
    by (auto simp: demo_disk_def is_directory_def is_file_def node_at_def base_path_def)
qed

end
