(* ===== verification/Cached_Storage.thy ===== *)
theory Cached_Storage
  imports Local_Storage
begin

text \<open>
  The cache in front of a remote backend (\<open>cached/eviction.rs\<close>, \<open>cached/upload.rs\<close>, \<open>cached/storage.rs\<close>). The state has the
  local file system, the entries, the queue of uploads with the workers that serve it, and the state of the remote backend,
  which is any \<open>byte_store\<close>. Entries are an association list in the order in which the hash map is iterated; inserting may
  reorder it, by the argument \<open>en_rehash\<close>. Keys are compared as strings.

  Threads: a worker receives a task, checks for the shutdown, uploads, clears the flag and counts, and anything can happen between
  these actions. The list \<open>cd_turns\<close> says which actions the workers do at the next points where the client can be overtaken, so it
  stands for any such interleaving; the upload of one file is one action. A client that finds the queue full waits until a
  worker has taken a task; at least one worker runs while the storage is in use, and a queue of capacity 0 is treated as one of
  capacity 1. Locks are never poisoned, since no code panics under them.

  Nine tenths of the limit are computed in floating point: \<open>en_target\<close>. The wording of operating system errors is shortened.
\<close>

section \<open>Eviction policies\<close>

datatype eviction_policy = Lru | Lfu | Fifo

definition default_eviction_policy :: eviction_policy where
  "default_eviction_policy = Lru"

fun display_eviction_policy :: "eviction_policy \<Rightarrow> string" where
  "display_eviction_policy Lru = ''LRU''"
| "display_eviction_policy Lfu = ''LFU''"
| "display_eviction_policy Fifo = ''FIFO''"

text \<open>\<open>min_by_key\<close>: the first of the smallest elements.\<close>

fun min_by_key :: "('a \<Rightarrow> 'k::linorder) \<Rightarrow> 'a list \<Rightarrow> 'a option" where
  "min_by_key f [] = None"
| "min_by_key f (x # xs) =
     (case min_by_key f xs of None \<Rightarrow> Some x | Some y \<Rightarrow> if f x \<le> f y then Some x else Some y)"

record cache_entry_meta =
  em_path :: string
  em_size :: u64
  em_last_accessed :: timestamp
  em_created_at :: timestamp
  em_access_count :: u64

definition select_eviction_candidate :: "cache_entry_meta list \<Rightarrow> eviction_policy \<Rightarrow> (string \<times> u64) option" where
  "select_eviction_candidate entries policy =
     (if entries = [] then None
      else map_option (\<lambda>e. (em_path e, em_size e))
        (case policy of
           Lru \<Rightarrow> min_by_key em_last_accessed entries
         | Lfu \<Rightarrow> min_by_key em_access_count entries
         | Fifo \<Rightarrow> min_by_key em_created_at entries))"

section \<open>Entries, statistics and tasks\<close>

record cache_stats =
  ct_cache_hits :: u64
  ct_cache_misses :: u64
  ct_total_cached_bytes :: u64
  ct_cached_file_count :: u64
  ct_pending_uploads :: u64
  ct_uploads_completed :: u64
  ct_uploads_failed :: u64
  ct_bytes_uploaded :: u64

definition cache_stats_zero :: cache_stats where
  "cache_stats_zero = \<lparr> ct_cache_hits = 0, ct_cache_misses = 0, ct_total_cached_bytes = 0, ct_cached_file_count = 0,
     ct_pending_uploads = 0, ct_uploads_completed = 0, ct_uploads_failed = 0, ct_bytes_uploaded = 0 \<rparr>"

definition hit_rate :: "cache_stats \<Rightarrow> real" where
  "hit_rate s =
     (let n = ct_cache_hits s + ct_cache_misses s
      in if n = 0 then 0 else real (unat (ct_cache_hits s)) / real (unat n) * 100)"

record cache_entry =
  en_size :: u64
  en_last_accessed :: timestamp
  en_created_at :: timestamp
  en_access_count :: u64
  en_pending_upload :: bool

definition cache_entry_new :: "timestamp \<Rightarrow> u64 \<Rightarrow> cache_entry" where
  "cache_entry_new now n = \<lparr> en_size = n, en_last_accessed = now, en_created_at = now, en_access_count = 1, en_pending_upload = False \<rparr>"

definition entry_record_access :: "cache_entry \<Rightarrow> cache_entry" where
  "entry_record_access e = e\<lparr>en_access_count := en_access_count e + 1\<rparr>"

record upload_task =
  ut_local_path :: path
  ut_remote_path :: string
  ut_size :: u64

section \<open>Configuration and state\<close>

record cache_config =
  cc_cache_directory :: string
  cc_max_cache_size :: u64
  cc_upload_concurrency :: nat
  cc_upload_buffer_size :: nat
  cc_eviction_policy :: eviction_policy
  cc_delete_after_upload :: bool
  cc_max_pending_uploads :: nat
  cc_shutdown_timeout_secs :: u64

definition cache_config_new :: "string \<Rightarrow> cache_config" where
  "cache_config_new dir =
     \<lparr> cc_cache_directory = dir, cc_max_cache_size = 50 * 1024 * 1024 * 1024, cc_upload_concurrency = 4,
       cc_upload_buffer_size = 8 * 1024 * 1024, cc_eviction_policy = default_eviction_policy, cc_delete_after_upload = False,
       cc_max_pending_uploads = 100, cc_shutdown_timeout_secs = 30 \<rparr>"

definition with_max_cache_size :: "u64 \<Rightarrow> cache_config \<Rightarrow> cache_config" where
  "with_max_cache_size n c = c\<lparr>cc_max_cache_size := n\<rparr>"

definition with_upload_concurrency :: "nat \<Rightarrow> cache_config \<Rightarrow> cache_config" where
  "with_upload_concurrency n c = c\<lparr>cc_upload_concurrency := max n 1\<rparr>"

definition with_upload_buffer_size :: "nat \<Rightarrow> cache_config \<Rightarrow> cache_config" where
  "with_upload_buffer_size n c = c\<lparr>cc_upload_buffer_size := max n 1024\<rparr>"

definition with_eviction_policy :: "eviction_policy \<Rightarrow> cache_config \<Rightarrow> cache_config" where
  "with_eviction_policy p c = c\<lparr>cc_eviction_policy := p\<rparr>"

definition with_delete_after_upload :: "bool \<Rightarrow> cache_config \<Rightarrow> cache_config" where
  "with_delete_after_upload b c = c\<lparr>cc_delete_after_upload := b\<rparr>"

definition with_max_pending_uploads :: "nat \<Rightarrow> cache_config \<Rightarrow> cache_config" where
  "with_max_pending_uploads n c = c\<lparr>cc_max_pending_uploads := max n 1\<rparr>"

definition with_shutdown_timeout_secs :: "u64 \<Rightarrow> cache_config \<Rightarrow> cache_config" where
  "with_shutdown_timeout_secs n c = c\<lparr>cc_shutdown_timeout_secs := max n 1\<rparr>"

type_synonym entries = "(string \<times> cache_entry) list"

text \<open>Where a busy worker is in the loop, with its task and whether the upload succeeded. An action is the receipt of a task by an idle
  worker (or its timeout), or the next step of the busy worker at an index.\<close>

datatype worker_stage = Received upload_task | Checked upload_task | Uploaded upload_task bool | Cleared upload_task bool

datatype worker_action = Receive | Continue nat

record 's cached =
  cd_remote :: 's
  cd_fs :: file_system
  cd_entries :: entries
  cd_size :: u64
  cd_queue :: "upload_task list"
  cd_busy :: "worker_stage list"
  cd_stats :: cache_stats
  cd_shutdown :: bool
  cd_workers :: nat
  cd_closed :: bool
  cd_turns :: "worker_action list list"

record ('s, 'w) cache_env =
  ev_config :: cache_config
  ev_remote :: "('s, 'w) byte_store"
  ev_rehash :: "entries \<Rightarrow> entries"
  ev_target :: "u64 \<Rightarrow> u64"

type_synonym ('s, 'a) cache = "('s cached, storage_error, 'a) prog"

definition on_files :: "'a fs \<Rightarrow> ('s cached, io_error, 'a) prog" where
  "on_files m s = (case m (cd_fs s) of (r, f) \<Rightarrow> (r, s\<lparr>cd_fs := f\<rparr>))"

definition on_remote :: "('s, 'e, 'a) prog \<Rightarrow> ('s cached, 'e, 'a) prog" where
  "on_remote m s = (case m (cd_remote s) of (r, t) \<Rightarrow> (r, s\<lparr>cd_remote := t\<rparr>))"

definition on_stats :: "(cache_stats \<Rightarrow> cache_stats) \<Rightarrow> 's cached \<Rightarrow> 's cached" where
  "on_stats h s = s\<lparr>cd_stats := h (cd_stats s)\<rparr>"

definition on_entry :: "string \<Rightarrow> (cache_entry \<Rightarrow> cache_entry) \<Rightarrow> 's cached \<Rightarrow> 's cached" where
  "on_entry p h s = s\<lparr>cd_entries := map (\<lambda>(q, e). (q, if q = p then h e else e)) (cd_entries s)\<rparr>"

text \<open>Creating the storage makes the directory and starts the workers; \<open>files\<close> is the file system, \<open>remote\<close> the backend.\<close>

definition cached_new :: "('s, 'w) cache_env \<Rightarrow> worker_action list list \<Rightarrow> 's \<Rightarrow> file_system \<Rightarrow> storage_error + 's cached" where
  "cached_new E turns remote files =
     (case fs_create_dir_all (components (cc_cache_directory (ev_config E))) files of
        (Inl e, _) \<Rightarrow> Inl (StorageOther (''Failed to create cache directory: '' @ io_text e))
      | (Inr _, f) \<Rightarrow>
          Inr \<lparr> cd_remote = remote, cd_fs = f, cd_entries = [], cd_size = 0, cd_queue = [], cd_busy = [], cd_stats = cache_stats_zero,
            cd_shutdown = False, cd_workers = cc_upload_concurrency (ev_config E), cd_closed = False, cd_turns = turns \<rparr>)"

text \<open>Separators become \<open>::\<close>, so a cache file lies directly in the cache directory.\<close>

definition flatten_path :: "string \<Rightarrow> string" where
  "flatten_path s = concat (map (\<lambda>c. if c = CHR ''/'' \<or> c = CHR 0x5C then ''::'' else [c]) s)"

definition cache_path :: "('s, 'w) cache_env \<Rightarrow> string \<Rightarrow> path" where
  "cache_path E s = path_join (components (cc_cache_directory (ev_config E))) (components (flatten_path s))"

definition is_cached :: "('s, 'w) cache_env \<Rightarrow> string \<Rightarrow> 's cached \<Rightarrow> bool" where
  "is_cached E p s = path_exists (cd_fs s) (cache_path E p)"

section \<open>Uploads\<close>

text \<open>The stream of a local file is sent piece by piece to an open remote writer.\<close>

fun send_events :: "('s, 'w) byte_store \<Rightarrow> read_event list \<Rightarrow> ('w \<times> 's, storage_error, unit) prog" where
  "send_events B [] = ret ()"
| "send_events B (Chunk bs # rest) =
     (if bs = [] then ret () else bindM (map_errM io_storage (so_write_all B bs)) (\<lambda>_. send_events B rest))"
| "send_events B (ReadFails m # rest) = throw (StorageOther (''Failed to read cached file: '' @ m))"

definition upload_stream :: "('s, 'w) byte_store \<Rightarrow> string \<Rightarrow> read_event list \<Rightarrow> ('s, storage_error, unit) prog" where
  "upload_stream B p events =
     bindM (so_writer B p) (\<lambda>w.
     scoped (so_drop B) w (bindM (send_events B events) (\<lambda>_. map_errM io_storage (so_flush B))))"

definition upload_single_file :: "('s, 'w) cache_env \<Rightarrow> upload_task \<Rightarrow> ('s, unit) cache" where
  "upload_single_file E t =
     bindM (map_errM (\<lambda>e. StorageOther (''Failed to open cached file: '' @ io_text e)) (on_files (fs_open (ut_local_path t)))) (\<lambda>n.
     bindM (on_remote (upload_stream (ev_remote E) (ut_remote_path t) (node_stream 65536 n))) (\<lambda>_.
     if cc_delete_after_upload (ev_config E) then modifyM (\<lambda>s. snd (on_files (fs_remove_file (ut_local_path t)) s)) else ret ()))"

definition count_upload :: "bool \<Rightarrow> u64 \<Rightarrow> cache_stats \<Rightarrow> cache_stats" where
  "count_upload ok n s =
     (if ok then s\<lparr>ct_uploads_completed := ct_uploads_completed s + 1, ct_bytes_uploaded := ct_bytes_uploaded s + n,
                    ct_pending_uploads := saturating_sub (ct_pending_uploads s) 1\<rparr>
      else s\<lparr>ct_uploads_failed := ct_uploads_failed s + 1, ct_pending_uploads := saturating_sub (ct_pending_uploads s) 1\<rparr>)"

text \<open>
  The actions of the worker loop. A worker that sees the shutdown stops, also with a task in its hand, which is then lost; on a
  timeout it looks for the shutdown too. The first check is after the receipt; an upload that has begun is finished.
\<close>

definition remove_at :: "nat \<Rightarrow> 'a list \<Rightarrow> 'a list" where
  "remove_at i xs = take i xs @ drop (Suc i) xs"

definition worker_receive :: "'s cached \<Rightarrow> 's cached" where
  "worker_receive s =
     (if length (cd_busy s) < cd_workers s
      then case cd_queue s of
             t # rest \<Rightarrow> s\<lparr>cd_queue := rest, cd_busy := cd_busy s @ [Received t]\<rparr>
           | [] \<Rightarrow> if cd_shutdown s then s\<lparr>cd_workers := cd_workers s - 1\<rparr> else s
      else s)"

definition worker_continue :: "('s, 'w) cache_env \<Rightarrow> nat \<Rightarrow> 's cached \<Rightarrow> 's cached" where
  "worker_continue E i s =
     (if i < length (cd_busy s)
      then case cd_busy s ! i of
             Received t \<Rightarrow>
               (if cd_shutdown s then s\<lparr>cd_busy := remove_at i (cd_busy s), cd_workers := cd_workers s - 1\<rparr>
                else s\<lparr>cd_busy := (cd_busy s)[i := Checked t]\<rparr>)
           | Checked t \<Rightarrow>
               (case upload_single_file E t s of (r, s) \<Rightarrow> s\<lparr>cd_busy := (cd_busy s)[i := Uploaded t (\<not> isl r)]\<rparr>)
           | Uploaded t ok \<Rightarrow>
               on_entry (ut_remote_path t) (\<lambda>e. e\<lparr>en_pending_upload := False\<rparr>) (s\<lparr>cd_busy := (cd_busy s)[i := Cleared t ok]\<rparr>)
           | Cleared t ok \<Rightarrow> on_stats (count_upload ok (ut_size t)) (s\<lparr>cd_busy := remove_at i (cd_busy s)\<rparr>)
      else s)"

fun worker_act :: "('s, 'w) cache_env \<Rightarrow> worker_action \<Rightarrow> 's cached \<Rightarrow> 's cached" where
  "worker_act E Receive s = worker_receive s"
| "worker_act E (Continue i) s = worker_continue E i s"

text \<open>A point where the client can be overtaken.\<close>

definition background :: "('s, 'w) cache_env \<Rightarrow> 's cached \<Rightarrow> 's cached" where
  "background E s = (case cd_turns s of [] \<Rightarrow> s | as # rest \<Rightarrow> fold (worker_act E) as (s\<lparr>cd_turns := rest\<rparr>))"

text \<open>Until a worker takes a task: one that is idle, or else the first one when it is done.\<close>

fun steps_left :: "worker_stage \<Rightarrow> nat" where
  "steps_left (Received t) = 4" | "steps_left (Checked t) = 3" | "steps_left (Uploaded t ok) = 2" | "steps_left (Cleared t ok) = 1"

definition make_room :: "('s, 'w) cache_env \<Rightarrow> 's cached \<Rightarrow> 's cached" where
  "make_room E s =
     (if length (cd_busy s) < cd_workers s \<or> cd_busy s = [] then worker_receive s
      else worker_receive ((worker_continue E 0 ^^ steps_left (hd (cd_busy s))) s))"

text \<open>Sending waits for room; it fails when nobody can receive any more.\<close>

definition send_task :: "('s, 'w) cache_env \<Rightarrow> upload_task \<Rightarrow> ('s cached, string, unit) prog" where
  "send_task E t s =
     (let s = background E s;
          s = (if length (cd_queue s) < max 1 (cc_max_pending_uploads (ev_config E)) then s else make_room E s)
      in if cd_closed s \<and> cd_workers s = 0 then (Inl ''sending on a disconnected channel'', s)
         else (Inr (), s\<lparr>cd_queue := cd_queue s @ [t]\<rparr>))"

section \<open>The cache\<close>

definition evict_candidate :: "eviction_policy \<Rightarrow> entries \<Rightarrow> (string \<times> cache_entry) option" where
  "evict_candidate policy entries =
     (let idle = filter (\<lambda>(_, e). \<not> en_pending_upload e) entries
      in case policy of
           Lru \<Rightarrow> min_by_key (\<lambda>(_, a). en_last_accessed a) idle
         | Lfu \<Rightarrow> min_by_key (\<lambda>(_, a). en_access_count a) idle
         | Fifo \<Rightarrow> min_by_key (\<lambda>(_, a). en_created_at a) idle)"

text \<open>A cached file that cannot be deleted is left behind.\<close>

definition remove_cached :: "('s, 'w) cache_env \<Rightarrow> string \<Rightarrow> 's cached \<Rightarrow> 's cached" where
  "remove_cached E p s = (if is_cached E p s then snd (on_files (fs_remove_file (cache_path E p)) s) else s)"

definition evict_one :: "('s, 'w) cache_env \<Rightarrow> string \<Rightarrow> cache_entry \<Rightarrow> 's cached \<Rightarrow> 's cached" where
  "evict_one E p e s =
     (let s = remove_cached E p (s\<lparr>cd_entries := AList.delete p (cd_entries s)\<rparr>);
          s = s\<lparr>cd_size := cd_size s - en_size e\<rparr>
      in on_stats (\<lambda>t. t\<lparr>ct_total_cached_bytes := cd_size s, ct_cached_file_count := saturating_sub (ct_cached_file_count t) 1\<rparr>) s)"

lemma min_by_key_in: "min_by_key f xs = Some x \<Longrightarrow> x \<in> set xs"
  by (induction xs arbitrary: x) (auto split: option.splits if_splits)

lemma evict_candidate_in: "evict_candidate policy es = Some (p, e) \<Longrightarrow> (p, e) \<in> set es \<and> \<not> en_pending_upload e"
  by (cases policy) (auto simp: evict_candidate_def Let_def dest: min_by_key_in)

lemma remove_cached_parts [simp]:
  "cd_entries (remove_cached E p s) = cd_entries s" "cd_size (remove_cached E p s) = cd_size s"
  "cd_queue (remove_cached E p s) = cd_queue s" "cd_remote (remove_cached E p s) = cd_remote s"
  "cd_stats (remove_cached E p s) = cd_stats s"
  by (auto simp: remove_cached_def on_files_def split: prod.splits)

lemma evict_one_parts [simp]:
  "cd_entries (evict_one E p e s) = AList.delete p (cd_entries s)" "cd_size (evict_one E p e s) = cd_size s - en_size e"
  "cd_queue (evict_one E p e s) = cd_queue s" "cd_remote (evict_one E p e s) = cd_remote s"
  by (simp_all add: evict_one_def on_stats_def Let_def)

lemma delete_shrinks: "(p, e) \<in> set xs \<Longrightarrow> length (AList.delete p xs) < length xs"
  by (induction xs) (auto intro: le_imp_less_Suc [OF length_delete_le])

function evict_loop :: "('s, 'w) cache_env \<Rightarrow> 's cached \<Rightarrow> 's cached" where
  "evict_loop E s =
     (if cd_size s \<le> ev_target E (cc_max_cache_size (ev_config E)) then s
      else case evict_candidate (cc_eviction_policy (ev_config E)) (cd_entries s) of
        None \<Rightarrow> s
      | Some (p, e) \<Rightarrow> evict_loop E (evict_one E p e s))"
  by pat_completeness auto
termination
  by (relation "measure (\<lambda>(E, s). length (cd_entries s))")
    (auto dest!: evict_candidate_in intro: delete_shrinks)

declare evict_loop.simps [simp del]

definition evict :: "('s, 'w) cache_env \<Rightarrow> 's cached \<Rightarrow> 's cached" where
  "evict E s = evict_loop E s"

definition add_to_cache :: "('s, 'w) cache_env \<Rightarrow> timestamp \<Rightarrow> string \<Rightarrow> u64 \<Rightarrow> 's cached \<Rightarrow> 's cached" where
  "add_to_cache E now p n s =
     (let new_size = cd_size s + n;
          s = s\<lparr>cd_entries := ev_rehash E (AList.update p (cache_entry_new now n) (cd_entries s)), cd_size := new_size\<rparr>;
          s = on_stats (\<lambda>t. t\<lparr>ct_total_cached_bytes := new_size, ct_cached_file_count := ct_cached_file_count t + 1\<rparr>) s
      in if new_size > cc_max_cache_size (ev_config E) then evict E s else s)"

definition cached_record_access :: "timestamp \<Rightarrow> string \<Rightarrow> 's cached \<Rightarrow> 's cached" where
  "cached_record_access now p = on_entry p (\<lambda>e. entry_record_access (e\<lparr>en_last_accessed := now\<rparr>))"

definition queue_upload :: "('s, 'w) cache_env \<Rightarrow> path \<Rightarrow> string \<Rightarrow> u64 \<Rightarrow> ('s, unit) cache" where
  "queue_upload E lp rp n =
     bindM (map_errM (\<lambda>e. StorageOther (''Failed to queue upload: '' @ e))
       (send_task E \<lparr> ut_local_path = lp, ut_remote_path = rp, ut_size = n \<rparr>)) (\<lambda>_.
     bindM (modifyM (background E)) (\<lambda>_.
     bindM (modifyM (on_entry rp (\<lambda>e. e\<lparr>en_pending_upload := True\<rparr>))) (\<lambda>_.
     bindM (modifyM (background E)) (\<lambda>_.
     modifyM (on_stats (\<lambda>t. t\<lparr>ct_pending_uploads := ct_pending_uploads t + 1\<rparr>))))))"

text \<open>\<open>elapsed\<close> are the readings of the clock in the loop; without a further one the call has not returned.\<close>

fun flush_loop :: "('s, 'w) cache_env \<Rightarrow> int list \<Rightarrow> 's cached \<Rightarrow> (storage_error + unit) option \<times> 's cached" where
  "flush_loop E [] s = (if ct_pending_uploads (cd_stats s) = 0 then Some (Inr ()) else None, s)"
| "flush_loop E (t # ts) s =
     (if ct_pending_uploads (cd_stats s) = 0 then (Some (Inr ()), s)
      else if t \<ge> duration_seconds (uint (cc_shutdown_timeout_secs (ev_config E)))
        then (Some (Inl (StorageTimeout ''Cache flush timeout - uploads still pending'')), s)
      else flush_loop E ts (background E s))"

text \<open>\<open>drop\<close> signals the shutdown and then flushes; the value is gone when it returns.\<close>

definition drop_storage :: "('s, 'w) cache_env \<Rightarrow> int list \<Rightarrow> 's cached \<Rightarrow> (storage_error + unit) option \<times> 's cached" where
  "drop_storage E elapsed s =
     (case flush_loop E elapsed (s\<lparr>cd_shutdown := True\<rparr>) of
        (None, t) \<Rightarrow> (None, t)
      | (Some r, t) \<Rightarrow> (Some r, t\<lparr>cd_closed := True\<rparr>))"

section \<open>The storage operations\<close>

definition create_cache_parent :: "path \<Rightarrow> ('s, unit) cache" where
  "create_cache_parent p =
     (case path_parent p of
        None \<Rightarrow> ret ()
      | Some q \<Rightarrow>
          map_errM (\<lambda>e. StorageOther (''Failed to create cache directory: '' @ io_text e)) (on_files (fs_create_dir_all q)))"

text \<open>The download loop: what a remote reader delivers goes to the cache file.\<close>

fun download :: "path \<Rightarrow> read_event list \<Rightarrow> u64 \<Rightarrow> ('s, u64) cache" where
  "download p [] n = ret n"
| "download p (Chunk bs # rest) n =
     (if bs = [] then ret n
      else bindM (map_errM (\<lambda>e. StorageOther (''Failed to write to cache file: '' @ io_text e)) (on_files (fs_write p bs))) (\<lambda>_.
        download p rest (n + word_of_nat (length bs))))"
| "download p (ReadFails m # rest) n = throw (StorageOther (''Failed to read from remote: '' @ m))"

definition open_cached :: "(io_error \<Rightarrow> storage_error) \<Rightarrow> path \<Rightarrow> ('s, read_event list) cache" where
  "open_cached h p = map_errM h (bindM (on_files (fs_open p)) (\<lambda>n. ret (node_stream 65536 n)))"

definition given_not_found :: "string \<Rightarrow> io_error \<Rightarrow> storage_error" where
  "given_not_found p e = (case e of IoNotFound \<Rightarrow> NotFound p | IoOther m \<Rightarrow> StorageIo m)"

definition cached_reader :: "('s, 'w) cache_env \<Rightarrow> timestamp \<Rightarrow> string \<Rightarrow> ('s, read_event list) cache" where
  "cached_reader E now p =
     (let cp = cache_path E p
      in bindM (gets (is_cached E p)) (\<lambda>hit.
         if hit then
           bindM (modifyM (cached_record_access now p)) (\<lambda>_.
           bindM (modifyM (on_stats (\<lambda>t. t\<lparr>ct_cache_hits := ct_cache_hits t + 1\<rparr>))) (\<lambda>_.
           bindM (modifyM (background E)) (\<lambda>_. open_cached (given_not_found p) cp)))
         else
           bindM (modifyM (on_stats (\<lambda>t. t\<lparr>ct_cache_misses := ct_cache_misses t + 1\<rparr>))) (\<lambda>_.
           bindM (create_cache_parent cp) (\<lambda>_.
           bindM (on_remote (so_reader (ev_remote E) p)) (\<lambda>events.
           bindM (map_errM (\<lambda>e. StorageOther (''Failed to create cache file: '' @ io_text e)) (on_files (fs_create cp))) (\<lambda>_.
           bindM (download cp events 0) (\<lambda>n.
           bindM (modifyM (add_to_cache E now p n)) (\<lambda>_. open_cached io_storage cp))))))))"

definition cached_seekable_reader :: "('s, 'w) cache_env \<Rightarrow> timestamp \<Rightarrow> string \<Rightarrow> ('s, read_event list) cache" where
  "cached_seekable_reader E now p =
     (let cp = cache_path E p
      in bindM (gets (is_cached E p)) (\<lambda>hit.
         if hit then
           bindM (modifyM (cached_record_access now p)) (\<lambda>_.
           bindM (modifyM (on_stats (\<lambda>t. t\<lparr>ct_cache_hits := ct_cache_hits t + 1\<rparr>))) (\<lambda>_.
           bindM (modifyM (background E)) (\<lambda>_. open_cached (given_not_found p) cp)))
         else bindM (cached_reader E now p) (\<lambda>_. open_cached io_storage cp)))"

definition cached_exists :: "('s, 'w) cache_env \<Rightarrow> string \<Rightarrow> ('s, bool) cache" where
  "cached_exists E p = bindM (gets (is_cached E p)) (\<lambda>hit. if hit then ret True else on_remote (so_exists (ev_remote E) p))"

definition cached_size :: "('s, 'w) cache_env \<Rightarrow> string \<Rightarrow> ('s, u64) cache" where
  "cached_size E p =
     bindM (gets (is_cached E p)) (\<lambda>hit.
     if hit then map_errM (given_not_found p) (bindM (on_files (fs_metadata (cache_path E p))) (\<lambda>n. ret (node_len n)))
     else on_remote (so_size (ev_remote E) p))"

text \<open>The cache path is given to the local backend, which puts its root in front of a relative one.\<close>

definition cached_metadata :: "('s, 'w) cache_env \<Rightarrow> string \<Rightarrow> ('s, object_metadata) cache" where
  "cached_metadata E p =
     bindM (gets (is_cached E p)) (\<lambda>hit.
     if hit then
       (\<lambda>s. case local_metadata (components (cc_cache_directory (ev_config E))) (show_path (cache_path E p)) (cd_fs s) of
              (r, f) \<Rightarrow> (r, s\<lparr>cd_fs := f\<rparr>))
     else on_remote (so_metadata (ev_remote E) p))"

definition cached_list :: "('s, 'w) cache_env \<Rightarrow> string \<Rightarrow> ('s, object_metadata list) cache" where
  "cached_list E p = on_remote (so_list (ev_remote E) p)"

definition forget_entry :: "string \<Rightarrow> 's cached \<Rightarrow> 's cached" where
  "forget_entry p s =
     (case map_of (cd_entries s) p of
        None \<Rightarrow> s
      | Some e \<Rightarrow> s\<lparr>cd_entries := AList.delete p (cd_entries s), cd_size := cd_size s - en_size e\<rparr>)"

definition cached_delete :: "('s, 'w) cache_env \<Rightarrow> string \<Rightarrow> ('s, unit) cache" where
  "cached_delete E p =
     bindM (modifyM (forget_entry p)) (\<lambda>_.
     bindM (modifyM (remove_cached E p)) (\<lambda>_. on_remote (so_delete (ev_remote E) p)))"

definition cached_copy :: "('s, 'w) cache_env \<Rightarrow> timestamp \<Rightarrow> string \<Rightarrow> string \<Rightarrow> ('s, unit) cache" where
  "cached_copy E now a b =
     bindM (gets (is_cached E a)) (\<lambda>hit.
     if hit then
       bindM (map_errM (\<lambda>e. StorageOther (''Failed to copy in cache: '' @ io_text e)) (on_files (fs_copy (cache_path E a) (cache_path E b)))) (\<lambda>_.
       bindM (handleM (on_files (fs_metadata (cache_path E b))) (\<lambda>_. ret 0) (\<lambda>n. ret (node_len n))) (\<lambda>n.
       bindM (modifyM (add_to_cache E now b n)) (\<lambda>_. queue_upload E (cache_path E b) b n)))
     else on_remote (so_copy (ev_remote E) a b))"

definition cached_create_dir :: "('s, 'w) cache_env \<Rightarrow> string \<Rightarrow> ('s, unit) cache" where
  "cached_create_dir E p = on_remote (so_create_dir (ev_remote E) p)"

definition cached_create_dir_all :: "('s, 'w) cache_env \<Rightarrow> string \<Rightarrow> ('s, unit) cache" where
  "cached_create_dir_all E p = on_remote (so_create_dir_all (ev_remote E) p)"

section \<open>Writers\<close>

record cached_writer =
  cw_local_writer :: buf_writer
  cw_remote_path :: string
  cw_max_buffer_size :: nat
  cw_uploaded :: bool
  cw_flushed :: bool

definition cached_writer_new :: "('s, 'w) cache_env \<Rightarrow> string \<Rightarrow> ('s, cached_writer) cache" where
  "cached_writer_new E p =
     (let cp = cache_path E p
      in bindM (create_cache_parent cp) (\<lambda>_.
         bindM (map_errM (\<lambda>e. StorageOther (''Failed to create cache file '' @ show_path cp @ '': '' @ io_text e)) (on_files (fs_create cp))) (\<lambda>_.
         ret \<lparr> cw_local_writer = buf_writer_new 65536 cp, cw_remote_path = p,
           cw_max_buffer_size = cc_upload_buffer_size (ev_config E), cw_uploaded = False, cw_flushed = False \<rparr>)))"

type_synonym ('s, 'a) cw = "(cached_writer \<times> 's cached, io_error, 'a) prog"

definition on_cw_writer :: "'a bw \<Rightarrow> ('s, 'a) cw" where
  "on_cw_writer m x =
     (case m (cw_local_writer (fst x), cd_fs (snd x)) of
        (r, (w, f)) \<Rightarrow> (r, ((fst x)\<lparr>cw_local_writer := w\<rparr>, (snd x)\<lparr>cd_fs := f\<rparr>)))"

definition cw_queue_upload :: "('s, 'w) cache_env \<Rightarrow> ('s, unit) cw" where
  "cw_queue_upload E =
     bindM (gets (cw_uploaded \<circ> fst)) (\<lambda>up.
     if up then ret ()
     else bindM (on_cw_writer bw_flush) (\<lambda>_.
       bindM (gets (bw_path \<circ> cw_local_writer \<circ> fst)) (\<lambda>lp.
       bindM (handleM (below (on_files (fs_metadata lp))) (\<lambda>_. ret 0) (\<lambda>n. ret (node_len n))) (\<lambda>n.
       bindM (gets (cw_remote_path \<circ> fst)) (\<lambda>rp.
       bindM (map_errM (\<lambda>e. IoOther (''Failed to queue upload: '' @ e))
                (below (send_task E \<lparr> ut_local_path = lp, ut_remote_path = rp, ut_size = n \<rparr>))) (\<lambda>_.
       modifyM (\<lambda>(w, s). (w\<lparr>cw_uploaded := True\<rparr>, s))))))))"

definition cw_write :: "u8 list \<Rightarrow> ('s, nat) cw" where
  "cw_write bs =
     bindM (on_cw_writer (bw_write_all bs)) (\<lambda>_.
     bindM (gets fst) (\<lambda>w.
     bindM (if length (bw_buffer (cw_local_writer w)) > cw_max_buffer_size w then on_cw_writer bw_flush else ret ()) (\<lambda>_.
     ret (length bs))))"

definition cw_flush :: "('s, 'w) cache_env \<Rightarrow> ('s, unit) cw" where
  "cw_flush E =
     bindM (on_cw_writer bw_flush) (\<lambda>_.
     bindM (gets (cw_flushed \<circ> fst)) (\<lambda>fl.
     if fl then ret ()
     else bindM (modifyM (\<lambda>x. snd (cw_queue_upload E x))) (\<lambda>_. modifyM (\<lambda>(w, s). (w\<lparr>cw_flushed := True\<rparr>, s)))))"

definition cw_drop :: "('s, 'w) cache_env \<Rightarrow> cached_writer \<Rightarrow> 's cached \<Rightarrow> 's cached" where
  "cw_drop E w s =
     (let x = (if cw_flushed w then (w, s) else snd (cw_flush E (w, s)));
          y = (if cw_uploaded (fst x) then x else snd (cw_queue_upload E x))
      in (snd y)\<lparr>cd_fs := bw_drop (cw_local_writer (fst y)) (cd_fs (snd y))\<rparr>)"

end
