(* ===== verification/Cached_Logic.thy ===== *)
theory Cached_Logic
  imports Cached_Storage "HOL-Library.Multiset"
begin

text \<open>
  What the cache guarantees. Eviction stops, keeps every file whose upload is pending and the books straight
  (\<open>evict_result\<close>); a read of an uncached object delivers its bytes and leaves them in the cache (\<open>cached_read_through\<close>), unless
  the object is larger than the cache, when every read fails (\<open>oversized_object_unreadable\<close>); a queued file reaches the remote
  store (\<open>queued_upload_arrives\<close>), but dropping the storage starts no upload (\<open>drop_starts_no_upload\<close>), and an upload that overtakes
  the bookkeeping of its client leaves a flush waiting for ever (\<open>overtaken_flush_hangs\<close>).
\<close>

section \<open>Eviction\<close>

definition entry_bytes :: "entries \<Rightarrow> nat" where
  "entry_bytes es = sum_list (map (\<lambda>(_, e). unat (en_size e)) es)"

definition books_ok :: "'s cached \<Rightarrow> bool" where
  "books_ok s \<longleftrightarrow> distinct (map fst (cd_entries s)) \<and> entry_bytes (cd_entries s) \<le> unat (cd_size s)"

lemma entry_bytes_delete:
  assumes "distinct (map fst es)" "(p, e) \<in> set es"
  shows "entry_bytes es = entry_bytes (AList.delete p es) + unat (en_size e)"
  using assms
proof (induction es)
  case (Cons x es)
  then show ?case
    by (cases x) (auto simp: entry_bytes_def image_iff split: if_splits)
qed simp

lemma entry_bytes_ge: "(p, e) \<in> set es \<Longrightarrow> unat (en_size e) \<le> entry_bytes es"
  by (induction es) (auto simp: entry_bytes_def)

lemma min_by_key_None: "min_by_key f xs = None \<longleftrightarrow> xs = []"
  by (cases xs) (auto split: option.splits)

lemma evict_candidate_None:
  "evict_candidate policy es = None \<longleftrightarrow> (\<forall>x\<in>set es. en_pending_upload (snd x))"
  by (cases policy) (auto simp: evict_candidate_def Let_def min_by_key_None filter_empty_conv)

lemma evict_one_books:
  assumes "books_ok s" "(p, e) \<in> set (cd_entries s)"
  shows "books_ok (evict_one E p e s)"
proof -
  have d: "distinct (map fst (cd_entries s))" and b: "entry_bytes (cd_entries s) \<le> unat (cd_size s)"
    using assms(1) by (auto simp: books_ok_def)
  note e = entry_bytes_delete [OF d assms(2)]
  have "en_size e \<le> cd_size s" using e b by (simp add: word_le_nat_alt)
  then have "unat (cd_size s - en_size e) = unat (cd_size s) - unat (en_size e)" by (rule unat_sub)
  with d e b show ?thesis by (simp add: books_ok_def distinct_delete)
qed

lemma remove_cached_files:
  "q \<noteq> cache_path E p \<Longrightarrow> file_at (cd_fs (remove_cached E p s)) q = file_at (cd_fs s) q"
  by (auto simp: remove_cached_def on_files_def split: prod.splits dest: fs_remove_file_files(1))

lemma evict_one_files [simp]: "cd_fs (evict_one E p e s) = cd_fs (remove_cached E p (s\<lparr>cd_entries := AList.delete p (cd_entries s)\<rparr>))"
  by (simp add: evict_one_def on_stats_def Let_def)

text \<open>What eviction keeps: entries with a pending upload, their files, the remote store and the queue.\<close>

definition kept :: "('s, 'w) cache_env \<Rightarrow> 's cached \<Rightarrow> 's cached \<Rightarrow> bool" where
  "kept E s t \<longleftrightarrow> set (cd_entries t) \<subseteq> set (cd_entries s) \<and>
     (\<forall>x\<in>set (cd_entries s). en_pending_upload (snd x) \<longrightarrow> x \<in> set (cd_entries t)) \<and>
     (\<forall>q. (\<forall>x\<in>set (cd_entries s). cache_path E (fst x) = q \<longrightarrow> en_pending_upload (snd x)) \<longrightarrow>
        file_at (cd_fs t) q = file_at (cd_fs s) q) \<and>
     cd_remote t = cd_remote s \<and> cd_queue t = cd_queue s"

lemma kept_refl: "kept E s s"
  by (simp add: kept_def)

lemma kept_file:
  "kept E s t \<Longrightarrow> \<forall>x\<in>set (cd_entries s). cache_path E (fst x) = q \<longrightarrow> en_pending_upload (snd x) \<Longrightarrow>
     file_at (cd_fs t) q = file_at (cd_fs s) q"
  unfolding kept_def by blast

lemma kept_trans:
  assumes "kept E s t" "kept E t u"
  shows "kept E s u"
proof -
  have sub: "set (cd_entries t) \<subseteq> set (cd_entries s)" "set (cd_entries u) \<subseteq> set (cd_entries t)"
    using assms unfolding kept_def by blast+
  have "file_at (cd_fs u) q = file_at (cd_fs s) q"
    if q: "\<forall>x\<in>set (cd_entries s). cache_path E (fst x) = q \<longrightarrow> en_pending_upload (snd x)" for q
  proof -
    from q sub(1) have "\<forall>x\<in>set (cd_entries t). cache_path E (fst x) = q \<longrightarrow> en_pending_upload (snd x)" by blast
    from kept_file [OF assms(2) this] kept_file [OF assms(1) q] show ?thesis by (rule trans)
  qed
  moreover have "\<forall>x\<in>set (cd_entries s). en_pending_upload (snd x) \<longrightarrow> x \<in> set (cd_entries u)"
    using assms unfolding kept_def by blast
  moreover have "cd_remote u = cd_remote s" "cd_queue u = cd_queue s" using assms unfolding kept_def by simp_all
  ultimately show ?thesis using sub unfolding kept_def by blast
qed

lemma evict_one_kept:
  assumes "books_ok s" "(p, e) \<in> set (cd_entries s)" "\<not> en_pending_upload e"
  shows "kept E s (evict_one E p e s)"
proof -
  let ?s = "s\<lparr>cd_entries := AList.delete p (cd_entries s)\<rparr>"
  have same: "x = e" if "(p, x) \<in> set (cd_entries s)" for x
    using assms(1,2) that unfolding books_ok_def by (blast intro: eq_key_imp_eq_value)
  have "x \<in> set (AList.delete p (cd_entries s))" if "x \<in> set (cd_entries s)" "en_pending_upload (snd x)" for x
  proof -
    have "fst x \<noteq> p" using that same [of "snd x"] assms(3) by (metis prod.collapse)
    with that(1) show ?thesis by (auto simp: AList.delete_eq)
  qed
  moreover have "file_at (cd_fs (remove_cached E p ?s)) q = file_at (cd_fs s) q"
    if "\<forall>x\<in>set (cd_entries s). cache_path E (fst x) = q \<longrightarrow> en_pending_upload (snd x)" for q
  proof -
    have "q \<noteq> cache_path E p" using that assms(2,3) by auto
    from remove_cached_files [OF this, of ?s] show ?thesis by simp
  qed
  moreover have "set (AList.delete p (cd_entries s)) \<subseteq> set (cd_entries s)" by (auto simp: AList.delete_eq)
  ultimately show ?thesis unfolding kept_def by simp
qed

lemma evict_loop_result:
  assumes "books_ok s"
  shows "books_ok (evict_loop E s) \<and> kept E s (evict_loop E s) \<and>
    (cd_size (evict_loop E s) \<le> ev_target E (cc_max_cache_size (ev_config E)) \<or>
     (\<forall>x\<in>set (cd_entries (evict_loop E s)). en_pending_upload (snd x)))"
  using assms
proof (induction E s rule: evict_loop.induct)
  case (1 E s)
  consider (small) "cd_size s \<le> ev_target E (cc_max_cache_size (ev_config E))"
    | (stuck) "evict_candidate (cc_eviction_policy (ev_config E)) (cd_entries s) = None"
    | (some) p e where "\<not> cd_size s \<le> ev_target E (cc_max_cache_size (ev_config E))"
        "evict_candidate (cc_eviction_policy (ev_config E)) (cd_entries s) = Some (p, e)"
    by (metis not_None_eq surj_pair)
  then show ?case
  proof cases
    case small
    then have "evict_loop E s = s" by (simp add: evict_loop.simps [of E s])
    with small "1.prems" show ?thesis by (simp add: kept_refl)
  next
    case stuck
    then have "evict_loop E s = s" by (simp add: evict_loop.simps [of E s])
    with stuck "1.prems" show ?thesis by (simp add: kept_refl evict_candidate_None)
  next
    case (some p e)
    note cand = evict_candidate_in [OF some(2)]
    have step: "evict_loop E s = evict_loop E (evict_one E p e s)"
      using some by (simp add: evict_loop.simps [of E s])
    have "books_ok (evict_one E p e s)" "kept E s (evict_one E p e s)"
      using evict_one_books evict_one_kept cand "1.prems" by blast+
    with "1.IH" [OF some refl] show ?thesis unfolding step using kept_trans by blast
  qed
qed

section \<open>A small cache\<close>

text \<open>A name in the cache: the cache directory can be made, and the flattened path is one name in it.\<close>

definition cacheable :: "('s, 'w) cache_env \<Rightarrow> string \<Rightarrow> 's cached \<Rightarrow> bool" where
  "cacheable E p s \<longleftrightarrow>
     components (cc_cache_directory (ev_config E)) \<noteq> [] \<and> (\<exists>n. components (flatten_path p) = [Normal n]) \<and>
     (\<forall>q\<in>set (prefixes (components (cc_cache_directory (ev_config E)))). \<not> is_file (cd_fs s) q)"

text \<open>A cache of \<open>m\<close> bytes in front of a local directory that holds the three bytes of \<open>a\<close>.\<close>

definition demo_cache_env :: "u64 \<Rightarrow> (file_system, buf_writer) cache_env" where
  "demo_cache_env m =
     \<lparr> ev_config = with_max_cache_size m (cache_config_new ''/cache''),
       ev_remote = local_storage (RootDir # map Normal [''data'']), ev_rehash = (\<lambda>es. es), ev_target = (\<lambda>n. n div 10 * 9) \<rparr>"

definition demo_cache :: "file_system cached" where
  "demo_cache =
     \<lparr> cd_remote = demo_disk [([RootDir, Normal ''data'', Normal ''a''], FileNode [1, 2, 3] 7)],
       cd_fs = \<lparr> fs_nodes = [([RootDir, Normal ''cache''], DirNode 0)], fs_faults = [], fs_clock = 9 \<rparr>,
       cd_entries = [], cd_size = 0, cd_queue = [], cd_busy = [], cd_stats = cache_stats_zero, cd_shutdown = False, cd_workers = 1,
       cd_closed = False, cd_turns = [] \<rparr>"

lemma demo_cache_paths:
  "components (cc_cache_directory (ev_config (demo_cache_env m))) = [RootDir, Normal ''cache'']"
  "components (flatten_path ''a'') = [Normal ''a'']" "cache_path (demo_cache_env m) ''a'' = [RootDir, Normal ''cache'', Normal ''a'']"
  "full_path (RootDir # map Normal [''data'']) ''a'' = Inr [RootDir, Normal ''data'', Normal ''a'']"
proof -
  have c: "components ''/cache'' = [RootDir, Normal ''cache'']" "components (flatten_path ''a'') = [Normal ''a'']" by code_simp+
  show "components (cc_cache_directory (ev_config (demo_cache_env m))) = [RootDir, Normal ''cache'']"
    by (simp add: demo_cache_env_def with_max_cache_size_def cache_config_new_def c)
  then show "cache_path (demo_cache_env m) ''a'' = [RootDir, Normal ''cache'', Normal ''a'']"
    by (simp add: cache_path_def c path_join_def is_absolute_def)
  show "components (flatten_path ''a'') = [Normal ''a'']" by (rule c)
  show "full_path (RootDir # map Normal [''data'']) ''a'' = Inr [RootDir, Normal ''data'', Normal ''a'']" by code_simp
qed

lemma demo_cache_ok:
  "cacheable (demo_cache_env m) ''a'' demo_cache" "\<not> is_cached (demo_cache_env m) ''a'' demo_cache"
  "fs_faults (cd_fs demo_cache) = []" "cd_turns demo_cache = []" "books_ok demo_cache"
  "cc_max_cache_size (ev_config (demo_cache_env m)) = m" "unat (cd_size demo_cache) = 0"
  by (auto simp: cacheable_def demo_cache_paths is_cached_def path_exists_def is_file_def node_at_def base_path_def demo_cache_def
      books_ok_def entry_bytes_def) (simp add: demo_cache_env_def with_max_cache_size_def)

lemma demo_cache_remote:
  "\<exists>ev. so_reader (ev_remote (demo_cache_env m)) ''a'' (cd_remote demo_cache) = (Inr ev, cd_remote demo_cache) \<and> stream_bytes ev = Some [1, 2, 3]"
proof -
  have "local_calm (cd_remote demo_cache)" "local_object [''data''] (cd_remote demo_cache) ''a'' = Some [1, 2, 3]"
    by (simp_all only: local_object_def demo_cache_paths)
      (simp_all add: local_calm_def demo_cache_def demo_disk_def file_at_def node_at_def base_path_def)
  from local_store.reader [OF this] show ?thesis by (simp add: demo_cache_env_def)
qed

text \<open>C18: eviction stops and does no harm. When the books are right before it, they are right afterwards: the entries are some of
  the old ones and their sizes add up to at most the recorded size. Eviction ends below its target or when only entries with a
  pending upload are left; every entry with a pending upload is kept with its file (unless its cache path is shared with an
  evicted one), no file changes that does not belong to an idle entry, and neither do the remote store and the queue.\<close>

theorem evict_result:
  assumes "books_ok s"
  shows "books_ok (evict E s) \<and>
    (cd_size (evict E s) \<le> ev_target E (cc_max_cache_size (ev_config E)) \<or>
     (\<forall>x\<in>set (cd_entries (evict E s)). en_pending_upload (snd x))) \<and>
    set (cd_entries (evict E s)) \<subseteq> set (cd_entries s) \<and>
    (\<forall>x\<in>set (cd_entries s). en_pending_upload (snd x) \<longrightarrow> x \<in> set (cd_entries (evict E s))) \<and>
    (\<forall>q. (\<forall>x\<in>set (cd_entries s). cache_path E (fst x) = q \<longrightarrow> en_pending_upload (snd x)) \<longrightarrow>
       file_at (cd_fs (evict E s)) q = file_at (cd_fs s) q) \<and>
    cd_remote (evict E s) = cd_remote s \<and> cd_queue (evict E s) = cd_queue s"
  using evict_loop_result [OF assms, of E] unfolding evict_def kept_def by blast

theorem evict_result_witness:
  "(''b'', (cache_entry_new 1 2)\<lparr>en_pending_upload := True\<rparr>) \<in> set (cd_entries (evict (demo_cache_env 2)
     (demo_cache\<lparr>cd_entries := [(''a'', cache_entry_new 0 3), (''b'', (cache_entry_new 1 2)\<lparr>en_pending_upload := True\<rparr>)], cd_size := 5\<rparr>)))"
proof -
  let ?s = "demo_cache\<lparr>cd_entries := [(''a'', cache_entry_new 0 3), (''b'', (cache_entry_new 1 2)\<lparr>en_pending_upload := True\<rparr>)], cd_size := 5\<rparr>"
  have "books_ok ?s" by (simp add: books_ok_def entry_bytes_def cache_entry_new_def)
  from evict_result [OF this, of "demo_cache_env 2"] show ?thesis by simp
qed

section \<open>Uploads\<close>

lemma on_files_iff: "on_files m s = (r, t) \<longleftrightarrow> (\<exists>f. m (cd_fs s) = (r, f) \<and> t = s\<lparr>cd_fs := f\<rparr>)"
  by (auto simp: on_files_def split: prod.splits)

lemma on_remote_iff: "on_remote m s = (r, t) \<longleftrightarrow> (\<exists>u. m (cd_remote s) = (r, u) \<and> t = s\<lparr>cd_remote := u\<rparr>)"
  by (auto simp: on_remote_def split: prod.splits)

text \<open>An upload reads and changes the remote store and the local file system only.\<close>

definition upload_on :: "('s, 'w) cache_env \<Rightarrow> upload_task \<Rightarrow> 's \<times> file_system \<Rightarrow> 's \<times> file_system" where
  "upload_on E t x =
     (case fs_open (ut_local_path t) (snd x) of
        (Inl e, f) \<Rightarrow> (fst x, f)
      | (Inr n, f) \<Rightarrow>
          (case upload_stream (ev_remote E) (ut_remote_path t) (node_stream 65536 n) (fst x) of
             (Inl e, m) \<Rightarrow> (m, f)
           | (Inr _, m) \<Rightarrow> (m, if cc_delete_after_upload (ev_config E) then snd (fs_remove_file (ut_local_path t) f) else f)))"

lemma upload_single_file_on:
  "snd (upload_single_file E t s) =
     s\<lparr>cd_remote := fst (upload_on E t (cd_remote s, cd_fs s)), cd_fs := snd (upload_on E t (cd_remote s, cd_fs s))\<rparr>"
  by (auto simp: upload_single_file_def upload_on_def bindM_def map_errM_def handleM_def on_files_def on_remote_def
      split: prod.splits sum.splits)

section \<open>Shutdown\<close>

text \<open>The tasks whose upload has begun, and those that are still to be counted.\<close>

definition in_flight :: "'s cached \<Rightarrow> upload_task list" where
  "in_flight s = concat (map (\<lambda>b. case b of Checked t \<Rightarrow> [t] | _ \<Rightarrow> []) (cd_busy s))"

definition uncounted :: "'s cached \<Rightarrow> nat" where
  "uncounted s = length (filter (\<lambda>b. case b of Received t \<Rightarrow> False | _ \<Rightarrow> True) (cd_busy s))"

text \<open>What happens after the shutdown: some of the uploads that had begun are done in some order, no other one is, and no
  more uploads are counted than had begun.\<close>

definition only_in_flight :: "('s, 'w) cache_env \<Rightarrow> 's cached \<Rightarrow> 's cached \<Rightarrow> bool" where
  "only_in_flight E s t \<longleftrightarrow> cd_shutdown t \<and>
     (\<exists>ts. (cd_remote t, cd_fs t) = fold (upload_on E) ts (cd_remote s, cd_fs s) \<and> mset ts + mset (in_flight t) = mset (in_flight s)) \<and>
     unat (ct_pending_uploads (cd_stats s)) + uncounted t \<le> unat (ct_pending_uploads (cd_stats t)) + uncounted s"

lemma only_in_flight_shutdown: "only_in_flight E s t \<Longrightarrow> cd_shutdown t"
  by (simp add: only_in_flight_def)

lemma only_in_flight_refl: "cd_shutdown s \<Longrightarrow> only_in_flight E s s"
  unfolding only_in_flight_def by (auto intro!: exI [of _ "[]"])

lemma only_in_flight_same:
  "cd_shutdown t \<Longrightarrow> cd_remote t = cd_remote s \<Longrightarrow> cd_fs t = cd_fs s \<Longrightarrow> in_flight t = in_flight s \<Longrightarrow>
   unat (ct_pending_uploads (cd_stats s)) + uncounted t \<le> unat (ct_pending_uploads (cd_stats t)) + uncounted s \<Longrightarrow> only_in_flight E s t"
  unfolding only_in_flight_def by (auto intro!: exI [of _ "[]"])

lemma only_in_flight_trans:
  assumes "only_in_flight E s t" "only_in_flight E t u"
  shows "only_in_flight E s u"
proof -
  from assms obtain ts us where
    "(cd_remote t, cd_fs t) = fold (upload_on E) ts (cd_remote s, cd_fs s)" "mset ts + mset (in_flight t) = mset (in_flight s)"
    "(cd_remote u, cd_fs u) = fold (upload_on E) us (cd_remote t, cd_fs t)" "mset us + mset (in_flight u) = mset (in_flight t)"
    unfolding only_in_flight_def by blast
  then have "(cd_remote u, cd_fs u) = fold (upload_on E) (ts @ us) (cd_remote s, cd_fs s)"
    "mset (ts @ us) + mset (in_flight u) = mset (in_flight s)" by simp_all (metis union_assoc)
  with assms show ?thesis unfolding only_in_flight_def by fastforce
qed

lemma busy_at:
  assumes "i < length (cd_busy s)"
  obtains xs x ys where "cd_busy s = xs @ x # ys" "i = length xs" "cd_busy s ! i = x"
    "\<And>y. (cd_busy s)[i := y] = xs @ y # ys" "remove_at i (cd_busy s) = xs @ ys"
proof -
  have "cd_busy s = take i (cd_busy s) @ cd_busy s ! i # drop (Suc i) (cd_busy s)" by (rule id_take_nth_drop [OF assms])
  with assms show thesis
    by (intro that [of "take i (cd_busy s)" "cd_busy s ! i" "drop (Suc i) (cd_busy s)"])
      (simp_all add: upd_conv_take_nth_drop remove_at_def)
qed

lemma receive_shutdown: "cd_shutdown s \<Longrightarrow> only_in_flight E s (worker_receive s)"
  by (rule only_in_flight_same) (auto simp: worker_receive_def in_flight_def uncounted_def split: list.splits)

lemma continue_shutdown:
  assumes "cd_shutdown s"
  shows "only_in_flight E s (worker_continue E i s)"
proof (cases "i < length (cd_busy s)")
  case True
  from busy_at [OF this] obtain xs x ys where b: "cd_busy s = xs @ x # ys" "cd_busy s ! i = x"
    "\<And>y. (cd_busy s)[i := y] = xs @ y # ys" "remove_at i (cd_busy s) = xs @ ys" by metis
  show ?thesis
  proof (cases x)
    case (Received t)
    with True b assms show ?thesis
      by (intro only_in_flight_same) (simp_all add: worker_continue_def in_flight_def uncounted_def)
  next
    case (Checked t)
    obtain r s' where run: "upload_single_file E t s = (r, s')" by fastforce
    then have s': "s' = s\<lparr>cd_remote := fst (upload_on E t (cd_remote s, cd_fs s)), cd_fs := snd (upload_on E t (cd_remote s, cd_fs s))\<rparr>"
      using upload_single_file_on [of E t s] by simp
    have "worker_continue E i s = s'\<lparr>cd_busy := xs @ Uploaded t (\<not> isl r) # ys\<rparr>"
      using True b Checked run s' by (simp add: worker_continue_def)
    with s' b(1) Checked assms show ?thesis
      unfolding only_in_flight_def by (intro conjI exI [of _ "[t]"]) (simp_all add: in_flight_def uncounted_def)
  next
    case (Uploaded t ok)
    with True b assms show ?thesis
      by (intro only_in_flight_same) (simp_all add: worker_continue_def in_flight_def uncounted_def on_entry_def)
  next
    case (Cleared t ok)
    have "unat p \<le> Suc (unat (saturating_sub p 1))" for p :: u64 by (simp add: unat_saturating_sub)
    with True b assms Cleared show ?thesis
      by (intro only_in_flight_same) (simp_all add: worker_continue_def in_flight_def uncounted_def on_stats_def count_upload_def)
  qed
qed (simp add: worker_continue_def only_in_flight_refl assms)

lemma acts_shutdown: "cd_shutdown s \<Longrightarrow> only_in_flight E s (fold (worker_act E) as s)"
proof (induction as arbitrary: s)
  case (Cons a as)
  have a: "only_in_flight E s (worker_act E a s)"
    using Cons.prems by (cases a) (simp_all add: receive_shutdown continue_shutdown)
  from only_in_flight_trans [OF a Cons.IH [OF only_in_flight_shutdown [OF a]]] show ?case by simp
qed (simp add: only_in_flight_refl)

lemma background_shutdown: "cd_shutdown s \<Longrightarrow> only_in_flight E s (background E s)"
proof (cases "cd_turns s")
  case (Cons as rest)
  assume "cd_shutdown s"
  then have "only_in_flight E s (s\<lparr>cd_turns := rest\<rparr>)" by (intro only_in_flight_same) (simp_all add: in_flight_def uncounted_def)
  moreover from \<open>cd_shutdown s\<close> have "only_in_flight E (s\<lparr>cd_turns := rest\<rparr>) (fold (worker_act E) as (s\<lparr>cd_turns := rest\<rparr>))"
    by (intro acts_shutdown) simp
  ultimately show ?thesis using Cons by (auto simp: background_def intro: only_in_flight_trans)
qed (simp add: background_def only_in_flight_refl)

lemma flush_shutdown:
  "cd_shutdown s \<Longrightarrow> only_in_flight E s (snd (flush_loop E ts s)) \<and>
     (fst (flush_loop E ts s) = Some (Inr ()) \<longrightarrow> ct_pending_uploads (cd_stats (snd (flush_loop E ts s))) = 0)"
proof (induction E ts s rule: flush_loop.induct)
  case (2 E t ts s)
  from background_shutdown [OF 2(2), of E] have b: "only_in_flight E s (background E s)" "cd_shutdown (background E s)"
    by (simp_all add: only_in_flight_def)
  show ?case
  proof (cases "ct_pending_uploads (cd_stats s) = 0 \<or> t \<ge> duration_seconds (uint (cc_shutdown_timeout_secs (ev_config E)))")
    case True
    with 2(2) show ?thesis by (auto simp: only_in_flight_refl)
  next
    case False
    with 2(1) [OF _ _ b(2)] b(1) show ?thesis by (auto intro: only_in_flight_trans)
  qed
qed (simp add: only_in_flight_refl)

text \<open>C22: dropping the cached storage starts no upload. The shutdown is signalled before the flush, and a worker that sees it stops
  even with a task in its hand. Whatever is queued, whatever the clock shows and whatever the workers do during the flush and
  after it, the remote store and the files change only by uploads that had begun before the drop: they are those that result
  from some of these uploads, in some order. With more uploads pending than had begun (queued ones, for example) the flush does
  not succeed at any time.\<close>

theorem drop_starts_no_upload:
  "(\<exists>ts. (cd_remote (fold (worker_act E) as (snd (drop_storage E elapsed s))), cd_fs (fold (worker_act E) as (snd (drop_storage E elapsed s)))) =
       fold (upload_on E) ts (cd_remote s, cd_fs s) \<and> mset ts \<subseteq># mset (in_flight s)) \<and>
   (uncounted s < unat (ct_pending_uploads (cd_stats s)) \<longrightarrow> fst (drop_storage E elapsed s) \<noteq> Some (Inr ()))"
proof -
  let ?s = "s\<lparr>cd_shutdown := True\<rparr>" and ?d = "snd (drop_storage E elapsed s)"
  have parts: "in_flight ?s = in_flight s" "uncounted ?s = uncounted s" by (simp_all add: in_flight_def uncounted_def)
  have fl: "only_in_flight E ?s (snd (flush_loop E elapsed ?s))"
    "fst (flush_loop E elapsed ?s) = Some (Inr ()) \<longrightarrow> ct_pending_uploads (cd_stats (snd (flush_loop E elapsed ?s))) = 0"
    using flush_shutdown [of ?s E elapsed] by auto
  have closed: "only_in_flight E ?s (t\<lparr>cd_closed := True\<rparr>)" if "only_in_flight E ?s t" for t
    using that by (simp add: only_in_flight_def in_flight_def uncounted_def)
  have d: "only_in_flight E ?s ?d"
    using fl(1) closed by (auto simp: drop_storage_def split: prod.splits option.splits)
  have "only_in_flight E ?s (fold (worker_act E) as ?d)"
    by (rule only_in_flight_trans [OF d acts_shutdown [OF only_in_flight_shutdown [OF d]]])
  then have "\<exists>ts. (cd_remote (fold (worker_act E) as ?d), cd_fs (fold (worker_act E) as ?d)) = fold (upload_on E) ts (cd_remote s, cd_fs s) \<and>
      mset ts \<subseteq># mset (in_flight s)"
    unfolding only_in_flight_def parts by (auto simp: mset_subset_eq_exists_conv) metis
  moreover have "fst (drop_storage E elapsed s) \<noteq> Some (Inr ())" if "uncounted s < unat (ct_pending_uploads (cd_stats s))"
  proof
    assume "fst (drop_storage E elapsed s) = Some (Inr ())"
    then have "fst (flush_loop E elapsed ?s) = Some (Inr ())" by (auto simp: drop_storage_def split: prod.splits option.splits)
    with fl have "ct_pending_uploads (cd_stats (snd (flush_loop E elapsed ?s))) = 0" by simp
    with fl(1) that show False by (simp add: only_in_flight_def parts)
  qed
  ultimately show ?thesis by blast
qed

text \<open>A queued task that a worker takes during the drop is lost, and the flush does not succeed.\<close>

theorem drop_starts_no_upload_witness:
  "fst (drop_storage (demo_cache_env 2) [0, 60] (demo_cache\<lparr>cd_stats := cache_stats_zero\<lparr>ct_pending_uploads := 1\<rparr>,
     cd_queue := [\<lparr> ut_local_path = [RootDir, Normal ''x''], ut_remote_path = ''b'', ut_size = 1 \<rparr>], cd_turns := [[Receive, Continue 0]]\<rparr>))
   \<noteq> Some (Inr ())"
  using drop_starts_no_upload [of "demo_cache_env 2" "[]" "[0, 60]" "demo_cache\<lparr>cd_stats := cache_stats_zero\<lparr>ct_pending_uploads := 1\<rparr>,
     cd_queue := [\<lparr> ut_local_path = [RootDir, Normal ''x''], ut_remote_path = ''b'', ut_size = 1 \<rparr>], cd_turns := [[Receive, Continue 0]]\<rparr>"]
  by (simp add: uncounted_def demo_cache_def)

section \<open>Turns of a worker\<close>

text \<open>With an empty queue idle workers have nothing to count down.\<close>

lemma acts_idle:
  "cd_queue s = [] \<Longrightarrow> cd_busy s = [] \<Longrightarrow> \<not> cd_shutdown s \<Longrightarrow> fold (worker_act E) as s = s"
proof (induction as)
  case (Cons a as)
  then show ?case by (cases a) (simp_all add: worker_receive_def worker_continue_def)
qed simp

lemma flush_waits:
  assumes "cd_queue s = []" "cd_busy s = []" "\<not> cd_shutdown s" "ct_pending_uploads (cd_stats s) \<noteq> 0"
  shows "fst (flush_loop E ts s) \<noteq> Some (Inr ())"
  using assms
proof (induction E ts s rule: flush_loop.induct)
  case (2 E t ts s)
  have "cd_queue (background E s) = []" "cd_busy (background E s) = []" "\<not> cd_shutdown (background E s)" "cd_stats (background E s) = cd_stats s"
    using 2(2-4) acts_idle [of "s\<lparr>cd_turns := tl (cd_turns s)\<rparr>" E] by (auto simp: background_def split: list.splits)
  with 2 show ?case by auto
qed simp

text \<open>The whole turn of a worker that is not disturbed.\<close>

definition worker_turn :: "('s, 'w) cache_env \<Rightarrow> 's cached \<Rightarrow> 's cached" where
  "worker_turn E s = fold (worker_act E) (Receive # replicate 4 (Continue (length (cd_busy s)))) s"

lemma worker_turn_result:
  assumes "cd_queue s = t # rest" "length (cd_busy s) < cd_workers s" "\<not> cd_shutdown s"
    and "upload_single_file E t (s\<lparr>cd_queue := rest, cd_busy := cd_busy s @ [Checked t]\<rparr>) =
      (r, s\<lparr>cd_queue := rest, cd_busy := cd_busy s @ [Checked t], cd_remote := m, cd_fs := f\<rparr>)"
  shows "worker_turn E s = on_stats (count_upload (\<not> isl r) (ut_size t))
    (on_entry (ut_remote_path t) (\<lambda>e. e\<lparr>en_pending_upload := False\<rparr>) (s\<lparr>cd_queue := rest, cd_remote := m, cd_fs := f\<rparr>))"
  using assms
  by (simp add: worker_turn_def worker_receive_def worker_continue_def numeral_nat on_entry_def on_stats_def remove_at_def)

text \<open>An upload that overtakes the bookkeeping of its client is never counted down: the task is sent, a worker uploads it and
  clears the flag, and only then does the client mark the entry and count it. From then on a flush cannot succeed, and the
  entry is never evicted.\<close>

theorem overtaken_flush_hangs:
  assumes "cd_queue s = []" "cd_busy s = []" "0 < cd_workers s" "\<not> cd_shutdown s" "\<not> cd_closed s" "ct_pending_uploads (cd_stats s) = 0"
    and "cd_turns s = [] # [Receive, Continue 0, Continue 0, Continue 0, Continue 0] # [] # later"
  shows "\<exists>t. queue_upload E lp rp n s = (Inr (), t) \<and> cd_queue t = [] \<and> fst (flush_loop E ts t) \<noteq> Some (Inr ())"
proof -
  let ?k = "\<lparr> ut_local_path = lp, ut_remote_path = rp, ut_size = n \<rparr>"
  let ?q = "s\<lparr>cd_queue := [?k], cd_turns := [] # later\<rparr>"
  have send: "send_task E ?k s = (Inr (), s\<lparr>cd_queue := [?k], cd_turns := tl (cd_turns s)\<rparr>)"
    using assms by (simp add: send_task_def background_def Let_def)
  have over: "background E (s\<lparr>cd_queue := [?k], cd_turns := tl (cd_turns s)\<rparr>) = worker_turn E ?q"
    using assms by (simp add: background_def worker_turn_def numeral_nat)
  let ?c = "?q\<lparr>cd_queue := [], cd_busy := [Checked ?k]\<rparr>"
  obtain r where up: "upload_single_file E ?k ?c = (r, ?c\<lparr>cd_remote := fst (upload_on E ?k (cd_remote s, cd_fs s)),
      cd_fs := snd (upload_on E ?k (cd_remote s, cd_fs s))\<rparr>)"
    using upload_single_file_on [of E ?k ?c] by (cases "upload_single_file E ?k ?c") simp
  have turn: "worker_turn E ?q = on_stats (count_upload (\<not> isl r) n) (on_entry rp (\<lambda>e. e\<lparr>en_pending_upload := False\<rparr>)
      (?q\<lparr>cd_queue := [], cd_remote := fst (upload_on E ?k (cd_remote s, cd_fs s)), cd_fs := snd (upload_on E ?k (cd_remote s, cd_fs s))\<rparr>))"
    using worker_turn_result [of ?q ?k "[]" E r] up assms by simp
  let ?m = "on_entry rp (\<lambda>e. e\<lparr>en_pending_upload := True\<rparr>) (worker_turn E ?q)"
  have m: "cd_turns ?m = [] # later" "cd_queue ?m = []" "cd_busy ?m = []" "\<not> cd_shutdown ?m" "ct_pending_uploads (cd_stats ?m) = 0"
    using assms by (simp_all add: turn on_entry_def on_stats_def count_upload_def saturating_sub_def)
  let ?t = "on_stats (\<lambda>t. t\<lparr>ct_pending_uploads := ct_pending_uploads t + 1\<rparr>) (background E ?m)"
  have "queue_upload E lp rp n s = (Inr (), ?t)"
    by (simp add: queue_upload_def bindM_def map_errM_def handleM_def send over)
  moreover have t: "cd_queue ?t = []" "cd_busy ?t = []" "\<not> cd_shutdown ?t" "ct_pending_uploads (cd_stats ?t) = 1"
    using m by (simp_all add: background_def on_stats_def)
  moreover have "fst (flush_loop E ts ?t) \<noteq> Some (Inr ())" using t by (intro flush_waits) simp_all
  ultimately show ?thesis by blast
qed

text \<open>Over a store that keeps its contract, a streamed upload puts the bytes of the stream.\<close>

context object_store
begin

lemma send_events_taken:
  assumes "calm s" "taken w s p bs" "stream_bytes ev = Some cs"
  shows "\<exists>v t. send_events B ev (w, s) = (Inr (), (v, t)) \<and> calm t \<and> taken v t p (bs @ cs)"
  using assms
proof (induction ev arbitrary: w s bs cs)
  case (Cons e ev)
  show ?case
  proof (cases e)
    case (Chunk c)
    show ?thesis
    proof (cases "c = []")
      case True
      with Cons.prems Chunk show ?thesis by auto
    next
      case False
      with Cons.prems(3) Chunk obtain ds where ds: "stream_bytes ev = Some ds" "cs = c @ ds" by auto
      from write_all [OF Cons.prems(1,2), of c] obtain v t where vt:
        "so_write_all B c (w, s) = (Inr (), (v, t))" "calm t" "taken v t p (bs @ c)" by blast
      from Cons.IH [OF vt(2,3) ds(1)] vt(1) False Chunk ds(2) show ?thesis
        by (auto simp: bindM_def map_errM_def handleM_def)
    qed
  qed (use Cons.prems in simp)
qed simp

lemma upload_stream_puts:
  assumes "calm s" "writable p s" "stream_bytes ev = Some bs"
  shows "\<exists>t. upload_stream B p ev s = (Inr (), t) \<and> calm t \<and> obj t p = Some bs"
proof -
  from writer [OF assms(1,2)] obtain w t where w: "so_writer B p s = (Inr w, t)" "calm t" "taken w t p []" by blast
  from send_events_taken [OF w(2,3) assms(3)] obtain v u where v: "send_events B ev (w, t) = (Inr (), (v, u))" "calm u" "taken v u p bs"
    by auto
  from flush [OF v(2,3)] obtain x y where "so_flush B (v, u) = (Inr (), (x, y))" "calm y" "so_drop B x y = y" "obj y p = Some bs"
    by blast
  with w(1) v(1) show ?thesis by (auto simp: upload_stream_def bindM_def scoped_def map_errM_def handleM_def)
qed

end

text \<open>C21: a queued upload arrives. When the remote store is a local directory, the remote path can be written there, no call of
  either file system fails, and no shutdown was signalled, an idle worker that takes the first task of the queue, whose
  cached file is there, and is not disturbed uploads exactly its bytes: afterwards the remote store delivers them under the
  remote path, the task is gone from the queue and counted as completed, and the cached file is still there unless it is to be
  deleted.\<close>

theorem queued_upload_arrives:
  assumes "ev_remote E = local_storage (RootDir # map Normal rs)" "cd_queue s = t # rest" "length (cd_busy s) < cd_workers s"
    and "\<not> cd_shutdown s" "fs_faults (cd_fs s) = []" "file_at (cd_fs s) (ut_local_path t) = Some bs"
    and "fs_faults (cd_remote s) = []" "local_writable rs (ut_remote_path t) (cd_remote s)"
  shows "cd_queue (worker_turn E s) = rest \<and>
    (\<exists>st. so_reader (ev_remote E) (ut_remote_path t) (cd_remote (worker_turn E s)) = (Inr st, cd_remote (worker_turn E s)) \<and>
       stream_bytes st = Some bs) \<and>
    ct_uploads_completed (cd_stats (worker_turn E s)) = ct_uploads_completed (cd_stats s) + 1 \<and>
    (\<not> cc_delete_after_upload (ev_config E) \<longrightarrow> cd_fs (worker_turn E s) = cd_fs s)"
proof -
  let ?s = "s\<lparr>cd_queue := rest, cd_busy := cd_busy s @ [Checked t]\<rparr>"
  from fs_open_file [OF assms(5,6)] obtain m where opened: "fs_open (ut_local_path t) (cd_fs s) = (Inr (FileNode bs m), cd_fs s)" .
  have "local_calm (cd_remote s)" using assms(7) by (simp add: local_calm_def)
  from local_store.upload_stream_puts [OF this assms(8) stream_file] obtain u where u:
    "upload_stream (local_storage (RootDir # map Normal rs)) (ut_remote_path t) (node_stream 65536 (FileNode bs m)) (cd_remote s) = (Inr (), u)"
    "local_calm u" "local_object rs u (ut_remote_path t) = Some bs" by blast
  have "\<exists>f. upload_single_file E t ?s = (Inr (), ?s\<lparr>cd_remote := u, cd_fs := f\<rparr>) \<and> (\<not> cc_delete_after_upload (ev_config E) \<longrightarrow> f = cd_fs s)"
    using opened u(1) assms(1)
    by (cases "cc_delete_after_upload (ev_config E)")
      (auto simp: upload_single_file_def bindM_def map_errM_def handleM_def on_files_def on_remote_def split: prod.splits)
  then obtain f where up: "upload_single_file E t ?s = (Inr (), ?s\<lparr>cd_remote := u, cd_fs := f\<rparr>)"
    and f: "\<not> cc_delete_after_upload (ev_config E) \<longrightarrow> f = cd_fs s" by blast
  from worker_turn_result [OF assms(2-4) up]
  have "cd_queue (worker_turn E s) = rest" "cd_remote (worker_turn E s) = u" "cd_fs (worker_turn E s) = f"
    "ct_uploads_completed (cd_stats (worker_turn E s)) = ct_uploads_completed (cd_stats s) + 1"
    by (simp_all add: on_stats_def on_entry_def count_upload_def)
  with f local_store.reader [OF u(2,3)] assms(1) show ?thesis by simp
qed

theorem queued_upload_arrives_witness:
  "\<exists>st u. so_reader (local_storage (RootDir # map Normal [''data''])) ''b''
       (cd_remote (worker_turn (demo_cache_env 2) (demo_cache\<lparr>cd_fs := demo_disk [([RootDir, Normal ''x''], FileNode [5] 1)],
          cd_queue := [\<lparr> ut_local_path = [RootDir, Normal ''x''], ut_remote_path = ''b'', ut_size = 1 \<rparr>]\<rparr>))) = (Inr st, u) \<and>
     stream_bytes st = Some [5]"
proof -
  have "components ''b'' = [Normal ''b'']" by code_simp
  then have "local_writable [''data''] ''b'' (cd_remote demo_cache)"
    unfolding local_writable_def
    by (intro exI [of _ "[]"] exI [of _ "''b''"])
      (simp add: demo_cache_def demo_disk_def is_file_def is_directory_def node_at_def base_path_def)
  with queued_upload_arrives [of "demo_cache_env 2" "[''data'']" "demo_cache\<lparr>cd_fs := demo_disk [([RootDir, Normal ''x''], FileNode [5] 1)],
      cd_queue := [\<lparr> ut_local_path = [RootDir, Normal ''x''], ut_remote_path = ''b'', ut_size = 1 \<rparr>]\<rparr>" _ "[]" "[5]"]
  show ?thesis
    by (auto simp: demo_cache_env_def demo_cache_def demo_disk_def file_at_def node_at_def base_path_def)
qed

section \<open>Reading through the cache\<close>

lemma fs_write_calm:
  assumes "fs_faults f = []" "file_at f p = Some old"
  obtains g where "fs_write p bs f = (Inr (), g)" "fs_faults g = []" "file_at g p = Some (old @ bs)"
    "\<And>q. q \<noteq> p \<Longrightarrow> file_at g q = file_at f q"
proof -
  let ?g = "append_file p bs f"
  have "fs_write p bs f = (Inr (), ?g)" using assms(1) by (simp add: fs_write_def)
  moreover from fs_write_files [OF this] assms have "file_at ?g p = Some (old @ bs)" "\<And>q. q \<noteq> p \<Longrightarrow> file_at ?g q = file_at f q" by simp_all
  moreover have "fs_faults ?g = []" using assms by (simp add: append_file_def split: option.splits)
  ultimately show thesis by (intro that [of ?g])
qed

lemma download_calm:
  assumes "fs_faults (cd_fs s) = []" "file_at (cd_fs s) p = Some old" "stream_bytes ev = Some bs"
  shows "\<exists>g. download p ev n s = (Inr (n + word_of_nat (length bs)), s\<lparr>cd_fs := g\<rparr>) \<and> fs_faults g = [] \<and>
    file_at g p = Some (old @ bs) \<and> (\<forall>q. q \<noteq> p \<longrightarrow> file_at g q = file_at (cd_fs s) q)"
  using assms
proof (induction ev arbitrary: s old bs n)
  case Nil
  then show ?case by (intro exI [of _ "cd_fs s"]) simp
next
  case (Cons e ev)
  show ?case
  proof (cases e)
    case (Chunk c)
    show ?thesis
    proof (cases "c = []")
      case True
      with Cons.prems Chunk show ?thesis by (intro exI [of _ "cd_fs s"]) simp
    next
      case False
      with Cons.prems(3) Chunk obtain ds where ds: "stream_bytes ev = Some ds" "bs = c @ ds" by auto
      from fs_write_calm [OF Cons.prems(1,2), of c] obtain g where g: "fs_write p c (cd_fs s) = (Inr (), g)" "fs_faults g = []"
        "file_at g p = Some (old @ c)" "\<And>q. q \<noteq> p \<Longrightarrow> file_at g q = file_at (cd_fs s) q" by blast
      have "fs_faults (cd_fs (s\<lparr>cd_fs := g\<rparr>)) = []" "file_at (cd_fs (s\<lparr>cd_fs := g\<rparr>)) p = Some (old @ c)" using g by simp_all
      from Cons.IH [OF this ds(1), of "n + word_of_nat (length c)"] g(1,4) False Chunk ds(2) show ?thesis
        by (auto simp: bindM_def map_errM_def handleM_def on_files_def ac_simps)
    qed
  qed (use Cons.prems in simp)
qed

lemma reader_miss:
  assumes "cacheable E p s" "\<not> is_cached E p s" "fs_faults (cd_fs s) = []"
    and "so_reader (ev_remote E) p (cd_remote s) = (Inr ev, t)" "stream_bytes ev = Some bs"
  obtains f where "cached_reader E now p s = open_cached io_storage (cache_path E p) (add_to_cache E now p (word_of_nat (length bs))
      (on_stats (\<lambda>t. t\<lparr>ct_cache_misses := ct_cache_misses t + 1\<rparr>) s\<lparr>cd_remote := t, cd_fs := f\<rparr>))"
    "fs_faults f = []" "file_at f (cache_path E p) = Some bs"
    "\<And>q. q \<noteq> cache_path E p \<Longrightarrow> file_at f q = file_at (cd_fs s) q"
proof -
  let ?q = "components (cc_cache_directory (ev_config E))" and ?cp = "cache_path E p"
  let ?s = "on_stats (\<lambda>t. t\<lparr>ct_cache_misses := ct_cache_misses t + 1\<rparr>) s"
  obtain n where n: "components (flatten_path p) = [Normal n]" using assms(1) by (auto simp: cacheable_def)
  have cp: "?cp = ?q @ [Normal n]" using assms(1) by (simp add: cache_path_def n path_join_def is_absolute_def cacheable_def)
  have par: "path_parent ?cp = Some ?q" by (simp add: cp path_parent_def)
  have nd: "\<not> is_directory (cd_fs s) (?q @ [Normal n])"
    using assms(2) by (auto simp: is_cached_def path_exists_def is_directory_def cp)
  obtain g h where gh: "fs_create_dir_all ?q (cd_fs s) = (Inr (), g)" "fs_create ?cp g = (Inr (), h)" "fs_faults h = []"
    "file_at h ?cp = Some []" "\<And>x. x \<noteq> ?cp \<Longrightarrow> file_at h x = file_at (cd_fs s) x"
    using make_file_calm [OF assms(3) _ nd] assms(1) unfolding cp cacheable_def by blast
  have "fs_faults (cd_fs (?s\<lparr>cd_remote := t, cd_fs := h\<rparr>)) = []" "file_at (cd_fs (?s\<lparr>cd_remote := t, cd_fs := h\<rparr>)) ?cp = Some []"
    using gh by simp_all
  from download_calm [OF this assms(5), of 0] obtain f where f:
    "download ?cp ev 0 (?s\<lparr>cd_remote := t, cd_fs := h\<rparr>) = (Inr (word_of_nat (length bs)), ?s\<lparr>cd_remote := t, cd_fs := f\<rparr>)"
    "fs_faults f = []" "file_at f ?cp = Some bs" "\<And>q. q \<noteq> ?cp \<Longrightarrow> file_at f q = file_at h q" by auto
  have "cached_reader E now p s = open_cached io_storage ?cp (add_to_cache E now p (word_of_nat (length bs)) (?s\<lparr>cd_remote := t, cd_fs := f\<rparr>))"
    using assms(2,4) gh(1,2) f(1)
    by (simp add: cached_reader_def Let_def bindM_def map_errM_def handleM_def create_cache_parent_def par on_files_def on_remote_def on_stats_def)
  with f(2-4) gh(5) show thesis by (intro that [of f]) auto
qed

lemma add_to_cache_fits:
  assumes "unat (cd_size s) + n \<le> unat (cc_max_cache_size (ev_config E))"
  shows "cd_fs (add_to_cache E now p (word_of_nat n) s) = cd_fs s \<and> cd_remote (add_to_cache E now p (word_of_nat n) s) = cd_remote s \<and>
    cd_turns (add_to_cache E now p (word_of_nat n) s) = cd_turns s \<and>
    ct_cache_hits (cd_stats (add_to_cache E now p (word_of_nat n) s)) = ct_cache_hits (cd_stats s)"
proof -
  have "n < 2 ^ 64" using assms unat_bound_u64 [of "cc_max_cache_size (ev_config E)"] by simp
  then have n: "unat (word_of_nat n :: u64) = n" by (simp add: unsigned_of_nat take_bit_nat_eq_self_iff)
  have "unat (cd_size s + word_of_nat n) = unat (cd_size s) + n"
    using assms unat_bound_u64 [of "cc_max_cache_size (ev_config E)"] by (subst unat_add_no_wrap) (simp_all add: n)
  then have "\<not> cc_max_cache_size (ev_config E) < cd_size s + word_of_nat n"
    using assms by (simp add: word_less_nat_alt)
  then show ?thesis by (simp add: add_to_cache_def Let_def on_stats_def)
qed

lemma open_cached_file:
  assumes "fs_faults (cd_fs s) = []" "file_at (cd_fs s) q = Some bs"
  shows "\<exists>st. open_cached h q s = (Inr st, s) \<and> stream_bytes st = Some bs"
proof -
  from fs_open_file [OF assms] obtain t where "fs_open q (cd_fs s) = (Inr (FileNode bs t), cd_fs s)" .
  then show ?thesis using stream_file [of 65536 bs t]
    by (simp add: open_cached_def map_errM_def handleM_def bindM_def on_files_def)
qed

text \<open>C19: the cache reads through. When there is room for the object beside everything that is cached (so that nothing is
  evicted), no call of the local file system fails and no worker overtakes the reads, the first read of an uncached object
  returns a stream of exactly the bytes the remote store delivers and leaves them in the cache file; a second read is a hit: it
  returns the same bytes, also when the remote store has changed or can no longer be reached, and asks it nothing.\<close>

theorem cached_read_through:
  assumes "cacheable E p s" "\<not> is_cached E p s" "fs_faults (cd_fs s) = []" "cd_turns s = []"
    and "so_reader (ev_remote E) p (cd_remote s) = (Inr ev, t)" "stream_bytes ev = Some bs"
    and "unat (cd_size s) + length bs \<le> unat (cc_max_cache_size (ev_config E))"
  shows "\<exists>st s'. cached_reader E now p s = (Inr st, s') \<and> stream_bytes st = Some bs \<and>
    file_at (cd_fs s') (cache_path E p) = Some bs \<and> cd_remote s' = t \<and>
    (\<forall>r. \<exists>st' s''. cached_reader E after p (s'\<lparr>cd_remote := r\<rparr>) = (Inr st', s'') \<and> stream_bytes st' = Some bs \<and>
       cd_remote s'' = r \<and> ct_cache_hits (cd_stats s'') = ct_cache_hits (cd_stats s) + 1)"
proof -
  let ?cp = "cache_path E p" and ?miss = "\<lambda>t. t\<lparr>ct_cache_misses := ct_cache_misses t + 1\<rparr>"
  from reader_miss [OF assms(1-3,5,6), of now] obtain f where f:
    "cached_reader E now p s = open_cached io_storage ?cp (add_to_cache E now p (word_of_nat (length bs)) (on_stats ?miss s\<lparr>cd_remote := t, cd_fs := f\<rparr>))"
    "fs_faults f = []" "file_at f ?cp = Some bs" by blast
  define s' where "s' = add_to_cache E now p (word_of_nat (length bs)) (on_stats ?miss s\<lparr>cd_remote := t, cd_fs := f\<rparr>)"
  have s': "cd_fs s' = f" "cd_remote s' = t" "cd_turns s' = []" "ct_cache_hits (cd_stats s') = ct_cache_hits (cd_stats s)"
    using add_to_cache_fits [of "on_stats ?miss s\<lparr>cd_remote := t, cd_fs := f\<rparr>" "length bs" E now p] assms(4,7)
    by (simp_all add: s'_def on_stats_def)
  have first: "\<exists>st. cached_reader E now p s = (Inr st, s') \<and> stream_bytes st = Some bs"
    using open_cached_file [of s' ?cp bs io_storage] f s'(1) unfolding s'_def by simp
  have "path_exists f ?cp" using f(3) by (auto simp: path_exists_def file_at_def split: option.splits)
  then have "\<exists>st' s''. cached_reader E after p (s'\<lparr>cd_remote := r\<rparr>) = (Inr st', s'') \<and> stream_bytes st' = Some bs \<and>
       cd_remote s'' = r \<and> ct_cache_hits (cd_stats s'') = ct_cache_hits (cd_stats s) + 1" for r
    using open_cached_file [of "on_stats (\<lambda>t. t\<lparr>ct_cache_hits := ct_cache_hits t + 1\<rparr>) (cached_record_access after p (s'\<lparr>cd_remote := r\<rparr>))" ?cp bs "given_not_found p"] f s'
    by (auto simp: cached_reader_def Let_def is_cached_def bindM_def cached_record_access_def on_entry_def on_stats_def background_def)
  with first s' f(3) show ?thesis by blast
qed

theorem cached_read_through_witness:
  "\<exists>st s'. cached_reader (demo_cache_env 100) 1 ''a'' demo_cache = (Inr st, s') \<and> stream_bytes st = Some [1, 2, 3]"
proof -
  obtain ev where "so_reader (ev_remote (demo_cache_env 100)) ''a'' (cd_remote demo_cache) = (Inr ev, cd_remote demo_cache)"
    "stream_bytes ev = Some [1, 2, 3]" using demo_cache_remote by blast
  from cached_read_through [OF demo_cache_ok(1,2) [where m = 100] demo_cache_ok(3,4) this, of 1 2] show ?thesis
    by (simp add: demo_cache_ok(6,7)) blast
qed

section \<open>Objects larger than the cache\<close>

lemma remove_cached_calm:
  assumes "fs_faults (cd_fs s) = []"
  shows "fs_faults (cd_fs (remove_cached E p s)) = []"
    "\<not> path_exists (cd_fs s) q \<Longrightarrow> \<not> path_exists (cd_fs (remove_cached E p s)) q"
    "q = cache_path E p \<Longrightarrow> file_at (cd_fs s) q \<noteq> None \<Longrightarrow> \<not> path_exists (cd_fs (remove_cached E p s)) q"
  using assms
  by (auto simp: remove_cached_def on_files_def fs_remove_file_def path_exists_def is_file_iff file_not_base
      split: prod.splits if_splits) (auto simp: is_cached_def path_exists_def file_at_def split: option.splits)

lemma evict_one_fs: "cd_fs (evict_one E p e s) = cd_fs (remove_cached E p s)"
  by (simp add: remove_cached_def is_cached_def on_files_def split: prod.splits)

text \<open>One step of the loop, or its end.\<close>

lemma evict_loop_cases:
  obtains (stop) "evict_loop E s = s"
  | (step) p e where "evict_loop E s = evict_loop E (evict_one E p e s)" "(p, e) \<in> set (cd_entries s)" "\<not> en_pending_upload e"
      "\<not> cd_size s \<le> ev_target E (cc_max_cache_size (ev_config E))"
      "evict_candidate (cc_eviction_policy (ev_config E)) (cd_entries s) = Some (p, e)"
proof (cases "\<not> cd_size s \<le> ev_target E (cc_max_cache_size (ev_config E)) \<and>
    evict_candidate (cc_eviction_policy (ev_config E)) (cd_entries s) \<noteq> None")
  case True
  then obtain p e where "evict_candidate (cc_eviction_policy (ev_config E)) (cd_entries s) = Some (p, e)" by auto
  with True evict_candidate_in [OF this] show ?thesis
    by (intro step [of p e]) (simp_all add: evict_loop.simps [of E s])
next
  case False
  then show ?thesis by (intro stop) (auto simp: evict_loop.simps [of E s] split: option.splits)
qed

lemma evict_loop_stays_gone:
  "fs_faults (cd_fs s) = [] \<Longrightarrow> \<not> path_exists (cd_fs s) q \<Longrightarrow> \<not> path_exists (cd_fs (evict_loop E s)) q"
proof (induction E s rule: evict_loop.induct)
  case (1 E s)
  show ?case
  proof (cases rule: evict_loop_cases [of E s])
    case (step p e)
    show ?thesis unfolding step(1)
    proof (rule "1.IH" [OF step(4,5) refl])
      show "fs_faults (cd_fs (evict_one E p e s)) = []" "\<not> path_exists (cd_fs (evict_one E p e s)) q"
        unfolding evict_one_fs using remove_cached_calm(1,2) [OF "1.prems"(1)] "1.prems"(2) by blast+
    qed
  qed (use "1.prems" in simp)
qed

lemma evict_loop_gone:
  assumes "books_ok s" "fs_faults (cd_fs s) = []" "(p, e) \<in> set (cd_entries s)" "(p, e) \<notin> set (cd_entries (evict_loop E s))"
    and "file_at (cd_fs s) (cache_path E p) \<noteq> None"
  shows "\<not> path_exists (cd_fs (evict_loop E s)) (cache_path E p)"
  using assms
proof (induction E s rule: evict_loop.induct)
  case (1 E s)
  show ?case
  proof (cases rule: evict_loop_cases [of E s])
    case stop
    with "1.prems" show ?thesis by simp
  next
    case (step p' e')
    note calm = remove_cached_calm(1) [OF "1.prems"(2), of E p'] remove_cached_calm(3) [OF "1.prems"(2), of _ E p']
    note fs = evict_one_fs [of E p' e' s]
    show ?thesis
    proof (cases "cache_path E p' = cache_path E p")
      case True
      have "\<not> path_exists (cd_fs (evict_one E p' e' s)) (cache_path E p)" unfolding fs using calm(2) True "1.prems"(5) by simp
      from evict_loop_stays_gone [OF _ this] calm(1) show ?thesis unfolding step(1) fs by simp
    next
      case False
      then have "p' \<noteq> p" by auto
      have "(p, e) \<in> set (cd_entries (evict_one E p' e' s))" using "1.prems"(3) \<open>p' \<noteq> p\<close> by (auto simp: AList.delete_eq)
      moreover have "file_at (cd_fs (evict_one E p' e' s)) (cache_path E p) \<noteq> None"
        unfolding fs using remove_cached_files [of "cache_path E p" E p' s] False "1.prems"(5) by auto
      moreover have "fs_faults (cd_fs (evict_one E p' e' s)) = []" unfolding fs by (rule calm(1))
      ultimately show ?thesis
        using "1.IH" [OF step(4,5) refl evict_one_books [OF "1.prems"(1) step(2)]] "1.prems"(4) unfolding step(1) by blast
    qed
  qed
qed

lemma entry_bytes_mset: "mset xs = mset ys \<Longrightarrow> entry_bytes xs = entry_bytes ys"
  unfolding entry_bytes_def by (simp only: mset_map sum_mset_sum_list [symmetric])

lemma entry_bytes_update: "entry_bytes (AList.update p e es) \<le> entry_bytes es + unat (en_size e)"
  by (induction es) (auto simp: entry_bytes_def)

lemma add_to_cache_books:
  assumes "books_ok s" "unat (cd_size s) + unat n < 2 ^ 64" "\<And>es. mset (ev_rehash E es) = mset es"
  shows "books_ok (s\<lparr>cd_entries := ev_rehash E (AList.update p (cache_entry_new now n) (cd_entries s)), cd_size := cd_size s + n\<rparr>)"
proof -
  let ?es = "AList.update p (cache_entry_new now n) (cd_entries s)"
  have "mset (map fst (ev_rehash E ?es)) = mset (map fst ?es)" using assms(3) [of ?es] by simp
  then have "distinct (map fst (ev_rehash E ?es))"
    using assms(1) distinct_update mset_eq_imp_distinct_iff by (fastforce simp: books_ok_def)
  moreover have "entry_bytes (ev_rehash E ?es) \<le> entry_bytes (cd_entries s) + unat n"
    using entry_bytes_mset [OF assms(3), of ?es] entry_bytes_update [of p "cache_entry_new now n" "cd_entries s"]
    by (simp add: cache_entry_new_def)
  moreover have "unat (cd_size s + n) = unat (cd_size s) + unat n" using assms(2) by (intro unat_add_no_wrap) simp
  ultimately show ?thesis using assms(1) by (simp add: books_ok_def)
qed

text \<open>C20: an object larger than the cache cannot be read. Every read downloads it, evicts everything that is idle, the new file too,
  and then fails to open it: whatever the policy and the order of the hash map, the answer is an I/O error although the remote
  store delivered all bytes, and the object is not cached afterwards, so the next read goes the same way.\<close>

theorem oversized_object_unreadable:
  assumes "cacheable E p s" "\<not> is_cached E p s" "fs_faults (cd_fs s) = []"
    and "so_reader (ev_remote E) p (cd_remote s) = (Inr ev, t)" "stream_bytes ev = Some bs"
    and "unat (cc_max_cache_size (ev_config E)) < length bs" "unat (cd_size s) + length bs < 2 ^ 64" "books_ok s"
    and "ev_target E (cc_max_cache_size (ev_config E)) \<le> cc_max_cache_size (ev_config E)"
    and "\<And>es. mset (ev_rehash E es) = mset es"
  shows "(\<exists>m. fst (cached_reader E now p s) = Inl (StorageIo m)) \<and> \<not> is_cached E p (snd (cached_reader E now p s))"
proof -
  let ?cp = "cache_path E p" and ?n = "word_of_nat (length bs) :: u64" and ?max = "cc_max_cache_size (ev_config E)"
  let ?miss = "\<lambda>t. t\<lparr>ct_cache_misses := ct_cache_misses t + 1\<rparr>"
  from reader_miss [OF assms(1-5), of now] obtain f where f:
    "cached_reader E now p s = open_cached io_storage ?cp (add_to_cache E now p ?n (on_stats ?miss s\<lparr>cd_remote := t, cd_fs := f\<rparr>))"
    "fs_faults f = []" "file_at f ?cp = Some bs" by blast
  have n: "unat ?n = length bs" using assms(7) by (simp add: unsigned_of_nat take_bit_nat_eq_self_iff)
  define e where "e = cache_entry_new now ?n"
  define u where "u = on_stats (\<lambda>t. t\<lparr>ct_total_cached_bytes := cd_size s + ?n, ct_cached_file_count := ct_cached_file_count t + 1\<rparr>)
    ((on_stats ?miss s)\<lparr>cd_remote := t, cd_fs := f, cd_entries := ev_rehash E (AList.update p e (cd_entries s)), cd_size := cd_size s + ?n\<rparr>)"
  have books: "books_ok u"
    using add_to_cache_books [OF assms(8), of ?n E p now] assms(7,10) n by (simp add: u_def e_def books_ok_def on_stats_def)
  have mem: "(p, e) \<in> set (cd_entries u)"
  proof -
    have "map_of (AList.update p e (cd_entries s)) p = Some e" by (simp add: update_conv')
    then have "(p, e) \<in> set (AList.update p e (cd_entries s))" by (rule map_of_SomeD)
    with assms(10) [of "AList.update p e (cd_entries s)"] show ?thesis
      by (simp add: u_def on_stats_def) (metis set_mset_mset)
  qed
  have "unat (cd_size s + ?n) = unat (cd_size s) + length bs" using unat_add_no_wrap [of "cd_size s" ?n] assms(7) n by simp
  then have "?max < cd_size s + ?n" using assms(6) by (simp add: word_less_nat_alt)
  then have add: "add_to_cache E now p ?n (on_stats ?miss s\<lparr>cd_remote := t, cd_fs := f\<rparr>) = evict_loop E u"
    by (simp add: add_to_cache_def Let_def u_def e_def evict_def on_stats_def)
  have gone: "(p, e) \<notin> set (cd_entries (evict_loop E u))"
  proof
    assume in_end: "(p, e) \<in> set (cd_entries (evict_loop E u))"
    have "\<not> en_pending_upload e" by (simp add: e_def cache_entry_new_def)
    with evict_loop_result [OF books, of E] in_end have "cd_size (evict_loop E u) \<le> ev_target E ?max" "books_ok (evict_loop E u)" by fastforce+
    moreover have "length bs \<le> unat (cd_size (evict_loop E u))"
      using entry_bytes_ge [OF in_end] \<open>books_ok (evict_loop E u)\<close> n by (simp add: books_ok_def e_def cache_entry_new_def)
    ultimately show False using assms(6,9) by (simp add: word_le_nat_alt)
  qed
  have "cd_fs u = f" by (simp add: u_def on_stats_def)
  then have np: "\<not> path_exists (cd_fs (evict_loop E u)) ?cp" using evict_loop_gone [OF books _ mem gone] f(2,3) by simp
  obtain x g where "fs_open ?cp (cd_fs (evict_loop E u)) = (x, g)" by fastforce
  moreover from this np have "isl x" "\<not> path_exists g ?cp" unfolding fs_open_def
    by (cases rule: syscall_cases, auto simp: path_exists_def split: option.splits)+
  ultimately show ?thesis
    by (cases x) (auto simp: f(1) add open_cached_def map_errM_def handleM_def bindM_def on_files_def is_cached_def io_storage_def)
qed

theorem oversized_object_unreadable_witness:
  "\<exists>m. fst (cached_reader (demo_cache_env 2) 1 ''a'' demo_cache) = Inl (StorageIo m)"
proof -
  obtain ev where "so_reader (ev_remote (demo_cache_env 2)) ''a'' (cd_remote demo_cache) = (Inr ev, cd_remote demo_cache)"
    "stream_bytes ev = Some [1, 2, 3]" using demo_cache_remote by blast
  moreover have "ev_target (demo_cache_env 2) 2 \<le> 2" "ev_rehash (demo_cache_env 2) es = es" for es
    by (simp_all add: demo_cache_env_def)
  ultimately show ?thesis
    using oversized_object_unreadable [OF demo_cache_ok(1,2) [where m = 2] demo_cache_ok(3), of ev "cd_remote demo_cache" "[1, 2, 3]" 1]
    by (simp add: demo_cache_ok)
qed

end
