(* ===== verification/Image_Format.thy ===== *)
theory Image_Format
  imports RF_Prelude
begin

text \<open>
  \<open>roboflow-media/src/image/format.rs\<close>: recognising image formats by their first bytes, and reading the dimensions out of
  JPEG and PNG headers. The JPEG scanner indexes the bytes of the message, so its bounds checks are part of the model: it
  panics when a marker is followed by fill bytes up to the end of the data.
\<close>

section \<open>Formats\<close>

datatype image_format = Rgb8 | Bgr8 | Gray8 | Jpeg | Png | UnknownFormat

text \<open>Lower case of ASCII letters; the strings compared with are ASCII.\<close>

definition to_lower :: "char \<Rightarrow> char" where
  "to_lower c = (if of_char c \<in> {65 .. 90 :: nat} then char_of ((of_char c :: nat) + 32) else c)"

definition from_ros_format :: "string \<Rightarrow> image_format" where
  "from_ros_format s =
     (let t = map to_lower s
      in if t \<in> {''rgb8'', ''rgba8''} then Rgb8
         else if t \<in> {''bgr8'', ''bgra8''} then Bgr8
         else if t \<in> {''mono8'', ''gray8''} then Gray8
         else if t \<in> {''jpeg'', ''jpg'', ''jpe'', ''jfif''} then Jpeg
         else if t = ''png'' then Png
         else if t \<in> {''avi'', ''h264'', ''hevc''} then Jpeg
         else UnknownFormat)"

definition from_magic_bytes :: "u8 list \<Rightarrow> image_format" where
  "from_magic_bytes data =
     (if length data < 4 then UnknownFormat
      else if data ! 0 = 0xFF \<and> data ! 1 = 0xD8 \<and> data ! 2 = 0xFF then Jpeg
      else if data ! 0 = 0x89 \<and> data ! 1 = 0x50 \<and> data ! 2 = 0x4E \<and> data ! 3 = 0x47 then Png
      else UnknownFormat)"

definition detect_format :: "u8 list \<Rightarrow> string \<Rightarrow> image_format" where
  "detect_format data ros_format =
     (let from_magic = from_magic_bytes data
      in if from_magic \<noteq> UnknownFormat then from_magic else from_ros_format ros_format)"

definition is_compressed :: "image_format \<Rightarrow> bool" where
  "is_compressed f \<longleftrightarrow> f \<in> {Jpeg, Png}"

definition format_is_encoded :: "image_format \<Rightarrow> bool" where
  "format_is_encoded f \<longleftrightarrow> f \<in> {Jpeg, Png}"

definition supports_passthrough :: "image_format \<Rightarrow> bool" where
  "supports_passthrough f \<longleftrightarrow> f = Jpeg"

definition detect_jpeg :: "u8 list \<Rightarrow> bool" where
  "detect_jpeg data \<longleftrightarrow> length data \<ge> 4 \<and> data ! 0 = 0xFF \<and> data ! 1 = 0xD8 \<and> data ! 2 = 0xFF"

definition PNG_SIGNATURE :: "u8 list" where
  "PNG_SIGNATURE = [0x89, 0x50, 0x4E, 0x47, 0x0D, 0x0A, 0x1A, 0x0A]"

definition detect_png :: "u8 list \<Rightarrow> bool" where
  "detect_png data \<longleftrightarrow> length data \<ge> 8 \<and>
     data ! 0 = 0x89 \<and> data ! 1 = 0x50 \<and> data ! 2 = 0x4E \<and> data ! 3 = 0x47 \<and>
     data ! 4 = 0x0D \<and> data ! 5 = 0x0A \<and> data ! 6 = 0x1A \<and> data ! 7 = 0x0A"

definition detect_image_format :: "u8 list \<Rightarrow> image_format" where
  "detect_image_format data = (if detect_jpeg data then Jpeg else if detect_png data then Png else UnknownFormat)"

definition can_passthrough :: "u8 list \<Rightarrow> bool" where
  "can_passthrough data = detect_jpeg data"

section \<open>Dimensions\<close>

definition be16 :: "u8 \<Rightarrow> u8 \<Rightarrow> u32" where
  "be16 a b = ucast a * 256 + ucast b"

definition be32 :: "u8 \<Rightarrow> u8 \<Rightarrow> u8 \<Rightarrow> u8 \<Rightarrow> u32" where
  "be32 a b c d = ucast a * 2 ^ 24 + ucast b * 2 ^ 16 + ucast c * 2 ^ 8 + ucast d"

text \<open>The loop over fill bytes after a marker.\<close>

function skip_padding :: "u8 list \<Rightarrow> nat \<Rightarrow> nat" where
  "skip_padding data i = (if i < length data - 1 \<and> data ! (i + 1) = 0xFF then skip_padding data (i + 1) else i)"
  by pat_completeness auto
termination by (relation "measure (\<lambda>(data, i). length data - i)") auto

declare skip_padding.simps [simp del]

lemma skip_padding_ge: "i \<le> skip_padding data i"
  by (induction data i rule: skip_padding.induct) (subst skip_padding.simps, force)

lemma scan_progress: "i < Suc (Suc (skip_padding data i + k))"
  using skip_padding_ge [of i data] by simp

function jpeg_scan :: "u8 list \<Rightarrow> nat \<Rightarrow> (u32 \<times> u32) option panics" where
  "jpeg_scan data i =
     (if i < length data - 8
      then with_at data i (\<lambda>b.
             if b \<noteq> 0xFF then jpeg_scan data (i + 1)
             else with_at data (skip_padding data i + 1) (\<lambda>marker.
                    if marker = 0xC0 \<or> marker = 0xC2
                    then if skip_padding data i + 10 > length data then Returns None
                         else with_at data (skip_padding data i + 5) (\<lambda>h1. with_at data (skip_padding data i + 6) (\<lambda>h0.
                              with_at data (skip_padding data i + 7) (\<lambda>w1. with_at data (skip_padding data i + 8) (\<lambda>w0.
                              Returns (Some (be16 w1 w0, be16 h1 h0))))))
                    else if skip_padding data i + 4 > length data then Returns None
                    else with_at data (skip_padding data i + 2) (\<lambda>l1. with_at data (skip_padding data i + 3) (\<lambda>l0.
                         jpeg_scan data (skip_padding data i + 2 + unat (be16 l1 l0))))))
      else Returns None)"
  by pat_completeness auto
termination
  by (relation "measure (\<lambda>(data, i). length data - i)") (auto intro!: diff_less_mono2 simp: scan_progress)

declare jpeg_scan.simps [simp del]

definition jpeg_dimensions :: "u8 list \<Rightarrow> (u32 \<times> u32) option panics" where
  "jpeg_dimensions data =
     (if length data < 4 then Returns None
      else if data ! 0 \<noteq> 0xFF \<or> data ! 1 \<noteq> 0xD8 then Returns None
      else jpeg_scan data 2)"

definition IHDR :: "u8 list" where
  "IHDR = [0x49, 0x48, 0x44, 0x52]"

definition png_dimensions :: "u8 list \<Rightarrow> (u32 \<times> u32) option" where
  "png_dimensions data =
     (if length data < 24 then None
      else if take 8 data \<noteq> PNG_SIGNATURE then None
      else if take 4 (drop 12 data) \<noteq> IHDR then None
      else let width = be32 (data ! 16) (data ! 17) (data ! 18) (data ! 19);
               height = be32 (data ! 20) (data ! 21) (data ! 22) (data ! 23)
           in if width = 0 \<or> height = 0 then None else Some (width, height))"

definition extract_dimensions :: "image_format \<Rightarrow> u8 list \<Rightarrow> (u32 \<times> u32) option panics" where
  "extract_dimensions f data =
     (case f of Jpeg \<Rightarrow> jpeg_dimensions data | Png \<Rightarrow> Returns (png_dimensions data) | _ \<Rightarrow> Returns None)"


section \<open>When the scan is safe\<close>

lemma skip_padding_stops:
  "i + 1 < length data \<Longrightarrow> last data \<noteq> 0xFF \<Longrightarrow> skip_padding data i + 1 < length data"
proof (induction data i rule: skip_padding.induct)
  case (1 data i)
  show ?case
  proof (cases "i < length data - 1 \<and> data ! (i + 1) = 0xFF")
    case True
    have "data \<noteq> []" using 1(2) by auto
    then have "i + 1 \<noteq> length data - 1" using True 1(3) by (metis last_conv_nth)
    with True 1 show ?thesis by (subst skip_padding.simps) simp
  next
    case False
    with 1 show ?thesis by (subst skip_padding.simps) auto
  qed
qed

lemma skip_padding_all:
  assumes "\<And>k. i < k \<Longrightarrow> k < length data \<Longrightarrow> data ! k = 0xFF" "i < length data"
  shows "skip_padding data i + 1 = length data"
  using assms
proof (induction data i rule: skip_padding.induct)
  case (1 data i)
  show ?case
  proof (cases "i + 1 < length data")
    case True
    with 1(2) [of "i + 1"] have c: "i < length data - 1 \<and> data ! (i + 1) = 0xFF" by simp
    have "skip_padding data (i + 1) + 1 = length data"
      by (rule 1(1) [OF c]) (use 1(2) True in auto)
    with c show ?thesis by (subst skip_padding.simps) simp
  next
    case False
    with 1(3) show ?thesis by (subst skip_padding.simps) auto
  qed
qed

lemma jpeg_scan_safe: "last data \<noteq> 0xFF \<Longrightarrow> jpeg_scan data i \<noteq> Panic"
proof (induction data i rule: jpeg_scan.induct)
  case (1 data i)
  show ?case
  proof (cases "i < length data - 8")
    case True
    then have j: "skip_padding data i + 1 < length data" using skip_padding_stops [of i data] 1(3) by simp
    show ?thesis
      by (subst jpeg_scan.simps) (use True j 1 in \<open>auto simp: not_le\<close>)
  next
    case False
    then show ?thesis by (subst jpeg_scan.simps) simp
  qed
qed

text \<open>A JPEG header: segments other than the frame header, then a frame header with its dimensions.\<close>

record jpeg_segment =
  seg_marker :: u8
  seg_payload :: "u8 list"

definition hi8 :: "nat \<Rightarrow> u8" where
  "hi8 n = of_nat (n div 256)"

definition lo8 :: "nat \<Rightarrow> u8" where
  "lo8 n = of_nat (n mod 256)"

definition segment_bytes :: "jpeg_segment \<Rightarrow> u8 list" where
  "segment_bytes s = (let n = length (seg_payload s) + 2 in [0xFF, seg_marker s, hi8 n, lo8 n] @ seg_payload s)"

definition segment_ok :: "jpeg_segment \<Rightarrow> bool" where
  "segment_ok s \<longleftrightarrow> seg_marker s \<notin> {0xC0, 0xC2, 0xFF} \<and> length (seg_payload s) + 2 < 65536"

definition frame_header :: "u8 \<Rightarrow> u8 \<Rightarrow> nat \<Rightarrow> nat \<Rightarrow> u8 list" where
  "frame_header marker precision width height =
     [0xFF, marker, 0, 17, precision, hi8 height, lo8 height, hi8 width, lo8 width]"

definition jpeg_file :: "jpeg_segment list \<Rightarrow> u8 \<Rightarrow> u8 \<Rightarrow> nat \<Rightarrow> nat \<Rightarrow> u8 list \<Rightarrow> u8 list" where
  "jpeg_file segs marker precision width height rest =
     [0xFF, 0xD8] @ concat (map segment_bytes segs) @ frame_header marker precision width height @ rest"

lemma be16_bytes: "n < 65536 \<Longrightarrow> be16 (hi8 n) (lo8 n) = of_nat n"
proof -
  assume n: "n < 65536"
  then have d: "n div 256 < 256" by (simp add: div_less_iff_less_mult)
  have a: "unat (hi8 n) = n div 256" "unat (lo8 n) = n mod 256"
    using n by (simp_all add: hi8_def lo8_def unat_of_nat)
  have "unat (ucast (hi8 n) :: u32) = n div 256" "unat (ucast (lo8 n) :: u32) = n mod 256"
    using a d by (simp_all add: unsigned_ucast_eq take_bit_nat_eq_self)
  then have "(ucast (hi8 n) :: u32) = of_nat (n div 256)" "(ucast (lo8 n) :: u32) = of_nat (n mod 256)"
    by (metis of_nat_unat ucast_id)+
  then have "be16 (hi8 n) (lo8 n) = of_nat (n div 256 * 256 + n mod 256)"
    unfolding be16_def by (simp only: of_nat_add of_nat_mult of_nat_numeral)
  then show ?thesis by (simp only: div_mult_mod_eq)
qed

lemma skip_padding_none: "i < length data - 1 \<longrightarrow> data ! (i + 1) \<noteq> 0xFF \<Longrightarrow> skip_padding data i = i"
  by (subst skip_padding.simps) auto

text \<open>One segment is skipped.\<close>

lemma unat_u16: "n < 65536 \<Longrightarrow> unat (of_nat n :: u32) = n"
  by (simp add: unat_of_nat take_bit_nat_eq_self)

lemma jpeg_scan_segment:
  assumes ok: "segment_ok s" and rest: "9 \<le> length rest"
  shows "jpeg_scan (pre @ segment_bytes s @ rest) (length pre) =
    jpeg_scan (pre @ segment_bytes s @ rest) (length (pre @ segment_bytes s))"
proof -
  define n where "n = length (seg_payload s) + 2"
  define d where "d = pre @ segment_bytes s @ rest"
  have n: "n < 65536" "2 \<le> n" using ok by (simp_all add: segment_ok_def n_def)
  have at: "d ! (length pre) = 0xFF" "d ! (length pre + 1) = seg_marker s" "d ! (length pre + 2) = hi8 n"
    "d ! (length pre + 3) = lo8 n" and len: "length d = length pre + 2 + n + length rest"
    by (simp_all add: d_def n_def segment_bytes_def Let_def nth_append)
  have marker: "seg_marker s \<noteq> 0xC0" "seg_marker s \<noteq> 0xC2" "seg_marker s \<noteq> 0xFF"
    using ok by (simp_all add: segment_ok_def)
  have skip: "skip_padding d (length pre) = length pre"
    by (rule skip_padding_none) (use at(2) marker in simp)
  have next_at: "length (pre @ segment_bytes s) = length pre + 2 + n" by (simp add: segment_bytes_def n_def Let_def)
  have here: "length pre < length d - 8" using len rest n by simp
  have "jpeg_scan d (length pre) = jpeg_scan d (length pre + 2 + n)"
    by (subst jpeg_scan.simps) (use here at len marker n in \<open>simp add: skip be16_bytes unat_u16\<close>)
  then show ?thesis by (simp only: next_at d_def)
qed

lemma jpeg_scan_segments:
  assumes "list_all segment_ok segs" "9 \<le> length rest"
  shows "jpeg_scan (pre @ concat (map segment_bytes segs) @ rest) (length pre) =
    jpeg_scan (pre @ concat (map segment_bytes segs) @ rest) (length (pre @ concat (map segment_bytes segs)))"
  using assms
proof (induction segs arbitrary: pre)
  case (Cons s segs)
  have "jpeg_scan (pre @ segment_bytes s @ concat (map segment_bytes segs) @ rest) (length pre) =
      jpeg_scan (pre @ segment_bytes s @ concat (map segment_bytes segs) @ rest) (length (pre @ segment_bytes s))"
    by (rule jpeg_scan_segment) (use Cons.prems in auto)
  also have "\<dots> = jpeg_scan (pre @ segment_bytes s @ concat (map segment_bytes segs) @ rest)
      (length ((pre @ segment_bytes s) @ concat (map segment_bytes segs)))"
    using Cons.IH [of "pre @ segment_bytes s"] Cons.prems by simp
  finally show ?case by simp
qed simp

lemma jpeg_scan_header:
  assumes "marker \<in> {0xC0, 0xC2}" "width < 65536" "height < 65536" "rest \<noteq> []"
  shows "jpeg_scan (pre @ frame_header marker precision width height @ rest) (length pre) =
    Returns (Some (of_nat width, of_nat height))"
proof -
  define d where "d = pre @ frame_header marker precision width height @ rest"
  have at: "d ! (length pre) = 0xFF" "d ! (length pre + 1) = marker" "d ! (length pre + 5) = hi8 height"
    "d ! (length pre + 6) = lo8 height" "d ! (length pre + 7) = hi8 width" "d ! (length pre + 8) = lo8 width"
    and len: "length d = length pre + 9 + length rest"
    by (simp_all add: d_def frame_header_def nth_append)
  have pos: "0 < length rest" using assms(4) by simp
  have skip: "skip_padding d (length pre) = length pre"
    by (rule skip_padding_none) (use at(2) assms(1) in auto)
  show ?thesis
    unfolding d_def [symmetric]
    by (subst jpeg_scan.simps) (use at len pos assms(1-3) in \<open>simp add: skip be16_bytes; auto\<close>)
qed

text \<open>A PNG file: the signature, the length and name of the first chunk, and the dimensions.\<close>

definition bytes32 :: "nat \<Rightarrow> u8 list" where
  "bytes32 n = [of_nat (n div 2 ^ 24), of_nat (n div 2 ^ 16 mod 256), of_nat (n div 2 ^ 8 mod 256), of_nat (n mod 256)]"

definition png_file :: "u8 list \<Rightarrow> nat \<Rightarrow> nat \<Rightarrow> u8 list \<Rightarrow> u8 list" where
  "png_file chunk_length width height rest =
     PNG_SIGNATURE @ chunk_length @ IHDR @ bytes32 width @ bytes32 height @ rest"

lemma ucast_u8: "k < 256 \<Longrightarrow> (ucast (of_nat k :: u8) :: u32) = of_nat k"
proof -
  assume "k < 256"
  then have "unat (ucast (of_nat k :: u8) :: u32) = k" by (simp add: unsigned_ucast_eq unat_of_nat take_bit_nat_eq_self)
  then show ?thesis by (metis of_nat_unat ucast_id)
qed

lemma split_bytes: "(n :: nat) div 2 ^ 24 * 2 ^ 24 + n div 2 ^ 16 mod 256 * 2 ^ 16 + n div 2 ^ 8 mod 256 * 2 ^ 8 + n mod 256 = n"
proof -
  define a b where "a = n div 256" and "b = a div 256"
  have q: "n div 2 ^ 8 = a" "n div 2 ^ 16 = b" "n div 2 ^ 24 = b div 256"
    by (simp_all add: a_def b_def div_mult2_eq [symmetric])
  have "n = a * 256 + n mod 256" "a = b * 256 + a mod 256" "b = b div 256 * 256 + b mod 256"
    by (simp_all only: a_def b_def div_mult_mod_eq)
  then have "b div 256 * 16777216 + b mod 256 * 65536 + a mod 256 * 256 + n mod 256 = n" by linarith
  then show ?thesis unfolding q by simp
qed

lemma be32_bytes:
  assumes "n < 2 ^ 32"
  shows "be32 (of_nat (n div 2 ^ 24)) (of_nat (n div 2 ^ 16 mod 256)) (of_nat (n div 2 ^ 8 mod 256)) (of_nat (n mod 256)) = of_nat n"
proof -
  have "n div 2 ^ 24 < 256" using assms by (simp add: div_less_iff_less_mult)
  then have "be32 (of_nat (n div 2 ^ 24)) (of_nat (n div 2 ^ 16 mod 256)) (of_nat (n div 2 ^ 8 mod 256)) (of_nat (n mod 256)) =
      of_nat (n div 2 ^ 24) * 2 ^ 24 + of_nat (n div 2 ^ 16 mod 256) * 2 ^ 16 + of_nat (n div 2 ^ 8 mod 256) * 2 ^ 8 + of_nat (n mod 256)"
    unfolding be32_def by (simp only: ucast_u8 mod_less_divisor zero_less_numeral)
  also have "\<dots> = of_nat (n div 2 ^ 24 * 2 ^ 24 + n div 2 ^ 16 mod 256 * 2 ^ 16 + n div 2 ^ 8 mod 256 * 2 ^ 8 + n mod 256)"
    by (simp only: of_nat_add of_nat_mult of_nat_power of_nat_numeral)
  finally show ?thesis by (simp only: split_bytes)
qed

lemma png_found:
  assumes "length chunk_length = 4" "0 < width" "width < 2 ^ 32" "0 < height" "height < 2 ^ 32"
  shows "png_dimensions (png_file chunk_length width height rest) = Some (of_nat width, of_nat height)"
proof -
  obtain a b c d where "chunk_length = [a, b, c, d]" using assms(1) by (auto simp: length_Suc_conv eval_nat_numeral)
  moreover have "(of_nat width :: u32) \<noteq> 0" "(of_nat height :: u32) \<noteq> 0"
    using assms unat_of_nat [where 'a = 32, of width] unat_of_nat [where 'a = 32, of height] by auto
  ultimately show ?thesis
    using be32_bytes [OF assms(3)] be32_bytes [OF assms(5)]
    by (simp add: png_dimensions_def png_file_def PNG_SIGNATURE_def IHDR_def bytes32_def)
qed

section \<open>Properties\<close>

text \<open>the dimensions in a JPEG header are found. For data that starts with the JPEG magic, any segments with correct
  lengths and no fill bytes, and then a baseline or progressive frame header that is followed by at least one more byte,
  the scan returns the width and height of that header; for PNG data it returns those of the first chunk, when they are
  not zero.\<close>

theorem header_dimensions:
  assumes "list_all segment_ok segs" "marker \<in> {0xC0, 0xC2}" "width < 65536" "height < 65536" "rest \<noteq> []"
    and "length chunk_length = 4" "0 < w" "w < 2 ^ 32" "0 < h" "h < 2 ^ 32"
  shows "extract_dimensions Jpeg (jpeg_file segs marker precision width height rest) = Returns (Some (of_nat width, of_nat height)) \<and>
    extract_dimensions Png (png_file chunk_length w h rest) = Returns (Some (of_nat w, of_nat h))"
proof -
  let ?pre = "[0xFF, 0xD8] @ concat (map segment_bytes segs)" and ?h = "frame_header marker precision width height"
  have "9 \<le> length (?h @ rest)" by (simp add: frame_header_def)
  from jpeg_scan_segments [OF assms(1) this, of "[0xFF, 0xD8]"]
  have "jpeg_scan (?pre @ ?h @ rest) 2 = jpeg_scan (?pre @ ?h @ rest) (length ?pre)"
    by (simp add: numeral_2_eq_2)
  also have "\<dots> = Returns (Some (of_nat width, of_nat height))" by (rule jpeg_scan_header [OF assms(2-5)])
  finally show ?thesis
    using png_found [OF assms(6-10)]
    by (simp add: extract_dimensions_def jpeg_dimensions_def jpeg_file_def frame_header_def)
qed

theorem header_dimensions_witness:
  "extract_dimensions Jpeg (jpeg_file [\<lparr> seg_marker = 0xE0, seg_payload = [1, 2, 3] \<rparr>] 0xC0 8 640 480 [0]) =
     Returns (Some (640, 480)) \<and>
   extract_dimensions Png (png_file [0, 0, 0, 13] 1920 1080 [0]) = Returns (Some (1920, 1080))"
  using header_dimensions [of "[\<lparr> seg_marker = 0xE0, seg_payload = [1, 2, 3] \<rparr>]" "0xC0" 640 480 "[0]" "[0, 0, 0, 13]" 1920 1080 8]
  by (simp add: segment_ok_def)

text \<open>malformed image data can stop the program. The JPEG scan never panics on data whose last byte is not FF. But
  on a start-of-image marker followed by nine or more FF bytes up to the end of the data it reads past the end, so the
  alignment of a message with such an image panics.\<close>

theorem jpeg_scan_panics:
  "(\<forall>data. data \<noteq> [] \<and> last data \<noteq> 0xFF \<longrightarrow> jpeg_dimensions data \<noteq> Panic) \<and>
   (\<forall>n. 9 \<le> n \<longrightarrow> jpeg_dimensions (0xFF # 0xD8 # replicate n 0xFF) = Panic)"
proof (intro conjI allI impI)
  fix data :: "u8 list" assume "data \<noteq> [] \<and> last data \<noteq> 0xFF"
  then show "jpeg_dimensions data \<noteq> Panic" by (simp add: jpeg_dimensions_def jpeg_scan_safe)
next
  fix n :: nat assume n: "9 \<le> n"
  let ?d = "0xFF # 0xD8 # replicate n 0xFF :: u8 list"
  have ff: "?d ! k = 0xFF" if "2 \<le> k" "k < length ?d" for k
    using that by (cases k) (auto simp: nth_Cons split: nat.split)
  have "skip_padding ?d 2 + 1 = length ?d" by (rule skip_padding_all) (use n ff in auto)
  then have "jpeg_scan ?d 2 = Panic"
    by (subst jpeg_scan.simps) (use n ff [of 2] in simp)
  then show "jpeg_dimensions ?d = Panic" using n by (simp add: jpeg_dimensions_def)
qed

theorem jpeg_scan_panics_witness:
  "jpeg_dimensions [0xFF, 0xD8, 0xFF, 0xE0, 0] \<noteq> Panic \<and> jpeg_dimensions (0xFF # 0xD8 # replicate 9 0xFF) = Panic"
  using conjunct1 [OF jpeg_scan_panics, rule_format, of "[0xFF, 0xD8, 0xFF, 0xE0, 0]"]
    conjunct2 [OF jpeg_scan_panics, rule_format, of 9] by simp

end
