(* ===== verification/Aligned_Frame.thy ===== *)
theory Aligned_Frame
  imports Image_Format Text_Parsing "HOL-Library.AList"
begin

text \<open>
  The data that flows from the sources to the dataset writers: decoded messages (\<open>roboflow-core/src/message.rs\<close>), images
  and audio (\<open>roboflow-media/src/frame.rs\<close>), aligned frames and writer statistics
  (\<open>roboflow-dataset/src/formats/common/base.rs\<close>), the extraction of images from messages
  (\<open>formats/common/message_utils.rs\<close>) and the alignment configuration (\<open>formats/alignment/config.rs\<close>).
  A hash map that is iterated over is an association list with distinct keys, in the order of the iteration. The types of
  32-bit and 64-bit floating-point numbers are parameters, and so are the conversions to 32 bits. The decoded values are
  a type of the package \<open>robocodec\<close>: its constructors are those the code looks at, all others are \<open>OtherValue\<close>.
  Lengths and counters of type \<open>usize\<close> are natural numbers.
\<close>

section \<open>Messages\<close>

datatype ('f, 'd) codec_value =
    UInt8 "8 word" | UInt16 "16 word" | UInt32 "32 word" | UInt64 "64 word"
  | Int8 "8 word" | Int16 "16 word" | Int32 "32 word" | Int64 "64 word"
  | Float32 'f | Float64 'd | StringValue string | BytesValue "u8 list"
  | ArrayValue "('f, 'd) codec_value list" | StructValue "(string \<times> ('f, 'd) codec_value) list"
  | OtherValue string

record ('f, 'd) message =
  msg_topic :: string
  msg_log_time :: u64
  msg_data :: "('f, 'd) codec_value"

text \<open>Conversions to 32-bit floating point.\<close>

record ('f, 'd) to_f32 =
  f32_of_f64 :: "'d \<Rightarrow> 'f"
  f32_of_int :: "int \<Rightarrow> 'f"

fun extract_u32 :: "('f, 'd) codec_value \<Rightarrow> u32 option" where
  "extract_u32 (UInt32 n) = Some n"
| "extract_u32 (UInt64 n) = (if n \<le> 0xFFFFFFFF then Some (ucast n) else None)"
| "extract_u32 (Int32 n) = (if sint n \<ge> 0 then Some n else None)"
| "extract_u32 (Int64 n) = (if sint n \<ge> 0 \<and> sint n \<le> 0xFFFFFFFF then Some (ucast n) else None)"
| "extract_u32 _ = None"

fun codec_value_to_u8 :: "('f, 'd) codec_value \<Rightarrow> u8 option" where
  "codec_value_to_u8 (UInt8 b) = Some b"
| "codec_value_to_u8 (Int8 b) = (if sint b \<ge> 0 then Some b else None)"
| "codec_value_to_u8 (UInt16 b) = (if b \<le> 255 then Some (ucast b) else None)"
| "codec_value_to_u8 (Int16 b) = (if sint b \<ge> 0 \<and> b \<le> 255 then Some (ucast b) else None)"
| "codec_value_to_u8 (UInt32 b) = (if b \<le> 255 then Some (ucast b) else None)"
| "codec_value_to_u8 (Int32 b) = (if sint b \<ge> 0 \<and> b \<le> 255 then Some (ucast b) else None)"
| "codec_value_to_u8 (UInt64 b) = (if b \<le> 255 then Some (ucast b) else None)"
| "codec_value_to_u8 (Int64 b) = (if sint b \<ge> 0 \<and> b \<le> 255 then Some (ucast b) else None)"
| "codec_value_to_u8 _ = None"

text \<open>Inside nested arrays \<open>message_utils\<close> takes only bytes.\<close>

fun inner_value_to_u8 :: "('f, 'd) codec_value \<Rightarrow> u8 option" where
  "inner_value_to_u8 (UInt8 b) = Some b"
| "inner_value_to_u8 (Int8 b) = (if sint b \<ge> 0 then Some b else None)"
| "inner_value_to_u8 _ = None"

definition bytes_of :: "(('f, 'd) codec_value \<Rightarrow> u8 option) \<Rightarrow> ('f, 'd) codec_value list \<Rightarrow> u8 list" where
  "bytes_of f arr = List.map_filter f arr"

fun first_inner :: "(('f, 'd) codec_value \<Rightarrow> u8 option) \<Rightarrow> ('f, 'd) codec_value list \<Rightarrow> u8 list option" where
  "first_inner f [] = None"
| "first_inner f (ArrayValue inner # vs) =
     (if bytes_of f inner \<noteq> [] then Some (bytes_of f inner) else first_inner f vs)"
| "first_inner f (_ # vs) = first_inner f vs"

definition extract_image_bytes :: "(string \<times> ('f, 'd) codec_value) list \<Rightarrow> u8 list option" where
  "extract_image_bytes flds =
     (case map_of flds ''data'' of
        None \<Rightarrow> None
      | Some (BytesValue b) \<Rightarrow> Some b
      | Some (ArrayValue arr) \<Rightarrow>
          (let bytes = bytes_of codec_value_to_u8 arr
           in if bytes = [] then first_inner inner_value_to_u8 arr else Some bytes)
      | Some _ \<Rightarrow> None)"

fun is_camera_info_topic :: "('f, 'd) codec_value \<Rightarrow> bool" where
  "is_camera_info_topic (StructValue flds) \<longleftrightarrow> map_of flds ''K'' \<noteq> None \<and> map_of flds ''D'' \<noteq> None"
| "is_camera_info_topic _ \<longleftrightarrow> False"

section \<open>Images and audio\<close>

record image_data =
  im_width :: u32
  im_height :: u32
  im_data :: "u8 list"
  im_timestamp :: u64
  im_is_encoded :: bool
  im_is_depth :: bool

record image_size_error =
  sz_width :: u32
  sz_height :: u32
  sz_expected :: nat
  sz_actual :: nat

definition display_image_error :: "image_size_error \<Rightarrow> string" where
  "display_image_error e =
     ''Size mismatch: '' @ show_nat (unat (sz_width e)) @ ''x'' @ show_nat (unat (sz_height e)) @ '' expects ''
     @ show_nat (sz_expected e) @ '' bytes, got '' @ show_nat (sz_actual e)"

text \<open>The product of two 32-bit numbers and three can exceed 64 bits, where it wraps.\<close>

definition rgb_bytes :: "u32 \<Rightarrow> u32 \<Rightarrow> nat" where
  "rgb_bytes w h = (unat w * unat h * 3) mod 2 ^ 64"

definition image_raw :: "u32 \<Rightarrow> u32 \<Rightarrow> u8 list \<Rightarrow> u64 \<Rightarrow> image_data" where
  "image_raw w h data ts =
     \<lparr> im_width = w, im_height = h, im_data = data, im_timestamp = ts, im_is_encoded = False, im_is_depth = False \<rparr>"

definition image_new_rgb :: "u32 \<Rightarrow> u32 \<Rightarrow> u8 list \<Rightarrow> image_size_error + image_data" where
  "image_new_rgb w h data =
     (if length data \<noteq> rgb_bytes w h
      then Inl \<lparr> sz_width = w, sz_height = h, sz_expected = rgb_bytes w h, sz_actual = length data \<rparr>
      else Inr (image_raw w h data 0))"

definition image_new :: "u32 \<Rightarrow> u32 \<Rightarrow> u8 list \<Rightarrow> image_data" where
  "image_new w h data = image_raw w h data 0"

definition image_with_timestamp :: "u32 \<Rightarrow> u32 \<Rightarrow> u8 list \<Rightarrow> u64 \<Rightarrow> image_data" where
  "image_with_timestamp w h data ts = image_raw w h data ts"

definition image_encoded :: "u32 \<Rightarrow> u32 \<Rightarrow> u8 list \<Rightarrow> image_data" where
  "image_encoded w h data = (image_raw w h data 0)\<lparr>im_is_encoded := True\<rparr>"

definition image_depth :: "u32 \<Rightarrow> u32 \<Rightarrow> u8 list \<Rightarrow> image_data" where
  "image_depth w h data = (image_raw w h data 0)\<lparr>im_is_depth := True\<rparr>"

definition pixel_count :: "image_data \<Rightarrow> nat" where
  "pixel_count m = unat (im_width m) * unat (im_height m)"

definition rgb_size :: "image_data \<Rightarrow> nat" where
  "rgb_size m = (pixel_count m * 3) mod 2 ^ 64"

definition image_validate :: "image_data \<Rightarrow> bool" where
  "image_validate m \<longleftrightarrow> im_is_encoded m \<or> length (im_data m) = rgb_size m"

definition is_rgb :: "image_data \<Rightarrow> bool" where
  "is_rgb m \<longleftrightarrow> \<not> im_is_encoded m \<and> length (im_data m) = rgb_size m"

record 'f audio_data =
  au_samples :: "'f list"
  au_sample_rate :: u32
  au_channels :: u8
  au_timestamp :: i64

definition audio_new :: "'f list \<Rightarrow> u32 \<Rightarrow> u8 \<Rightarrow> i64 \<Rightarrow> 'f audio_data" where
  "audio_new samples rate channels ts =
     \<lparr> au_samples = samples, au_sample_rate = rate, au_channels = channels, au_timestamp = ts \<rparr>"

definition audio_validate :: "'f audio_data \<Rightarrow> bool" where
  "audio_validate a \<longleftrightarrow>
     au_sample_rate a \<noteq> 0 \<and> au_channels a \<noteq> 0 \<and> length (au_samples a) mod unat (au_channels a) = 0"

definition audio_duration :: "'f audio_data \<Rightarrow> real" where
  "audio_duration a =
     (if au_sample_rate a > 0 \<and> au_channels a > 0
      then real (length (au_samples a)) / (real (unat (au_sample_rate a)) * real (unat (au_channels a))) else 0)"

definition audio_frames :: "'f audio_data \<Rightarrow> nat" where
  "audio_frames a = (if au_channels a > 0 then length (au_samples a) div unat (au_channels a) else 0)"

section \<open>Aligned frames\<close>

record 'f aligned_frame =
  af_frame_index :: nat
  af_timestamp :: u64
  af_images :: "(string \<times> image_data) list"
  af_states :: "(string \<times> 'f list) list"
  af_actions :: "(string \<times> 'f list) list"
  af_timestamps :: "(string \<times> u64) list"
  af_audio :: "(string \<times> 'f audio_data) list"

definition aligned_frame_new :: "nat \<Rightarrow> u64 \<Rightarrow> 'f aligned_frame" where
  "aligned_frame_new index ts =
     \<lparr> af_frame_index = index, af_timestamp = ts, af_images = [], af_states = [], af_actions = [],
       af_timestamps = [], af_audio = [] \<rparr>"

definition af_add_image :: "string \<Rightarrow> image_data \<Rightarrow> 'f aligned_frame \<Rightarrow> 'f aligned_frame" where
  "af_add_image feature d f = f\<lparr>af_images := AList.update feature d (af_images f)\<rparr>"

definition af_add_state :: "string \<Rightarrow> 'f list \<Rightarrow> 'f aligned_frame \<Rightarrow> 'f aligned_frame" where
  "af_add_state feature vs f = f\<lparr>af_states := AList.update feature vs (af_states f)\<rparr>"

definition af_add_action :: "string \<Rightarrow> 'f list \<Rightarrow> 'f aligned_frame \<Rightarrow> 'f aligned_frame" where
  "af_add_action feature vs f = f\<lparr>af_actions := AList.update feature vs (af_actions f)\<rparr>"

definition af_add_timestamp :: "string \<Rightarrow> u64 \<Rightarrow> 'f aligned_frame \<Rightarrow> 'f aligned_frame" where
  "af_add_timestamp feature ts f = f\<lparr>af_timestamps := AList.update feature ts (af_timestamps f)\<rparr>"

definition af_add_audio :: "string \<Rightarrow> 'f audio_data \<Rightarrow> 'f aligned_frame \<Rightarrow> 'f aligned_frame" where
  "af_add_audio feature a f = f\<lparr>af_audio := AList.update feature a (af_audio f)\<rparr>"

definition af_is_empty :: "'f aligned_frame \<Rightarrow> bool" where
  "af_is_empty f \<longleftrightarrow> af_images f = [] \<and> af_states f = [] \<and> af_actions f = [] \<and> af_audio f = []"

definition af_timestamp_sec :: "'f aligned_frame \<Rightarrow> real" where
  "af_timestamp_sec f = real (unat (af_timestamp f)) / 10 ^ 9"

record writer_stats =
  ws_frames_written :: nat
  ws_images_encoded :: nat
  ws_state_records :: nat
  ws_output_bytes :: u64

section \<open>Alignment configuration\<close>

text \<open>The decoder configuration is handed on to the image decoders.\<close>

record 'c stream_config =
  st_fps :: u32
  st_completion_window_ns :: u64
  st_feature_requirements :: "(string \<times> nat) list"
  st_decoder_config :: "'c option"

definition interval_of :: "u32 \<Rightarrow> u64 panics" where
  "interval_of fps = (if fps = 0 then Panic else Returns (1000000000 div ucast fps))"

definition default_completion_window :: "u32 \<Rightarrow> u64 panics" where
  "default_completion_window fps = (case interval_of fps of Panic \<Rightarrow> Panic | Returns i \<Rightarrow> Returns (i * 3))"

definition stream_with_fps :: "u32 \<Rightarrow> 'c stream_config panics" where
  "stream_with_fps fps =
     (case default_completion_window fps of
        Panic \<Rightarrow> Panic
      | Returns w \<Rightarrow> Returns \<lparr> st_fps = fps, st_completion_window_ns = w, st_feature_requirements = [], st_decoder_config = None \<rparr>)"

definition frame_interval_ns :: "'c stream_config \<Rightarrow> u64 panics" where
  "frame_interval_ns c = interval_of (st_fps c)"

definition stream_with_window :: "u64 \<Rightarrow> 'c stream_config \<Rightarrow> 'c stream_config" where
  "stream_with_window w c = c\<lparr>st_completion_window_ns := w\<rparr>"

definition stream_require_feature :: "string \<Rightarrow> nat \<Rightarrow> 'c stream_config \<Rightarrow> 'c stream_config" where
  "stream_require_feature feature n c =
     c\<lparr>st_feature_requirements := AList.update feature n (st_feature_requirements c)\<rparr>"

definition stream_with_decoder :: "'c \<Rightarrow> 'c stream_config \<Rightarrow> 'c stream_config" where
  "stream_with_decoder d c = c\<lparr>st_decoder_config := Some d\<rparr>"

text \<open>A division by the interval.\<close>

definition div_by :: "u64 \<Rightarrow> u64 \<Rightarrow> u64 panics" where
  "div_by a b = (if b = 0 then Panic else Returns (a div b))"

end
