(* ===== verification/Frame_Buffer.thy ===== *)
theory Frame_Buffer
  imports Aligned_Frame
begin

text \<open>
  \<open>roboflow-dataset/src/formats/alignment\<close>: completion criteria (\<open>completion.rs\<close>), statistics (\<open>stats.rs\<close>) and the buffer
  that gathers the messages of one frame time (\<open>buffer.rs\<close>). A division by zero or an index out of bounds is a \<open>Panic\<close>.
  The image decoder that a configuration gives rise to is a parameter: a function from data and format to a decoded image
  or an error, or a panic for a configuration it rejects. Clock readings, which the code only reports, are left out.
\<close>

section \<open>Completion criteria\<close>

record completion_criteria =
  cc_features :: "(string \<times> nat) list"
  cc_min_completeness :: real

definition criteria_new :: completion_criteria where
  "criteria_new = \<lparr> cc_features = [], cc_min_completeness = 0 \<rparr>"

definition cc_require_feature :: "string \<Rightarrow> nat \<Rightarrow> completion_criteria \<Rightarrow> completion_criteria" where
  "cc_require_feature feature count c = c\<lparr>cc_features := AList.update feature count (cc_features c)\<rparr>"

definition cc_with_min_completeness :: "real \<Rightarrow> completion_criteria \<Rightarrow> completion_criteria" where
  "cc_with_min_completeness ratio c = c\<lparr>cc_min_completeness := max 0 (min ratio 1)\<rparr>"

definition cc_is_complete :: "completion_criteria \<Rightarrow> string set \<Rightarrow> bool" where
  "cc_is_complete c received \<longleftrightarrow>
     (if \<not> list_all (\<lambda>(feature, min_count). \<not> card {f \<in> received. f = feature} < min_count) (cc_features c) then False
      else if cc_features c \<noteq> [] \<and> received = {} then False
      else if cc_features c = [] \<and> received \<noteq> {} then True
      else if cc_features c = [] \<and> received = {} then False
      else True)"

definition required_feature_count :: "completion_criteria \<Rightarrow> nat" where
  "required_feature_count c = length (cc_features c)"

section \<open>Statistics\<close>

record alignment_stats =
  as_frames_processed :: nat
  as_normal_completions :: nat
  as_force_completions :: nat
  as_peak_buffer_size :: nat
  as_alignment_time_ms :: real

definition alignment_stats_new :: alignment_stats where
  "alignment_stats_new = \<lparr> as_frames_processed = 0, as_normal_completions = 0, as_force_completions = 0,
     as_peak_buffer_size = 0, as_alignment_time_ms = 0 \<rparr>"

definition record_normal_completion :: "alignment_stats \<Rightarrow> alignment_stats" where
  "record_normal_completion s =
     s\<lparr>as_normal_completions := as_normal_completions s + 1, as_frames_processed := as_frames_processed s + 1\<rparr>"

definition record_force_completion :: "alignment_stats \<Rightarrow> alignment_stats" where
  "record_force_completion s =
     s\<lparr>as_force_completions := as_force_completions s + 1, as_frames_processed := as_frames_processed s + 1\<rparr>"

definition update_peak_buffer :: "nat \<Rightarrow> alignment_stats \<Rightarrow> alignment_stats" where
  "update_peak_buffer current_size s =
     (if current_size > as_peak_buffer_size s then s\<lparr>as_peak_buffer_size := current_size\<rparr> else s)"

definition add_alignment_time :: "real \<Rightarrow> alignment_stats \<Rightarrow> alignment_stats" where
  "add_alignment_time ms s = s\<lparr>as_alignment_time_ms := as_alignment_time_ms s + ms\<rparr>"

definition completion_rate :: "alignment_stats \<Rightarrow> real" where
  "completion_rate s =
     (if as_frames_processed s > 0 then real (as_normal_completions s) / real (as_frames_processed s) else 1)"

section \<open>Partial frames\<close>

record 'f partial_frame =
  pf_timestamp :: u64
  pf_index :: nat
  pf_frame :: "'f aligned_frame"
  pf_received :: "string set"
  pf_eligible :: u64

definition partial_frame_new :: "nat \<Rightarrow> u64 \<Rightarrow> u64 \<Rightarrow> 'f partial_frame" where
  "partial_frame_new index ts eligible =
     \<lparr> pf_timestamp = ts, pf_index = index, pf_frame = aligned_frame_new index ts, pf_received = {}, pf_eligible = eligible \<rparr>"

definition pf_add_feature :: "string \<Rightarrow> 'f partial_frame \<Rightarrow> 'f partial_frame" where
  "pf_add_feature feature p = p\<lparr>pf_received := insert feature (pf_received p)\<rparr>"

definition pf_has_feature :: "string \<Rightarrow> 'f partial_frame \<Rightarrow> bool" where
  "pf_has_feature feature p \<longleftrightarrow> feature \<in> pf_received p"

definition pf_feature_count :: "'f partial_frame \<Rightarrow> nat" where
  "pf_feature_count p = card (pf_received p)"

section \<open>The buffer\<close>

record decoded_image =
  di_width :: u32
  di_height :: u32
  di_data :: "u8 list"

type_synonym decoder = "u8 list \<Rightarrow> image_format \<Rightarrow> string + decoded_image"

record ('f, 'c) frame_buffer =
  fb_active :: "'f partial_frame list"
  fb_config :: "'c stream_config"
  fb_criteria :: completion_criteria
  fb_stats :: alignment_stats
  fb_decoder :: "decoder option"
  fb_next_index :: nat
  fb_current :: u64

definition build_completion_criteria :: "'c stream_config \<Rightarrow> completion_criteria" where
  "build_completion_criteria config =
     (let criteria = fold (\<lambda>(feature, req) c. c\<lparr>cc_features := AList.update feature req (cc_features c)\<rparr>)
                       (st_feature_requirements config) criteria_new
      in if cc_features criteria = [] then criteria\<lparr>cc_min_completeness := 0.01\<rparr> else criteria)"

definition frame_buffer_with :: "('c \<Rightarrow> decoder panics) \<Rightarrow> 'c stream_config \<Rightarrow> completion_criteria \<Rightarrow> ('f, 'c) frame_buffer panics" where
  "frame_buffer_with mk config criteria =
     (case (case st_decoder_config config of None \<Rightarrow> Returns None
            | Some d \<Rightarrow> (case mk d of Panic \<Rightarrow> Panic | Returns dec \<Rightarrow> Returns (Some dec))) of
        Panic \<Rightarrow> Panic
      | Returns dec \<Rightarrow>
          Returns \<lparr> fb_active = [], fb_config = config, fb_criteria = criteria, fb_stats = alignment_stats_new,
                    fb_decoder = dec, fb_next_index = 0, fb_current = 0 \<rparr>)"

definition frame_buffer_new :: "('c \<Rightarrow> decoder panics) \<Rightarrow> 'c stream_config \<Rightarrow> ('f, 'c) frame_buffer panics" where
  "frame_buffer_new mk config = frame_buffer_with mk config (build_completion_criteria config)"

subsection \<open>Images\<close>

record extracted_image =
  xi_width :: u32
  xi_height :: u32
  xi_data :: "u8 list option"
  xi_encoded :: bool

definition extract_array_data :: "('f, 'd) codec_value list \<Rightarrow> u8 list option" where
  "extract_array_data arr =
     (let bytes = bytes_of codec_value_to_u8 arr
      in if bytes \<noteq> [] then Some bytes else first_inner codec_value_to_u8 arr)"

fun extract_data_field :: "('f, 'd) codec_value \<Rightarrow> u8 list option" where
  "extract_data_field (BytesValue b) = Some b"
| "extract_data_field (ArrayValue arr) = extract_array_data arr"
| "extract_data_field _ = None"

definition image_field :: "string \<times> ('f, 'd) codec_value \<Rightarrow> extracted_image \<Rightarrow> extracted_image" where
  "image_field kv x =
     (case kv of (key, val) \<Rightarrow>
        if key = ''width'' then (case val of UInt32 w \<Rightarrow> x\<lparr>xi_width := w\<rparr> | _ \<Rightarrow> x)
        else if key = ''height'' then (case val of UInt32 h \<Rightarrow> x\<lparr>xi_height := h\<rparr> | _ \<Rightarrow> x)
        else if key = ''data'' then x\<lparr>xi_data := extract_data_field val\<rparr>
        else if key = ''format'' then (case val of StringValue f \<Rightarrow> x\<lparr>xi_encoded := (f \<noteq> ''rgb8'')\<rparr> | _ \<Rightarrow> x)
        else x)"

definition extract_image_data :: "(string \<times> ('f, 'd) codec_value) list \<Rightarrow> extracted_image" where
  "extract_image_data msg = fold image_field msg \<lparr> xi_width = 0, xi_height = 0, xi_data = None, xi_encoded = False \<rparr>"

definition extract_image_dimensions :: "u8 list \<Rightarrow> (u32 \<times> u32) option panics" where
  "extract_image_dimensions data = extract_dimensions (from_magic_bytes data) data"

text \<open>The dimensions, the data to store and whether it is still encoded.\<close>

definition decode_image_if_needed ::
    "decoder option \<Rightarrow> u32 \<Rightarrow> u32 \<Rightarrow> u8 list \<Rightarrow> bool \<Rightarrow> (u32 \<times> u32 \<times> u8 list \<times> bool) panics" where
  "decode_image_if_needed dec width height data encoded =
     (case (if width = 0 \<and> height = 0 then extract_image_dimensions data else Returns None) of
        Panic \<Rightarrow> Panic
      | Returns dims \<Rightarrow>
          (let w = (case dims of Some (w, h) \<Rightarrow> w | None \<Rightarrow> width); h = (case dims of Some (w, h) \<Rightarrow> h | None \<Rightarrow> height)
           in Returns
             (if \<not> encoded then (w, h, data, False)
              else case dec of
                None \<Rightarrow> (w, h, data, True)
              | Some d \<Rightarrow>
                  (if from_magic_bytes data = UnknownFormat then (w, h, data, True)
                   else case d data (from_magic_bytes data) of
                          Inr img \<Rightarrow> (di_width img, di_height img, di_data img, False)
                        | Inl e \<Rightarrow> (w, h, data, True)))))"

definition process_image_data :: "decoder option \<Rightarrow> (string \<times> ('f, 'd) codec_value) list \<Rightarrow> (u32 \<times> u32 \<times> u8 list \<times> bool) option panics" where
  "process_image_data dec msg =
     (let x = extract_image_data msg
      in case xi_data x of
           None \<Rightarrow> Returns None
         | Some data \<Rightarrow>
             (case decode_image_if_needed dec (xi_width x) (xi_height x) data (xi_encoded x) of
                Panic \<Rightarrow> Panic
              | Returns img \<Rightarrow> Returns (Some img)))"

subsection \<open>States and actions\<close>

fun array_number :: "('f, 'd) to_f32 \<Rightarrow> ('f, 'd) codec_value \<Rightarrow> 'f option" where
  "array_number F (Float32 n) = Some n"
| "array_number F (Float64 n) = Some (f32_of_f64 F n)"
| "array_number F (UInt8 n) = Some (f32_of_int F (uint n))"
| "array_number F _ = None"

fun numeric_values :: "('f, 'd) to_f32 \<Rightarrow> ('f, 'd) codec_value \<Rightarrow> 'f list" where
  "numeric_values F (Float32 n) = [n]"
| "numeric_values F (Float64 n) = [f32_of_f64 F n]"
| "numeric_values F (UInt8 n) = [f32_of_int F (uint n)]"
| "numeric_values F (UInt16 n) = [f32_of_int F (uint n)]"
| "numeric_values F (UInt32 n) = [f32_of_int F (uint n)]"
| "numeric_values F (UInt64 n) = [f32_of_int F (uint n)]"
| "numeric_values F (Int8 n) = [f32_of_int F (sint n)]"
| "numeric_values F (Int16 n) = [f32_of_int F (sint n)]"
| "numeric_values F (Int32 n) = [f32_of_int F (sint n)]"
| "numeric_values F (Int64 n) = [f32_of_int F (sint n)]"
| "numeric_values F (ArrayValue arr) = List.map_filter (array_number F) arr"
| "numeric_values F _ = []"

definition extract_state_action_values :: "('f, 'd) to_f32 \<Rightarrow> (string \<times> ('f, 'd) codec_value) list \<Rightarrow> string \<Rightarrow> 'f list \<times> bool" where
  "extract_state_action_values F msg feature = (concat (map (numeric_values F \<circ> snd) msg), starts_with feature ''action.'')"

subsection \<open>Frame times\<close>

definition align_to_frame_boundary :: "'c stream_config \<Rightarrow> u64 \<Rightarrow> u64 panics" where
  "align_to_frame_boundary config ts =
     (case frame_interval_ns config of
        Panic \<Rightarrow> Panic
      | Returns interval \<Rightarrow>
          (let half_interval = saturating_add interval 1 div 2
           in case div_by (saturating_add ts half_interval) interval of
                Panic \<Rightarrow> Panic
              | Returns n \<Rightarrow> Returns (n * interval)))"

text \<open>\<open>binary_search_by_key\<close> on a list that is sorted by the key: whether the key is there, and where it is or belongs.\<close>

definition search_key :: "u64 \<Rightarrow> 'f partial_frame list \<Rightarrow> bool \<times> nat" where
  "search_key ts ps =
     (let i = length (takeWhile (\<lambda>p. pf_timestamp p < ts) ps) in (i < length ps \<and> pf_timestamp (ps ! i) = ts, i))"

text \<open>The buffer with a frame for the timestamp, and the position of that frame.\<close>

definition find_or_create_frame :: "u64 \<Rightarrow> ('f, 'c) frame_buffer \<Rightarrow> ('f, 'c) frame_buffer \<times> nat" where
  "find_or_create_frame ts b =
     (case search_key ts (fb_active b) of
        (True, i) \<Rightarrow> (b, i)
      | (False, i) \<Rightarrow>
          (b\<lparr>fb_next_index := fb_next_index b + 1,
             fb_active := take i (fb_active b)
               @ [partial_frame_new (fb_next_index b) ts (saturating_add ts (st_completion_window_ns (fb_config b)))]
               @ drop i (fb_active b)\<rparr>, i))"

subsection \<open>Completion\<close>

definition is_done :: "('f, 'c) frame_buffer \<Rightarrow> 'f partial_frame \<Rightarrow> bool" where
  "is_done b p \<longleftrightarrow> cc_is_complete (fb_criteria b) (pf_received p) \<or> fb_current b \<ge> pf_eligible p"

definition record_completion :: "completion_criteria \<Rightarrow> 'f partial_frame \<Rightarrow> alignment_stats \<Rightarrow> alignment_stats" where
  "record_completion c p s =
     (if cc_is_complete c (pf_received p) then record_normal_completion s else record_force_completion s)"

text \<open>Frames that are handed out are numbered from zero in the order they are handed out.\<close>

definition renumber :: "'f partial_frame list \<Rightarrow> 'f aligned_frame list" where
  "renumber ps = map (\<lambda>(i, p). (pf_frame p)\<lparr>af_frame_index := i\<rparr>) (enumerate 0 ps)"

definition check_completions :: "('f, 'c) frame_buffer \<Rightarrow> 'f aligned_frame list \<times> ('f, 'c) frame_buffer" where
  "check_completions b =
     (let out = rev (filter (is_done b) (fb_active b));
          keep = filter (\<lambda>p. \<not> is_done b p) (fb_active b)
      in (renumber out,
          b\<lparr>fb_active := keep,
            fb_stats := update_peak_buffer (length keep) (fold (record_completion (fb_criteria b)) out (fb_stats b))\<rparr>))"

definition fb_flush :: "('f, 'c) frame_buffer \<Rightarrow> 'f aligned_frame list \<times> ('f, 'c) frame_buffer" where
  "fb_flush b =
     (renumber (fb_active b),
      b\<lparr>fb_active := [], fb_stats := fold (record_completion (fb_criteria b)) (fb_active b) (fb_stats b)\<rparr>)"

record ('f, 'd) stamped_message =
  sm_log_time :: u64
  sm_message :: "(string \<times> ('f, 'd) codec_value) list"

text \<open>What a message adds to its frame.\<close>

definition add_image_to :: "string \<Rightarrow> u64 \<Rightarrow> (u32 \<times> u32 \<times> u8 list \<times> bool) option \<Rightarrow> 'f aligned_frame \<Rightarrow> 'f aligned_frame" where
  "add_image_to feature ts img f =
     (case img of
        None \<Rightarrow> f
      | Some (w, h, data, encoded) \<Rightarrow>
          af_add_image feature \<lparr> im_width = w, im_height = h, im_data = data, im_timestamp = ts, im_is_encoded = encoded,
            im_is_depth = False \<rparr> f)"

definition add_values_to :: "string \<Rightarrow> 'f list \<times> bool \<Rightarrow> 'f aligned_frame \<Rightarrow> 'f aligned_frame" where
  "add_values_to feature vals f =
     (case vals of (vs, is_action) \<Rightarrow>
        if vs = [] then f else if is_action then af_add_action feature vs f else af_add_state feature vs f)"

definition fb_process_message :: "('f, 'd) to_f32 \<Rightarrow> ('f, 'd) stamped_message \<Rightarrow> string \<Rightarrow> ('f, 'c) frame_buffer \<Rightarrow>
    ('f aligned_frame list \<times> ('f, 'c) frame_buffer) panics" where
  "fb_process_message F msg feature b0 =
     (let b = b0\<lparr>fb_current := sm_log_time msg\<rparr>
      in case process_image_data (fb_decoder b) (sm_message msg) of
           Panic \<Rightarrow> Panic
         | Returns img \<Rightarrow>
             (let vals = extract_state_action_values F (sm_message msg) feature
              in case align_to_frame_boundary (fb_config b) (sm_log_time msg) of
                   Panic \<Rightarrow> Panic
                 | Returns aligned_ts \<Rightarrow>
                     (case find_or_create_frame aligned_ts b of (b', i) \<Rightarrow>
                        let p = pf_add_feature feature (fb_active b' ! i);
                            frame = add_values_to feature vals (add_image_to feature (sm_log_time msg) img (pf_frame p))
                        in Returns (check_completions (b'\<lparr>fb_active := (fb_active b')[i := p\<lparr>pf_frame := frame\<rparr>]\<rparr>)))))"

text \<open>The rough size of what the buffer holds.\<close>

definition image_memory :: "image_data \<Rightarrow> nat" where
  "image_memory m = (if im_is_encoded m then length (im_data m) else rgb_bytes (im_width m) (im_height m))"

definition estimated_memory_bytes :: "('f, 'c) frame_buffer \<Rightarrow> nat" where
  "estimated_memory_bytes b =
     sum_list (map (\<lambda>p. sum_list (map (image_memory \<circ> snd) (af_images (pf_frame p)))
                        + length (af_states (pf_frame p)) * 100 + length (af_actions (pf_frame p)) * 100) (fb_active b))
     + length (fb_active b) * 64"

end
