(* ===== verification/Frame_Alignment.thy ===== *)
theory Frame_Alignment
  imports Frame_Buffer
begin

text \<open>
  \<open>formats/alignment/processor.rs\<close> and \<open>mod.rs\<close>: the aligner, which runs the frames of the buffer through a processor
  (trait \<open>FrameProcessor\<close>: a record of operations on a state of its own), and what holds of the buffer: it stays sorted
  and free of finished frames, the data of a message is kept unless it is overwritten, frame times are near the times of the messages, and every frame that
  is handed out is counted.
\<close>

section \<open>Processors\<close>

record processor_stats =
  pr_frames_processed :: nat
  pr_frames_errored :: nat
  pr_frames_skipped :: nat
  pr_time_ms :: real

definition processor_stats_new :: processor_stats where
  "processor_stats_new = \<lparr> pr_frames_processed = 0, pr_frames_errored = 0, pr_frames_skipped = 0, pr_time_ms = 0 \<rparr>"

definition pr_record_success :: "processor_stats \<Rightarrow> processor_stats" where
  "pr_record_success s = s\<lparr>pr_frames_processed := pr_frames_processed s + 1\<rparr>"

definition pr_record_error :: "processor_stats \<Rightarrow> processor_stats" where
  "pr_record_error s = s\<lparr>pr_frames_errored := pr_frames_errored s + 1\<rparr>"

definition pr_record_skip :: "processor_stats \<Rightarrow> processor_stats" where
  "pr_record_skip s = s\<lparr>pr_frames_skipped := pr_frames_skipped s + 1\<rparr>"

definition pr_add_time :: "real \<Rightarrow> processor_stats \<Rightarrow> processor_stats" where
  "pr_add_time ms s = s\<lparr>pr_time_ms := pr_time_ms s + ms\<rparr>"

definition pr_total_frames :: "processor_stats \<Rightarrow> nat" where
  "pr_total_frames s = pr_frames_processed s + pr_frames_errored s + pr_frames_skipped s"

definition pr_success_rate :: "processor_stats \<Rightarrow> real" where
  "pr_success_rate s =
     (let n = pr_total_frames s in if n > 0 then real (pr_frames_processed s) / real n else 1)"

record 'f processed_frame =
  pd_frame :: "'f aligned_frame"
  pd_task_index :: "nat option"
  pd_should_write :: bool

definition processed_new :: "'f aligned_frame \<Rightarrow> 'f processed_frame" where
  "processed_new f = \<lparr> pd_frame = f, pd_task_index = None, pd_should_write = True \<rparr>"

definition pd_with_task_index :: "nat \<Rightarrow> 'f processed_frame \<Rightarrow> 'f processed_frame" where
  "pd_with_task_index i p = p\<lparr>pd_task_index := Some i\<rparr>"

definition pd_skip :: "'f processed_frame \<Rightarrow> 'f processed_frame" where
  "pd_skip p = p\<lparr>pd_should_write := False\<rparr>"

record ('p, 'f) frame_processor =
  fp_process :: "'f aligned_frame \<Rightarrow> ('p, string, 'f processed_frame) prog"
  fp_finalize :: "('p, string, processor_stats) prog"

definition passthrough :: "(processor_stats, 'f) frame_processor" where
  "passthrough =
     \<lparr> fp_process = (\<lambda>f. bindM (modifyM pr_record_success) (\<lambda>_. ret (processed_new f))),
       fp_finalize = (\<lambda>s. (Inr s, processor_stats_new)) \<rparr>"

section \<open>The aligner\<close>

record ('p, 'f, 'c) frame_aligner =
  fa_buffer :: "('f, 'c) frame_buffer"
  fa_processor :: 'p
  fa_alignment_stats :: alignment_stats
  fa_processor_stats :: processor_stats
  fa_topic_mappings :: "(string \<times> string) list"

definition aligner_over :: "('f, 'c) frame_buffer panics \<Rightarrow> 'p \<Rightarrow> ('p, 'f, 'c) frame_aligner panics" where
  "aligner_over buf p =
     (case buf of
        Panic \<Rightarrow> Panic
      | Returns b \<Rightarrow> Returns \<lparr> fa_buffer = b, fa_processor = p, fa_alignment_stats = alignment_stats_new,
          fa_processor_stats = processor_stats_new, fa_topic_mappings = [] \<rparr>)"

definition aligner_new :: "('c \<Rightarrow> decoder panics) \<Rightarrow> 'c stream_config \<Rightarrow> 'p \<Rightarrow> ('p, 'f, 'c) frame_aligner panics" where
  "aligner_new mk config p = aligner_over (frame_buffer_new mk config) p"

definition aligner_with_criteria ::
    "('c \<Rightarrow> decoder panics) \<Rightarrow> 'c stream_config \<Rightarrow> completion_criteria \<Rightarrow> 'p \<Rightarrow> ('p, 'f, 'c) frame_aligner panics" where
  "aligner_with_criteria mk config criteria p = aligner_over (frame_buffer_with mk config criteria) p"

definition fa_with_topic_mappings :: "(string \<times> string) list \<Rightarrow> ('p, 'f, 'c) frame_aligner \<Rightarrow> ('p, 'f, 'c) frame_aligner" where
  "fa_with_topic_mappings ms a = a\<lparr>fa_topic_mappings := ms\<rparr>"

definition fa_with_topic_mapping :: "string \<Rightarrow> string \<Rightarrow> ('p, 'f, 'c) frame_aligner \<Rightarrow> ('p, 'f, 'c) frame_aligner" where
  "fa_with_topic_mapping topic feature a = a\<lparr>fa_topic_mappings := AList.update topic feature (fa_topic_mappings a)\<rparr>"

definition fa_get_feature_name :: "('p, 'f, 'c) frame_aligner \<Rightarrow> string \<Rightarrow> string" where
  "fa_get_feature_name a topic =
     (case map_of (fa_topic_mappings a) topic of
        Some mapped \<Rightarrow> mapped
      | None \<Rightarrow>
          (let s = map (\<lambda>x. if x = CHR ''/'' then CHR ''.'' else x) topic
           in if starts_with s ''.'' then trim_start_char CHR ''.'' s else s))"

fun process_completed_frames :: "('p, 'f) frame_processor \<Rightarrow> 'f aligned_frame list \<Rightarrow> ('p, 'f, 'c) frame_aligner \<Rightarrow>
    'f processed_frame list \<times> ('p, 'f, 'c) frame_aligner" where
  "process_completed_frames P [] a = ([], a)"
| "process_completed_frames P (f # fs) a =
     (case fp_process P f (fa_processor a) of
        (Inr p, s) \<Rightarrow>
          (let a' = a\<lparr>fa_processor := s,
                      fa_processor_stats := (if pd_should_write p then pr_record_success else pr_record_skip) (fa_processor_stats a)\<rparr>
           in case process_completed_frames P fs a' of (ps, a'') \<Rightarrow> (p # ps, a''))
      | (Inl e, s) \<Rightarrow>
          process_completed_frames P fs (a\<lparr>fa_processor := s, fa_processor_stats := pr_record_error (fa_processor_stats a)\<rparr>))"

definition fa_process_message :: "('p, 'f) frame_processor \<Rightarrow> ('f, 'd) to_f32 \<Rightarrow> ('f, 'd) stamped_message \<Rightarrow> string \<Rightarrow>
    ('p, 'f, 'c) frame_aligner \<Rightarrow> ('f processed_frame list \<times> ('p, 'f, 'c) frame_aligner) panics" where
  "fa_process_message P F msg feature a =
     (case fb_process_message F msg feature (fa_buffer a) of
        Panic \<Rightarrow> Panic
      | Returns (completed, b) \<Rightarrow> Returns (process_completed_frames P completed (a\<lparr>fa_buffer := b\<rparr>)))"

fun add_messages_with_features :: "('p, 'f) frame_processor \<Rightarrow> ('f, 'd) to_f32 \<Rightarrow> (string \<times> ('f, 'd) stamped_message) list \<Rightarrow>
    ('p, 'f, 'c) frame_aligner \<Rightarrow> ('f processed_frame list \<times> ('p, 'f, 'c) frame_aligner) panics" where
  "add_messages_with_features P F [] a = Returns ([], a)"
| "add_messages_with_features P F ((feature, msg) # rest) a =
     (case fa_process_message P F msg feature a of
        Panic \<Rightarrow> Panic
      | Returns (processed, a') \<Rightarrow>
          (case add_messages_with_features P F rest a' of
             Panic \<Rightarrow> Panic
           | Returns (later, a'') \<Rightarrow> Returns (processed @ later, a'')))"

definition fa_flush :: "('p, 'f) frame_processor \<Rightarrow> ('p, 'f, 'c) frame_aligner \<Rightarrow> 'f processed_frame list \<times> ('p, 'f, 'c) frame_aligner" where
  "fa_flush P a = (case fb_flush (fa_buffer a) of (completed, b) \<Rightarrow> process_completed_frames P completed (a\<lparr>fa_buffer := b\<rparr>))"

record aligner_stats =
  al_alignment :: alignment_stats
  al_processing :: processor_stats

definition fa_finalize :: "('p, 'f) frame_processor \<Rightarrow> ('p, 'f, 'c) frame_aligner \<Rightarrow> (string + aligner_stats) \<times> ('p, 'f, 'c) frame_aligner" where
  "fa_finalize P a =
     (case fp_finalize P (fa_processor a) of
        (Inl e, s) \<Rightarrow> (Inl e, a\<lparr>fa_processor := s\<rparr>)
      | (Inr st, s) \<Rightarrow> (Inr \<lparr> al_alignment = fa_alignment_stats a, al_processing = st \<rparr>, a\<lparr>fa_processor := s\<rparr>))"

section \<open>The buffer stays sorted\<close>

abbreviation stamps :: "'f partial_frame list \<Rightarrow> u64 list" where
  "stamps ps \<equiv> map pf_timestamp ps"

lemma sorted_cut:
  assumes "sorted_wrt (<) (stamps ps)"
  shows "takeWhile (\<lambda>p. pf_timestamp p < t) ps = filter (\<lambda>p. pf_timestamp p < t) ps"
    and "dropWhile (\<lambda>p. pf_timestamp p < t) ps = filter (\<lambda>p. pf_timestamp p = t) ps @ filter (\<lambda>p. pf_timestamp p > t) ps"
  using assms
proof (induction ps)
  case (Cons p ps)
  {
    case 1
    then have "filter (\<lambda>q. pf_timestamp q < t) ps = []" if "\<not> pf_timestamp p < t"
      using that by (fastforce simp: filter_empty_conv)
    then show ?case using Cons.IH(1) 1 by simp
  next
    case 2
    have later: "\<forall>q\<in>set ps. pf_timestamp p < pf_timestamp q" using 2 by simp
    consider "pf_timestamp p < t" | "pf_timestamp p = t" | "pf_timestamp p > t" by fastforce
    then show ?case
    proof cases
      case 1
      then show ?thesis using Cons.IH(2) 2 by auto
    next
      case 2
      then have "filter (\<lambda>p. pf_timestamp p = t) ps = []" "filter (\<lambda>p. pf_timestamp p > t) ps = ps"
        using later by (auto simp: filter_empty_conv filter_id_conv)
      then show ?thesis using 2 by simp
    next
      case 3
      then have "filter (\<lambda>p. pf_timestamp p = t) ps = []" "filter (\<lambda>p. pf_timestamp p > t) ps = ps"
        using later by (auto simp: filter_empty_conv filter_id_conv)
      then show ?thesis using 3 by simp
    qed
  }
qed simp_all

lemma sorted_unique:
  assumes "sorted_wrt (<) (stamps ps)"
  shows "filter (\<lambda>p. pf_timestamp p = t) ps = [] \<or> (\<exists>q. filter (\<lambda>p. pf_timestamp p = t) ps = [q])"
  using assms
proof (induction ps)
  case (Cons p ps)
  then show ?case by (cases "pf_timestamp p = t") (auto simp: filter_empty_conv)
qed simp

text \<open>The list with the frame of time \<open>t\<close> replaced by or extended with another.\<close>

definition put_at :: "u64 \<Rightarrow> 'f partial_frame \<Rightarrow> 'f partial_frame list \<Rightarrow> 'f partial_frame list" where
  "put_at t x ps = filter (\<lambda>p. pf_timestamp p < t) ps @ [x] @ filter (\<lambda>p. pf_timestamp p > t) ps"

text \<open>The frame of time \<open>t\<close>, a new one if there is none.\<close>

definition frame_at :: "u64 \<Rightarrow> ('f, 'c) frame_buffer \<Rightarrow> 'f partial_frame" where
  "frame_at t b =
     (case filter (\<lambda>p. pf_timestamp p = t) (fb_active b) of
        q # _ \<Rightarrow> q
      | [] \<Rightarrow> partial_frame_new (fb_next_index b) t (saturating_add t (st_completion_window_ns (fb_config b))))"

lemma find_or_create:
  assumes sorted: "sorted_wrt (<) (stamps (fb_active b))" and find: "find_or_create_frame t b = (b', i)"
  shows "fb_active b' ! i = frame_at t b" "(fb_active b')[i := x] = put_at t x (fb_active b)"
    and "fb_config b' = fb_config b" "fb_criteria b' = fb_criteria b" "fb_stats b' = fb_stats b" "fb_current b' = fb_current b"
    and "fb_decoder b' = fb_decoder b"
proof -
  let ?ps = "fb_active b"
  let ?low = "filter (\<lambda>p. pf_timestamp p < t) ?ps" and ?mid = "filter (\<lambda>p. pf_timestamp p = t) ?ps"
    and ?high = "filter (\<lambda>p. pf_timestamp p > t) ?ps"
  note cut = sorted_cut [OF sorted, of t]
  have ps: "?ps = ?low @ ?mid @ ?high" using takeWhile_dropWhile_id [of "\<lambda>p. pf_timestamp p < t" ?ps] by (simp add: cut)
  have take: "take (length ?low) ?ps = ?low" "drop (length ?low) ?ps = ?mid @ ?high"
    by (subst ps, simp only: append_eq_conv_conj [symmetric] append_take_drop_id take_append, simp)
       (subst ps, simp)
  have search: "search_key t ?ps = (?mid \<noteq> [], length ?low)"
  proof -
    have "length ?low < length ?ps \<and> pf_timestamp (?ps ! length ?low) = t \<longleftrightarrow> ?mid \<noteq> []"
    proof (cases ?mid)
      case Nil
      have "pf_timestamp (?ps ! length ?low) \<noteq> t" if "length ?low < length ?ps"
        using that nth_mem [OF that] Nil by (auto simp: filter_empty_conv)
      then show ?thesis using Nil by auto
    next
      case (Cons q qs)
      have "q \<in> set ?mid" unfolding Cons by simp
      then have "pf_timestamp q = t" by simp
      moreover have "?ps ! length ?low = q" "length ?low < length ?ps"
        by (subst ps, simp add: Cons nth_append) (subst (2) ps, simp add: Cons)
      ultimately show ?thesis using Cons by simp
    qed
    then show ?thesis by (simp add: search_key_def cut Let_def)
  qed
  have all: "fb_active b' ! i = frame_at t b \<and> (fb_active b')[i := x] = put_at t x ?ps \<and> fb_config b' = fb_config b \<and>
    fb_criteria b' = fb_criteria b \<and> fb_stats b' = fb_stats b \<and> fb_current b' = fb_current b \<and> fb_decoder b' = fb_decoder b"
  proof (cases ?mid)
    case Nil
    have "b' = b\<lparr>fb_next_index := fb_next_index b + 1, fb_active := ?low @ [frame_at t b] @ ?high\<rparr>" "i = length ?low"
      using find Nil by (auto simp: find_or_create_frame_def search take frame_at_def)
    then show ?thesis by (simp add: put_at_def list_update_append)
  next
    case (Cons q qs)
    then have "?mid = [q]" using sorted_unique [OF sorted, of t] by auto
    then have "?ps = ?low @ [q] @ ?high" "frame_at t b = q" using ps by (simp_all add: frame_at_def)
    moreover have "b' = b" "i = length ?low" using find Cons by (auto simp: find_or_create_frame_def search)
    ultimately show ?thesis by (metis put_at_def append_Cons append_Nil list_update_length nth_append_length)
  qed
  then show "fb_active b' ! i = frame_at t b" "(fb_active b')[i := x] = put_at t x ?ps"
    and "fb_config b' = fb_config b" "fb_criteria b' = fb_criteria b" "fb_stats b' = fb_stats b" "fb_current b' = fb_current b"
    and "fb_decoder b' = fb_decoder b" by simp_all
qed

lemma put_at_set: "set (put_at t x ps) = insert x {p \<in> set ps. pf_timestamp p \<noteq> t}"
  by (auto simp: put_at_def)

lemma put_at_sorted:
  "sorted_wrt (<) (stamps ps) \<Longrightarrow> pf_timestamp x = t \<Longrightarrow> sorted_wrt (<) (stamps (put_at t x ps))"
  by (auto simp: put_at_def sorted_wrt_append sorted_wrt_map intro: sorted_wrt_filter)

lemma frame_at_cases:
  "frame_at t b = partial_frame_new (fb_next_index b) t (saturating_add t (st_completion_window_ns (fb_config b))) \<or>
   frame_at t b \<in> set (fb_active b) \<and> pf_timestamp (frame_at t b) = t"
proof (cases "filter (\<lambda>p. pf_timestamp p = t) (fb_active b)")
  case (Cons q qs)
  have "q \<in> set (filter (\<lambda>p. pf_timestamp p = t) (fb_active b))" unfolding Cons by simp
  then have "q \<in> set (fb_active b) \<and> pf_timestamp q = t" by simp
  then show ?thesis unfolding frame_at_def Cons by simp
qed (simp add: frame_at_def)

lemma frame_at_stamp [simp]: "pf_timestamp (frame_at t b) = t"
  using frame_at_cases [of t b] by (auto simp: partial_frame_new_def)

section \<open>One message\<close>

text \<open>The frame after a message: its feature is marked as received and its data is added.\<close>

definition filled :: "('f, 'd) to_f32 \<Rightarrow> ('f, 'd) stamped_message \<Rightarrow> string \<Rightarrow> (u32 \<times> u32 \<times> u8 list \<times> bool) option \<Rightarrow>
    'f partial_frame \<Rightarrow> 'f partial_frame" where
  "filled F msg feature img q = (pf_add_feature feature q)\<lparr>pf_frame :=
     add_values_to feature (extract_state_action_values F (sm_message msg) feature)
       (add_image_to feature (sm_log_time msg) img (pf_frame q))\<rparr>"

lemma filled_simps [simp]:
  "pf_timestamp (filled F msg feature img q) = pf_timestamp q" "pf_eligible (filled F msg feature img q) = pf_eligible q"
  "pf_received (filled F msg feature img q) = insert feature (pf_received q)"
  "af_timestamp (pf_frame (filled F msg feature img q)) = af_timestamp (pf_frame q)"
  by (auto simp: filled_def pf_add_feature_def add_values_to_def add_image_to_def af_add_image_def af_add_state_def
      af_add_action_def split: option.splits prod.splits)

text \<open>A frame that is finished at a time.\<close>

definition finished :: "completion_criteria \<Rightarrow> u64 \<Rightarrow> 'f partial_frame \<Rightarrow> bool" where
  "finished c now p \<longleftrightarrow> cc_is_complete c (pf_received p) \<or> now \<ge> pf_eligible p"

lemma process_result:
  assumes sorted: "sorted_wrt (<) (stamps (fb_active b))"
    and process: "fb_process_message F msg feature b = Returns (out, b')"
  obtains t img ps where "align_to_frame_boundary (fb_config b) (sm_log_time msg) = Returns t"
    "process_image_data (fb_decoder b) (sm_message msg) = Returns img"
    "ps = put_at t (filled F msg feature img (frame_at t b)) (fb_active b)"
    "out = renumber (rev (filter (finished (fb_criteria b) (sm_log_time msg)) ps))"
    "fb_active b' = filter (\<lambda>p. \<not> finished (fb_criteria b) (sm_log_time msg) p) ps"
    "fb_config b' = fb_config b" "fb_criteria b' = fb_criteria b" "fb_decoder b' = fb_decoder b"
    "fb_stats b' = update_peak_buffer (length (fb_active b'))
       (fold (record_completion (fb_criteria b)) (rev (filter (finished (fb_criteria b) (sm_log_time msg)) ps)) (fb_stats b))"
proof -
  obtain img where img: "process_image_data (fb_decoder b) (sm_message msg) = Returns img"
    using process by (auto simp: fb_process_message_def Let_def split: panics.splits)
  obtain t where t: "align_to_frame_boundary (fb_config b) (sm_log_time msg) = Returns t"
    using process img by (auto simp: fb_process_message_def Let_def split: panics.splits)
  let ?b = "b\<lparr>fb_current := sm_log_time msg\<rparr>"
  obtain b1 i where find: "find_or_create_frame t ?b = (b1, i)" by force
  have sorted': "sorted_wrt (<) (stamps (fb_active ?b))" using sorted by simp
  have at: "frame_at t ?b = frame_at t b" by (simp add: frame_at_def cong: list.case_cong)
  let ?ps = "put_at t (filled F msg feature img (frame_at t b)) (fb_active b)"
  note found = find_or_create [OF sorted' find]
  let ?b2 = "b1\<lparr>fb_active := ?ps\<rparr>"
  have "(out, b') = check_completions ?b2"
    using process found(2) [where x = "filled F msg feature img (frame_at t b)"]
    by (simp add: fb_process_message_def img t find found(1) at filled_def Let_def pf_add_feature_def)
  moreover have "is_done ?b2 = finished (fb_criteria b) (sm_log_time msg)"
    using found(4,6) by (simp add: is_done_def finished_def fun_eq_iff)
  ultimately show ?thesis
    using that [OF t img refl] found(3-7) by (simp add: check_completions_def Let_def)
qed

section \<open>Frame times\<close>

lemma div_times: "unat (x div i * i) = unat x div unat i * unat i" for x i :: u64
proof -
  have "unat x div unat i * unat i \<le> unat x" by simp
  also have "\<dots> < 2 ^ 64" using unat_bound_u64 [of x] .
  finally show ?thesis by (subst unat_mult_lem [THEN iffD1]) (simp_all add: unat_div_distrib)
qed

lemma aligned_to:
  assumes "align_to_frame_boundary c t = Returns a"
  obtains i where "frame_interval_ns c = Returns i" "i \<noteq> 0" "a = saturating_add t (saturating_add i 1 div 2) div i * i"
  using assms by (auto simp: align_to_frame_boundary_def div_by_def Let_def split: panics.splits if_splits)

lemma interval_small: "frame_interval_ns c = Returns i \<Longrightarrow> unat i \<le> 1000000000"
proof -
  assume "frame_interval_ns c = Returns i"
  then have "i = 1000000000 div ucast (st_fps c)" by (auto simp: frame_interval_ns_def interval_of_def split: if_splits)
  then have "unat i = 1000000000 div unat (ucast (st_fps c) :: u64)" by (simp add: unat_div_distrib)
  then show ?thesis by simp
qed

lemma half_interval: "frame_interval_ns c = Returns i \<Longrightarrow> unat (saturating_add i 1 div 2) = (unat i + 1) div 2"
  using interval_small [of c i] by (simp add: saturating_add_def unat_div_distrib unat_word_ariths)

lemma on_boundary:
  assumes "align_to_frame_boundary c t = Returns a"
  shows "\<exists>i. frame_interval_ns c = Returns i \<and> i \<noteq> 0 \<and> unat a mod unat i = 0"
  using assms by (rule aligned_to) (auto simp: div_times)

section \<open>The invariant\<close>

definition frame_ok :: "'c stream_config \<Rightarrow> 'f partial_frame \<Rightarrow> bool" where
  "frame_ok c p \<longleftrightarrow>
     af_timestamp (pf_frame p) = pf_timestamp p \<and> pf_eligible p = saturating_add (pf_timestamp p) (st_completion_window_ns c) \<and>
     pf_received p \<noteq> {} \<and> (\<exists>i. frame_interval_ns c = Returns i \<and> unat (pf_timestamp p) mod unat i = 0)"

definition stats_ok :: "alignment_stats \<Rightarrow> bool" where
  "stats_ok s \<longleftrightarrow> as_frames_processed s = as_normal_completions s + as_force_completions s"

definition buffer_ok :: "('f, 'c) frame_buffer \<Rightarrow> bool" where
  "buffer_ok b \<longleftrightarrow>
     sorted_wrt (<) (stamps (fb_active b)) \<and> (\<forall>p\<in>set (fb_active b). frame_ok (fb_config b) p) \<and> stats_ok (fb_stats b)"

lemma filled_ok:
  assumes "\<forall>p\<in>set (fb_active b). frame_ok (fb_config b) p" "align_to_frame_boundary (fb_config b) (sm_log_time msg) = Returns t"
  shows "frame_ok (fb_config b) (filled F msg feature img (frame_at t b))"
  using frame_at_cases [of t b]
proof
  assume "frame_at t b = partial_frame_new (fb_next_index b) t (saturating_add t (st_completion_window_ns (fb_config b)))"
  then show ?thesis
    using on_boundary [OF assms(2)] by (auto simp: frame_ok_def partial_frame_new_def aligned_frame_new_def)
next
  assume "frame_at t b \<in> set (fb_active b) \<and> pf_timestamp (frame_at t b) = t"
  then show ?thesis using assms(1) by (auto simp: frame_ok_def)
qed

lemma record_one:
  "as_frames_processed (record_completion c p s) = as_frames_processed s + 1" "stats_ok s \<Longrightarrow> stats_ok (record_completion c p s)"
  by (simp_all add: record_completion_def record_normal_completion_def record_force_completion_def stats_ok_def)

lemma record_completions:
  "as_frames_processed (fold (record_completion c) ps s) = as_frames_processed s + length ps"
  "stats_ok s \<Longrightarrow> stats_ok (fold (record_completion c) ps s)"
  by (induction ps arbitrary: s) (simp_all add: record_one)

lemma peak_simps [simp]:
  "as_frames_processed (update_peak_buffer n s) = as_frames_processed s" "stats_ok (update_peak_buffer n s) = stats_ok s"
  by (simp_all add: update_peak_buffer_def stats_ok_def)

lemma process_ok:
  assumes ok: "buffer_ok b" and process: "fb_process_message F msg feature b = Returns (out, b')"
  shows "buffer_ok b'" "\<forall>p\<in>set (fb_active b'). \<not> finished (fb_criteria b') (sm_log_time msg) p"
    and "as_frames_processed (fb_stats b') = as_frames_processed (fb_stats b) + length out"
proof -
  have sorted: "sorted_wrt (<) (stamps (fb_active b))" and frames: "\<forall>p\<in>set (fb_active b). frame_ok (fb_config b) p"
    and stats: "stats_ok (fb_stats b)" using ok by (simp_all add: buffer_ok_def)
  from process_result [OF sorted process] obtain t img ps where
    t: "align_to_frame_boundary (fb_config b) (sm_log_time msg) = Returns t"
    and ps: "ps = put_at t (filled F msg feature img (frame_at t b)) (fb_active b)"
    and out: "out = renumber (rev (filter (finished (fb_criteria b) (sm_log_time msg)) ps))"
    and act: "fb_active b' = filter (\<lambda>p. \<not> finished (fb_criteria b) (sm_log_time msg) p) ps"
    and same: "fb_config b' = fb_config b" "fb_criteria b' = fb_criteria b"
    and st: "fb_stats b' = update_peak_buffer (length (fb_active b'))
       (fold (record_completion (fb_criteria b)) (rev (filter (finished (fb_criteria b) (sm_log_time msg)) ps)) (fb_stats b))"
    by metis
  have "sorted_wrt (<) (stamps ps)" unfolding ps using sorted by (intro put_at_sorted) simp_all
  then have "sorted_wrt (<) (stamps (fb_active b'))" by (simp add: act sorted_wrt_map sorted_wrt_filter)
  moreover have "\<forall>p\<in>set (fb_active b'). frame_ok (fb_config b') p"
    using frames filled_ok [OF frames t] by (auto simp: act same ps put_at_set)
  ultimately show "buffer_ok b'" using stats by (simp add: buffer_ok_def st record_completions)
  show "\<forall>p\<in>set (fb_active b'). \<not> finished (fb_criteria b') (sm_log_time msg) p" by (simp add: act same)
  show "as_frames_processed (fb_stats b') = as_frames_processed (fb_stats b) + length out"
    by (simp add: st record_completions out renumber_def)
qed

lemma flush_ok:
  assumes ok: "buffer_ok b" and flush: "fb_flush b = (out, b')"
  shows "buffer_ok b'" "fb_active b' = []" "as_frames_processed (fb_stats b') = as_frames_processed (fb_stats b) + length out"
  using assms by (auto simp: fb_flush_def buffer_ok_def record_completions renumber_def)

lemma new_ok: "frame_buffer_with mk config criteria = Returns b \<Longrightarrow> buffer_ok b \<and> fb_active b = [] \<and> fb_stats b = alignment_stats_new"
  by (auto simp: frame_buffer_with_def buffer_ok_def stats_ok_def alignment_stats_new_def split: panics.splits)

section \<open>Sequences of messages\<close>

fun fb_run :: "('f, 'd) to_f32 \<Rightarrow> (string \<times> ('f, 'd) stamped_message) list \<Rightarrow> ('f, 'c) frame_buffer \<Rightarrow>
    ('f aligned_frame list \<times> ('f, 'c) frame_buffer) panics" where
  "fb_run F [] b = Returns ([], b)"
| "fb_run F ((feature, msg) # rest) b =
     (case fb_process_message F msg feature b of
        Panic \<Rightarrow> Panic
      | Returns (out, b') \<Rightarrow>
          (case fb_run F rest b' of Panic \<Rightarrow> Panic | Returns (later, b'') \<Rightarrow> Returns (out @ later, b'')))"

lemma fb_run_Cons:
  assumes "fb_run F ((feature, msg) # rest) b = Returns (out, b2)"
  obtains out1 b1 out2 where "fb_process_message F msg feature b = Returns (out1, b1)" "fb_run F rest b1 = Returns (out2, b2)"
    "out = out1 @ out2"
  using assms by (auto split: panics.splits)

text \<open>A frame has the data of a message: under the feature of the message the image of the message if it has one, with the time
  of the message, and its numbers as state or action if it has any.\<close>

definition carries :: "('f, 'd) to_f32 \<Rightarrow> decoder option \<Rightarrow> string \<Rightarrow> ('f, 'd) stamped_message \<Rightarrow> 'f aligned_frame \<Rightarrow> bool" where
  "carries F dec feature msg f \<longleftrightarrow>
     (\<forall>w h data encoded. process_image_data dec (sm_message msg) = Returns (Some (w, h, data, encoded)) \<longrightarrow>
        map_of (af_images f) feature = Some \<lparr> im_width = w, im_height = h, im_data = data, im_timestamp = sm_log_time msg,
          im_is_encoded = encoded, im_is_depth = False \<rparr>) \<and>
     (case extract_state_action_values F (sm_message msg) feature of
        (vs, is_action) \<Rightarrow> vs \<noteq> [] \<longrightarrow> map_of (if is_action then af_actions f else af_states f) feature = Some vs)"

text \<open>A message of the same feature that belongs to the same frame time.\<close>

definition overwrites :: "'c stream_config \<Rightarrow> string \<Rightarrow> u64 \<Rightarrow> string \<times> ('f, 'd) stamped_message \<Rightarrow> bool" where
  "overwrites config g t x \<longleftrightarrow> fst x = g \<and> align_to_frame_boundary config (sm_log_time (snd x)) = Returns t"

lemma filled_carries:
  "process_image_data dec (sm_message msg) = Returns img \<Longrightarrow> carries F dec feature msg (pf_frame (filled F msg feature img q))"
  by (auto simp: carries_def filled_def pf_add_feature_def add_values_to_def add_image_to_def af_add_image_def af_add_state_def
      af_add_action_def update_conv' split: option.splits prod.splits)

lemma filled_keeps:
  "carries F dec g m (pf_frame q) \<Longrightarrow> feature \<noteq> g \<Longrightarrow> carries F dec g m (pf_frame (filled F msg feature img q))"
  by (auto simp: carries_def filled_def pf_add_feature_def add_values_to_def add_image_to_def af_add_image_def af_add_state_def
      af_add_action_def update_conv' split: option.splits prod.splits if_splits)

lemma renumber_mem: "p \<in> set ps \<Longrightarrow> \<exists>i. (pf_frame p)\<lparr>af_frame_index := i\<rparr> \<in> set (renumber ps)"
proof -
  assume "p \<in> set ps"
  then obtain i where i: "i < length ps" "p = ps ! i" by (auto simp: in_set_conv_nth)
  then have "renumber ps ! i = (pf_frame p)\<lparr>af_frame_index := i\<rparr>" "i < length (renumber ps)"
    by (simp_all add: renumber_def nth_enumerate_eq)
  then show ?thesis by (metis nth_mem)
qed

lemma carries_renumbered [simp]: "carries F dec g m (f\<lparr>af_frame_index := i\<rparr>) = carries F dec g m f"
  by (simp add: carries_def)

text \<open>Frames handed out by a step, or still in the buffer after it.\<close>

lemma step_keeps:
  assumes ok: "buffer_ok b" and process: "fb_process_message F msg feature b = Returns (out, b')"
  shows "p \<in> set (fb_active b) \<Longrightarrow> carries F dec g m (pf_frame p) \<Longrightarrow> \<not> overwrites (fb_config b) g (pf_timestamp p) (feature, msg) \<Longrightarrow>
      \<exists>f\<in>set out \<union> pf_frame ` set (fb_active b'). af_timestamp f = pf_timestamp p \<and> carries F dec g m f"
    and "align_to_frame_boundary (fb_config b) (sm_log_time msg) = Returns t \<Longrightarrow>
      \<exists>f\<in>set out \<union> pf_frame ` set (fb_active b'). af_timestamp f = t \<and> carries F (fb_decoder b) feature msg f"
    and "fb_config b' = fb_config b" "fb_decoder b' = fb_decoder b"
proof -
  have sorted: "sorted_wrt (<) (stamps (fb_active b))" and frames: "\<forall>p\<in>set (fb_active b). frame_ok (fb_config b) p"
    using ok by (simp_all add: buffer_ok_def)
  from process_result [OF sorted process] obtain a img ps where
    a: "align_to_frame_boundary (fb_config b) (sm_log_time msg) = Returns a"
    and img: "process_image_data (fb_decoder b) (sm_message msg) = Returns img"
    and ps: "ps = put_at a (filled F msg feature img (frame_at a b)) (fb_active b)"
    and out: "out = renumber (rev (filter (finished (fb_criteria b) (sm_log_time msg)) ps))"
    and act: "fb_active b' = filter (\<lambda>p. \<not> finished (fb_criteria b) (sm_log_time msg) p) ps"
    and same: "fb_config b' = fb_config b" "fb_decoder b' = fb_decoder b"
    by metis
  show "fb_config b' = fb_config b" "fb_decoder b' = fb_decoder b" by (fact same)+
  have new_ok: "frame_ok (fb_config b) (filled F msg feature img (frame_at a b))" by (rule filled_ok [OF frames a])
  have kept: "\<exists>f\<in>set out \<union> pf_frame ` set (fb_active b'). af_timestamp f = pf_timestamp q \<and> carries F dec g m f"
    if q: "q \<in> set ps" "carries F dec g m (pf_frame q)" for q dec g m
  proof -
    have stamp: "af_timestamp (pf_frame q) = pf_timestamp q"
      using q(1) frames new_ok by (auto simp: ps put_at_set frame_ok_def)
    show ?thesis
    proof (cases "finished (fb_criteria b) (sm_log_time msg) q")
      case True
      then obtain i where "(pf_frame q)\<lparr>af_frame_index := i\<rparr> \<in> set out"
        using renumber_mem [of q "rev (filter (finished (fb_criteria b) (sm_log_time msg)) ps)"] q(1) by (auto simp: out)
      then show ?thesis using q(2) stamp by (intro bexI [of _ "(pf_frame q)\<lparr>af_frame_index := i\<rparr>"]) auto
    next
      case False
      then have "pf_frame q \<in> pf_frame ` set (fb_active b')" using q(1) by (simp add: act)
      then show ?thesis using q(2) stamp by blast
    qed
  qed
  show "\<exists>f\<in>set out \<union> pf_frame ` set (fb_active b'). af_timestamp f = t \<and> carries F (fb_decoder b) feature msg f"
    if "align_to_frame_boundary (fb_config b) (sm_log_time msg) = Returns t"
    using kept [of "filled F msg feature img (frame_at a b)"] filled_carries [OF img] that a by (auto simp: ps put_at_set)
  show "\<exists>f\<in>set out \<union> pf_frame ` set (fb_active b'). af_timestamp f = pf_timestamp p \<and> carries F dec g m f"
    if p: "p \<in> set (fb_active b)" "carries F dec g m (pf_frame p)" "\<not> overwrites (fb_config b) g (pf_timestamp p) (feature, msg)"
  proof (cases "pf_timestamp p = a")
    case True
    with p(3) a have "feature \<noteq> g" by (simp add: overwrites_def)
    have "p \<in> set (filter (\<lambda>p. pf_timestamp p = a) (fb_active b))" using p(1) True by simp
    with sorted_unique [OF sorted, of a] have "filter (\<lambda>p. pf_timestamp p = a) (fb_active b) = [p]"
      by (metis empty_iff empty_set list.set_cases list.set_intros(1) set_ConsD)
    then have "frame_at a b = p" unfolding frame_at_def by simp
    then show ?thesis
      using kept [of "filled F msg feature img p"] filled_keeps [OF p(2) \<open>feature \<noteq> g\<close>] True by (auto simp: ps put_at_set)
  next
    case False
    then show ?thesis using kept [of p] p by (auto simp: ps put_at_set)
  qed
qed

lemma run_ok:
  "fb_run F msgs b = Returns (out, b') \<Longrightarrow> buffer_ok b \<Longrightarrow>
    buffer_ok b' \<and> as_frames_processed (fb_stats b') = as_frames_processed (fb_stats b) + length out"
proof (induction msgs arbitrary: b out)
  case (Cons x msgs)
  obtain feature msg where x: "x = (feature, msg)" by force
  obtain out1 b1 out2 where *: "fb_process_message F msg feature b = Returns (out1, b1)" "fb_run F msgs b1 = Returns (out2, b')"
    "out = out1 @ out2" using fb_run_Cons [OF Cons.prems(1) [unfolded x]] by metis
  show ?case using process_ok [OF Cons.prems(2) *(1)] Cons.IH [OF *(2)] *(3) by simp
qed simp

text \<open>What is in the buffer, or comes in with a message, is handed out or still in the buffer at the end of a run.\<close>

definition present :: "('f, 'd) to_f32 \<Rightarrow> decoder option \<Rightarrow> string \<Rightarrow> ('f, 'd) stamped_message \<Rightarrow> u64 \<Rightarrow>
    'f aligned_frame list \<Rightarrow> ('f, 'c) frame_buffer \<Rightarrow> bool" where
  "present F dec g m t out b \<longleftrightarrow> (\<exists>f\<in>set out \<union> pf_frame ` set (fb_active b). af_timestamp f = t \<and> carries F dec g m f)"

lemma run_keeps:
  assumes "fb_run F msgs b = Returns (out, b')" "buffer_ok b" "present F dec g m t [] b"
    "list_all (\<lambda>x. \<not> overwrites (fb_config b) g t x) msgs"
  shows "present F dec g m t out b'"
  using assms
proof (induction msgs arbitrary: b out)
  case (Cons x msgs)
  obtain feature msg where x: "x = (feature, msg)" by force
  obtain out1 b1 out2 where *: "fb_process_message F msg feature b = Returns (out1, b1)" "fb_run F msgs b1 = Returns (out2, b')"
    "out = out1 @ out2" using fb_run_Cons [OF Cons.prems(1) [unfolded x]] by metis
  obtain p where p: "p \<in> set (fb_active b)" "af_timestamp (pf_frame p) = t" "carries F dec g m (pf_frame p)"
    using Cons.prems(3) by (auto simp: present_def)
  have "pf_timestamp p = t" using p(1,2) Cons.prems(2) by (auto simp: buffer_ok_def frame_ok_def)
  then have "present F dec g m t out1 b1"
    using step_keeps(1) [OF Cons.prems(2) *(1) p(1,3)] Cons.prems(4) x by (simp add: present_def)
  then consider "\<exists>f\<in>set out1. af_timestamp f = t \<and> carries F dec g m f" | "present F dec g m t [] b1"
    by (auto simp: present_def)
  then show ?case
  proof cases
    case 1
    then show ?thesis by (auto simp: present_def *(3))
  next
    case 2
    then show ?thesis
      using Cons.IH [OF *(2) process_ok(1) [OF Cons.prems(2) *(1)]] Cons.prems(4) step_keeps(3) [OF Cons.prems(2) *(1)]
      by (auto simp: present_def *(3))
  qed
qed simp

lemma run_presents:
  assumes "fb_run F (pre @ (g, m) # post) b = Returns (out, b')" "buffer_ok b"
    "align_to_frame_boundary (fb_config b) (sm_log_time m) = Returns t"
    "list_all (\<lambda>x. \<not> overwrites (fb_config b) g t x) post"
  shows "present F (fb_decoder b) g m t out b'"
  using assms
proof (induction pre arbitrary: b out)
  case Nil
  obtain out1 b1 out2 where *: "fb_process_message F m g b = Returns (out1, b1)" "fb_run F post b1 = Returns (out2, b')"
    "out = out1 @ out2" using fb_run_Cons [OF Nil.prems(1) [unfolded append_Nil]] by metis
  note ok1 = process_ok(1) [OF Nil.prems(2) *(1)] and same = step_keeps(3,4) [OF Nil.prems(2) *(1)]
  have "present F (fb_decoder b) g m t out1 b1"
    using step_keeps(2) [OF Nil.prems(2) *(1), of t] Nil.prems(3) by (simp add: present_def)
  then have "(\<exists>f\<in>set out1. af_timestamp f = t \<and> carries F (fb_decoder b) g m f) \<or> present F (fb_decoder b) g m t [] b1"
    by (auto simp: present_def)
  then show ?case using run_keeps [OF *(2) ok1, of "fb_decoder b" g m t] *(3) Nil.prems(4) same by (auto simp: present_def)
next
  case (Cons x pre)
  obtain feature msg where x: "x = (feature, msg)" by force
  obtain out1 b1 out2 where *: "fb_process_message F msg feature b = Returns (out1, b1)" "fb_run F (pre @ (g, m) # post) b1 = Returns (out2, b')"
    "out = out1 @ out2" using fb_run_Cons [OF Cons.prems(1) [unfolded x append_Cons]] by metis
  note ok1 = process_ok(1) [OF Cons.prems(2) *(1)] and same = step_keeps(3,4) [OF Cons.prems(2) *(1)]
  have "present F (fb_decoder b) g m t out2 b'"
    using Cons.IH [OF *(2) ok1] Cons.prems(3,4) same by simp
  then show ?case by (auto simp: present_def *(3))
qed

lemma flush_presents:
  "present F dec g m t out b \<Longrightarrow> fb_flush b = (rest, b') \<Longrightarrow> \<exists>f\<in>set (out @ rest). af_timestamp f = t \<and> carries F dec g m f"
proof -
  assume pres: "present F dec g m t out b" and flush: "fb_flush b = (rest, b')"
  from pres consider "\<exists>f\<in>set out. af_timestamp f = t \<and> carries F dec g m f"
    | p where "p \<in> set (fb_active b)" "af_timestamp (pf_frame p) = t" "carries F dec g m (pf_frame p)"
    by (auto simp: present_def)
  then show ?thesis
  proof cases
    case 1
    then show ?thesis by auto
  next
    case (2 p)
    obtain i where "(pf_frame p)\<lparr>af_frame_index := i\<rparr> \<in> set rest"
      using renumber_mem [OF 2(1)] flush by (auto simp: fb_flush_def)
    then show ?thesis using 2 by (intro bexI [of _ "(pf_frame p)\<lparr>af_frame_index := i\<rparr>"]) simp_all
  qed
qed

section \<open>When messages are accepted\<close>

definition frames_have_length :: "'c stream_config \<Rightarrow> bool" where
  "frames_have_length c \<longleftrightarrow> 0 < unat (st_fps c) \<and> unat (st_fps c) \<le> 1000000000"

lemma align_returns: "frames_have_length c \<Longrightarrow> \<exists>a. align_to_frame_boundary c t = Returns a"
proof -
  assume r: "frames_have_length c"
  let ?i = "1000000000 div ucast (st_fps c) :: u64"
  have "unat ?i = 1000000000 div unat (st_fps c)" by (simp add: unat_div_distrib)
  moreover have "0 < 1000000000 div unat (st_fps c)" using r by (simp add: frames_have_length_def div_greater_zero_iff)
  ultimately have "?i \<noteq> 0" by auto
  moreover have "st_fps c \<noteq> 0" using r by (auto simp: frames_have_length_def)
  ultimately show ?thesis by (simp add: align_to_frame_boundary_def frame_interval_ns_def interval_of_def div_by_def Let_def)
qed

lemma process_returns:
  assumes "frames_have_length (fb_config b)" "process_image_data (fb_decoder b) (sm_message msg) \<noteq> Panic"
  shows "\<exists>out b'. fb_process_message F msg feature b = Returns (out, b')"
  using align_returns [OF assms(1), of "sm_log_time msg"] assms(2)
  by (auto simp: fb_process_message_def Let_def split: panics.splits prod.splits)

lemma run_returns:
  assumes "frames_have_length (fb_config b)" "buffer_ok b"
    "list_all (\<lambda>(_, m). process_image_data (fb_decoder b) (sm_message m) \<noteq> Panic) msgs"
  shows "\<exists>out b'. fb_run F msgs b = Returns (out, b')"
  using assms
proof (induction msgs arbitrary: b)
  case (Cons x msgs)
  obtain feature msg where x: "x = (feature, msg)" by force
  obtain out b1 where p: "fb_process_message F msg feature b = Returns (out, b1)"
    using process_returns [OF Cons.prems(1), of msg F feature] Cons.prems(3) x by auto
  obtain out' b' where "fb_run F msgs b1 = Returns (out', b')"
    using Cons.IH [of b1] Cons.prems step_keeps(3,4) [OF Cons.prems(2) p] process_ok(1) [OF Cons.prems(2) p] by auto
  then show ?case using p x by simp
qed simp

lemma settled: "fb_process_message F msg feature b = Returns (out, b') \<Longrightarrow> \<forall>p\<in>set (fb_active b'). \<not> is_done b' p"
  by (auto simp: fb_process_message_def Let_def check_completions_def is_done_def split: panics.splits prod.splits)

lemma run_settled:
  "fb_run F msgs b = Returns (out, b') \<Longrightarrow> \<forall>p\<in>set (fb_active b). \<not> is_done b p \<Longrightarrow> \<forall>p\<in>set (fb_active b'). \<not> is_done b' p"
proof (induction msgs arbitrary: b out)
  case (Cons x msgs)
  obtain feature msg where x: "x = (feature, msg)" by force
  show ?case using fb_run_Cons [OF Cons.prems(1) [unfolded x]] settled Cons.IH by metis
qed simp

section \<open>The aligner\<close>

lemma completed_frames:
  "snd (process_completed_frames P fs a) = a' \<Longrightarrow>
    pr_total_frames (fa_processor_stats a') = pr_total_frames (fa_processor_stats a) + length fs \<and>
    fa_buffer a' = fa_buffer a \<and> fa_alignment_stats a' = fa_alignment_stats a"
proof (induction fs arbitrary: a)
  case (Cons f fs)
  obtain r s where r: "fp_process P f (fa_processor a) = (r, s)" by force
  show ?case
  proof (cases r)
    case (Inl e)
    then have "snd (process_completed_frames P fs
        (a\<lparr>fa_processor := s, fa_processor_stats := pr_record_error (fa_processor_stats a)\<rparr>)) = a'"
      using Cons.prems r by simp
    from Cons.IH [OF this] show ?thesis by (simp add: pr_total_frames_def pr_record_error_def)
  next
    case (Inr p)
    let ?a = "a\<lparr>fa_processor := s,
      fa_processor_stats := (if pd_should_write p then pr_record_success else pr_record_skip) (fa_processor_stats a)\<rparr>"
    have "snd (process_completed_frames P fs ?a) = a'"
      using Cons.prems r Inr by (cases "process_completed_frames P fs ?a") (simp add: Let_def)
    from Cons.IH [OF this] show ?thesis by (simp add: pr_total_frames_def pr_record_success_def pr_record_skip_def)
  qed
qed simp

lemma aligner_step:
  assumes "fa_process_message P F msg feature a = Returns (ps, a')" "buffer_ok (fa_buffer a)"
    "pr_total_frames (fa_processor_stats a) = as_frames_processed (fb_stats (fa_buffer a))"
  shows "buffer_ok (fa_buffer a') \<and> pr_total_frames (fa_processor_stats a') = as_frames_processed (fb_stats (fa_buffer a')) \<and>
    fa_alignment_stats a' = fa_alignment_stats a"
proof -
  obtain out b where p: "fb_process_message F msg feature (fa_buffer a) = Returns (out, b)"
    "process_completed_frames P out (a\<lparr>fa_buffer := b\<rparr>) = (ps, a')"
    using assms(1) by (auto simp: fa_process_message_def split: panics.splits)
  show ?thesis
    using completed_frames [of P out "a\<lparr>fa_buffer := b\<rparr>" a'] p(2) process_ok [OF assms(2) p(1)] assms(3) by simp
qed

lemma aligner_run:
  "add_messages_with_features P F msgs a = Returns (ps, a') \<Longrightarrow> buffer_ok (fa_buffer a) \<Longrightarrow>
   pr_total_frames (fa_processor_stats a) = as_frames_processed (fb_stats (fa_buffer a)) \<Longrightarrow>
   buffer_ok (fa_buffer a') \<and> pr_total_frames (fa_processor_stats a') = as_frames_processed (fb_stats (fa_buffer a')) \<and>
    fa_alignment_stats a' = fa_alignment_stats a"
proof (induction msgs arbitrary: a ps)
  case (Cons x msgs)
  obtain feature msg where x: "x = (feature, msg)" by force
  obtain p1 a1 p2 where *: "fa_process_message P F msg feature a = Returns (p1, a1)" "add_messages_with_features P F msgs a1 = Returns (p2, a')"
    using Cons.prems(1) x by (auto split: panics.splits)
  show ?case using aligner_step [OF *(1) Cons.prems(2,3)] Cons.IH [OF *(2)] by simp
qed simp

text \<open>Three messages on one of two required features; the last one comes after the windows of the first two.\<close>

definition align_config :: "unit stream_config" where
  "align_config = \<lparr> st_fps = 30, st_completion_window_ns = 99999999, st_feature_requirements = [], st_decoder_config = None \<rparr>"

definition align_criteria :: completion_criteria where
  "align_criteria = cc_require_feature ''b'' 1 (cc_require_feature ''a'' 1 criteria_new)"

definition align_message :: "u64 \<Rightarrow> string \<times> (int, unit) stamped_message" where
  "align_message t = (''a'', \<lparr> sm_log_time = t, sm_message = [(''x'', Int32 7)] \<rparr>)"

definition align_to_f32 :: "(int, unit) to_f32" where
  "align_to_f32 = \<lparr> f32_of_f64 = (\<lambda>_. 0), f32_of_int = (\<lambda>i. i) \<rparr>"

definition align_buffer :: "(int, unit) frame_buffer" where
  "align_buffer = \<lparr> fb_active = [], fb_config = align_config, fb_criteria = align_criteria, fb_stats = alignment_stats_new,
     fb_decoder = None, fb_next_index = 0, fb_current = 0 \<rparr>"

lemma align_new: "frame_buffer_with (\<lambda>_. Panic) align_config align_criteria = Returns align_buffer"
  by (simp add: frame_buffer_with_def align_buffer_def align_config_def)

lemma align_safe:
  "frames_have_length align_config"
  "process_image_data (fb_decoder align_buffer) (sm_message (snd (align_message t))) \<noteq> Panic"
  by (simp_all add: frames_have_length_def align_config_def align_message_def process_image_data_def extract_image_data_def
      image_field_def)

lemmas align_eval = align_config_def align_message_def align_to_f32_def align_buffer_def align_criteria_def
  fb_process_message_def process_image_data_def extract_image_data_def image_field_def extract_state_action_values_def
  align_to_frame_boundary_def frame_interval_ns_def interval_of_def div_by_def saturating_add_def find_or_create_frame_def
  search_key_def check_completions_def is_done_def cc_is_complete_def renumber_def partial_frame_new_def aligned_frame_new_def
  pf_add_feature_def add_image_to_def add_values_to_def af_add_state_def af_add_action_def starts_with_def cc_require_feature_def
  criteria_new_def update_peak_buffer_def record_completion_def record_normal_completion_def record_force_completion_def
  alignment_stats_new_def

text \<open>A buffer with two frames that wait for the second feature.\<close>

definition waiting_frame :: "u64 \<Rightarrow> int partial_frame" where
  "waiting_frame t = pf_add_feature ''a'' (partial_frame_new 0 t (saturating_add t 99999999))"

definition align_waiting :: "(int, unit) frame_buffer" where
  "align_waiting = align_buffer\<lparr>fb_active := [waiting_frame 0, waiting_frame 33333333], fb_next_index := 2\<rparr>"

lemma align_waiting_ok: "buffer_ok align_waiting"
  by (simp add: buffer_ok_def align_waiting_def waiting_frame_def frame_ok_def stats_ok_def align_eval)

lemma align_late:
  "\<exists>out b. fb_process_message align_to_f32 (snd (align_message 200000000)) ''a'' align_waiting = Returns (out, b) \<and>
    map af_timestamp out = [33333333, 0]"
  by (simp add: align_waiting_def waiting_frame_def align_eval)

section \<open>Properties\<close>

text \<open>C31: the alignment buffer. From a new buffer, any messages leave it sorted by frame time, with at most one frame for a
  time, each of them on a frame boundary, with something received, open until the completion window after its time has
  passed, and none of them complete or past its window; the statistics count every frame that was handed out, as
  complete or as forced.\<close>

theorem buffer_invariant:
  assumes "frame_buffer_with mk config criteria = Returns b0" "fb_run F msgs b0 = Returns (out, b)"
  shows "buffer_ok b \<and> (\<forall>p\<in>set (fb_active b). \<not> is_done b p) \<and> as_frames_processed (fb_stats b) = length out"
  using new_ok [OF assms(1)] run_ok [OF assms(2)] run_settled [OF assms(2)] by (simp add: alignment_stats_new_def)

theorem buffer_invariant_witness:
  "\<exists>out b. fb_run align_to_f32 [align_message 0, align_message 40000000] align_buffer = Returns (out, b) \<and> buffer_ok b \<and>
    as_frames_processed (fb_stats b) = length out"
proof -
  obtain out b where run: "fb_run align_to_f32 [align_message 0, align_message 40000000] align_buffer = Returns (out, b)"
    using run_returns [of align_buffer "[align_message 0, align_message 40000000]" align_to_f32] align_safe new_ok [OF align_new]
    by (auto simp: align_buffer_def align_message_def)
  then show ?thesis using buffer_invariant [OF align_new run] by blast
qed

text \<open>C30: the data of a message is kept unless it is overwritten. From a new buffer with a frame rate between one and a billion,
  messages whose image data does not make the header scan panic are all accepted. After the buffer has been flushed, for each
  of them there is a frame among those that were handed out that has the frame time \<open>align_to_frame_boundary\<close> computes for it and
  under its feature exactly its own image and its own numbers as state or action, if it has any, unless a later message of
  the same feature belongs to the same frame time.\<close>

theorem message_data_kept:
  assumes new: "frame_buffer_with mk config criteria = Returns b0" and rate: "frames_have_length config"
    and safe: "list_all (\<lambda>(_, m). process_image_data (fb_decoder b0) (sm_message m) \<noteq> Panic) msgs"
  shows "\<exists>out b rest b'. fb_run F msgs b0 = Returns (out, b) \<and> fb_flush b = (rest, b') \<and> fb_active b' = [] \<and>
    (\<forall>pre g m post. msgs = pre @ (g, m) # post \<longrightarrow>
       (\<exists>t. align_to_frame_boundary config (sm_log_time m) = Returns t \<and>
          (list_ex (overwrites config g t) post \<or>
           list_ex (\<lambda>f. af_timestamp f = t \<and> carries F (fb_decoder b0) g m f) (out @ rest))))"
proof -
  have config: "fb_config b0 = config" using new by (auto simp: frame_buffer_with_def split: panics.splits)
  have ok: "buffer_ok b0" using new_ok [OF new] by simp
  obtain out b where run: "fb_run F msgs b0 = Returns (out, b)" using run_returns [OF _ ok safe, where F = F] rate config by auto
  obtain rest b' where flush: "fb_flush b = (rest, b')" by force
  have "\<exists>t. align_to_frame_boundary config (sm_log_time m) = Returns t \<and>
      (list_ex (overwrites config g t) post \<or>
       list_ex (\<lambda>f. af_timestamp f = t \<and> carries F (fb_decoder b0) g m f) (out @ rest))" if msgs: "msgs = pre @ (g, m) # post" for pre g m post
  proof -
    obtain t where t: "align_to_frame_boundary config (sm_log_time m) = Returns t" using align_returns [OF rate] by blast
    show ?thesis
    proof (cases "list_ex (overwrites config g t) post")
      case False
      then have "list_all (\<lambda>x. \<not> overwrites (fb_config b0) g t x) post" by (simp add: config list_all_iff list_ex_iff)
      from flush_presents [OF run_presents [OF run [unfolded msgs] ok _ this] flush] t config show ?thesis
        by (auto simp: list_ex_iff)
    qed (use t in blast)
  qed
  then show ?thesis using run flush flush_ok(2) [OF _ flush] run_ok [OF run ok] by blast
qed

theorem message_data_kept_witness:
  "\<exists>out b rest b'. fb_run align_to_f32 [align_message 0, align_message 40000000] align_buffer = Returns (out, b) \<and>
    fb_flush b = (rest, b') \<and> (\<exists>f\<in>set (out @ rest). af_timestamp f = 33333333 \<and> map_of (af_states f) ''a'' = Some [7])"
proof -
  have safe: "list_all (\<lambda>(_, m). process_image_data (fb_decoder align_buffer) (sm_message m) \<noteq> Panic)
      [align_message 0, align_message 40000000]"
    using align_safe(2) by (simp add: align_message_def)
  have t: "align_to_frame_boundary align_config 40000000 = Returns 33333333" by (simp add: align_eval)
  have c: "map_of (af_states f) ''a'' = Some [7]"
    if "carries align_to_f32 dec ''a'' \<lparr> sm_log_time = x, sm_message = [(''x'', Int32 7)] \<rparr> f" for dec f x
    using that by (simp add: carries_def extract_state_action_values_def align_to_f32_def starts_with_def)
  from message_data_kept [OF align_new align_safe(1) safe, where F = align_to_f32] obtain out b rest b' where
    run: "fb_run align_to_f32 [align_message 0, align_message 40000000] align_buffer = Returns (out, b)" "fb_flush b = (rest, b')"
    and kept: "\<forall>pre g m post. [align_message 0, align_message 40000000] = pre @ (g, m) # post \<longrightarrow>
       (\<exists>t. align_to_frame_boundary align_config (sm_log_time m) = Returns t \<and>
          (list_ex (overwrites align_config g t) post \<or>
           list_ex (\<lambda>f. af_timestamp f = t \<and> carries align_to_f32 (fb_decoder align_buffer) g m f) (out @ rest)))"
    by blast
  from kept [rule_format, of "[align_message 0]" "''a''" "\<lparr> sm_log_time = 40000000, sm_message = [(''x'', Int32 7)] \<rparr>" "[]"]
  obtain f where "f \<in> set (out @ rest)" "af_timestamp f = 33333333" "map_of (af_states f) ''a'' = Some [7]"
    using t c by (auto simp: align_message_def list_ex_iff)
  with run show ?thesis by blast
qed

text \<open>C40: frame times. When the interval is not zero and the end of the 64-bit range is not near, the frame time of a
  message is a multiple of the interval that is at most half an interval, rounded up, away from the message. Because half of an odd
  interval is rounded up, at 30 frames per second a message at 16,666,666 ns is put into frame 1 although frame 0 is
  nearer.\<close>

theorem frame_time_bounds:
  assumes i: "frame_interval_ns c = Returns i" "i \<noteq> 0" and t: "unat t + (unat i + 1) div 2 < 2 ^ 64"
  shows "(\<exists>a. align_to_frame_boundary c t = Returns a \<and> unat i dvd unat a \<and>
      \<bar>int (unat a) - int (unat t)\<bar> \<le> (int (unat i) + 1) div 2) \<and>
    align_to_frame_boundary (c\<lparr>st_fps := 30\<rparr>) 16666666 = Returns 33333333"
proof -
  let ?h = "(unat i + 1) div 2" let ?x = "saturating_add t (saturating_add i 1 div 2)"
  have x: "unat ?x = unat t + ?h"
    using t half_interval [OF i(1)] by (simp add: saturating_add_def unat_word_ariths)
  have a: "align_to_frame_boundary c t = Returns (?x div i * i)"
    using i by (simp add: align_to_frame_boundary_def div_by_def Let_def)
  have pos: "0 < unat i" using i(2) by (simp add: unat_gt_0)
  have "unat (?x div i * i) \<le> unat t + ?h" "unat t + ?h < unat (?x div i * i) + unat i"
    unfolding div_times x using div_mult_mod_eq [of "unat t + ?h" "unat i"] mod_less_divisor [OF pos, of "unat t + ?h"] by linarith+
  then have "\<bar>int (unat (?x div i * i)) - int (unat t)\<bar> \<le> (int (unat i) + 1) div 2" by linarith
  then have "\<exists>a. align_to_frame_boundary c t = Returns a \<and> unat i dvd unat a \<and>
      \<bar>int (unat a) - int (unat t)\<bar> \<le> (int (unat i) + 1) div 2" using a by (auto intro!: exI [of _ "?x div i * i"] simp only: div_times dvd_triv_right)
  moreover have "align_to_frame_boundary (c\<lparr>st_fps := 30\<rparr>) 16666666 = Returns 33333333"
    by (simp add: align_to_frame_boundary_def frame_interval_ns_def interval_of_def div_by_def saturating_add_def)
  ultimately show ?thesis by (rule conjI)
qed

theorem frame_time_bounds_witness:
  "(\<exists>a. align_to_frame_boundary align_config 40000000 = Returns a \<and> \<bar>int (unat a) - 40000000\<bar> \<le> 16666667) \<and>
    align_to_frame_boundary align_config 16666666 = Returns 33333333"
proof -
  have i: "frame_interval_ns align_config = Returns 33333333"
    by (simp add: align_config_def frame_interval_ns_def interval_of_def)
  have c: "align_config\<lparr>st_fps := 30\<rparr> = align_config" by (simp add: align_config_def)
  show ?thesis using frame_time_bounds [OF i, of 40000000] c by auto
qed

text \<open>the order of frames. When a message completes several frames, they are handed out newest first and numbered
  from zero in that order, in every call again, so neither the order nor the numbers of the frames follow the time.\<close>

theorem newest_frame_first:
  assumes "buffer_ok b" "fb_process_message F msg feature b = Returns (out, b')"
  shows "sorted_wrt (>) (map af_timestamp out) \<and> map af_frame_index out = [0..<length out]"
proof -
  have sorted: "sorted_wrt (<) (stamps (fb_active b))" and frames: "\<forall>p\<in>set (fb_active b). frame_ok (fb_config b) p"
    using assms(1) by (simp_all add: buffer_ok_def)
  from process_result [OF sorted assms(2)] obtain t img ps where
    t: "align_to_frame_boundary (fb_config b) (sm_log_time msg) = Returns t"
    and ps: "ps = put_at t (filled F msg feature img (frame_at t b)) (fb_active b)"
    and out: "out = renumber (rev (filter (finished (fb_criteria b) (sm_log_time msg)) ps))" by metis
  let ?qs = "filter (finished (fb_criteria b) (sm_log_time msg)) ps"
  have stamp: "af_timestamp (pf_frame p) = pf_timestamp p" if "p \<in> set ps" for p
    using that frames filled_ok [OF frames t] by (auto simp: ps put_at_set frame_ok_def)
  have "sorted_wrt (<) (stamps ps)" unfolding ps using sorted by (intro put_at_sorted) simp_all
  then have "sorted_wrt (<) (stamps ?qs)" by (simp add: sorted_wrt_map sorted_wrt_filter)
  then have "sorted_wrt (>) (stamps (rev ?qs))" by (simp add: rev_map [symmetric] sorted_wrt_rev)
  moreover have "map af_timestamp out = stamps (rev ?qs)"
    unfolding out renumber_def using stamp by (auto intro!: nth_equalityI simp: nth_enumerate_eq rev_nth)
       (metis (no_types, lifting) filter_is_subset in_mono length_rev nth_mem rev_nth set_rev)
  moreover have "map af_frame_index out = [0..<length out]"
    unfolding out renumber_def by (auto intro!: nth_equalityI simp: nth_enumerate_eq)
  ultimately show ?thesis by simp
qed

theorem newest_frame_first_witness:
  "\<exists>out b. fb_process_message align_to_f32 (snd (align_message 200000000)) ''a'' align_waiting = Returns (out, b) \<and>
    map af_timestamp out = [33333333, 0] \<and> map af_frame_index out = [0, 1]"
proof -
  obtain out b where late: "fb_process_message align_to_f32 (snd (align_message 200000000)) ''a'' align_waiting = Returns (out, b)"
    "map af_timestamp out = [33333333, 0]" using align_late by (elim exE conjE)
  have "length out = 2" using arg_cong [OF late(2), of length] by simp
  then show ?thesis using newest_frame_first [OF align_waiting_ok late(1)] late by (simp add: numeral_2_eq_2)
qed

text \<open>the statistics of the aligner. For every processor, whatever it does with a frame, the frames it got are counted as
  processed, skipped or failed, as many as the buffer handed out; but the alignment statistics that \<open>finalize\<close> reports
  are those of a new aligner, whatever happened.\<close>

theorem aligner_reports:
  assumes new: "aligner_with_criteria mk config criteria p0 = Returns a0"
    and run: "add_messages_with_features P F msgs a0 = Returns (ps, a)" and fin: "fa_finalize P (snd (fa_flush P a)) = (Inr st, a')"
  shows "pr_total_frames (fa_processor_stats a') = as_frames_processed (fb_stats (fa_buffer a')) \<and>
    al_alignment st = alignment_stats_new"
proof -
  have a0: "buffer_ok (fa_buffer a0)" "fa_processor_stats a0 = processor_stats_new" "fa_alignment_stats a0 = alignment_stats_new"
    "fb_stats (fa_buffer a0) = alignment_stats_new"
    using new by (auto simp: aligner_with_criteria_def aligner_over_def dest: new_ok split: panics.splits)
  have r: "buffer_ok (fa_buffer a)" "pr_total_frames (fa_processor_stats a) = as_frames_processed (fb_stats (fa_buffer a))"
    "fa_alignment_stats a = alignment_stats_new"
    using aligner_run [OF run a0(1)] a0 by (simp_all add: pr_total_frames_def processor_stats_new_def alignment_stats_new_def)
  obtain out b where flush: "fb_flush (fa_buffer a) = (out, b)" by force
  let ?a1 = "snd (fa_flush P a)"
  have "snd (process_completed_frames P out (a\<lparr>fa_buffer := b\<rparr>)) = ?a1" by (simp add: fa_flush_def flush)
  note done1 = completed_frames [OF this] and fl = flush_ok(3) [OF r(1) flush]
  have fin': "fa_processor_stats a' = fa_processor_stats ?a1" "fa_buffer a' = fa_buffer ?a1" "al_alignment st = fa_alignment_stats ?a1"
    using fin by (auto simp: fa_finalize_def split: prod.splits sum.splits)
  show ?thesis using done1 fl r(2,3) fin' by simp
qed

theorem aligner_reports_witness:
  "\<exists>a0 ps a st a'. aligner_with_criteria (\<lambda>_. Panic) align_config align_criteria processor_stats_new = Returns a0 \<and>
    add_messages_with_features passthrough align_to_f32 [align_message 0] a0 = Returns (ps, a) \<and>
    fa_finalize passthrough (snd (fa_flush passthrough a)) = (Inr st, a') \<and> al_alignment st = alignment_stats_new"
proof -
  obtain a0 where new: "aligner_with_criteria (\<lambda>_. Panic) align_config align_criteria processor_stats_new = Returns a0"
    "fa_buffer a0 = align_buffer"
    by (simp add: aligner_with_criteria_def aligner_over_def align_new)
  obtain out b where p: "fb_process_message align_to_f32 (snd (align_message 0)) ''a'' align_buffer = Returns (out, b)"
    using process_returns [of align_buffer "snd (align_message 0)" align_to_f32 "''a''"] align_safe by (auto simp: align_buffer_def)
  have m: "align_message 0 = (''a'', snd (align_message 0))" by (simp add: align_message_def)
  obtain ps a where step: "process_completed_frames passthrough out (a0\<lparr>fa_buffer := b\<rparr>) = (ps, a)" by force
  have run: "add_messages_with_features passthrough align_to_f32 [align_message 0] a0 = Returns (ps, a)"
    by (subst m) (simp add: fa_process_message_def new(2) p step)
  obtain st a' where fin: "fa_finalize passthrough (snd (fa_flush passthrough a)) = (Inr st, a')"
    by (simp add: fa_finalize_def passthrough_def)
  show ?thesis using aligner_reports [OF new(1) run fin] new(1) run fin by blast
qed

end
