(* ===== verification/Lerobot_Table.thy ===== *)
theory Lerobot_Table
  imports Aligned_Frame
begin

text \<open>
  The rows and statistics of an episode: \<open>LerobotFrame\<close> (\<open>formats/lerobot/writer/frame.rs\<close>), its construction from an aligned
  frame (\<open>writer/writer_impl.rs\<close>), the columns of the Parquet file (\<open>writer/parquet.rs\<close>) and the statistics of its
  features (\<open>formats/common/parquet_base.rs\<close>, \<open>writer/stats.rs\<close>). Creating the file from the columns is done by the package
  \<open>polars\<close>, which accepts columns of one length with distinct names. The 32-bit floats of the statistics are real
  numbers; an infinity, which the code starts its minima and maxima with, is \<open>None\<close>.
\<close>

section \<open>Rows\<close>

record 'f lerobot_frame =
  lf_episode_index :: nat
  lf_frame_index :: nat
  lf_index :: nat
  lf_timestamp :: real
  lf_observation_state :: "'f list option"
  lf_action :: "'f list option"
  lf_task_index :: "nat option"
  lf_image_frames :: "(string \<times> string \<times> real) list"

definition episode_file :: "nat \<Rightarrow> string" where
  "episode_file episode = ''episode_'' @ pad_zero 6 (show_nat episode)"

definition chunk_name :: "nat \<Rightarrow> string" where
  "chunk_name chunk = ''chunk-'' @ pad_zero 3 (show_nat chunk)"

definition lr_video_path :: "nat \<Rightarrow> string \<Rightarrow> nat \<Rightarrow> string" where
  "lr_video_path chunk camera episode = ''videos/'' @ chunk_name chunk @ ''/'' @ camera @ ''/'' @ episode_file episode @ ''.mp4''"

definition from_aligned_frame :: "'f aligned_frame \<Rightarrow> nat \<Rightarrow> 'f lerobot_frame" where
  "from_aligned_frame f episode =
     \<lparr> lf_episode_index = episode, lf_frame_index = af_frame_index f, lf_index = af_frame_index f,
       lf_timestamp = af_timestamp_sec f,
       lf_observation_state = map_option snd (find (\<lambda>(k, _). str_contains k ''observation'' \<or> str_contains k ''state'') (af_states f)),
       lf_action = (case af_actions f of [] \<Rightarrow> None | (_, v) # _ \<Rightarrow> Some v),
       lf_task_index = None,
       lf_image_frames = map (\<lambda>(camera, _). (camera, lr_video_path 0 camera episode, af_timestamp_sec f)) (af_images f) \<rparr>"

section \<open>Columns\<close>

datatype 'f column = IntColumn "int list" | TimeColumn "real list" | FloatColumn "'f list" | TextColumn "string list"

type_synonym 'f table = "(string \<times> 'f column) list"

fun column_length :: "'f column \<Rightarrow> nat" where
  "column_length (IntColumn xs) = length xs"
| "column_length (TimeColumn xs) = length xs"
| "column_length (FloatColumn xs) = length xs"
| "column_length (TextColumn xs) = length xs"

definition DEFAULT_ACTION_DIMENSION :: nat where
  "DEFAULT_ACTION_DIMENSION = 14"

text \<open>The cameras in the order in which the frames name them first.\<close>

definition cameras_of :: "'f lerobot_frame list \<Rightarrow> string list" where
  "cameras_of frames =
     fold (\<lambda>camera cs. if camera \<in> set cs then cs else cs @ [camera]) (concat (map (map fst \<circ> lf_image_frames) frames)) []"

text \<open>States and actions are carried forward from the frame before; before the first one, zeros are used.\<close>

fun fill_forward :: "'f list \<Rightarrow> 'f list option \<Rightarrow> 'f list option list \<Rightarrow> 'f list list" where
  "fill_forward zeros prev [] = []"
| "fill_forward zeros prev (Some v # vs) = v # fill_forward zeros (Some v) vs"
| "fill_forward zeros prev (None # vs) = (case prev of Some v \<Rightarrow> v | None \<Rightarrow> zeros) # fill_forward zeros prev vs"

definition state_dimension :: "'f lerobot_frame list \<Rightarrow> nat option" where
  "state_dimension frames = (case List.map_filter lf_observation_state frames of [] \<Rightarrow> None | v # _ \<Rightarrow> Some (length v))"

definition action_dimension :: "'f list list \<Rightarrow> nat" where
  "action_dimension actions = (case find (\<lambda>v. v \<noteq> []) actions of Some v \<Rightarrow> length v | None \<Rightarrow> 14)"

definition vector_columns :: "string \<Rightarrow> nat \<Rightarrow> ('f::zero) list list \<Rightarrow> 'f table" where
  "vector_columns name d rows =
     map (\<lambda>i. (name @ show_nat i, FloatColumn (map (\<lambda>v. if i < length v then v ! i else 0) rows))) [0..<d]"

definition camera_columns :: "nat \<Rightarrow> nat \<Rightarrow> 'f lerobot_frame list \<Rightarrow> string \<Rightarrow> 'f table" where
  "camera_columns chunk episode frames camera =
     [(camera @ ''_path'', TextColumn (map (\<lambda>f.
         case map_of (lf_image_frames f) camera of Some (path, ts) \<Rightarrow> path | None \<Rightarrow> lr_video_path chunk camera episode) frames)),
      (camera @ ''_timestamp'', TimeColumn (map (\<lambda>f.
         case map_of (lf_image_frames f) camera of Some (path, ts) \<Rightarrow> ts | None \<Rightarrow> lf_timestamp f) frames))]"

definition frame_columns :: "nat \<Rightarrow> nat \<Rightarrow> string list \<Rightarrow> 'f lerobot_frame list \<Rightarrow> nat \<Rightarrow> ('f::zero) list list \<Rightarrow> 'f list list \<Rightarrow> 'f table" where
  "frame_columns chunk episode cameras frames state_dim states actions =
     [(''episode_index'', IntColumn (map (int \<circ> lf_episode_index) frames)),
      (''frame_index'', IntColumn (map (int \<circ> lf_frame_index) frames)),
      (''index'', IntColumn (map (int \<circ> lf_index) frames)),
      (''timestamp'', TimeColumn (map lf_timestamp frames))]
     @ vector_columns ''observation.state.'' state_dim states
     @ vector_columns ''action.'' (action_dimension actions) actions
     @ [(''task_index'', IntColumn (map (\<lambda>f. case lf_task_index f of Some t \<Rightarrow> int t | None \<Rightarrow> 0) frames))]
     @ concat (map (camera_columns chunk episode frames) cameras)"

definition no_state_error :: string where
  "no_state_error = ''Cannot determine state dimension: no frame has observation_state''"

text \<open>The table of an episode with the chunk of the episode: every frame is a row.\<close>

definition episode_table :: "('f::zero) lerobot_frame list \<Rightarrow> nat \<Rightarrow> nat \<Rightarrow> string + 'f table" where
  "episode_table frames episode chunk =
     (case state_dimension frames of
        None \<Rightarrow> Inl no_state_error
      | Some d \<Rightarrow>
          Inr (frame_columns chunk episode (cameras_of frames) frames d
                 (fill_forward (replicate d 0) None (map lf_observation_state frames))
                 (fill_forward (replicate d 0) None (map lf_action frames))))"

text \<open>The older version: frames without a state are left out, and actions before the first one have as many zeros as
  the state of their frame, at most fourteen.\<close>

fun fill_actions :: "('f::zero) list option \<Rightarrow> 'f lerobot_frame list \<Rightarrow> 'f list list" where
  "fill_actions prev [] = []"
| "fill_actions prev (f # fs) =
     (case lf_action f of
        Some a \<Rightarrow> a # fill_actions (Some a) fs
      | None \<Rightarrow>
          (case prev of
             Some a \<Rightarrow> a # fill_actions prev fs
           | None \<Rightarrow> replicate (min (length (the (lf_observation_state f))) DEFAULT_ACTION_DIMENSION) 0 # fill_actions None fs))"

definition state_table :: "('f::zero) lerobot_frame list \<Rightarrow> nat \<Rightarrow> string + 'f table" where
  "state_table frames episode =
     (case state_dimension frames of
        None \<Rightarrow> Inl no_state_error
      | Some d \<Rightarrow>
          (let rows = filter (\<lambda>f. lf_observation_state f \<noteq> None) frames
           in Inr (frame_columns 0 episode (cameras_of frames) rows d
                     (List.map_filter lf_observation_state rows) (fill_actions None rows))))"

section \<open>Statistics\<close>

record feature_stats =
  fs_min :: "real option list"
  fs_max :: "real option list"
  fs_mean :: "real list"
  fs_std :: "real list"

record stat_sums =
  ss_min :: "real option"
  ss_max :: "real option"
  ss_sum :: real
  ss_sum_sq :: real

definition add_sample :: "real \<Rightarrow> stat_sums \<Rightarrow> stat_sums" where
  "add_sample v s =
     \<lparr> ss_min = Some (case ss_min s of None \<Rightarrow> v | Some m \<Rightarrow> min m v),
       ss_max = Some (case ss_max s of None \<Rightarrow> v | Some m \<Rightarrow> max m v),
       ss_sum = ss_sum s + v, ss_sum_sq = ss_sum_sq s + v * v \<rparr>"

definition add_row :: "real list \<Rightarrow> stat_sums list \<Rightarrow> stat_sums list" where
  "add_row row accs = map (\<lambda>i. if i < length row then add_sample (row ! i) (accs ! i) else accs ! i) [0..<length accs]"

definition no_samples :: stat_sums where
  "no_samples = \<lparr> ss_min = None, ss_max = None, ss_sum = 0, ss_sum_sq = 0 \<rparr>"

definition calculate_stats :: "real list list \<Rightarrow> feature_stats option" where
  "calculate_stats vals =
     (case vals of
        [] \<Rightarrow> None
      | row # _ \<Rightarrow>
          (if row = [] then None
           else let accs = fold add_row vals (replicate (length row) no_samples);
                    n = real (length vals)
                in Some \<lparr> fs_min = map ss_min accs, fs_max = map ss_max accs, fs_mean = map (\<lambda>s. ss_sum s / n) accs,
                          fs_std = map (\<lambda>s. sqrt (max 0 (ss_sum_sq s / n - ss_sum s / n * (ss_sum s / n)))) accs \<rparr>))"

definition episode_feature_stats :: "real lerobot_frame list \<Rightarrow> (string \<times> feature_stats) list" where
  "episode_feature_stats frames =
     (case calculate_stats (List.map_filter lf_observation_state frames) of Some s \<Rightarrow> [(''observation.state'', s)] | None \<Rightarrow> [])
     @ (case calculate_stats (List.map_filter lf_action frames) of Some s \<Rightarrow> [(''action'', s)] | None \<Rightarrow> [])"

section \<open>Well-formed tables\<close>

lemma fill_forward_length [simp]: "length (fill_forward zeros prev vs) = length vs"
  by (induction zeros prev vs rule: fill_forward.induct) simp_all

lemma fill_actions_length [simp]: "length (fill_actions prev fs) = length fs"
  by (induction prev fs rule: fill_actions.induct) (simp_all split: option.splits)

lemma frame_columns_length:
  "length states = length frames \<Longrightarrow> length actions = length frames \<Longrightarrow>
    list_all (\<lambda>(_, c). column_length c = length frames) (frame_columns chunk episode cameras frames d states actions)"
  by (auto simp: frame_columns_def vector_columns_def camera_columns_def list_all_iff)

definition column_names :: "'f table \<Rightarrow> string list" where
  "column_names t = map fst t"

lemma digit_char_not: "n < 10 \<Longrightarrow> digit_char n \<notin> {CHR ''h'', CHR ''p'', CHR ''x''}"
  using digit_char_code [of n] by auto

lemma cameras_distinct: "distinct (cameras_of frames)"
proof -
  have "distinct cs \<Longrightarrow> distinct (fold (\<lambda>camera cs. if camera \<in> set cs then cs else cs @ [camera]) xs cs)" for xs cs :: "string list"
    by (induction xs arbitrary: cs) auto
  then show ?thesis by (simp add: cameras_of_def)
qed

lemma vector_names: "map fst (vector_columns name d rows) = map (\<lambda>i. name @ show_nat i) [0..<d]"
  by (simp add: vector_columns_def)

lemma vector_names_last: "s \<in> set (map (\<lambda>i. name @ show_nat i) [0..<d]) \<Longrightarrow> \<exists>k<10. last s = digit_char k"
proof -
  assume "s \<in> set (map (\<lambda>i. name @ show_nat i) [0..<d])"
  then obtain i where "s = name @ show_nat i" by auto
  then have "last s = digit_char (i mod 10)" using show_nat_last [of i] by simp
  then show ?thesis by (intro exI [of _ "i mod 10"]) simp
qed

lemma vector_names_distinct: "distinct (map (\<lambda>i. name @ show_nat i) [0..<d])"
  by (auto simp: distinct_map inj_on_def dest: arg_cong [where f = digits_value] simp: digits_value_show_nat)

lemma camera_names: "map fst (concat (map (camera_columns chunk episode frames) cs)) = concat (map (\<lambda>c. [c @ ''_path'', c @ ''_timestamp'']) cs)"
  by (induction cs) (simp_all add: camera_columns_def)

lemma camera_names_distinct: "distinct cs \<Longrightarrow> distinct (concat (map (\<lambda>c. [c @ ''_path'', c @ ''_timestamp'']) cs))"
proof (induction cs)
  case (Cons c cs)
  have "a @ ''_path'' \<noteq> b @ ''_timestamp''" for a b :: string
    by (auto dest: arg_cong [where f = last])
  then show ?case using Cons by auto
qed simp

lemma camera_names_last:
  "s \<in> set (concat (map (\<lambda>c. [c @ ''_path'', c @ ''_timestamp'']) cs)) \<Longrightarrow>
    (\<exists>c. s = c @ ''_path'') \<or> (\<exists>c. s = c @ ''_timestamp'')"
  by auto

lemma different_vectors:
  "set (map (\<lambda>i. ''observation.state.'' @ show_nat i) [0..<m]) \<inter> set (map (\<lambda>i. ''action.'' @ show_nat i) [0..<n]) = {}"
  by auto

lemma distinct_parts:
  assumes "distinct xs" "distinct s" "distinct a" "distinct c" "set s \<inter> set a = {}" "set xs \<inter> (set s \<union> set a) = {}"
    "set c \<inter> (set s \<union> set a) = {}" "set c \<inter> set xs = {}"
  shows "distinct (take n xs @ s @ a @ drop n xs @ c)"
  using assms set_take_subset [of n xs] set_drop_subset [of n xs] set_take_disj_set_drop_if_distinct [OF assms(1), of n n]
  by (simp add: distinct_append) blast

lemma names_distinct:
  assumes "distinct cs"
  shows "distinct (column_names (frame_columns chunk episode cs frames d states actions))"
proof -
  let ?fixed = "[''episode_index'', ''frame_index'', ''index'', ''timestamp'', ''task_index'']"
  let ?s = "map (\<lambda>i. ''observation.state.'' @ show_nat i) [0..<d]"
    and ?a = "map (\<lambda>i. ''action.'' @ show_nat i) [0..<action_dimension actions]"
    and ?c = "concat (map (\<lambda>c. [c @ ''_path'', c @ ''_timestamp'']) cs)"
  have names: "column_names (frame_columns chunk episode cs frames d states actions) = take 4 ?fixed @ ?s @ ?a @ drop 4 ?fixed @ ?c"
    by (simp add: column_names_def frame_columns_def vector_names camera_names)
  have digits: "last x \<notin> {CHR ''h'', CHR ''p'', CHR ''x''}" if "x \<in> set ?s \<union> set ?a" for x
  proof -
    obtain k where "k < 10" "last x = digit_char k" using \<open>x \<in> set ?s \<union> set ?a\<close> vector_names_last by blast
    then show ?thesis using digit_char_not [of k] by simp
  qed
  have fixed: "last x \<in> {CHR ''x'', CHR ''p''}" if "x \<in> set ?fixed" for x using that by auto
  have cam: "last x \<in> {CHR ''h'', CHR ''p''} \<and> x \<notin> set ?fixed" if "x \<in> set ?c" for x
    using camera_names_last [OF that]
  proof (elim disjE exE)
    fix c assume "x = c @ ''_path''"
    then have h: "last x = CHR ''h''" by simp
    have "CHR ''h'' \<notin> {CHR ''x'', CHR ''p''}" by simp
    then have "x \<notin> set ?fixed" using fixed [of x] h by metis
    then show ?thesis using h by simp
  next
    fix c assume "x = c @ ''_timestamp''"
    then have p: "last x = CHR ''p''" "length x \<noteq> 9" by simp_all
    have "length y = 9" if "y \<in> set ?fixed" "last y = CHR ''p''" for y using that by auto
    then have "x \<notin> set ?fixed" using p by metis
    then show ?thesis using p(1) by simp
  qed
  have "set ?fixed \<inter> (set ?s \<union> set ?a) = {}" using digits fixed by blast
  moreover have "set ?c \<inter> (set ?s \<union> set ?a) = {}" using digits cam by blast
  moreover have "set ?c \<inter> set ?fixed = {}" using cam by blast
  moreover have "distinct ?fixed" by simp
  ultimately show ?thesis
    unfolding names
    by (intro distinct_parts vector_names_distinct camera_names_distinct [OF assms] different_vectors)
qed

section \<open>Statistics of a feature\<close>

lemma no_samples_simps [simp]:
  "ss_min no_samples = None" "ss_max no_samples = None" "ss_sum no_samples = 0" "ss_sum_sq no_samples = 0"
  by (simp_all add: no_samples_def)

lemma add_row_length [simp]: "length (add_row row accs) = length accs"
  by (simp add: add_row_def)

lemma fold_add_row:
  assumes "list_all (\<lambda>row. length row = length accs) vals" "i < length accs"
  shows "fold add_row vals accs ! i = fold add_sample (map (\<lambda>row. row ! i) vals) (accs ! i)"
    and "length (fold add_row vals accs) = length accs"
  using assms
proof (induction vals arbitrary: accs)
  case (Cons row vals)
  {
    case 1
    then show ?case using Cons.IH(1) [of "add_row row accs"] by (simp add: add_row_def)
  next
    case 2
    then show ?case using Cons.IH(2) [of "add_row row accs"] by simp
  }
qed simp_all

lemma samples_sums:
  "ss_sum (fold add_sample xs s) = ss_sum s + sum_list xs"
  "ss_sum_sq (fold add_sample xs s) = ss_sum_sq s + sum_list (map (\<lambda>x. x * x) xs)"
  by (induction xs arbitrary: s) (simp_all add: add_sample_def)

lemma samples_min_max:
  "ss_min (fold add_sample xs s) = (case ss_min s of Some m \<Rightarrow> Some (fold (\<lambda>x m. min m x) xs m)
     | None \<Rightarrow> (case xs of [] \<Rightarrow> None | x # xs' \<Rightarrow> Some (fold (\<lambda>x m. min m x) xs' x)))"
  "ss_max (fold add_sample xs s) = (case ss_max s of Some m \<Rightarrow> Some (fold (\<lambda>x m. max m x) xs m)
     | None \<Rightarrow> (case xs of [] \<Rightarrow> None | x # xs' \<Rightarrow> Some (fold (\<lambda>x m. max m x) xs' x)))"
  by (induction xs arbitrary: s) (auto simp: add_sample_def split: option.splits)

lemma fold_min_Min: "fold (\<lambda>x m. min m x) xs m = Min (set (m # xs))" "fold (\<lambda>x m. max m x) xs m = Max (set (m # xs))"
  for m :: real
proof -
  have "(\<lambda>x m :: real. min m x) = min" "(\<lambda>x m :: real. max m x) = max" by (auto simp: fun_eq_iff min.commute max.commute)
  then show "fold (\<lambda>x m. min m x) xs m = Min (set (m # xs))" "fold (\<lambda>x m. max m x) xs m = Max (set (m # xs))"
    by (simp_all only: Min.set_eq_fold Max.set_eq_fold)
qed

lemma variance:
  fixes xs :: "real list"
  assumes "xs \<noteq> []"
  defines "n \<equiv> real (length xs)" and "m \<equiv> sum_list xs / real (length xs)"
  shows "sum_list (map (\<lambda>x. x * x) xs) / n - m * m = sum_list (map (\<lambda>x. (x - m)\<^sup>2) xs) / n"
proof -
  have n: "n \<noteq> 0" using assms(1) by (simp add: n_def)
  have expand: "sum_list (map (\<lambda>x. (x - k)\<^sup>2) ys) = sum_list (map (\<lambda>x. x * x) ys) - 2 * k * sum_list ys + real (length ys) * k * k"
    for k :: real and ys by (induction ys) (simp_all add: power2_eq_square algebra_simps)
  have "sum_list xs = n * m" using n by (simp add: m_def n_def)
  then show ?thesis using n expand [of m xs] by (simp add: field_simps n_def [symmetric])
qed

section \<open>Properties\<close>

text \<open>C28: the table of an episode is one that can be stored. Whenever one is made, all its columns have as many entries as the
  episode has frames (in the older version, as many as there are frames with a state), and their names are pairwise
  different. A table is made exactly when some frame has a state.\<close>

theorem table_well_formed:
  "case episode_table frames episode chunk of
     Inl _ \<Rightarrow> list_all (\<lambda>f. lf_observation_state f = None) frames
   | Inr t \<Rightarrow> list_ex (\<lambda>f. lf_observation_state f \<noteq> None) frames \<and> distinct (column_names t) \<and>
       list_all (\<lambda>(_, c). column_length c = length frames) t \<and>
       (\<exists>t'. state_table frames episode = Inr t' \<and> distinct (column_names t') \<and>
          list_all (\<lambda>(_, c). column_length c = length (filter (\<lambda>f. lf_observation_state f \<noteq> None) frames)) t')"
proof (cases "state_dimension frames")
  case None
  then have "List.map_filter lf_observation_state frames = []" by (auto simp: state_dimension_def split: list.splits)
  then have "list_all (\<lambda>f. lf_observation_state f = None) frames"
    by (auto simp: map_filter_def list_all_iff filter_empty_conv)
  then show ?thesis using None by (simp add: episode_table_def)
next
  case (Some d)
  then have "List.map_filter lf_observation_state frames \<noteq> []" by (auto simp: state_dimension_def)
  then have ex: "list_ex (\<lambda>f. lf_observation_state f \<noteq> None) frames"
    by (auto simp: map_filter_def list_ex_iff filter_empty_conv)
  have states: "length (List.map_filter lf_observation_state rows) = length rows"
    if "list_all (\<lambda>f. lf_observation_state f \<noteq> None) rows" for rows :: "'a lerobot_frame list"
    using that by (simp add: map_filter_def list_all_iff)
  let ?rows = "filter (\<lambda>f. lf_observation_state f \<noteq> None) frames"
  have "length (List.map_filter lf_observation_state ?rows) = length ?rows" by (rule states) (simp add: list_all_iff)
  note old = frame_columns_length [OF this fill_actions_length] and names = names_distinct [OF cameras_distinct]
  show ?thesis
    unfolding episode_table_def state_table_def Some option.case sum.case Let_def
    by (intro conjI exI) (rule ex names frame_columns_length old refl | simp)+
qed

text \<open>the statistics of a feature in one pass are the ones of the definition. For values that all have the same number
  of entries, every entry of the result is the minimum, the maximum, the mean and the population standard deviation of the
  entries at its place.\<close>

theorem stats_of_samples:
  assumes "vals \<noteq> []" "list_all (\<lambda>row. length row = n) vals" "i < n"
  shows "\<exists>s. calculate_stats vals = Some s \<and>
    (let xs = map (\<lambda>row. row ! i) vals; m = sum_list xs / real (length xs)
     in fs_min s ! i = Some (Min (set xs)) \<and> fs_max s ! i = Some (Max (set xs)) \<and> fs_mean s ! i = m \<and>
        fs_std s ! i = sqrt (sum_list (map (\<lambda>x. (x - m)\<^sup>2) xs) / real (length xs)))"
proof -
  obtain row rest where v: "vals = row # rest" using assms(1) by (cases vals) auto
  let ?accs = "replicate (length row) no_samples" let ?xs = "map (\<lambda>row. row ! i) vals"
  let ?m = "sum_list ?xs / real (length ?xs)"
  have row: "length row = n" "row \<noteq> []" using assms(2,3) v by auto
  have rows: "list_all (\<lambda>row. length row = length ?accs) vals" using assms(2) row by simp
  have i: "i < length ?accs" using assms(3) row by simp
  note acc = fold_add_row [OF rows i]
  have s: "fold add_row vals ?accs ! i = fold add_sample ?xs no_samples" using acc(1) i by simp
  have xs: "?xs \<noteq> []" using assms(1) by simp
  have var: "sum_list (map (\<lambda>x. x * x) ?xs) / real (length ?xs) - ?m * ?m
      = sum_list (map (\<lambda>x. (x - ?m)\<^sup>2) ?xs) / real (length ?xs)"
    by (rule variance [OF xs])
  have "0 \<le> sum_list (map (\<lambda>x. (x - ?m)\<^sup>2) ?xs) / real (length ?xs)"
    by (intro divide_nonneg_nonneg sum_list_nonneg) auto
  then have std: "max 0 (sum_list (map (\<lambda>x. x * x) ?xs) / real (length ?xs) - ?m * ?m)
      = sum_list (map (\<lambda>x. (x - ?m)\<^sup>2) ?xs) / real (length ?xs)" unfolding var by simp
  let ?sums = "fold add_row vals ?accs" let ?n = "real (length vals)"
  let ?s = "\<lparr> fs_min = map ss_min ?sums, fs_max = map ss_max ?sums, fs_mean = map (\<lambda>s. ss_sum s / ?n) ?sums,
    fs_std = map (\<lambda>s. sqrt (max 0 (ss_sum_sq s / ?n - ss_sum s / ?n * (ss_sum s / ?n)))) ?sums \<rparr>"
  have c: "calculate_stats vals = Some ?s"
    unfolding calculate_stats_def using row(2) by (simp add: v Let_def)
  have len: "i < length ?sums" "length ?xs = length vals" using acc(2) i by simp_all
  have head: "?xs = row ! i # map (\<lambda>row. row ! i) rest" by (simp add: v)
  have mm: "ss_min (fold add_sample ?xs no_samples) = Some (Min (set ?xs))" "ss_max (fold add_sample ?xs no_samples) = Some (Max (set ?xs))"
    unfolding samples_min_max head by (simp_all add: fold_min_Min)
  have "fs_min ?s ! i = Some (Min (set ?xs)) \<and> fs_max ?s ! i = Some (Max (set ?xs)) \<and> fs_mean ?s ! i = ?m \<and>
      fs_std ?s ! i = sqrt (sum_list (map (\<lambda>x. (x - ?m)\<^sup>2) ?xs) / real (length ?xs))"
    using len mm std by (simp add: s samples_sums)
  then show ?thesis using c by (auto simp: Let_def)
qed

theorem stats_of_samples_witness:
  "\<exists>s. calculate_stats [[1], [3]] = Some s \<and> fs_min s ! 0 = Some 1 \<and> fs_max s ! 0 = Some 3 \<and> fs_mean s ! 0 = 2 \<and> fs_std s ! 0 = 1"
  using stats_of_samples [of "[[1], [3]]" 1 0] by simp

end
