(* ===== verification/Lerobot_Config.thy ===== *)
theory Lerobot_Config
  imports Tikv_Config
begin

text \<open>
  The configuration of the LeRobot writer: \<open>formats/common/config.rs\<close> and \<open>formats/lerobot/config.rs\<close> with its defaults,
  its validation and the decision when to flush. Reading a configuration from TOML is a call of the package \<open>toml\<close> followed
  by the validation.
\<close>

section \<open>Data\<close>

datatype mapping_type = ImageMapping | StateMapping | ActionMapping | TimestampMapping | OtherSensorMapping | AudioMapping | CameraInfoMapping

record topic_mapping =
  mp_topic :: string
  mp_feature :: string
  mp_type :: mapping_type
  mp_camera_key :: "string option"

definition camera_key :: "topic_mapping \<Rightarrow> string" where
  "camera_key m = (case mp_camera_key m of Some k \<Rightarrow> k | None \<Rightarrow> mp_feature m)"

record dataset_config =
  ds_name :: string
  ds_fps :: u32
  ds_robot_type :: "string option"
  ds_env_type :: "string option"

record video_config =
  vc_codec :: string
  vc_crf :: u32
  vc_preset :: string
  vc_profile :: "string option"

definition default_video_config :: video_config where
  "default_video_config = \<lparr> vc_codec = ''libx264'', vc_crf = 18, vc_preset = ''fast'', vc_profile = None \<rparr>"

record flushing_config =
  fl_max_frames_per_chunk :: nat
  fl_max_memory_bytes :: nat
  fl_incremental_video_encoding :: bool

definition default_flushing_config :: flushing_config where
  "default_flushing_config = \<lparr> fl_max_frames_per_chunk = 1000, fl_max_memory_bytes = 2 * 1024 * 1024 * 1024,
     fl_incremental_video_encoding = True \<rparr>"

definition unlimited_flushing :: flushing_config where
  "unlimited_flushing = \<lparr> fl_max_frames_per_chunk = 0, fl_max_memory_bytes = 0, fl_incremental_video_encoding = False \<rparr>"

definition should_flush :: "flushing_config \<Rightarrow> nat \<Rightarrow> nat \<Rightarrow> bool" where
  "should_flush c frame_count memory_bytes \<longleftrightarrow>
     (if fl_max_frames_per_chunk c > 0 \<and> frame_count \<ge> fl_max_frames_per_chunk c then True
      else if fl_max_memory_bytes c > 0 \<and> memory_bytes \<ge> fl_max_memory_bytes c then True
      else False)"

definition is_limited :: "flushing_config \<Rightarrow> bool" where
  "is_limited c \<longleftrightarrow> fl_max_frames_per_chunk c > 0 \<or> fl_max_memory_bytes c > 0"

record s3_streaming_config =
  sg_enabled :: "bool option"
  sg_use_coordinator :: bool
  sg_ring_buffer_size :: nat
  sg_upload_part_size :: nat
  sg_buffer_timeout_secs :: nat
  sg_finalize_metadata_in_coordinator :: bool

definition default_s3_streaming :: s3_streaming_config where
  "default_s3_streaming = \<lparr> sg_enabled = None, sg_use_coordinator = False, sg_ring_buffer_size = 128,
     sg_upload_part_size = 16 * 1024 * 1024, sg_buffer_timeout_secs = 5, sg_finalize_metadata_in_coordinator = False \<rparr>"

record lerobot_config =
  lc_dataset :: dataset_config
  lc_mappings :: "topic_mapping list"
  lc_video :: video_config
  lc_annotation_file :: "string option"
  lc_flushing :: flushing_config
  lc_streaming :: s3_streaming_config

section \<open>Validation\<close>

definition v_range :: "int \<Rightarrow> int \<Rightarrow> int \<Rightarrow> string \<Rightarrow> parse_error + unit" where
  "v_range value lo hi field =
     (if value \<ge> lo \<and> value \<le> hi then Inr ()
      else Inl (field, ''must be in range ['' @ show_int lo @ '', '' @ show_int hi @ ''] (got '' @ show_int value @ '')''))"

fun duplicate_topic :: "string set \<Rightarrow> topic_mapping list \<Rightarrow> string option" where
  "duplicate_topic topics [] = None"
| "duplicate_topic topics (m # ms) =
     (if mp_topic m \<in> topics then Some (mp_topic m) else duplicate_topic (insert (mp_topic m) topics) ms)"

definition MIN_PART_SIZE :: nat where "MIN_PART_SIZE = 5 * 1024 * 1024"
definition MAX_PART_SIZE :: nat where "MAX_PART_SIZE = 5 * 1024 * 1024 * 1024"

definition validate_config :: "lerobot_config \<Rightarrow> parse_error + unit" where
  "validate_config c =
     (case v_positive (uint (ds_fps (lc_dataset c))) ''dataset.fps'' of
        Inl e \<Rightarrow> Inl e
      | Inr _ \<Rightarrow>
     (case v_range (uint (vc_crf (lc_video c))) 0 51 ''video.crf'' of
        Inl e \<Rightarrow> Inl e
      | Inr _ \<Rightarrow>
     (case v_positive (int (sg_ring_buffer_size (lc_streaming c))) ''streaming.ring_buffer_size'' of
        Inl e \<Rightarrow> Inl e
      | Inr _ \<Rightarrow>
     (case v_range (int (sg_upload_part_size (lc_streaming c))) (int MIN_PART_SIZE) (int MAX_PART_SIZE) ''streaming.upload_part_size'' of
        Inl e \<Rightarrow> Inl e
      | Inr _ \<Rightarrow>
     (case duplicate_topic {} (lc_mappings c) of
        Some t \<Rightarrow> Inl (''mappings'', ''Duplicate topic found: '' @ t)
      | None \<Rightarrow> Inr ())))))"

section \<open>Mappings\<close>

definition mappings_by_topic :: "lerobot_config \<Rightarrow> (string \<rightharpoonup> topic_mapping)" where
  "mappings_by_topic c = fold (\<lambda>m f. f(mp_topic m \<mapsto> m)) (lc_mappings c) Map.empty"

definition camera_mappings :: "lerobot_config \<Rightarrow> topic_mapping list" where
  "camera_mappings c = filter (\<lambda>m. mp_type m = ImageMapping) (lc_mappings c)"

definition state_mappings :: "lerobot_config \<Rightarrow> topic_mapping list" where
  "state_mappings c = filter (\<lambda>m. mp_type m = StateMapping) (lc_mappings c)"

definition action_mappings :: "lerobot_config \<Rightarrow> topic_mapping list" where
  "action_mappings c = filter (\<lambda>m. mp_type m = ActionMapping) (lc_mappings c)"

lemma duplicate_topic_None:
  "duplicate_topic topics ms = None \<longleftrightarrow> distinct (map mp_topic ms) \<and> topics \<inter> mp_topic ` set ms = {}"
  by (induction ms arbitrary: topics) (auto split: if_splits)

text \<open>A configuration is accepted exactly when its rate is positive, its quality at most 51, its ring buffer not empty, its
  part size between 5 MiB and 5 GiB and every topic mapped once.\<close>

lemma validate_config_Inr:
  "validate_config c = Inr () \<longleftrightarrow>
     ds_fps (lc_dataset c) \<noteq> 0 \<and> unat (vc_crf (lc_video c)) \<le> 51 \<and> sg_ring_buffer_size (lc_streaming c) > 0 \<and>
     sg_upload_part_size (lc_streaming c) \<in> {MIN_PART_SIZE..MAX_PART_SIZE} \<and> distinct (map mp_topic (lc_mappings c))"
proof -
  have fps: "v_positive (uint w) f = Inr () \<longleftrightarrow> w \<noteq> 0" for w :: u32 and f
    by (auto simp: v_positive_def less_le uint_0_iff)
  have crf: "v_range (uint w) 0 51 f = Inr () \<longleftrightarrow> unat w \<le> 51" for w :: u32 and f
  proof -
    have "uint w \<le> 51 \<longleftrightarrow> w \<le> 51" by (simp add: word_le_def)
    moreover have "unat w \<le> 51 \<longleftrightarrow> w \<le> 51" by (simp add: word_le_nat_alt)
    ultimately show ?thesis by (simp add: v_range_def)
  qed
  have pos: "v_positive (int n) f = Inr () \<longleftrightarrow> n > 0" for n f by (auto simp: v_positive_def)
  have part: "v_range (int n) (int lo) (int hi) f = Inr () \<longleftrightarrow> n \<in> {lo..hi}" for n lo hi f by (auto simp: v_range_def)
  have case_unit: "(case x of Inl e \<Rightarrow> Inl e | Inr _ \<Rightarrow> y) = Inr () \<longleftrightarrow> x = Inr () \<and> y = Inr ()"
    for x y :: "parse_error + unit" by (cases x) auto
  have "(case duplicate_topic {} (lc_mappings c) of Some t \<Rightarrow> Inl (''mappings'', ''Duplicate topic found: '' @ t) | None \<Rightarrow> Inr ())
      = (Inr () :: parse_error + unit) \<longleftrightarrow> distinct (map mp_topic (lc_mappings c))"
    using duplicate_topic_None [of "{}" "lc_mappings c"] by (auto split: option.splits)
  then show ?thesis unfolding validate_config_def case_unit fps crf pos part by simp
qed

text \<open>In an accepted configuration a topic is looked up to its mapping.\<close>

lemma mappings_by_topic_eq:
  assumes "distinct (map mp_topic (lc_mappings c))" "m \<in> set (lc_mappings c)"
  shows "mappings_by_topic c (mp_topic m) = Some m"
proof -
  have "fold (\<lambda>m f. f(mp_topic m \<mapsto> m)) ms f k = (case find (\<lambda>m. mp_topic m = k) ms of Some m \<Rightarrow> Some m | None \<Rightarrow> f k)"
    if "distinct (map mp_topic ms)" for ms :: "topic_mapping list" and f k
    using that
  proof (induction ms arbitrary: f)
    case (Cons a ms)
    have "find (\<lambda>m. mp_topic m = k) ms = None" if "mp_topic a = k"
      using that Cons.prems unfolding find_None_iff by (simp add: image_iff) metis
    then show ?case using Cons by (auto split: option.splits)
  qed simp
  moreover have "find (\<lambda>x. mp_topic x = mp_topic m) ms = Some m" if "distinct (map mp_topic ms)" "m \<in> set ms" for ms
    using that by (induction ms) auto
  ultimately show ?thesis using assms by (simp add: mappings_by_topic_def)
qed

end
