(* ===== verification/Video_Frame.thy ===== *)
theory Video_Frame
  imports Aligned_Frame
begin

text \<open>
  \<open>roboflow-media/src/video/frame.rs\<close>: video frames, the buffers they share, depth frames and the buffers of frames of one
  size that are encoded together; and \<open>build_frame_buffer_static\<close> of \<open>video/dataset_encode.rs\<close>, which turns the images
  of a camera into such a buffer. The image decoder and the number of worker threads are parameters. Arithmetic on
  \<open>usize\<close> is on 64 bits: checked where the code checks it, and wrapping (as in a release build) where it does not.
\<close>

section \<open>Formats and errors\<close>

datatype video_error =
    VideoIo string | FfmpegNotFound | FfmpegFailed int string | NoFrames | InconsistentFrameSizes
  | InvalidFrameData string | VideoEncoding string | FrameError string | InitializationError string
  | FinalizationError string | FinalizedError string

datatype frame_format = Rgb24 | Nv12 | Yuv420p | JpegData

datatype pixel_format = PixRgb24 | PixNv12 | PixYuv420p | PixJpeg

fun frame_format_of :: "pixel_format \<Rightarrow> frame_format" where
  "frame_format_of PixRgb24 = Rgb24"
| "frame_format_of PixNv12 = Nv12"
| "frame_format_of PixYuv420p = Yuv420p"
| "frame_format_of PixJpeg = JpegData"

definition usize_wrap :: "nat \<Rightarrow> nat" where
  "usize_wrap n = n mod 2 ^ 64"

definition usize_checked :: "nat \<Rightarrow> nat option" where
  "usize_checked n = (if n < 2 ^ 64 then Some n else None)"

section \<open>Pixel buffers\<close>

text \<open>The bytes of a slot of the frame pool, or bytes of its own.\<close>

datatype buffer_inner = ArenaSlot "u8 list" | OwnedBytes "u8 list"

fun inner_bytes :: "buffer_inner \<Rightarrow> u8 list" where
  "inner_bytes (ArenaSlot bytes) = bytes"
| "inner_bytes (OwnedBytes bytes) = bytes"

record pixel_buffer =
  pb_inner :: buffer_inner
  pb_format :: pixel_format
  pb_width :: u32
  pb_height :: u32
  pb_len :: nat

definition pb_from_arena :: "u8 list \<Rightarrow> pixel_format \<Rightarrow> u32 \<Rightarrow> u32 \<Rightarrow> nat \<Rightarrow> pixel_buffer" where
  "pb_from_arena slot f w h len = \<lparr> pb_inner = ArenaSlot slot, pb_format = f, pb_width = w, pb_height = h, pb_len = len \<rparr>"

definition pb_from_owned :: "u8 list \<Rightarrow> pixel_format \<Rightarrow> u32 \<Rightarrow> u32 \<Rightarrow> pixel_buffer" where
  "pb_from_owned data f w h =
     \<lparr> pb_inner = OwnedBytes data, pb_format = f, pb_width = w, pb_height = h, pb_len = length data \<rparr>"

definition pb_rgb24 :: "u32 \<Rightarrow> u32 \<Rightarrow> u8 list \<Rightarrow> pixel_buffer" where
  "pb_rgb24 w h data = pb_from_owned data PixRgb24 w h"

definition pb_nv12 :: "u32 \<Rightarrow> u32 \<Rightarrow> u8 list \<Rightarrow> pixel_buffer" where
  "pb_nv12 w h data = pb_from_owned data PixNv12 w h"

definition pb_data :: "pixel_buffer \<Rightarrow> u8 list" where
  "pb_data b = take (min (pb_len b) (length (inner_bytes (pb_inner b)))) (inner_bytes (pb_inner b))"

definition pb_capacity :: "pixel_buffer \<Rightarrow> nat" where
  "pb_capacity b = length (inner_bytes (pb_inner b))"

definition pb_set_format :: "pixel_format \<Rightarrow> pixel_buffer \<Rightarrow> pixel_buffer" where
  "pb_set_format f b = b\<lparr>pb_format := f\<rparr>"

definition pb_set_len :: "nat \<Rightarrow> pixel_buffer \<Rightarrow> pixel_buffer" where
  "pb_set_len len b = b\<lparr>pb_len := min len (pb_capacity b)\<rparr>"

definition pb_clone :: "pixel_buffer \<Rightarrow> pixel_buffer" where
  "pb_clone b = pb_from_owned (pb_data b) (pb_format b) (pb_width b) (pb_height b)"

definition pb_expected_size :: "pixel_buffer \<Rightarrow> nat" where
  "pb_expected_size b =
     (let w = unat (pb_width b); h = unat (pb_height b) in
      case pb_format b of
        PixRgb24 \<Rightarrow> usize_wrap (w * h * 3)
      | PixNv12 \<Rightarrow> usize_wrap (w * h + w div 2 * (h div 2) * 2)
      | PixYuv420p \<Rightarrow> usize_wrap (w * h + w div 2 * (h div 2) * 2)
      | PixJpeg \<Rightarrow> pb_len b)"

text \<open>The first bytes of JPEG data.\<close>

definition check_jpeg :: "u8 list \<Rightarrow> video_error + unit" where
  "check_jpeg data =
     (if length data < 4 then Inl (InvalidFrameData ''Empty JPEG data'')
      else if data ! 0 \<noteq> 0xFF \<or> data ! 1 \<noteq> 0xD8 \<or> data ! 2 \<noteq> 0xFF then Inl (InvalidFrameData ''Invalid JPEG header'')
      else Inr ())"

definition pb_validate :: "pixel_buffer \<Rightarrow> video_error + unit" where
  "pb_validate b =
     (if pb_len b \<noteq> pb_expected_size b \<and> pb_format b \<noteq> PixJpeg then Inl (InvalidFrameData ''Invalid frame buffer size'')
      else if pb_format b = PixJpeg then check_jpeg (pb_data b)
      else Inr ())"

section \<open>Video frames\<close>

datatype frame_inner = OwnedData "u8 list" | SharedBuffer pixel_buffer

record video_frame =
  vf_width :: u32
  vf_height :: u32
  vf_inner :: frame_inner
  vf_format :: frame_format

definition video_frame_new :: "u32 \<Rightarrow> u32 \<Rightarrow> u8 list \<Rightarrow> video_frame" where
  "video_frame_new w h data = \<lparr> vf_width = w, vf_height = h, vf_inner = OwnedData data, vf_format = Rgb24 \<rparr>"

definition vf_from_nv12 :: "u32 \<Rightarrow> u32 \<Rightarrow> u8 list \<Rightarrow> u8 list \<Rightarrow> video_frame" where
  "vf_from_nv12 w h y uv = \<lparr> vf_width = w, vf_height = h, vf_inner = OwnedData (y @ uv), vf_format = Nv12 \<rparr>"

definition vf_from_yuv420p :: "u32 \<Rightarrow> u32 \<Rightarrow> u8 list \<Rightarrow> u8 list \<Rightarrow> u8 list \<Rightarrow> video_frame" where
  "vf_from_yuv420p w h y u v = \<lparr> vf_width = w, vf_height = h, vf_inner = OwnedData (y @ u @ v), vf_format = Yuv420p \<rparr>"

definition vf_from_jpeg :: "u32 \<Rightarrow> u32 \<Rightarrow> u8 list \<Rightarrow> video_frame" where
  "vf_from_jpeg w h data = \<lparr> vf_width = w, vf_height = h, vf_inner = OwnedData data, vf_format = JpegData \<rparr>"

definition vf_from_arc_frame_buffer :: "pixel_buffer \<Rightarrow> video_frame" where
  "vf_from_arc_frame_buffer b =
     \<lparr> vf_width = pb_width b, vf_height = pb_height b, vf_inner = SharedBuffer b, vf_format = frame_format_of (pb_format b) \<rparr>"

definition pb_to_video_frame :: "pixel_buffer \<Rightarrow> video_frame" where
  "pb_to_video_frame b =
     \<lparr> vf_width = pb_width b, vf_height = pb_height b, vf_inner = OwnedData (pb_data b), vf_format = frame_format_of (pb_format b) \<rparr>"

definition vf_data :: "video_frame \<Rightarrow> u8 list" where
  "vf_data f = (case vf_inner f of OwnedData data \<Rightarrow> data | SharedBuffer b \<Rightarrow> pb_data b)"

definition vf_is_shared :: "video_frame \<Rightarrow> bool" where
  "vf_is_shared f \<longleftrightarrow> (case vf_inner f of SharedBuffer _ \<Rightarrow> True | OwnedData _ \<Rightarrow> False)"

definition vf_y_plane :: "video_frame \<Rightarrow> u8 list option" where
  "vf_y_plane f =
     (if vf_format f \<noteq> Nv12 then None
      else let y_size = unat (vf_width f) * unat (vf_height f)
           in if y_size \<le> length (vf_data f) then Some (take y_size (vf_data f)) else None)"

definition vf_uv_plane :: "video_frame \<Rightarrow> u8 list option" where
  "vf_uv_plane f =
     (if vf_format f \<noteq> Nv12 then None
      else let y_size = unat (vf_width f) * unat (vf_height f)
           in if y_size \<le> length (vf_data f) then Some (drop y_size (vf_data f)) else None)"

definition vf_expected_size :: "video_frame \<Rightarrow> nat" where
  "vf_expected_size f =
     (let w = unat (vf_width f); h = unat (vf_height f) in
      case vf_format f of
        Rgb24 \<Rightarrow> unat (vf_width f * vf_height f * 3)
      | Nv12 \<Rightarrow> usize_wrap (w * h + w div 2 * (h div 2) * 2)
      | Yuv420p \<Rightarrow> usize_wrap (w * h + w div 2 * (h div 2) * 2)
      | JpegData \<Rightarrow> length (vf_data f))"

text \<open>The number of bytes a frame needs, if 64 bits can hold it; none for planes of odd sides.\<close>

definition needed_size :: "frame_format \<Rightarrow> u32 \<Rightarrow> u32 \<Rightarrow> nat option" where
  "needed_size fmt w h =
     (case fmt of
        Rgb24 \<Rightarrow> Option.bind (usize_checked (unat w * unat h)) (\<lambda>n. usize_checked (n * 3))
      | JpegData \<Rightarrow> None
      | Nv12 \<Rightarrow>
          (if odd (unat w) \<or> odd (unat h) then None
           else Option.bind (usize_checked (unat w * unat h)) (\<lambda>y.
                Option.bind (usize_checked (unat w div 2 * (unat h div 2))) (\<lambda>n.
                Option.bind (usize_checked (n * 2)) (\<lambda>uv. usize_checked (y + uv)))))
      | Yuv420p \<Rightarrow>
          (if odd (unat w) \<or> odd (unat h) then None
           else Option.bind (usize_checked (unat w * unat h)) (\<lambda>y.
                Option.bind (usize_checked (unat w div 2 * (unat h div 2))) (\<lambda>uv.
                Option.bind (usize_checked (y + uv)) (\<lambda>n. usize_checked (n + uv))))))"

definition vf_validate :: "video_frame \<Rightarrow> video_error + unit" where
  "vf_validate f =
     (case vf_format f of
        JpegData \<Rightarrow> check_jpeg (vf_data f)
      | fmt \<Rightarrow>
          (if needed_size fmt (vf_width f) (vf_height f) = Some (length (vf_data f)) then Inr ()
           else Inl (InvalidFrameData ''Invalid frame data'')))"

section \<open>Buffers of frames of one size\<close>

record video_frame_buffer =
  vb_frames :: "video_frame list"
  vb_width :: "u32 option"
  vb_height :: "u32 option"

definition video_buffer_new :: video_frame_buffer where
  "video_buffer_new = \<lparr> vb_frames = [], vb_width = None, vb_height = None \<rparr>"

definition vb_add_frame :: "video_frame \<Rightarrow> video_frame_buffer \<Rightarrow> (video_error + unit) \<times> video_frame_buffer" where
  "vb_add_frame f b =
     (case vf_validate f of
        Inl e \<Rightarrow> (Inl e, b)
      | Inr _ \<Rightarrow>
          (case (vb_width b, vb_height b) of
             (Some w, Some h) \<Rightarrow>
               (if w \<noteq> vf_width f \<or> h \<noteq> vf_height f then (Inl InconsistentFrameSizes, b)
                else (Inr (), b\<lparr>vb_frames := vb_frames b @ [f]\<rparr>))
           | (None, None) \<Rightarrow>
               (Inr (), b\<lparr>vb_width := Some (vf_width f), vb_height := Some (vf_height f), vb_frames := vb_frames b @ [f]\<rparr>)
           | _ \<Rightarrow> (Inr (), b\<lparr>vb_frames := vb_frames b @ [f]\<rparr>)))"

definition vb_clear :: "video_frame_buffer \<Rightarrow> video_frame_buffer" where
  "vb_clear b = b\<lparr>vb_frames := [], vb_width := None, vb_height := None\<rparr>"

definition vb_dimensions :: "video_frame_buffer \<Rightarrow> (u32 \<times> u32) option" where
  "vb_dimensions b = (case (vb_width b, vb_height b) of (Some w, Some h) \<Rightarrow> Some (w, h) | _ \<Rightarrow> None)"

section \<open>Depth frames\<close>

record depth_frame =
  df_width :: u32
  df_height :: u32
  df_data :: "u8 list"

definition df_expected_size :: "depth_frame \<Rightarrow> nat" where
  "df_expected_size f = unat (df_width f * df_height f * 2)"

definition df_validate :: "depth_frame \<Rightarrow> video_error + unit" where
  "df_validate f =
     (if length (df_data f) \<noteq> df_expected_size f then Inl (InvalidFrameData ''Invalid depth frame size'') else Inr ())"

record depth_frame_buffer =
  db_frames :: "depth_frame list"
  db_width :: "u32 option"
  db_height :: "u32 option"

definition db_add_frame :: "depth_frame \<Rightarrow> depth_frame_buffer \<Rightarrow> (video_error + unit) \<times> depth_frame_buffer" where
  "db_add_frame f b =
     (case df_validate f of
        Inl e \<Rightarrow> (Inl e, b)
      | Inr _ \<Rightarrow>
          (case (db_width b, db_height b) of
             (Some w, Some h) \<Rightarrow>
               (if w \<noteq> df_width f \<or> h \<noteq> df_height f then (Inl InconsistentFrameSizes, b)
                else (Inr (), b\<lparr>db_frames := db_frames b @ [f]\<rparr>))
           | (None, None) \<Rightarrow>
               (Inr (), b\<lparr>db_width := Some (df_width f), db_height := Some (df_height f), db_frames := db_frames b @ [f]\<rparr>)
           | _ \<Rightarrow> (Inr (), b\<lparr>db_frames := db_frames b @ [f]\<rparr>)))"

section \<open>The images of a camera\<close>

type_synonym rgb_decoder = "image_data \<Rightarrow> (u32 \<times> u32 \<times> u8 list) option"

definition add_or_skip :: "u32 \<times> u32 \<times> u8 list \<Rightarrow> video_frame_buffer \<times> nat \<Rightarrow> video_frame_buffer \<times> nat" where
  "add_or_skip img x =
     (case img of (w, h, data) \<Rightarrow> case x of (b, skipped) \<Rightarrow>
        case vb_add_frame (video_frame_new w h data) b of (Inl e, b') \<Rightarrow> (b', skipped + 1) | (Inr _, b') \<Rightarrow> (b', skipped))"

text \<open>The loop over the images one after another.\<close>

definition frame_of_image :: "rgb_decoder \<Rightarrow> image_data \<Rightarrow> video_frame_buffer \<times> nat \<Rightarrow> video_frame_buffer \<times> nat" where
  "frame_of_image dec img x =
     (if im_width img = 0 \<or> im_height img = 0 then (fst x, snd x + 1)
      else case (if im_is_encoded img then dec img else Some (im_width img, im_height img, im_data img)) of
             Some rgb \<Rightarrow> add_or_skip rgb x
           | None \<Rightarrow> (fst x, snd x + 1))"

definition build_sequential :: "rgb_decoder \<Rightarrow> image_data list \<Rightarrow> video_frame_buffer \<times> nat" where
  "build_sequential dec images = fold (frame_of_image dec) images (video_buffer_new, 0)"

text \<open>The images decoded by worker threads, then the loop over the results.\<close>

definition decode_job :: "rgb_decoder \<Rightarrow> image_data \<Rightarrow> unit + (u32 \<times> u32 \<times> u8 list) option" where
  "decode_job dec img =
     (if im_width img = 0 \<or> im_height img = 0 then Inr None
      else if im_is_encoded img then (case dec img of Some rgb \<Rightarrow> Inr (Some rgb) | None \<Rightarrow> Inl ())
      else Inr (Some (im_width img, im_height img, im_data img)))"

definition frame_of_job :: "unit + (u32 \<times> u32 \<times> u8 list) option \<Rightarrow> video_frame_buffer \<times> nat \<Rightarrow> video_frame_buffer \<times> nat" where
  "frame_of_job r x = (case r of Inr (Some rgb) \<Rightarrow> add_or_skip rgb x | _ \<Rightarrow> (fst x, snd x + 1))"

definition build_parallel :: "rgb_decoder \<Rightarrow> image_data list \<Rightarrow> video_frame_buffer \<times> nat" where
  "build_parallel dec images = fold frame_of_job (map (decode_job dec) images) (video_buffer_new, 0)"

definition build_frame_buffer_static :: "nat \<Rightarrow> rgb_decoder \<Rightarrow> image_data list \<Rightarrow> video_frame_buffer \<times> nat" where
  "build_frame_buffer_static threads dec images =
     (if length (filter im_is_encoded images) > 10 \<and> threads > 1 then build_parallel dec images
      else build_sequential dec images)"

section \<open>What a buffer holds\<close>

lemma usize_small: "unat (w :: u32) * unat (h :: u32) < 2 ^ 64"
proof -
  have "unat w * unat h \<le> (2 ^ 32 - 1) * (2 ^ 32 - 1)"
    using unat_bound_u32 [of w] unat_bound_u32 [of h] by (intro mult_mono) simp_all
  then show ?thesis by simp
qed

lemma rgb_validate:
  "vf_validate (video_frame_new w h data) = Inr () \<longleftrightarrow> unat w * unat h * 3 < 2 ^ 64 \<and> length data = unat w * unat h * 3"
  using usize_small [of w h]
  by (auto simp: vf_validate_def video_frame_new_def needed_size_def usize_checked_def vf_data_def)

text \<open>Frames in RGB, of one size, with three bytes for every pixel; the size is known as soon as there is a frame.\<close>

definition frame_fits :: "u32 \<Rightarrow> u32 \<Rightarrow> video_frame \<Rightarrow> bool" where
  "frame_fits w h f \<longleftrightarrow>
     vf_format f = Rgb24 \<and> vf_width f = w \<and> vf_height f = h \<and> length (vf_data f) = unat w * unat h * 3 \<and> vf_validate f = Inr ()"

lemma new_frame_fits: "vf_validate (video_frame_new w h data) = Inr () \<Longrightarrow> frame_fits w h (video_frame_new w h data)"
  using rgb_validate [of w h data] by (simp add: frame_fits_def video_frame_new_def vf_data_def)

lemma job_is_image: "frame_of_job (decode_job dec img) = frame_of_image dec img"
  by (auto simp: fun_eq_iff frame_of_job_def decode_job_def frame_of_image_def split: option.splits)

lemma threads_irrelevant: "build_frame_buffer_static threads dec images = build_sequential dec images"
proof -
  have "build_parallel dec images = build_sequential dec images"
    by (simp add: build_parallel_def build_sequential_def fold_map o_def job_is_image)
  then show ?thesis by (simp add: build_frame_buffer_static_def)
qed

text \<open>The reference: the pixels of an image, the images with three bytes for every pixel, and those of them that have the size of
  the first.\<close>

type_synonym rgb_image = "u32 \<times> u32 \<times> u8 list"

definition pixels_of :: "rgb_decoder \<Rightarrow> image_data \<Rightarrow> rgb_image option" where
  "pixels_of dec img =
     (if im_width img = 0 \<or> im_height img = 0 then None
      else if im_is_encoded img then dec img else Some (im_width img, im_height img, im_data img))"

definition well_sized :: "rgb_image \<Rightarrow> bool" where
  "well_sized r = (case r of (w, h, data) \<Rightarrow> unat w * unat h * 3 < 2 ^ 64 \<and> length data = unat w * unat h * 3)"

definition size_of :: "rgb_image \<Rightarrow> u32 \<times> u32" where
  "size_of r = (case r of (w, h, _) \<Rightarrow> (w, h))"

definition sized_pixels :: "rgb_decoder \<Rightarrow> image_data list \<Rightarrow> rgb_image list" where
  "sized_pixels dec images = filter well_sized (List.map_filter (pixels_of dec) images)"

definition encoded_pixels :: "rgb_decoder \<Rightarrow> image_data list \<Rightarrow> rgb_image list" where
  "encoded_pixels dec images =
     (case sized_pixels dec images of [] \<Rightarrow> [] | r # rs \<Rightarrow> filter (\<lambda>x. size_of x = size_of r) (r # rs))"

definition frame_of_pixels :: "rgb_image \<Rightarrow> video_frame" where
  "frame_of_pixels r = (case r of (w, h, data) \<Rightarrow> video_frame_new w h data)"

lemma sized_pixels_snoc:
  "sized_pixels dec (images @ [img]) =
     sized_pixels dec images @ (case pixels_of dec img of None \<Rightarrow> [] | Some r \<Rightarrow> if well_sized r then [r] else [])"
  by (auto simp: sized_pixels_def List.map_filter_def split: option.splits)

lemma pixels_validate: "vf_validate (frame_of_pixels r) = Inr () \<longleftrightarrow> well_sized r"
  by (cases r) (simp add: frame_of_pixels_def well_sized_def rgb_validate)

lemma pixels_size: "vf_width (frame_of_pixels r) = fst (size_of r)" "vf_height (frame_of_pixels r) = snd (size_of r)"
  by (simp_all add: frame_of_pixels_def size_of_def video_frame_new_def split: prod.splits)

lemma add_or_skip_pixels:
  "add_or_skip r (b, n) =
     (if well_sized r \<and> (\<forall>w h. vb_width b = Some w \<longrightarrow> vb_height b = Some h \<longrightarrow> size_of r = (w, h))
      then (snd (vb_add_frame (frame_of_pixels r) b), n) else (b, n + 1))"
proof -
  obtain w h data where r: "r = (w, h, data)" by (rule prod_cases3)
  have "vf_validate (video_frame_new w h data) = Inr () \<longleftrightarrow> well_sized r"
    using pixels_validate [of r] by (simp add: frame_of_pixels_def r)
  moreover have "vf_width (video_frame_new w h data) = w" "vf_height (video_frame_new w h data) = h"
    by (simp_all add: video_frame_new_def)
  ultimately show ?thesis
    by (cases "vf_validate (video_frame_new w h data)")
       (auto simp: add_or_skip_def r vb_add_frame_def frame_of_pixels_def size_of_def split: option.splits)
qed

lemma build_is_reference:
  "build_sequential dec images =
     (\<lparr> vb_frames = map frame_of_pixels (encoded_pixels dec images),
        vb_width = (case sized_pixels dec images of [] \<Rightarrow> None | r # _ \<Rightarrow> Some (fst (size_of r))),
        vb_height = (case sized_pixels dec images of [] \<Rightarrow> None | r # _ \<Rightarrow> Some (snd (size_of r))) \<rparr>,
      length images - length (encoded_pixels dec images)) \<and>
   length (encoded_pixels dec images) \<le> length images"
proof (induction images rule: rev_induct)
  case Nil
  then show ?case by (simp add: build_sequential_def encoded_pixels_def sized_pixels_def video_buffer_new_def List.map_filter_def)
next
  case (snoc img images)
  have step: "build_sequential dec (images @ [img]) = frame_of_image dec img (build_sequential dec images)"
    by (simp add: build_sequential_def)
  have image: "frame_of_image dec img x = (case pixels_of dec img of None \<Rightarrow> (fst x, snd x + 1) | Some r \<Rightarrow> add_or_skip r x)" for x
    by (simp add: frame_of_image_def pixels_of_def)
  show ?case
  proof (cases "pixels_of dec img")
    case None
    with snoc show ?thesis unfolding step image by (simp add: encoded_pixels_def sized_pixels_snoc Suc_diff_le)
  next
    case (Some r)
    have valid: "vf_validate (frame_of_pixels r) = Inr ()" if "well_sized r" using that by (simp add: pixels_validate)
    show ?thesis
    proof (cases "sized_pixels dec images")
      case Nil
      with snoc Some valid show ?thesis
        unfolding step image
        by (auto simp: encoded_pixels_def sized_pixels_snoc add_or_skip_pixels vb_add_frame_def pixels_size)
    next
      case (Cons q qs)
      with snoc Some valid show ?thesis
        unfolding step image
        by (auto simp: encoded_pixels_def sized_pixels_snoc add_or_skip_pixels vb_add_frame_def pixels_size Suc_diff_le)
    qed
  qed
qed

section \<open>Properties\<close>

text \<open>C29: the frames of a camera that are encoded together. Whatever the images, the decoder and the number of threads, the
  buffer that is built holds, in order, exactly the pixels of the images that have a size and, where encoded, can be decoded, whose
  data are three bytes for every pixel, and whose size is that of the first such image; all of them are RGB frames of this
  size, and the number of skipped images is that of all others.\<close>

theorem video_buffer_uniform:
  "case build_frame_buffer_static threads dec images of (b, skipped) \<Rightarrow>
     vb_frames b = map frame_of_pixels (encoded_pixels dec images) \<and>
     length (vb_frames b) + skipped = length images \<and>
     vb_dimensions b = (case sized_pixels dec images of [] \<Rightarrow> None | r # _ \<Rightarrow> Some (size_of r)) \<and>
     (case vb_dimensions b of None \<Rightarrow> vb_frames b = [] | Some (w, h) \<Rightarrow> list_all (frame_fits w h) (vb_frames b))"
proof -
  have fits: "frame_fits (fst (size_of r)) (snd (size_of r)) (frame_of_pixels r)" if "well_sized r" for r
    using that new_frame_fits pixels_validate [of r] by (cases r) (auto simp: frame_of_pixels_def size_of_def)
  have "list_all (frame_fits (fst (size_of q)) (snd (size_of q))) (map frame_of_pixels (encoded_pixels dec images))"
    if "sized_pixels dec images = q # qs" for q qs
  proof -
    have "\<forall>r\<in>set (sized_pixels dec images). well_sized r" by (simp add: sized_pixels_def)
    then have "\<forall>r\<in>set (encoded_pixels dec images). well_sized r \<and> size_of r = size_of q"
      using that by (auto simp: encoded_pixels_def)
    then show ?thesis using fits by (auto simp: list_all_iff) metis
  qed
  then show ?thesis
    using build_is_reference [of dec images]
    by (auto simp: threads_irrelevant vb_dimensions_def encoded_pixels_def split: list.splits)
qed

text \<open>Sharing a pixel buffer or copying it gives frames with the same bytes.\<close>

lemma shared_is_copied: "vf_data (vf_from_arc_frame_buffer b) = vf_data (pb_to_video_frame b)"
  by (simp add: vf_from_arc_frame_buffer_def pb_to_video_frame_def vf_data_def)

text \<open>The planes of an NV12 frame are the ones it was made from.\<close>

lemma nv12_planes_roundtrip:
  "length y = unat w * unat h \<Longrightarrow> vf_y_plane (vf_from_nv12 w h y uv) = Some y \<and> vf_uv_plane (vf_from_nv12 w h y uv) = Some uv"
  by (simp add: vf_y_plane_def vf_uv_plane_def vf_from_nv12_def vf_data_def)

text \<open>The size of a depth frame is computed on 32 bits. As long as two bytes for each of its pixels can be counted with 32
  bits, exactly the frames with that many bytes are accepted; but a frame of 65536 by 65536 pixels with no data at all
  is accepted too.\<close>

theorem depth_size_wraps:
  "(unat (df_width f) * unat (df_height f) * 2 < 2 ^ 32 \<longrightarrow>
      (df_validate f = Inr () \<longleftrightarrow> length (df_data f) = unat (df_width f) * unat (df_height f) * 2)) \<and>
   df_validate \<lparr> df_width = 65536, df_height = 65536, df_data = [] \<rparr> = Inr ()"
proof -
  let ?w = "df_width f" and ?h = "df_height f"
  have "unat (?w * ?h * 2) = unat ?w * unat ?h * 2" if b: "unat ?w * unat ?h * 2 < 2 ^ 32"
  proof -
    have "unat (?w * ?h) = unat ?w * unat ?h" using b by (subst unat_mult_lem [symmetric]) (simp add: mult.commute)
    then show ?thesis using b by (subst unat_mult_lem [THEN iffD1]) simp_all
  qed
  then show ?thesis by (auto simp: df_validate_def df_expected_size_def)
qed

theorem depth_size_wraps_witness:
  "df_validate \<lparr> df_width = 1, df_height = 2, df_data = [1, 2, 3, 4] \<rparr> = Inr () \<and>
   df_validate \<lparr> df_width = 65536, df_height = 65536, df_data = [] \<rparr> = Inr ()"
  using depth_size_wraps [of "\<lparr> df_width = 1, df_height = 2, df_data = [1, 2, 3, 4] \<rparr>"] by simp

end
