(* ===== verification/Dataset_Pipeline.thy ===== *)
theory Dataset_Pipeline
  imports Aligned_Frame
begin

text \<open>
  \<open>roboflow-pipeline/src/executor.rs\<close>: the executor that turns the messages of a source into frames and hands them to a
  format writer. The writer (trait \<open>FormatWriter\<close> of \<open>roboflow-dataset/src/core/traits.rs\<close>) is a record of operations on
  a state of its own, which may fail; a panic is the error \<open>Crashed\<close>, which no handler catches. The elapsed time and the
  frame rate of the statistics are left out, and of the execution policy only its name is used by the code.
\<close>

section \<open>Writers\<close>

datatype 'e abort = Err 'e | Crashed

definition returning :: "'a panics \<Rightarrow> ('s, 'e abort, 'a) prog" where
  "returning r = (case r of Panic \<Rightarrow> throw Crashed | Returns a \<Rightarrow> ret a)"

record episode_stats =
  es_frames :: nat
  es_episode_index :: nat

record ('w, 'f) format_writer =
  fw_write_frame :: "'f aligned_frame \<Rightarrow> ('w, string abort, unit) prog"
  fw_start_episode :: "nat option \<Rightarrow> ('w, string abort, nat) prog"
  fw_finish_episode :: "('w, string abort, episode_stats) prog"
  fw_finalize :: "('w, string abort, writer_stats) prog"

section \<open>Configuration and state\<close>

datatype episode_strategy = SingleEpisode | GapBased u64 | FrameCount nat

record 'c pipeline_config =
  pc_streaming :: "'c stream_config"
  pc_max_frames :: "nat option"
  pc_episode_strategy :: episode_strategy
  pc_topic_mappings :: "(string \<times> string) list"

definition pipeline_with_fps :: "u32 \<Rightarrow> 'c pipeline_config panics" where
  "pipeline_with_fps fps =
     (case stream_with_fps fps of
        Panic \<Rightarrow> Panic
      | Returns st \<Rightarrow> Returns \<lparr> pc_streaming = st, pc_max_frames = None, pc_episode_strategy = SingleEpisode, pc_topic_mappings = [] \<rparr>)"

definition pc_with_max_frames :: "nat \<Rightarrow> 'c pipeline_config \<Rightarrow> 'c pipeline_config" where
  "pc_with_max_frames n c = c\<lparr>pc_max_frames := Some n\<rparr>"

definition pc_with_episode_strategy :: "episode_strategy \<Rightarrow> 'c pipeline_config \<Rightarrow> 'c pipeline_config" where
  "pc_with_episode_strategy e c = c\<lparr>pc_episode_strategy := e\<rparr>"

definition pc_with_topic_mapping :: "string \<Rightarrow> string \<Rightarrow> 'c pipeline_config \<Rightarrow> 'c pipeline_config" where
  "pc_with_topic_mapping topic feature c = c\<lparr>pc_topic_mappings := AList.update topic feature (pc_topic_mappings c)\<rparr>"

definition pc_with_topic_mappings :: "(string \<times> string) list \<Rightarrow> 'c pipeline_config \<Rightarrow> 'c pipeline_config" where
  "pc_with_topic_mappings ms c = c\<lparr>pc_topic_mappings := ms\<rparr>"

definition dotted_name :: "string \<Rightarrow> string" where
  "dotted_name topic = trim_start_char CHR ''.'' (map (\<lambda>x. if x = CHR ''/'' then CHR ''.'' else x) topic)"

definition get_feature_name :: "'c pipeline_config \<Rightarrow> string \<Rightarrow> string" where
  "get_feature_name c topic =
     (case map_of (pc_topic_mappings c) topic of Some f \<Rightarrow> f | None \<Rightarrow> dotted_name topic)"

record pipeline_stats =
  ps_frames_written :: nat
  ps_episodes_written :: nat
  ps_messages_processed :: nat
  ps_policy_name :: string

record ('w, 'f, 'd, 'c) executor =
  ex_writer :: 'w
  ex_config :: "'c pipeline_config"
  ex_stats :: pipeline_stats
  ex_buffer :: "(u64 \<times> ('f, 'd) message list) list"
  ex_current :: "u64 option"
  ex_end :: "u64 option"
  ex_last :: "u64 option"
  ex_frame_index :: nat
  ex_episode_index :: nat
  ex_frames_in_episode :: nat
  ex_episode_started :: bool
  ex_camera_info :: "string set"

definition executor_new :: "'w \<Rightarrow> 'c pipeline_config \<Rightarrow> ('w, 'f, 'd, 'c) executor" where
  "executor_new w c =
     \<lparr> ex_writer = w, ex_config = c,
       ex_stats = \<lparr> ps_frames_written = 0, ps_episodes_written = 0, ps_messages_processed = 0, ps_policy_name = [] \<rparr>,
       ex_buffer = [], ex_current = None, ex_end = None, ex_last = None, ex_frame_index = 0, ex_episode_index = 0,
       ex_frames_in_episode = 0, ex_episode_started = False, ex_camera_info = {} \<rparr>"

type_synonym ('w, 'f, 'd, 'c, 'a) exec = "(('w, 'f, 'd, 'c) executor, string abort, 'a) prog"

definition on_writer :: "('w, string abort, 'a) prog \<Rightarrow> ('w, 'f, 'd, 'c, 'a) exec" where
  "on_writer p = (\<lambda>s. case p (ex_writer s) of (r, w) \<Rightarrow> (r, s\<lparr>ex_writer := w\<rparr>))"

section \<open>Frames\<close>

fun number_value :: "('f, 'd) to_f32 \<Rightarrow> ('f, 'd) codec_value \<Rightarrow> 'f option" where
  "number_value F (Float32 n) = Some n"
| "number_value F (Float64 n) = Some (f32_of_f64 F n)"
| "number_value F (Int32 n) = Some (f32_of_int F (sint n))"
| "number_value F (Int64 n) = Some (f32_of_int F (sint n))"
| "number_value F (UInt32 n) = Some (f32_of_int F (uint n))"
| "number_value F (UInt64 n) = Some (f32_of_int F (uint n))"
| "number_value F _ = None"

definition add_values :: "('f, 'd) to_f32 \<Rightarrow> string \<Rightarrow> ('f, 'd) codec_value list \<Rightarrow> 'f aligned_frame \<Rightarrow> 'f aligned_frame" where
  "add_values F feature arr frame =
     (let state = List.map_filter (number_value F) arr
      in if state = [] then frame
         else if feature = ''action'' \<or> str_contains feature ''.action'' then af_add_action feature state frame
         else af_add_state feature state frame)"

text \<open>The string of a field, for the test for a compressed image.\<close>

fun string_value :: "('f, 'd) codec_value option \<Rightarrow> string option" where
  "string_value (Some (StringValue s)) = Some s"
| "string_value _ = None"

definition add_struct ::
    "('f, 'd) to_f32 \<Rightarrow> string \<Rightarrow> (string \<times> ('f, 'd) codec_value) list \<Rightarrow> 'f aligned_frame \<Rightarrow> string abort + 'f aligned_frame" where
  "add_struct F feature flds frame =
     (if map_of flds ''K'' \<noteq> None \<and> map_of flds ''D'' \<noteq> None then Inr frame
      else case (string_value (map_of flds ''format''), extract_image_bytes flds) of
        (Some _, Some bytes) \<Rightarrow>
          (case extract_dimensions (from_magic_bytes bytes) bytes of
             Panic \<Rightarrow> Inl Crashed
           | Returns None \<Rightarrow> Inr (af_add_image feature (image_encoded 0 0 bytes) frame)
           | Returns (Some (w, h)) \<Rightarrow> Inr (af_add_image feature (image_encoded w h bytes) frame))
      | _ \<Rightarrow>
          (case (Option.bind (map_of flds ''width'') extract_u32, Option.bind (map_of flds ''height'') extract_u32,
                 extract_image_bytes flds) of
             (Some w, Some h, Some bytes) \<Rightarrow>
               (if length bytes < rgb_bytes w h then Inr (af_add_image feature (image_encoded w h bytes) frame)
                else case image_new_rgb w h bytes of
                       Inl e \<Rightarrow> Inl (Err (''Invalid image data: '' @ display_image_error e))
                     | Inr m \<Rightarrow> Inr (af_add_image feature m frame))
           | _ \<Rightarrow>
               (case map_of flds ''position'' of
                  Some (ArrayValue arr) \<Rightarrow> Inr (add_values F feature arr frame)
                | _ \<Rightarrow> Inr frame)))"

definition feature_of :: "'c pipeline_config \<Rightarrow> string \<Rightarrow> string option" where
  "feature_of c topic =
     (if pc_topic_mappings c = [] then Some (dotted_name topic) else map_of (pc_topic_mappings c) topic)"

definition process_message_for_frame ::
    "('f, 'd) to_f32 \<Rightarrow> 'c pipeline_config \<Rightarrow> ('f, 'd) message \<Rightarrow> 'f aligned_frame \<Rightarrow> string abort + 'f aligned_frame" where
  "process_message_for_frame F c msg frame =
     (case feature_of c (msg_topic msg) of
        None \<Rightarrow> Inr frame
      | Some feature \<Rightarrow>
          (case msg_data msg of
             ArrayValue arr \<Rightarrow> Inr (add_values F feature arr frame)
           | StructValue flds \<Rightarrow> add_struct F feature flds frame
           | _ \<Rightarrow> Inr frame))"

fun add_messages ::
    "('f, 'd) to_f32 \<Rightarrow> 'c pipeline_config \<Rightarrow> ('f, 'd) message list \<Rightarrow> 'f aligned_frame \<Rightarrow> string abort + 'f aligned_frame" where
  "add_messages F c [] frame = Inr frame"
| "add_messages F c (m # ms) frame =
     (case process_message_for_frame F c m frame of Inl e \<Rightarrow> Inl e | Inr frame' \<Rightarrow> add_messages F c ms frame')"

definition messages_to_frame ::
    "('f, 'd) to_f32 \<Rightarrow> 'c pipeline_config \<Rightarrow> nat \<Rightarrow> ('f, 'd) message list \<Rightarrow> u64 \<Rightarrow> string abort + 'f aligned_frame option" where
  "messages_to_frame F c index msgs ts =
     (case add_messages F c msgs (aligned_frame_new index ts) of
        Inl e \<Rightarrow> Inl e
      | Inr frame \<Rightarrow> Inr (if af_is_empty frame then None else Some frame))"

section \<open>Episodes and writing\<close>

definition pl_write_frame :: "('w, 'f) format_writer \<Rightarrow> 'f aligned_frame \<Rightarrow> ('w, 'f, 'd, 'c, unit) exec" where
  "pl_write_frame W frame =
     bindM (on_writer (fw_write_frame W frame)) (\<lambda>_.
     modifyM (\<lambda>s. s\<lparr>ex_stats := (ex_stats s)\<lparr>ps_frames_written := ps_frames_written (ex_stats s) + 1\<rparr>,
                    ex_frame_index := ex_frame_index s + 1,
                    ex_frames_in_episode := ex_frames_in_episode s + (if af_images frame \<noteq> [] then 1 else 0)\<rparr>))"

definition pl_finish_episode :: "('w, 'f) format_writer \<Rightarrow> ('w, 'f, 'd, 'c, unit) exec" where
  "pl_finish_episode W =
     bindM (gets ex_episode_started) (\<lambda>started.
     if \<not> started then ret ()
     else bindM (on_writer (fw_finish_episode W)) (\<lambda>_.
          modifyM (\<lambda>s. s\<lparr>ex_stats := (ex_stats s)\<lparr>ps_episodes_written := ps_episodes_written (ex_stats s) + 1\<rparr>,
                         ex_episode_started := False\<rparr>)))"

definition pl_start_episode :: "('w, 'f) format_writer \<Rightarrow> nat \<Rightarrow> ('w, 'f, 'd, 'c, unit) exec" where
  "pl_start_episode W index =
     bindM (gets (\<lambda>s. ex_episode_started s \<and> ex_episode_index s \<noteq> index)) (\<lambda>running.
     bindM (if running then pl_finish_episode W else ret ()) (\<lambda>_.
     bindM (modifyM (\<lambda>s. s\<lparr>ex_episode_index := index, ex_frames_in_episode := 0, ex_episode_started := True\<rparr>)) (\<lambda>_.
     bindM (on_writer (fw_start_episode W (Some index))) (\<lambda>_. ret ()))))"

text \<open>The frame of the messages of one timestamp; one that cannot be made is skipped.\<close>

definition frame_step :: "('w, 'f) format_writer \<Rightarrow> ('f, 'd) to_f32 \<Rightarrow> u64 \<Rightarrow> ('f, 'd) message list \<Rightarrow> ('w, 'f, 'd, 'c, unit) exec" where
  "frame_step W F ts msgs = (\<lambda>s.
     case messages_to_frame F (ex_config s) (ex_frame_index s) msgs ts of
       Inl Crashed \<Rightarrow> (Inl Crashed, s)
     | Inl (Err e) \<Rightarrow> (Inr (), s)
     | Inr None \<Rightarrow> (Inr (), s)
     | Inr (Some frame) \<Rightarrow> pl_write_frame W frame s)"

definition min_key :: "(u64 \<Rightarrow> bool) \<Rightarrow> (u64 \<times> 'm) list \<Rightarrow> u64 option" where
  "min_key P buf = (case filter P (map fst buf) of [] \<Rightarrow> None | k # ks \<Rightarrow> Some (fold min ks k))"

text \<open>The next timestamp to look at: within the completion window if there is one, else any later one.\<close>

definition next_timestamp :: "u64 \<Rightarrow> u64 \<Rightarrow> (u64 \<times> 'm) list \<Rightarrow> u64 option" where
  "next_timestamp window ts buf =
     (case min_key (\<lambda>t. t \<ge> ts \<and> saturating_sub t ts \<le> window) buf of
        Some t \<Rightarrow> Some t
      | None \<Rightarrow> min_key (\<lambda>t. t > ts) buf)"

lemma on_writer_simps:
  "on_writer p s = (r, s') \<Longrightarrow> s' = s\<lparr>ex_writer := snd (p (ex_writer s))\<rparr> \<and> r = fst (p (ex_writer s))"
  by (auto simp: on_writer_def split: prod.splits)

lemma frame_step_buffer: "frame_step W F ts msgs s = (r, s') \<Longrightarrow> ex_buffer s' = ex_buffer s \<and> ex_config s' = ex_config s"
  unfolding frame_step_def pl_write_frame_def on_writer_def bindM_def modifyM_def
  by (auto split: sum.splits abort.splits option.splits prod.splits)

lemma delete_shorter: "map_of buf ts = Some v \<Longrightarrow> length (AList.delete ts buf) < length buf"
proof -
  assume "map_of buf ts = Some v"
  then have "ts \<in> fst ` set buf" by (metis domI dom_map_of_conv_image_fst)
  then show ?thesis unfolding AList.delete_eq by (auto intro: length_filter_less)
qed

function complete_frames :: "('w, 'f) format_writer \<Rightarrow> ('f, 'd) to_f32 \<Rightarrow> ('w, 'f, 'd, 'c) executor \<Rightarrow>
    (string abort + unit) \<times> ('w, 'f, 'd, 'c) executor" where
  "complete_frames W F s =
     (case ex_current s of
        None \<Rightarrow> (Inr (), s)
      | Some ts \<Rightarrow>
          (case map_of (ex_buffer s) ts of
             None \<Rightarrow> (Inr (), s\<lparr>ex_current := min_key (\<lambda>t. t > ts) (ex_buffer s)\<rparr>)
           | Some msgs \<Rightarrow>
               (case frame_step W F ts msgs (s\<lparr>ex_buffer := AList.delete ts (ex_buffer s)\<rparr>) of
                  (Inl e, s') \<Rightarrow> (Inl e, s')
                | (Inr _, s') \<Rightarrow>
                    complete_frames W F (s'\<lparr>ex_current :=
                      next_timestamp (st_completion_window_ns (pc_streaming (ex_config s'))) ts (ex_buffer s')\<rparr>))))"
  by pat_completeness auto
termination
proof (relation "measure (\<lambda>(W, F, s). length (ex_buffer s))", goal_cases)
  case (2 W F s ts msgs r s' u)
  then show ?case using frame_step_buffer [OF sym [OF 2(3)]] delete_shorter [OF 2(2)] by simp
qed simp

declare complete_frames.simps [simp del]

definition process_complete_frames :: "('w, 'f) format_writer \<Rightarrow> ('f, 'd) to_f32 \<Rightarrow> ('w, 'f, 'd, 'c, unit) exec" where
  "process_complete_frames W F =
     bindM (gets (\<lambda>s. frame_interval_ns (pc_streaming (ex_config s)))) (\<lambda>interval.
     bindM (returning interval) (\<lambda>_. complete_frames W F))"


section \<open>Messages\<close>

definition gap_boundary :: "u64 \<Rightarrow> ('w, 'f, 'd, 'c) executor \<Rightarrow> bool" where
  "gap_boundary log_time s =
     (case (pc_episode_strategy (ex_config s), ex_last s) of
        (GapBased threshold, Some last_ts) \<Rightarrow> log_time > last_ts \<and> log_time - last_ts > threshold
      | _ \<Rightarrow> False)"

definition count_boundary :: "('w, 'f, 'd, 'c) executor \<Rightarrow> bool" where
  "count_boundary s =
     (case pc_episode_strategy (ex_config s) of FrameCount n \<Rightarrow> ex_frames_in_episode s \<ge> n | _ \<Rightarrow> False)"

definition max_reached :: "('w, 'f, 'd, 'c) executor \<Rightarrow> bool" where
  "max_reached s = (case pc_max_frames (ex_config s) of Some n \<Rightarrow> ps_frames_written (ex_stats s) \<ge> n | None \<Rightarrow> False)"

definition next_episode :: "('w, 'f) format_writer \<Rightarrow> (('w, 'f, 'd, 'c) executor \<Rightarrow> bool) \<Rightarrow> ('w, 'f, 'd, 'c, unit) exec" where
  "next_episode W boundary =
     bindM (gets boundary) (\<lambda>b.
     if \<not> b then ret ()
     else bindM (pl_finish_episode W) (\<lambda>_.
          bindM (gets ex_episode_index) (\<lambda>i. pl_start_episode W (i + 1))))"

text \<open>The message goes into the buffer under its timestamp.\<close>

definition buffer_message :: "u64 \<Rightarrow> ('f, 'd) message \<Rightarrow> ('w, 'f, 'd, 'c) executor \<Rightarrow> ('w, 'f, 'd, 'c) executor" where
  "buffer_message ts msg s =
     s\<lparr>ex_buffer := AList.map_default ts [msg] (\<lambda>ms. ms @ [msg]) (ex_buffer s),
       ex_current := (case ex_current s of None \<Rightarrow> Some ts | Some t \<Rightarrow> Some t),
       ex_end := Some (max ts (case ex_end s of None \<Rightarrow> 0 | Some t \<Rightarrow> t))\<rparr>"

definition aligned_timestamp :: "'c pipeline_config \<Rightarrow> u64 \<Rightarrow> u64 panics" where
  "aligned_timestamp c log_time =
     (case frame_interval_ns (pc_streaming c) of
        Panic \<Rightarrow> Panic
      | Returns interval \<Rightarrow>
          (case div_by log_time interval of Panic \<Rightarrow> Panic | Returns frame_idx \<Rightarrow> Returns (frame_idx * interval)))"

definition pl_process_message :: "('w, 'f) format_writer \<Rightarrow> ('f, 'd) to_f32 \<Rightarrow> ('f, 'd) message \<Rightarrow> ('w, 'f, 'd, 'c, unit) exec" where
  "pl_process_message W F msg =
     bindM (modifyM (\<lambda>s. s\<lparr>ex_stats := (ex_stats s)\<lparr>ps_messages_processed := ps_messages_processed (ex_stats s) + 1\<rparr>\<rparr>)) (\<lambda>_.
     bindM (gets max_reached) (\<lambda>full.
     if full then ret ()
     else bindM (gets ex_episode_started) (\<lambda>started.
          bindM (if \<not> started then pl_start_episode W 0 else ret ()) (\<lambda>_.
          bindM (next_episode W (gap_boundary (msg_log_time msg))) (\<lambda>_.
          bindM (next_episode W count_boundary) (\<lambda>_.
          bindM (modifyM (\<lambda>s. s\<lparr>ex_last := Some (msg_log_time msg)\<rparr>)) (\<lambda>_.
          bindM (gets (\<lambda>s. is_camera_info_topic (msg_data msg) \<and> msg_topic msg \<in> ex_camera_info s)) (\<lambda>seen.
          if seen then ret ()
          else bindM (modifyM (\<lambda>s. if is_camera_info_topic (msg_data msg)
                                     then s\<lparr>ex_camera_info := insert (msg_topic msg) (ex_camera_info s)\<rparr> else s)) (\<lambda>_.
               bindM (gets (\<lambda>s. aligned_timestamp (ex_config s) (msg_log_time msg))) (\<lambda>aligned.
               bindM (returning aligned) (\<lambda>ts.
               bindM (modifyM (buffer_message ts msg)) (\<lambda>_. process_complete_frames W F))))))))))))"

fun pl_process_messages :: "('w, 'f) format_writer \<Rightarrow> ('f, 'd) to_f32 \<Rightarrow> ('f, 'd) message list \<Rightarrow> ('w, 'f, 'd, 'c, unit) exec" where
  "pl_process_messages W F [] = ret ()"
| "pl_process_messages W F (m # ms) = bindM (pl_process_message W F m) (\<lambda>_. pl_process_messages W F ms)"

fun flush_frames :: "('w, 'f) format_writer \<Rightarrow> ('f, 'd) to_f32 \<Rightarrow> (u64 \<times> ('f, 'd) message list) list \<Rightarrow> ('w, 'f, 'd, 'c, unit) exec" where
  "flush_frames W F [] = ret ()"
| "flush_frames W F ((ts, msgs) # rest) =
     bindM (if msgs \<noteq> [] then frame_step W F ts msgs else ret ()) (\<lambda>_. flush_frames W F rest)"

definition pl_finalize :: "('w, 'f) format_writer \<Rightarrow> ('f, 'd) to_f32 \<Rightarrow> string \<Rightarrow> ('w, 'f, 'd, 'c, pipeline_stats) exec" where
  "pl_finalize W F policy =
     bindM (gets ex_buffer) (\<lambda>remaining.
     bindM (modifyM (\<lambda>s. s\<lparr>ex_buffer := []\<rparr>)) (\<lambda>_.
     bindM (flush_frames W F remaining) (\<lambda>_.
     bindM (pl_finish_episode W) (\<lambda>_.
     bindM (on_writer (fw_finalize W)) (\<lambda>ws.
     bindM (modifyM (\<lambda>s. s\<lparr>ex_stats := (ex_stats s)\<lparr>ps_frames_written := ws_frames_written ws, ps_policy_name := policy\<rparr>\<rparr>)) (\<lambda>_.
     gets ex_stats))))))"

section \<open>What the writer sees\<close>

text \<open>
  The calls of the writer as a function of the messages. A plan has the state of the executor that decides about
  episodes and frames, without a buffer: a message becomes a frame of its own.
\<close>

datatype 'f writer_op = StartOp nat | WriteOp "'f aligned_frame" | FinishOp

fun run_op :: "('w, 'f) format_writer \<Rightarrow> 'f writer_op \<Rightarrow> ('w, string abort, unit) prog" where
  "run_op W (StartOp i) = bindM (fw_start_episode W (Some i)) (\<lambda>_. ret ())"
| "run_op W (WriteOp f) = fw_write_frame W f"
| "run_op W FinishOp = bindM (fw_finish_episode W) (\<lambda>_. ret ())"

fun run_ops :: "('w, 'f) format_writer \<Rightarrow> 'f writer_op list \<Rightarrow> ('w, string abort, unit) prog" where
  "run_ops W [] = ret ()"
| "run_ops W (x # xs) = bindM (run_op W x) (\<lambda>_. run_ops W xs)"

record plan_state =
  pn_started :: bool
  pn_episode :: nat
  pn_in_episode :: nat
  pn_frames :: nat
  pn_last :: "u64 option"
  pn_cameras :: "string set"

definition plan_start :: plan_state where
  "plan_start = \<lparr> pn_started = False, pn_episode = 0, pn_in_episode = 0, pn_frames = 0, pn_last = None, pn_cameras = {} \<rparr>"

type_synonym 'f planned = "'f writer_op list \<times> plan_state"

definition plan_open :: "plan_state \<Rightarrow> 'f planned" where
  "plan_open p = (if pn_started p then ([], p) else ([StartOp 0], p\<lparr>pn_started := True, pn_episode := 0, pn_in_episode := 0\<rparr>))"

definition plan_next :: "bool \<Rightarrow> plan_state \<Rightarrow> 'f planned" where
  "plan_next b p =
     (if b then ([FinishOp, StartOp (pn_episode p + 1)], p\<lparr>pn_episode := pn_episode p + 1, pn_in_episode := 0\<rparr>) else ([], p))"

definition gap_at :: "'c pipeline_config \<Rightarrow> u64 \<Rightarrow> plan_state \<Rightarrow> bool" where
  "gap_at c log_time p =
     (case (pc_episode_strategy c, pn_last p) of
        (GapBased threshold, Some last_ts) \<Rightarrow> log_time > last_ts \<and> log_time - last_ts > threshold
      | _ \<Rightarrow> False)"

definition full_at :: "'c pipeline_config \<Rightarrow> plan_state \<Rightarrow> bool" where
  "full_at c p = (case pc_episode_strategy c of FrameCount n \<Rightarrow> pn_in_episode p \<ge> n | _ \<Rightarrow> False)"

definition interval :: "'c pipeline_config \<Rightarrow> u64" where
  "interval c = 1000000000 div ucast (st_fps (pc_streaming c))"

definition floor_to :: "u64 \<Rightarrow> u64 \<Rightarrow> u64" where
  "floor_to i t = t div i * i"

definition plan_frame :: "('f, 'd) to_f32 \<Rightarrow> 'c pipeline_config \<Rightarrow> ('f, 'd) message \<Rightarrow> plan_state \<Rightarrow> 'f planned" where
  "plan_frame F c msg p =
     (case messages_to_frame F c (pn_frames p) [msg] (floor_to (interval c) (msg_log_time msg)) of
        Inr (Some frame) \<Rightarrow>
          ([WriteOp frame], p\<lparr>pn_frames := pn_frames p + 1,
             pn_in_episode := pn_in_episode p + (if af_images frame \<noteq> [] then 1 else 0)\<rparr>)
      | _ \<Rightarrow> ([], p))"

definition plan_then :: "'f planned \<Rightarrow> (plan_state \<Rightarrow> 'f planned) \<Rightarrow> 'f planned" where
  "plan_then x f = (fst x @ fst (f (snd x)), snd (f (snd x)))"

definition plan_message :: "('f, 'd) to_f32 \<Rightarrow> 'c pipeline_config \<Rightarrow> ('f, 'd) message \<Rightarrow> plan_state \<Rightarrow> 'f planned" where
  "plan_message F c msg p =
     (if (case pc_max_frames c of Some n \<Rightarrow> pn_frames p \<ge> n | None \<Rightarrow> False) then ([], p)
      else plan_then (plan_then (plan_then (plan_open p) (\<lambda>p. plan_next (gap_at c (msg_log_time msg) p) p))
             (\<lambda>p. plan_next (full_at c p) p))
           (\<lambda>p. let p' = p\<lparr>pn_last := Some (msg_log_time msg)\<rparr>
                in if is_camera_info_topic (msg_data msg) \<and> msg_topic msg \<in> pn_cameras p' then ([], p')
                   else plan_frame F c msg
                     (if is_camera_info_topic (msg_data msg) then p'\<lparr>pn_cameras := insert (msg_topic msg) (pn_cameras p')\<rparr> else p')))"

fun plan :: "('f, 'd) to_f32 \<Rightarrow> 'c pipeline_config \<Rightarrow> ('f, 'd) message list \<Rightarrow> plan_state \<Rightarrow> 'f planned" where
  "plan F c [] p = ([], p)"
| "plan F c (m # ms) p = plan_then (plan_message F c m p) (plan F c ms)"

end
