(* ===== verification/Lerobot_Disk.thy ===== *)
theory Lerobot_Disk
  imports Lerobot_Table Lerobot_Config Video_Frame Dataset_Pipeline
begin

text \<open>
  What the LeRobot writer writes: the metadata collector (\<open>formats/lerobot/metadata.rs\<close>), camera parameters
  (\<open>roboflow-media/src/camera.rs\<close>), videos (\<open>video/dataset_encode.rs\<close>) and the disk they go to. A disk maps paths to what
  the files hold. Every call of the file system, of the Parquet writer and of the video encoder may fail: the list
  \<open>dk_faults\<close> says which of the next calls do, so that it stands for any sequence of failures. A file whose writing was
  cut off is \<open>PartialFile\<close>. Directories are not tracked: a missing one is a failing call. Error texts are shortened to the
  step that failed. The encoder (FFmpeg), the composition of videos and the sizes of files are the parameter \<open>media\<close>.
  Encoding cameras in parallel, which is only done for hardware encoders, is left out.
\<close>

section \<open>Metadata\<close>

record episode_info =
  ei_episode_index :: nat
  ei_length :: nat
  ei_tasks :: "nat list"

record metadata_collector =
  mc_episodes :: "episode_info list"
  mc_tasks :: "(string \<times> nat) list"
  mc_episode_stats :: "(nat \<times> (string \<times> feature_stats) list) list"
  mc_image_shapes :: "(string \<times> nat \<times> nat) list"
  mc_state_dims :: "(string \<times> nat) list"
  mc_total_frames :: nat

definition metadata_new :: metadata_collector where
  "metadata_new = \<lparr> mc_episodes = [], mc_tasks = [], mc_episode_stats = [], mc_image_shapes = [], mc_state_dims = [],
     mc_total_frames = 0 \<rparr>"

definition mc_add_episode :: "nat \<Rightarrow> nat \<Rightarrow> nat list \<Rightarrow> metadata_collector \<Rightarrow> metadata_collector" where
  "mc_add_episode index len tasks m =
     m\<lparr>mc_episodes := mc_episodes m @ [\<lparr> ei_episode_index = index, ei_length = len, ei_tasks = tasks \<rparr>],
       mc_total_frames := mc_total_frames m + len\<rparr>"

definition mc_register_task :: "string \<Rightarrow> metadata_collector \<Rightarrow> nat \<times> metadata_collector" where
  "mc_register_task task m =
     (case map_of (mc_tasks m) task of
        Some i \<Rightarrow> (i, m)
      | None \<Rightarrow> (length (mc_tasks m), m\<lparr>mc_tasks := mc_tasks m @ [(task, length (mc_tasks m))]\<rparr>))"

definition mc_update_image_shape :: "string \<Rightarrow> nat \<Rightarrow> nat \<Rightarrow> metadata_collector \<Rightarrow> metadata_collector" where
  "mc_update_image_shape camera w h m = m\<lparr>mc_image_shapes := AList.update camera (w, h) (mc_image_shapes m)\<rparr>"

definition mc_update_state_dim :: "string \<Rightarrow> nat \<Rightarrow> metadata_collector \<Rightarrow> metadata_collector" where
  "mc_update_state_dim feature n m = m\<lparr>mc_state_dims := AList.update feature n (mc_state_dims m)\<rparr>"

definition mc_add_episode_stats :: "nat \<Rightarrow> (string \<times> feature_stats) list \<Rightarrow> metadata_collector \<Rightarrow> metadata_collector" where
  "mc_add_episode_stats index stats m = m\<lparr>mc_episode_stats := mc_episode_stats m @ [(index, stats)]\<rparr>"

datatype feature_info = FloatFeature nat | VideoFeature nat nat u32 string

record lerobot_info =
  lo_name :: string
  lo_codebase_version :: string
  lo_robot_type :: string
  lo_total_episodes :: nat
  lo_total_frames :: nat
  lo_fps :: u32
  lo_features :: "(string \<times> feature_info) list"
  lo_video :: "u32 \<times> string"

definition info_features :: "metadata_collector \<Rightarrow> lerobot_config \<Rightarrow> (string \<times> feature_info) list" where
  "info_features m c =
     fold (\<lambda>(camera, w, h). AList.update camera (VideoFeature h w (ds_fps (lc_dataset c)) (vc_codec (lc_video c))))
       (mc_image_shapes m)
       ((case map_of (mc_state_dims m) ''observation.state'' of Some n \<Rightarrow> [(''observation.state'', FloatFeature n)] | None \<Rightarrow> [])
        @ (case map_of (mc_state_dims m) ''action'' of Some n \<Rightarrow> [(''action'', FloatFeature n)] | None \<Rightarrow> []))"

definition dataset_info :: "metadata_collector \<Rightarrow> lerobot_config \<Rightarrow> lerobot_info" where
  "dataset_info m c =
     \<lparr> lo_name = ds_name (lc_dataset c), lo_codebase_version = ''v2.1'',
       lo_robot_type = (case ds_robot_type (lc_dataset c) of Some r \<Rightarrow> r | None \<Rightarrow> ''unknown''),
       lo_total_episodes = length (mc_episodes m), lo_total_frames = mc_total_frames m, lo_fps = ds_fps (lc_dataset c),
       lo_features = info_features m c, lo_video = (ds_fps (lc_dataset c), vc_codec (lc_video c)) \<rparr>"

section \<open>The disk\<close>

record camera_intrinsic =
  ci_fx :: real
  ci_fy :: real
  ci_ppx :: real
  ci_ppy :: real
  ci_distortion_model :: string
  ci_k1 :: real
  ci_k2 :: real
  ci_k3 :: real
  ci_p1 :: real
  ci_p2 :: real

record camera_extrinsic =
  ce_rotation_matrix :: "real list list"
  ce_translation_vector :: "real list"

datatype dataset_file =
    ParquetFile "real table" | VideoFile "video_frame list" | InfoFile lerobot_info | EpisodesFile "episode_info list"
  | TasksFile "(nat \<times> string) list" | StatsFile "(nat \<times> (string \<times> feature_stats) list) list"
  | IntrinsicFile camera_intrinsic | ExtrinsicFile camera_extrinsic | PartialFile

record disk =
  dk_files :: "string \<rightharpoonup> dataset_file"
  dk_faults :: "bool list"

type_synonym 'a io = "(disk, string abort, 'a) prog"

definition io_call :: "string \<Rightarrow> unit io" where
  "io_call step = (\<lambda>d.
     case dk_faults d of
       [] \<Rightarrow> (Inr (), d)
     | fails # rest \<Rightarrow> (if fails then Inl (Err step) else Inr (), d\<lparr>dk_faults := rest\<rparr>))"

definition put_file :: "string \<Rightarrow> dataset_file \<Rightarrow> disk \<Rightarrow> disk" where
  "put_file path content d = d\<lparr>dk_files := (dk_files d)(path \<mapsto> content)\<rparr>"

text \<open>\<open>fs::write\<close>, and a file that is created and then written in several calls.\<close>

definition write_file :: "string \<Rightarrow> dataset_file \<Rightarrow> unit io" where
  "write_file path content = bindM (io_call path) (\<lambda>_. modifyM (put_file path content))"

fun io_calls :: "nat \<Rightarrow> string \<Rightarrow> unit io" where
  "io_calls 0 step = ret ()"
| "io_calls (Suc n) step = bindM (io_call step) (\<lambda>_. io_calls n step)"

definition write_in_steps :: "nat \<Rightarrow> string \<Rightarrow> dataset_file \<Rightarrow> unit io" where
  "write_in_steps n path content =
     bindM (io_call path) (\<lambda>_.
     bindM (modifyM (put_file path PartialFile)) (\<lambda>_.
     bindM (io_calls n path) (\<lambda>_.
     modifyM (put_file path content))))"

definition sort_tasks :: "(string \<times> nat) list \<Rightarrow> (nat \<times> string) list" where
  "sort_tasks tasks = map (\<lambda>(t, i). (i, t)) (sort_key snd tasks)"

definition write_info_json :: "metadata_collector \<Rightarrow> string \<Rightarrow> lerobot_config \<Rightarrow> unit io" where
  "write_info_json m meta_dir c = write_file (meta_dir @ ''/info.json'') (InfoFile (dataset_info m c))"

definition write_episodes_jsonl :: "metadata_collector \<Rightarrow> string \<Rightarrow> unit io" where
  "write_episodes_jsonl m meta_dir =
     write_in_steps (length (mc_episodes m)) (meta_dir @ ''/episodes.jsonl'') (EpisodesFile (mc_episodes m))"

definition write_tasks_jsonl :: "metadata_collector \<Rightarrow> string \<Rightarrow> unit io" where
  "write_tasks_jsonl m meta_dir =
     (if mc_tasks m = [] then ret ()
      else write_in_steps (length (mc_tasks m)) (meta_dir @ ''/tasks.jsonl'') (TasksFile (sort_tasks (mc_tasks m))))"

definition write_episodes_stats_jsonl :: "metadata_collector \<Rightarrow> string \<Rightarrow> unit io" where
  "write_episodes_stats_jsonl m meta_dir =
     write_in_steps (length (mc_episode_stats m)) (meta_dir @ ''/episodes_stats.jsonl'') (StatsFile (mc_episode_stats m))"

definition mc_write_all :: "metadata_collector \<Rightarrow> string \<Rightarrow> lerobot_config \<Rightarrow> unit io" where
  "mc_write_all m output_dir c =
     (let meta_dir = output_dir @ ''/meta'' in
      bindM (io_call meta_dir) (\<lambda>_.
      bindM (write_info_json m meta_dir c) (\<lambda>_.
      bindM (write_episodes_jsonl m meta_dir) (\<lambda>_.
      bindM (write_tasks_jsonl m meta_dir) (\<lambda>_.
      write_episodes_stats_jsonl m meta_dir)))))"

section \<open>Camera parameters\<close>

fun write_intrinsics :: "string \<Rightarrow> (string \<times> camera_intrinsic) list \<Rightarrow> unit io" where
  "write_intrinsics dir [] = ret ()"
| "write_intrinsics dir ((camera, p) # rest) =
     bindM (write_file (dir @ ''/'' @ camera @ ''_intrinsic.json'') (IntrinsicFile p)) (\<lambda>_. write_intrinsics dir rest)"

fun write_extrinsics :: "string \<Rightarrow> (string \<times> camera_extrinsic) list \<Rightarrow> unit io" where
  "write_extrinsics dir [] = ret ()"
| "write_extrinsics dir ((camera, p) # rest) =
     bindM (write_file (dir @ ''/'' @ camera @ ''_extrinsic.json'') (ExtrinsicFile p)) (\<lambda>_. write_extrinsics dir rest)"

definition write_camera_params ::
    "(string \<times> camera_intrinsic) list \<Rightarrow> (string \<times> camera_extrinsic) list \<Rightarrow> string \<Rightarrow> unit io" where
  "write_camera_params intrinsics extrinsics output_dir =
     (if intrinsics = [] \<and> extrinsics = [] then ret ()
      else bindM (io_call ''parameters'') (\<lambda>_.
           bindM (write_intrinsics (output_dir @ ''/parameters'') intrinsics) (\<lambda>_.
           write_extrinsics (output_dir @ ''/parameters'') extrinsics)))"

definition extrinsic_new :: "real \<times> real \<times> real \<Rightarrow> real \<times> real \<times> real \<Rightarrow> real \<times> real \<times> real \<Rightarrow> real \<times> real \<times> real \<Rightarrow> camera_extrinsic" where
  "extrinsic_new r0 r1 r2 t =
     (let row = (\<lambda>(x, y, z). [x, y, z]) in \<lparr> ce_rotation_matrix = [row r0, row r1, row r2], ce_translation_vector = row t \<rparr>)"

section \<open>Videos\<close>

record media =
  md_decode :: rgb_decoder
  md_threads :: nat
  md_video_bytes :: "video_frame list \<Rightarrow> u64"
  md_compose :: "video_frame list list \<Rightarrow> video_frame list"
  md_table_bytes :: "real table \<Rightarrow> nat"

record encode_stats =
  en_images_encoded :: nat
  en_skipped_frames :: nat
  en_failed_encodings :: nat
  en_output_bytes :: u64

definition no_encodings :: encode_stats where
  "no_encodings = \<lparr> en_images_encoded = 0, en_skipped_frames = 0, en_failed_encodings = 0, en_output_bytes = 0 \<rparr>"

text \<open>An encoder is created on a path, gets the frames one after another and is finalized.\<close>

definition run_encoder :: "media \<Rightarrow> string \<Rightarrow> video_frame list \<Rightarrow> u64 io" where
  "run_encoder M path frames =
     bindM (io_call ''create encoder'') (\<lambda>_.
     bindM (modifyM (put_file path PartialFile)) (\<lambda>_.
     bindM (io_calls (length frames) ''encode frame'') (\<lambda>_.
     bindM (io_call ''finalize encoder'') (\<lambda>_.
     bindM (modifyM (put_file path (VideoFile frames))) (\<lambda>_.
     ret (md_video_bytes M frames))))))"

definition encode_camera :: "media \<Rightarrow> string \<Rightarrow> nat \<Rightarrow> string \<times> image_data list \<Rightarrow> encode_stats \<Rightarrow> encode_stats io" where
  "encode_camera M videos_dir episode cam stats =
     (case cam of (camera, images) \<Rightarrow>
        case build_frame_buffer_static (md_threads M) (md_decode M) images of (buffer, skipped) \<Rightarrow>
          let stats' = stats\<lparr>en_skipped_frames := en_skipped_frames stats + skipped\<rparr> in
          if vb_frames buffer = [] then ret stats'
          else bindM (io_call camera) (\<lambda>_.
               bindM (run_encoder M (videos_dir @ ''/'' @ camera @ ''/'' @ episode_file episode @ ''.mp4'') (vb_frames buffer)) (\<lambda>bytes.
               ret (stats'\<lparr>en_images_encoded := en_images_encoded stats + length (vb_frames buffer),
                           en_output_bytes := en_output_bytes stats + bytes\<rparr>))))"

definition encode_videos :: "media \<Rightarrow> (string \<times> image_data list) list \<Rightarrow> nat \<Rightarrow> string \<Rightarrow> encode_stats io" where
  "encode_videos M image_buffers episode videos_dir =
     foldM (encode_camera M videos_dir episode) (filter (\<lambda>(_, images). images \<noteq> []) image_buffers) no_encodings"

end
