(* ===== verification/Lerobot_Writer.thy ===== *)
theory Lerobot_Writer
  imports Lerobot_Disk
begin

text \<open>
  \<open>formats/lerobot/writer/writer_impl.rs\<close> and \<open>formats/lerobot/format_writer_impl.rs\<close>: the writer of LeRobot datasets and the
  record of operations it offers to the pipeline executor. The session identifier is an argument of the constructors and
  the time at which an episode was started, which is only reported, is left out. An episode index divided by zero
  episodes per chunk is a panic.
\<close>

section \<open>State\<close>

record lerobot_writer =
  lw_output_prefix :: string
  lw_output_dir :: string
  lw_config :: lerobot_config
  lw_episode_index :: nat
  lw_segment_index :: nat
  lw_session_id :: string
  lw_pending_segments :: "(string \<times> string list) list"
  lw_episodes_per_chunk :: u32
  lw_frame_data :: "real lerobot_frame list"
  lw_image_buffers :: "(string \<times> image_data list) list"
  lw_metadata :: metadata_collector
  lw_camera_intrinsics :: "(string \<times> camera_intrinsic) list"
  lw_camera_extrinsics :: "(string \<times> camera_extrinsic) list"
  lw_total_frames :: nat
  lw_images_encoded :: nat
  lw_skipped_frames :: nat
  lw_initialized :: bool
  lw_output_bytes :: u64
  lw_failed_encodings :: nat
  lw_images_since_flush :: nat
  lw_disk :: disk

type_synonym 'a lw = "(lerobot_writer, string abort, 'a) prog"

definition on_disk :: "'a io \<Rightarrow> 'a lw" where
  "on_disk p = (\<lambda>w. case p (lw_disk w) of (r, d) \<Rightarrow> (r, w\<lparr>lw_disk := d\<rparr>))"

definition DEFAULT_EPISODES_PER_CHUNK :: u32 where
  "DEFAULT_EPISODES_PER_CHUNK = 500"

definition writer_with :: "string \<Rightarrow> string \<Rightarrow> lerobot_config \<Rightarrow> string \<Rightarrow> disk \<Rightarrow> lerobot_writer" where
  "writer_with pre dir config session d =
     \<lparr> lw_output_prefix = pre, lw_output_dir = dir, lw_config = config, lw_episode_index = 0, lw_segment_index = 0,
       lw_session_id = session, lw_pending_segments = [], lw_episodes_per_chunk = DEFAULT_EPISODES_PER_CHUNK,
       lw_frame_data = [], lw_image_buffers = [], lw_metadata = metadata_new, lw_camera_intrinsics = [],
       lw_camera_extrinsics = [], lw_total_frames = 0, lw_images_encoded = 0, lw_skipped_frames = 0, lw_initialized = True,
       lw_output_bytes = 0, lw_failed_encodings = 0, lw_images_since_flush = 0, lw_disk = d \<rparr>"

text \<open>A new local writer creates four directories and switches off flushing by the number of frames.\<close>

definition new_local :: "string \<Rightarrow> lerobot_config \<Rightarrow> string \<Rightarrow> lerobot_writer io" where
  "new_local dir config session =
     (if list_ex (starts_with dir) [''s3://'', ''oss://'', ''S3://'', ''OSS://'']
      then throw (Err ''output_dir appears to be a cloud storage URL'')
      else bindM (io_calls 4 ''create directories'') (\<lambda>_.
           gets (writer_with [] dir (config\<lparr>lc_flushing := (lc_flushing config)\<lparr>fl_max_frames_per_chunk := 0\<rparr>\<rparr>) session)))"

definition new_internal :: "string \<Rightarrow> string \<Rightarrow> lerobot_config \<Rightarrow> string \<Rightarrow> lerobot_writer io" where
  "new_internal pre dir config session =
     bindM (io_calls 4 ''create directories'') (\<lambda>_. gets (writer_with pre dir config session))"

section \<open>Chunks\<close>

definition lw_chunk_index :: "lerobot_writer \<Rightarrow> nat panics" where
  "lw_chunk_index w =
     (if lw_episodes_per_chunk w = 0 then Panic
      else Returns (lw_episode_index w div unat (lw_episodes_per_chunk w) mod 2 ^ 32))"

definition data_chunk_dir :: "nat \<Rightarrow> lerobot_writer \<Rightarrow> string" where
  "data_chunk_dir chunk w = lw_output_dir w @ ''/data/'' @ chunk_name chunk"

definition videos_chunk_dir :: "nat \<Rightarrow> lerobot_writer \<Rightarrow> string" where
  "videos_chunk_dir chunk w = lw_output_dir w @ ''/videos/'' @ chunk_name chunk"

definition ensure_chunk_dirs :: "unit lw" where
  "ensure_chunk_dirs = bindM (gets lw_chunk_index) (\<lambda>c. bindM (returning c) (\<lambda>_. on_disk (io_calls 2 ''chunk directories'')))"

text \<open>The inherent \<open>start_episode\<close>, which the traits do not use.\<close>

definition lw_start_episode_dirs :: "unit lw" where
  "lw_start_episode_dirs = ensure_chunk_dirs"

definition set_episode_index :: "nat \<Rightarrow> lerobot_writer \<Rightarrow> lerobot_writer" where
  "set_episode_index index w = w\<lparr>lw_episode_index := index\<rparr>"

definition set_episodes_per_chunk :: "u32 \<Rightarrow> lerobot_writer \<Rightarrow> lerobot_writer" where
  "set_episodes_per_chunk count w = w\<lparr>lw_episodes_per_chunk := count\<rparr>"

definition lw_frame_count :: "lerobot_writer \<Rightarrow> nat" where
  "lw_frame_count w = lw_total_frames w + length (lw_frame_data w)"

section \<open>Frames and images\<close>

definition add_frame :: "real lerobot_frame \<Rightarrow> lerobot_writer \<Rightarrow> lerobot_writer" where
  "add_frame f w =
     w\<lparr>lw_metadata :=
         (let m = lw_metadata w;
              m = (case lf_observation_state f of Some s \<Rightarrow> mc_update_state_dim ''observation.state'' (length s) m | None \<Rightarrow> m)
          in (case lf_action f of Some a \<Rightarrow> mc_update_state_dim ''action'' (length a) m | None \<Rightarrow> m)),
       lw_frame_data := lw_frame_data w @ [f]\<rparr>"

definition lw_add_image :: "string \<Rightarrow> image_data \<Rightarrow> lerobot_writer \<Rightarrow> lerobot_writer" where
  "lw_add_image camera img w =
     w\<lparr>lw_metadata := mc_update_image_shape camera (unat (im_width img)) (unat (im_height img)) (lw_metadata w),
       lw_image_buffers := AList.map_default camera [img] (\<lambda>imgs. imgs @ [img]) (lw_image_buffers w),
       lw_images_since_flush := lw_images_since_flush w + 1\<rparr>"

definition estimate_memory_bytes :: "lerobot_writer \<Rightarrow> nat" where
  "estimate_memory_bytes w =
     length (lw_frame_data w) * 512
     + sum_list (map (\<lambda>(_, imgs). sum_list (map (length \<circ> im_data) imgs)) (lw_image_buffers w))"

definition clear_images :: "lerobot_writer \<Rightarrow> lerobot_writer" where
  "clear_images w = w\<lparr>lw_image_buffers := map (\<lambda>(camera, _). (camera, [])) (lw_image_buffers w)\<rparr>"

definition count_encodings :: "encode_stats \<Rightarrow> lerobot_writer \<Rightarrow> lerobot_writer" where
  "count_encodings s w =
     w\<lparr>lw_images_encoded := lw_images_encoded w + en_images_encoded s,
       lw_skipped_frames := lw_skipped_frames w + en_skipped_frames s,
       lw_failed_encodings := lw_failed_encodings w + en_failed_encodings s,
       lw_output_bytes := lw_output_bytes w + en_output_bytes s\<rparr>"

definition no_images :: "lerobot_writer \<Rightarrow> bool" where
  "no_images w \<longleftrightarrow> list_all (\<lambda>(_, imgs). imgs = []) (lw_image_buffers w)"

section \<open>Segments\<close>

definition session_dir :: "lerobot_writer \<Rightarrow> string" where
  "session_dir w = lw_output_dir w @ ''/temp/'' @ lw_session_id w"

definition segment_dir :: "lerobot_writer \<Rightarrow> string" where
  "segment_dir w = session_dir w @ ''/segment_'' @ pad_zero 4 (show_nat (lw_segment_index w))"

text \<open>A camera whose video cannot be encoded is counted and left out.\<close>

definition encode_segment :: "media \<Rightarrow> string \<Rightarrow> string \<times> image_data list \<Rightarrow> encode_stats \<times> (string \<times> string) list \<Rightarrow>
    (encode_stats \<times> (string \<times> string) list) io" where
  "encode_segment M dir cam x =
     (case cam of (camera, images) \<Rightarrow> case x of (stats, paths) \<Rightarrow>
        if images = [] then ret x
        else case build_frame_buffer_static (md_threads M) (md_decode M) images of (buffer, skipped) \<Rightarrow>
          let stats' = stats\<lparr>en_skipped_frames := en_skipped_frames stats + skipped\<rparr> in
          if vb_frames buffer = [] then ret (stats', paths)
          else let path = dir @ ''/'' @ camera @ ''/segment.mp4'' in
               bindM (io_call camera) (\<lambda>_.
               handleM (run_encoder M path (vb_frames buffer))
                 (\<lambda>_. ret (stats'\<lparr>en_failed_encodings := en_failed_encodings stats + 1\<rparr>, paths))
                 (\<lambda>bytes. ret (stats'\<lparr>en_images_encoded := en_images_encoded stats + length (vb_frames buffer),
                                     en_output_bytes := en_output_bytes stats + bytes\<rparr>, paths @ [(path, camera)]))))"

definition track_segment :: "string \<times> string \<Rightarrow> lerobot_writer \<Rightarrow> lerobot_writer" where
  "track_segment seg w =
     (case seg of (path, camera) \<Rightarrow>
        w\<lparr>lw_pending_segments := AList.map_default camera [path] (\<lambda>ps. ps @ [path]) (lw_pending_segments w)\<rparr>)"

definition flush_video_segment :: "media \<Rightarrow> unit lw" where
  "flush_video_segment M =
     bindM (gets no_images) (\<lambda>empty.
     if empty then ret ()
     else bindM (on_disk (io_call ''segment directory'')) (\<lambda>_.
          bindM (gets (\<lambda>w. (lw_image_buffers w, segment_dir w))) (\<lambda>(cams, dir).
          bindM (on_disk (foldM (encode_segment M dir) cams (no_encodings, []))) (\<lambda>(stats, paths).
          bindM (modifyM (count_encodings stats)) (\<lambda>_.
          bindM (modifyM (fold track_segment paths)) (\<lambda>_.
          bindM (modifyM clear_images) (\<lambda>_.
          modifyM (\<lambda>w. w\<lparr>lw_images_since_flush := 0, lw_segment_index := lw_segment_index w + 1\<rparr>))))))))"

text \<open>The segments of each camera, composed to the video of the episode.\<close>

fun read_segments :: "string list \<Rightarrow> video_frame list list io" where
  "read_segments [] = ret []"
| "read_segments (p # ps) =
     bindM (io_call p) (\<lambda>_.
     bindM (gets (\<lambda>d. dk_files d p)) (\<lambda>file.
     case file of
       Some (VideoFile frames) \<Rightarrow> bindM (read_segments ps) (\<lambda>rest. ret (frames # rest))
     | _ \<Rightarrow> throw (Err p)))"

definition final_video_path :: "lerobot_writer \<Rightarrow> nat \<Rightarrow> string \<Rightarrow> string" where
  "final_video_path w chunk camera =
     lw_output_dir w @ ''/''
     @ (if lw_output_prefix w = [] then lr_video_path chunk camera (lw_episode_index w)
        else lw_output_prefix w @ ''/'' @ lr_video_path chunk camera (lw_episode_index w))"

definition compose_camera :: "media \<Rightarrow> string \<Rightarrow> string list \<Rightarrow> unit io" where
  "compose_camera M path segments =
     (if segments = [] then ret ()
      else bindM (io_call ''temporary directory'') (\<lambda>_.
           bindM (read_segments segments) (\<lambda>videos.
           bindM (io_call ''compose'') (\<lambda>_.
           bindM (io_call ''video directory'') (\<lambda>_.
           write_file path (VideoFile (md_compose M videos)))))))"

fun compose_cameras :: "media \<Rightarrow> (string \<Rightarrow> string) \<Rightarrow> (string \<times> string list) list \<Rightarrow> unit io" where
  "compose_cameras M path [] = ret ()"
| "compose_cameras M path ((camera, segments) # rest) =
     bindM (compose_camera M (path camera) segments) (\<lambda>_. compose_cameras M path rest)"

definition remove_dir_all :: "string \<Rightarrow> unit io" where
  "remove_dir_all dir =
     bindM (io_call dir) (\<lambda>_.
     modifyM (\<lambda>d. d\<lparr>dk_files := (\<lambda>p. if starts_with p (dir @ ''/'') then None else dk_files d p)\<rparr>))"

definition merge_pending_segments :: "media \<Rightarrow> unit lw" where
  "merge_pending_segments M =
     bindM (gets lw_pending_segments) (\<lambda>pending.
     if pending = [] then ret ()
     else bindM (gets lw_chunk_index) (\<lambda>c.
          bindM (returning c) (\<lambda>chunk.
          bindM (gets (\<lambda>w. final_video_path w chunk)) (\<lambda>path.
          bindM (on_disk (compose_cameras M path pending)) (\<lambda>_.
          bindM (gets session_dir) (\<lambda>dir.
          bindM (on_disk (handleM (remove_dir_all dir) (\<lambda>_. ret ()) ret)) (\<lambda>_.
          modifyM (\<lambda>w. w\<lparr>lw_pending_segments := []\<rparr>))))))))"

section \<open>Episodes\<close>

definition parquet_file :: "nat \<Rightarrow> lerobot_writer \<Rightarrow> string" where
  "parquet_file chunk w = data_chunk_dir chunk w @ ''/'' @ episode_file (lw_episode_index w) @ ''.parquet''"

definition write_table :: "media \<Rightarrow> string \<Rightarrow> real table \<Rightarrow> nat io" where
  "write_table M path t = bindM (write_in_steps 1 path (ParquetFile t)) (\<lambda>_. ret (md_table_bytes M t))"

definition write_episode_parquet :: "media \<Rightarrow> unit lw" where
  "write_episode_parquet M =
     bindM (gets lw_chunk_index) (\<lambda>c.
     bindM (returning c) (\<lambda>chunk.
     bindM (on_disk (io_call ''data directory'')) (\<lambda>_.
     bindM (gets (\<lambda>w. (lw_frame_data w, lw_episode_index w, parquet_file chunk w))) (\<lambda>(frames, episode, path).
     if frames = [] then ret ()
     else case episode_table frames episode chunk of
            Inl e \<Rightarrow> throw (Err e)
          | Inr t \<Rightarrow> bindM (on_disk (write_table M path t)) (\<lambda>bytes.
              modifyM (\<lambda>w. w\<lparr>lw_output_bytes := lw_output_bytes w + of_nat bytes\<rparr>))))))"

definition lw_encode_videos :: "media \<Rightarrow> encode_stats lw" where
  "lw_encode_videos M =
     bindM (gets lw_image_buffers) (\<lambda>buffers.
     if buffers = [] then ret no_encodings
     else bindM (gets lw_chunk_index) (\<lambda>c.
          bindM (returning c) (\<lambda>chunk.
          bindM (on_disk (io_call ''video directory'')) (\<lambda>_.
          bindM (gets (\<lambda>w. (lw_episode_index w, videos_chunk_dir chunk w))) (\<lambda>(episode, dir).
          on_disk (encode_videos M buffers episode dir))))))"

definition calculate_episode_stats :: "lerobot_writer \<Rightarrow> lerobot_writer" where
  "calculate_episode_stats w =
     (if lw_frame_data w = [] then w
      else w\<lparr>lw_metadata := mc_add_episode_stats (lw_episode_index w) (episode_feature_stats (lw_frame_data w)) (lw_metadata w)\<rparr>)"

definition add_to_metadata :: "nat list \<Rightarrow> lerobot_writer \<Rightarrow> lerobot_writer" where
  "add_to_metadata tasks w =
     w\<lparr>lw_metadata := mc_add_episode (lw_episode_index w) (length (lw_frame_data w)) tasks (lw_metadata w),
       lw_total_frames := lw_total_frames w + length (lw_frame_data w)\<rparr>"

definition finish_tail :: "nat option \<Rightarrow> encode_stats \<Rightarrow> unit lw" where
  "finish_tail task stats =
      bindM (modifyM (count_encodings stats)) (\<lambda>_.
      bindM (modifyM calculate_episode_stats) (\<lambda>_.
      bindM (modifyM (add_to_metadata (case task of Some t \<Rightarrow> [t] | None \<Rightarrow> []))) (\<lambda>_.
      bindM (modifyM (\<lambda>w. w\<lparr>lw_frame_data := []\<rparr>)) (\<lambda>_.
      bindM (modifyM clear_images) (\<lambda>_.
      modifyM (\<lambda>w. w\<lparr>lw_segment_index := lw_segment_index w + 1\<rparr>))))))"

definition lw_finish_episode :: "media \<Rightarrow> nat option \<Rightarrow> unit lw" where
  "lw_finish_episode M task_index =
     bindM (gets lw_frame_data) (\<lambda>frames.
     if frames = [] then ret ()
     else bindM (write_episode_parquet M) (\<lambda>_.
          bindM (lw_encode_videos M) (finish_tail task_index)))"

definition write_metadata :: "unit lw" where
  "write_metadata =
     bindM (gets (\<lambda>w. sg_finalize_metadata_in_coordinator (lc_streaming (lw_config w)))) (\<lambda>coordinated.
     if coordinated then ret ()
     else bindM (gets (\<lambda>w. (lw_metadata w, lw_output_dir w, lw_config w))) (\<lambda>(m, dir, c). on_disk (mc_write_all m dir c)))"

text \<open>The inherent \<open>finalize\<close>.\<close>

definition lw_finalize_dataset :: "media \<Rightarrow> nat lw" where
  "lw_finalize_dataset M =
     bindM (gets lw_frame_data) (\<lambda>frames.
     bindM (if frames \<noteq> [] then lw_finish_episode M None else ret ()) (\<lambda>_.
     bindM (merge_pending_segments M) (\<lambda>_.
     bindM write_metadata (\<lambda>_. gets lw_total_frames))))"

section \<open>The traits\<close>

text \<open>A segment that cannot be written is only logged.\<close>

definition flush_or_log :: "media \<Rightarrow> unit lw" where
  "flush_or_log M = handleM (flush_video_segment M) (\<lambda>e. case e of Err _ \<Rightarrow> ret () | Crashed \<Rightarrow> throw Crashed) ret"

definition lw_write_frame :: "media \<Rightarrow> real aligned_frame \<Rightarrow> unit lw" where
  "lw_write_frame M f =
     bindM (gets lw_initialized) (\<lambda>init.
     if \<not> init then throw (Err ''Writer not initialized'')
     else bindM (modifyM (\<lambda>w. add_frame (from_aligned_frame f (lw_episode_index w)) w)) (\<lambda>_.
          bindM (modifyM (fold (\<lambda>(camera, img). lw_add_image camera img) (af_images f))) (\<lambda>_.
          bindM (gets (\<lambda>w. should_flush (lc_flushing (lw_config w)) (lw_images_since_flush w) (estimate_memory_bytes w))) (\<lambda>flush.
          if flush then flush_or_log M
          else ret ()))))"

definition lw_finalize :: "media \<Rightarrow> writer_stats lw" where
  "lw_finalize M =
     bindM (gets no_images) (\<lambda>empty.
     bindM (if \<not> empty then flush_video_segment M else ret ()) (\<lambda>_.
     bindM (gets lw_frame_data) (\<lambda>frames.
     bindM (if frames \<noteq> []
            then bindM (write_episode_parquet M) (\<lambda>_.
                 bindM (modifyM (add_to_metadata [])) (\<lambda>_. modifyM calculate_episode_stats))
            else ret ()) (\<lambda>_.
     bindM (merge_pending_segments M) (\<lambda>_.
     bindM (gets (\<lambda>w. (lw_camera_intrinsics w, lw_camera_extrinsics w, lw_output_dir w))) (\<lambda>(i, e, dir).
     bindM (on_disk (write_camera_params i e dir)) (\<lambda>_.
     bindM write_metadata (\<lambda>_.
     gets (\<lambda>w. \<lparr> ws_frames_written = lw_total_frames w, ws_images_encoded = lw_images_encoded w,
                 ws_state_records = lw_total_frames w * 2, ws_output_bytes = lw_output_bytes w \<rparr>)))))))))"

definition trait_start_episode :: "lerobot_writer \<Rightarrow> lerobot_writer" where
  "trait_start_episode w = w\<lparr>lw_episode_index := length (lw_frame_data w)\<rparr>"

definition fw_lerobot_start :: "nat option \<Rightarrow> nat lw" where
  "fw_lerobot_start task_index = bindM (modifyM trait_start_episode) (\<lambda>_. gets lw_episode_index)"

definition fw_lerobot_finish :: "media \<Rightarrow> episode_stats lw" where
  "fw_lerobot_finish M =
     bindM (gets (\<lambda>w. (lw_episode_index w, lw_frame_count w))) (\<lambda>(episode, count).
     bindM (lw_finish_episode M (Some episode)) (\<lambda>_.
     ret \<lparr> es_frames = count, es_episode_index = episode \<rparr>))"

definition lerobot_format_writer :: "media \<Rightarrow> (lerobot_writer, real) format_writer" where
  "lerobot_format_writer M =
     \<lparr> fw_write_frame = lw_write_frame M, fw_start_episode = fw_lerobot_start, fw_finish_episode = fw_lerobot_finish M,
       fw_finalize = lw_finalize M \<rparr>"

definition lw_register_task :: "string \<Rightarrow> lerobot_writer \<Rightarrow> nat \<times> lerobot_writer" where
  "lw_register_task task w = (case mc_register_task task (lw_metadata w) of (i, m) \<Rightarrow> (i, w\<lparr>lw_metadata := m\<rparr>))"

definition set_camera_intrinsics :: "string \<Rightarrow> camera_intrinsic \<Rightarrow> lerobot_writer \<Rightarrow> lerobot_writer" where
  "set_camera_intrinsics camera p w = w\<lparr>lw_camera_intrinsics := AList.update camera p (lw_camera_intrinsics w)\<rparr>"

definition set_camera_extrinsics :: "string \<Rightarrow> camera_extrinsic \<Rightarrow> lerobot_writer \<Rightarrow> lerobot_writer" where
  "set_camera_extrinsics camera p w = w\<lparr>lw_camera_extrinsics := AList.update camera p (lw_camera_extrinsics w)\<rparr>"

end
