(* ===== verification/Pipeline_Logic.thy ===== *)
theory Pipeline_Logic
  imports Dataset_Pipeline
begin

text \<open>
  The executor carries out the plan. \<open>performs\<close> says that an operation of the executor makes given calls of the writer,
  stops at the first that fails, and otherwise ends in a state of a given shape; its rules follow the structure of the
  code. Because each message is taken out of the buffer in the same call that puts it in, the buffer is empty between
  messages, and what the writer sees is the plan, in which no frame has data of two messages.
\<close>

section \<open>Calls of the writer\<close>

definition performs :: "('w, 'f) format_writer \<Rightarrow> (('w, 'f, 'd, 'c) executor \<Rightarrow> bool) \<Rightarrow> ('w, 'f, 'd, 'c, unit) exec \<Rightarrow>
    'f writer_op list \<Rightarrow> (('w, 'f, 'd, 'c) executor \<Rightarrow> bool) \<Rightarrow> bool" where
  "performs W I m ops J \<longleftrightarrow> (\<forall>s. I s \<longrightarrow>
     (\<exists>s'. m s = (fst (run_ops W ops (ex_writer s)), s') \<and> ex_writer s' = snd (run_ops W ops (ex_writer s)) \<and>
       (fst (run_ops W ops (ex_writer s)) = Inr () \<longrightarrow> J s')))"

lemma performsD:
  assumes "performs W I m ops J" "I s" "run_ops W ops (ex_writer s) = (r, w)"
  obtains s' where "m s = (r, s')" "ex_writer s' = w" "r = Inr () \<Longrightarrow> J s'"
  using assms by (force simp: performs_def)

lemma performsI:
  assumes "\<And>s r w. I s \<Longrightarrow> run_ops W ops (ex_writer s) = (r, w) \<Longrightarrow> \<exists>s'. m s = (r, s') \<and> ex_writer s' = w \<and> (r = Inr () \<longrightarrow> J s')"
  shows "performs W I m ops J"
  unfolding performs_def using assms by (metis prod.collapse)

lemma run_ops_append: "run_ops W (xs @ ys) = bindM (run_ops W xs) (\<lambda>_. run_ops W ys)"
  by (induction xs) (auto simp: bindM_def fun_eq_iff split: prod.splits sum.splits)

lemma performs_ret: "performs W I (ret ()) [] I"
  by (simp add: performs_def)

lemma performs_pre: "performs W I m ops J \<Longrightarrow> (\<And>s. I' s \<Longrightarrow> I s) \<Longrightarrow> performs W I' m ops J"
  by (simp add: performs_def)

lemma performs_bind:
  assumes m: "performs W I m ops J" and k: "performs W J k ops' L"
  shows "performs W I (bindM m (\<lambda>_. k)) (ops @ ops') L"
proof (rule performsI)
  fix s r w assume I: "I s" and run: "run_ops W (ops @ ops') (ex_writer s) = (r, w)"
  obtain r1 w1 where r1: "run_ops W ops (ex_writer s) = (r1, w1)" by force
  obtain s1 where s1: "m s = (r1, s1)" "ex_writer s1 = w1" "r1 = Inr () \<Longrightarrow> J s1" using performsD [OF m I r1] by metis
  show "\<exists>s'. bindM m (\<lambda>_. k) s = (r, s') \<and> ex_writer s' = w \<and> (r = Inr () \<longrightarrow> L s')"
  proof (cases r1)
    case (Inl e)
    with run r1 s1 show ?thesis by (auto simp: run_ops_append bindM_def)
  next
    case (Inr u)
    then have "run_ops W ops' (ex_writer s1) = (r, w)" using run r1 s1(2) by (simp add: run_ops_append bindM_def)
    moreover have "J s1" using s1(3) Inr by simp
    ultimately obtain s2 where "k s1 = (r, s2)" "ex_writer s2 = w" "r = Inr () \<Longrightarrow> L s2"
      using performsD [OF k, of s1 r w] by metis
    then show ?thesis using s1(1) Inr by (simp add: bindM_def)
  qed
qed

lemma performs_gets: "(\<And>s. I s \<Longrightarrow> f s = a) \<Longrightarrow> performs W I (k a) ops J \<Longrightarrow> performs W I (bindM (gets f) k) ops J"
  by (simp add: performs_def bindM_def)

lemma performs_modify:
  "(\<And>s. I s \<Longrightarrow> J (g s) \<and> ex_writer (g s) = ex_writer s) \<Longrightarrow> performs W J k ops L \<Longrightarrow>
   performs W I (bindM (modifyM g) (\<lambda>_. k)) ops L"
  unfolding performs_def by (simp add: bindM_def) metis

lemma performs_modify_last:
  "(\<And>s. I s \<Longrightarrow> J (g s) \<and> ex_writer (g s) = ex_writer s) \<Longrightarrow> performs W I (modifyM g) [] J"
  by (simp add: performs_def)

lemma performs_op:
  assumes op: "\<And>w. run_op W x w = (case p w of (Inr _, w') \<Rightarrow> (Inr (), w') | (Inl e, w') \<Rightarrow> (Inl e, w'))"
    and stable: "\<And>s w. I s \<Longrightarrow> I (s\<lparr>ex_writer := w\<rparr>)" and k: "\<And>a. performs W I (k a) ops L"
  shows "performs W I (bindM (on_writer p) k) (x # ops) L"
proof (rule performsI)
  fix s r w assume I: "I s" and run: "run_ops W (x # ops) (ex_writer s) = (r, w)"
  obtain r1 w1 where r1: "p (ex_writer s) = (r1, w1)" by force
  show "\<exists>s'. bindM (on_writer p) k s = (r, s') \<and> ex_writer s' = w \<and> (r = Inr () \<longrightarrow> L s')"
  proof (cases r1)
    case (Inl e)
    with run r1 show ?thesis by (auto simp: op bindM_def on_writer_def)
  next
    case (Inr a)
    then have "run_ops W ops (ex_writer (s\<lparr>ex_writer := w1\<rparr>)) = (r, w)" using run r1 by (simp add: op bindM_def)
    then obtain s2 where "k a (s\<lparr>ex_writer := w1\<rparr>) = (r, s2)" "ex_writer s2 = w" "r = Inr () \<Longrightarrow> L s2"
      using performsD [OF k stable [OF I], of w1 r w a] by metis
    then show ?thesis using r1 Inr by (simp add: bindM_def on_writer_def)
  qed
qed

lemma run_op_cases:
  "run_op W (StartOp i) w = (case fw_start_episode W (Some i) w of (Inr _, w') \<Rightarrow> (Inr (), w') | (Inl e, w') \<Rightarrow> (Inl e, w'))"
  "run_op W (WriteOp f) w = (case fw_write_frame W f w of (Inr _, w') \<Rightarrow> (Inr (), w') | (Inl e, w') \<Rightarrow> (Inl e, w'))"
  "run_op W FinishOp w = (case fw_finish_episode W w of (Inr _, w') \<Rightarrow> (Inr (), w') | (Inl e, w') \<Rightarrow> (Inl e, w'))"
  by (auto simp: bindM_def split: prod.splits sum.splits)

section \<open>The executor between messages\<close>

definition at_cur :: "'c pipeline_config \<Rightarrow> plan_state \<Rightarrow> u64 option \<Rightarrow> ('w, 'f, 'd, 'c) executor \<Rightarrow> bool" where
  "at_cur c p cur s \<longleftrightarrow>
     ex_config s = c \<and> ex_buffer s = [] \<and> ex_current s = cur \<and> ex_episode_started s = pn_started p \<and>
     ex_episode_index s = pn_episode p \<and> ex_frames_in_episode s = pn_in_episode p \<and> ex_frame_index s = pn_frames p \<and>
     ps_frames_written (ex_stats s) = pn_frames p \<and> ex_last s = pn_last p \<and> ex_camera_info s = pn_cameras p"

definition at_plan :: "'c pipeline_config \<Rightarrow> plan_state \<Rightarrow> ('w, 'f, 'd, 'c) executor \<Rightarrow> bool" where
  "at_plan c p s \<longleftrightarrow> at_cur c p None s"

lemma start_performs:
  assumes "\<not> pn_started p"
  shows "performs W (at_plan c p) (pl_start_episode W i) [StartOp i]
    (at_plan c (p\<lparr>pn_started := True, pn_episode := i, pn_in_episode := 0\<rparr>))"
proof -
  let ?p = "p\<lparr>pn_started := True, pn_episode := i, pn_in_episode := 0\<rparr>"
  have op: "performs W (at_plan c ?p) (bindM (on_writer (fw_start_episode W (Some i))) (\<lambda>_. ret ())) [StartOp i] (at_plan c ?p)"
    by (rule performs_op [OF run_op_cases(1) _ performs_ret]) (simp add: at_plan_def at_cur_def)
  have set: "performs W (at_plan c p) (bindM (modifyM (\<lambda>s. s\<lparr>ex_episode_index := i, ex_frames_in_episode := 0, ex_episode_started := True\<rparr>))
      (\<lambda>_. bindM (on_writer (fw_start_episode W (Some i))) (\<lambda>_. ret ()))) [StartOp i] (at_plan c ?p)"
    by (rule performs_modify [OF _ op]) (simp add: at_plan_def at_cur_def)
  show ?thesis
    unfolding pl_start_episode_def
    by (rule performs_gets [where a = False], use assms in \<open>simp add: at_plan_def at_cur_def\<close>,
        simp only: if_False, rule performs_bind [OF performs_ret set, simplified append_Nil])
qed

lemma finish_performs:
  assumes "pn_started p"
  shows "performs W (at_plan c p) (pl_finish_episode W) [FinishOp] (at_plan c (p\<lparr>pn_started := False\<rparr>))"
  unfolding pl_finish_episode_def
proof (rule performs_gets [where a = True])
  show "performs W (at_plan c p) (if \<not> True then ret () else bindM (on_writer (fw_finish_episode W)) (\<lambda>_.
      modifyM (\<lambda>s. s\<lparr>ex_stats := (ex_stats s)\<lparr>ps_episodes_written := ps_episodes_written (ex_stats s) + 1\<rparr>,
                     ex_episode_started := False\<rparr>))) [FinishOp] (at_plan c (p\<lparr>pn_started := False\<rparr>))"
    unfolding not_True_eq_False if_False
    by (rule performs_op [OF run_op_cases(3)], simp add: at_plan_def at_cur_def, rule performs_modify_last, simp add: at_plan_def at_cur_def)
qed (use assms in \<open>simp add: at_plan_def at_cur_def\<close>)

lemma next_performs:
  assumes started: "pn_started p" and b: "\<And>s. at_plan c p s \<Longrightarrow> boundary s = b"
  shows "performs W (at_plan c p) (next_episode W boundary) (fst (plan_next b p)) (at_plan c (snd (plan_next b p)))"
proof (cases b)
  case True
  have start: "performs W (at_plan c (p\<lparr>pn_started := False\<rparr>)) (bindM (gets ex_episode_index) (\<lambda>i. pl_start_episode W (i + 1)))
      [StartOp (pn_episode p + 1)] (at_plan c (p\<lparr>pn_episode := pn_episode p + 1, pn_in_episode := 0\<rparr>))"
    using start_performs [of "p\<lparr>pn_started := False\<rparr>" W c "pn_episode p + 1"] started
    by (intro performs_gets [where a = "pn_episode p"]) (simp_all add: at_plan_def [abs_def] at_cur_def [abs_def])
  show ?thesis
    unfolding next_episode_def
    by (rule performs_gets [where a = b]) (use b True performs_bind [OF finish_performs [OF started] start] in \<open>simp_all add: plan_next_def\<close>)
next
  case False
  show ?thesis
    unfolding next_episode_def
    by (rule performs_gets [where a = b]) (use b False in \<open>simp_all add: plan_next_def performs_ret del: ret_simp\<close>)
qed


section \<open>One message\<close>

text \<open>A message in an otherwise empty buffer.\<close>

definition buffered :: "'c pipeline_config \<Rightarrow> plan_state \<Rightarrow> u64 \<Rightarrow> ('f, 'd) message \<Rightarrow> ('w, 'f, 'd, 'c) executor \<Rightarrow> bool" where
  "buffered c p ts msg s \<longleftrightarrow> ex_buffer s = [(ts, [msg])] \<and> at_cur c p (Some ts) (s\<lparr>ex_buffer := []\<rparr>)"

lemma write_performs:
  "performs W (at_cur c p cur) (pl_write_frame W f) [WriteOp f]
     (at_cur c (p\<lparr>pn_frames := pn_frames p + 1, pn_in_episode := pn_in_episode p + (if af_images f \<noteq> [] then 1 else 0)\<rparr>) cur)"
  unfolding pl_write_frame_def
  by (rule performs_op [OF run_op_cases(2)], simp add: at_cur_def, rule performs_modify_last, simp add: at_cur_def)

lemma frame_step_performs:
  fixes W :: "('w, 'f) format_writer" and c :: "'c pipeline_config" and F :: "('f, 'd) to_f32"
  assumes ok: "messages_to_frame F c (pn_frames p) [msg] ts \<noteq> Inl Crashed" and ts: "ts = floor_to (interval c) (msg_log_time msg)"
  shows "performs W (at_cur c p cur) (frame_step W F ts [msg]) (fst (plan_frame F c msg p)) (at_cur c (snd (plan_frame F c msg p)) cur)"
proof (rule performsI)
  fix s :: "('w, 'f, 'd, 'c) executor" and r w
  assume I: "at_cur c p cur s" and run: "run_ops W (fst (plan_frame F c msg p)) (ex_writer s) = (r, w)"
  have c: "ex_config s = c" "ex_frame_index s = pn_frames p" using I by (simp_all add: at_cur_def)
  show "\<exists>s'. frame_step W F ts [msg] s = (r, s') \<and> ex_writer s' = w \<and> (r = Inr () \<longrightarrow> at_cur c (snd (plan_frame F c msg p)) cur s')"
  proof (cases "\<exists>f. messages_to_frame F c (pn_frames p) [msg] ts = Inr (Some f)")
    case True
    then obtain f where f: "messages_to_frame F c (pn_frames p) [msg] ts = Inr (Some f)" by blast
    then have plan: "fst (plan_frame F c msg p) = [WriteOp f]"
      "snd (plan_frame F c msg p) = p\<lparr>pn_frames := pn_frames p + 1, pn_in_episode := pn_in_episode p + (if af_images f \<noteq> [] then 1 else 0)\<rparr>"
      unfolding ts plan_frame_def by simp_all
    have "frame_step W F ts [msg] s = pl_write_frame W f s" by (simp add: frame_step_def c f)
    then show ?thesis using performsD [OF write_performs I run [unfolded plan(1)]] plan(2) by metis
  next
    case False
    with ok have "frame_step W F ts [msg] s = (Inr (), s)" "plan_frame F c msg p = ([], p)"
      by (auto simp: frame_step_def plan_frame_def ts [symmetric] c split: sum.splits option.splits abort.splits)
    with run I show ?thesis by auto
  qed
qed

lemma complete_performs:
  fixes W :: "('w, 'f) format_writer" and c :: "'c pipeline_config" and F :: "('f, 'd) to_f32"
  assumes ok: "messages_to_frame F c (pn_frames p) [msg] ts \<noteq> Inl Crashed" and ts: "ts = floor_to (interval c) (msg_log_time msg)"
  shows "performs W (buffered c p ts msg) (complete_frames W F) (fst (plan_frame F c msg p)) (at_plan c (snd (plan_frame F c msg p)))"
proof (rule performsI)
  fix s :: "('w, 'f, 'd, 'c) executor" and r w
  assume I: "buffered c p ts msg s" and run: "run_ops W (fst (plan_frame F c msg p)) (ex_writer s) = (r, w)"
  let ?s = "s\<lparr>ex_buffer := []\<rparr>" let ?p = "snd (plan_frame F c msg p)"
  have buf: "ex_buffer s = [(ts, [msg])]" "ex_current s = Some ts" and I': "at_cur c p (Some ts) ?s"
    using I by (simp_all add: buffered_def at_cur_def)
  have "run_ops W (fst (plan_frame F c msg p)) (ex_writer ?s) = (r, w)" using run by simp
  then obtain s1 where s1: "frame_step W F ts [msg] ?s = (r, s1)" "ex_writer s1 = w" "r = Inr () \<Longrightarrow> at_cur c ?p (Some ts) s1"
    using performsD [OF frame_step_performs [OF ok ts] I'] by metis
  show "\<exists>s'. complete_frames W F s = (r, s') \<and> ex_writer s' = w \<and> (r = Inr () \<longrightarrow> at_plan c ?p s')"
  proof (cases r)
    case (Inl e)
    then show ?thesis using s1 by (subst complete_frames.simps) (simp add: buf)
  next
    case (Inr u)
    let ?s2 = "s1\<lparr>ex_current := None\<rparr>"
    have "ex_buffer s1 = []" using s1(3) Inr by (simp add: at_cur_def)
    then have "complete_frames W F s = complete_frames W F ?s2"
      using s1(1) Inr by (subst complete_frames.simps) (simp add: buf next_timestamp_def min_key_def)
    also have "\<dots> = (Inr (), ?s2)" by (subst complete_frames.simps) simp
    finally show ?thesis using s1(2,3) Inr by (simp add: at_plan_def at_cur_def)
  qed
qed

text \<open>Rates for which frames have a length.\<close>

definition rate_ok :: "'c pipeline_config \<Rightarrow> bool" where
  "rate_ok c \<longleftrightarrow> 0 < unat (st_fps (pc_streaming c)) \<and> unat (st_fps (pc_streaming c)) \<le> 1000000000"

lemma interval_pos: "rate_ok c \<Longrightarrow> interval c \<noteq> 0"
proof -
  assume r: "rate_ok c"
  let ?f = "st_fps (pc_streaming c)"
  have "unat (interval c) = 1000000000 div unat ?f" by (simp add: interval_def unat_div_distrib)
  moreover have "0 < 1000000000 div unat ?f" using r by (simp add: rate_ok_def div_greater_zero_iff)
  ultimately show ?thesis by auto
qed

lemma aligned_ok: "rate_ok c \<Longrightarrow> aligned_timestamp c t = Returns (floor_to (interval c) t)"
  using interval_pos [of c]
  by (auto simp: aligned_timestamp_def frame_interval_ns_def interval_of_def div_by_def interval_def floor_to_def rate_ok_def)


text \<open>Messages whose image data does not make the JPEG scan panic.\<close>

fun image_safe :: "('f, 'd) codec_value \<Rightarrow> bool" where
  "image_safe (StructValue flds) \<longleftrightarrow>
     (case extract_image_bytes flds of Some b \<Rightarrow> extract_dimensions (from_magic_bytes b) b \<noteq> Panic | None \<Rightarrow> True)"
| "image_safe _ \<longleftrightarrow> True"

lemma safe_frame:
  assumes "image_safe (msg_data msg)"
  shows "messages_to_frame F c i [msg] ts \<noteq> Inl Crashed"
proof -
  have "add_struct F feature flds frame \<noteq> Inl Crashed" if "msg_data msg = StructValue flds" for feature flds frame
    using assms that
    by (auto simp: add_struct_def image_new_rgb_def split: option.splits panics.splits sum.splits codec_value.splits)
  then show ?thesis
    by (auto simp: messages_to_frame_def process_message_for_frame_def split: option.splits sum.splits codec_value.splits)
qed

lemma rest_performs:
  fixes W :: "('w, 'f) format_writer" and c :: "'c pipeline_config" and F :: "('f, 'd) to_f32"
  assumes rate: "rate_ok c" and safe: "image_safe (msg_data msg)"
  shows "performs W (at_plan c p)
    (bindM (gets (\<lambda>s. aligned_timestamp (ex_config s) (msg_log_time msg))) (\<lambda>aligned.
     bindM (returning aligned) (\<lambda>ts. bindM (modifyM (buffer_message ts msg)) (\<lambda>_. process_complete_frames W F))))
    (fst (plan_frame F c msg p)) (at_plan c (snd (plan_frame F c msg p)))"
proof -
  let ?ts = "floor_to (interval c) (msg_log_time msg)"
  note complete = complete_performs [where W = W and F = F and c = c and p = p, OF safe_frame [OF safe] refl]
  have i: "frame_interval_ns (pc_streaming c) = Returns (interval c)"
    using rate by (auto simp: frame_interval_ns_def interval_of_def interval_def rate_ok_def)
  have process: "performs W (buffered c p ?ts msg) (process_complete_frames W F)
      (fst (plan_frame F c msg p)) (at_plan c (snd (plan_frame F c msg p)))"
    unfolding process_complete_frames_def
    by (rule performs_gets [where a = "Returns (interval c)"])
       (use i in \<open>simp add: buffered_def at_cur_def\<close>, simp only: returning_def panics.case bindM_simps, rule complete)
  have buffer: "performs W (at_plan c p) (bindM (modifyM (buffer_message ?ts msg)) (\<lambda>_. process_complete_frames W F))
      (fst (plan_frame F c msg p)) (at_plan c (snd (plan_frame F c msg p)))"
    by (rule performs_modify [OF _ process]) (simp add: at_plan_def at_cur_def buffered_def buffer_message_def)
  show ?thesis
    by (rule performs_gets [where a = "Returns ?ts"])
       (simp add: at_plan_def at_cur_def aligned_ok [OF rate], simp only: returning_def panics.case bindM_simps(1), rule buffer)
qed

text \<open>The last part of a message: the time and the camera information, then the frame.\<close>

lemma tail_performs:
  fixes W :: "('w, 'f) format_writer" and c :: "'c pipeline_config" and F :: "('f, 'd) to_f32"
  assumes rate: "rate_ok c" and safe: "image_safe (msg_data msg)"
  defines "p1 \<equiv> \<lambda>p. p\<lparr>pn_last := Some (msg_log_time msg)\<rparr>"
  defines "tail \<equiv> \<lambda>p. if is_camera_info_topic (msg_data msg) \<and> msg_topic msg \<in> pn_cameras (p1 p) then ([], p1 p)
     else plan_frame F c msg
       (if is_camera_info_topic (msg_data msg) then (p1 p)\<lparr>pn_cameras := insert (msg_topic msg) (pn_cameras (p1 p))\<rparr> else p1 p)"
  shows "performs W (at_plan c p)
    (bindM (modifyM (\<lambda>s. s\<lparr>ex_last := Some (msg_log_time msg)\<rparr>)) (\<lambda>_.
     bindM (gets (\<lambda>s. is_camera_info_topic (msg_data msg) \<and> msg_topic msg \<in> ex_camera_info s)) (\<lambda>seen.
     if seen then ret ()
     else bindM (modifyM (\<lambda>s. if is_camera_info_topic (msg_data msg)
                                then s\<lparr>ex_camera_info := insert (msg_topic msg) (ex_camera_info s)\<rparr> else s)) (\<lambda>_.
          bindM (gets (\<lambda>s. aligned_timestamp (ex_config s) (msg_log_time msg))) (\<lambda>aligned.
          bindM (returning aligned) (\<lambda>ts.
          bindM (modifyM (buffer_message ts msg)) (\<lambda>_. process_complete_frames W F)))))))
    (fst (tail p)) (at_plan c (snd (tail p)))"
proof (rule performs_modify [where J = "at_plan c (p1 p)"])
  let ?ci = "is_camera_info_topic (msg_data msg)"
  let ?p2 = "if ?ci then (p1 p)\<lparr>pn_cameras := insert (msg_topic msg) (pn_cameras (p1 p))\<rparr> else p1 p"
  have "performs W (at_plan c (p1 p))
      (bindM (modifyM (\<lambda>s. if ?ci then s\<lparr>ex_camera_info := insert (msg_topic msg) (ex_camera_info s)\<rparr> else s)) (\<lambda>_.
          bindM (gets (\<lambda>s. aligned_timestamp (ex_config s) (msg_log_time msg))) (\<lambda>aligned.
          bindM (returning aligned) (\<lambda>ts.
          bindM (modifyM (buffer_message ts msg)) (\<lambda>_. process_complete_frames W F)))))
      (fst (plan_frame F c msg ?p2)) (at_plan c (snd (plan_frame F c msg ?p2)))"
    by (rule performs_modify [OF _ rest_performs [OF rate safe]]) (simp add: at_plan_def at_cur_def)
  then show "performs W (at_plan c (p1 p))
     (bindM (gets (\<lambda>s. ?ci \<and> msg_topic msg \<in> ex_camera_info s)) (\<lambda>seen.
     if seen then ret ()
     else bindM (modifyM (\<lambda>s. if ?ci then s\<lparr>ex_camera_info := insert (msg_topic msg) (ex_camera_info s)\<rparr> else s)) (\<lambda>_.
          bindM (gets (\<lambda>s. aligned_timestamp (ex_config s) (msg_log_time msg))) (\<lambda>aligned.
          bindM (returning aligned) (\<lambda>ts.
          bindM (modifyM (buffer_message ts msg)) (\<lambda>_. process_complete_frames W F))))))
     (fst (tail p)) (at_plan c (snd (tail p)))"
    by (intro performs_gets [where a = "?ci \<and> msg_topic msg \<in> pn_cameras (p1 p)"])
       (simp add: at_plan_def at_cur_def,
        cases "?ci \<and> msg_topic msg \<in> pn_cameras (p1 p)", simp_all only: if_True if_False simp_thms tail_def fst_conv snd_conv performs_ret)
qed (simp add: at_plan_def at_cur_def p1_def)


lemma open_performs:
  "performs W (at_plan c p) (bindM (gets ex_episode_started) (\<lambda>started. if \<not> started then pl_start_episode W 0 else ret ()))
     (fst (plan_open p)) (at_plan c (snd (plan_open p)))"
proof (rule performs_gets [where a = "pn_started p"])
  show "performs W (at_plan c p) (if \<not> pn_started p then pl_start_episode W 0 else ret ()) (fst (plan_open p)) (at_plan c (snd (plan_open p)))"
    by (cases "pn_started p") (simp_all add: plan_open_def start_performs performs_ret del: ret_simp)
qed (simp add: at_plan_def at_cur_def)

lemma plan_started: "pn_started (snd (plan_open p))" "pn_started p \<Longrightarrow> pn_started (snd (plan_next b p))"
  by (simp_all add: plan_open_def plan_next_def)

lemma bindM_assoc_gets: "bindM (bindM (gets f) g) k = bindM (gets f) (\<lambda>a. bindM (g a) k)"
  by (simp add: bindM_def fun_eq_iff)

lemma boundaries:
  "at_plan c p s \<Longrightarrow> gap_boundary t s = gap_at c t p"
  "at_plan c p s \<Longrightarrow> count_boundary s = full_at c p"
  "at_plan c p s \<Longrightarrow> max_reached s = (case pc_max_frames c of Some n \<Rightarrow> pn_frames p \<ge> n | None \<Rightarrow> False)"
  by (auto simp: gap_boundary_def gap_at_def count_boundary_def full_at_def max_reached_def at_plan_def at_cur_def
      split: episode_strategy.splits option.splits)

lemma message_performs:
  fixes W :: "('w, 'f) format_writer" and c :: "'c pipeline_config" and F :: "('f, 'd) to_f32"
  assumes rate: "rate_ok c" and safe: "image_safe (msg_data msg)"
  shows "performs W (at_plan c p) (pl_process_message W F msg) (fst (plan_message F c msg p)) (at_plan c (snd (plan_message F c msg p)))"
proof -
  let ?full = "case pc_max_frames c of Some n \<Rightarrow> pn_frames p \<ge> n | None \<Rightarrow> False"
  let ?p1 = "snd (plan_open p :: 'f planned)" let ?b1 = "gap_at c (msg_log_time msg) ?p1"
  let ?p2 = "snd (plan_next ?b1 ?p1 :: 'f planned)" let ?b2 = "full_at c ?p2" let ?p3 = "snd (plan_next ?b2 ?p2 :: 'f planned)"
  have s1: "pn_started ?p1" "pn_started ?p2" by (simp_all add: plan_started)
  note steps = performs_bind [OF open_performs [of W c p] performs_bind [OF next_performs [OF s1(1) boundaries(1)]
      performs_bind [OF next_performs [OF s1(2) boundaries(2)] tail_performs [OF rate safe, of W ?p3 F]]], unfolded bindM_assoc_gets]
  have same: "performs W (at_plan c p) k ops J \<Longrightarrow> performs W (at_plan c p)
      (bindM (modifyM (\<lambda>s. s\<lparr>ex_stats := (ex_stats s)\<lparr>ps_messages_processed := ps_messages_processed (ex_stats s) + 1\<rparr>\<rparr>)) (\<lambda>_. k)) ops J"
    for k ops J by (rule performs_modify) (simp_all add: at_plan_def at_cur_def)
  show ?thesis
    unfolding pl_process_message_def
  proof (rule same, rule performs_gets [where a = ?full])
    show "max_reached s = ?full" if "at_plan c p s" for s :: "('w, 'f, 'd, 'c) executor"
      using that by (rule boundaries(3))
  qed (cases ?full, use steps in \<open>simp_all only: if_True if_False plan_message_def plan_then_def Let_def fst_conv snd_conv append_assoc performs_ret\<close>)
qed

lemma messages_perform:
  assumes "rate_ok c" "list_all (\<lambda>m. image_safe (msg_data m)) msgs"
  shows "performs W (at_plan c p) (pl_process_messages W F msgs) (fst (plan F c msgs p)) (at_plan c (snd (plan F c msgs p)))"
  using assms(2)
proof (induction msgs arbitrary: p)
  case Nil
  then show ?case by (simp add: performs_ret del: ret_simp)
next
  case (Cons m ms)
  then show ?case
    using performs_bind [OF message_performs [OF assms(1)] Cons.IH] by (simp add: plan_then_def)
qed


section \<open>A whole conversion\<close>

text \<open>All messages, then the end of the stream; what the loop of \<open>ConvertBuilder::run\<close> does with its executor.\<close>

definition convert_messages :: "('w, 'f) format_writer \<Rightarrow> ('f, 'd) to_f32 \<Rightarrow> string \<Rightarrow> ('f, 'd) message list \<Rightarrow>
    ('w, 'f, 'd, 'c, pipeline_stats) exec" where
  "convert_messages W F policy msgs = bindM (pl_process_messages W F msgs) (\<lambda>_. pl_finalize W F policy)"

definition closing :: "plan_state \<Rightarrow> 'f writer_op list" where
  "closing p = (if pn_started p then [FinishOp] else [])"

definition conversion_ops :: "('f, 'd) to_f32 \<Rightarrow> 'c pipeline_config \<Rightarrow> ('f, 'd) message list \<Rightarrow> 'f writer_op list" where
  "conversion_ops F c msgs = (let x = plan F c msgs plan_start in fst x @ closing (snd x))"

lemma at_plan_new: "at_plan c plan_start (executor_new w c)"
  by (simp add: at_plan_def at_cur_def executor_new_def plan_start_def)

lemma finish_any: "performs W (at_plan c p) (pl_finish_episode W) (closing p) (at_plan c (p\<lparr>pn_started := False\<rparr>))"
proof (cases "pn_started p")
  case True
  then show ?thesis by (simp add: closing_def finish_performs)
next
  case False
  then have p: "p\<lparr>pn_started := False\<rparr> = p" by (cases p) simp
  show ?thesis
    unfolding pl_finish_episode_def closing_def p using False
    by (intro performs_gets [where a = False]) (simp_all add: at_plan_def [abs_def] at_cur_def [abs_def] performs_ret del: ret_simp)
qed

lemma bindM_assoc: "bindM (bindM m f) g = bindM m (\<lambda>a. bindM (f a) g)"
  by (auto simp: bindM_def fun_eq_iff split: prod.splits sum.splits)

lemma finalize_from:
  assumes "ex_buffer s = []"
  shows "pl_finalize W F policy s = bindM (pl_finish_episode W) (\<lambda>_. bindM (on_writer (fw_finalize W)) (\<lambda>ws.
     bindM (modifyM (\<lambda>s. s\<lparr>ex_stats := (ex_stats s)\<lparr>ps_frames_written := ws_frames_written ws, ps_policy_name := policy\<rparr>\<rparr>)) (\<lambda>_.
     gets ex_stats))) s"
proof -
  have "s\<lparr>ex_buffer := []\<rparr> = s" using assms by simp
  then show ?thesis unfolding pl_finalize_def using assms by (simp only: bindM_simps flush_frames.simps)
qed

lemma finalize_runs:
  assumes "at_plan c p s" "run_ops W (closing p) (ex_writer s) = (Inr (), w1)" "fw_finalize W w1 = (r, w2)"
  shows "\<exists>q s'. pl_finalize W F policy s = (q, s') \<and> ex_writer s' = w2 \<and>
    (case r of Inl e \<Rightarrow> q = Inl e
     | Inr ws \<Rightarrow> \<exists>stats. q = Inr stats \<and> ps_frames_written stats = ws_frames_written ws \<and> ps_policy_name stats = policy)"
proof -
  have buf: "ex_buffer s = []" using assms(1) by (simp add: at_plan_def at_cur_def)
  obtain s1 where "pl_finish_episode W s = (Inr (), s1)" "ex_writer s1 = w1"
    using performsD [OF finish_any assms(1,2)] by metis
  then show ?thesis
    unfolding finalize_from [OF buf] using assms(3)
    by (cases r) (simp_all add: bindM_def on_writer_def gets_def modifyM_def)
qed

lemma finish_fails:
  assumes "at_plan c p s" "run_ops W (closing p) (ex_writer s) = (Inl e, w1)"
  shows "\<exists>s'. pl_finalize W F policy s = (Inl e, s') \<and> ex_writer s' = w1"
proof -
  have buf: "ex_buffer s = []" using assms(1) by (simp add: at_plan_def at_cur_def)
  obtain s1 where "pl_finish_episode W s = (Inl e, s1)" "ex_writer s1 = w1"
    using performsD [OF finish_any assms] by metis
  then show ?thesis unfolding finalize_from [OF buf] by (simp add: bindM_def)
qed

text \<open>The plan as a program of the writer alone.\<close>

definition run_plan :: "('w, 'f) format_writer \<Rightarrow> ('f, 'd) to_f32 \<Rightarrow> 'c pipeline_config \<Rightarrow> ('f, 'd) message list \<Rightarrow>
    ('w, string abort, writer_stats) prog" where
  "run_plan W F c msgs = bindM (run_ops W (conversion_ops F c msgs)) (\<lambda>_. fw_finalize W)"

lemma conversion_runs:
  fixes W :: "('w, 'f) format_writer" and c :: "'c pipeline_config" and F :: "('f, 'd) to_f32"
  assumes ok: "rate_ok c" "list_all (\<lambda>m. image_safe (msg_data m)) msgs" and run: "run_plan W F c msgs w = (r, w')"
  shows "\<exists>q s'. convert_messages W F policy msgs (executor_new w c) = (q, s') \<and> ex_writer s' = w' \<and>
    (case r of Inl e \<Rightarrow> q = Inl e
     | Inr ws \<Rightarrow> \<exists>stats. q = Inr stats \<and> ps_frames_written stats = ws_frames_written ws \<and> ps_policy_name stats = policy)"
proof -
  let ?x = "plan F c msgs plan_start :: 'f planned" let ?s = "executor_new w c :: ('w, 'f, 'd, 'c) executor"
  obtain r0 w0 where r0: "run_ops W (fst ?x) (ex_writer ?s) = (r0, w0)" by force
  obtain s0 where s0: "pl_process_messages W F msgs ?s = (r0, s0)" "ex_writer s0 = w0" "r0 = Inr () \<Longrightarrow> at_plan c (snd ?x) s0"
    using performsD [OF messages_perform [OF ok] at_plan_new r0] by metis
  have w: "ex_writer ?s = w" by (simp add: executor_new_def)
  show ?thesis
  proof (cases r0)
    case (Inl e)
    then show ?thesis
      using run r0 s0(1,2) w
      by (auto simp: run_plan_def conversion_ops_def Let_def run_ops_append convert_messages_def bindM_def)
  next
    case (Inr u)
    then have p: "at_plan c (snd ?x) s0" using s0(3) by simp
    obtain r1 w1 where r1: "run_ops W (closing (snd ?x)) (ex_writer s0) = (r1, w1)" by force
    have conv: "convert_messages W F policy msgs ?s = pl_finalize W F policy s0"
      using s0(1) Inr by (simp add: convert_messages_def bindM_def)
    have rest: "(case r1 of Inl e \<Rightarrow> (Inl e, w1) | Inr _ \<Rightarrow> fw_finalize W w1) = (r, w')"
      using run r0 r1 s0(2) w Inr by (simp add: run_plan_def conversion_ops_def Let_def run_ops_append bindM_def split: sum.splits)
    show ?thesis
    proof (cases r1)
      case (Inl e)
      then show ?thesis using finish_fails [OF p] r1 rest by (auto simp: conv)
    next
      case (Inr u)
      then show ?thesis using finalize_runs [OF p] r1 rest by (auto simp: conv)
    qed
  qed
qed

section \<open>What the plan looks like\<close>

text \<open>The frames of a list of calls, and a frame for every message that carries data.\<close>

fun frames_of :: "'f writer_op list \<Rightarrow> 'f aligned_frame list" where
  "frames_of [] = []"
| "frames_of (WriteOp f # xs) = f # frames_of xs"
| "frames_of (StartOp i # xs) = frames_of xs"
| "frames_of (FinishOp # xs) = frames_of xs"

fun message_frames :: "('f, 'd) to_f32 \<Rightarrow> 'c pipeline_config \<Rightarrow> nat \<Rightarrow> ('f, 'd) message list \<Rightarrow> 'f aligned_frame list" where
  "message_frames F c i [] = []"
| "message_frames F c i (m # ms) =
     (case messages_to_frame F c i [m] (floor_to (interval c) (msg_log_time m)) of
        Inr (Some f) \<Rightarrow> f # message_frames F c (i + 1) ms
      | _ \<Rightarrow> message_frames F c i ms)"

lemma frames_of_append: "frames_of (xs @ ys) = frames_of xs @ frames_of ys"
  by (induction xs rule: frames_of.induct) simp_all

lemma camera_no_frame:
  assumes "is_camera_info_topic (msg_data m)"
  shows "messages_to_frame F c i [m] ts = Inr None"
proof -
  obtain flds where "msg_data m = StructValue flds" "map_of flds ''K'' \<noteq> None" "map_of flds ''D'' \<noteq> None"
    using assms by (cases "msg_data m") auto
  then show ?thesis
    by (auto simp: messages_to_frame_def process_message_for_frame_def add_struct_def af_is_empty_def aligned_frame_new_def
        split: option.splits)
qed

lemma plan_steps_frames [simp]:
  "frames_of (fst (plan_open p)) = []" "pn_frames (snd (plan_open p)) = pn_frames p"
  "frames_of (fst (plan_next b p)) = []" "pn_frames (snd (plan_next b p)) = pn_frames p"
  by (simp_all add: plan_open_def plan_next_def)

lemma plan_frame_frames:
  "frames_of (fst (plan_frame F c m p)) @ message_frames F c (pn_frames (snd (plan_frame F c m p))) ms =
    message_frames F c (pn_frames p) (m # ms)"
  by (simp add: plan_frame_def split: sum.splits option.splits)

text \<open>The last step for a message, after the episode has been opened or changed.\<close>

definition plan_tail :: "('f, 'd) to_f32 \<Rightarrow> 'c pipeline_config \<Rightarrow> ('f, 'd) message \<Rightarrow> plan_state \<Rightarrow> 'f planned" where
  "plan_tail F c msg p = (let p' = p\<lparr>pn_last := Some (msg_log_time msg)\<rparr>
     in if is_camera_info_topic (msg_data msg) \<and> msg_topic msg \<in> pn_cameras p' then ([], p')
        else plan_frame F c msg
          (if is_camera_info_topic (msg_data msg) then p'\<lparr>pn_cameras := insert (msg_topic msg) (pn_cameras p')\<rparr> else p'))"

lemma plan_message_tail:
  "plan_message F c msg p =
     (if (case pc_max_frames c of Some n \<Rightarrow> pn_frames p \<ge> n | None \<Rightarrow> False) then ([], p)
      else plan_then (plan_then (plan_then (plan_open p) (\<lambda>p. plan_next (gap_at c (msg_log_time msg) p) p))
             (\<lambda>p. plan_next (full_at c p) p)) (plan_tail F c msg))"
  by (simp only: plan_message_def plan_tail_def [abs_def])

lemma plan_tail_frames:
  "frames_of (fst (plan_tail F c m p)) @ message_frames F c (pn_frames (snd (plan_tail F c m p))) ms =
    message_frames F c (pn_frames p) (m # ms)"
proof (cases "is_camera_info_topic (msg_data m) \<and> msg_topic m \<in> pn_cameras p")
  case True
  then show ?thesis by (simp add: plan_tail_def Let_def camera_no_frame)
next
  case False
  then show ?thesis
    using plan_frame_frames [of F c m "if is_camera_info_topic (msg_data m)
      then p\<lparr>pn_last := Some (msg_log_time m), pn_cameras := insert (msg_topic m) (pn_cameras p)\<rparr>
      else p\<lparr>pn_last := Some (msg_log_time m)\<rparr>" ms]
    by (auto simp: plan_tail_def Let_def simp del: message_frames.simps)
qed

lemma plan_message_frames:
  assumes "pc_max_frames c = None"
  shows "frames_of (fst (plan_message F c m p)) @ message_frames F c (pn_frames (snd (plan_message F c m p))) ms =
    message_frames F c (pn_frames p) (m # ms)"
  by (simp add: plan_message_tail assms plan_then_def frames_of_append plan_tail_frames del: message_frames.simps)

lemma plan_frames:
  assumes "pc_max_frames c = None"
  shows "frames_of (fst (plan F c msgs p)) = message_frames F c (pn_frames p) msgs"
proof (induction msgs arbitrary: p)
  case (Cons m ms)
  show ?case
    using plan_message_frames [OF assms, of F m p ms] Cons.IH by (simp add: plan_then_def frames_of_append)
qed simp

text \<open>The calls in the order that the lifecycle of a writer demands: episodes are numbered from zero, one after another,
  and frames are written only inside of one.\<close>

fun lifecycle :: "bool \<Rightarrow> nat \<Rightarrow> 'f writer_op list \<Rightarrow> bool" where
  "lifecycle started n [] \<longleftrightarrow> \<not> started"
| "lifecycle started n (StartOp i # xs) \<longleftrightarrow> \<not> started \<and> i = n \<and> lifecycle True n xs"
| "lifecycle started n (WriteOp f # xs) \<longleftrightarrow> started \<and> lifecycle True n xs"
| "lifecycle started n (FinishOp # xs) \<longleftrightarrow> started \<and> lifecycle False (n + 1) xs"

definition follows :: "plan_state \<Rightarrow> 'f writer_op list \<Rightarrow> bool" where
  "follows p xs \<longleftrightarrow> lifecycle (pn_started p) (if pn_started p then pn_episode p else 0) xs"

lemma plan_open_follows: "follows (snd (plan_open p)) ys \<Longrightarrow> follows p (fst (plan_open p) @ ys)"
  by (auto simp: plan_open_def follows_def)

lemma plan_next_follows:
  "pn_started p \<Longrightarrow> follows (snd (plan_next b p)) ys \<Longrightarrow> follows p (fst (plan_next b p) @ ys)"
  by (auto simp: plan_next_def follows_def)

lemma plan_frame_follows:
  "pn_started p \<Longrightarrow> follows (snd (plan_frame F c m p)) ys \<Longrightarrow> follows p (fst (plan_frame F c m p) @ ys)"
  by (auto simp: plan_frame_def follows_def split: sum.splits option.splits)

lemma follows_same [simp]: "follows (p\<lparr>pn_last := l\<rparr>) = follows p" "follows (p\<lparr>pn_cameras := k\<rparr>) = follows p"
  by (simp_all add: follows_def fun_eq_iff)

lemma plan_tail_follows:
  "pn_started p \<Longrightarrow> follows (snd (plan_tail F c m p)) ys \<Longrightarrow> follows p (fst (plan_tail F c m p) @ ys)"
  using plan_frame_follows [of "p\<lparr>pn_last := Some (msg_log_time m), pn_cameras := insert (msg_topic m) (pn_cameras p)\<rparr>" F c m ys]
    plan_frame_follows [of "p\<lparr>pn_last := Some (msg_log_time m)\<rparr>" F c m ys]
  by (auto simp: plan_tail_def Let_def split: if_splits)

lemma plan_message_follows:
  fixes F :: "('f, 'd) to_f32"
  assumes ys: "follows (snd (plan_message F c m p)) ys"
  shows "follows p (fst (plan_message F c m p) @ ys)"
proof (cases "case pc_max_frames c of Some n \<Rightarrow> pn_frames p \<ge> n | None \<Rightarrow> False")
  case True
  then show ?thesis using ys by (simp add: plan_message_tail)
next
  case False
  let ?x1 = "plan_open p :: 'f planned" let ?x2 = "plan_next (gap_at c (msg_log_time m) (snd ?x1)) (snd ?x1) :: 'f planned"
  let ?x3 = "plan_next (full_at c (snd ?x2)) (snd ?x2) :: 'f planned"
  have m: "plan_message F c m p = (fst ?x1 @ fst ?x2 @ fst ?x3 @ fst (plan_tail F c m (snd ?x3)), snd (plan_tail F c m (snd ?x3)))"
    unfolding plan_message_tail if_not_P [OF False] by (simp add: plan_then_def)
  have started: "pn_started (snd ?x1)" "pn_started (snd ?x2)" "pn_started (snd ?x3)" by (simp_all add: plan_started)
  have "follows (snd ?x3) (fst (plan_tail F c m (snd ?x3)) @ ys)"
    by (rule plan_tail_follows [OF started(3)]) (use ys in \<open>simp add: m\<close>)
  then have "follows (snd ?x2) (fst ?x3 @ fst (plan_tail F c m (snd ?x3)) @ ys)"
    by (rule plan_next_follows [OF started(2)])
  then have "follows (snd ?x1) (fst ?x2 @ fst ?x3 @ fst (plan_tail F c m (snd ?x3)) @ ys)"
    by (rule plan_next_follows [OF started(1)])
  then show ?thesis unfolding m by (simp add: plan_open_follows)
qed

lemma plan_follows:
  "follows (snd (plan F c msgs p)) ys \<Longrightarrow> follows p (fst (plan F c msgs p) @ ys)"
proof (induction msgs arbitrary: p)
  case (Cons m ms)
  then show ?case
    using plan_message_follows [of F c m p "fst (plan F c ms (snd (plan_message F c m p))) @ ys"]
    by (simp add: plan_then_def)
qed simp

text \<open>A writer that keeps a record of the calls it gets.\<close>

definition recorder :: "('f writer_op list, 'f) format_writer" where
  "recorder =
     \<lparr> fw_write_frame = (\<lambda>f w. (Inr (), w @ [WriteOp f])),
       fw_start_episode = (\<lambda>i w. (Inr (case i of Some n \<Rightarrow> n | None \<Rightarrow> 0), w @ [StartOp (case i of Some n \<Rightarrow> n | None \<Rightarrow> 0)])),
       fw_finish_episode = (\<lambda>w. (Inr \<lparr> es_frames = 0, es_episode_index = 0 \<rparr>, w @ [FinishOp])),
       fw_finalize = (\<lambda>w. (Inr \<lparr> ws_frames_written = length (frames_of w), ws_images_encoded = 0, ws_state_records = 0,
         ws_output_bytes = 0 \<rparr>, w)) \<rparr>"

lemma recorder_runs: "run_ops recorder ops w = (Inr (), w @ ops)"
proof (induction ops arbitrary: w)
  case (Cons x xs)
  then show ?case by (cases x) (simp_all add: recorder_def bindM_def)
qed simp

lemma recorder_plan:
  "run_plan recorder F c msgs [] =
    (Inr \<lparr> ws_frames_written = length (frames_of (conversion_ops F c msgs)), ws_images_encoded = 0, ws_state_records = 0,
       ws_output_bytes = 0 \<rparr>, conversion_ops F c msgs)"
  by (simp add: run_plan_def bindM_def recorder_runs) (simp add: recorder_def)

lemma closing_follows: "follows (snd x) (closing (snd x))"
  by (simp add: follows_def closing_def)

lemma conversion_lifecycle: "lifecycle False 0 (conversion_ops F c msgs)"
  using plan_follows [OF closing_follows, where F = F and c = c and msgs = msgs and p = plan_start]
  by (simp add: conversion_ops_def Let_def follows_def plan_start_def)

lemma closing_frames: "frames_of (closing p) = []"
  by (simp add: closing_def)

lemma plan_message_bounded:
  assumes "pc_max_frames c = Some n"
  shows "pn_frames (snd (plan_message F c m p)) = pn_frames p + length (frames_of (fst (plan_message F c m p)))"
    and "pn_frames p \<le> n \<Longrightarrow> pn_frames (snd (plan_message F c m p)) \<le> n"
  by (auto simp: plan_message_tail assms plan_then_def plan_tail_def Let_def plan_frame_def frames_of_append
      split: sum.splits option.splits)

lemma plan_bounded:
  assumes "pc_max_frames c = Some n" "pn_frames p \<le> n"
  shows "pn_frames p + length (frames_of (fst (plan F c msgs p))) \<le> n"
  using assms(2)
proof (induction msgs arbitrary: p)
  case (Cons m ms)
  show ?case
    using plan_message_bounded [OF assms(1), where F = F and m = m and p = p] Cons.IH [of "snd (plan_message F c m p)"] Cons.prems
    by (simp add: plan_then_def frames_of_append)
qed simp

text \<open>Two joint readings of the same instant on two topics, at 30 frames per second.\<close>

definition sample_config :: "unit pipeline_config" where
  "sample_config = \<lparr> pc_streaming = \<lparr> st_fps = 30, st_completion_window_ns = 99999999, st_feature_requirements = [],
     st_decoder_config = None \<rparr>, pc_max_frames = None, pc_episode_strategy = SingleEpisode, pc_topic_mappings = [] \<rparr>"

definition sample_to_f32 :: "(int, unit) to_f32" where
  "sample_to_f32 = \<lparr> f32_of_f64 = (\<lambda>_. 0), f32_of_int = (\<lambda>i. i) \<rparr>"

definition sample_messages :: "(int, unit) message list" where
  "sample_messages =
     [\<lparr> msg_topic = ''/left'', msg_log_time = 40000000, msg_data = ArrayValue [Int32 1] \<rparr>,
      \<lparr> msg_topic = ''/right'', msg_log_time = 40000000, msg_data = ArrayValue [Int32 2] \<rparr>]"

lemma sample_ok: "rate_ok sample_config" "list_all (\<lambda>m. image_safe (msg_data m)) sample_messages" "pc_max_frames sample_config = None"
  by (simp_all add: rate_ok_def sample_config_def sample_messages_def)

section \<open>Properties\<close>

text \<open>C23: what a conversion does to its writer. For every writer, also one whose calls fail, every frame rate between one
  and a billion, and messages whose images do not make the JPEG scan panic, converting the messages has the effect of a
  plan that is computed without a buffer: a first episode is started with the first message, episodes are cut at gaps or
  frame counts, every message that carries data is written at once as a frame of its own at the frame time below it,
  and the last episode is finished. The conversion stops with the error of the first call that fails; otherwise it
  finalizes the writer and reports the frames the writer counted.\<close>

theorem conversion_follows_plan:
  fixes W :: "('w, 'f) format_writer" and c :: "'c pipeline_config" and F :: "('f, 'd) to_f32"
  assumes ok: "rate_ok c" "list_all (\<lambda>m. image_safe (msg_data m)) msgs" and run: "run_plan W F c msgs w = (r, w')"
  shows "\<exists>q s'. convert_messages W F policy msgs (executor_new w c) = (q, s') \<and> ex_writer s' = w' \<and>
    (case r of Inl e \<Rightarrow> q = Inl e
     | Inr ws \<Rightarrow> \<exists>stats. q = Inr stats \<and> ps_frames_written stats = ws_frames_written ws \<and> ps_policy_name stats = policy)"
  using conversion_runs [OF assms] .

theorem conversion_follows_plan_witness:
  "\<exists>q s'. convert_messages recorder sample_to_f32 ''sequential'' sample_messages (executor_new [] sample_config) = (q, s') \<and>
    ex_writer s' = conversion_ops sample_to_f32 sample_config sample_messages \<and>
    (\<exists>stats. q = Inr stats \<and> ps_frames_written stats = length (frames_of (conversion_ops sample_to_f32 sample_config sample_messages)))"
  using conversion_follows_plan [OF sample_ok(1,2) recorder_plan, where F = sample_to_f32 and policy = "''sequential''"] by force

text \<open>C24: the calls a writer gets. Whatever the messages, a conversion starts episode 0, numbers its episodes
  one after another, writes frames only between the start and the end of one, finishes each exactly once, the last one
  included, and then finalizes; if a limit on the frames is set, at most so many frames are written. The calls are
  observed with a writer that records them.\<close>

theorem writer_lifecycle:
  assumes "rate_ok c" "list_all (\<lambda>m. image_safe (msg_data m)) msgs"
  shows "\<exists>stats s'. convert_messages recorder F policy msgs (executor_new [] c) = (Inr stats, s') \<and>
    lifecycle False 0 (ex_writer s') \<and> ps_frames_written stats = length (frames_of (ex_writer s')) \<and>
    (\<forall>n. pc_max_frames c = Some n \<longrightarrow> ps_frames_written stats \<le> n)"
proof -
  obtain stats s' where run: "convert_messages recorder F policy msgs (executor_new [] c) = (Inr stats, s')"
    "ex_writer s' = conversion_ops F c msgs" "ps_frames_written stats = length (frames_of (conversion_ops F c msgs))"
    using conversion_runs [OF assms recorder_plan, of F policy] by force
  have "length (frames_of (conversion_ops F c msgs)) \<le> n" if "pc_max_frames c = Some n" for n
    using plan_bounded [OF that, where F = F and msgs = msgs and p = plan_start]
    by (simp add: plan_start_def conversion_ops_def Let_def frames_of_append closing_frames)
  then show ?thesis using run conversion_lifecycle [of F c msgs] by simp
qed

theorem writer_lifecycle_witness:
  "\<exists>stats s'. convert_messages recorder sample_to_f32 ''sequential'' sample_messages
      (executor_new [] (pc_with_max_frames 1 sample_config)) = (Inr stats, s') \<and>
    lifecycle False 0 (ex_writer s') \<and> ps_frames_written stats \<le> 1"
proof -
  let ?c = "pc_with_max_frames 1 sample_config"
  have ok: "rate_ok ?c" "pc_max_frames ?c = Some 1" using sample_ok(1) by (simp_all add: rate_ok_def pc_with_max_frames_def)
  show ?thesis using writer_lifecycle [OF ok(1) sample_ok(2), of sample_to_f32 "''sequential''"] ok(2) by auto
qed

text \<open>C25: no alignment. Without a limit on the frames, the frames that reach the writer are one for each message that
  carries data, in the order of the messages, numbered from zero: two messages of the same instant on two topics are
  never put into the same frame, because each message is taken out of the buffer by the same call that puts it in.\<close>

theorem one_frame_per_message:
  assumes "rate_ok c" "list_all (\<lambda>m. image_safe (msg_data m)) msgs" "pc_max_frames c = None"
  shows "\<exists>stats s'. convert_messages recorder F policy msgs (executor_new [] c) = (Inr stats, s') \<and>
    frames_of (ex_writer s') = message_frames F c 0 msgs"
proof -
  obtain stats s' where run: "convert_messages recorder F policy msgs (executor_new [] c) = (Inr stats, s')"
    "ex_writer s' = conversion_ops F c msgs"
    using conversion_runs [OF assms(1,2) recorder_plan, of F policy] by force
  then show ?thesis
    using plan_frames [OF assms(3), where F = F and msgs = msgs and p = plan_start]
    by (simp add: conversion_ops_def Let_def frames_of_append closing_frames) (simp add: plan_start_def)
qed

theorem one_frame_per_message_witness:
  "\<exists>stats s'. convert_messages recorder sample_to_f32 ''sequential'' sample_messages (executor_new [] sample_config) = (Inr stats, s') \<and>
    map af_timestamp (frames_of (ex_writer s')) = [33333333, 33333333] \<and>
    map af_states (frames_of (ex_writer s')) = [[(''left'', [1])], [(''right'', [2])]]"
proof -
  have "map af_timestamp (message_frames sample_to_f32 sample_config 0 sample_messages) = [33333333, 33333333]"
    "map af_states (message_frames sample_to_f32 sample_config 0 sample_messages) = [[(''left'', [1])], [(''right'', [2])]]"
    by (simp_all add: sample_messages_def sample_config_def sample_to_f32_def messages_to_frame_def process_message_for_frame_def
        feature_of_def add_values_def dotted_name_def trim_start_char_def map_filter_simps af_add_state_def aligned_frame_new_def
        af_is_empty_def interval_def floor_to_def str_contains_def)
  then show ?thesis using one_frame_per_message [OF sample_ok, of sample_to_f32 "''sequential''"] by auto
qed

end
