(* ===== verification/Lerobot_Logic.thy ===== *)
theory Lerobot_Logic
  imports Lerobot_Writer Pipeline_Logic
begin

text \<open>
  The executor and the LeRobot writer together. The contract that the executor relies on, a writer that counts its frames, is
  the locale \<open>counting_writer\<close>, interpreted on the LeRobot writer and on the recording writer. Then: what the writer
  reports at the end of a conversion, and under which index it stores the episodes.
\<close>

section \<open>The contract\<close>

locale counting_writer =
  fixes W :: "('w, 'f) format_writer" and count :: "'w \<Rightarrow> nat"
  assumes write_counts: "fw_write_frame W f w = (Inr (), w') \<Longrightarrow> count w' = count w + 1"
    and start_counts: "fw_start_episode W i w = (Inr n, w') \<Longrightarrow> count w' = count w"
    and finish_counts: "fw_finish_episode W w = (Inr es, w') \<Longrightarrow> count w' = count w"
    and finalize_reports: "fw_finalize W w = (Inr ws, w') \<Longrightarrow> ws_frames_written ws = count w"
begin

lemma op_counts: "run_op W x w = (Inr (), w') \<Longrightarrow> count w' = count w + length (frames_of [x])"
  by (cases x) (auto simp: bindM_def write_counts dest: start_counts finish_counts split: prod.splits sum.splits)

lemma ops_count: "run_ops W ops w = (Inr (), w') \<Longrightarrow> count w' = count w + length (frames_of ops)"
proof (induction ops arbitrary: w)
  case (Cons x ops)
  then obtain w1 where "run_op W x w = (Inr (), w1)" "run_ops W ops w1 = (Inr (), w')"
    by (auto simp: bindM_def split: prod.splits sum.splits)
  then show ?case using op_counts [of x w w1] Cons.IH [of w1] frames_of_append [of "[x]" ops] by simp
qed simp

text \<open>What a conversion through the writer reports: the frames that were there and those of the plan.\<close>

lemma conversion_reports:
  assumes "rate_ok c" "list_all (\<lambda>m. image_safe (msg_data m)) msgs"
    "convert_messages W F policy msgs (executor_new w c) = (Inr stats, s')"
  shows "ps_frames_written stats = count w + length (frames_of (conversion_ops F c msgs))"
proof -
  obtain r w' where run: "run_plan W F c msgs w = (r, w')" by force
  have conv: "\<exists>q s'. convert_messages W F policy msgs (executor_new w c) = (q, s') \<and> ex_writer s' = w' \<and>
      (case r of Inl e \<Rightarrow> q = Inl e
       | Inr ws \<Rightarrow> \<exists>stats. q = Inr stats \<and> ps_frames_written stats = ws_frames_written ws \<and> ps_policy_name stats = policy)"
    by (rule conversion_runs [OF assms(1,2) run])
  then obtain ws where ws: "r = Inr ws" "ps_frames_written stats = ws_frames_written ws"
    using assms(3) by (auto split: sum.splits)
  then obtain w1 where "run_ops W (conversion_ops F c msgs) w = (Inr (), w1)" "fw_finalize W w1 = (Inr ws, w')"
    using run by (auto simp: run_plan_def bindM_def split: prod.splits sum.splits)
  then show ?thesis using ops_count finalize_reports ws(2) by metis
qed

end

interpretation recorded: counting_writer recorder "\<lambda>w. length (frames_of w)"
  by unfold_locales (auto simp: recorder_def frames_of_append)

section \<open>What the steps of the writer leave alone\<close>

lemma on_disk_simps:
  "on_disk p w = (r, w') \<Longrightarrow> w' = w\<lparr>lw_disk := snd (p (lw_disk w))\<rparr> \<and> r = fst (p (lw_disk w))"
  by (auto simp: on_disk_def split: prod.splits)

text \<open>A program keeps a value of the state, whether it succeeds or fails.\<close>

definition keeps :: "('s \<Rightarrow> 'x) \<Rightarrow> ('s, 'e, 'a) prog \<Rightarrow> bool" where
  "keeps g p \<longleftrightarrow> (\<forall>s. g (snd (p s)) = g s)"

named_theorems keeps_rules

lemma keepsD: "keeps g p \<Longrightarrow> p s = (r, s') \<Longrightarrow> g s' = g s"
  by (metis keeps_def snd_conv)

lemma keeps_basic [keeps_rules]: "keeps g (ret a)" "keeps g (throw e)" "keeps g (gets f)" "keeps g (returning r)"
  by (auto simp: keeps_def returning_def split: panics.splits)

lemma keeps_bind [keeps_rules]: "keeps g p \<Longrightarrow> (\<And>a. keeps g (k a)) \<Longrightarrow> keeps g (bindM p k)"
  by (auto simp: keeps_def bindM_def split: prod.splits sum.splits) (metis snd_conv)+

lemma keeps_handle [keeps_rules]: "keeps g p \<Longrightarrow> (\<And>e. keeps g (h e)) \<Longrightarrow> (\<And>a. keeps g (k a)) \<Longrightarrow> keeps g (handleM p h k)"
  by (auto simp: keeps_def handleM_def split: prod.splits sum.splits) (metis snd_conv)+

lemma keeps_modify [keeps_rules]: "(\<And>s. g (f s) = g s) \<Longrightarrow> keeps g (modifyM f)"
  by (simp add: keeps_def)

lemma keeps_if [keeps_rules]: "(b \<Longrightarrow> keeps g p) \<Longrightarrow> (\<not> b \<Longrightarrow> keeps g q) \<Longrightarrow> keeps g (if b then p else q)"
  by simp

lemma keeps_disk [keeps_rules]: "(\<And>w d. g (w\<lparr>lw_disk := d\<rparr>) = g w) \<Longrightarrow> keeps g (on_disk p)"
  by (auto simp: keeps_def on_disk_def split: prod.splits)

lemma keeps_pair [keeps_rules]: "(\<And>a b. keeps g (k a b)) \<Longrightarrow> keeps g (case x of (a, b) \<Rightarrow> k a b)"
  by (cases x) simp

text \<open>The data of frames and episodes, which the videos do not touch.\<close>

definition episode_data :: "lerobot_writer \<Rightarrow> nat \<times> nat \<times> real lerobot_frame list \<times> metadata_collector \<times> lerobot_config \<times> bool" where
  "episode_data w = (lw_total_frames w, lw_episode_index w, lw_frame_data w, lw_metadata w, lw_config w, lw_initialized w)"

lemma episode_data_updates [simp]:
  "episode_data (w\<lparr>lw_disk := d\<rparr>) = episode_data w" "episode_data (clear_images w) = episode_data w"
  "episode_data (count_encodings s w) = episode_data w" "episode_data (track_segment x w) = episode_data w"
  "episode_data (w\<lparr>lw_images_since_flush := n\<rparr>) = episode_data w"
  "episode_data (w\<lparr>lw_segment_index := k\<rparr>) = episode_data w"
  "episode_data (w\<lparr>lw_pending_segments := p\<rparr>) = episode_data w" "episode_data (w\<lparr>lw_output_bytes := b\<rparr>) = episode_data w"
  by (simp_all add: episode_data_def clear_images_def count_encodings_def track_segment_def split: prod.splits)

lemma track_segments [simp]: "episode_data (fold track_segment xs w) = episode_data w"
  by (induction xs arbitrary: w) simp_all

lemma videos_keep:
  "keeps episode_data (flush_video_segment M)" "keeps episode_data (merge_pending_segments M)"
  "keeps episode_data (lw_encode_videos M)" "keeps episode_data (write_episode_parquet M)" "keeps episode_data write_metadata"
  unfolding flush_video_segment_def merge_pending_segments_def lw_encode_videos_def write_episode_parquet_def write_metadata_def
  by (auto intro!: keeps_rules split: sum.splits)

section \<open>The operations of the writer\<close>

lemma add_images:
  "lw_total_frames (fold (\<lambda>(camera, img). lw_add_image camera img) imgs w) = lw_total_frames w"
  "lw_frame_data (fold (\<lambda>(camera, img). lw_add_image camera img) imgs w) = lw_frame_data w"
  "lw_episode_index (fold (\<lambda>(camera, img). lw_add_image camera img) imgs w) = lw_episode_index w"
  "mc_episodes (lw_metadata (fold (\<lambda>(camera, img). lw_add_image camera img) imgs w)) = mc_episodes (lw_metadata w)"
  by (induction imgs arbitrary: w) (auto simp: lw_add_image_def mc_update_image_shape_def)

text \<open>What is known of the writer about frames and episodes: the frames of earlier episodes and of this one, the index, and
  the episodes in the metadata.\<close>

definition progress :: "lerobot_writer \<Rightarrow> nat \<times> real lerobot_frame list \<times> nat \<times> episode_info list" where
  "progress w = (lw_total_frames w, lw_frame_data w, lw_episode_index w, mc_episodes (lw_metadata w))"

lemma progress_keeps: "keeps episode_data p \<Longrightarrow> keeps progress p"
  by (simp add: keeps_def episode_data_def progress_def)

lemma flush_keeps: "flush_or_log M w = (r, w') \<Longrightarrow> progress w' = progress w"
proof -
  have "keeps progress (flush_or_log M)" unfolding flush_or_log_def
    by (auto intro!: keeps_rules progress_keeps [OF videos_keep(1)] split: abort.splits)
  then show "flush_or_log M w = (r, w') \<Longrightarrow> progress w' = progress w" by (rule keepsD)
qed

lemma write_progress:
  assumes "lw_write_frame M f w = (Inr (), w')"
  shows "progress w' = (lw_total_frames w, lw_frame_data w @ [from_aligned_frame f (lw_episode_index w)], lw_episode_index w,
    mc_episodes (lw_metadata w))"
proof -
  let ?w1 = "fold (\<lambda>(camera, img). lw_add_image camera img) (af_images f) (add_frame (from_aligned_frame f (lw_episode_index w)) w)"
  have "flush_or_log M ?w1 = (Inr (), w') \<or> w' = ?w1"
    using assms by (cases "lw_initialized w") (auto simp: lw_write_frame_def bindM_simps split: if_splits)
  then have "progress w' = progress ?w1" using flush_keeps by auto
  then show ?thesis
    by (auto simp: progress_def add_images add_frame_def mc_update_state_dim_def Let_def split: option.splits)
qed

lemma start_progress:
  "fw_lerobot_start i w = (Inr n, w') \<Longrightarrow> w' = w\<lparr>lw_episode_index := length (lw_frame_data w)\<rparr>"
  by (simp add: fw_lerobot_start_def trait_start_episode_def bindM_simps) auto

lemma bind_returns: "bindM p k w = (Inr b, w') \<Longrightarrow> \<exists>a w1. p w = (Inr a, w1) \<and> k a w1 = (Inr b, w')"
  by (auto simp: bindM_def split: prod.splits sum.splits)

lemma finish_progress:
  assumes "lw_finish_episode M task w = (Inr (), w')"
  shows "progress w' =
    (if lw_frame_data w = [] then progress w
     else (lw_total_frames w + length (lw_frame_data w), [], lw_episode_index w,
       mc_episodes (lw_metadata w) @ [\<lparr> ei_episode_index = lw_episode_index w, ei_length = length (lw_frame_data w),
         ei_tasks = (case task of Some t \<Rightarrow> [t] | None \<Rightarrow> []) \<rparr>]))"
proof (cases "lw_frame_data w = []")
  case True
  then show ?thesis using assms by (simp add: lw_finish_episode_def bindM_simps)
next
  case False
  have "bindM (write_episode_parquet M) (\<lambda>_. bindM (lw_encode_videos M) (finish_tail task)) w = (Inr (), w')"
    using assms False by (simp add: lw_finish_episode_def bindM_simps)
  from bind_returns [OF this] obtain u w1 where 1: "write_episode_parquet M w = (Inr u, w1)"
    and rest: "bindM (lw_encode_videos M) (finish_tail task) w1 = (Inr (), w')" by blast
  from bind_returns [OF rest] obtain stats w2 where 2: "lw_encode_videos M w1 = (Inr stats, w2)"
    and 3: "finish_tail task stats w2 = (Inr (), w')" by blast
  have w2: "progress w2 = progress w"
    using keepsD [OF progress_keeps [OF videos_keep(4)] 1] keepsD [OF progress_keeps [OF videos_keep(3)] 2] by simp
  have "progress w' = (lw_total_frames w2 + length (lw_frame_data w2), [], lw_episode_index w2,
      mc_episodes (lw_metadata w2) @ [\<lparr> ei_episode_index = lw_episode_index w2, ei_length = length (lw_frame_data w2),
         ei_tasks = (case task of Some t \<Rightarrow> [t] | None \<Rightarrow> []) \<rparr>])"
    using 3 by (auto simp: finish_tail_def bindM_simps progress_def clear_images_def add_to_metadata_def mc_add_episode_def
        calculate_episode_stats_def mc_add_episode_stats_def count_encodings_def)
  then show ?thesis using w2 False by (simp add: progress_def)
qed

section \<open>The end of a conversion\<close>

text \<open>What holds after a program that returns.\<close>

definition ensures :: "('s \<Rightarrow> bool) \<Rightarrow> ('s, 'e, 'a) prog \<Rightarrow> ('a \<Rightarrow> 's \<Rightarrow> bool) \<Rightarrow> bool" where
  "ensures P p Q \<longleftrightarrow> valid P p Q (\<lambda>_ _. True)"

lemma ensures_iff: "ensures P p Q \<longleftrightarrow> (\<forall>s a s'. P s \<longrightarrow> p s = (Inr a, s') \<longrightarrow> Q a s')"
  unfolding ensures_def by (auto intro!: validI dest: valid_Inr)

lemma ensuresD: "ensures P p Q \<Longrightarrow> P s \<Longrightarrow> p s = (Inr a, s') \<Longrightarrow> Q a s'"
  by (simp add: ensures_iff)

lemma ensures_bind: "ensures P p R \<Longrightarrow> (\<And>a. ensures (R a) (k a) Q) \<Longrightarrow> ensures P (bindM p k) Q"
  unfolding ensures_iff by (metis bind_returns)

lemma ensures_keeps: "keeps g p \<Longrightarrow> ensures (\<lambda>s. X (g s)) p (\<lambda>_ s. X (g s))"
  unfolding ensures_iff keeps_def by (metis snd_conv)

lemma ensures_gets: "ensures P (gets f) (\<lambda>a s. P s \<and> a = f s)"
  by (simp add: ensures_iff)

lemma ensures_gets_any: "ensures P (gets f) (\<lambda>_. P)"
  by (simp add: ensures_iff)

lemma ensures_pair: "(\<And>a b. ensures P (k a b) Q) \<Longrightarrow> ensures P (case x of (a, b) \<Rightarrow> k a b) Q"
  by (cases x) simp

text \<open>The progress after the frames that no episode was finished for.\<close>

definition closed_at :: "nat \<Rightarrow> real lerobot_frame list \<Rightarrow> nat \<Rightarrow> episode_info list \<Rightarrow>
    nat \<times> real lerobot_frame list \<times> nat \<times> episode_info list \<Rightarrow> bool" where
  "closed_at t fs i eps x \<longleftrightarrow> fst x = t + length fs \<and> (fs = [] \<longrightarrow> x = (t, [], i, eps))"

lemma last_episode_ensures:
  "ensures (\<lambda>w. progress w = (t, fs, i, eps) \<and> frames = lw_frame_data w)
     (if frames \<noteq> []
      then bindM (write_episode_parquet M) (\<lambda>_. bindM (modifyM (add_to_metadata [])) (\<lambda>_. modifyM calculate_episode_stats))
      else ret ())
     (\<lambda>_ w. closed_at t fs i eps (progress w))"
proof (cases "frames = []")
  case True
  then show ?thesis by (auto simp: ensures_iff progress_def closed_at_def)
next
  case False
  have "ensures (\<lambda>w. progress w = (t, fs, i, eps) \<and> fs \<noteq> []) (write_episode_parquet M) (\<lambda>_ w. progress w = (t, fs, i, eps) \<and> fs \<noteq> [])"
    by (rule ensures_keeps [OF progress_keeps [OF videos_keep(4)], where X = "\<lambda>x. x = (t, fs, i, eps) \<and> fs \<noteq> []"])
  moreover have "ensures (\<lambda>w. progress w = (t, fs, i, eps) \<and> fs \<noteq> [])
      (bindM (modifyM (add_to_metadata [])) (\<lambda>_. modifyM calculate_episode_stats)) (\<lambda>_ w. closed_at t fs i eps (progress w))"
    by (auto simp: ensures_iff bindM_simps progress_def closed_at_def add_to_metadata_def calculate_episode_stats_def)
  ultimately have "ensures (\<lambda>w. progress w = (t, fs, i, eps) \<and> fs \<noteq> [])
      (bindM (write_episode_parquet M) (\<lambda>_. bindM (modifyM (add_to_metadata [])) (\<lambda>_. modifyM calculate_episode_stats)))
      (\<lambda>_ w. closed_at t fs i eps (progress w))"
    by (rule ensures_bind)
  then show ?thesis using False by (auto simp: ensures_iff progress_def)
qed

lemma closing_writes_ensure:
  "ensures (\<lambda>w. closed_at t fs i eps (progress w))
     (bindM (merge_pending_segments M) (\<lambda>_.
      bindM (gets (\<lambda>w. (lw_camera_intrinsics w, lw_camera_extrinsics w, lw_output_dir w))) (\<lambda>(i, e, dir).
      bindM (on_disk (write_camera_params i e dir)) (\<lambda>_.
      bindM write_metadata (\<lambda>_.
      gets (\<lambda>w. \<lparr> ws_frames_written = lw_total_frames w, ws_images_encoded = lw_images_encoded w,
                  ws_state_records = lw_total_frames w * 2, ws_output_bytes = lw_output_bytes w \<rparr>))))))
     (\<lambda>ws w. ws_frames_written ws = t + length fs \<and> closed_at t fs i eps (progress w))"
proof -
  note same = ensures_keeps [where g = progress and X = "closed_at t fs i eps"]
  show ?thesis
    by (intro ensures_bind [OF same [OF progress_keeps [OF videos_keep(2)]]] ensures_bind [OF ensures_gets_any] ensures_pair
        ensures_bind [OF same [OF progress_keeps [OF keeps_disk]]] ensures_bind [OF same [OF progress_keeps [OF videos_keep(5)]]])
       (auto simp: ensures_iff progress_def closed_at_def)
qed

lemma finalize_ensures:
  "ensures (\<lambda>w. progress w = (t, fs, i, eps)) (lw_finalize M)
     (\<lambda>ws w. ws_frames_written ws = t + length fs \<and> closed_at t fs i eps (progress w))"
  unfolding lw_finalize_def
  by (rule ensures_bind [OF ensures_gets_any],
      rule ensures_bind [OF ensures_keeps [OF keeps_if [OF progress_keeps [OF videos_keep(1)] keeps_basic(1)], where X = "\<lambda>x. x = (t, fs, i, eps)"]],
      rule ensures_bind [OF ensures_gets], rule ensures_bind [OF last_episode_ensures closing_writes_ensure])

lemma finalize_progress:
  assumes "lw_finalize M w = (Inr ws, w')"
  shows "ws_frames_written ws = lw_frame_count w" and "lw_frame_data w = [] \<Longrightarrow> progress w' = progress w"
  using ensuresD [OF finalize_ensures _ assms, of "lw_total_frames w" "lw_frame_data w" "lw_episode_index w" "mc_episodes (lw_metadata w)"]
  by (simp_all add: progress_def closed_at_def lw_frame_count_def)

lemma fw_finish_progress:
  "fw_lerobot_finish M w = (Inr es, w') \<Longrightarrow> lw_finish_episode M (Some (lw_episode_index w)) w = (Inr (), w')"
  by (auto simp: fw_lerobot_finish_def bindM_simps bindM_Inr_iff)

section \<open>The writer keeps the contract\<close>

interpretation lerobot: counting_writer "lerobot_format_writer M" lw_frame_count for M
proof
  show "fw_write_frame (lerobot_format_writer M) f w = (Inr (), w') \<Longrightarrow> lw_frame_count w' = lw_frame_count w + 1" for f w w'
    using write_progress [of M f w w'] by (simp add: lerobot_format_writer_def progress_def lw_frame_count_def)
  show "fw_start_episode (lerobot_format_writer M) i w = (Inr n, w') \<Longrightarrow> lw_frame_count w' = lw_frame_count w" for i w n w'
    using start_progress [of i w n w'] by (simp add: lerobot_format_writer_def lw_frame_count_def)
  show "fw_finish_episode (lerobot_format_writer M) w = (Inr es, w') \<Longrightarrow> lw_frame_count w' = lw_frame_count w" for w es w'
    using finish_progress [OF fw_finish_progress, of M w es w']
    by (simp add: lerobot_format_writer_def progress_def lw_frame_count_def split: if_splits)
  show "fw_finalize (lerobot_format_writer M) w = (Inr ws, w') \<Longrightarrow> ws_frames_written ws = lw_frame_count w" for w ws w'
    using finalize_progress(1) [of M w ws w'] by (simp add: lerobot_format_writer_def)
qed

section \<open>Episodes\<close>

text \<open>The lengths of the episodes that have frames.\<close>

fun episode_lengths :: "nat \<Rightarrow> 'f writer_op list \<Rightarrow> nat list" where
  "episode_lengths k [] = []"
| "episode_lengths k (StartOp i # xs) = episode_lengths k xs"
| "episode_lengths k (WriteOp f # xs) = episode_lengths (k + 1) xs"
| "episode_lengths k (FinishOp # xs) = (if k = 0 then [] else [k]) @ episode_lengths 0 xs"

definition stored_episode :: "nat \<Rightarrow> episode_info" where
  "stored_episode n = \<lparr> ei_episode_index = 0, ei_length = n, ei_tasks = [0] \<rparr>"

lemma ops_episodes:
  assumes "run_ops (lerobot_format_writer M) ops w = (Inr (), w')" "lifecycle started n ops"
    "started \<longrightarrow> lw_episode_index w = 0" "\<not> started \<longrightarrow> lw_frame_data w = []"
  shows "lw_frame_data w' = [] \<and>
    mc_episodes (lw_metadata w') = mc_episodes (lw_metadata w) @ map stored_episode (episode_lengths (length (lw_frame_data w)) ops)"
  using assms
proof (induction ops arbitrary: w started n)
  case (Cons x xs)
  obtain w1 where w1: "run_op (lerobot_format_writer M) x w = (Inr (), w1)" "run_ops (lerobot_format_writer M) xs w1 = (Inr (), w')"
    using Cons.prems(1) by (auto simp: bindM_Inr_iff)
  show ?case
  proof (cases x)
    case (StartOp i)
    then have "w1 = w\<lparr>lw_episode_index := length (lw_frame_data w)\<rparr>"
      using w1(1) by (auto simp: bindM_Inr_iff lerobot_format_writer_def dest!: start_progress)
    then show ?thesis using Cons.IH [OF w1(2), of True n] Cons.prems(2-4) StartOp by simp
  next
    case (WriteOp f)
    then have "progress w1 = (lw_total_frames w, lw_frame_data w @ [from_aligned_frame f (lw_episode_index w)], lw_episode_index w,
        mc_episodes (lw_metadata w))"
      using w1(1) write_progress [of M f w w1] by (simp add: lerobot_format_writer_def)
    then show ?thesis using Cons.IH [OF w1(2), of True n] Cons.prems(2-4) WriteOp by (simp add: progress_def)
  next
    case FinishOp
    then have "lw_finish_episode M (Some (lw_episode_index w)) w = (Inr (), w1)"
      using w1(1) by (auto simp: bindM_Inr_iff lerobot_format_writer_def dest!: fw_finish_progress)
    then show ?thesis
      using finish_progress [of M "Some (lw_episode_index w)" w w1] Cons.IH [OF w1(2), of False "n + 1"] Cons.prems(2-4) FinishOp
      by (auto simp: progress_def stored_episode_def split: if_splits)
  qed
qed simp

section \<open>A disk without failures\<close>

lemma io_calls_ok: "dk_faults d = [] \<Longrightarrow> io_call x d = (Inr (), d)" "dk_faults d = [] \<Longrightarrow> io_calls n x d = (Inr (), d)"
  by (simp add: io_call_def) (induction n; simp add: bindM_def io_call_def)

lemma put_file_faults [simp]: "dk_faults (put_file p c d) = dk_faults d"
  by (simp add: put_file_def)

lemma put_file_twice [simp]: "put_file p c (put_file p b d) = put_file p c d"
  by (simp add: put_file_def)

lemma writes_ok:
  assumes "dk_faults d = []"
  shows "write_file p c d = (Inr (), put_file p c d)" "write_in_steps n p c d = (Inr (), put_file p c d)"
    "write_table M p t d = (Inr (md_table_bytes M t), put_file p (ParquetFile t) d)"
  using assms by (simp_all add: write_file_def write_in_steps_def write_table_def bindM_def io_calls_ok)

lemma metadata_ok: "dk_faults d = [] \<Longrightarrow> \<exists>d'. mc_write_all m dir c d = (Inr (), d') \<and> dk_faults d' = []"
  by (simp add: mc_write_all_def Let_def bindM_def io_calls_ok write_info_json_def write_episodes_jsonl_def write_tasks_jsonl_def
      write_episodes_stats_jsonl_def writes_ok)

text \<open>A writer on such a disk that has no images.\<close>

definition quiet :: "lerobot_writer \<Rightarrow> bool" where
  "quiet w \<longleftrightarrow> dk_faults (lw_disk w) = [] \<and> lw_image_buffers w = [] \<and> lw_pending_segments w = [] \<and> lw_initialized w \<and>
     lw_episodes_per_chunk w \<noteq> 0 \<and> lw_camera_intrinsics w = [] \<and> lw_camera_extrinsics w = []"

definition has_state :: "real aligned_frame \<Rightarrow> bool" where
  "has_state f \<longleftrightarrow> find (\<lambda>(k, _). str_contains k ''observation'' \<or> str_contains k ''state'') (af_states f) \<noteq> None"

lemma has_state_row: "has_state f \<longleftrightarrow> lf_observation_state (from_aligned_frame f i) \<noteq> None"
  by (simp add: has_state_def from_aligned_frame_def)

lemma state_dimension_some: "f \<in> set fs \<Longrightarrow> lf_observation_state f \<noteq> None \<Longrightarrow> state_dimension fs \<noteq> None"
  by (induction fs) (auto simp: state_dimension_def map_filter_simps split: option.splits)

lemma quiet_write:
  assumes "quiet w" "af_images f = []"
  shows "\<exists>w'. lw_write_frame M f w = (Inr (), w') \<and> quiet w'"
proof -
  let ?w = "add_frame (from_aligned_frame f (lw_episode_index w)) w"
  have w: "quiet ?w" using assms(1) by (simp add: quiet_def add_frame_def)
  have "flush_or_log M ?w = (Inr (), ?w)"
    using w by (simp add: flush_or_log_def handleM_def flush_video_segment_def bindM_def no_images_def quiet_def)
  then show ?thesis
    using assms w by (auto simp: lw_write_frame_def bindM_simps quiet_def [of w])
qed

lemma quiet_chunk: "quiet w \<Longrightarrow> \<exists>n. lw_chunk_index w = Returns n"
  by (simp add: quiet_def lw_chunk_index_def)

lemma quiet_parquet:
  assumes "quiet w" "state_dimension (lw_frame_data w) \<noteq> None"
  shows "\<exists>w'. write_episode_parquet M w = (Inr (), w') \<and> quiet w'"
proof -
  obtain n where n: "lw_chunk_index w = Returns n" using quiet_chunk [OF assms(1)] by blast
  have "dk_faults (lw_disk w) = []" using assms(1) by (simp add: quiet_def)
  then show ?thesis
    using assms by (auto simp: write_episode_parquet_def bindM_def gets_def n returning_def on_disk_def io_calls_ok episode_table_def
        writes_ok modifyM_def quiet_def split: option.splits)
qed

lemma quiet_videos: "quiet w \<Longrightarrow> lw_encode_videos M w = (Inr no_encodings, w)"
  by (simp add: lw_encode_videos_def bindM_def quiet_def)

lemma quiet_finish:
  assumes "quiet w" "lw_frame_data w \<noteq> [] \<Longrightarrow> state_dimension (lw_frame_data w) \<noteq> None"
  shows "\<exists>es w'. fw_lerobot_finish M w = (Inr es, w') \<and> quiet w'"
proof (cases "lw_frame_data w = []")
  case True
  then show ?thesis using assms(1) by (simp add: fw_lerobot_finish_def lw_finish_episode_def bindM_def)
next
  case False
  obtain w1 where w1: "write_episode_parquet M w = (Inr (), w1)" "quiet w1" using quiet_parquet assms False by blast
  obtain w2 where "finish_tail (Some (lw_episode_index w)) no_encodings w1 = (Inr (), w2)" "quiet w2"
    using w1(2) by (simp add: finish_tail_def bindM_simps quiet_def count_encodings_def calculate_episode_stats_def
        add_to_metadata_def clear_images_def)
  then show ?thesis using w1 False
    by (auto simp: fw_lerobot_finish_def lw_finish_episode_def bindM_def quiet_videos)
qed

lemma quiet_finalize:
  assumes "quiet w" "lw_frame_data w = []"
  shows "\<exists>ws w'. lw_finalize M w = (Inr ws, w')"
proof -
  have d: "dk_faults (lw_disk w) = []" using assms(1) by (simp add: quiet_def)
  have "\<exists>w'. write_metadata w = (Inr (), w')"
    using metadata_ok [OF d, of "lw_metadata w" "lw_output_dir w" "lw_config w"] by (auto simp: write_metadata_def bindM_def on_disk_def split: prod.splits)
  then show ?thesis
    using assms by (auto simp: lw_finalize_def bindM_def quiet_def no_images_def merge_pending_segments_def on_disk_def write_camera_params_def)
qed

text \<open>Calls without images that finish only episodes in which some frame has a state.\<close>

fun writable :: "real aligned_frame list \<Rightarrow> real writer_op list \<Rightarrow> bool" where
  "writable fs [] \<longleftrightarrow> True"
| "writable fs (StartOp i # xs) \<longleftrightarrow> writable fs xs"
| "writable fs (WriteOp f # xs) \<longleftrightarrow> af_images f = [] \<and> writable (fs @ [f]) xs"
| "writable fs (FinishOp # xs) \<longleftrightarrow> (fs = [] \<or> list_ex has_state fs) \<and> writable [] xs"

lemma quiet_ops:
  assumes "quiet w" "writable fs ops" "map (\<lambda>f. lf_observation_state f) (lw_frame_data w) = map (\<lambda>f. lf_observation_state (from_aligned_frame f 0)) fs"
  shows "\<exists>w'. run_ops (lerobot_format_writer M) ops w = (Inr (), w') \<and> quiet w'"
  using assms
proof (induction ops arbitrary: w fs)
  case (Cons x xs)
  have step: ?case if "run_op (lerobot_format_writer M) x w = (Inr (), w1)"
    "\<exists>w'. run_ops (lerobot_format_writer M) xs w1 = (Inr (), w') \<and> quiet w'" for w1
    using that by (simp add: bindM_def)
  show ?case
  proof (cases x)
    case (StartOp i)
    let ?w = "w\<lparr>lw_episode_index := length (lw_frame_data w)\<rparr>"
    have "run_op (lerobot_format_writer M) x w = (Inr (), ?w)"
      by (simp add: StartOp lerobot_format_writer_def fw_lerobot_start_def trait_start_episode_def bindM_def)
    moreover have "\<exists>w'. run_ops (lerobot_format_writer M) xs ?w = (Inr (), w') \<and> quiet w'"
      by (rule Cons.IH [of _ fs]) (use Cons.prems StartOp in \<open>simp_all add: quiet_def\<close>)
    ultimately show ?thesis by (rule step)
  next
    case (WriteOp f)
    obtain w1 where w1: "lw_write_frame M f w = (Inr (), w1)" "quiet w1"
      using quiet_write [OF Cons.prems(1), of f M] Cons.prems(2) WriteOp by auto
    have "run_op (lerobot_format_writer M) x w = (Inr (), w1)" using w1 by (simp add: WriteOp lerobot_format_writer_def)
    moreover have "\<exists>w'. run_ops (lerobot_format_writer M) xs w1 = (Inr (), w') \<and> quiet w'"
      by (rule Cons.IH [of _ "fs @ [f]"])
         (use Cons.prems WriteOp w1 write_progress [OF w1(1)] in \<open>simp_all add: progress_def from_aligned_frame_def\<close>)
    ultimately show ?thesis by (rule step)
  next
    case FinishOp
    have states: "state_dimension (lw_frame_data w) \<noteq> None" if ne: "lw_frame_data w \<noteq> []"
    proof -
      have "list_ex has_state fs" using Cons.prems(2,3) FinishOp ne by auto
      then obtain s where "Some s \<in> set (map (\<lambda>f. lf_observation_state (from_aligned_frame f 0)) fs)"
        unfolding list_ex_iff by (auto simp: has_state_row [where i = 0] image_iff) metis
      then obtain f where "f \<in> set (lw_frame_data w)" "lf_observation_state f = Some s"
        unfolding Cons.prems(3) [symmetric] by auto
      then show ?thesis by (intro state_dimension_some) auto
    qed
    obtain es w1 where w1: "fw_lerobot_finish M w = (Inr es, w1)" "quiet w1" using quiet_finish Cons.prems(1) states by blast
    have "run_op (lerobot_format_writer M) x w = (Inr (), w1)" using w1 by (simp add: FinishOp lerobot_format_writer_def bindM_def)
    moreover have "\<exists>w'. run_ops (lerobot_format_writer M) xs w1 = (Inr (), w') \<and> quiet w'"
    proof (rule Cons.IH [OF w1(2)])
      show "writable [] xs" using Cons.prems(2) FinishOp by simp
      show "map lf_observation_state (lw_frame_data w1) = map (\<lambda>f. lf_observation_state (from_aligned_frame f 0)) []"
        using finish_progress [OF fw_finish_progress [OF w1(1)]] by (auto simp: progress_def split: if_splits)
    qed
    ultimately show ?thesis by (rule step)
  qed
qed simp

text \<open>One state of a robot before and one after a gap of a second, through a writer on a disk without failures.\<close>

definition sample_lerobot_config :: lerobot_config where
  "sample_lerobot_config = \<lparr> lc_dataset = \<lparr> ds_name = ''demo'', ds_fps = 30, ds_robot_type = None, ds_env_type = None \<rparr>,
     lc_mappings = [], lc_video = default_video_config, lc_annotation_file = None, lc_flushing = default_flushing_config,
     lc_streaming = default_s3_streaming \<rparr>"

definition sample_writer :: lerobot_writer where
  "sample_writer = writer_with [] ''out'' sample_lerobot_config ''session'' \<lparr> dk_files = (\<lambda>_. None), dk_faults = [] \<rparr>"

definition sample_media :: media where
  "sample_media = \<lparr> md_decode = (\<lambda>_. None), md_threads = 1, md_video_bytes = (\<lambda>frames. of_nat (length frames)),
     md_compose = concat, md_table_bytes = length \<rparr>"

definition gap_config :: "unit pipeline_config" where
  "gap_config = sample_config\<lparr>pc_episode_strategy := GapBased 500000000\<rparr>"

definition real_to_f32 :: "(real, unit) to_f32" where
  "real_to_f32 = \<lparr> f32_of_f64 = (\<lambda>_. 0), f32_of_int = real_of_int \<rparr>"

definition gap_messages :: "(real, unit) message list" where
  "gap_messages =
     [\<lparr> msg_topic = ''/state'', msg_log_time = 0, msg_data = ArrayValue [Int32 1] \<rparr>,
      \<lparr> msg_topic = ''/state'', msg_log_time = 1000000000, msg_data = ArrayValue [Int32 2] \<rparr>]"

lemma gap_ok: "rate_ok gap_config" "list_all (\<lambda>m. image_safe (msg_data m)) gap_messages" "pc_max_frames gap_config = None"
  by (simp_all add: rate_ok_def gap_config_def sample_config_def gap_messages_def)

lemma gap_ops:
  "conversion_ops real_to_f32 gap_config gap_messages =
    [StartOp 0, WriteOp \<lparr> af_frame_index = 0, af_timestamp = 0, af_images = [], af_states = [(''state'', [1])], af_actions = [],
        af_timestamps = [], af_audio = [] \<rparr>, FinishOp,
     StartOp 1, WriteOp \<lparr> af_frame_index = 1, af_timestamp = 999999990, af_images = [], af_states = [(''state'', [2])],
        af_actions = [], af_timestamps = [], af_audio = [] \<rparr>, FinishOp]"
  by (simp add: conversion_ops_def Let_def gap_messages_def plan_start_def plan_then_def plan_message_def plan_open_def
      plan_next_def gap_at_def full_at_def gap_config_def sample_config_def plan_frame_def closing_def
      messages_to_frame_def process_message_for_frame_def
        feature_of_def add_values_def dotted_name_def trim_start_char_def map_filter_simps af_add_state_def aligned_frame_new_def
        af_is_empty_def interval_def floor_to_def str_contains_def real_to_f32_def)

lemma sample_writer_quiet: "quiet sample_writer" "lw_frame_data sample_writer = []" "lw_frame_count sample_writer = 0"
    "mc_episodes (lw_metadata sample_writer) = []"
  by (simp_all add: quiet_def sample_writer_def writer_with_def DEFAULT_EPISODES_PER_CHUNK_def metadata_new_def lw_frame_count_def)

lemma quiet_conversion:
  assumes "rate_ok c" "list_all (\<lambda>m. image_safe (msg_data m)) msgs" "quiet w" "lw_frame_data w = []" "writable [] (conversion_ops F c msgs)"
  shows "\<exists>stats s'. convert_messages (lerobot_format_writer M) F policy msgs (executor_new w c) = (Inr stats, s')"
proof -
  obtain w1 where w1: "run_ops (lerobot_format_writer M) (conversion_ops F c msgs) w = (Inr (), w1)" "quiet w1"
    using quiet_ops [OF assms(3,5), of M] assms(4) by auto
  have "lw_frame_data w1 = []"
    using ops_episodes [OF w1(1) conversion_lifecycle] assms(4) by simp
  then obtain ws w' where "lw_finalize M w1 = (Inr ws, w')" using quiet_finalize [OF w1(2), of M] by blast
  then have "run_plan (lerobot_format_writer M) F c msgs w = (Inr ws, w')"
    using w1 by (simp add: run_plan_def bindM_def lerobot_format_writer_def)
  from conversion_runs [OF assms(1,2) this, of policy] show ?thesis by auto
qed

lemma gap_writable: "writable [] (conversion_ops real_to_f32 gap_config gap_messages)"
  by (simp add: gap_ops has_state_def str_contains_def)

section \<open>Properties\<close>

text \<open>C26: a conversion to a LeRobot dataset can be completed. With a frame rate between one and a billion, no limit on the
  number of frames and an initialized writer (no frames, images, pending segments or camera calibration yet, a positive chunk size) on a disk
  where no call fails, messages that carry no images and of which every
  episode has at least one with a state are converted without an error, whatever the video encoder does, and the number of frames
  reported is the number of messages that carry data.\<close>

theorem lerobot_conversion_completes:
  assumes "rate_ok c" "list_all (\<lambda>m. image_safe (msg_data m)) msgs" "pc_max_frames c = None"
    "quiet w" "lw_frame_count w = 0" "writable [] (conversion_ops F c msgs)"
  shows "\<exists>stats s'. convert_messages (lerobot_format_writer M) F policy msgs (executor_new w c) = (Inr stats, s') \<and>
    ps_frames_written stats = length (message_frames F c 0 msgs)"
proof -
  have "lw_frame_data w = []" using assms(5) by (simp add: lw_frame_count_def)
  then obtain stats s' where run: "convert_messages (lerobot_format_writer M) F policy msgs (executor_new w c) = (Inr stats, s')"
    using quiet_conversion [OF assms(1,2,4) _ assms(6), of M policy] by blast
  have "frames_of (conversion_ops F c msgs) = message_frames F c 0 msgs"
    using plan_frames [OF assms(3), where F = F and msgs = msgs and p = plan_start]
    by (simp add: conversion_ops_def Let_def frames_of_append closing_frames) (simp add: plan_start_def)
  then show ?thesis using run lerobot.conversion_reports [OF assms(1,2) run] assms(5) by simp
qed

theorem lerobot_conversion_completes_witness:
  "\<exists>stats s'. convert_messages (lerobot_format_writer sample_media) real_to_f32 ''sequential'' gap_messages (executor_new sample_writer gap_config) =
      (Inr stats, s') \<and>
    ps_frames_written stats = length (message_frames real_to_f32 gap_config 0 gap_messages)"
  by (rule lerobot_conversion_completes [OF gap_ok sample_writer_quiet(1,3) gap_writable])

text \<open>C27: all episodes are stored as episode zero. When a conversion into a writer that has no open episode succeeds,
  the metadata gets one entry for each episode that has frames, with the right number of frames, but every entry has the
  index 0 and the task 0: the writer takes as the index of an episode the number of frames that are waiting, which is
  zero when an episode is started, and ignores the index the executor counts and the one that was set before.\<close>

theorem every_episode_is_zero:
  assumes "rate_ok c" "list_all (\<lambda>m. image_safe (msg_data m)) msgs" "lw_frame_data w = []"
    "convert_messages (lerobot_format_writer M) F policy msgs (executor_new w c) = (Inr stats, s')"
  shows "mc_episodes (lw_metadata (ex_writer s')) =
    mc_episodes (lw_metadata w) @ map (\<lambda>n. \<lparr> ei_episode_index = 0, ei_length = n, ei_tasks = [0] \<rparr>)
      (episode_lengths 0 (conversion_ops F c msgs))"
proof -
  obtain r w' where run: "run_plan (lerobot_format_writer M) F c msgs w = (r, w')" by force
  have "ex_writer s' = w'" "\<exists>ws. r = Inr ws" using conversion_runs [OF assms(1,2) run, of policy] assms(4) by (auto split: sum.splits)
  then obtain ws w1 where w1: "run_ops (lerobot_format_writer M) (conversion_ops F c msgs) w = (Inr (), w1)"
    "lw_finalize M w1 = (Inr ws, ex_writer s')"
    using run by (auto simp: run_plan_def bindM_Inr_iff lerobot_format_writer_def)
  have "lw_frame_data w1 = []" "mc_episodes (lw_metadata w1) = mc_episodes (lw_metadata w) @
      map stored_episode (episode_lengths 0 (conversion_ops F c msgs))"
    using ops_episodes [OF w1(1) conversion_lifecycle] assms(3) by simp_all
  then show ?thesis using finalize_progress(2) [OF w1(2)] by (simp add: progress_def stored_episode_def [abs_def])
qed

theorem every_episode_is_zero_witness:
  "\<exists>stats s'. convert_messages (lerobot_format_writer sample_media) real_to_f32 ''sequential'' gap_messages
      (executor_new (set_episode_index 7 sample_writer) gap_config) = (Inr stats, s') \<and>
    mc_episodes (lw_metadata (ex_writer s')) =
      [\<lparr> ei_episode_index = 0, ei_length = 1, ei_tasks = [0] \<rparr>, \<lparr> ei_episode_index = 0, ei_length = 1, ei_tasks = [0] \<rparr>]"
proof -
  let ?w = "set_episode_index 7 sample_writer"
  have w: "quiet ?w" "lw_frame_data ?w = []" "mc_episodes (lw_metadata ?w) = []"
    using sample_writer_quiet by (simp_all add: quiet_def set_episode_index_def)
  obtain stats s' where run: "convert_messages (lerobot_format_writer sample_media) real_to_f32 ''sequential'' gap_messages (executor_new ?w gap_config) = (Inr stats, s')"
    using quiet_conversion [OF gap_ok(1,2) w(1,2) gap_writable, of sample_media "''sequential''"] by blast
  show ?thesis using every_episode_is_zero [OF gap_ok(1,2) w(2) run] run w(3) by (simp add: gap_ops)
qed

end
