(* ===== verification/Frame_Pool.thy ===== *)
theory Frame_Pool
  imports RF_Prelude
begin

text \<open>
  \<open>roboflow-media/src/video/arena.rs\<close>: the pool of frame slots that threads share. A 64-bit mask has a bit for every free
  slot; a slot is taken by clearing its lowest set bit with a compare-and-exchange. An acquisition is modelled twice: as a
  program that runs alone (\<open>try_acquire_slot\<close>, with the list of exchanges that fail without a reason, which the weak
  exchange may do), and as the steps of any number of acquisitions over one pool. The allocator of the language is a
  parameter: it returns an address or nothing.
\<close>

unbundle bit_operations_syntax

section \<open>Configuration\<close>

record frame_pool_config =
  fpc_width :: u32
  fpc_height :: u32
  fpc_bytes_per_pixel :: u32
  fpc_slot_count :: u32

definition default_frame_pool_config :: frame_pool_config where
  "default_frame_pool_config = \<lparr> fpc_width = 640, fpc_height = 480, fpc_bytes_per_pixel = 3, fpc_slot_count = 64 \<rparr>"

text \<open>Products of \<open>usize\<close> wrap in the release profile.\<close>

definition fpc_slot_size :: "frame_pool_config \<Rightarrow> u64" where
  "fpc_slot_size c = ucast (fpc_width c) * ucast (fpc_height c) * ucast (fpc_bytes_per_pixel c)"

datatype frame_pool_error = InvalidPoolConfig string | AllocationFailed string | PoolExhausted

section \<open>Pools\<close>

record frame_pool =
  fp_base :: "nat option"
  fp_slot_size :: u64
  fp_slot_count :: u32
  fp_width :: u32
  fp_height :: u32
  fp_free_mask :: u64
  fp_in_use :: "bool list"
  fp_alloc_count :: u64

definition checked_mul_usize :: "u64 \<Rightarrow> u64 \<Rightarrow> u64 option" where
  "checked_mul_usize a b = (if unat a * unat b < 2 ^ 64 then Some (a * b) else None)"

text \<open>\<open>Layout::from_size_align\<close> refuses sizes that, rounded up to the alignment, exceed \<open>isize::MAX\<close>.\<close>

definition layout_ok :: "u64 \<Rightarrow> nat \<Rightarrow> bool" where
  "layout_ok bytes alignment \<longleftrightarrow> unat bytes + (alignment - 1) < 2 ^ 63"

definition initial_mask :: "u32 \<Rightarrow> u64" where
  "initial_mask n = (if n = 64 then - 1 else push_bit (unat n) 1 - 1)"

definition frame_pool_new :: "(u64 \<Rightarrow> nat option) \<Rightarrow> frame_pool_config \<Rightarrow> frame_pool_error + frame_pool" where
  "frame_pool_new allocate c =
     (if fpc_width c = 0 \<or> fpc_height c = 0 then Inl (InvalidPoolConfig ''Width and height must be non-zero'')
      else if fpc_slot_count c = 0 then Inl (InvalidPoolConfig ''Slot count must be non-zero'')
      else if fpc_bytes_per_pixel c = 0 then Inl (InvalidPoolConfig ''Bytes per pixel must be non-zero'')
      else if fpc_slot_count c > 64 then Inl (InvalidPoolConfig ''Slot count must be <= 64'')
      else case checked_mul_usize (fpc_slot_size c) (ucast (fpc_slot_count c)) of
             None \<Rightarrow> Inl (InvalidPoolConfig ''Total pool size overflow'')
           | Some bytes \<Rightarrow>
               (if \<not> layout_ok bytes 64 then Inl (InvalidPoolConfig ''invalid parameters to Layout::from_size_align'')
                else let pool = (\<lambda>base. Inr \<lparr> fp_base = base, fp_slot_size = fpc_slot_size c, fp_slot_count = fpc_slot_count c,
                            fp_width = fpc_width c, fp_height = fpc_height c, fp_free_mask = initial_mask (fpc_slot_count c),
                            fp_in_use = replicate (unat (fpc_slot_count c)) False, fp_alloc_count = 0 \<rparr>)
                     in if bytes = 0 then pool None
                        else (case allocate bytes of
                                None \<Rightarrow> Inl (AllocationFailed ''Failed to allocate memory'')
                              | Some base \<Rightarrow> pool (Some base))))"

text \<open>\<open>u64::trailing_zeros\<close> and \<open>u64::count_ones\<close>.\<close>

definition trailing_zeros :: "u64 \<Rightarrow> nat" where
  "trailing_zeros m = length (takeWhile (\<lambda>i. \<not> bit m i) [0..<64])"

definition count_ones :: "u64 \<Rightarrow> nat" where
  "count_ones m = length (filter (bit m) [0..<64])"

definition free_count :: "frame_pool \<Rightarrow> nat" where
  "free_count p = count_ones (fp_free_mask p)"

definition used_count :: "frame_pool \<Rightarrow> u32" where
  "used_count p = fp_slot_count p - of_nat (free_count p)"

section \<open>One acquisition alone\<close>

definition take_bit_of :: "nat \<Rightarrow> u64 \<Rightarrow> u64" where
  "take_bit_of i m = m AND NOT (push_bit i 1)"

definition mark_used :: "nat \<Rightarrow> frame_pool \<Rightarrow> frame_pool" where
  "mark_used i p = p\<lparr>fp_in_use := (fp_in_use p)[i := True], fp_alloc_count := fp_alloc_count p + 1\<rparr>"

text \<open>The loop with the attempts that are left; the list says which exchanges fail for no reason.\<close>

fun acquire_loop :: "nat \<Rightarrow> bool list \<Rightarrow> frame_pool \<Rightarrow> nat option \<times> frame_pool" where
  "acquire_loop 0 spurious p = (None, p)"
| "acquire_loop (Suc n) spurious p =
     (let m = fp_free_mask p; free_bit = trailing_zeros m in
      if free_bit \<ge> unat (fp_slot_count p) then (None, p)
      else case spurious of
             True # rest \<Rightarrow> acquire_loop n rest p
           | _ \<Rightarrow> (Some free_bit, mark_used free_bit (p\<lparr>fp_free_mask := take_bit_of free_bit m\<rparr>)))"

definition try_acquire_slot :: "bool list \<Rightarrow> frame_pool \<Rightarrow> nat option \<times> frame_pool" where
  "try_acquire_slot spurious p = acquire_loop (unat (fp_slot_count p)) spurious p"

text \<open>A slot: its index, the address of its first byte (the base pointer may be null) and its number of bytes.\<close>

record owned_slot =
  os_index :: nat
  os_data :: "nat option"
  os_size :: u64
  os_width :: u32
  os_height :: u32

definition pool_slot_of :: "frame_pool \<Rightarrow> nat \<Rightarrow> owned_slot" where
  "pool_slot_of p i =
     \<lparr> os_index = i, os_data = map_option (\<lambda>base. base + i * unat (fp_slot_size p)) (fp_base p), os_size = fp_slot_size p,
       os_width = fp_width p, os_height = fp_height p \<rparr>"

definition fp_acquire :: "bool list \<Rightarrow> frame_pool \<Rightarrow> owned_slot option \<times> frame_pool" where
  "fp_acquire spurious p = (case try_acquire_slot spurious p of (None, p') \<Rightarrow> (None, p') | (Some i, p') \<Rightarrow> (Some (pool_slot_of p i), p'))"

definition give_bit :: "nat \<Rightarrow> frame_pool \<Rightarrow> frame_pool" where
  "give_bit i p = p\<lparr>fp_free_mask := fp_free_mask p OR push_bit i 1\<rparr>"

definition fp_release :: "nat \<Rightarrow> frame_pool \<Rightarrow> frame_pool" where
  "fp_release i p =
     (if i \<ge> unat (fp_slot_count p) then p else give_bit i (p\<lparr>fp_in_use := (fp_in_use p)[i := False]\<rparr>))"

record pool_stats =
  po_slot_count :: u32
  po_free_count :: nat
  po_used_count :: u32
  po_alloc_count :: u64
  po_slot_size :: u64

definition fp_stats :: "frame_pool \<Rightarrow> pool_stats" where
  "fp_stats p = \<lparr> po_slot_count = fp_slot_count p, po_free_count = free_count p, po_used_count = used_count p,
     po_alloc_count = fp_alloc_count p, po_slot_size = fp_slot_size p \<rparr>"

section \<open>Many acquisitions\<close>

text \<open>
  Where an acquisition stands: it has not begun or given up; before the load of attempt \<open>k\<close>; with the mask it loaded; after
  the exchange; after the store to \<open>in_use\<close>; holding its slot; after the store of its release. A thread that holds several
  slots is several acquisitions.
\<close>

datatype acq = AtRest | Attempt nat | Loaded nat u64 | Exchanged nat | Stored nat | Holding nat | Releasing nat

datatype pool_act = Begin | Load | ExchangeOk | ExchangeFail | StoreUsed | CountUp | StoreUnused | GiveBack

fun acq_owns :: "acq \<Rightarrow> nat option" where
  "acq_owns (Exchanged i) = Some i"
| "acq_owns (Stored i) = Some i"
| "acq_owns (Holding i) = Some i"
| "acq_owns (Releasing i) = Some i"
| "acq_owns _ = None"

fun acq_step :: "pool_act \<Rightarrow> frame_pool \<Rightarrow> acq \<Rightarrow> (frame_pool \<times> acq) option" where
  "acq_step Begin p AtRest = Some (p, if fp_slot_count p = 0 then AtRest else Attempt 0)"
| "acq_step Load p (Attempt k) =
     Some (p, if trailing_zeros (fp_free_mask p) \<ge> unat (fp_slot_count p) then AtRest else Loaded k (fp_free_mask p))"
| "acq_step ExchangeOk p (Loaded k m) =
     (if fp_free_mask p = m
      then Some (p\<lparr>fp_free_mask := take_bit_of (trailing_zeros m) m\<rparr>, Exchanged (trailing_zeros m)) else None)"
| "acq_step ExchangeFail p (Loaded k m) = Some (p, if k + 1 < unat (fp_slot_count p) then Attempt (k + 1) else AtRest)"
| "acq_step StoreUsed p (Exchanged i) = Some (p\<lparr>fp_in_use := (fp_in_use p)[i := True]\<rparr>, Stored i)"
| "acq_step CountUp p (Stored i) = Some (p\<lparr>fp_alloc_count := fp_alloc_count p + 1\<rparr>, Holding i)"
| "acq_step StoreUnused p (Holding i) = Some (p\<lparr>fp_in_use := (fp_in_use p)[i := False]\<rparr>, Releasing i)"
| "acq_step GiveBack p (Releasing i) = Some (give_bit i p, AtRest)"
| "acq_step _ _ _ = None"

inductive pool_step :: "frame_pool \<times> (nat \<Rightarrow> acq) \<Rightarrow> frame_pool \<times> (nat \<Rightarrow> acq) \<Rightarrow> bool" where
  pool_stepI: "acq_step a p (ts t) = Some (p', x) \<Longrightarrow> pool_step (p, ts) (p', ts(t := x))"

inductive_cases pool_stepE: "pool_step (p, ts) s"

fun run_acts :: "(nat \<times> pool_act) list \<Rightarrow> frame_pool \<times> (nat \<Rightarrow> acq) \<Rightarrow> (frame_pool \<times> (nat \<Rightarrow> acq)) option" where
  "run_acts [] s = Some s"
| "run_acts ((t, a) # xs) (p, ts) =
     (case acq_step a p (ts t) of None \<Rightarrow> None | Some (p', x) \<Rightarrow> run_acts xs (p', ts(t := x)))"

section \<open>Bits\<close>

lemma bit_give: "i < 64 \<Longrightarrow> bit (fp_free_mask (give_bit i p)) j \<longleftrightarrow> bit (fp_free_mask p) j \<or> j = i"
  by (auto simp: give_bit_def bit_simps)

lemma bit_below: "bit (m :: u64) i \<Longrightarrow> i < 64"
  using bit_imp_le_length by fastforce

lemma bit_take_bit_of [simp]: "bit (take_bit_of i m) j \<longleftrightarrow> bit m j \<and> j \<noteq> i"
  by (auto simp: take_bit_of_def bit_simps dest: bit_below)

lemma trailing_zeros_le: "trailing_zeros m \<le> 64"
  unfolding trailing_zeros_def by (metis diff_zero length_takeWhile_le length_upt)

lemma trailing_zeros_bit:
  assumes "trailing_zeros m < 64"
  shows "bit m (trailing_zeros m)"
proof -
  let ?P = "\<lambda>i. \<not> bit m i"
  have "\<not> ?P ([0..<64] ! trailing_zeros m)"
    unfolding trailing_zeros_def by (rule nth_length_takeWhile) (use assms in \<open>simp add: trailing_zeros_def\<close>)
  then show ?thesis using assms by simp
qed

lemma trailing_zeros_below:
  assumes "j < trailing_zeros m"
  shows "\<not> bit m j"
proof -
  let ?P = "\<lambda>i. \<not> bit m i"
  have "j < length (takeWhile ?P [0..<64])" using assms by (simp add: trailing_zeros_def)
  then have "[0..<64] ! j \<in> set (takeWhile ?P [0..<64])" by (metis nth_mem takeWhile_nth)
  then have "?P ([0..<64] ! j)" using set_takeWhileD by metis
  then show ?thesis using assms trailing_zeros_le [of m] by simp
qed

lemma trailing_zeros_least: "bit m i \<Longrightarrow> trailing_zeros m = (LEAST i. bit m i)"
  using trailing_zeros_below trailing_zeros_bit bit_below
  by (intro Least_equality [symmetric]) (metis linorder_not_le order_less_le_trans)+

lemma count_ones_card: "count_ones m = card {i. bit m i}"
proof -
  have "set (filter (bit m) [0..<64]) = {i. bit m i}" using bit_below by auto
  then show ?thesis unfolding count_ones_def using distinct_card [of "filter (bit m) [0..<64]"] by simp
qed

lemma initial_mask_bits: "unat n \<le> 64 \<Longrightarrow> bit (initial_mask n) i \<longleftrightarrow> i < unat n"
proof -
  assume n: "unat n \<le> 64"
  show ?thesis
  proof (cases "n = 64")
    case True
    then show ?thesis using bit_below by (auto simp: initial_mask_def bit_simps)
  next
    case False
    then have "initial_mask n = mask (unat n)" by (simp add: initial_mask_def mask_eq_exp_minus_1 push_bit_eq_mult)
    moreover have "unat n \<noteq> 64" using False by (simp add: word_unat_eq_iff)
    ultimately show ?thesis using n by (auto simp: bit_simps)
  qed
qed

section \<open>The invariant\<close>

definition pool_ok :: "frame_pool \<Rightarrow> bool" where
  "pool_ok p \<longleftrightarrow> unat (fp_slot_count p) \<le> 64 \<and> length (fp_in_use p) = unat (fp_slot_count p) \<and>
     (\<forall>i. bit (fp_free_mask p) i \<longrightarrow> i < unat (fp_slot_count p))"

fun acq_ok :: "frame_pool \<Rightarrow> acq \<Rightarrow> bool" where
  "acq_ok p (Loaded k m) \<longleftrightarrow> trailing_zeros m < unat (fp_slot_count p)"
| "acq_ok p x \<longleftrightarrow> True"

text \<open>Every slot is free or has exactly one owner.\<close>

definition slots_ok :: "nat \<Rightarrow> nat set \<Rightarrow> (nat \<rightharpoonup> nat) \<Rightarrow> bool" where
  "slots_ok n free own \<longleftrightarrow> free \<subseteq> {..<n} \<and> ran own = {..<n} - free \<and> inj_on own (dom own)"

definition free_slots :: "frame_pool \<Rightarrow> nat set" where
  "free_slots p = {i. bit (fp_free_mask p) i}"

definition owners :: "(nat \<Rightarrow> acq) \<Rightarrow> nat \<rightharpoonup> nat" where
  "owners ts = (\<lambda>t. acq_owns (ts t))"

definition pool_inv :: "frame_pool \<times> (nat \<Rightarrow> acq) \<Rightarrow> bool" where
  "pool_inv s \<longleftrightarrow> (case s of (p, ts) \<Rightarrow>
     pool_ok p \<and> (\<forall>t. acq_ok p (ts t)) \<and> slots_ok (unat (fp_slot_count p)) (free_slots p) (owners ts))"

lemma owners_upd: "owners (ts(t := x)) = (owners ts)(t := acq_owns x)"
  by (simp add: owners_def fun_eq_iff)

lemma slots_take:
  assumes "slots_ok n free own" "own t = None" "i \<in> free"
  shows "slots_ok n (free - {i}) (own(t \<mapsto> i))"
proof -
  have "i \<notin> ran own" using assms by (auto simp: slots_ok_def)
  then have fresh: "own u \<noteq> Some i" for u by (metis ranI)
  have "inj_on (own(t \<mapsto> i)) (dom (own(t \<mapsto> i)))"
  proof (rule inj_onI)
    fix u v assume uv: "u \<in> dom (own(t \<mapsto> i))" "v \<in> dom (own(t \<mapsto> i))" "(own(t \<mapsto> i)) u = (own(t \<mapsto> i)) v"
    show "u = v"
    proof (cases "u = t \<or> v = t")
      case True
      then show ?thesis using uv(3) fresh [of u] fresh [of v] by (auto split: if_splits)
    next
      case False
      then show ?thesis using assms(1) uv unfolding slots_ok_def inj_on_def by auto
    qed
  qed
  then show ?thesis using assms by (auto simp: slots_ok_def)
qed

lemma slots_give:
  assumes "slots_ok n free own" "own t = Some i"
  shows "slots_ok n (insert i free) (own(t := None))"
proof -
  have only: "u = t" if "own u = Some i" for u
  proof -
    have "inj_on own (dom own)" using assms(1) by (simp add: slots_ok_def)
    then show ?thesis by (rule inj_onD) (use assms(2) that in auto)
  qed
  have i: "i \<in> ran own" using assms(2) by (rule ranI)
  have "ran (own(t := None)) = ran own - {i}"
  proof
    show "ran (own(t := None)) \<subseteq> ran own - {i}" using only by (auto simp: ran_def split: if_splits)
    show "ran own - {i} \<subseteq> ran (own(t := None))"
    proof
      fix x assume "x \<in> ran own - {i}"
      then obtain u where u: "own u = Some x" "x \<noteq> i" by (auto simp: ran_def)
      then have "u \<noteq> t" using assms(2) by auto
      with u(1) have "(own(t := None)) u = Some x" by simp
      then show "x \<in> ran (own(t := None))" by (rule ranI)
    qed
  qed
  moreover have "inj_on (own(t := None)) (dom (own(t := None)))" using assms(1) by (auto simp: slots_ok_def inj_on_def)
  ultimately show ?thesis using assms(1) i by (auto simp: slots_ok_def)
qed

text \<open>Steps that neither take nor give a slot keep it; the two that do are the exchange and the last step of a release.\<close>

lemma acq_ok_cong: "fp_slot_count p' = fp_slot_count p \<Longrightarrow> acq_ok p' x = acq_ok p x"
  by (cases x) simp_all

lemma acqs_ok_upd: "(\<forall>u. acq_ok p (ts u)) \<Longrightarrow> fp_slot_count p' = fp_slot_count p \<Longrightarrow> acq_ok p' x \<Longrightarrow> \<forall>u. acq_ok p' ((ts(t := x)) u)"
  using acq_ok_cong [of p' p] by simp

lemma inv_same:
  assumes "pool_inv (p, ts)" "fp_free_mask p' = fp_free_mask p" "fp_slot_count p' = fp_slot_count p"
    "length (fp_in_use p') = length (fp_in_use p)" "acq_owns x = acq_owns (ts t)" "acq_ok p' x"
  shows "pool_inv (p', ts(t := x))"
proof -
  have "owners (ts(t := x)) = owners ts" using assms(5) by (auto simp: owners_def fun_eq_iff)
  then show ?thesis
    using assms(1) acqs_ok_upd [OF _ assms(3,6), of ts t] unfolding pool_inv_def pool_ok_def free_slots_def by (simp add: assms(2-4))
qed

lemma inv_take:
  assumes "pool_inv (p, ts)" "acq_owns (ts t) = None" "bit (fp_free_mask p) i"
  shows "pool_inv (p\<lparr>fp_free_mask := take_bit_of i (fp_free_mask p)\<rparr>, ts(t := Exchanged i))"
proof -
  let ?p = "p\<lparr>fp_free_mask := take_bit_of i (fp_free_mask p)\<rparr>"
  have "free_slots ?p = free_slots p - {i}" by (auto simp: free_slots_def)
  moreover have "slots_ok (unat (fp_slot_count p)) (free_slots p - {i}) ((owners ts)(t \<mapsto> i))"
    using assms by (intro slots_take) (simp_all add: pool_inv_def owners_def free_slots_def)
  ultimately show ?thesis
    using assms(1) acqs_ok_upd [of p ts ?p "Exchanged i" t] by (auto simp: pool_inv_def pool_ok_def owners_upd)
qed

lemma inv_give:
  assumes "pool_inv (p, ts)" "ts t = Releasing i"
  shows "pool_inv (give_bit i p, ts(t := AtRest))"
proof -
  have own: "owners ts t = Some i" and ok: "slots_ok (unat (fp_slot_count p)) (free_slots p) (owners ts)" "pool_ok p"
    using assms by (simp_all add: pool_inv_def owners_def)
  then have i: "i < unat (fp_slot_count p)" by (auto simp: slots_ok_def dest: ranI)
  then have "i < 64" using ok(2) by (simp add: pool_ok_def)
  then have bits: "bit (fp_free_mask (give_bit i p)) j \<longleftrightarrow> bit (fp_free_mask p) j \<or> j = i" for j by (rule bit_give)
  then have "free_slots (give_bit i p) = insert i (free_slots p)" by (auto simp: free_slots_def)
  moreover have same: "fp_slot_count (give_bit i p) = fp_slot_count p" "fp_in_use (give_bit i p) = fp_in_use p"
    by (simp_all add: give_bit_def)
  ultimately show ?thesis
    using assms(1) slots_give [OF ok(1) own] acqs_ok_upd [of p ts "give_bit i p" AtRest t] i
    by (auto simp: pool_inv_def pool_ok_def owners_upd bits)
qed

lemma acq_step_inv:
  assumes inv: "pool_inv (p, ts)" and step: "acq_step a p (ts t) = Some (p', x)"
  shows "pool_inv (p', ts(t := x))"
proof (cases a)
  case ExchangeOk
  then obtain k where k: "ts t = Loaded k (fp_free_mask p)" "p' = p\<lparr>fp_free_mask := take_bit_of (trailing_zeros (fp_free_mask p)) (fp_free_mask p)\<rparr>"
    "x = Exchanged (trailing_zeros (fp_free_mask p))"
    using step by (cases "ts t") (auto split: if_splits)
  have "acq_ok p (ts t)" "unat (fp_slot_count p) \<le> 64" using inv by (simp_all add: pool_inv_def pool_ok_def)
  then have "bit (fp_free_mask p) (trailing_zeros (fp_free_mask p))" using k(1) by (intro trailing_zeros_bit) simp
  then show ?thesis using inv_take [OF inv, of t] k by simp
next
  case GiveBack
  then obtain i where "ts t = Releasing i" "p' = give_bit i p" "x = AtRest" using step by (cases "ts t") auto
  then show ?thesis using inv_give [OF inv] by simp
next
  case Load
  then show ?thesis using step inv by (cases "ts t") (auto intro!: inv_same simp: not_le)
qed (use step inv in \<open>cases "ts t"; auto intro!: inv_same\<close>)+

lemma pool_step_inv: "pool_step s s' \<Longrightarrow> pool_inv s \<Longrightarrow> pool_inv s'"
  by (induction rule: pool_step.induct) (rule acq_step_inv)

lemma pool_steps_inv: "pool_step\<^sup>*\<^sup>* s s' \<Longrightarrow> pool_inv s \<Longrightarrow> pool_inv s'"
  by (induction rule: rtranclp_induct) (auto intro: pool_step_inv)

text \<open>What the steps leave alone.\<close>

lemma acq_step_fixed: "acq_step a p x = Some (p', x') \<Longrightarrow>
    fp_slot_count p' = fp_slot_count p \<and> fp_slot_size p' = fp_slot_size p \<and> fp_base p' = fp_base p"
  by (cases a; cases x) (auto simp: give_bit_def split: if_splits)

lemma pool_steps_fixed: "pool_step\<^sup>*\<^sup>* s s' \<Longrightarrow>
    fp_slot_count (fst s') = fp_slot_count (fst s) \<and> fp_slot_size (fst s') = fp_slot_size (fst s) \<and> fp_base (fst s') = fp_base (fst s)"
proof (induction rule: rtranclp_induct)
  case (step s1 s2)
  from step.hyps(2) have "fp_slot_count (fst s2) = fp_slot_count (fst s1) \<and> fp_slot_size (fst s2) = fp_slot_size (fst s1) \<and>
      fp_base (fst s2) = fp_base (fst s1)"
    by (cases rule: pool_step.cases) (auto dest: acq_step_fixed)
  with step.IH show ?case by simp
qed simp

lemma pool_new:
  assumes "frame_pool_new allocate c = Inr p"
  shows "fp_slot_count p = fpc_slot_count c" "fp_slot_size p = fpc_slot_size c" "fp_free_mask p = initial_mask (fpc_slot_count c)"
    "fp_in_use p = replicate (unat (fpc_slot_count c)) False" "unat (fpc_slot_count c) \<le> 64" "fpc_slot_count c \<noteq> 0"
    "unat (fpc_slot_size c) * unat (fpc_slot_count c) < 2 ^ 63" "fp_base p = None \<longleftrightarrow> fpc_slot_size c = 0"
proof -
  let ?n = "ucast (fpc_slot_count c) :: u64"
  have g: "fpc_slot_count c \<noteq> 0" "\<not> fpc_slot_count c > 64" using assms by (auto simp: frame_pool_new_def split: if_splits)
  then show n: "fpc_slot_count c \<noteq> 0" "unat (fpc_slot_count c) \<le> 64" by (simp_all add: word_less_nat_alt)
  have "unat (fpc_slot_size c) * unat ?n < 2 ^ 64" "layout_ok (fpc_slot_size c * ?n) 64"
    using assms by (auto simp: frame_pool_new_def checked_mul_usize_def Let_def split: if_splits option.splits)
  then have total: "unat (fpc_slot_size c * ?n) = unat (fpc_slot_size c) * unat (fpc_slot_count c)"
    "unat (fpc_slot_size c * ?n) < 2 ^ 63"
    by (simp_all add: unat_mult_lem [THEN iffD1] layout_ok_def)
  then show "unat (fpc_slot_size c) * unat (fpc_slot_count c) < 2 ^ 63" by simp
  have zero: "fpc_slot_size c * ?n = 0 \<longleftrightarrow> fpc_slot_size c = 0"
    using total(1) n(1) by (metis mult_eq_0_iff unat_eq_zero)
  show "fp_slot_count p = fpc_slot_count c" "fp_slot_size p = fpc_slot_size c" "fp_free_mask p = initial_mask (fpc_slot_count c)"
    "fp_in_use p = replicate (unat (fpc_slot_count c)) False" "fp_base p = None \<longleftrightarrow> fpc_slot_size c = 0"
    using assms by (auto simp: frame_pool_new_def checked_mul_usize_def Let_def zero split: if_splits option.splits)
qed

lemma pool_new_inv: "frame_pool_new allocate c = Inr p \<Longrightarrow> pool_inv (p, \<lambda>_. AtRest)"
  using pool_new [of allocate c p] by (auto simp: pool_inv_def pool_ok_def initial_mask_bits slots_ok_def free_slots_def owners_def)

text \<open>Counting: every slot is free or owned.\<close>

lemma free_and_owned:
  assumes "pool_inv (p, ts)"
  shows "free_count p + card (dom (owners ts)) = unat (fp_slot_count p)"
proof -
  let ?n = "unat (fp_slot_count p)"
  have ok: "free_slots p \<subseteq> {..<?n}" "ran (owners ts) = {..<?n} - free_slots p" "inj_on (owners ts) (dom (owners ts))"
    using assms by (auto simp: pool_inv_def slots_ok_def)
  have "inj_on (\<lambda>t. the (owners ts t)) (dom (owners ts))"
    using ok(3) by (auto simp: inj_on_def dom_def)
  moreover have "(\<lambda>t. the (owners ts t)) ` dom (owners ts) = ran (owners ts)" by (force simp: ran_def dom_def image_iff)
  ultimately have "card (dom (owners ts)) = card ({..<?n} - free_slots p)" using ok(2) card_image by fastforce
  moreover have "card ({..<?n} - free_slots p) = ?n - card (free_slots p)" "card (free_slots p) \<le> ?n"
    using card_Diff_subset [of "free_slots p" "{..<?n}"] card_mono [OF _ ok(1)] finite_subset [OF ok(1)] ok(1) by simp_all
  ultimately show ?thesis by (simp add: free_count_def count_ones_card free_slots_def)
qed

section \<open>An acquisition alone\<close>

lemma acquire_loop_fails: "acquire_loop n (replicate n True) p = (None, p)"
  by (induction n) (simp_all add: Let_def)

lemma acquire_loop_none:
  assumes "fp_free_mask p = 0" "unat (fp_slot_count p) \<le> 64"
  shows "acquire_loop n spurious p = (None, p)"
proof -
  have "trailing_zeros 0 = 64" by (simp add: trailing_zeros_def takeWhile_eq_all_conv [THEN iffD2])
  then show ?thesis using assms by (cases n) (simp_all add: Let_def)
qed

lemma acquire_loop_succeeds:
  assumes "trailing_zeros (fp_free_mask p) < unat (fp_slot_count p)"
  shows "acquire_loop (Suc (k + n)) (replicate k True) p =
    (Some (trailing_zeros (fp_free_mask p)),
     mark_used (trailing_zeros (fp_free_mask p)) (p\<lparr>fp_free_mask := take_bit_of (trailing_zeros (fp_free_mask p)) (fp_free_mask p)\<rparr>))"
  using assms by (induction k) (simp_all add: Let_def)

lemma release_restores:
  assumes "bit (fp_free_mask p) i" "i < unat (fp_slot_count p)" "i < length (fp_in_use p)" "\<not> fp_in_use p ! i"
  shows "fp_release i (mark_used i (p\<lparr>fp_free_mask := take_bit_of i (fp_free_mask p)\<rparr>)) = p\<lparr>fp_alloc_count := fp_alloc_count p + 1\<rparr>"
proof -
  have "take_bit_of i (fp_free_mask p) OR push_bit i 1 = fp_free_mask p"
    by (rule bit_word_eqI) (use assms(1) bit_below in \<open>auto simp: bit_simps\<close>)
  moreover have "(fp_in_use p)[i := False] = fp_in_use p" using assms(3,4) by (simp add: list_update_same_conv)
  ultimately show ?thesis using assms(2) by (simp add: fp_release_def give_bit_def mark_used_def)
qed

text \<open>The bytes of a slot, counted from the base of the pool.\<close>

definition slot_bytes :: "frame_pool \<Rightarrow> nat \<Rightarrow> nat set" where
  "slot_bytes p i = {i * unat (fp_slot_size p) ..< (i + 1) * unat (fp_slot_size p)}"

lemma slot_bytes_disjoint: "i \<noteq> j \<Longrightarrow> slot_bytes p i \<inter> slot_bytes p j = {}"
proof -
  have "slot_bytes p i \<inter> slot_bytes p j = {}" if "i < j" for i j
  proof -
    have "(i + 1) * unat (fp_slot_size p) \<le> j * unat (fp_slot_size p)" using that by (intro mult_right_mono) simp_all
    then show ?thesis by (auto simp: slot_bytes_def)
  qed
  then show "i \<noteq> j \<Longrightarrow> slot_bytes p i \<inter> slot_bytes p j = {}" by (metis Int_commute linorder_neqE_nat)
qed

lemma slot_bytes_inside: "i < n \<Longrightarrow> slot_bytes p i \<subseteq> {..<n * unat (fp_slot_size p)}"
proof -
  assume "i < n"
  then have "(i + 1) * unat (fp_slot_size p) \<le> n * unat (fp_slot_size p)" by (intro mult_right_mono) simp_all
  then show ?thesis by (auto simp: slot_bytes_def)
qed

section \<open>Properties\<close>

text \<open>C38: a slot has one owner. In every interleaving of the loads, exchanges, stores and releases of any number of
  acquisitions on a new pool, with exchanges that may also fail without a reason, two acquisitions never own the same slot,
  the bytes of their slots do not overlap and lie inside of the memory of the pool, and the number of free slots that the
  mask shows and the number of owners add up to the number of slots.\<close>

theorem pool_slots_exclusive:
  assumes "frame_pool_new allocate c = Inr p0" "pool_step\<^sup>*\<^sup>* (p0, \<lambda>_. AtRest) (p, ts)"
  shows "(\<forall>t i. acq_owns (ts t) = Some i \<longrightarrow> i < unat (fpc_slot_count c) \<and>
      slot_bytes p i \<subseteq> {..<unat (fpc_slot_count c) * unat (fpc_slot_size c)} \<and>
      (\<forall>u j. u \<noteq> t \<and> acq_owns (ts u) = Some j \<longrightarrow> i \<noteq> j \<and> slot_bytes p i \<inter> slot_bytes p j = {})) \<and>
    free_count p + card {t. acq_owns (ts t) \<noteq> None} = unat (fpc_slot_count c)"
proof -
  have inv: "pool_inv (p, ts)" using pool_steps_inv [OF assms(2)] pool_new_inv [OF assms(1)] .
  have same: "fp_slot_count p = fpc_slot_count c" "fp_slot_size p = fpc_slot_size c"
    using pool_steps_fixed [OF assms(2)] pool_new(1,2) [OF assms(1)] by simp_all
  have ran: "ran (owners ts) \<subseteq> {..<unat (fpc_slot_count c)}" and inj: "inj_on (owners ts) (dom (owners ts))"
    using inv by (auto simp: pool_inv_def slots_ok_def same)
  have "i < unat (fpc_slot_count c) \<and> slot_bytes p i \<subseteq> {..<unat (fpc_slot_count c) * unat (fpc_slot_size c)} \<and>
      (\<forall>u j. u \<noteq> t \<and> acq_owns (ts u) = Some j \<longrightarrow> i \<noteq> j \<and> slot_bytes p i \<inter> slot_bytes p j = {})"
    if own: "acq_owns (ts t) = Some i" for t i
  proof -
    have "i \<in> ran (owners ts)" using own by (auto simp: owners_def ran_def)
    then have i: "i < unat (fpc_slot_count c)" using ran by auto
    have "i \<noteq> j" if "u \<noteq> t" "acq_owns (ts u) = Some j" for u j
      using inj_onD [OF inj, of t u] own that by (auto simp: owners_def dom_def)
    then show ?thesis using slot_bytes_disjoint slot_bytes_inside [OF i, of p] i by (simp add: same) blast
  qed
  moreover have "dom (owners ts) = {t. acq_owns (ts t) \<noteq> None}" by (simp add: owners_def dom_def)
  ultimately show ?thesis using free_and_owned [OF inv] by (simp add: same)
qed

text \<open>Two acquisitions of a pool with two slots; the second loses its first exchange to the first.\<close>

definition two_slots :: frame_pool_config where
  "two_slots = \<lparr> fpc_width = 2, fpc_height = 2, fpc_bytes_per_pixel = 3, fpc_slot_count = 2 \<rparr>"

definition two_slot_pool :: frame_pool where
  "two_slot_pool = \<lparr> fp_base = Some 4096, fp_slot_size = 12, fp_slot_count = 2, fp_width = 2, fp_height = 2, fp_free_mask = 3,
     fp_in_use = [False, False], fp_alloc_count = 0 \<rparr>"

lemma two_slots_new: "frame_pool_new (\<lambda>_. Some 4096) two_slots = Inr two_slot_pool"
proof -
  have "replicate 2 False = [False, False]" by (simp add: numeral_2_eq_2)
  then show ?thesis
    by (simp add: frame_pool_new_def two_slots_def two_slot_pool_def fpc_slot_size_def checked_mul_usize_def layout_ok_def initial_mask_def)
qed

lemma run_acts_steps: "run_acts xs s = Some s' \<Longrightarrow> pool_step\<^sup>*\<^sup>* s s'"
proof (induction xs s rule: run_acts.induct)
  case (2 t a xs p ts)
  then obtain p' x where x: "acq_step a p (ts t) = Some (p', x)" "run_acts xs (p', ts(t := x)) = Some s'"
    by (auto split: option.splits)
  then have "pool_step\<^sup>*\<^sup>* (p', ts(t := x)) s'" using "2.IH" by blast
  then show ?case using pool_stepI [where ts = ts and t = t, OF x(1)] by (metis converse_rtranclp_into_rtranclp)
qed simp

lemma trailing_zerosI: "bit m i \<Longrightarrow> (\<And>j. bit m j \<Longrightarrow> i \<le> j) \<Longrightarrow> trailing_zeros m = i"
  using trailing_zeros_least [of m i] by (metis Least_equality)

lemma small_masks [simp]: "trailing_zeros 1 = 0" "trailing_zeros 3 = 0" "trailing_zeros 2 = 1" "take_bit_of 0 3 = 2" "take_bit_of (Suc 0) 2 = 0"
proof -
  show "trailing_zeros 1 = 0" "trailing_zeros 3 = 0" by (rule trailing_zerosI; simp)+
  show "trailing_zeros 2 = 1" by (rule trailing_zerosI) (simp, metis One_nat_def bit_0 even_numeral not_less_eq_eq le0 Suc_leI neq0_conv)
qed (simp_all add: take_bit_of_def)

lemma two_slots_count: "unat (fp_slot_count two_slot_pool) = Suc (Suc 0)"
  by (simp add: two_slot_pool_def)

lemma two_slots_run:
  "run_acts [(0, Begin), (1, Begin), (0, Load), (1, Load), (0, ExchangeOk), (1, ExchangeFail), (1, Load), (1, ExchangeOk),
      (1, StoreUsed), (0, StoreUsed)] (two_slot_pool, \<lambda>_. AtRest) =
    Some (two_slot_pool\<lparr>fp_free_mask := 0, fp_in_use := [True, True]\<rparr>, (\<lambda>_. AtRest)(0 := Stored 0, 1 := Stored 1))"
  by (simp add: two_slot_pool_def fun_eq_iff)

theorem pool_slots_exclusive_witness:
  "acq_owns (((\<lambda>_ :: nat. AtRest)(0 := Stored 0, 1 := Stored 1)) 0) = Some 0 \<and> acq_owns (((\<lambda>_ :: nat. AtRest)(0 := Stored 0, 1 := Stored 1)) 1) = Some 1 \<and>
    slot_bytes (two_slot_pool\<lparr>fp_free_mask := 0, fp_in_use := [True, True]\<rparr>) 0 \<inter>
    slot_bytes (two_slot_pool\<lparr>fp_free_mask := 0, fp_in_use := [True, True]\<rparr>) 1 = {}"
proof -
  let ?ts = "(\<lambda>_ :: nat. AtRest)(0 := Stored 0, 1 := Stored 1)"
  have own: "acq_owns (?ts 0) = Some 0" "acq_owns (?ts 1) = Some 1" by simp_all
  from pool_slots_exclusive [OF two_slots_new run_acts_steps [OF two_slots_run], THEN conjunct1, rule_format, OF own(1)]
  have "\<And>u j. u \<noteq> 0 \<and> acq_owns (?ts u) = Some j \<Longrightarrow>
      slot_bytes (two_slot_pool\<lparr>fp_free_mask := 0, fp_in_use := [True, True]\<rparr>) 0 \<inter>
      slot_bytes (two_slot_pool\<lparr>fp_free_mask := 0, fp_in_use := [True, True]\<rparr>) j = {}" by blast
  from this [of 1 1] own show ?thesis by simp
qed

text \<open>what an acquisition that runs alone returns. On a pool in order, if fewer exchanges fail without a reason than the
  pool has slots, it returns the lowest free slot, or nothing if no slot is free, and releasing the slot leaves the pool as
  it was except for the count of allocations. But if as many exchanges fail as the pool has slots, it returns nothing, as
  if the pool were exhausted, whatever slots are free.\<close>

theorem acquire_alone:
  assumes "pool_ok p" "k < unat (fp_slot_count p)"
  shows "(case try_acquire_slot (replicate k True) p of
      (None, p') \<Rightarrow> free_count p = 0 \<and> p' = p
    | (Some i, p') \<Rightarrow> i = (LEAST i. bit (fp_free_mask p) i) \<and> bit (fp_free_mask p) i \<and> free_count p' = free_count p - 1 \<and>
        (\<not> fp_in_use p ! i \<longrightarrow> fp_release i p' = p\<lparr>fp_alloc_count := fp_alloc_count p + 1\<rparr>)) \<and>
    try_acquire_slot (replicate (unat (fp_slot_count p)) True) p = (None, p)"
proof -
  let ?m = "fp_free_mask p" let ?i = "trailing_zeros ?m"
  have last: "try_acquire_slot (replicate (unat (fp_slot_count p)) True) p = (None, p)"
    by (simp add: try_acquire_slot_def acquire_loop_fails)
  show ?thesis
  proof (cases "?m = 0")
    case True
    then show ?thesis
      using assms last by (simp add: try_acquire_slot_def acquire_loop_none pool_ok_def free_count_def count_ones_def)
  next
    case False
    then obtain j where j: "bit ?m j" by (metis bit_eqI bit_0_eq bot_apply bot_bool_def)
    then have "?i < 64" using trailing_zeros_below bit_below by (metis leD le_less_trans linorder_not_less)
    then have i: "bit ?m ?i" by (rule trailing_zeros_bit)
    then have below: "?i < unat (fp_slot_count p)" using assms(1) by (simp add: pool_ok_def)
    obtain n where n: "unat (fp_slot_count p) = Suc (k + n)" using assms(2) less_iff_Suc_add by auto
    let ?p = "mark_used ?i (p\<lparr>fp_free_mask := take_bit_of ?i ?m\<rparr>)"
    have run: "try_acquire_slot (replicate k True) p = (Some ?i, ?p)"
      unfolding try_acquire_slot_def n by (rule acquire_loop_succeeds [OF below])
    have "{j. bit (take_bit_of ?i ?m) j} = {j. bit ?m j} - {?i}" by auto
    moreover have "finite {j. bit ?m j}" by (rule finite_subset [of _ "{..<64}"]) (use bit_below in auto)
    ultimately have "free_count ?p = free_count p - 1"
      using i by (simp add: free_count_def count_ones_card mark_used_def card_Diff_singleton)
    moreover have "?i < length (fp_in_use p)" using below assms(1) by (simp add: pool_ok_def)
    ultimately show ?thesis
      using run last i trailing_zeros_least [OF j] release_restores [OF i below] by simp
  qed
qed

theorem acquire_alone_witness:
  "fst (try_acquire_slot [True] two_slot_pool) = Some 0 \<and> try_acquire_slot [True, True] two_slot_pool = (None, two_slot_pool)"
proof -
  have ok: "pool_ok two_slot_pool" "1 < unat (fp_slot_count two_slot_pool)"
    using pool_new_inv [OF two_slots_new] by (simp_all add: pool_inv_def two_slot_pool_def)
  have "try_acquire_slot [True, True] two_slot_pool = (None, two_slot_pool)"
    using acquire_alone [OF ok, unfolded two_slots_count] by simp
  moreover have "fst (try_acquire_slot [True] two_slot_pool) = Some 0"
    by (simp add: try_acquire_slot_def two_slots_count Let_def) (simp add: two_slot_pool_def)
  ultimately show ?thesis by simp
qed

text \<open>The size of a slot is computed with a product that wraps. A pool is made with slots of the right size exactly when
  the number of bytes fits 64 bits; but a configuration with a product of exactly \<open>2\<^sup>6\<^sup>4\<close> bytes passes every check, gets no
  memory, and hands out a slot whose pointer is the null pointer, which the code declares to be non-null.\<close>

theorem slot_size_wraps:
  "(\<forall>c p. frame_pool_new allocate c = Inr p \<longrightarrow>
      unat (fp_slot_size p) = unat (fpc_width c) * unat (fpc_height c) * unat (fpc_bytes_per_pixel c) mod 2 ^ 64 \<and>
      (fp_base p = None \<longleftrightarrow> fp_slot_size p = 0)) \<and>
   (\<exists>p slot. frame_pool_new allocate \<lparr> fpc_width = 2 ^ 31, fpc_height = 2 ^ 31, fpc_bytes_per_pixel = 4, fpc_slot_count = 1 \<rparr> = Inr p \<and>
      fst (fp_acquire [] p) = Some slot \<and> os_data slot = None \<and> os_width slot = 2 ^ 31)"
proof -
  have "unat (fpc_slot_size c) = unat (fpc_width c) * unat (fpc_height c) * unat (fpc_bytes_per_pixel c) mod 2 ^ 64" for c
    by (simp add: fpc_slot_size_def unat_word_ariths mod_mult_left_eq)
  then show ?thesis
    using pool_new(2,8)
    by (auto simp: frame_pool_new_def fpc_slot_size_def checked_mul_usize_def layout_ok_def fp_acquire_def try_acquire_slot_def
        initial_mask_def Let_def pool_slot_of_def)
qed

end
