(* ===== verification/Stage_Pipeline.thy ===== *)
theory Stage_Pipeline
  imports RF_Prelude "HOL-Library.Multiset" "HOL-Library.AList"
begin

text \<open>
  \<open>pipeline.rs\<close>, \<open>stage.rs\<close>, \<open>task.rs\<close> and \<open>executor.rs\<close> of the executor crate: pipelines as graphs of stages, their
  topological order by Kahn's algorithm, and the executor that runs the stages in waves. Identifiers are natural numbers.
  A hash map is an association list in the order in which it is iterated; the builder takes the orders as arguments, so
  that the theorems hold for every one. A task is the function from its context to its outcome.
\<close>

section \<open>Stages and tasks\<close>

record task_context =
  tx_task_id :: u64
  tx_stage_id :: nat
  tx_partition :: nat

datatype task_outcome = TaskOk "string list" | TaskErr string | TaskPanicked

record exec_stage =
  stg_id :: nat
  stg_partition_count :: nat
  stg_task :: "nat \<Rightarrow> task_context \<Rightarrow> task_outcome"
  stg_dependencies :: "nat list"

section \<open>Pipelines\<close>

datatype pipeline_error = DuplicateStage nat | CyclicDependency | InvalidDependency nat nat

record exec_pipeline =
  pp_stages :: "(nat \<times> exec_stage) list"
  pp_dependencies :: "(nat \<times> nat list) list"
  pp_topological_order :: "nat list"

definition pipeline_empty :: exec_pipeline where
  "pipeline_empty = \<lparr> pp_stages = [], pp_dependencies = [], pp_topological_order = [] \<rparr>"

definition get_stage :: "exec_pipeline \<Rightarrow> nat \<Rightarrow> exec_stage option" where
  "get_stage p i = map_of (pp_stages p) i"

definition is_ready :: "exec_pipeline \<Rightarrow> nat set \<Rightarrow> nat \<Rightarrow> bool" where
  "is_ready p completed i \<longleftrightarrow>
     i \<notin> completed \<and> (case map_of (pp_dependencies p) i of Some ds \<Rightarrow> list_all (\<lambda>d. d \<in> completed) ds | None \<Rightarrow> True)"

definition ready_stages :: "exec_pipeline \<Rightarrow> nat set \<Rightarrow> nat list" where
  "ready_stages p completed = filter (is_ready p completed) (map fst (pp_stages p))"

text \<open>Kahn's algorithm. The counter of a stage is a \<open>usize\<close>.\<close>

definition count_edges :: "nat set \<Rightarrow> (nat \<times> nat list) list \<Rightarrow> (nat \<Rightarrow> nat)" where
  "count_edges stages dependencies =
     fold (\<lambda>(i, ds). fold (\<lambda>d deg. if d \<in> stages then deg(i := deg i + 1) else deg) ds) dependencies (\<lambda>_. 0)"

definition decrement :: "nat \<Rightarrow> nat" where
  "decrement n = (if n = 0 then 2 ^ 64 - 1 else n - 1)"

definition visit_dependent :: "nat \<Rightarrow> nat \<times> nat list \<Rightarrow> (nat \<Rightarrow> nat) \<times> nat list \<Rightarrow> (nat \<Rightarrow> nat) \<times> nat list" where
  "visit_dependent s e x =
     (case e of (i, ds) \<Rightarrow> case x of (deg, queue) \<Rightarrow>
        if s \<in> set ds
        then (deg(i := decrement (deg i)), if decrement (deg i) = 0 then i # queue else queue)
        else (deg, queue))"

partial_function (option) kahn_loop :: "(nat \<times> nat list) list \<Rightarrow> (nat \<Rightarrow> nat) \<Rightarrow> nat list \<Rightarrow> nat list \<Rightarrow> nat list option" where
  "kahn_loop dependencies deg queue result =
     (case queue of
        [] \<Rightarrow> Some result
      | s # rest \<Rightarrow>
          (case fold (visit_dependent s) dependencies (deg, rest) of
             (deg', queue') \<Rightarrow> kahn_loop dependencies deg' queue' (result @ [s])))"

text \<open>The orders of iteration: of the stages, of the dependencies and of the counters.\<close>

record map_orders =
  mo_stages :: "(nat \<times> exec_stage) list \<Rightarrow> (nat \<times> exec_stage) list"
  mo_dependencies :: "(nat \<times> nat list) list \<Rightarrow> (nat \<times> nat list) list"
  mo_queue :: "nat list \<Rightarrow> nat list"

definition compute_topological_order ::
    "map_orders \<Rightarrow> (nat \<times> exec_stage) list \<Rightarrow> (nat \<times> nat list) list \<Rightarrow> (pipeline_error + nat list) option" where
  "compute_topological_order h stages dependencies =
     (let deg = count_edges (fst ` set stages) dependencies;
          queue = mo_queue h (filter (\<lambda>i. deg i = 0) (map fst stages))
      in case kahn_loop dependencies deg queue [] of
           None \<Rightarrow> None
         | Some result \<Rightarrow> Some (if length result \<noteq> length stages then Inl CyclicDependency else Inr result))"

record pipeline_builder =
  bd_stages :: "exec_stage list"
  bd_dependencies :: "(nat \<times> nat) list"

definition builder_new :: pipeline_builder where
  "builder_new = \<lparr> bd_stages = [], bd_dependencies = [] \<rparr>"

definition bd_stage :: "exec_stage \<Rightarrow> pipeline_builder \<Rightarrow> pipeline_builder" where
  "bd_stage s b = b\<lparr>bd_stages := bd_stages b @ [s]\<rparr>"

definition bd_dependency :: "nat \<Rightarrow> nat \<Rightarrow> pipeline_builder \<Rightarrow> pipeline_builder" where
  "bd_dependency child parent b = b\<lparr>bd_dependencies := bd_dependencies b @ [(child, parent)]\<rparr>"

fun insert_stages :: "(nat \<times> exec_stage) list \<Rightarrow> exec_stage list \<Rightarrow> pipeline_error + (nat \<times> exec_stage) list" where
  "insert_stages m [] = Inr m"
| "insert_stages m (s # ss) =
     (if map_of m (stg_id s) \<noteq> None then Inl (DuplicateStage (stg_id s)) else insert_stages (m @ [(stg_id s, s)]) ss)"

fun insert_dependencies :: "nat set \<Rightarrow> (nat \<times> nat list) list \<Rightarrow> (nat \<times> nat) list \<Rightarrow> pipeline_error + (nat \<times> nat list) list" where
  "insert_dependencies stages m [] = Inr m"
| "insert_dependencies stages m ((child, parent) # es) =
     (if child \<notin> stages then Inl (InvalidDependency child parent)
      else if parent \<notin> stages then Inl (InvalidDependency child parent)
      else insert_dependencies stages (AList.map_default child [parent] (\<lambda>ds. ds @ [parent]) m) es)"

definition pipeline_build :: "map_orders \<Rightarrow> pipeline_builder \<Rightarrow> (pipeline_error + exec_pipeline) option" where
  "pipeline_build h b =
     (case insert_stages [] (bd_stages b) of
        Inl e \<Rightarrow> Some (Inl e)
      | Inr stage_map \<Rightarrow>
          (case insert_dependencies (fst ` set stage_map) [] (bd_dependencies b) of
             Inl e \<Rightarrow> Some (Inl e)
           | Inr dep_map \<Rightarrow>
               (let stages = mo_stages h stage_map; deps = mo_dependencies h dep_map in
                case compute_topological_order h stages deps of
                  None \<Rightarrow> None
                | Some (Inl e) \<Rightarrow> Some (Inl e)
                | Some (Inr order) \<Rightarrow>
                    Some (Inr \<lparr> pp_stages = stages, pp_dependencies = deps, pp_topological_order = order \<rparr>))))"

section \<open>The executor\<close>

record stage_executor =
  se_max_concurrent :: nat
  se_task_counter :: u64
  se_execute_counter :: u64

definition stage_executor_new :: "nat \<Rightarrow> stage_executor" where
  "stage_executor_new n = \<lparr> se_max_concurrent = n, se_task_counter = 0, se_execute_counter = 0 \<rparr>"

record execute_result =
  er_execute_id :: u64
  er_stages_completed :: nat
  er_tasks_completed :: u64

definition stage_contexts :: "u64 \<Rightarrow> exec_stage \<Rightarrow> task_context list" where
  "stage_contexts counter s =
     map (\<lambda>i. \<lparr> tx_task_id = counter + of_nat i, tx_stage_id = stg_id s, tx_partition = i \<rparr>) [0..<stg_partition_count s]"

text \<open>The handles are awaited in the order of the partitions; the first that failed decides.\<close>

fun await_handles :: "task_outcome list \<Rightarrow> u64 \<Rightarrow> string + u64" where
  "await_handles [] n = Inr n"
| "await_handles (TaskOk outputs # rest) n = await_handles rest (n + 1)"
| "await_handles (TaskErr e # rest) n = Inl e"
| "await_handles (TaskPanicked # rest) n = Inl ''Task panicked''"

text \<open>A stage: all its tasks are started, with numbers from the counter. Without permits the tasks never run.\<close>

definition execute_stage :: "nat \<Rightarrow> u64 \<Rightarrow> exec_stage \<Rightarrow> (string + u64) option" where
  "execute_stage max_concurrent counter s =
     (if max_concurrent = 0 \<and> stg_partition_count s > 0 then None
      else Some (await_handles (map (\<lambda>c. stg_task s (tx_partition c) c) (stage_contexts counter s)) 0))"

text \<open>The stages of a wave: the contexts of their tasks in the order they are numbered, and their results.\<close>

fun execute_wave :: "nat \<Rightarrow> u64 \<Rightarrow> exec_stage list \<Rightarrow> (u64 \<times> task_context list \<times> (string + u64) list) option" where
  "execute_wave n counter [] = Some (counter, [], [])"
| "execute_wave n counter (s # ss) =
     (case execute_stage n counter s of
        None \<Rightarrow> None
      | Some r \<Rightarrow>
          (case execute_wave n (counter + of_nat (stg_partition_count s)) ss of
             None \<Rightarrow> None
           | Some (counter', trace, rs) \<Rightarrow> Some (counter', stage_contexts counter s @ trace, r # rs)))"

text \<open>The results in the order of the wave, up to the first error.\<close>

fun collect_wave :: "(nat \<times> (string + u64)) list \<Rightarrow> nat set \<Rightarrow> u64 \<Rightarrow> string + nat set \<times> u64" where
  "collect_wave [] completed n = Inr (completed, n)"
| "collect_wave ((i, Inr k) # rest) completed n = collect_wave rest (insert i completed) (n + k)"
| "collect_wave ((i, Inl e) # rest) completed n = Inl e"

lemma collect_wave_completed: "collect_wave (zip is rs) completed n = Inr (completed', n') \<Longrightarrow> length is = length rs \<Longrightarrow>
    completed' = completed \<union> set is"
proof (induction "is" arbitrary: rs completed n)
  case (Cons i "is")
  then obtain r rs' where rs: "rs = r # rs'" by (cases rs) auto
  show ?case using Cons rs by (cases r) auto
qed simp

lemma execute_wave_length: "execute_wave n c ss = Some (c', trace, rs) \<Longrightarrow> length rs = length ss"
  by (induction n c ss arbitrary: c' trace rs rule: execute_wave.induct) (auto split: option.splits)

lemma filter_shorter:
  assumes "\<And>x. Q x \<Longrightarrow> P x" "i \<in> set xs" "P i" "\<not> Q i"
  shows "length (filter Q xs) < length (filter P xs)"
proof -
  have "filter Q xs = filter Q (filter P xs)" using assms(1) by (simp add: filter_filter) (metis filter_cong)
  then show ?thesis using length_filter_less [of i "filter P xs" Q] assms(2-4) by simp
qed

function run_waves :: "exec_pipeline \<Rightarrow> nat \<Rightarrow> nat set \<Rightarrow> u64 \<Rightarrow> u64 \<Rightarrow> task_context list \<Rightarrow>
    ((string + nat set \<times> u64) \<times> u64 \<times> task_context list) option" where
  "run_waves p n completed tasks counter trace =
     (let ready = ready_stages p completed in
      if ready = [] then Some (Inr (completed, tasks), counter, trace)
      else case execute_wave n counter (List.map_filter (get_stage p) ready) of
             None \<Rightarrow> None
           | Some (counter', started, results) \<Rightarrow>
               (case collect_wave (zip ready results) completed tasks of
                  Inl e \<Rightarrow> Some (Inl e, counter', trace @ started)
                | Inr (completed', tasks') \<Rightarrow> run_waves p n completed' tasks' counter' (trace @ started)))"
  by pat_completeness auto

termination
proof (relation "measure (\<lambda>(p, n, completed, tasks, counter, trace). length (filter (\<lambda>i. i \<notin> completed) (map fst (pp_stages p))))", goal_cases)
  case (2 p n completed tasks counter trace ready w counter' y started results z completed' tasks')
  let ?ids = "map fst (pp_stages p)"
  have ready: "ready = filter (is_ready p completed) ?ids" "ready \<noteq> []" using 2 by (simp_all add: ready_stages_def)
  have "set ready \<subseteq> dom (map_of (pp_stages p))" by (auto simp: ready dom_map_of_conv_image_fst)
  then have "length (List.map_filter (get_stage p) ready) = length ready"
    by (induction ready) (auto simp: get_stage_def map_filter_simps)
  then have "length results = length ready" using 2 execute_wave_length by fastforce
  then have completed': "completed' = completed \<union> set ready" using 2 collect_wave_completed by fastforce
  obtain i where "i \<in> set ready" using ready(2) by (cases ready) auto
  then have "i \<in> set ?ids" "i \<notin> completed" by (auto simp: ready is_ready_def)
  then have "length (filter (\<lambda>i. i \<notin> completed') ?ids) < length (filter (\<lambda>i. i \<notin> completed) ?ids)"
    using filter_shorter [of "\<lambda>i. i \<notin> completed'" "\<lambda>i. i \<notin> completed" i ?ids] completed' \<open>i \<in> set ready\<close> by simp
  then show ?case by simp
qed simp

declare run_waves.simps [simp del]

definition stage_execute :: "exec_pipeline \<Rightarrow> stage_executor \<Rightarrow>
    ((string + execute_result) \<times> stage_executor \<times> task_context list) option" where
  "stage_execute p e =
     (case run_waves p (se_max_concurrent e) {} 0 (se_task_counter e) [] of
        None \<Rightarrow> None
      | Some (r, counter, trace) \<Rightarrow>
          Some (case r of
                  Inl err \<Rightarrow> Inl err
                | Inr (completed, tasks) \<Rightarrow>
                    Inr \<lparr> er_execute_id = se_execute_counter e, er_stages_completed = card completed, er_tasks_completed = tasks \<rparr>,
                e\<lparr>se_task_counter := counter, se_execute_counter := se_execute_counter e + 1\<rparr>, trace))"

end
