(* ===== verification/Stage_Order.thy ===== *)
theory Stage_Order
  imports Stage_Pipeline
begin

text \<open>
  The order of stages. Kahn's loop keeps an invariant that relates its counters to the stages already in the result; with
  it, \<open>build\<close> is characterised exactly: which builders it accepts, what the order looks like, and which error it returns
  otherwise.
\<close>

section \<open>Dependencies as lists\<close>

definition parents :: "(nat \<times> nat list) list \<Rightarrow> nat \<Rightarrow> nat list" where
  "parents m i = (case map_of m i of Some ds \<Rightarrow> ds | None \<Rightarrow> [])"

lemma parents_simps [simp]:
  "parents [] i = []" "parents ((j, ds) # m) i = (if i = j then ds else parents m i)"
  by (simp_all add: parents_def)

lemma parents_none: "i \<notin> fst ` set m \<Longrightarrow> parents m i = []"
  by (simp add: parents_def map_of_eq_None_iff [THEN iffD2])

lemma inner_count:
  "fold (\<lambda>d deg. if d \<in> V then deg(i := deg i + 1) else deg) ds deg = deg(i := deg i + length (filter (\<lambda>d. d \<in> V) ds))"
  for deg :: "nat \<Rightarrow> nat"
  by (induction ds arbitrary: deg) (auto simp: fun_eq_iff)

lemma outer_count:
  assumes "distinct (map fst m)"
  shows "fold (\<lambda>(i, ds). fold (\<lambda>d deg. if d \<in> V then deg(i := deg i + 1) else deg) ds) m deg i =
    deg i + length (filter (\<lambda>d. d \<in> V) (parents m i))"
  using assms
proof (induction m arbitrary: deg)
  case (Cons e m)
  obtain j ds where e: "e = (j, ds)" by force
  have "parents m j = []" using Cons.prems e by (intro parents_none) auto
  then show ?case using Cons e by (simp add: inner_count)
qed simp

lemma count_edges_parents:
  assumes "distinct (map fst m)" "\<And>i. set (parents m i) \<subseteq> V"
  shows "count_edges V m i = length (parents m i)"
proof -
  have "filter (\<lambda>d. d \<in> V) (parents m i) = parents m i" using assms(2) [of i] by (auto simp: filter_id_conv)
  then show ?thesis by (simp add: count_edges_def outer_count [OF assms(1)])
qed

lemma visit_all:
  assumes "distinct (map fst m)"
  shows "fold (visit_dependent s) m (deg, q) =
    ((\<lambda>i. if s \<in> set (parents m i) then decrement (deg i) else deg i),
     rev (map fst (filter (\<lambda>(i, ds). s \<in> set ds \<and> decrement (deg i) = 0) m)) @ q)"
  using assms
proof (induction m arbitrary: deg q)
  case (Cons e m)
  obtain j ds where e: "e = (j, ds)" by force
  have "j \<notin> fst ` set m" using Cons.prems e by auto
  then have j: "parents m j = []" "\<And>i ds. (i, ds) \<in> set m \<Longrightarrow> i \<noteq> j" by (auto intro!: parents_none simp: image_iff)
  have same: "filter (\<lambda>(i, ds'). s \<in> set ds' \<and> decrement (if i = j then x else deg i) = 0) m =
      filter (\<lambda>(i, ds'). s \<in> set ds' \<and> decrement (deg i) = 0) m" for x
    using j(2) by (intro filter_cong) (auto split: if_splits)
  show ?case
    using Cons e j(1) by (auto simp: visit_dependent_def same fun_eq_iff)
qed (simp add: fun_eq_iff)

section \<open>Kahn's loop\<close>

definition kahn_inv :: "nat set \<Rightarrow> (nat \<times> nat list) list \<Rightarrow> (nat \<Rightarrow> nat) \<Rightarrow> nat list \<Rightarrow> nat list \<Rightarrow> bool" where
  "kahn_inv V m deg queue result \<longleftrightarrow>
     distinct (queue @ result) \<and> set (queue @ result) \<subseteq> V \<and>
     (\<forall>i. deg i = length (parents m i) - card (set (parents m i) \<inter> set result)) \<and>
     (\<forall>i \<in> V. i \<in> set (queue @ result) \<longleftrightarrow> deg i = 0) \<and>
     (\<forall>k < length result. set (parents m (result ! k)) \<subseteq> set (take k result))"

lemma card_inter_le: "card (set ds \<inter> X) \<le> length ds"
  by (metis List.finite_set card_length card_mono inf_le1 order_trans)

lemma all_counted: "length ds - card (set ds \<inter> X) = 0 \<longleftrightarrow> distinct ds \<and> set ds \<subseteq> X"
proof
  assume "length ds - card (set ds \<inter> X) = 0"
  then have "length ds \<le> card (set ds \<inter> X)" by simp
  moreover have "card (set ds \<inter> X) \<le> card (set ds)" "card (set ds) \<le> length ds"
    by (auto intro: card_mono card_length)
  ultimately have "card (set ds) = length ds" "card (set ds \<inter> X) = card (set ds)" by auto
  then show "distinct ds \<and> set ds \<subseteq> X"
    using card_subset_eq [of "set ds" "set ds \<inter> X"] by (auto simp: card_distinct)
qed (simp add: distinct_card Int_absorb2)

text \<open>A stage that is popped brings the counter of each of its dependents down by one.\<close>

lemma kahn_step:
  assumes inv: "kahn_inv V m deg (s # rest) result" and m: "distinct (map fst m)" "fst ` set m \<subseteq> V"
    and visit: "fold (visit_dependent s) m (deg, rest) = (deg', queue')"
  shows "kahn_inv V m deg' queue' (result @ [s])"
proof -
  note I = inv [unfolded kahn_inv_def]
  let ?r = "result @ [s]"
  have s: "s \<notin> set result" "s \<in> V" "deg s = 0" using I by auto
  have deg: "deg i = length (parents m i) - card (set (parents m i) \<inter> set result)" for i using I by blast
  have more: "card (set (parents m i) \<inter> set ?r) = card (set (parents m i) \<inter> set result) + (if s \<in> set (parents m i) then 1 else 0)" for i
    using s(1) by (auto simp: Int_insert_right)
  have pos: "0 < deg i" if "s \<in> set (parents m i)" for i
    using card_inter_le [of "parents m i" "set ?r"] more [of i] that by (simp add: deg)
  have deg': "deg' i = (if s \<in> set (parents m i) then deg i - 1 else deg i)" for i
    using visit pos by (auto simp: visit_all [OF m(1)] decrement_def)
  let ?new = "map fst (filter (\<lambda>(i, ds). s \<in> set ds \<and> decrement (deg i) = 0) m)"
  have queue': "queue' = rev ?new @ rest" using visit by (simp add: visit_all [OF m(1)])
  have new: "i \<in> set ?new \<longleftrightarrow> s \<in> set (parents m i) \<and> deg' i = 0" for i
  proof
    assume "i \<in> set ?new"
    then obtain ds where ds: "(i, ds) \<in> set m" "s \<in> set ds" "decrement (deg i) = 0" by auto
    then have "parents m i = ds" using m(1) by (simp add: parents_def)
    then show "s \<in> set (parents m i) \<and> deg' i = 0" using ds pos [of i] by (simp add: deg' decrement_def)
  next
    assume a: "s \<in> set (parents m i) \<and> deg' i = 0"
    then obtain ds where "map_of m i = Some ds" "s \<in> set ds" by (cases "map_of m i") (auto simp: parents_def)
    then have "(i, ds) \<in> set m" by (simp add: map_of_SomeD)
    moreover have "decrement (deg i) = 0" using a pos [of i] deg' [of i] by (auto simp: decrement_def)
    ultimately show "i \<in> set ?new" using \<open>s \<in> set ds\<close> by force
  qed
  have new_V: "set ?new \<subseteq> V" using m(2) by auto
  have fresh: "set ?new \<inter> set (s # rest @ result) = {}"
  proof -
    have "deg i = 0" if "i \<in> V" "i \<in> set (s # rest @ result)" for i using I that by auto
    moreover have "0 < deg i" "i \<in> V" if "i \<in> set ?new" for i using that new [of i] pos [of i] new_V by blast+
    ultimately show ?thesis by (metis disjoint_iff less_numeral_extra(3))
  qed
  have "distinct ?new" using m(1) by (simp add: distinct_map_filter)
  then have 1: "distinct (queue' @ ?r)" using I fresh by (auto simp: queue')
  have 2: "set (queue' @ ?r) \<subseteq> V" using I new_V by (auto simp: queue')
  have 3: "deg' i = length (parents m i) - card (set (parents m i) \<inter> set ?r)" for i
    using more [of i] deg [of i] by (simp add: deg')
  have 4: "i \<in> set (queue' @ ?r) \<longleftrightarrow> deg' i = 0" if "i \<in> V" for i
  proof -
    have "i \<in> set (s # rest @ result) \<longleftrightarrow> deg i = 0" using I that by auto
    moreover have "deg i = 0 \<longrightarrow> deg' i = 0" by (simp add: deg')
    moreover have "deg' i = 0 \<and> deg i \<noteq> 0 \<longrightarrow> i \<in> set ?new" using new [of i] by (auto simp: deg' split: if_splits)
    ultimately show ?thesis using new [of i] by (auto simp: queue')
  qed
  have "set (parents m s) \<subseteq> set result" using s(3) all_counted [of "parents m s" "set result"] deg [of s] by simp
  then have 5: "set (parents m (?r ! k)) \<subseteq> set (take k ?r)" if "k < length ?r" for k
    using I that by (cases "k = length result") (auto simp: nth_append)
  show ?thesis unfolding kahn_inv_def using 1 2 3 4 5 by blast
qed

lemma kahn_returns:
  assumes "kahn_inv V m deg queue result" "distinct (map fst m)" "fst ` set m \<subseteq> V" "finite V"
  shows "\<exists>deg' r. kahn_loop m deg queue result = Some r \<and> kahn_inv V m deg' [] r"
  using assms(1)
proof (induction "card V - length result" arbitrary: deg queue result rule: less_induct)
  case less
  show ?case
  proof (cases queue)
    case Nil
    then show ?thesis using less.prems by (subst kahn_loop.simps) auto
  next
    case (Cons s rest)
    obtain deg' queue' where v: "fold (visit_dependent s) m (deg, rest) = (deg', queue')" by force
    have inv: "kahn_inv V m deg' queue' (result @ [s])"
      using kahn_step less.prems assms(2,3) v unfolding Cons by blast
    have "set (s # result) \<subseteq> V" "distinct (s # result)" using less.prems Cons by (auto simp: kahn_inv_def)
    then have "length (s # result) \<le> card V" by (metis assms(4) card_mono distinct_card)
    then obtain deg'' r where "kahn_loop m deg' queue' (result @ [s]) = Some r" "kahn_inv V m deg'' [] r"
      using less.hyps [OF _ inv] by fastforce
    then show ?thesis using v Cons by (subst kahn_loop.simps) auto
  qed
qed

section \<open>Dependencies and cycles\<close>

definition depends_on :: "(nat \<times> nat list) list \<Rightarrow> (nat \<times> nat) set" where
  "depends_on m = {(d, i). d \<in> set (parents m i)}"

definition position :: "'a list \<Rightarrow> 'a \<Rightarrow> nat" where
  "position xs x = length (takeWhile (\<lambda>y. y \<noteq> x) xs)"

lemma position_take: "x \<in> set (take k xs) \<Longrightarrow> position xs x < k"
  by (induction xs arbitrary: k) (auto simp: position_def take_Cons split: nat.splits)

lemma position_nth: "x \<in> set xs \<Longrightarrow> position xs x < length xs \<and> xs ! position xs x = x"
  by (induction xs) (auto simp: position_def)

definition in_order :: "(nat \<times> nat list) list \<Rightarrow> nat list \<Rightarrow> bool" where
  "in_order m order \<longleftrightarrow> (\<forall>k < length order. set (parents m (order ! k)) \<subseteq> set (take k order))"

lemma in_order_acyclic:
  assumes "in_order m order" "\<And>i. parents m i \<noteq> [] \<Longrightarrow> i \<in> set order"
  shows "acyclic (depends_on m)"
proof -
  have "depends_on m \<subseteq> measure (position order)"
  proof
    fix e assume "e \<in> depends_on m"
    then obtain d i where e: "e = (d, i)" "d \<in> set (parents m i)" by (auto simp: depends_on_def)
    then have "i \<in> set order" using assms(2) [of i] by (cases "parents m i") auto
    then have "position order i < length order" "order ! position order i = i" by (simp_all add: position_nth)
    then have "d \<in> set (take (position order i) order)" using assms(1) e(2) unfolding in_order_def by (metis subsetD)
    then show "e \<in> measure (position order)" by (simp add: e position_take)
  qed
  then show ?thesis using wf_subset wf_measure wf_acyclic by metis
qed

text \<open>The result of the loop: all stages, exactly when no list of parents has a repetition and there is no cycle.\<close>

lemma kahn_complete:
  assumes inv: "kahn_inv V m deg [] r" and V: "finite V" "\<And>i. parents m i \<noteq> [] \<Longrightarrow> i \<in> V" "\<And>i. set (parents m i) \<subseteq> V"
  shows "set r = V \<longleftrightarrow> (\<forall>i. distinct (parents m i)) \<and> acyclic (depends_on m)"
proof -
  have r: "set r \<subseteq> V" "\<And>i. i \<in> V \<Longrightarrow> i \<in> set r \<longleftrightarrow> distinct (parents m i) \<and> set (parents m i) \<subseteq> set r" "in_order m r"
    using inv all_counted by (auto simp: kahn_inv_def in_order_def)
  show ?thesis
  proof
    assume "set r = V"
    then show "(\<forall>i. distinct (parents m i)) \<and> acyclic (depends_on m)"
      using r(2) V(2) in_order_acyclic [OF r(3)] by (metis distinct.simps(1))
  next
    assume *: "(\<forall>i. distinct (parents m i)) \<and> acyclic (depends_on m)"
    have "i \<in> V \<and> d \<in> V" if "d \<in> set (parents m i)" for d i using V(2) [of i] V(3) [of i] that by (cases "parents m i") auto
    then have "depends_on m \<subseteq> V \<times> V" by (auto simp: depends_on_def)
    then have "finite (depends_on m)" using V(1) by (metis finite_SigmaI finite_subset)
    then have wf: "wf (depends_on m)" using * by (simp add: finite_acyclic_wf)
    have "i \<in> V \<longrightarrow> i \<in> set r" for i
    proof (induction i rule: wf_induct_rule [OF wf])
      case (1 i)
      then show ?case using r(2) [of i] * V(3) [of i] by (auto simp: depends_on_def)
    qed
    then show "set r = V" using r(1) by auto
  qed
qed

section \<open>The builder\<close>

lemma insert_stages_eq:
  assumes "distinct (map fst m)"
  shows "case insert_stages m ss of
      Inr m' \<Rightarrow> distinct (map fst m @ map stg_id ss) \<and> m' = m @ map (\<lambda>s. (stg_id s, s)) ss
    | Inl e \<Rightarrow> \<not> distinct (map fst m @ map stg_id ss) \<and> (\<exists>s \<in> set ss. e = DuplicateStage (stg_id s))"
  using assms
proof (induction m ss rule: insert_stages.induct)
  case (2 m s ss)
  show ?case
  proof (cases "map_of m (stg_id s)")
    case None
    then have "stg_id s \<notin> set (map fst m)" by (simp add: map_of_eq_None_iff)
    then show ?thesis using "2.IH" "2.prems" None by (simp split: sum.splits)
  next
    case (Some x)
    then have "stg_id s \<in> set (map fst m)" by (metis domI dom_map_of_conv_image_fst list.set_map)
    then show ?thesis using Some by auto
  qed
qed simp

lemma map_default_parents:
  "parents (AList.map_default c [d] (\<lambda>ds. ds @ [d]) m) i = parents m i @ (if i = c then [d] else [])"
  by (induction m) auto

lemma map_default_keys: "fst ` set (AList.map_default c v f m) = insert c (fst ` set m)"
  by (induction m) auto

lemma map_default_distinct: "distinct (map fst m) \<Longrightarrow> distinct (map fst (AList.map_default c v f m))"
proof (induction m)
  case (Cons e m)
  then show ?case using map_default_keys [of c v f m] by (cases e) auto
qed simp

lemma insert_dependencies_eq:
  assumes "distinct (map fst m)" "fst ` set m \<subseteq> V"
  shows "case insert_dependencies V m es of
      Inr m' \<Rightarrow> set es \<subseteq> V \<times> V \<and> distinct (map fst m') \<and> fst ` set m' \<subseteq> V \<and>
        (\<forall>i. parents m' i = parents m i @ map snd (filter (\<lambda>e. fst e = i) es))
    | Inl e \<Rightarrow> \<exists>c d. (c, d) \<in> set es \<and> (c \<notin> V \<or> d \<notin> V) \<and> e = InvalidDependency c d"
  using assms
proof (induction V m es rule: insert_dependencies.induct)
  case (2 V m c d es)
  show ?case
  proof (cases "c \<in> V \<and> d \<in> V")
    case True
    have "distinct (map fst (AList.map_default c [d] (\<lambda>ds. ds @ [d]) m))"
      "fst ` set (AList.map_default c [d] (\<lambda>ds. ds @ [d]) m) \<subseteq> V"
      using "2.prems" True by (simp_all add: map_default_distinct map_default_keys)
    then show ?thesis using "2.IH" True by (auto simp: map_default_parents split: sum.splits)
  next
    case False
    then show ?thesis by auto
  qed
qed simp

definition builder_edges :: "pipeline_builder \<Rightarrow> (nat \<times> nat) set" where
  "builder_edges b = {(d, c). (c, d) \<in> set (bd_dependencies b)}"

lemma distinct_by_child: "distinct es \<longleftrightarrow> (\<forall>i. distinct (map snd (filter (\<lambda>e. fst e = i) es)))" for es :: "('a \<times> 'b) list"
proof (induction es)
  case (Cons e es)
  have "e \<in> set es \<longleftrightarrow> snd e \<in> set (map snd (filter (\<lambda>x. fst x = fst e) es))" by (cases e) force
  then show ?case using Cons by (auto split: if_splits)
qed simp

definition fair_orders :: "map_orders \<Rightarrow> bool" where
  "fair_orders h \<longleftrightarrow> (\<forall>xs. mset (mo_stages h xs) = mset xs) \<and> (\<forall>xs. mset (mo_dependencies h xs) = mset xs) \<and> (\<forall>xs. mset (mo_queue h xs) = mset xs)"

lemma perm_keys:
  assumes "mset ys = mset xs"
  shows "set ys = set xs \<and> length ys = length xs \<and> (distinct (map f ys) \<longleftrightarrow> distinct (map f xs))"
proof -
  have "mset (map f ys) = mset (map f xs)" using assms by simp
  then have 1: "distinct (map f ys) \<longleftrightarrow> distinct (map f xs)" by (rule mset_eq_imp_distinct_iff)
  have 2: "length ys = length xs" using assms by (rule mset_eq_length)
  show ?thesis using mset_eq_setD [OF assms] 1 2 by blast
qed

lemma perm_parents: "mset ys = mset xs \<Longrightarrow> distinct (map fst xs) \<Longrightarrow> parents ys = parents xs"
  using perm_keys [of ys xs fst] map_of_inject_set [of ys xs] by (auto simp: parents_def fun_eq_iff)

section \<open>Accepted pipelines\<close>

text \<open>What the builder hands to the algorithm, in any order of iteration.\<close>

definition order_input :: "pipeline_builder \<Rightarrow> (nat \<times> exec_stage) list \<Rightarrow> (nat \<times> nat list) list \<Rightarrow> bool" where
  "order_input b stages deps \<longleftrightarrow>
     mset stages = mset (map (\<lambda>s. (stg_id s, s)) (bd_stages b)) \<and> distinct (map stg_id (bd_stages b)) \<and>
     set (bd_dependencies b) \<subseteq> (stg_id ` set (bd_stages b)) \<times> (stg_id ` set (bd_stages b)) \<and>
     distinct (map fst deps) \<and> fst ` set deps \<subseteq> stg_id ` set (bd_stages b) \<and>
     (\<forall>i. parents deps i = map snd (filter (\<lambda>e. fst e = i) (bd_dependencies b)))"

lemma order_input_edges: "order_input b stages deps \<Longrightarrow> depends_on deps = builder_edges b"
  by (force simp: order_input_def depends_on_def builder_edges_def image_iff)

lemma order_computed:
  assumes in_ok: "order_input b stages deps" and h: "fair_orders h"
  shows "\<exists>r. compute_topological_order h stages deps = Some r \<and>
    (case r of
       Inr order \<Rightarrow> distinct order \<and> set order = stg_id ` set (bd_stages b) \<and> in_order deps order \<and>
         distinct (bd_dependencies b) \<and> acyclic (builder_edges b)
     | Inl e \<Rightarrow> e = CyclicDependency \<and> \<not> (distinct (bd_dependencies b) \<and> acyclic (builder_edges b)))"
proof -
  let ?V = "stg_id ` set (bd_stages b)"
  have stages: "fst ` set stages = ?V" "length stages = card ?V" "distinct (map fst stages)"
  proof -
    have "set stages = set (map (\<lambda>s. (stg_id s, s)) (bd_stages b))" "length stages = length (bd_stages b)"
      using in_ok perm_keys [of stages "map (\<lambda>s. (stg_id s, s)) (bd_stages b)" fst] by (simp_all add: order_input_def)
    then show "fst ` set stages = ?V" "length stages = card ?V"
      using in_ok distinct_card [of "map stg_id (bd_stages b)"] by (force simp: order_input_def image_iff)+
    show "distinct (map fst stages)"
      using in_ok perm_keys [of stages "map (\<lambda>s. (stg_id s, s)) (bd_stages b)" fst] by (simp add: order_input_def o_def)
  qed
  have deps: "distinct (map fst deps)" "fst ` set deps \<subseteq> ?V" "\<And>i. set (parents deps i) \<subseteq> ?V" "\<And>i. parents deps i \<noteq> [] \<Longrightarrow> i \<in> ?V"
    using in_ok by (fastforce simp: order_input_def filter_empty_conv)+
  define deg where "deg = count_edges (fst ` set stages) deps"
  define queue where "queue = mo_queue h (filter (\<lambda>i. deg i = 0) (map fst stages))"
  have deg: "deg i = length (parents deps i)" for i
    unfolding deg_def stages(1) by (rule count_edges_parents [OF deps(1,3)])
  have "mset queue = mset (filter (\<lambda>i. deg i = 0) (map fst stages))" using h by (simp add: queue_def fair_orders_def)
  then have queue: "set queue = {i \<in> ?V. deg i = 0}" "distinct queue"
    using perm_keys [of queue "filter (\<lambda>i. deg i = 0) (map fst stages)" id] stages(1,3) by (auto simp: distinct_filter)
  have "kahn_inv ?V deps deg queue []" using queue by (auto simp: kahn_inv_def deg)
  then obtain deg' r where r: "kahn_loop deps deg queue [] = Some r" "kahn_inv ?V deps deg' [] r"
    using kahn_returns deps(1,2) by blast
  have rV: "distinct r" "set r \<subseteq> ?V" "in_order deps r" using r(2) by (auto simp: kahn_inv_def in_order_def)
  have len: "length r = length stages \<longleftrightarrow> set r = ?V"
    using rV(2) stages(2) card_subset_eq [of ?V "set r"] distinct_card [OF rV(1)] by auto
  have full: "set r = ?V \<longleftrightarrow> distinct (bd_dependencies b) \<and> acyclic (builder_edges b)"
    using kahn_complete [OF r(2) _ deps(4,3)] in_ok distinct_by_child [of "bd_dependencies b"] order_input_edges [OF in_ok]
    by (simp add: order_input_def)
  have "compute_topological_order h stages deps = Some (if set r \<noteq> ?V then Inl CyclicDependency else Inr r)"
    using r(1) len by (simp add: compute_topological_order_def Let_def deg_def queue_def)
  then show ?thesis using full rV by auto
qed

definition accepted :: "pipeline_builder \<Rightarrow> bool" where
  "accepted b \<longleftrightarrow> distinct (map stg_id (bd_stages b)) \<and>
     set (bd_dependencies b) \<subseteq> (stg_id ` set (bd_stages b)) \<times> (stg_id ` set (bd_stages b)) \<and>
     distinct (bd_dependencies b) \<and> acyclic (builder_edges b)"

lemma build_cases:
  assumes h: "fair_orders h"
  shows "\<exists>r. pipeline_build h b = Some r \<and>
    (case r of
       Inr p \<Rightarrow> accepted b \<and> order_input b (pp_stages p) (pp_dependencies p) \<and> distinct (pp_topological_order p) \<and>
         set (pp_topological_order p) = stg_id ` set (bd_stages b) \<and> in_order (pp_dependencies p) (pp_topological_order p)
     | Inl (DuplicateStage i) \<Rightarrow> \<not> distinct (map stg_id (bd_stages b))
     | Inl (InvalidDependency c d) \<Rightarrow> (c, d) \<in> set (bd_dependencies b) \<and> \<not> {c, d} \<subseteq> stg_id ` set (bd_stages b)
     | Inl CyclicDependency \<Rightarrow> \<not> (distinct (bd_dependencies b) \<and> acyclic (builder_edges b)))"
proof (cases "insert_stages [] (bd_stages b)")
  case (Inl e)
  then show ?thesis using insert_stages_eq [of "[]" "bd_stages b"] by (auto simp: pipeline_build_def)
next
  case (Inr m)
  then have m: "distinct (map stg_id (bd_stages b))" "m = map (\<lambda>s. (stg_id s, s)) (bd_stages b)"
    using insert_stages_eq [of "[]" "bd_stages b"] by simp_all
  have keys: "fst ` set m = stg_id ` set (bd_stages b)" by (force simp: m(2) image_iff)
  show ?thesis
  proof (cases "insert_dependencies (fst ` set m) [] (bd_dependencies b)")
    case (Inl e)
    then show ?thesis
      using Inr insert_dependencies_eq [of "[]" "fst ` set m" "bd_dependencies b"] by (auto simp: pipeline_build_def keys)
  next
    case (Inr d)
    let ?stages = "mo_stages h m" let ?deps = "mo_dependencies h d"
    have d: "set (bd_dependencies b) \<subseteq> fst ` set m \<times> fst ` set m" "distinct (map fst d)" "fst ` set d \<subseteq> fst ` set m"
      "\<And>i. parents d i = map snd (filter (\<lambda>e. fst e = i) (bd_dependencies b))"
      using Inr insert_dependencies_eq [of "[]" "fst ` set m" "bd_dependencies b"] by simp_all
    have perm: "mset ?stages = mset m" "mset ?deps = mset d" using h by (simp_all add: fair_orders_def)
    have input: "order_input b ?stages ?deps"
      using d perm perm_keys [OF perm(2), of fst] perm_parents [OF perm(2) d(2)] m(1)
      by (simp add: order_input_def keys m(2) [symmetric])
    obtain r where r: "compute_topological_order h ?stages ?deps = Some r"
      "case r of
       Inr order \<Rightarrow> distinct order \<and> set order = stg_id ` set (bd_stages b) \<and> in_order ?deps order \<and>
         distinct (bd_dependencies b) \<and> acyclic (builder_edges b)
     | Inl e \<Rightarrow> e = CyclicDependency \<and> \<not> (distinct (bd_dependencies b) \<and> acyclic (builder_edges b))"
      using order_computed [OF input h] by blast
    have "pipeline_build h b = (case r of Inl e \<Rightarrow> Some (Inl e) | Inr order \<Rightarrow>
        Some (Inr \<lparr> pp_stages = ?stages, pp_dependencies = ?deps, pp_topological_order = order \<rparr>))"
      using \<open>insert_stages [] (bd_stages b) = Inr m\<close> Inr r(1) by (simp add: pipeline_build_def Let_def split: sum.splits)
    then show ?thesis using r(2) input by (cases r) (auto simp: accepted_def order_input_def)
  qed
qed

section \<open>Waves\<close>

definition stage_ids :: "exec_pipeline \<Rightarrow> nat set" where
  "stage_ids p = fst ` set (pp_stages p)"

definition pipeline_wf :: "exec_pipeline \<Rightarrow> bool" where
  "pipeline_wf p \<longleftrightarrow> distinct (map fst (pp_stages p)) \<and> (\<forall>(i, s) \<in> set (pp_stages p). stg_id s = i) \<and>
     (\<forall>i. set (parents (pp_dependencies p) i) \<subseteq> stage_ids p) \<and> acyclic (depends_on (pp_dependencies p)) \<and>
     fst ` set (pp_dependencies p) \<subseteq> stage_ids p"

lemma built_wf: "fair_orders h \<Longrightarrow> pipeline_build h b = Some (Inr p) \<Longrightarrow> pipeline_wf p"
proof -
  assume "fair_orders h" "pipeline_build h b = Some (Inr p)"
  then have ok: "accepted b" "order_input b (pp_stages p) (pp_dependencies p)" using build_cases [of h b] by auto
  let ?m = "map (\<lambda>s. (stg_id s, s)) (bd_stages b)"
  have stages: "set (pp_stages p) = set ?m" "distinct (map fst (pp_stages p))"
    using ok(2) perm_keys [of "pp_stages p" ?m fst] by (simp_all add: order_input_def o_def)
  have ids: "stage_ids p = stg_id ` set (bd_stages b)" unfolding stage_ids_def stages(1) by (force simp: image_iff)
  have "set (parents (pp_dependencies p) i) \<subseteq> stage_ids p" for i
    unfolding ids using ok(2) by (fastforce simp: order_input_def)
  moreover have "acyclic (depends_on (pp_dependencies p))" using ok order_input_edges by (simp add: accepted_def)
  ultimately show ?thesis using stages ok(2) by (auto simp: pipeline_wf_def ids order_input_def)
qed

text \<open>When no stage is ready, all are completed.\<close>

lemma ready_iff: "is_ready p completed i \<longleftrightarrow> i \<notin> completed \<and> set (parents (pp_dependencies p) i) \<subseteq> completed"
  by (auto simp: is_ready_def parents_def list_all_iff split: option.splits)

lemma none_ready:
  assumes wf: "pipeline_wf p" and none: "ready_stages p completed = []"
  shows "stage_ids p \<subseteq> completed"
proof -
  let ?E = "depends_on (pp_dependencies p)"
  have "i \<in> stage_ids p \<and> d \<in> stage_ids p" if "d \<in> set (parents (pp_dependencies p) i)" for d i
    using wf that parents_none [of i "pp_dependencies p"] unfolding pipeline_wf_def by (cases "i \<in> fst ` set (pp_dependencies p)") auto
  then have "?E \<subseteq> stage_ids p \<times> stage_ids p" by (auto simp: depends_on_def)
  moreover have "finite (stage_ids p)" by (simp add: stage_ids_def)
  ultimately have "finite ?E" by (metis finite_SigmaI finite_subset)
  then have well: "wf ?E" using wf by (simp add: pipeline_wf_def finite_acyclic_wf)
  have "i \<in> stage_ids p \<longrightarrow> i \<in> completed" for i
  proof (induction i rule: wf_induct_rule [OF well])
    case (1 i)
    have "set (parents (pp_dependencies p) i) \<subseteq> completed"
      using 1 wf by (auto simp: depends_on_def pipeline_wf_def)
    moreover have "i \<in> stage_ids p \<Longrightarrow> \<not> is_ready p completed i"
      using none by (auto simp: ready_stages_def filter_empty_conv stage_ids_def)
    ultimately show ?case by (auto simp: ready_iff)
  qed
  then show ?thesis by blast
qed

text \<open>The tasks of a stage, and what a trace of started tasks has to satisfy.\<close>

definition task_of :: "task_context \<Rightarrow> nat \<times> nat" where
  "task_of c = (tx_stage_id c, tx_partition c)"

definition tasks_of :: "exec_pipeline \<Rightarrow> nat \<Rightarrow> (nat \<times> nat) set" where
  "tasks_of p i = {i} \<times> {..<(case get_stage p i of Some s \<Rightarrow> stg_partition_count s | None \<Rightarrow> 0)}"

definition keeps_order :: "exec_pipeline \<Rightarrow> task_context list \<Rightarrow> bool" where
  "keeps_order p trace \<longleftrightarrow>
     (\<forall>k < length trace. \<forall>d \<in> set (parents (pp_dependencies p) (tx_stage_id (trace ! k))).
        tasks_of p d \<subseteq> task_of ` set (take k trace))"

definition wave_inv :: "exec_pipeline \<Rightarrow> nat set \<Rightarrow> task_context list \<Rightarrow> bool" where
  "wave_inv p completed trace \<longleftrightarrow>
     completed \<subseteq> stage_ids p \<and> distinct (map task_of trace) \<and> task_of ` set trace = (\<Union>i \<in> completed. tasks_of p i) \<and> keeps_order p trace"

lemma get_stage_id: "pipeline_wf p \<Longrightarrow> get_stage p i = Some s \<Longrightarrow> stg_id s = i"
  by (auto simp: pipeline_wf_def get_stage_def dest!: map_of_SomeD)

lemma get_stage_some: "i \<in> stage_ids p \<Longrightarrow> \<exists>s. get_stage p i = Some s"
  unfolding stage_ids_def get_stage_def by (metis dom_map_of_conv_image_fst domD)

lemma contexts_tasks: "map task_of (stage_contexts c s) = map (Pair (stg_id s)) [0..<stg_partition_count s]"
  by (simp add: stage_contexts_def task_of_def o_def)

definition wave_tasks :: "exec_stage list \<Rightarrow> (nat \<times> nat) list" where
  "wave_tasks ss = concat (map (\<lambda>s. map (Pair (stg_id s)) [0..<stg_partition_count s]) ss)"

lemma wave_tasks_simps: "wave_tasks [] = []" "wave_tasks (s # ss) = map (Pair (stg_id s)) [0..<stg_partition_count s] @ wave_tasks ss"
  by (simp_all add: wave_tasks_def)

lemma wave_trace: "execute_wave n c ss = Some (c', started, rs) \<Longrightarrow> map task_of started = wave_tasks ss"
  by (induction n c ss arbitrary: c' started rs rule: execute_wave.induct) (auto simp: contexts_tasks wave_tasks_simps split: option.splits)

lemma wave_stages:
  assumes "pipeline_wf p" "set ready \<subseteq> stage_ids p"
  shows "map stg_id (List.map_filter (get_stage p) ready) = ready"
    "set (wave_tasks (List.map_filter (get_stage p) ready)) = (\<Union>i \<in> set ready. tasks_of p i)"
  using assms(2)
proof (induction ready)
  case (Cons i ready)
  {
    case 1
    then show ?case using Cons get_stage_some [of i p] get_stage_id [OF assms(1)] by (auto simp: map_filter_simps)
  next
    case 2
    then show ?case using Cons get_stage_some [of i p] get_stage_id [OF assms(1)]
      by (auto simp: map_filter_simps wave_tasks_simps tasks_of_def)
  }
qed (simp_all add: map_filter_simps wave_tasks_simps)

lemma wave_tasks_distinct:
  "distinct (map stg_id ss) \<Longrightarrow> distinct (wave_tasks ss)"
proof (induction ss)
  case (Cons s ss)
  have "fst x \<in> stg_id ` set ss" if "x \<in> set (wave_tasks ss)" for x using that by (auto simp: wave_tasks_def)
  moreover have "fst x = stg_id s" if "x \<in> set (map (Pair (stg_id s)) [0..<stg_partition_count s])" for x using that by auto
  moreover have "stg_id s \<notin> stg_id ` set ss" using Cons.prems by simp
  ultimately have "set (map (Pair (stg_id s)) [0..<stg_partition_count s]) \<inter> set (wave_tasks ss) = {}" by (metis disjoint_iff)
  then show ?case using Cons by (simp add: wave_tasks_simps distinct_map inj_on_def)
qed (simp add: wave_tasks_simps)

text \<open>A wave keeps the invariant, whether its tasks succeed or not.\<close>

lemma wave_step:
  assumes wf: "pipeline_wf p" and inv: "wave_inv p completed trace"
    and run: "execute_wave n c (List.map_filter (get_stage p) (ready_stages p completed)) = Some (c', started, rs)"
  shows "wave_inv p (completed \<union> set (ready_stages p completed)) (trace @ started)"
proof -
  let ?ready = "ready_stages p completed" let ?ss = "List.map_filter (get_stage p) ?ready"
  have ids: "set ?ready \<subseteq> stage_ids p" "distinct ?ready" "set ?ready \<inter> completed = {}"
    using wf by (auto simp: ready_stages_def stage_ids_def pipeline_wf_def is_ready_def)
  have tasks: "map task_of started = wave_tasks ?ss" using run by (rule wave_trace)
  have set_tasks: "task_of ` set started = (\<Union>i \<in> set ?ready. tasks_of p i)"
    using wave_stages(2) [OF wf ids(1)] arg_cong [OF tasks, of set] by simp
  have old: "task_of ` set trace = (\<Union>i \<in> completed. tasks_of p i)" "distinct (map task_of trace)" "keeps_order p trace"
    using inv by (simp_all add: wave_inv_def)
  have "fst ` (task_of ` set trace) \<subseteq> completed" "fst ` (task_of ` set started) \<subseteq> set ?ready"
    unfolding old(1) set_tasks by (auto simp: tasks_of_def)
  then have disj: "task_of ` set trace \<inter> task_of ` set started = {}" using ids(3) by fastforce
  have "distinct (map task_of started)" unfolding tasks using wave_stages(1) [OF wf ids(1)] ids(2) by (intro wave_tasks_distinct) simp
  then have 1: "distinct (map task_of (trace @ started))" using old(2) disj by auto
  have 2: "task_of ` set (trace @ started) = (\<Union>i \<in> completed \<union> set ?ready. tasks_of p i)"
    using old(1) set_tasks by (simp add: image_Un)
  have "tasks_of p d \<subseteq> task_of ` set (take k (trace @ started))"
    if k: "k < length (trace @ started)" and d: "d \<in> set (parents (pp_dependencies p) (tx_stage_id ((trace @ started) ! k)))" for k d
  proof (cases "k < length trace")
    case True
    then show ?thesis using old(3) d by (simp add: keeps_order_def nth_append)
  next
    case False
    then have "(trace @ started) ! k \<in> set started" using k by (simp add: nth_append)
    then have "tx_stage_id ((trace @ started) ! k) \<in> set ?ready"
      using \<open>fst ` (task_of ` set started) \<subseteq> set ?ready\<close> by (force simp: task_of_def)
    then have "d \<in> completed" using d by (auto simp: ready_stages_def ready_iff)
    then have "tasks_of p d \<subseteq> task_of ` set trace" unfolding old(1) by blast
    then show ?thesis using False by auto
  qed
  then have 3: "keeps_order p (trace @ started)" by (simp add: keeps_order_def)
  show ?thesis unfolding wave_inv_def using inv ids(1) 1 2 3 by (auto simp: wave_inv_def)
qed

lemma wave_lengths:
  assumes "pipeline_wf p" "execute_wave n c (List.map_filter (get_stage p) (ready_stages p completed)) = Some (c', started, rs)"
  shows "length (ready_stages p completed) = length rs"
proof -
  have "set (ready_stages p completed) \<subseteq> stage_ids p" by (auto simp: ready_stages_def stage_ids_def)
  then have "length (List.map_filter (get_stage p) (ready_stages p completed)) = length (ready_stages p completed)"
    using wave_stages(1) [OF assms(1)] by (metis length_map)
  then show ?thesis using execute_wave_length [OF assms(2)] by simp
qed

lemma waves_inv:
  assumes "run_waves p n completed tasks counter trace = Some (r, counter', trace')" "pipeline_wf p" "wave_inv p completed trace"
  shows "\<exists>fin. wave_inv p fin trace' \<and> (\<forall>completed' tasks'. r = Inr (completed', tasks') \<longrightarrow> completed' = fin \<and> fin = stage_ids p)"
  using assms
proof (induction p n completed tasks counter trace rule: run_waves.induct)
  case (1 p n completed tasks counter trace)
  let ?ready = "ready_stages p completed"
  show ?case
  proof (cases "?ready = []")
    case True
    then have "r = Inr (completed, tasks)" "trace' = trace" using "1.prems"(1) by (subst (asm) run_waves.simps; simp)+
    moreover have "completed = stage_ids p" using none_ready [OF "1.prems"(2) True] "1.prems"(3) by (auto simp: wave_inv_def)
    ultimately show ?thesis using "1.prems"(3) by auto
  next
    case False
    then obtain c' started rs where wave: "execute_wave n counter (List.map_filter (get_stage p) ?ready) = Some (c', started, rs)"
      using "1.prems"(1) by (subst (asm) run_waves.simps) (auto simp: Let_def split: option.splits)
    note step = wave_step [OF "1.prems"(2,3) wave]
    show ?thesis
    proof (cases "collect_wave (zip ?ready rs) completed tasks")
      case (Inl e)
      then have "r = Inl e" "trace' = trace @ started"
        using "1.prems"(1) False wave by (subst (asm) run_waves.simps; simp add: Let_def)+
      then show ?thesis using step by auto
    next
      case (Inr x)
      obtain completed1 tasks1 where x: "x = (completed1, tasks1)" by force
      have "completed1 = completed \<union> set ?ready"
        using collect_wave_completed [of ?ready rs completed tasks completed1 tasks1] Inr x wave_lengths [OF "1.prems"(2) wave] by simp
      moreover have "run_waves p n completed1 tasks1 c' (trace @ started) = Some (r, counter', trace')"
        using "1.prems"(1) False wave Inr x by (subst (asm) run_waves.simps) (simp add: Let_def)
      ultimately show ?thesis
        using "1.IH" [OF refl False wave refl refl _ x [symmetric]] Inr x step "1.prems"(2) by simp
    qed
  qed
qed

section \<open>Completion\<close>

definition tasks_succeed :: "exec_stage \<Rightarrow> bool" where
  "tasks_succeed s \<longleftrightarrow> (\<forall>q c. \<exists>outputs. stg_task s q c = TaskOk outputs)"

lemma await_ok: "list_all (\<lambda>r. \<exists>outputs. r = TaskOk outputs) rs \<Longrightarrow> await_handles rs n = Inr (n + of_nat (length rs))"
  by (induction rs n rule: await_handles.induct) (auto simp: algebra_simps)

lemma stage_ok: "tasks_succeed s \<Longrightarrow> 0 < n \<Longrightarrow> execute_stage n c s = Some (Inr (of_nat (stg_partition_count s)))"
  by (simp add: execute_stage_def tasks_succeed_def list_all_iff await_ok stage_contexts_def)

lemma wave_ok:
  assumes "0 < n" "list_all tasks_succeed ss"
  shows "\<exists>c' started. execute_wave n c ss = Some (c', started, map (\<lambda>s. Inr (of_nat (stg_partition_count s))) ss)"
  using assms(2)
proof (induction ss arbitrary: c)
  case (Cons s ss)
  then have "execute_stage n c s = Some (Inr (of_nat (stg_partition_count s)))" by (intro stage_ok) (simp_all add: assms(1))
  moreover obtain c' started where "execute_wave n (c + of_nat (stg_partition_count s)) ss =
      Some (c', started, map (\<lambda>s. Inr (of_nat (stg_partition_count s))) ss)"
    using Cons.IH [of "c + of_nat (stg_partition_count s)"] Cons.prems by auto
  ultimately show ?case by simp
qed simp

lemma collect_ok:
  "length is = length ss \<Longrightarrow> collect_wave (zip is (map (\<lambda>s. Inr (of_nat (stg_partition_count s))) ss)) completed k =
    Inr (completed \<union> set is, k + of_nat (length (wave_tasks ss)))"
proof (induction "is" ss arbitrary: completed k rule: list_induct2)
  case (Cons i "is" s ss)
  then show ?case by (simp add: wave_tasks_simps algebra_simps)
qed (simp add: wave_tasks_simps)

lemma waves_complete:
  assumes "pipeline_wf p" "0 < n" "\<And>i s. (i, s) \<in> set (pp_stages p) \<Longrightarrow> tasks_succeed s" "tasks = of_nat (length trace)"
  shows "\<exists>completed' counter' trace'. run_waves p n completed tasks counter trace =
    Some (Inr (completed', of_nat (length trace')), counter', trace')"
  using assms
proof (induction p n completed tasks counter trace rule: run_waves.induct)
  case (1 p n completed tasks counter trace)
  let ?ready = "ready_stages p completed" let ?ss = "List.map_filter (get_stage p) ?ready"
  show ?case
  proof (cases "?ready = []")
    case True
    then show ?thesis using "1.prems"(4) by (subst run_waves.simps) simp
  next
    case False
    have ids: "set ?ready \<subseteq> stage_ids p" by (auto simp: ready_stages_def stage_ids_def)
    have ok: "list_all tasks_succeed ?ss"
    proof -
      have "tasks_succeed s" if "get_stage p i = Some s" for i s
        using "1.prems"(3) [of i s] that by (simp add: get_stage_def map_of_SomeD)
      then show ?thesis by (auto simp: list_all_iff map_filter_def)
    qed
    obtain c' started where wave: "execute_wave n counter ?ss = Some (c', started, map (\<lambda>s. Inr (of_nat (stg_partition_count s))) ?ss)"
      using wave_ok [OF "1.prems"(2) ok] by blast
    have len: "length ?ready = length ?ss" using wave_stages(1) [OF "1.prems"(1) ids] by (metis length_map)
    have "length started = length (wave_tasks ?ss)" using wave_trace [OF wave] by (metis length_map)
    then have sum: "tasks + of_nat (length (wave_tasks ?ss)) = of_nat (length (trace @ started))" using "1.prems"(4) by simp
    have collect: "collect_wave (zip ?ready (map (\<lambda>s. Inr (of_nat (stg_partition_count s))) ?ss)) completed tasks =
        Inr (completed \<union> set ?ready, of_nat (length (trace @ started)))"
      using collect_ok [OF len] sum by simp
    have "run_waves p n completed tasks counter trace =
        run_waves p n (completed \<union> set ?ready) (of_nat (length (trace @ started))) c' (trace @ started)"
      using False wave collect by (subst run_waves.simps) (simp add: Let_def)
    then show ?thesis
      using "1.IH" [OF refl False wave refl refl collect refl] "1.prems"(1-3) by simp
  qed
qed

lemma wave_inv_all:
  assumes "pipeline_wf p" "wave_inv p (stage_ids p) trace"
  shows "length trace = sum_list (map (\<lambda>(i, s). stg_partition_count s) (pp_stages p))"
proof -
  have "length trace = card (task_of ` set trace)" using assms(2) distinct_card [of "map task_of trace"] by (simp add: wave_inv_def)
  also have "\<dots> = card (\<Union>i \<in> stage_ids p. tasks_of p i)" using assms(2) by (simp add: wave_inv_def)
  also have "\<dots> = (\<Sum>i \<in> stage_ids p. card (tasks_of p i))"
    by (rule card_UN_disjoint; (simp add: stage_ids_def tasks_of_def; fail)?) (auto simp: tasks_of_def)
  also have "\<dots> = sum_list (map (\<lambda>i. card (tasks_of p i)) (map fst (pp_stages p)))"
  proof -
    have "distinct (map fst (pp_stages p))" using assms(1) by (simp add: pipeline_wf_def)
    from sum_list_distinct_conv_sum_set [OF this, of "\<lambda>i. card (tasks_of p i)"] show ?thesis
      by (simp only: stage_ids_def list.set_map)
  qed
  also have "map (\<lambda>i. card (tasks_of p i)) (map fst (pp_stages p)) = map (\<lambda>(i, s). stg_partition_count s) (pp_stages p)"
    using assms(1) by (auto simp: pipeline_wf_def tasks_of_def get_stage_def)
  finally show ?thesis .
qed

section \<open>Properties\<close>

lemma accepted_built:
  assumes "fair_orders h" "accepted b"
  shows "\<exists>p. pipeline_build h b = Some (Inr p)"
proof -
  obtain r where r: "pipeline_build h b = Some r" and
    cases: "case r of
       Inr p \<Rightarrow> accepted b \<and> order_input b (pp_stages p) (pp_dependencies p) \<and> distinct (pp_topological_order p) \<and>
         set (pp_topological_order p) = stg_id ` set (bd_stages b) \<and> in_order (pp_dependencies p) (pp_topological_order p)
     | Inl (DuplicateStage i) \<Rightarrow> \<not> distinct (map stg_id (bd_stages b))
     | Inl (InvalidDependency c d) \<Rightarrow> (c, d) \<in> set (bd_dependencies b) \<and> \<not> {c, d} \<subseteq> stg_id ` set (bd_stages b)
     | Inl CyclicDependency \<Rightarrow> \<not> (distinct (bd_dependencies b) \<and> acyclic (builder_edges b))"
    using build_cases [OF assms(1), of b] by blast
  show ?thesis
  proof (cases r)
    case (Inl e)
    then show ?thesis using cases assms(2) by (cases e) (auto simp: accepted_def)
  qed (use r in simp)
qed

text \<open>C36: which pipelines are accepted. Whatever the order in which the hash maps are iterated, \<open>build\<close> returns. It accepts a
  builder exactly when the identifiers of the stages differ, the dependencies name stages, no dependency is given twice and
  there is no cycle; the order it computes then has every stage once, after all the stages it depends on. Otherwise the
  error names a duplicate, a dependency on a stage that does not exist, or a cycle; a dependency that is given twice is
  reported as a cycle although there may be none.\<close>

theorem pipeline_build_exact:
  assumes "fair_orders h"
  shows "\<exists>r. pipeline_build h b = Some r \<and> ((\<exists>p. r = Inr p) \<longleftrightarrow> accepted b) \<and>
    (case r of
       Inr p \<Rightarrow> distinct (pp_topological_order p) \<and> set (pp_topological_order p) = stg_id ` set (bd_stages b) \<and>
         (\<forall>(c, d) \<in> set (bd_dependencies b). \<forall>k < length (pp_topological_order p).
            pp_topological_order p ! k = c \<longrightarrow> d \<in> set (take k (pp_topological_order p)))
     | Inl (DuplicateStage i) \<Rightarrow> \<not> distinct (map stg_id (bd_stages b))
     | Inl (InvalidDependency c d) \<Rightarrow> (c, d) \<in> set (bd_dependencies b) \<and> \<not> {c, d} \<subseteq> stg_id ` set (bd_stages b)
     | Inl CyclicDependency \<Rightarrow> \<not> (distinct (bd_dependencies b) \<and> acyclic (builder_edges b)))"
proof -
  obtain r where r: "pipeline_build h b = Some r" and cases: "case r of
       Inr p \<Rightarrow> accepted b \<and> order_input b (pp_stages p) (pp_dependencies p) \<and> distinct (pp_topological_order p) \<and>
         set (pp_topological_order p) = stg_id ` set (bd_stages b) \<and> in_order (pp_dependencies p) (pp_topological_order p)
     | Inl (DuplicateStage i) \<Rightarrow> \<not> distinct (map stg_id (bd_stages b))
     | Inl (InvalidDependency c d) \<Rightarrow> (c, d) \<in> set (bd_dependencies b) \<and> \<not> {c, d} \<subseteq> stg_id ` set (bd_stages b)
     | Inl CyclicDependency \<Rightarrow> \<not> (distinct (bd_dependencies b) \<and> acyclic (builder_edges b))"
    using build_cases [OF assms, of b] by blast
  show ?thesis
  proof (cases r)
    case (Inl e)
    have "\<not> accepted b" using cases Inl by (cases e) (auto simp: accepted_def)
    then show ?thesis unfolding r Inl using cases [unfolded Inl] by (simp split: pipeline_error.splits)
  next
    case (Inr p)
    have "d \<in> set (take k (pp_topological_order p))"
      if "(c, d) \<in> set (bd_dependencies b)" "k < length (pp_topological_order p)" "pp_topological_order p ! k = c" for c d k
    proof -
      have "parents (pp_dependencies p) c = map snd (filter (\<lambda>e. fst e = c) (bd_dependencies b))"
        using cases Inr by (simp add: order_input_def)
      then have "d \<in> set (parents (pp_dependencies p) c)" using that(1) by force
      moreover have "set (parents (pp_dependencies p) (pp_topological_order p ! k)) \<subseteq> set (take k (pp_topological_order p))"
        using cases Inr that(2) by (simp add: in_order_def)
      ultimately show ?thesis using that(3) by blast
    qed
    then have "\<forall>(c, d) \<in> set (bd_dependencies b). \<forall>k < length (pp_topological_order p).
        pp_topological_order p ! k = c \<longrightarrow> d \<in> set (take k (pp_topological_order p))" by blast
    moreover have "distinct (pp_topological_order p)" "set (pp_topological_order p) = stg_id ` set (bd_stages b)" "accepted b"
      using cases Inr by simp_all
    ultimately show ?thesis unfolding r Inr by simp
  qed
qed

text \<open>Two stages of two and one tasks; the second depends on the first. And a builder that names the dependency twice.\<close>

definition sample_stage :: "nat \<Rightarrow> nat \<Rightarrow> exec_stage" where
  "sample_stage i n = \<lparr> stg_id = i, stg_partition_count = n, stg_task = (\<lambda>q c. TaskOk [show_nat q]), stg_dependencies = [] \<rparr>"

definition sample_builder :: pipeline_builder where
  "sample_builder = bd_dependency 2 1 (bd_stage (sample_stage 2 1) (bd_stage (sample_stage 1 2) builder_new))"

definition plain_orders :: map_orders where
  "plain_orders = \<lparr> mo_stages = id, mo_dependencies = id, mo_queue = id \<rparr>"

lemma plain_fair: "fair_orders plain_orders"
  by (simp add: fair_orders_def plain_orders_def)

lemma sample_edges: "builder_edges sample_builder = {(1, 2)}" "builder_edges (bd_dependency 2 1 sample_builder) = {(1, 2)}"
  by (auto simp: builder_edges_def sample_builder_def bd_dependency_def bd_stage_def builder_new_def)

lemma one_edge_acyclic: "acyclic {(1, 2 :: nat)}"
proof -
  have "{(1, 2 :: nat)} \<subseteq> measure id" by simp
  then show ?thesis using wf_subset wf_measure wf_acyclic by metis
qed

lemma sample_accepted: "accepted sample_builder"
  using one_edge_acyclic unfolding accepted_def sample_edges
  by (simp add: sample_builder_def bd_dependency_def bd_stage_def builder_new_def sample_stage_def)

lemma sample_built: "\<exists>p. pipeline_build plain_orders sample_builder = Some (Inr p)"
  by (rule accepted_built [OF plain_fair sample_accepted])

theorem pipeline_build_exact_witness:
  "(\<exists>p. pipeline_build plain_orders sample_builder = Some (Inr p)) \<and>
   (\<exists>e. pipeline_build plain_orders (bd_dependency 2 1 sample_builder) = Some (Inl e)) \<and> acyclic (builder_edges (bd_dependency 2 1 sample_builder))"
proof -
  have "\<not> accepted (bd_dependency 2 1 sample_builder)"
    by (simp add: accepted_def bd_dependency_def sample_builder_def bd_stage_def builder_new_def)
  moreover obtain r where "pipeline_build plain_orders (bd_dependency 2 1 sample_builder) = Some r"
      "(\<exists>p. r = Inr p) \<longleftrightarrow> accepted (bd_dependency 2 1 sample_builder)"
    using pipeline_build_exact [OF plain_fair, of "bd_dependency 2 1 sample_builder"] by blast
  ultimately have "\<exists>e. pipeline_build plain_orders (bd_dependency 2 1 sample_builder) = Some (Inl e)"
    by (cases r) auto
  then show ?thesis using sample_built one_edge_acyclic by (simp only: sample_edges simp_thms)
qed

lemma sum_list_mset_cong:
  fixes f :: "'a \<Rightarrow> nat"
  assumes "mset xs = mset ys"
  shows "sum_list (map f xs) = sum_list (map f ys)"
proof -
  have "sum_mset (image_mset f (mset xs)) = sum_mset (image_mset f (mset ys))" using assms by simp
  then show ?thesis by (simp only: mset_map [symmetric] sum_mset_sum_list)
qed

text \<open>C37: the executor respects the dependencies. On a pipeline that \<open>build\<close> returned, whatever the tasks do and also when one of
  them fails, no task is started twice, and a task is started only after every task of every stage its stage depends on;
  when the execution succeeds, all stages are completed and every task of every stage was started.\<close>

theorem stages_run_in_order:
  assumes "fair_orders h" "pipeline_build h b = Some (Inr p)" "stage_execute p e = Some (r, e', trace)"
  shows "distinct (map task_of trace) \<and> keeps_order p trace \<and>
    (\<forall>res. r = Inr res \<longrightarrow> er_stages_completed res = length (pp_stages p) \<and>
      task_of ` set trace = (\<Union>i \<in> stage_ids p. tasks_of p i))"
proof -
  have wf: "pipeline_wf p" by (rule built_wf [OF assms(1,2)])
  obtain q counter where run: "run_waves p (se_max_concurrent e) {} 0 (se_task_counter e) [] = Some (q, counter, trace)"
    and r: "r = (case q of Inl err \<Rightarrow> Inl err | Inr (completed, tasks) \<Rightarrow>
      Inr \<lparr> er_execute_id = se_execute_counter e, er_stages_completed = card completed, er_tasks_completed = tasks \<rparr>)"
    using assms(3) by (auto simp: stage_execute_def split: option.splits)
  have "wave_inv p {} []" by (simp add: wave_inv_def keeps_order_def)
  then obtain fin where fin: "wave_inv p fin trace" "\<And>completed' tasks'. q = Inr (completed', tasks') \<Longrightarrow> completed' = fin \<and> fin = stage_ids p"
    using waves_inv [OF run wf] by blast
  have "card (stage_ids p) = length (pp_stages p)"
    using wf distinct_card [of "map fst (pp_stages p)"] by (simp add: stage_ids_def pipeline_wf_def)
  then show ?thesis using fin r by (auto simp: wave_inv_def split: sum.splits)
qed

text \<open>a pipeline completes. On a pipeline that \<open>build\<close> returned, an executor that allows at least one task at a time and
  whose tasks all succeed returns, with all stages completed and the number of tasks of all stages.\<close>

theorem pipeline_completes:
  assumes "fair_orders h" "pipeline_build h b = Some (Inr p)" "0 < se_max_concurrent e" "\<forall>s \<in> set (bd_stages b). tasks_succeed s"
  shows "\<exists>res e' trace. stage_execute p e = Some (Inr res, e', trace) \<and> er_stages_completed res = length (bd_stages b) \<and>
    er_tasks_completed res = of_nat (sum_list (map stg_partition_count (bd_stages b)))"
proof -
  have wf: "pipeline_wf p" by (rule built_wf [OF assms(1,2)])
  have input: "order_input b (pp_stages p) (pp_dependencies p)" using build_cases [OF assms(1), of b] assms(2) by auto
  let ?m = "map (\<lambda>s. (stg_id s, s)) (bd_stages b)"
  have stages: "mset (pp_stages p) = mset ?m" using input by (simp add: order_input_def)
  have "tasks_succeed s" if "(i, s) \<in> set (pp_stages p)" for i s
    using that mset_eq_setD [OF stages] assms(4) by auto
  then have "\<exists>completed' counter' trace'. run_waves p (se_max_concurrent e) {} 0 (se_task_counter e) [] =
      Some (Inr (completed', of_nat (length trace')), counter', trace')"
    by (intro waves_complete [OF wf assms(3)]) simp_all
  then obtain fin counter trace where run: "run_waves p (se_max_concurrent e) {} 0 (se_task_counter e) [] =
      Some (Inr (fin, of_nat (length trace)), counter, trace)" by blast
  have "wave_inv p {} []" by (simp add: wave_inv_def keeps_order_def)
  from waves_inv [OF run wf this] have fin: "fin = stage_ids p" "wave_inv p (stage_ids p) trace" by blast+
  have "sum_list (map (\<lambda>(i, s). stg_partition_count s) (pp_stages p)) = sum_list (map (\<lambda>(i, s). stg_partition_count s) ?m)"
    using stages by (intro sum_list_mset_cong)
  then have "length trace = sum_list (map stg_partition_count (bd_stages b))"
    using wave_inv_all [OF wf fin(2)] by (simp add: o_def)
  moreover have "card (stage_ids p) = length (bd_stages b)"
    using wf distinct_card [of "map fst (pp_stages p)"] mset_eq_length [OF stages] by (simp add: stage_ids_def pipeline_wf_def)
  ultimately show ?thesis using run fin(1) by (simp add: stage_execute_def)
qed

lemma sample_tasks: "\<forall>s \<in> set (bd_stages sample_builder). tasks_succeed s"
  by (simp add: sample_builder_def bd_dependency_def bd_stage_def builder_new_def sample_stage_def tasks_succeed_def)

theorem pipeline_completes_witness:
  "\<exists>p res e' trace. pipeline_build plain_orders sample_builder = Some (Inr p) \<and>
    stage_execute p (stage_executor_new 4) = Some (Inr res, e', trace) \<and> er_stages_completed res = 2 \<and> er_tasks_completed res = 3"
proof -
  obtain p where p: "pipeline_build plain_orders sample_builder = Some (Inr p)" using sample_built by blast
  have "0 < se_max_concurrent (stage_executor_new 4)" by (simp add: stage_executor_new_def)
  from pipeline_completes [OF plain_fair p this sample_tasks] p show ?thesis
    by (auto simp: sample_builder_def bd_dependency_def bd_stage_def builder_new_def sample_stage_def)
qed

theorem stages_run_in_order_witness:
  "\<exists>p res e' trace. pipeline_build plain_orders sample_builder = Some (Inr p) \<and>
    stage_execute p (stage_executor_new 4) = Some (Inr res, e', trace) \<and> keeps_order p trace \<and>
    task_of ` set trace = (\<Union>i \<in> stage_ids p. tasks_of p i)"
proof -
  obtain p where p: "pipeline_build plain_orders sample_builder = Some (Inr p)" using sample_built by blast
  have wf: "pipeline_wf p" by (rule built_wf [OF plain_fair p])
  have input: "order_input sample_builder (pp_stages p) (pp_dependencies p)" using build_cases [OF plain_fair, of sample_builder] p by auto
  have "mset (pp_stages p) = mset (map (\<lambda>s. (stg_id s, s)) (bd_stages sample_builder))" using input by (simp add: order_input_def)
  then have "tasks_succeed s" if "(i, s) \<in> set (pp_stages p)" for i s using that mset_eq_setD sample_tasks by fastforce
  then have "\<exists>completed' counter' trace'. run_waves p 4 {} 0 0 [] = Some (Inr (completed', of_nat (length trace')), counter', trace')"
    by (intro waves_complete [OF wf]) simp_all
  then obtain fin counter trace where "run_waves p 4 {} 0 0 [] = Some (Inr (fin, of_nat (length trace)), counter, trace)" by blast
  then obtain res e' where run: "stage_execute p (stage_executor_new 4) = Some (Inr res, e', trace)"
    by (simp add: stage_execute_def stage_executor_new_def)
  have "keeps_order p trace" "task_of ` set trace = (\<Union>i \<in> stage_ids p. tasks_of p i)"
    using stages_run_in_order [OF plain_fair p run] by blast+
  then show ?thesis using p run by blast
qed

end
