(* ===== verification/Episode_Stats.thy ===== *)
theory Episode_Stats
  imports Client_Logic Text_Parsing "HOL-Library.Multiset" "HOL-Library.AList"
begin

text \<open>
  \<open>stats/types.rs\<close>, \<open>stats/keys.rs\<close> and \<open>stats/tikv_collector.rs\<close>: statistics of episodes, which workers record in the store and
  the finalizer combines into the statistics of a batch. The single-precision
  arithmetic of the machine is an argument \<open>F\<close>, so that every operation, conversion and rounding of the code is a call of
  it, in the order of the code; counts are natural numbers. A hash map is an association list in the order in which it is iterated. The JSON codec of the records and
  the codec of the eight bytes of a count are parameters.

  With exact arithmetic on the real numbers in place of \<open>F\<close> the combination of the statistics of episodes, by the
  parallel form of Welford's algorithm, is the statistics of all samples together, if the statistics of the episodes use
  the sample variance: the formulas are right. With single precision the result depends on the order of the hash map,
  and nothing is shown of the rounding errors.
\<close>

section \<open>Statistics of a feature\<close>

text \<open>The operations on single-precision numbers that the code uses: the constant \<open>0.0\<close>, the conversion \<open>as f32\<close> of a count,
  the arithmetic, and \<open>f32::min\<close>, \<open>f32::max\<close> and \<open>f32::sqrt\<close>.\<close>

record 'f arith =
  f_zero :: 'f
  f_of_count :: "nat \<Rightarrow> 'f"
  f_add :: "'f \<Rightarrow> 'f \<Rightarrow> 'f"
  f_sub :: "'f \<Rightarrow> 'f \<Rightarrow> 'f"
  f_mul :: "'f \<Rightarrow> 'f \<Rightarrow> 'f"
  f_div :: "'f \<Rightarrow> 'f \<Rightarrow> 'f"
  f_min :: "'f \<Rightarrow> 'f \<Rightarrow> 'f"
  f_max :: "'f \<Rightarrow> 'f \<Rightarrow> 'f"
  f_sqrt :: "'f \<Rightarrow> 'f"

record 'f feature_summary =
  fm_min :: "'f list"
  fm_max :: "'f list"
  fm_mean :: "'f list"
  fm_std :: "'f list"

definition summary_empty :: "'f arith \<Rightarrow> nat \<Rightarrow> 'f feature_summary" where
  "summary_empty F n =
     (let zeros = replicate n (f_zero F) in \<lparr> fm_min = zeros, fm_max = zeros, fm_mean = zeros, fm_std = zeros \<rparr>)"

definition summary_dim :: "'f feature_summary \<Rightarrow> nat" where
  "summary_dim s = length (fm_min s)"

record 'f recorded_stats =
  rs_episode_index :: nat
  rs_frame_count :: nat
  rs_feature_stats :: "(string \<times> 'f feature_summary) list"
  rs_task_indices :: "nat list"
  rs_recorded_at :: "int option"

definition recorded_stats_new :: "timestamp \<Rightarrow> nat \<Rightarrow> nat \<Rightarrow> 'f recorded_stats" where
  "recorded_stats_new now index frames =
     \<lparr> rs_episode_index = index, rs_frame_count = frames, rs_feature_stats = [], rs_task_indices = [],
       rs_recorded_at = Some (now div ns_per_sec) \<rparr>"

definition add_feature :: "string \<Rightarrow> 'f feature_summary \<Rightarrow> 'f recorded_stats \<Rightarrow> bool \<times> 'f recorded_stats" where
  "add_feature name s e =
     (if summary_dim s = 0 then (False, e)
      else (True, e\<lparr>rs_feature_stats := AList.update name s (rs_feature_stats e)\<rparr>))"

section \<open>Combination\<close>

record 'f welford =
  wf_count :: nat
  wf_min :: "'f list"
  wf_max :: "'f list"
  wf_mean :: "'f list"
  wf_m2 :: "'f list"

definition m2_of :: "'f arith \<Rightarrow> nat \<Rightarrow> 'f feature_summary \<Rightarrow> 'f list" where
  "m2_of F n s = map (\<lambda>d. if n > 1 then f_mul F (f_mul F d d) (f_of_count F (n - 1)) else f_zero F) (fm_std s)"

definition welford_start :: "'f arith \<Rightarrow> nat \<Rightarrow> 'f feature_summary \<Rightarrow> 'f welford" where
  "welford_start F n s =
     \<lparr> wf_count = n, wf_min = fm_min s, wf_max = fm_max s, wf_mean = fm_mean s, wf_m2 = m2_of F n s \<rparr>"

text \<open>A loop over the first components of a list; reading out of range panics, which \<open>wide\<close> excludes.\<close>

definition update_components :: "nat \<Rightarrow> (nat \<Rightarrow> 'f \<Rightarrow> 'f) \<Rightarrow> 'f list \<Rightarrow> 'f list" where
  "update_components n f xs = map (\<lambda>i. if i < n then f i (xs ! i) else xs ! i) [0..<length xs]"

definition welford_combine :: "'f arith \<Rightarrow> nat \<Rightarrow> nat \<times> 'f feature_summary \<Rightarrow> 'f welford \<Rightarrow> 'f welford" where
  "welford_combine F n e w =
     (case e of (count_b, s) \<Rightarrow>
        let count_a = wf_count w; total_count = count_a + count_b; m2_b = m2_of F count_b s;
            ca = f_of_count F count_a; cb = f_of_count F count_b; ct = f_of_count F total_count;
            delta = (\<lambda>i. f_sub F (fm_mean s ! i) (wf_mean w ! i))
        in \<lparr> wf_count = total_count,
             wf_min = update_components n (\<lambda>i x. f_min F x (fm_min s ! i)) (wf_min w),
             wf_max = update_components n (\<lambda>i x. f_max F x (fm_max s ! i)) (wf_max w),
             wf_mean = update_components n (\<lambda>i x. f_add F x (f_div F (f_mul F (delta i) cb) ct)) (wf_mean w),
             wf_m2 = update_components n (\<lambda>i x. f_add F x (f_add F (m2_b ! i)
               (f_div F (f_mul F (f_mul F (f_mul F (delta i) (delta i)) ca) cb) ct))) (wf_m2 w) \<rparr>)"

definition welford_result :: "'f arith \<Rightarrow> 'f welford \<Rightarrow> 'f feature_summary" where
  "welford_result F w =
     \<lparr> fm_min = wf_min w, fm_max = wf_max w, fm_mean = wf_mean w,
       fm_std = map (\<lambda>v. if wf_count w > 1 then f_sqrt F (f_div F v (f_of_count F (wf_count w - 1))) else f_zero F) (wf_m2 w) \<rparr>"

definition wide :: "nat \<Rightarrow> 'f feature_summary \<Rightarrow> bool" where
  "wide n s \<longleftrightarrow> n \<le> length (fm_max s) \<and> n \<le> length (fm_mean s) \<and> n \<le> length (fm_std s)"

definition aggregate_feature_stats :: "'f arith \<Rightarrow> (nat \<times> 'f feature_summary) list \<Rightarrow> 'f feature_summary option panics" where
  "aggregate_feature_stats F xs =
     (case xs of
        [] \<Rightarrow> Returns None
      | (n, s) # rest \<Rightarrow>
          (let width = summary_dim s in
           if width = 0 then Returns None
           else if list_ex (\<lambda>(_, t). summary_dim t \<noteq> width) xs then Returns None
           else if rest \<noteq> [] \<and> \<not> list_all (\<lambda>(_, t). wide width t) xs then Panic
           else Returns (Some (welford_result F (fold (welford_combine F width) rest (welford_start F n s))))))"

section \<open>Statistics of samples\<close>

text \<open>Exact arithmetic.\<close>

definition exact :: "real arith" where
  "exact = \<lparr> f_zero = 0, f_of_count = real, f_add = (+), f_sub = (-), f_mul = (*), f_div = (/), f_min = min, f_max = max, f_sqrt = sqrt \<rparr>"

lemma exact_simps [simp]:
  "f_zero exact = 0" "f_of_count exact = real" "f_add exact = (+)" "f_sub exact = (-)" "f_mul exact = (*)" "f_div exact = (/)"
  "f_min exact = min" "f_max exact = max" "f_sqrt exact = sqrt"
  by (simp_all add: exact_def)

text \<open>The reference: the statistics of a list of samples, with the sample variance.\<close>

definition sum_dev :: "real list \<Rightarrow> real" where
  "sum_dev xs = (\<Sum>x\<leftarrow>xs. (x - sum_list xs / real (length xs))\<^sup>2)"

definition sample_std :: "real list \<Rightarrow> real" where
  "sample_std xs = (if length xs > 1 then sqrt (sum_dev xs / real (length xs - 1)) else 0)"

definition column_of :: "nat \<Rightarrow> real list list \<Rightarrow> real list" where
  "column_of i rows = map (\<lambda>r. r ! i) rows"

definition sample_summary :: "nat \<Rightarrow> real list list \<Rightarrow> real feature_summary" where
  "sample_summary n rows =
     \<lparr> fm_min = map (\<lambda>i. Min (set (column_of i rows))) [0..<n], fm_max = map (\<lambda>i. Max (set (column_of i rows))) [0..<n],
       fm_mean = map (\<lambda>i. sum_list (column_of i rows) / real (length rows)) [0..<n],
       fm_std = map (\<lambda>i. sample_std (column_of i rows)) [0..<n] \<rparr>"

lemma sum_dev_alt:
  assumes "xs \<noteq> []"
  shows "sum_dev xs = (\<Sum>x\<leftarrow>xs. x\<^sup>2) - (sum_list xs)\<^sup>2 / real (length xs)"
proof -
  define c where "c = sum_list xs / real (length xs)"
  have expand: "(\<Sum>x\<leftarrow>ys. (x - c)\<^sup>2) = (\<Sum>x\<leftarrow>ys. x\<^sup>2) - 2 * c * sum_list ys + real (length ys) * c\<^sup>2" for ys
    by (induction ys) (simp_all add: power2_eq_square algebra_simps)
  have "real (length xs) * c\<^sup>2 = c * sum_list xs" using assms by (simp add: c_def power2_eq_square)
  then have "sum_dev xs = (\<Sum>x\<leftarrow>xs. x\<^sup>2) - c * sum_list xs"
    unfolding sum_dev_def c_def [symmetric] expand by simp
  then show ?thesis by (simp add: c_def power2_eq_square)
qed

lemma pooled_identity:
  fixes a b s t :: real
  assumes "a > 0" "b > 0"
  shows "s\<^sup>2 / a + t\<^sup>2 / b - (s + t)\<^sup>2 / (a + b) = (t / b - s / a) * (t / b - s / a) * a * b / (a + b)"
proof -
  have ne: "a \<noteq> 0" "b \<noteq> 0" "a + b \<noteq> 0" using assms by auto
  have d: "t / b - s / a = (t * a - s * b) / (a * b)" using ne by (simp add: field_simps)
  have "(t / b - s / a) * (t / b - s / a) * a * b / (a + b) = (t * a - s * b)\<^sup>2 / (a * b * (a + b))"
    unfolding d using ne by (simp add: power2_eq_square)
  also have "\<dots> = ((s\<^sup>2 * b + t\<^sup>2 * a) * (a + b) - (s + t)\<^sup>2 * (a * b)) / (a * b * (a + b))"
    by (rule arg_cong [where f = "\<lambda>x. x / (a * b * (a + b))"]) (simp add: power2_eq_square algebra_simps)
  also have "\<dots> = s\<^sup>2 / a + t\<^sup>2 / b - (s + t)\<^sup>2 / (a + b)"
    using ne by (simp add: diff_divide_distrib add_divide_distrib)
  finally show ?thesis by simp
qed

lemma sum_dev_append:
  assumes "xs \<noteq> []" "ys \<noteq> []"
  defines "d \<equiv> sum_list ys / real (length ys) - sum_list xs / real (length xs)"
  shows "sum_dev (xs @ ys) = sum_dev xs + (sum_dev ys + d * d * real (length xs) * real (length ys) / real (length xs + length ys))"
  using assms(1,2) pooled_identity [of "real (length xs)" "real (length ys)" "sum_list xs" "sum_list ys"]
  unfolding d_def by (simp add: sum_dev_alt)

lemma sum_dev_nonneg: "0 \<le> sum_dev xs"
  unfolding sum_dev_def by (rule sum_list_nonneg) auto

lemma sum_dev_single: "length xs \<le> 1 \<Longrightarrow> sum_dev xs = 0"
  by (cases xs) (auto simp: sum_dev_def)

lemma sample_std_square: "sample_std xs * sample_std xs * real (length xs - 1) = sum_dev xs"
  using sum_dev_nonneg [of xs] sum_dev_single [of xs] by (auto simp: sample_std_def)


text \<open>The state of the combination for the samples seen so far.\<close>

definition represents :: "nat \<Rightarrow> real list list \<Rightarrow> real welford \<Rightarrow> bool" where
  "represents n rows w \<longleftrightarrow> rows \<noteq> [] \<and>
     w = \<lparr> wf_count = length rows, wf_min = map (\<lambda>i. Min (set (column_of i rows))) [0..<n],
           wf_max = map (\<lambda>i. Max (set (column_of i rows))) [0..<n],
           wf_mean = map (\<lambda>i. sum_list (column_of i rows) / real (length rows)) [0..<n],
           wf_m2 = map (\<lambda>i. sum_dev (column_of i rows)) [0..<n] \<rparr>"

lemma column_of_simps [simp]:
  "length (column_of i rows) = length rows" "column_of i rows = [] \<longleftrightarrow> rows = []"
  "column_of i (rows @ rows') = column_of i rows @ column_of i rows'"
  by (simp_all add: column_of_def)

lemma m2_sample:
  assumes "rows \<noteq> []"
  shows "m2_of exact (length rows) (sample_summary n rows) = map (\<lambda>i. sum_dev (column_of i rows)) [0..<n]"
proof -
  have "(if length rows > 1 then sample_std xs * sample_std xs * real (length rows - 1) else 0) = sum_dev xs"
    if "length xs = length rows" for xs
    using that sample_std_square [of xs] sum_dev_single [of xs] by auto
  then show ?thesis unfolding m2_of_def sample_summary_def exact_simps by simp
qed

lemma welford_start_represents: "rows \<noteq> [] \<Longrightarrow> represents n rows (welford_start exact (length rows) (sample_summary n rows))"
  by (simp add: represents_def welford_start_def m2_sample) (simp add: sample_summary_def)

lemma update_components_map: "update_components n f (map g [0..<n]) = map (\<lambda>i. f i (g i)) [0..<n]"
  by (simp add: update_components_def)

lemma Min_append: "xs \<noteq> [] \<Longrightarrow> ys \<noteq> [] \<Longrightarrow> Min (set (xs @ ys)) = min (Min (set xs)) (Min (set ys :: real set))"
  by (simp add: Min_Un)

lemma Max_append: "xs \<noteq> [] \<Longrightarrow> ys \<noteq> [] \<Longrightarrow> Max (set (xs @ ys)) = max (Max (set xs)) (Max (set ys :: real set))"
  by (simp add: Max_Un)

lemma mean_append:
  fixes s t a b :: real
  assumes "a > 0" "b > 0"
  shows "s / a + (t / b - s / a) * b / (a + b) = (s + t) / (a + b)"
proof -
  have ne: "a \<noteq> 0" "b \<noteq> 0" "a + b \<noteq> 0" using assms by auto
  have "(t / b - s / a) * b = t - s * b / a" using ne by (simp add: left_diff_distrib)
  moreover have "s / a = s * (a + b) / a / (a + b)" using ne by simp
  ultimately have "s / a + (t / b - s / a) * b / (a + b) = (s * (a + b) / a + (t - s * b / a)) / (a + b)"
    by (simp add: add_divide_distrib)
  also have "s * (a + b) / a + (t - s * b / a) = s + t" using ne by (simp add: distrib_left add_divide_distrib)
  finally show ?thesis .
qed

lemma welford_combine_represents:
  assumes w: "represents n rows w" and new: "rows' \<noteq> []"
  shows "represents n (rows @ rows') (welford_combine exact n (length rows', sample_summary n rows') w)"
proof -
  have rows: "rows \<noteq> []" using w by (simp add: represents_def)
  let ?c = "\<lambda>i. column_of i rows" and ?d = "\<lambda>i. column_of i rows'"
  have pos: "real (length rows) > 0" "real (length rows') > 0" using rows new by simp_all
  have "wf_count (welford_combine exact n (length rows', sample_summary n rows') w) = length (rows @ rows')"
    using w by (simp add: represents_def welford_combine_def Let_def)
  moreover have "wf_min (welford_combine exact n (length rows', sample_summary n rows') w) =
      map (\<lambda>i. Min (set (column_of i (rows @ rows')))) [0..<n]"
    using w rows new by (simp add: represents_def welford_combine_def Let_def update_components_map sample_summary_def Min_append
        del: set_append)
  moreover have "wf_max (welford_combine exact n (length rows', sample_summary n rows') w) =
      map (\<lambda>i. Max (set (column_of i (rows @ rows')))) [0..<n]"
    using w rows new by (simp add: represents_def welford_combine_def Let_def update_components_map sample_summary_def Max_append
        del: set_append)
  moreover have "wf_mean (welford_combine exact n (length rows', sample_summary n rows') w) =
      map (\<lambda>i. sum_list (column_of i (rows @ rows')) / real (length (rows @ rows'))) [0..<n]"
    using w mean_append [OF pos]
    by (simp add: represents_def welford_combine_def Let_def update_components_map sample_summary_def)
  moreover have "wf_m2 (welford_combine exact n (length rows', sample_summary n rows') w) =
      map (\<lambda>i. sum_dev (column_of i (rows @ rows'))) [0..<n]"
    using w sum_dev_append [of "?c i" "?d i" for i] rows new
    by (simp add: represents_def welford_combine_def Let_def update_components_map m2_sample) (simp add: sample_summary_def)
  ultimately show ?thesis using rows by (simp add: represents_def)
qed

lemma welford_fold:
  assumes "represents n rows w" "\<forall>r \<in> set eps. r \<noteq> []"
  shows "represents n (rows @ concat eps) (fold (welford_combine exact n) (map (\<lambda>r. (length r, sample_summary n r)) eps) w)"
  using assms
proof (induction eps arbitrary: rows w)
  case (Cons r eps)
  have "represents n (rows @ r) (welford_combine exact n (length r, sample_summary n r) w)"
    using welford_combine_represents Cons.prems by simp
  from Cons.IH [OF this] Cons.prems show ?case by simp
qed simp

lemma welford_result_represents: "represents n rows w \<Longrightarrow> welford_result exact w = sample_summary n rows"
  by (auto simp: represents_def welford_result_def sample_summary_def sample_std_def)

lemma summary_dims: "summary_dim (sample_summary n rows) = n" "wide n (sample_summary n rows)"
  by (simp_all add: summary_dim_def wide_def sample_summary_def)

lemma aggregate_pooled:
  assumes "eps \<noteq> []" "0 < n" "\<forall>r \<in> set eps. r \<noteq> []"
  shows "aggregate_feature_stats exact (map (\<lambda>r. (length r, sample_summary n r)) eps) = Returns (Some (sample_summary n (concat eps)))"
proof -
  obtain r rest where eps: "eps = r # rest" using assms(1) by (cases eps) auto
  have "represents n (r @ concat rest) (fold (welford_combine exact n) (map (\<lambda>r. (length r, sample_summary n r)) rest)
      (welford_start exact (length r) (sample_summary n r)))"
    using welford_fold welford_start_represents assms(3) eps by simp
  moreover have "\<not> list_ex (\<lambda>(_, t). summary_dim t \<noteq> n) (map (\<lambda>r. (length r, sample_summary n r)) eps)"
    "list_all (\<lambda>(_, t). wide n t) (map (\<lambda>r. (length r, sample_summary n r)) eps)"
    by (simp_all add: list_ex_iff list_all_iff summary_dims)
  ultimately show ?thesis
    using assms(2) welford_result_represents [of n "r @ concat rest"]
    by (simp add: aggregate_feature_stats_def eps summary_dims Let_def)
qed


section \<open>Statistics of a batch\<close>

record 'f stats_summary =
  sm_batch_id :: string
  sm_total_episodes :: nat
  sm_total_frames :: nat
  sm_episodes :: "(nat \<times> 'f recorded_stats) list"
  sm_global_stats :: "(string \<times> 'f feature_summary) list"

definition stats_summary_new :: "string \<Rightarrow> 'f stats_summary" where
  "stats_summary_new b = \<lparr> sm_batch_id = b, sm_total_episodes = 0, sm_total_frames = 0, sm_episodes = [], sm_global_stats = [] \<rparr>"

definition add_episode :: "'f recorded_stats \<Rightarrow> 'f stats_summary \<Rightarrow> 'f stats_summary" where
  "add_episode e sm =
     sm\<lparr>sm_total_frames := sm_total_frames sm + rs_frame_count e, sm_total_episodes := sm_total_episodes sm + 1,
        sm_episodes := AList.update (rs_episode_index e) e (sm_episodes sm)\<rparr>"

definition gather_episode :: "nat \<Rightarrow> (string \<times> 'f feature_summary) list \<Rightarrow>
    (string \<times> (nat \<times> 'f feature_summary) list) list \<Rightarrow> (string \<times> (nat \<times> 'f feature_summary) list) list" where
  "gather_episode n fs m = fold (\<lambda>(name, s). AList.map_default name [(n, s)] (\<lambda>xs. xs @ [(n, s)])) fs m"

definition gather_features :: "'f recorded_stats list \<Rightarrow> (string \<times> (nat \<times> 'f feature_summary) list) list" where
  "gather_features es =
     fold (\<lambda>e. gather_episode (rs_frame_count e) (rs_feature_stats e)) es []"

fun aggregate_all :: "'f arith \<Rightarrow> (string \<times> (nat \<times> 'f feature_summary) list) list \<Rightarrow> (string \<times> 'f feature_summary) list \<Rightarrow>
    (string \<times> 'f feature_summary) list panics" where
  "aggregate_all F [] g = Returns g"
| "aggregate_all F ((name, xs) # rest) g =
     (case aggregate_feature_stats F xs of
        Panic \<Rightarrow> Panic
      | Returns None \<Rightarrow> aggregate_all F rest g
      | Returns (Some s) \<Rightarrow> aggregate_all F rest (AList.update name s g))"

text \<open>\<open>h\<close> is the order in which the hash map of the episodes is iterated.\<close>

definition calculate_global_stats :: "'f arith \<Rightarrow> ('f recorded_stats list \<Rightarrow> 'f recorded_stats list) \<Rightarrow> 'f stats_summary \<Rightarrow> 'f stats_summary panics" where
  "calculate_global_stats F h sm =
     (case aggregate_all F (gather_features (h (map snd (sm_episodes sm)))) [] of
        Panic \<Rightarrow> Panic
      | Returns g \<Rightarrow> Returns (sm\<lparr>sm_global_stats := g\<rparr>))"

text \<open>What is gathered under a name: the entries of the episodes that have it, in order.\<close>

definition entries_of :: "'f recorded_stats list \<Rightarrow> string \<Rightarrow> (nat \<times> 'f feature_summary) list" where
  "entries_of es name = concat (map (\<lambda>e. case map_of (rs_feature_stats e) name of Some s \<Rightarrow> [(rs_frame_count e, s)] | None \<Rightarrow> []) es)"

definition listed :: "(string \<times> 'a list) list \<Rightarrow> string \<Rightarrow> 'a list" where
  "listed m name = (case map_of m name of Some xs \<Rightarrow> xs | None \<Rightarrow> [])"

lemma map_of_map_default: "map_of (AList.map_default k v f m) = (map_of m)(k \<mapsto> (case map_of m k of None \<Rightarrow> v | Some x \<Rightarrow> f x))"
  by (induction m) (auto simp: fun_eq_iff split: option.splits)

lemma keys_map_default: "fst ` set (AList.map_default k v f m) = insert k (fst ` set m)"
  by (induction m) auto

lemma distinct_map_default: "distinct (map fst m) \<Longrightarrow> distinct (map fst (AList.map_default k v f m))"
  by (induction m) (auto simp: keys_map_default)

lemma gather_one:
  assumes "distinct (map fst fs)" "\<forall>name. map_of m name \<noteq> Some []" "distinct (map fst m)"
  shows "listed (gather_episode n fs m) name = listed m name @ (case map_of fs name of Some s \<Rightarrow> [(n, s)] | None \<Rightarrow> []) \<and>
    (\<forall>name. map_of (gather_episode n fs m) name \<noteq> Some []) \<and> distinct (map fst (gather_episode n fs m))"
  using assms
proof (induction fs arbitrary: m)
  case (Cons f fs)
  obtain k s where f: "f = (k, s)" by force
  let ?m = "AList.map_default k [(n, s)] (\<lambda>xs. xs @ [(n, s)]) m"
  have ok: "\<forall>name. map_of ?m name \<noteq> Some []" "distinct (map fst ?m)" "distinct (map fst fs)" "map_of fs k = None"
    using Cons.prems f by (auto simp: map_of_map_default distinct_map_default map_of_eq_None_iff split: option.splits)
  have "listed ?m name = listed m name @ (if name = k then [(n, s)] else [])"
    by (auto simp: listed_def map_of_map_default split: option.splits)
  moreover have "gather_episode n (f # fs) m = gather_episode n fs ?m" by (simp add: gather_episode_def f)
  ultimately show ?case using Cons.IH [OF ok(3,1,2)] ok(4) by (auto simp: f)
qed (simp add: gather_episode_def)

lemma gather_features_listed:
  assumes "\<forall>e \<in> set es. distinct (map fst (rs_feature_stats e))"
  shows "listed (gather_features es) name = entries_of es name" "\<forall>name. map_of (gather_features es) name \<noteq> Some []"
    "distinct (map fst (gather_features es))"
proof -
  let ?step = "\<lambda>e. gather_episode (rs_frame_count e) (rs_feature_stats e)"
  have gen: "listed (fold ?step es m) name = listed m name @ entries_of es name \<and>
      (\<forall>name. map_of (fold ?step es m) name \<noteq> Some []) \<and> distinct (map fst (fold ?step es m))"
    if "\<forall>name. map_of m name \<noteq> Some []" "distinct (map fst m)" for m
    using assms that
  proof (induction es arbitrary: m)
    case (Cons e es)
    have "distinct (map fst (rs_feature_stats e))" using Cons.prems(1) by simp
    note one = gather_one [OF this Cons.prems(2,3), where n = "rs_frame_count e"]
    show ?case using Cons.IH [of "?step e m"] Cons.prems(1) one [of name] by (simp add: entries_of_def)
  qed (simp add: entries_of_def)
  from gen [of "[]"] show "listed (gather_features es) name = entries_of es name"
    "\<forall>name. map_of (gather_features es) name \<noteq> Some []" "distinct (map fst (gather_features es))"
    by (simp_all add: gather_features_def listed_def [of "[]"])
qed

lemma aggregate_all_eq:
  assumes "distinct (map fst fv)" "\<And>name xs. (name, xs) \<in> set fv \<Longrightarrow> aggregate_feature_stats exact xs = Returns (Some (f name))"
  shows "\<exists>g'. aggregate_all exact fv g = Returns g' \<and>
    (\<forall>name. map_of g' name = (if name \<in> fst ` set fv then Some (f name) else map_of g name))"
  using assms
proof (induction fv arbitrary: g)
  case (Cons x fv)
  obtain k xs where x: "x = (k, xs)" by force
  have "aggregate_feature_stats exact xs = Returns (Some (f k))" using Cons.prems(2) x by simp
  moreover obtain g' where "aggregate_all exact fv (AList.update k (f k) g) = Returns g'"
    "\<forall>name. map_of g' name = (if name \<in> fst ` set fv then Some (f name) else map_of (AList.update k (f k) g) name)"
    using Cons.IH [of "AList.update k (f k) g"] Cons.prems by auto
  moreover have "k \<notin> fst ` set fv" using Cons.prems(1) x by simp
  ultimately show ?case by (auto simp: x update_conv')
qed simp


section \<open>The collector\<close>

definition stats_meta_key :: "string \<Rightarrow> key" where
  "stats_meta_key b = ''stats/'' @ b @ ''/meta''"

definition stats_episode_key :: "string \<Rightarrow> nat \<Rightarrow> key" where
  "stats_episode_key b i = ''stats/'' @ b @ ''/'' @ ''episode/'' @ show_nat i"

definition stats_prefix :: "string \<Rightarrow> key" where
  "stats_prefix b = ''stats/'' @ b @ ''/''"

definition is_batch_meta :: "key \<Rightarrow> bool" where
  "is_batch_meta k \<longleftrightarrow> suffix ''/meta'' k"

definition is_episode_key :: "key \<Rightarrow> bool" where
  "is_episode_key k \<longleftrightarrow> str_contains k ''/episode/'' \<and> \<not> suffix ''/meta'' k"

definition MAX_SCAN_LIMIT :: u32 where
  "MAX_SCAN_LIMIT = 100000"

definition increment_episode_count :: "('s, 'v) kv \<Rightarrow> ('v, u64) codec \<Rightarrow> string \<Rightarrow> ('s, u64) tc" where
  "increment_episode_count K cn b =
     bindM (tc_get K (stats_meta_key b)) (\<lambda>stored.
     bindM (case stored of
              Some v \<Rightarrow>
                (case de cn v of
                   Inl _ \<Rightarrow> throw (Deserialization ''Invalid episode count: expected 8 bytes'')
                 | Inr n \<Rightarrow> ret n)
            | None \<Rightarrow> ret 0) (\<lambda>current.
     bindM (tc_put K (stats_meta_key b) (enc cn (current + 1))) (\<lambda>_. ret (current + 1))))"

definition record_episode_stats ::
    "('s, 'v) kv \<Rightarrow> ('v, 'f recorded_stats) codec \<Rightarrow> ('v, u64) codec \<Rightarrow> string \<Rightarrow> 'f recorded_stats \<Rightarrow> ('s, unit) tc" where
  "record_episode_stats K cs cn b e =
     (case ser cs e of
        Inl err \<Rightarrow> throw (Serialization (''Failed to serialize episode stats: '' @ err))
      | Inr v \<Rightarrow>
          bindM (tc_put K (stats_episode_key b (rs_episode_index e)) v) (\<lambda>_.
          bindM (increment_episode_count K cn b) (\<lambda>_. ret ())))"

definition collect_entry :: "('v, 'f recorded_stats) codec \<Rightarrow> key \<times> 'v \<Rightarrow> 'f stats_summary \<Rightarrow> 'f stats_summary" where
  "collect_entry cs kv sm =
     (case kv of (k, v) \<Rightarrow>
        if is_batch_meta k then sm
        else if is_episode_key k then (case de cs v of Inr e \<Rightarrow> add_episode e sm | Inl _ \<Rightarrow> sm)
        else sm)"

definition get_batch_stats ::
    "'f arith \<Rightarrow> ('f recorded_stats list \<Rightarrow> 'f recorded_stats list) \<Rightarrow> ('s, 'v) kv \<Rightarrow> ('v, 'f recorded_stats) codec \<Rightarrow> string \<Rightarrow>
     ('s, 'f stats_summary option panics) tc" where
  "get_batch_stats F h K cs b =
     bindM (tc_scan K (stats_prefix b) MAX_SCAN_LIMIT) (\<lambda>kvs.
     if kvs = [] then ret (Returns None)
     else ret (case calculate_global_stats F h (fold (collect_entry cs) kvs (stats_summary_new b)) of
                 Panic \<Rightarrow> Panic
               | Returns sm \<Rightarrow> Returns (Some sm)))"

definition delete_batch_stats :: "('s, 'v) kv \<Rightarrow> string \<Rightarrow> ('s, unit) tc" where
  "delete_batch_stats K b =
     bindM (tc_scan K (stats_prefix b) MAX_SCAN_LIMIT) (\<lambda>kvs.
     if kvs = [] then ret () else foldM (\<lambda>(k, _) _. tc_delete K k) kvs ())"

subsection \<open>Entries of a batch\<close>

lemma mset_map_filter: "mset xs = mset ys \<Longrightarrow> mset (List.map_filter f xs) = mset (List.map_filter f ys)"
  unfolding List.map_filter_def by (metis mset_filter mset_map)

lemma collect_entries: "fold (collect_entry cs) kvs sm = fold add_episode (List.map_filter
    (\<lambda>(k, v). if is_batch_meta k \<or> \<not> is_episode_key k then None else case de cs v of Inr e \<Rightarrow> Some e | Inl _ \<Rightarrow> None) kvs) sm"
  by (induction kvs arbitrary: sm) (auto simp: collect_entry_def map_filter_simps split: sum.splits)

lemma update_new: "k \<notin> fst ` set m \<Longrightarrow> AList.update k v m = m @ [(k, v)]"
  by (induction m) auto

lemma add_episodes:
  assumes "distinct (map rs_episode_index es)" "set (map rs_episode_index es) \<inter> fst ` set (sm_episodes sm) = {}"
  shows "fold add_episode es sm = sm\<lparr>sm_total_frames := sm_total_frames sm + sum_list (map rs_frame_count es),
    sm_total_episodes := sm_total_episodes sm + length es,
    sm_episodes := sm_episodes sm @ map (\<lambda>e. (rs_episode_index e, e)) es\<rparr>"
  using assms
proof (induction es arbitrary: sm)
  case (Cons e es)
  have new: "AList.update (rs_episode_index e) e (sm_episodes sm) = sm_episodes sm @ [(rs_episode_index e, e)]"
    using Cons.prems(2) by (intro update_new) auto
  show ?case using Cons.IH [of "add_episode e sm"] Cons.prems by (auto simp: add_episode_def new)
qed simp

lemma sum_list_perm:
  fixes f :: "'a \<Rightarrow> real"
  assumes "mset xs = mset ys"
  shows "sum_list (map f xs) = sum_list (map f ys)"
proof -
  have "sum_mset (image_mset f (mset xs)) = sum_mset (image_mset f (mset ys))" using assms by simp
  then show ?thesis by (simp only: mset_map [symmetric] sum_mset_sum_list)
qed

lemma sample_summary_perm:
  assumes "mset rows = mset rows'"
  shows "sample_summary n rows = sample_summary n rows'"
proof -
  have len: "length rows = length rows'" by (rule mset_eq_length [OF assms])
  have col: "mset (column_of i rows) = mset (column_of i rows')" for i
    using assms by (simp add: column_of_def)
  have sum: "sum_list (column_of i rows) = sum_list (column_of i rows')" for i
    using sum_list_perm [OF col, of "\<lambda>x. x"] by simp
  have "sum_dev (column_of i rows) = sum_dev (column_of i rows')" for i
    unfolding sum_dev_def sum column_of_simps(1) len by (rule sum_list_perm [OF col])
  moreover have "set (column_of i rows) = set (column_of i rows')" for i by (rule mset_eq_setD [OF col])
  ultimately show ?thesis using len sum by (simp add: sample_summary_def sample_std_def)
qed

lemma mset_concat_map: "mset xs = mset ys \<Longrightarrow> mset (concat (map f xs)) = mset (concat (map f ys))"
  by (metis (no_types, lifting) map_map mset_concat mset_map sum_mset_sum_list)


lemma stats_keys:
  "prefix (stats_prefix b) (stats_meta_key b)" "prefix (stats_prefix b) (stats_episode_key b i)"
  "is_batch_meta (stats_meta_key b)" "\<not> is_batch_meta (stats_episode_key b i)" "is_episode_key (stats_episode_key b i)"
  "stats_episode_key b i = stats_episode_key b j \<longleftrightarrow> i = j" "stats_meta_key b \<noteq> stats_episode_key b i"
proof -
  have not_meta: "\<not> suffix ''/meta'' (stats_episode_key b i)" for i
  proof
    assume "suffix ''/meta'' (stats_episode_key b i)"
    then have "last (stats_episode_key b i) = CHR ''a''" by (auto simp: suffix_def)
    moreover have "last (stats_episode_key b i) = digit_char (i mod 10)"
      using show_nat_last [of i] by (simp add: stats_episode_key_def)
    moreover have "digit_char d \<noteq> CHR ''a''" if "d < 10" for d
    proof
      assume "digit_char d = CHR ''a''"
      then have "of_char (digit_char d) = (of_char CHR ''a'' :: nat)" by simp
      then show False using digit_char_code [OF that] that by simp
    qed
    ultimately show False by simp
  qed
  show "prefix (stats_prefix b) (stats_meta_key b)" "prefix (stats_prefix b) (stats_episode_key b i)"
    by (simp_all add: stats_prefix_def stats_meta_key_def stats_episode_key_def)
  show meta: "is_batch_meta (stats_meta_key b)"
    by (simp add: is_batch_meta_def stats_meta_key_def suffix_def)
  show no: "\<not> is_batch_meta (stats_episode_key b i)" using not_meta by (simp add: is_batch_meta_def)
  have "stats_episode_key b i = (''stats/'' @ b) @ ''/episode/'' @ show_nat i" by (simp add: stats_episode_key_def)
  then have "str_contains (stats_episode_key b i) ''/episode/''"
    unfolding str_contains_def list_ex_iff in_set_suffixes by (intro bexI [of _ "''/episode/'' @ show_nat i"]) (auto simp: suffix_def)
  then show "is_episode_key (stats_episode_key b i)" using not_meta by (simp add: is_episode_key_def)
  show "stats_episode_key b i = stats_episode_key b j \<longleftrightarrow> i = j"
  proof
    assume "stats_episode_key b i = stats_episode_key b j"
    then have "show_nat i = show_nat j" by (simp add: stats_episode_key_def)
    then have "digits_value (show_nat i) = digits_value (show_nat j)" by simp
    then show "i = j" by (simp only: digits_value_show_nat)
  qed simp
  show "stats_meta_key b \<noteq> stats_episode_key b i" using meta no by auto
qed

text \<open>The store after the episodes of a list were recorded.\<close>

definition recorded_store :: "('v, 'f recorded_stats) codec \<Rightarrow> ('v, u64) codec \<Rightarrow> string \<Rightarrow> (key \<rightharpoonup> 'v) \<Rightarrow> u64 \<Rightarrow> 'f recorded_stats list \<Rightarrow> key \<rightharpoonup> 'v" where
  "recorded_store cs cn b m n es =
     (fold (\<lambda>e m. m(stats_episode_key b (rs_episode_index e) \<mapsto> enc cs e)) es m)(stats_meta_key b \<mapsto> enc cn n)"

context reliable_backend
begin

lemma record_yields:
  assumes ok: "codec_ok cs" "codec_ok cn" and count: "(case m (stats_meta_key b) of Some v \<Rightarrow> de cn v | None \<Rightarrow> Inr 0) = Inr n"
  shows "yields (live m now) (record_episode_stats K cs cn b e) (Inr ())
    (live (m(stats_episode_key b (rs_episode_index e) \<mapsto> enc cs e, stats_meta_key b \<mapsto> enc cn (n + 1))) now)"
proof -
  let ?m = "m(stats_episode_key b (rs_episode_index e) \<mapsto> enc cs e)"
  have at: "?m (stats_meta_key b) = m (stats_meta_key b)" using stats_keys(7) by simp
  have inc: "yields (live ?m now) (increment_episode_count K cn b) (Inr (n + 1)) (live (?m(stats_meta_key b \<mapsto> enc cn (n + 1))) now)"
    unfolding increment_episode_count_def
  proof (rule yields_bind [OF get_yields], cases "m (stats_meta_key b)")
    case None
    then have "n = 0" using count by simp
    then show "yields (live ?m now) (bindM (case ?m (stats_meta_key b) of
              Some v \<Rightarrow> (case de cn v of Inl _ \<Rightarrow> throw (Deserialization ''Invalid episode count: expected 8 bytes'') | Inr n \<Rightarrow> ret n)
            | None \<Rightarrow> ret 0) (\<lambda>current. bindM (tc_put K (stats_meta_key b) (enc cn (current + 1))) (\<lambda>_. ret (current + 1))))
        (Inr (n + 1)) (live (?m(stats_meta_key b \<mapsto> enc cn (n + 1))) now)"
      unfolding at None option.case bindM_simps by (simp only: yields_bind [OF put_yields] yields_ret)
  next
    case (Some v)
    then have "de cn v = Inr n" using count by simp
    then show "yields (live ?m now) (bindM (case ?m (stats_meta_key b) of
              Some v \<Rightarrow> (case de cn v of Inl _ \<Rightarrow> throw (Deserialization ''Invalid episode count: expected 8 bytes'') | Inr n \<Rightarrow> ret n)
            | None \<Rightarrow> ret 0) (\<lambda>current. bindM (tc_put K (stats_meta_key b) (enc cn (current + 1))) (\<lambda>_. ret (current + 1))))
        (Inr (n + 1)) (live (?m(stats_meta_key b \<mapsto> enc cn (n + 1))) now)"
      unfolding at Some option.case \<open>de cn v = Inr n\<close> sum.case bindM_simps by (simp only: yields_bind [OF put_yields] yields_ret)
  qed
  have "ser cs e = Inr (enc cs e)" using ok(1) by (simp add: codec_ok_enc)
  then show ?thesis
    unfolding record_episode_stats_def
    by (simp only: sum.case) (rule yields_bind [OF put_yields], rule yields_bind [OF inc], rule yields_ret)
qed

lemma records_yield:
  assumes ok: "codec_ok cs" "codec_ok cn" and count: "(case m (stats_meta_key b) of Some v \<Rightarrow> de cn v | None \<Rightarrow> Inr 0) = Inr n" and ne: "es \<noteq> []"
  shows "yields (live m now) (foldM (\<lambda>e _. record_episode_stats K cs cn b e) es ()) (Inr ())
    (live (recorded_store cs cn b m (n + of_nat (length es)) es) now)"
  using count ne
proof (induction es arbitrary: m n)
  case (Cons e es)
  let ?m = "m(stats_episode_key b (rs_episode_index e) \<mapsto> enc cs e, stats_meta_key b \<mapsto> enc cn (n + 1))"
  have step: "yields (live m now) (record_episode_stats K cs cn b e) (Inr ()) (live ?m now)"
    by (rule record_yields [where m = m and b = b, OF ok Cons.prems(1)])
  show ?case
  proof (cases "es = []")
    case True
    then have store: "recorded_store cs cn b m (n + of_nat (length [e])) [e] = ?m" by (simp add: recorded_store_def)
    show ?thesis
      unfolding True foldM.simps store by (rule yields_bind [OF step], rule yields_ret)
  next
    case False
    have "(case ?m (stats_meta_key b) of Some v \<Rightarrow> de cn v | None \<Rightarrow> Inr 0) = Inr (n + 1)"
      using ok(2) by (simp add: codec_ok_enc)
    from Cons.IH [where m = ?m, OF this False] have rest: "yields (live ?m now) (foldM (\<lambda>e _. record_episode_stats K cs cn b e) es ()) (Inr ())
      (live (recorded_store cs cn b ?m (n + 1 + of_nat (length es)) es) now)" .
    have "fold (\<lambda>e m. m(stats_episode_key b (rs_episode_index e) \<mapsto> enc cs e)) es (m'(stats_meta_key b \<mapsto> x)) =
        (fold (\<lambda>e m. m(stats_episode_key b (rs_episode_index e) \<mapsto> enc cs e)) es m')(stats_meta_key b \<mapsto> x)" for m' x
      by (induction es arbitrary: m') (simp_all add: fun_upd_twist [OF stats_keys(7)])
    then have "recorded_store cs cn b ?m (n + 1 + of_nat (length es)) es = recorded_store cs cn b m (n + of_nat (length (e # es))) (e # es)"
      by (simp add: recorded_store_def add.assoc)
    then have eq: "recorded_store cs cn b m (n + of_nat (length (e # es))) (e # es) = recorded_store cs cn b ?m (n + 1 + of_nat (length es)) es"
      by simp
    show ?thesis unfolding foldM.simps eq by (rule yields_bind [OF step], rule rest)
  qed
qed simp

end


text \<open>What the scan of a batch finds after its episodes were recorded.\<close>

lemma recorded_lookup:
  assumes "distinct (map rs_episode_index es)"
  shows "recorded_store cs cn b m n es k =
    (if k = stats_meta_key b then Some (enc cn n)
     else case find (\<lambda>e. stats_episode_key b (rs_episode_index e) = k) es of Some e \<Rightarrow> Some (enc cs e) | None \<Rightarrow> m k)"
proof -
  have "fold (\<lambda>e m. m(stats_episode_key b (rs_episode_index e) \<mapsto> enc cs e)) es m k =
      (case find (\<lambda>e. stats_episode_key b (rs_episode_index e) = k) es of Some e \<Rightarrow> Some (enc cs e) | None \<Rightarrow> m k)"
    using assms
  proof (induction es arbitrary: m)
    case (Cons e es)
    have "find (\<lambda>e'. stats_episode_key b (rs_episode_index e') = stats_episode_key b (rs_episode_index e)) es = None"
      using Cons.prems by (auto simp: find_None_iff stats_keys(6)) (metis imageI)
    then show ?case using Cons by auto
  qed simp
  then show ?thesis by (simp add: recorded_store_def)
qed

lemma find_unique:
  assumes "\<And>x y. x \<in> set xs \<Longrightarrow> y \<in> set xs \<Longrightarrow> P x \<Longrightarrow> P y \<Longrightarrow> x = y"
  shows "find P xs = Some x \<longleftrightarrow> x \<in> set xs \<and> P x"
  using assms by (induction xs) auto

lemma recorded_entries:
  assumes es: "distinct (map rs_episode_index es)" and m: "finite (dom m)" "\<forall>k. prefix (stats_prefix b) k \<longrightarrow> m k = None"
  shows "mset (prefix_entries (recorded_store cs cn b m n es) (stats_prefix b)) =
    mset ((stats_meta_key b, enc cn n) # map (\<lambda>e. (stats_episode_key b (rs_episode_index e), enc cs e)) es)"
proof -
  let ?m = "recorded_store cs cn b m n es" and ?es = "(stats_meta_key b, enc cn n) # map (\<lambda>e. (stats_episode_key b (rs_episode_index e), enc cs e)) es"
  have "dom ?m \<subseteq> insert (stats_meta_key b) (dom m \<union> (\<lambda>e. stats_episode_key b (rs_episode_index e)) ` set es)"
    by (auto simp: recorded_lookup [OF es] find_Some_iff split: if_splits option.splits)
  then have fin: "finite (dom ?m)" using m(1) finite_subset by fastforce
  have at: "?m k = Some v \<longleftrightarrow> (k, v) \<in> set ?es" if "prefix (stats_prefix b) k" for k v
  proof (cases "k = stats_meta_key b")
    case True
    then show ?thesis using stats_keys(7) by (auto simp: recorded_lookup [OF es])
  next
    case False
    have "inj_on rs_episode_index (set es)" using es by (simp add: distinct_map)
    then have "(find (\<lambda>e. stats_episode_key b (rs_episode_index e) = k) es = Some e) \<longleftrightarrow>
        e \<in> set es \<and> stats_episode_key b (rs_episode_index e) = k" for e
      by (intro find_unique) (metis stats_keys(6) inj_onD)
    moreover have "?m k = Some v \<longleftrightarrow> (\<exists>e. find (\<lambda>e. stats_episode_key b (rs_episode_index e) = k) es = Some e \<and> v = enc cs e)"
      using False m(2) that by (auto simp: recorded_lookup [OF es] split: option.splits)
    ultimately show ?thesis using False by auto
  qed
  have "set (prefix_entries ?m (stats_prefix b)) = set ?es"
  proof -
    have "\<exists>r. k = stats_prefix b @ r \<and> (r = [] \<or> hd r \<noteq> CHR 0xFF)" "prefix (stats_prefix b) k" if "(k, v) \<in> set ?es" for k v
      using that by (auto simp: stats_prefix_def stats_meta_key_def stats_episode_key_def)
    moreover have "prefix (stats_prefix b) k" if "\<exists>r. k = stats_prefix b @ r \<and> (r = [] \<or> hd r \<noteq> CHR 0xFF)" for k using that by auto
    ultimately show ?thesis unfolding set_prefix_entries [OF fin] using at by (auto simp del: set_simps) 
  qed
  moreover have "distinct (prefix_entries ?m (stats_prefix b))"
    using sorted_range_entries(2) [of ?m] distinct_map by (auto simp: prefix_entries_def)
  moreover have "distinct (map fst ?es)"
    using es stats_keys(6,7) [of b] by (auto simp: distinct_map inj_on_def)
  then have "distinct ?es" by (simp only: distinct_map)
  ultimately show ?thesis by (simp only: set_eq_iff_mset_eq_distinct)
qed


lemma collected_episodes:
  assumes "mset kvs = mset ((stats_meta_key b, x) # map (\<lambda>e. (stats_episode_key b (rs_episode_index e), enc cs e)) es)" "codec_ok cs"
    "distinct (map rs_episode_index es)"
  shows "\<exists>es'. mset es' = mset es \<and> fold (collect_entry cs) kvs (stats_summary_new b) =
    \<lparr> sm_batch_id = b, sm_total_episodes = length es, sm_total_frames = sum_list (map rs_frame_count es),
      sm_episodes = map (\<lambda>e. (rs_episode_index e, e)) es', sm_global_stats = [] \<rparr>"
proof -
  let ?f = "\<lambda>(k, v). if is_batch_meta k \<or> \<not> is_episode_key k then None else case de cs v of Inr e \<Rightarrow> Some e | Inl _ \<Rightarrow> None"
  let ?es = "List.map_filter ?f kvs"
  have "List.map_filter ?f (map (\<lambda>e. (stats_episode_key b (rs_episode_index e), enc cs e)) es) = es"
    using assms(2) by (induction es) (simp_all add: map_filter_simps stats_keys(4,5) codec_ok_enc)
  then have "List.map_filter ?f ((stats_meta_key b, x) # map (\<lambda>e. (stats_episode_key b (rs_episode_index e), enc cs e)) es) = es"
    by (simp add: map_filter_simps stats_keys(3))
  then have perm: "mset ?es = mset es" using mset_map_filter [OF assms(1), of ?f] by simp
  have "mset (map rs_episode_index ?es) = mset (map rs_episode_index es)" using perm by (simp only: mset_map)
  then have "distinct (map rs_episode_index ?es)" using assms(3) mset_eq_imp_distinct_iff by blast
  moreover have "sum_mset (image_mset rs_frame_count (mset ?es)) = sum_mset (image_mset rs_frame_count (mset es))" by (simp only: perm)
  then have "sum_list (map rs_frame_count ?es) = sum_list (map rs_frame_count es)" by (simp only: mset_map [symmetric] sum_mset_sum_list)
  moreover have "length ?es = length es" by (rule mset_eq_length [OF perm])
  ultimately show ?thesis
    using perm by (intro exI [of _ ?es]) (simp add: collect_entries add_episodes stats_summary_new_def)
qed

text \<open>The samples of the episodes: every feature of an episode has the statistics of its rows, one for each frame.\<close>

definition sampled :: "(string \<Rightarrow> nat) \<Rightarrow> (real recorded_stats \<Rightarrow> string \<Rightarrow> real list list) \<Rightarrow> real recorded_stats \<Rightarrow> bool" where
  "sampled width rows e \<longleftrightarrow> distinct (map fst (rs_feature_stats e)) \<and>
     (\<forall>(name, s) \<in> set (rs_feature_stats e). 0 < width name \<and> rows e name \<noteq> [] \<and>
        rs_frame_count e = length (rows e name) \<and> s = sample_summary (width name) (rows e name))"

definition having :: "string \<Rightarrow> 'f recorded_stats list \<Rightarrow> 'f recorded_stats list" where
  "having name es = filter (\<lambda>e. map_of (rs_feature_stats e) name \<noteq> None) es"

lemma sampledD:
  assumes "sampled width rows e" "map_of (rs_feature_stats e) name = Some s"
  shows "0 < width name" "rows e name \<noteq> []" "rs_frame_count e = length (rows e name)" "s = sample_summary (width name) (rows e name)"
  using assms map_of_SomeD [OF assms(2)] by (auto simp: sampled_def)

lemma entries_sampled:
  assumes "\<forall>e \<in> set es. sampled width rows e"
  shows "entries_of es name = map (\<lambda>r. (length r, sample_summary (width name) r)) (map (\<lambda>e. rows e name) (having name es))"
  using assms
proof (induction es)
  case (Cons e es)
  then show ?case
    using sampledD [of width rows e name]
    by (cases "map_of (rs_feature_stats e) name") (auto simp: entries_of_def having_def)
qed (simp add: entries_of_def having_def)

lemma having_sampled:
  assumes "\<forall>e \<in> set es. sampled width rows e"
  shows "\<forall>r \<in> set (map (\<lambda>e. rows e name) (having name es)). r \<noteq> []" "having name es \<noteq> [] \<Longrightarrow> 0 < width name"
proof -
  have each: "rows e name \<noteq> [] \<and> 0 < width name" if "e \<in> set (having name es)" for e
    using that assms sampledD(1,2) [of width rows e name] by (auto simp: having_def)
  then show "\<forall>r \<in> set (map (\<lambda>e. rows e name) (having name es)). r \<noteq> []" by auto
  show "0 < width name" if "having name es \<noteq> []" using each that by (cases "having name es") auto
qed

lemma global_stats_pooled:
  assumes es: "\<forall>e \<in> set es. sampled width rows e"
  shows "\<exists>g. aggregate_all exact (gather_features es) [] = Returns g \<and>
    (\<forall>name. map_of g name = (if having name es = [] then None
       else Some (sample_summary (width name) (concat (map (\<lambda>e. rows e name) (having name es))))))"
proof -
  have "\<forall>e \<in> set es. distinct (map fst (rs_feature_stats e))" using es by (simp add: sampled_def)
  note gathered = gather_features_listed [OF this]
  have listed_mem: "listed (gather_features es) name = xs \<and> xs \<noteq> []" if "(name, xs) \<in> set (gather_features es)" for name xs
    using that gathered(2,3) by (auto simp: listed_def map_of_eq_Some_iff split: option.splits)
  have keys: "name \<in> fst ` set (gather_features es) \<longleftrightarrow> having name es \<noteq> []" for name
  proof -
    have "name \<in> fst ` set (gather_features es) \<longleftrightarrow> listed (gather_features es) name \<noteq> []"
      using listed_mem by (force simp: listed_def dom_map_of_conv_image_fst [symmetric] dom_def dest: map_of_SomeD split: option.splits)
    also have "\<dots> \<longleftrightarrow> having name es \<noteq> []" unfolding gathered(1) entries_sampled [OF es] by simp
    finally show ?thesis .
  qed
  have "aggregate_feature_stats exact xs = Returns (Some (sample_summary (width name) (concat (map (\<lambda>e. rows e name) (having name es)))))"
    if mem: "(name, xs) \<in> set (gather_features es)" for name xs
  proof -
    have "xs = entries_of es name" "having name es \<noteq> []"
      using listed_mem [OF mem] gathered(1) keys mem by (auto simp: image_iff) force
    then show ?thesis
      using aggregate_pooled [of "map (\<lambda>e. rows e name) (having name es)" "width name"] entries_sampled [OF es, of name]
        having_sampled [OF es, of name] by simp
  qed
  from aggregate_all_eq [where g = "[]" and f = "\<lambda>name. sample_summary (width name) (concat (map (\<lambda>e. rows e name) (having name es)))",
      OF gathered(3) this] keys show ?thesis by auto
qed

text \<open>The summary of the scanned entries.\<close>

lemma summary_of_entries:
  assumes kvs: "mset kvs = mset ((stats_meta_key b, x) # map (\<lambda>e. (stats_episode_key b (rs_episode_index e), enc cs e)) es)"
    and ok: "codec_ok cs" and h: "\<And>xs. mset (h xs) = mset xs"
    and es: "distinct (map rs_episode_index es)" "\<forall>e \<in> set es. sampled width rows e"
  shows "\<exists>sm. calculate_global_stats exact h (fold (collect_entry cs) kvs (stats_summary_new b)) = Returns sm \<and>
    sm_total_episodes sm = length es \<and> sm_total_frames sm = sum_list (map rs_frame_count es) \<and>
    (\<forall>name. map_of (sm_global_stats sm) name = (if having name es = [] then None
       else Some (sample_summary (width name) (concat (map (\<lambda>e. rows e name) (having name es))))))"
proof -
  obtain es' where es': "mset es' = mset es" "fold (collect_entry cs) kvs (stats_summary_new b) =
    \<lparr> sm_batch_id = b, sm_total_episodes = length es, sm_total_frames = sum_list (map rs_frame_count es),
      sm_episodes = map (\<lambda>e. (rs_episode_index e, e)) es', sm_global_stats = [] \<rparr>"
    using collected_episodes [OF kvs ok es(1)] by blast
  have perm: "mset (h es') = mset es" using h es'(1) by simp
  then have "\<forall>e \<in> set (h es'). sampled width rows e" using es(2) mset_eq_setD by blast
  from global_stats_pooled [OF this] obtain g where g: "aggregate_all exact (gather_features (h es')) [] = Returns g"
    "\<forall>name. map_of g name = (if having name (h es') = [] then None
       else Some (sample_summary (width name) (concat (map (\<lambda>e. rows e name) (having name (h es'))))))" by blast
  have hav: "mset (having name (h es')) = mset (having name es)" for name
    using perm by (simp add: having_def)
  have g': "map_of g name = (if having name es = [] then None
      else Some (sample_summary (width name) (concat (map (\<lambda>e. rows e name) (having name es)))))" for name
    using g(2) hav [of name] sample_summary_perm [OF mset_concat_map [OF hav], of "width name" "\<lambda>e. rows e name"] by auto
  have "map snd (map (\<lambda>e. (rs_episode_index e, e)) es') = es'" by (simp add: comp_def)
  then show ?thesis using g' g(1) unfolding es'(2) calculate_global_stats_def by simp
qed

text \<open>With exact arithmetic the statistics of a batch are those of all its samples. In a calm cluster, after fewer than
  100,000 episodes with different indices were recorded, each with the statistics of its own samples, one for every frame
  and feature, the collector returns the number of episodes and of frames, and for every feature the minimum, maximum,
  mean and standard deviation of the samples of all episodes together, whatever the order in which hash maps are
  iterated. This is a statement about the formulas, not about single precision.\<close>

theorem batch_stats_exact:
  assumes rel: "reliable_backend K contents fresh pend calm" and ok: "codec_ok cs" "codec_ok cn" and h: "\<And>xs. mset (h xs) = mset xs"
    and es: "es \<noteq> []" "distinct (map rs_episode_index es)" "length es < 100000" "\<forall>e \<in> set es. sampled width rows e"
    and m: "\<forall>k. prefix (stats_prefix b) k \<longrightarrow> m k = None" and st: "client_at contents calm m now st"
  shows "\<exists>st1 sm st2. foldM (\<lambda>e _. record_episode_stats K cs cn b e) es () st = (Inr (), st1) \<and>
    get_batch_stats exact h K cs b st1 = (Inr (Returns (Some sm)), st2) \<and>
    sm_total_episodes sm = length es \<and> sm_total_frames sm = sum_list (map rs_frame_count es) \<and>
    (\<forall>name. map_of (sm_global_stats sm) name = (if having name es = [] then None
       else Some (sample_summary (width name) (concat (map (\<lambda>e. rows e name) (having name es))))))"
proof -
  let ?n = "of_nat (length es) :: u64"
  let ?m = "recorded_store cs cn b m (0 + ?n) es"
  let ?kvs = "prefix_entries ?m (stats_prefix b)"
  have none: "m (stats_meta_key b) = None" using m stats_keys(1) by blast
  have fin: "finite (dom m)"
    using st tikv_backend.finite_contents [OF reliable_backend.axioms(1) [OF rel]] by (auto simp: client_at_def)
  have "yields (client_at contents calm m now) (foldM (\<lambda>e _. record_episode_stats K cs cn b e) es ()) (Inr ()) (client_at contents calm ?m now)"
    by (rule reliable_backend.records_yield [where m = m and b = b, OF rel ok _ es(1)]) (simp add: none)
  from yieldsD [OF this st] obtain st1 where st1: "foldM (\<lambda>e _. record_episode_stats K cs cn b e) es () st = (Inr (), st1)"
    "client_at contents calm ?m now st1" by blast
  have kvs: "mset ?kvs = mset ((stats_meta_key b, enc cn (0 + ?n)) # map (\<lambda>e. (stats_episode_key b (rs_episode_index e), enc cs e)) es)"
    by (rule recorded_entries [OF es(2) fin m])
  then have len: "length ?kvs = Suc (length es)" using mset_eq_length [OF kvs] by simp
  obtain sm where sm: "calculate_global_stats exact h (fold (collect_entry cs) ?kvs (stats_summary_new b)) = Returns sm"
    "sm_total_episodes sm = length es" "sm_total_frames sm = sum_list (map rs_frame_count es)"
    "\<forall>name. map_of (sm_global_stats sm) name = (if having name es = [] then None
       else Some (sample_summary (width name) (concat (map (\<lambda>e. rows e name) (having name es)))))"
    using summary_of_entries [OF kvs ok(1) h es(2,4)] by blast
  have ne: "(?kvs = []) = False" and take: "take (unat MAX_SCAN_LIMIT) ?kvs = ?kvs"
    using len es(3) by (auto simp: MAX_SCAN_LIMIT_def)
  have scan: "yields (client_at contents calm ?m now) (tc_scan K (stats_prefix b) MAX_SCAN_LIMIT) (Inr ?kvs) (client_at contents calm ?m now)"
    using reliable_backend.scan_yields [OF rel, where m = ?m and p = "stats_prefix b" and n = MAX_SCAN_LIMIT and now = now]
    by (simp only: take)
  have "yields (client_at contents calm ?m now) (get_batch_stats exact h K cs b) (Inr (Returns (Some sm))) (client_at contents calm ?m now)"
    unfolding get_batch_stats_def by (rule yields_bind [OF scan], simp only: ne if_False sm(1) panics.case, rule yields_ret)
  from yieldsD [OF this st1(2)] obtain st2 where "get_batch_stats exact h K cs b st1 = (Inr (Returns (Some sm)), st2)" by blast
  then show ?thesis using st1(1) sm(2-4) by blast
qed

text \<open>Two episodes with one and two samples of a feature with one component.\<close>

datatype stats_payload = PEpisode "real recorded_stats" | PCount u64

definition stats_codec :: "(stats_payload, real recorded_stats) codec" where
  "stats_codec = \<lparr> ser = (\<lambda>e. Inr (PEpisode e)), de = (\<lambda>v. case v of PEpisode e \<Rightarrow> Inr e | _ \<Rightarrow> Inl ''episode'') \<rparr>"

definition count_codec :: "(stats_payload, u64) codec" where
  "count_codec = \<lparr> ser = (\<lambda>n. Inr (PCount n)), de = (\<lambda>v. case v of PCount n \<Rightarrow> Inr n | _ \<Rightarrow> Inl ''count'') \<rparr>"

definition sample_rows :: "nat \<Rightarrow> real list list" where
  "sample_rows i = (if i = 0 then [[1]] else [[4], [7]])"

definition sample_episode :: "nat \<Rightarrow> real recorded_stats" where
  "sample_episode i = \<lparr> rs_episode_index = i, rs_frame_count = length (sample_rows i),
     rs_feature_stats = [(''action'', sample_summary 1 (sample_rows i))], rs_task_indices = [], rs_recorded_at = None \<rparr>"

definition stats_client :: "stats_payload mem client" where
  "stats_client =
     \<lparr> cl_config = default_tikv_config (\<lambda>_. None), cl_connected = True, cl_circuit = circuit_new 9 default_circuit_config,
       cl_clock = 9, cl_world = mem_empty \<rparr>"

lemma stats_client_at: "client_at mem_contents mem_calm Map.empty 9 stats_client"
  by (simp add: client_at_def stats_client_def mem_empty_def mem_calm_def mem_contents_def circuit_new_def cb_get_state_def cs_from_u8_def)

theorem batch_stats_exact_witness:
  "\<exists>st1 sm st2 s. foldM (\<lambda>e _. record_episode_stats mem_kv stats_codec count_codec ''b'' e) [sample_episode 1, sample_episode 0] ()
      stats_client = (Inr (), st1) \<and>
    get_batch_stats exact rev mem_kv stats_codec ''b'' st1 = (Inr (Returns (Some sm)), st2) \<and> sm_total_frames sm = 3 \<and>
    map_of (sm_global_stats sm) ''action'' = Some s \<and> fm_mean s = [4] \<and> fm_std s = [3]"
proof -
  let ?es = "[sample_episode 1, sample_episode 0]" and ?rows = "\<lambda>e (_ :: string). sample_rows (rs_episode_index e)"
  have ok: "codec_ok stats_codec" "codec_ok count_codec" by (simp_all add: codec_ok_def stats_codec_def count_codec_def)
  have es: "distinct (map rs_episode_index ?es)" "\<forall>e \<in> set ?es. sampled (\<lambda>_. 1) ?rows e"
    by (simp_all add: sample_episode_def sampled_def sample_rows_def)
  from batch_stats_exact [where es = ?es and h = rev and b = "''b''", OF mem.reliable_backend_axioms ok _ _ es(1) _ es(2) _ stats_client_at]
  obtain st1 sm st2 where run: "foldM (\<lambda>e _. record_episode_stats mem_kv stats_codec count_codec ''b'' e) ?es ()
      stats_client = (Inr (), st1)"
    "get_batch_stats exact rev mem_kv stats_codec ''b'' st1 = (Inr (Returns (Some sm)), st2)"
    and sm: "sm_total_frames sm = sum_list (map rs_frame_count ?es)"
      "\<forall>name. map_of (sm_global_stats sm) name = (if having name ?es = [] then None
        else Some (sample_summary 1 (concat (map (\<lambda>e. ?rows e name) (having name ?es)))))"
    by auto
  have "having ''action'' ?es = ?es" by (simp add: having_def sample_episode_def)
  then have "map_of (sm_global_stats sm) ''action'' = Some (sample_summary 1 [[4], [7], [1]])"
    using sm(2) by (simp add: sample_episode_def sample_rows_def)
  moreover have "sqrt 9 = (3 :: real)" by (simp add: real_sqrt_unique)
  then have "fm_mean (sample_summary 1 [[4], [7], [1]]) = [4]" "fm_std (sample_summary 1 [[4], [7], [1]]) = [3]"
    by (simp_all add: sample_summary_def column_of_def sample_std_def sum_dev_def power2_eq_square)
  moreover have "sm_total_frames sm = 3" using sm(1) by (simp add: sample_episode_def sample_rows_def)
  ultimately show ?thesis using run by blast
qed

end
