(* ===== verification/Worker.thy ===== *)
theory Worker
  imports Heartbeats Work_Claims Tikv_Config Episode_Stats
begin

text \<open>
  \<open>worker/coordinator.rs\<close>, \<open>worker/config.rs\<close>, \<open>worker/metrics.rs\<close>, \<open>worker/registry.rs\<close>, \<open>worker/processor.rs\<close>, \<open>slot_pool.rs\<close> and
  \<open>shutdown.rs\<close>: a worker claims units, hands them to a processor, reports the results and sends heartbeats.

  The state of a call is the client and the local state of the worker: its counters, the slots and the shutdown flag.
  The processor that converts a recording is injected by the caller and is a parameter, as is the collector of
  statistics. The main loop is one turn at a time; a signal that arrives during a turn has the effect of one before it.
\<close>

section \<open>Configuration\<close>

record worker_config =
  wc_max_concurrent_jobs :: nat
  wc_poll_interval :: int
  wc_max_attempts :: u32
  wc_job_timeout :: int
  wc_heartbeat_interval :: int
  wc_checkpoint_interval_frames :: u64
  wc_checkpoint_interval_seconds :: u64
  wc_checkpoint_async :: bool
  wc_output_prefix :: string
  wc_output_storage_url :: "string option"
  wc_expected_workers :: nat
  wc_merge_output_path :: string
  wc_episodes_per_chunk :: u32

definition default_worker_config :: worker_config where
  "default_worker_config =
     \<lparr> wc_max_concurrent_jobs = 1, wc_poll_interval = duration_seconds 5, wc_max_attempts = 3,
       wc_job_timeout = duration_seconds 3600, wc_heartbeat_interval = duration_seconds 30,
       wc_checkpoint_interval_frames = 100, wc_checkpoint_interval_seconds = 10, wc_checkpoint_async = True,
       wc_output_prefix = ''output/'', wc_output_storage_url = None, wc_expected_workers = 1,
       wc_merge_output_path = ''datasets/merged'', wc_episodes_per_chunk = 500 \<rparr>"

definition wc_with_max_concurrent_jobs :: "nat \<Rightarrow> worker_config \<Rightarrow> worker_config" where
  "wc_with_max_concurrent_jobs n c = c\<lparr>wc_max_concurrent_jobs := n\<rparr>"

definition wc_with_poll_interval :: "int \<Rightarrow> worker_config \<Rightarrow> worker_config" where
  "wc_with_poll_interval d c = c\<lparr>wc_poll_interval := d\<rparr>"

definition wc_with_max_attempts :: "u32 \<Rightarrow> worker_config \<Rightarrow> worker_config" where
  "wc_with_max_attempts n c = c\<lparr>wc_max_attempts := n\<rparr>"

definition wc_with_job_timeout :: "int \<Rightarrow> worker_config \<Rightarrow> worker_config" where
  "wc_with_job_timeout d c = c\<lparr>wc_job_timeout := d\<rparr>"

definition wc_with_heartbeat_interval :: "int \<Rightarrow> worker_config \<Rightarrow> worker_config" where
  "wc_with_heartbeat_interval d c = c\<lparr>wc_heartbeat_interval := d\<rparr>"

definition wc_with_output_prefix :: "string \<Rightarrow> worker_config \<Rightarrow> worker_config" where
  "wc_with_output_prefix p c = c\<lparr>wc_output_prefix := p\<rparr>"

definition wc_with_output_storage_url :: "string \<Rightarrow> worker_config \<Rightarrow> worker_config" where
  "wc_with_output_storage_url u c = c\<lparr>wc_output_storage_url := Some u\<rparr>"

definition wc_with_checkpoint_interval_frames :: "u64 \<Rightarrow> worker_config \<Rightarrow> worker_config" where
  "wc_with_checkpoint_interval_frames n c = c\<lparr>wc_checkpoint_interval_frames := n\<rparr>"

definition wc_with_checkpoint_interval_seconds :: "u64 \<Rightarrow> worker_config \<Rightarrow> worker_config" where
  "wc_with_checkpoint_interval_seconds n c = c\<lparr>wc_checkpoint_interval_seconds := n\<rparr>"

definition wc_with_checkpoint_async :: "bool \<Rightarrow> worker_config \<Rightarrow> worker_config" where
  "wc_with_checkpoint_async b c = c\<lparr>wc_checkpoint_async := b\<rparr>"

definition wc_with_episodes_per_chunk :: "u32 \<Rightarrow> worker_config \<Rightarrow> worker_config" where
  "wc_with_episodes_per_chunk n c = c\<lparr>wc_episodes_per_chunk := n\<rparr>"

definition v_non_negative :: "int \<Rightarrow> string \<Rightarrow> parse_error + unit" where
  "v_non_negative value field =
     (if value \<ge> 0 then Inr () else Inl (field, ''must be non-negative (got '' @ show_int value @ '')''))"

definition wc_validate :: "worker_config \<Rightarrow> parse_error + unit" where
  "wc_validate c =
     checks
       [v_positive (int (wc_max_concurrent_jobs c)) ''max_concurrent_jobs'',
        v_positive (uint (wc_max_attempts c)) ''max_attempts'',
        v_positive (int (wc_expected_workers c)) ''expected_workers'',
        v_positive (wc_poll_interval c div ns_per_sec) ''poll_interval_secs'',
        v_positive (wc_job_timeout c div ns_per_sec) ''job_timeout_secs'',
        v_positive (wc_heartbeat_interval c div ns_per_sec) ''heartbeat_interval_secs'',
        v_non_negative (uint (wc_checkpoint_interval_frames c)) ''checkpoint_interval_frames'',
        v_non_negative (uint (wc_checkpoint_interval_seconds c)) ''checkpoint_interval_seconds'',
        v_not_empty (wc_output_prefix c) ''output_prefix'',
        v_not_empty (wc_merge_output_path c) ''merge_output_path'']"

lemma wc_validate_Inr:
  "wc_validate c = Inr () \<longleftrightarrow> 0 < wc_max_concurrent_jobs c \<and> 0 < wc_max_attempts c \<and> 0 < wc_expected_workers c \<and>
     ns_per_sec \<le> wc_poll_interval c \<and> ns_per_sec \<le> wc_job_timeout c \<and> ns_per_sec \<le> wc_heartbeat_interval c \<and>
     wc_output_prefix c \<noteq> [] \<and> wc_merge_output_path c \<noteq> []"
proof -
  have pos: "v_positive n f = Inr () \<longleftrightarrow> 0 < n" for n f by (simp add: v_positive_def)
  have secs: "0 < d div ns_per_sec \<longleftrightarrow> ns_per_sec \<le> d" for d by (simp add: ns_per_sec_def pos_imp_zdiv_pos_iff)
  have "0 < uint (wc_max_attempts c) \<longleftrightarrow> 0 < wc_max_attempts c" by (simp add: word_less_alt)
  then show ?thesis
    by (auto simp: wc_validate_def checks_Inr pos secs v_not_empty_def v_non_negative_def)
qed

section \<open>Counters\<close>

record worker_metrics =
  wm_jobs_claimed :: u64
  wm_jobs_completed :: u64
  wm_jobs_failed :: u64
  wm_jobs_dead :: u64
  wm_active_jobs :: u64
  wm_processing_errors :: u64
  wm_heartbeat_errors :: u64

definition worker_metrics_new :: worker_metrics where
  "worker_metrics_new =
     \<lparr> wm_jobs_claimed = 0, wm_jobs_completed = 0, wm_jobs_failed = 0, wm_jobs_dead = 0, wm_active_jobs = 0,
       wm_processing_errors = 0, wm_heartbeat_errors = 0 \<rparr>"

definition inc_jobs_claimed :: "worker_metrics \<Rightarrow> worker_metrics" where
  "inc_jobs_claimed m = m\<lparr>wm_jobs_claimed := wm_jobs_claimed m + 1\<rparr>"

definition inc_jobs_completed :: "worker_metrics \<Rightarrow> worker_metrics" where
  "inc_jobs_completed m = m\<lparr>wm_jobs_completed := wm_jobs_completed m + 1\<rparr>"

definition inc_jobs_failed :: "worker_metrics \<Rightarrow> worker_metrics" where
  "inc_jobs_failed m = m\<lparr>wm_jobs_failed := wm_jobs_failed m + 1\<rparr>"

definition inc_jobs_dead :: "worker_metrics \<Rightarrow> worker_metrics" where
  "inc_jobs_dead m = m\<lparr>wm_jobs_dead := wm_jobs_dead m + 1\<rparr>"

definition inc_active_jobs :: "worker_metrics \<Rightarrow> worker_metrics" where
  "inc_active_jobs m = m\<lparr>wm_active_jobs := wm_active_jobs m + 1\<rparr>"

definition dec_active_jobs :: "worker_metrics \<Rightarrow> worker_metrics" where
  "dec_active_jobs m = m\<lparr>wm_active_jobs := wm_active_jobs m - 1\<rparr>"

definition inc_processing_errors :: "worker_metrics \<Rightarrow> worker_metrics" where
  "inc_processing_errors m = m\<lparr>wm_processing_errors := wm_processing_errors m + 1\<rparr>"

definition inc_heartbeat_errors :: "worker_metrics \<Rightarrow> worker_metrics" where
  "inc_heartbeat_errors m = m\<lparr>wm_heartbeat_errors := wm_heartbeat_errors m + 1\<rparr>"

lemmas metric_defs = inc_jobs_claimed_def inc_jobs_completed_def inc_jobs_failed_def inc_jobs_dead_def inc_active_jobs_def
  dec_active_jobs_def inc_processing_errors_def inc_heartbeat_errors_def

section \<open>Slots\<close>

text \<open>A semaphore; the permit of a guard is given back when the guard is dropped. Nothing closes the semaphore.\<close>

record slot_pool =
  sp_permits :: nat
  sp_closed :: bool
  sp_max_slots :: nat

datatype slot_pool_error = NoSlotsAvailable | PoolClosed

definition slot_pool_new :: "nat \<Rightarrow> slot_pool" where
  "slot_pool_new n = \<lparr> sp_permits = n, sp_closed = False, sp_max_slots = n \<rparr>"

text \<open>\<open>acquire\<close>: \<open>None\<close> while it waits.\<close>

definition slot_acquire :: "slot_pool \<Rightarrow> (slot_pool_error + slot_pool) option" where
  "slot_acquire p =
     (if sp_closed p then Some (Inl PoolClosed)
      else if sp_permits p = 0 then None
      else Some (Inr (p\<lparr>sp_permits := sp_permits p - 1\<rparr>)))"

definition slot_try_acquire :: "slot_pool \<Rightarrow> slot_pool option" where
  "slot_try_acquire p = (if sp_closed p \<or> sp_permits p = 0 then None else Some (p\<lparr>sp_permits := sp_permits p - 1\<rparr>))"

definition slot_release :: "slot_pool \<Rightarrow> slot_pool" where
  "slot_release p = p\<lparr>sp_permits := sp_permits p + 1\<rparr>"

definition slot_utilization :: "slot_pool \<Rightarrow> real" where
  "slot_utilization p = real (sp_max_slots p - sp_permits p) / real (sp_max_slots p)"

lemma slot_release_acquire: "slot_acquire p = Some (Inr q) \<Longrightarrow> slot_release q = p"
  by (auto simp: slot_acquire_def slot_release_def split: if_splits)

section \<open>Shutdown\<close>

text \<open>The flag, whether the receivers of the present run are subscribed, and whether a notification waits in them.\<close>

record shutdown_handler =
  sh_flag :: bool
  sh_subscribed :: bool
  sh_notified :: bool

definition shutdown_handler_new :: shutdown_handler where
  "shutdown_handler_new = \<lparr> sh_flag = False, sh_subscribed = False, sh_notified = False \<rparr>"

definition sh_shutdown :: "shutdown_handler \<Rightarrow> shutdown_handler" where
  "sh_shutdown h = h\<lparr>sh_flag := True, sh_notified := sh_subscribed h\<rparr>"

definition sh_subscribe :: "shutdown_handler \<Rightarrow> shutdown_handler" where
  "sh_subscribe h = h\<lparr>sh_subscribed := True\<rparr>"

definition shutdown_interrupted :: tikv_error where
  "shutdown_interrupted = Other ''Job interrupted by shutdown''"

section \<open>Registry of jobs\<close>

text \<open>Tokens are numbered; the second component are the cancelled ones.\<close>

type_synonym job_registry = "(string \<times> nat) list \<times> nat set"

definition jr_register :: "string \<Rightarrow> nat \<Rightarrow> job_registry \<Rightarrow> job_registry" where
  "jr_register job token r = (AList.update job token (fst r), snd r)"

definition jr_unregister :: "string \<Rightarrow> job_registry \<Rightarrow> job_registry" where
  "jr_unregister job r = (AList.delete job (fst r), snd r)"

definition jr_job_ids :: "job_registry \<Rightarrow> string list" where
  "jr_job_ids r = map fst (fst r)"

definition jr_cancel_job :: "string \<Rightarrow> job_registry \<Rightarrow> job_registry" where
  "jr_cancel_job job r = (case map_of (fst r) job of Some t \<Rightarrow> (fst r, insert t (snd r)) | None \<Rightarrow> r)"

definition jr_cancel_all :: "job_registry \<Rightarrow> job_registry" where
  "jr_cancel_all r = (fst r, snd r \<union> snd ` set (fst r))"

section \<open>The coordinator\<close>

text \<open>The coordinator only passes the statistics of an episode on, so a single-precision number is its bit pattern.\<close>

type_synonym f32 = "32 word"

datatype processing_result =
    ProcSuccess u64 u64 "f32 recorded_stats option"
  | ProcFailed string
  | ProcCancelled

record 's worker_env =
  we_processor :: "work_unit \<Rightarrow> ('s, processing_result) tc"
  we_collector :: "(string \<Rightarrow> f32 recorded_stats \<Rightarrow> ('s, unit) tc) option"

definition missing_processor :: "work_unit \<Rightarrow> ('s, processing_result) tc" where
  "missing_processor u =
     ret (ProcFailed (''No WorkProcessor configured for work unit '' @ wu_id u @ '' in batch '' @ wu_batch_id u))"

record worker_setup =
  ws_pod_id :: string
  ws_config :: worker_config

record worker_state =
  wr_metrics :: worker_metrics
  wr_slots :: slot_pool
  wr_shutdown :: shutdown_handler
  wr_registry :: job_registry

definition coordinator_new :: "worker_config \<Rightarrow> worker_state" where
  "coordinator_new c =
     \<lparr> wr_metrics = worker_metrics_new, wr_slots = slot_pool_new (wc_max_concurrent_jobs c),
       wr_shutdown = shutdown_handler_new, wr_registry = ([], {}) \<rparr>"

text \<open>The error \<open>None\<close> stands for a call that waits for a slot.\<close>

type_synonym ('s, 'a) working = "('s client \<times> worker_state, tikv_error option, 'a) prog"

definition call :: "('s, 'a) tc \<Rightarrow> ('s, 'a) working" where
  "call p = map_errM Some (on_fst p)"

definition bump :: "(worker_metrics \<Rightarrow> worker_metrics) \<Rightarrow> ('s, unit) working" where
  "bump f = on_snd (\<lambda>w. w\<lparr>wr_metrics := f (wr_metrics w)\<rparr>)"

definition claim_work :: "('s, 'v) kv \<Rightarrow> 'v codecs \<Rightarrow> worker_setup \<Rightarrow> ('s, work_unit option) working" where
  "claim_work K C w =
     bindM (call (claim_work_unit K C (ws_pod_id w))) (\<lambda>r.
     case r of
       Some u \<Rightarrow> bindM (bump inc_jobs_claimed) (\<lambda>_. bindM (bump inc_active_jobs) (\<lambda>_. ret (Some u)))
     | None \<Rightarrow> ret None)"

definition complete_work :: "('s, 'v) kv \<Rightarrow> 'v codecs \<Rightarrow> string \<Rightarrow> string \<Rightarrow> ('s, unit) working" where
  "complete_work K C batch_id unit_id =
     bindM (call (complete_work_unit K C batch_id unit_id)) (\<lambda>found.
     if found then bindM (bump inc_jobs_completed) (\<lambda>_. bump dec_active_jobs) else bump dec_active_jobs)"

definition fail_work :: "('s, 'v) kv \<Rightarrow> 'v codecs \<Rightarrow> string \<Rightarrow> string \<Rightarrow> string \<Rightarrow> ('s, unit) working" where
  "fail_work K C batch_id unit_id err =
     bindM (call (fail_work_unit K C batch_id unit_id err)) (\<lambda>found.
     if found then bindM (bump inc_jobs_failed) (\<lambda>_. bump dec_active_jobs) else bump dec_active_jobs)"

text \<open>The record of a heartbeat: the stored one or a new one, with the counters as they are.\<close>

definition worker_beat :: "timestamp \<Rightarrow> string \<Rightarrow> worker_metrics \<Rightarrow> heartbeat_record option \<Rightarrow> heartbeat_record" where
  "worker_beat now pod m stored =
     (let active = ucast (wm_active_jobs m) :: u32 in
      (hb_beat now (case stored of Some h \<Rightarrow> h | None \<Rightarrow> heartbeat_new now pod))
        \<lparr>hb_active_jobs := active, hb_total_processed := wm_jobs_completed m, hb_status := (if active > 0 then Busy else Idle)\<rparr>)"

definition send_heartbeat_inner :: "('s, 'v) kv \<Rightarrow> 'v codecs \<Rightarrow> string \<Rightarrow> worker_metrics \<Rightarrow> ('s, unit) tc" where
  "send_heartbeat_inner K C pod m =
     bindM (tc_get_heartbeat K C pod) (\<lambda>stored.
     bindM now_utc (\<lambda>now. tc_update_heartbeat K C pod (worker_beat now pod m stored)))"

definition worker_send_heartbeat :: "('s, 'v) kv \<Rightarrow> 'v codecs \<Rightarrow> worker_setup \<Rightarrow> ('s, unit) working" where
  "worker_send_heartbeat K C w =
     bindM (gets (\<lambda>x. wr_metrics (snd x))) (\<lambda>m. call (send_heartbeat_inner K C (ws_pod_id w) m))"

text \<open>One tick of the heartbeat task.\<close>

definition heartbeat_tick :: "('s, 'v) kv \<Rightarrow> 'v codecs \<Rightarrow> worker_setup \<Rightarrow> ('s, unit) working" where
  "heartbeat_tick K C w = handleM (worker_send_heartbeat K C w) (\<lambda>_. bump inc_heartbeat_errors) ret"

text \<open>An error is counted before it is passed on.\<close>

definition counting_errors :: "('s, unit) working \<Rightarrow> ('s, bool) working" where
  "counting_errors p = handleM p (\<lambda>e. bindM (bump inc_processing_errors) (\<lambda>_. throw e)) (\<lambda>_. ret False)"

definition handle_execution_result ::
    "'s worker_env \<Rightarrow> ('s, 'v) kv \<Rightarrow> 'v codecs \<Rightarrow> string \<Rightarrow> string \<Rightarrow> processing_result \<Rightarrow> ('s, bool) working" where
  "handle_execution_result E K C batch_id unit_id result =
     (case result of
        ProcSuccess index frames stats \<Rightarrow>
          bindM (case (we_collector E, stats) of
                   (Some f, Some s) \<Rightarrow> handleM (call (f batch_id s)) (\<lambda>_. ret ()) ret
                 | _ \<Rightarrow> ret ()) (\<lambda>_.
          counting_errors (complete_work K C batch_id unit_id))
      | ProcFailed err \<Rightarrow>
          if str_contains err ''shutdown'' then ret True
          else counting_errors (fail_work K C batch_id unit_id err)
      | ProcCancelled \<Rightarrow> ret False)"

text \<open>A guard is held while the body runs and dropped whatever its result.\<close>

definition holding_slot :: "('s, 'a) working \<Rightarrow> ('s, 'a) working" where
  "holding_slot p x = (case p x of (r, y) \<Rightarrow> (r, (fst y, (snd y)\<lparr>wr_slots := slot_release (wr_slots (snd y))\<rparr>)))"

definition process_work_unit :: "'s worker_env \<Rightarrow> ('s, 'v) kv \<Rightarrow> 'v codecs \<Rightarrow> work_unit \<Rightarrow> ('s, bool) working" where
  "process_work_unit E K C u =
     bindM (gets (\<lambda>x. sh_flag (wr_shutdown (snd x)))) (\<lambda>requested.
     if requested then ret True
     else
       bindM (gets (\<lambda>x. slot_acquire (wr_slots (snd x)))) (\<lambda>acquired.
       case acquired of
         None \<Rightarrow> throw None
       | Some (Inl _) \<Rightarrow> bindM (bump dec_active_jobs) (\<lambda>_. ret False)
       | Some (Inr slots) \<Rightarrow>
           bindM (on_snd (\<lambda>w. w\<lparr>wr_slots := slots\<rparr>)) (\<lambda>_.
           holding_slot
             (handleM (call (we_processor E u))
                (\<lambda>e. counting_errors (fail_work K C (wu_batch_id u) (wu_id u)
                       (''Execution error: '' @ (case e of Some e \<Rightarrow> display_tikv_error e | None \<Rightarrow> []))))
                (handle_execution_result E K C (wu_batch_id u) (wu_id u))))))"

definition wait_with_shutdown :: "('s, bool) working" where
  "wait_with_shutdown = gets (\<lambda>x. sh_notified (wr_shutdown (snd x)))"

text \<open>One turn of the main loop; \<open>True\<close> when the loop returns.\<close>

definition run_turn :: "'s worker_env \<Rightarrow> ('s, 'v) kv \<Rightarrow> 'v codecs \<Rightarrow> worker_setup \<Rightarrow> ('s, bool) working" where
  "run_turn E K C w =
     bindM (gets (\<lambda>x. unat (wm_active_jobs (wr_metrics (snd x))))) (\<lambda>active.
     if active < wc_max_concurrent_jobs (ws_config w)
     then bindM (claim_work K C w) (\<lambda>r.
          case r of
            Some u \<Rightarrow> process_work_unit E K C u
          | None \<Rightarrow> wait_with_shutdown)
     else wait_with_shutdown)"


section \<open>A run\<close>

text \<open>\<open>run\<close> starts the heartbeat task, runs the loop, and then waits for the heartbeat task, which ends only with a notification.\<close>

datatype run_phase = Looping | Joining "tikv_error + unit" | Returned "tikv_error + unit"

record 's worker_run =
  wx_client :: "'s client"
  wx_state :: worker_state
  wx_phase :: run_phase
  wx_beating :: bool

definition run_start :: "'s client \<Rightarrow> worker_state \<Rightarrow> 's worker_run" where
  "run_start c w =
     \<lparr> wx_client = c, wx_state = w\<lparr>wr_shutdown := sh_subscribe (wr_shutdown w)\<rparr>, wx_phase = Looping, wx_beating = True \<rparr>"

definition phase_after :: "tikv_error option + bool \<Rightarrow> run_phase" where
  "phase_after r =
     (case r of
        Inr False \<Rightarrow> Looping
      | Inr True \<Rightarrow> Joining (Inr ())
      | Inl (Some e) \<Rightarrow> Joining (Inl e)
      | Inl None \<Rightarrow> Looping)"

text \<open>The steps of the loop, of the heartbeat task, and of \<open>run\<close> itself. A turn that waits for a slot is not finished.\<close>

inductive worker_step :: "'s worker_env \<Rightarrow> ('s, 'v) kv \<Rightarrow> 'v codecs \<Rightarrow> worker_setup \<Rightarrow> 's worker_run \<Rightarrow> 's worker_run \<Rightarrow> bool"
  for E K C w where
  turn: "wx_phase s = Looping \<Longrightarrow> run_turn E K C w (wx_client s, wx_state s) = (r, (c, ws)) \<Longrightarrow> r \<noteq> Inl None \<Longrightarrow>
    worker_step E K C w s (s\<lparr>wx_client := c, wx_state := ws, wx_phase := phase_after r\<rparr>)"
| beat: "wx_beating s \<Longrightarrow> heartbeat_tick K C w (wx_client s, wx_state s) = (r, (c, ws)) \<Longrightarrow>
    worker_step E K C w s (s\<lparr>wx_client := c, wx_state := ws\<rparr>)"
| stop: "wx_beating s \<Longrightarrow> sh_notified (wr_shutdown (wx_state s)) \<Longrightarrow> worker_step E K C w s (s\<lparr>wx_beating := False\<rparr>)"
| join: "wx_phase s = Joining r \<Longrightarrow> \<not> wx_beating s \<Longrightarrow> worker_step E K C w s (s\<lparr>wx_phase := Returned r\<rparr>)"

inductive_cases worker_stepE: "worker_step E K C w s s'"

end
