(* ===== verification/Worker_Logic.thy ===== *)
theory Worker_Logic
  imports Worker
begin

text \<open>
  What the worker of \<open>worker/coordinator.rs\<close> does with the units it claims. A turn of its loop in a calm cluster settles the unit
  it claimed, and a cancelled job is never taken off the count of active jobs.
\<close>

section \<open>Programs of the worker\<close>

definition at_state :: "('s client \<Rightarrow> bool) \<Rightarrow> worker_state \<Rightarrow> 's client \<times> worker_state \<Rightarrow> bool" where
  "at_state S w x \<longleftrightarrow> S (fst x) \<and> snd x = w"

lemma call_yields:
  "yields S p (Inr a) S' \<Longrightarrow> yields (at_state S w) (call p) (Inr a) (at_state S' w)"
  "yields S p (Inl e) S' \<Longrightarrow> yields (at_state S w) (call p) (Inl (Some e)) (at_state S' w)"
  by (force simp: yields_def at_state_def call_def map_errM_def handleM_def on_fst_def)+

lemma bump_yields: "yields (at_state S w) (bump f) (Inr ()) (at_state S (w\<lparr>wr_metrics := f (wr_metrics w)\<rparr>))"
  by (simp add: yields_def at_state_def bump_def)

lemma counting_yields: "yields S p (Inr ()) S' \<Longrightarrow> yields S (counting_errors p) (Inr False) S'"
  unfolding counting_errors_def by (erule yields_handle, rule yields_ret)

lemma holding_yields:
  "yields (at_state S w) p r (at_state S' w') \<Longrightarrow>
   yields (at_state S w) (holding_slot p) r (at_state S' (w'\<lparr>wr_slots := slot_release (wr_slots w')\<rparr>))"
  by (force simp: yields_def at_state_def holding_slot_def)


section \<open>A unit is settled\<close>

text \<open>What is reported of a result: nothing, success, or a failure with its message.\<close>

definition report_of :: "tikv_error + processing_result \<Rightarrow> string option option" where
  "report_of r =
     (case r of
        Inl e \<Rightarrow> Some (Some (''Execution error: '' @ display_tikv_error e))
      | Inr (ProcSuccess k n s) \<Rightarrow> Some None
      | Inr (ProcFailed err) \<Rightarrow> if str_contains err ''shutdown'' then None else Some (Some err)
      | Inr ProcCancelled \<Rightarrow> None)"

definition settled :: "timestamp \<Rightarrow> string option \<Rightarrow> work_unit \<Rightarrow> work_unit" where
  "settled now report u = (case report of None \<Rightarrow> wu_complete now u | Some err \<Rightarrow> wu_fail now err u)"

definition settled_metrics :: "string option \<Rightarrow> worker_metrics \<Rightarrow> worker_metrics" where
  "settled_metrics report m =
     dec_active_jobs ((case report of None \<Rightarrow> inc_jobs_completed | Some _ \<Rightarrow> inc_jobs_failed) m)"

text \<open>The store after a report: a failed unit with an attempt left is back in the queue.\<close>

definition settled_store :: "'v codecs \<Rightarrow> string \<Rightarrow> string \<Rightarrow> timestamp \<Rightarrow> string option \<Rightarrow> work_unit \<Rightarrow> (key \<rightharpoonup> 'v) \<Rightarrow> key \<rightharpoonup> 'v" where
  "settled_store C b i now report u m =
     (if wu_status (settled now report u) = WFailed
      then m(unit_key b i \<mapsto> enc (c_unit C) (settled now report u), pending_key b i \<mapsto> raw_bytes C b)
      else m(unit_key b i \<mapsto> enc (c_unit C) (settled now report u)))"

text \<open>The statistics of a successful result are handed to the collector, if there is one; its errors are only logged.\<close>

definition recorded :: "'s worker_env \<Rightarrow> string \<Rightarrow> tikv_error + processing_result \<Rightarrow> ('s client \<Rightarrow> bool) \<Rightarrow> ('s client \<Rightarrow> bool) \<Rightarrow> bool" where
  "recorded E b r S S' \<longleftrightarrow>
     (case r of
        Inr (ProcSuccess k n (Some s)) \<Rightarrow> (case we_collector E of Some f \<Rightarrow> \<exists>q. yields S (f b s) q S' | None \<Rightarrow> S' = S)
      | _ \<Rightarrow> S' = S)"

lemma claimed_started:
  assumes "wu_claim now w v = Inr u"
  shows "wu_batch_id u = wu_batch_id v" "wu_id u = wu_id v" "wu_status u = WProcessing" "wu_owner u = Some w"
  using assms by (auto simp: wu_claim_Inr_iff)

context reliable_backend
begin

lemma complete_yields:
  assumes C: "codecs_ok C" and u: "m (unit_key b i) = Some (enc (c_unit C) u)"
  shows "yields (live m now) (complete_work_unit K C b i) (Inr True) (live (m(unit_key b i \<mapsto> enc (c_unit C) (wu_complete now u))) now)"
proof -
  have c: "decode (c_unit C) msg (enc (c_unit C) u) = Inr u"
    "encode (c_unit C) (wu_complete now u) = Inr (enc (c_unit C) (wu_complete now u))" for msg
    using C by (auto intro: encode_ok decode_ok)
  show ?thesis
    unfolding complete_work_unit_def
    by (rule yields_bind [OF get_yields], simp only: u option.case c bindM_simps,
        rule yields_bind [OF now_yields], simp only: c bindM_simps, rule yields_bind [OF put_yields], rule yields_ret)
qed

text \<open>A report of the worker on a stored unit.\<close>

lemma report_yields:
  assumes C: "codecs_ok C" and u: "m (unit_key b i) = Some (enc (c_unit C) u)"
  shows "yields (at_state (live m now) w) (counting_errors (case report of None \<Rightarrow> complete_work K C b i | Some err \<Rightarrow> fail_work K C b i err))
    (Inr False) (at_state (live (settled_store C b i now report u m) now) (w\<lparr>wr_metrics := settled_metrics report (wr_metrics w)\<rparr>))"
proof (rule counting_yields, cases report)
  case None
  have "wu_status (wu_complete now u) \<noteq> WFailed" by (simp add: wu_complete_def)
  then have store: "settled_store C b i now None u m = m(unit_key b i \<mapsto> enc (c_unit C) (wu_complete now u))"
    by (simp add: settled_store_def settled_def)
  have "yields (at_state (live m now) w) (complete_work K C b i) (Inr ()) (at_state (live (settled_store C b i now None u m) now)
      (w\<lparr>wr_metrics := dec_active_jobs (inc_jobs_completed (wr_metrics w))\<rparr>))"
    unfolding complete_work_def store
    by (rule yields_bind [OF call_yields(1) [OF complete_yields [where m = m, OF C u]]], simp only: if_True,
        rule yields_bind [OF bump_yields], rule yields_post [OF bump_yields]) simp
  then show "yields (at_state (live m now) w) (case report of None \<Rightarrow> complete_work K C b i | Some err \<Rightarrow> fail_work K C b i err) (Inr ())
      (at_state (live (settled_store C b i now report u m) now) (w\<lparr>wr_metrics := settled_metrics report (wr_metrics w)\<rparr>))"
    by (simp add: None settled_metrics_def)
next
  case (Some err)
  have "yields (at_state (live m now) w) (fail_work K C b i err) (Inr ()) (at_state (live (settled_store C b i now (Some err) u m) now)
      (w\<lparr>wr_metrics := dec_active_jobs (inc_jobs_failed (wr_metrics w))\<rparr>))"
    unfolding fail_work_def settled_store_def settled_def option.case
    by (rule yields_bind [OF call_yields(1) [OF fail_yields [where m = m, OF C u]]], simp only: if_True,
        rule yields_bind [OF bump_yields], rule yields_post [OF bump_yields]) simp
  then show "yields (at_state (live m now) w) (case report of None \<Rightarrow> complete_work K C b i | Some err \<Rightarrow> fail_work K C b i err) (Inr ())
      (at_state (live (settled_store C b i now report u m) now) (w\<lparr>wr_metrics := settled_metrics report (wr_metrics w)\<rparr>))"
    by (simp add: Some settled_metrics_def)
qed

end

lemma record_step_yields:
  assumes "recorded E b (Inr (ProcSuccess k n stats)) S S'"
  shows "yields (at_state S w) (case (we_collector E, stats) of
           (Some f, Some s) \<Rightarrow> handleM (call (f b s)) (\<lambda>_. ret ()) ret
         | _ \<Rightarrow> ret ()) (Inr ()) (at_state S' w)"
proof (cases "we_collector E")
  case None
  then show ?thesis using assms by (cases stats) (auto simp: recorded_def yields_ret simp del: ret_simp)
next
  case (Some f)
  show ?thesis
  proof (cases stats)
    case None
    then show ?thesis using assms Some by (auto simp: recorded_def yields_ret simp del: ret_simp)
  next
    case (Some s)
    then obtain q where q: "yields S (f b s) q S'" using assms \<open>we_collector E = Some f\<close> by (auto simp: recorded_def)
    have "yields (at_state S w) (handleM (call (f b s)) (\<lambda>_. ret ()) ret) (Inr ()) (at_state S' w)"
    proof (cases q)
      case (Inl e)
      then show ?thesis using q by (intro yields_handle_err [OF call_yields(2)]) (auto intro: yields_ret simp del: ret_simp)
    next
      case (Inr x)
      then show ?thesis using q by (intro yields_handle [OF call_yields(1)]) (auto intro: yields_ret simp del: ret_simp)
    qed
    then show ?thesis using Some \<open>we_collector E = Some f\<close> by simp
  qed
qed

context reliable_backend
begin

lemma outcome_yields:
  assumes C: "codecs_ok C" and proc: "yields (live m now) (we_processor E u) r (live m2 now2)"
    and rec: "recorded E b r (live m2 now2) (live m3 now2)"
    and kept: "m2 (unit_key b i) = Some (enc (c_unit C) u)" "m3 (unit_key b i) = Some (enc (c_unit C) u)"
    and rep: "report_of r = Some report"
  shows "yields (at_state (live m now) w)
    (handleM (call (we_processor E u))
       (\<lambda>e. counting_errors (fail_work K C b i (''Execution error: '' @ (case e of Some e \<Rightarrow> display_tikv_error e | None \<Rightarrow> []))))
       (handle_execution_result E K C b i))
    (Inr False) (at_state (live (settled_store C b i now2 report u (if report = None then m3 else m2)) now2)
       (w\<lparr>wr_metrics := settled_metrics report (wr_metrics w)\<rparr>))"
proof (cases r)
  case (Inl e)
  then have "report = Some (''Execution error: '' @ display_tikv_error e)" using rep by (simp add: report_of_def)
  then show ?thesis
    using proc report_yields [where m = m2 and report = report and now = now2 and w = w, OF C kept(1)] unfolding Inl
    by (intro yields_handle_err [OF call_yields(2)]) auto
next
  case (Inr res)
  have "yields (at_state (live m2 now2) w) (handle_execution_result E K C b i res) (Inr False)
      (at_state (live (settled_store C b i now2 report u (if report = None then m3 else m2)) now2)
         (w\<lparr>wr_metrics := settled_metrics report (wr_metrics w)\<rparr>))"
  proof (cases res)
    case (ProcSuccess k n stats)
    then have report: "report = None" using rep Inr by (simp add: report_of_def)
    have "recorded E b (Inr (ProcSuccess k n stats)) (live m2 now2) (live m3 now2)" using rec Inr ProcSuccess by simp
    from record_step_yields [OF this, of w] report_yields [where m = m3 and report = None and now = now2 and w = w, OF C kept(2)]
    show ?thesis
      unfolding handle_execution_result_def ProcSuccess processing_result.case report
      by (intro yields_bind) auto
  next
    case (ProcFailed err)
    then have report: "report = Some err" "\<not> str_contains err ''shutdown''"
      using rep Inr by (auto simp: report_of_def split: if_splits)
    then show ?thesis
      using report_yields [where m = m2 and report = report and now = now2 and w = w, OF C kept(1)]
      unfolding handle_execution_result_def ProcFailed processing_result.case by simp
  next
    case ProcCancelled
    then show ?thesis using rep Inr by (simp add: report_of_def)
  qed
  then show ?thesis using proc unfolding Inr by (intro yields_handle [OF call_yields(1)]) auto
qed

lemma turn_yields:
  assumes C: "codecs_ok C" and first: "prefix_entries m pending_prefix = (pending_key b i, x) # rest"
    and b: "b \<noteq> []" "CHR ''/'' \<notin> set b"
    and v: "m (unit_key b i) = Some (enc (c_unit C) v)" "wu_batch_id v = b" "wu_id v = i"
    and claim: "wu_claim now (ws_pod_id w) v = Inr u"
    and free: "unat (wm_active_jobs (wr_metrics ws)) < wc_max_concurrent_jobs (ws_config w)" "\<not> sh_flag (wr_shutdown ws)"
      "slot_acquire (wr_slots ws) = Some (Inr slots)"
    and body: "yields (at_state (live (m(unit_key b i \<mapsto> enc (c_unit C) u, pending_key b i := None)) now)
        (ws\<lparr>wr_metrics := inc_active_jobs (inc_jobs_claimed (wr_metrics ws)), wr_slots := slots\<rparr>))
      (handleM (call (we_processor E u))
         (\<lambda>e. counting_errors (fail_work K C b i (''Execution error: '' @ (case e of Some e \<Rightarrow> display_tikv_error e | None \<Rightarrow> []))))
         (handle_execution_result E K C b i)) r (at_state S' (ws\<lparr>wr_slots := slots, wr_metrics := metrics\<rparr>))"
  shows "yields (at_state (live m now) ws) (run_turn E K C w) r (at_state S' (ws\<lparr>wr_metrics := metrics\<rparr>))"
proof -
  let ?m = "m(unit_key b i \<mapsto> enc (c_unit C) u, pending_key b i := None)"
  let ?ws = "ws\<lparr>wr_metrics := inc_active_jobs (inc_jobs_claimed (wr_metrics ws))\<rparr>"
  have ids: "wu_batch_id u = b" "wu_id u = i" using claimed_started [OF claim] v by simp_all
  have taken: "yields (at_state (live m now) ws) (claim_work K C w) (Inr (Some u)) (at_state (live ?m now) ?ws)"
    unfolding claim_work_def
    by (rule yields_bind [OF call_yields(1) [OF claim_first_yields [where m = m, OF C first b v(1) claim]]], simp only: option.case,
        rule yields_bind [OF bump_yields], rule yields_bind [OF bump_yields], rule yields_post [OF yields_ret]) simp
  have done_with: "yields (at_state (live ?m now) ?ws) (process_work_unit E K C u) r (at_state S' (ws\<lparr>wr_metrics := metrics\<rparr>))"
  proof -
    have "yields (at_state (live ?m now) (?ws\<lparr>wr_slots := slots\<rparr>)) (holding_slot
        (handleM (call (we_processor E u))
           (\<lambda>e. counting_errors (fail_work K C b i (''Execution error: '' @ (case e of Some e \<Rightarrow> display_tikv_error e | None \<Rightarrow> []))))
           (handle_execution_result E K C b i))) r (at_state S' (ws\<lparr>wr_metrics := metrics\<rparr>))"
      by (rule yields_post [OF holding_yields [OF yields_pre [OF body]]]) (simp_all add: slot_release_acquire [OF free(3)])
    then show ?thesis
      using free(2,3) by (simp add: process_work_unit_def ids yields_def at_state_def)
  qed
  have inner: "yields (at_state (live m now) ws) (bindM (claim_work K C w)
      (\<lambda>r. case r of Some u \<Rightarrow> process_work_unit E K C u | None \<Rightarrow> wait_with_shutdown)) r (at_state S' (ws\<lparr>wr_metrics := metrics\<rparr>))"
    by (rule yields_bind [OF taken], simp only: option.case, rule done_with)
  have "run_turn E K C w y = bindM (claim_work K C w)
      (\<lambda>r. case r of Some u \<Rightarrow> process_work_unit E K C u | None \<Rightarrow> wait_with_shutdown) y" if "snd y = ws" for y
    using free(1) that by (simp add: run_turn_def)
  then show ?thesis using inner by (simp add: yields_def at_state_def)
qed

end


text \<open>C39: a worker settles what it claims. In a calm cluster, when a worker with a free slot and no shutdown request finds a
  claimable unit at the head of the queue, its processor leaves the store calm and the unit alone, and the result is one the worker
  reports (an error, success, or a failure whose message does not contain \<open>shutdown\<close>; not a cancellation), one turn of its loop
  claims the unit and stores it completed, or failed with the error, back in the queue if it has an attempt left; the slot
  is given back and the number of active jobs is what it was.\<close>

theorem worker_settles_unit:
  assumes rel: "reliable_backend K contents fresh pend calm" and C: "codecs_ok C"
    and first: "prefix_entries m pending_prefix = (pending_key b i, x) # rest" and b: "b \<noteq> []" "CHR ''/'' \<notin> set b"
    and v: "m (unit_key b i) = Some (enc (c_unit C) v)" "wu_batch_id v = b" "wu_id v = i"
    and claim: "wu_claim now (ws_pod_id w) v = Inr u"
    and free: "unat (wm_active_jobs (wr_metrics ws)) < wc_max_concurrent_jobs (ws_config w)" "\<not> sh_flag (wr_shutdown ws)"
      "\<not> sp_closed (wr_slots ws)" "0 < sp_permits (wr_slots ws)"
    and proc: "yields (client_at contents calm (m(unit_key b i \<mapsto> enc (c_unit C) u, pending_key b i := None)) now)
      (we_processor E u) r (client_at contents calm m2 now2)" and rep: "report_of r = Some report"
    and rec: "recorded E b r (client_at contents calm m2 now2) (client_at contents calm m3 now2)"
    and kept: "m2 (unit_key b i) = Some (enc (c_unit C) u)" "m3 (unit_key b i) = Some (enc (c_unit C) u)"
    and st: "client_at contents calm m now st"
  shows "\<exists>st' ws'. run_turn E K C w (st, ws) = (Inr False, (st', ws')) \<and>
    contents (cl_world st') = settled_store C b i now2 report u (if report = None then m3 else m2) \<and>
    contents (cl_world st') (unit_key b i) = Some (enc (c_unit C) (settled now2 report u)) \<and>
    wm_active_jobs (wr_metrics ws') = wm_active_jobs (wr_metrics ws) \<and> wr_slots ws' = wr_slots ws \<and>
    wm_jobs_completed (wr_metrics ws') = wm_jobs_completed (wr_metrics ws) + (if report = None then 1 else 0) \<and>
    wm_jobs_failed (wr_metrics ws') = wm_jobs_failed (wr_metrics ws) + (if report = None then 0 else 1)"
proof -
  let ?slots = "(wr_slots ws)\<lparr>sp_permits := sp_permits (wr_slots ws) - 1\<rparr>"
  let ?metrics = "settled_metrics report (inc_active_jobs (inc_jobs_claimed (wr_metrics ws)))"
  let ?m = "settled_store C b i now2 report u (if report = None then m3 else m2)"
  have slots: "slot_acquire (wr_slots ws) = Some (Inr ?slots)" using free(3,4) by (simp add: slot_acquire_def)
  have "yields (at_state (client_at contents calm m now) ws) (run_turn E K C w) (Inr False)
      (at_state (client_at contents calm ?m now2) (ws\<lparr>wr_metrics := ?metrics\<rparr>))"
    by (rule reliable_backend.turn_yields [OF rel C first b v claim free(1,2) slots])
       (rule yields_post [OF reliable_backend.outcome_yields [where i = i, OF rel C proc rec kept rep]], cases report, simp_all)
  from yieldsD [OF this, of "(st, ws)"] st obtain st' where
    run: "run_turn E K C w (st, ws) = (Inr False, (st', ws\<lparr>wr_metrics := ?metrics\<rparr>))" "client_at contents calm ?m now2 st'"
    by (auto simp: at_state_def)
  have "contents (cl_world st') = ?m" using run(2) by (simp add: client_at_def)
  moreover have "?m (unit_key b i) = Some (enc (c_unit C) (settled now2 report u))"
    by (simp add: settled_store_def)
  moreover have "wm_active_jobs ?metrics = wm_active_jobs (wr_metrics ws)"
    "wm_jobs_completed ?metrics = wm_jobs_completed (wr_metrics ws) + (if report = None then 1 else 0)"
    "wm_jobs_failed ?metrics = wm_jobs_failed (wr_metrics ws) + (if report = None then 0 else 1)"
    by (auto simp: settled_metrics_def metric_defs split: option.splits)
  ultimately show ?thesis using run(1) by (intro exI [of _ st'] exI [of _ "ws\<lparr>wr_metrics := ?metrics\<rparr>"]) simp
qed


section \<open>A cancelled job stays active\<close>

lemma full_worker_waits:
  assumes "wc_max_concurrent_jobs (ws_config w) \<le> unat (wm_active_jobs (wr_metrics (snd x)))"
  shows "run_turn E K C w x = (Inr (sh_notified (wr_shutdown (snd x))), x)"
  using assms by (simp add: run_turn_def wait_with_shutdown_def)

text \<open>a cancelled job is never taken off the count. When the processor of a worker that runs one job at a time answers
  that the job was cancelled, the turn ends without a report: the unit stays Processing under this worker, and every
  later turn, whatever the store then holds, claims nothing and changes nothing.\<close>

theorem cancelled_job_blocks_worker:
  assumes rel: "reliable_backend K contents fresh pend calm" and C: "codecs_ok C"
    and first: "prefix_entries m pending_prefix = (pending_key b i, x) # rest" and b: "b \<noteq> []" "CHR ''/'' \<notin> set b"
    and v: "m (unit_key b i) = Some (enc (c_unit C) v)" "wu_batch_id v = b" "wu_id v = i"
    and claim: "wu_claim now (ws_pod_id w) v = Inr u"
    and free: "wm_active_jobs (wr_metrics ws) = 0" "wc_max_concurrent_jobs (ws_config w) = 1" "\<not> sh_flag (wr_shutdown ws)"
      "\<not> sh_notified (wr_shutdown ws)" "\<not> sp_closed (wr_slots ws)" "0 < sp_permits (wr_slots ws)"
    and proc: "yields (client_at contents calm (m(unit_key b i \<mapsto> enc (c_unit C) u, pending_key b i := None)) now)
      (we_processor E u) (Inr ProcCancelled) (client_at contents calm m2 now2)"
    and kept: "m2 (unit_key b i) = Some (enc (c_unit C) u)" and st: "client_at contents calm m now st"
  shows "\<exists>st' ws'. run_turn E K C w (st, ws) = (Inr False, (st', ws')) \<and>
    contents (cl_world st') (unit_key b i) = Some (enc (c_unit C) u) \<and> wu_status u = WProcessing \<and> wu_owner u = Some (ws_pod_id w) \<and>
    (\<forall>st''. run_turn E K C w (st'', ws') = (Inr False, (st'', ws')))"
proof -
  let ?slots = "(wr_slots ws)\<lparr>sp_permits := sp_permits (wr_slots ws) - 1\<rparr>"
  let ?metrics = "inc_active_jobs (inc_jobs_claimed (wr_metrics ws))"
  have slots: "slot_acquire (wr_slots ws) = Some (Inr ?slots)" using free(5,6) by (simp add: slot_acquire_def)
  have cap: "unat (wm_active_jobs (wr_metrics ws)) < wc_max_concurrent_jobs (ws_config w)" using free(1,2) by simp
  have "yields (at_state (client_at contents calm m now) ws) (run_turn E K C w) (Inr False)
      (at_state (client_at contents calm m2 now2) (ws\<lparr>wr_metrics := ?metrics\<rparr>))"
    by (rule reliable_backend.turn_yields [OF rel C first b v claim cap free(3) slots],
        rule yields_handle [OF call_yields(1) [OF proc]])
       (simp add: handle_execution_result_def yields_def at_state_def)
  from yieldsD [OF this, of "(st, ws)"] st obtain st' where
    run: "run_turn E K C w (st, ws) = (Inr False, (st', ws\<lparr>wr_metrics := ?metrics\<rparr>))" "client_at contents calm m2 now2 st'"
    by (auto simp: at_state_def)
  have "run_turn E K C w (st'', ws\<lparr>wr_metrics := ?metrics\<rparr>) = (Inr False, (st'', ws\<lparr>wr_metrics := ?metrics\<rparr>))" for st''
    using full_worker_waits [of w "(st'', ws\<lparr>wr_metrics := ?metrics\<rparr>)"] free(1,2,4) by (simp add: metric_defs)
  then show ?thesis using run kept claimed_started [OF claim] by (auto simp: client_at_def)
qed

section \<open>A worker on a small queue\<close>

definition sample_setup :: worker_setup where
  "sample_setup = \<lparr> ws_pod_id = ''w1'', ws_config = default_worker_config \<rparr>"

definition sample_unit :: work_unit where
  "sample_unit = work_unit_with_id 0 ''u1'' ''jobs:b'' [] [] []"

definition sample_claimed :: work_unit where
  "sample_claimed = sample_unit\<lparr>wu_status := WProcessing, wu_owner := Some ''w1'', wu_attempts := 1, wu_updated_at := 9\<rparr>"

definition fixed_env :: "processing_result \<Rightarrow> 's worker_env" where
  "fixed_env r = \<lparr> we_processor = (\<lambda>_. ret r), we_collector = None \<rparr>"

lemma sample_queue:
  "map_of demo_queue (unit_key ''jobs:b'' ''u1'') = Some (enc (c_unit mem_codecs) sample_unit)"
  "wu_batch_id sample_unit = ''jobs:b''" "wu_id sample_unit = ''u1''" "wu_claim 9 (ws_pod_id sample_setup) sample_unit = Inr sample_claimed"
  by (simp_all add: demo_queue_def enc_def mem_codecs_def mem_codec_def sample_unit_def sample_claimed_def sample_setup_def work_unit_with_id_def
      wu_claim_Inr_iff wu_is_claimable_def wus_defs default_max_attempts_def)

lemma sample_worker:
  "unat (wm_active_jobs (wr_metrics (coordinator_new default_worker_config))) < wc_max_concurrent_jobs (ws_config sample_setup)"
  "\<not> sh_flag (wr_shutdown (coordinator_new default_worker_config))" "\<not> sh_notified (wr_shutdown (coordinator_new default_worker_config))"
  "\<not> sp_closed (wr_slots (coordinator_new default_worker_config))" "0 < sp_permits (wr_slots (coordinator_new default_worker_config))"
  by (simp_all add: coordinator_new_def worker_metrics_new_def sample_setup_def default_worker_config_def shutdown_handler_new_def slot_pool_new_def)

theorem worker_settles_unit_witness:
  "\<exists>st' ws'. run_turn (fixed_env (ProcFailed ''boom'')) mem_kv mem_codecs sample_setup
      (demo_client (demo_store demo_queue []) 9, coordinator_new default_worker_config) = (Inr False, (st', ws')) \<and>
    mem_contents (cl_world st') (unit_key ''jobs:b'' ''u1'') = Some (enc (c_unit mem_codecs) (wu_fail 9 ''boom'' sample_claimed)) \<and>
    mem_contents (cl_world st') (pending_key ''jobs:b'' ''u1'') \<noteq> None \<and> wm_jobs_failed (wr_metrics ws') = 1"
proof -
  let ?m = "(map_of demo_queue)(unit_key ''jobs:b'' ''u1'' \<mapsto> enc (c_unit mem_codecs) sample_claimed, pending_key ''jobs:b'' ''u1'' := None)"
  let ?S = "client_at mem_contents mem_calm ?m 9"
  have "yields ?S (we_processor (fixed_env (ProcFailed ''boom'')) sample_claimed) (Inr (ProcFailed ''boom'')) ?S"
    by (simp add: fixed_env_def yields_def)
  moreover have "report_of (Inr (ProcFailed ''boom'')) = Some (Some ''boom'')"
    by (simp add: report_of_def str_contains_def)
  moreover have "recorded (fixed_env (ProcFailed ''boom'')) ''jobs:b'' (Inr (ProcFailed ''boom'')) ?S ?S" by (simp add: recorded_def)
  moreover have "?m (unit_key ''jobs:b'' ''u1'') = Some (enc (c_unit mem_codecs) sample_claimed)" by simp
  ultimately obtain st' ws' where run: "run_turn (fixed_env (ProcFailed ''boom'')) mem_kv mem_codecs sample_setup
      (demo_client (demo_store demo_queue []) 9, coordinator_new default_worker_config) = (Inr False, (st', ws'))"
    and store: "mem_contents (cl_world st') = settled_store mem_codecs ''jobs:b'' ''u1'' 9 (Some ''boom'') sample_claimed ?m"
      "wm_jobs_failed (wr_metrics ws') = wm_jobs_failed (wr_metrics (coordinator_new default_worker_config)) + 1"
    using worker_settles_unit [OF mem.reliable_backend_axioms mem_codecs_ok demo_queue_first _ _ sample_queue sample_worker(1,2,4,5) _ _ _ _ _
        demo_client_at [of demo_queue 9], where E = "fixed_env (ProcFailed ''boom'')" and r = "Inr (ProcFailed ''boom'')" and ?m2.0 = ?m and ?m3.0 = ?m
          and ?now2.0 = 9 and report = "Some ''boom''"]
    by auto
  have "wu_status (wu_fail 9 ''boom'' sample_claimed) = WFailed"
    by (simp add: wu_fail_def sample_claimed_def sample_unit_def work_unit_with_id_def default_max_attempts_def word_le_nat_alt)
  then show ?thesis
    using run store by (simp add: settled_store_def settled_def coordinator_new_def worker_metrics_new_def)
qed

theorem cancelled_job_blocks_worker_witness:
  "\<exists>st' ws'. run_turn (fixed_env ProcCancelled) mem_kv mem_codecs sample_setup
      (demo_client (demo_store demo_queue []) 9, coordinator_new default_worker_config) = (Inr False, (st', ws')) \<and>
    (\<forall>st''. run_turn (fixed_env ProcCancelled) mem_kv mem_codecs sample_setup (st'', ws') = (Inr False, (st'', ws')))"
proof -
  let ?m = "(map_of demo_queue)(unit_key ''jobs:b'' ''u1'' \<mapsto> enc (c_unit mem_codecs) sample_claimed, pending_key ''jobs:b'' ''u1'' := None)"
  have "yields (client_at mem_contents mem_calm ?m 9) (we_processor (fixed_env ProcCancelled) sample_claimed) (Inr ProcCancelled)
      (client_at mem_contents mem_calm ?m 9)"
    by (simp add: fixed_env_def yields_def)
  moreover have "?m (unit_key ''jobs:b'' ''u1'') = Some (enc (c_unit mem_codecs) sample_claimed)" by simp
  moreover have "wm_active_jobs (wr_metrics (coordinator_new default_worker_config)) = 0" "wc_max_concurrent_jobs (ws_config sample_setup) = 1"
    by (simp_all add: coordinator_new_def worker_metrics_new_def sample_setup_def default_worker_config_def)
  ultimately show ?thesis
    using cancelled_job_blocks_worker [OF mem.reliable_backend_axioms mem_codecs_ok demo_queue_first _ _ sample_queue _ _ sample_worker(2-5) _ _
        demo_client_at [of demo_queue 9], where E = "fixed_env ProcCancelled" and ?m2.0 = ?m and ?now2.0 = 9]
    by auto
qed

end
