(* ===== verification/Spec2Isabelle.thy ===== *)
theory Spec2Isabelle
  imports Work_Claims Lock_Manager Overlap Controller_Logic Client_Properties Episode_Allocator Heartbeats Finalizer
    Ring_Buffer Rgb_Yuv Scanner_Discovery Storage_Url Cached_Logic
    Frame_Alignment Lerobot_Logic Frame_Pool Stage_Order Worker_Logic
begin

text \<open>
  A verification library for roboflow, which converts robot recordings to training datasets, on one machine or on a
  cluster of workers that share their state through a TiKV store. The sources are under \<open>src/crates\<close>.

  \<^bold>\<open>The program.\<close> A batch is submitted to the \<^emph>\<open>controller\<close>; the \<^emph>\<open>scanner\<close>, whose leader holds a lock, lists its sources and
  creates work units; \<^emph>\<open>workers\<close> claim units, send \<^emph>\<open>heartbeats\<close> and report results; the \<^emph>\<open>reaper\<close> gives units of dead workers
  back; the \<^emph>\<open>episode allocator\<close> hands out episode numbers; the \<^emph>\<open>finalizer\<close> and the \<^emph>\<open>merge coordinator\<close> turn the outputs of a
  finished batch into one dataset. All of them go through the \<^emph>\<open>client\<close>, which puts a circuit breaker, retries and timeouts
  in front of the store. A worker converts one recording with the \<^emph>\<open>pipeline executor\<close>: messages become aligned frames,
  which a \<^emph>\<open>dataset writer\<close> stores as Parquet tables, videos and metadata, read and written through the \<^emph>\<open>storage\<close> layer.

  \<^bold>\<open>Conventions.\<close> \<open>RF_Prelude\<close> has the shared vocabulary: machine integers are words of their width, so that arithmetic wraps
  as in the release profile; \<open>panics\<close> are results that a caller does not see; programs over a state return an error or a
  value and the new state (\<open>bindM\<close>, \<open>handleM\<close>, \<open>foldM\<close>) and are reasoned about with Hoare triples (\<open>valid\<close>, \<open>preserves\<close>, \<open>total\<close>,
  \<open>yields\<close>). \<open>Text_Parsing\<close> has the operations of \<open>str\<close>. Floating-point values are an abstract type with the
  operations as an argument; progress fractions of a batch, which are only reported, are real numbers. Time is an argument or part of the state.

  \<^bold>\<open>Store and client\<close> (\<open>tikv/*\<close>). \<open>Kv_Backend\<close> has what is not in the repository, the package \<open>tikv_client\<close> and the
  serializers, as parameters with the documented laws in locales: a call may fail, and a failed commit may have taken
  effect. \<open>Tikv_Error\<close>, \<open>Tikv_Config\<close>, \<open>Tikv_Key\<close>, \<open>Key_Range\<close>, \<open>Tikv_Schema\<close>, \<open>Circuit_Breaker\<close> and \<open>Tikv_Client\<close> follow the files
  of the same names; \<open>Client_Logic\<close> and \<open>Client_Properties\<close> say what each operation does to the committed data, and \<open>Lock_Manager\<close>
  that two unexpired leases of a resource never coexist as long as requests do not overlap. \<open>Overlap\<close> is about operations that
  do: its locale \<open>shared_backend\<close> lets other clients commit between any two calls of a transaction, whose reads, as the package
  documents, take no lock. Claims, locks and swaps decide on the state at their start; two that overlap can both succeed.

  \<^bold>\<open>Batches and workers\<close> (\<open>batch/*\<close>, \<open>state\<close>, \<open>scanner.rs\<close>, \<open>reaper.rs\<close>, \<open>heartbeat.rs\<close>, \<open>episode/*\<close>, \<open>finalizer/*\<close>, \<open>merge/*\<close>,
  \<open>worker/*\<close>, \<open>stats/*\<close>).
  \<open>State_Lifecycle\<close> is the contract of state machines, interpreted by \<open>Work_Unit\<close> and \<open>Batch_Status\<close>; \<open>Batch_Spec\<close> validates
  submissions. \<open>Batch_Controller\<close> with \<open>Controller_Logic\<close> shows that a submission is stored whole or not at all, and what
  reconciliation and cancellation make of a stored batch. \<open>Work_Claims\<close> shows that claims and reports that do not overlap
  leave a unit at most one worker. \<open>Scanner\<close>, \<open>Scanner_Logic\<close> and \<open>Scanner_Discovery\<close>: what discovery may change, that it completes in a calm
  cluster, and that a failed source can be skipped. \<open>Zombie_Reaper\<close>, \<open>Heartbeats\<close>, \<open>Episode_Allocator\<close>, \<open>Finalizer\<close>, \<open>Merge_Schema\<close>
  and \<open>Merge_Coordinator\<close>: orphans only are reclaimed, allocations that do not overlap grant an episode number once, a merge
  completes its batch. \<open>Worker\<close> and \<open>Worker_Logic\<close> (with \<open>slot_pool.rs\<close> and \<open>shutdown.rs\<close>): one turn of a worker's loop settles
  the unit it claims, a worker whose job is cancelled keeps it. \<open>Episode_Stats\<close>: the statistics that workers
  store and their combination, over an arbitrary single-precision arithmetic; with exact arithmetic the formulas give the
  statistics of all samples.

  \<^bold>\<open>Storage\<close> (\<open>roboflow-storage\<close>). \<open>Storage_Types\<close>, \<open>Storage_Url\<close> (parsing and printing of URLs, the factory), \<open>Local_Paths\<close> (no path
  leaves its root), \<open>Retry_Policy\<close> (backoff and retried operations). \<open>File_System\<close> has what is used of \<open>std::fs\<close>, with calls that
  may fail; \<open>Local_Storage\<close> has the local backend over it: what is written is read back, a multipart upload is atomic,
  and it keeps the contract \<open>object_store\<close>. \<open>Cached_Storage\<close> and \<open>Cached_Logic\<close>: the cache in front of a backend with its upload
  workers, whose single actions (receive, check, upload, count) are interleaved with the client; eviction keeps what is pending, reads go through, queued uploads arrive,
  but objects larger than the cache cannot be read and a drop starts no upload.

  \<^bold>\<open>Conversion\<close> (\<open>roboflow-pipeline\<close>, \<open>roboflow-dataset\<close>). \<open>Aligned_Frame\<close> has messages and frames, \<open>Dataset_Pipeline\<close> the executor
  over an arbitrary writer, \<open>Pipeline_Logic\<close> its refinement by a plan without a buffer. \<open>Frame_Buffer\<close> and \<open>Frame_Alignment\<close>: the
  alignment buffer and the aligner; the data of a message is handed out unless a later message of its feature and frame
  overwrites it; frame times are bounded. \<open>Lerobot_Config\<close>, \<open>Lerobot_Table\<close>, \<open>Lerobot_Disk\<close>
  and \<open>Lerobot_Writer\<close>: the LeRobot writer over a disk whose calls may fail; \<open>Lerobot_Logic\<close>: writer and executor together, over
  the contract \<open>counting_writer\<close>. \<open>Ring_Buffer\<close>: the lock-free queue between capture and encoding, as interleaved loads and
  stores.

  \<^bold>\<open>Media\<close> (\<open>roboflow-media\<close>). \<open>Image_Format\<close> (header scans), \<open>Video_Frame\<close> (frames and buffers of one size), \<open>Rgb_Yuv\<close> (scalar
  and vector colour conversion agree with a reference) and \<open>Frame_Pool\<close> (slots of one allocation handed out by interleaved
  loads and exchanges of a bit mask; a slot has one owner).

  \<^bold>\<open>Stage executor\<close> (\<open>roboflow-executor\<close>). \<open>Stage_Pipeline\<close> has pipelines as graphs of stages, their builder with Kahn's order,
  and the executor that runs the stages in waves; \<open>Stage_Order\<close> shows which pipelines are accepted, that no task is started
  before the tasks it depends on, and that executions complete, for every order in which the hash maps are iterated.

  \<^bold>\<open>Bounds and fuel.\<close> Loops that retry have the number of attempts of the configuration; loops of background tasks are one
  iteration per step; the timed loops of the ring buffer take the number of attempts as an argument, a flush of
  the cache the readings of its clock. The walks down a directory tree are bounded by the longest path in it. The loop
  of Kahn's algorithm is a partial function, shown to return on every input of the builder. Every other recursion has a
  termination proof. No theorem rests on fuel that could run out.

  \<^bold>\<open>Not modelled.\<close> The merge executor, the sources and the encoders and decoders are calls of FFmpeg, Polars, MCAP, bag and
  object-store packages; so are the cloud uploads in parts. The slots of the stage scheduler and the
  catalog are not modelled yet. Logging, tracing, serialization by derive and the command line are left out; elapsed times
  that are only reported are left out. Interleavings are sequentially consistent.
\<close>

end
